(* ===== verification/C_Prelude.thy ===== *)
theory C_Prelude
  imports Main "HOL-Library.Word" "HOL-Library.Monad_Syntax"
begin

text \<open>
  What the components share: the machine integers of \<^verbatim>\<open>common/types.h\<close>, byte
  buffers with the bounds of C arrays, the little-endian stream macros of
  \<^verbatim>\<open>vendor/common/hci_transport/hci_tr_def.h\<close> and the free-running clock of
  \<^verbatim>\<open>drivers/B85/timer.h\<close>.

  An operation that reads or writes an array returns an \<open>option\<close>: \<open>None\<close> stands for an
  access outside the array, which is undefined behaviour in C.  Every ordinary result of the
  code (an error status, a discarded packet, an early return) is a value under \<open>Some\<close>.
\<close>

unbundle bit_operations_syntax

section \<open>Machine integers\<close>

type_synonym u8 = "8 word"
type_synonym u16 = "16 word"
type_synonym u32 = "32 word"

lemma unat_bound:
  "unat (x :: u8) < 256" "unat (y :: u16) < 65536" "unat (z :: u32) < 4294967296"
  using unsigned_less [of x, where ?'a = nat] unsigned_less [of y, where ?'a = nat]
    unsigned_less [of z, where ?'a = nat] by simp_all

text \<open>Facts about array accesses, kept in one collection for the simplifier.\<close>

named_theorems buf_simps

section \<open>Byte buffers\<close>

definition get_byte :: "'a list \<Rightarrow> nat \<Rightarrow> 'a option" where
  "get_byte buf i = (if i < length buf then Some (buf ! i) else None)"

definition put_byte :: "'a list \<Rightarrow> nat \<Rightarrow> 'a \<Rightarrow> 'a list option" where
  "put_byte buf i b = (if i < length buf then Some (buf[i := b]) else None)"

definition get_bytes :: "'a list \<Rightarrow> nat \<Rightarrow> nat \<Rightarrow> 'a list option" where
  "get_bytes buf i n = (if i + n \<le> length buf then Some (take n (drop i buf)) else None)"

text \<open>\<open>memcpy(buf + i, xs, length xs)\<close>\<close>

definition put_bytes :: "'a list \<Rightarrow> nat \<Rightarrow> 'a list \<Rightarrow> 'a list option" where
  "put_bytes buf i xs =
     (if i + length xs \<le> length buf
      then Some (take i buf @ xs @ drop (i + length xs) buf) else None)"

lemma get_byte_Some [buf_simps]: "i < length buf \<Longrightarrow> get_byte buf i = Some (buf ! i)"
  by (simp add: get_byte_def)

lemma put_byte_Some [buf_simps]: "i < length buf \<Longrightarrow> put_byte buf i b = Some (buf[i := b])"
  by (simp add: put_byte_def)

lemma put_byte_length: "put_byte buf i b = Some buf' \<Longrightarrow> length buf' = length buf"
  by (auto simp: put_byte_def split: if_splits)

lemma put_bytes_length: "put_bytes buf i xs = Some buf' \<Longrightarrow> length buf' = length buf"
  by (auto simp: put_bytes_def split: if_splits)

lemma get_bytes_length: "get_bytes buf i n = Some xs \<Longrightarrow> length xs = n"
  by (auto simp: get_bytes_def split: if_splits)

lemma put_bytes_Some [buf_simps]:
  "i + length xs \<le> length buf \<Longrightarrow>
   put_bytes buf i xs = Some (take i buf @ xs @ drop (i + length xs) buf)"
  by (simp add: put_bytes_def)

lemma get_bytes_Some [buf_simps]:
  "i + n \<le> length buf \<Longrightarrow> get_bytes buf i n = Some (take n (drop i buf))"
  by (simp add: get_bytes_def)

lemma get_put_bytes_same:
  "put_bytes buf i xs = Some buf' \<Longrightarrow> get_bytes buf' i (length xs) = Some xs"
  by (auto simp: put_bytes_def get_bytes_def split: if_splits)

lemma get_put_bytes_other:
  assumes "put_bytes buf i xs = Some buf'" and "j + n \<le> i \<or> i + length xs \<le> j"
  shows "get_bytes buf' j n = get_bytes buf j n"
proof -
  have fits: "i + length xs \<le> length buf"
    and buf': "buf' = take i buf @ xs @ drop (i + length xs) buf"
    using assms(1) by (auto simp: put_bytes_def split: if_splits)
  have "take n (drop j buf') = take n (drop j buf)" if "j + n \<le> length buf"
    using assms(2)
  proof
    assume "j + n \<le> i"
    then show ?thesis
      using fits by (simp add: buf' take_drop)
  next
    assume "i + length xs \<le> j"
    then show ?thesis
      using fits by (simp add: buf')
  qed
  then show ?thesis
    using fits by (simp add: get_bytes_def buf')
qed

lemma take_Suc_update:
  "i < length buf \<Longrightarrow> take (Suc i) (buf[i := b]) = take i buf @ [b]"
  by (simp add: take_Suc_conv_app_nth)

section \<open>Little-endian streams (hci_tr_def.h)\<close>

definition BYTES_TO_UINT16 :: "u8 \<Rightarrow> u8 \<Rightarrow> u16" where
  "BYTES_TO_UINT16 p0 p1 = ucast p0 + push_bit 8 (ucast p1)"

definition BYTES_TO_UINT32 :: "u8 \<Rightarrow> u8 \<Rightarrow> u8 \<Rightarrow> u8 \<Rightarrow> u32" where
  "BYTES_TO_UINT32 p0 p1 p2 p3 =
     ucast p0 + push_bit 8 (ucast p1) + push_bit 16 (ucast p2) + push_bit 24 (ucast p3)"

definition UINT16_TO_BSTREAM :: "u16 \<Rightarrow> u8 list" where
  "UINT16_TO_BSTREAM n = [ucast n, ucast (drop_bit 8 n)]"

definition UINT32_TO_BSTREAM :: "u32 \<Rightarrow> u8 list" where
  "UINT32_TO_BSTREAM n =
     [ucast n, ucast (drop_bit 8 n), ucast (drop_bit 16 n), ucast (drop_bit 24 n)]"

lemma length_UINT16_TO_BSTREAM [simp]: "length (UINT16_TO_BSTREAM n) = 2"
  by (simp add: UINT16_TO_BSTREAM_def)

lemma length_UINT32_TO_BSTREAM [simp]: "length (UINT32_TO_BSTREAM n) = 4"
  by (simp add: UINT32_TO_BSTREAM_def)

lemma BYTES_TO_UINT16_or: "BYTES_TO_UINT16 a b = ucast a OR push_bit 8 (ucast b)"
  unfolding BYTES_TO_UINT16_def
  by (rule disjunctive_add)
    (auto simp: bit_push_bit_iff bit_ucast_iff dest: bit_imp_le_length)

lemma BYTES_TO_UINT32_or:
  "BYTES_TO_UINT32 a b c d =
     ucast a OR push_bit 8 (ucast b) OR push_bit 16 (ucast c) OR push_bit 24 (ucast d)"
proof -
  have 1: "ucast a + push_bit 8 (ucast b) = (ucast a OR push_bit 8 (ucast b) :: u32)"
    by (rule disjunctive_add)
      (auto simp: bit_push_bit_iff bit_ucast_iff dest: bit_imp_le_length)
  have 2: "(ucast a OR push_bit 8 (ucast b)) + push_bit 16 (ucast c) =
      (ucast a OR push_bit 8 (ucast b) OR push_bit 16 (ucast c) :: u32)"
    by (subst disjunctive_add)
      (auto simp: bit_push_bit_iff bit_ucast_iff bit_or_iff or.assoc dest: bit_imp_le_length)
  have 3: "(ucast a OR push_bit 8 (ucast b) OR push_bit 16 (ucast c)) + push_bit 24 (ucast d) =
      (ucast a OR push_bit 8 (ucast b) OR push_bit 16 (ucast c) OR push_bit 24 (ucast d) :: u32)"
    by (subst disjunctive_add)
      (auto simp: bit_push_bit_iff bit_ucast_iff bit_or_iff or.assoc dest: bit_imp_le_length)
  show ?thesis
    by (simp add: BYTES_TO_UINT32_def 1 2 3)
qed

lemma uint16_bytes_id: "BYTES_TO_UINT16 (ucast n) (ucast (drop_bit 8 n)) = n"
  unfolding BYTES_TO_UINT16_or
  by (rule bit_word_eqI) (auto simp: bit_or_iff bit_push_bit_iff bit_ucast_iff bit_drop_bit_eq)

lemma uint32_bytes_id:
  "BYTES_TO_UINT32 (ucast n) (ucast (drop_bit 8 n)) (ucast (drop_bit 16 n))
     (ucast (drop_bit 24 n)) = n"
  unfolding BYTES_TO_UINT32_or
proof (rule bit_word_eqI)
  fix i assume "i < LENGTH(32)"
  then consider "i < 8" | "8 \<le> i" "i < 16" | "16 \<le> i" "i < 24" | "24 \<le> i" "i < 32"
    by fastforce
  then show "bit (ucast (ucast n :: u8) OR push_bit 8 (ucast (ucast (drop_bit 8 n) :: u8)) OR
      push_bit 16 (ucast (ucast (drop_bit 16 n) :: u8)) OR
      push_bit 24 (ucast (ucast (drop_bit 24 n) :: u8)) :: u32) i = bit n i"
    by cases (auto simp: bit_or_iff bit_push_bit_iff bit_ucast_iff bit_drop_bit_eq)
qed

text \<open>Masking with a low-order numeral keeps that many bits.\<close>

lemma and_low_mask:
  "x AND 1 = take_bit 1 x" "x AND 3 = take_bit 2 x" "x AND 7 = take_bit 3 x"
  "x AND 15 = take_bit 4 x" "x AND 255 = take_bit 8 x" "x AND 4095 = take_bit 12 x"
  for x :: "'a::len word"
  by (simp_all add: take_bit_eq_mask mask_eq_exp_minus_1)

lemma word_xor_cancel [simp]: "x XOR c = y XOR c \<longleftrightarrow> x = y" for x y c :: "'a::len word"
proof
  assume "x XOR c = y XOR c"
  then have "(x XOR c) XOR c = (y XOR c) XOR c"
    by (rule arg_cong)
  then show "x = y"
    by (simp add: xor.assoc)
qed simp

lemmas word_bit_simps =
  bit_or_iff bit_and_iff bit_xor_iff bit_not_iff bit_push_bit_iff bit_drop_bit_eq bit_ucast_iff
  bit_take_bit_iff

section \<open>The clock (drivers/B85/timer.h)\<close>

text \<open>\<open>clock_time()\<close> is a free-running 32-bit counter of 16 ticks per microsecond: its value
  is an argument \<open>now\<close> of everything that reads it.\<close>

definition clock_time_exceed :: "u32 \<Rightarrow> u32 \<Rightarrow> u32 \<Rightarrow> bool" where
  "clock_time_exceed now ref us \<longleftrightarrow> us * 16 < now - ref"

lemma uint32_stream_id:
  "BYTES_TO_UINT32 (UINT32_TO_BSTREAM n ! 0) (UINT32_TO_BSTREAM n ! 1) (UINT32_TO_BSTREAM n ! 2)
     (UINT32_TO_BSTREAM n ! 3) = n"
  by (simp add: UINT32_TO_BSTREAM_def uint32_bytes_id)

section \<open>Searches\<close>

text \<open>A loop that looks for the first of \<open>m\<close> entries from \<open>i\<close> on that satisfies \<open>p\<close>.\<close>

fun first_index :: "('a \<Rightarrow> bool) \<Rightarrow> nat \<Rightarrow> nat \<Rightarrow> 'a list \<Rightarrow> nat option option" where
  "first_index p 0 i xs = Some None"
| "first_index p (Suc m) i xs = do { x \<leftarrow> get_byte xs i; if p x then Some (Some i) else first_index p m (i + 1) xs }"

lemma first_index_spec:
  "i + m \<le> length xs \<Longrightarrow> \<exists>r. first_index p m i xs = Some r \<and>
    (case r of None \<Rightarrow> \<forall>k. i \<le> k \<and> k < i + m \<longrightarrow> \<not> p (xs ! k)
     | Some j \<Rightarrow> i \<le> j \<and> j < i + m \<and> p (xs ! j) \<and> (\<forall>k. i \<le> k \<and> k < j \<longrightarrow> \<not> p (xs ! k)))"
proof (induction m arbitrary: i)
  case (Suc m)
  then have i: "i < length xs"
    by simp
  show ?case
  proof (cases "p (xs ! i)")
    case True
    then show ?thesis
      using i by (auto simp: get_byte_def)
  next
    case False
    from Suc.IH [of "i + 1"] Suc.prems obtain r where r: "first_index p m (i + 1) xs = Some r"
      "case r of None \<Rightarrow> \<forall>k. i + 1 \<le> k \<and> k < i + 1 + m \<longrightarrow> \<not> p (xs ! k)
       | Some j \<Rightarrow> i + 1 \<le> j \<and> j < i + 1 + m \<and> p (xs ! j) \<and> (\<forall>k. i + 1 \<le> k \<and> k < j \<longrightarrow> \<not> p (xs ! k))"
      by auto
    have "i \<le> k \<longleftrightarrow> k = i \<or> i + 1 \<le> k" for k
      by auto
    then show ?thesis
      using False r i by (intro exI [of _ r]) (auto simp: get_byte_def split: option.splits)
  qed
qed auto

lemma first_indexE:
  assumes "i + m \<le> length xs"
  obtains (none) "first_index p m i xs = Some None" "\<And>k. i \<le> k \<Longrightarrow> k < i + m \<Longrightarrow> \<not> p (xs ! k)"
  | (some) j where "first_index p m i xs = Some (Some j)" "i \<le> j" "j < i + m" "p (xs ! j)" "\<And>k. i \<le> k \<Longrightarrow> k < j \<Longrightarrow> \<not> p (xs ! k)"
proof -
  obtain r where r: "first_index p m i xs = Some r"
    "case r of None \<Rightarrow> \<forall>k. i \<le> k \<and> k < i + m \<longrightarrow> \<not> p (xs ! k)
     | Some j \<Rightarrow> i \<le> j \<and> j < i + m \<and> p (xs ! j) \<and> (\<forall>k. i \<le> k \<and> k < j \<longrightarrow> \<not> p (xs ! k))"
    using first_index_spec [OF assms] by blast
  show ?thesis
  proof (cases r)
    case None
    then show ?thesis
      using none r by simp
  next
    case (Some j)
    then show ?thesis
      using some [of j] r by simp
  qed
qed

end
