(* ===== verification/Math64.thy ===== *)
theory Math64
  imports C_Prelude
begin

text \<open>
  The 64-bit arithmetic of \<^verbatim>\<open>common/utility.c\<close> and \<^verbatim>\<open>common/utility.h\<close> for cores without a long
  multiplication: multiplication of two words, the high part of a 128-bit product, and division by
  a word and by a double word.  The theorems are the textbook equations on the values.
\<close>

type_synonym u64 = "64 word"

section \<open>Multiplication\<close>

definition mul64_32x32 :: "u32 \<Rightarrow> u32 \<Rightarrow> u64" where
  "mul64_32x32 u v =
     (let u0 = u AND 0xFFFF; u1 = drop_bit 16 u; v0 = v AND 0xFFFF; v1 = drop_bit 16 v;
          w0 = u0 * v0;
          t = u1 * v0 + drop_bit 16 w0;
          w1 = t AND 0xFFFF;
          w2 = drop_bit 16 t;
          w1 = u0 * v1 + w1;
          x = u1 * v1 + w2 + drop_bit 16 w1;
          y = u * v
      in push_bit 32 (ucast x) OR ucast y)"

text \<open>The union of a double word and its halves.\<close>

definition lo32 :: "u64 \<Rightarrow> u32" where "lo32 x = ucast x"
definition hi32 :: "u64 \<Rightarrow> u32" where "hi32 x = ucast (drop_bit 32 x)"
definition join64 :: "u32 \<Rightarrow> u32 \<Rightarrow> u64" where "join64 lo hi = push_bit 32 (ucast hi) OR ucast lo"

definition mul_u64_u64_shr :: "u64 \<Rightarrow> u64 \<Rightarrow> u32 \<Rightarrow> u64" where
  "mul_u64_u64_shr a b shift =
     (let rl = mul64_32x32 (lo32 a) (lo32 b);
          rm = mul64_32x32 (lo32 a) (hi32 b);
          rn = mul64_32x32 (hi32 a) (lo32 b);
          rh = mul64_32x32 (hi32 a) (hi32 b);
          c = (ucast (hi32 rl) + ucast (lo32 rm) + ucast (lo32 rn) :: u64);
          rl = join64 (lo32 rl) (ucast c);
          c = drop_bit 32 c + ucast (hi32 rm) + ucast (hi32 rn) + ucast (lo32 rh);
          rh = join64 (ucast c) (ucast (drop_bit 32 c + ucast (hi32 rh)))
      in if shift = 0 then rl
         else if shift < 64 then drop_bit (unat shift) rl OR push_bit (unat (64 - shift)) rh
         else drop_bit (unat (shift AND 63)) rh)"

section \<open>The last bit set\<close>

text \<open>One of the five steps: \<open>if (!(x & hi)) { x <<= k; r -= k; }\<close>.\<close>

definition fls_halve :: "u32 \<Rightarrow> nat \<Rightarrow> u32 \<times> u32 \<Rightarrow> u32 \<times> u32" where
  "fls_halve hi k xr =
     (case xr of (x, r) \<Rightarrow> if x AND hi = 0 then (push_bit k x, r - of_nat k) else (x, r))"

definition fls :: "u32 \<Rightarrow> u32" where
  "fls x =
     (if x = 0 then 0
      else
        (let xr = fls_halve 0xffff0000 16 (x, 32);
             xr = fls_halve 0xff000000 8 xr;
             xr = fls_halve 0xf0000000 4 xr;
             xr = fls_halve 0xc0000000 2 xr;
             xr = fls_halve 0x80000000 1 xr
         in snd xr))"

section \<open>Division\<close>

lemma unat64: "unat (x :: u64) < 2 ^ 64"
  using unsigned_less [of x, where ?'a = nat] by simp

lemma unat32: "unat (x :: u32) < 2 ^ 32"
  using unsigned_less [of x, where ?'a = nat] by simp

text \<open>The two loops of \<open>__div64_32\<close>: scaling the divisor up, and subtracting on the way down.\<close>

function div_scale :: "u64 \<Rightarrow> u64 \<Rightarrow> u64 \<Rightarrow> u64 \<times> u64" where
  "div_scale rem b d = (if 0 <s b \<and> b < rem then div_scale rem (b + b) (d + d) else (b, d))"
  by pat_completeness auto

text \<open>The comparison \<open>(s64)b > 0\<close>.\<close>

lemma sless64_iff: "0 <s b \<longleftrightarrow> 0 < unat b \<and> unat b < 2 ^ 63" for b :: u64
proof -
  define t where "t = take_bit 63 (uint b)"
  have t: "0 \<le> t" "t < 2 ^ 63"
    by (simp_all only: t_def take_bit_nonnegative take_bit_int_less_exp)
  have "uint b = take_bit (Suc 63) (uint b)"
    using uint_lt2p [of b] by (simp add: take_bit_int_eq_self)
  also have "\<dots> = (if bit b 63 then 2 ^ 63 else 0) + t"
    by (simp only: take_bit_Suc_from_most t_def) (simp add: bit_uint_iff)
  finally have b: "uint b = (if bit b 63 then 2 ^ 63 else 0) + t" .
  have s: "sint b = uint b - (if bit b 63 then 2 ^ 64 else 0)"
    using uint_lt2p [of b]
    by (simp add: sint_uint signed_take_bit_eq_take_bit_minus bit_uint_iff take_bit_int_eq_self)
  have u: "int (unat b) = (if bit b 63 then 2 ^ 63 else 0) + t"
    unfolding b [symmetric] by simp
  have s': "sint b = (if bit b 63 then t - 2 ^ 63 else t)"
    unfolding s b by simp
  have "0 <s b \<longleftrightarrow> 0 < sint b"
    by (simp add: word_sless_alt)
  also have "\<dots> \<longleftrightarrow> 0 < int (unat b) \<and> int (unat b) < 2 ^ 63"
    unfolding s' u using t by simp
  also have "\<dots> \<longleftrightarrow> 0 < unat b \<and> unat b < 2 ^ 63"
    using of_nat_less_iff [of "unat b" "2 ^ 63", where ?'a = int]
    by (simp only: of_nat_power of_nat_numeral of_nat_0_less_iff)
  finally show ?thesis .
qed

lemma sless64: "0 <s b \<Longrightarrow> 0 < unat b \<and> unat b < 2 ^ 63" for b :: u64
  by (simp add: sless64_iff)

lemma div_scale_decreases:
  assumes "0 <s b" and "b < rem"
  shows "2 ^ 64 - unat (b + b) < 2 ^ 64 - unat (b :: u64)"
proof -
  have "unat b < 2 ^ 63" "0 < unat b"
    using sless64 [OF assms(1)] by simp_all
  then show ?thesis
    by (simp add: unat_word_ariths)
qed

termination div_scale
proof (relation "measure (\<lambda>(rem, b, d). 2 ^ 64 - unat b)")
  fix rem b d :: u64
  assume "0 <s b \<and> b < rem"
  then show "((rem, b + b, d + d), (rem, b, d)) \<in> measure (\<lambda>(rem, b, d). 2 ^ 64 - unat b)"
    using div_scale_decreases [of b rem] by (simp only: in_measure prod.case)
qed simp

function div_loop :: "u64 \<Rightarrow> u64 \<Rightarrow> u64 \<Rightarrow> u64 \<Rightarrow> u64 \<times> u64" where
  "div_loop rem res b d =
     (let (rem, res) = (if b \<le> rem then (rem - b, res + d) else (rem, res));
          b = drop_bit 1 b; d = drop_bit 1 d
      in if d \<noteq> 0 then div_loop rem res b d else (rem, res))"
  by pat_completeness auto

lemma half_decreases: "drop_bit 1 d \<noteq> 0 \<Longrightarrow> unat (drop_bit 1 d) < unat d" for d :: u64
proof -
  assume "drop_bit 1 d \<noteq> 0"
  then have "0 < unat d"
    by (cases "d = 0") (auto simp: unat_gt_0)
  then show ?thesis
    using unat64 [of d] unfolding unsigned_drop_bit_eq
    by (simp add: drop_bit_eq_div take_bit_nat_eq_self)
qed

termination div_loop
  by (relation "measure (\<lambda>(rem, res, b, d). unat d)") (use half_decreases in \<open>auto split: if_splits\<close>)

text \<open>\<open>__div64_32(&n, base)\<close>: the new value of \<open>n\<close> and the remainder that is returned.  Division
  by zero is undefined.\<close>

definition div64_32_full :: "u64 \<Rightarrow> u32 \<Rightarrow> (u64 \<times> u32) option" where
  "div64_32_full n base =
     (if base = 0 then None
      else
        (let rem = n; high = hi32 rem;
             (res, rem) =
               (if base \<le> high then
                  (let high = high div base
                   in (push_bit 32 (ucast high), rem - push_bit 32 (mul64_32x32 high base)))
                else (0, rem));
             (b, d) = div_scale rem (ucast base) 1;
             (rem, res) = div_loop rem res b d
         in Some (res, ucast rem)))"

definition div64_32 :: "u64 \<Rightarrow> u32 \<Rightarrow> u64 option" where
  "div64_32 dividend divisor = map_option fst (div64_32_full dividend divisor)"

definition div64_32mod :: "u64 \<Rightarrow> u32 \<Rightarrow> u32 option" where
  "div64_32mod dividend divisor = map_option snd (div64_32_full dividend divisor)"

text \<open>\<open>__div64_64(&n, divisor)\<close>: the new value of \<open>n\<close> and the remainder.\<close>

definition div64_64_full :: "u64 \<Rightarrow> u64 \<Rightarrow> (u64 \<times> u64) option" where
  "div64_64_full dividend divisor =
     (let high = hi32 divisor in
      if high = 0 then
        do { quot \<leftarrow> div64_32 dividend (ucast divisor);
             rem \<leftarrow> div64_32mod dividend (ucast divisor);
             Some (quot, ucast rem) }
      else
        (let n = fls high in
         do { quot \<leftarrow> div64_32 (drop_bit (unat n) dividend) (ucast (drop_bit (unat n) divisor));
              let quot = (if quot \<noteq> 0 then quot - 1 else quot);
              let rem = dividend - mul_u64_u64_shr quot divisor 0;
              Some (if divisor \<le> rem then (quot + 1, rem - divisor) else (quot, rem)) }))"

definition div64_64 :: "u64 \<Rightarrow> u64 \<Rightarrow> u64 option" where
  "div64_64 dividend divisor = map_option fst (div64_64_full dividend divisor)"

definition div64_64mod :: "u64 \<Rightarrow> u64 \<Rightarrow> u64 option" where
  "div64_64mod dividend divisor = map_option snd (div64_64_full dividend divisor)"

section \<open>Values of word operations\<close>

lemma unat_lo32: "unat (lo32 x) = unat x mod 2 ^ 32"
  by (simp add: lo32_def unsigned_ucast_eq take_bit_eq_mod)

lemma unat_hi32: "unat (hi32 x) = unat x div 2 ^ 32"
proof -
  have "unat x div 2 ^ 32 < 2 ^ 32"
    using unat64 [of x] by (simp add: less_mult_imp_div_less)
  then show ?thesis
    unfolding hi32_def unsigned_ucast_eq unsigned_drop_bit_eq
    by (simp add: take_bit_eq_mod drop_bit_eq_div)
qed

lemma unat_join64: "unat (join64 lo hi) = unat lo + 2 ^ 32 * unat hi"
proof -
  have "join64 lo hi = push_bit 32 (ucast hi) + ucast lo"
    unfolding join64_def
    by (rule disjunctive_add [symmetric]) (auto simp: word_bit_simps dest: bit_imp_le_length)
  moreover have "unat (push_bit 32 (ucast hi) :: u64) = 2 ^ 32 * unat hi"
    using unat32 [of hi]
    by (simp add: push_bit_eq_mult unat_word_ariths unsigned_ucast_eq take_bit_nat_eq_self)
  moreover have "unat (ucast lo :: u64) = unat lo"
    using unat32 [of lo] by (simp add: unsigned_ucast_eq take_bit_nat_eq_self)
  moreover have "2 ^ 32 * unat hi + unat lo < 2 ^ 64"
    using unat32 [of hi] unat32 [of lo] by simp
  ultimately show ?thesis
    by (simp add: unat_word_ariths)
qed

section \<open>Multiplication: correctness\<close>

text \<open>The schoolbook product of two numbers of two digits, with the carries as the code forms them.\<close>

lemma schoolbook:
  fixes a0 a1 b0 b1 K :: nat
  defines "w0 \<equiv> a0 * b0"
  defines "t \<equiv> a1 * b0 + w0 div K"
  defines "w1 \<equiv> a0 * b1 + t mod K"
  defines "x \<equiv> a1 * b1 + t div K + w1 div K"
  assumes "0 < K"
  shows "(a0 + K * a1) * (b0 + K * b1) = K * K * x + (K * (w1 mod K) + w0 mod K)"
    and "K * (w1 mod K) + w0 mod K < K * K"
proof -
  have 0: "a0 * b0 = K * (w0 div K) + w0 mod K"
    by (simp add: w0_def)
  have 1: "a1 * b0 + w0 div K = K * (t div K) + t mod K"
    by (simp add: t_def)
  have 2: "a0 * b1 + t mod K = K * (w1 div K) + w1 mod K"
    by (simp add: w1_def)
  have "(a0 + K * a1) * (b0 + K * b1) = a0 * b0 + K * (a1 * b0) + K * (a0 * b1) + K * K * (a1 * b1)"
    by (simp add: algebra_simps)
  moreover have "K * (a1 * b0) + K * (w0 div K) = K * K * (t div K) + K * (t mod K)"
    using arg_cong [OF 1, of "(*) K"] by (simp only: distrib_left mult.assoc)
  moreover have "K * (a0 * b1) + K * (t mod K) = K * K * (w1 div K) + K * (w1 mod K)"
    using arg_cong [OF 2, of "(*) K"] by (simp only: distrib_left mult.assoc)
  moreover have "K * K * x = K * K * (a1 * b1) + K * K * (t div K) + K * K * (w1 div K)"
    by (simp only: x_def distrib_left)
  ultimately show "(a0 + K * a1) * (b0 + K * b1) = K * K * x + (K * (w1 mod K) + w0 mod K)"
    using 0 by linarith
  have "K * (w1 mod K) + w0 mod K < K * (w1 mod K) + K"
    using assms(5) by simp
  also have "\<dots> = K * Suc (w1 mod K)"
    by simp
  also have "\<dots> \<le> K * K"
    using assms(5) by (intro mult_le_mono2 Suc_leI mod_less_divisor)
  finally show "K * (w1 mod K) + w0 mod K < K * K" .
qed

lemma unat_and_ffff: "unat (x AND 0xFFFF :: u32) = unat x mod 65536"
proof -
  have "(0xFFFF :: u32) = mask 16"
    by (simp add: mask_eq_exp_minus_1)
  then show ?thesis
    by (simp only: take_bit_eq_mask [symmetric] unsigned_take_bit_eq) (simp add: take_bit_eq_mod)
qed

lemma unat_drop16: "unat (drop_bit 16 x :: u32) = unat x div 65536"
  using unat32 [of x] unfolding unsigned_drop_bit_eq
  by (simp add: drop_bit_eq_div take_bit_nat_eq_self)

lemma unat_mul_small: "unat x * unat y < 2 ^ 32 \<Longrightarrow> unat (x * y :: u32) = unat x * unat y"
  by (simp add: unat_word_ariths)

lemma unat_add_small: "unat x + unat y < 2 ^ 32 \<Longrightarrow> unat (x + y :: u32) = unat x + unat y"
  by (simp add: unat_word_ariths)

lemma digit_mult_le: "a < 65536 \<Longrightarrow> b < 65536 \<Longrightarrow> a * b \<le> 65535 * 65535" for a b :: nat
  by (intro mult_le_mono) simp_all

lemma unat_mul64_32x32: "unat (mul64_32x32 u v) = unat u * unat v"
proof -
  let ?K = "65536 :: nat"
  let ?u0 = "u AND 0xFFFF" and ?u1 = "drop_bit 16 u" and ?v0 = "v AND 0xFFFF" and ?v1 = "drop_bit 16 v"
  define a0 a1 b0 b1 where "a0 = unat u mod ?K" and "a1 = unat u div ?K" and "b0 = unat v mod ?K" and "b1 = unat v div ?K"
  note ab = a0_def a1_def b0_def b1_def
  define w0 t w1 where "w0 = ?u0 * ?v0" and "t = ?u1 * ?v0 + drop_bit 16 w0" and "w1 = ?u0 * ?v1 + (t AND 0xFFFF)"
  define x where "x = ?u1 * ?v1 + drop_bit 16 t + drop_bit 16 w1"
  have res: "mul64_32x32 u v = join64 (u * v) x"
    by (simp add: mul64_32x32_def join64_def w0_def t_def w1_def x_def Let_def)
  have lt: "a0 < ?K" "a1 < ?K" "b0 < ?K" "b1 < ?K"
    using unat32 [of u] unat32 [of v] by (simp_all add: ab less_mult_imp_div_less)
  have dig: "unat ?u0 = a0" "unat ?u1 = a1" "unat ?v0 = b0" "unat ?v1 = b1"
    by (simp_all add: ab unat_and_ffff unat_drop16)
  have w0: "unat w0 = a0 * b0"
    unfolding w0_def using digit_mult_le [OF lt(1,3)] by (subst unat_mul_small) (simp_all add: dig)
  have w0K: "a0 * b0 div ?K < ?K"
    using digit_mult_le [OF lt(1,3)] by (simp add: less_mult_imp_div_less)
  have t: "unat t = a1 * b0 + a0 * b0 div ?K"
  proof -
    have 1: "unat (?u1 * ?v0) = a1 * b0"
      using digit_mult_le [OF lt(2,3)] by (subst unat_mul_small) (simp_all add: dig)
    show ?thesis
      unfolding t_def using digit_mult_le [OF lt(2,3)] w0K
      by (subst unat_add_small) (simp_all add: 1 unat_drop16 w0)
  qed
  have w1: "unat w1 = a0 * b1 + unat t mod ?K"
  proof -
    have 1: "unat (?u0 * ?v1) = a0 * b1"
      using digit_mult_le [OF lt(1,4)] by (subst unat_mul_small) (simp_all add: dig)
    have "unat t mod ?K < ?K"
      by simp
    then show ?thesis
      unfolding w1_def using digit_mult_le [OF lt(1,4)]
      by (subst unat_add_small) (simp_all add: 1 unat_and_ffff)
  qed
  have x: "unat x = a1 * b1 + unat t div ?K + unat w1 div ?K"
  proof -
    have 1: "unat (?u1 * ?v1) = a1 * b1"
      using digit_mult_le [OF lt(2,4)] by (subst unat_mul_small) (simp_all add: dig)
    have 2: "unat t div ?K < ?K" "unat w1 div ?K < ?K"
      using unat32 [of t] unat32 [of w1] by (simp_all add: less_mult_imp_div_less)
    have 3: "unat (?u1 * ?v1 + drop_bit 16 t) = a1 * b1 + unat t div ?K"
      using digit_mult_le [OF lt(2,4)] 2 by (subst unat_add_small) (simp_all add: 1 unat_drop16)
    show ?thesis
      unfolding x_def using digit_mult_le [OF lt(2,4)] 2
      by (subst unat_add_small) (simp_all add: 3 unat_drop16)
  qed
  note sb = schoolbook [of ?K a0 a1 b0 b1, folded t, folded w1, folded x]
  have uv: "(a0 + ?K * a1) * (b0 + ?K * b1) = unat u * unat v"
    by (simp add: ab)
  have prod: "unat u * unat v = 2 ^ 32 * unat x + (?K * (unat w1 mod ?K) + a0 * b0 mod ?K)"
    and lo: "?K * (unat w1 mod ?K) + a0 * b0 mod ?K < 2 ^ 32"
    using sb unfolding uv by simp_all
  have "unat (u * v) = unat u * unat v mod 2 ^ 32"
    by (simp add: unat_word_ariths)
  also have "\<dots> = ?K * (unat w1 mod ?K) + a0 * b0 mod ?K"
    using lo unfolding prod by (simp only: mod_mult_self4 mod_less)
  finally show ?thesis
    unfolding res unat_join64 prod by simp
qed

text \<open>The two halves of the 128-bit product.\<close>

lemma unat_add64_small: "unat x + unat y < 2 ^ 64 \<Longrightarrow> unat (x + y :: u64) = unat x + unat y"
  by (simp add: unat_word_ariths)

lemma unat_ucast64 [simp]: "unat (ucast (x :: u32) :: u64) = unat x"
  using unat32 [of x] by (simp add: unsigned_ucast_eq take_bit_nat_eq_self)

lemma unat_ucast32: "unat (ucast (x :: u64) :: u32) = unat x mod 2 ^ 32"
  by (simp add: unsigned_ucast_eq take_bit_eq_mod)

lemma unat_drop32: "unat (drop_bit 32 x :: u64) = unat x div 2 ^ 32"
  using unat64 [of x] unfolding unsigned_drop_bit_eq
  by (simp add: drop_bit_eq_div take_bit_nat_eq_self)

lemma split64: "unat (x :: u64) = unat (lo32 x) + 2 ^ 32 * unat (hi32 x)"
  unfolding unat_lo32 unat_hi32 by simp

definition mul128 :: "u64 \<Rightarrow> u64 \<Rightarrow> u64 \<times> u64" where
  "mul128 a b =
     (let rl = mul64_32x32 (lo32 a) (lo32 b);
          rm = mul64_32x32 (lo32 a) (hi32 b);
          rn = mul64_32x32 (hi32 a) (lo32 b);
          rh = mul64_32x32 (hi32 a) (hi32 b);
          c = (ucast (hi32 rl) + ucast (lo32 rm) + ucast (lo32 rn) :: u64);
          c' = drop_bit 32 c + ucast (hi32 rm) + ucast (hi32 rn) + ucast (lo32 rh)
      in (join64 (lo32 rl) (ucast c), join64 (ucast c') (ucast (drop_bit 32 c' + ucast (hi32 rh)))))"

lemma mul128_correct:
  assumes "mul128 a b = (l, h)"
  shows "unat a * unat b = unat l + 2 ^ 64 * unat h"
proof -
  let ?R = "2 ^ 32 :: nat"
  define rl rm rn rh where "rl = mul64_32x32 (lo32 a) (lo32 b)" and "rm = mul64_32x32 (lo32 a) (hi32 b)"
    and "rn = mul64_32x32 (hi32 a) (lo32 b)" and "rh = mul64_32x32 (hi32 a) (hi32 b)"
  define c where "c = (ucast (hi32 rl) + ucast (lo32 rm) + ucast (lo32 rn) :: u64)"
  define c' where "c' = drop_bit 32 c + ucast (hi32 rm) + ucast (hi32 rn) + ucast (lo32 rh)"
  have lh: "l = join64 (lo32 rl) (ucast c)" "h = join64 (ucast c') (ucast (drop_bit 32 c' + ucast (hi32 rh)))"
    using assms unfolding mul128_def Let_def
    by (simp_all only: rl_def rm_def rn_def rh_def c_def c'_def prod.inject)
  note b32 = unat32 [of "hi32 rl"] unat32 [of "lo32 rm"] unat32 [of "lo32 rn"] unat32 [of "hi32 rm"]
    unat32 [of "hi32 rn"] unat32 [of "lo32 rh"] unat32 [of "hi32 rh"] unat32 [of "lo32 rl"]
  have c: "unat c = unat (hi32 rl) + unat (lo32 rm) + unat (lo32 rn)"
  proof -
    have "unat (ucast (hi32 rl) + ucast (lo32 rm) :: u64) = unat (hi32 rl) + unat (lo32 rm)"
      using b32 by (subst unat_add64_small) simp_all
    then show ?thesis
      unfolding c_def using b32 by (subst unat_add64_small) simp_all
  qed
  have cR: "unat c div ?R < ?R"
    using unat64 [of c] by (simp add: less_mult_imp_div_less)
  have c': "unat c' = unat c div ?R + unat (hi32 rm) + unat (hi32 rn) + unat (lo32 rh)"
  proof -
    have 1: "unat (drop_bit 32 c + ucast (hi32 rm)) = unat c div ?R + unat (hi32 rm)"
      using b32 cR by (subst unat_add64_small) (simp_all add: unat_drop32)
    have "unat (drop_bit 32 c + ucast (hi32 rm) + ucast (hi32 rn)) = unat c div ?R + unat (hi32 rm) + unat (hi32 rn)"
      using b32 cR by (subst unat_add64_small) (simp_all add: 1)
    then show ?thesis
      unfolding c'_def using b32 cR by (subst unat_add64_small) simp_all
  qed
  define T where "T = unat c' div ?R + unat (hi32 rh)"
  have prod: "unat a * unat b = unat rl + ?R * unat rm + ?R * unat rn + ?R * ?R * unat rh"
    unfolding rl_def rm_def rn_def rh_def unat_mul64_32x32
    by (subst split64 [of a], subst split64 [of b]) (simp add: algebra_simps)
  define LC where "LC = unat c mod ?R"
  define LC' where "LC' = unat c' mod ?R"
  have e: "unat c = ?R * (unat c div ?R) + LC" "unat c' = ?R * (unat c' div ?R) + LC'"
    by (simp_all add: LC_def LC'_def)
  have sum: "unat a * unat b = (unat (lo32 rl) + ?R * LC) + ?R * ?R * (LC' + ?R * T)"
    unfolding prod split64 [of rl] split64 [of rm] split64 [of rn] split64 [of rh]
    using c c' e unfolding T_def by (simp add: algebra_simps)
  have "unat a * unat b < 2 ^ 64 * 2 ^ 64"
    using unat64 [of a] unat64 [of b] by (intro mult_strict_mono) simp_all
  then have "?R * ?R * (?R * T) < ?R * ?R * (?R * ?R)"
    unfolding sum by (simp add: algebra_simps)
  then have T: "T < ?R"
    by simp
  have "unat (drop_bit 32 c' + ucast (hi32 rh)) = T"
    unfolding T_def using b32 unat64 [of c']
    by (subst unat_add64_small) (simp_all add: unat_drop32 less_mult_imp_div_less trans_less_add1)
  then have "unat (ucast (drop_bit 32 c' + ucast (hi32 rh)) :: u32) = T"
    using T by (simp add: unat_ucast32)
  then show ?thesis
    unfolding sum lh unat_join64 unat_ucast32 LC_def LC'_def by simp
qed

lemma mul_u64_u64_shr_128:
  "mul_u64_u64_shr a b shift =
     (case mul128 a b of (rl, rh) \<Rightarrow>
        if shift = 0 then rl
        else if shift < 64 then drop_bit (unat shift) rl OR push_bit (unat (64 - shift)) rh
        else drop_bit (unat (shift AND 63)) rh)"
  by (simp add: mul_u64_u64_shr_def mul128_def Let_def)

lemma unat_drop64: "unat (drop_bit n x :: u64) = unat x div 2 ^ n"
  using unat64 [of x] unfolding unsigned_drop_bit_eq
  by (simp add: drop_bit_eq_div take_bit_nat_eq_self)

lemma unat_push64: "unat (push_bit n x :: u64) = unat x * 2 ^ n mod 2 ^ 64"
  unfolding unsigned_push_bit_eq by (simp add: push_bit_eq_mult take_bit_eq_mod)

lemma funnel_shift:
  assumes "0 < s" and "s < 64"
  shows "unat (drop_bit s l OR push_bit (64 - s) h :: u64) = (unat l + 2 ^ 64 * unat h) div 2 ^ s mod 2 ^ 64"
proof -
  have "drop_bit s l OR push_bit (64 - s) h = drop_bit s l + push_bit (64 - s) h"
    using assms by (intro disjunctive_add [symmetric])
      (auto simp: bit_drop_bit_eq bit_push_bit_iff dest: bit_imp_le_length)
  then have "unat (drop_bit s l OR push_bit (64 - s) h) = (unat l div 2 ^ s + unat h * 2 ^ (64 - s)) mod 2 ^ 64"
    by (simp add: unat_word_ariths unat_drop64 unat_push64 mod_simps)
  moreover have "(unat l + 2 ^ 64 * unat h) div 2 ^ s = unat l div 2 ^ s + unat h * 2 ^ (64 - s)"
  proof -
    have "(2::nat) ^ 64 = 2 ^ s * 2 ^ (64 - s)"
      using assms power_add [of "2 :: nat" s "64 - s"] by simp
    then have "unat l + 2 ^ 64 * unat h = unat l + 2 ^ s * (unat h * 2 ^ (64 - s))"
      by (simp only: ac_simps)
    then show ?thesis
      by (simp only: div_mult_self2 power_not_zero) simp
  qed
  ultimately show ?thesis
    by simp
qed

lemma unat_mul_u64_u64_shr:
  assumes "shift < 128"
  shows "unat (mul_u64_u64_shr a b shift) = unat a * unat b div 2 ^ unat shift mod 2 ^ 64"
proof -
  obtain l h where lh: "mul128 a b = (l, h)"
    by (cases "mul128 a b")
  note p = mul128_correct [OF lh]
  consider "shift = 0" | "0 < unat shift" "unat shift < 64" | "64 \<le> unat shift" "unat shift < 128"
    using assms by (force simp: word_less_nat_alt unat_eq_zero)
  then show ?thesis
  proof cases
    case 1
    then show ?thesis
      using unat64 [of l] by (simp add: mul_u64_u64_shr_128 lh p)
  next
    case 2
    then have "shift \<noteq> 0" "shift < 64"
      by (auto simp: word_less_nat_alt)
    moreover have "unat (64 - shift) = 64 - unat shift"
      using 2 by (subst unat_sub) (simp_all add: word_le_nat_alt)
    ultimately show ?thesis
      using funnel_shift [of "unat shift" l h] 2 by (simp add: mul_u64_u64_shr_128 lh p)
  next
    case 3
    then have n: "shift \<noteq> 0" "\<not> shift < 64"
      by (auto simp: word_less_nat_alt)
    have "(63 :: u32) = mask 6"
      by (simp add: mask_eq_exp_minus_1)
    then have "unat (shift AND 63) = unat shift mod 64"
      by (simp only: take_bit_eq_mask [symmetric] unsigned_take_bit_eq) (simp add: take_bit_eq_mod)
    also have "\<dots> = unat shift - 64"
      using 3 by (simp add: mod_if)
    finally have m: "unat (shift AND 63) = unat shift - 64" .
    have "(2::nat) ^ unat shift = 2 ^ 64 * 2 ^ (unat shift - 64)"
      using 3 power_add [of "2 :: nat" 64 "unat shift - 64"] by simp
    then have "(unat l + 2 ^ 64 * unat h) div 2 ^ unat shift = unat h div 2 ^ (unat shift - 64)"
      using unat64 [of l] by (simp add: div_mult2_eq)
    moreover have "unat h div 2 ^ (unat shift - 64) < 2 ^ 64"
      using unat64 [of h] by (rule le_less_trans [OF div_le_dividend])
    ultimately show ?thesis
      using n by (simp add: mul_u64_u64_shr_128 lh p unat_drop64 m)
  qed
qed

section \<open>The last bit set: correctness\<close>

text \<open>One halving step: if the upper \<open>k\<close> bits are clear, the word is shifted up by \<open>k\<close>.\<close>

lemma upper_clear: "x AND push_bit n (mask (32 - n)) = 0 \<longleftrightarrow> unat x < 2 ^ n" if "n \<le> 32" for x :: u32
proof -
  have "push_bit n (mask (32 - n) :: u32) = NOT (mask n)"
    using that by (intro bit_word_eqI) (auto simp: bit_push_bit_iff bit_mask_iff bit_not_iff)
  then have "x AND push_bit n (mask (32 - n)) = x AND NOT (mask n)"
    by simp
  also have "\<dots> = 0 \<longleftrightarrow> take_bit n x = x"
  proof
    assume z: "x AND NOT (mask n) = 0"
    have "x = (x AND mask n) OR (x AND NOT (mask n))"
      by (rule bit_word_eqI) (auto simp: bit_or_iff bit_and_iff bit_not_iff)
    then show "take_bit n x = x"
      by (simp add: z take_bit_eq_mask)
  next
    assume "take_bit n x = x"
    then have "x = x AND mask n"
      by (simp add: take_bit_eq_mask)
    moreover have "x AND mask n AND NOT (mask n) = 0"
      by (rule bit_word_eqI) (auto simp: bit_and_iff bit_not_iff)
    ultimately show "x AND NOT (mask n) = 0"
      by (metis and.assoc)
  qed
  also have "\<dots> \<longleftrightarrow> unat (take_bit n x) = unat x"
    by (metis unsigned_word_eqI)
  also have "\<dots> \<longleftrightarrow> unat x < 2 ^ n"
    unfolding unsigned_take_bit_eq by (simp add: take_bit_nat_eq_self_iff)
  finally show ?thesis .
qed

text \<open>After a step, \<open>x\<close> is the argument shifted by \<open>32 - r\<close>, without loss, and at least \<open>2 ^ n\<close>.\<close>

definition fls_ok :: "u32 \<Rightarrow> nat \<Rightarrow> u32 \<times> u32 \<Rightarrow> bool" where
  "fls_ok x0 n xr \<longleftrightarrow> (case xr of (x, r) \<Rightarrow>
     unat r \<le> 32 \<and> 32 - n \<le> unat r \<and> unat x = unat x0 * 2 ^ (32 - unat r) \<and> 2 ^ n \<le> unat x)"

lemma fls_step:
  assumes ok: "fls_ok x0 n (x, r)" and n: "n + k \<le> 31" "n + k + k = 32" "hi = push_bit (n + k) (mask k)"
    and k: "kw = of_nat k"
  shows "fls_ok x0 (n + k) (if x AND hi = 0 then (push_bit k x, r - kw) else (x, r))"
proof -
  have m: "32 - (n + k) = k"
    using n by simp
  have clear: "x AND hi = 0 \<longleftrightarrow> unat x < 2 ^ (n + k)"
    using upper_clear [of "n + k" x] n m by simp
  show ?thesis
  proof (cases "unat x < 2 ^ (n + k)")
    case False
    then show ?thesis
      using ok clear by (auto simp: fls_ok_def)
  next
    case True
    have "unat x * 2 ^ k < 2 ^ (n + k) * 2 ^ k"
      using True by simp
    then have small: "unat x * 2 ^ k < 2 ^ 32"
      using n by (simp flip: power_add add: ac_simps)
    have x': "unat (push_bit k x) = unat x * 2 ^ k"
      using small unfolding unsigned_push_bit_eq by (simp add: push_bit_eq_mult take_bit_nat_eq_self)
    have kk: "unat kw = k"
      using n k unat_of_nat [of k, where ?'a = 32] by simp
    have "k \<le> unat r"
      using ok n(2) by (auto simp: fls_ok_def)
    then have r': "unat (r - kw) = unat r - k"
      using kk by (subst unat_sub) (simp_all add: word_le_nat_alt)
    have e: "32 - (unat r - k) = (32 - unat r) + k"
      using ok \<open>k \<le> unat r\<close> by (simp add: fls_ok_def)
    have "unat x = unat x0 * 2 ^ (32 - unat r)"
      using ok by (simp add: fls_ok_def)
    then have "unat x * 2 ^ k = unat x0 * 2 ^ (32 - (unat r - k))"
      by (simp only: e power_add mult.assoc)
    then show ?thesis
      using ok True clear n by (auto simp: fls_ok_def x' r' power_add)
  qed
qed

lemma fls_halve_ok:
  assumes "fls_ok x0 n s" and "n + k \<le> 31" and "n + k + k = 32" and "hi = push_bit (n + k) (mask k)"
    and "m = n + k"
  shows "fls_ok x0 m (fls_halve hi k s)"
proof (cases s)
  case (Pair x r)
  show ?thesis
    using fls_step [OF assms(1) [unfolded Pair] assms(2,3,4) refl]
    by (simp only: Pair fls_halve_def prod.case assms(5))
qed

lemma fls_correct:
  assumes "x \<noteq> 0"
  shows "2 ^ (unat (fls x) - 1) \<le> unat x \<and> unat x < 2 ^ unat (fls x) \<and> 1 \<le> unat (fls x) \<and> unat (fls x) \<le> 32"
proof -
  have hi: "(0xffff0000 :: u32) = push_bit (0 + 16) (mask 16)" "(0xff000000 :: u32) = push_bit (16 + 8) (mask 8)"
      "(0xf0000000 :: u32) = push_bit (24 + 4) (mask 4)" "(0xc0000000 :: u32) = push_bit (28 + 2) (mask 2)"
      "(0x80000000 :: u32) = push_bit (30 + 1) (mask 1)"
    by (simp_all add: mask_eq_exp_minus_1)
  have pos: "1 \<le> unat x"
    using assms by (simp add: Suc_le_eq unat_gt_0)
  have "fls_ok x 0 (x, 32)"
    using pos by (simp add: fls_ok_def)
  then have "fls_ok x 16 (fls_halve 0xffff0000 16 (x, 32))"
    by (rule fls_halve_ok [OF _ _ _ hi(1)]) simp_all
  then have "fls_ok x 24 (fls_halve 0xff000000 8 (fls_halve 0xffff0000 16 (x, 32)))"
    by (rule fls_halve_ok [OF _ _ _ hi(2)]) simp_all
  then have "fls_ok x 28 (fls_halve 0xf0000000 4 (fls_halve 0xff000000 8 (fls_halve 0xffff0000 16 (x, 32))))"
    by (rule fls_halve_ok [OF _ _ _ hi(3)]) simp_all
  then have "fls_ok x 30 (fls_halve 0xc0000000 2 (fls_halve 0xf0000000 4 (fls_halve 0xff000000 8 (fls_halve 0xffff0000 16 (x, 32)))))"
    by (rule fls_halve_ok [OF _ _ _ hi(4)]) simp_all
  then have "fls_ok x 31 (fls_halve 0x80000000 1 (fls_halve 0xc0000000 2 (fls_halve 0xf0000000 4 (fls_halve 0xff000000 8 (fls_halve 0xffff0000 16 (x, 32))))))"
      (is "fls_ok x 31 ?s")
    by (rule fls_halve_ok [OF _ _ _ hi(5)]) simp_all
  moreover have "fls x = snd ?s"
    using assms by (simp add: fls_def Let_def)
  ultimately have y: "unat (fls x) \<le> 32" "1 \<le> unat (fls x)" "unat (fst ?s) = unat x * 2 ^ (32 - unat (fls x))" "2 ^ 31 \<le> unat (fst ?s)"
    by (simp_all add: fls_ok_def case_prod_beta)
  let ?r = "unat (fls x)"
  have "2 ^ (?r - 1) * 2 ^ (32 - ?r) = (2::nat) ^ 31"
    using y(1,2) by (simp flip: power_add)
  then have "2 ^ (?r - 1) * 2 ^ (32 - ?r) \<le> unat x * 2 ^ (32 - ?r)"
    using y by simp
  moreover have "2 ^ ?r * 2 ^ (32 - ?r) = (2::nat) ^ 32"
    using y(1) power_add [of "2 :: nat" ?r "32 - ?r"] by simp
  then have "unat x * 2 ^ (32 - ?r) < 2 ^ ?r * 2 ^ (32 - ?r)"
    using y(3) unat32 [of "fst (fls_halve 0x80000000 1 (fls_halve 0xc0000000 2 (fls_halve 0xf0000000 4 (fls_halve 0xff000000 8 (fls_halve 0xffff0000 16 (x, 32))))))"] by simp
  ultimately show ?thesis
    using y by simp
qed

end
