(* ===== verification/Div64.thy ===== *)
theory Div64
  imports Math64
begin

text \<open>
  The correctness of the division routines of \<^verbatim>\<open>common/utility.c\<close> and the properties of the
  64-bit arithmetic.
\<close>

section \<open>Division by a word\<close>

declare div_scale.simps [simp del] div_loop.simps [simp del]

lemma unat_double: "unat x < 2 ^ 63 \<Longrightarrow> unat (x + x) = 2 * unat x" for x :: u64
  by (simp add: unat_word_ariths)

lemma div_scale_spec:
  assumes "0 < unat b" and "unat d \<le> unat b" and "div_scale rem b d = (b', d')"
  shows "\<exists>j. unat b' = unat b * 2 ^ j \<and> unat d' = unat d * 2 ^ j \<and> unat rem < 2 * unat b'"
  using assms
proof (induction rem b d rule: div_scale.induct)
  case (1 rem b d)
  show ?case
  proof (cases "0 <s b \<and> b < rem")
    case True
    then have small: "unat b < 2 ^ 63" "unat d < 2 ^ 63"
      using sless64 [of b] 1 by auto
    note dbl = unat_double [OF small(1)] unat_double [OF small(2)]
    have "div_scale rem (b + b) (d + d) = (b', d')"
      using 1(4) True by (subst (asm) div_scale.simps) simp
    with 1(1) [OF True] 1(2,3) dbl obtain j where
        "unat b' = unat (b + b) * 2 ^ j" "unat d' = unat (d + d) * 2 ^ j" "unat rem < 2 * unat b'"
      by auto
    then show ?thesis
      unfolding dbl by (intro exI [of _ "Suc j"]) simp
  next
    case False
    then have eq: "b' = b" "d' = d"
      using 1(4) by (subst (asm) div_scale.simps, simp)+
    have "unat rem < 2 * unat b"
      using False 1(2) sless64_iff [of b] unat64 [of rem] by (auto simp: word_less_nat_alt)
    then show ?thesis
      unfolding eq by (intro exI [of _ 0]) simp
  qed
qed

text \<open>One subtraction keeps \<open>res * base + rem\<close> and brings the remainder below the scaled divisor.\<close>

definition div_sub :: "u64 \<Rightarrow> u64 \<Rightarrow> u64 \<Rightarrow> u64 \<Rightarrow> u64 \<times> u64" where
  "div_sub rem res b d = (if b \<le> rem then (rem - b, res + d) else (rem, res))"

lemma div_sub_spec:
  assumes b: "unat b = B * unat d" and B: "0 < B" and rem: "unat rem < 2 * unat b"
    and sum: "unat res * B + unat rem < 2 ^ 64" and sub: "div_sub rem res b d = (rem1, res1)"
  shows "unat res1 * B + unat rem1 = unat res * B + unat rem" and "unat rem1 < unat b"
proof -
  have "unat res1 * B + unat rem1 = unat res * B + unat rem \<and> unat rem1 < unat b"
  proof (cases "b \<le> rem")
    case True
    then have eq: "rem1 = rem - b" "res1 = res + d"
      using sub by (simp_all add: div_sub_def)
    have r: "unat rem1 = unat rem - unat b" and le: "unat b \<le> unat rem"
      using True by (simp_all add: eq unat_sub word_le_nat_alt)
    have n: "(unat res + unat d) * B + (unat rem - unat b) = unat res * B + unat rem"
      using le by (simp add: b algebra_simps)
    have "unat res + unat d \<le> (unat res + unat d) * B"
      using B by simp
    then have "unat res + unat d < 2 ^ 64"
      using n sum by linarith
    then have "unat res1 = unat res + unat d"
      unfolding eq by (rule unat_add64_small)
    then show ?thesis
      using n r rem le by simp
  next
    case False
    then have "rem1 = rem" "res1 = res"
      using sub by (simp_all add: div_sub_def)
    moreover have "unat rem < unat b"
      using False by (simp add: not_le word_less_nat_alt)
    ultimately show ?thesis
      by simp
  qed
  then show "unat res1 * B + unat rem1 = unat res * B + unat rem" and "unat rem1 < unat b"
    by simp_all
qed

lemma div_loop_sub:
  "div_loop rem res b d =
     (case div_sub rem res b d of (rem1, res1) \<Rightarrow>
        if drop_bit 1 d \<noteq> 0 then div_loop rem1 res1 (drop_bit 1 b) (drop_bit 1 d) else (rem1, res1))"
  by (subst div_loop.simps) (simp add: div_sub_def Let_def split: prod.split)

lemma div_loop_spec:
  assumes "unat b = B * 2 ^ j" and "unat d = 2 ^ j" and "0 < B" and "unat rem < 2 * unat b"
    and "unat res * B + unat rem < 2 ^ 64" and "div_loop rem res b d = (rem', res')"
  shows "unat res' * B + unat rem' = unat res * B + unat rem \<and> unat rem' < B"
  using assms
proof (induction j arbitrary: rem res b d)
  case (0 rem res b d)
  obtain rem1 res1 where sub: "div_sub rem res b d = (rem1, res1)"
    by (cases "div_sub rem res b d")
  have "drop_bit 1 d = 0"
    using 0(2) by (simp add: unat_eq_zero [symmetric] unat_drop64)
  then have "rem' = rem1" "res' = res1"
    using 0(6) sub by (simp_all add: div_loop_sub)
  then show ?case
    using div_sub_spec [OF _ 0(3,4,5) sub] 0(1,2) by simp
next
  case (Suc j rem res b d)
  obtain rem1 res1 where sub: "div_sub rem res b d = (rem1, res1)"
    by (cases "div_sub rem res b d")
  have bd: "unat b = B * unat d"
    using Suc.prems(1,2) by simp
  note s = div_sub_spec [OF bd Suc.prems(3,4,5) sub]
  have half: "unat (drop_bit 1 b) = B * 2 ^ j" "unat (drop_bit 1 d) = 2 ^ j"
    using Suc.prems(1,2) by (simp_all add: unat_drop64)
  then have "drop_bit 1 d \<noteq> 0"
    by (metis power_not_zero unat_0 zero_neq_numeral)
  then have loop: "div_loop rem1 res1 (drop_bit 1 b) (drop_bit 1 d) = (rem', res')"
    using Suc.prems(6) sub by (simp add: div_loop_sub [of rem])
  have lt: "unat rem1 < 2 * unat (drop_bit 1 b)"
    using s(2) Suc.prems(1) half by simp
  have sum: "unat res1 * B + unat rem1 < 2 ^ 64"
    using s(1) Suc.prems(5) by simp
  show ?case
    using Suc.IH [OF half Suc.prems(3) lt sum loop] s(1) by simp
qed

lemma div64_32_full_correct:
  assumes "base \<noteq> 0"
  shows "\<exists>q r. div64_32_full n base = Some (q, r) \<and> unat q = unat n div unat base \<and> unat r = unat n mod unat base"
proof -
  let ?B = "unat base" and ?high = "hi32 n"
  have B: "0 < ?B"
    using assms by (simp add: unat_gt_0)
  define res0 rem0 where "res0 = (if base \<le> ?high then push_bit 32 (ucast (?high div base)) else 0 :: u64)"
    and "rem0 = (if base \<le> ?high then n - push_bit 32 (mul64_32x32 (?high div base) base) else n)"
  have high: "2 ^ 32 * unat ?high \<le> unat n"
    by (simp add: unat_hi32)
  have start: "unat res0 * ?B + unat rem0 = unat n"
  proof (cases "base \<le> ?high")
    case True
    let ?h = "?high div base"
    have h: "unat ?h = unat ?high div ?B"
      by (simp add: unat_div)
    have le: "unat ?h * ?B \<le> unat ?high"
      unfolding h by (rule div_times_less_eq_dividend)
    have m: "unat (push_bit 32 (mul64_32x32 ?h base)) = unat ?h * ?B * 2 ^ 32"
    proof -
      have "unat ?h * ?B < 2 ^ 32"
        using le unat32 [of ?high] by (rule le_less_trans)
      then have "unat ?h * ?B * 2 ^ 32 < 2 ^ 64"
        using mult_less_mono1 [of "unat ?h * ?B" "2 ^ 32" "2 ^ 32"] by (simp only: power_add [symmetric]) simp
      then show ?thesis
        unfolding unat_push64 unat_mul64_32x32 by (rule mod_less)
    qed
    have m_le: "unat ?h * ?B * 2 ^ 32 \<le> unat n"
      using le high by simp
    have r: "unat rem0 = unat n - unat ?h * ?B * 2 ^ 32"
      using True m_le unfolding rem0_def by (simp add: unat_sub word_le_nat_alt m)
    have "unat res0 = unat ?h * 2 ^ 32"
      using True unat32 [of ?h] by (simp add: res0_def unat_push64)
    then show ?thesis
      using r m_le by (simp add: ac_simps)
  qed (simp add: res0_def rem0_def)
  obtain b d where sc: "div_scale rem0 (ucast base) 1 = (b, d)"
    by (cases "div_scale rem0 (ucast base) 1")
  from div_scale_spec [OF _ _ sc] B obtain j where j: "unat b = ?B * 2 ^ j" "unat d = 2 ^ j" "unat rem0 < 2 * unat b"
    by auto
  obtain rem1 res1 where lp: "div_loop rem0 res0 b d = (rem1, res1)"
    by (cases "div_loop rem0 res0 b d")
  have sum: "unat res0 * ?B + unat rem0 < 2 ^ 64"
    using start unat64 [of n] by simp
  have fin: "unat res1 * ?B + unat rem1 = unat n" "unat rem1 < ?B"
    using div_loop_spec [OF j(1,2) B j(3) sum lp] start by simp_all
  then have "unat n div ?B = unat res1" "unat n mod ?B = unat rem1"
    by (simp_all flip: fin(1))
  moreover have "unat (ucast rem1 :: u32) = unat rem1"
    using fin(2) unat32 [of base] by (simp add: unat_ucast32)
  moreover have "div64_32_full n base = Some (res1, ucast rem1)"
    using assms sc lp by (auto simp: div64_32_full_def Let_def res0_def rem0_def split: if_splits)
  ultimately show ?thesis
    by auto
qed

lemma word_div_mod_eq:
  assumes "unat q = unat n div unat m" and "unat r = unat n mod unat m"
  shows "q = n div m" and "r = n mod m"
  using assms by (simp_all add: word_unat_eq_iff unat_div unat_mod)

lemma div64_32_full_words:
  assumes "base \<noteq> 0"
  shows "div64_32_full n base = Some (n div ucast base, ucast (n mod ucast base))"
proof -
  from div64_32_full_correct [OF assms, of n] obtain q r where
      r: "div64_32_full n base = Some (q, r)" "unat q = unat n div unat base" "unat r = unat n mod unat base"
    by blast
  then have "q = n div ucast base" "ucast r = n mod ucast base"
    using word_div_mod_eq [of q n "ucast base" "ucast r"] by simp_all
  moreover have "r = ucast (ucast r :: u64)"
    by (rule bit_word_eqI) (auto simp: bit_ucast_iff)
  ultimately show ?thesis
    using r(1) by metis
qed

section \<open>Division by a double word\<close>

text \<open>Dividing the upper parts overestimates the quotient by at most one.\<close>

lemma quotient_estimate:
  fixes u v s :: nat
  assumes u: "u < 2 ^ 64" and s: "1 \<le> s" and v: "2 ^ (31 + s) \<le> v"
  defines "q0 \<equiv> u div 2 ^ s div (v div 2 ^ s)"
  shows "u div v \<le> q0" and "(q0 - 1) * v \<le> u"
proof -
  let ?u' = "u div 2 ^ s" and ?v' = "v div 2 ^ s"
  have "2 ^ 31 * 2 ^ s \<le> v"
    using v by (simp add: power_add)
  then have v': "2 ^ 31 \<le> ?v'"
    by (simp add: less_eq_div_iff_mult_less_eq)
  have vv: "0 < ?v'"
    using v' by (rule less_le_trans [rotated]) simp
  have v_split: "v = ?v' * 2 ^ s + v mod 2 ^ s"
    by (rule div_mult_mod_eq [symmetric])
  have "u div v * (?v' * 2 ^ s) \<le> u div v * v"
    using v_split by (intro mult_le_mono2) linarith
  also have "\<dots> \<le> u"
    by (rule div_times_less_eq_dividend)
  finally have "u div v * ?v' \<le> ?u'"
    by (simp add: less_eq_div_iff_mult_less_eq mult.assoc)
  then show "u div v \<le> q0"
    unfolding q0_def using vv by (simp add: less_eq_div_iff_mult_less_eq)
  have q0v: "q0 * ?v' \<le> ?u'"
    unfolding q0_def by (rule div_times_less_eq_dividend)
  have "q0 * ?v' * 2 ^ s \<le> ?u' * 2 ^ s"
    using q0v by (rule mult_le_mono1)
  also have "\<dots> \<le> u"
    by (rule div_times_less_eq_dividend)
  finally have up: "q0 * ?v' * 2 ^ s \<le> u" .
  have "q0 * 2 ^ (31 + s) \<le> q0 * ?v' * 2 ^ s"
    using v' by (simp only: power_add mult.assoc) (intro mult_le_mono; simp)
  then have "q0 * 2 ^ (31 + s) \<le> u"
    using up by (rule le_trans)
  then have "q0 * 2 ^ (31 + s) < 2 ^ 64"
    using u by simp
  then have small: "q0 * 2 ^ s < 2 ^ 33"
    by (simp add: power_add)
  have "q0 * (v mod 2 ^ s) \<le> v"
  proof (cases "2 \<le> s")
    case True
    have "q0 * (v mod 2 ^ s) \<le> q0 * 2 ^ s"
      by (intro mult_le_mono2 less_imp_le_nat mod_less_divisor) simp
    also have "\<dots> \<le> 2 ^ 33"
      using small by simp
    also have "(2::nat) ^ 33 \<le> 2 ^ (31 + s)"
      using True by (intro power_increasing) simp_all
    finally show ?thesis
      using v by simp
  next
    case False
    then have "s = 1"
      using s by simp
    have "v mod 2 < 2"
      by (rule mod_less_divisor) simp
    then have "v mod 2 \<le> 1"
      by linarith
    then have "v mod 2 ^ s \<le> 1"
      by (simp only: \<open>s = 1\<close> power_one_right)
    then have "q0 * (v mod 2 ^ s) \<le> q0"
      by (metis mult.right_neutral mult_le_mono2)
    also have "q0 \<le> 2 ^ 32"
      using small \<open>s = 1\<close> by simp
    finally show ?thesis
      using v \<open>s = 1\<close> by simp
  qed
  moreover have "q0 * v = q0 * ?v' * 2 ^ s + q0 * (v mod 2 ^ s)"
    using arg_cong [OF v_split, of "(*) q0"] by (simp only: distrib_left mult.assoc)
  ultimately have "q0 * v \<le> u + v"
    using up by linarith
  then show "(q0 - 1) * v \<le> u"
    by (simp add: diff_mult_distrib)
qed

lemma quotient_correct:
  fixes u v q0 :: nat
  assumes "0 < v" and "u div v \<le> q0" and "(q0 - 1) * v \<le> u"
  shows "if v \<le> u - (q0 - 1) * v then u div v = q0 - 1 + 1 \<and> u mod v = u - (q0 - 1) * v - v
         else u div v = q0 - 1 \<and> u mod v = u - (q0 - 1) * v"
proof -
  let ?q = "q0 - 1" and ?r = "u - (q0 - 1) * v"
  have u: "u = ?q * v + ?r"
    using assms(3) by simp
  have "u < (u div v + 1) * v"
    using dividend_less_div_times [OF assms(1), of u] by (simp add: algebra_simps)
  also have "\<dots> \<le> (?q + 2) * v"
    using assms(2) by (intro mult_le_mono1) linarith
  finally have r: "?r < 2 * v"
    using u by (simp add: algebra_simps)
  show ?thesis
  proof (cases "v \<le> ?r")
    case True
    then have "u = (?q + 1) * v + (?r - v)"
      using u by (simp add: algebra_simps)
    moreover have "?r - v < v"
      using r True by simp
    ultimately have "u div v = ?q + 1" "u mod v = ?r - v"
      by (metis add.commute div_mult_self3 div_less add_0 assms(1) less_nat_zero_code,
          metis mod_mult_self3 mod_less)
    then show ?thesis
      using True by simp
  next
    case False
    then have "u div v = ?q" "u mod v = ?r"
      using u assms(1) by (metis add.commute div_mult_self3 div_less add_0 not_le less_nat_zero_code,
          metis mod_mult_self3 mod_less not_le u)
    then show ?thesis
      using False by simp
  qed
qed

lemma div64_64_full_words:
  assumes "v \<noteq> 0"
  shows "div64_64_full u v = Some (u div v, u mod v)"
proof (cases "hi32 v = 0")
  case True
  then have small: "unat v < 2 ^ 32"
    using unat_hi32 [of v] by (simp add: div_eq_0_iff)
  then have lo: "unat (ucast v :: u32) = unat v"
    by (simp add: unat_ucast32)
  then have id: "ucast (ucast v :: u32) = v"
    by (simp add: word_unat_eq_iff)
  have nz: "(ucast v :: u32) \<noteq> 0"
    using assms id by auto
  have "unat (u mod v) < 2 ^ 32"
    using small assms by (simp add: unat_mod unat_gt_0) (meson mod_less_divisor order.strict_trans unat_gt_0)
  then have "ucast (ucast (u mod v) :: u32) = u mod v"
    by (simp add: word_unat_eq_iff unat_ucast32)
  then show ?thesis
    by (simp add: div64_64_full_def True div64_32_def div64_32mod_def div64_32_full_words [OF nz] id)
next
  case False
  let ?n = "unat (fls (hi32 v))"
  note fls = fls_correct [OF False]
  have hi: "unat (hi32 v) = unat v div 2 ^ 32"
    by (rule unat_hi32)
  have n: "1 \<le> ?n" "?n \<le> 32"
    using fls by simp_all
  have "2 ^ (?n - 1) * 2 ^ 32 \<le> unat v"
    using fls unfolding hi by (simp add: less_eq_div_iff_mult_less_eq)
  then have v: "2 ^ (31 + ?n) \<le> unat v"
  proof -
    have "31 + ?n = (?n - 1) + 32"
      using n by linarith
    then show ?thesis
      using \<open>2 ^ (?n - 1) * 2 ^ 32 \<le> unat v\<close> by (simp only: power_add)
  qed
  have "unat v div 2 ^ 32 < 2 ^ ?n"
    using fls unfolding hi by simp
  then have "unat v < 2 ^ ?n * 2 ^ 32"
    by (simp add: div_less_iff_less_mult)
  then have v': "unat v div 2 ^ ?n < 2 ^ 32"
    by (simp add: div_less_iff_less_mult mult.commute)
  define d where "d = (ucast (drop_bit ?n v) :: u32)"
  have d: "unat d = unat v div 2 ^ ?n"
    using v' by (simp add: d_def unat_ucast32 unat_drop64)
  have "(2::nat) ^ ?n \<le> 2 ^ (31 + ?n)"
    by (intro power_increasing) simp_all
  then have "2 ^ ?n \<le> unat v"
    using v by (rule le_trans)
  then have "0 < unat d"
    unfolding d by (simp only: div_greater_zero_iff) simp
  then have dnz: "d \<noteq> 0"
    by auto
  define q0 where "q0 = drop_bit ?n u div ucast d"
  have q0: "unat q0 = unat u div 2 ^ ?n div (unat v div 2 ^ ?n)"
    by (simp add: q0_def unat_div unat_drop64 d)
  note est = quotient_estimate [OF unat64 n(1) v, of u, folded q0]
  define q where "q = (if q0 \<noteq> 0 then q0 - 1 else q0)"
  have q: "unat q = unat q0 - 1"
    by (simp add: q_def unat_minus_one unat_eq_zero)
  have prod: "unat (mul_u64_u64_shr q v 0) = unat q * unat v"
    using est(2) unat64 [of u] by (simp add: unat_mul_u64_u64_shr q)
  define r where "r = u - mul_u64_u64_shr q v 0"
  have r: "unat r = unat u - (unat q0 - 1) * unat v"
    using est(2) by (simp add: r_def unat_sub word_le_nat_alt prod q)
  have vpos: "0 < unat v"
    using assms by (simp add: unat_gt_0)
  note qc = quotient_correct [OF vpos est]
  have res: "div64_64_full u v = Some (if v \<le> r then (q + 1, r - v) else (q, r))"
    using False by (simp add: div64_64_full_def Let_def div64_32_def div64_32_full_words [OF dnz, unfolded d_def]
        q_def q0_def d_def r_def)
  show ?thesis
  proof (cases "v \<le> r")
    case True
    have le: "unat v \<le> unat u - (unat q0 - 1) * unat v"
      using True r by (simp add: word_le_nat_alt)
    have "unat (u div v) < 2 ^ 64"
      by (rule unat64)
    then have "unat (q + 1) = unat (u div v)"
      using qc le by (simp add: unat_add64_small q unat_div)
    moreover have "unat (r - v) = unat (u mod v)"
      using qc le True by (simp add: unat_sub r unat_mod)
    ultimately show ?thesis
      using True res by (simp add: word_unat_eq_iff)
  next
    case False
    then have "\<not> unat v \<le> unat u - (unat q0 - 1) * unat v"
      using r by (simp add: word_le_nat_alt)
    then show ?thesis
      using qc False res by (simp add: word_unat_eq_iff q r unat_div unat_mod)
  qed
qed

section \<open>The theorems\<close>

text \<open>
  The shifted long product \<open>mul_u64_u64_shr\<close>, put together from four 32-bit products and their
  carries, is the 128-bit product of its arguments shifted right and cut to 64 bits, for every
  shift below 128.
\<close>

theorem mul_u64_u64_shr_correct:
  assumes "shift < 128"
  shows "unat (mul_u64_u64_shr a b shift) = unat a * unat b div 2 ^ unat shift mod 2 ^ 64"
  using assms by (rule unat_mul_u64_u64_shr)

theorem mul_u64_u64_shr_correct_witness:
  "unat (mul_u64_u64_shr 0x123456789ABCDEF0 0xFEDCBA9876543210 36) =
     unat (0x123456789ABCDEF0 :: u64) * unat (0xFEDCBA9876543210 :: u64) div 2 ^ unat (36 :: u32) mod 2 ^ 64"
  by (rule mul_u64_u64_shr_correct) simp

text \<open>
  \<open>__div64_32\<close>, the division by shifting and subtracting with its reduction of the upper half,
  gives the quotient and the remainder, for every dividend and every divisor but zero.
\<close>

theorem div64_32_correct:
  assumes "divisor \<noteq> 0"
  shows "div64_32 n divisor = Some (n div ucast divisor) \<and>
     div64_32mod n divisor = Some (ucast (n mod ucast divisor))"
  using div64_32_full_words [OF assms] by (simp add: div64_32_def div64_32mod_def)

theorem div64_32_correct_witness:
  "div64_32 0xFFFFFFFF00000007 0x80000001 = Some (0xFFFFFFFF00000007 div ucast (0x80000001 :: u32)) \<and>
     div64_32mod 0xFFFFFFFF00000007 0x80000001 = Some (ucast (0xFFFFFFFF00000007 mod ucast (0x80000001 :: u32) :: u64))"
  by (rule div64_32_correct) simp

text \<open>
  C12: \<open>__div64_64\<close>, which divides the upper parts, estimates the quotient from below and corrects it
  once, gives the quotient and the remainder for every dividend and every divisor but zero: the
  estimate is never off by more than the one correction.
\<close>

theorem div64_64_correct:
  assumes "divisor \<noteq> 0"
  shows "div64_64 n divisor = Some (n div divisor) \<and> div64_64mod n divisor = Some (n mod divisor)"
  using div64_64_full_words [OF assms] by (simp add: div64_64_def div64_64mod_def)

theorem div64_64_correct_witness:
  "div64_64 0xFFFFFFFFFFFFFFFF 0x1FFFFFFFF = Some (0xFFFFFFFFFFFFFFFF div 0x1FFFFFFFF) \<and>
     div64_64mod 0xFFFFFFFFFFFFFFFF 0x1FFFFFFFF = Some (0xFFFFFFFFFFFFFFFF mod 0x1FFFFFFFF)"
  by (rule div64_64_correct) simp

text \<open>
  \<open>fls\<close> gives the position of the highest bit set, counted from 1: the argument has exactly that
  many binary digits.
\<close>

theorem fls_highest_bit:
  assumes "x \<noteq> 0"
  shows "2 ^ (unat (fls x) - 1) \<le> unat x \<and> unat x < 2 ^ unat (fls x) \<and> 1 \<le> unat (fls x) \<and> unat (fls x) \<le> 32"
  using assms by (rule fls_correct)

theorem fls_highest_bit_witness:
  "2 ^ (unat (fls 0x12345) - 1) \<le> unat (0x12345 :: u32) \<and> unat (0x12345 :: u32) < 2 ^ unat (fls 0x12345) \<and>
     1 \<le> unat (fls 0x12345) \<and> unat (fls 0x12345) \<le> 32"
  by (rule fls_highest_bit) simp

end
