(* ===== verification/Utility.thy ===== *)
theory Utility
  imports Math64
begin

text \<open>
  The byte utilities of \<^verbatim>\<open>common/utility.c\<close> and \<^verbatim>\<open>common/utility.h\<close>: byte orders, little-endian
  streams and hexadecimal text.  Arrays that a function reads and writes are different arrays,
  except where it has one argument only.
\<close>

section \<open>Byte orders\<close>

text \<open>\<open>swapN(p, n)\<close> exchanges in place; \<open>swapX(src, dst, len)\<close> copies.\<close>

function swapN_loop :: "nat \<Rightarrow> nat \<Rightarrow> u8 list \<Rightarrow> u8 list option" where
  "swapN_loop i n p =
     (if i < n div 2 then
        do { c \<leftarrow> get_byte p i;
             d \<leftarrow> get_byte p (n - 1 - i);
             p \<leftarrow> put_byte p i d;
             p \<leftarrow> put_byte p (n - 1 - i) c;
             swapN_loop (i + 1) n p }
      else Some p)"
  by pat_completeness auto
termination by (relation "measure (\<lambda>(i, n, p). n div 2 - i)") auto

definition swapN :: "u8 list \<Rightarrow> nat \<Rightarrow> u8 list option" where
  "swapN p n = swapN_loop 0 n p"

function swapX_loop :: "nat \<Rightarrow> nat \<Rightarrow> u8 list \<Rightarrow> u8 list \<Rightarrow> u8 list option" where
  "swapX_loop i len src dst =
     (if i < len then
        do { c \<leftarrow> get_byte src i;
             dst \<leftarrow> put_byte dst (len - 1 - i) c;
             swapX_loop (i + 1) len src dst }
      else Some dst)"
  by pat_completeness auto
termination by (relation "measure (\<lambda>(i, len, src, dst). len - i)") auto

definition swapX :: "u8 list \<Rightarrow> u8 list \<Rightarrow> nat \<Rightarrow> u8 list option" where
  "swapX src dst len = swapX_loop 0 len src dst"

definition swap24 :: "u8 list \<Rightarrow> u8 list \<Rightarrow> u8 list option" where "swap24 dst src = swapX src dst 3"
definition swap32 :: "u8 list \<Rightarrow> u8 list \<Rightarrow> u8 list option" where "swap32 dst src = swapX src dst 4"
definition swap48 :: "u8 list \<Rightarrow> u8 list \<Rightarrow> u8 list option" where "swap48 dst src = swapX src dst 6"
definition swap56 :: "u8 list \<Rightarrow> u8 list \<Rightarrow> u8 list option" where "swap56 dst src = swapX src dst 7"
definition swap64 :: "u8 list \<Rightarrow> u8 list \<Rightarrow> u8 list option" where "swap64 dst src = swapX src dst 8"
definition swap128 :: "u8 list \<Rightarrow> u8 list \<Rightarrow> u8 list option" where "swap128 dst src = swapX src dst 16"

definition flip_addr :: "u8 list \<Rightarrow> u8 list \<Rightarrow> u8 list option" where
  "flip_addr dest src =
     do { x \<leftarrow> get_byte src 5; dest \<leftarrow> put_byte dest 0 x;
          x \<leftarrow> get_byte src 4; dest \<leftarrow> put_byte dest 1 x;
          x \<leftarrow> get_byte src 3; dest \<leftarrow> put_byte dest 2 x;
          x \<leftarrow> get_byte src 2; dest \<leftarrow> put_byte dest 3 x;
          x \<leftarrow> get_byte src 1; dest \<leftarrow> put_byte dest 4 x;
          x \<leftarrow> get_byte src 0; put_byte dest 5 x }"

section \<open>Little-endian streams (utility.h)\<close>

text \<open>The bytes that the functions write into their array, and the numbers read back.\<close>

definition u16_to_bstream_le :: "u16 \<Rightarrow> u8 list" where
  "u16_to_bstream_le val = [ucast val, ucast (drop_bit 8 val)]"

definition u24_to_bstream_le :: "u32 \<Rightarrow> u8 list" where
  "u24_to_bstream_le val = u16_to_bstream_le (ucast val) @ [ucast (drop_bit 16 val)]"

definition u32_to_bstream_le :: "u32 \<Rightarrow> u8 list" where
  "u32_to_bstream_le val = u16_to_bstream_le (ucast val) @ u16_to_bstream_le (ucast (drop_bit 16 val))"

definition u48_to_bstream_le :: "u64 \<Rightarrow> u8 list" where
  "u48_to_bstream_le val = u32_to_bstream_le (ucast val) @ u16_to_bstream_le (ucast (drop_bit 32 val))"

definition u64_to_bstream_le :: "u64 \<Rightarrow> u8 list" where
  "u64_to_bstream_le val = u32_to_bstream_le (ucast val) @ u32_to_bstream_le (ucast (drop_bit 32 val))"

definition bstream_to_u16_le :: "u8 list \<Rightarrow> u16 option" where
  "bstream_to_u16_le src =
     do { b0 \<leftarrow> get_byte src 0; b1 \<leftarrow> get_byte src 1; Some (push_bit 8 (ucast b1) OR ucast b0) }"

definition bstream_to_u24_le :: "u8 list \<Rightarrow> u32 option" where
  "bstream_to_u24_le src =
     do { b2 \<leftarrow> get_byte src 2; l \<leftarrow> bstream_to_u16_le src; Some (push_bit 16 (ucast b2) OR ucast l) }"

definition bstream_to_u32_le :: "u8 list \<Rightarrow> u32 option" where
  "bstream_to_u32_le src =
     do { h \<leftarrow> bstream_to_u16_le (drop 2 src); l \<leftarrow> bstream_to_u16_le src;
          Some (push_bit 16 (ucast h) OR ucast l) }"

definition bstream_to_u48_le :: "u8 list \<Rightarrow> u64 option" where
  "bstream_to_u48_le src =
     do { h \<leftarrow> bstream_to_u32_le (drop 2 src); l \<leftarrow> bstream_to_u16_le src;
          Some (push_bit 16 (ucast h) OR ucast l) }"

definition bstream_to_u64_le :: "u8 list \<Rightarrow> u64 option" where
  "bstream_to_u64_le src =
     do { h \<leftarrow> bstream_to_u32_le (drop 4 src); l \<leftarrow> bstream_to_u32_le src;
          Some (push_bit 32 (ucast h) OR ucast l) }"

section \<open>Hexadecimal text\<close>

text \<open>\<open>hex_to_str(buf, len)\<close> writes into its static array \<open>str\<close> of 80 characters, here an argument.
  Characters are bytes.\<close>

definition hex_chars :: "u8 list" where
  "hex_chars = map of_char ''0123456789abcdef''"

function hex_loop :: "nat \<Rightarrow> nat \<Rightarrow> u8 list \<Rightarrow> u8 list \<Rightarrow> u8 list option" where
  "hex_loop i len b str =
     (if i < len then
        do { x \<leftarrow> get_byte b i;
             str \<leftarrow> put_byte str (i * 2) (hex_chars ! unat (drop_bit 4 x));
             str \<leftarrow> put_byte str (i * 2 + 1) (hex_chars ! unat (x AND 0xf));
             hex_loop (i + 1) len b str }
      else put_byte str (i * 2) 0)"
  by pat_completeness auto
termination by (relation "measure (\<lambda>(i, len, b, str). len - i)") auto

definition hex_to_str :: "u8 list \<Rightarrow> u8 \<Rightarrow> u8 list \<Rightarrow> u8 list option" where
  "hex_to_str buf len str = hex_loop 0 (min (unat len) ((80 - 1) div 2)) buf str"

declare swapN_loop.simps [simp del] swapX_loop.simps [simp del] hex_loop.simps [simp del]

section \<open>Byte orders: correctness\<close>

lemma swapN_loop_spec:
  assumes "i \<le> n div 2" and "n \<le> length p"
    and "length q = length p" and "\<And>j. j < length p \<Longrightarrow>
       p ! j = (if j < n \<and> (j < i \<or> n - 1 - i < j) then q ! (n - 1 - j) else q ! j)"
  shows "swapN_loop i n p = Some (rev (take n q) @ drop n q)"
  using assms
proof (induction i n p rule: swapN_loop.induct)
  case (1 i n p)
  show ?case
  proof (cases "i < n div 2")
    case True
    let ?k = "n - 1 - i"
    have ij: "i < length p" "?k < length p" "i < ?k" "?k < n"
      using True 1(3) by linarith+
    let ?p' = "p[i := p ! ?k, ?k := p ! i]"
    have step: "swapN_loop i n p = swapN_loop (i + 1) n ?p'"
      using True ij by (subst swapN_loop.simps) (simp add: get_byte_def put_byte_def)
    have pij: "p ! i = q ! i" "p ! ?k = q ! ?k"
      using 1(5) [OF ij(1)] 1(5) [OF ij(2)] ij by auto
    have "?p' ! j = (if j < n \<and> (j < i + 1 \<or> n - 1 - (i + 1) < j) then q ! (n - 1 - j) else q ! j)"
      if "j < length ?p'" for j
    proof -
      consider "j = i" | "j = ?k" | "j \<noteq> i" "j \<noteq> ?k"
        by blast
      then show ?thesis
      proof cases
        case 1
        moreover have "i < n" "?k \<noteq> i"
          using ij by linarith+
        ultimately show ?thesis
          using ij(1,2) pij by simp
      next
        case 2
        moreover have "n - 1 - ?k = i" "n - 1 - (i + 1) < ?k"
          using ij by linarith+
        ultimately show ?thesis
          using ij(1,2,4) pij by simp
      next
        case 3
        then have "j < i + 1 \<longleftrightarrow> j < i" "j < n \<Longrightarrow> n - 1 - (i + 1) < j \<longleftrightarrow> ?k < j"
          using ij by linarith+
        then show ?thesis
          using 3 that 1(5) [of j] by auto
      qed
    qed
    then have "swapN_loop (i + 1) n ?p' = Some (rev (take n q) @ drop n q)"
      using True ij 1(3,4)
      by (intro 1(1) [of "p ! i" "p ! ?k" "p[i := p ! ?k]" ?p']) (auto simp: get_byte_def put_byte_def)
    then show ?thesis
      using step by simp
  next
    case False
    then have i: "i = n div 2"
      using 1(2) by simp
    have "p = rev (take n q) @ drop n q"
    proof (rule nth_equalityI)
      fix j assume j: "j < length p"
      show "p ! j = (rev (take n q) @ drop n q) ! j"
      proof (cases "j < n")
        case True
        have "j < i \<or> n - 1 - i < j \<or> j = n - 1 - j"
          using True i by linarith
        then have "p ! j = q ! (n - 1 - j)"
          using 1(5) [OF j] True by auto
        then show ?thesis
          using True j 1(3,4) by (simp add: nth_append rev_nth)
      next
        case False
        then show ?thesis
          using 1(5) [OF j] j 1(3,4) by (simp add: nth_append)
      qed
    qed (use 1(3,4) in simp)
    then show ?thesis
      using False by (subst swapN_loop.simps) simp
  qed
qed

lemma swapX_loop_spec:
  assumes "i \<le> len" and "len \<le> length src" and "len \<le> length dst"
    and "drop (len - i) dst = rev (take i src) @ rest"
  shows "swapX_loop i len src dst = Some (rev (take len src) @ rest)"
  using assms
proof (induction i len src dst rule: swapX_loop.induct)
  case (1 i len src dst)
  show ?case
  proof (cases "i < len")
    case True
    let ?dst = "dst[len - 1 - i := src ! i]"
    have "drop (len - Suc i) ?dst = src ! i # drop (len - i) dst"
      using True 1(4) by (subst Cons_nth_drop_Suc [symmetric]) (simp_all add: Suc_diff_Suc)
    then have "drop (len - (i + 1)) ?dst = rev (take (i + 1) src) @ rest"
      using True 1(3,5) by (simp add: take_Suc_conv_app_nth)
    then have "swapX_loop (i + 1) len src ?dst = Some (rev (take len src) @ rest)"
      using True 1(3,4) by (intro 1(1) [of "src ! i"]) (simp_all add: get_byte_def put_byte_def)
    then show ?thesis
      using True 1(3,4) by (subst swapX_loop.simps) (simp add: get_byte_def put_byte_def)
  next
    case False
    then show ?thesis
      using 1(2,5) by (subst swapX_loop.simps) simp
  qed
qed

lemma swapN_rev: "n \<le> length p \<Longrightarrow> swapN p n = Some (rev (take n p) @ drop n p)"
  unfolding swapN_def by (rule swapN_loop_spec) auto

lemma swapX_rev:
  "len \<le> length src \<Longrightarrow> len \<le> length dst \<Longrightarrow> swapX src dst len = Some (rev (take len src) @ drop len dst)"
  unfolding swapX_def by (rule swapX_loop_spec) auto

lemma list_upto6:
  assumes "6 \<le> length xs"
  obtains a b c d e f ys where "xs = a # b # c # d # e # f # ys"
  using assms that by (auto simp: Suc_le_length_iff numeral_eq_Suc)

text \<open>
  The byte order routines agree with reversal: \<open>swapN\<close> reverses the first \<open>n\<close> bytes in place,
  \<open>swapX\<close> copies them reversed, reversing a copy in place gives the original order back, and
  \<open>flip_addr\<close> is \<open>swap48\<close>.
\<close>

theorem swap_reverses:
  assumes "n \<le> length src" and "n \<le> length dst" and "6 \<le> length src" and "6 \<le> length dst"
  shows "swapN src n = Some (rev (take n src) @ drop n src) \<and>
     swapX src dst n = Some (rev (take n src) @ drop n dst) \<and>
     Option.bind (swapX src dst n) (\<lambda>d. swapN d n) = Some (take n src @ drop n dst) \<and>
     flip_addr dst src = swap48 dst src"
proof -
  have "length (rev (take n src) @ drop n dst) = length dst"
    using assms by simp
  then have again: "swapN (rev (take n src) @ drop n dst) n = Some (take n src @ drop n dst)"
    using assms by (subst swapN_rev) simp_all
  obtain a b c d e f ys where s: "src = a # b # c # d # e # f # ys"
    using assms(3) by (rule list_upto6)
  obtain a' b' c' d' e' f' zs where t: "dst = a' # b' # c' # d' # e' # f' # zs"
    using assms(4) by (rule list_upto6)
  have "flip_addr dst src = swap48 dst src"
    by (simp add: swap48_def swapX_rev s t flip_addr_def get_byte_def put_byte_def)
  then show ?thesis
    using assms again by (simp add: swapN_rev swapX_rev)
qed

theorem swap_reverses_witness:
  "swapN [1, 2, 3, 4, 5, 6] 5 = Some (rev (take 5 [1, 2, 3, 4, 5, 6]) @ drop 5 [1, 2, 3, 4, 5, 6]) \<and>
     swapX [1, 2, 3, 4, 5, 6] [7, 7, 7, 7, 7, 7, 7] 5 = Some (rev (take 5 [1, 2, 3, 4, 5, 6]) @ drop 5 [7, 7, 7, 7, 7, 7, 7]) \<and>
     Option.bind (swapX [1, 2, 3, 4, 5, 6] [7, 7, 7, 7, 7, 7, 7] 5) (\<lambda>d. swapN d 5) =
       Some (take 5 [1, 2, 3, 4, 5, 6] @ drop 5 [7, 7, 7, 7, 7, 7, 7]) \<and>
     flip_addr [7, 7, 7, 7, 7, 7, 7] [1, 2, 3, 4, 5, 6] = swap48 [7, 7, 7, 7, 7, 7, 7] [1, 2, 3, 4, 5, 6]"
  by (rule swap_reverses) simp_all

section \<open>Streams: correctness\<close>

lemma u16_stream [simp]: "bstream_to_u16_le (u16_to_bstream_le v @ ys) = Some v"
proof -
  have "push_bit 8 (ucast (ucast (drop_bit 8 v) :: u8)) OR ucast (ucast v :: u8) = v"
    by (rule bit_word_eqI) (auto simp: word_bit_simps)
  then show ?thesis
    by (simp add: bstream_to_u16_le_def u16_to_bstream_le_def get_byte_def)
qed

lemma length_streams [simp]:
  "length (u16_to_bstream_le v) = 2" "length (u32_to_bstream_le w) = 4"
  by (simp_all add: u16_to_bstream_le_def u32_to_bstream_le_def)

lemma word_halves: "push_bit 16 (ucast (ucast (drop_bit 16 w) :: u16)) OR ucast (ucast w :: u16) = w" for w :: u32
  by (rule bit_word_eqI) (auto simp: word_bit_simps)

lemma u32_stream [simp]: "bstream_to_u32_le (u32_to_bstream_le w @ ys) = Some w"
  using u16_stream [of "ucast (drop_bit 16 w)" ys] u16_stream [of "ucast w" "u16_to_bstream_le (ucast (drop_bit 16 w)) @ ys"]
  by (simp add: bstream_to_u32_le_def u32_to_bstream_le_def word_halves)

text \<open>
  Reading a little-endian number gives back the number that was written, for all five widths,
  whatever follows it: 24 and 48 bits are kept of a longer number.
\<close>

theorem stream_roundtrip:
  "bstream_to_u16_le (u16_to_bstream_le a @ rest) = Some a \<and>
   bstream_to_u24_le (u24_to_bstream_le b @ rest) = Some (take_bit 24 b) \<and>
   bstream_to_u32_le (u32_to_bstream_le b @ rest) = Some b \<and>
   bstream_to_u48_le (u48_to_bstream_le c @ rest) = Some (take_bit 48 c) \<and>
   bstream_to_u64_le (u64_to_bstream_le c @ rest) = Some c"
proof (intro conjI)
  have "push_bit 16 (ucast (ucast (drop_bit 16 b) :: u8)) OR ucast (ucast b :: u16) = take_bit 24 b"
    by (rule bit_word_eqI) (auto simp: word_bit_simps)
  moreover have "get_byte (u24_to_bstream_le b @ rest) 2 = Some (ucast (drop_bit 16 b))"
    by (simp add: get_byte_def u24_to_bstream_le_def nth_append)
  ultimately show "bstream_to_u24_le (u24_to_bstream_le b @ rest) = Some (take_bit 24 b)"
    using u16_stream [of "ucast b" "[ucast (drop_bit 16 b)] @ rest"]
    by (simp add: bstream_to_u24_le_def) (simp add: u24_to_bstream_le_def)
  have "drop 2 (u48_to_bstream_le c @ rest) = u32_to_bstream_le (ucast (drop_bit 16 c)) @ rest"
    by (simp add: u48_to_bstream_le_def u32_to_bstream_le_def u16_to_bstream_le_def)
      (intro conjI; rule bit_word_eqI; auto simp: word_bit_simps)
  moreover have "ucast (ucast c :: u32) = (ucast c :: u16)"
    by (rule bit_word_eqI) (auto simp: word_bit_simps)
  then have "bstream_to_u16_le (u48_to_bstream_le c @ rest) = Some (ucast c)"
    using u16_stream [of "ucast (ucast c :: u32)"]
    by (simp add: u48_to_bstream_le_def u32_to_bstream_le_def)
  moreover have "push_bit 16 (ucast (ucast (drop_bit 16 c) :: u32)) OR ucast (ucast c :: u16) = take_bit 48 c"
    by (rule bit_word_eqI) (auto simp: word_bit_simps)
  ultimately show "bstream_to_u48_le (u48_to_bstream_le c @ rest) = Some (take_bit 48 c)"
    by (simp add: bstream_to_u48_le_def)
  have "push_bit 32 (ucast (ucast (drop_bit 32 c) :: u32)) OR ucast (ucast c :: u32) = c"
    by (rule bit_word_eqI) (auto simp: word_bit_simps)
  then show "bstream_to_u64_le (u64_to_bstream_le c @ rest) = Some c"
    by (simp add: bstream_to_u64_le_def u64_to_bstream_le_def)
qed simp_all

section \<open>Hexadecimal text: correctness\<close>

lemma hex_chars_eq:
  "hex_chars = [0x30, 0x31, 0x32, 0x33, 0x34, 0x35, 0x36, 0x37, 0x38, 0x39, 0x61, 0x62, 0x63, 0x64, 0x65, 0x66]"
  by code_simp

definition hex_text :: "u8 list \<Rightarrow> u8 list" where
  "hex_text xs = concat (map (\<lambda>x. [hex_chars ! unat (drop_bit 4 x), hex_chars ! unat (x AND 0xf)]) xs)"

lemma hex_text_simps [simp]:
  "hex_text [] = []" "hex_text (xs @ ys) = hex_text xs @ hex_text ys"
  "hex_text [x] = [hex_chars ! unat (drop_bit 4 x), hex_chars ! unat (x AND 0xf)]"
  by (simp_all add: hex_text_def)

lemma length_hex_text [simp]: "length (hex_text xs) = 2 * length xs"
  by (induction xs) (simp_all add: hex_text_def)

lemma hex_loop_spec:
  assumes "i \<le> len" and "len \<le> length b" and "2 * len < length str" and "take (2 * i) str = hex_text (take i b)"
  shows "hex_loop i len b str = Some (hex_text (take len b) @ 0 # drop (2 * len + 1) str)"
  using assms
proof (induction i len b str rule: hex_loop.induct)
  case (1 i len b str)
  show ?case
  proof (cases "i < len")
    case True
    let ?x = "b ! i"
    let ?s1 = "str[i * 2 := hex_chars ! unat (drop_bit 4 ?x)]"
    let ?s2 = "?s1[i * 2 + 1 := hex_chars ! unat (?x AND 0xf)]"
    have room: "i * 2 < length str" "i * 2 + 1 < length ?s1" "i < length b"
      using True 1(3,4) by simp_all
    have "take (2 * (i + 1)) ?s2 = take (2 * i) str @ [hex_chars ! unat (drop_bit 4 ?x), hex_chars ! unat (?x AND 0xf)]"
      using room by (simp add: take_Suc_conv_app_nth mult.commute)
    then have pre: "take (2 * (i + 1)) ?s2 = hex_text (take (i + 1) b)"
      using 1(5) room by (simp add: take_Suc_conv_app_nth)
    have "hex_loop i len b str = hex_loop (i + 1) len b ?s2"
      using True room by (subst hex_loop.simps) (simp add: get_byte_def put_byte_def)
    also have "\<dots> = Some (hex_text (take len b) @ 0 # drop (2 * len + 1) ?s2)"
      by (rule 1(1) [of ?x ?s1]) (use True room 1(3,4) pre in \<open>simp_all add: get_byte_def put_byte_def\<close>)
    also have "drop (2 * len + 1) ?s2 = drop (2 * len + 1) str"
      using True by simp
    finally show ?thesis .
  next
    case False
    then have i: "i = len"
      using 1(2) by simp
    have "str[2 * len := 0] = take (2 * len) str @ 0 # drop (2 * len + 1) str"
      using 1(4) by (simp add: upd_conv_take_nth_drop)
    then show ?thesis
      using False 1(4,5) i by (subst hex_loop.simps) (simp add: put_byte_def mult.commute)
  qed
qed

text \<open>Reading hexadecimal text; the value of a digit is its position in the table.\<close>

definition hex_digit :: "u8 \<Rightarrow> u8 option" where
  "hex_digit c = map_option fst (find (\<lambda>(v, d). d = c) (zip (map of_nat [0..<16]) hex_chars))"

fun hex_parse :: "u8 list \<Rightarrow> u8 list option" where
  "hex_parse [] = Some []"
| "hex_parse [c] = None"
| "hex_parse (c # d # cs) =
     do { h \<leftarrow> hex_digit c; l \<leftarrow> hex_digit d; xs \<leftarrow> hex_parse cs; Some ((push_bit 4 h OR l) # xs) }"

lemma hex_digit_char: "n < 16 \<Longrightarrow> hex_digit (hex_chars ! n) = Some (of_nat n) \<and> hex_chars ! n \<noteq> 0"
proof -
  have "\<forall>n\<in>set [0..<16]. hex_digit (hex_chars ! n) = Some (of_nat n) \<and> hex_chars ! n \<noteq> 0"
    by code_simp
  then show "n < 16 \<Longrightarrow> hex_digit (hex_chars ! n) = Some (of_nat n) \<and> hex_chars ! n \<noteq> 0"
    by simp
qed

lemma nibbles: "unat (drop_bit 4 x) < 16" "unat (x AND 0xf) < 16" "push_bit 4 (drop_bit 4 x) OR (x AND 0xf) = x" for x :: u8
proof -
  show "unat (drop_bit 4 x) < 16"
    using unat_bound(1) [of x] unfolding unsigned_drop_bit_eq
    by (simp add: drop_bit_eq_div take_bit_nat_eq_self)
  have m: "x AND 0xf = take_bit 4 x"
    by (simp add: and_low_mask)
  show "unat (x AND 0xf) < 16"
    unfolding m unsigned_take_bit_eq using take_bit_nat_less_exp [of 4 "unat x"] by simp
  show "push_bit 4 (drop_bit 4 x) OR (x AND 0xf) = x"
    unfolding m by (rule bit_word_eqI) (auto simp: word_bit_simps)
qed

lemma hex_parse_text: "hex_parse (hex_text xs) = Some xs" and hex_text_no_nul: "0 \<notin> set (hex_text xs)"
proof (induction xs)
  case (Cons x xs)
  { case 1
    show ?case
      using Cons(1) hex_digit_char [OF nibbles(1), of x] hex_digit_char [OF nibbles(2), of x] nibbles(3) [of x]
      by (simp add: hex_text_def)
  next
    case 2
    show ?case
      using Cons(2) hex_digit_char [OF nibbles(1), of x] hex_digit_char [OF nibbles(2), of x]
      by (auto simp: hex_text_def) }
qed simp_all

text \<open>
  \<open>hex_to_str\<close> never leaves its 80 characters, and the C string it returns is the hexadecimal text
  of the first 39 bytes at most: reading it back gives these bytes.
\<close>

theorem hex_to_str_roundtrip:
  assumes "unat len \<le> length buf" and "length str = 80"
  shows "\<exists>s. hex_to_str buf len str = Some s \<and> length s = 80 \<and>
     hex_parse (takeWhile (\<lambda>c. c \<noteq> 0) s) = Some (take (min (unat len) 39) buf)"
proof -
  let ?n = "min (unat len) 39"
  let ?s = "hex_text (take ?n buf) @ 0 # drop (2 * ?n + 1) str"
  have "hex_to_str buf len str = Some ?s"
    unfolding hex_to_str_def using assms by (subst hex_loop_spec) simp_all
  moreover have "length ?s = 80"
    using assms by simp
  moreover have "takeWhile (\<lambda>c. c \<noteq> 0) ?s = hex_text (take ?n buf)"
    using hex_text_no_nul [of "take ?n buf"] by (subst takeWhile_append2) auto
  ultimately show ?thesis
    using hex_parse_text [of "take ?n buf"] by (intro exI [of _ ?s]) simp
qed

theorem hex_to_str_roundtrip_witness:
  "\<exists>s. hex_to_str [0x1A, 0xF0, 0x07] 3 (replicate 80 0) = Some s \<and> length s = 80 \<and>
     hex_parse (takeWhile (\<lambda>c. c \<noteq> 0) s) = Some (take (min (unat (3 :: u8)) 39) [0x1A, 0xF0, 0x07])"
  by (rule hex_to_str_roundtrip) simp_all

end
