(* ===== verification/String_C.thy ===== *)
theory String_C
  imports C_Prelude
begin

text \<open>
  The memory functions of \<^verbatim>\<open>common/string.c\<close>.  Source and destination may overlap, so that both are
  offsets into one memory; an access outside it is \<open>None\<close>.  Lengths are below \<open>2 ^ 31\<close>, where the
  conversion to \<open>int\<close> that \<open>memcpy\<close> makes keeps them.
\<close>

section \<open>The functions\<close>

fun memcmp :: "u8 list \<Rightarrow> nat \<Rightarrow> nat \<Rightarrow> nat \<Rightarrow> int option" where
  "memcmp mem st1 st2 0 = Some 0"
| "memcmp mem st1 st2 (Suc len) =
     do { a \<leftarrow> get_byte mem st1;
          b \<leftarrow> get_byte mem st2;
          if a \<noteq> b then Some (int (unat a) - int (unat b)) else memcmp mem (st1 + 1) (st2 + 1) len }"

text \<open>The two loops of \<open>bcopy\<close>: upwards, and downwards from the last byte.\<close>

fun bcopy_up :: "u8 list \<Rightarrow> nat \<Rightarrow> nat \<Rightarrow> nat \<Rightarrow> u8 list option" where
  "bcopy_up mem src dest 0 = Some mem"
| "bcopy_up mem src dest (Suc len) =
     do { x \<leftarrow> get_byte mem src; mem \<leftarrow> put_byte mem dest x; bcopy_up mem (src + 1) (dest + 1) len }"

text \<open>\<open>lasts\<close> and \<open>lastd\<close> are \<open>src + len - 1\<close> and \<open>dest + len - 1\<close> when \<open>len\<close> bytes remain.\<close>

fun bcopy_down :: "u8 list \<Rightarrow> nat \<Rightarrow> nat \<Rightarrow> nat \<Rightarrow> u8 list option" where
  "bcopy_down mem src dest 0 = Some mem"
| "bcopy_down mem src dest (Suc len) =
     do { x \<leftarrow> get_byte mem (src + len); mem \<leftarrow> put_byte mem (dest + len) x; bcopy_down mem src dest len }"

definition bcopy :: "u8 list \<Rightarrow> nat \<Rightarrow> nat \<Rightarrow> nat \<Rightarrow> u8 list option" where
  "bcopy mem src dest len =
     (if dest < src then bcopy_up mem src dest len else bcopy_down mem src dest len)"

fun memset :: "u8 list \<Rightarrow> nat \<Rightarrow> u8 \<Rightarrow> nat \<Rightarrow> u8 list option" where
  "memset mem ptr val 0 = Some mem"
| "memset mem ptr val (Suc len) = do { mem \<leftarrow> put_byte mem ptr val; memset mem (ptr + 1) val len }"

definition memcpy :: "u8 list \<Rightarrow> nat \<Rightarrow> nat \<Rightarrow> nat \<Rightarrow> u8 list option" where
  "memcpy mem out inp n = bcopy mem inp out n"

text \<open>\<open>memcpy4\<close> copies words of four bytes; its assumptions on its arguments are assertions.\<close>

fun memcpy4_loop :: "u8 list \<Rightarrow> nat \<Rightarrow> nat \<Rightarrow> nat \<Rightarrow> u8 list option" where
  "memcpy4_loop mem dst src 0 = Some mem"
| "memcpy4_loop mem dst src (Suc len) =
     do { xs \<leftarrow> get_bytes mem src 4; mem \<leftarrow> put_bytes mem dst xs; memcpy4_loop mem (dst + 4) (src + 4) len }"

definition memcpy4 :: "u8 list \<Rightarrow> nat \<Rightarrow> nat \<Rightarrow> nat \<Rightarrow> u8 list option" where
  "memcpy4 mem d s n = memcpy4_loop mem d s (n div 4)"

fun ismemzero4_loop :: "u8 list \<Rightarrow> nat \<Rightarrow> nat \<Rightarrow> bool option" where
  "ismemzero4_loop mem p 0 = Some True"
| "ismemzero4_loop mem p (Suc len) =
     do { w \<leftarrow> get_bytes mem p 4;
          if BYTES_TO_UINT32 (w ! 0) (w ! 1) (w ! 2) (w ! 3) \<noteq> 0 then Some False
          else ismemzero4_loop mem (p + 4) len }"

definition ismemzero4 :: "u8 list \<Rightarrow> nat \<Rightarrow> nat \<Rightarrow> bool option" where
  "ismemzero4 mem data len = ismemzero4_loop mem data (len div 4)"

section \<open>Moving\<close>

text \<open>The reference: the bytes as they were before, at their new place.\<close>

definition moved :: "u8 list \<Rightarrow> nat \<Rightarrow> nat \<Rightarrow> nat \<Rightarrow> u8 list" where
  "moved mem src dest len = take dest mem @ take len (drop src mem) @ drop (dest + len) mem"

lemma moved_nth:
  assumes "src + len \<le> length mem" and "dest + len \<le> length mem" and "i < length mem"
  shows "moved mem src dest len ! i = (if dest \<le> i \<and> i < dest + len then mem ! (src + (i - dest)) else mem ! i)"
  using assms by (auto simp: moved_def nth_append min_def not_le intro!: arg_cong [of _ _ "nth mem"])

lemma length_moved: "src + len \<le> length mem \<Longrightarrow> dest + len \<le> length mem \<Longrightarrow> length (moved mem src dest len) = length mem"
  by (simp add: moved_def)

lemma bcopy_up_spec:
  assumes "src + len \<le> length mem" and "dest + len \<le> length mem" and "dest < src"
  shows "bcopy_up mem src dest len = Some (moved mem src dest len)"
  using assms
proof (induction len arbitrary: mem src dest)
  case (Suc len)
  let ?m = "mem[dest := mem ! src]"
  have "moved ?m (src + 1) (dest + 1) len = moved mem src dest (Suc len)"
    using Suc.prems
    by (intro nth_equalityI) (auto simp: length_moved moved_nth nth_list_update Suc_diff_le Suc_le_eq le_Suc_eq
        intro!: arg_cong [of _ _ "nth mem"])
  with Suc show ?case
    by (simp add: get_byte_def put_byte_def)
qed (simp add: moved_def)

lemma bcopy_down_spec:
  assumes "src + len \<le> length mem" and "dest + len \<le> length mem" and "src \<le> dest"
  shows "bcopy_down mem src dest len = Some (moved mem src dest len)"
  using assms
proof (induction len arbitrary: mem)
  case (Suc len)
  let ?m = "mem[dest + len := mem ! (src + len)]"
  have "moved ?m src dest len = moved mem src dest (Suc len)"
    using Suc.prems
    by (intro nth_equalityI) (auto simp: length_moved moved_nth nth_list_update less_Suc_eq
        intro!: arg_cong [of _ _ "nth mem"])
  with Suc show ?case
    by (simp add: get_byte_def put_byte_def)
qed (simp add: moved_def)

lemma memset_spec: "ptr + len \<le> length mem \<Longrightarrow> memset mem ptr val len = Some (take ptr mem @ replicate len val @ drop (ptr + len) mem)"
proof (induction len arbitrary: mem ptr)
  case (Suc len)
  then show ?case
    by (simp add: put_byte_def take_Suc_update drop_update_cancel)
qed simp

lemma memcpy4_loop_spec:
  assumes "src + 4 * len \<le> length mem" and "dst + 4 * len \<le> length mem"
    and "dst + 4 * len \<le> src \<or> src + 4 * len \<le> dst"
  shows "memcpy4_loop mem dst src len = Some (moved mem src dst (4 * len))"
  using assms
proof (induction len arbitrary: mem src dst)
  case (Suc len)
  let ?m = "take dst mem @ take 4 (drop src mem) @ drop (dst + 4) mem"
  have m: "?m = moved mem src dst 4"
    by (simp add: moved_def)
  have "moved ?m (src + 4) (dst + 4) (4 * len) = moved mem src dst (4 * Suc len)"
    unfolding m using Suc.prems
    by (intro nth_equalityI) (auto simp: length_moved moved_nth intro!: arg_cong [of _ _ "nth mem"])
  moreover have "length ?m = length mem"
    using Suc.prems by simp
  moreover have "get_bytes mem src 4 = Some (take 4 (drop src mem))" "put_bytes mem dst (take 4 (drop src mem)) = Some ?m"
    using Suc.prems by (auto simp: get_bytes_def put_bytes_def)
  ultimately show ?case
    using Suc.prems Suc.IH [of "src + 4" ?m "dst + 4"] by auto
qed (simp add: moved_def)

lemma memcmp_spec:
  assumes "st1 + len \<le> length mem" and "st2 + len \<le> length mem"
  shows "\<exists>d. memcmp mem st1 st2 len = Some d \<and>
     (d = 0 \<longleftrightarrow> take len (drop st1 mem) = take len (drop st2 mem)) \<and>
     (d \<noteq> 0 \<longrightarrow> (\<exists>i<len. take i (drop st1 mem) = take i (drop st2 mem) \<and>
        d = int (unat (mem ! (st1 + i))) - int (unat (mem ! (st2 + i)))))"
  using assms
proof (induction len arbitrary: st1 st2)
  case (Suc len)
  have c1: "drop st1 mem = mem ! st1 # drop (st1 + 1) mem" and c2: "drop st2 mem = mem ! st2 # drop (st2 + 1) mem"
    using Suc.prems by (simp_all add: Cons_nth_drop_Suc)
  show ?case
  proof (cases "mem ! st1 = mem ! st2")
    case True
    from Suc.IH [of "st1 + 1" "st2 + 1"] Suc.prems obtain d where
        d: "memcmp mem (st1 + 1) (st2 + 1) len = Some d"
          "d = 0 \<longleftrightarrow> take len (drop (st1 + 1) mem) = take len (drop (st2 + 1) mem)"
          "d \<noteq> 0 \<longrightarrow> (\<exists>i<len. take i (drop (st1 + 1) mem) = take i (drop (st2 + 1) mem) \<and>
            d = int (unat (mem ! (st1 + 1 + i))) - int (unat (mem ! (st2 + 1 + i))))"
      by auto
    have "d \<noteq> 0 \<longrightarrow> (\<exists>i<Suc len. take i (drop st1 mem) = take i (drop st2 mem) \<and>
        d = int (unat (mem ! (st1 + i))) - int (unat (mem ! (st2 + i))))"
    proof
      assume "d \<noteq> 0"
      with d(3) obtain i where "i < len" "take i (drop (st1 + 1) mem) = take i (drop (st2 + 1) mem)"
          "d = int (unat (mem ! (st1 + 1 + i))) - int (unat (mem ! (st2 + 1 + i)))"
        by blast
      then show "\<exists>i<Suc len. take i (drop st1 mem) = take i (drop st2 mem) \<and>
          d = int (unat (mem ! (st1 + i))) - int (unat (mem ! (st2 + i)))"
        using True by (intro exI [of _ "Suc i"]) (simp add: c1 c2)
    qed
    with d True Suc.prems show ?thesis
      by (simp add: get_byte_def) (simp add: c1 c2)
  next
    case False
    then have "unat (mem ! st1) \<noteq> unat (mem ! st2)"
      by (simp add: word_unat_eq_iff)
    then have nz: "int (unat (mem ! st1)) - int (unat (mem ! st2)) \<noteq> 0"
      by linarith
    have "memcmp mem st1 st2 (Suc len) = Some (int (unat (mem ! st1)) - int (unat (mem ! st2)))"
      using False Suc.prems by (simp add: get_byte_def)
    moreover have "take (Suc len) (drop st1 mem) \<noteq> take (Suc len) (drop st2 mem)"
      using False by (simp add: c1 c2)
    moreover have "\<exists>i<Suc len. take i (drop st1 mem) = take i (drop st2 mem) \<and>
        int (unat (mem ! st1)) - int (unat (mem ! st2)) = int (unat (mem ! (st1 + i))) - int (unat (mem ! (st2 + i)))"
      by (intro exI [of _ 0]) simp
    ultimately show ?thesis
      using nz by blast
  qed
qed simp

lemma word_of_bytes_zero: "BYTES_TO_UINT32 a b c d = 0 \<longleftrightarrow> a = 0 \<and> b = 0 \<and> c = 0 \<and> d = 0"
proof
  assume z: "BYTES_TO_UINT32 a b c d = 0"
  have bits: "bit (BYTES_TO_UINT32 a b c d) n \<longleftrightarrow> bit a n \<or> 8 \<le> n \<and> bit b (n - 8) \<or> 16 \<le> n \<and> bit c (n - 16) \<or> 24 \<le> n \<and> bit d (n - 24)"
    if "n < 32" for n
    using that unfolding BYTES_TO_UINT32_or by (auto simp: word_bit_simps dest: bit_imp_le_length)
  have none: "\<not> bit (BYTES_TO_UINT32 a b c d) n" for n
    by (simp add: z)
  have "\<not> bit a n" "\<not> bit b n" "\<not> bit c n" "\<not> bit d n" if "n < 8" for n
    using that none bits [of n] bits [of "n + 8"] bits [of "n + 16"] bits [of "n + 24"] by auto
  then show "a = 0 \<and> b = 0 \<and> c = 0 \<and> d = 0"
    by (auto intro!: bit_word_eqI)
qed (simp add: BYTES_TO_UINT32_def)

lemma ismemzero4_loop_spec:
  "p + 4 * len \<le> length mem \<Longrightarrow> ismemzero4_loop mem p len = Some (\<forall>x\<in>set (take (4 * len) (drop p mem)). x = 0)"
proof (induction len arbitrary: p)
  case (Suc len)
  let ?w = "take 4 (drop p mem)"
  have w: "get_bytes mem p 4 = Some ?w" and l: "length ?w = 4"
    using Suc.prems by (auto simp: get_bytes_def)
  have all: "(\<forall>x\<in>set ?w. x = 0) \<longleftrightarrow> BYTES_TO_UINT32 (?w ! 0) (?w ! 1) (?w ! 2) (?w ! 3) = 0"
    unfolding word_of_bytes_zero all_set_conv_all_nth l by (auto simp: numeral_eq_Suc less_Suc_eq)
  have split: "take (4 * Suc len) (drop p mem) = ?w @ take (4 * len) (drop (p + 4) mem)"
    by (simp add: take_add add.commute)
  show ?case
    using Suc.IH [of "p + 4"] Suc.prems all unfolding split by (simp add: w del: nth_take) blast
qed simp

section \<open>The theorems\<close>

text \<open>
  C14: \<open>memcpy\<close> moves: whatever the overlap of source and destination, the bytes that were at the source
  are at the destination afterwards, and every other byte is as it was.
\<close>

theorem memcpy_moves:
  assumes "src + len \<le> length mem" and "dest + len \<le> length mem"
  shows "\<exists>mem'. memcpy mem dest src len = Some mem' \<and> length mem' = length mem \<and>
     (\<forall>i<length mem. mem' ! i = (if dest \<le> i \<and> i < dest + len then mem ! (src + (i - dest)) else mem ! i))"
  using assms bcopy_up_spec [OF assms] bcopy_down_spec [OF assms]
  by (auto simp: memcpy_def bcopy_def length_moved moved_nth)

theorem memcpy_moves_witness:
  "\<exists>mem'. memcpy [1, 2, 3, 4, 5, 6] 2 1 4 = Some mem' \<and> length mem' = length [1 :: u8, 2, 3, 4, 5, 6] \<and>
     (\<forall>i<length [1 :: u8, 2, 3, 4, 5, 6].
        mem' ! i = (if 2 \<le> i \<and> i < 2 + 4 then [1, 2, 3, 4, 5, 6] ! (1 + (i - 2)) else [1, 2, 3, 4, 5, 6] ! i))"
  by (rule memcpy_moves) simp_all

text \<open>
  The other memory functions: \<open>memset\<close> fills exactly its range; \<open>memcpy4\<close> copies the whole words of
  a range that does not overlap; \<open>memcmp\<close> is 0 exactly for equal ranges and otherwise the difference at
  the first place where they differ; \<open>ismemzero4\<close> tells whether the whole words of its range are zero
  (up to three bytes at the end are not looked at).
\<close>

theorem memory_functions:
  assumes "a + len \<le> length mem" and "b + len \<le> length mem" and "a + len \<le> b \<or> b + len \<le> a"
  shows "memset mem a val len = Some (take a mem @ replicate len val @ drop (a + len) mem) \<and>
     memcpy4 mem a b len = memcpy mem a b (4 * (len div 4)) \<and>
     ismemzero4 mem a len = Some (\<forall>x\<in>set (take (4 * (len div 4)) (drop a mem)). x = 0) \<and>
     (\<exists>d. memcmp mem a b len = Some d \<and> (d = 0 \<longleftrightarrow> take len (drop a mem) = take len (drop b mem)) \<and>
       (d \<noteq> 0 \<longrightarrow> (\<exists>i<len. take i (drop a mem) = take i (drop b mem) \<and>
          d = int (unat (mem ! (a + i))) - int (unat (mem ! (b + i))))))"
proof -
  have l: "4 * (len div 4) \<le> len"
    by simp
  then have r: "b + 4 * (len div 4) \<le> length mem" "a + 4 * (len div 4) \<le> length mem"
      "a + 4 * (len div 4) \<le> b \<or> b + 4 * (len div 4) \<le> a"
    using assms by linarith+
  have "memcpy4 mem a b len = Some (moved mem b a (4 * (len div 4)))"
    unfolding memcpy4_def using r by (rule memcpy4_loop_spec)
  moreover have "memcpy mem a b (4 * (len div 4)) = Some (moved mem b a (4 * (len div 4)))"
    using bcopy_up_spec [OF r(1,2)] bcopy_down_spec [OF r(1,2)] by (simp add: memcpy_def bcopy_def)
  ultimately show ?thesis
    using memset_spec [OF assms(1)] memcmp_spec [OF assms(1,2)] ismemzero4_loop_spec [OF r(2)]
    by (simp add: ismemzero4_def)
qed

theorem memory_functions_witness:
  "memset [1, 2, 3, 4, 1, 2, 5, 4] 0 7 4 = Some (take 0 [1, 2, 3, 4, 1, 2, 5, 4] @ replicate 4 7 @ drop (0 + 4) [1, 2, 3, 4, 1, 2, 5, 4]) \<and>
     memcpy4 [1, 2, 3, 4, 1, 2, 5, 4] 0 4 4 = memcpy [1, 2, 3, 4, 1, 2, 5, 4] 0 4 (4 * (4 div 4)) \<and>
     ismemzero4 [1, 2, 3, 4, 1, 2, 5, 4] 0 4 = Some (\<forall>x\<in>set (take (4 * (4 div 4)) (drop 0 [1, 2, 3, 4, 1, 2, 5, 4 :: u8])). x = 0) \<and>
     (\<exists>d. memcmp [1, 2, 3, 4, 1, 2, 5, 4] 0 4 4 = Some d \<and>
       (d = 0 \<longleftrightarrow> take 4 (drop 0 [1, 2, 3, 4, 1, 2, 5, 4 :: u8]) = take 4 (drop 4 [1, 2, 3, 4, 1, 2, 5, 4])) \<and>
       (d \<noteq> 0 \<longrightarrow> (\<exists>i<4. take i (drop 0 [1, 2, 3, 4, 1, 2, 5, 4 :: u8]) = take i (drop 4 [1, 2, 3, 4, 1, 2, 5, 4]) \<and>
          d = int (unat ([1, 2, 3, 4, 1, 2, 5, 4 :: u8] ! (0 + i))) - int (unat ([1, 2, 3, 4, 1, 2, 5, 4 :: u8] ! (4 + i))))))"
  by (rule memory_functions) simp_all

end
