(* ===== verification/Packet_Store.thy ===== *)
theory Packet_Store
  imports C_Prelude
begin

text \<open>
  The contract of a bounded first-in first-out store, which the packet rings of the HCI transport
  (\<^verbatim>\<open>hci_fifo_t\<close>) and of \<^verbatim>\<open>common/utility.c\<close> (\<^verbatim>\<open>my_fifo_t\<close>) share.  An entry \<open>x\<close> that is
  put into the store comes out as an item \<open>y\<close> with \<open>holds x y\<close>: a slot is longer than the packet in
  it.  Neither ring checks everything its clients rely on, so that the laws hold for a client that
  keeps to the capacity.
\<close>

datatype 'e store_op = Put 'e | Take

text \<open>A client: the items it takes, and the store it leaves.\<close>

fun store_run ::
    "('e \<Rightarrow> 's \<Rightarrow> 's option) \<Rightarrow> ('s \<Rightarrow> 's) \<Rightarrow> ('s \<Rightarrow> 'i) \<Rightarrow> 'e store_op list \<Rightarrow> 's \<Rightarrow> ('i list \<times> 's) option" where
  "store_run push pop front [] s = Some ([], s)"
| "store_run push pop front (Put x # ops) s = do { s' \<leftarrow> push x s; store_run push pop front ops s' }"
| "store_run push pop front (Take # ops) s =
     map_option (map_prod (Cons (front s)) id) (store_run push pop front ops (pop s))"

text \<open>The client neither overfills the store nor takes from an empty one.\<close>

fun store_room :: "nat \<Rightarrow> nat \<Rightarrow> 'e store_op list \<Rightarrow> bool" where
  "store_room cap n [] = True"
| "store_room cap n (Put x # ops) = (n < cap \<and> store_room cap (Suc n) ops)"
| "store_room cap n (Take # ops) = (0 < n \<and> store_room cap (n - 1) ops)"

fun store_puts :: "'e store_op list \<Rightarrow> 'e list" where
  "store_puts [] = []"
| "store_puts (Put x # ops) = x # store_puts ops"
| "store_puts (Take # ops) = store_puts ops"

locale packet_store =
  fixes inv :: "'s \<Rightarrow> bool" and cap :: "'s \<Rightarrow> nat" and items :: "'s \<Rightarrow> 'i list"
    and fits :: "'s \<Rightarrow> 'e \<Rightarrow> bool" and holds :: "'e \<Rightarrow> 'i \<Rightarrow> bool"
    and push :: "'e \<Rightarrow> 's \<Rightarrow> 's option" and pop :: "'s \<Rightarrow> 's" and front :: "'s \<Rightarrow> 'i"
  assumes push_law: "inv s \<Longrightarrow> length (items s) < cap s \<Longrightarrow> fits s x \<Longrightarrow>
      \<exists>s' y. push x s = Some s' \<and> inv s' \<and> holds x y \<and> items s' = items s @ [y] \<and>
        cap s' = cap s \<and> fits s' = fits s"
    and pop_law: "inv s \<Longrightarrow> items s \<noteq> [] \<Longrightarrow>
      inv (pop s) \<and> items (pop s) = tl (items s) \<and> cap (pop s) = cap s \<and> fits (pop s) = fits s"
    and front_law: "inv s \<Longrightarrow> items s \<noteq> [] \<Longrightarrow> front s = hd (items s)"
begin

lemma in_order:
  assumes "inv s" and "store_room (cap s) (length (items s)) ops"
    and "\<forall>x\<in>set (store_puts ops). fits s x"
  shows "\<exists>out s' ys. store_run push pop front ops s = Some (out, s') \<and> inv s' \<and>
     list_all2 holds (store_puts ops) ys \<and> out @ items s' = items s @ ys"
  using assms
proof (induction ops arbitrary: s)
  case (Cons op ops)
  show ?case
  proof (cases op)
    case (Put x)
    then have "length (items s) < cap s" "fits s x"
      using Cons.prems by auto
    then obtain s1 y where s1: "push x s = Some s1" "inv s1" "holds x y" "items s1 = items s @ [y]"
        "cap s1 = cap s" "fits s1 = fits s"
      using push_law [OF Cons.prems(1)] by blast
    with Put Cons obtain out s' ys where
        "store_run push pop front ops s1 = Some (out, s')" "inv s'"
        "list_all2 holds (store_puts ops) ys" "out @ items s' = items s1 @ ys"
      using Cons.IH [OF s1(2)] by auto
    with Put s1 show ?thesis
      by (intro exI [of _ out] exI [of _ s'] exI [of _ "y # ys"]) simp
  next
    case Take
    then have ne: "items s \<noteq> []"
      using Cons.prems by auto
    note p = pop_law [OF Cons.prems(1) ne] front_law [OF Cons.prems(1) ne]
    with Take Cons.prems obtain out s' ys where
        "store_run push pop front ops (pop s) = Some (out, s')" "inv s'"
        "list_all2 holds (store_puts ops) ys" "out @ items s' = tl (items s) @ ys"
      using Cons.IH [of "pop s"] by auto
    with p ne Take show ?thesis
      by (intro exI [of _ "front s # out"] exI [of _ s'] exI [of _ ys]) simp
  qed
qed simp

end

end
