(* ===== verification/Hci_Fifo.thy ===== *)
theory Hci_Fifo
  imports Packet_Store
begin

text \<open>
  The packet rings \<^verbatim>\<open>hci_fifo_t\<close> of \<^verbatim>\<open>stack/ble/hci/hci.h\<close> that connect the UART, the
  transport protocols and the controller: \<open>num\<close> slots of \<open>size\<close> bytes in one byte array, with
  free-running 8-bit write and read pointers that are masked on every access.  It is
  an instance of the contract \<open>packet_store\<close> of a bounded first-in first-out store.
\<close>

section \<open>The ring (hci.h)\<close>

record hci_fifo =
  fsize :: u32
  fnum :: u8
  fmask :: u8
  wptr :: u8
  rptr :: u8
  fp :: "u8 list"

text \<open>\<open>pFifo->p + (ptr & pFifo->mask) * pFifo->size\<close>: the offset of a slot in the array.\<close>

definition fifo_slot :: "hci_fifo \<Rightarrow> u8 \<Rightarrow> nat" where
  "fifo_slot f ptr = unat (ucast (ptr AND fmask f) * fsize f)"

text \<open>\<open>memcpy\<close> into the slot under the write pointer, then \<open>wptr++\<close>.  The code does not compare
  the length with \<open>size\<close> (its assertions are compiled out): a longer packet runs into the next
  slot, and out of the array from the last one.\<close>

definition fifo_push :: "hci_fifo \<Rightarrow> u8 list \<Rightarrow> hci_fifo option" where
  "fifo_push f xs =
     do { b \<leftarrow> put_bytes (fp f) (fifo_slot f (wptr f)) xs;
          Some (f\<lparr>fp := b, wptr := wptr f + 1\<rparr>) }"

definition fifo_empty :: "hci_fifo \<Rightarrow> bool" where
  "fifo_empty f \<longleftrightarrow> wptr f = rptr f"

definition fifo_pop :: "hci_fifo \<Rightarrow> hci_fifo" where
  "fifo_pop f = f\<lparr>rptr := rptr f + 1\<rparr>"

section \<open>Abstraction: the ring as a list of slots\<close>

definition fifo_wf :: "hci_fifo \<Rightarrow> bool" where
  "fifo_wf f \<longleftrightarrow>
     (\<exists>k\<in>{0..7}. fnum f = 2 ^ k \<and> fmask f = mask k) \<and> fsize f < 65536 \<and>
     length (fp f) = unat (fnum f) * unat (fsize f)"

definition fifo_count :: "hci_fifo \<Rightarrow> nat" where
  "fifo_count f = unat (wptr f - rptr f)"

definition fifo_inv :: "hci_fifo \<Rightarrow> bool" where
  "fifo_inv f \<longleftrightarrow> fifo_wf f \<and> fifo_count f \<le> unat (fnum f)"

definition fifo_read :: "hci_fifo \<Rightarrow> u8 \<Rightarrow> u8 list" where
  "fifo_read f ptr = take (unat (fsize f)) (drop (fifo_slot f ptr) (fp f))"

definition fifo_items :: "hci_fifo \<Rightarrow> u8 list list" where
  "fifo_items f = map (\<lambda>i. fifo_read f (rptr f + of_nat i)) [0..<fifo_count f]"

lemma fifo_items_length [simp]: "length (fifo_items f) = fifo_count f"
  by (simp add: fifo_items_def)

lemma fifo_empty_count: "fifo_empty f \<longleftrightarrow> fifo_count f = 0"
  by (auto simp: fifo_empty_def fifo_count_def unat_eq_zero)

lemma unat_and_mask8: "unat (x AND mask k :: u8) = unat x mod 2 ^ k"
  by (simp only: take_bit_eq_mask [symmetric] unsigned_take_bit_eq) (simp add: take_bit_eq_mod)

lemma fifo_wf_index:
  assumes "fifo_wf f"
  shows "unat (ptr AND fmask f) = unat ptr mod unat (fnum f)"
    and "0 < unat (fnum f)" and "unat (fnum f) dvd 256" and "unat (fnum f) \<le> 128"
proof -
  obtain k where k: "k \<le> 7" "fnum f = 2 ^ k" "fmask f = mask k"
    using assms by (auto simp: fifo_wf_def)
  have "(2::nat) ^ k \<le> 2 ^ 7"
    using k(1) by (rule power_increasing) simp
  then have num: "unat (fnum f) = 2 ^ k"
    using \<open>(2::nat) ^ k \<le> 2 ^ 7\<close> unat_of_nat [of "2 ^ k", where ?'a = 8] by (simp add: k(2))
  then show "unat (ptr AND fmask f) = unat ptr mod unat (fnum f)"
    by (simp add: k(3) unat_and_mask8)
  show "0 < unat (fnum f)"
    by (simp add: num)
  show "unat (fnum f) \<le> 128"
    using \<open>(2::nat) ^ k \<le> 2 ^ 7\<close> by (simp add: num)
  have "(2::nat) ^ k dvd 2 ^ 8"
    using k(1) by (intro le_imp_power_dvd) simp
  then show "unat (fnum f) dvd 256"
    by (simp add: num)
qed

lemma fifo_slot_eq:
  assumes "fifo_wf f"
  shows "fifo_slot f ptr = (unat ptr mod unat (fnum f)) * unat (fsize f)"
proof -
  have "unat (ptr AND fmask f) < 256"
    using unsigned_less [of "ptr AND fmask f"] by simp
  moreover have "unat (fsize f) < 65536"
    using assms by (simp add: fifo_wf_def word_less_nat_alt)
  ultimately have "unat (ptr AND fmask f) * unat (fsize f) < 256 * 65536"
    by (intro mult_strict_mono) auto
  moreover have "unat (ucast (ptr AND fmask f) :: u32) = unat (ptr AND fmask f)"
    using \<open>unat (ptr AND fmask f) < 256\<close> by (simp add: unsigned_ucast_eq take_bit_nat_eq_self)
  ultimately show ?thesis
    by (simp add: fifo_slot_def unat_word_ariths fifo_wf_index(1) [OF assms, symmetric])
qed

lemma fifo_slot_fits:
  assumes "fifo_wf f"
  shows "fifo_slot f ptr + unat (fsize f) \<le> length (fp f)"
proof -
  have "Suc (unat ptr mod unat (fnum f)) \<le> unat (fnum f)"
    using fifo_wf_index(2) [OF assms] by (simp add: Suc_leI)
  then have "Suc (unat ptr mod unat (fnum f)) * unat (fsize f) \<le> unat (fnum f) * unat (fsize f)"
    by (rule mult_le_mono1)
  then show ?thesis
    using assms by (simp add: fifo_slot_eq fifo_wf_def)
qed

lemma fifo_read_length: "fifo_wf f \<Longrightarrow> length (fifo_read f ptr) = unat (fsize f)"
  using fifo_slot_fits [of f ptr] by (simp add: fifo_read_def)

lemma fifo_index_add:
  assumes "fifo_wf f"
  shows "unat (r + of_nat i :: u8) mod unat (fnum f) = (unat r + i) mod unat (fnum f)"
proof -
  have "unat (r + of_nat i :: u8) = (unat r + i) mod 256"
    by (simp add: unat_word_ariths unat_of_nat mod_simps)
  then show ?thesis
    using fifo_wf_index(3) [OF assms] by (simp add: mod_mod_cancel)
qed

text \<open>Two positions less than \<open>num\<close> apart lie in different slots.\<close>

lemma fifo_slots_disjoint:
  assumes wf: "fifo_wf f" and "i < j" and "j < i + unat (fnum f)"
  shows "fifo_slot f (r + of_nat i) + unat (fsize f) \<le> fifo_slot f (r + of_nat j) \<or>
         fifo_slot f (r + of_nat j) + unat (fsize f) \<le> fifo_slot f (r + of_nat i)"
proof -
  let ?n = "unat (fnum f)" and ?s = "unat (fsize f)"
  let ?a = "(unat r + i) mod ?n" and ?b = "(unat r + j) mod ?n"
  have "?a \<noteq> ?b"
  proof
    assume "?a = ?b"
    then have "?n dvd (unat r + j) - (unat r + i)"
      using assms(2) mod_eq_dvd_iff_nat [of "unat r + i" "unat r + j" ?n] by simp
    then have "?n dvd j - i"
      by simp
    then show False
      using assms(2,3) dvd_imp_le [of ?n "j - i"] by simp
  qed
  then have "Suc ?a \<le> ?b \<or> Suc ?b \<le> ?a"
    by linarith
  then have "Suc ?a * ?s \<le> ?b * ?s \<or> Suc ?b * ?s \<le> ?a * ?s"
    by (elim disjE) (auto dest: mult_le_mono1 [where k = ?s] simp del: mult_Suc)
  then show ?thesis
    by (simp add: fifo_slot_eq [OF wf] fifo_index_add [OF wf] add.commute)
qed

section \<open>The operations against the abstraction\<close>

lemma fifo_push_total:
  assumes "fifo_wf f" and "length xs \<le> unat (fsize f)"
  obtains f' where "fifo_push f xs = Some f'"
  using fifo_slot_fits [OF assms(1), of "wptr f"] assms(2)
  by (auto simp: fifo_push_def put_bytes_def)

lemma fifo_push_frame:
  assumes "fifo_push f xs = Some f'"
  shows "fsize f' = fsize f" "fnum f' = fnum f" "fmask f' = fmask f" "rptr f' = rptr f"
    "wptr f' = wptr f + 1" "fifo_slot f' ptr = fifo_slot f ptr" "length (fp f') = length (fp f)"
  using assms
  by (auto simp: fifo_push_def fifo_slot_def dest: put_bytes_length split: Option.bind_splits)

lemma fifo_push_wf: "fifo_push f xs = Some f' \<Longrightarrow> fifo_wf f \<Longrightarrow> fifo_wf f'"
  by (simp add: fifo_wf_def fifo_push_frame)

lemma fifo_push_count:
  assumes "fifo_push f xs = Some f'" and "fifo_count f < 255"
  shows "fifo_count f' = Suc (fifo_count f)"
proof -
  have "wptr f' - rptr f' = (wptr f - rptr f) + 1"
    by (simp add: fifo_push_frame [OF assms(1)])
  then show ?thesis
    using assms(2) by (simp add: fifo_count_def unat_word_ariths)
qed

lemma fifo_push_read_new:
  assumes "fifo_push f xs = Some f'" and "fifo_wf f" and "length xs \<le> unat (fsize f)"
  shows "fifo_read f' (wptr f) = xs @ drop (length xs) (fifo_read f (wptr f))"
proof -
  let ?o = "fifo_slot f (wptr f)" and ?s = "unat (fsize f)"
  have fp': "fp f' = take ?o (fp f) @ xs @ drop (?o + length xs) (fp f)"
    using assms(1) by (auto simp: fifo_push_def put_bytes_def split: if_splits)
  have "?o + ?s \<le> length (fp f)"
    by (rule fifo_slot_fits [OF assms(2)])
  then show ?thesis
    using assms(3)
    by (simp add: fifo_read_def fifo_push_frame [OF assms(1)] fp' drop_take add.commute)
qed

lemma fifo_push_read_old:
  assumes push: "fifo_push f xs = Some f'" and wf: "fifo_wf f"
    and len: "length xs \<le> unat (fsize f)"
    and i: "i < fifo_count f" and cnt: "fifo_count f < unat (fnum f)"
  shows "fifo_read f' (rptr f + of_nat i) = fifo_read f (rptr f + of_nat i)"
proof -
  let ?c = "fifo_count f" and ?s = "unat (fsize f)"
  have w: "wptr f = rptr f + of_nat ?c"
    by (simp add: fifo_count_def)
  have dis: "fifo_slot f (rptr f + of_nat i) + ?s \<le> fifo_slot f (wptr f) \<or>
      fifo_slot f (wptr f) + ?s \<le> fifo_slot f (rptr f + of_nat i)"
    unfolding w using i cnt by (intro fifo_slots_disjoint [OF wf]) auto
  from push obtain b where b: "put_bytes (fp f) (fifo_slot f (wptr f)) xs = Some b" "fp f' = b"
    by (auto simp: fifo_push_def split: Option.bind_splits)
  have "get_bytes b (fifo_slot f (rptr f + of_nat i)) ?s =
      get_bytes (fp f) (fifo_slot f (rptr f + of_nat i)) ?s"
    using dis len by (intro get_put_bytes_other [OF b(1)]) auto
  then show ?thesis
    using fifo_slot_fits [OF wf, of "rptr f + of_nat i"] put_bytes_length [OF b(1)]
    by (simp add: get_bytes_def fifo_read_def fifo_push_frame [OF push] b(2))
qed

theorem fifo_push_items:
  assumes "fifo_inv f" and "fifo_count f < unat (fnum f)" and "length xs \<le> unat (fsize f)"
    and push: "fifo_push f xs = Some f'"
  shows "fifo_inv f'"
    and "fifo_items f' = fifo_items f @ [xs @ drop (length xs) (fifo_read f (wptr f))]"
proof -
  have wf: "fifo_wf f"
    using assms(1) by (simp add: fifo_inv_def)
  have c: "fifo_count f' = Suc (fifo_count f)"
    using assms(2) fifo_wf_index(4) [OF wf] by (intro fifo_push_count [OF push]) simp
  then show "fifo_inv f'"
    using assms(2) by (simp add: fifo_inv_def fifo_push_wf [OF push wf] fifo_push_frame [OF push])
  have "wptr f = rptr f + of_nat (fifo_count f)"
    by (simp add: fifo_count_def)
  then have new: "fifo_read f' (rptr f + of_nat (fifo_count f)) =
      xs @ drop (length xs) (fifo_read f (wptr f))"
    using fifo_push_read_new [OF push wf assms(3)] by simp
  show "fifo_items f' = fifo_items f @ [xs @ drop (length xs) (fifo_read f (wptr f))]"
    using fifo_push_read_old [OF push wf assms(3)] assms(2) new
    by (simp add: fifo_items_def c fifo_push_frame [OF push])
qed

theorem fifo_pop_items:
  assumes "fifo_inv f" and "\<not> fifo_empty f"
  shows "fifo_inv (fifo_pop f)" and "fifo_items (fifo_pop f) = tl (fifo_items f)"
    and "hd (fifo_items f) = fifo_read f (rptr f)"
proof -
  have pos: "0 < fifo_count f"
    using assms(2) by (simp add: fifo_empty_count)
  have nz: "wptr f - rptr f \<noteq> 0"
    using pos by (auto simp: fifo_count_def)
  have c: "fifo_count (fifo_pop f) = fifo_count f - 1"
    using unat_minus_one [OF nz, unfolded diff_diff_eq] by (simp add: fifo_count_def fifo_pop_def)
  have frame: "fifo_read (fifo_pop f) = fifo_read f"
    by (simp add: fun_eq_iff fifo_read_def fifo_slot_def fifo_pop_def)
  show "fifo_inv (fifo_pop f)"
    using assms(1) c by (auto simp: fifo_inv_def fifo_wf_def fifo_pop_def)
  obtain n where n: "fifo_count f = Suc n"
    using pos gr0_conv_Suc by blast
  show "hd (fifo_items f) = fifo_read f (rptr f)"
    using n by (simp add: fifo_items_def hd_map upt_conv_Cons del: upt_Suc)
  have "fifo_items f = fifo_read f (rptr f) # map (\<lambda>i. fifo_read f (rptr f + of_nat (Suc i))) [0..<n]"
    by (simp add: fifo_items_def n upt_conv_Cons map_Suc_upt [symmetric] o_def del: upt_Suc)
  moreover have "fifo_items (fifo_pop f) = map (\<lambda>i. fifo_read f (rptr f + of_nat (Suc i))) [0..<n]"
    by (simp add: fifo_items_def c n frame) (simp add: fifo_pop_def algebra_simps)
  ultimately show "fifo_items (fifo_pop f) = tl (fifo_items f)"
    by simp
qed

section \<open>An empty ring\<close>

definition hci_fifo_new :: "nat \<Rightarrow> nat \<Rightarrow> hci_fifo" where
  "hci_fifo_new sz k =
     \<lparr>fsize = of_nat sz, fnum = 2 ^ k, fmask = mask k, wptr = 0, rptr = 0, fp = replicate (2 ^ k * sz) 0\<rparr>"

lemma hci_fifo_new_inv:
  assumes "sz < 65536" and "k \<le> 7"
  shows "fifo_inv (hci_fifo_new sz k)" and "fifo_items (hci_fifo_new sz k) = []"
    and "unat (fsize (hci_fifo_new sz k)) = sz"
proof -
  have sz: "unat (of_nat sz :: u32) = sz"
    using assms(1) unat_of_nat [of sz, where ?'a = 32] by simp
  have "(2::nat) ^ k \<le> 2 ^ 7"
    using assms(2) by (rule power_increasing) simp
  then have "unat ((2::u8) ^ k) = 2 ^ k"
    using unat_of_nat [of "2 ^ k", where ?'a = 8] by simp
  then show "fifo_inv (hci_fifo_new sz k)"
    using assms sz
    by (auto simp: fifo_inv_def fifo_wf_def fifo_count_def hci_fifo_new_def word_less_nat_alt
        intro!: bexI [of _ k])
  show "unat (fsize (hci_fifo_new sz k)) = sz"
    by (simp add: hci_fifo_new_def sz)
  show "fifo_items (hci_fifo_new sz k) = []"
    by (simp add: hci_fifo_new_def fifo_items_def fifo_count_def)
qed

section \<open>The ring as a bounded first-in first-out store\<close>

text \<open>An item is a whole slot, with the packet at its front.\<close>

definition fifo_fits :: "hci_fifo \<Rightarrow> u8 list \<Rightarrow> bool" where
  "fifo_fits f xs \<longleftrightarrow> length xs \<le> unat (fsize f)"

definition slot_holds :: "u8 list \<Rightarrow> u8 list \<Rightarrow> bool" where
  "slot_holds xs slot \<longleftrightarrow> take (length xs) slot = xs"

interpretation hfifo: packet_store fifo_inv "\<lambda>f. unat (fnum f)" fifo_items fifo_fits slot_holds
  "\<lambda>xs f. fifo_push f xs" fifo_pop "\<lambda>f. fifo_read f (rptr f)"
proof unfold_locales
  fix f :: hci_fifo and xs :: "u8 list"
  assume a: "fifo_inv f" "length (fifo_items f) < unat (fnum f)" "fifo_fits f xs"
  then have wf: "fifo_wf f" and fits: "length xs \<le> unat (fsize f)" and room: "fifo_count f < unat (fnum f)"
    by (simp_all add: fifo_inv_def fifo_fits_def)
  obtain f' where f': "fifo_push f xs = Some f'"
    using fifo_push_total [OF wf fits] by blast
  note items = fifo_push_items [OF a(1) room fits f']
  show "\<exists>f' slot. fifo_push f xs = Some f' \<and> fifo_inv f' \<and> slot_holds xs slot \<and>
      fifo_items f' = fifo_items f @ [slot] \<and> unat (fnum f') = unat (fnum f) \<and> fifo_fits f' = fifo_fits f"
    using f' items fifo_push_frame [OF f']
    by (auto simp: slot_holds_def fifo_fits_def fun_eq_iff)
next
  fix f :: hci_fifo
  assume "fifo_inv f" "fifo_items f \<noteq> []"
  then have inv: "fifo_inv f" and ne: "\<not> fifo_empty f"
    by (auto simp: fifo_empty_count fifo_items_length [symmetric] simp del: fifo_items_length)
  show "fifo_inv (fifo_pop f) \<and> fifo_items (fifo_pop f) = tl (fifo_items f) \<and>
      unat (fnum (fifo_pop f)) = unat (fnum f) \<and> fifo_fits (fifo_pop f) = fifo_fits f"
    using fifo_pop_items [OF inv ne] by (simp add: fifo_pop_def fifo_fits_def fun_eq_iff)
  show "fifo_read f (rptr f) = hd (fifo_items f)"
    using fifo_pop_items [OF inv ne] by simp
qed

text \<open>
  A ring of the HCI transport is a first-in first-out store: for every sequence of writes and
  reads that keeps within its slots, the slots read, followed by the slots still stored, are the
  slots stored at first, followed by one slot for each packet written, in the order of the writes and
  with the packet at its front; nothing outside the array is accessed.
\<close>

theorem hci_ring_in_order:
  assumes "fifo_inv f" and "store_room (unat (fnum f)) (fifo_count f) ops"
    and "\<forall>xs\<in>set (store_puts ops). length xs \<le> unat (fsize f)"
  shows "\<exists>out f' ys.
     store_run (\<lambda>xs f. fifo_push f xs) fifo_pop (\<lambda>f. fifo_read f (rptr f)) ops f = Some (out, f') \<and>
     fifo_inv f' \<and> list_all2 slot_holds (store_puts ops) ys \<and> out @ fifo_items f' = fifo_items f @ ys"
  using assms by (intro hfifo.in_order) (simp_all add: fifo_fits_def)

theorem hci_ring_in_order_witness:
  "\<exists>out f' ys.
     store_run (\<lambda>xs f. fifo_push f xs) fifo_pop (\<lambda>f. fifo_read f (rptr f))
       [Put [1, 2, 3], Put [4], Take] (hci_fifo_new 3 1) = Some (out, f') \<and>
     fifo_inv f' \<and> list_all2 slot_holds (store_puts [Put [1, 2, 3], Put [4 :: u8], Take]) ys \<and>
     out @ fifo_items f' = fifo_items (hci_fifo_new 3 1) @ ys"
proof (rule hci_ring_in_order)
  show "fifo_inv (hci_fifo_new 3 1)"
    by (simp add: hci_fifo_new_inv)
  have "fifo_count (hci_fifo_new 3 1) = 0" "unat (fnum (hci_fifo_new 3 1)) = 2"
    by (simp_all add: hci_fifo_new_def fifo_count_def)
  then show "store_room (unat (fnum (hci_fifo_new 3 1))) (fifo_count (hci_fifo_new 3 1)) [Put [1, 2, 3], Put [4 :: u8], Take]"
    by simp
  show "\<forall>xs\<in>set (store_puts [Put [1, 2, 3], Put [4 :: u8], Take]). length xs \<le> unat (fsize (hci_fifo_new 3 1))"
    by (simp add: hci_fifo_new_inv(3))
qed

end
