(* ===== verification/Simulation.thy ===== *)
theory Simulation
  imports C_Prelude
begin

text \<open>
  Components with a reference model: a step of the code gives an output and a new state, or fails; a
  step of the reference model gives an output and a new state.  \<open>locale simulates\<close> is the contract
  that one step of the code in a state related to a state of the model does what the model does; its
  lemma extends it to sequences of operations.
\<close>

fun run_out :: "('e \<Rightarrow> 's \<Rightarrow> ('o \<times> 's) option) \<Rightarrow> 'e list \<Rightarrow> 's \<Rightarrow> ('o list \<times> 's) option" where
  "run_out step [] s = Some ([], s)"
| "run_out step (e # es) s =
     do { (out, s') \<leftarrow> step e s; (outs, s'') \<leftarrow> run_out step es s'; Some (out # outs, s'') }"

fun spec_out :: "('e \<Rightarrow> 'a \<Rightarrow> 'o \<times> 'a) \<Rightarrow> 'e list \<Rightarrow> 'a \<Rightarrow> 'o list \<times> 'a" where
  "spec_out spec [] a = ([], a)"
| "spec_out spec (e # es) a =
     (let (out, a') = spec e a; (outs, a'') = spec_out spec es a' in (out # outs, a''))"

text \<open>Every operation meets its condition in the state of the model in which it occurs.\<close>

fun spec_env :: "('e \<Rightarrow> 'a \<Rightarrow> 'o \<times> 'a) \<Rightarrow> ('e \<Rightarrow> 'a \<Rightarrow> bool) \<Rightarrow> 'e list \<Rightarrow> 'a \<Rightarrow> bool" where
  "spec_env spec env [] a = True"
| "spec_env spec env (e # es) a = (env e a \<and> spec_env spec env es (snd (spec e a)))"

locale simulates =
  fixes step :: "'e \<Rightarrow> 's \<Rightarrow> ('o \<times> 's) option" and spec :: "'e \<Rightarrow> 'a \<Rightarrow> 'o \<times> 'a"
    and env :: "'e \<Rightarrow> 'a \<Rightarrow> bool" and rel :: "'s \<Rightarrow> 'a \<Rightarrow> bool"
  assumes step_sim: "rel s a \<Longrightarrow> env e a \<Longrightarrow>
    \<exists>s'. step e s = Some (fst (spec e a), s') \<and> rel s' (snd (spec e a))"
begin

lemma run_sim:
  assumes "rel s a" and "spec_env spec env es a"
  shows "\<exists>s'. run_out step es s = Some (fst (spec_out spec es a), s') \<and> rel s' (snd (spec_out spec es a))"
  using assms
proof (induction es arbitrary: s a)
  case (Cons e es)
  then have "env e a" "spec_env spec env es (snd (spec e a))"
    by simp_all
  from step_sim [OF Cons.prems(1) this(1)] obtain s1 where
      s1: "step e s = Some (fst (spec e a), s1)" "rel s1 (snd (spec e a))"
    by blast
  from Cons.IH [OF s1(2) \<open>spec_env spec env es (snd (spec e a))\<close>] s1(1) show ?case
    by (auto simp: case_prod_beta Let_def)
qed simp

end

end
