(* ===== verification/My_Fifo.thy ===== *)
theory My_Fifo
  imports Hci_Fifo Simulation
begin

text \<open>
  The packet ring \<^verbatim>\<open>my_fifo_t\<close> of \<^verbatim>\<open>common/utility.c\<close>.  Unlike the rings of the HCI transport it
  writes the length of a packet in front of it and checks for room; its slots are indexed with
  \<open>num - 1\<close>.  It is related to the HCI ring by an abstraction function and is an instance of the same
  store contract.
\<close>

section \<open>The ring (utility.c, utility.h)\<close>

record my_fifo =
  mf_size :: u32
  mf_num :: u16
  mf_wptr :: u8
  mf_rptr :: u8
  mf_p :: "u8 list"

definition my_fifo_init :: "my_fifo \<Rightarrow> u32 \<Rightarrow> u8 \<Rightarrow> u8 list \<Rightarrow> my_fifo" where
  "my_fifo_init f s n p = f\<lparr>mf_size := s, mf_num := ucast n, mf_wptr := 0, mf_rptr := 0, mf_p := p\<rparr>"

text \<open>\<open>f->p + (ptr & (f->num-1)) * f->size\<close>, as an offset.\<close>

definition my_fifo_slot :: "my_fifo \<Rightarrow> u8 \<Rightarrow> nat" where
  "my_fifo_slot f ptr = unat ((ucast ptr AND (ucast (mf_num f) - 1)) * mf_size f)"

text \<open>\<open>((f->wptr - f->rptr) & 255)\<close>.\<close>

definition my_fifo_level :: "my_fifo \<Rightarrow> nat" where
  "my_fifo_level f = unat (mf_wptr f - mf_rptr f)"

text \<open>A returned pointer is an offset in the array; \<open>None\<close> is the null pointer.\<close>

definition my_fifo_wptr :: "my_fifo \<Rightarrow> nat option" where
  "my_fifo_wptr f =
     (if my_fifo_level f < unat (mf_num f) then Some (my_fifo_slot f (mf_wptr f)) else None)"

definition my_fifo_wptr_v2 :: "my_fifo \<Rightarrow> nat option" where
  "my_fifo_wptr_v2 f =
     (if int (my_fifo_level f) < int (unat (mf_num f)) - 3 then Some (my_fifo_slot f (mf_wptr f)) else None)"

definition my_fifo_next :: "my_fifo \<Rightarrow> my_fifo" where
  "my_fifo_next f = f\<lparr>mf_wptr := mf_wptr f + 1\<rparr>"

text \<open>\<open>my_fifo_push(f, p, n)\<close>; the comparison \<open>n >= f->size\<close> is unsigned.  The result is the return
  value and the ring.\<close>

definition my_fifo_push :: "my_fifo \<Rightarrow> u8 list \<Rightarrow> u32 \<Rightarrow> (int \<times> my_fifo) option" where
  "my_fifo_push f p n =
     (if unat (mf_num f) \<le> my_fifo_level f then Some (-1, f)
      else if mf_size f \<le> n then Some (-1, f)
      else do {
        let pd = my_fifo_slot f (mf_wptr f);
        xs \<leftarrow> get_bytes p 0 (unat n);
        buf \<leftarrow> put_bytes (mf_p f) pd [ucast (n AND 0xff), ucast (drop_bit 8 n AND 0xff)];
        buf \<leftarrow> put_bytes buf (pd + 2) xs;
        Some (0, f\<lparr>mf_p := buf, mf_wptr := mf_wptr f + 1\<rparr>) })"

definition my_fifo_pop :: "my_fifo \<Rightarrow> my_fifo" where
  "my_fifo_pop f = f\<lparr>mf_rptr := mf_rptr f + 1\<rparr>"

definition my_fifo_get :: "my_fifo \<Rightarrow> nat option" where
  "my_fifo_get f = (if mf_rptr f \<noteq> mf_wptr f then Some (my_fifo_slot f (mf_rptr f)) else None)"

section \<open>The ring as a ring of the transport\<close>

definition mf_abs :: "my_fifo \<Rightarrow> hci_fifo" where
  "mf_abs f = \<lparr>fsize = mf_size f, fnum = ucast (mf_num f), fmask = ucast (mf_num f) - 1, wptr = mf_wptr f,
     rptr = mf_rptr f, fp = mf_p f\<rparr>"

definition mf_inv :: "my_fifo \<Rightarrow> bool" where
  "mf_inv f \<longleftrightarrow> unat (mf_num f) \<le> 128 \<and> fifo_inv (mf_abs f)"

lemma mf_abs_simps [simp]:
  "fsize (mf_abs f) = mf_size f" "wptr (mf_abs f) = mf_wptr f" "rptr (mf_abs f) = mf_rptr f"
  "fp (mf_abs f) = mf_p f" "fifo_count (mf_abs f) = my_fifo_level f"
  by (simp_all add: mf_abs_def fifo_count_def my_fifo_level_def)

lemma mf_num_abs: "unat (mf_num f) \<le> 128 \<Longrightarrow> unat (fnum (mf_abs f)) = unat (mf_num f)"
  by (simp add: mf_abs_def unsigned_ucast_eq take_bit_nat_eq_self)

lemma mf_slot_abs:
  assumes "mf_inv f"
  shows "my_fifo_slot f ptr = fifo_slot (mf_abs f) ptr"
proof -
  have wf: "fifo_wf (mf_abs f)" and n: "unat (mf_num f) \<le> 128"
    using assms by (simp_all add: mf_inv_def fifo_inv_def)
  from wf obtain k where k: "k \<le> 7" "(ucast (mf_num f) :: u8) = 2 ^ k"
    by (auto simp: fifo_wf_def mf_abs_def)
  have "(2::nat) ^ k \<le> 2 ^ 7"
    using k(1) by (rule power_increasing) simp
  then have "unat ((2::u8) ^ k) = 2 ^ k"
    using unat_of_nat [of "2 ^ k", where ?'a = 8] by simp
  then have num: "unat (mf_num f) = 2 ^ k"
    using mf_num_abs [OF n] k(2) by (simp add: mf_abs_def)
  then have "unat (ucast (mf_num f) :: u32) = 2 ^ k"
    using unat_bound(2) [of "mf_num f"] k(1) by (simp add: unsigned_ucast_eq take_bit_nat_eq_self)
  moreover have "unat ((2::u32) ^ k) = 2 ^ k"
    using unat_of_nat [of "2 ^ k", where ?'a = 32] \<open>2 ^ k \<le> 2 ^ 7\<close> by simp
  ultimately have "(ucast (mf_num f) :: u32) = 2 ^ k"
    by (simp add: word_unat_eq_iff)
  then have m32: "ucast (mf_num f) - 1 = (mask k :: u32)"
    by (simp add: mask_eq_exp_minus_1)
  have m8: "fmask (mf_abs f) = mask k"
    using k(2) by (simp add: mf_abs_def mask_eq_exp_minus_1)
  have "(ucast ptr AND mask k :: u32) = ucast (ptr AND mask k)"
    using k(1) by (intro bit_word_eqI) (auto simp: word_bit_simps bit_mask_iff dest: bit_imp_le_length)
  then show ?thesis
    by (simp add: my_fifo_slot_def fifo_slot_def m32 m8)
qed

text \<open>The entry that a push writes: the length, low byte first, and the packet.\<close>

definition mf_entry :: "u8 list \<Rightarrow> u8 list" where
  "mf_entry xs = UINT16_TO_BSTREAM (of_nat (length xs)) @ xs"

lemma put_bytes_append:
  assumes "put_bytes buf i xs = Some b" and "put_bytes b (i + length xs) ys = Some c"
  shows "put_bytes buf i (xs @ ys) = Some c"
  using assms by (auto simp: put_bytes_def ac_simps split: if_splits)

lemma put_bytes_append_Some:
  assumes "put_bytes buf i (xs @ ys) = Some c"
  obtains b where "put_bytes buf i xs = Some b" and "put_bytes b (i + length xs) ys = Some c"
  using assms by (auto simp: put_bytes_def ac_simps split: if_splits)

lemma length_mf_entry [simp]: "length (mf_entry xs) = length xs + 2"
  by (simp add: mf_entry_def)

lemma mf_push_abs:
  assumes inv: "mf_inv f" and room: "my_fifo_level f < unat (mf_num f)" and size: "length xs < unat (mf_size f)"
  shows "map_option (map_prod id mf_abs) (my_fifo_push f (xs @ rest) (of_nat (length xs))) =
     map_option (Pair 0) (fifo_push (mf_abs f) (mf_entry xs))"
proof -
  have sz: "unat (mf_size f) < 65536"
    using inv by (simp add: mf_inv_def fifo_inv_def fifo_wf_def word_less_nat_alt)
  then have n: "unat (of_nat (length xs) :: u32) = length xs"
    using size unat_of_nat [of "length xs", where ?'a = 32] by simp
  then have guard: "\<not> mf_size f \<le> of_nat (length xs)"
    using size by (simp add: not_le word_less_nat_alt)
  have bytes: "[ucast (of_nat (length xs) AND 0xff :: u32), ucast (drop_bit 8 (of_nat (length xs) :: u32) AND 0xff)] =
      UINT16_TO_BSTREAM (of_nat (length xs))"
  proof -
    have "(of_nat (length xs) :: u16) = ucast (of_nat (length xs) :: u32)"
      by (simp add: of_nat_eq_iff unsigned_of_nat ucast_eq word_of_nat_eq_iff)
    then show ?thesis
      unfolding UINT16_TO_BSTREAM_def and_low_mask
      by (simp, intro conjI bit_word_eqI) (auto simp: word_bit_simps)
  qed
  have get: "get_bytes (xs @ rest) 0 (length xs) = Some xs"
    by (simp add: get_bytes_def)
  let ?o = "fifo_slot (mf_abs f) (mf_wptr f)"
  show ?thesis
  proof (cases "put_bytes (mf_p f) ?o (mf_entry xs)")
    case None
    have "Option.bind (put_bytes (mf_p f) ?o (UINT16_TO_BSTREAM (of_nat (length xs)))) (\<lambda>b. put_bytes b (?o + 2) xs) = None"
    proof (rule ccontr)
      assume "\<not> ?thesis"
      then obtain b c where "put_bytes (mf_p f) ?o (UINT16_TO_BSTREAM (of_nat (length xs))) = Some b"
          "put_bytes b (?o + 2) xs = Some c"
        by (auto split: Option.bind_splits)
      then have "put_bytes (mf_p f) ?o (mf_entry xs) = Some c"
        unfolding mf_entry_def by (intro put_bytes_append) simp_all
      with None show False
        by simp
    qed
    then show ?thesis
      using None room guard
      by (auto simp: my_fifo_push_def n get bytes mf_slot_abs [OF inv] fifo_push_def split: Option.bind_splits)
  next
    case (Some c)
    obtain b where b: "put_bytes (mf_p f) ?o (UINT16_TO_BSTREAM (of_nat (length xs))) = Some b"
        "put_bytes b (?o + 2) xs = Some c"
      using put_bytes_append_Some [OF Some [unfolded mf_entry_def]] by auto
    then show ?thesis
      using Some room guard
      by (simp add: my_fifo_push_def n get bytes mf_slot_abs [OF inv] fifo_push_def Let_def) (simp add: mf_abs_def)
  qed
qed

lemma mf_pop_abs: "mf_abs (my_fifo_pop f) = fifo_pop (mf_abs f)"
  by (simp add: mf_abs_def my_fifo_pop_def fifo_pop_def)

section \<open>The ring as a bounded first-in first-out store\<close>

definition mf_items :: "my_fifo \<Rightarrow> u8 list list" where
  "mf_items f = fifo_items (mf_abs f)"

definition mf_fits :: "my_fifo \<Rightarrow> u8 list \<Rightarrow> bool" where
  "mf_fits f xs \<longleftrightarrow> length xs + 2 \<le> unat (mf_size f)"

definition mf_holds :: "u8 list \<Rightarrow> u8 list \<Rightarrow> bool" where
  "mf_holds xs slot \<longleftrightarrow> take (length xs + 2) slot = mf_entry xs"

text \<open>A push that succeeds, and the slot that \<open>my_fifo_get\<close> points to.\<close>

definition mf_put :: "u8 list \<Rightarrow> my_fifo \<Rightarrow> my_fifo option" where
  "mf_put xs f =
     (case my_fifo_push f xs (of_nat (length xs)) of
        Some (r, f') \<Rightarrow> if r = 0 then Some f' else None | None \<Rightarrow> None)"

definition mf_front :: "my_fifo \<Rightarrow> u8 list" where
  "mf_front f = take (unat (mf_size f)) (drop (the (my_fifo_get f)) (mf_p f))"

lemma mf_push_fields:
  assumes "my_fifo_push f p n = Some (r, f')"
  shows "mf_size f' = mf_size f" "mf_num f' = mf_num f"
  using assms by (auto simp: my_fifo_push_def Let_def split: if_splits Option.bind_splits)

lemma mf_put_law:
  assumes inv: "mf_inv f" and room: "length (mf_items f) < unat (mf_num f)" and fits: "mf_fits f xs"
  shows "\<exists>f' y. mf_put xs f = Some f' \<and> mf_inv f' \<and> mf_holds xs y \<and> mf_items f' = mf_items f @ [y] \<and>
     unat (mf_num f') = unat (mf_num f) \<and> mf_fits f' = mf_fits f"
proof -
  have num: "unat (fnum (mf_abs f)) = unat (mf_num f)"
    using inv by (simp add: mf_inv_def mf_num_abs)
  have a: "fifo_inv (mf_abs f)" "length (fifo_items (mf_abs f)) < unat (fnum (mf_abs f))"
      "fifo_fits (mf_abs f) (mf_entry xs)"
    using assms num by (simp_all add: mf_inv_def mf_items_def mf_fits_def fifo_fits_def del: fifo_items_length)
  obtain g y where g: "fifo_push (mf_abs f) (mf_entry xs) = Some g" "fifo_inv g"
      "slot_holds (mf_entry xs) y" "fifo_items g = fifo_items (mf_abs f) @ [y]"
    using hfifo.push_law [OF a] by blast
  have "map_option (map_prod id mf_abs) (my_fifo_push f (xs @ []) (of_nat (length xs))) = Some (0, g)"
    using room fits g(1) by (subst mf_push_abs [OF inv]) (simp_all add: mf_items_def mf_fits_def)
  then obtain f' where f': "my_fifo_push f xs (of_nat (length xs)) = Some (0, f')" "mf_abs f' = g"
    by auto
  note fields = mf_push_fields [OF f'(1)]
  have "mf_put xs f = Some f'"
    by (simp add: mf_put_def f')
  moreover have "mf_inv f'" "mf_holds xs y" "mf_items f' = mf_items f @ [y]" "mf_fits f' = mf_fits f"
    using inv g f'(2) fields by (simp_all add: mf_inv_def mf_holds_def slot_holds_def mf_items_def mf_fits_def fun_eq_iff)
  ultimately show ?thesis
    using fields by auto
qed

lemma mf_pop_law:
  assumes "mf_inv f" and "mf_items f \<noteq> []"
  shows "mf_inv (my_fifo_pop f)" "mf_items (my_fifo_pop f) = tl (mf_items f)" "mf_front f = hd (mf_items f)"
proof -
  have a: "fifo_inv (mf_abs f)" "fifo_items (mf_abs f) \<noteq> []"
    using assms by (simp_all add: mf_inv_def mf_items_def)
  note laws = hfifo.pop_law [OF a] hfifo.front_law [OF a]
  then show "mf_inv (my_fifo_pop f)" "mf_items (my_fifo_pop f) = tl (mf_items f)"
    using assms(1) by (simp_all add: mf_inv_def mf_items_def mf_pop_abs) (simp add: my_fifo_pop_def)
  have "fifo_count (mf_abs f) \<noteq> 0"
    using a(2) by (metis fifo_items_length length_0_conv)
  then have "mf_rptr f \<noteq> mf_wptr f"
    by (auto simp: my_fifo_level_def)
  then show "mf_front f = hd (mf_items f)"
    using laws by (simp add: mf_front_def my_fifo_get_def mf_slot_abs [OF assms(1)] mf_items_def fifo_read_def)
qed

interpretation mfifo: packet_store mf_inv "\<lambda>f. unat (mf_num f)" mf_items mf_fits mf_holds mf_put my_fifo_pop mf_front
proof unfold_locales
  fix f :: my_fifo and xs :: "u8 list"
  assume "mf_inv f" "length (mf_items f) < unat (mf_num f)" "mf_fits f xs"
  then show "\<exists>f' y. mf_put xs f = Some f' \<and> mf_inv f' \<and> mf_holds xs y \<and> mf_items f' = mf_items f @ [y] \<and>
      unat (mf_num f') = unat (mf_num f) \<and> mf_fits f' = mf_fits f"
    by (rule mf_put_law)
next
  fix f :: my_fifo
  assume "mf_inv f" "mf_items f \<noteq> []"
  then show "mf_front f = hd (mf_items f)" and
      "mf_inv (my_fifo_pop f) \<and> mf_items (my_fifo_pop f) = tl (mf_items f) \<and>
       unat (mf_num (my_fifo_pop f)) = unat (mf_num f) \<and> mf_fits (my_fifo_pop f) = mf_fits f"
    using mf_pop_law by (simp_all add: my_fifo_pop_def mf_fits_def fun_eq_iff)
qed

section \<open>A new ring\<close>

definition my_fifo_new :: "nat \<Rightarrow> nat \<Rightarrow> my_fifo" where
  "my_fifo_new s k =
     my_fifo_init \<lparr>mf_size = 0, mf_num = 0, mf_wptr = 0, mf_rptr = 0, mf_p = []\<rparr> (of_nat s) (2 ^ k) (replicate (2 ^ k * s) 0)"

lemma my_fifo_new_inv:
  assumes "s < 65536" and "k \<le> 7"
  shows "mf_inv (my_fifo_new s k)" and "mf_items (my_fifo_new s k) = []"
    and "unat (mf_size (my_fifo_new s k)) = s" and "unat (mf_num (my_fifo_new s k)) = 2 ^ k"
proof -
  have "(2::nat) ^ k \<le> 2 ^ 7"
    using assms(2) by (rule power_increasing) simp
  then have k: "unat ((2::u8) ^ k) = 2 ^ k" "(2::nat) ^ k \<le> 128"
    using unat_of_nat [of "2 ^ k", where ?'a = 8] by simp_all
  then have num: "unat (ucast ((2::u8) ^ k) :: u16) = 2 ^ k"
    using assms(2) by (simp add: unsigned_ucast_eq take_bit_nat_eq_self)
  have "ucast (ucast x :: u16) = x" for x :: u8
    by (rule bit_word_eqI) (auto simp: word_bit_simps)
  then have abs: "mf_abs (my_fifo_new s k) = hci_fifo_new s k"
    by (simp add: mf_abs_def my_fifo_new_def my_fifo_init_def hci_fifo_new_def mask_eq_exp_minus_1)
  show "mf_inv (my_fifo_new s k)"
    using num k hci_fifo_new_inv [OF assms] by (simp add: mf_inv_def abs) (simp add: my_fifo_new_def my_fifo_init_def)
  show "mf_items (my_fifo_new s k) = []" "unat (mf_size (my_fifo_new s k)) = s" "unat (mf_num (my_fifo_new s k)) = 2 ^ k"
    using hci_fifo_new_inv [OF assms] num
    by (simp_all add: mf_items_def abs) (simp_all add: my_fifo_new_def my_fifo_init_def hci_fifo_new_def)
qed

section \<open>The theorems\<close>

text \<open>
  \<open>my_fifo_push\<close>, \<open>my_fifo_get\<close> and \<open>my_fifo_pop\<close> make a first-in first-out store: for every
  sequence of pushes and pops that keeps within the slots, with packets that leave two bytes of a slot
  for the length, no push is refused, and the slots read, then the slots still stored, are those
  stored at first, then one for each packet pushed, in order, with its length and its bytes.
\<close>

theorem my_fifo_in_order:
  assumes "mf_inv f" and "store_room (unat (mf_num f)) (length (mf_items f)) ops"
    and "\<forall>xs\<in>set (store_puts ops). length xs + 2 \<le> unat (mf_size f)"
  shows "\<exists>out f' ys. store_run mf_put my_fifo_pop mf_front ops f = Some (out, f') \<and> mf_inv f' \<and>
     list_all2 mf_holds (store_puts ops) ys \<and> out @ mf_items f' = mf_items f @ ys"
  using assms by (intro mfifo.in_order) (simp_all add: mf_fits_def)

theorem my_fifo_in_order_witness:
  "\<exists>out f' ys. store_run mf_put my_fifo_pop mf_front [Put [1, 2, 3], Put [4], Take, Put [], Take] (my_fifo_new 6 1) = Some (out, f') \<and>
     mf_inv f' \<and> list_all2 mf_holds (store_puts [Put [1, 2, 3], Put [4], Take, Put [], Take]) ys \<and>
     out @ mf_items f' = mf_items (my_fifo_new 6 1) @ ys"
  by (rule my_fifo_in_order) (simp_all add: my_fifo_new_inv)

text \<open>
  The check of the length in \<open>my_fifo_push\<close> forgets the two bytes in front of the packet: a packet
  of one byte less than a slot passes it, and where the slot is the last one its last byte is written
  behind the array.
\<close>

theorem my_fifo_push_overrun:
  assumes "mf_inv f" and "my_fifo_level f < unat (mf_num f)"
    and "unat (mf_wptr f) mod unat (mf_num f) = unat (mf_num f) - 1"
    and "Suc (length xs) = unat (mf_size f)"
  shows "my_fifo_push f xs (of_nat (length xs)) = None"
proof -
  have num: "unat (fnum (mf_abs f)) = unat (mf_num f)" and wf: "fifo_wf (mf_abs f)"
    using assms(1) by (simp_all add: mf_inv_def mf_num_abs fifo_inv_def)
  let ?n = "unat (mf_num f)" and ?s = "unat (mf_size f)"
  have len: "length (mf_p f) = ?n * ?s"
    using wf num by (simp add: fifo_wf_def)
  have "fifo_slot (mf_abs f) (mf_wptr f) = (?n - 1) * ?s"
    using fifo_slot_eq [OF wf, of "mf_wptr f"] assms(3) num by simp
  then have "length (mf_p f) < fifo_slot (mf_abs f) (mf_wptr f) + length (mf_entry xs)"
    using assms(2,4) len by (cases ?n) simp_all
  then have "fifo_push (mf_abs f) (mf_entry xs) = None"
    by (simp add: fifo_push_def put_bytes_def)
  then have "map_option (map_prod id mf_abs) (my_fifo_push f (xs @ []) (of_nat (length xs))) = None"
    using assms(4) by (subst mf_push_abs [OF assms(1,2)]) simp_all
  then show ?thesis
    by simp
qed

theorem my_fifo_push_overrun_witness:
  "my_fifo_push (my_fifo_new 4 0) [1, 2, 3] (of_nat (length [1 :: u8, 2, 3])) = None"
  by (rule my_fifo_push_overrun) (simp_all add: my_fifo_new_inv my_fifo_level_def my_fifo_new_inv [simplified],
      simp_all add: my_fifo_new_def my_fifo_init_def)

section \<open>A bounded queue\<close>

text \<open>
  A client that pushes packets and takes them: it asks for the oldest slot with \<open>my_fifo_get\<close>, and when the
  pointer is not null reads the length and as many bytes behind it and calls \<open>my_fifo_pop\<close>.
\<close>

datatype mf_result = Pushed int | Got "u8 list" | Empty

fun mf_step :: "u8 list store_op \<Rightarrow> my_fifo \<Rightarrow> (mf_result \<times> my_fifo) option" where
  "mf_step (Put xs) f = do { (r, f) \<leftarrow> my_fifo_push f xs (of_nat (length xs)); Some (Pushed r, f) }"
| "mf_step Take f =
     (case my_fifo_get f of
        None \<Rightarrow> Some (Empty, f)
      | Some i \<Rightarrow> do {
          h \<leftarrow> get_bytes (mf_p f) i 2;
          xs \<leftarrow> get_bytes (mf_p f) (i + 2) (unat (BYTES_TO_UINT16 (h ! 0) (h ! 1)));
          Some (Got xs, my_fifo_pop f) })"

text \<open>The queue of at most \<open>cap\<close> packets of fewer than \<open>sz\<close> bytes refuses what does not fit.\<close>

fun mf_spec :: "nat \<Rightarrow> nat \<Rightarrow> u8 list store_op \<Rightarrow> u8 list list \<Rightarrow> mf_result \<times> u8 list list" where
  "mf_spec cap sz (Put xs) q = (if cap \<le> length q \<or> sz \<le> length xs then (Pushed (- 1), q) else (Pushed 0, q @ [xs]))"
| "mf_spec cap sz Take q = (case q of [] \<Rightarrow> (Empty, []) | x # q \<Rightarrow> (Got x, q))"

text \<open>The one length for which the code does something else: see \<open>my_fifo_push_overrun\<close>.\<close>

fun mf_env :: "nat \<Rightarrow> nat \<Rightarrow> u8 list store_op \<Rightarrow> u8 list list \<Rightarrow> bool" where
  "mf_env cap sz (Put xs) q \<longleftrightarrow> length q < cap \<longrightarrow> length xs + 1 \<noteq> sz \<and> length xs < 2 ^ 32"
| "mf_env cap sz Take q \<longleftrightarrow> True"

definition mf_rel :: "nat \<Rightarrow> nat \<Rightarrow> my_fifo \<Rightarrow> u8 list list \<Rightarrow> bool" where
  "mf_rel cap sz f q \<longleftrightarrow> mf_inv f \<and> unat (mf_num f) = cap \<and> unat (mf_size f) = sz \<and> list_all2 mf_holds q (mf_items f)
     \<and> (\<forall>x \<in> set q. length x + 2 \<le> sz)"

lemma mf_items_level: "mf_inv f \<Longrightarrow> length (mf_items f) = my_fifo_level f"
  by (simp add: mf_items_def)

lemma mf_push_sim:
  assumes rel: "mf_rel cap sz f q" and env: "mf_env cap sz (Put xs) q"
  shows "\<exists>f'. mf_step (Put xs) f = Some (fst (mf_spec cap sz (Put xs) q), f') \<and> mf_rel cap sz f' (snd (mf_spec cap sz (Put xs) q))"
proof -
  have inv: "mf_inv f" and cap: "unat (mf_num f) = cap" and sz: "unat (mf_size f) = sz" and q: "list_all2 mf_holds q (mf_items f)"
    using rel by (simp_all add: mf_rel_def)
  have lev: "my_fifo_level f = length q"
    using mf_items_level [OF inv] list_all2_lengthD [OF q] by simp
  show ?thesis
  proof (cases "length q < cap")
    case False
    then show ?thesis
      using rel lev cap by (simp add: my_fifo_push_def)
  next
    case room: True
    have n: "unat (of_nat (length xs) :: u32) = length xs"
      using env room by (simp add: unat_of_nat)
    show ?thesis
    proof (cases "sz \<le> length xs")
      case True
      then show ?thesis
        using rel lev cap sz room n by (simp add: my_fifo_push_def word_le_nat_alt)
    next
      case False
      then have fits: "mf_fits f xs"
        using env room sz by (auto simp: mf_fits_def)
      obtain f' y where f': "mf_put xs f = Some f'" "mf_inv f'" "mf_holds xs y" "mf_items f' = mf_items f @ [y]"
          "unat (mf_num f') = unat (mf_num f)" "mf_fits f' = mf_fits f"
        using mf_put_law [OF inv _ fits] room lev mf_items_level [OF inv] cap by auto
      have push: "my_fifo_push f xs (of_nat (length xs)) = Some (0, f')"
        using f'(1) by (auto simp: mf_put_def split: option.splits if_splits)
      then have "unat (mf_size f') = sz"
        using mf_push_fields(1) [OF push] sz by simp
      then show ?thesis
        using rel push f' room False fits cap sz q by (auto simp: mf_rel_def mf_fits_def intro: list_all2_appendI)
    qed
  qed
qed

lemma mf_take_sim:
  assumes rel: "mf_rel cap sz f q"
  shows "\<exists>f'. mf_step Take f = Some (fst (mf_spec cap sz Take q), f') \<and> mf_rel cap sz f' (snd (mf_spec cap sz Take q))"
proof -
  have inv: "mf_inv f" and cap: "unat (mf_num f) = cap" and sz: "unat (mf_size f) = sz" and q: "list_all2 mf_holds q (mf_items f)"
      and small: "\<forall>x \<in> set q. length x + 2 \<le> sz"
    using rel by (simp_all add: mf_rel_def)
  show ?thesis
  proof (cases q)
    case Nil
    then have "my_fifo_level f = 0"
      using mf_items_level [OF inv] list_all2_lengthD [OF q] by simp
    then have "mf_rptr f = mf_wptr f"
      by (simp add: my_fifo_level_def unat_eq_0)
    then show ?thesis
      using Nil rel by (simp add: my_fifo_get_def)
  next
    case (Cons x q')
    have ne: "mf_items f \<noteq> []"
      using q Cons by auto
    note pop = mf_pop_law [OF inv ne]
    have "my_fifo_level f \<noteq> 0"
      using mf_items_level [OF inv] ne by (metis length_0_conv)
    then have "mf_rptr f \<noteq> mf_wptr f"
      by (auto simp: my_fifo_level_def)
    then obtain i where i: "my_fifo_get f = Some i" "i = fifo_slot (mf_abs f) (mf_rptr f)"
      by (simp add: my_fifo_get_def mf_slot_abs [OF inv])
    have wf: "fifo_wf (mf_abs f)"
      using inv by (simp add: mf_inv_def fifo_inv_def)
    have inside: "i + sz \<le> length (mf_p f)"
      using fifo_slot_fits [OF wf, of "mf_rptr f"] sz i(2) by simp
    have x: "length x + 2 \<le> sz"
      using small Cons by simp
    have "mf_holds x (hd (mf_items f))"
      using q Cons ne by (cases "mf_items f") auto
    then have "take (length x + 2) (take sz (drop i (mf_p f))) = mf_entry x"
      using pop(3) i(1) sz by (simp add: mf_holds_def mf_front_def)
    then have slot: "take (length x + 2) (drop i (mf_p f)) = mf_entry x"
      using x by (simp add: min_def)
    have sz16: "sz < 65536"
      using wf sz by (simp add: fifo_wf_def word_less_nat_alt)
    have len: "unat (BYTES_TO_UINT16 (UINT16_TO_BSTREAM (of_nat (length x)) ! 0) (UINT16_TO_BSTREAM (of_nat (length x)) ! 1)) = length x"
      using x sz16 by (simp add: UINT16_TO_BSTREAM_def uint16_bytes_id unat_of_nat)
    have "take 2 (take (length x + 2) (drop i (mf_p f))) = take 2 (mf_entry x)"
      unfolding slot ..
    then have h: "get_bytes (mf_p f) i 2 = Some (UINT16_TO_BSTREAM (of_nat (length x)))"
      using inside x by (simp add: get_bytes_def mf_entry_def min_def)
    have "drop 2 (take (length x + 2) (drop i (mf_p f))) = drop 2 (mf_entry x)"
      unfolding slot ..
    then have body: "get_bytes (mf_p f) (i + 2) (length x) = Some x"
      using inside x by (simp add: get_bytes_def mf_entry_def drop_take add.commute)
    have "mf_step Take f = Some (Got x, my_fifo_pop f)"
      using i(1) h body by (simp add: len [unfolded One_nat_def])
    moreover have "mf_rel cap sz (my_fifo_pop f) q'"
      using pop(1,2) q Cons ne cap sz small
      by (cases "mf_items f") (auto simp: mf_rel_def my_fifo_pop_def)
    ultimately show ?thesis
      using Cons by simp
  qed
qed

interpretation mfq: simulates mf_step "mf_spec cap sz" "mf_env cap sz" "mf_rel cap sz" for cap sz
proof
  fix f q and e :: "u8 list store_op"
  assume "mf_rel cap sz f q" "mf_env cap sz e q"
  then show "\<exists>f'. mf_step e f = Some (fst (mf_spec cap sz e q), f') \<and> mf_rel cap sz f' (snd (mf_spec cap sz e q))"
    using mf_push_sim mf_take_sim by (cases e) blast+
qed

text \<open>
  C13: \<open>my_fifo_push\<close>, \<open>my_fifo_get\<close> and \<open>my_fifo_pop\<close> refine a bounded queue: from a new ring of \<open>2 ^ k\<close> slots of \<open>s\<close>
  bytes on, every sequence of pushes and takes gives what the queue gives, packet by packet: a push into a full ring or of a
  packet of at least \<open>s\<close> bytes is refused and changes nothing, a take from an empty ring gives the null pointer, and
  all others deliver the packets with their lengths and bytes in order.  The only pushes left out are those into a
  ring with room of a packet of exactly \<open>s - 1\<close> bytes, which the code accepts although it needs \<open>s + 1\<close>.
\<close>

theorem my_fifo_refines_queue:
  assumes "s < 65536" and "k \<le> 7" and "spec_env (mf_spec (2 ^ k) s) (mf_env (2 ^ k) s) ops []"
  shows "\<exists>f'. run_out mf_step ops (my_fifo_new s k) = Some (fst (spec_out (mf_spec (2 ^ k) s) ops []), f')"
proof -
  have "mf_rel (2 ^ k) s (my_fifo_new s k) []"
    using my_fifo_new_inv [OF assms(1,2)] by (simp add: mf_rel_def)
  from mfq.run_sim [OF this assms(3)] show ?thesis
    by blast
qed

theorem my_fifo_refines_queue_witness:
  "\<exists>f'. run_out mf_step [Take, Put [1, 2, 3], Put [4, 5, 6, 7, 8, 9, 10], Put [], Put [5], Take, Take, Take] (my_fifo_new 6 1)
     = Some ([Empty, Pushed 0, Pushed (- 1), Pushed 0, Pushed (- 1), Got [1, 2, 3], Got [], Empty], f')"
  using my_fifo_refines_queue [of 6 1 "[Take, Put [1, 2, 3], Put [4, 5, 6, 7, 8, 9, 10], Put [], Put [5], Take, Take, Take]"]
  by simp

end
