(* ===== verification/Tl_Queue.thy ===== *)
theory Tl_Queue
  imports Simulation
begin

text \<open>
  The linked queue of \<^verbatim>\<open>common/tl_queue.c\<close>, a singly linked list of items that the callers own, with
  an optional priority function.  A pointer to an item is an address or the null pointer \<open>None\<close>; the
  \<open>next\<close> fields are a map from addresses to pointers.  The pointer \<open>pQueue\<close> to the queue itself is
  not null; with a null pointer the functions only return \<open>QUEUE_PARAM_INVALID\<close>.  Each operation runs
  with interrupts disabled and is one step.
\<close>

section \<open>The queue (tl_queue.c, tl_queue.h)\<close>

type_synonym item = nat
type_synonym heap = "item \<Rightarrow> item option"

datatype queue_sts =
  QUEUE_SUCCESS | QUEUE_PARAM_INVALID | QUEUE_EMPTY | QUEUE_NOT_FOUND | QUEUE_OVERFLOWED

text \<open>The priority of an item does not depend on its \<open>next\<close> field.\<close>

record tl_queue =
  q_head :: "item option"
  q_tail :: "item option"
  priCmpCb :: "(item \<Rightarrow> u32) option"
  curNum :: u32

type_synonym qstate = "tl_queue \<times> heap"

definition queue_init :: "tl_queue \<Rightarrow> (item \<Rightarrow> u32) option \<Rightarrow> queue_sts \<times> tl_queue" where
  "queue_init pQueue priFunc =
     (QUEUE_SUCCESS, pQueue\<lparr>q_head := None, q_tail := None, curNum := 0, priCmpCb := priFunc\<rparr>)"

text \<open>The search for the place of an item: the item before it and the item after it.  On a list that
  runs into itself the loop need not end; then the result is \<open>None\<close>.\<close>

partial_function (option) queue_place ::
    "(item \<Rightarrow> u32) \<Rightarrow> heap \<Rightarrow> item \<Rightarrow> item option \<Rightarrow> item option \<Rightarrow> (item option \<times> item option) option" where
  "queue_place pri next pItem previous current =
     (case current of
        None \<Rightarrow> Some (previous, None)
      | Some c \<Rightarrow>
          if pri pItem < pri c then Some (previous, Some c)
          else queue_place pri next pItem (Some c) (next c))"

declare queue_place.simps [code]

definition queue_enq :: "item option \<Rightarrow> qstate \<Rightarrow> (queue_sts \<times> qstate) option" where
  "queue_enq item s =
     (case (item, s) of
        (None, _) \<Rightarrow> Some (QUEUE_PARAM_INVALID, s)
      | (Some pItem, q, next) \<Rightarrow>
          if q_head q = None then
            Some (QUEUE_SUCCESS,
              q\<lparr>q_head := Some pItem, q_tail := Some pItem, curNum := curNum q + 1\<rparr>, next(pItem := None))
          else
            (case priCmpCb q of
               None \<Rightarrow>
                 do { t \<leftarrow> q_tail q;
                      Some (QUEUE_SUCCESS, q\<lparr>q_tail := Some pItem, curNum := curNum q + 1\<rparr>,
                        (next(t := Some pItem))(pItem := None)) }
             | Some pri \<Rightarrow>
                 do { (previous, current) \<leftarrow> queue_place pri next pItem None (q_head q);
                      let (q1, next1) =
                        (case previous of
                           None \<Rightarrow> (q\<lparr>q_head := Some pItem\<rparr>, next)
                         | Some p \<Rightarrow> (q, next(p := Some pItem)));
                      let next2 = next1(pItem := current);
                      let q2 = (if current = None then q1\<lparr>q_tail := Some pItem\<rparr> else q1);
                      Some (QUEUE_SUCCESS, q2\<lparr>curNum := curNum q + 1\<rparr>, next2) }))"

definition queue_deq :: "qstate \<Rightarrow> item option \<times> qstate" where
  "queue_deq s =
     (case s of (q, next) \<Rightarrow>
        (case q_head q of
           None \<Rightarrow> (None, s)
         | Some i \<Rightarrow>
             (let q1 = q\<lparr>q_head := next i\<rparr>;
                  q2 = (if q_head q1 = None then q1\<lparr>q_tail := None\<rparr> else q1)
              in (Some i, q2\<lparr>curNum := curNum q - 1\<rparr>, next))))"

definition queue_insert :: "item option \<Rightarrow> item option \<Rightarrow> qstate \<Rightarrow> (queue_sts \<times> qstate) option" where
  "queue_insert item pPrev s =
     (case (item, s) of
        (None, _) \<Rightarrow> Some (QUEUE_PARAM_INVALID, s)
      | (Some pItem, q, next) \<Rightarrow>
          if q_head q = None \<or> pPrev = q_tail q then
            map_option (\<lambda>(_, s'). (QUEUE_SUCCESS, s')) (queue_enq item s)
          else
            (case pPrev of
               None \<Rightarrow>
                 Some (QUEUE_SUCCESS, q\<lparr>q_head := Some pItem, curNum := curNum q + 1\<rparr>, next(pItem := q_head q))
             | Some p \<Rightarrow>
                 Some (QUEUE_SUCCESS, q\<lparr>curNum := curNum q + 1\<rparr>, (next(pItem := next p))(p := Some pItem))))"

definition queue_remove :: "item option \<Rightarrow> item option \<Rightarrow> qstate \<Rightarrow> queue_sts \<times> qstate" where
  "queue_remove item pPrev s =
     (case (item, s) of
        (None, _) \<Rightarrow> (QUEUE_PARAM_INVALID, s)
      | (Some pItem, q, next) \<Rightarrow>
          if q_head q = None then (QUEUE_PARAM_INVALID, s)
          else
            (let (q1, next1) =
               (if q_head q = Some pItem then (q\<lparr>q_head := next pItem\<rparr>, next)
                else (case pPrev of None \<Rightarrow> (q, next) | Some p \<Rightarrow> (q, next(p := next pItem))));
                 q2 = (if q_tail q1 = Some pItem then q1\<lparr>q_tail := pPrev\<rparr> else q1)
             in (QUEUE_SUCCESS, q2\<lparr>curNum := curNum q - 1\<rparr>, next1)))"

partial_function (option) queue_find ::
    "heap \<Rightarrow> item \<Rightarrow> item option \<Rightarrow> item option \<Rightarrow> (item option \<times> item option) option" where
  "queue_find next pItem previous current =
     (if current = None \<or> current = Some pItem then Some (previous, current)
      else Option.bind current (\<lambda>c. queue_find next pItem (Some c) (next c)))"

declare queue_find.simps [code]

text \<open>Where the search succeeds \<open>previous\<close> is not null: the head of the queue was compared before.\<close>

definition queue_delete :: "item option \<Rightarrow> qstate \<Rightarrow> (queue_sts \<times> qstate) option" where
  "queue_delete item s =
     (case (item, s) of
        (None, _) \<Rightarrow> Some (QUEUE_PARAM_INVALID, s)
      | (Some pItem, q, next) \<Rightarrow>
          if q_head q = None then Some (QUEUE_EMPTY, s)
          else if q_head q = Some pItem then
            (let q1 = q\<lparr>q_head := next pItem\<rparr>;
                 q2 = (if q_tail q1 = Some pItem then q1\<lparr>q_tail := None\<rparr> else q1)
             in Some (QUEUE_SUCCESS, q2\<lparr>curNum := curNum q - 1\<rparr>, next))
          else
            do { (previous, current) \<leftarrow> queue_find next pItem None (q_head q);
                 case current of
                   None \<Rightarrow> Some (QUEUE_NOT_FOUND, s)
                 | Some c \<Rightarrow>
                     do { p \<leftarrow> previous;
                          let q1 = (if q_tail q = Some c then q\<lparr>q_tail := previous\<rparr> else q);
                          Some (QUEUE_SUCCESS, q1\<lparr>curNum := curNum q - 1\<rparr>, next(p := next c)) } })"

definition queue_isempty :: "qstate \<Rightarrow> bool" where
  "queue_isempty s \<longleftrightarrow> q_head (fst s) = None"

definition queue_count :: "qstate \<Rightarrow> u32" where
  "queue_count s = curNum (fst s)"

section \<open>Lists in the heap\<close>

fun path :: "heap \<Rightarrow> item option \<Rightarrow> item list \<Rightarrow> item option \<Rightarrow> bool" where
  "path next p [] q \<longleftrightarrow> p = q"
| "path next p (x # xs) q \<longleftrightarrow> p = Some x \<and> path next (next x) xs q"

lemma path_append [simp]:
  "path next p (xs @ ys) q \<longleftrightarrow> (\<exists>r. path next p xs r \<and> path next r ys q)"
  by (induction xs arbitrary: p) auto

lemma path_other [simp]: "i \<notin> set xs \<Longrightarrow> path (next(i := v)) p xs q \<longleftrightarrow> path next p xs q"
  by (induction xs arbitrary: p) auto

lemma path_unique: "path next p xs None \<Longrightarrow> path next p ys None \<Longrightarrow> xs = ys"
  by (induction xs arbitrary: p ys) (metis list.exhaust option.discI path.simps, metis list.exhaust option.discI option.inject path.simps)

lemma path_distinct: "path next p xs None \<Longrightarrow> distinct xs"
proof (induction xs arbitrary: p)
  case (Cons x xs)
  have "x \<notin> set xs"
  proof
    assume "x \<in> set xs"
    then obtain ys zs where "xs = ys @ x # zs"
      by (meson split_list)
    with Cons.prems have "path next (next x) (ys @ x # zs) None" "path next (next x) zs None"
      by auto
    then have "ys @ x # zs = zs"
      by (rule path_unique)
    then show False
      by (metis Cons_eq_appendI append_eq_append_conv length_Cons length_append lessI less_add_same_cancel2 nat_neq_iff not_add_less2)
  qed
  with Cons show ?case
    by auto
qed simp

lemma path_head: "path next p xs None \<Longrightarrow> p = None \<longleftrightarrow> xs = []"
  by (cases xs) auto

text \<open>Redirecting the pointers around a place in a list.\<close>

lemma path_insert:
  assumes "path next p (ys @ zs) None" and "i \<notin> set (ys @ zs)" and "ys \<noteq> []" and "path next r zs None"
  shows "path ((next(last ys := Some i))(i := r)) p (ys @ i # zs) None"
proof -
  obtain us u where ys: "ys = us @ [u]"
    using assms(3) by (cases ys rule: rev_cases) auto
  have d: "u \<notin> set us" "u \<notin> set zs" "i \<noteq> u"
    using path_distinct [OF assms(1)] assms(2) by (auto simp: ys)
  then show ?thesis
    using assms by (simp add: ys)
qed

lemma path_remove:
  assumes "path next p (ys @ c # zs) None" and "ys \<noteq> []"
  shows "path (next(last ys := next c)) p (ys @ zs) None"
proof -
  obtain us u where ys: "ys = us @ [u]"
    using assms(2) by (cases ys rule: rev_cases) auto
  have "u \<notin> set us" "u \<notin> set zs"
    using path_distinct [OF assms(1)] by (auto simp: ys)
  then show ?thesis
    using assms by (auto simp: ys)
qed

lemma queue_place_spec:
  assumes "path next current (ys @ zs) None" and "\<forall>y\<in>set ys. pri y \<le> pri i"
    and "zs \<noteq> [] \<Longrightarrow> pri i < pri (hd zs)"
  shows "queue_place pri next i previous current =
     Some (if ys = [] then previous else Some (last ys), if zs = [] then None else Some (hd zs))"
  using assms
proof (induction ys arbitrary: previous current)
  case Nil
  then show ?case
    by (cases zs) (auto simp: queue_place.simps)
next
  case (Cons y ys)
  then have "queue_place pri next i previous current = queue_place pri next i (Some y) (next y)"
    by (subst queue_place.simps) (auto simp: not_less)
  with Cons show ?case
    by auto
qed

lemma queue_find_spec:
  assumes "path next current (ys @ zs) None" and "i \<notin> set ys" and "zs \<noteq> [] \<Longrightarrow> hd zs = i"
  shows "queue_find next i previous current =
     Some (if ys = [] then previous else Some (last ys), if zs = [] then None else Some i)"
  using assms
proof (induction ys arbitrary: previous current)
  case Nil
  then show ?case
    by (cases zs) (auto simp: queue_find.simps)
next
  case (Cons y ys)
  then have "queue_find next i previous current = queue_find next i (Some y) (next y)"
    by (subst queue_find.simps) auto
  with Cons show ?case
    by auto
qed

section \<open>The reference model: a list kept in order of priority\<close>

definition pq_enq :: "(item \<Rightarrow> u32) option \<Rightarrow> item \<Rightarrow> item list \<Rightarrow> item list" where
  "pq_enq prio i xs =
     (case prio of
        None \<Rightarrow> xs @ [i]
      | Some pri \<Rightarrow> takeWhile (\<lambda>x. pri x \<le> pri i) xs @ i # dropWhile (\<lambda>x. pri x \<le> pri i) xs)"

definition queue_rep :: "(item \<Rightarrow> u32) option \<Rightarrow> qstate \<Rightarrow> item list \<Rightarrow> bool" where
  "queue_rep prio s xs \<longleftrightarrow>
     (case s of (q, next) \<Rightarrow>
        priCmpCb q = prio \<and> path next (q_head q) xs None \<and>
        q_tail q = (if xs = [] then None else Some (last xs)) \<and> curNum q = of_nat (length xs))"

lemma queue_init_rep: "queue_rep prio (snd (queue_init q prio), next) []"
  by (simp add: queue_rep_def queue_init_def)

lemma queue_enq_rep:
  assumes rep: "queue_rep prio s xs" and i: "i \<notin> set xs"
  shows "\<exists>s'. queue_enq (Some i) s = Some (QUEUE_SUCCESS, s') \<and> queue_rep prio s' (pq_enq prio i xs)"
proof -
  obtain q nx where s: "s = (q, nx)"
    by (cases s)
  have p: "priCmpCb q = prio" "path nx (q_head q) xs None" "q_tail q = (if xs = [] then None else Some (last xs))"
      "curNum q = of_nat (length xs)"
    using rep by (simp_all add: queue_rep_def s)
  show ?thesis
  proof (cases "xs = []")
    case True
    then show ?thesis
      using p by (auto simp: queue_enq_def s queue_rep_def pq_enq_def split: option.split)
  next
    case ne: False
    then have hd: "q_head q \<noteq> None"
      using path_head [OF p(2)] by simp
    show ?thesis
    proof (cases prio)
      case None
      have "path ((nx(last xs := Some i))(i := None)) (q_head q) (xs @ [i]) None"
        using path_insert [of nx "q_head q" xs "[]" i None] p(2) i ne by simp
      then show ?thesis
        using p ne hd None by (auto simp: queue_enq_def s queue_rep_def pq_enq_def)
    next
      case (Some pri)
      define ys zs where "ys = takeWhile (\<lambda>x. pri x \<le> pri i) xs" and "zs = dropWhile (\<lambda>x. pri x \<le> pri i) xs"
      have xs: "xs = ys @ zs"
        by (simp add: ys_def zs_def)
      have ys: "\<forall>y\<in>set ys. pri y \<le> pri i" and zs: "zs \<noteq> [] \<Longrightarrow> pri i < pri (hd zs)"
        using hd_dropWhile [of "\<lambda>x. pri x \<le> pri i" xs] by (auto simp: ys_def zs_def dest: set_takeWhileD)
      have place: "queue_place pri nx i None (q_head q) =
          Some (if ys = [] then None else Some (last ys), if zs = [] then None else Some (hd zs))"
        using queue_place_spec [of nx "q_head q" ys zs pri i None] p(2) ys zs by (simp add: xs)
      have res: "pq_enq prio i xs = ys @ i # zs"
        by (simp add: pq_enq_def Some ys_def zs_def)
      have zp: "path nx (if zs = [] then None else Some (hd zs)) zs None"
        using p(2) by (cases zs) (auto simp: xs)
      have last: "last xs = last zs" if "zs \<noteq> []"
        using that by (simp add: xs)
      show ?thesis
      proof (cases "ys = []")
        case True
        then show ?thesis
          using p ne hd Some place res zp i last
          by (auto simp: queue_enq_def s queue_rep_def xs)
      next
        case False
        have "path ((nx(last ys := Some i))(i := (if zs = [] then None else Some (hd zs)))) (q_head q) (ys @ i # zs) None"
          using path_insert [OF p(2) [unfolded xs] _ False zp] i by (simp add: xs)
        then show ?thesis
          using p ne hd Some place res False last
          by (auto simp: queue_enq_def s queue_rep_def xs)
      qed
    qed
  qed
qed

lemma queue_deq_rep:
  assumes "queue_rep prio s xs"
  shows "fst (queue_deq s) = (case xs of [] \<Rightarrow> None | x # _ \<Rightarrow> Some x)"
    and "queue_rep prio (snd (queue_deq s)) (tl xs)"
proof -
  obtain q nx where s: "s = (q, nx)"
    by (cases s)
  show "fst (queue_deq s) = (case xs of [] \<Rightarrow> None | x # _ \<Rightarrow> Some x)"
    using assms by (cases xs) (auto simp: queue_deq_def queue_rep_def s Let_def)
  show "queue_rep prio (snd (queue_deq s)) (tl xs)"
    using assms path_head [of nx "nx (hd xs)" "tl xs"]
    by (cases xs) (auto simp: queue_deq_def queue_rep_def s Let_def)
qed

lemma queue_delete_rep:
  assumes rep: "queue_rep prio s xs"
  shows "\<exists>s'. queue_delete (Some i) s =
      Some (if xs = [] then QUEUE_EMPTY else if i \<in> set xs then QUEUE_SUCCESS else QUEUE_NOT_FOUND, s') \<and>
     queue_rep prio s' (remove1 i xs)"
proof -
  obtain q nx where s: "s = (q, nx)"
    by (cases s)
  have p: "priCmpCb q = prio" "path nx (q_head q) xs None" "q_tail q = (if xs = [] then None else Some (last xs))"
      "curNum q = of_nat (length xs)"
    using rep by (simp_all add: queue_rep_def s)
  note dist = path_distinct [OF p(2)]
  consider "xs = []" | zs where "xs = i # zs" | ys zs where "xs = ys @ i # zs" "ys \<noteq> []" "i \<notin> set ys"
    | "xs \<noteq> []" "i \<notin> set xs"
    by (metis append_self_conv2 split_list_first)
  then show ?thesis
  proof cases
    case 1
    then show ?thesis
      using p rep by (auto simp: queue_delete_def s)
  next
    case (2 zs)
    then have "q_tail q = Some i \<longleftrightarrow> zs = []"
      using p(3) dist by (auto dest: last_in_set)
    then show ?thesis
      using p 2 by (auto simp: queue_delete_def s queue_rep_def Let_def)
  next
    case (3 ys zs)
    have find: "queue_find nx i None (q_head q) = Some (Some (last ys), Some i)"
      using queue_find_spec [of nx "q_head q" ys "i # zs" i None] p(2) 3 by simp
    have hd: "q_head q \<noteq> None" "q_head q \<noteq> Some i"
      using p(2) 3 by (cases ys; auto)+
    have tail: "q_tail q = Some i \<longleftrightarrow> zs = []"
      using p(3) dist 3 by (auto dest: last_in_set)
    have "path (nx(last ys := nx i)) (q_head q) (ys @ zs) None"
      using path_remove [OF p(2) [unfolded 3(1)] 3(2)] .
    moreover have "remove1 i xs = ys @ zs"
      using 3 by (simp add: remove1_append)
    ultimately show ?thesis
      using p 3 find hd tail by (auto simp: queue_delete_def s queue_rep_def Let_def)
  next
    case 4
    then have "queue_find nx i None (q_head q) = Some (Some (last xs), None)"
      using queue_find_spec [of nx "q_head q" xs "[]" i None] p(2) by simp
    moreover have "q_head q \<noteq> None" "q_head q \<noteq> Some i"
      using p(2) 4 by (cases xs; auto)+
    ultimately show ?thesis
      using rep 4 by (auto simp: queue_delete_def s remove1_idem)
  qed
qed

section \<open>Insertion and removal at an iterator\<close>

definition iter :: "item list \<Rightarrow> item option" where
  "iter ys = (if ys = [] then None else Some (last ys))"

lemma queue_insert_rep:
  assumes rep: "queue_rep prio s (ys @ zs)" and i: "i \<notin> set (ys @ zs)"
  shows "\<exists>s'. queue_insert (Some i) (iter ys) s = Some (QUEUE_SUCCESS, s') \<and>
     queue_rep prio s' (if zs = [] then pq_enq prio i ys else ys @ i # zs)"
proof -
  obtain q nx where s: "s = (q, nx)"
    by (cases s)
  have p: "priCmpCb q = prio" "path nx (q_head q) (ys @ zs) None"
      "q_tail q = (if ys @ zs = [] then None else Some (last (ys @ zs)))" "curNum q = of_nat (length (ys @ zs))"
    using rep by (simp_all add: queue_rep_def s)
  show ?thesis
  proof (cases "zs = []")
    case True
    then have "q_head q = None \<or> iter ys = q_tail q"
      using p path_head [OF p(2)] by (auto simp: iter_def)
    moreover from queue_enq_rep [OF rep i] obtain s' where
        "queue_enq (Some i) s = Some (QUEUE_SUCCESS, s')" "queue_rep prio s' (pq_enq prio i (ys @ zs))"
      by blast
    ultimately show ?thesis
      using True by (auto simp: queue_insert_def s)
  next
    case False
    then have hd: "q_head q \<noteq> None"
      using path_head [OF p(2)] by simp
    have "last zs \<notin> set ys"
      using path_distinct [OF p(2)] False by (auto dest: last_in_set)
    then have nt: "iter ys \<noteq> q_tail q"
      using False p(3) by (auto simp: iter_def dest: last_in_set)
    show ?thesis
    proof (cases "ys = []")
      case True
      then show ?thesis
        using p hd nt False i by (auto simp: queue_insert_def s queue_rep_def iter_def)
    next
      case ne: False
      obtain us u where ys: "ys = us @ [u]"
        using ne by (cases ys rule: rev_cases) auto
      have d: "u \<notin> set us" "u \<notin> set zs" "i \<noteq> u" "i \<notin> set us" "i \<notin> set zs"
        using path_distinct [OF p(2)] i by (auto simp: ys)
      have "path ((nx(i := nx u))(u := Some i)) (q_head q) (ys @ i # zs) None"
        using p(2) d by (auto simp: ys)
      then show ?thesis
        using p hd nt False by (auto simp: queue_insert_def s queue_rep_def iter_def ys)
    qed
  qed
qed

lemma queue_remove_rep:
  assumes rep: "queue_rep prio s (ys @ i # zs)"
  shows "fst (queue_remove (Some i) (iter ys) s) = QUEUE_SUCCESS \<and>
     queue_rep prio (snd (queue_remove (Some i) (iter ys) s)) (ys @ zs)"
proof -
  obtain q nx where s: "s = (q, nx)"
    by (cases s)
  have p: "priCmpCb q = prio" "path nx (q_head q) (ys @ i # zs) None"
      "q_tail q = Some (last (ys @ i # zs))" "curNum q = of_nat (length (ys @ i # zs))"
    using rep by (simp_all add: queue_rep_def s)
  note dist = path_distinct [OF p(2)]
  have tail: "q_tail q = Some i \<longleftrightarrow> zs = []"
    using p(3) dist by (auto dest: last_in_set)
  show ?thesis
  proof (cases "ys = []")
    case True
    then show ?thesis
      using p tail by (auto simp: queue_remove_def s queue_rep_def iter_def Let_def)
  next
    case False
    then have hd: "q_head q \<noteq> None" "q_head q \<noteq> Some i"
      using p(2) dist by (cases ys; auto)+
    have "path (nx(last ys := nx i)) (q_head q) (ys @ zs) None"
      using path_remove [OF p(2) False] .
    then show ?thesis
      using p tail hd False by (auto simp: queue_remove_def s queue_rep_def iter_def Let_def)
  qed
qed

section \<open>Sequences of operations\<close>

datatype q_op = QEnq item | QDeq | QDelete item | QCount

datatype q_out = Out_sts queue_sts | Out_item "item option" | Out_num u32

fun qstep :: "q_op \<Rightarrow> qstate \<Rightarrow> (q_out \<times> qstate) option" where
  "qstep (QEnq i) s = map_option (map_prod Out_sts id) (queue_enq (Some i) s)"
| "qstep QDeq s = Some (map_prod Out_item id (queue_deq s))"
| "qstep (QDelete i) s = map_option (map_prod Out_sts id) (queue_delete (Some i) s)"
| "qstep QCount s = Some (Out_num (queue_count s), s)"

fun qspec :: "(item \<Rightarrow> u32) option \<Rightarrow> q_op \<Rightarrow> item list \<Rightarrow> q_out \<times> item list" where
  "qspec prio (QEnq i) xs = (Out_sts QUEUE_SUCCESS, pq_enq prio i xs)"
| "qspec prio QDeq xs = (Out_item (case xs of [] \<Rightarrow> None | x # _ \<Rightarrow> Some x), tl xs)"
| "qspec prio (QDelete i) xs =
     (Out_sts (if xs = [] then QUEUE_EMPTY else if i \<in> set xs then QUEUE_SUCCESS else QUEUE_NOT_FOUND), remove1 i xs)"
| "qspec prio QCount xs = (Out_num (of_nat (length xs)), xs)"

text \<open>An item is not put into the queue while it is in it.\<close>

fun qenv :: "q_op \<Rightarrow> item list \<Rightarrow> bool" where
  "qenv (QEnq i) xs \<longleftrightarrow> i \<notin> set xs"
| "qenv _ xs \<longleftrightarrow> True"

lemma qstep_sim:
  assumes "queue_rep prio s xs" and "qenv op xs"
  shows "\<exists>s'. qstep op s = Some (fst (qspec prio op xs), s') \<and> queue_rep prio s' (snd (qspec prio op xs))"
proof (cases op)
  case (QEnq i)
  then show ?thesis
    using assms queue_enq_rep [of prio s xs i] by auto
next
  case QDeq
  then show ?thesis
    using queue_deq_rep [OF assms(1)] by (cases "queue_deq s") auto
next
  case (QDelete i)
  then show ?thesis
    using queue_delete_rep [OF assms(1), of i] by auto
next
  case QCount
  then show ?thesis
    using assms(1) by (auto simp: queue_count_def queue_rep_def)
qed

interpretation qsim: simulates qstep "qspec prio" qenv "queue_rep prio" for prio
  by unfold_locales (rule qstep_sim)

section \<open>The theorems\<close>

text \<open>
  C11: the linked queue implements a list: every sequence of insertions by priority, removals from
  the head, deletions and counts, in which no item is put in while it is in, runs without a null
  pointer, ends, returns what the list kept in order of priority returns (the status \<open>QUEUE_EMPTY\<close> and
  \<open>QUEUE_NOT_FOUND\<close> of a deletion included), and leaves head, tail, the chain of \<open>next\<close> fields and the
  count consistent with it.
\<close>

theorem tl_queue_refines_list:
  assumes "queue_rep prio s xs" and "spec_env (qspec prio) qenv ops xs"
  shows "\<exists>s'. run_out qstep ops s = Some (fst (spec_out (qspec prio) ops xs), s') \<and>
     queue_rep prio s' (snd (spec_out (qspec prio) ops xs))"
  using assms by (rule qsim.run_sim)

definition q_new :: "(item \<Rightarrow> u32) option \<Rightarrow> qstate" where
  "q_new prio = (snd (queue_init \<lparr>q_head = None, q_tail = None, priCmpCb = None, curNum = 0\<rparr> prio), \<lambda>_. None)"

theorem tl_queue_refines_list_witness:
  "\<exists>s'. run_out qstep [QEnq 7, QEnq 3, QEnq 5, QCount, QDelete 5, QDelete 9, QDeq, QDeq, QDeq] (q_new (Some of_nat)) =
       Some (fst (spec_out (qspec (Some of_nat)) [QEnq 7, QEnq 3, QEnq 5, QCount, QDelete 5, QDelete 9, QDeq, QDeq, QDeq] []), s') \<and>
     queue_rep (Some of_nat) s'
       (snd (spec_out (qspec (Some of_nat)) [QEnq 7, QEnq 3, QEnq 5, QCount, QDelete 5, QDelete 9, QDeq, QDeq, QDeq] []))"
proof (rule tl_queue_refines_list)
  show "queue_rep (Some of_nat) (q_new (Some of_nat)) []"
    unfolding q_new_def by (rule queue_init_rep)
qed code_simp

text \<open>
  With a priority function the queue stays sorted by priority, so that the item taken from the
  head has the smallest value, and items of equal priority stay in the order of their insertion.
\<close>

theorem tl_queue_priority_stable:
  assumes "queue_rep (Some pri) s xs" and "i \<notin> set xs" and "sorted (map pri xs)"
  shows "\<exists>s' ys. queue_enq (Some i) s = Some (QUEUE_SUCCESS, s') \<and> queue_rep (Some pri) s' ys \<and>
     sorted (map pri ys) \<and>
     (\<forall>p. filter (\<lambda>x. pri x = p) ys = filter (\<lambda>x. pri x = p) xs @ (if pri i = p then [i] else [])) \<and>
     (\<exists>x. fst (queue_deq s') = Some x \<and> (\<forall>y\<in>insert i (set xs). pri x \<le> pri y))"
proof -
  define ys zs where "ys = takeWhile (\<lambda>x. pri x \<le> pri i) xs" and "zs = dropWhile (\<lambda>x. pri x \<le> pri i) xs"
  have xs: "xs = ys @ zs"
    by (simp add: ys_def zs_def)
  have res: "pq_enq (Some pri) i xs = ys @ i # zs"
    by (simp add: pq_enq_def ys_def zs_def)
  have le: "\<forall>y\<in>set ys. pri y \<le> pri i"
    by (auto simp: ys_def dest: set_takeWhileD)
  have gt: "\<forall>z\<in>set zs. pri i < pri z"
  proof (cases zs)
    case (Cons z zs')
    have "pri i < pri z"
      using Cons by (simp add: zs_def dropWhile_eq_Cons_conv not_le)
    moreover have "\<forall>z'\<in>set zs'. pri z \<le> pri z'"
      using assms(3) by (simp add: xs Cons sorted_append)
    ultimately show ?thesis
      using Cons by fastforce
  qed simp
  have sorted: "sorted (map pri (ys @ i # zs))"
    using assms(3) le gt by (fastforce simp: xs sorted_append)
  have filt: "filter (\<lambda>x. pri x = p) (ys @ i # zs) = filter (\<lambda>x. pri x = p) xs @ (if pri i = p then [i] else [])" for p
  proof (cases "pri i = p")
    case True
    then have "filter (\<lambda>x. pri x = p) zs = []"
      using gt by (auto simp: filter_empty_conv)
    with True show ?thesis
      by (simp add: xs)
  qed (simp add: xs)
  obtain s' where s': "queue_enq (Some i) s = Some (QUEUE_SUCCESS, s')" "queue_rep (Some pri) s' (ys @ i # zs)"
    using queue_enq_rep [OF assms(1,2)] res by auto
  obtain x ws where x: "ys @ i # zs = x # ws"
    by (cases "ys @ i # zs") auto
  have "\<forall>y\<in>set (x # ws). pri x \<le> pri y"
    using sorted unfolding x by auto
  moreover have "set (x # ws) = insert i (set xs)"
    unfolding x [symmetric] by (auto simp: xs)
  moreover have "fst (queue_deq s') = Some x"
    using queue_deq_rep(1) [OF s'(2)] by (simp add: x)
  ultimately have "fst (queue_deq s') = Some x \<and> (\<forall>y\<in>insert i (set xs). pri x \<le> pri y)"
    by metis
  then show ?thesis
    using s' sorted filt by blast
qed

theorem tl_queue_priority_stable_witness:
  "\<exists>s' ys. queue_enq (Some 4) (q_new (Some of_nat)) = Some (QUEUE_SUCCESS, s') \<and> queue_rep (Some of_nat) s' ys \<and>
     sorted (map (of_nat :: nat \<Rightarrow> u32) ys) \<and>
     (\<forall>p. filter (\<lambda>x. of_nat x = (p :: u32)) ys = filter (\<lambda>x. of_nat x = p) [] @ (if of_nat 4 = p then [4] else [])) \<and>
     (\<exists>x. fst (queue_deq s') = Some x \<and> (\<forall>y\<in>insert 4 (set []). (of_nat x :: u32) \<le> of_nat y))"
  by (rule tl_queue_priority_stable) (simp_all add: q_new_def queue_init_rep)

text \<open>
  Removing an item with an iterator takes exactly this item out; inserting behind an iterator
  puts the item there, unless the iterator is the last item: then the call is an ordinary insertion,
  which with a priority function may put the item anywhere, although the comment promises the place
  behind the iterator.
\<close>

theorem tl_queue_iterators:
  assumes "queue_rep prio s (ys @ zs)" and "i \<notin> set (ys @ zs)"
    and "queue_rep prio t (us @ j # vs)"
  shows "(\<exists>s'. queue_insert (Some i) (iter ys) s = Some (QUEUE_SUCCESS, s') \<and>
       queue_rep prio s' (if zs = [] then pq_enq prio i ys else ys @ i # zs)) \<and>
     fst (queue_remove (Some j) (iter us) t) = QUEUE_SUCCESS \<and>
     queue_rep prio (snd (queue_remove (Some j) (iter us) t)) (us @ vs)"
  using queue_insert_rep [OF assms(1,2)] queue_remove_rep [OF assms(3)] by blast

text \<open>Item 2 is to go behind item 5, the only one, and ends up in front of it.\<close>

definition q_one :: qstate where
  "q_one = snd (the (queue_enq (Some 5) (q_new (Some of_nat))))"

theorem tl_queue_iterators_witness:
  "(\<exists>s'. queue_insert (Some 2) (iter [5]) q_one = Some (QUEUE_SUCCESS, s') \<and>
       queue_rep (Some of_nat) s' (if [] = ([] :: item list) then pq_enq (Some of_nat) 2 [5] else [5] @ 2 # [])) \<and>
     fst (queue_remove (Some 5) (iter []) q_one) = QUEUE_SUCCESS \<and>
     queue_rep (Some of_nat) (snd (queue_remove (Some 5) (iter []) q_one)) ([] @ []) \<and>
     pq_enq (Some of_nat) 2 [5] = [2, 5]"
proof -
  obtain s' where "queue_enq (Some 5) (q_new (Some of_nat)) = Some (QUEUE_SUCCESS, s')"
      "queue_rep (Some of_nat) s' (pq_enq (Some of_nat) 5 [])"
    using queue_enq_rep [of "Some of_nat" "q_new (Some of_nat)" "[]" 5] by (auto simp: q_new_def queue_init_rep)
  then have one: "queue_rep (Some of_nat) q_one [5]"
    by (simp add: q_one_def pq_enq_def)
  have "pq_enq (Some of_nat) 2 [5] = [2, 5]"
    by code_simp
  with tl_queue_iterators [of "Some of_nat" q_one "[5]" "[]" 2 q_one "[]" 5 "[]"] one show ?thesis
    by simp
qed

end
