(* ===== verification/Slip.thy ===== *)
theory Slip
  imports Hci_Fifo
begin

text \<open>
  The SLIP layer of the three-wire transport, \<^verbatim>\<open>vendor/common/hci_transport/hci_slip.c\<close>:
  the escape table, the encoder that frames an H5 packet for the UART, the decoder that undoes
  it, and the send function.  \<open>slip_frame\<close> is the specification of a frame; the encoder is shown
  to write exactly that frame, and the decoder to invert it.
\<close>

section \<open>State\<close>

text \<open>The UART as the transport sees it: the flag \<open>isUartTxDone\<close> of \<^verbatim>\<open>hci_tr.c\<close> and the
  byte strings handed to \<open>uart_send_dma\<close> so far, oldest first.\<close>

record uart =
  isUartTxDone :: bool
  uartSent :: "u8 list list"

text \<open>The packet handler that the SLIP layer calls is a function pointer with two possible values.\<close>

datatype pkt_handler = Slip_DefaultPktHandler | H5_PakcetHandler

record slip_cb =
  pktHandler :: pkt_handler
  pDecodeBuf :: "u8 list"
  pEncodeBuf :: "u8 list"
  decodeLen :: u16
  encodeLen :: u16
  oofEnable :: bool

section \<open>Escape table\<close>

definition slipEscapeTbl :: "(u16 \<times> u8) list" where
  "slipEscapeTbl = [(0xDCDB, 0xC0), (0xDDDB, 0xDB), (0xDEDB, 0x11), (0xDFDB, 0x13)]"

definition SLIP_INVALID_UNENCODED :: u8 where "SLIP_INVALID_UNENCODED = 0x00"
definition SLIP_INVALID_ESCAPE :: u16 where "SLIP_INVALID_ESCAPE = 0x0000"
definition SLIP_DELIMITER :: u8 where "SLIP_DELIMITER = 0xC0"

definition HCI_Slip_GetUnencoded :: "u16 \<Rightarrow> u8" where
  "HCI_Slip_GetUnencoded escapeSeq =
     (case find (\<lambda>(esc, _). escapeSeq = esc) slipEscapeTbl of
        Some (_, unencoded) \<Rightarrow> unencoded | None \<Rightarrow> SLIP_INVALID_UNENCODED)"

definition HCI_SLip_GetEscapeCode :: "u8 \<Rightarrow> u16" where
  "HCI_SLip_GetEscapeCode b =
     (case find (\<lambda>(_, unencoded). b = unencoded) slipEscapeTbl of
        Some (esc, _) \<Rightarrow> esc | None \<Rightarrow> SLIP_INVALID_ESCAPE)"

section \<open>Registration and configuration\<close>

definition HCI_Slip_RegisterPktHandler :: "pkt_handler option \<Rightarrow> slip_cb \<Rightarrow> slip_cb" where
  "HCI_Slip_RegisterPktHandler func cb =
     (case func of None \<Rightarrow> cb | Some h \<Rightarrow> cb\<lparr>pktHandler := h\<rparr>)"

definition HCI_SLip_SetFlowCtrlEnable :: "bool \<Rightarrow> slip_cb \<Rightarrow> slip_cb" where
  "HCI_SLip_SetFlowCtrlEnable enable cb = cb\<lparr>oofEnable := enable\<rparr>"

definition HCI_H5_HEAD_LEN :: nat where [simp]: "HCI_H5_HEAD_LEN = 4"
definition HCI_H5_CRC_LEN :: nat where [simp]: "HCI_H5_CRC_LEN = 2"

definition MEM_SIZE_ALIGN4 :: "nat \<Rightarrow> nat" where "MEM_SIZE_ALIGN4 x = (x + 3) div 4 * 4"
definition MEM_SIZE_ALIGN16 :: "nat \<Rightarrow> nat" where "MEM_SIZE_ALIGN16 x = (x + 15) div 16 * 16"

text \<open>The buffer sizes follow from the sizes \<open>rx\<close> and \<open>tx\<close> of the controller's HCI ring slots
  (\<open>HCI_RX_FIFO_SIZE\<close>, \<open>HCI_TX_FIFO_SIZE\<close>), which the application configures.\<close>

definition HCI_SLIP_DECODE_BUF_SIZE :: "nat \<Rightarrow> nat" where
  "HCI_SLIP_DECODE_BUF_SIZE rx = MEM_SIZE_ALIGN4 (HCI_H5_HEAD_LEN + rx + HCI_H5_CRC_LEN)"

definition HCI_SLIP_ENCODE_BUF_SIZE :: "nat \<Rightarrow> nat" where
  "HCI_SLIP_ENCODE_BUF_SIZE tx = MEM_SIZE_ALIGN4 (2 + (HCI_H5_HEAD_LEN + tx + HCI_H5_CRC_LEN) * 2)"

text \<open>\<open>HCI_Slip_Init\<close>; the two static arrays start as zeros, the encode buffer with four bytes in
  front for the DMA length.\<close>

definition HCI_Slip_Init :: "nat \<Rightarrow> nat \<Rightarrow> slip_cb" where
  "HCI_Slip_Init rx tx =
     \<lparr>pktHandler = Slip_DefaultPktHandler,
      pDecodeBuf = replicate (HCI_SLIP_DECODE_BUF_SIZE rx) 0,
      pEncodeBuf = replicate (4 + HCI_SLIP_ENCODE_BUF_SIZE tx) 0,
      decodeLen = 0, encodeLen = 0, oofEnable = False\<rparr>"

section \<open>Decoder\<close>

definition slip_decode_put :: "slip_cb \<Rightarrow> u8 \<Rightarrow> slip_cb option" where
  "slip_decode_put cb b =
     do { buf \<leftarrow> put_byte (pDecodeBuf cb) (unat (decodeLen cb)) b;
          Some (cb\<lparr>pDecodeBuf := buf, decodeLen := decodeLen cb + 1\<rparr>) }"

text \<open>
  The \<open>while(len)\<close> loop.  The list is the memory from \<open>pBuf\<close> to the end of the array that holds
  the packet; running off it is \<open>None\<close>.  \<open>len -= 2\<close> wraps when an escape byte is the last one
  counted.  The Boolean says whether the loop ended normally (\<open>False\<close>: a \<open>return\<close> that discards
  the packet).  \<open>HCI_SLIP_DECODE_BUF_SIZE\<close> is the length of the decode buffer.
\<close>

fun slip_decode_loop :: "u8 list \<Rightarrow> u32 \<Rightarrow> slip_cb \<Rightarrow> (slip_cb \<times> bool) option" where
  "slip_decode_loop [] len cb = (if len = 0 then Some (cb, True) else None)"
| "slip_decode_loop (b # bs) len cb =
     (if len = 0 then Some (cb, True)
      else if b = 0xDB then
        (case bs of
           [] \<Rightarrow> None
         | b' # bs' \<Rightarrow>
             let unencoded = HCI_Slip_GetUnencoded (BYTES_TO_UINT16 b b') in
             if unencoded = SLIP_INVALID_UNENCODED then Some (cb, False)
             else if length (pDecodeBuf cb) < unat (decodeLen cb) + 1 then Some (cb, False)
             else do { cb' \<leftarrow> slip_decode_put cb unencoded; slip_decode_loop bs' (len - 2) cb' })
      else if length (pDecodeBuf cb) < unat (decodeLen cb) + 1 then Some (cb, False)
      else do { cb' \<leftarrow> slip_decode_put cb b; slip_decode_loop bs (len - 1) cb' })"

text \<open>
  \<open>HCI_Slip_DecodePacket(pPacket, len)\<close>; \<open>None\<close> as the packet is the null pointer.  The Boolean
  says that the registered handler is called, with \<open>pDecodeBuf\<close> and \<open>decodeLen\<close> as its arguments.
\<close>

definition HCI_Slip_DecodePacket ::
    "u8 list option \<Rightarrow> u32 \<Rightarrow> slip_cb \<Rightarrow> (slip_cb \<times> bool) option" where
  "HCI_Slip_DecodePacket pPacket len cb =
     (case pPacket of
        None \<Rightarrow> Some (cb, False)
      | Some mem \<Rightarrow>
          if len < 6 then Some (cb, False)
          else slip_decode_loop (drop 1 mem) (len - 2) (cb\<lparr>decodeLen := 0\<rparr>))"

section \<open>Encoder\<close>

text \<open>The \<open>switch\<close> of the encoder: the bytes written for one byte of the packet.\<close>

definition slip_encode_byte :: "bool \<Rightarrow> u8 \<Rightarrow> u8 list" where
  "slip_encode_byte oof b =
     (if b = 0xC0 \<or> b = 0xDB \<or> b = 0x11 \<or> b = 0x13 then
        if \<not> oof \<and> (b = 0x11 \<or> b = 0x13) then [b]
        else UINT16_TO_BSTREAM (HCI_SLip_GetEscapeCode b)
      else [b])"

text \<open>Writing through the moving pointer \<open>pEncodeBuf\<close> (here its offset \<open>pos\<close>), counted in the
  16-bit \<open>encodeLen\<close>.  The check of \<open>encodeLen\<close> against the buffer size only traces and asserts,
  and the assertion is compiled out.\<close>

definition slip_encode_put :: "u8 list \<Rightarrow> slip_cb \<times> nat \<Rightarrow> (slip_cb \<times> nat) option" where
  "slip_encode_put bs st =
     (case st of (cb, pos) \<Rightarrow>
        do { buf \<leftarrow> put_bytes (pEncodeBuf cb) pos bs;
             Some (cb\<lparr>pEncodeBuf := buf, encodeLen := encodeLen cb + of_nat (length bs)\<rparr>,
                   pos + length bs) })"

fun slip_encode_loop :: "u8 list \<Rightarrow> slip_cb \<times> nat \<Rightarrow> (slip_cb \<times> nat) option" where
  "slip_encode_loop [] st = Some st"
| "slip_encode_loop (b # bs) st =
     do { st' \<leftarrow> slip_encode_put (slip_encode_byte (oofEnable (fst st)) b) st;
          slip_encode_loop bs st' }"

definition HCI_Slip_EncodePacket :: "u8 list \<Rightarrow> u32 \<Rightarrow> slip_cb \<Rightarrow> slip_cb option" where
  "HCI_Slip_EncodePacket pPacket len cb =
     do { pBuf \<leftarrow> get_bytes pPacket 0 (unat len);
          st1 \<leftarrow> slip_encode_put [SLIP_DELIMITER] (cb\<lparr>encodeLen := 0\<rparr>, 4);
          st2 \<leftarrow> slip_encode_loop pBuf st1;
          st3 \<leftarrow> slip_encode_put [SLIP_DELIMITER] st2;
          Some (fst st3) }"

section \<open>Send\<close>

text \<open>\<open>uart_send_dma(addr)\<close>: the DMA channel reads a 32-bit length at \<open>addr\<close> and transmits that
  many of the bytes that follow.\<close>

definition uart_send_dma :: "u8 list \<Rightarrow> uart \<Rightarrow> uart option" where
  "uart_send_dma mem u =
     do { h \<leftarrow> get_bytes mem 0 4;
          xs \<leftarrow> get_bytes mem 4 (unat (BYTES_TO_UINT32 (h ! 0) (h ! 1) (h ! 2) (h ! 3)));
          Some (u\<lparr>uartSent := uartSent u @ [xs]\<rparr>) }"

definition HCI_Slip_Send :: "u8 list \<Rightarrow> u32 \<Rightarrow> slip_cb \<times> uart \<Rightarrow> (bool \<times> slip_cb \<times> uart) option" where
  "HCI_Slip_Send pPacket len s =
     (case s of (cb, u) \<Rightarrow>
        if \<not> isUartTxDone u then Some (False, cb, u)
        else do { cb' \<leftarrow> HCI_Slip_EncodePacket pPacket len cb;
                  buf \<leftarrow> put_bytes (pEncodeBuf cb') 0 (UINT32_TO_BSTREAM (ucast (encodeLen cb')));
                  u' \<leftarrow> uart_send_dma buf u;
                  Some (True, cb'\<lparr>pEncodeBuf := buf\<rparr>, u'\<lparr>isUartTxDone := False\<rparr>) })"

section \<open>Specification: frames\<close>

definition slip_escape :: "bool \<Rightarrow> u8 list \<Rightarrow> u8 list" where
  "slip_escape oof xs = concat (map (slip_encode_byte oof) xs)"

definition slip_frame :: "bool \<Rightarrow> u8 list \<Rightarrow> u8 list" where
  "slip_frame oof xs = SLIP_DELIMITER # slip_escape oof xs @ [SLIP_DELIMITER]"

text \<open>The escape sequences of the protocol, undone; \<open>None\<close> for a malformed sequence.\<close>

definition slip_unescape_code :: "u8 \<Rightarrow> u8 option" where
  "slip_unescape_code e =
     (if e = 0xDC then Some 0xC0 else if e = 0xDD then Some 0xDB
      else if e = 0xDE then Some 0x11 else if e = 0xDF then Some 0x13 else None)"

fun slip_unescape :: "u8 list \<Rightarrow> u8 list option" where
  "slip_unescape [] = Some []"
| "slip_unescape (b # bs) =
     (if b = 0xDB then
        (case bs of
           [] \<Rightarrow> None
         | e # bs' \<Rightarrow>
             do { x \<leftarrow> slip_unescape_code e; xs \<leftarrow> slip_unescape bs'; Some (x # xs) })
      else do { xs \<leftarrow> slip_unescape bs; Some (b # xs) })"

section \<open>The escape table\<close>

lemma u8_eq_unat: "(x :: u8) = y \<longleftrightarrow> unat x = unat y"
  by (simp add: word_unat_eq_iff)

lemma unat_escape_code: "unat (BYTES_TO_UINT16 0xDB e) = 219 + 256 * unat e"
proof -
  have "unat e < 256"
    using unsigned_less [of e] by simp
  then show ?thesis
    by (simp add: BYTES_TO_UINT16_def unat_word_ariths push_bit_eq_mult unsigned_ucast_eq
        take_bit_nat_eq_self)
qed

lemma escape_code_eq:
  "BYTES_TO_UINT16 0xDB e = c \<longleftrightarrow> 219 + 256 * unat e = unat c"
  by (simp add: word_unat_eq_iff unat_escape_code)

lemma GetUnencoded_code:
  "HCI_Slip_GetUnencoded (BYTES_TO_UINT16 0xDB e) =
     (case slip_unescape_code e of Some x \<Rightarrow> x | None \<Rightarrow> SLIP_INVALID_UNENCODED)"
  by (simp add: HCI_Slip_GetUnencoded_def slipEscapeTbl_def escape_code_eq
      slip_unescape_code_def u8_eq_unat [of e])

lemma slip_unescape_code_valid:
  "slip_unescape_code e = Some x \<Longrightarrow> x \<noteq> SLIP_INVALID_UNENCODED"
  by (auto simp: slip_unescape_code_def SLIP_INVALID_UNENCODED_def split: if_splits)

lemma slip_encode_byte_code:
  "slip_encode_byte oof b =
     (if b = 0xC0 then [0xDB, 0xDC] else if b = 0xDB then [0xDB, 0xDD]
      else if oof \<and> b = 0x11 then [0xDB, 0xDE] else if oof \<and> b = 0x13 then [0xDB, 0xDF]
      else [b])"
  by (auto simp: slip_encode_byte_def HCI_SLip_GetEscapeCode_def slipEscapeTbl_def
      UINT16_TO_BSTREAM_def)

lemma slip_encode_byte_length: "1 \<le> length (slip_encode_byte oof b)" "length (slip_encode_byte oof b) \<le> 2"
  by (simp_all add: slip_encode_byte_code)

lemma slip_escape_Nil [simp]: "slip_escape oof [] = []"
  by (simp add: slip_escape_def)

lemma slip_escape_Cons [simp]:
  "slip_escape oof (b # bs) = slip_encode_byte oof b @ slip_escape oof bs"
  by (simp add: slip_escape_def)

lemma slip_escape_length:
  "length xs \<le> length (slip_escape oof xs)" "length (slip_escape oof xs) \<le> 2 * length xs"
proof (induction xs)
  case (Cons b xs)
  { case 1 show ?case using Cons.IH(1) slip_encode_byte_length(1) [of oof b] by simp }
  { case 2 show ?case using Cons.IH(2) slip_encode_byte_length(2) [of oof b] by simp }
qed simp_all

lemma slip_frame_length: "length (slip_frame oof xs) = 2 + length (slip_escape oof xs)"
  by (simp add: slip_frame_def)

text \<open>The delimiter never occurs inside a frame.\<close>

lemma slip_escape_no_delimiter: "SLIP_DELIMITER \<notin> set (slip_escape oof xs)"
  by (induction xs) (auto simp: slip_encode_byte_code SLIP_DELIMITER_def)

lemma slip_unescape_escape_append:
  "slip_unescape (slip_escape oof xs @ ys) = map_option ((@) xs) (slip_unescape ys)"
  by (induction xs)
    (auto simp: slip_encode_byte_code slip_unescape_code_def option.map_ident split: bind_split option.splits)

lemma slip_unescape_escape: "slip_unescape (slip_escape oof xs) = Some xs"
  using slip_unescape_escape_append [of oof xs "[]"] by simp

section \<open>The encoder writes the frame\<close>

lemma slip_encode_put_eq:
  "slip_encode_put bs (cb, pos) =
     (if pos + length bs \<le> length (pEncodeBuf cb)
      then Some (cb\<lparr>pEncodeBuf := take pos (pEncodeBuf cb) @ bs @ drop (pos + length bs) (pEncodeBuf cb),
                    encodeLen := encodeLen cb + of_nat (length bs)\<rparr>, pos + length bs)
      else None)"
  by (simp add: slip_encode_put_def put_bytes_def)

lemma slip_encode_put_append:
  "pos \<le> length (pEncodeBuf cb) \<Longrightarrow>
   do { st \<leftarrow> slip_encode_put bs (cb, pos); slip_encode_put cs st } =
   slip_encode_put (bs @ cs) (cb, pos)"
  by (auto simp: slip_encode_put_eq ac_simps)

lemma slip_encode_put_Some:
  "slip_encode_put bs (cb, pos) = Some (cb', pos') \<Longrightarrow>
   oofEnable cb' = oofEnable cb \<and> pos' \<le> length (pEncodeBuf cb') \<and>
   length (pEncodeBuf cb') = length (pEncodeBuf cb)"
  by (auto simp: slip_encode_put_eq split: if_splits)

lemma slip_encode_loop_eq:
  "pos \<le> length (pEncodeBuf cb) \<Longrightarrow>
   slip_encode_loop xs (cb, pos) = slip_encode_put (slip_escape (oofEnable cb) xs) (cb, pos)"
proof (induction xs arbitrary: cb pos)
  case Nil
  then show ?case by (simp add: slip_encode_put_eq)
next
  case (Cons b xs)
  let ?e = "slip_encode_byte (oofEnable cb) b"
  have "slip_encode_loop (b # xs) (cb, pos) =
      do { st \<leftarrow> slip_encode_put ?e (cb, pos); slip_encode_loop xs st }"
    by simp
  also have "\<dots> = do { st \<leftarrow> slip_encode_put ?e (cb, pos);
                       slip_encode_put (slip_escape (oofEnable cb) xs) st }"
    by (rule Option.bind_cong) (auto dest!: slip_encode_put_Some simp: Cons.IH)
  also have "\<dots> = slip_encode_put (?e @ slip_escape (oofEnable cb) xs) (cb, pos)"
    using Cons.prems by (rule slip_encode_put_append)
  finally show ?case by simp
qed

lemma slip_encode_packet:
  assumes "length pkt = unat len" and "4 \<le> length (pEncodeBuf cb)"
  shows "HCI_Slip_EncodePacket pkt len cb =
     map_option fst (slip_encode_put (slip_frame (oofEnable cb) pkt) (cb\<lparr>encodeLen := 0\<rparr>, 4))"
proof -
  let ?cb = "cb\<lparr>encodeLen := 0\<rparr>" and ?esc = "slip_escape (oofEnable cb) pkt"
  have "HCI_Slip_EncodePacket pkt len cb =
      do { st1 \<leftarrow> slip_encode_put [SLIP_DELIMITER] (?cb, 4);
           st2 \<leftarrow> slip_encode_loop pkt st1;
           st3 \<leftarrow> slip_encode_put [SLIP_DELIMITER] st2;
           Some (fst st3) }"
    using assms(1) by (simp add: HCI_Slip_EncodePacket_def get_bytes_def)
  also have "\<dots> =
      do { st1 \<leftarrow> slip_encode_put [SLIP_DELIMITER] (?cb, 4);
           st3 \<leftarrow> slip_encode_put (?esc @ [SLIP_DELIMITER]) st1;
           Some (fst st3) }"
    by (rule Option.bind_cong)
      (auto dest!: slip_encode_put_Some simp: slip_encode_loop_eq
        slip_encode_put_append [symmetric])
  also have "\<dots> =
      do { st3 \<leftarrow> slip_encode_put ([SLIP_DELIMITER] @ ?esc @ [SLIP_DELIMITER]) (?cb, 4);
           Some (fst st3) }"
    using assms(2) by (subst slip_encode_put_append [symmetric]) simp_all
  finally show ?thesis
    by (simp add: slip_frame_def map_conv_bind_option comp_def)
qed

text \<open>The encoder succeeds exactly when the frame fits behind the four length bytes, and then the
  buffer holds the frame there.\<close>

lemma HCI_Slip_EncodePacket_frame:
  assumes "length pkt = unat len" and "4 \<le> length (pEncodeBuf cb)"
  shows "HCI_Slip_EncodePacket pkt len cb =
     (let frame = slip_frame (oofEnable cb) pkt in
      if 4 + length frame \<le> length (pEncodeBuf cb)
      then Some (cb\<lparr>pEncodeBuf := take 4 (pEncodeBuf cb) @ frame @ drop (4 + length frame) (pEncodeBuf cb),
                    encodeLen := of_nat (length frame)\<rparr>)
      else None)"
  by (simp add: slip_encode_packet [OF assms] slip_encode_put_eq Let_def)

text \<open>The declared size of the encode buffer is enough for every packet of the declared length.\<close>

lemma HCI_SLIP_ENCODE_BUF_SIZE_enough:
  assumes "length pkt \<le> HCI_H5_HEAD_LEN + tx + HCI_H5_CRC_LEN"
  shows "length (slip_frame oof pkt) \<le> HCI_SLIP_ENCODE_BUF_SIZE tx"
  using assms slip_escape_length(2) [of oof pkt]
  by (simp add: slip_frame_length HCI_SLIP_ENCODE_BUF_SIZE_def MEM_SIZE_ALIGN4_def)

section \<open>The decoder computes the unescaped bytes\<close>

lemma slip_decode_put_eq:
  "unat (decodeLen cb) < length (pDecodeBuf cb) \<Longrightarrow>
   slip_decode_put cb b =
     Some (cb\<lparr>pDecodeBuf := (pDecodeBuf cb)[unat (decodeLen cb) := b], decodeLen := decodeLen cb + 1\<rparr>)"
  by (simp add: slip_decode_put_def put_byte_def)

text \<open>What the loop has delivered: \<open>ys\<close> stands at the front of the decode buffer.\<close>

definition slip_decoded :: "slip_cb \<Rightarrow> u8 list \<Rightarrow> bool" where
  "slip_decoded cb ys \<longleftrightarrow>
     unat (decodeLen cb) = length ys \<and> length ys \<le> length (pDecodeBuf cb) \<and>
     take (length ys) (pDecodeBuf cb) = ys"

definition slip_frame_eq :: "slip_cb \<Rightarrow> slip_cb \<Rightarrow> bool" where
  "slip_frame_eq cb cb' \<longleftrightarrow>
     length (pDecodeBuf cb') = length (pDecodeBuf cb) \<and> pktHandler cb' = pktHandler cb \<and>
     pEncodeBuf cb' = pEncodeBuf cb \<and> encodeLen cb' = encodeLen cb \<and> oofEnable cb' = oofEnable cb"

lemma slip_decode_put_decoded:
  assumes "slip_decoded cb ys" and "length ys < length (pDecodeBuf cb)"
    and "length (pDecodeBuf cb) < 65536"
  obtains cb' where "slip_decode_put cb b = Some cb'" and "slip_decoded cb' (ys @ [b])"
    and "slip_frame_eq cb cb'"
proof -
  have n: "unat (decodeLen cb) = length ys"
    using assms(1) by (simp add: slip_decoded_def)
  have "unat (decodeLen cb + 1) = Suc (length ys)"
    using assms(2,3) by (simp add: unat_word_ariths n)
  moreover have "take (Suc (length ys)) ((pDecodeBuf cb)[length ys := b]) = ys @ [b]"
    using assms(1,2) by (simp add: take_Suc_update slip_decoded_def)
  ultimately show ?thesis
    using assms(2) that by (simp add: slip_decode_put_eq n slip_decoded_def slip_frame_eq_def)
qed

lemma slip_frame_eq_trans: "slip_frame_eq a b \<Longrightarrow> slip_frame_eq b c \<Longrightarrow> slip_frame_eq a c"
  by (simp add: slip_frame_eq_def)

lemma slip_frame_eq_refl [simp]: "slip_frame_eq a a"
  by (simp add: slip_frame_eq_def)

text \<open>The outcome of the loop, as a predicate on its result.\<close>

definition slip_decode_spec ::
    "u8 list \<Rightarrow> u8 list option \<Rightarrow> slip_cb \<Rightarrow> (slip_cb \<times> bool) option \<Rightarrow> bool" where
  "slip_decode_spec ys zs cb res \<longleftrightarrow>
     (case res of
        None \<Rightarrow> False
      | Some (cb', ok) \<Rightarrow>
          slip_frame_eq cb cb' \<and>
          (case zs of
             Some zs \<Rightarrow> if length ys + length zs \<le> length (pDecodeBuf cb)
                         then ok \<and> slip_decoded cb' (ys @ zs) else \<not> ok
           | None \<Rightarrow> \<not> ok))"

text \<open>One stored byte, common to the escaped and the plain case of the loop.\<close>

lemma slip_decode_spec_step:
  assumes "slip_decoded cb ys" and "length (pDecodeBuf cb) < 65536"
    and rest: "\<And>cb'. slip_decoded cb' (ys @ [x]) \<Longrightarrow> slip_frame_eq cb cb' \<Longrightarrow>
                 slip_decode_spec (ys @ [x]) zs cb' (k cb')"
  shows "slip_decode_spec ys (map_option ((#) x) zs) cb
     (if length (pDecodeBuf cb) < unat (decodeLen cb) + 1 then Some (cb, False)
      else do { cb' \<leftarrow> slip_decode_put cb x; k cb' })"
proof (cases "length ys < length (pDecodeBuf cb)")
  case True
  from assms(1) True assms(2) obtain cb' where put: "slip_decode_put cb x = Some cb'"
    and cb': "slip_decoded cb' (ys @ [x])" "slip_frame_eq cb cb'"
    by (rule slip_decode_put_decoded [where b = x])
  have "slip_decode_spec ys (map_option ((#) x) zs) cb (k cb')"
    using rest [OF cb'] cb'(2)
    by (auto simp: slip_decode_spec_def slip_frame_eq_def split: option.splits if_splits prod.splits)
  then show ?thesis
    using True put assms(1) by (simp add: slip_decoded_def)
next
  case False
  moreover have "unat (decodeLen cb) = length ys"
    using assms(1) by (simp add: slip_decoded_def)
  ultimately show ?thesis
    by (simp add: slip_decode_spec_def split: option.splits)
qed

lemma slip_unescape_plain:
  "b \<noteq> 0xDB \<Longrightarrow> slip_unescape (b # bs) = map_option ((#) b) (slip_unescape bs)"
  by (cases "slip_unescape bs") simp_all

lemma slip_unescape_code:
  "slip_unescape_code e = Some x \<Longrightarrow>
   slip_unescape (0xDB # e # bs) = map_option ((#) x) (slip_unescape bs)"
  by (cases "slip_unescape bs") simp_all

lemma slip_unescape_malformed:
  "slip_unescape_code e = None \<Longrightarrow> slip_unescape (0xDB # e # bs) = None"
  by simp

lemma slip_decode_loop_refines:
  assumes "slip_decoded cb ys" and "length (pDecodeBuf cb) < 65536" and "unat len = length inner"
  shows "slip_decode_spec ys (slip_unescape inner) cb
     (slip_decode_loop (inner @ SLIP_DELIMITER # rest) len cb)"
  using assms
proof (induction inner arbitrary: cb ys len rule: slip_unescape.induct)
  case 1
  then have "len = 0" by (simp add: unat_eq_zero)
  with 1 show ?case by (simp add: slip_decode_spec_def slip_decoded_def)
next
  case (2 b bs)
  have len0: "len \<noteq> 0"
    using "2.prems" by auto
  have buf: "length (pDecodeBuf cb') < 65536" if "slip_frame_eq cb cb'" for cb'
    using that "2.prems"(2) by (simp add: slip_frame_eq_def)
  show ?case
  proof (cases "b = 0xDB")
    case False
    have "unat (len - 1) = length bs"
      using "2.prems"(3) unat_minus_one [OF len0] by simp
    then have "slip_decode_spec (ys @ [b]) (slip_unescape bs) cb'
        (slip_decode_loop (bs @ SLIP_DELIMITER # rest) (len - 1) cb')"
      if "slip_decoded cb' (ys @ [b])" "slip_frame_eq cb cb'" for cb'
      using that(1) buf [OF that(2)] by (intro "2.IH"(2) [OF False])
    from slip_decode_spec_step [OF "2.prems"(1,2) this] False len0 show ?thesis
      by (simp add: slip_unescape_plain del: slip_unescape.simps)
  next
    case esc: True
    consider "bs = []" | e bs' where "bs = e # bs'" "slip_unescape_code e = None"
      | e bs' x where "bs = e # bs'" "slip_unescape_code e = Some x"
      by (metis list.exhaust not_None_eq)
    then show ?thesis
    proof cases
      case 1
      then show ?thesis
        using esc len0 GetUnencoded_code [of SLIP_DELIMITER]
        by (simp add: slip_decode_spec_def slip_unescape_code_def SLIP_DELIMITER_def)
    next
      case 2
      then show ?thesis
        using esc len0 by (simp add: GetUnencoded_code slip_decode_spec_def)
    next
      case 3
      have "unat (len - 2) = length bs'"
        using "2.prems"(3) 3(1) by (simp add: unat_sub word_le_nat_alt)
      then have "slip_decode_spec (ys @ [x]) (slip_unescape bs') cb'
          (slip_decode_loop (bs' @ SLIP_DELIMITER # rest) (len - 2) cb')"
        if "slip_decoded cb' (ys @ [x])" "slip_frame_eq cb cb'" for cb'
        using that(1) buf [OF that(2)] by (intro "2.IH"(1) [OF esc 3])
      from slip_decode_spec_step [OF "2.prems"(1,2) this] show ?thesis
        using esc 3 len0 slip_unescape_code_valid [OF 3(2)]
        by (simp add: slip_unescape_code GetUnencoded_code del: slip_unescape.simps)
    qed
  qed
qed

section \<open>Sending\<close>

lemma uart_send_dma_frame:
  assumes "unat n = length xs"
  shows "uart_send_dma (UINT32_TO_BSTREAM n @ xs @ rest) u = Some (u\<lparr>uartSent := uartSent u @ [xs]\<rparr>)"
proof -
  have "take 4 (UINT32_TO_BSTREAM n @ xs @ rest) = UINT32_TO_BSTREAM n"
    and "drop 4 (UINT32_TO_BSTREAM n @ xs @ rest) = xs @ rest"
    by simp_all
  moreover have "BYTES_TO_UINT32 (UINT32_TO_BSTREAM n ! 0) (UINT32_TO_BSTREAM n ! 1)
      (UINT32_TO_BSTREAM n ! 2) (UINT32_TO_BSTREAM n ! 3) = n"
    by (simp add: UINT32_TO_BSTREAM_def uint32_bytes_id)
  ultimately show ?thesis
    using assms by (simp add: uart_send_dma_def get_bytes_def)
qed

lemma HCI_Slip_Send_busy: "\<not> isUartTxDone u \<Longrightarrow> HCI_Slip_Send pkt len (cb, u) = Some (False, cb, u)"
  by (simp add: HCI_Slip_Send_def)

text \<open>When the UART is idle and the frame fits, exactly the frame of the packet is transmitted.\<close>

lemma HCI_Slip_Send_frame:
  assumes "isUartTxDone u" and "length pkt = unat len"
    and "4 + length (slip_frame (oofEnable cb) pkt) \<le> length (pEncodeBuf cb)"
    and "length (slip_frame (oofEnable cb) pkt) < 65536"
  obtains cb' where
    "HCI_Slip_Send pkt len (cb, u) =
       Some (True, cb', u\<lparr>isUartTxDone := False, uartSent := uartSent u @ [slip_frame (oofEnable cb) pkt]\<rparr>)"
    and "length (pEncodeBuf cb') = length (pEncodeBuf cb)" "oofEnable cb' = oofEnable cb"
    "pktHandler cb' = pktHandler cb" "pDecodeBuf cb' = pDecodeBuf cb" "decodeLen cb' = decodeLen cb"
proof -
  let ?frame = "slip_frame (oofEnable cb) pkt"
  let ?n = "ucast (of_nat (length ?frame) :: u16) :: u32"
  let ?rest = "drop (4 + length ?frame) (pEncodeBuf cb)"
  let ?cb = "cb\<lparr>pEncodeBuf := take 4 (pEncodeBuf cb) @ ?frame @ ?rest, encodeLen := of_nat (length ?frame)\<rparr>"
  have enc: "HCI_Slip_EncodePacket pkt len cb = Some ?cb"
    using assms(2,3) by (simp add: HCI_Slip_EncodePacket_frame Let_def)
  have n: "unat ?n = length ?frame"
    using assms(4) by (simp add: unsigned_ucast_eq unat_of_nat take_bit_nat_eq_self)
  have put: "put_bytes (pEncodeBuf ?cb) 0 (UINT32_TO_BSTREAM ?n) =
      Some (UINT32_TO_BSTREAM ?n @ ?frame @ ?rest)"
    using assms(3) by (simp add: put_bytes_def)
  have "HCI_Slip_Send pkt len (cb, u) =
      Some (True, ?cb\<lparr>pEncodeBuf := UINT32_TO_BSTREAM ?n @ ?frame @ ?rest\<rparr>,
            u\<lparr>isUartTxDone := False, uartSent := uartSent u @ [?frame]\<rparr>)"
    using assms(1) put
    by (simp add: HCI_Slip_Send_def enc uart_send_dma_frame [OF n])
  from that [OF this] show ?thesis
    using assms(3) by simp
qed

lemma slip_decode_refines':
  assumes "length (pDecodeBuf cb) < 65536" and "4 \<le> length inner" and "length inner + 2 < 2 ^ 32"
  shows "slip_decode_spec [] (slip_unescape inner) cb
     (HCI_Slip_DecodePacket (Some (h # inner @ SLIP_DELIMITER # rest)) (of_nat (length inner + 2)) cb)"
proof -
  have n: "unat (of_nat (length inner + 2) :: u32) = length inner + 2"
    using assms(3) unat_of_nat [of "length inner + 2", where ?'a = 32] by (simp del: of_nat_add)
  then have "\<not> (of_nat (length inner + 2) :: u32) < 6"
      and le2: "2 \<le> (of_nat (length inner + 2) :: u32)"
    using assms(2) by (simp_all only: word_less_nat_alt word_le_nat_alt n) simp_all
  moreover have "unat (of_nat (length inner + 2) - 2 :: u32) = length inner"
    unfolding unat_sub [OF le2] n by simp
  moreover have "slip_decoded (cb\<lparr>decodeLen := 0\<rparr>) []"
    by (simp add: slip_decoded_def)
  ultimately have "slip_decode_spec [] (slip_unescape inner) (cb\<lparr>decodeLen := 0\<rparr>)
      (HCI_Slip_DecodePacket (Some (h # inner @ SLIP_DELIMITER # rest)) (of_nat (length inner + 2)) cb)"
    using slip_decode_loop_refines [of "cb\<lparr>decodeLen := 0\<rparr>" "[]"] assms(1)
    by (simp add: HCI_Slip_DecodePacket_def del: of_nat_add)
  then show ?thesis
    by (auto simp: slip_decode_spec_def slip_frame_eq_def split: option.splits)
qed

text \<open>Sending leaves the receive side and the settings of the SLIP layer alone.\<close>

definition slip_tx_frame :: "slip_cb \<Rightarrow> slip_cb \<Rightarrow> bool" where
  "slip_tx_frame cb cb' \<longleftrightarrow>
     length (pEncodeBuf cb') = length (pEncodeBuf cb) \<and> oofEnable cb' = oofEnable cb \<and>
     pktHandler cb' = pktHandler cb \<and> pDecodeBuf cb' = pDecodeBuf cb \<and> decodeLen cb' = decodeLen cb"

lemma HCI_Slip_Send_result:
  assumes "length pkt = unat len"
    and "4 + length (slip_frame (oofEnable cb) pkt) \<le> length (pEncodeBuf cb)"
    and "length (slip_frame (oofEnable cb) pkt) < 65536"
  obtains cb' where
    "HCI_Slip_Send pkt len (cb, u) = Some (isUartTxDone u, cb',
       if isUartTxDone u
       then u\<lparr>isUartTxDone := False, uartSent := uartSent u @ [slip_frame (oofEnable cb) pkt]\<rparr> else u)"
    and "slip_tx_frame cb cb'"
proof (cases "isUartTxDone u")
  case True
  from HCI_Slip_Send_frame [OF True assms] obtain cb' where
    "HCI_Slip_Send pkt len (cb, u) = Some (True, cb',
       u\<lparr>isUartTxDone := False, uartSent := uartSent u @ [slip_frame (oofEnable cb) pkt]\<rparr>)"
    "slip_tx_frame cb cb'"
    unfolding slip_tx_frame_def by blast
  then show ?thesis
    by (intro that [of cb']) (simp_all add: True)
next
  case False
  then show ?thesis
    by (intro that [of cb]) (simp_all add: HCI_Slip_Send_busy slip_tx_frame_def)
qed

section \<open>Properties\<close>

text \<open>
  The encoder writes exactly the SLIP frame of the packet behind the four length bytes of its
  buffer and counts its bytes, when the frame fits; when it does not fit it writes out of the
  buffer (the length check only asserts).
\<close>

theorem slip_encode_exact:
  assumes "length pkt = unat len" and "4 \<le> length (pEncodeBuf cb)"
  shows "HCI_Slip_EncodePacket pkt len cb =
     (let frame = slip_frame (oofEnable cb) pkt in
      if 4 + length frame \<le> length (pEncodeBuf cb)
      then Some (cb\<lparr>pEncodeBuf := take 4 (pEncodeBuf cb) @ frame @ drop (4 + length frame) (pEncodeBuf cb),
                    encodeLen := of_nat (length frame)\<rparr>)
      else None)"
  using assms by (rule HCI_Slip_EncodePacket_frame)

theorem slip_encode_exact_witness:
  "HCI_Slip_EncodePacket [1, 0xC0, 0x11] 3 (HCI_Slip_Init 8 8) =
     (let frame = slip_frame (oofEnable (HCI_Slip_Init 8 8)) [1, 0xC0, 0x11] in
      if 4 + length frame \<le> length (pEncodeBuf (HCI_Slip_Init 8 8))
      then Some ((HCI_Slip_Init 8 8)
                   \<lparr>pEncodeBuf := take 4 (pEncodeBuf (HCI_Slip_Init 8 8)) @ frame @
                      drop (4 + length frame) (pEncodeBuf (HCI_Slip_Init 8 8)),
                    encodeLen := of_nat (length frame)\<rparr>)
      else None)"
  by (rule slip_encode_exact) (simp_all add: HCI_Slip_Init_def)

text \<open>
  The decoder refines the unescaping of the bytes between the delimiters: it calls the packet
  handler exactly when the escape sequences are well formed and the result fits in the decode
  buffer, then with that result, and it never reads past the closing delimiter.
\<close>

theorem slip_decode_refines:
  assumes "length (pDecodeBuf cb) < 65536" and "4 \<le> length inner" and "length inner + 2 < 2 ^ 32"
  shows "slip_decode_spec [] (slip_unescape inner) cb
     (HCI_Slip_DecodePacket (Some (h # inner @ SLIP_DELIMITER # rest)) (of_nat (length inner + 2)) cb)"
  using assms by (rule slip_decode_refines')

theorem slip_decode_refines_witness:
  "slip_decode_spec [] (slip_unescape [1, 0xDB, 0xDC, 4]) (HCI_Slip_Init 8 8)
     (HCI_Slip_DecodePacket (Some (SLIP_DELIMITER # [1, 0xDB, 0xDC, 4] @ SLIP_DELIMITER # []))
        (of_nat (length [1, 0xDB, 0xDC, 4 :: u8] + 2)) (HCI_Slip_Init 8 8))"
  by (rule slip_decode_refines)
    (simp_all add: HCI_Slip_Init_def HCI_SLIP_DECODE_BUF_SIZE_def MEM_SIZE_ALIGN4_def)

text \<open>
  C6: what the encoder transmits, the decoder on the other side gives back: sending a packet of
  at least four bytes over an idle UART puts one frame on the wire, and decoding this frame calls
  the packet handler with the packet, whatever the flow-control setting of either side.
\<close>

theorem slip_send_decode_roundtrip:
  assumes "isUartTxDone u" and "length pkt = unat len" and "4 \<le> length pkt"
    and "4 + length (slip_frame (oofEnable cb) pkt) \<le> length (pEncodeBuf cb)"
    and "length (slip_frame (oofEnable cb) pkt) < 65536"
    and "length pkt \<le> length (pDecodeBuf rcv)" and "length (pDecodeBuf rcv) < 65536"
  shows "\<exists>cb' frame rcv'.
     HCI_Slip_Send pkt len (cb, u) =
       Some (True, cb', u\<lparr>isUartTxDone := False, uartSent := uartSent u @ [frame]\<rparr>) \<and>
     HCI_Slip_DecodePacket (Some frame) (of_nat (length frame)) rcv = Some (rcv', True) \<and>
     slip_decoded rcv' pkt"
proof -
  let ?esc = "slip_escape (oofEnable cb) pkt" and ?frame = "slip_frame (oofEnable cb) pkt"
  obtain cb' where send: "HCI_Slip_Send pkt len (cb, u) =
      Some (True, cb', u\<lparr>isUartTxDone := False, uartSent := uartSent u @ [?frame]\<rparr>)"
    by (rule HCI_Slip_Send_frame [OF assms(1,2,4,5)])
  have "slip_decode_spec [] (slip_unescape ?esc) rcv
      (HCI_Slip_DecodePacket (Some (SLIP_DELIMITER # ?esc @ SLIP_DELIMITER # []))
        (of_nat (length ?esc + 2)) rcv)"
    using assms(3,5) slip_escape_length(1) [of pkt "oofEnable cb"]
    by (intro slip_decode_refines' [OF assms(7)]) (auto simp: slip_frame_length)
  then have "slip_decode_spec [] (Some pkt) rcv
      (HCI_Slip_DecodePacket (Some ?frame) (of_nat (length ?frame)) rcv)"
    by (simp add: slip_unescape_escape slip_frame_def add.commute)
  then show ?thesis
    using send assms(6) by (fastforce simp: slip_decode_spec_def split: option.splits)
qed

theorem slip_send_decode_roundtrip_witness:
  "\<exists>cb' frame rcv'.
     HCI_Slip_Send [1, 0xC0, 0xDB, 4] 4 (HCI_Slip_Init 8 8, \<lparr>isUartTxDone = True, uartSent = []\<rparr>) =
       Some (True, cb', \<lparr>isUartTxDone = False, uartSent = [] @ [frame]\<rparr>) \<and>
     HCI_Slip_DecodePacket (Some frame) (of_nat (length frame)) (HCI_Slip_Init 8 8) = Some (rcv', True) \<and>
     slip_decoded rcv' [1, 0xC0, 0xDB, 4]"
proof -
  have "length (slip_frame False [1, 0xC0, 0xDB, 4]) \<le> 10"
    using slip_escape_length(2) [of False "[1, 0xC0, 0xDB, 4]"] by (simp add: slip_frame_length)
  then show ?thesis
    using slip_send_decode_roundtrip
      [of "\<lparr>isUartTxDone = True, uartSent = []\<rparr>" "[1, 0xC0, 0xDB, 4]" 4 "HCI_Slip_Init 8 8" "HCI_Slip_Init 8 8"]
    by (simp add: HCI_Slip_Init_def HCI_SLIP_DECODE_BUF_SIZE_def HCI_SLIP_ENCODE_BUF_SIZE_def
        MEM_SIZE_ALIGN4_def)
qed

end
