(* ===== verification/Safe_System.thy ===== *)
theory Safe_System
  imports C_Prelude
begin

text \<open>
  Event-driven components: a step function that handles an event and fails (\<open>None\<close>) when the code
  would leave a buffer, a condition that the environment guarantees for each event, and an
  invariant.  \<open>locale safe_system\<close> is the contract, that an admissible event in a state with the
  invariant is handled and keeps the invariant; the lemmas lift it to sequences of events and to
  reachable states.
\<close>

fun run :: "('e \<Rightarrow> 's \<Rightarrow> 's option) \<Rightarrow> 'e list \<Rightarrow> 's \<Rightarrow> 's option" where
  "run step [] s = Some s"
| "run step (e # es) s = do { s' \<leftarrow> step e s; run step es s' }"

text \<open>Every event of the sequence meets its condition in the state in which it occurs.\<close>

fun admissible :: "('e \<Rightarrow> 's \<Rightarrow> 's option) \<Rightarrow> ('e \<Rightarrow> 's \<Rightarrow> bool) \<Rightarrow> 'e list \<Rightarrow> 's \<Rightarrow> bool" where
  "admissible step env [] s = True"
| "admissible step env (e # es) s =
     (env e s \<and> (case step e s of None \<Rightarrow> True | Some s' \<Rightarrow> admissible step env es s'))"

inductive reach :: "('e \<Rightarrow> 's \<Rightarrow> 's option) \<Rightarrow> ('e \<Rightarrow> 's \<Rightarrow> bool) \<Rightarrow> 's \<Rightarrow> 's \<Rightarrow> bool"
  for step env s where
  reach_refl: "reach step env s s"
| reach_step: "reach step env s s' \<Longrightarrow> env e s' \<Longrightarrow> step e s' = Some s'' \<Longrightarrow> reach step env s s''"

lemma run_append: "run step (es @ fs) s = do { s' \<leftarrow> run step es s; run step fs s' }"
proof (induction es arbitrary: s)
  case (Cons e es)
  then show ?case
    by (cases "step e s") simp_all
qed simp

lemma run_reach:
  assumes "reach step env s0 s" and "admissible step env es s" and "run step es s = Some s'"
  shows "reach step env s0 s'"
  using assms
proof (induction es arbitrary: s)
  case (Cons e es)
  from Cons.prems obtain s1 where "step e s = Some s1" "env e s" "admissible step env es s1"
      "run step es s1 = Some s'"
    by (auto split: bind_splits)
  with Cons.IH [of s1] Cons.prems(1) show ?case
    by (auto intro: reach_step)
qed simp

locale safe_system =
  fixes step :: "'e \<Rightarrow> 's \<Rightarrow> 's option" and env :: "'e \<Rightarrow> 's \<Rightarrow> bool" and inv :: "'s \<Rightarrow> bool"
  assumes step_safe: "inv s \<Longrightarrow> env e s \<Longrightarrow> \<exists>s'. step e s = Some s' \<and> inv s'"
begin

lemma step_inv: "inv s \<Longrightarrow> env e s \<Longrightarrow> step e s = Some s' \<Longrightarrow> inv s'"
  using step_safe by fastforce

lemma reach_inv: "reach step env s s' \<Longrightarrow> inv s \<Longrightarrow> inv s'"
  by (induction rule: reach.induct) (auto intro: step_inv)

lemma reach_progress: "reach step env s s' \<Longrightarrow> inv s \<Longrightarrow> env e s' \<Longrightarrow> step e s' \<noteq> None"
  using reach_inv step_safe by fastforce

lemma run_safe:
  assumes "inv s" and "admissible step env es s"
  shows "\<exists>s'. run step es s = Some s' \<and> inv s'"
  using assms
proof (induction es arbitrary: s)
  case (Cons e es)
  then obtain s1 where "step e s = Some s1" "inv s1"
    using step_safe [of s e] by auto
  with Cons show ?case
    by simp
qed simp

end

end
