(* ===== verification/H4_Tr.thy ===== *)
theory H4_Tr
  imports Hci_Fifo Slip Safe_System
begin

text \<open>
  The H4 transport, \<^verbatim>\<open>vendor/common/hci_transport/hci_tr_h4.c\<close>: the UART's DMA fills the slots of
  a ring, the main loop cuts the byte stream into HCI packets for the controller and keeps the
  beginning of an incomplete packet in a backup buffer until the next slot arrives or a timer
  flushes it.
\<close>

section \<open>State\<close>

text \<open>\<open>hciH4TrCB\<close> with the rings and the buffer behind its pointers, and the UART.  \<open>rxDmaOff\<close> is
  the address of the receive DMA, as an offset in \<open>h4TrRxBuf\<close>.\<close>

record h4_tr =
  pHciRxFifo :: hci_fifo
  pRxFifo :: hci_fifo
  pBackUpBuf :: "u8 list"
  flushTimer :: u32
  backupCnt :: u8
  rxDmaOff :: nat
  h4Uart :: uart

definition HCI_TR_TYPE_CMD :: u8 where "HCI_TR_TYPE_CMD = 1"
definition HCI_TR_TYPE_ACL :: u8 where "HCI_TR_TYPE_ACL = 2"
definition HCI_TR_TYPE_SCO :: u8 where "HCI_TR_TYPE_SCO = 3"
definition HCI_TR_TYPE_EVENT :: u8 where "HCI_TR_TYPE_EVENT = 4"

lemmas h4_type_defs =
  HCI_TR_TYPE_CMD_def HCI_TR_TYPE_ACL_def HCI_TR_TYPE_SCO_def HCI_TR_TYPE_EVENT_def

definition HCI_CMD_HEAD_LEN :: nat where [simp]: "HCI_CMD_HEAD_LEN = 3"
definition HCI_ACL_HEAD_LEN :: nat where [simp]: "HCI_ACL_HEAD_LEN = 4"
definition HCI_EVT_HEAD_LEN :: nat where [simp]: "HCI_EVT_HEAD_LEN = 2"
definition HCI_SCO_HEAD_LEN :: nat where [simp]: "HCI_SCO_HEAD_LEN = 3"

definition HCI_H4_FLUSH_TO :: u32 where "HCI_H4_FLUSH_TO = 1000"

definition HCI_H4_TR_RX_BUF_SIZE :: "nat \<Rightarrow> nat" where
  "HCI_H4_TR_RX_BUF_SIZE rx = MEM_SIZE_ALIGN16 (4 + rx) * 2"

definition HCI_Tr_H4Init :: "hci_fifo \<Rightarrow> h4_tr \<Rightarrow> h4_tr" where
  "HCI_Tr_H4Init pFifo s =
     s\<lparr>pHciRxFifo := pFifo, backupCnt := 0, flushTimer := 0, rxDmaOff := 0\<rparr>"

definition HCI_Tr_H4TimerEnable :: "u32 \<Rightarrow> h4_tr \<Rightarrow> h4_tr" where
  "HCI_Tr_H4TimerEnable now s = s\<lparr>flushTimer := now OR 1\<rparr>"

definition HCI_Tr_H4TimerDisable :: "h4_tr \<Rightarrow> h4_tr" where
  "HCI_Tr_H4TimerDisable s = s\<lparr>flushTimer := 0\<rparr>"

definition HCI_Tr_H4FlushHandler :: "u32 \<Rightarrow> h4_tr \<Rightarrow> h4_tr" where
  "HCI_Tr_H4FlushHandler now s =
     (if flushTimer s \<noteq> 0 \<and> clock_time_exceed now (flushTimer s) (HCI_H4_FLUSH_TO * 1000)
      then s\<lparr>flushTimer := 0, backupCnt := 0\<rparr> else s)"

section \<open>The backup buffer\<close>

text \<open>The copy into the next slot of the controller's ring; the index is masked with
  \<open>num - 1\<close> here.  Neither the length nor a free slot is checked.\<close>

definition h4_push :: "hci_fifo \<Rightarrow> u8 list \<Rightarrow> hci_fifo option" where
  "h4_push f xs =
     do { b \<leftarrow> put_bytes (fp f) (unat (ucast (wptr f AND (fnum f - 1)) * fsize f)) xs;
          Some (f\<lparr>fp := b, wptr := wptr f + 1\<rparr>) }"

text \<open>\<open>memcpy(pBackUpBuf + backupCnt, pPacket, n); backupCnt += n\<close>.\<close>

definition h4_append :: "u8 list \<Rightarrow> nat \<Rightarrow> h4_tr \<Rightarrow> h4_tr option" where
  "h4_append pPacket n s =
     do { xs \<leftarrow> get_bytes pPacket 0 n;
          b \<leftarrow> put_bytes (pBackUpBuf s) (unat (backupCnt s)) xs;
          Some (s\<lparr>pBackUpBuf := b, backupCnt := backupCnt s + of_nat n\<rparr>) }"

text \<open>What follows the copy: a complete packet goes to the controller, otherwise the timer is
  started.\<close>

definition h4_complete :: "u32 \<Rightarrow> nat \<Rightarrow> h4_tr \<Rightarrow> h4_tr option" where
  "h4_complete now pktLen s =
     (if unat (backupCnt s) = pktLen then
        do { xs \<leftarrow> get_bytes (pBackUpBuf s) 0 (unat (backupCnt s));
             f \<leftarrow> h4_push (pHciRxFifo s) xs;
             Some (HCI_Tr_H4TimerDisable (s\<lparr>pHciRxFifo := f, backupCnt := 0\<rparr>)) }
      else Some (HCI_Tr_H4TimerEnable now s))"

text \<open>The parameter length in the packet header of a command or ACL packet at \<open>pBuf\<close>.\<close>

definition h4_param_len :: "u8 \<Rightarrow> u8 list \<Rightarrow> u16 option" where
  "h4_param_len type pBuf =
     (if type = HCI_TR_TYPE_CMD then map_option ucast (get_byte pBuf 3)
      else do { l \<leftarrow> get_byte pBuf 3; h \<leftarrow> get_byte pBuf 4; Some (BYTES_TO_UINT16 l h) })"

definition h4_head_len :: "u8 \<Rightarrow> nat" where
  "h4_head_len type =
     (if type = HCI_TR_TYPE_CMD then 1 + HCI_CMD_HEAD_LEN else 1 + HCI_ACL_HEAD_LEN)"

text \<open>The copy of the rest of the packet, once the header is in the backup buffer; the result is
  the number of bytes taken.\<close>

definition h4_fill :: "u32 \<Rightarrow> u8 \<Rightarrow> u8 list \<Rightarrow> u32 \<Rightarrow> h4_tr \<Rightarrow> (u32 \<times> h4_tr) option" where
  "h4_fill now type pPacket len s =
     do { paramLen \<leftarrow> h4_param_len type (pBackUpBuf s);
          let cpyLen = (of_nat (h4_head_len type) + paramLen - ucast (backupCnt s) :: u16);
          let n = min (ucast cpyLen) len;
          s1 \<leftarrow> h4_append pPacket (unat n) s;
          s2 \<leftarrow> h4_complete now (h4_head_len type + unat paramLen) s1;
          Some (n, s2) }"

text \<open>The branches for command and ACL packets, which differ in the header only: the header is
  complete, becomes complete, or stays incomplete.\<close>

definition h4_backup_packet :: "u32 \<Rightarrow> u8 \<Rightarrow> u8 list \<Rightarrow> u32 \<Rightarrow> h4_tr \<Rightarrow> (u32 \<times> h4_tr) option" where
  "h4_backup_packet now type pPacket len s =
     (let hlen = h4_head_len type in
      if hlen \<le> unat (backupCnt s) then h4_fill now type pPacket len s
      else if of_nat hlen \<le> ucast (backupCnt s) + len then
        do { let cpyLen = (of_nat hlen - ucast (backupCnt s) :: u16);
             s1 \<leftarrow> h4_append pPacket (unat cpyLen) s;
             (n, s2) \<leftarrow> h4_fill now type (drop (unat cpyLen) pPacket) (len - ucast cpyLen) s1;
             Some (ucast (cpyLen + ucast n), s2) }
      else
        do { s1 \<leftarrow> h4_append pPacket (unat len) s;
             Some (len, HCI_Tr_H4TimerEnable now s1) })"

definition HCI_Tr_H4BackUpHandler :: "u32 \<Rightarrow> u8 list \<Rightarrow> u32 \<Rightarrow> h4_tr \<Rightarrow> (u32 \<times> h4_tr) option" where
  "HCI_Tr_H4BackUpHandler now pPacket len s =
     (if backupCnt s = 0 then
        do { xs \<leftarrow> get_bytes pPacket 0 (unat len);
             b \<leftarrow> put_bytes (pBackUpBuf s) 0 xs;
             Some (len, HCI_Tr_H4TimerEnable now (s\<lparr>pBackUpBuf := b, backupCnt := ucast len\<rparr>)) }
      else
        do { hciType \<leftarrow> get_byte (pBackUpBuf s) 0;
             if hciType = HCI_TR_TYPE_CMD \<or> hciType = HCI_TR_TYPE_ACL
             then h4_backup_packet now hciType pPacket len s
             else Some (len, s) })"

section \<open>The receive loop\<close>

text \<open>
  The \<open>while (len)\<close> loop.  The list is the memory from \<open>pPacket\<close> to the end of the receive
  buffer.  In the branches for events and SCO packets \<open>len\<close> is reduced by the length of the
  packet, without a comparison, and \<open>pPacket\<close> stays where it is.  The loop need not end, so that
  \<open>None\<close> stands for an access outside a buffer and for a loop that never returns.
\<close>

partial_function (option) h4_rx_loop :: "u32 \<Rightarrow> u8 list \<Rightarrow> u32 \<Rightarrow> h4_tr \<Rightarrow> h4_tr option" where
  "h4_rx_loop now pPacket len s =
     (if len = 0 then Some s
      else
        Option.bind
          (if backupCnt s \<noteq> 0 then
             map_option (\<lambda>(res, s'). (drop (unat (ucast res :: u8)) pPacket, len - ucast (ucast res :: u8), s'))
               (HCI_Tr_H4BackUpHandler now pPacket len s)
           else Some (pPacket, len, s))
        (\<lambda>(pPacket, len, s).
          Option.bind (get_byte pPacket 0) (\<lambda>hciType.
            if hciType = HCI_TR_TYPE_CMD \<or> hciType = HCI_TR_TYPE_ACL then
              (if len < of_nat (h4_head_len hciType) then
                 map_option snd (HCI_Tr_H4BackUpHandler now pPacket len s)
               else
                 Option.bind (h4_param_len hciType pPacket) (\<lambda>paramLen.
                   let pktLen = (of_nat (h4_head_len hciType) + paramLen :: u16) in
                   if pktLen = 0 then h4_rx_loop now pPacket len s
                   else if ucast pktLen \<le> len then
                     Option.bind (get_bytes pPacket 0 (unat pktLen)) (\<lambda>xs.
                       Option.bind (h4_push (pHciRxFifo s) xs) (\<lambda>f.
                         h4_rx_loop now (drop (unat pktLen) pPacket) (len - ucast pktLen)
                           (s\<lparr>pHciRxFifo := f\<rparr>)))
                   else map_option snd (HCI_Tr_H4BackUpHandler now pPacket len s)))
            else if hciType = HCI_TR_TYPE_EVENT then
              (if len < of_nat (1 + HCI_EVT_HEAD_LEN) then Some s
               else
                 Option.bind (get_byte pPacket 2) (\<lambda>paramLen.
                   h4_rx_loop now pPacket (len - (of_nat (1 + HCI_EVT_HEAD_LEN) + ucast paramLen)) s))
            else if hciType = HCI_TR_TYPE_SCO then
              (if len < of_nat (1 + HCI_SCO_HEAD_LEN) then Some s
               else
                 Option.bind (get_byte pPacket 3) (\<lambda>paramLen.
                   h4_rx_loop now pPacket (len - (of_nat (1 + HCI_SCO_HEAD_LEN) + ucast paramLen)) s))
            else Some s)))"

declare h4_rx_loop.simps [code]

text \<open>
  One pass of the loop by itself, which tells the end of the loop (\<open>Stop\<close>) from the next pass (\<open>Again\<close>) and both from an
  access outside a buffer (\<open>None\<close>), and the point that the loop has reached after \<open>n\<close> passes.
\<close>

datatype h4_pass = Stop h4_tr | Again "u8 list" u32 h4_tr

definition h4_rx_body :: "u32 \<Rightarrow> u8 list \<Rightarrow> u32 \<Rightarrow> h4_tr \<Rightarrow> h4_pass option" where
  "h4_rx_body now pPacket len s = do {
     (pPacket, len, s) \<leftarrow>
       (if backupCnt s \<noteq> 0 then
          map_option (\<lambda>(res, s'). (drop (unat (ucast res :: u8)) pPacket, len - ucast (ucast res :: u8), s'))
            (HCI_Tr_H4BackUpHandler now pPacket len s)
        else Some (pPacket, len, s));
     hciType \<leftarrow> get_byte pPacket 0;
     if hciType = HCI_TR_TYPE_CMD \<or> hciType = HCI_TR_TYPE_ACL then
       (if len < of_nat (h4_head_len hciType) then map_option (Stop \<circ> snd) (HCI_Tr_H4BackUpHandler now pPacket len s)
        else do {
          paramLen \<leftarrow> h4_param_len hciType pPacket;
          let pktLen = (of_nat (h4_head_len hciType) + paramLen :: u16);
          if pktLen = 0 then Some (Again pPacket len s)
          else if ucast pktLen \<le> len then do {
            xs \<leftarrow> get_bytes pPacket 0 (unat pktLen);
            f \<leftarrow> h4_push (pHciRxFifo s) xs;
            Some (Again (drop (unat pktLen) pPacket) (len - ucast pktLen) (s\<lparr>pHciRxFifo := f\<rparr>)) }
          else map_option (Stop \<circ> snd) (HCI_Tr_H4BackUpHandler now pPacket len s) })
     else if hciType = HCI_TR_TYPE_EVENT then
       (if len < of_nat (1 + HCI_EVT_HEAD_LEN) then Some (Stop s)
        else do { paramLen \<leftarrow> get_byte pPacket 2; Some (Again pPacket (len - (of_nat (1 + HCI_EVT_HEAD_LEN) + ucast paramLen)) s) })
     else if hciType = HCI_TR_TYPE_SCO then
       (if len < of_nat (1 + HCI_SCO_HEAD_LEN) then Some (Stop s)
        else do { paramLen \<leftarrow> get_byte pPacket 3; Some (Again pPacket (len - (of_nat (1 + HCI_SCO_HEAD_LEN) + ucast paramLen)) s) })
     else Some (Stop s) }"

fun h4_passes :: "u32 \<Rightarrow> nat \<Rightarrow> u8 list \<Rightarrow> u32 \<Rightarrow> h4_tr \<Rightarrow> h4_pass option" where
  "h4_passes now 0 pPacket len s = Some (Again pPacket len s)"
| "h4_passes now (Suc n) pPacket len s =
     (if len = 0 then Some (Stop s)
      else case h4_rx_body now pPacket len s of
        None \<Rightarrow> None
      | Some (Stop s) \<Rightarrow> Some (Stop s)
      | Some (Again pPacket len s) \<Rightarrow> h4_passes now n pPacket len s)"

text \<open>The results of a pass: the loop goes on, ends, or fails.\<close>

definition h4_continue :: "u32 \<Rightarrow> h4_pass option \<Rightarrow> h4_tr option" where
  "h4_continue now r = Option.bind r (\<lambda>r. case r of Stop s \<Rightarrow> Some s | Again pPacket len s \<Rightarrow> h4_rx_loop now pPacket len s)"

lemma h4_continue_simps [simp]:
  "h4_continue now (Some (Stop s)) = Some s" "h4_continue now None = None"
  "h4_continue now (Some (Again pPacket len s)) = h4_rx_loop now pPacket len s"
  "h4_continue now (map_option (Stop \<circ> snd) y) = map_option snd y"
  "h4_continue now (Option.bind x f) = Option.bind x (\<lambda>z. h4_continue now (f z))"
  "h4_continue now (if c then r else r') = (if c then h4_continue now r else h4_continue now r')"
  by (auto simp: h4_continue_def map_option_case split: Option.bind_splits option.splits)

lemma h4_rx_loop_body:
  "h4_rx_loop now pPacket len s = (if len = 0 then Some s else h4_continue now (h4_rx_body now pPacket len s))"
  by (subst h4_rx_loop.simps)
    (simp only: h4_rx_body_def h4_continue_simps Let_def prod.case_distrib [of "h4_continue now"] split del: if_split)

definition HCI_Tr_H4RxHandler :: "u32 \<Rightarrow> h4_tr \<Rightarrow> h4_tr option" where
  "HCI_Tr_H4RxHandler now s0 =
     (let s = HCI_Tr_H4FlushHandler now s0; f = pRxFifo s in
      if wptr f = rptr f then Some s
      else do {
        let p = drop (fifo_slot f (rptr f)) (fp f);
        h \<leftarrow> get_bytes p 0 4;
        let len = BYTES_TO_UINT32 (h ! 0) (h ! 1) (h ! 2) (h ! 3);
        s1 \<leftarrow> h4_rx_loop now (drop 4 p) len s;
        Some (s1\<lparr>pRxFifo := (pRxFifo s1)\<lparr>rptr := rptr (pRxFifo s1) + 1\<rparr>\<rparr>) })"

section \<open>The interrupt handler\<close>

text \<open>The DMA writes the length of the received burst and its bytes at its address.\<close>

definition h4_dma :: "u8 list \<Rightarrow> h4_tr \<Rightarrow> h4_tr option" where
  "h4_dma xs s =
     do { b \<leftarrow> put_bytes (fp (pRxFifo s)) (rxDmaOff s) (UINT32_TO_BSTREAM (of_nat (length xs)) @ xs);
          Some (s\<lparr>pRxFifo := (pRxFifo s)\<lparr>fp := b\<rparr>\<rparr>) }"

text \<open>The receive branch: \<open>wptr - rptr\<close> is computed in \<open>int\<close>, so that it is negative when the
  write pointer has wrapped and the read pointer has not.\<close>

definition h4_irq_rx :: "h4_tr \<Rightarrow> h4_tr option" where
  "h4_irq_rx s =
     (let f = pRxFifo s in
      if int (unat (fnum f)) \<le> int (unat (wptr f)) - int (unat (rptr f)) then Some s
      else do {
        h \<leftarrow> get_bytes (fp f) (fifo_slot f (wptr f)) 4;
        if BYTES_TO_UINT32 (h ! 0) (h ! 1) (h ! 2) (h ! 3) \<noteq> 0 then
          (let f' = f\<lparr>wptr := wptr f + 1\<rparr> in
           Some (s\<lparr>pRxFifo := f', rxDmaOff := fifo_slot f' (wptr f')\<rparr>))
        else Some s })"

text \<open>The whole handler, for the pending DMA and transmit-done interrupts; the early return for a
  full ring leaves the transmit-done interrupt for the next call.\<close>

definition HCI_Tr_H4IRQHandler :: "bool \<Rightarrow> bool \<Rightarrow> h4_tr \<Rightarrow> h4_tr option" where
  "HCI_Tr_H4IRQHandler dmaRx txDone s =
     (let f = pRxFifo s in
      if dmaRx \<and> int (unat (fnum f)) \<le> int (unat (wptr f)) - int (unat (rptr f)) then Some s
      else do {
        s1 \<leftarrow> (if dmaRx then h4_irq_rx s else Some s);
        Some (if txDone then s1\<lparr>h4Uart := (h4Uart s1)\<lparr>isUartTxDone := True\<rparr>\<rparr> else s1) })"

end
