(* ===== verification/H4_Stream.thy ===== *)
theory H4_Stream
  imports H4_Tr
begin

text \<open>
  Reassembly in the H4 transport: the specification cuts a byte stream into packets
  (\<open>h4_parse\<close>), independently of how the stream arrives; the receive loop with its backup buffer
  is shown to deliver exactly these packets and to keep the incomplete rest.
\<close>

section \<open>Specification: cutting a stream into packets\<close>

definition h4_type_ok :: "u8 \<Rightarrow> bool" where
  "h4_type_ok t \<longleftrightarrow> t = HCI_TR_TYPE_CMD \<or> t = HCI_TR_TYPE_ACL"

text \<open>The length of the packet at the front, once its header is complete.\<close>

definition h4_len :: "u8 list \<Rightarrow> nat option" where
  "h4_len xs =
     (case xs of
        [] \<Rightarrow> None
      | t # _ \<Rightarrow>
          if length xs < h4_head_len t then None
          else map_option (\<lambda>p. h4_head_len t + unat p) (h4_param_len t xs))"

lemma h4_len_Nil [simp]: "h4_len [] = None"
  by (simp add: h4_len_def)

lemma h4_head_len_bounds: "4 \<le> h4_head_len t" "h4_head_len t \<le> 5"
  by (simp_all add: h4_head_len_def)

lemma h4_len_pos: "h4_len xs = Some n \<Longrightarrow> 4 \<le> n"
  using h4_head_len_bounds(1) by (auto simp: h4_len_def split: list.splits if_splits intro: trans_le_add1)

fun h4_parse :: "u8 list \<Rightarrow> u8 list list \<times> u8 list" where
  "h4_parse xs =
     (case h4_len xs of
        None \<Rightarrow> ([], xs)
      | Some n \<Rightarrow>
          if 0 < n \<and> n \<le> length xs
          then (case h4_parse (drop n xs) of (ps, r) \<Rightarrow> (take n xs # ps, r)) else ([], xs))"

text \<open>A stream of command and ACL packets of at most \<open>lim\<close> bytes, the last one perhaps
  incomplete.\<close>

fun h4_ok :: "nat \<Rightarrow> u8 list \<Rightarrow> bool" where
  "h4_ok lim xs =
     (case xs of
        [] \<Rightarrow> True
      | t # _ \<Rightarrow>
          h4_type_ok t \<and>
          (case h4_len xs of
             None \<Rightarrow> True
           | Some n \<Rightarrow> n \<le> lim \<and> (if 0 < n \<and> n \<le> length xs then h4_ok lim (drop n xs) else True)))"

declare h4_parse.simps [simp del] h4_ok.simps [simp del]

text \<open>A proper beginning of a packet.\<close>

definition h4_partial :: "u8 list \<Rightarrow> bool" where
  "h4_partial xs \<longleftrightarrow> (\<forall>n. h4_len xs = Some n \<longrightarrow> length xs < n)"

lemma h4_len_append:
  assumes "h4_len xs = Some n"
  shows "h4_len (xs @ ys) = Some n"
proof -
  obtain t zs where xs: "xs = t # zs"
    using assms by (auto simp: h4_len_def split: list.splits)
  have "h4_param_len t (xs @ ys) = h4_param_len t xs" if "h4_head_len t \<le> length xs"
  proof (cases "t = HCI_TR_TYPE_CMD")
    case True
    then have "3 < length xs"
      using that by (simp add: h4_head_len_def)
    then show ?thesis
      by (simp add: h4_param_len_def True get_byte_def nth_append)
  next
    case False
    then have "4 < length xs"
      using that by (simp add: h4_head_len_def)
    then show ?thesis
      by (simp add: h4_param_len_def False get_byte_def nth_append)
  qed
  with assms show ?thesis
    by (auto simp: h4_len_def xs split: if_splits)
qed

lemma h4_parse_partial: "h4_partial xs \<Longrightarrow> h4_parse xs = ([], xs)"
  by (subst h4_parse.simps) (auto simp: h4_partial_def split: option.splits)

lemma h4_parse_first:
  assumes "h4_len xs = Some n" and "n \<le> length xs"
  shows "h4_parse xs = (take n xs # fst (h4_parse (drop n xs)), snd (h4_parse (drop n xs)))"
  using assms h4_len_pos [OF assms(1)] by (subst h4_parse.simps) (simp split: prod.splits)

lemma h4_parse_rest_partial: "h4_partial (snd (h4_parse xs))"
proof (induction xs rule: h4_parse.induct)
  case (1 xs)
  show ?case
  proof (cases "h4_partial xs")
    case False
    then obtain n where n: "h4_len xs = Some n" "n \<le> length xs"
      by (auto simp: h4_partial_def not_less)
    with 1 [OF n(1)] h4_len_pos [OF n(1)] show ?thesis
      by (simp add: h4_parse_first)
  qed (simp add: h4_parse_partial)
qed

text \<open>Cutting does not depend on where the stream is interrupted.\<close>

lemma h4_parse_append:
  "h4_parse (xs @ ys) =
     (fst (h4_parse xs) @ fst (h4_parse (snd (h4_parse xs) @ ys)),
      snd (h4_parse (snd (h4_parse xs) @ ys)))"
proof (induction xs rule: h4_parse.induct)
  case (1 xs)
  show ?case
  proof (cases "h4_partial xs")
    case True
    then show ?thesis
      by (simp add: h4_parse_partial)
  next
    case False
    then obtain n where n: "h4_len xs = Some n" "n \<le> length xs"
      by (auto simp: h4_partial_def not_less)
    have "h4_parse (xs @ ys) = (take n xs # fst (h4_parse (drop n xs @ ys)), snd (h4_parse (drop n xs @ ys)))"
      using h4_parse_first [OF h4_len_append [OF n(1), of ys]] n(2) by simp
    with 1 [OF n(1)] h4_len_pos [OF n(1)] n show ?thesis
      by (simp add: h4_parse_first)
  qed
qed

lemma h4_ok_first:
  assumes "h4_ok lim xs" and "h4_len xs = Some n"
  shows "n \<le> lim" and "n \<le> length xs \<Longrightarrow> h4_ok lim (drop n xs)"
  using assms h4_len_pos [OF assms(2)] h4_ok.simps [of lim xs]
  by (auto split: list.splits)

lemma h4_ok_type: "h4_ok lim (t # xs) \<Longrightarrow> h4_type_ok t"
  using h4_ok.simps [of lim "t # xs"] by simp

lemma h4_ok_prefix: "h4_ok lim (xs @ ys) \<Longrightarrow> h4_ok lim xs"
proof (induction xs rule: h4_parse.induct)
  case (1 xs)
  show ?case
  proof (cases xs)
    case (Cons t zs)
    have type: "h4_type_ok t"
      using 1(2) by (auto simp: Cons dest: h4_ok_type)
    show ?thesis
    proof (cases "h4_len xs")
      case None
      then show ?thesis
        using type by (subst h4_ok.simps) (simp add: Cons)
    next
      case (Some n)
      note first = h4_ok_first [OF 1(2) h4_len_append [OF Some]]
      have "h4_ok lim (drop n xs)" if "n \<le> length xs"
        using 1(1) [OF Some] first(2) h4_len_pos [OF Some] that by simp
      then show ?thesis
        using type first(1) Some by (subst h4_ok.simps) (simp add: Cons)
    qed
  qed (subst h4_ok.simps, simp)
qed

lemma h4_ok_rest: "h4_ok lim (xs @ ys) \<Longrightarrow> h4_ok lim (snd (h4_parse xs) @ ys)"
proof (induction xs rule: h4_parse.induct)
  case (1 xs)
  show ?case
  proof (cases "h4_partial xs")
    case True
    then show ?thesis
      using 1 by (simp add: h4_parse_partial)
  next
    case False
    then obtain n where n: "h4_len xs = Some n" "n \<le> length xs"
      by (auto simp: h4_partial_def not_less)
    have "h4_ok lim (drop n xs @ ys)"
      using h4_ok_first(2) [OF 1(2) h4_len_append [OF n(1)]] n(2) by simp
    with 1(1) [OF n(1)] h4_len_pos [OF n(1)] n show ?thesis
      by (simp add: h4_parse_first)
  qed
qed

text \<open>An incomplete packet is shorter than the limit.\<close>

lemma h4_partial_short:
  assumes "h4_ok lim xs" and "h4_partial xs" and "5 \<le> lim"
  shows "length xs < lim"
proof (cases "h4_len xs")
  case (Some n)
  then show ?thesis
    using assms(2) h4_ok_first(1) [OF assms(1)] by (auto simp: h4_partial_def)
next
  case None
  show ?thesis
  proof (cases xs)
    case (Cons t zs)
    have "length xs < h4_head_len t"
    proof (rule ccontr)
      assume "\<not> length xs < h4_head_len t"
      moreover from this have "h4_param_len t xs \<noteq> None"
        by (auto simp: h4_param_len_def h4_head_len_def get_byte_def split: if_splits)
      ultimately show False
        using None by (auto simp: h4_len_def Cons)
    qed
    then show ?thesis
      using h4_head_len_bounds(2) [of t] assms(3) by simp
  qed (use assms(3) in simp)
qed

section \<open>The buffer operations\<close>

definition h4_pend :: "h4_tr \<Rightarrow> u8 list" where
  "h4_pend s = take (unat (backupCnt s)) (pBackUpBuf s)"

text \<open>Packets of at most \<open>lim\<close> bytes fit everywhere.\<close>

definition h4_cap :: "nat \<Rightarrow> h4_tr \<Rightarrow> bool" where
  "h4_cap lim s \<longleftrightarrow>
     5 \<le> lim \<and> lim \<le> 255 \<and> lim \<le> length (pBackUpBuf s) \<and> lim \<le> unat (fsize (pHciRxFifo s)) \<and>
     fifo_inv (pHciRxFifo s) \<and> unat (backupCnt s) \<le> lim"

text \<open>What the receive path leaves alone.\<close>

definition h4_frame :: "h4_tr \<Rightarrow> h4_tr \<Rightarrow> bool" where
  "h4_frame s s' \<longleftrightarrow> pRxFifo s' = pRxFifo s \<and> rxDmaOff s' = rxDmaOff s \<and> h4Uart s' = h4Uart s \<and>
     length (pBackUpBuf s') = length (pBackUpBuf s) \<and> fsize (pHciRxFifo s') = fsize (pHciRxFifo s) \<and>
     fnum (pHciRxFifo s') = fnum (pHciRxFifo s)"

lemma h4_frame_trans: "h4_frame a b \<Longrightarrow> h4_frame b c \<Longrightarrow> h4_frame a c"
  by (simp add: h4_frame_def)

text \<open>\<open>h4_gives ps f f'\<close>: the ring \<open>f'\<close> is \<open>f\<close> with one slot for each packet of \<open>ps\<close>, which
  starts with the packet.\<close>

definition h4_gives :: "u8 list list \<Rightarrow> hci_fifo \<Rightarrow> hci_fifo \<Rightarrow> bool" where
  "h4_gives ps f f' \<longleftrightarrow>
     fifo_inv f' \<and> (\<exists>new. fifo_items f' = fifo_items f @ new \<and>
       list_all2 (\<lambda>p slot. take (length p) slot = p) ps new)"

lemma h4_gives_Nil: "fifo_inv f \<Longrightarrow> h4_gives [] f f"
  by (simp add: h4_gives_def)

lemma h4_gives_append: "h4_gives ps f f1 \<Longrightarrow> h4_gives qs f1 f2 \<Longrightarrow> h4_gives (ps @ qs) f f2"
  unfolding h4_gives_def by (elim conjE exE) (auto intro: list_all2_appendI)

lemma h4_gives_count: "h4_gives ps f f' \<Longrightarrow> fifo_count f' = fifo_count f + length ps"
  unfolding h4_gives_def
  by (elim conjE exE, drule arg_cong [of _ _ length]) (auto dest: list_all2_lengthD)

lemma h4_push_fifo_push: "fifo_wf f \<Longrightarrow> h4_push f xs = fifo_push f xs"
proof -
  assume "fifo_wf f"
  then obtain k where k: "k \<le> 7" "fnum f = 2 ^ k" "fmask f = mask k"
    by (auto simp: fifo_wf_def)
  have "fnum f - 1 = fmask f"
    by (simp add: k mask_eq_exp_minus_1)
  then show ?thesis
    by (simp add: h4_push_def fifo_push_def fifo_slot_def)
qed

lemma h4_push_gives:
  assumes "fifo_inv f" and "fifo_count f < unat (fnum f)" and "length xs \<le> unat (fsize f)"
  obtains f' where "h4_push f xs = Some f'" and "h4_gives [xs] f f'" and "fsize f' = fsize f"
    and "fnum f' = fnum f"
proof -
  obtain f' where f': "fifo_push f xs = Some f'"
    by (rule fifo_push_total [OF _ assms(3)]) (use assms(1) in \<open>simp add: fifo_inv_def\<close>)
  have "h4_gives [xs] f f'"
    using fifo_push_items [OF assms f'] by (simp add: h4_gives_def)
  then show ?thesis
    using that f' fifo_push_frame [OF f'] assms(1) by (simp add: fifo_inv_def h4_push_fifo_push)
qed

lemma h4_pend_length: "h4_cap lim s \<Longrightarrow> length (h4_pend s) = unat (backupCnt s)"
  by (simp add: h4_cap_def h4_pend_def)

lemma h4_append_spec:
  assumes cap: "h4_cap lim s" and xs: "get_bytes pPacket 0 n = Some xs"
    and len: "unat (backupCnt s) + n \<le> lim"
  obtains s' where "h4_append pPacket n s = Some s'" and "h4_pend s' = h4_pend s @ xs"
    and "h4_cap lim s'" and "h4_frame s s'" and "pHciRxFifo s' = pHciRxFifo s"
    and "unat (backupCnt s') = unat (backupCnt s) + n"
proof -
  let ?c = "unat (backupCnt s)"
  have n: "length xs = n"
    by (rule get_bytes_length [OF xs])
  have fits: "?c + n \<le> length (pBackUpBuf s)" "?c + n \<le> 255"
    using cap len by (simp_all add: h4_cap_def)
  let ?b = "take ?c (pBackUpBuf s) @ xs @ drop (?c + n) (pBackUpBuf s)"
  let ?s = "s\<lparr>pBackUpBuf := ?b, backupCnt := backupCnt s + of_nat n\<rparr>"
  have cnt: "unat (backupCnt s + of_nat n) = ?c + n"
    using fits(2) by (simp add: unat_word_ariths unat_of_nat)
  have "h4_append pPacket n s = Some ?s"
    using xs fits(1) n by (simp add: h4_append_def put_bytes_def)
  moreover have "h4_pend ?s = h4_pend s @ xs"
    using fits(1) n by (simp add: h4_pend_def cnt)
  moreover have "h4_cap lim ?s" "h4_frame s ?s"
    using cap len fits n by (auto simp: h4_cap_def h4_frame_def cnt)
  ultimately show ?thesis
    using that [of ?s] by (simp add: cnt)
qed

lemma h4_complete_spec:
  assumes cap: "h4_cap lim s" and room: "fifo_count (pHciRxFifo s) < unat (fnum (pHciRxFifo s))"
  shows "unat (backupCnt s) = n \<Longrightarrow> \<exists>s'. h4_complete now n s = Some s' \<and>
      h4_gives [h4_pend s] (pHciRxFifo s) (pHciRxFifo s') \<and> backupCnt s' = 0 \<and> h4_cap lim s' \<and> h4_frame s s'"
proof -
  assume n: "unat (backupCnt s) = n"
  have "length (h4_pend s) \<le> unat (fsize (pHciRxFifo s))"
    using cap by (simp add: h4_pend_length) (simp add: h4_cap_def)
  then obtain f' where f': "h4_push (pHciRxFifo s) (h4_pend s) = Some f'"
      "h4_gives [h4_pend s] (pHciRxFifo s) f'" "fsize f' = fsize (pHciRxFifo s)"
      "fnum f' = fnum (pHciRxFifo s)"
    using h4_push_gives [of "pHciRxFifo s"] cap room unfolding h4_cap_def by metis
  have "get_bytes (pBackUpBuf s) 0 (unat (backupCnt s)) = Some (h4_pend s)"
    using cap by (simp add: get_bytes_def h4_pend_def h4_cap_def)
  then show ?thesis
    using f' n cap
    by (auto simp: h4_complete_def HCI_Tr_H4TimerDisable_def h4_cap_def h4_frame_def h4_gives_def)
qed

lemma h4_param_len_take:
  assumes "h4_head_len t \<le> n" and "n \<le> length xs"
  shows "h4_param_len t (take n xs) = h4_param_len t xs"
  using assms by (auto simp: h4_param_len_def h4_head_len_def get_byte_def split: if_splits)

lemma h4_complete_no:
  "unat (backupCnt s) \<noteq> n \<Longrightarrow> h4_complete now n s = Some (HCI_Tr_H4TimerEnable now s)"
  by (simp add: h4_complete_def)

lemma h4_timer_simps [simp]:
  "h4_pend (HCI_Tr_H4TimerEnable now s) = h4_pend s"
  "h4_cap lim (HCI_Tr_H4TimerEnable now s) = h4_cap lim s"
  "h4_frame r (HCI_Tr_H4TimerEnable now s) = h4_frame r s"
  "pHciRxFifo (HCI_Tr_H4TimerEnable now s) = pHciRxFifo s"
  "backupCnt (HCI_Tr_H4TimerEnable now s) = backupCnt s"
  by (simp_all add: HCI_Tr_H4TimerEnable_def h4_pend_def h4_cap_def h4_frame_def)

text \<open>The outcome of handing the bytes \<open>data\<close> to a buffer with the content \<open>pend\<close>, as a predicate
  on the result: the packet is completed and delivered, or everything is kept.\<close>

definition h4_backup_spec :: "nat \<Rightarrow> u8 list \<Rightarrow> h4_tr \<Rightarrow> (u32 \<times> h4_tr) option \<Rightarrow> bool" where
  "h4_backup_spec lim data s r \<longleftrightarrow>
     (\<exists>k s'. r = Some (of_nat k, s') \<and> k \<le> length data \<and> k \<le> lim \<and> h4_cap lim s' \<and> h4_frame s s' \<and>
        (if h4_partial (h4_pend s @ data)
         then k = length data \<and> h4_pend s' = h4_pend s @ data \<and> pHciRxFifo s' = pHciRxFifo s
         else h4_len (h4_pend s @ data) = Some (length (h4_pend s) + k) \<and> h4_pend s' = [] \<and>
              h4_gives [h4_pend s @ take k data] (pHciRxFifo s) (pHciRxFifo s')))"

lemma h4_backup_specI_keep:
  assumes "h4_cap lim s'" "h4_frame s s'" "h4_pend s' = h4_pend s @ data" "pHciRxFifo s' = pHciRxFifo s"
    "h4_partial (h4_pend s @ data)" "unat len = length data" "length data \<le> lim"
  shows "h4_backup_spec lim data s (Some (len, s'))"
proof -
  have "len = of_nat (length data)"
    by (simp flip: assms(6))
  then show ?thesis
    using assms by (auto simp: h4_backup_spec_def)
qed

lemma h4_fill_spec:
  assumes cap: "h4_cap lim s" and len: "h4_len (h4_pend s) = Some n" and n: "unat (backupCnt s) \<le> n" "n \<le> lim"
    and type: "type = hd (h4_pend s)" and data: "get_bytes pPacket 0 (unat len) = Some data"
    and room: "fifo_count (pHciRxFifo s) < unat (fnum (pHciRxFifo s))"
  shows "h4_backup_spec lim data s (h4_fill now type pPacket len s)"
proof -
  let ?c = "unat (backupCnt s)" and ?k = "min (n - unat (backupCnt s)) (unat len)"
  have pend: "length (h4_pend s) = ?c" "h4_pend s \<noteq> []"
    using cap len by (auto simp: h4_pend_length)
  obtain p where p: "h4_param_len type (h4_pend s) = Some p" "n = h4_head_len type + unat p"
      and hl: "h4_head_len type \<le> ?c"
    using len pend type by (auto simp: h4_len_def split: list.splits if_splits)
  have "h4_param_len type (pBackUpBuf s) = Some p"
    using p(1) h4_param_len_take [OF hl, of "pBackUpBuf s"] cap by (simp add: h4_pend_def h4_cap_def)
  moreover have cpy: "unat (of_nat (h4_head_len type) + p - ucast (backupCnt s) :: u16) = n - ?c"
  proof -
    have sum: "unat (of_nat (h4_head_len type) + p :: u16) = n"
      using p(2) n(2) cap h4_head_len_bounds [of type]
      by (simp add: unat_word_ariths unat_of_nat h4_cap_def)
    have "unat (ucast (backupCnt s) :: u16) = ?c"
      using unat_bound(1) [of "backupCnt s"] by (simp add: unsigned_ucast_eq take_bit_nat_eq_self)
    then show ?thesis
      using n(1) sum by (simp add: unat_sub word_le_nat_alt)
  qed
  have k: "unat (min (ucast (of_nat (h4_head_len type) + p - ucast (backupCnt s) :: u16)) len :: u32) = ?k"
    using unat_bound(2) [of "of_nat (h4_head_len type) + p - ucast (backupCnt s)"]
    by (simp add: min_def word_le_nat_alt cpy unsigned_ucast_eq take_bit_nat_eq_self)
  have dlen: "length data = unat len"
    by (rule get_bytes_length [OF data])
  have taken: "get_bytes pPacket 0 ?k = Some (take ?k data)"
    using data by (auto simp: get_bytes_def min_def split: if_splits)
  have fits: "?c + ?k \<le> lim"
    using n by simp
  obtain s1 where s1: "h4_append pPacket ?k s = Some s1" "h4_pend s1 = h4_pend s @ take ?k data"
    "h4_cap lim s1" "h4_frame s s1" "pHciRxFifo s1 = pHciRxFifo s" "unat (backupCnt s1) = ?c + ?k"
    by (rule h4_append_spec [OF cap taken fits])
  ultimately have fill: "h4_fill now type pPacket len s =
      map_option (Pair (of_nat ?k)) (h4_complete now n s1)"
    by (cases "h4_complete now n s1")
      (simp_all add: h4_fill_def Let_def k p(2) [symmetric] word_unat_eq_iff unat_of_nat flip: k)
  show ?thesis
  proof (cases "n \<le> ?c + unat len")
    case True
    then have "unat (backupCnt s1) = n"
      using s1(6) n(1) by simp
    then obtain s2 where s2: "h4_complete now n s1 = Some s2"
      "h4_gives [h4_pend s1] (pHciRxFifo s1) (pHciRxFifo s2)" "backupCnt s2 = 0" "h4_cap lim s2"
      "h4_frame s1 s2"
      using h4_complete_spec [OF s1(3)] room s1(5) by metis
    have "\<not> h4_partial (h4_pend s @ data)"
      using True h4_len_append [OF len, of data] pend(1) dlen by (auto simp: h4_partial_def)
    then show ?thesis
      unfolding h4_backup_spec_def fill s2(1)
      using True s1 s2 h4_frame_trans [OF s1(4) s2(5)] h4_len_append [OF len, of data] pend(1) dlen n
      by (intro exI [of _ ?k] exI [of _ s2]) (auto simp: h4_pend_def)
  next
    case False
    then have "h4_complete now n s1 = Some (HCI_Tr_H4TimerEnable now s1)"
      using s1(6) by (intro h4_complete_no) simp
    moreover have "h4_partial (h4_pend s @ data)"
      using False h4_len_append [OF len, of data] pend(1) dlen by (auto simp: h4_partial_def)
    ultimately show ?thesis
      unfolding h4_backup_spec_def fill
      using False s1 pend(1) dlen n
      by (intro exI [of _ ?k] exI [of _ "HCI_Tr_H4TimerEnable now s1"]) auto
  qed
qed

lemma h4_len_header:
  assumes "h4_head_len (hd xs) \<le> length xs" and "xs \<noteq> []"
  obtains n where "h4_len xs = Some n" and "h4_head_len (hd xs) \<le> n"
proof -
  obtain t zs where xs: "xs = t # zs"
    using assms(2) by (cases xs) auto
  obtain p where "h4_param_len t xs = Some p"
    using assms(1) by (auto simp: xs h4_param_len_def h4_head_len_def get_byte_def split: if_splits)
  then show ?thesis
    using assms(1) that [of "h4_head_len t + unat p"] by (simp add: h4_len_def xs)
qed

lemma h4_len_short: "xs \<noteq> [] \<Longrightarrow> length xs < h4_head_len (hd xs) \<Longrightarrow> h4_len xs = None"
  by (cases xs) (simp_all add: h4_len_def)

lemma h4_backup_packet_spec:
  assumes cap: "h4_cap lim s" and ne: "h4_pend s \<noteq> []" and part: "h4_partial (h4_pend s)"
    and ok: "h4_ok lim (h4_pend s @ data)"
    and type: "type = hd (h4_pend s)" and data: "get_bytes pPacket 0 (unat len) = Some data"
    and small: "unat len < 65536"
    and room: "fifo_count (pHciRxFifo s) < unat (fnum (pHciRxFifo s))"
  shows "h4_backup_spec lim data s (h4_backup_packet now type pPacket len s)"
proof -
  let ?c = "unat (backupCnt s)" and ?h = "h4_head_len type"
  have pend: "length (h4_pend s) = ?c"
    by (rule h4_pend_length [OF cap])
  have c: "?c \<le> lim" "lim \<le> 255" "5 \<le> lim"
    using cap by (simp_all add: h4_cap_def)
  have dlen: "length data = unat len"
    by (rule get_bytes_length [OF data])
  have type': "type = hd (h4_pend s @ data)"
    using type ne by simp
  note h = h4_head_len_bounds [of type]
  have sum: "unat (ucast (backupCnt s) + len :: u32) = ?c + unat len"
    using small c unat_bound(1) [of "backupCnt s"]
    by (simp add: unat_word_ariths unsigned_ucast_eq take_bit_nat_eq_self)
  have hle: "(of_nat ?h :: u32) \<le> ucast (backupCnt s) + len \<longleftrightarrow> ?h \<le> ?c + unat len"
    using h by (simp add: word_le_nat_alt sum unat_of_nat)
  consider (full) "?h \<le> ?c" | (fill) "\<not> ?h \<le> ?c" "?h \<le> ?c + unat len"
    | (short) "\<not> ?h \<le> ?c" "\<not> ?h \<le> ?c + unat len"
    by blast
  then show ?thesis
  proof cases
    case full
    then obtain n where n: "h4_len (h4_pend s) = Some n"
      using h4_len_header [of "h4_pend s"] ne type pend by auto
    have "n \<le> lim"
      by (rule h4_ok_first(1) [OF ok h4_len_append [OF n]])
    moreover have "?c \<le> n"
      using part n pend by (simp add: h4_partial_def)
    ultimately have "h4_backup_spec lim data s (h4_fill now type pPacket len s)"
      using cap n type data room by (intro h4_fill_spec)
    then show ?thesis
      using full by (simp add: h4_backup_packet_def Let_def)
  next
    case short
    have none: "h4_len (h4_pend s @ data) = None"
      using short(2) ne pend dlen type' by (intro h4_len_short) simp_all
    have "?c + unat len \<le> lim"
      using short(2) h(2) c(3) by simp
    then obtain s1 where s1: "h4_append pPacket (unat len) s = Some s1" "h4_pend s1 = h4_pend s @ data"
      "h4_cap lim s1" "h4_frame s s1" "pHciRxFifo s1 = pHciRxFifo s"
      by (rule h4_append_spec [OF cap data])
    have "h4_backup_packet now type pPacket len s = Some (len, HCI_Tr_H4TimerEnable now s1)"
      using short hle s1(1) by (simp add: h4_backup_packet_def Let_def)
    then show ?thesis
      using s1 none dlen short h(2) c(3)
      by (simp add: h4_backup_specI_keep h4_partial_def)
  next
    case fill
    have c1: "unat (of_nat ?h - ucast (backupCnt s) :: u16) = ?h - ?c"
    proof -
      have "unat (ucast (backupCnt s) :: u16) = ?c" "unat (of_nat ?h :: u16) = ?h"
        using unat_bound(1) [of "backupCnt s"] h
        by (simp_all add: unsigned_ucast_eq take_bit_nat_eq_self unat_of_nat)
      then show ?thesis
        using fill(1) by (simp add: unat_sub word_le_nat_alt)
    qed
    let ?k = "?h - ?c"
    have take: "get_bytes pPacket 0 ?k = Some (take ?k data)"
      using data fill(2) by (auto simp: get_bytes_def min_def split: if_splits)
    have "?c + ?k \<le> lim"
      using fill(1) h(2) c by simp
    then obtain s1 where s1: "h4_append pPacket ?k s = Some s1" "h4_pend s1 = h4_pend s @ take ?k data"
      "h4_cap lim s1" "h4_frame s s1" "pHciRxFifo s1 = pHciRxFifo s" "unat (backupCnt s1) = ?c + ?k"
      by (rule h4_append_spec [OF cap take])
    have hd1: "type = hd (h4_pend s1)" "h4_pend s1 \<noteq> []"
      using s1(2) ne type by simp_all
    have cnt1: "unat (backupCnt s1) = ?h"
      using s1(6) fill(1) by simp
    have "h4_head_len (hd (h4_pend s1)) \<le> length (h4_pend s1)"
      using hd1 cnt1 h4_pend_length [OF s1(3)] by simp
    then obtain n where n: "h4_len (h4_pend s1) = Some n" "?h \<le> n"
      using h4_len_header [of "h4_pend s1"] hd1 by metis
    have split: "h4_pend s1 @ drop ?k data = h4_pend s @ data"
      by (simp add: s1(2))
    have lim: "n \<le> lim"
      using h4_ok_first(1) [OF ok] h4_len_append [OF n(1), of "drop ?k data"] split by simp
    let ?len = "len - ucast (of_nat ?h - ucast (backupCnt s) :: u16)"
    have len1: "unat ?len = unat len - ?k"
    proof -
      have "unat (ucast (of_nat ?h - ucast (backupCnt s) :: u16) :: u32) = ?k"
        using c1 h by (simp add: unsigned_ucast_eq take_bit_nat_eq_self)
      then show ?thesis
        using fill by (simp add: unat_sub word_le_nat_alt)
    qed
    have data1: "get_bytes (drop ?k pPacket) 0 (unat ?len) = Some (drop ?k data)"
      using data fill(2) by (auto simp: get_bytes_def len1 drop_take split: if_splits)
    have room1: "fifo_count (pHciRxFifo s1) < unat (fnum (pHciRxFifo s1))"
      using room s1(5) by simp
    have "h4_backup_spec lim (drop ?k data) s1 (h4_fill now type (drop ?k pPacket) ?len s1)"
      using n(2) cnt1 by (intro h4_fill_spec [OF s1(3) n(1) _ lim hd1(1) data1 room1]) simp
    then obtain j s2 where r: "h4_fill now type (drop ?k pPacket) ?len s1 = Some (of_nat j, s2)"
      "j \<le> length (drop ?k data)" "j \<le> lim" "h4_cap lim s2" "h4_frame s1 s2"
      and res: "if h4_partial (h4_pend s @ data)
         then j = length (drop ?k data) \<and> h4_pend s2 = h4_pend s @ data \<and> pHciRxFifo s2 = pHciRxFifo s
         else h4_len (h4_pend s @ data) = Some (length (h4_pend s1) + j) \<and> h4_pend s2 = [] \<and>
              h4_gives [h4_pend s1 @ take j (drop ?k data)] (pHciRxFifo s) (pHciRxFifo s2)"
      unfolding h4_backup_spec_def split s1(5) by blast
    have total: "?k + j \<le> length data" "length (h4_pend s1) = ?h"
      using r(2) fill dlen h4_pend_length [OF s1(3)] cnt1 by simp_all
    have kj: "?k + j \<le> lim"
    proof (cases "h4_partial (h4_pend s @ data)")
      case True
      then show ?thesis
        using h4_partial_short [OF ok True c(3)] total(1) by simp
    next
      case False
      then show ?thesis
        using res h4_ok_first(1) [OF ok] total(2) by fastforce
    qed
    have ret: "(ucast (of_nat ?h - ucast (backupCnt s) + ucast (of_nat j :: u32) :: u16) :: u32) = of_nat (?k + j)"
    proof -
      have "j < 65536" "?k + j < 65536"
        using kj c(2) by simp_all
      then show ?thesis
        by (simp add: word_unat_eq_iff unsigned_ucast_eq unat_word_ariths unat_of_nat c1
            take_bit_nat_eq_self mod_simps)
    qed
    have "h4_backup_packet now type pPacket len s = Some (of_nat (?k + j), s2)"
      using fill hle s1(1) r(1) unfolding h4_backup_packet_def Let_def c1 ret [symmetric] by simp
    moreover have "take (?k + j) data = take ?k data @ take j (drop ?k data)"
      by (rule take_add)
    ultimately show ?thesis
      unfolding h4_backup_spec_def
      using res r(4) h4_frame_trans [OF s1(4) r(5)] total kj fill pend s1(2) dlen
      by (intro exI [of _ "?k + j"] exI [of _ s2]) (auto split: if_splits)
  qed
qed

lemma HCI_Tr_H4BackUpHandler_spec:
  assumes cap: "h4_cap lim s" and part: "h4_partial (h4_pend s)" and ok: "h4_ok lim (h4_pend s @ data)"
    and data: "get_bytes pPacket 0 (unat len) = Some data" and small: "unat len < 65536"
    and room: "h4_pend s \<noteq> [] \<Longrightarrow> fifo_count (pHciRxFifo s) < unat (fnum (pHciRxFifo s))"
    and whole: "h4_pend s = [] \<Longrightarrow> h4_partial data"
  shows "h4_backup_spec lim data s (HCI_Tr_H4BackUpHandler now pPacket len s)"
proof (cases "h4_pend s = []")
  case False
  then have cnt: "backupCnt s \<noteq> 0"
    by (auto simp: h4_pend_def)
  have "0 < length (pBackUpBuf s)"
    using cap unfolding h4_cap_def by linarith
  then have hd: "get_byte (pBackUpBuf s) 0 = Some (hd (h4_pend s))"
    using False by (auto simp: get_byte_def h4_pend_def hd_conv_nth)
  have "h4_type_ok (hd (h4_pend s))"
    using ok False by (cases "h4_pend s") (auto dest: h4_ok_type)
  then have "HCI_Tr_H4BackUpHandler now pPacket len s = h4_backup_packet now (hd (h4_pend s)) pPacket len s"
    using cnt hd by (auto simp: HCI_Tr_H4BackUpHandler_def h4_type_ok_def)
  then show ?thesis
    using h4_backup_packet_spec [OF cap False part ok refl data small room [OF False]] by simp
next
  case True
  have cnt: "backupCnt s = 0"
    using True cap by (auto simp: h4_pend_def h4_cap_def word_unat_eq_iff)
  have dlen: "length data = unat len"
    by (rule get_bytes_length [OF data])
  have short: "length data < lim"
    using True ok cap h4_partial_short [of lim data] whole by (simp add: h4_cap_def)
  have lim: "lim \<le> 255" "lim \<le> length (pBackUpBuf s)"
    using cap by (simp_all add: h4_cap_def)
  let ?s = "s\<lparr>pBackUpBuf := data @ drop (length data) (pBackUpBuf s), backupCnt := ucast len\<rparr>"
  have c: "unat (ucast len :: u8) = length data"
    using short lim dlen by (simp add: unsigned_ucast_eq take_bit_nat_eq_self)
  have "put_bytes (pBackUpBuf s) 0 data = Some (data @ drop (length data) (pBackUpBuf s))"
    using short lim by (simp add: put_bytes_def)
  then have r: "HCI_Tr_H4BackUpHandler now pPacket len s = Some (len, HCI_Tr_H4TimerEnable now ?s)"
    using data cnt by (simp add: HCI_Tr_H4BackUpHandler_def)
  have keep: "h4_pend ?s = h4_pend s @ data" "h4_cap lim ?s" "h4_frame s ?s"
    using short lim cap True by (simp_all add: h4_pend_def h4_cap_def h4_frame_def c)
  show ?thesis
    unfolding r using keep short dlen True whole
    by (intro h4_backup_specI_keep) simp_all
qed

section \<open>The receive loop\<close>

text \<open>The part of the loop behind the backup buffer.\<close>

definition h4_rx_switch :: "u32 \<Rightarrow> u8 list \<Rightarrow> u32 \<Rightarrow> h4_tr \<Rightarrow> h4_tr option" where
  "h4_rx_switch now pPacket len s =
     Option.bind (get_byte pPacket 0) (\<lambda>hciType.
       if hciType = HCI_TR_TYPE_CMD \<or> hciType = HCI_TR_TYPE_ACL then
         (if len < of_nat (h4_head_len hciType) then
            map_option snd (HCI_Tr_H4BackUpHandler now pPacket len s)
          else
            Option.bind (h4_param_len hciType pPacket) (\<lambda>paramLen.
              let pktLen = (of_nat (h4_head_len hciType) + paramLen :: u16) in
              if pktLen = 0 then h4_rx_loop now pPacket len s
              else if ucast pktLen \<le> len then
                Option.bind (get_bytes pPacket 0 (unat pktLen)) (\<lambda>xs.
                  Option.bind (h4_push (pHciRxFifo s) xs) (\<lambda>f.
                    h4_rx_loop now (drop (unat pktLen) pPacket) (len - ucast pktLen)
                      (s\<lparr>pHciRxFifo := f\<rparr>)))
              else map_option snd (HCI_Tr_H4BackUpHandler now pPacket len s)))
       else if hciType = HCI_TR_TYPE_EVENT then
         (if len < of_nat (1 + HCI_EVT_HEAD_LEN) then Some s
          else
            Option.bind (get_byte pPacket 2) (\<lambda>paramLen.
              h4_rx_loop now pPacket (len - (of_nat (1 + HCI_EVT_HEAD_LEN) + ucast paramLen)) s))
       else if hciType = HCI_TR_TYPE_SCO then
         (if len < of_nat (1 + HCI_SCO_HEAD_LEN) then Some s
          else
            Option.bind (get_byte pPacket 3) (\<lambda>paramLen.
              h4_rx_loop now pPacket (len - (of_nat (1 + HCI_SCO_HEAD_LEN) + ucast paramLen)) s))
       else Some s)"

lemma h4_rx_loop_0 [simp]: "h4_rx_loop now pPacket 0 s = Some s"
  by (subst h4_rx_loop.simps) simp

lemma h4_rx_loop_direct:
  "len \<noteq> 0 \<Longrightarrow> backupCnt s = 0 \<Longrightarrow> h4_rx_loop now pPacket len s = h4_rx_switch now pPacket len s"
  by (subst h4_rx_loop.simps) (simp add: h4_rx_switch_def)

lemma h4_rx_loop_backup:
  assumes "len \<noteq> 0" and "backupCnt s \<noteq> 0"
    and "HCI_Tr_H4BackUpHandler now pPacket len s = Some (res, s')"
  shows "h4_rx_loop now pPacket len s =
     h4_rx_switch now (drop (unat (ucast res :: u8)) pPacket) (len - ucast (ucast res :: u8)) s'"
  using assms by (subst h4_rx_loop.simps) (simp add: h4_rx_switch_def)

text \<open>When the data is used up, the loop still looks at the next byte of the memory, without
  effect on the stream.\<close>

lemma h4_rx_switch_end:
  assumes cap: "h4_cap lim s" and part: "h4_partial (h4_pend s)" and ok: "h4_ok lim (h4_pend s)"
    and mem: "pPacket \<noteq> []"
    and room: "h4_pend s \<noteq> [] \<Longrightarrow> fifo_count (pHciRxFifo s) < unat (fnum (pHciRxFifo s))"
  obtains s' where "h4_rx_switch now pPacket 0 s = Some s'" and "h4_pend s' = h4_pend s"
    and "pHciRxFifo s' = pHciRxFifo s" and "h4_cap lim s'" and "h4_frame s s'"
proof -
  have byte: "get_byte pPacket 0 = Some (hd pPacket)"
    using mem by (simp add: get_byte_def hd_conv_nth)
  have "get_bytes pPacket 0 (unat (0 :: u32)) = Some []"
    by (simp add: get_bytes_def)
  moreover have "h4_partial []"
    by (simp add: h4_partial_def)
  ultimately have "h4_backup_spec lim [] s (HCI_Tr_H4BackUpHandler now pPacket 0 s)"
    using cap part ok room by (intro HCI_Tr_H4BackUpHandler_spec) simp_all
  then obtain k s1 where s1: "HCI_Tr_H4BackUpHandler now pPacket 0 s = Some (k, s1)"
    "h4_pend s1 = h4_pend s" "pHciRxFifo s1 = pHciRxFifo s" "h4_cap lim s1" "h4_frame s s1"
    using part by (auto simp: h4_backup_spec_def)
  have frame: "h4_frame s s"
    by (simp add: h4_frame_def)
  have pos: "(0 :: u32) < of_nat (h4_head_len t)" for t
    using h4_head_len_bounds [of t] by (simp add: word_less_nat_alt unat_of_nat)
  show ?thesis
  proof (cases "hd pPacket = HCI_TR_TYPE_CMD \<or> hd pPacket = HCI_TR_TYPE_ACL")
    case True
    then have "h4_rx_switch now pPacket 0 s = Some s1"
      using byte s1(1) pos by (simp add: h4_rx_switch_def)
    then show ?thesis
      using that s1 by blast
  next
    case False
    then have "h4_rx_switch now pPacket 0 s = Some s"
      using byte by (simp add: h4_rx_switch_def)
    then show ?thesis
      using that cap frame by blast
  qed
qed

text \<open>The outcome of the loop for the bytes \<open>data\<close>.\<close>

definition h4_loop_spec :: "nat \<Rightarrow> u8 list \<Rightarrow> h4_tr \<Rightarrow> h4_tr option \<Rightarrow> bool" where
  "h4_loop_spec lim xs s r \<longleftrightarrow>
     (\<exists>s'. r = Some s' \<and> h4_pend s' = snd (h4_parse xs) \<and>
        h4_gives (fst (h4_parse xs)) (pHciRxFifo s) (pHciRxFifo s') \<and> h4_cap lim s' \<and> h4_frame s s')"

definition h4_room :: "h4_tr \<Rightarrow> u8 list \<Rightarrow> bool" where
  "h4_room s xs \<longleftrightarrow>
     fifo_count (pHciRxFifo s) + length (fst (h4_parse xs)) \<le> unat (fnum (pHciRxFifo s)) \<and>
     (h4_pend s \<noteq> [] \<longrightarrow> fifo_count (pHciRxFifo s) < unat (fnum (pHciRxFifo s)))"

lemma h4_partial_parse: "h4_partial xs \<longleftrightarrow> fst (h4_parse xs) = []"
proof
  assume nil: "fst (h4_parse xs) = []"
  show "h4_partial xs"
  proof (rule ccontr)
    assume "\<not> h4_partial xs"
    then obtain n where "h4_len xs = Some n" "n \<le> length xs"
      by (auto simp: h4_partial_def not_less)
    with nil show False
      by (simp add: h4_parse_first)
  qed
qed (simp add: h4_parse_partial)

lemma h4_get_drop:
  assumes "get_bytes pPacket 0 n = Some data" and "k \<le> n"
  shows "get_bytes (drop k pPacket) 0 (n - k) = Some (drop k data)"
  using assms by (auto simp: get_bytes_def drop_take split: if_splits)

text \<open>The switch on fresh data, for a loop that meets its specification on less data.\<close>

lemma h4_rx_switch_data:
  assumes cap: "h4_cap lim s" and nil: "h4_pend s = []" and ok: "h4_ok lim data"
    and data: "get_bytes pPacket 0 (unat len) = Some data" and small: "unat len < 65536"
    and mem: "unat len < length pPacket" and pos: "len \<noteq> 0"
    and room: "fifo_count (pHciRxFifo s) + length (fst (h4_parse data)) \<le> unat (fnum (pHciRxFifo s))"
    and IH: "\<And>pPacket' len' s' data'. length data' < length data \<Longrightarrow> h4_cap lim s' \<Longrightarrow> h4_pend s' = [] \<Longrightarrow>
      h4_ok lim data' \<Longrightarrow> get_bytes pPacket' 0 (unat len') = Some data' \<Longrightarrow> unat len' < 65536 \<Longrightarrow>
      unat len' < length pPacket' \<Longrightarrow>
      fifo_count (pHciRxFifo s') + length (fst (h4_parse data')) \<le> unat (fnum (pHciRxFifo s')) \<Longrightarrow>
      h4_loop_spec lim data' s' (h4_rx_loop now pPacket' len' s')"
  shows "h4_loop_spec lim data s (h4_rx_switch now pPacket len s)"
proof -
  have dlen: "length data = unat len"
    by (rule get_bytes_length [OF data])
  have pre: "take (unat len) pPacket = data"
    using data by (simp add: get_bytes_def split: if_splits)
  have ne: "data \<noteq> []"
    using dlen pos by (auto simp: word_unat_eq_iff)
  let ?t = "hd data"
  have type: "h4_type_ok ?t"
    using ok ne by (cases data) (auto dest: h4_ok_type)
  have byte: "get_byte pPacket 0 = Some ?t"
    using ne pre mem by (cases pPacket) (auto simp: get_byte_def take_Cons split: nat.splits)
  have inv: "fifo_inv (pHciRxFifo s)" and lim: "lim \<le> 255" "5 \<le> lim"
    using cap by (simp_all add: h4_cap_def)
  have nopart: "h4_partial []"
    by (simp add: h4_partial_def)
  have backup: "h4_loop_spec lim data s (map_option snd (HCI_Tr_H4BackUpHandler now pPacket len s))"
    if part: "h4_partial data"
  proof -
    have "h4_backup_spec lim data s (HCI_Tr_H4BackUpHandler now pPacket len s)"
      using cap nil ok data small part nopart by (intro HCI_Tr_H4BackUpHandler_spec) simp_all
    then show ?thesis
      using part inv nil
      by (auto simp: h4_backup_spec_def h4_loop_spec_def h4_parse_partial h4_gives_Nil)
  qed
  have hlt: "len < of_nat (h4_head_len ?t) \<longleftrightarrow> length data < h4_head_len ?t"
    using h4_head_len_bounds [of ?t] by (simp add: word_less_nat_alt dlen unat_of_nat)
  show ?thesis
  proof (cases "length data < h4_head_len ?t")
    case True
    then have "h4_partial data"
      using h4_len_short [OF ne] by (simp add: h4_partial_def)
    moreover have "h4_rx_switch now pPacket len s = map_option snd (HCI_Tr_H4BackUpHandler now pPacket len s)"
      using byte type hlt True by (auto simp: h4_rx_switch_def h4_type_ok_def)
    ultimately show ?thesis
      using backup by simp
  next
    case False
    obtain p where p: "h4_param_len ?t data = Some p" "h4_len data = Some (h4_head_len ?t + unat p)"
    proof -
      obtain n where "h4_len data = Some n"
        using h4_len_header [of data] False ne by auto
      with False ne that show ?thesis
        by (cases data) (auto simp: h4_len_def)
    qed
    let ?n = "h4_head_len ?t + unat p"
    have nlim: "?n \<le> lim"
      by (rule h4_ok_first(1) [OF ok p(2)])
    have param: "h4_param_len ?t pPacket = Some p"
      using h4_param_len_take [of ?t "unat len" pPacket] False dlen mem p(1) by (simp add: pre)
    have n: "unat (of_nat (h4_head_len ?t) + p :: u16) = ?n"
      using nlim lim h4_head_len_bounds [of ?t] by (simp add: unat_word_ariths unat_of_nat)
    have n0: "of_nat (h4_head_len ?t) + p \<noteq> (0 :: u16)"
      using n h4_head_len_bounds [of ?t] by (metis unat_0 add_is_0 not_numeral_le_zero)
    have n32: "unat (ucast (of_nat (h4_head_len ?t) + p :: u16) :: u32) = ?n"
      using nlim lim by (simp add: unsigned_ucast_eq n take_bit_nat_eq_self)
    have nle: "ucast (of_nat (h4_head_len ?t) + p :: u16) \<le> len \<longleftrightarrow> ?n \<le> length data"
      by (simp add: word_le_nat_alt n32 dlen)
    have sw: "h4_rx_switch now pPacket len s =
        (if ?n \<le> length data then
           Option.bind (get_bytes pPacket 0 ?n) (\<lambda>xs. Option.bind (h4_push (pHciRxFifo s) xs) (\<lambda>f.
             h4_rx_loop now (drop ?n pPacket) (len - ucast (of_nat (h4_head_len ?t) + p :: u16))
               (s\<lparr>pHciRxFifo := f\<rparr>)))
         else map_option snd (HCI_Tr_H4BackUpHandler now pPacket len s))"
      unfolding h4_rx_switch_def byte bind.bind_lunit hlt param Let_def n nle
      using type False n0 by (auto simp: h4_type_ok_def)
    show ?thesis
    proof (cases "?n \<le> length data")
      case no: False
      then have "h4_partial data"
        using p(2) by (simp add: h4_partial_def)
      then show ?thesis
        using backup no by (simp add: sw)
    next
      case yes: True
      have parse: "h4_parse data = (take ?n data # fst (h4_parse (drop ?n data)), snd (h4_parse (drop ?n data)))"
        by (rule h4_parse_first [OF p(2) yes])
      have bytes: "get_bytes pPacket 0 ?n = Some (take ?n data)"
        using yes dlen mem by (simp add: get_bytes_def pre [symmetric] min_def)
      have cnt: "fifo_count (pHciRxFifo s) < unat (fnum (pHciRxFifo s))"
        using room by (simp add: parse)
      have fit: "length (take ?n data) \<le> unat (fsize (pHciRxFifo s))"
        using nlim cap yes by (simp add: h4_cap_def)
      obtain f where f: "h4_push (pHciRxFifo s) (take ?n data) = Some f" "h4_gives [take ?n data] (pHciRxFifo s) f"
        "fsize f = fsize (pHciRxFifo s)" "fnum f = fnum (pHciRxFifo s)"
        by (rule h4_push_gives [OF inv cnt fit])
      let ?s = "s\<lparr>pHciRxFifo := f\<rparr>" and ?len = "len - ucast (of_nat (h4_head_len ?t) + p :: u16)"
      have len': "unat ?len = unat len - ?n"
        using yes dlen by (simp add: unat_sub word_le_nat_alt n32)
      have "h4_loop_spec lim (drop ?n data) ?s (h4_rx_loop now (drop ?n pPacket) ?len ?s)"
      proof (rule IH)
        show "length (drop ?n data) < length data"
          using ne h4_head_len_bounds [of ?t] yes by simp
        show "h4_cap lim ?s" "h4_pend ?s = []"
          using cap f nil by (simp_all add: h4_cap_def h4_gives_def h4_pend_def)
        show "h4_ok lim (drop ?n data)"
          by (rule h4_ok_first(2) [OF ok p(2) yes])
        show "get_bytes (drop ?n pPacket) 0 (unat ?len) = Some (drop ?n data)"
          unfolding len' by (rule h4_get_drop [OF data]) (use yes dlen in simp)
        show "fifo_count (pHciRxFifo ?s) + length (fst (h4_parse (drop ?n data))) \<le> unat (fnum (pHciRxFifo ?s))"
          using room h4_gives_count [OF f(2)] by (simp add: parse f(4))
      qed (use small len' mem yes dlen in simp_all)
      then show ?thesis
        using yes f bytes h4_gives_append [OF f(2)] unfolding sw
        by (fastforce simp: h4_loop_spec_def parse h4_frame_def)
    qed
  qed
qed

lemma h4_pend_Nil: "h4_cap lim s \<Longrightarrow> h4_pend s = [] \<longleftrightarrow> backupCnt s = 0"
  using h4_pend_length [of lim s] by (auto simp: word_unat_eq_iff)

lemma h4_rx_loop_fresh:
  assumes "h4_cap lim s" and "h4_pend s = []" and "h4_ok lim data"
    and "get_bytes pPacket 0 (unat len) = Some data" and "unat len < 65536" and "unat len < length pPacket"
    and "fifo_count (pHciRxFifo s) + length (fst (h4_parse data)) \<le> unat (fnum (pHciRxFifo s))"
  shows "h4_loop_spec lim data s (h4_rx_loop now pPacket len s)"
  using assms
proof (induction "length data" arbitrary: pPacket len s data rule: less_induct)
  case less
  show ?case
  proof (cases "len = 0")
    case True
    then have "data = []"
      using get_bytes_length [OF less.prems(4)] by simp
    moreover have "h4_partial []"
      by (simp add: h4_partial_def)
    ultimately show ?thesis
      using True less.prems(1,2)
      by (auto simp: h4_loop_spec_def h4_parse_partial h4_cap_def h4_frame_def intro: h4_gives_Nil)
  next
    case False
    have "h4_loop_spec lim data s (h4_rx_switch now pPacket len s)"
      by (rule h4_rx_switch_data [OF less.prems(1-6) False less.prems(7)]) (rule less.hyps)
    then show ?thesis
      using h4_rx_loop_direct [OF False] h4_pend_Nil [OF less.prems(1)] less.prems(2) by simp
  qed
qed

lemma h4_loop_spec_after:
  assumes "h4_loop_spec lim xs s1 r" and "h4_frame s s1"
    and "h4_gives ps (pHciRxFifo s) (pHciRxFifo s1)"
    and "fst (h4_parse ys) = ps @ fst (h4_parse xs)" and "snd (h4_parse ys) = snd (h4_parse xs)"
  shows "h4_loop_spec lim ys s r"
  using assms h4_frame_trans h4_gives_append unfolding h4_loop_spec_def by fastforce

theorem h4_rx_loop_correct:
  assumes cap: "h4_cap lim s" and part: "h4_partial (h4_pend s)" and ok: "h4_ok lim (h4_pend s @ data)"
    and data: "get_bytes pPacket 0 (unat len) = Some data" and small: "unat len < 65536"
    and mem: "unat len < length pPacket" and room: "h4_room s (h4_pend s @ data)"
  shows "h4_loop_spec lim (h4_pend s @ data) s (h4_rx_loop now pPacket len s)"
proof (cases "h4_pend s = [] \<or> len = 0")
  case True
  have inv: "fifo_inv (pHciRxFifo s)"
    using cap by (simp add: h4_cap_def)
  show ?thesis
  proof (cases "len = 0")
    case True
    then have "data = []"
      using get_bytes_length [OF data] by simp
    then show ?thesis
      using True part cap h4_gives_Nil [OF inv]
      by (simp add: h4_loop_spec_def h4_parse_partial h4_frame_def)
  next
    case False
    then show ?thesis
      using True h4_rx_loop_fresh [OF cap _ _ data small mem] ok room by (simp add: h4_room_def)
  qed
next
  case False
  then have ne: "h4_pend s \<noteq> []" and pos: "len \<noteq> 0"
    by simp_all
  have dlen: "length data = unat len"
    by (rule get_bytes_length [OF data])
  have space: "fifo_count (pHciRxFifo s) < unat (fnum (pHciRxFifo s))"
    using room ne by (simp add: h4_room_def)
  have lim: "lim \<le> 255" "5 \<le> lim"
    using cap by (simp_all add: h4_cap_def)
  have "h4_backup_spec lim data s (HCI_Tr_H4BackUpHandler now pPacket len s)"
    using ne space by (intro HCI_Tr_H4BackUpHandler_spec [OF cap part ok data small]) simp_all
  then obtain k s1 where s1: "HCI_Tr_H4BackUpHandler now pPacket len s = Some (of_nat k, s1)"
      "k \<le> length data" "k \<le> lim" "h4_cap lim s1" "h4_frame s s1"
    and res: "if h4_partial (h4_pend s @ data)
         then k = length data \<and> h4_pend s1 = h4_pend s @ data \<and> pHciRxFifo s1 = pHciRxFifo s
         else h4_len (h4_pend s @ data) = Some (length (h4_pend s) + k) \<and> h4_pend s1 = [] \<and>
              h4_gives [h4_pend s @ take k data] (pHciRxFifo s) (pHciRxFifo s1)"
    unfolding h4_backup_spec_def by blast
  have k8: "unat (ucast (of_nat k :: u32) :: u8) = k"
  proof -
    have u: "unat (of_nat k :: u32) = k"
      using s1(3) lim by (simp add: unat_of_nat)
    show ?thesis
      unfolding unsigned_ucast_eq u using s1(3) lim by (simp add: take_bit_nat_eq_self)
  qed
  have k32: "unat (ucast (ucast (of_nat k :: u32) :: u8) :: u32) = k"
    unfolding unsigned_ucast_eq [of "ucast (of_nat k :: u32) :: u8"] k8
    using s1(3) lim by (simp add: take_bit_nat_eq_self)
  let ?p = "drop k pPacket" and ?len = "len - ucast (ucast (of_nat k :: u32) :: u8)"
  have len': "unat ?len = unat len - k"
    using s1(2) dlen by (simp add: unat_sub word_le_nat_alt k32)
  have loop: "h4_rx_loop now pPacket len s = h4_rx_switch now ?p ?len s1"
    using h4_rx_loop_backup [OF pos _ s1(1)] ne h4_pend_Nil [OF cap] by (simp add: k8)
  have data': "get_bytes ?p 0 (unat ?len) = Some (drop k data)"
    unfolding len' by (rule h4_get_drop [OF data]) (use s1(2) dlen in simp)
  show ?thesis
  proof (cases "h4_partial (h4_pend s @ data)")
    case True
    then have r: "k = length data" "h4_pend s1 = h4_pend s @ data" "pHciRxFifo s1 = pHciRxFifo s"
      using res by simp_all
    then have "?len = 0"
      using len' dlen by (simp add: word_unat_eq_iff)
    moreover obtain s2 where "h4_rx_switch now ?p 0 s1 = Some s2" "h4_pend s2 = h4_pend s1"
      "pHciRxFifo s2 = pHciRxFifo s1" "h4_cap lim s2" "h4_frame s1 s2"
    proof (rule h4_rx_switch_end [OF s1(4)])
      show "?p \<noteq> []"
        using mem r(1) dlen by simp
      show "fifo_count (pHciRxFifo s1) < unat (fnum (pHciRxFifo s1))"
        using space r(3) by simp
    qed (use True ok r(2) in simp_all)
    ultimately show ?thesis
      using True r h4_frame_trans [OF s1(5)] cap loop
      by (auto simp: h4_loop_spec_def h4_parse_partial h4_cap_def intro: h4_gives_Nil)
  next
    case False
    then have r: "h4_len (h4_pend s @ data) = Some (length (h4_pend s) + k)" "h4_pend s1 = []"
        "h4_gives [h4_pend s @ take k data] (pHciRxFifo s) (pHciRxFifo s1)"
      using res by simp_all
    have parse: "h4_parse (h4_pend s @ data) =
        ((h4_pend s @ take k data) # fst (h4_parse (drop k data)), snd (h4_parse (drop k data)))"
      using h4_parse_first [OF r(1)] s1(2) by simp
    have ok': "h4_ok lim (drop k data)"
      using h4_ok_first(2) [OF ok r(1)] s1(2) by simp
    have mem': "unat ?len < length ?p" "unat ?len < 65536"
      using mem small len' s1(2) dlen by simp_all
    have room': "fifo_count (pHciRxFifo s1) + length (fst (h4_parse (drop k data))) \<le> unat (fnum (pHciRxFifo s1))"
      using room h4_gives_count [OF r(3)] s1(5) by (simp add: h4_room_def parse h4_frame_def)
    have "h4_loop_spec lim (drop k data) s1 (h4_rx_switch now ?p ?len s1)"
    proof (cases "?len = 0")
      case True
      then have "drop k data = []"
        using len' dlen s1(2) by (simp add: word_unat_eq_iff)
      moreover obtain s2 where "h4_rx_switch now ?p 0 s1 = Some s2" "h4_pend s2 = h4_pend s1"
        "pHciRxFifo s2 = pHciRxFifo s1" "h4_cap lim s2" "h4_frame s1 s2"
        by (rule h4_rx_switch_end [OF s1(4), of ?p now])
          (use r(2) mem' in \<open>auto simp: h4_partial_def h4_ok.simps\<close>)
      moreover have "h4_partial []"
        by (simp add: h4_partial_def)
      ultimately show ?thesis
        using True r(2) s1(4) by (auto simp: h4_loop_spec_def h4_parse_partial h4_cap_def intro: h4_gives_Nil)
    next
      case False
      show ?thesis
        by (rule h4_rx_switch_data [OF s1(4) r(2) ok' data' mem'(2,1) False room'])
          (rule h4_rx_loop_fresh)
    qed
    then show ?thesis
      unfolding loop using s1(5) r(3) by (rule h4_loop_spec_after) (simp_all add: parse)
  qed
qed

end
