(* ===== verification/H4_Theorems.thy ===== *)
theory H4_Theorems
  imports H4_Stream
begin

text \<open>
  The properties of the H4 transport: a stream that arrives in bursts of any size is delivered to
  the controller packet by packet; the defects of the receive loop and of the interrupt handler.
\<close>

section \<open>Bursts\<close>

text \<open>One burst: the DMA, its interrupt, the main loop's receive handler; and the controller taking
  a packet.\<close>

datatype h4_event = H4_Burst u32 "u8 list" | H4_Pop

definition h4_burst :: "u32 \<Rightarrow> u8 list \<Rightarrow> h4_tr \<Rightarrow> h4_tr option" where
  "h4_burst now xs s =
     do { s1 \<leftarrow> h4_dma xs s; s2 \<leftarrow> HCI_Tr_H4IRQHandler True False s1; HCI_Tr_H4RxHandler now s2 }"

definition h4_step :: "h4_event \<Rightarrow> h4_tr \<Rightarrow> h4_tr option" where
  "h4_step ev s =
     (case ev of
        H4_Burst now xs \<Rightarrow> h4_burst now xs s
      | H4_Pop \<Rightarrow> Some (s\<lparr>pHciRxFifo := fifo_pop (pHciRxFifo s)\<rparr>))"

text \<open>The receive ring is empty and the DMA stands at its write pointer.\<close>

definition h4_ring :: "h4_tr \<Rightarrow> bool" where
  "h4_ring s \<longleftrightarrow> fifo_wf (pRxFifo s) \<and> wptr (pRxFifo s) = rptr (pRxFifo s) \<and>
     rxDmaOff s = fifo_slot (pRxFifo s) (wptr (pRxFifo s))"

text \<open>A burst is not empty, fits its slot with its length in front and leaves one byte of it
  free, comes before the flush timer expires, and finds room in the controller's ring.\<close>

definition h4_env :: "h4_event \<Rightarrow> h4_tr \<Rightarrow> bool" where
  "h4_env ev s =
     (case ev of
        H4_Burst now xs \<Rightarrow>
          xs \<noteq> [] \<and> length xs + 5 \<le> unat (fsize (pRxFifo s)) \<and> HCI_Tr_H4FlushHandler now s = s \<and>
          h4_room s (h4_pend s @ xs)
      | H4_Pop \<Rightarrow> \<not> fifo_empty (pHciRxFifo s))"

definition h4_bytes :: "h4_event list \<Rightarrow> u8 list" where
  "h4_bytes evs = concat (map (\<lambda>ev. case ev of H4_Burst _ xs \<Rightarrow> xs | H4_Pop \<Rightarrow> []) evs)"

definition h4_pops :: "h4_event list \<Rightarrow> nat" where
  "h4_pops evs = length (filter (\<lambda>ev. ev = H4_Pop) evs)"

lemma h4_burst_spec:
  assumes cap: "h4_cap lim s" and part: "h4_partial (h4_pend s)" and ok: "h4_ok lim (h4_pend s @ xs)"
    and ring: "h4_ring s" and env: "h4_env (H4_Burst now xs) s"
  shows "\<exists>s'. h4_burst now xs s = Some s' \<and> h4_pend s' = snd (h4_parse (h4_pend s @ xs)) \<and>
     h4_gives (fst (h4_parse (h4_pend s @ xs))) (pHciRxFifo s) (pHciRxFifo s') \<and>
     h4_cap lim s' \<and> h4_ring s' \<and> fsize (pRxFifo s') = fsize (pRxFifo s)"
proof -
  let ?f = "pRxFifo s" and ?n = "length xs" and ?o = "fifo_slot (pRxFifo s) (wptr (pRxFifo s))"
  have wf: "fifo_wf ?f" and eq: "wptr ?f = rptr ?f" "rxDmaOff s = ?o"
    using ring by (simp_all add: h4_ring_def)
  have ne: "xs \<noteq> []" and fit: "?n + 5 \<le> unat (fsize ?f)" and flush: "HCI_Tr_H4FlushHandler now s = s"
    and room: "h4_room s (h4_pend s @ xs)"
    using env by (simp_all add: h4_env_def)
  have small: "?n < 65536"
    using fit wf by (simp add: fifo_wf_def word_less_nat_alt)
  have n32: "unat (of_nat ?n :: u32) = ?n"
    using small by (simp add: unat_of_nat)
  let ?hd = "UINT32_TO_BSTREAM (of_nat ?n) :: u8 list"
  have slot: "?o + unat (fsize ?f) \<le> length (fp ?f)"
    by (rule fifo_slot_fits [OF wf])
  let ?b = "take ?o (fp ?f) @ (?hd @ xs) @ drop (?o + 4 + ?n) (fp ?f)"
  let ?s1 = "s\<lparr>pRxFifo := ?f\<lparr>fp := ?b\<rparr>\<rparr>"
  have dma: "h4_dma xs s = Some ?s1"
    using slot fit by (simp add: h4_dma_def put_bytes_def eq(2) add.assoc)
  have off: "fifo_slot (?f\<lparr>fp := b\<rparr>) p = fifo_slot ?f p" "fifo_slot (?f\<lparr>fp := b, wptr := w\<rparr>) p = fifo_slot ?f p"
    "fifo_slot (?f\<lparr>fp := b, wptr := w, rptr := r\<rparr>) p = fifo_slot ?f p" for b w r p
    by (simp_all add: fifo_slot_def)
  have blen: "length ?b = length (fp ?f)"
    using slot fit by simp
  have hd: "get_bytes ?b ?o 4 = Some ?hd" "get_bytes (drop ?o ?b) 0 4 = Some ?hd"
    using slot fit by (simp_all add: get_bytes_def)
  have len: "BYTES_TO_UINT32 (?hd ! 0) (?hd ! 1) (?hd ! 2) (?hd ! 3) = of_nat ?n"
    by (rule uint32_stream_id)
  have nz: "(of_nat ?n :: u32) \<noteq> 0"
    using n32 ne by (metis length_0_conv unat_0)
  have pos: "0 < unat (fnum ?f)"
    by (rule fifo_wf_index(2) [OF wf])
  then have num: "uint (fnum ?f) \<noteq> 0"
    by (auto simp: uint_0_iff)
  let ?f2 = "?f\<lparr>fp := ?b, wptr := wptr ?f + 1\<rparr>"
  let ?s2 = "s\<lparr>pRxFifo := ?f2, rxDmaOff := fifo_slot ?f (wptr ?f + 1)\<rparr>"
  have irq: "HCI_Tr_H4IRQHandler True False ?s1 = Some ?s2"
    unfolding HCI_Tr_H4IRQHandler_def h4_irq_rx_def Let_def
    using num eq(1) hd(1) len nz by (simp add: off)
  have same: "h4_pend ?s2 = h4_pend s" "h4_cap lim ?s2 = h4_cap lim s" "h4_room ?s2 ys = h4_room s ys" for ys
    by (simp_all add: h4_pend_def h4_cap_def h4_room_def)
  have flush2: "HCI_Tr_H4FlushHandler now ?s2 = ?s2"
    using flush by (cases s) (auto simp: HCI_Tr_H4FlushHandler_def split: if_splits)
  have mem: "drop 4 (drop ?o ?b) = xs @ drop (?o + 4 + ?n) (fp ?f)"
    using slot fit by simp
  have data: "get_bytes (drop 4 (drop ?o ?b)) 0 (unat (of_nat ?n :: u32)) = Some xs"
    unfolding mem n32 by (simp add: get_bytes_def)
  have room4: "unat (of_nat ?n :: u32) < length (drop 4 (drop ?o ?b))"
    unfolding mem n32 using slot fit by simp
  have "h4_loop_spec lim (h4_pend ?s2 @ xs) ?s2 (h4_rx_loop now (drop 4 (drop ?o ?b)) (of_nat ?n) ?s2)"
    using cap part ok small n32 room by (intro h4_rx_loop_correct [OF _ _ _ data _ room4]) (simp_all only: same)
  then obtain s3 where s3: "h4_rx_loop now (drop 4 (drop ?o ?b)) (of_nat ?n) ?s2 = Some s3"
    "h4_pend s3 = snd (h4_parse (h4_pend s @ xs))"
    "h4_gives (fst (h4_parse (h4_pend s @ xs))) (pHciRxFifo s) (pHciRxFifo s3)"
    "h4_cap lim s3" "h4_frame ?s2 s3"
    unfolding h4_loop_spec_def same by auto
  let ?s4 = "s3\<lparr>pRxFifo := (pRxFifo s3)\<lparr>rptr := rptr (pRxFifo s3) + 1\<rparr>\<rparr>"
  have f3: "pRxFifo s3 = ?f2" "rxDmaOff s3 = fifo_slot ?f (wptr ?f + 1)"
    using s3(5) by (simp_all add: h4_frame_def)
  have rx: "HCI_Tr_H4RxHandler now ?s2 = Some ?s4"
    unfolding HCI_Tr_H4RxHandler_def flush2 Let_def
    using eq(1) hd(2) len s3(1) by (simp add: off)
  have "h4_ring ?s4"
    using f3 wf eq(1) blen by (simp add: h4_ring_def off fifo_wf_def)
  moreover have "h4_pend ?s4 = h4_pend s3" "h4_cap lim ?s4 = h4_cap lim s3"
    by (simp_all add: h4_pend_def h4_cap_def)
  ultimately show ?thesis
    using dma irq rx s3 f3 by (intro exI [of _ ?s4]) (simp add: h4_burst_def)
qed

lemma h4_step_simps [simp]:
  "h4_step (H4_Burst now xs) s = h4_burst now xs s"
  "h4_step H4_Pop s = Some (s\<lparr>pHciRxFifo := fifo_pop (pHciRxFifo s)\<rparr>)"
  "h4_env H4_Pop s = (\<not> fifo_empty (pHciRxFifo s))"
  by (simp_all add: h4_step_def h4_env_def)

lemma h4_bytes_simps [simp]:
  "h4_bytes [] = []" "h4_bytes (H4_Pop # evs) = h4_bytes evs"
  "h4_bytes (H4_Burst now xs # evs) = xs @ h4_bytes evs"
  "h4_pops [] = 0" "h4_pops (H4_Pop # evs) = Suc (h4_pops evs)"
  "h4_pops (H4_Burst now xs # evs) = h4_pops evs"
  by (simp_all add: h4_bytes_def h4_pops_def)

lemma h4_run_delivers:
  assumes "h4_cap lim s" and "h4_partial (h4_pend s)" and "h4_ring s"
    and "h4_ok lim (h4_pend s @ h4_bytes evs)" and "admissible h4_step h4_env evs s"
  shows "\<exists>s' new. run h4_step evs s = Some s' \<and>
     h4_pend s' = snd (h4_parse (h4_pend s @ h4_bytes evs)) \<and>
     list_all2 (\<lambda>p slot. take (length p) slot = p) (fst (h4_parse (h4_pend s @ h4_bytes evs))) new \<and>
     fifo_items (pHciRxFifo s') = drop (h4_pops evs) (fifo_items (pHciRxFifo s) @ new)"
  using assms
proof (induction evs arbitrary: s)
  case Nil
  then show ?case
    by (simp add: h4_bytes_def h4_pops_def h4_parse_partial)
next
  case (Cons ev evs)
  show ?case
  proof (cases ev)
    case H4_Pop
    let ?s = "s\<lparr>pHciRxFifo := fifo_pop (pHciRxFifo s)\<rparr>"
    have env: "\<not> fifo_empty (pHciRxFifo s)" and rest: "admissible h4_step h4_env evs ?s"
      using Cons.prems(5) by (simp_all add: H4_Pop)
    have inv: "fifo_inv (pHciRxFifo s)"
      using Cons.prems(1) by (simp add: h4_cap_def)
    note pop = fifo_pop_items [OF inv env]
    have bytes: "h4_bytes (ev # evs) = h4_bytes evs" "h4_pops (ev # evs) = Suc (h4_pops evs)"
      by (simp_all add: H4_Pop)
    have pend: "h4_pend ?s = h4_pend s"
      by (simp add: h4_pend_def)
    have cap: "h4_cap lim ?s"
      using Cons.prems(1) pop(1) by (simp add: h4_cap_def fifo_pop_def)
    have ring: "h4_ring ?s"
      using Cons.prems(3) by (simp add: h4_ring_def)
    obtain s' new where IH: "run h4_step evs ?s = Some s'"
      "h4_pend s' = snd (h4_parse (h4_pend s @ h4_bytes evs))"
      "list_all2 (\<lambda>p slot. take (length p) slot = p) (fst (h4_parse (h4_pend s @ h4_bytes evs))) new"
      "fifo_items (pHciRxFifo s') = drop (h4_pops evs) (tl (fifo_items (pHciRxFifo s)) @ new)"
      using Cons.IH [OF cap _ ring _ rest] Cons.prems(2,4) unfolding pend bytes
      by (auto simp: pop(2))
    have "fifo_items (pHciRxFifo s) \<noteq> []"
      using env by (metis fifo_empty_count fifo_items_length length_0_conv)
    then have "drop n (tl (fifo_items (pHciRxFifo s)) @ new) =
        drop (Suc n) (fifo_items (pHciRxFifo s) @ new)" for n
      by (cases "fifo_items (pHciRxFifo s)") simp_all
    then show ?thesis
      using IH by (intro exI [of _ s'] exI [of _ new]) (simp add: H4_Pop del: drop_append)
  next
    case (H4_Burst now xs)
    have env: "h4_env (H4_Burst now xs) s"
      using Cons.prems(5) by (simp add: H4_Burst)
    have bytes: "h4_bytes (ev # evs) = xs @ h4_bytes evs" "h4_pops (ev # evs) = h4_pops evs"
      by (simp_all add: H4_Burst)
    let ?ps = "h4_parse (h4_pend s @ xs)"
    have okxs: "h4_ok lim ((h4_pend s @ xs) @ h4_bytes evs)"
      using Cons.prems(4) by (simp add: bytes)
    obtain s1 where s1: "h4_burst now xs s = Some s1" "h4_pend s1 = snd ?ps"
      "h4_gives (fst ?ps) (pHciRxFifo s) (pHciRxFifo s1)" "h4_cap lim s1" "h4_ring s1"
      using h4_burst_spec [OF Cons.prems(1,2) h4_ok_prefix [OF okxs] Cons.prems(3) env] by blast
    have rest: "admissible h4_step h4_env evs s1"
      using Cons.prems(5) s1(1) by (simp add: H4_Burst)
    have part: "h4_partial (h4_pend s1)"
      by (simp add: s1(2) h4_parse_rest_partial)
    have ok: "h4_ok lim (h4_pend s1 @ h4_bytes evs)"
      unfolding s1(2) by (rule h4_ok_rest [OF okxs])
    obtain s' new where IH: "run h4_step evs s1 = Some s'"
      "h4_pend s' = snd (h4_parse (h4_pend s1 @ h4_bytes evs))"
      "list_all2 (\<lambda>p slot. take (length p) slot = p) (fst (h4_parse (h4_pend s1 @ h4_bytes evs))) new"
      "fifo_items (pHciRxFifo s') = drop (h4_pops evs) (fifo_items (pHciRxFifo s1) @ new)"
      using Cons.IH [OF s1(4) part s1(5) ok rest] by blast
    obtain new1 where new1: "fifo_items (pHciRxFifo s1) = fifo_items (pHciRxFifo s) @ new1"
      "list_all2 (\<lambda>p slot. take (length p) slot = p) (fst ?ps) new1"
      using s1(3) by (auto simp: h4_gives_def)
    have parse: "h4_parse (h4_pend s @ h4_bytes (ev # evs)) =
        (fst ?ps @ fst (h4_parse (h4_pend s1 @ h4_bytes evs)), snd (h4_parse (h4_pend s1 @ h4_bytes evs)))"
      using h4_parse_append [of "h4_pend s @ xs" "h4_bytes evs"] by (simp add: bytes s1(2))
    show ?thesis
      using IH new1 s1(1) list_all2_appendI [OF new1(2) IH(3)]
      by (intro exI [of _ s'] exI [of _ "new1 @ new"])
        (use parse in \<open>simp add: H4_Burst\<close>)
  qed
qed

section \<open>A concrete transport\<close>

text \<open>The state after \<open>HCI_Tr_H4Init\<close>, for controller slots of 48 bytes.\<close>

definition h4_start :: h4_tr where
  "h4_start = HCI_Tr_H4Init (hci_fifo_new 48 3)
     \<lparr>pHciRxFifo = hci_fifo_new 0 0, pRxFifo = hci_fifo_new (HCI_H4_TR_RX_BUF_SIZE 48) 2,
      pBackUpBuf = replicate (HCI_H4_TR_RX_BUF_SIZE 48) 0, flushTimer = 0, backupCnt = 0, rxDmaOff = 0,
      h4Uart = \<lparr>isUartTxDone = True, uartSent = []\<rparr>\<rparr>"

lemma h4_start_fields:
  "pHciRxFifo h4_start = hci_fifo_new 48 3" "pRxFifo h4_start = hci_fifo_new 128 2"
  "length (pBackUpBuf h4_start) = 128" "backupCnt h4_start = 0" "flushTimer h4_start = 0"
  "rxDmaOff h4_start = 0"
  by (simp_all add: h4_start_def HCI_Tr_H4Init_def HCI_H4_TR_RX_BUF_SIZE_def MEM_SIZE_ALIGN16_def)

lemma h4_start_ok: "h4_cap 48 h4_start" "h4_pend h4_start = []" "h4_ring h4_start"
proof -
  have "fifo_inv (hci_fifo_new 48 3)" "fifo_inv (hci_fifo_new 128 2)"
    by (simp_all add: hci_fifo_new_inv)
  then show "h4_cap 48 h4_start" "h4_pend h4_start = []" "h4_ring h4_start"
    by (simp_all add: h4_cap_def h4_pend_def h4_ring_def h4_start_fields fifo_inv_def)
      (simp_all add: hci_fifo_new_def fifo_slot_def)
qed

text \<open>A reset command, then the beginning of an ACL packet.\<close>

definition h4_sample :: "u8 list" where
  "h4_sample = [1, 3, 12, 0, 2, 0x40, 0, 9]"

lemma h4_sample_parse: "h4_parse h4_sample = ([[1, 3, 12, 0]], [2, 0x40, 0, 9])" "h4_ok 48 h4_sample"
  by code_simp+

section \<open>The theorems\<close>



text \<open>
  C10: an ACL header with the parameter length \<open>0xFFFB\<close>, for which the 16-bit sum with the header
  length is 0, makes the receive loop spin for ever: every pass stays within the buffers and ends at the point at which it
  began, with the same packet, length and state, so that after any number of passes the loop is there and
  wants another one.
\<close>

theorem h4_acl_len_hangs:
  assumes "backupCnt s = 0" and "5 \<le> unat len" and "get_byte p 0 = Some HCI_TR_TYPE_ACL"
    and "get_byte p 3 = Some 0xFB" and "get_byte p 4 = Some 0xFF"
  shows "len \<noteq> 0 \<and> h4_rx_body now p len s = Some (Again p len s) \<and> h4_passes now n p len s = Some (Again p len s)"
proof -
  have len: "len \<noteq> 0" "\<not> len < 5"
    using assms(2) by (auto simp: word_less_nat_alt)
  moreover have "h4_param_len HCI_TR_TYPE_ACL p = Some 0xFFFB"
    using assms(4,5) by (simp add: h4_param_len_def h4_type_defs BYTES_TO_UINT16_def)
  ultimately have body: "h4_rx_body now p len s = Some (Again p len s)"
    using assms(1,3) by (simp add: h4_rx_body_def h4_head_len_def h4_type_defs)
  moreover have "h4_passes now n p len s = Some (Again p len s)"
    by (induction n) (simp_all add: len body)
  ultimately show ?thesis
    using len by blast
qed

theorem h4_acl_len_hangs_witness:
  "(7 :: u32) \<noteq> 0 \<and> h4_rx_body 0 [2, 0x40, 0, 0xFB, 0xFF, 1, 2] 7 h4_start = Some (Again [2, 0x40, 0, 0xFB, 0xFF, 1, 2] 7 h4_start)
    \<and> h4_passes 0 1000 [2, 0x40, 0, 0xFB, 0xFF, 1, 2] 7 h4_start = Some (Again [2, 0x40, 0, 0xFB, 0xFF, 1, 2] 7 h4_start)"
  by (rule h4_acl_len_hangs) (simp_all add: h4_start_fields get_byte_def h4_type_defs)

text \<open>The loop as a function has no result then.\<close>

lemma h4_acl_len_no_result:
  assumes "backupCnt s = 0" and "5 \<le> unat len" and "get_byte p 0 = Some HCI_TR_TYPE_ACL"
    and "get_byte p 3 = Some 0xFB" and "get_byte p 4 = Some 0xFF"
  shows "h4_rx_loop now p len s \<noteq> Some s'"
proof
  assume "h4_rx_loop now p len s = Some s'"
  then show False
    using assms
  proof (induction rule: h4_rx_loop.raw_induct [rotated, consumes 1, case_names step])
    case (step loop now p len s s')
    have "len \<noteq> 0" "\<not> len < 5"
      using step(4) by (auto simp: word_less_nat_alt)
    moreover have "h4_param_len HCI_TR_TYPE_ACL p = Some 0xFFFB"
      using step(6,7) by (simp add: h4_param_len_def h4_type_defs BYTES_TO_UINT16_def)
    ultimately have "loop now p len s = Some s'"
      using step(2,3,5) by (simp add: h4_head_len_def h4_type_defs Let_def)
    then show ?case
      using step(1,3-7) by blast
  qed
qed

text \<open>
  An event packet, for which the loop does not advance its pointer, swallows everything
  behind it: whatever follows in the burst, when the loop returns it has delivered nothing and
  kept nothing.
\<close>

theorem h4_event_swallows:
  assumes "backupCnt s = 0" and "get_byte p 0 = Some HCI_TR_TYPE_EVENT"
  shows "h4_rx_loop now p len s \<in> {None, Some s}"
proof (cases "h4_rx_loop now p len s")
  case (Some s')
  then have "s' = s"
    using assms
  proof (induction rule: h4_rx_loop.raw_induct [rotated, consumes 1, case_names step])
    case (step loop now p len s s')
    then show ?case
      by (cases "get_byte p 2") (auto simp: h4_type_defs split: if_splits)
  qed
  then show ?thesis
    using Some by simp
qed simp

theorem h4_event_swallows_witness:
  "h4_rx_loop 0 [4, 0x0E, 0, 1, 3, 12, 0, 9] 7 h4_start \<in> {None, Some h4_start}"
  by (rule h4_event_swallows) (simp_all add: h4_start_fields get_byte_def h4_type_defs)

text \<open>
  The interrupt handler does not see a full ring once its write pointer has wrapped: it
  compares \<open>wptr - rptr\<close> as \<open>int\<close>, accepts one more burst and leaves more unread slots than the
  ring has.  (The handler of the H5 transport computes the difference in eight bits.)
\<close>

theorem h4_irq_full_wraps:
  assumes "fifo_inv (pRxFifo s)" and "fifo_count (pRxFifo s) = unat (fnum (pRxFifo s))"
    and "wptr (pRxFifo s) < rptr (pRxFifo s)"
    and "get_bytes (fp (pRxFifo s)) (fifo_slot (pRxFifo s) (wptr (pRxFifo s))) 4 = Some h"
    and "BYTES_TO_UINT32 (h ! 0) (h ! 1) (h ! 2) (h ! 3) \<noteq> 0"
  shows "\<exists>s'. HCI_Tr_H4IRQHandler True txDone s = Some s' \<and>
     fifo_count (pRxFifo s') = unat (fnum (pRxFifo s')) + 1 \<and> \<not> fifo_inv (pRxFifo s')"
proof -
  let ?f = "pRxFifo s"
  have wf: "fifo_wf ?f"
    using assms(1) by (simp add: fifo_inv_def)
  have "\<not> int (unat (fnum ?f)) \<le> int (unat (wptr ?f)) - int (unat (rptr ?f))"
    using assms(3) fifo_wf_index(2) [OF wf] unfolding word_less_nat_alt by linarith
  then have irq: "HCI_Tr_H4IRQHandler True txDone s =
      Some (let s1 = s\<lparr>pRxFifo := ?f\<lparr>wptr := wptr ?f + 1\<rparr>,
                       rxDmaOff := fifo_slot (?f\<lparr>wptr := wptr ?f + 1\<rparr>) (wptr ?f + 1)\<rparr>
            in if txDone then s1\<lparr>h4Uart := (h4Uart s1)\<lparr>isUartTxDone := True\<rparr>\<rparr> else s1)"
    using assms(4,5) by (simp add: HCI_Tr_H4IRQHandler_def h4_irq_rx_def Let_def)
  have diff: "wptr ?f + 1 - rptr ?f = (wptr ?f - rptr ?f) + 1"
    by simp
  have "fifo_count (?f\<lparr>wptr := wptr ?f + 1\<rparr>) = unat (fnum ?f) + 1"
    using assms(2) fifo_wf_index(4) [OF wf]
    by (simp add: fifo_count_def diff unat_word_ariths)
  then show ?thesis
    unfolding irq by (auto simp: Let_def fifo_inv_def)
qed

theorem h4_irq_full_wraps_witness:
  "\<exists>s'. HCI_Tr_H4IRQHandler True False
       (h4_start\<lparr>pRxFifo := (hci_fifo_new 128 2)\<lparr>wptr := 2, rptr := 254, fp := replicate 512 5\<rparr>\<rparr>) = Some s' \<and>
     fifo_count (pRxFifo s') = unat (fnum (pRxFifo s')) + 1 \<and> \<not> fifo_inv (pRxFifo s')"
proof (rule h4_irq_full_wraps)
  let ?f = "(hci_fifo_new 128 2)\<lparr>wptr := 2, rptr := 254, fp := replicate 512 (5 :: u8)\<rparr>"
  have "fifo_inv (hci_fifo_new 128 2)"
    by (simp add: hci_fifo_new_inv)
  then show inv: "fifo_inv (pRxFifo (h4_start\<lparr>pRxFifo := ?f\<rparr>))"
    by (auto simp: fifo_inv_def fifo_wf_def fifo_count_def hci_fifo_new_def)
  have off: "fifo_slot ?f 2 = 256"
    by (simp add: fifo_slot_def hci_fifo_new_def mask_eq_exp_minus_1)
  show "get_bytes (fp (pRxFifo (h4_start\<lparr>pRxFifo := ?f\<rparr>)))
      (fifo_slot (pRxFifo (h4_start\<lparr>pRxFifo := ?f\<rparr>)) (wptr (pRxFifo (h4_start\<lparr>pRxFifo := ?f\<rparr>)))) 4 =
      Some (replicate 4 5)"
    by (simp add: off get_bytes_def)
qed (simp_all add: hci_fifo_new_def fifo_count_def BYTES_TO_UINT32_def)

end
