(* ===== verification/H5_Codec.thy ===== *)
theory H5_Codec
  imports Slip
begin

text \<open>
  The wire format of the three-wire (H5) protocol, \<^verbatim>\<open>vendor/common/hci_transport/hci_h5.c\<close>
  lines 130 to 265 with the header macros of \<^verbatim>\<open>hci_h5.h\<close>: the CRC, the header checksum, packing
  and unpacking of the four-byte header, and the packet classes.  The lemmas show what the header
  round trip preserves, that the checksum accepts exactly the headers it was computed for, and
  that the CRC step is injective in the running value and in the data byte.
\<close>

section \<open>Packet types and the header\<close>

definition HCI_H5_PKT_TYPE_ACK :: u8 where "HCI_H5_PKT_TYPE_ACK = 0"
definition HCI_H5_PKT_TYPE_CMD :: u8 where "HCI_H5_PKT_TYPE_CMD = 1"
definition HCI_H5_PKT_TYPE_ACL :: u8 where "HCI_H5_PKT_TYPE_ACL = 2"
definition HCI_H5_PKT_TYPE_SCO :: u8 where "HCI_H5_PKT_TYPE_SCO = 3"
definition HCI_H5_PKT_TYPE_EVT :: u8 where "HCI_H5_PKT_TYPE_EVT = 4"
definition HCI_H5_PKT_TYPE_VENDOR :: u8 where "HCI_H5_PKT_TYPE_VENDOR = 14"
definition HCI_H5_PKT_TYPE_LINK_CTRL :: u8 where "HCI_H5_PKT_TYPE_LINK_CTRL = 15"

lemmas h5_pkt_type_defs =
  HCI_H5_PKT_TYPE_ACK_def HCI_H5_PKT_TYPE_CMD_def HCI_H5_PKT_TYPE_ACL_def HCI_H5_PKT_TYPE_SCO_def
  HCI_H5_PKT_TYPE_EVT_def HCI_H5_PKT_TYPE_VENDOR_def HCI_H5_PKT_TYPE_LINK_CTRL_def

record h5_head =
  seqNum :: u8
  ackNum :: u8
  crc :: u8
  reliable :: u8
  pktType :: u8
  headCheckSum :: u8
  payloadLen :: u16

definition HCI_H5_IsReliablePacket :: "u8 \<Rightarrow> bool" where
  "HCI_H5_IsReliablePacket type \<longleftrightarrow>
     type = HCI_H5_PKT_TYPE_CMD \<or> type = HCI_H5_PKT_TYPE_ACL \<or> type = HCI_H5_PKT_TYPE_EVT"

section \<open>CRC\<close>

text \<open>One round of the inner loop, one byte, the whole buffer.\<close>

definition crc_bit :: "u16 \<Rightarrow> u16" where
  "crc_bit c = (if c AND 1 \<noteq> 0 then drop_bit 1 c XOR 0x8408 else drop_bit 1 c)"

definition crc_byte :: "u16 \<Rightarrow> u8 \<Rightarrow> u16" where
  "crc_byte c b = (crc_bit ^^ 8) (c XOR ucast b)"

definition HCI_H5_CcittCrc16Calc :: "u16 \<Rightarrow> u8 list \<Rightarrow> u16" where
  "HCI_H5_CcittCrc16Calc crcInit pkt = foldl crc_byte crcInit pkt"

section \<open>Header checksum\<close>

definition HCI_H5_CheckSumCalc :: "u8 \<Rightarrow> u8 \<Rightarrow> u8 \<Rightarrow> u8" where
  "HCI_H5_CheckSumCalc p0 p1 p2 = ucast (NOT ((ucast p0 + ucast p1 + ucast p2 :: u32) AND 0xFF))"

definition HCI_H5_IsCheckSumValid :: "u8 list \<Rightarrow> bool" where
  "HCI_H5_IsCheckSumValid p \<longleftrightarrow> (sum_list (map ucast p) :: u32) mod 256 = 0xFF"

section \<open>Packing and unpacking\<close>

definition HCI_H5_PackHeader :: "h5_head \<Rightarrow> u8 list" where
  "HCI_H5_PackHeader h =
     (let tmp = (ucast (seqNum h) OR push_bit 3 (ucast (ackNum h)) OR push_bit 6 (ucast (crc h)) OR
                 push_bit 7 (ucast (reliable h)) :: u16);
          b0 = ucast tmp :: u8;
          tmp = ucast (pktType h) OR (push_bit 4 (payloadLen h) AND 0x0fff);
          b12 = UINT16_TO_BSTREAM tmp;
          checkSum = HCI_H5_CheckSumCalc b0 (b12 ! 0) (b12 ! 1)
      in b0 # b12 @ [checkSum])"

definition H5_HDR_SEQ :: "u32 \<Rightarrow> u8" where "H5_HDR_SEQ head = ucast (head AND 0x07)"
definition H5_HDR_ACK :: "u32 \<Rightarrow> u8" where "H5_HDR_ACK head = ucast (drop_bit 3 head AND 0x07)"
definition H5_HDR_CRC :: "u32 \<Rightarrow> u8" where "H5_HDR_CRC head = ucast (drop_bit 6 head AND 0x01)"
definition H5_HDR_RELIABLE :: "u32 \<Rightarrow> u8" where "H5_HDR_RELIABLE head = ucast (drop_bit 7 head AND 0x01)"
definition H5_HDR_PKT_TYPE :: "u32 \<Rightarrow> u8" where "H5_HDR_PKT_TYPE head = ucast (drop_bit 8 head AND 0x0F)"
definition H5_HDR_LEN :: "u32 \<Rightarrow> u16" where "H5_HDR_LEN head = ucast (drop_bit 12 head AND 0x0FFF)"
definition H5_HDR_CHECKSUM :: "u32 \<Rightarrow> u8" where "H5_HDR_CHECKSUM head = ucast (drop_bit 24 head AND 0xFF)"

definition HCI_H5_UnpackHeader :: "u8 list \<Rightarrow> h5_head" where
  "HCI_H5_UnpackHeader p =
     (let head = BYTES_TO_UINT32 (p ! 0) (p ! 1) (p ! 2) (p ! 3) in
      \<lparr>seqNum = H5_HDR_SEQ head, ackNum = H5_HDR_ACK head, crc = H5_HDR_CRC head,
       reliable = H5_HDR_RELIABLE head, pktType = H5_HDR_PKT_TYPE head,
       headCheckSum = H5_HDR_CHECKSUM head, payloadLen = H5_HDR_LEN head\<rparr>)"

section \<open>Lemmas on the checksum\<close>

lemma HCI_H5_CheckSumCalc_eq: "HCI_H5_CheckSumCalc a b c = NOT (a + b + c)"
proof -
  have "ucast (NOT (x AND 0xFF) :: u32) = (NOT (ucast x) :: u8)" for x
    unfolding and_low_mask by (rule bit_word_eqI) (auto simp: word_bit_simps)
  moreover have "ucast (ucast a + ucast b + ucast c :: u32) = a + b + c"
    by (rule word_unat_eq_iff [THEN iffD2])
      (simp add: unsigned_ucast_eq unat_word_ariths take_bit_eq_mod mod_simps mod_mod_cancel)
  ultimately show ?thesis
    by (simp only: HCI_H5_CheckSumCalc_def)
qed

lemma sum_list_ucast_u8:
  "length p < 2 ^ 24 \<Longrightarrow> unat (sum_list (map ucast p) :: u32) = sum_list (map unat (p :: u8 list))"
  "sum_list (map unat (p :: u8 list)) \<le> 255 * length p"
proof -
  have bound: "sum_list (map unat q) \<le> 255 * length q" for q :: "u8 list"
  proof (induction q)
    case (Cons x q)
    then show ?case
      using unat_bound(1) [of x] by simp
  qed simp
  then show "sum_list (map unat p) \<le> 255 * length p" .
  show "length p < 2 ^ 24 \<Longrightarrow> unat (sum_list (map ucast p) :: u32) = sum_list (map unat p)"
  proof (induction p)
    case (Cons x p)
    then show ?case
      using bound [of "x # p"]
      by (simp add: unat_word_ariths unsigned_ucast_eq take_bit_nat_eq_self)
  qed simp
qed

text \<open>The check accepts a header exactly when its last byte is the checksum of the other three.\<close>

lemma HCI_H5_IsCheckSumValid_iff:
  "HCI_H5_IsCheckSumValid [a, b, c, d] \<longleftrightarrow> d = HCI_H5_CheckSumCalc a b c"
proof -
  have sum: "unat (sum_list (map ucast [a, b, c, d]) :: u32) = unat a + unat b + unat c + unat d"
    using sum_list_ucast_u8(1) [of "[a, b, c, d]"] by simp
  have "HCI_H5_IsCheckSumValid [a, b, c, d] \<longleftrightarrow>
      (unat a + unat b + unat c + unat d) mod 256 = 255"
    unfolding HCI_H5_IsCheckSumValid_def word_unat_eq_iff unat_mod sum by simp
  also have "\<dots> \<longleftrightarrow> unat (a + b + c + d) = 255"
    by (simp add: unat_word_ariths mod_simps)
  also have "\<dots> \<longleftrightarrow> a + b + c + d = - 1"
    by (simp add: word_unat_eq_iff unsigned_minus_1_eq_mask mask_eq_exp_minus_1)
  finally have "HCI_H5_IsCheckSumValid [a, b, c, d] \<longleftrightarrow> d = - 1 - (a + b + c)"
    by (auto simp: eq_diff_eq ac_simps)
  moreover have "- 1 - (a + b + c) = HCI_H5_CheckSumCalc a b c"
    unfolding HCI_H5_CheckSumCalc_eq not_eq_complement by simp
  ultimately show ?thesis
    by simp
qed

section \<open>Lemmas on the CRC\<close>

lemma crc_bit_odd:
  "crc_bit c = (if odd c then drop_bit 1 c XOR 0x8408 else drop_bit 1 c)"
  by (simp add: crc_bit_def and_one_eq mod_2_eq_odd)

lemma crc_bit_inj: "crc_bit x = crc_bit y \<longleftrightarrow> x = y"
proof
  assume eq: "crc_bit x = crc_bit y"
  have top: "bit (crc_bit z) 15 = bit z 0" for z
    by (auto simp: crc_bit_odd word_bit_simps bit_0 dest: bit_imp_le_length)
  have "bit x 0 = bit y 0"
    using eq top by metis
  moreover from this have "drop_bit 1 x = drop_bit 1 y"
    using eq by (auto simp: crc_bit_odd bit_0 split: if_splits)
  ultimately show "x = y"
  proof (intro bit_word_eqI)
    fix n
    assume low: "bit x 0 = bit y 0" and high: "drop_bit 1 x = drop_bit 1 y"
    show "bit x n = bit y n"
      using low arg_cong [OF high, of "\<lambda>z. bit z (n - 1)"] by (cases n) (auto simp: bit_drop_bit_eq)
  qed
qed simp

lemma crc_rounds_inj: "(crc_bit ^^ n) x = (crc_bit ^^ n) y \<longleftrightarrow> x = y"
  by (induction n) (simp_all add: crc_bit_inj)

lemma crc_byte_inj: "crc_byte c b = crc_byte c' b \<longleftrightarrow> c = c'"
  by (simp add: crc_byte_def crc_rounds_inj)

lemma crc_byte_inj_data: "crc_byte c b = crc_byte c b' \<longleftrightarrow> b = b'"
proof -
  have "c XOR ucast b = c XOR ucast b' \<longleftrightarrow> (ucast b :: u16) = ucast b'"
    by (metis word_xor_cancel xor.commute)
  also have "\<dots> \<longleftrightarrow> b = b'"
    by (simp add: word_unat_eq_iff unsigned_ucast_eq take_bit_nat_eq_self unat_bound
        less_trans [OF unat_bound(1)])
  finally show ?thesis
    by (simp add: crc_byte_def crc_rounds_inj)
qed

lemma crc_append:
  "HCI_H5_CcittCrc16Calc c (xs @ ys) = HCI_H5_CcittCrc16Calc (HCI_H5_CcittCrc16Calc c xs) ys"
  by (simp add: HCI_H5_CcittCrc16Calc_def)

lemma crc_inj_init: "HCI_H5_CcittCrc16Calc c xs = HCI_H5_CcittCrc16Calc c' xs \<longleftrightarrow> c = c'"
  by (induction xs arbitrary: c c') (simp_all add: HCI_H5_CcittCrc16Calc_def crc_byte_inj)

lemma crc_one_byte:
  "HCI_H5_CcittCrc16Calc c (xs @ b # ys) = HCI_H5_CcittCrc16Calc c (xs @ b' # ys) \<longleftrightarrow> b = b'"
proof -
  have "HCI_H5_CcittCrc16Calc c (xs @ a # ys) =
      HCI_H5_CcittCrc16Calc (crc_byte (HCI_H5_CcittCrc16Calc c xs) a) ys" for a
    by (simp add: HCI_H5_CcittCrc16Calc_def)
  then show ?thesis
    by (simp add: crc_inj_init crc_byte_inj_data)
qed

section \<open>The header round trip\<close>

definition h5_head_wf :: "h5_head \<Rightarrow> bool" where
  "h5_head_wf h \<longleftrightarrow> seqNum h < 8 \<and> ackNum h < 8 \<and> crc h < 2 \<and> reliable h < 2 \<and> pktType h < 16"

lemma HCI_H5_PackHeader_length [simp]: "length (HCI_H5_PackHeader h) = 4"
  by (simp add: HCI_H5_PackHeader_def Let_def)

lemma HCI_H5_PackHeader_checksum: "HCI_H5_IsCheckSumValid (HCI_H5_PackHeader h)"
  by (simp add: HCI_H5_PackHeader_def Let_def UINT16_TO_BSTREAM_def HCI_H5_IsCheckSumValid_iff)

lemma word_less_bits: "x < 2 ^ n \<Longrightarrow> bit x i \<Longrightarrow> i < n" for x :: "'a::len word"
  using less_mask_eq [of x n] by (metis bit_and_iff bit_mask_iff)

text \<open>
  What survives the wire: every field of the header but the upper four bits of the payload
  length, which the mask \<open>0x0fff\<close> of the packing code drops (the length field is twelve bits
  wide, at bits 4 to 15).
\<close>

lemma unpack_pack_fields:
  assumes "h5_head_wf h"
  shows "seqNum (HCI_H5_UnpackHeader (HCI_H5_PackHeader h)) = seqNum h"
    and "ackNum (HCI_H5_UnpackHeader (HCI_H5_PackHeader h)) = ackNum h"
    and "crc (HCI_H5_UnpackHeader (HCI_H5_PackHeader h)) = crc h"
    and "reliable (HCI_H5_UnpackHeader (HCI_H5_PackHeader h)) = reliable h"
    and "pktType (HCI_H5_UnpackHeader (HCI_H5_PackHeader h)) = pktType h"
    and "payloadLen (HCI_H5_UnpackHeader (HCI_H5_PackHeader h)) = take_bit 8 (payloadLen h)"
proof -
  note wf = assms [unfolded h5_head_wf_def]
  have small: "bit (seqNum h) i \<Longrightarrow> i < 3" "bit (ackNum h) i \<Longrightarrow> i < 3"
    "bit (crc h) i \<Longrightarrow> i < 1" "bit (reliable h) i \<Longrightarrow> i < 1" "bit (pktType h) i \<Longrightarrow> i < 4" for i
    using wf word_less_bits [of "seqNum h" 3 i] word_less_bits [of "ackNum h" 3 i]
      word_less_bits [of "crc h" 1 i] word_less_bits [of "reliable h" 1 i]
      word_less_bits [of "pktType h" 4 i] by simp_all
  note fields = HCI_H5_UnpackHeader_def HCI_H5_PackHeader_def Let_def UINT16_TO_BSTREAM_def
    BYTES_TO_UINT32_or and_low_mask
  show "seqNum (HCI_H5_UnpackHeader (HCI_H5_PackHeader h)) = seqNum h"
    by (simp add: fields H5_HDR_SEQ_def, rule bit_word_eqI)
      (auto simp: word_bit_simps dest: small)
  show "ackNum (HCI_H5_UnpackHeader (HCI_H5_PackHeader h)) = ackNum h"
    by (simp add: fields H5_HDR_ACK_def, rule bit_word_eqI)
      (auto simp: word_bit_simps dest: small)
  show "crc (HCI_H5_UnpackHeader (HCI_H5_PackHeader h)) = crc h"
    unfolding fields H5_HDR_CRC_def h5_head.select_convs
    by (rule bit_word_eqI) (auto simp: word_bit_simps bit_0 dest: small simp del: take_bit_Suc_0)
  show "reliable (HCI_H5_UnpackHeader (HCI_H5_PackHeader h)) = reliable h"
    unfolding fields H5_HDR_RELIABLE_def h5_head.select_convs
    by (rule bit_word_eqI) (auto simp: word_bit_simps bit_0 dest: small simp del: take_bit_Suc_0)
  show "pktType (HCI_H5_UnpackHeader (HCI_H5_PackHeader h)) = pktType h"
    by (simp add: fields H5_HDR_PKT_TYPE_def, rule bit_word_eqI)
      (auto simp: word_bit_simps dest: small)
  show "payloadLen (HCI_H5_UnpackHeader (HCI_H5_PackHeader h)) = take_bit 8 (payloadLen h)"
    by (simp add: fields H5_HDR_LEN_def, rule bit_word_eqI)
      (auto simp: word_bit_simps dest: small)
qed

end
