(* ===== verification/H5_Link.thy ===== *)
theory H5_Link
  imports H5_Codec
begin

text \<open>
  The three-wire link layer, \<^verbatim>\<open>vendor/common/hci_transport/hci_h5.c\<close>: the control block, sending
  with sequence numbers and a sliding window, the link state machine IDLE, INIT, ACTIVE, the
  receive path with acknowledgement, and the periodic poll with its retransmission timers.
  Functions take the clock value \<open>now\<close> where the code reads \<open>clock_time()\<close>.
\<close>

section \<open>State\<close>

datatype h5_link_state = HCI_H5_LINK_STATE_IDLE | HCI_H5_LINK_STATE_INIT | HCI_H5_LINK_STATE_ACTIVE

record h5_config =
  slidWinSize :: u8
  oofFlowCtrl :: u8
  dataIntgrtChkType :: u8
  version :: u8

text \<open>
  \<open>hciH5Cb\<close> with the things its pointers refer to: the two HCI rings, the transmit buffer, the
  SLIP layer and the UART.  \<open>hciH5Config\<close> is the static variable of that name, \<open>config\<close> the
  negotiated configuration.  \<open>hciResets\<close> counts the calls of \<open>blc_hci_reset\<close>, a function of the
  controller library whose effect lies outside this file.
\<close>

record h5 =
  rxFifo :: hci_fifo
  txFifo :: hci_fifo
  h5TxBuf :: "u8 list"
  hciH5Config :: h5_config
  config :: h5_config
  tick :: u32
  linkState :: h5_link_state
  rxSlidWinSize :: u8
  txSlidWinSize :: u8
  txSeq :: u8
  txAck :: u8
  rxAck :: u8
  isReliable :: bool
  txTick :: u32
  rxTick :: u32
  resendTick :: u32
  slip :: slip_cb
  uart :: uart
  hciResets :: nat

definition HCI_H5_MSG_SYNC :: u16 where "HCI_H5_MSG_SYNC = 0x7E01"
definition HCI_H5_MSG_SYNC_RSP :: u16 where "HCI_H5_MSG_SYNC_RSP = 0x7D02"
definition HCI_H5_MSG_CONFIG :: u16 where "HCI_H5_MSG_CONFIG = 0xFC03"
definition HCI_H5_MSG_CONFIG_RSP :: u16 where "HCI_H5_MSG_CONFIG_RSP = 0x7B04"

lemmas h5_msg_defs =
  HCI_H5_MSG_SYNC_def HCI_H5_MSG_SYNC_RSP_def HCI_H5_MSG_CONFIG_def HCI_H5_MSG_CONFIG_RSP_def

definition H5_PURE_ACK_TO :: u32 where "H5_PURE_ACK_TO = 10"
definition H5_RESEND_TO :: u32 where "H5_RESEND_TO = 50"

text \<open>The compiled-in configuration: window size 1, no flow control, no CRC, version 0.\<close>

definition HCI_H5_DefaultConfig :: h5_config where
  "HCI_H5_DefaultConfig = \<lparr>slidWinSize = 1, oofFlowCtrl = 0, dataIntgrtChkType = 0, version = 0\<rparr>"

definition HCI_H5_TX_BUF_SIZE :: "nat \<Rightarrow> nat" where
  "HCI_H5_TX_BUF_SIZE tx = MEM_SIZE_ALIGN4 (HCI_H5_HEAD_LEN + tx + HCI_H5_CRC_LEN)"

section \<open>Initialisation and reset\<close>

definition HCI_H5_Init :: "u32 \<Rightarrow> h5 \<Rightarrow> h5" where
  "HCI_H5_Init now s =
     s\<lparr>linkState := HCI_H5_LINK_STATE_IDLE, rxSlidWinSize := 0, txSlidWinSize := 0, txSeq := 0,
       txAck := 0, rxAck := 0, tick := now OR 1, isReliable := True, txTick := 0, rxTick := 0,
       resendTick := 0,
       slip := HCI_SLip_SetFlowCtrlEnable False
                 (HCI_Slip_RegisterPktHandler (Some H5_PakcetHandler) (slip s))\<rparr>"

definition HCI_H5_Reset :: "u32 \<Rightarrow> h5 \<Rightarrow> h5" where
  "HCI_H5_Reset now s =
     s\<lparr>rxSlidWinSize := 0, txSlidWinSize := 0, txSeq := 0, txAck := 0, rxAck := 0,
       tick := now OR 1, txTick := 0, rxTick := 0, resendTick := 0,
       rxFifo := (rxFifo s)\<lparr>wptr := 0, rptr := 0\<rparr>,
       txFifo := (txFifo s)\<lparr>wptr := 0, rptr := 0\<rparr>,
       slip := HCI_SLip_SetFlowCtrlEnable False (slip s)\<rparr>"

section \<open>Sending\<close>

text \<open>The header that \<open>HCI_H5_Send\<close> builds.\<close>

definition h5_send_head :: "u8 \<Rightarrow> u32 \<Rightarrow> h5 \<Rightarrow> h5_head" where
  "h5_send_head h5Type len s =
     \<lparr>seqNum = (if HCI_H5_IsReliablePacket h5Type then txSeq s else 0),
      ackNum = txAck s,
      crc = (if h5Type \<noteq> HCI_H5_PKT_TYPE_ACK \<and> h5Type \<noteq> HCI_H5_PKT_TYPE_LINK_CTRL
             then dataIntgrtChkType (config s) else 0),
      reliable = (if HCI_H5_IsReliablePacket h5Type then 1 else 0),
      pktType = h5Type, headCheckSum = 0, payloadLen = ucast len\<rparr>"

text \<open>
  The payload copy and the CRC of \<open>HCI_H5_Send(h5Type, pPacket, len)\<close>; \<open>None\<close> as the packet is the
  null pointer, \<open>Some mem\<close> the memory from \<open>pPacket\<close> on.  The second result is the offset of the
  pointer \<open>pBuf\<close>.  The overflow check of the transmit buffer only asserts.
\<close>

definition h5_put_payload :: "u8 list option \<Rightarrow> u32 \<Rightarrow> u8 list \<Rightarrow> (u8 list \<times> nat) option" where
  "h5_put_payload pPacket len buf =
     (case pPacket of
        None \<Rightarrow> Some (buf, HCI_H5_HEAD_LEN)
      | Some mem \<Rightarrow>
          if len = 0 then Some (buf, HCI_H5_HEAD_LEN)
          else do { xs \<leftarrow> get_bytes mem 0 (unat len);
                    buf \<leftarrow> put_bytes buf HCI_H5_HEAD_LEN xs;
                    Some (buf, HCI_H5_HEAD_LEN + unat len) })"

definition h5_put_crc :: "u8 \<Rightarrow> u32 \<Rightarrow> u8 list \<times> nat \<Rightarrow> u8 list option" where
  "h5_put_crc hcrc len bp =
     (case bp of (buf, pos) \<Rightarrow>
        if hcrc \<noteq> 0 then
          do { xs \<leftarrow> get_bytes buf 0 (HCI_H5_HEAD_LEN + unat len);
               let c = HCI_H5_CcittCrc16Calc 0xFFFF xs;
               put_bytes buf pos [ucast (drop_bit 8 c AND 0xFF), ucast (c AND 0xFF)] }
        else Some buf)"

definition HCI_H5_Send :: "u8 \<Rightarrow> u8 list option \<Rightarrow> u32 \<Rightarrow> h5 \<Rightarrow> (bool \<times> h5) option" where
  "HCI_H5_Send h5Type pPacket len s =
     (let h = h5_send_head h5Type len s;
          s1 = (if HCI_H5_IsReliablePacket h5Type then s\<lparr>txSeq := (txSeq s + 1) mod 8\<rparr> else s)
      in do {
        buf \<leftarrow> put_bytes (h5TxBuf s1) 0 (HCI_H5_PackHeader h);
        bp \<leftarrow> h5_put_payload pPacket len buf;
        buf \<leftarrow> h5_put_crc (crc h) len bp;
        let pktLen = (of_nat HCI_H5_HEAD_LEN + ucast len +
                      (if crc h \<noteq> 0 then of_nat HCI_H5_CRC_LEN else 0) :: u16);
        (res, sl, u) \<leftarrow> HCI_Slip_Send buf (ucast pktLen) (slip s1, uart s1);
        Some (res, s1\<lparr>h5TxBuf := buf, slip := sl, uart := u\<rparr>) })"

text \<open>\<open>HCI_H5_SendData\<close>: the comparison with the write pointer is made in \<open>int\<close>, the slot
  index in eight bits.\<close>

definition HCI_H5_SendData :: "u32 \<Rightarrow> h5 \<Rightarrow> h5 option" where
  "HCI_H5_SendData now s =
     (if slidWinSize (config s) \<le> txSlidWinSize s then Some s
      else if unat (wptr (txFifo s)) = unat (rptr (txFifo s)) + unat (txSlidWinSize s) then Some s
      else do {
        let r = rptr (txFifo s) + txSlidWinSize s;
        let off = fifo_slot (txFifo s) r;
        let s1 = s\<lparr>txSlidWinSize := txSlidWinSize s + 1\<rparr>;
        h \<leftarrow> get_bytes (fp (txFifo s)) off 3;
        let len = BYTES_TO_UINT16 (h ! 0) (h ! 1);
        (res, s2) \<leftarrow> HCI_H5_Send (h ! 2) (Some (drop (off + 3) (fp (txFifo s)))) (ucast len - 1) s1;
        Some (if \<not> res
              then s2\<lparr>txSeq := (txSeq s2 - 1) AND 0x07, txSlidWinSize := txSlidWinSize s2 - 1,
                      txTick := 0\<rparr>
              else s2\<lparr>rxSlidWinSize := 0, txTick := now OR 1, rxTick := 0\<rparr>) })"

definition HCI_H5_SendPureAck :: "h5 \<Rightarrow> (bool \<times> h5) option" where
  "HCI_H5_SendPureAck s = HCI_H5_Send HCI_H5_PKT_TYPE_ACK None 0 s"

definition HCI_H5_SendSync :: "h5 \<Rightarrow> h5 option" where
  "HCI_H5_SendSync s =
     map_option snd (HCI_H5_Send HCI_H5_PKT_TYPE_LINK_CTRL (Some (UINT16_TO_BSTREAM HCI_H5_MSG_SYNC)) 2 s)"

definition HCI_H5_SendSyncRsp :: "h5 \<Rightarrow> h5 option" where
  "HCI_H5_SendSyncRsp s =
     map_option snd (HCI_H5_Send HCI_H5_PKT_TYPE_LINK_CTRL (Some (UINT16_TO_BSTREAM HCI_H5_MSG_SYNC_RSP)) 2 s)"

definition h5_config_byte :: "h5_config \<Rightarrow> u8" where
  "h5_config_byte c =
     slidWinSize c OR push_bit 3 (oofFlowCtrl c) OR push_bit 4 (dataIntgrtChkType c) OR
     push_bit 5 (version c)"

definition HCI_H5_SendConfig :: "h5 \<Rightarrow> h5 option" where
  "HCI_H5_SendConfig s =
     map_option snd (HCI_H5_Send HCI_H5_PKT_TYPE_LINK_CTRL
       (Some (UINT16_TO_BSTREAM HCI_H5_MSG_CONFIG @ [h5_config_byte (hciH5Config s)])) 3 s)"

definition HCI_H5_SendConfigRsp :: "h5 \<Rightarrow> h5 option" where
  "HCI_H5_SendConfigRsp s =
     map_option snd (HCI_H5_Send HCI_H5_PKT_TYPE_LINK_CTRL
       (Some (UINT16_TO_BSTREAM HCI_H5_MSG_CONFIG_RSP @ [h5_config_byte (hciH5Config s)])) 3 s)"

section \<open>Link control\<close>

definition h5_negotiate :: "h5_config \<Rightarrow> u8 \<Rightarrow> h5_config" where
  "h5_negotiate c cfg =
     \<lparr>slidWinSize = min (slidWinSize c) (cfg AND 0x07),
      oofFlowCtrl = oofFlowCtrl c AND (drop_bit 3 cfg AND 0x01),
      dataIntgrtChkType = dataIntgrtChkType c AND (drop_bit 4 cfg AND 0x01),
      version = min (version c) (drop_bit 5 cfg AND 0x07)\<rparr>"

text \<open>\<open>HCI_H5_DecodeLinkPdu\<close>; the configuration byte is read from behind the message whatever
  the length of the packet.\<close>

definition HCI_H5_DecodeLinkPdu :: "u32 \<Rightarrow> u8 list \<Rightarrow> h5 \<Rightarrow> h5 option" where
  "HCI_H5_DecodeLinkPdu now pPacket s =
     do { p \<leftarrow> get_bytes pPacket HCI_H5_HEAD_LEN 3;
          let msg = BYTES_TO_UINT16 (p ! 0) (p ! 1);
          let cfg = p ! 2;
          (case linkState s of
             HCI_H5_LINK_STATE_IDLE \<Rightarrow>
               if msg = HCI_H5_MSG_SYNC then HCI_H5_SendSyncRsp s
               else if msg = HCI_H5_MSG_SYNC_RSP then
                 HCI_H5_SendConfig (s\<lparr>linkState := HCI_H5_LINK_STATE_INIT\<rparr>)
               else HCI_H5_SendSync s
           | HCI_H5_LINK_STATE_INIT \<Rightarrow>
               if msg = HCI_H5_MSG_SYNC then HCI_H5_SendSyncRsp s
               else if msg = HCI_H5_MSG_CONFIG then HCI_H5_SendConfigRsp s
               else if msg = HCI_H5_MSG_CONFIG_RSP then
                 Some ((HCI_H5_Reset now (s\<lparr>linkState := HCI_H5_LINK_STATE_ACTIVE\<rparr>))
                         \<lparr>config := h5_negotiate (hciH5Config s) cfg\<rparr>)
               else Some s
           | HCI_H5_LINK_STATE_ACTIVE \<Rightarrow>
               if msg = HCI_H5_MSG_CONFIG then HCI_H5_SendConfigRsp s
               else if msg = HCI_H5_MSG_SYNC then
                 (let s1 = HCI_H5_Reset now (s\<lparr>linkState := HCI_H5_LINK_STATE_IDLE\<rparr>)
                  in HCI_H5_SendSyncRsp (s1\<lparr>hciResets := hciResets s1 + 1\<rparr>))
               else Some s) }"

section \<open>Receiving\<close>

text \<open>\<open>HCI_H5_PackHciPdu\<close>; its overflow check only asserts.\<close>

definition HCI_H5_PackHciPdu :: "u8 \<Rightarrow> u8 list \<Rightarrow> u16 \<Rightarrow> h5 \<Rightarrow> h5 option" where
  "HCI_H5_PackHciPdu hciType pPayload len s =
     do { xs \<leftarrow> get_bytes pPayload 0 (unat len);
          f \<leftarrow> fifo_push (rxFifo s) (hciType # xs);
          Some (s\<lparr>rxFifo := f\<rparr>) }"

definition HCI_H5_ResendStart :: "u32 \<Rightarrow> h5 \<Rightarrow> h5 option" where
  "HCI_H5_ResendStart now s = HCI_H5_SendData now (s\<lparr>txSeq := rxAck s, txSlidWinSize := 0\<rparr>)"

definition h5_release_acked :: "h5 \<Rightarrow> h5" where
  "h5_release_acked s =
     s\<lparr>txFifo := (txFifo s)\<lparr>rptr := rptr (txFifo s) + txSlidWinSize s\<rparr>, txSlidWinSize := 0,
       txTick := 0, resendTick := 0\<rparr>"

definition HCI_H5_ReSendCheck :: "u32 \<Rightarrow> h5 \<Rightarrow> h5" where
  "HCI_H5_ReSendCheck now s =
     (if rxAck s = txSeq s then h5_release_acked s
      else s\<lparr>txTick := 0, resendTick := (if resendTick s = 0 then now OR 1 else resendTick s)\<rparr>)"

text \<open>The check of the CRC at the end of a data packet: the running value starts at 0 here.\<close>

definition h5_crc_ok :: "u8 list \<Rightarrow> u32 \<Rightarrow> bool option" where
  "h5_crc_ok pPacket len =
     (let pLen = unat (ucast len - of_nat HCI_H5_CRC_LEN :: u16) in
      do { xs \<leftarrow> get_bytes pPacket 0 pLen;
           b1 \<leftarrow> get_byte pPacket (pLen + 1);
           b0 \<leftarrow> get_byte pPacket pLen;
           let c = HCI_H5_CcittCrc16Calc 0x0000 xs;
           Some (ucast (c AND 0xFF) = b1 \<and> ucast (drop_bit 8 c AND 0xFF) = b0) })"

definition h5_recv_reliable :: "u32 \<Rightarrow> h5_head \<Rightarrow> u8 list \<Rightarrow> h5 \<Rightarrow> h5 option" where
  "h5_recv_reliable now h pPacket s =
     do { s1 \<leftarrow>
            (if seqNum h = txAck s then
               do { let s1 = s\<lparr>txAck := (txAck s + 1) mod 8, rxSlidWinSize := rxSlidWinSize s + 1,
                               rxTick := now OR 1\<rparr>;
                    s2 \<leftarrow> (if slidWinSize (config s1) = 1 then Some s1
                          else if slidWinSize (config s1) \<le> rxSlidWinSize s1 then
                            map_option (\<lambda>(_, s2). s2\<lparr>rxSlidWinSize := 0\<rparr>) (HCI_H5_SendPureAck s1)
                          else Some s1);
                    HCI_H5_PackHciPdu (pktType h) (drop HCI_H5_HEAD_LEN pPacket) (payloadLen h) s2 }
             else Some s);
          Some (if ackNum h = txSeq s1 then h5_release_acked (s1\<lparr>rxAck := ackNum h\<rparr>)
                else if resendTick s1 = 0 then s1\<lparr>resendTick := now OR 1\<rparr> else s1) }"

definition HCI_H5_DecodeDataPdu :: "u32 \<Rightarrow> h5_head \<Rightarrow> u8 list \<Rightarrow> u32 \<Rightarrow> h5 \<Rightarrow> h5 option" where
  "HCI_H5_DecodeDataPdu now h pPacket len s =
     (if dataIntgrtChkType (config s) = 0 \<and> crc h \<noteq> 0 then Some s
      else do {
        ok \<leftarrow> (if crc h \<noteq> 0 then h5_crc_ok pPacket len else Some True);
        if \<not> ok then Some s
        else if reliable h \<noteq> 0 then h5_recv_reliable now h pPacket s
        else HCI_H5_PackHciPdu (pktType h) (drop HCI_H5_HEAD_LEN pPacket) (payloadLen h)
               (s\<lparr>txAck := (txAck s + 1) mod 8\<rparr>) })"

text \<open>\<open>HCI_H5_PakcetHandler(pPacket, len)\<close>, the handler the SLIP decoder calls with its buffer.\<close>

definition HCI_H5_PakcetHandler :: "u32 \<Rightarrow> u8 list \<Rightarrow> u32 \<Rightarrow> h5 \<Rightarrow> h5 option" where
  "HCI_H5_PakcetHandler now pPacket len s =
     do { hd4 \<leftarrow> get_bytes pPacket 0 HCI_H5_HEAD_LEN;
          if \<not> HCI_H5_IsCheckSumValid hd4 then Some s
          else (let h = HCI_H5_UnpackHeader hd4;
                    total = HCI_H5_HEAD_LEN + unat (payloadLen h) +
                            (if crc h = 0 then 0 else HCI_H5_CRC_LEN)
                in if total \<noteq> unat len then Some s
                   else if pktType h = HCI_H5_PKT_TYPE_ACK then
                     (if linkState s \<noteq> HCI_H5_LINK_STATE_ACTIVE then Some s
                      else Some (HCI_H5_ReSendCheck now (s\<lparr>rxAck := ackNum h\<rparr>)))
                   else if pktType h = HCI_H5_PKT_TYPE_LINK_CTRL then HCI_H5_DecodeLinkPdu now pPacket s
                   else if pktType h = HCI_H5_PKT_TYPE_CMD \<or> pktType h = HCI_H5_PKT_TYPE_ACL \<or>
                           pktType h = HCI_H5_PKT_TYPE_SCO \<or> pktType h = HCI_H5_PKT_TYPE_EVT then
                     (if linkState s \<noteq> HCI_H5_LINK_STATE_ACTIVE then Some s
                      else HCI_H5_DecodeDataPdu now h pPacket len s)
                   else Some s) }"

section \<open>Poll\<close>

definition h5_poll_send :: "u32 \<Rightarrow> h5 \<Rightarrow> h5 option" where
  "h5_poll_send now s =
     (if resendTick s \<noteq> 0 then
        if clock_time_exceed now (resendTick s) (H5_RESEND_TO * 1000)
        then HCI_H5_ResendStart now (s\<lparr>resendTick := 0\<rparr>) else Some s
      else if slidWinSize (config s) \<le> txSlidWinSize s then
        if txTick s \<noteq> 0 \<and> clock_time_exceed now (txTick s) (H5_RESEND_TO * 1000)
        then HCI_H5_ResendStart now (s\<lparr>txTick := 0\<rparr>) else Some s
      else HCI_H5_SendData now s)"

definition HCI_H5_Poll :: "u32 \<Rightarrow> h5 \<Rightarrow> h5 option" where
  "HCI_H5_Poll now s =
     (case linkState s of
        HCI_H5_LINK_STATE_IDLE \<Rightarrow>
          if clock_time_exceed now (tick s) (250 * 1000)
          then map_option (\<lambda>s'. s'\<lparr>tick := now\<rparr>) (HCI_H5_SendSync s) else Some s
      | HCI_H5_LINK_STATE_INIT \<Rightarrow>
          if clock_time_exceed now (tick s) (250 * 1000)
          then map_option (\<lambda>s'. s'\<lparr>tick := now\<rparr>) (HCI_H5_SendConfig s) else Some s
      | HCI_H5_LINK_STATE_ACTIVE \<Rightarrow>
          do { s1 \<leftarrow> h5_poll_send now s;
               if slidWinSize (config s1) = 1 \<and> rxTick s1 \<noteq> 0 \<and>
                  clock_time_exceed now (rxTick s1) (H5_PURE_ACK_TO * 1000)
               then map_option (\<lambda>(_, s2). s2\<lparr>rxSlidWinSize := 0\<rparr>) (HCI_H5_SendPureAck (s1\<lparr>rxTick := 0\<rparr>))
               else Some s1 })"

text \<open>The decoder of the SLIP layer composed with the handler that \<open>HCI_H5_Init\<close> registered.\<close>

definition h5_slip_input :: "u32 \<Rightarrow> u8 list option \<Rightarrow> u32 \<Rightarrow> h5 \<Rightarrow> h5 option" where
  "h5_slip_input now pPacket len s =
     do { (cb, deliver) \<leftarrow> HCI_Slip_DecodePacket pPacket len (slip s);
          let s1 = s\<lparr>slip := cb\<rparr>;
          if deliver \<and> pktHandler cb = H5_PakcetHandler
          then HCI_H5_PakcetHandler now (pDecodeBuf cb) (ucast (decodeLen cb)) s1
          else Some s1 }"

end
