(* ===== verification/H5_Send.thy ===== *)
theory H5_Send
  imports H5_Link
begin

text \<open>
  What the send functions of \<^verbatim>\<open>hci_h5.c\<close> put on the wire.  \<open>h5_packet\<close> is the packet of a header
  and a payload; \<open>HCI_H5_Send\<close> is shown to transmit the SLIP frame of that packet and to change
  nothing but its buffers, the UART and the transmit sequence number.
\<close>

section \<open>Packets\<close>

definition h5_crc_bytes :: "u16 \<Rightarrow> u8 list" where
  "h5_crc_bytes c = [ucast (drop_bit 8 c AND 0xFF), ucast (c AND 0xFF)]"

definition h5_packet :: "h5_head \<Rightarrow> u8 list \<Rightarrow> u8 list" where
  "h5_packet h xs =
     (let body = HCI_H5_PackHeader h @ xs
      in body @ (if crc h \<noteq> 0 then h5_crc_bytes (HCI_H5_CcittCrc16Calc 0xFFFF body) else []))"

lemma h5_packet_length:
  "length (h5_packet h xs) = HCI_H5_HEAD_LEN + length xs + (if crc h \<noteq> 0 then HCI_H5_CRC_LEN else 0)"
  by (simp add: h5_packet_def Let_def h5_crc_bytes_def HCI_H5_HEAD_LEN_def HCI_H5_CRC_LEN_def)

text \<open>The buffers are large enough for a payload of \<open>n\<close> bytes.\<close>

definition h5_can_send :: "h5 \<Rightarrow> nat \<Rightarrow> bool" where
  "h5_can_send s n \<longleftrightarrow>
     HCI_H5_HEAD_LEN + n + HCI_H5_CRC_LEN \<le> length (h5TxBuf s) \<and>
     4 + (2 + 2 * (HCI_H5_HEAD_LEN + n + HCI_H5_CRC_LEN)) \<le> length (pEncodeBuf (slip s)) \<and>
     2 + 2 * (HCI_H5_HEAD_LEN + n + HCI_H5_CRC_LEN) < 65536"

text \<open>The fields that sending may change: everything else is the same in both states.\<close>

definition h5_send_frame :: "h5 \<Rightarrow> h5 \<Rightarrow> bool" where
  "h5_send_frame s s' \<longleftrightarrow>
     s' = s\<lparr>txSeq := txSeq s', h5TxBuf := h5TxBuf s', slip := slip s', uart := uart s'\<rparr> \<and>
     length (h5TxBuf s') = length (h5TxBuf s) \<and> slip_tx_frame (slip s) (slip s')"

text \<open>The payload argument: the null pointer with length 0, or memory that starts with \<open>xs\<close>.\<close>

definition h5_payload :: "u8 list option \<Rightarrow> u32 \<Rightarrow> u8 list \<Rightarrow> bool" where
  "h5_payload pPacket len xs \<longleftrightarrow>
     length xs = unat len \<and>
     (case pPacket of None \<Rightarrow> len = 0 | Some mem \<Rightarrow> get_bytes mem 0 (unat len) = Some xs)"

definition h5_sent :: "u8 \<Rightarrow> u8 list \<Rightarrow> h5 \<Rightarrow> bool \<Rightarrow> h5 \<Rightarrow> bool" where
  "h5_sent type xs s res s' \<longleftrightarrow>
     h5_send_frame s s' \<and> res = isUartTxDone (uart s) \<and>
     txSeq s' = (if HCI_H5_IsReliablePacket type then (txSeq s + 1) mod 8 else txSeq s) \<and>
     uart s' =
       (if res then (uart s)\<lparr>isUartTxDone := False,
          uartSent := uartSent (uart s) @
            [slip_frame (oofEnable (slip s)) (h5_packet (h5_send_head type (of_nat (length xs)) s) xs)]\<rparr>
        else uart s)"

section \<open>The send function\<close>

lemma h5_put_payload_eq:
  assumes "4 + length xs \<le> length buf" and "h5_payload pPacket len xs"
  shows "h5_put_payload pPacket len buf =
     Some (take 4 buf @ xs @ drop (4 + length xs) buf, 4 + length xs)"
proof (cases "len = 0")
  case True
  then have "xs = []" "h5_put_payload pPacket len buf = Some (buf, 4)"
    using assms(2) by (auto simp: h5_payload_def h5_put_payload_def split: option.splits)
  then show ?thesis
    by simp
next
  case False
  then obtain mem where "pPacket = Some mem" "get_bytes mem 0 (unat len) = Some xs"
    using assms(2) by (auto simp: h5_payload_def split: option.splits)
  then show ?thesis
    using False assms by (simp add: h5_put_payload_def h5_payload_def put_bytes_def)
qed

lemma h5_put_crc_eq:
  assumes "unat len = length xs" and "2 \<le> length rest"
  shows "h5_put_crc (crc h) len (HCI_H5_PackHeader h @ xs @ rest, 4 + length xs) =
     Some (h5_packet h xs @ drop (if crc h \<noteq> 0 then 2 else 0) rest)"
proof -
  have "get_bytes (HCI_H5_PackHeader h @ xs @ rest) 0 (4 + length xs) = Some (HCI_H5_PackHeader h @ xs)"
    by (simp add: get_bytes_def)
  moreover have "put_bytes (HCI_H5_PackHeader h @ xs @ rest) (4 + length xs) [b0, b1] =
      Some (HCI_H5_PackHeader h @ xs @ [b0, b1] @ drop 2 rest)" for b0 b1
    using assms(2) by (simp add: put_bytes_def)
  ultimately show ?thesis
    by (simp add: h5_put_crc_def assms(1) h5_packet_def h5_crc_bytes_def Let_def)
qed

lemma HCI_Slip_Send_prefix:
  "length pkt = unat len \<Longrightarrow> HCI_Slip_Send (pkt @ rest) len st = HCI_Slip_Send pkt len st"
  by (simp add: HCI_Slip_Send_def HCI_Slip_EncodePacket_def get_bytes_def split: prod.splits)

theorem HCI_H5_Send_sent:
  assumes "h5_payload pPacket len xs" and "h5_can_send s (length xs)"
  obtains res s' where "HCI_H5_Send type pPacket len s = Some (res, s')" and "h5_sent type xs s res s'"
proof -
  let ?h = "h5_send_head type len s"
  let ?s1 = "if HCI_H5_IsReliablePacket type then s\<lparr>txSeq := (txSeq s + 1) mod 8\<rparr> else s"
  have n: "unat len = length xs" "len = of_nat (length xs)"
    using assms(1) by (simp_all add: h5_payload_def)
  have room: "HCI_H5_HEAD_LEN + length xs + HCI_H5_CRC_LEN \<le> length (h5TxBuf s)"
    using assms(2) by (simp add: h5_can_send_def)
  let ?b1 = "HCI_H5_PackHeader ?h @ drop 4 (h5TxBuf s)"
  let ?rest = "drop (4 + length xs) (h5TxBuf s)" and ?k = "if crc ?h \<noteq> 0 then 2 else 0 :: nat"
  have hdr: "put_bytes (h5TxBuf ?s1) 0 (HCI_H5_PackHeader ?h) = Some ?b1"
    using room by (simp add: put_bytes_def)
  have pay: "h5_put_payload pPacket len ?b1 = Some (HCI_H5_PackHeader ?h @ xs @ ?rest, 4 + length xs)"
    using room h5_put_payload_eq [OF _ assms(1), of ?b1] by (simp add: add.commute)
  have crc: "h5_put_crc (crc ?h) len (HCI_H5_PackHeader ?h @ xs @ ?rest, 4 + length xs) =
      Some (h5_packet ?h xs @ drop ?k ?rest)"
    using room by (intro h5_put_crc_eq n(1)) simp
  have len: "length (h5_packet ?h xs @ drop ?k ?rest) = length (h5TxBuf s)"
    using room by (simp add: h5_packet_length)
  let ?pktLen = "ucast (of_nat HCI_H5_HEAD_LEN + ucast len +
      (if crc ?h \<noteq> 0 then of_nat HCI_H5_CRC_LEN else 0) :: u16) :: u32"
  have pktLen: "length (h5_packet ?h xs) = unat ?pktLen"
    using assms(2)
    by (simp add: h5_packet_length h5_can_send_def HCI_H5_HEAD_LEN_def HCI_H5_CRC_LEN_def n(2)
        unsigned_ucast_eq unat_word_ariths unat_of_nat take_bit_eq_mod)
  have slip_len: "length (slip_frame (oofEnable (slip s)) (h5_packet ?h xs)) \<le>
      2 + 2 * (HCI_H5_HEAD_LEN + length xs + HCI_H5_CRC_LEN)"
    using slip_escape_length(2) [of "oofEnable (slip s)" "h5_packet ?h xs"]
    by (simp add: slip_frame_length h5_packet_length split: if_splits)
  have fits: "4 + length (slip_frame (oofEnable (slip s)) (h5_packet ?h xs)) \<le> length (pEncodeBuf (slip s))"
    "length (slip_frame (oofEnable (slip s)) (h5_packet ?h xs)) < 65536"
    using assms(2) slip_len by (auto simp: h5_can_send_def)
  have send: "HCI_H5_Send type pPacket len s =
      do { (res, sl, u) \<leftarrow> HCI_Slip_Send (h5_packet ?h xs) ?pktLen (slip s, uart s);
           Some (res, ?s1\<lparr>h5TxBuf := h5_packet ?h xs @ drop ?k ?rest, slip := sl, uart := u\<rparr>) }"
    unfolding HCI_H5_Send_def Let_def hdr bind.bind_lunit pay crc HCI_Slip_Send_prefix [OF pktLen]
    by simp
  obtain cb' where cb': "HCI_Slip_Send (h5_packet ?h xs) ?pktLen (slip s, uart s) =
        Some (isUartTxDone (uart s), cb', if isUartTxDone (uart s)
          then (uart s)\<lparr>isUartTxDone := False,
                 uartSent := uartSent (uart s) @ [slip_frame (oofEnable (slip s)) (h5_packet ?h xs)]\<rparr>
          else uart s)"
      and frame: "slip_tx_frame (slip s) cb'"
    by (rule HCI_Slip_Send_result [OF pktLen fits])
  from send cb' have eq: "HCI_H5_Send type pPacket len s = Some (isUartTxDone (uart s),
        ?s1\<lparr>h5TxBuf := h5_packet ?h xs @ drop ?k ?rest, slip := cb',
            uart := if isUartTxDone (uart s)
              then (uart s)\<lparr>isUartTxDone := False,
                 uartSent := uartSent (uart s) @ [slip_frame (oofEnable (slip s)) (h5_packet ?h xs)]\<rparr>
              else uart s\<rparr>)"
    by simp
  show ?thesis
    by (rule that [OF eq]) (use len frame n(2) in \<open>simp add: h5_sent_def h5_send_frame_def\<close>)
qed

end
