(* ===== verification/H5_Safety.thy ===== *)
theory H5_Safety
  imports H5_Send
begin

text \<open>
  Safety of the H5 link layer (\<^verbatim>\<open>hci_h5.c\<close>): a well-formedness invariant of the control block and
  its buffers, the events that drive it (a frame from the UART, the poll, the transmit-done
  interrupt, packets entering and leaving the two HCI rings), and the proof that from a
  well-formed state every event is handled without an access outside a buffer and keeps the
  invariant.  The window size is at most 1, as the code configures it.
\<close>

section \<open>The invariant\<close>

definition h5_seq_ok :: "h5 \<Rightarrow> bool" where
  "h5_seq_ok s \<longleftrightarrow> txSeq s < 8 \<and> txAck s < 8 \<and> rxAck s < 8"

text \<open>A slot of the transmit ring holds a 16-bit length, the packet type and the packet; the
  length counts the type byte.\<close>

definition h5_tx_item :: "u8 list \<Rightarrow> bool" where
  "h5_tx_item item \<longleftrightarrow>
     3 \<le> length item \<and> 1 \<le> unat (BYTES_TO_UINT16 (item ! 0) (item ! 1)) \<and>
     unat (BYTES_TO_UINT16 (item ! 0) (item ! 1)) + 2 \<le> length item \<and>
     HCI_H5_IsReliablePacket (item ! 2)"

definition h5_item_payload :: "u8 list \<Rightarrow> u8 list" where
  "h5_item_payload item = take (unat (BYTES_TO_UINT16 (item ! 0) (item ! 1)) - 1) (drop 3 item)"

definition h5_buf_ok :: "h5 \<Rightarrow> bool" where
  "h5_buf_ok s \<longleftrightarrow>
     fifo_wf (rxFifo s) \<and> fifo_inv (txFifo s) \<and> 3 \<le> unat (fsize (txFifo s)) \<and>
     h5_can_send s (unat (fsize (txFifo s))) \<and>
     7 \<le> length (pDecodeBuf (slip s)) \<and> length (pDecodeBuf (slip s)) < 65536 \<and>
     list_all h5_tx_item (fifo_items (txFifo s))"

definition h5_win_ok :: "h5 \<Rightarrow> bool" where
  "h5_win_ok s \<longleftrightarrow>
     slidWinSize (hciH5Config s) \<le> 1 \<and> slidWinSize (config s) \<le> 1 \<and>
     txSlidWinSize s \<le> slidWinSize (config s) \<and> unat (txSlidWinSize s) \<le> fifo_count (txFifo s)"

definition h5_wf :: "h5 \<Rightarrow> bool" where
  "h5_wf s \<longleftrightarrow> h5_seq_ok s \<and> h5_buf_ok s \<and> h5_win_ok s"

lemmas h5_wf_defs = h5_wf_def h5_seq_ok_def h5_buf_ok_def h5_win_ok_def

section \<open>Sending\<close>

lemma h5_send_frame_fields:
  assumes "h5_send_frame s s'"
  shows "rxFifo s' = rxFifo s" "txFifo s' = txFifo s" "hciH5Config s' = hciH5Config s"
    "config s' = config s" "tick s' = tick s" "linkState s' = linkState s"
    "rxSlidWinSize s' = rxSlidWinSize s" "txSlidWinSize s' = txSlidWinSize s" "txAck s' = txAck s"
    "rxAck s' = rxAck s" "txTick s' = txTick s" "rxTick s' = rxTick s"
    "resendTick s' = resendTick s" "hciResets s' = hciResets s"
  using assms by (cases s; cases s'; simp add: h5_send_frame_def)+

lemma h5_sent_fields:
  assumes "h5_sent type xs s res s'"
  shows "rxFifo s' = rxFifo s" "txFifo s' = txFifo s" "hciH5Config s' = hciH5Config s"
    "config s' = config s" "tick s' = tick s" "linkState s' = linkState s"
    "rxSlidWinSize s' = rxSlidWinSize s" "txSlidWinSize s' = txSlidWinSize s" "txAck s' = txAck s"
    "rxAck s' = rxAck s" "txTick s' = txTick s" "rxTick s' = rxTick s"
    "resendTick s' = resendTick s" "hciResets s' = hciResets s"
    "pDecodeBuf (slip s') = pDecodeBuf (slip s)" "pktHandler (slip s') = pktHandler (slip s)"
    "length (h5TxBuf s') = length (h5TxBuf s)"
    "length (pEncodeBuf (slip s')) = length (pEncodeBuf (slip s))"
    "oofEnable (slip s') = oofEnable (slip s)"
proof -
  have frame: "h5_send_frame s s'"
    using assms by (simp add: h5_sent_def)
  then have tx: "slip_tx_frame (slip s) (slip s')" "length (h5TxBuf s') = length (h5TxBuf s)"
    by (simp_all only: h5_send_frame_def)
  show "rxFifo s' = rxFifo s" "txFifo s' = txFifo s" "hciH5Config s' = hciH5Config s"
    "config s' = config s" "tick s' = tick s" "linkState s' = linkState s"
    "rxSlidWinSize s' = rxSlidWinSize s" "txSlidWinSize s' = txSlidWinSize s" "txAck s' = txAck s"
    "rxAck s' = rxAck s" "txTick s' = txTick s" "rxTick s' = rxTick s"
    "resendTick s' = resendTick s" "hciResets s' = hciResets s"
    by (rule h5_send_frame_fields [OF frame])+
  show "pDecodeBuf (slip s') = pDecodeBuf (slip s)" "pktHandler (slip s') = pktHandler (slip s)"
    "length (h5TxBuf s') = length (h5TxBuf s)"
    "length (pEncodeBuf (slip s')) = length (pEncodeBuf (slip s))"
    "oofEnable (slip s') = oofEnable (slip s)"
    using tx by (simp_all add: slip_tx_frame_def)
qed

lemma u8_and7_less: "(x :: u8) AND 7 < 8"
  using word_and_le1 [of x 7] by (simp add: le_less_trans)

lemma u8_mod8_less: "(x :: u8) mod 8 < 8"
  by (rule word_mod_less_divisor) simp

lemma h5_sent_wf:
  assumes "h5_sent type xs s res s'" and "h5_wf s"
  shows "h5_wf s'"
proof -
  have "txSeq s' < 8"
    using assms by (simp add: h5_sent_def h5_wf_defs u8_mod8_less)
  then show ?thesis
    using assms(2) by (simp add: h5_wf_defs h5_can_send_def h5_sent_fields [OF assms(1)])
qed

text \<open>The small messages of the link layer always fit.\<close>

lemma h5_can_send_mono: "h5_can_send s n \<Longrightarrow> m \<le> n \<Longrightarrow> h5_can_send s m"
  by (simp add: h5_can_send_def)

lemma h5_send_small:
  assumes "h5_wf s" and "h5_payload pPacket len xs" and "length xs \<le> unat (fsize (txFifo s))"
  obtains res s' where "HCI_H5_Send type pPacket len s = Some (res, s')"
    and "h5_sent type xs s res s'" and "h5_wf s'"
proof -
  have "h5_can_send s (length xs)"
    using assms(1,3) by (auto simp: h5_wf_defs intro: h5_can_send_mono)
  from HCI_H5_Send_sent [OF assms(2) this] obtain res s' where
    sent: "HCI_H5_Send type pPacket len s = Some (res, s')" "h5_sent type xs s res s'" .
  show ?thesis
    by (rule that [OF sent h5_sent_wf [OF sent(2) assms(1)]])
qed

lemma h5_wf_small: "h5_wf s \<Longrightarrow> n \<le> 3 \<Longrightarrow> n \<le> unat (fsize (txFifo s))"
  by (simp add: h5_wf_defs)

lemma h5_payload_Some: "length xs = n \<Longrightarrow> n < 2 ^ 32 \<Longrightarrow> h5_payload (Some xs) (of_nat n) xs"
  by (simp add: h5_payload_def get_bytes_def unat_of_nat)

lemma h5_payload_None: "h5_payload None 0 []"
  by (simp add: h5_payload_def)

text \<open>Each link message is sent, with the payload the protocol gives it.\<close>

lemma h5_control_sent:
  assumes "h5_wf s"
  shows "\<exists>res s'. HCI_H5_SendPureAck s = Some (res, s') \<and> h5_sent HCI_H5_PKT_TYPE_ACK [] s res s'"
    and "\<exists>res s'. HCI_H5_SendSync s = Some s' \<and>
           h5_sent HCI_H5_PKT_TYPE_LINK_CTRL (UINT16_TO_BSTREAM HCI_H5_MSG_SYNC) s res s'"
    and "\<exists>res s'. HCI_H5_SendSyncRsp s = Some s' \<and>
           h5_sent HCI_H5_PKT_TYPE_LINK_CTRL (UINT16_TO_BSTREAM HCI_H5_MSG_SYNC_RSP) s res s'"
    and "\<exists>res s'. HCI_H5_SendConfig s = Some s' \<and>
           h5_sent HCI_H5_PKT_TYPE_LINK_CTRL
             (UINT16_TO_BSTREAM HCI_H5_MSG_CONFIG @ [h5_config_byte (hciH5Config s)]) s res s'"
    and "\<exists>res s'. HCI_H5_SendConfigRsp s = Some s' \<and>
           h5_sent HCI_H5_PKT_TYPE_LINK_CTRL
             (UINT16_TO_BSTREAM HCI_H5_MSG_CONFIG_RSP @ [h5_config_byte (hciH5Config s)]) s res s'"
proof -
  have two: "h5_payload (Some (UINT16_TO_BSTREAM m)) 2 (UINT16_TO_BSTREAM m)" for m
    using h5_payload_Some [of "UINT16_TO_BSTREAM m" 2] by simp
  have three: "h5_payload (Some (UINT16_TO_BSTREAM m @ [c])) 3 (UINT16_TO_BSTREAM m @ [c])" for m c
    using h5_payload_Some [of "UINT16_TO_BSTREAM m @ [c]" 3] by simp
  note send = h5_send_small [OF assms]
  note small = h5_wf_small [OF assms]
  show "\<exists>res s'. HCI_H5_SendPureAck s = Some (res, s') \<and> h5_sent HCI_H5_PKT_TYPE_ACK [] s res s'"
    unfolding HCI_H5_SendPureAck_def by (rule send [OF h5_payload_None]) auto
  show "\<exists>res s'. HCI_H5_SendSync s = Some s' \<and>
      h5_sent HCI_H5_PKT_TYPE_LINK_CTRL (UINT16_TO_BSTREAM HCI_H5_MSG_SYNC) s res s'"
    unfolding HCI_H5_SendSync_def by (rule send [OF two]) (auto simp: small)
  show "\<exists>res s'. HCI_H5_SendSyncRsp s = Some s' \<and>
      h5_sent HCI_H5_PKT_TYPE_LINK_CTRL (UINT16_TO_BSTREAM HCI_H5_MSG_SYNC_RSP) s res s'"
    unfolding HCI_H5_SendSyncRsp_def by (rule send [OF two]) (auto simp: small)
  show "\<exists>res s'. HCI_H5_SendConfig s = Some s' \<and>
      h5_sent HCI_H5_PKT_TYPE_LINK_CTRL
        (UINT16_TO_BSTREAM HCI_H5_MSG_CONFIG @ [h5_config_byte (hciH5Config s)]) s res s'"
    unfolding HCI_H5_SendConfig_def by (rule send [OF three]) (auto simp: small)
  show "\<exists>res s'. HCI_H5_SendConfigRsp s = Some s' \<and>
      h5_sent HCI_H5_PKT_TYPE_LINK_CTRL
        (UINT16_TO_BSTREAM HCI_H5_MSG_CONFIG_RSP @ [h5_config_byte (hciH5Config s)]) s res s'"
    unfolding HCI_H5_SendConfigRsp_def by (rule send [OF three]) (auto simp: small)
qed

section \<open>Data packets to the host\<close>

text \<open>\<open>h5_step_ok s r\<close>: the operation did not leave a buffer and its result is well formed.\<close>

definition h5_step_ok :: "h5 option \<Rightarrow> bool" where
  "h5_step_ok r \<longleftrightarrow> (\<exists>s'. r = Some s' \<and> h5_wf s')"

lemma h5_step_ok_Some [simp]: "h5_step_ok (Some s) \<longleftrightarrow> h5_wf s"
  by (simp add: h5_step_ok_def)

lemma h5_step_okE: "h5_step_ok r \<Longrightarrow> (\<And>s'. r = Some s' \<Longrightarrow> h5_wf s' \<Longrightarrow> P) \<Longrightarrow> P"
  by (auto simp: h5_step_ok_def)

text \<open>What a successful or refused transmission of a data packet leaves behind.\<close>

definition h5_data_result :: "u32 \<Rightarrow> bool \<Rightarrow> h5 \<Rightarrow> h5" where
  "h5_data_result now res s2 =
     (if \<not> res then s2\<lparr>txSeq := (txSeq s2 - 1) AND 0x07, txSlidWinSize := txSlidWinSize s2 - 1, txTick := 0\<rparr>
      else s2\<lparr>rxSlidWinSize := 0, txTick := now OR 1, rxTick := 0\<rparr>)"

lemma u8_window_one: "w \<le> (1 :: u8) \<Longrightarrow> \<not> w \<le> x \<Longrightarrow> w = 1 \<and> x = 0"
  by (auto simp: word_le_nat_alt word_unat_eq_iff)

lemma fifo_head_bytes:
  assumes "fifo_inv f" and "\<not> fifo_empty f" and "3 \<le> unat (fsize f)"
  shows "get_bytes (fp f) (fifo_slot f (rptr f)) 3 = Some (take 3 (hd (fifo_items f)))"
    and "n + 3 \<le> unat (fsize f) \<Longrightarrow>
      get_bytes (drop (fifo_slot f (rptr f) + 3) (fp f)) 0 n = Some (take n (drop 3 (hd (fifo_items f))))"
  using fifo_slot_fits [of f "rptr f"] assms
  by (auto simp: fifo_inv_def get_bytes_def fifo_pop_items(3) [OF assms(1,2)] fifo_read_def
      min_def drop_take add.commute)

lemma fifo_head_item:
  assumes "h5_buf_ok s" and "\<not> fifo_empty (txFifo s)"
  shows "h5_tx_item (hd (fifo_items (txFifo s)))"
    and "length (hd (fifo_items (txFifo s))) = unat (fsize (txFifo s))"
proof -
  have "fifo_items (txFifo s) \<noteq> []"
    using assms(2) by (metis fifo_empty_count fifo_items_length length_0_conv)
  then show "h5_tx_item (hd (fifo_items (txFifo s)))"
    using assms(1) by (simp add: h5_buf_ok_def list_all_iff)
  show "length (hd (fifo_items (txFifo s))) = unat (fsize (txFifo s))"
    using assms
    by (simp add: h5_buf_ok_def fifo_pop_items(3) fifo_read_length fifo_inv_def)
qed

text \<open>\<open>HCI_H5_SendData\<close> sends the oldest packet of the transmit ring when the window is open.\<close>

lemma HCI_H5_SendData_item:
  assumes wf: "h5_wf s" and open_win: "\<not> slidWinSize (config s) \<le> txSlidWinSize s"
    and ne: "\<not> fifo_empty (txFifo s)"
  obtains res s2 where
    "HCI_H5_SendData now s = Some (h5_data_result now res s2)"
    and "h5_sent (hd (fifo_items (txFifo s)) ! 2) (h5_item_payload (hd (fifo_items (txFifo s))))
           (s\<lparr>txSlidWinSize := 1\<rparr>) res s2"
proof -
  let ?f = "txFifo s" and ?item = "hd (fifo_items (txFifo s))"
  let ?len = "BYTES_TO_UINT16 (?item ! 0) (?item ! 1)" and ?s1 = "s\<lparr>txSlidWinSize := 1\<rparr>"
  have buf: "h5_buf_ok s" "fifo_inv ?f" "3 \<le> unat (fsize ?f)"
    using wf by (simp_all add: h5_wf_defs)
  have win: "slidWinSize (config s) = 1" "txSlidWinSize s = 0"
    using wf u8_window_one [OF _ open_win] by (auto simp: h5_wf_defs)
  note item = fifo_head_item [OF buf(1) ne]
  have len: "1 \<le> unat ?len" "unat ?len + 2 \<le> unat (fsize ?f)"
    using item by (simp_all add: h5_tx_item_def)
  have n: "unat (ucast ?len - 1 :: u32) = unat ?len - 1"
  proof -
    have "unat (ucast ?len :: u32) = unat ?len"
      using unat_bound(2) [of ?len] by (simp add: unsigned_ucast_eq take_bit_nat_eq_self)
    then show ?thesis
      using len(1) by (simp add: unat_sub word_le_nat_alt)
  qed
  have mem: "get_bytes (drop (fifo_slot ?f (rptr ?f) + 3) (fp ?f)) 0 (unat ?len - 1) =
      Some (h5_item_payload ?item)"
    using fifo_head_bytes(2) [OF buf(2) ne buf(3), of "unat ?len - 1"] len
    by (simp add: h5_item_payload_def)
  have pay: "h5_payload (Some (drop (fifo_slot ?f (rptr ?f) + 3) (fp ?f))) (ucast ?len - 1)
      (h5_item_payload ?item)"
    unfolding h5_payload_def n using get_bytes_length [OF mem] mem by simp
  have "h5_can_send ?s1 (length (h5_item_payload ?item))"
    using wf len get_bytes_length [OF mem]
    by (auto simp: h5_wf_defs h5_can_send_def)
  from HCI_H5_Send_sent [OF pay this] obtain res s2 where
    send: "HCI_H5_Send (?item ! 2) (Some (drop (fifo_slot ?f (rptr ?f) + 3) (fp ?f))) (ucast ?len - 1) ?s1 =
      Some (res, s2)" and sent: "h5_sent (?item ! 2) (h5_item_payload ?item) ?s1 res s2" .
  have differ: "unat (wptr ?f) \<noteq> unat (rptr ?f)"
    using ne by (simp add: fifo_empty_def word_unat_eq_iff)
  have "HCI_H5_SendData now s = Some (h5_data_result now res s2)"
    using open_win differ fifo_head_bytes(1) [OF buf(2) ne buf(3)] send
    by (simp add: HCI_H5_SendData_def win Let_def h5_data_result_def)
  then show ?thesis
    using sent by (rule that)
qed

lemma HCI_H5_SendData_idle:
  assumes "slidWinSize (config s) \<le> txSlidWinSize s \<or> fifo_empty (txFifo s) \<and> txSlidWinSize s = 0"
  shows "HCI_H5_SendData now s = Some s"
  using assms by (auto simp: HCI_H5_SendData_def fifo_empty_def)

lemma h5_data_result_wf:
  assumes "h5_sent type xs (s\<lparr>txSlidWinSize := 1\<rparr>) res s2" and "h5_wf s"
    and "slidWinSize (config s) = 1" and "\<not> fifo_empty (txFifo s)"
  shows "h5_wf (h5_data_result now res s2)"
proof -
  have "0 < fifo_count (txFifo s)"
    using assms(4) by (simp add: fifo_empty_count)
  then have "h5_wf (s\<lparr>txSlidWinSize := 1\<rparr>)"
    using assms(2,3) by (auto simp: h5_wf_defs h5_can_send_def)
  from h5_sent_wf [OF assms(1) this] show ?thesis
    using h5_sent_fields [OF assms(1)] assms(3)
    by (auto simp: h5_data_result_def h5_wf_defs h5_can_send_def u8_and7_less)
qed

lemma HCI_H5_SendData_ok:
  assumes "h5_wf s"
  shows "h5_step_ok (HCI_H5_SendData now s)"
proof (cases "slidWinSize (config s) \<le> txSlidWinSize s \<or> fifo_empty (txFifo s)")
  case False
  then have win: "slidWinSize (config s) = 1"
    using assms u8_window_one by (auto simp: h5_wf_defs)
  from False obtain res s2 where "HCI_H5_SendData now s = Some (h5_data_result now res s2)"
    and "h5_sent (hd (fifo_items (txFifo s)) ! 2) (h5_item_payload (hd (fifo_items (txFifo s))))
           (s\<lparr>txSlidWinSize := 1\<rparr>) res s2"
    by (auto intro: HCI_H5_SendData_item [OF assms])
  then show ?thesis
    using False by (simp add: h5_data_result_wf [OF _ assms win])
next
  case True
  then have "slidWinSize (config s) \<le> txSlidWinSize s \<or>
      fifo_empty (txFifo s) \<and> txSlidWinSize s = 0"
    using assms u8_window_one by (auto simp: h5_wf_defs)
  from HCI_H5_SendData_idle [OF this] show ?thesis
    using assms by simp
qed

lemma HCI_H5_ResendStart_ok: "h5_wf s \<Longrightarrow> h5_step_ok (HCI_H5_ResendStart now s)"
  unfolding HCI_H5_ResendStart_def
  by (rule HCI_H5_SendData_ok) (simp add: h5_wf_defs h5_can_send_def)

section \<open>Acknowledgements\<close>

lemma fifo_release:
  assumes "fifo_inv f" and "unat w \<le> fifo_count f" and "w \<le> 1"
  shows "fifo_inv (f\<lparr>rptr := rptr f + w\<rparr>)"
    and "fifo_items (f\<lparr>rptr := rptr f + w\<rparr>) = drop (unat w) (fifo_items f)"
proof -
  have "w = 0 \<or> w = 1"
    using assms(3) by (auto simp: word_le_nat_alt word_unat_eq_iff)
  moreover have "\<not> fifo_empty f" if "w = 1"
    using assms(2) that by (simp add: fifo_empty_count)
  moreover have "f\<lparr>rptr := rptr f + 1\<rparr> = fifo_pop f"
    by (simp add: fifo_pop_def)
  ultimately show "fifo_inv (f\<lparr>rptr := rptr f + w\<rparr>)"
    and "fifo_items (f\<lparr>rptr := rptr f + w\<rparr>) = drop (unat w) (fifo_items f)"
    using assms(1) by (auto simp: fifo_pop_items drop_Suc)
qed

lemma h5_release_acked_wf:
  assumes "h5_wf s"
  shows "h5_wf (h5_release_acked s)"
proof -
  have w: "txSlidWinSize s \<le> 1"
    using assms by (auto simp: h5_wf_defs)
  then have "fifo_inv ((txFifo s)\<lparr>rptr := rptr (txFifo s) + txSlidWinSize s\<rparr>)"
    and items: "fifo_items ((txFifo s)\<lparr>rptr := rptr (txFifo s) + txSlidWinSize s\<rparr>) =
      drop (unat (txSlidWinSize s)) (fifo_items (txFifo s))"
    using assms by (auto simp: h5_wf_defs intro: fifo_release)
  moreover have "list_all h5_tx_item (drop n (fifo_items (txFifo s)))" for n
    using assms by (auto simp: h5_wf_defs list_all_iff dest: in_set_dropD)
  ultimately show ?thesis
    using assms by (simp add: h5_release_acked_def h5_wf_defs h5_can_send_def)
qed

lemma HCI_H5_ReSendCheck_wf: "h5_wf s \<Longrightarrow> h5_wf (HCI_H5_ReSendCheck now s)"
  by (auto simp: HCI_H5_ReSendCheck_def h5_release_acked_wf)
    (simp_all add: h5_wf_defs h5_can_send_def)

lemma HCI_H5_SendPureAck_wf:
  assumes "h5_wf s"
  obtains res s' where "HCI_H5_SendPureAck s = Some (res, s')" and "h5_wf s'"
    and "h5_sent HCI_H5_PKT_TYPE_ACK [] s res s'"
  using h5_control_sent(1) [OF assms] h5_sent_wf [OF _ assms] by blast

section \<open>Poll\<close>

text \<open>The invariant does not speak of the clocks.\<close>

lemma h5_wf_clocks [simp]:
  "h5_wf (s\<lparr>tick := t\<rparr>) = h5_wf s" "h5_wf (s\<lparr>txTick := t\<rparr>) = h5_wf s"
  "h5_wf (s\<lparr>rxTick := t\<rparr>) = h5_wf s" "h5_wf (s\<lparr>resendTick := t\<rparr>) = h5_wf s"
  "h5_wf (s\<lparr>hciResets := n\<rparr>) = h5_wf s" "h5_wf (s\<lparr>linkState := l\<rparr>) = h5_wf s"
  "h5_wf (s\<lparr>rxSlidWinSize := w\<rparr>) = h5_wf s"
  by (simp_all add: h5_wf_defs h5_can_send_def)

lemma h5_poll_send_ok: "h5_wf s \<Longrightarrow> h5_step_ok (h5_poll_send now s)"
  unfolding h5_poll_send_def
  by (auto intro!: HCI_H5_SendData_ok HCI_H5_ResendStart_ok)

lemma HCI_H5_Poll_ok:
  assumes "h5_wf s"
  shows "h5_step_ok (HCI_H5_Poll now s)"
proof (cases "linkState s")
  case HCI_H5_LINK_STATE_IDLE
  with h5_control_sent(2) [OF assms] show ?thesis
    by (auto simp: HCI_H5_Poll_def assms dest!: h5_sent_wf [OF _ assms])
next
  case HCI_H5_LINK_STATE_INIT
  with h5_control_sent(4) [OF assms] show ?thesis
    by (auto simp: HCI_H5_Poll_def assms dest!: h5_sent_wf [OF _ assms])
next
  case HCI_H5_LINK_STATE_ACTIVE
  obtain s1 where s1: "h5_poll_send now s = Some s1" "h5_wf s1"
    using h5_poll_send_ok [OF assms] by (auto elim: h5_step_okE)
  then have "h5_wf (s1\<lparr>rxTick := 0\<rparr>)"
    by simp
  then obtain res s2 where "HCI_H5_SendPureAck (s1\<lparr>rxTick := 0\<rparr>) = Some (res, s2)" "h5_wf s2"
    by (rule HCI_H5_SendPureAck_wf)
  with HCI_H5_LINK_STATE_ACTIVE s1 show ?thesis
    by (auto simp: HCI_H5_Poll_def)
qed

section \<open>Link control packets\<close>

lemma fifo_reset_inv:
  "fifo_inv f \<Longrightarrow> fifo_inv (f\<lparr>wptr := 0, rptr := 0\<rparr>) \<and> fifo_items (f\<lparr>wptr := 0, rptr := 0\<rparr>) = []"
  by (simp add: fifo_inv_def fifo_wf_def fifo_count_def fifo_items_def)

lemma fifo_reset_wf: "fifo_wf f \<Longrightarrow> fifo_wf (f\<lparr>wptr := 0, rptr := 0\<rparr>)"
  by (simp add: fifo_wf_def)

lemma h5_reset_wf:
  assumes "h5_wf s" and "slidWinSize c \<le> 1"
  shows "h5_wf ((HCI_H5_Reset now (s\<lparr>linkState := l\<rparr>))\<lparr>config := c\<rparr>)"
    and "h5_wf (HCI_H5_Reset now (s\<lparr>linkState := l\<rparr>))"
  using assms fifo_reset_wf [of "rxFifo s"] fifo_reset_inv [of "txFifo s"]
  by (simp_all add: HCI_H5_Reset_def h5_wf_defs h5_can_send_def HCI_SLip_SetFlowCtrlEnable_def)

lemma h5_negotiate_window: "slidWinSize (h5_negotiate c cfg) \<le> slidWinSize c"
  by (simp add: h5_negotiate_def)

lemma HCI_H5_DecodeLinkPdu_ok:
  assumes "h5_wf s" and "7 \<le> length pPacket"
  shows "h5_step_ok (HCI_H5_DecodeLinkPdu now pPacket s)"
proof -
  obtain p where p: "get_bytes pPacket HCI_H5_HEAD_LEN 3 = Some p"
    using assms(2) by (simp add: get_bytes_def)
  have ok: "h5_step_ok (HCI_H5_SendSync t)" "h5_step_ok (HCI_H5_SendSyncRsp t)"
    "h5_step_ok (HCI_H5_SendConfig t)" "h5_step_ok (HCI_H5_SendConfigRsp t)" if "h5_wf t" for t
    using h5_control_sent [OF that] by (auto dest: h5_sent_wf [OF _ that])
  have init: "h5_wf (s\<lparr>linkState := l\<rparr>)" for l
    using assms(1) by (simp add: h5_wf_defs h5_can_send_def)
  have win: "slidWinSize (hciH5Config s) \<le> 1"
    using assms(1) by (simp add: h5_wf_defs)
  have count: "h5_wf (t\<lparr>hciResets := n\<rparr>)" if "h5_wf t" for t n
    using that by (simp add: h5_wf_defs h5_can_send_def)
  show ?thesis
    using assms(1) order_trans [OF h5_negotiate_window win]
    by (cases "linkState s")
      (simp_all add: HCI_H5_DecodeLinkPdu_def p [simplified] Let_def ok init count h5_reset_wf [OF assms(1)]
        h5_reset_wf(2) [OF assms(1) win])
qed

end
