(* ===== verification/H5_Receive.thy ===== *)
theory H5_Receive
  imports H5_Safety
begin

text \<open>
  The receive path of \<^verbatim>\<open>hci_h5.c\<close>: what \<open>HCI_H5_PakcetHandler\<close> does with every kind of packet,
  its delivery when the receive ring has a free slot, and its safety whenever the payload of a data
  packet fits a slot, also into a full ring.
\<close>

section \<open>Delivery to the controller\<close>

definition h5_rx_room :: "h5 \<Rightarrow> nat \<Rightarrow> bool" where
  "h5_rx_room s n \<longleftrightarrow>
     fifo_inv (rxFifo s) \<and> fifo_count (rxFifo s) < unat (fnum (rxFifo s)) \<and> n + 1 \<le> unat (fsize (rxFifo s))"

text \<open>The payload and the packet type fit a slot, whether a slot is free or not: into a full ring
  the packet is written over the oldest slot.\<close>

definition h5_slot_fits :: "h5 \<Rightarrow> nat \<Rightarrow> bool" where
  "h5_slot_fits s n \<longleftrightarrow> n + 1 \<le> unat (fsize (rxFifo s))"

text \<open>\<open>h5_delivered xs s f\<close>: the ring \<open>f\<close> is the receive ring of \<open>s\<close> with one more slot, which
  starts with \<open>xs\<close>.\<close>

definition h5_delivered :: "u8 list \<Rightarrow> h5 \<Rightarrow> hci_fifo \<Rightarrow> bool" where
  "h5_delivered xs s f \<longleftrightarrow>
     fifo_inv f \<and> fsize f = fsize (rxFifo s) \<and> fnum f = fnum (rxFifo s) \<and>
     (\<exists>old. fifo_items f = fifo_items (rxFifo s) @ [xs @ old])"

lemma h5_wf_rxFifo: "h5_wf s \<Longrightarrow> fifo_wf f \<Longrightarrow> h5_wf (s\<lparr>rxFifo := f\<rparr>)"
  by (simp add: h5_wf_defs h5_can_send_def)

lemma h5_wf_rxAck: "h5_wf s \<Longrightarrow> a < 8 \<Longrightarrow> h5_wf (s\<lparr>rxAck := a\<rparr>)"
  by (simp add: h5_wf_defs h5_can_send_def)

lemma h5_wf_txAck: "h5_wf s \<Longrightarrow> a < 8 \<Longrightarrow> h5_wf (s\<lparr>txAck := a\<rparr>)"
  by (simp add: h5_wf_defs h5_can_send_def)

lemma HCI_H5_PackHciPdu_delivers:
  assumes "h5_wf s" and "h5_rx_room s (unat len)" and "get_bytes pPayload 0 (unat len) = Some xs"
  obtains f where "HCI_H5_PackHciPdu type pPayload len s = Some (s\<lparr>rxFifo := f\<rparr>)"
    and "h5_delivered (type # xs) s f" and "h5_wf (s\<lparr>rxFifo := f\<rparr>)"
proof -
  have inv: "fifo_inv (rxFifo s)"
    using assms(2) by (simp add: h5_rx_room_def)
  have len: "length (type # xs) \<le> unat (fsize (rxFifo s))"
    using assms(2) get_bytes_length [OF assms(3)] by (simp add: h5_rx_room_def)
  obtain f where f: "fifo_push (rxFifo s) (type # xs) = Some f"
    by (rule fifo_push_total [OF _ len]) (use inv in \<open>simp add: fifo_inv_def\<close>)
  have cnt: "fifo_count (rxFifo s) < unat (fnum (rxFifo s))"
    using assms(2) by (simp add: h5_rx_room_def)
  have inv': "fifo_inv f"
    by (rule fifo_push_items(1) [OF inv cnt len f])
  have "h5_delivered (type # xs) s f"
    using fifo_push_items(2) [OF inv cnt len f] inv' fifo_push_frame [OF f]
    by (auto simp: h5_delivered_def)
  then show ?thesis
    by (intro that [of f]) (use inv' in \<open>simp_all add: HCI_H5_PackHciPdu_def assms f h5_wf_rxFifo fifo_inv_def\<close>)
qed

lemma HCI_H5_PackHciPdu_ok:
  assumes "h5_wf s" and "h5_slot_fits s (unat len)" and "get_bytes pPayload 0 (unat len) = Some xs"
  obtains f where "HCI_H5_PackHciPdu type pPayload len s = Some (s\<lparr>rxFifo := f\<rparr>)" and "h5_wf (s\<lparr>rxFifo := f\<rparr>)"
proof -
  have wf: "fifo_wf (rxFifo s)"
    using assms(1) by (simp add: h5_wf_defs)
  have "length (type # xs) \<le> unat (fsize (rxFifo s))"
    using assms(2) get_bytes_length [OF assms(3)] by (simp add: h5_slot_fits_def)
  then obtain f where f: "fifo_push (rxFifo s) (type # xs) = Some f"
    by (rule fifo_push_total [OF wf])
  then show ?thesis
    using fifo_push_wf [OF f wf]
    by (intro that [of f]) (simp_all add: HCI_H5_PackHciPdu_def assms h5_wf_rxFifo)
qed

section \<open>Data packets\<close>

text \<open>The acknowledgement part of a reliable packet.\<close>

definition h5_apply_ack :: "u32 \<Rightarrow> u8 \<Rightarrow> h5 \<Rightarrow> h5" where
  "h5_apply_ack now a s =
     (if a = txSeq s then h5_release_acked (s\<lparr>rxAck := a\<rparr>)
      else if resendTick s = 0 then s\<lparr>resendTick := now OR 1\<rparr> else s)"

lemma h5_apply_ack_wf: "h5_wf s \<Longrightarrow> a < 8 \<Longrightarrow> h5_wf (h5_apply_ack now a s)"
  by (simp add: h5_apply_ack_def h5_release_acked_wf h5_wf_rxAck)

lemma h5_unpack_ack: "ackNum (HCI_H5_UnpackHeader p) < 8"
proof -
  have "(ucast (x AND 7) :: u8) = ucast x AND 7" for x :: u32
    unfolding and_low_mask by (rule bit_word_eqI) (auto simp: word_bit_simps)
  then show ?thesis
    by (simp add: HCI_H5_UnpackHeader_def Let_def H5_HDR_ACK_def u8_and7_less)
qed

text \<open>A reliable packet with the expected sequence number, when the window is 1: it is counted,
  its acknowledgement is scheduled and its payload delivered.\<close>

definition h5_accept :: "u32 \<Rightarrow> h5 \<Rightarrow> h5" where
  "h5_accept now s =
     s\<lparr>txAck := (txAck s + 1) mod 8, rxSlidWinSize := rxSlidWinSize s + 1, rxTick := now OR 1\<rparr>"

lemma h5_accept_wf: "h5_wf s \<Longrightarrow> h5_wf (h5_accept now s)"
  by (simp add: h5_accept_def h5_wf_txAck u8_mod8_less)

lemma h5_accept_simps [simp]:
  "rxFifo (h5_accept now s) = rxFifo s" "config (h5_accept now s) = config s"
  "txSeq (h5_accept now s) = txSeq s" "linkState (h5_accept now s) = linkState s"
  "txAck (h5_accept now s) = (txAck s + 1) mod 8"
  by (simp_all add: h5_accept_def)

lemma h5_recv_reliable_fresh:
  assumes wf: "h5_wf s" and win: "slidWinSize (config s) = 1" and seq: "seqNum h = txAck s"
    and room: "h5_rx_room s (unat (payloadLen h))"
    and pay: "get_bytes (drop HCI_H5_HEAD_LEN pPacket) 0 (unat (payloadLen h)) = Some xs"
  obtains f where
    "h5_recv_reliable now h pPacket s =
       Some (h5_apply_ack now (ackNum h) ((h5_accept now s)\<lparr>rxFifo := f\<rparr>))"
    and "h5_delivered (pktType h # xs) s f" and "h5_wf ((h5_accept now s)\<lparr>rxFifo := f\<rparr>)"
proof -
  have "h5_rx_room (h5_accept now s) (unat (payloadLen h))"
    using room by (simp add: h5_rx_room_def)
  from HCI_H5_PackHciPdu_delivers [OF h5_accept_wf [OF wf] this pay] obtain f where
    f: "HCI_H5_PackHciPdu (pktType h) (drop HCI_H5_HEAD_LEN pPacket) (payloadLen h) (h5_accept now s) =
        Some ((h5_accept now s)\<lparr>rxFifo := f\<rparr>)"
      "h5_delivered (pktType h # xs) (h5_accept now s) f" "h5_wf ((h5_accept now s)\<lparr>rxFifo := f\<rparr>)" .
  have "h5_delivered (pktType h # xs) s f"
    using f(2) by (simp add: h5_delivered_def)
  moreover have "h5_recv_reliable now h pPacket s =
      Some (h5_apply_ack now (ackNum h) ((h5_accept now s)\<lparr>rxFifo := f\<rparr>))"
    using f(1) win by (simp add: h5_recv_reliable_def seq h5_apply_ack_def h5_accept_def)
  ultimately show ?thesis
    using that f(3) by blast
qed

lemma h5_recv_reliable_duplicate:
  "seqNum h \<noteq> txAck s \<Longrightarrow>
     h5_recv_reliable now h pPacket s = Some (h5_apply_ack now (ackNum h) s)"
  by (simp add: h5_recv_reliable_def h5_apply_ack_def)

lemma h5_recv_reliable_ok:
  assumes wf: "h5_wf s" and ack: "ackNum h < 8"
    and fits: "h5_slot_fits s (unat (payloadLen h))"
    and pay: "get_bytes (drop HCI_H5_HEAD_LEN pPacket) 0 (unat (payloadLen h)) = Some xs"
  shows "h5_step_ok (h5_recv_reliable now h pPacket s)"
proof (cases "seqNum h = txAck s")
  case False
  then show ?thesis
    by (simp add: h5_recv_reliable_duplicate h5_apply_ack_wf [OF wf ack])
next
  case True
  define s1 where "s1 = h5_accept now s"
  have wf1: "h5_wf s1"
    unfolding s1_def by (rule h5_accept_wf [OF wf])
  have "\<exists>s2. (if slidWinSize (config s1) = 1 then Some s1
      else if slidWinSize (config s1) \<le> rxSlidWinSize s1 then
        map_option (\<lambda>(_, s2). s2\<lparr>rxSlidWinSize := 0\<rparr>) (HCI_H5_SendPureAck s1)
      else Some s1) = Some s2 \<and> h5_wf s2 \<and> rxFifo s2 = rxFifo s"
  proof -
    obtain res s2 where "HCI_H5_SendPureAck s1 = Some (res, s2)" "h5_wf s2"
      "h5_sent HCI_H5_PKT_TYPE_ACK [] s1 res s2"
      by (rule HCI_H5_SendPureAck_wf [OF wf1])
    then show ?thesis
      using wf1 by (simp add: h5_sent_fields(1)) (simp add: s1_def)
  qed
  then obtain s2 where s2: "(if slidWinSize (config s1) = 1 then Some s1
      else if slidWinSize (config s1) \<le> rxSlidWinSize s1 then
        map_option (\<lambda>(_, s2). s2\<lparr>rxSlidWinSize := 0\<rparr>) (HCI_H5_SendPureAck s1)
      else Some s1) = Some s2" "h5_wf s2" "rxFifo s2 = rxFifo s"
    by blast
  have "h5_slot_fits s2 (unat (payloadLen h))"
    using fits s2(3) by (simp add: h5_slot_fits_def)
  from HCI_H5_PackHciPdu_ok [OF s2(2) this pay] obtain f where f:
    "HCI_H5_PackHciPdu (pktType h) (drop HCI_H5_HEAD_LEN pPacket) (payloadLen h) s2 = Some (s2\<lparr>rxFifo := f\<rparr>)"
    "h5_wf (s2\<lparr>rxFifo := f\<rparr>)" .
  have "h5_recv_reliable now h pPacket s =
      do { s2 \<leftarrow> (if slidWinSize (config s1) = 1 then Some s1
             else if slidWinSize (config s1) \<le> rxSlidWinSize s1 then
               map_option (\<lambda>(_, s2). s2\<lparr>rxSlidWinSize := 0\<rparr>) (HCI_H5_SendPureAck s1)
             else Some s1);
           s3 \<leftarrow> HCI_H5_PackHciPdu (pktType h) (drop HCI_H5_HEAD_LEN pPacket) (payloadLen h) s2;
           Some (h5_apply_ack now (ackNum h) s3) }"
    unfolding h5_recv_reliable_def h5_apply_ack_def s1_def h5_accept_def Let_def by (simp add: True)
  then have "h5_recv_reliable now h pPacket s = Some (h5_apply_ack now (ackNum h) (s2\<lparr>rxFifo := f\<rparr>))"
    unfolding s2(1) by (simp only: bind.bind_lunit f(1))
  then show ?thesis
    using h5_apply_ack_wf [OF f(2) ack] by simp
qed

text \<open>The CRC check stays inside the packet.\<close>

lemma h5_crc_ok_total:
  assumes "6 \<le> unat len" and "unat len \<le> length pPacket" and "unat len < 65536"
  shows "\<exists>b. h5_crc_ok pPacket len = Some b"
proof -
  have "unat (ucast len :: u16) = unat len"
    using assms(3) by (simp add: unsigned_ucast_eq take_bit_nat_eq_self)
  then have "unat (ucast len - of_nat HCI_H5_CRC_LEN :: u16) = unat len - 2"
    using assms(1) by (simp add: unat_sub word_le_nat_alt)
  then show ?thesis
    using assms(1,2)
    by (simp add: h5_crc_ok_def get_bytes_def get_byte_def Let_def)
qed

lemma HCI_H5_DecodeDataPdu_ok:
  assumes wf: "h5_wf s" and ack: "ackNum h < 8"
    and room: "h5_slot_fits s (unat (payloadLen h))"
    and len: "unat len = 4 + unat (payloadLen h) + (if crc h = 0 then 0 else 2)"
    and mem: "unat len \<le> length pPacket" "unat len < 65536"
  shows "h5_step_ok (HCI_H5_DecodeDataPdu now h pPacket len s)"
proof -
  have "unat (payloadLen h) \<le> length pPacket - 4"
    using len mem(1) by (simp split: if_splits)
  then obtain xs where xs: "get_bytes (drop HCI_H5_HEAD_LEN pPacket) 0 (unat (payloadLen h)) = Some xs"
    by (simp add: get_bytes_def)
  note reliable = h5_recv_reliable_ok [OF wf ack room xs]
  have "h5_slot_fits (s\<lparr>txAck := (txAck s + 1) mod 8\<rparr>) (unat (payloadLen h))"
    using room by (simp add: h5_slot_fits_def)
  from HCI_H5_PackHciPdu_ok [OF h5_wf_txAck [OF wf u8_mod8_less] this xs]
  have unreliable: "h5_step_ok (HCI_H5_PackHciPdu (pktType h) (drop HCI_H5_HEAD_LEN pPacket)
      (payloadLen h) (s\<lparr>txAck := (txAck s + 1) mod 8\<rparr>))"
    by (metis h5_step_ok_Some)
  show ?thesis
  proof (cases "crc h = 0")
    case True
    then show ?thesis
      using reliable unreliable by (simp add: HCI_H5_DecodeDataPdu_def)
  next
    case False
    then have "6 \<le> unat len"
      using len by simp
    from h5_crc_ok_total [OF this mem] obtain b where "h5_crc_ok pPacket len = Some b" ..
    with False show ?thesis
      using reliable unreliable wf by (simp add: HCI_H5_DecodeDataPdu_def)
  qed
qed

lemma HCI_H5_ReSendCheck_ack_wf:
  "h5_wf s \<Longrightarrow> a < 8 \<Longrightarrow> h5_wf (HCI_H5_ReSendCheck now (s\<lparr>rxAck := a\<rparr>))"
  by (simp add: HCI_H5_ReSendCheck_wf h5_wf_rxAck)

text \<open>What a received packet has to satisfy: when it is a data packet, the payload its header announces
  fits a slot of the receive ring.\<close>

definition h5_data_type :: "u8 \<Rightarrow> bool" where
  "h5_data_type t \<longleftrightarrow> t = HCI_H5_PKT_TYPE_CMD \<or> t = HCI_H5_PKT_TYPE_ACL \<or>
     t = HCI_H5_PKT_TYPE_SCO \<or> t = HCI_H5_PKT_TYPE_EVT"

definition h5_packet_fits :: "h5 \<Rightarrow> u8 list \<Rightarrow> bool" where
  "h5_packet_fits s pkt \<longleftrightarrow>
     (let h = HCI_H5_UnpackHeader (take HCI_H5_HEAD_LEN pkt)
      in HCI_H5_HEAD_LEN \<le> length pkt \<longrightarrow> h5_data_type (pktType h) \<longrightarrow> h5_slot_fits s (unat (payloadLen h)))"

lemma HCI_H5_PakcetHandler_ok:
  assumes wf: "h5_wf s" and len: "unat len \<le> length pPacket" "unat len < 65536"
    and mem: "7 \<le> length pPacket" and fits: "h5_packet_fits s (take (unat len) pPacket)"
  shows "h5_step_ok (HCI_H5_PakcetHandler now pPacket len s)"
proof -
  have hd4: "get_bytes pPacket 0 HCI_H5_HEAD_LEN = Some (take 4 pPacket)"
    using mem by (simp add: get_bytes_def)
  let ?h = "HCI_H5_UnpackHeader (take 4 pPacket)"
  have ack: "ackNum ?h < 8"
    by (rule h5_unpack_ack)
  have "h5_step_ok (HCI_H5_DecodeDataPdu now ?h pPacket len s)"
    if total: "HCI_H5_HEAD_LEN + unat (payloadLen ?h) + (if crc ?h = 0 then 0 else HCI_H5_CRC_LEN) = unat len"
      and data: "h5_data_type (pktType ?h)"
  proof (rule HCI_H5_DecodeDataPdu_ok [OF wf ack _ _ len])
    have "4 \<le> unat len"
      using total by simp
    then have "take 4 (take (unat len) pPacket) = take 4 pPacket"
      by (simp add: min_def)
    then show "h5_slot_fits s (unat (payloadLen ?h))"
      using fits data \<open>4 \<le> unat len\<close> mem by (simp add: h5_packet_fits_def Let_def)
  qed (use total in \<open>auto split: if_splits\<close>)
  then show ?thesis
    using HCI_H5_DecodeLinkPdu_ok [OF wf mem] HCI_H5_ReSendCheck_ack_wf [OF wf ack] wf hd4
    by (auto simp: HCI_H5_PakcetHandler_def Let_def h5_data_type_def)
qed

end
