(* ===== verification/H5_Events.thy ===== *)
theory H5_Events
  imports H5_Receive Safe_System
begin

text \<open>
  The H5 link as an event-driven system: a frame from the UART, the poll of the main loop, the
  transmit-done interrupt, packets that the controller puts into the transmit ring and takes out
  of the receive ring.  From the initial state every sequence of such events is handled without an
  access outside a buffer, as long as the payload of each received data packet fits a slot of the ring; the
  frames are arbitrary otherwise.
\<close>

section \<open>Events\<close>

datatype h5_event =
    Ev_Frame "u8 list"
  | Ev_Poll
  | Ev_TxDone
  | Ev_HostPush "u8 list"
  | Ev_RxPop

text \<open>\<open>Ev_Frame inner\<close> is a frame with the bytes \<open>inner\<close> between its two delimiters, as
  \<open>HCI_Tr_H5RxHandler\<close> passes it to \<open>HCI_Slip_DecodePacket\<close>.\<close>

definition h5_step :: "u32 \<times> h5_event \<Rightarrow> h5 \<Rightarrow> h5 option" where
  "h5_step ev s =
     (case ev of (now, e) \<Rightarrow>
       case e of
         Ev_Frame inner \<Rightarrow>
           h5_slip_input now (Some (SLIP_DELIMITER # inner @ SLIP_DELIMITER # []))
             (of_nat (length inner + 2)) s
       | Ev_Poll \<Rightarrow> HCI_H5_Poll now s
       | Ev_TxDone \<Rightarrow> Some (s\<lparr>uart := (uart s)\<lparr>isUartTxDone := True\<rparr>\<rparr>)
       | Ev_HostPush xs \<Rightarrow> map_option (\<lambda>f. s\<lparr>txFifo := f\<rparr>) (fifo_push (txFifo s) xs)
       | Ev_RxPop \<Rightarrow> Some (s\<lparr>rxFifo := fifo_pop (rxFifo s)\<rparr>))"

text \<open>What the environment guarantees: a received data packet does not announce a payload that is
  longer than a slot of the receive ring (beside the packet type); the controller only pushes
  well-formed packets and respects the limits of the transmit ring.\<close>

definition h5_env :: "u32 \<times> h5_event \<Rightarrow> h5 \<Rightarrow> bool" where
  "h5_env ev s =
     (case snd ev of
        Ev_Frame inner \<Rightarrow>
          length inner + 2 < 2 ^ 32 \<and>
          (case slip_unescape inner of None \<Rightarrow> True | Some xs \<Rightarrow> h5_packet_fits s xs)
      | Ev_HostPush xs \<Rightarrow>
          h5_tx_item xs \<and> length xs \<le> unat (fsize (txFifo s)) \<and>
          fifo_count (txFifo s) < unat (fnum (txFifo s))
      | _ \<Rightarrow> True)"

section \<open>Every event is safe\<close>

lemma h5_wf_slip:
  "h5_wf s \<Longrightarrow> slip_frame_eq (slip s) cb \<Longrightarrow> h5_wf (s\<lparr>slip := cb\<rparr>)"
  by (simp add: h5_wf_defs h5_can_send_def slip_frame_eq_def)

lemma h5_slip_input_ok:
  assumes wf: "h5_wf s" and len: "4 \<le> length inner" "length inner + 2 < 2 ^ 32"
    and room: "\<And>xs. slip_unescape inner = Some xs \<Longrightarrow> h5_packet_fits s xs"
  shows "h5_step_ok (h5_slip_input now (Some (SLIP_DELIMITER # inner @ SLIP_DELIMITER # []))
           (of_nat (length inner + 2)) s)"
proof -
  have dec: "length (pDecodeBuf (slip s)) < 65536" "7 \<le> length (pDecodeBuf (slip s))"
    using wf by (simp_all add: h5_wf_defs)
  let ?r = "HCI_Slip_DecodePacket (Some (SLIP_DELIMITER # inner @ SLIP_DELIMITER # []))
      (of_nat (length inner + 2)) (slip s)"
  have spec: "slip_decode_spec [] (slip_unescape inner) (slip s) ?r"
    by (rule slip_decode_refines' [OF dec(1) len])
  then obtain cb ok where r: "?r = Some (cb, ok)"
    by (auto simp: slip_decode_spec_def split: option.splits)
  have frame: "slip_frame_eq (slip s) cb"
    using spec r by (simp add: slip_decode_spec_def)
  note wf1 = h5_wf_slip [OF wf frame]
  show ?thesis
  proof (cases ok)
    case False
    then show ?thesis
      unfolding h5_slip_input_def r by (simp add: wf1)
  next
    case True
    with spec r obtain xs where xs: "slip_unescape inner = Some xs" "slip_decoded cb xs"
      by (auto simp: slip_decode_spec_def split: option.splits if_splits)
    have n: "unat (ucast (decodeLen cb) :: u32) = length xs" "length xs \<le> length (pDecodeBuf cb)"
      using xs(2) unat_bound(2) [of "decodeLen cb"]
      by (auto simp add: slip_decoded_def unsigned_ucast_eq take_bit_nat_eq_self)
    have buf: "length (pDecodeBuf cb) = length (pDecodeBuf (slip s))"
      using frame by (simp add: slip_frame_eq_def)
    have "take (length xs) (pDecodeBuf cb) = xs"
      using xs(2) by (simp add: slip_decoded_def)
    then have "h5_packet_fits (s\<lparr>slip := cb\<rparr>) (take (unat (ucast (decodeLen cb) :: u32)) (pDecodeBuf cb))"
      unfolding n(1) using room [OF xs(1)] by (simp add: h5_packet_fits_def h5_slot_fits_def)
    then have "h5_step_ok (HCI_H5_PakcetHandler now (pDecodeBuf cb) (ucast (decodeLen cb)) (s\<lparr>slip := cb\<rparr>))"
      using n dec buf by (intro HCI_H5_PakcetHandler_ok [OF wf1]) simp_all
    then show ?thesis
      unfolding h5_slip_input_def r by (simp add: wf1 True Let_def)
  qed
qed

lemma h5_tx_item_append: "h5_tx_item xs \<Longrightarrow> h5_tx_item (xs @ ys)"
  by (auto simp: h5_tx_item_def nth_append)

lemma h5_host_push_ok:
  assumes wf: "h5_wf s" and env: "h5_env (now, Ev_HostPush xs) s"
  shows "h5_step_ok (h5_step (now, Ev_HostPush xs) s)"
proof -
  have inv: "fifo_inv (txFifo s)" and len: "length xs \<le> unat (fsize (txFifo s))"
    and cnt: "fifo_count (txFifo s) < unat (fnum (txFifo s))" and item: "h5_tx_item xs"
    using assms by (simp_all add: h5_wf_defs h5_env_def)
  obtain f where f: "fifo_push (txFifo s) xs = Some f"
    by (rule fifo_push_total [OF _ len]) (use inv in \<open>simp add: fifo_inv_def\<close>)
  note items = fifo_push_items [OF inv cnt len f]
  have "fifo_count (txFifo s) \<le> fifo_count f"
    using arg_cong [OF items(2), of length] by simp
  then have "h5_wf (s\<lparr>txFifo := f\<rparr>)"
    using wf items item fifo_push_frame [OF f]
    by (simp add: h5_wf_defs h5_can_send_def h5_tx_item_append)
  then show ?thesis
    by (simp add: h5_step_def f)
qed

text \<open>Frames of fewer than four bytes are dropped by the SLIP decoder.\<close>

lemma h5_step_short:
  assumes "length ys < 4"
  shows "h5_step (now, Ev_Frame ys) l = Some l"
proof -
  have "unat (of_nat (length ys + 2) :: u32) = length ys + 2"
    using assms unat_of_nat [of "length ys + 2", where ?'a = 32] by (simp del: of_nat_add)
  then have "(of_nat (length ys + 2) :: u32) < 6"
    unfolding word_less_nat_alt using assms by simp
  then have "HCI_Slip_DecodePacket (Some m) (of_nat (length ys + 2)) cb = Some (cb, False)" for m cb
    by (simp add: HCI_Slip_DecodePacket_def del: of_nat_add)
  then show ?thesis
    unfolding h5_step_def h5_slip_input_def by simp
qed

lemma h5_step_safe:
  assumes "h5_wf s" and "h5_env ev s"
  shows "h5_step_ok (h5_step ev s)"
proof (cases ev)
  case (Pair now e)
  show ?thesis
  proof (cases e)
    case (Ev_Frame inner)
    have env: "length inner + 2 < 2 ^ 32" "\<And>xs. slip_unescape inner = Some xs \<Longrightarrow> h5_packet_fits s xs"
      using assms(2) by (simp_all add: Pair Ev_Frame h5_env_def)
    show ?thesis
    proof (cases "length inner < 4")
      case True
      then show ?thesis
        using assms(1) by (simp add: Pair Ev_Frame h5_step_short)
    next
      case False
      then show ?thesis
        using h5_slip_input_ok [OF assms(1) _ env] by (simp add: Pair Ev_Frame h5_step_def)
    qed
  next
    case Ev_Poll
    then show ?thesis
      using HCI_H5_Poll_ok [OF assms(1)] by (simp add: Pair h5_step_def)
  next
    case Ev_TxDone
    then show ?thesis
      using assms(1) by (simp add: Pair h5_step_def h5_wf_defs h5_can_send_def)
  next
    case (Ev_HostPush xs)
    then show ?thesis
      using h5_host_push_ok [OF assms(1)] assms(2) by (simp add: Pair)
  next
    case Ev_RxPop
    have "fifo_wf (fifo_pop (rxFifo s))"
      using assms by (simp add: h5_wf_defs fifo_wf_def fifo_pop_def)
    then show ?thesis
      using Ev_RxPop assms(1) by (simp add: Pair h5_step_def h5_wf_rxFifo)
  qed
qed

interpretation h5sys: safe_system h5_step h5_env h5_wf
  by unfold_locales (use h5_step_safe in \<open>simp add: h5_step_ok_def\<close>)

section \<open>The slot size\<close>

text \<open>No event changes the size of the slots of the receive ring; for frames the condition of the environment is therefore one
  on the frame alone.\<close>

lemma HCI_H5_Send_rx: "HCI_H5_Send type p len s = Some (r, s') \<Longrightarrow> rxFifo s' = rxFifo s"
  by (auto simp: HCI_H5_Send_def Let_def Option.bind_eq_Some_conv)

lemma h5_control_rx:
  "HCI_H5_SendPureAck s = Some (r, s') \<Longrightarrow> rxFifo s' = rxFifo s" "HCI_H5_SendSync s = Some s' \<Longrightarrow> rxFifo s' = rxFifo s"
  "HCI_H5_SendSyncRsp s = Some s' \<Longrightarrow> rxFifo s' = rxFifo s" "HCI_H5_SendConfig s = Some s' \<Longrightarrow> rxFifo s' = rxFifo s"
  "HCI_H5_SendConfigRsp s = Some s' \<Longrightarrow> rxFifo s' = rxFifo s"
  by (auto simp: HCI_H5_SendPureAck_def HCI_H5_SendSync_def HCI_H5_SendSyncRsp_def HCI_H5_SendConfig_def
      HCI_H5_SendConfigRsp_def dest: HCI_H5_Send_rx)

lemma HCI_H5_SendData_rx: "HCI_H5_SendData now s = Some s' \<Longrightarrow> rxFifo s' = rxFifo s"
  by (auto simp: HCI_H5_SendData_def Let_def Option.bind_eq_Some_conv dest!: HCI_H5_Send_rx split: if_splits)

lemma HCI_H5_ResendStart_rx: "HCI_H5_ResendStart now s = Some s' \<Longrightarrow> rxFifo s' = rxFifo s"
  by (auto simp: HCI_H5_ResendStart_def dest: HCI_H5_SendData_rx)

lemma h5_poll_send_rx: "h5_poll_send now s = Some s' \<Longrightarrow> rxFifo s' = rxFifo s"
  by (auto simp: h5_poll_send_def dest: HCI_H5_SendData_rx HCI_H5_ResendStart_rx split: if_splits)

lemma HCI_H5_Poll_rx: "HCI_H5_Poll now s = Some s' \<Longrightarrow> rxFifo s' = rxFifo s"
  by (cases "linkState s")
    (auto simp: HCI_H5_Poll_def Option.bind_eq_Some_conv dest!: h5_poll_send_rx h5_control_rx split: if_splits)

lemma HCI_H5_DecodeLinkPdu_rx: "HCI_H5_DecodeLinkPdu now p s = Some s' \<Longrightarrow> fsize (rxFifo s') = fsize (rxFifo s)"
  by (cases "linkState s")
    (auto simp: HCI_H5_DecodeLinkPdu_def Let_def Option.bind_eq_Some_conv HCI_H5_Reset_def dest!: h5_control_rx split: if_splits)

lemma HCI_H5_PackHciPdu_rx: "HCI_H5_PackHciPdu type p len s = Some s' \<Longrightarrow> fsize (rxFifo s') = fsize (rxFifo s)"
  by (auto simp: HCI_H5_PackHciPdu_def Option.bind_eq_Some_conv dest: fifo_push_frame(1))

lemma h5_recv_reliable_rx: "h5_recv_reliable now h p s = Some s' \<Longrightarrow> fsize (rxFifo s') = fsize (rxFifo s)"
  by (auto simp: h5_recv_reliable_def Let_def Option.bind_eq_Some_conv h5_release_acked_def
      dest!: HCI_H5_PackHciPdu_rx h5_control_rx(1) split: if_splits)

lemma HCI_H5_DecodeDataPdu_rx: "HCI_H5_DecodeDataPdu now h p len s = Some s' \<Longrightarrow> fsize (rxFifo s') = fsize (rxFifo s)"
  by (auto simp: HCI_H5_DecodeDataPdu_def Option.bind_eq_Some_conv dest!: h5_recv_reliable_rx HCI_H5_PackHciPdu_rx
      split: if_splits)

lemma HCI_H5_PakcetHandler_rx: "HCI_H5_PakcetHandler now p len s = Some s' \<Longrightarrow> fsize (rxFifo s') = fsize (rxFifo s)"
  by (auto simp: HCI_H5_PakcetHandler_def Let_def Option.bind_eq_Some_conv HCI_H5_ReSendCheck_def h5_release_acked_def
      dest!: HCI_H5_DecodeDataPdu_rx HCI_H5_DecodeLinkPdu_rx split: if_splits)

lemma h5_slip_input_rx: "h5_slip_input now p len s = Some s' \<Longrightarrow> fsize (rxFifo s') = fsize (rxFifo s)"
  by (auto simp: h5_slip_input_def Let_def Option.bind_eq_Some_conv dest!: HCI_H5_PakcetHandler_rx split: if_splits)

lemma h5_step_rx: "h5_step ev s = Some s' \<Longrightarrow> fsize (rxFifo s') = fsize (rxFifo s)"
  by (auto simp: h5_step_def fifo_pop_def dest: h5_slip_input_rx HCI_H5_Poll_rx split: prod.splits h5_event.splits)

text \<open>The events but the controller's writes, for slots of \<open>n\<close> bytes.\<close>

definition h5_frame_fits :: "nat \<Rightarrow> u8 list \<Rightarrow> bool" where
  "h5_frame_fits n inner \<longleftrightarrow>
     length inner + 2 < 2 ^ 32 \<and>
     (case slip_unescape inner of None \<Rightarrow> True
      | Some pkt \<Rightarrow>
          let h = HCI_H5_UnpackHeader (take HCI_H5_HEAD_LEN pkt)
          in HCI_H5_HEAD_LEN \<le> length pkt \<longrightarrow> h5_data_type (pktType h) \<longrightarrow> unat (payloadLen h) + 1 \<le> n)"

lemma h5_env_frame: "h5_env (now, Ev_Frame inner) s \<longleftrightarrow> h5_frame_fits (unat (fsize (rxFifo s))) inner"
  by (simp add: h5_env_def h5_frame_fits_def h5_packet_fits_def h5_slot_fits_def Let_def split: option.split)

definition h5_event_fits :: "nat \<Rightarrow> h5_event \<Rightarrow> bool" where
  "h5_event_fits n e = (case e of Ev_Frame inner \<Rightarrow> h5_frame_fits n inner | Ev_HostPush xs \<Rightarrow> False | _ \<Rightarrow> True)"

lemma h5_admissible_frames:
  "list_all (\<lambda>ev. h5_event_fits n (snd ev)) evs \<Longrightarrow> unat (fsize (rxFifo s)) = n \<Longrightarrow> admissible h5_step h5_env evs s"
proof (induction evs arbitrary: s)
  case (Cons ev evs)
  have "h5_env ev s"
    using Cons.prems h5_env_frame by (cases ev; cases "snd ev") (auto simp: h5_event_fits_def, auto simp: h5_env_def)
  moreover have "admissible h5_step h5_env evs s'" if "h5_step ev s = Some s'" for s'
    using Cons h5_step_rx [OF that] by simp
  ultimately show ?case
    by (auto split: option.split)
qed simp
section \<open>The initial state\<close>

text \<open>The static variables before \<open>HCI_H5_Init\<close>, for rings of \<open>2 ^ kr\<close> slots of \<open>rx\<close> bytes and
  \<open>2 ^ kt\<close> slots of \<open>tx\<close> bytes, and an idle UART.\<close>

definition h5_boot :: "nat \<Rightarrow> nat \<Rightarrow> nat \<Rightarrow> nat \<Rightarrow> h5" where
  "h5_boot rx kr tx kt =
     \<lparr>rxFifo = hci_fifo_new rx kr, txFifo = hci_fifo_new tx kt,
      h5TxBuf = replicate (HCI_H5_TX_BUF_SIZE tx) 0,
      hciH5Config = HCI_H5_DefaultConfig, config = \<lparr>slidWinSize = 0, oofFlowCtrl = 0, dataIntgrtChkType = 0, version = 0\<rparr>,
      tick = 0, linkState = HCI_H5_LINK_STATE_IDLE, rxSlidWinSize = 0, txSlidWinSize = 0,
      txSeq = 0, txAck = 0, rxAck = 0, isReliable = False, txTick = 0, rxTick = 0, resendTick = 0,
      slip = HCI_Slip_Init rx tx, uart = \<lparr>isUartTxDone = True, uartSent = []\<rparr>, hciResets = 0\<rparr>"

definition h5_start :: "u32 \<Rightarrow> nat \<Rightarrow> nat \<Rightarrow> nat \<Rightarrow> nat \<Rightarrow> h5" where
  "h5_start now rx kr tx kt = HCI_H5_Init now (h5_boot rx kr tx kt)"

lemma h5_start_wf:
  assumes "rx < 65000" and "kr \<le> 7" and "3 \<le> tx" and "tx < 30000" and "kt \<le> 7"
  shows "h5_wf (h5_start now rx kr tx kt)"
proof -
  have rx: "rx < 65536" and tx: "tx < 65536"
    using assms by simp_all
  note new = hci_fifo_new_inv [OF rx assms(2)] hci_fifo_new_inv [OF tx assms(5)]
  show ?thesis
    unfolding h5_start_def
    using new assms
    by (simp add: fifo_inv_def HCI_H5_Init_def h5_boot_def h5_wf_defs h5_can_send_def HCI_Slip_Init_def
        HCI_SLip_SetFlowCtrlEnable_def HCI_Slip_RegisterPktHandler_def HCI_H5_DefaultConfig_def
        HCI_H5_TX_BUF_SIZE_def HCI_SLIP_DECODE_BUF_SIZE_def HCI_SLIP_ENCODE_BUF_SIZE_def
        MEM_SIZE_ALIGN4_def; intro conjI; presburger)
qed

end
