(* ===== verification/H5_Protocol.thy ===== *)
theory H5_Protocol
  imports H5_Events
begin

text \<open>
  The protocol across the wire: what \<open>HCI_H5_PakcetHandler\<close> does with a packet that
  \<open>HCI_H5_Send\<close> has built (\<open>h5_packet\<close>), delivery in order and once, acknowledgement and
  retransmission, the link handshake; and the defects of the exchange that the model shows.
\<close>

section \<open>The handler on a packet of the wire format\<close>

text \<open>\<open>buf\<close> is a decode buffer with the packet \<open>pkt\<close> at its front.\<close>

definition h5_holds :: "u8 list \<Rightarrow> u8 list \<Rightarrow> u32 \<Rightarrow> bool" where
  "h5_holds buf pkt len \<longleftrightarrow>
     length pkt = unat len \<and> length pkt \<le> length buf \<and> take (length pkt) buf = pkt"

text \<open>A header that the wire format preserves, for the payload \<open>xs\<close>.\<close>

definition h5_wire_head :: "h5_head \<Rightarrow> u8 list \<Rightarrow> bool" where
  "h5_wire_head h xs \<longleftrightarrow> h5_head_wf h \<and> payloadLen h = of_nat (length xs) \<and> length xs < 256"

definition h5_dispatch :: "u32 \<Rightarrow> h5_head \<Rightarrow> u8 list \<Rightarrow> u32 \<Rightarrow> h5 \<Rightarrow> h5 option" where
  "h5_dispatch now h buf len s =
     (if pktType h = HCI_H5_PKT_TYPE_ACK then
        (if linkState s \<noteq> HCI_H5_LINK_STATE_ACTIVE then Some s
         else Some (HCI_H5_ReSendCheck now (s\<lparr>rxAck := ackNum h\<rparr>)))
      else if pktType h = HCI_H5_PKT_TYPE_LINK_CTRL then HCI_H5_DecodeLinkPdu now buf s
      else if pktType h = HCI_H5_PKT_TYPE_CMD \<or> pktType h = HCI_H5_PKT_TYPE_ACL \<or>
              pktType h = HCI_H5_PKT_TYPE_SCO \<or> pktType h = HCI_H5_PKT_TYPE_EVT then
        (if linkState s \<noteq> HCI_H5_LINK_STATE_ACTIVE then Some s
         else HCI_H5_DecodeDataPdu now h buf len s)
      else Some s)"

lemma h5_holds_take: "h5_holds buf (xs @ ys) len \<Longrightarrow> take (length xs) buf = xs"
  unfolding h5_holds_def
  by (drule conjunct2, drule conjunct2, drule arg_cong [of _ _ "take (length xs)"])
    (simp add: min_def)

lemma h5_holds_bytes:
  assumes "h5_holds buf (as @ xs @ bs) len"
  shows "get_bytes (drop (length as) buf) 0 (length xs) = Some xs"
proof -
  have "take (length as + length xs) buf = as @ xs"
    using h5_holds_take [of buf "as @ xs" bs len] assms by simp
  then have "take (length xs) (drop (length as) buf) = xs"
    by (metis append_eq_conv_conj drop_take add_diff_cancel_left')
  moreover have "length xs \<le> length buf - length as"
    using assms by (auto simp: h5_holds_def)
  ultimately show ?thesis
    by (simp add: get_bytes_def)
qed

text \<open>The unpacked header agrees with the packed one in all fields but the checksum.\<close>

lemma h5_wire_unpack:
  assumes "h5_wire_head h xs"
  obtains c where "HCI_H5_UnpackHeader (HCI_H5_PackHeader h) = h\<lparr>headCheckSum := c\<rparr>"
proof -
  have wf: "h5_head_wf h" and len: "payloadLen h = of_nat (length xs)" "length xs < 256"
    using assms by (simp_all add: h5_wire_head_def)
  have "take_bit 8 (payloadLen h) = payloadLen h"
    using len(2) by (simp add: len(1) word_unat_eq_iff unsigned_take_bit_eq take_bit_nat_eq_self
        unat_of_nat)
  with unpack_pack_fields [OF wf] have
    "HCI_H5_UnpackHeader (HCI_H5_PackHeader h) =
       h\<lparr>headCheckSum := headCheckSum (HCI_H5_UnpackHeader (HCI_H5_PackHeader h))\<rparr>"
    by (cases "HCI_H5_UnpackHeader (HCI_H5_PackHeader h)"; cases h) simp
  then show ?thesis
    by (rule that)
qed

lemma h5_packet_split:
  obtains tl where "h5_packet h xs = HCI_H5_PackHeader h @ xs @ tl"
    and "length tl = (if crc h \<noteq> 0 then HCI_H5_CRC_LEN else 0)"
  by (rule that [of "if crc h \<noteq> 0 then h5_crc_bytes
        (HCI_H5_CcittCrc16Calc 0xFFFF (HCI_H5_PackHeader h @ xs)) else []"])
    (simp_all add: h5_packet_def Let_def h5_crc_bytes_def)

lemma HCI_H5_PakcetHandler_packet:
  assumes head: "h5_wire_head h xs" and buf: "h5_holds buf (h5_packet h xs) len"
  obtains c where
    "HCI_H5_PakcetHandler now buf len s = h5_dispatch now (h\<lparr>headCheckSum := c\<rparr>) buf len s"
    and "get_bytes (drop HCI_H5_HEAD_LEN buf) 0 (unat (payloadLen h)) = Some xs"
proof -
  obtain tl where tl: "h5_packet h xs = HCI_H5_PackHeader h @ xs @ tl"
      "length tl = (if crc h \<noteq> 0 then HCI_H5_CRC_LEN else 0)"
    by (rule h5_packet_split)
  obtain c where c: "HCI_H5_UnpackHeader (HCI_H5_PackHeader h) = h\<lparr>headCheckSum := c\<rparr>"
    by (rule h5_wire_unpack [OF head])
  have n: "unat (payloadLen h) = length xs"
    using head by (simp add: h5_wire_head_def unat_of_nat)
  have hd4: "get_bytes buf 0 HCI_H5_HEAD_LEN = Some (HCI_H5_PackHeader h)"
    using h5_holds_take [OF buf [unfolded tl(1)]] buf [unfolded tl(1)]
    by (simp add: get_bytes_def h5_holds_def)
  have pay: "get_bytes (drop HCI_H5_HEAD_LEN buf) 0 (unat (payloadLen h)) = Some xs"
    using h5_holds_bytes [OF buf [unfolded tl(1)]] by (simp add: n)
  have len: "unat len = 4 + length xs + length tl"
    using buf by (simp add: h5_holds_def tl(1))
  have "HCI_H5_PakcetHandler now buf len s = h5_dispatch now (h\<lparr>headCheckSum := c\<rparr>) buf len s"
    unfolding HCI_H5_PakcetHandler_def hd4 bind.bind_lunit
    using len by (simp add: HCI_H5_PackHeader_checksum c Let_def h5_dispatch_def n tl(2))
  then show ?thesis
    by (rule that) (rule pay)
qed

text \<open>From the wire: the frame of a packet reaches the dispatcher with the packet in the decode
  buffer.\<close>

lemma h5_slip_input_packet:
  assumes wf: "h5_wf s" and head: "h5_wire_head h xs"
    and fits: "length (h5_packet h xs) \<le> length (pDecodeBuf (slip s))"
    and handler: "pktHandler (slip s) = H5_PakcetHandler"
  obtains cb len c where
    "h5_slip_input now (Some (slip_frame oof (h5_packet h xs)))
       (of_nat (length (slip_frame oof (h5_packet h xs)))) s =
     h5_dispatch now (h\<lparr>headCheckSum := c\<rparr>) (pDecodeBuf cb) len (s\<lparr>slip := cb\<rparr>)"
    and "h5_holds (pDecodeBuf cb) (h5_packet h xs) len"
    and "get_bytes (drop HCI_H5_HEAD_LEN (pDecodeBuf cb)) 0 (unat (payloadLen h)) = Some xs"
    and "slip_frame_eq (slip s) cb" and "h5_wf (s\<lparr>slip := cb\<rparr>)"
proof -
  let ?pkt = "h5_packet h xs" and ?esc = "slip_escape oof (h5_packet h xs)"
  have dec: "length (pDecodeBuf (slip s)) < 65536"
    using wf by (simp add: h5_wf_defs)
  have "4 \<le> length ?pkt" "length ?pkt < 300"
    using head by (simp_all add: h5_packet_length h5_wire_head_def)
  then have esc: "4 \<le> length ?esc" "length ?esc + 2 < 2 ^ 32"
    using slip_escape_length(1) [of ?pkt oof] slip_escape_length(2) [of oof ?pkt] by simp_all
  have "slip_decode_spec [] (slip_unescape ?esc) (slip s)
     (HCI_Slip_DecodePacket (Some (SLIP_DELIMITER # ?esc @ SLIP_DELIMITER # []))
        (of_nat (length ?esc + 2)) (slip s))"
    by (rule slip_decode_refines' [OF dec esc])
  then have "slip_decode_spec [] (Some ?pkt) (slip s)
     (HCI_Slip_DecodePacket (Some (slip_frame oof ?pkt)) (of_nat (length (slip_frame oof ?pkt))) (slip s))"
    by (simp add: slip_frame_def slip_unescape_escape add.commute)
  then obtain cb where cb:
    "HCI_Slip_DecodePacket (Some (slip_frame oof ?pkt)) (of_nat (length (slip_frame oof ?pkt))) (slip s) =
       Some (cb, True)" "slip_decoded cb ?pkt" "slip_frame_eq (slip s) cb"
    using fits by (auto simp: slip_decode_spec_def split: option.splits)
  let ?len = "ucast (decodeLen cb) :: u32"
  have holds: "h5_holds (pDecodeBuf cb) ?pkt ?len"
    using cb(2) unat_bound(2) [of "decodeLen cb"]
    by (auto simp: h5_holds_def slip_decoded_def unsigned_ucast_eq take_bit_nat_eq_self)
  obtain c where c: "HCI_H5_PakcetHandler now (pDecodeBuf cb) ?len (s\<lparr>slip := cb\<rparr>) =
        h5_dispatch now (h\<lparr>headCheckSum := c\<rparr>) (pDecodeBuf cb) ?len (s\<lparr>slip := cb\<rparr>)"
      and pay: "get_bytes (drop HCI_H5_HEAD_LEN (pDecodeBuf cb)) 0 (unat (payloadLen h)) = Some xs"
    by (rule HCI_H5_PakcetHandler_packet [OF head holds])
  have "pktHandler cb = H5_PakcetHandler"
    using cb(3) handler by (simp add: slip_frame_eq_def)
  then have "h5_slip_input now (Some (slip_frame oof ?pkt)) (of_nat (length (slip_frame oof ?pkt))) s =
      h5_dispatch now (h\<lparr>headCheckSum := c\<rparr>) (pDecodeBuf cb) ?len (s\<lparr>slip := cb\<rparr>)"
    unfolding h5_slip_input_def cb(1) using c by (simp add: Let_def)
  from that [OF this holds pay cb(3) h5_wf_slip [OF wf cb(3)]] show ?thesis .
qed

section \<open>Data packets\<close>

lemma h5_dispatch_data:
  "h5_data_type (pktType h) \<Longrightarrow> linkState s = HCI_H5_LINK_STATE_ACTIVE \<Longrightarrow>
     h5_dispatch now h buf len s = HCI_H5_DecodeDataPdu now h buf len s"
  by (auto simp: h5_dispatch_def h5_data_type_def h5_pkt_type_defs)

lemma h5_dispatch_inactive:
  "h5_data_type (pktType h) \<Longrightarrow> linkState s \<noteq> HCI_H5_LINK_STATE_ACTIVE \<Longrightarrow>
     h5_dispatch now h buf len s = Some s"
  by (auto simp: h5_dispatch_def h5_data_type_def h5_pkt_type_defs)

text \<open>A receiver that is ready for the packet with header \<open>h\<close> and payload \<open>xs\<close>.\<close>

definition h5_ready :: "h5 \<Rightarrow> h5_head \<Rightarrow> u8 list \<Rightarrow> bool" where
  "h5_ready s h xs \<longleftrightarrow>
     h5_wf s \<and> h5_wire_head h xs \<and> pktHandler (slip s) = H5_PakcetHandler \<and>
     length (h5_packet h xs) \<le> length (pDecodeBuf (slip s)) \<and>
     linkState s = HCI_H5_LINK_STATE_ACTIVE \<and> slidWinSize (config s) = 1 \<and>
     h5_rx_room s (length xs) \<and> h5_data_type (pktType h)"

lemma h5_receive_fresh:
  assumes "h5_ready s h xs" and "crc h = 0" and "reliable h \<noteq> 0" and "seqNum h = txAck s"
  obtains cb f where
    "h5_slip_input now (Some (slip_frame oof (h5_packet h xs)))
       (of_nat (length (slip_frame oof (h5_packet h xs)))) s =
     Some (h5_apply_ack now (ackNum h) ((h5_accept now (s\<lparr>slip := cb\<rparr>))\<lparr>rxFifo := f\<rparr>))"
    and "h5_delivered (pktType h # xs) s f" and "slip_frame_eq (slip s) cb"
    and "h5_wf ((h5_accept now (s\<lparr>slip := cb\<rparr>))\<lparr>rxFifo := f\<rparr>)"
proof -
  note ready = assms(1) [unfolded h5_ready_def]
  obtain cb len c where r:
    "h5_slip_input now (Some (slip_frame oof (h5_packet h xs)))
       (of_nat (length (slip_frame oof (h5_packet h xs)))) s =
     h5_dispatch now (h\<lparr>headCheckSum := c\<rparr>) (pDecodeBuf cb) len (s\<lparr>slip := cb\<rparr>)"
    and pay: "get_bytes (drop HCI_H5_HEAD_LEN (pDecodeBuf cb)) 0 (unat (payloadLen h)) = Some xs"
    and cb: "slip_frame_eq (slip s) cb" and wf: "h5_wf (s\<lparr>slip := cb\<rparr>)"
    using ready h5_slip_input_packet [of s h xs] by metis
  let ?h = "h\<lparr>headCheckSum := c\<rparr>" and ?s = "s\<lparr>slip := cb\<rparr>"
  have win: "slidWinSize (config ?s) = 1" and seq: "seqNum ?h = txAck ?s"
    using ready assms(4) by simp_all
  have n: "unat (payloadLen ?h) = length xs"
    using ready by (simp add: h5_wire_head_def unat_of_nat)
  have room: "h5_rx_room ?s (unat (payloadLen ?h))"
    unfolding n using ready by (simp add: h5_rx_room_def)
  have pay': "get_bytes (drop HCI_H5_HEAD_LEN (pDecodeBuf cb)) 0 (unat (payloadLen ?h)) = Some xs"
    using pay by simp
  obtain f where f:
    "h5_recv_reliable now ?h (pDecodeBuf cb) ?s =
       Some (h5_apply_ack now (ackNum ?h) ((h5_accept now ?s)\<lparr>rxFifo := f\<rparr>))"
    "h5_delivered (pktType ?h # xs) ?s f" "h5_wf ((h5_accept now ?s)\<lparr>rxFifo := f\<rparr>)"
    by (rule h5_recv_reliable_fresh [OF wf win seq room pay'])
  have "h5_dispatch now ?h (pDecodeBuf cb) len ?s = h5_recv_reliable now ?h (pDecodeBuf cb) ?s"
    using ready assms(2,3) by (simp add: h5_dispatch_data HCI_H5_DecodeDataPdu_def)
  with r f(1) have
    "h5_slip_input now (Some (slip_frame oof (h5_packet h xs)))
       (of_nat (length (slip_frame oof (h5_packet h xs)))) s =
     Some (h5_apply_ack now (ackNum h) ((h5_accept now ?s)\<lparr>rxFifo := f\<rparr>))"
    by simp
  moreover have "h5_delivered (pktType h # xs) s f"
    using f(2) by (simp add: h5_delivered_def)
  ultimately show ?thesis
    using that cb f(3) by blast
qed

lemma h5_receive_duplicate:
  assumes "h5_ready s h xs" and "crc h = 0" and "reliable h \<noteq> 0" and "seqNum h \<noteq> txAck s"
  obtains cb where
    "h5_slip_input now (Some (slip_frame oof (h5_packet h xs)))
       (of_nat (length (slip_frame oof (h5_packet h xs)))) s =
     Some (h5_apply_ack now (ackNum h) (s\<lparr>slip := cb\<rparr>))"
    and "slip_frame_eq (slip s) cb"
proof -
  note ready = assms(1) [unfolded h5_ready_def]
  obtain cb len c where r:
    "h5_slip_input now (Some (slip_frame oof (h5_packet h xs)))
       (of_nat (length (slip_frame oof (h5_packet h xs)))) s =
     h5_dispatch now (h\<lparr>headCheckSum := c\<rparr>) (pDecodeBuf cb) len (s\<lparr>slip := cb\<rparr>)"
    and cb: "slip_frame_eq (slip s) cb"
    using ready h5_slip_input_packet [of s h xs] by metis
  let ?h = "h\<lparr>headCheckSum := c\<rparr>" and ?s = "s\<lparr>slip := cb\<rparr>"
  have "h5_dispatch now ?h (pDecodeBuf cb) len ?s = h5_recv_reliable now ?h (pDecodeBuf cb) ?s"
    using ready assms(2,3) by (simp add: h5_dispatch_data HCI_H5_DecodeDataPdu_def)
  also have "\<dots> = Some (h5_apply_ack now (ackNum h) ?s)"
    using assms(4) by (simp add: h5_recv_reliable_duplicate)
  finally show ?thesis
    using that r cb by simp
qed

section \<open>CRC\<close>

text \<open>The sender starts the CRC at \<open>0xFFFF\<close>, the receiver at 0: the step is injective in the
  running value, so that the receiver's value always differs.\<close>

lemma h5_crc_bytes_eq:
  "h5_crc_bytes c = h5_crc_bytes c' \<longleftrightarrow> c = c'"
proof
  assume eq: "h5_crc_bytes c = h5_crc_bytes c'"
  show "c = c'"
  proof (rule bit_word_eqI)
    fix n assume n: "n < LENGTH(16)"
    have hi: "bit (ucast (drop_bit 8 c AND 0xFF) :: u8) k = bit (ucast (drop_bit 8 c' AND 0xFF) :: u8) k"
      and lo: "bit (ucast (c AND 0xFF) :: u8) k = bit (ucast (c' AND 0xFF) :: u8) k" for k
      using eq by (simp_all add: h5_crc_bytes_def)
    show "bit c n = bit c' n"
    proof (cases "n < 8")
      case True
      then show ?thesis
        using lo [of n] by (simp add: and_low_mask word_bit_simps)
    next
      case False
      then have "n - 8 < 8"
        using n by simp
      with False show ?thesis
        using hi [of "n - 8"] by (simp add: and_low_mask word_bit_simps)
    qed
  qed
qed simp

lemma h5_crc_ok_packet:
  assumes "crc h \<noteq> 0" and "h5_holds buf (h5_packet h xs) len" and "unat len < 65536"
  shows "h5_crc_ok buf len = Some False"
proof -
  let ?body = "HCI_H5_PackHeader h @ xs"
  let ?c = "HCI_H5_CcittCrc16Calc 0xFFFF ?body" and ?rc = "HCI_H5_CcittCrc16Calc 0 ?body"
  have pkt: "h5_packet h xs = ?body @ h5_crc_bytes ?c @ []"
    using assms(1) by (simp add: h5_packet_def Let_def)
  have len: "unat len = length ?body + 2" and mem: "length ?body + 2 \<le> length buf"
    using assms(2) by (simp_all add: h5_holds_def pkt h5_crc_bytes_def)
  have "unat (ucast len :: u16) = unat len"
    using assms(3) by (simp add: unsigned_ucast_eq take_bit_nat_eq_self)
  then have n: "unat (ucast len - of_nat HCI_H5_CRC_LEN :: u16) = length ?body"
    using len by (simp add: unat_sub word_le_nat_alt)
  have body: "get_bytes buf 0 (length ?body) = Some ?body"
    using h5_holds_take [OF assms(2) [unfolded pkt]] mem by (simp add: get_bytes_def)
  have "get_bytes (drop (length ?body) buf) 0 (length (h5_crc_bytes ?c)) = Some (h5_crc_bytes ?c)"
    by (rule h5_holds_bytes [OF assms(2) [unfolded pkt]])
  then have crc: "take 2 (drop (length ?body) buf) = h5_crc_bytes ?c"
    by (simp add: get_bytes_def h5_crc_bytes_def numeral_2_eq_2 split: if_splits)
  have b: "buf ! length ?body = h5_crc_bytes ?c ! 0" "buf ! (length ?body + 1) = h5_crc_bytes ?c ! 1"
    using mem by (simp_all add: crc [symmetric])
  have "?c \<noteq> ?rc"
    by (simp add: crc_inj_init)
  then have "h5_crc_bytes ?rc \<noteq> h5_crc_bytes ?c"
    using h5_crc_bytes_eq by metis
  then have "\<not> (ucast (?rc AND 0xFF) = buf ! (length ?body + 1) \<and>
      ucast (drop_bit 8 ?rc AND 0xFF) = buf ! length ?body)"
    unfolding b by (auto simp: h5_crc_bytes_def)
  then show ?thesis
    unfolding h5_crc_ok_def n Let_def body bind.bind_lunit
    using mem by (simp add: get_byte_def)
qed

lemma h5_receive_crc:
  assumes "h5_ready s h xs" and "crc h \<noteq> 0"
  obtains cb where
    "h5_slip_input now (Some (slip_frame oof (h5_packet h xs)))
       (of_nat (length (slip_frame oof (h5_packet h xs)))) s = Some (s\<lparr>slip := cb\<rparr>)"
    and "slip_frame_eq (slip s) cb"
proof -
  note ready = assms(1) [unfolded h5_ready_def]
  obtain cb len c where r:
    "h5_slip_input now (Some (slip_frame oof (h5_packet h xs)))
       (of_nat (length (slip_frame oof (h5_packet h xs)))) s =
     h5_dispatch now (h\<lparr>headCheckSum := c\<rparr>) (pDecodeBuf cb) len (s\<lparr>slip := cb\<rparr>)"
    and buf: "h5_holds (pDecodeBuf cb) (h5_packet h xs) len" and cb: "slip_frame_eq (slip s) cb"
    using ready h5_slip_input_packet [of s h xs] by metis
  let ?h = "h\<lparr>headCheckSum := c\<rparr>" and ?s = "s\<lparr>slip := cb\<rparr>"
  have "unat len < 65536"
    using buf ready cb by (simp add: h5_holds_def h5_wf_defs slip_frame_eq_def)
  then have "h5_crc_ok (pDecodeBuf cb) len = Some False"
    by (rule h5_crc_ok_packet [OF assms(2) buf])
  then have "HCI_H5_DecodeDataPdu now ?h (pDecodeBuf cb) len ?s = Some ?s"
    using assms(2) by (simp add: HCI_H5_DecodeDataPdu_def)
  then have "h5_dispatch now ?h (pDecodeBuf cb) len ?s = Some ?s"
    using ready by (simp add: h5_dispatch_data)
  with r cb that show ?thesis
    by simp
qed

section \<open>One data packet across the wire\<close>

lemma HCI_H5_SendData_frame:
  assumes "h5_wf A" and "\<not> slidWinSize (config A) \<le> txSlidWinSize A" and "\<not> fifo_empty (txFifo A)"
    and "isUartTxDone (uart A)" and "item = hd (fifo_items (txFifo A))" and "xs = h5_item_payload item"
  obtains A' where "HCI_H5_SendData now A = Some A'" and "h5_wf A'"
    and "uartSent (uart A') = uartSent (uart A) @
      [slip_frame (oofEnable (slip A)) (h5_packet (h5_send_head (item ! 2) (of_nat (length xs)) A) xs)]"
    and "txSeq A' = (txSeq A + 1) mod 8" and "txAck A' = txAck A" and "txSlidWinSize A' = 1"
    and "txFifo A' = txFifo A" and "rxFifo A' = rxFifo A" and "linkState A' = linkState A" and "config A' = config A"
    and "rxAck A' = rxAck A" and "resendTick A' = resendTick A" and "txTick A' = now OR 1"
    and "rxTick A' = 0" and "oofEnable (slip A') = oofEnable (slip A)"
proof -
  obtain res s2 where s2: "HCI_H5_SendData now A = Some (h5_data_result now res s2)"
    "h5_sent (item ! 2) xs (A\<lparr>txSlidWinSize := 1\<rparr>) res s2"
    unfolding assms(5,6) by (rule HCI_H5_SendData_item [OF assms(1-3)])
  have win: "slidWinSize (config A) = 1"
    using assms(1,2) u8_window_one by (auto simp: h5_wf_defs)
  have "HCI_H5_IsReliablePacket (item ! 2)"
    using fifo_head_item(1) [of A] assms(1,3) by (simp add: assms(5) h5_wf_def h5_tx_item_def)
  moreover have res
    using s2(2) assms(4) by (simp add: h5_sent_def)
  moreover have "h5_send_head t n (A\<lparr>txSlidWinSize := w\<rparr>) = h5_send_head t n A" for t n w
    by (simp add: h5_send_head_def)
  ultimately show ?thesis
    using s2 h5_data_result_wf [OF s2(2) assms(1) win assms(3)] h5_sent_fields [OF s2(2)]
    by (intro that [of "h5_data_result now res s2"]) (simp_all add: h5_data_result_def h5_sent_def)
qed

text \<open>The header of a data packet is one that the wire preserves.\<close>

lemma h5_send_head_wire:
  assumes "h5_seq_ok A" and "dataIntgrtChkType (config A) < 2" and "t < 16" and "length xs < 256"
  shows "h5_wire_head (h5_send_head t (of_nat (length xs)) A) xs"
  using assms
  by (auto simp: h5_wire_head_def h5_send_head_def h5_head_wf_def h5_seq_ok_def word_unat_eq_iff
      unsigned_ucast_eq unat_of_nat take_bit_nat_eq_self)

text \<open>The receiver's state after a fresh data packet, as far as the protocol is concerned.\<close>

lemma h5_apply_ack_fields:
  "rxFifo (h5_apply_ack now a s) = rxFifo s" "txAck (h5_apply_ack now a s) = txAck s"
  "txSeq (h5_apply_ack now a s) = txSeq s" "config (h5_apply_ack now a s) = config s"
  "linkState (h5_apply_ack now a s) = linkState s" "rxTick (h5_apply_ack now a s) = rxTick s"
  "uart (h5_apply_ack now a s) = uart s" "slip (h5_apply_ack now a s) = slip s"
  by (simp_all add: h5_apply_ack_def h5_release_acked_def)

text \<open>An acknowledgement that matches the sequence number releases the packet.\<close>

lemma h5_receive_ack:
  assumes "h5_wf A" and "h5_seq_ok B" and "linkState A = HCI_H5_LINK_STATE_ACTIVE"
    and "pktHandler (slip A) = H5_PakcetHandler" and "4 \<le> length (pDecodeBuf (slip A))"
    and "txAck B = txSeq A" and "h = h5_send_head HCI_H5_PKT_TYPE_ACK 0 B"
  obtains cb where
    "h5_slip_input now (Some (slip_frame oof (h5_packet h [])))
       (of_nat (length (slip_frame oof (h5_packet h [])))) A =
     Some (h5_release_acked (A\<lparr>slip := cb, rxAck := txSeq A\<rparr>))"
    and "slip_frame_eq (slip A) cb"
proof -
  have fields: "crc h = 0" "ackNum h = txAck B" "pktType h = HCI_H5_PKT_TYPE_ACK"
    using assms(7) by (simp_all add: h5_send_head_def)
  have wire: "h5_wire_head h []"
    using assms(2,7)
    by (simp add: h5_wire_head_def h5_send_head_def h5_head_wf_def h5_seq_ok_def
        h5_pkt_type_defs HCI_H5_IsReliablePacket_def)
  have fits: "length (h5_packet h []) \<le> length (pDecodeBuf (slip A))"
    using assms(5) by (simp add: h5_packet_length fields)
  obtain cb len c where
    "h5_slip_input now (Some (slip_frame oof (h5_packet h [])))
       (of_nat (length (slip_frame oof (h5_packet h [])))) A =
     h5_dispatch now (h\<lparr>headCheckSum := c\<rparr>) (pDecodeBuf cb) len (A\<lparr>slip := cb\<rparr>)"
    "slip_frame_eq (slip A) cb"
    by (rule h5_slip_input_packet [OF assms(1) wire fits assms(4)])
  moreover have "h5_dispatch now (h\<lparr>headCheckSum := c\<rparr>) (pDecodeBuf cb) len (A\<lparr>slip := cb\<rparr>) =
      Some (h5_release_acked (A\<lparr>slip := cb, rxAck := txSeq A\<rparr>))"
    using assms(3,6) by (simp add: h5_dispatch_def fields HCI_H5_ReSendCheck_def)
  ultimately show ?thesis
    using that by simp
qed

text \<open>The receiver's poll sends that acknowledgement once \<open>H5_PURE_ACK_TO\<close> has passed.\<close>

lemma HCI_H5_Poll_ack:
  assumes "h5_wf B" and "linkState B = HCI_H5_LINK_STATE_ACTIVE" and "slidWinSize (config B) = 1"
    and "resendTick B = 0" and "txSlidWinSize B = 0" and "fifo_empty (txFifo B)"
    and "rxTick B \<noteq> 0" and "clock_time_exceed now (rxTick B) (H5_PURE_ACK_TO * 1000)"
    and "isUartTxDone (uart B)"
  obtains B' where "HCI_H5_Poll now B = Some B'" and "rxFifo B' = rxFifo B" and "txAck B' = txAck B"
    and "txSeq B' = txSeq B"
    and "uartSent (uart B') = uartSent (uart B) @
      [slip_frame (oofEnable (slip B)) (h5_packet (h5_send_head HCI_H5_PKT_TYPE_ACK 0 B) [])]"
proof -
  have idle: "h5_poll_send now B = Some B"
    using assms(3-6) by (simp add: h5_poll_send_def HCI_H5_SendData_idle)
  have wf: "h5_wf (B\<lparr>rxTick := 0\<rparr>)"
    using assms(1) by simp
  obtain res s2 where s2: "HCI_H5_SendPureAck (B\<lparr>rxTick := 0\<rparr>) = Some (res, s2)"
    "h5_sent HCI_H5_PKT_TYPE_ACK [] (B\<lparr>rxTick := 0\<rparr>) res s2"
    by (rule HCI_H5_SendPureAck_wf [OF wf])
  have head: "h5_send_head t n (B\<lparr>rxTick := 0\<rparr>) = h5_send_head t n B" for t n
    by (simp add: h5_send_head_def)
  have poll: "HCI_H5_Poll now B = Some (s2\<lparr>rxSlidWinSize := 0\<rparr>)"
    using assms(2,3,7,8) s2(1) by (simp add: HCI_H5_Poll_def idle)
  have unrel: "\<not> HCI_H5_IsReliablePacket HCI_H5_PKT_TYPE_ACK"
    by (simp add: HCI_H5_IsReliablePacket_def h5_pkt_type_defs)
  show ?thesis
    by (rule that [OF poll])
      (use s2(2) h5_sent_fields [OF s2(2)] assms(9) head unrel in \<open>simp_all add: h5_sent_def\<close>)
qed

section \<open>A lost acknowledgement\<close>

text \<open>A receiver that has acknowledged the packet with header \<open>h\<close> and payload \<open>xs\<close> and has nothing
  to send itself.\<close>

definition h5_waiting :: "h5 \<Rightarrow> h5_head \<Rightarrow> u8 list \<Rightarrow> bool" where
  "h5_waiting s h xs \<longleftrightarrow>
     h5_ready s h xs \<and> crc h = 0 \<and> reliable h \<noteq> 0 \<and> seqNum h \<noteq> txAck s \<and> ackNum h = txSeq s \<and>
     rxTick s = 0 \<and> resendTick s = 0 \<and> txSlidWinSize s = 0 \<and> fifo_empty (txFifo s)"

lemma h5_waiting_poll:
  assumes "h5_waiting s h xs"
  shows "HCI_H5_Poll now s = Some s"
proof -
  note w = assms [unfolded h5_waiting_def h5_ready_def]
  have "h5_poll_send now s = Some s"
    using w by (simp add: h5_poll_send_def HCI_H5_SendData_idle)
  with w show ?thesis
    by (simp add: HCI_H5_Poll_def)
qed

lemma h5_ready_slip:
  "slip_frame_eq (slip s) cb \<Longrightarrow> h5_ready s h xs \<Longrightarrow> h5_ready (s\<lparr>slip := cb\<rparr>) h xs"
  by (auto simp: h5_ready_def h5_wf_slip slip_frame_eq_def h5_rx_room_def)

lemma h5_waiting_duplicate:
  assumes "h5_waiting s h xs"
  obtains s' where
    "h5_slip_input now (Some (slip_frame oof (h5_packet h xs)))
       (of_nat (length (slip_frame oof (h5_packet h xs)))) s = Some s'"
    and "h5_waiting s' h xs" and "uart s' = uart s" and "rxFifo s' = rxFifo s"
proof -
  note w = assms [unfolded h5_waiting_def]
  have ready: "h5_ready s h xs" and h: "crc h = 0" "reliable h \<noteq> 0" "seqNum h \<noteq> txAck s"
    using w by simp_all
  obtain cb where cb: "h5_slip_input now (Some (slip_frame oof (h5_packet h xs)))
       (of_nat (length (slip_frame oof (h5_packet h xs)))) s =
     Some (h5_apply_ack now (ackNum h) (s\<lparr>slip := cb\<rparr>))" "slip_frame_eq (slip s) cb"
    by (rule h5_receive_duplicate [OF ready h])
  let ?s' = "h5_apply_ack now (ackNum h) (s\<lparr>slip := cb\<rparr>)"
  have "h5_wf (s\<lparr>slip := cb\<rparr>)" "ackNum h < 8"
    using h5_ready_slip [OF cb(2) ready] w by (simp_all add: h5_ready_def h5_wire_head_def h5_head_wf_def)
  then have "h5_wf ?s'"
    by (rule h5_apply_ack_wf)
  then have "h5_ready ?s' h xs"
    using h5_ready_slip [OF cb(2) ready] by (simp add: h5_ready_def h5_apply_ack_fields h5_rx_room_def)
  then have "h5_waiting ?s' h xs"
    using w by (simp add: h5_waiting_def h5_apply_ack_fields)
      (simp add: h5_apply_ack_def h5_release_acked_def fifo_empty_def)
  then show ?thesis
    by (rule that [OF cb(1)]) (simp_all add: h5_apply_ack_fields)
qed

section \<open>Packets without the reliable bit\<close>

lemma h5_receive_unreliable:
  assumes "h5_ready s h xs" and "crc h = 0" and "reliable h = 0"
  obtains cb f where
    "h5_slip_input now (Some (slip_frame oof (h5_packet h xs)))
       (of_nat (length (slip_frame oof (h5_packet h xs)))) s =
     Some (s\<lparr>slip := cb, txAck := (txAck s + 1) mod 8, rxFifo := f\<rparr>)"
    and "h5_delivered (pktType h # xs) s f"
proof -
  note ready = assms(1) [unfolded h5_ready_def]
  obtain cb len c where r:
    "h5_slip_input now (Some (slip_frame oof (h5_packet h xs)))
       (of_nat (length (slip_frame oof (h5_packet h xs)))) s =
     h5_dispatch now (h\<lparr>headCheckSum := c\<rparr>) (pDecodeBuf cb) len (s\<lparr>slip := cb\<rparr>)"
    and pay: "get_bytes (drop HCI_H5_HEAD_LEN (pDecodeBuf cb)) 0 (unat (payloadLen h)) = Some xs"
    and wf: "h5_wf (s\<lparr>slip := cb\<rparr>)"
    using ready h5_slip_input_packet [of s h xs] by metis
  let ?s = "s\<lparr>slip := cb, txAck := (txAck s + 1) mod 8\<rparr>"
  have wf': "h5_wf ?s"
    using h5_wf_txAck [OF wf u8_mod8_less] by simp
  have n: "unat (payloadLen h) = length xs"
    using ready by (simp add: h5_wire_head_def unat_of_nat)
  have room: "h5_rx_room ?s (unat (payloadLen h))"
    unfolding n using ready by (simp add: h5_rx_room_def)
  obtain f where f: "HCI_H5_PackHciPdu (pktType h) (drop HCI_H5_HEAD_LEN (pDecodeBuf cb)) (payloadLen h) ?s =
      Some (?s\<lparr>rxFifo := f\<rparr>)" "h5_delivered (pktType h # xs) ?s f"
    by (rule HCI_H5_PackHciPdu_delivers [OF wf' room pay])
  have "h5_dispatch now (h\<lparr>headCheckSum := c\<rparr>) (pDecodeBuf cb) len (s\<lparr>slip := cb\<rparr>) = Some (?s\<lparr>rxFifo := f\<rparr>)"
    using ready assms(2,3) f(1) by (simp add: h5_dispatch_data HCI_H5_DecodeDataPdu_def)
  with r f(2) that show ?thesis
    by (simp add: h5_delivered_def)
qed

section \<open>Packets longer than a slot\<close>

lemma fifo_push_overrun:
  assumes "fifo_wf f" and "unat (wptr f) mod unat (fnum f) = unat (fnum f) - 1"
    and "unat (fsize f) < length xs"
  shows "fifo_push f xs = None"
proof -
  obtain n where "unat (fnum f) = Suc n"
    using fifo_wf_index(2) [OF assms(1)] gr0_conv_Suc by blast
  then have "fifo_slot f (wptr f) + unat (fsize f) = length (fp f)"
    using assms(1,2) by (simp add: fifo_slot_eq fifo_wf_def)
  then show ?thesis
    using assms(3) by (simp add: fifo_push_def put_bytes_def)
qed

lemma h5_receive_overrun:
  assumes "h5_wf s" and "h5_wire_head h xs" and "length (h5_packet h xs) \<le> length (pDecodeBuf (slip s))"
    and "pktHandler (slip s) = H5_PakcetHandler" and "linkState s = HCI_H5_LINK_STATE_ACTIVE"
    and "slidWinSize (config s) = 1" and "h5_data_type (pktType h)" and "crc h = 0"
    and "reliable h \<noteq> 0" and "seqNum h = txAck s" and "unat (fsize (rxFifo s)) \<le> length xs"
    and "unat (wptr (rxFifo s)) mod unat (fnum (rxFifo s)) = unat (fnum (rxFifo s)) - 1"
  shows "h5_slip_input now (Some (slip_frame oof (h5_packet h xs)))
       (of_nat (length (slip_frame oof (h5_packet h xs)))) s = None"
proof -
  obtain cb len c where r:
    "h5_slip_input now (Some (slip_frame oof (h5_packet h xs)))
       (of_nat (length (slip_frame oof (h5_packet h xs)))) s =
     h5_dispatch now (h\<lparr>headCheckSum := c\<rparr>) (pDecodeBuf cb) len (s\<lparr>slip := cb\<rparr>)"
    and pay: "get_bytes (drop HCI_H5_HEAD_LEN (pDecodeBuf cb)) 0 (unat (payloadLen h)) = Some xs"
    by (rule h5_slip_input_packet [OF assms(1-4)])
  have "fifo_push (rxFifo s) (pktType h # xs) = None"
    using assms(1,11,12) by (intro fifo_push_overrun) (simp_all add: h5_wf_defs fifo_inv_def)
  then have "HCI_H5_PackHciPdu (pktType h) (drop HCI_H5_HEAD_LEN (pDecodeBuf cb)) (payloadLen h) s' = None"
    if "rxFifo s' = rxFifo s" for s'
    using that by (simp add: HCI_H5_PackHciPdu_def pay [simplified])
  then have "h5_dispatch now (h\<lparr>headCheckSum := c\<rparr>) (pDecodeBuf cb) len (s\<lparr>slip := cb\<rparr>) = None"
    using assms(5-10)
    by (simp add: h5_dispatch_data HCI_H5_DecodeDataPdu_def h5_recv_reliable_def)
  with r show ?thesis
    by simp
qed

end
