(* ===== verification/H5_Handshake.thy ===== *)
theory H5_Handshake
  imports H5_Protocol
begin

text \<open>
  The link establishment of \<^verbatim>\<open>hci_h5.c\<close>: an abstract state machine on the four messages, and the
  proof that \<open>HCI_H5_DecodeLinkPdu\<close> and the poll refine it.  Two stations are the subject of \<open>H5_Converge\<close>.
\<close>

section \<open>The abstract state machine\<close>

datatype link_msg = SYNC | SYNC_RSP | CONFIG | CONFIG_RSP | LINK_OTHER

definition link_msg_of :: "u16 \<Rightarrow> link_msg" where
  "link_msg_of m =
     (if m = HCI_H5_MSG_SYNC then SYNC else if m = HCI_H5_MSG_SYNC_RSP then SYNC_RSP
      else if m = HCI_H5_MSG_CONFIG then CONFIG else if m = HCI_H5_MSG_CONFIG_RSP then CONFIG_RSP
      else LINK_OTHER)"

text \<open>The next state and the reply.\<close>

fun link_next :: "h5_link_state \<Rightarrow> link_msg \<Rightarrow> h5_link_state \<times> link_msg option" where
  "link_next HCI_H5_LINK_STATE_IDLE SYNC = (HCI_H5_LINK_STATE_IDLE, Some SYNC_RSP)"
| "link_next HCI_H5_LINK_STATE_IDLE SYNC_RSP = (HCI_H5_LINK_STATE_INIT, Some CONFIG)"
| "link_next HCI_H5_LINK_STATE_IDLE m = (HCI_H5_LINK_STATE_IDLE, Some SYNC)"
| "link_next HCI_H5_LINK_STATE_INIT SYNC = (HCI_H5_LINK_STATE_INIT, Some SYNC_RSP)"
| "link_next HCI_H5_LINK_STATE_INIT CONFIG = (HCI_H5_LINK_STATE_INIT, Some CONFIG_RSP)"
| "link_next HCI_H5_LINK_STATE_INIT CONFIG_RSP = (HCI_H5_LINK_STATE_ACTIVE, None)"
| "link_next HCI_H5_LINK_STATE_INIT m = (HCI_H5_LINK_STATE_INIT, None)"
| "link_next HCI_H5_LINK_STATE_ACTIVE CONFIG = (HCI_H5_LINK_STATE_ACTIVE, Some CONFIG_RSP)"
| "link_next HCI_H5_LINK_STATE_ACTIVE SYNC = (HCI_H5_LINK_STATE_IDLE, Some SYNC_RSP)"
| "link_next HCI_H5_LINK_STATE_ACTIVE m = (HCI_H5_LINK_STATE_ACTIVE, None)"

text \<open>What each state sends when its 250 ms period elapses.\<close>

fun link_tick :: "h5_link_state \<Rightarrow> link_msg option" where
  "link_tick HCI_H5_LINK_STATE_IDLE = Some SYNC"
| "link_tick HCI_H5_LINK_STATE_INIT = Some CONFIG"
| "link_tick HCI_H5_LINK_STATE_ACTIVE = None"

text \<open>The payload of a message, and the transmission of an optional message.\<close>

fun link_payload :: "h5_config \<Rightarrow> link_msg \<Rightarrow> u8 list" where
  "link_payload c SYNC = UINT16_TO_BSTREAM HCI_H5_MSG_SYNC"
| "link_payload c SYNC_RSP = UINT16_TO_BSTREAM HCI_H5_MSG_SYNC_RSP"
| "link_payload c CONFIG = UINT16_TO_BSTREAM HCI_H5_MSG_CONFIG @ [h5_config_byte c]"
| "link_payload c CONFIG_RSP = UINT16_TO_BSTREAM HCI_H5_MSG_CONFIG_RSP @ [h5_config_byte c]"
| "link_payload c LINK_OTHER = []"

definition link_replies :: "link_msg option \<Rightarrow> h5 \<Rightarrow> h5 \<Rightarrow> bool" where
  "link_replies m s s' \<longleftrightarrow>
     (case m of
        None \<Rightarrow> uart s' = uart s
      | Some m \<Rightarrow> \<exists>t h. uartSent (uart s') = uartSent (uart s) @
          (if isUartTxDone (uart s)
           then [slip_frame t (h5_packet h (link_payload (hciH5Config s) m))] else []) \<and>
          pktType h = HCI_H5_PKT_TYPE_LINK_CTRL \<and> crc h = 0 \<and>
          h5_wire_head h (link_payload (hciH5Config s) m))"

section \<open>Refinement\<close>

lemma h5_sent_link_replies:
  assumes "h5_sent HCI_H5_PKT_TYPE_LINK_CTRL (link_payload (hciH5Config s) m) s0 res s'"
    and "uart s0 = uart s" and "h5_wf s0"
  shows "link_replies (Some m) s s'"
proof -
  let ?xs = "link_payload (hciH5Config s) m"
  let ?h = "h5_send_head HCI_H5_PKT_TYPE_LINK_CTRL (of_nat (length ?xs)) s0"
  have len: "length ?xs \<le> 3"
    by (cases m) simp_all
  then have "(ucast (of_nat (length ?xs) :: u32) :: u16) = of_nat (length ?xs)"
    by (simp add: word_unat_eq_iff unsigned_ucast_eq unat_of_nat take_bit_nat_eq_self)
  moreover have "txAck s0 < 8" "\<not> HCI_H5_IsReliablePacket HCI_H5_PKT_TYPE_LINK_CTRL"
    using assms(3) by (simp_all add: h5_wf_defs HCI_H5_IsReliablePacket_def h5_pkt_type_defs)
  ultimately have "pktType ?h = HCI_H5_PKT_TYPE_LINK_CTRL \<and> crc ?h = 0 \<and> h5_wire_head ?h ?xs"
    using len by (simp add: h5_send_head_def h5_wire_head_def h5_head_wf_def h5_pkt_type_defs)
  moreover have "uartSent (uart s') = uartSent (uart s) @
      (if isUartTxDone (uart s) then [slip_frame (oofEnable (slip s0)) (h5_packet ?h ?xs)] else [])"
    using assms by (simp add: h5_sent_def)
  ultimately show ?thesis
    unfolding link_replies_def option.case by blast
qed

text \<open>A link message is sent without a change of the link state.\<close>

definition link_sends :: "link_msg \<Rightarrow> (h5 \<Rightarrow> h5 option) \<Rightarrow> bool" where
  "link_sends m send \<longleftrightarrow>
     (\<forall>s0 s. h5_wf s0 \<longrightarrow> uart s0 = uart s \<longrightarrow> hciH5Config s0 = hciH5Config s \<longrightarrow>
        (\<exists>s'. send s0 = Some s' \<and> linkState s' = linkState s0 \<and> link_replies (Some m) s s'))"

lemma link_sends_messages:
  "link_sends SYNC HCI_H5_SendSync" "link_sends SYNC_RSP HCI_H5_SendSyncRsp"
  "link_sends CONFIG HCI_H5_SendConfig" "link_sends CONFIG_RSP HCI_H5_SendConfigRsp"
proof -
  have sent: "\<exists>s'. r = Some s' \<and> linkState s' = linkState s0 \<and> link_replies (Some m) s s'"
    if "\<exists>res s'. r = Some s' \<and> h5_sent HCI_H5_PKT_TYPE_LINK_CTRL (link_payload (hciH5Config s0) m) s0 res s'"
      and "uart s0 = uart s" and "hciH5Config s0 = hciH5Config s" and "h5_wf s0" for r m s0 s
    using that h5_sent_link_replies h5_sent_fields(6) by metis
  have ctrl: "\<exists>res s'. f s0 = Some s' \<and>
      h5_sent HCI_H5_PKT_TYPE_LINK_CTRL (link_payload (hciH5Config s0) m) s0 res s'"
    if "h5_wf s0" and "(m, f) \<in> {(SYNC, HCI_H5_SendSync), (SYNC_RSP, HCI_H5_SendSyncRsp),
      (CONFIG, HCI_H5_SendConfig), (CONFIG_RSP, HCI_H5_SendConfigRsp)}" for m f s0
    using that h5_control_sent(2-5) [OF that(1)] by auto
  show "link_sends SYNC HCI_H5_SendSync" "link_sends SYNC_RSP HCI_H5_SendSyncRsp"
    "link_sends CONFIG HCI_H5_SendConfig" "link_sends CONFIG_RSP HCI_H5_SendConfigRsp"
    unfolding link_sends_def by (intro allI impI, rule sent, rule ctrl, assumption, simp, assumption, assumption, assumption)+
qed

lemma link_msg_distinct:
  "HCI_H5_MSG_SYNC \<noteq> HCI_H5_MSG_SYNC_RSP" "HCI_H5_MSG_SYNC \<noteq> HCI_H5_MSG_CONFIG"
  "HCI_H5_MSG_SYNC \<noteq> HCI_H5_MSG_CONFIG_RSP" "HCI_H5_MSG_SYNC_RSP \<noteq> HCI_H5_MSG_CONFIG"
  "HCI_H5_MSG_SYNC_RSP \<noteq> HCI_H5_MSG_CONFIG_RSP" "HCI_H5_MSG_CONFIG \<noteq> HCI_H5_MSG_CONFIG_RSP"
  by (simp_all add: h5_msg_defs)

lemma HCI_H5_Reset_keeps:
  "linkState (HCI_H5_Reset now s) = linkState s" "uart (HCI_H5_Reset now s) = uart s"
  "hciH5Config (HCI_H5_Reset now s) = hciH5Config s" "config (HCI_H5_Reset now s) = config s"
  by (simp_all add: HCI_H5_Reset_def)

lemma HCI_H5_DecodeLinkPdu_spec:
  assumes wf: "h5_wf s" and len: "7 \<le> length p"
    and msg: "link_msg_of (BYTES_TO_UINT16 (p ! 4) (p ! 5)) = m"
  obtains s' where "HCI_H5_DecodeLinkPdu now p s = Some s'"
    and "linkState s' = fst (link_next (linkState s) m)"
    and "link_replies (snd (link_next (linkState s) m)) s s'"
proof -
  let ?w = "BYTES_TO_UINT16 (p ! 4) (p ! 5)"
  obtain q where q: "get_bytes p 4 3 = Some q" "q ! 0 = p ! 4" "q ! Suc 0 = p ! 5"
    using len by (simp add: get_bytes_def)
  have send: "\<exists>s'. snd' s0 = Some s' \<and> linkState s' = linkState s0 \<and> link_replies (Some k) s s'"
    if "link_sends k snd'" "h5_wf s0" "uart s0 = uart s" "hciH5Config s0 = hciH5Config s"
    for k snd' s0
    using that unfolding link_sends_def by blast
  note sends = link_sends_messages [THEN send]
  have win: "slidWinSize (hciH5Config s) \<le> 1"
    using wf by (simp add: h5_wf_defs)
  have reset: "h5_wf ((HCI_H5_Reset now (s\<lparr>linkState := HCI_H5_LINK_STATE_IDLE\<rparr>))\<lparr>hciResets := n\<rparr>)" for n
    using h5_reset_wf(2) [OF wf win] by simp
  have msgs: "link_msg_of HCI_H5_MSG_SYNC = SYNC" "link_msg_of HCI_H5_MSG_SYNC_RSP = SYNC_RSP"
    "link_msg_of HCI_H5_MSG_CONFIG = CONFIG" "link_msg_of HCI_H5_MSG_CONFIG_RSP = CONFIG_RSP"
    by (simp_all add: link_msg_of_def link_msg_distinct [symmetric])
  have "\<exists>s'. HCI_H5_DecodeLinkPdu now p s = Some s' \<and>
      linkState s' = fst (link_next (linkState s) m) \<and>
      link_replies (snd (link_next (linkState s) m)) s s'"
  proof (cases "linkState s")
    case HCI_H5_LINK_STATE_IDLE
    then show ?thesis
      using sends(1) [OF wf] sends(2) [OF wf]
        sends(3) [of "s\<lparr>linkState := HCI_H5_LINK_STATE_INIT\<rparr>"] wf msg
      by (cases m) (auto simp: HCI_H5_DecodeLinkPdu_def q Let_def link_msg_of_def split: if_splits)
  next
    case HCI_H5_LINK_STATE_INIT
    then show ?thesis
      using sends(2) [OF wf] sends(4) [OF wf] wf msg
      by (cases m)
        (auto simp: HCI_H5_DecodeLinkPdu_def q Let_def link_msg_of_def link_msg_distinct
          HCI_H5_Reset_keeps link_replies_def split: if_splits)
  next
    case HCI_H5_LINK_STATE_ACTIVE
    then show ?thesis
      using sends(4) [OF wf] sends(2) [OF reset] wf msg
      by (cases m)
        (auto simp: HCI_H5_DecodeLinkPdu_def q Let_def link_msg_of_def link_msg_distinct
          HCI_H5_Reset_keeps link_replies_def split: if_splits)
  qed
  then show ?thesis
    using that by blast
qed

section \<open>Negotiation\<close>

definition h5_config_ok :: "h5_config \<Rightarrow> bool" where
  "h5_config_ok c \<longleftrightarrow> slidWinSize c < 8 \<and> oofFlowCtrl c < 2 \<and> dataIntgrtChkType c < 2 \<and> version c < 8"

text \<open>The configuration byte carries the four fields.\<close>

lemma h5_config_byte_fields:
  assumes "h5_config_ok c"
  shows "h5_config_byte c AND 0x07 = slidWinSize c"
    and "drop_bit 3 (h5_config_byte c) AND 0x01 = oofFlowCtrl c"
    and "drop_bit 4 (h5_config_byte c) AND 0x01 = dataIntgrtChkType c"
    and "drop_bit 5 (h5_config_byte c) AND 0x07 = version c"
proof -
  have small: "bit (slidWinSize c) i \<Longrightarrow> i < 3" "bit (oofFlowCtrl c) i \<Longrightarrow> i < 1"
    "bit (dataIntgrtChkType c) i \<Longrightarrow> i < 1" "bit (version c) i \<Longrightarrow> i < 3" for i
    using assms word_less_bits [of "slidWinSize c" 3 i] word_less_bits [of "oofFlowCtrl c" 1 i]
      word_less_bits [of "dataIntgrtChkType c" 1 i] word_less_bits [of "version c" 3 i]
    by (simp_all add: h5_config_ok_def)
  note fields = h5_config_byte_def and_low_mask
  show "h5_config_byte c AND 0x07 = slidWinSize c"
    unfolding fields by (rule bit_word_eqI) (auto simp: word_bit_simps dest: small)
  show "drop_bit 3 (h5_config_byte c) AND 0x01 = oofFlowCtrl c"
    unfolding fields
    by (rule bit_word_eqI) (auto simp: word_bit_simps bit_0 dest: small simp del: take_bit_Suc_0)
  show "drop_bit 4 (h5_config_byte c) AND 0x01 = dataIntgrtChkType c"
    unfolding fields
    by (rule bit_word_eqI) (auto simp: word_bit_simps bit_0 dest: small simp del: take_bit_Suc_0)
  show "drop_bit 5 (h5_config_byte c) AND 0x07 = version c"
    unfolding fields by (rule bit_word_eqI) (auto simp: word_bit_simps dest: small)
qed

lemma h5_negotiate_byte:
  assumes "h5_config_ok c'"
  shows "h5_negotiate c (h5_config_byte c') =
     \<lparr>slidWinSize = min (slidWinSize c) (slidWinSize c'), oofFlowCtrl = oofFlowCtrl c AND oofFlowCtrl c',
      dataIntgrtChkType = dataIntgrtChkType c AND dataIntgrtChkType c',
      version = min (version c) (version c')\<rparr>"
  by (simp add: h5_negotiate_def h5_config_byte_fields [OF assms])

end
