(* ===== verification/H5_Theorems.thy ===== *)
theory H5_Theorems
  imports H5_Handshake
begin

text \<open>
  The properties of the H5 transport: memory safety of every run, delivery across the wire,
  acknowledgement and retransmission, link establishment and negotiation, the wire format, and the
  defects.  The witnesses use two concrete peers with the ring sizes of the sample applications.
\<close>

section \<open>A concrete peer\<close>

text \<open>Eight receive slots of 48 bytes, sixteen transmit slots of 36 bytes, link active; and the
  same peer with one event packet in its transmit ring.\<close>

definition h5_peer :: h5 where
  "h5_peer = (h5_start 0 48 3 36 4)
     \<lparr>linkState := HCI_H5_LINK_STATE_ACTIVE, config := HCI_H5_DefaultConfig\<rparr>"

definition h5_event_item :: "u8 list" where
  "h5_event_item = [4, 0, HCI_H5_PKT_TYPE_EVT, 0x0E, 0xC0, 0xDB]"

definition h5_sender :: h5 where
  "h5_sender = h5_peer\<lparr>txFifo := the (fifo_push (txFifo h5_peer) h5_event_item)\<rparr>"

lemma h5_peer_wf: "h5_wf h5_peer"
proof -
  have "h5_wf (h5_start 0 48 3 36 4)"
    by (rule h5_start_wf) simp_all
  moreover have "h5_wf (s\<lparr>config := HCI_H5_DefaultConfig\<rparr>)"
    if "h5_wf s" and "txSlidWinSize s = 0" for s
    using that by (simp add: h5_wf_defs h5_can_send_def HCI_H5_DefaultConfig_def)
  moreover have "txSlidWinSize (h5_start 0 48 3 36 4) = 0"
    by (simp add: h5_start_def HCI_H5_Init_def)
  ultimately show ?thesis
    by (simp add: h5_peer_def)
qed

lemma h5_peer_fields:
  "linkState h5_peer = HCI_H5_LINK_STATE_ACTIVE" "config h5_peer = HCI_H5_DefaultConfig"
  "txSeq h5_peer = 0" "txAck h5_peer = 0" "rxAck h5_peer = 0" "txSlidWinSize h5_peer = 0" "resendTick h5_peer = 0"
  "pktHandler (slip h5_peer) = H5_PakcetHandler" "length (pDecodeBuf (slip h5_peer)) = 56"
  "rxFifo h5_peer = hci_fifo_new 48 3" "txFifo h5_peer = hci_fifo_new 36 4"
  "isUartTxDone (uart h5_peer)" "hciH5Config h5_peer = HCI_H5_DefaultConfig"
  by (simp_all add: h5_peer_def h5_start_def HCI_H5_Init_def h5_boot_def HCI_Slip_Init_def
      HCI_SLip_SetFlowCtrlEnable_def HCI_Slip_RegisterPktHandler_def HCI_SLIP_DECODE_BUF_SIZE_def
      MEM_SIZE_ALIGN4_def)

lemma h5_peer_room: "n \<le> 47 \<Longrightarrow> h5_rx_room h5_peer n"
  using hci_fifo_new_inv [of 48 3] by (simp add: h5_rx_room_def h5_peer_fields) (simp add: hci_fifo_new_def fifo_count_def)

lemma h5_sender_push:
  obtains f old where "fifo_push (txFifo h5_peer) h5_event_item = Some f"
    and "h5_sender = h5_peer\<lparr>txFifo := f\<rparr>" and "h5_wf h5_sender"
    and "fifo_items f = [h5_event_item @ old]"
proof -
  have env: "h5_env (0, Ev_HostPush h5_event_item) h5_peer"
    by (simp add: h5_env_def h5_peer_fields hci_fifo_new_def fifo_count_def h5_tx_item_def
        h5_event_item_def BYTES_TO_UINT16_def HCI_H5_IsReliablePacket_def)
  from h5_host_push_ok [OF h5_peer_wf env] obtain f where
    f: "fifo_push (txFifo h5_peer) h5_event_item = Some f" "h5_wf (h5_peer\<lparr>txFifo := f\<rparr>)"
    by (auto simp: h5_step_def elim: h5_step_okE)
  have new: "fifo_inv (hci_fifo_new 36 4)" "fifo_items (hci_fifo_new 36 4) = []"
    by (simp_all add: hci_fifo_new_inv)
  have "fifo_items f = fifo_items (txFifo h5_peer) @
      [h5_event_item @ drop (length h5_event_item) (fifo_read (txFifo h5_peer) (wptr (txFifo h5_peer)))]"
  proof (rule fifo_push_items(2) [OF _ _ _ f(1)])
    show "fifo_inv (txFifo h5_peer)"
      by (simp add: h5_peer_fields new)
  qed (simp_all add: h5_peer_fields fifo_count_def hci_fifo_new_def h5_event_item_def)
  then show ?thesis
    using f by (intro that [of f]) (simp_all add: h5_sender_def h5_peer_fields new)
qed

lemma h5_peer_ready:
  assumes "h5_wire_head h xs" and "length xs \<le> 44" and "h5_data_type (pktType h)"
  shows "h5_ready h5_peer h xs"
  using assms h5_peer_wf h5_peer_room
  by (simp add: h5_ready_def h5_peer_fields HCI_H5_DefaultConfig_def h5_packet_length)

text \<open>A data packet for the peer: an event with one byte.\<close>

definition h5_sample_head :: "u8 \<Rightarrow> u8 \<Rightarrow> u8 \<Rightarrow> h5_head" where
  "h5_sample_head seq c rel =
     \<lparr>seqNum = seq, ackNum = 0, crc = c, reliable = rel, pktType = HCI_H5_PKT_TYPE_EVT,
      headCheckSum = 0, payloadLen = 1\<rparr>"

lemma h5_sample_wire:
  "seq < 8 \<Longrightarrow> c < 2 \<Longrightarrow> rel < 2 \<Longrightarrow> h5_wire_head (h5_sample_head seq c rel) [x]"
  by (simp add: h5_wire_head_def h5_head_wf_def h5_sample_head_def HCI_H5_PKT_TYPE_EVT_def)

lemma h5_sample_type: "h5_data_type (pktType (h5_sample_head seq c rel))"
  by (simp add: h5_data_type_def h5_sample_head_def)

lemma h5_sample_ready:
  "seq < 8 \<Longrightarrow> c < 2 \<Longrightarrow> rel < 2 \<Longrightarrow> h5_ready h5_peer (h5_sample_head seq c rel) [x]"
  by (rule h5_peer_ready) (simp_all add: h5_sample_wire h5_sample_type)

section \<open>Safety\<close>

text \<open>
  C1: from the state after \<open>HCI_H5_Init\<close> every sequence of received frames (of any length and content,
  short, damaged, escaped, repeated or out of order), polls, transmit-done interrupts, and ring
  operations of the controller is handled without an access outside the decode, encode, transmit and
  ring buffers, also when the receive ring is full, and keeps the invariant of the link (sequence
  numbers below 8, window at most 1, buffers consistent), under two conditions: no received data packet
  announces a payload that is longer than a slot of the receive ring less the byte for the packet type
  (\<open>h5_rx_slot_overrun\<close> shows that such a packet is written beyond the ring), and the
  controller writes well-formed packets into free slots of the transmit ring.
\<close>

theorem h5_run_safe:
  assumes "rx < 65000" and "kr \<le> 7" and "3 \<le> tx" and "tx < 30000" and "kt \<le> 7"
    and "admissible h5_step h5_env evs (h5_start now rx kr tx kt)"
  shows "\<exists>s. run h5_step evs (h5_start now rx kr tx kt) = Some s \<and> h5_wf s"
  using h5sys.run_safe [OF h5_start_wf [OF assms(1-5)] assms(6)] .

text \<open>The controller writes an event, the peer completes the handshake and sends a data packet twice, a poll
  follows and the controller takes the packet.\<close>

definition h5_sample_run :: "(u32 \<times> h5_event) list" where
  "h5_sample_run =
     [(7, Ev_HostPush h5_event_item), (8, Ev_Frame [0, 0x2F, 0, 0xD0, 2, 0x7D]), (9, Ev_TxDone),
      (10, Ev_Frame [0, 0x3F, 0, 0xDB, 0xDC, 4, 0x7B, 1]), (11, Ev_Frame [0x80, 0x14, 0, 0x6B, 5]),
      (12, Ev_Frame [0x80, 0x14, 0, 0x6B, 5]), (13, Ev_Poll), (14, Ev_TxDone), (15, Ev_Frame [1, 2]), (16, Ev_RxPop)]"

lemma h5_start_rx: "rx < 65536 \<Longrightarrow> unat (fsize (rxFifo (h5_start now rx kr tx kt))) = rx"
  by (simp add: h5_start_def HCI_H5_Init_def h5_boot_def hci_fifo_new_def unat_of_nat)

lemma h5_sample_frames:
  "h5_frame_fits 48 [0, 0x2F, 0, 0xD0, 2, 0x7D]" "h5_frame_fits 48 [0, 0x3F, 0, 0xDB, 0xDC, 4, 0x7B, 1]"
  "h5_frame_fits 48 [0x80, 0x14, 0, 0x6B, 5]" "h5_frame_fits 48 [1, 2]"
  by (simp_all add: h5_frame_fits_def slip_unescape_code_def HCI_H5_UnpackHeader_def BYTES_TO_UINT32_or
      H5_HDR_PKT_TYPE_def H5_HDR_LEN_def h5_data_type_def h5_pkt_type_defs)

lemma h5_sample_admissible: "admissible h5_step h5_env h5_sample_run (h5_start 0 48 3 36 4)"
proof -
  have fits: "list_all (\<lambda>ev. h5_event_fits 48 (snd ev)) (tl h5_sample_run)"
    by (simp add: h5_sample_run_def h5_event_fits_def h5_sample_frames)
  have push: "h5_env (hd h5_sample_run) (h5_start 0 48 3 36 4)"
    by (simp add: h5_sample_run_def h5_env_def h5_start_def HCI_H5_Init_def h5_boot_def h5_tx_item_def
        h5_event_item_def BYTES_TO_UINT16_def HCI_H5_IsReliablePacket_def hci_fifo_new_def fifo_count_def)
  have "admissible h5_step h5_env (tl h5_sample_run) s'" if "h5_step (hd h5_sample_run) (h5_start 0 48 3 36 4) = Some s'" for s'
    using h5_step_rx [OF that] h5_start_rx [of 48 0 3 36 4] by (intro h5_admissible_frames [OF fits]) simp
  then have "admissible h5_step h5_env (hd h5_sample_run # tl h5_sample_run) (h5_start 0 48 3 36 4)"
    using push by (auto split: option.split)
  then show ?thesis
    by (simp add: h5_sample_run_def)
qed

theorem h5_run_safe_witness: "\<exists>s. run h5_step h5_sample_run (h5_start 0 48 3 36 4) = Some s \<and> h5_wf s"
  by (rule h5_run_safe [OF _ _ _ _ _ h5_sample_admissible]) simp_all

section \<open>Delivery\<close>


lemma h5_sender_fields:
  obtains old where "fifo_items (txFifo h5_sender) = [h5_event_item @ old]"
    and "h5_item_payload (h5_event_item @ old) = [0x0E, 0xC0, 0xDB]"
    and "\<not> fifo_empty (txFifo h5_sender)" and "h5_wf h5_sender"
    and "h5_sender = h5_peer\<lparr>txFifo := txFifo h5_sender\<rparr>"
proof -
  obtain f old where f: "h5_sender = h5_peer\<lparr>txFifo := f\<rparr>" "h5_wf h5_sender"
    "fifo_items f = [h5_event_item @ old]"
    by (rule h5_sender_push)
  have tx: "txFifo h5_sender = f"
    by (subst f(1)) simp
  have "fifo_count f = 1"
    using arg_cong [OF f(3), of length] by simp
  then show ?thesis
    using f tx by (intro that [of old])
      (simp_all add: fifo_empty_count h5_item_payload_def h5_event_item_def BYTES_TO_UINT16_def)
qed


section \<open>Acknowledgement and retransmission\<close>

text \<open>
  The acknowledgement comes back: an active peer that owes an acknowledgement sends it from its
  poll once the 10 ms timer has expired, and the sender that receives it removes exactly the
  acknowledged packet from its transmit ring, reopens its window and stops its timer.
\<close>

theorem h5_ack_releases:
  assumes "h5_wf B" and "linkState B = HCI_H5_LINK_STATE_ACTIVE" and "slidWinSize (config B) = 1"
    and "resendTick B = 0" and "txSlidWinSize B = 0" and "fifo_empty (txFifo B)"
    and "rxTick B \<noteq> 0" and "clock_time_exceed now (rxTick B) (H5_PURE_ACK_TO * 1000)"
    and "isUartTxDone (uart B)"
    and "h5_wf A" and "linkState A = HCI_H5_LINK_STATE_ACTIVE"
    and "pktHandler (slip A) = H5_PakcetHandler" and "txAck B = txSeq A" and "txSlidWinSize A = 1"
  shows "\<exists>B' frame A'.
     HCI_H5_Poll now B = Some B' \<and> uartSent (uart B') = uartSent (uart B) @ [frame] \<and>
     rxFifo B' = rxFifo B \<and>
     h5_slip_input now' (Some frame) (of_nat (length frame)) A = Some A' \<and>
     fifo_items (txFifo A') = tl (fifo_items (txFifo A)) \<and> rxFifo A' = rxFifo A \<and>
     txSlidWinSize A' = 0 \<and> txTick A' = 0 \<and> h5_wf A'"
proof -
  let ?h = "h5_send_head HCI_H5_PKT_TYPE_ACK 0 B"
  obtain B' where B': "HCI_H5_Poll now B = Some B'" "rxFifo B' = rxFifo B"
    "uartSent (uart B') = uartSent (uart B) @ [slip_frame (oofEnable (slip B)) (h5_packet ?h [])]"
    by (rule HCI_H5_Poll_ack [OF assms(1-9)])
  have seqB: "h5_seq_ok B" and buf: "4 \<le> length (pDecodeBuf (slip A))"
    using assms(1,10) by (simp_all add: h5_wf_defs)
  obtain cb where A': "h5_slip_input now' (Some (slip_frame (oofEnable (slip B)) (h5_packet ?h [])))
       (of_nat (length (slip_frame (oofEnable (slip B)) (h5_packet ?h [])))) A =
     Some (h5_release_acked (A\<lparr>slip := cb, rxAck := txSeq A\<rparr>))" and cb: "slip_frame_eq (slip A) cb"
    by (rule h5_receive_ack [OF assms(10) seqB assms(11,12) buf assms(13) refl])
  let ?A = "A\<lparr>slip := cb, rxAck := txSeq A\<rparr>"
  have "h5_wf ?A"
    using h5_wf_slip [OF assms(10) cb] by (intro h5_wf_rxAck) (simp_all add: h5_wf_defs)
  note wf = h5_release_acked_wf [OF this]
  have "fifo_items (txFifo (h5_release_acked ?A)) = tl (fifo_items (txFifo A))"
    using fifo_release(2) [of "txFifo A" 1] assms(10,14)
    by (simp add: h5_release_acked_def h5_wf_defs drop_Suc)
  then show ?thesis
    using B' A' wf by (intro exI [of _ B'] exI [of _ "h5_release_acked ?A"] exI conjI)
      (auto simp: h5_release_acked_def)
qed

text \<open>The peer owes an acknowledgement; the sender waits for it with its packet outstanding.\<close>

theorem h5_ack_releases_witness:
  "\<exists>B' frame A'.
     HCI_H5_Poll 1000000 (h5_peer\<lparr>rxTick := 1\<rparr>) = Some B' \<and>
     uartSent (uart B') = uartSent (uart (h5_peer\<lparr>rxTick := 1\<rparr>)) @ [frame] \<and>
     rxFifo B' = rxFifo (h5_peer\<lparr>rxTick := 1\<rparr>) \<and>
     h5_slip_input 1000001 (Some frame) (of_nat (length frame)) (h5_sender\<lparr>txSlidWinSize := 1\<rparr>) = Some A' \<and>
     fifo_items (txFifo A') = tl (fifo_items (txFifo (h5_sender\<lparr>txSlidWinSize := 1\<rparr>))) \<and>
     rxFifo A' = rxFifo (h5_sender\<lparr>txSlidWinSize := 1\<rparr>) \<and>
     txSlidWinSize A' = 0 \<and> txTick A' = 0 \<and> h5_wf A'"
proof -
  obtain old where items: "fifo_items (txFifo h5_sender) = [h5_event_item @ old]"
    and wf: "h5_wf h5_sender" and eq: "h5_sender = h5_peer\<lparr>txFifo := txFifo h5_sender\<rparr>"
    by (rule h5_sender_fields)
  have fields: "config h5_sender = HCI_H5_DefaultConfig" "linkState h5_sender = HCI_H5_LINK_STATE_ACTIVE"
    "pktHandler (slip h5_sender) = H5_PakcetHandler" "txSeq h5_sender = 0"
    by (subst eq, simp add: h5_peer_fields)+
  have "fifo_count (txFifo h5_sender) = 1"
    using arg_cong [OF items, of length] by simp
  then have "h5_wf (h5_sender\<lparr>txSlidWinSize := 1\<rparr>)"
    using wf by (simp add: h5_wf_defs h5_can_send_def fields HCI_H5_DefaultConfig_def)
  then show ?thesis
    by (intro h5_ack_releases)
      (simp_all add: h5_peer_wf h5_peer_fields fields HCI_H5_DefaultConfig_def fifo_empty_def
        hci_fifo_new_def clock_time_exceed_def H5_PURE_ACK_TO_def)
qed

text \<open>
  A packet that is not acknowledged is sent again: when the poll finds the 50 ms timer expired,
  it transmits the very same frame once more, with the same sequence number.
\<close>

theorem h5_retransmit:
  assumes "h5_wf A" and "\<not> slidWinSize (config A) \<le> txSlidWinSize A" and "\<not> fifo_empty (txFifo A)"
    and "isUartTxDone (uart A)" and "linkState A = HCI_H5_LINK_STATE_ACTIVE"
    and "resendTick A = 0" and "rxAck A = txSeq A"
    and "clock_time_exceed later (now OR 1) (H5_RESEND_TO * 1000)" and "now OR 1 \<noteq> 0"
  shows "\<exists>A1 frame A2.
     HCI_H5_SendData now A = Some A1 \<and> uartSent (uart A1) = uartSent (uart A) @ [frame] \<and>
     HCI_H5_Poll later (A1\<lparr>uart := (uart A1)\<lparr>isUartTxDone := True\<rparr>\<rparr>) = Some A2 \<and>
     uartSent (uart A2) = uartSent (uart A) @ [frame, frame]"
proof -
  let ?item = "hd (fifo_items (txFifo A))"
  let ?xs = "h5_item_payload ?item"
  let ?frame = "slip_frame (oofEnable (slip A))
      (h5_packet (h5_send_head (?item ! 2) (of_nat (length ?xs)) A) ?xs)"
  obtain A1 where A1: "HCI_H5_SendData now A = Some A1" "h5_wf A1"
    "uartSent (uart A1) = uartSent (uart A) @ [?frame]"
    "txAck A1 = txAck A" "txSlidWinSize A1 = 1" "txFifo A1 = txFifo A" "linkState A1 = linkState A"
    "config A1 = config A" "rxAck A1 = rxAck A" "resendTick A1 = resendTick A" "txTick A1 = now OR 1"
    "rxTick A1 = 0" "oofEnable (slip A1) = oofEnable (slip A)"
    by (rule HCI_H5_SendData_frame [OF assms(1-4) refl refl])
  let ?A1 = "A1\<lparr>uart := (uart A1)\<lparr>isUartTxDone := True\<rparr>, txTick := 0,
      txSeq := rxAck A, txSlidWinSize := 0\<rparr>"
  have win: "slidWinSize (config A) = 1"
    using assms(1,2) u8_window_one by (auto simp: h5_wf_defs)
  have wf: "h5_wf ?A1"
    using A1(2,9) by (auto simp: h5_wf_defs h5_can_send_def)
  have head: "h5_send_head t n ?A1 = h5_send_head t n A" for t n
    using A1(4,8) assms(7) by (simp add: h5_send_head_def)
  have pre: "\<not> slidWinSize (config ?A1) \<le> txSlidWinSize ?A1" "\<not> fifo_empty (txFifo ?A1)"
    "isUartTxDone (uart ?A1)" "?item = hd (fifo_items (txFifo ?A1))"
    using A1(6,8) assms(3) win by simp_all
  obtain A2 where A2: "HCI_H5_SendData later ?A1 = Some A2"
    "uartSent (uart A2) = uartSent (uart ?A1) @ [slip_frame (oofEnable (slip ?A1))
       (h5_packet (h5_send_head (?item ! 2) (of_nat (length ?xs)) ?A1) ?xs)]" "rxTick A2 = 0"
    by (rule HCI_H5_SendData_frame [OF wf pre refl])
  have sent: "uartSent (uart A2) = uartSent (uart A1) @ [?frame]"
    using A2(2) unfolding head by (simp add: A1(13))
  have "h5_poll_send later (A1\<lparr>uart := (uart A1)\<lparr>isUartTxDone := True\<rparr>\<rparr>) = Some A2"
    using A1 A2(1) assms(6-9) win
    by (simp add: h5_poll_send_def HCI_H5_ResendStart_def)
  then have "HCI_H5_Poll later (A1\<lparr>uart := (uart A1)\<lparr>isUartTxDone := True\<rparr>\<rparr>) = Some A2"
    using A1(7) assms(5) A2(3) by (simp add: HCI_H5_Poll_def)
  then show ?thesis
    using A1(1,3) sent by auto
qed

theorem h5_retransmit_witness:
  "\<exists>A1 frame A2.
     HCI_H5_SendData 5 h5_sender = Some A1 \<and> uartSent (uart A1) = uartSent (uart h5_sender) @ [frame] \<and>
     HCI_H5_Poll 9000000 (A1\<lparr>uart := (uart A1)\<lparr>isUartTxDone := True\<rparr>\<rparr>) = Some A2 \<and>
     uartSent (uart A2) = uartSent (uart h5_sender) @ [frame, frame]"
proof -
  obtain old where ne: "\<not> fifo_empty (txFifo h5_sender)" and wf: "h5_wf h5_sender"
    and eq: "h5_sender = h5_peer\<lparr>txFifo := txFifo h5_sender\<rparr>"
    by (rule h5_sender_fields)
  have fields: "config h5_sender = HCI_H5_DefaultConfig" "linkState h5_sender = HCI_H5_LINK_STATE_ACTIVE"
    "txSlidWinSize h5_sender = 0" "isUartTxDone (uart h5_sender)" "resendTick h5_sender = 0"
    "rxAck h5_sender = txSeq h5_sender"
    by (subst eq, (subst (2) eq)?, simp add: h5_peer_fields)+
  show ?thesis
    by (rule h5_retransmit [OF wf _ ne])
      (simp_all add: fields HCI_H5_DefaultConfig_def clock_time_exceed_def H5_RESEND_TO_def)
qed

text \<open>
  A reliable packet whose sequence number is not the expected one is not delivered again and
  does not change the receiver's counters: with the sender's numbering each packet reaches the
  controller once.
\<close>

theorem h5_duplicate_dropped:
  assumes "h5_ready B h xs" and "crc h = 0" and "reliable h \<noteq> 0" and "seqNum h \<noteq> txAck B"
  shows "\<exists>B'. h5_slip_input now (Some (slip_frame oof (h5_packet h xs)))
       (of_nat (length (slip_frame oof (h5_packet h xs)))) B = Some B' \<and>
     rxFifo B' = rxFifo B \<and> txAck B' = txAck B \<and> linkState B' = linkState B"
proof -
  obtain cb where "h5_slip_input now (Some (slip_frame oof (h5_packet h xs)))
       (of_nat (length (slip_frame oof (h5_packet h xs)))) B =
     Some (h5_apply_ack now (ackNum h) (B\<lparr>slip := cb\<rparr>))"
    by (rule h5_receive_duplicate [OF assms])
  then show ?thesis
    by (simp add: h5_apply_ack_fields)
qed

theorem h5_duplicate_dropped_witness:
  "\<exists>B'. h5_slip_input 3 (Some (slip_frame False (h5_packet (h5_sample_head 7 0 1) [5])))
       (of_nat (length (slip_frame False (h5_packet (h5_sample_head 7 0 1) [5])))) h5_peer = Some B' \<and>
     rxFifo B' = rxFifo h5_peer \<and> txAck B' = txAck h5_peer \<and> linkState B' = linkState h5_peer"
  by (rule h5_duplicate_dropped [OF h5_sample_ready]) (simp_all add: h5_sample_head_def h5_peer_fields)

text \<open>
  A lost acknowledgement is never repaired: a receiver that has already acknowledged a packet
  and has no data of its own answers neither the retransmissions of this packet nor its own
  polls, however often they come.  The sender, which stops only on an acknowledgement, repeats the
  packet for ever and its window stays closed.
\<close>

theorem h5_lost_ack_silent:
  assumes "h5_waiting B h xs"
    and "\<forall>ev\<in>set evs. snd ev = Ev_Poll \<or> (\<exists>oof. snd ev = Ev_Frame (slip_escape oof (h5_packet h xs)))"
  shows "\<exists>B'. run h5_step evs B = Some B' \<and> uartSent (uart B') = uartSent (uart B) \<and>
     rxFifo B' = rxFifo B \<and> h5_waiting B' h xs"
  using assms
proof (induction evs arbitrary: B)
  case (Cons ev evs)
  have "\<exists>B1. h5_step ev B = Some B1 \<and> uart B1 = uart B \<and> rxFifo B1 = rxFifo B \<and> h5_waiting B1 h xs"
  proof (cases "snd ev = Ev_Poll")
    case True
    then show ?thesis
      using Cons.prems(1) h5_waiting_poll [OF Cons.prems(1)] by (cases ev) (simp add: h5_step_def)
  next
    case False
    then obtain oof where "snd ev = Ev_Frame (slip_escape oof (h5_packet h xs))"
      using Cons.prems(2) by auto
    moreover obtain B1 where "h5_slip_input (fst ev) (Some (slip_frame oof (h5_packet h xs)))
        (of_nat (length (slip_frame oof (h5_packet h xs)))) B = Some B1"
        "h5_waiting B1 h xs" "uart B1 = uart B" "rxFifo B1 = rxFifo B"
      by (rule h5_waiting_duplicate [OF Cons.prems(1)])
    ultimately show ?thesis
      by (cases ev) (simp add: h5_step_def slip_frame_def add.commute)
  qed
  with Cons show ?case
    by fastforce
qed simp

theorem h5_lost_ack_silent_witness:
  "\<exists>B'. run h5_step
         [(1, Ev_Frame (slip_escape False (h5_packet (h5_sample_head 7 0 1) [5]))), (2, Ev_Poll),
          (3, Ev_Frame (slip_escape False (h5_packet (h5_sample_head 7 0 1) [5])))] h5_peer = Some B' \<and>
     uartSent (uart B') = uartSent (uart h5_peer) \<and> rxFifo B' = rxFifo h5_peer \<and>
     h5_waiting B' (h5_sample_head 7 0 1) [5]"
proof (rule h5_lost_ack_silent)
  have "rxTick h5_peer = 0" "fifo_empty (txFifo h5_peer)"
    by (simp_all add: h5_peer_def h5_start_def HCI_H5_Init_def h5_boot_def fifo_empty_def hci_fifo_new_def)
  then show "h5_waiting h5_peer (h5_sample_head 7 0 1) [5]"
    using h5_sample_ready [of 7 0 1 5]
    by (simp add: h5_waiting_def h5_peer_fields h5_sample_head_def)
qed auto

section \<open>Defects of the exchange\<close>

text \<open>
  C9: a link on which the CRC is enabled (the compiled-in configuration leaves it off) cannot transfer
  data: the packet that \<open>HCI_H5_SendData\<close> takes from the ring and \<open>HCI_H5_Send\<close> puts on the wire with a
  CRC is thrown away by the receiver, which changes nothing but its decoder, whether the packet comes
  for the first time or is repeated.  The sender starts the CRC at \<open>0xFFFF\<close>, the receiver at 0.  The packet
  stays in the sender's ring with the window closed.
\<close>

theorem h5_crc_packet_discarded:
  assumes "h5_wf A" and "\<not> slidWinSize (config A) \<le> txSlidWinSize A" and "\<not> fifo_empty (txFifo A)"
    and "isUartTxDone (uart A)" and "dataIntgrtChkType (config A) \<noteq> 0" and "dataIntgrtChkType (config B) \<noteq> 0"
    and "item = hd (fifo_items (txFifo A))" and "xs = h5_item_payload item"
    and "h5_ready B (h5_send_head (item ! 2) (of_nat (length xs)) A) xs"
  shows "\<exists>A' frame cb cb'.
     HCI_H5_SendData now A = Some A' \<and> uartSent (uart A') = uartSent (uart A) @ [frame] \<and>
     h5_slip_input now' (Some frame) (of_nat (length frame)) B = Some (B\<lparr>slip := cb\<rparr>) \<and>
     h5_slip_input later (Some frame) (of_nat (length frame)) (B\<lparr>slip := cb\<rparr>) = Some (B\<lparr>slip := cb'\<rparr>) \<and>
     txFifo A' = txFifo A \<and> txSlidWinSize A' = 1"
proof -
  let ?h = "h5_send_head (item ! 2) (of_nat (length xs)) A"
  let ?frame = "slip_frame (oofEnable (slip A)) (h5_packet ?h xs)"
  obtain A' where A': "HCI_H5_SendData now A = Some A'" "uartSent (uart A') = uartSent (uart A) @ [?frame]"
    "txFifo A' = txFifo A" "txSlidWinSize A' = 1"
    by (rule HCI_H5_SendData_frame [OF assms(1-4,7,8)])
  have "crc ?h \<noteq> 0"
    using assms(5,9) by (auto simp: h5_ready_def h5_data_type_def h5_send_head_def h5_pkt_type_defs)
  note discard = h5_receive_crc [OF _ this]
  obtain cb where cb: "h5_slip_input now' (Some ?frame) (of_nat (length ?frame)) B = Some (B\<lparr>slip := cb\<rparr>)"
    "slip_frame_eq (slip B) cb"
    by (rule discard [OF assms(9)])
  have "h5_ready (B\<lparr>slip := cb\<rparr>) ?h xs"
    using assms(9) cb(2) h5_wf_slip [OF _ cb(2)] by (simp add: h5_ready_def slip_frame_eq_def h5_rx_room_def)
  from discard [OF this] obtain cb' where "h5_slip_input later (Some ?frame) (of_nat (length ?frame)) (B\<lparr>slip := cb\<rparr>) =
      Some (B\<lparr>slip := cb\<rparr>\<lparr>slip := cb'\<rparr>)" .
  then show ?thesis
    using A' cb(1) by (intro exI [of _ A'] exI [of _ ?frame] exI [of _ cb] exI [of _ cb']) simp
qed

definition h5_crc_config :: h5_config where
  "h5_crc_config = HCI_H5_DefaultConfig\<lparr>dataIntgrtChkType := 1\<rparr>"

theorem h5_crc_packet_discarded_witness:
  "\<exists>A' frame cb cb'.
     HCI_H5_SendData 5 (h5_sender\<lparr>config := h5_crc_config\<rparr>) = Some A' \<and>
     uartSent (uart A') = uartSent (uart h5_sender) @ [frame] \<and>
     h5_slip_input 9 (Some frame) (of_nat (length frame)) (h5_peer\<lparr>config := h5_crc_config\<rparr>) =
       Some (h5_peer\<lparr>config := h5_crc_config, slip := cb\<rparr>) \<and>
     h5_slip_input 12 (Some frame) (of_nat (length frame)) (h5_peer\<lparr>config := h5_crc_config, slip := cb\<rparr>) =
       Some (h5_peer\<lparr>config := h5_crc_config, slip := cb'\<rparr>) \<and>
     txFifo A' = txFifo h5_sender \<and> txSlidWinSize A' = 1"
proof -
  let ?A = "h5_sender\<lparr>config := h5_crc_config\<rparr>" and ?B = "h5_peer\<lparr>config := h5_crc_config\<rparr>"
  obtain old where items: "fifo_items (txFifo h5_sender) = [h5_event_item @ old]"
    and pay: "h5_item_payload (h5_event_item @ old) = [0x0E, 0xC0, 0xDB]"
    and ne: "\<not> fifo_empty (txFifo h5_sender)" and wf: "h5_wf h5_sender"
    and eq: "h5_sender = h5_peer\<lparr>txFifo := txFifo h5_sender\<rparr>"
    by (rule h5_sender_fields)
  have fields: "txSlidWinSize h5_sender = 0" "isUartTxDone (uart h5_sender)"
    by (subst eq, simp add: h5_peer_fields)+
  have type: "(h5_event_item @ old) ! 2 = HCI_H5_PKT_TYPE_EVT"
    by (simp add: h5_event_item_def)
  have wfs: "h5_wf ?A" "h5_wf ?B"
    using wf h5_peer_wf by (simp_all add: h5_wf_defs h5_can_send_def fields h5_peer_fields h5_crc_config_def HCI_H5_DefaultConfig_def)
  have "h5_wire_head (h5_send_head HCI_H5_PKT_TYPE_EVT (of_nat (length [0x0E, 0xC0, 0xDB :: u8])) ?A) [0x0E, 0xC0, 0xDB]"
    using wfs(1) by (intro h5_send_head_wire) (simp_all add: h5_wf_def h5_crc_config_def HCI_H5_PKT_TYPE_EVT_def)
  then have ready: "h5_ready ?B
      (h5_send_head HCI_H5_PKT_TYPE_EVT (of_nat (length [0x0E, 0xC0, 0xDB :: u8])) ?A) [0x0E, 0xC0, 0xDB]"
    using wfs(2) h5_peer_room [of 3]
    by (simp add: h5_ready_def h5_peer_fields h5_packet_length h5_rx_room_def h5_crc_config_def HCI_H5_DefaultConfig_def
        h5_send_head_def h5_data_type_def)
  have checked: "dataIntgrtChkType (config ?A) \<noteq> 0" "dataIntgrtChkType (config ?B) \<noteq> 0"
    "\<not> slidWinSize (config ?A) \<le> txSlidWinSize ?A"
    by (simp_all add: fields h5_crc_config_def HCI_H5_DefaultConfig_def)
  show ?thesis
    using h5_crc_packet_discarded [OF wfs(1) checked(3) _ _ checked(1,2) refl refl, of 5 9 12] ready ne fields(2)
    by (simp add: items pay type)
qed

text \<open>
  A data packet without the reliable bit, which the sender does not number, advances the
  receiver's expected sequence number, so that a reliable packet with the number that was expected
  before is dropped as a duplicate afterwards.
\<close>

theorem h5_unreliable_desync:
  assumes "h5_ready B h xs" and "crc h = 0" and "reliable h = 0"
    and "h5_seq_ok B"
  shows "\<exists>B' old. h5_slip_input now (Some (slip_frame oof (h5_packet h xs)))
       (of_nat (length (slip_frame oof (h5_packet h xs)))) B = Some B' \<and>
     fifo_items (rxFifo B') = fifo_items (rxFifo B) @ [pktType h # xs @ old] \<and>
     txAck B' \<noteq> txAck B \<and>
     (\<forall>h' pPacket. seqNum h' = txAck B \<longrightarrow>
        h5_recv_reliable now h' pPacket B' = Some (h5_apply_ack now (ackNum h') B'))"
proof -
  obtain cb f where r: "h5_slip_input now (Some (slip_frame oof (h5_packet h xs)))
       (of_nat (length (slip_frame oof (h5_packet h xs)))) B =
     Some (B\<lparr>slip := cb, txAck := (txAck B + 1) mod 8, rxFifo := f\<rparr>)"
    "h5_delivered (pktType h # xs) B f"
    by (rule h5_receive_unreliable [OF assms(1-3)])
  have "(a + 1) mod 8 \<noteq> a" if "a < 8" for a :: u8
  proof
    assume eq: "(a + 1) mod 8 = a"
    have "unat a < 8"
      using that by (simp add: word_less_nat_alt)
    then have "(unat a + 1) mod 8 = unat a"
      using arg_cong [OF eq, of unat] by (simp add: unat_word_ariths)
    with \<open>unat a < 8\<close> show False
      by presburger
  qed
  then have neq: "(txAck B + 1) mod 8 \<noteq> txAck B"
    using assms(4) by (simp add: h5_seq_ok_def)
  obtain old where "fifo_items f = fifo_items (rxFifo B) @ [pktType h # xs @ old]"
    using r(2) by (auto simp: h5_delivered_def)
  then show ?thesis
    using neq r(1)
    by (intro exI [of _ "B\<lparr>slip := cb, txAck := (txAck B + 1) mod 8, rxFifo := f\<rparr>"] exI [of _ old])
      (auto intro: h5_recv_reliable_duplicate)
qed

theorem h5_unreliable_desync_witness:
  "\<exists>B' old. h5_slip_input 3 (Some (slip_frame False (h5_packet (h5_sample_head 0 0 0) [5])))
       (of_nat (length (slip_frame False (h5_packet (h5_sample_head 0 0 0) [5])))) h5_peer = Some B' \<and>
     fifo_items (rxFifo B') = fifo_items (rxFifo h5_peer) @ [pktType (h5_sample_head 0 0 0) # [5] @ old] \<and>
     txAck B' \<noteq> txAck h5_peer \<and>
     (\<forall>h' pPacket. seqNum h' = txAck h5_peer \<longrightarrow>
        h5_recv_reliable 3 h' pPacket B' = Some (h5_apply_ack 3 (ackNum h') B'))"
  by (rule h5_unreliable_desync [OF h5_sample_ready])
    (simp_all add: h5_sample_head_def h5_seq_ok_def h5_peer_fields)

text \<open>
  A packet that the decode buffer accepts can be longer than a slot of the receive ring, since
  the buffer is rounded up and the slot also holds the packet type; received into the last slot it
  is written beyond the end of the ring.
\<close>

theorem h5_rx_slot_overrun:
  assumes "h5_wf B" and "h5_wire_head h xs" and "length (h5_packet h xs) \<le> length (pDecodeBuf (slip B))"
    and "pktHandler (slip B) = H5_PakcetHandler" and "linkState B = HCI_H5_LINK_STATE_ACTIVE"
    and "slidWinSize (config B) = 1" and "h5_data_type (pktType h)" and "crc h = 0"
    and "reliable h \<noteq> 0" and "seqNum h = txAck B" and "unat (fsize (rxFifo B)) \<le> length xs"
    and "unat (wptr (rxFifo B)) mod unat (fnum (rxFifo B)) = unat (fnum (rxFifo B)) - 1"
  shows "h5_slip_input now (Some (slip_frame oof (h5_packet h xs)))
       (of_nat (length (slip_frame oof (h5_packet h xs)))) B = None"
  using assms by (rule h5_receive_overrun)

theorem h5_rx_slot_overrun_witness:
  "h5_slip_input 3
     (Some (slip_frame False (h5_packet ((h5_sample_head 0 0 1)\<lparr>payloadLen := 50\<rparr>) (replicate 50 0))))
     (of_nat (length (slip_frame False (h5_packet ((h5_sample_head 0 0 1)\<lparr>payloadLen := 50\<rparr>) (replicate 50 0)))))
     (h5_peer\<lparr>rxFifo := (hci_fifo_new 48 3)\<lparr>wptr := 7, rptr := 7\<rparr>\<rparr>) = None"
proof (rule h5_rx_slot_overrun)
  have inv: "fifo_inv (hci_fifo_new 48 3)"
    by (rule hci_fifo_new_inv) simp_all
  then have "fifo_inv ((hci_fifo_new 48 3)\<lparr>wptr := 7, rptr := 7\<rparr>)"
    by (simp add: fifo_inv_def fifo_wf_def fifo_count_def)
  then show "h5_wf (h5_peer\<lparr>rxFifo := (hci_fifo_new 48 3)\<lparr>wptr := 7, rptr := 7\<rparr>\<rparr>)"
    by (intro h5_wf_rxFifo [OF h5_peer_wf]) (simp add: fifo_inv_def)
qed (simp_all add: h5_wire_head_def h5_head_wf_def h5_sample_head_def h5_data_type_def h5_peer_fields
    HCI_H5_DefaultConfig_def h5_packet_length HCI_H5_PKT_TYPE_EVT_def hci_fifo_new_def)

text \<open>
  Before the link is active no data packet reaches the controller or changes any counter.
\<close>

theorem h5_inactive_drops_data:
  assumes "h5_wf B" and "h5_wire_head h xs" and "length (h5_packet h xs) \<le> length (pDecodeBuf (slip B))"
    and "pktHandler (slip B) = H5_PakcetHandler" and "linkState B \<noteq> HCI_H5_LINK_STATE_ACTIVE"
    and "h5_data_type (pktType h)"
  shows "\<exists>cb. h5_slip_input now (Some (slip_frame oof (h5_packet h xs)))
       (of_nat (length (slip_frame oof (h5_packet h xs)))) B = Some (B\<lparr>slip := cb\<rparr>)"
proof -
  obtain cb len c where
    "h5_slip_input now (Some (slip_frame oof (h5_packet h xs)))
       (of_nat (length (slip_frame oof (h5_packet h xs)))) B =
     h5_dispatch now (h\<lparr>headCheckSum := c\<rparr>) (pDecodeBuf cb) len (B\<lparr>slip := cb\<rparr>)"
    by (rule h5_slip_input_packet [OF assms(1-4)])
  then show ?thesis
    using assms(5,6) by (auto simp: h5_dispatch_inactive)
qed

theorem h5_inactive_drops_data_witness:
  "\<exists>cb. h5_slip_input 3 (Some (slip_frame False (h5_packet (h5_sample_head 0 0 1) [5])))
       (of_nat (length (slip_frame False (h5_packet (h5_sample_head 0 0 1) [5]))))
       (h5_peer\<lparr>linkState := HCI_H5_LINK_STATE_INIT\<rparr>) =
     Some (h5_peer\<lparr>linkState := HCI_H5_LINK_STATE_INIT, slip := cb\<rparr>)"
  using h5_inactive_drops_data [of "h5_peer\<lparr>linkState := HCI_H5_LINK_STATE_INIT\<rparr>" "h5_sample_head 0 0 1" "[5]" 3 False]
  by (simp add: h5_peer_wf h5_sample_wire h5_sample_type h5_peer_fields h5_packet_length del: of_nat_add)

section \<open>Link establishment\<close>

text \<open>
  C7: \<open>HCI_H5_DecodeLinkPdu\<close> implements the abstract state machine: it moves to the state and
  sends the reply that \<open>link_next\<close> gives for the message, for every state and message.
\<close>

theorem h5_link_refines:
  assumes "h5_wf s" and "7 \<le> length p" and "link_msg_of (BYTES_TO_UINT16 (p ! 4) (p ! 5)) = m"
  shows "\<exists>s'. HCI_H5_DecodeLinkPdu now p s = Some s' \<and>
     linkState s' = fst (link_next (linkState s) m) \<and>
     link_replies (snd (link_next (linkState s) m)) s s'"
proof -
  obtain s' where "HCI_H5_DecodeLinkPdu now p s = Some s'"
    "linkState s' = fst (link_next (linkState s) m)"
    "link_replies (snd (link_next (linkState s) m)) s s'"
    by (rule HCI_H5_DecodeLinkPdu_spec [OF assms])
  then show ?thesis
    by blast
qed

theorem h5_link_refines_witness:
  "\<exists>s'. HCI_H5_DecodeLinkPdu 3 [0, 0, 0, 0, 0x01, 0x7E, 0] h5_peer = Some s' \<and>
     linkState s' = fst (link_next (linkState h5_peer) SYNC) \<and>
     link_replies (snd (link_next (linkState h5_peer) SYNC)) h5_peer s'"
  by (rule h5_link_refines [OF h5_peer_wf])
    (simp_all add: link_msg_of_def HCI_H5_MSG_SYNC_def BYTES_TO_UINT16_def)

text \<open>
  The two sides of a link negotiate the same configuration from each other's configuration
  bytes, the minimum of the windows and versions and the conjunction of the flags.
\<close>

theorem h5_negotiation_agrees:
  assumes "h5_config_ok c" and "h5_config_ok c'"
  shows "h5_negotiate c (h5_config_byte c') = h5_negotiate c' (h5_config_byte c) \<and>
     slidWinSize (h5_negotiate c (h5_config_byte c')) = min (slidWinSize c) (slidWinSize c')"
  using assms by (simp_all add: h5_negotiate_byte min.commute and.commute)

theorem h5_negotiation_agrees_witness:
  "h5_negotiate HCI_H5_DefaultConfig (h5_config_byte (HCI_H5_DefaultConfig\<lparr>slidWinSize := 7\<rparr>)) =
     h5_negotiate (HCI_H5_DefaultConfig\<lparr>slidWinSize := 7\<rparr>) (h5_config_byte HCI_H5_DefaultConfig) \<and>
   slidWinSize (h5_negotiate HCI_H5_DefaultConfig (h5_config_byte (HCI_H5_DefaultConfig\<lparr>slidWinSize := 7\<rparr>))) =
     min (slidWinSize HCI_H5_DefaultConfig) (slidWinSize (HCI_H5_DefaultConfig\<lparr>slidWinSize := 7\<rparr>))"
  by (rule h5_negotiation_agrees) (simp_all add: h5_config_ok_def HCI_H5_DefaultConfig_def)

section \<open>Wire format\<close>

text \<open>
  The header round trip: every field of a header survives packing and unpacking, but of the
  payload length only the low eight bits, since the packing masks the shifted length with
  \<open>0x0fff\<close>; the packed header always passes the checksum test.
\<close>

theorem h5_header_roundtrip:
  assumes "h5_head_wf h"
  shows "HCI_H5_UnpackHeader (HCI_H5_PackHeader h) =
     h\<lparr>headCheckSum := headCheckSum (HCI_H5_UnpackHeader (HCI_H5_PackHeader h)),
       payloadLen := take_bit 8 (payloadLen h)\<rparr> \<and>
     HCI_H5_IsCheckSumValid (HCI_H5_PackHeader h)"
proof
  show "HCI_H5_UnpackHeader (HCI_H5_PackHeader h) =
     h\<lparr>headCheckSum := headCheckSum (HCI_H5_UnpackHeader (HCI_H5_PackHeader h)),
       payloadLen := take_bit 8 (payloadLen h)\<rparr>"
    using unpack_pack_fields [OF assms]
    by (cases "HCI_H5_UnpackHeader (HCI_H5_PackHeader h)"; cases h) simp
qed (rule HCI_H5_PackHeader_checksum)

theorem h5_header_roundtrip_witness:
  "HCI_H5_UnpackHeader (HCI_H5_PackHeader (h5_sample_head 3 1 1)) =
     (h5_sample_head 3 1 1)
       \<lparr>headCheckSum := headCheckSum (HCI_H5_UnpackHeader (HCI_H5_PackHeader (h5_sample_head 3 1 1))),
        payloadLen := take_bit 8 (payloadLen (h5_sample_head 3 1 1))\<rparr> \<and>
   HCI_H5_IsCheckSumValid (HCI_H5_PackHeader (h5_sample_head 3 1 1))"
  by (rule h5_header_roundtrip)
    (simp add: h5_head_wf_def h5_sample_head_def HCI_H5_PKT_TYPE_EVT_def)

text \<open>
  The checksum detects every change of a single byte of a valid header.
\<close>

theorem h5_checksum_detects_byte:
  assumes "HCI_H5_IsCheckSumValid [a, b, c, d]" and "i < 4" and "x \<noteq> [a, b, c, d] ! i"
  shows "\<not> HCI_H5_IsCheckSumValid ([a, b, c, d][i := x])"
proof -
  have "i = 0 \<or> i = 1 \<or> i = 2 \<or> i = 3"
    using assms(2) by auto
  then show ?thesis
    using assms(1,3)
    by (auto simp: HCI_H5_IsCheckSumValid_iff HCI_H5_CheckSumCalc_eq)
qed

theorem h5_checksum_detects_byte_witness:
  "\<not> HCI_H5_IsCheckSumValid ([0, 0, 0, 0xFF][2 := 1])"
  by (rule h5_checksum_detects_byte) (simp_all add: HCI_H5_IsCheckSumValid_iff HCI_H5_CheckSumCalc_eq)

text \<open>
  The CRC detects every change of a single byte of a packet, wherever it is and whatever the
  start value.
\<close>

theorem h5_crc_detects_byte:
  assumes "i < length pkt" and "x \<noteq> pkt ! i"
  shows "HCI_H5_CcittCrc16Calc c (pkt[i := x]) \<noteq> HCI_H5_CcittCrc16Calc c pkt"
proof -
  have "pkt[i := x] = take i pkt @ x # drop (Suc i) pkt" "pkt = take i pkt @ pkt ! i # drop (Suc i) pkt"
    using assms(1) by (simp_all add: upd_conv_take_nth_drop id_take_nth_drop)
  then show ?thesis
    using crc_one_byte assms(2) by metis
qed

theorem h5_crc_detects_byte_witness:
  "HCI_H5_CcittCrc16Calc 0xFFFF ([1, 2, 3][1 := 7]) \<noteq> HCI_H5_CcittCrc16Calc 0xFFFF [1, 2, 3]"
  by (rule h5_crc_detects_byte) simp_all

end
