(* ===== verification/H5_Converge.thy ===== *)
theory H5_Converge
  imports H5_Theorems
begin

text \<open>
  Two stations that run \<^verbatim>\<open>hci_h5.c\<close> at the ends of a line without loss: in each period one of them
  polls (\<open>HCI_H5_Poll\<close>), and the frames its UART sends and the answers to them are carried to and fro
  (\<open>h5_slip_input\<close>) until nobody has anything to say.  The exchange of the code is shown to follow the
  abstract one of \<open>H5_Handshake\<close>, so that the convergence of the state machines is one of the code.
\<close>

section \<open>The line\<close>

definition h5_tx_done :: "h5 \<Rightarrow> h5" where
  "h5_tx_done s = s\<lparr>uart := (uart s)\<lparr>isUartTxDone := True\<rparr>\<rparr>"

text \<open>The frames sent between two states.\<close>

definition h5_new_frames :: "h5 \<Rightarrow> h5 \<Rightarrow> u8 list list" where
  "h5_new_frames s s' = drop (length (uartSent (uart s))) (uartSent (uart s'))"

text \<open>A station receives frames; its UART finishes before the next one comes.\<close>

fun h5_hear :: "u32 \<Rightarrow> u8 list list \<Rightarrow> h5 \<Rightarrow> h5 option" where
  "h5_hear now [] s = Some s"
| "h5_hear now (f # fs) s = do { s' \<leftarrow> h5_slip_input now (Some f) (of_nat (length f)) s; h5_hear now fs (h5_tx_done s') }"

text \<open>Frames on the way from the first station to the second, and the answers; at most \<open>n\<close> changes of direction,
  no result when that is not enough.\<close>

fun h5_talk :: "nat \<Rightarrow> u32 \<Rightarrow> u8 list list \<Rightarrow> h5 \<times> h5 \<Rightarrow> (h5 \<times> h5) option" where
  "h5_talk n now [] ab = Some ab"
| "h5_talk 0 now (f # fs) ab = None"
| "h5_talk (Suc n) now (f # fs) (a, b) =
     do { b' \<leftarrow> h5_hear now (f # fs) b;
          (b'', a') \<leftarrow> h5_talk n now (h5_new_frames b b') (b', a);
          Some (a', b'') }"

text \<open>A period: the first station polls.  The stations change places for the next period, which begins \<open>P\<close> ticks later.\<close>

definition h5_period :: "u32 \<Rightarrow> h5 \<times> h5 \<Rightarrow> (h5 \<times> h5) option" where
  "h5_period now ab =
     do { a' \<leftarrow> HCI_H5_Poll now (fst ab);
          (a'', b') \<leftarrow> h5_talk 12 now (h5_new_frames (fst ab) a') (h5_tx_done a', snd ab);
          Some (b', a'') }"

fun h5_periods :: "nat \<Rightarrow> u32 \<Rightarrow> u32 \<Rightarrow> h5 \<times> h5 \<Rightarrow> (h5 \<times> h5) option" where
  "h5_periods 0 now P ab = Some ab"
| "h5_periods (Suc n) now P ab = do { ab \<leftarrow> h5_period now ab; h5_periods n (now + P) P ab }"

section \<open>A station without data\<close>

text \<open>No packet waits in the transmit ring and no timer of the data transfer runs.\<close>

definition h5_quiet :: "h5 \<Rightarrow> bool" where
  "h5_quiet s \<longleftrightarrow>
     h5_wf s \<and> pktHandler (slip s) = H5_PakcetHandler \<and> fifo_empty (txFifo s) \<and> isUartTxDone (uart s) \<and>
     txTick s = 0 \<and> rxTick s = 0 \<and> resendTick s = 0"

text \<open>What the messages of the link layer leave alone, or reset.\<close>

definition h5_calm :: "u32 \<Rightarrow> h5 \<Rightarrow> h5 \<Rightarrow> bool" where
  "h5_calm now s s' \<longleftrightarrow>
     pktHandler (slip s') = pktHandler (slip s) \<and> (fifo_empty (txFifo s) \<longrightarrow> fifo_empty (txFifo s')) \<and>
     txTick s' \<in> {0, txTick s} \<and> rxTick s' \<in> {0, rxTick s} \<and> resendTick s' \<in> {0, resendTick s} \<and>
     tick s' \<in> {tick s, now OR 1}"

lemma h5_quiet_calm: "h5_quiet s \<Longrightarrow> h5_calm now s s' \<Longrightarrow> h5_wf s' \<Longrightarrow> h5_quiet (h5_tx_done s')"
  by (auto simp: h5_quiet_def h5_calm_def h5_tx_done_def h5_wf_defs h5_can_send_def)

lemma h5_sent_calm: "h5_sent type xs s0 res s' \<Longrightarrow> h5_calm now s s0 \<Longrightarrow> h5_calm now s s'"
  by (simp add: h5_calm_def h5_sent_fields)

lemma h5_control_calm:
  assumes "h5_wf s0" and "h5_calm now s s0"
  shows "HCI_H5_SendSync s0 = Some s' \<Longrightarrow> h5_calm now s s'" "HCI_H5_SendSyncRsp s0 = Some s' \<Longrightarrow> h5_calm now s s'"
    "HCI_H5_SendConfig s0 = Some s' \<Longrightarrow> h5_calm now s s'" "HCI_H5_SendConfigRsp s0 = Some s' \<Longrightarrow> h5_calm now s s'"
  using h5_control_sent(2-5) [OF assms(1)] h5_sent_calm [OF _ assms(2)] by auto

lemma h5_calm_refl: "h5_calm now s s"
  by (simp add: h5_calm_def)

lemma h5_calm_reset: "h5_calm now s ((HCI_H5_Reset now (s\<lparr>linkState := l\<rparr>)))"
  by (simp add: h5_calm_def HCI_H5_Reset_def fifo_empty_def HCI_SLip_SetFlowCtrlEnable_def)

lemma h5_calm_fields [simp]:
  "h5_calm now s (t\<lparr>linkState := l\<rparr>) = h5_calm now s t" "h5_calm now s (t\<lparr>config := c\<rparr>) = h5_calm now s t"
  "h5_calm now s (t\<lparr>hciResets := n\<rparr>) = h5_calm now s t"
  by (simp_all add: h5_calm_def)

lemma HCI_H5_DecodeLinkPdu_calm:
  assumes wf: "h5_wf s" and res: "HCI_H5_DecodeLinkPdu now p s = Some s'"
  shows "h5_calm now s s'"
proof -
  have win: "slidWinSize (hciH5Config s) \<le> 1"
    using wf by (simp add: h5_wf_defs)
  note reset = h5_reset_wf(2) [OF wf win]
  have ctrl: "h5_calm now s s'" if "HCI_H5_SendSync s0 = Some s' \<or> HCI_H5_SendSyncRsp s0 = Some s' \<or>
      HCI_H5_SendConfig s0 = Some s' \<or> HCI_H5_SendConfigRsp s0 = Some s'" and "h5_wf s0" and "h5_calm now s s0" for s0
    using that(1) h5_control_calm [OF that(2,3)] by blast
  have "h5_wf (s\<lparr>linkState := l\<rparr>)" "h5_calm now s (s\<lparr>linkState := l\<rparr>)" for l
    using wf by (simp_all add: h5_calm_refl)
  note keep = ctrl [OF _ this] ctrl [OF _ wf h5_calm_refl]
  have again: "h5_calm now s s'" if "HCI_H5_SendSyncRsp ((HCI_H5_Reset now (s\<lparr>linkState := l\<rparr>))\<lparr>hciResets := n\<rparr>) = Some s'" for l n
    using that reset h5_calm_reset by (intro ctrl) auto
  show ?thesis
    using res keep again h5_calm_reset h5_calm_refl
    by (cases "linkState s") (auto simp: HCI_H5_DecodeLinkPdu_def Let_def Option.bind_eq_Some_conv split: if_splits)
qed

text \<open>The period of a station has elapsed at the time \<open>t\<close>, if it is to send anything then.\<close>

definition h5_due :: "u32 \<Rightarrow> h5 \<Rightarrow> bool" where
  "h5_due t s \<longleftrightarrow> linkState s = HCI_H5_LINK_STATE_ACTIVE \<or> clock_time_exceed t (tick s) (250 * 1000)"

lemma HCI_H5_DecodeLinkPdu_due:
  assumes wf: "h5_wf s" and res: "HCI_H5_DecodeLinkPdu now p s = Some s'"
    and due: "h5_due t s" "clock_time_exceed t (now OR 1) (250 * 1000)"
  shows "h5_due t s'"
proof (cases "linkState s = HCI_H5_LINK_STATE_ACTIVE \<and> linkState s' \<noteq> HCI_H5_LINK_STATE_ACTIVE")
  case True
  have win: "slidWinSize (hciH5Config s) \<le> 1"
    using wf by (simp add: h5_wf_defs)
  have reset: "h5_wf ((HCI_H5_Reset now (s\<lparr>linkState := HCI_H5_LINK_STATE_IDLE\<rparr>))\<lparr>hciResets := n\<rparr>)" for n
    using h5_reset_wf(2) [OF wf win] by simp
  have tick: "tick (HCI_H5_Reset now u) = now OR 1" for u
    by (simp add: HCI_H5_Reset_def)
  have rsp: "tick t' = now OR 1"
    if "HCI_H5_SendSyncRsp ((HCI_H5_Reset now (s\<lparr>linkState := HCI_H5_LINK_STATE_IDLE\<rparr>))\<lparr>hciResets := n\<rparr>) = Some t'" for n t'
    using that h5_control_sent(3) [OF reset [of n]] tick by (auto simp: h5_sent_fields)
  have conf: "linkState t' = linkState s" if "HCI_H5_SendConfigRsp s = Some t'" for t'
    using that h5_control_sent(5) [OF wf] by (auto simp: h5_sent_fields)
  have "tick s' = now OR 1"
    using True res rsp conf by (auto simp: HCI_H5_DecodeLinkPdu_def Let_def Option.bind_eq_Some_conv split: if_splits)
  then show ?thesis
    using due(2) by (simp add: h5_due_def)
next
  case False
  then show ?thesis
    using due HCI_H5_DecodeLinkPdu_calm [OF wf res] by (auto simp: h5_due_def h5_calm_def)
qed

text \<open>What happens at the time \<open>now\<close> does not delay a poll that comes a period later.\<close>

definition h5_on_time :: "u32 \<Rightarrow> h5 \<Rightarrow> h5 \<Rightarrow> bool" where
  "h5_on_time now s s' \<longleftrightarrow> (\<forall>t. h5_due t s \<longrightarrow> clock_time_exceed t (now OR 1) (250 * 1000) \<longrightarrow> h5_due t s')"

lemma h5_on_time_trans: "h5_on_time now s s' \<Longrightarrow> h5_on_time now s' s'' \<Longrightarrow> h5_on_time now s s''"
  by (simp add: h5_on_time_def)

section \<open>Frames that carry a message\<close>

definition h5_carries :: "link_msg option \<Rightarrow> u8 list list \<Rightarrow> bool" where
  "h5_carries r fs \<longleftrightarrow>
     (case r of None \<Rightarrow> fs = []
      | Some m \<Rightarrow> m \<noteq> LINK_OTHER \<and>
          (\<exists>t h c. fs = [slip_frame t (h5_packet h (link_payload c m))] \<and>
             pktType h = HCI_H5_PKT_TYPE_LINK_CTRL \<and> crc h = 0 \<and> h5_wire_head h (link_payload c m)))"

lemma link_replies_carries:
  assumes "link_replies r s s'" and "isUartTxDone (uart s)" and "r \<noteq> Some LINK_OTHER"
  shows "h5_carries r (h5_new_frames s s')"
proof (cases r)
  case None
  then show ?thesis
    using assms(1) by (simp add: link_replies_def h5_carries_def h5_new_frames_def)
next
  case (Some m)
  obtain t h where "h5_new_frames s s' = [slip_frame t (h5_packet h (link_payload (hciH5Config s) m))]"
    "pktType h = HCI_H5_PKT_TYPE_LINK_CTRL" "crc h = 0" "h5_wire_head h (link_payload (hciH5Config s) m)"
    using assms(1,2) by (auto simp: Some link_replies_def h5_new_frames_def)
  then show ?thesis
    using assms(3) unfolding Some h5_carries_def option.case by blast
qed

lemma link_next_replies: "snd (link_next l m) \<noteq> Some LINK_OTHER"
  by (cases l; cases m) simp_all

lemma h5_tx_done_simps [simp]:
  "linkState (h5_tx_done s) = linkState s" "tick (h5_tx_done s) = tick s" "h5_due t (h5_tx_done s) = h5_due t s" "h5_new_frames s (h5_tx_done s') = h5_new_frames s s'"
  by (simp_all add: h5_tx_done_def h5_new_frames_def h5_due_def)

text \<open>The message that the receiver reads from its decode buffer.\<close>

lemma link_payload_msg:
  assumes "get_bytes (drop HCI_H5_HEAD_LEN p) 0 (unat (payloadLen h)) = Some (link_payload c m)"
    and "h5_wire_head h (link_payload c m)" and "m \<noteq> LINK_OTHER"
  shows "link_msg_of (BYTES_TO_UINT16 (p ! 4) (p ! 5)) = m"
proof -
  let ?xs = "link_payload c m"
  have n: "unat (payloadLen h) = length ?xs"
    using assms(2) by (simp add: h5_wire_head_def unat_of_nat)
  have len: "2 \<le> length ?xs"
    using assms(3) by (cases m) simp_all
  have xs: "take (length ?xs) (drop 4 p) = ?xs" "length ?xs \<le> length (drop 4 p)"
    using assms(1) by (simp_all add: n get_bytes_def split: if_splits)
  have "p ! (4 + i) = ?xs ! i" if "i < length ?xs" for i
  proof -
    have "p ! (4 + i) = take (length ?xs) (drop 4 p) ! i"
      using that xs(2) by simp
    also have "\<dots> = ?xs ! i"
      by (simp only: xs(1))
    finally show ?thesis .
  qed
  note this [of 0] this [of 1]
  moreover have "0 < length ?xs" "1 < length ?xs"
    using len by linarith+
  ultimately have "p ! 4 = ?xs ! 0" "p ! 5 = ?xs ! 1"
    by simp_all
  then show ?thesis
    using assms(3)
    by (cases m) (simp_all add: link_msg_of_def link_msg_distinct link_msg_distinct [symmetric] UINT16_TO_BSTREAM_def uint16_bytes_id)
qed

lemma h5_hear_message:
  assumes quiet: "h5_quiet b" and carries: "h5_carries (Some m) fs"
  obtains b' where "h5_hear now fs b = Some b'" and "linkState b' = fst (link_next (linkState b) m)"
    and "h5_carries (snd (link_next (linkState b) m)) (h5_new_frames b b')" and "h5_quiet b'"
    and "h5_on_time now b b'"
proof -
  obtain t h c where f: "fs = [slip_frame t (h5_packet h (link_payload c m))]" and m: "m \<noteq> LINK_OTHER"
      and h: "pktType h = HCI_H5_PKT_TYPE_LINK_CTRL" "crc h = 0" "h5_wire_head h (link_payload c m)"
    using carries by (auto simp: h5_carries_def)
  let ?pkt = "h5_packet h (link_payload c m)"
  have wf: "h5_wf b" and handler: "pktHandler (slip b) = H5_PakcetHandler" and buf: "7 \<le> length (pDecodeBuf (slip b))"
    using quiet by (simp_all add: h5_quiet_def h5_wf_defs)
  have "length (link_payload c m) \<le> 3"
    by (cases m) simp_all
  then have fits: "length ?pkt \<le> length (pDecodeBuf (slip b))"
    using buf by (simp add: h5_packet_length h(2))
  obtain cb len k where r: "h5_slip_input now (Some (slip_frame t ?pkt)) (of_nat (length (slip_frame t ?pkt))) b =
       h5_dispatch now (h\<lparr>headCheckSum := k\<rparr>) (pDecodeBuf cb) len (b\<lparr>slip := cb\<rparr>)"
    and pay: "get_bytes (drop HCI_H5_HEAD_LEN (pDecodeBuf cb)) 0 (unat (payloadLen h)) = Some (link_payload c m)"
    and cb: "slip_frame_eq (slip b) cb" "h5_wf (b\<lparr>slip := cb\<rparr>)"
    by (rule h5_slip_input_packet [OF wf h(3) fits handler])
  have "7 \<le> length (pDecodeBuf cb)"
    using buf cb(1) by (simp add: slip_frame_eq_def)
  note dec = this link_payload_msg [OF pay h(3) m]
  obtain s' where s': "HCI_H5_DecodeLinkPdu now (pDecodeBuf cb) (b\<lparr>slip := cb\<rparr>) = Some s'"
    "linkState s' = fst (link_next (linkState b) m)"
    "link_replies (snd (link_next (linkState b) m)) (b\<lparr>slip := cb\<rparr>) s'"
    by (rule HCI_H5_DecodeLinkPdu_spec [OF cb(2) dec]) simp
  have disp: "h5_dispatch now (h\<lparr>headCheckSum := k\<rparr>) (pDecodeBuf cb) len (b\<lparr>slip := cb\<rparr>) = Some s'"
    using s'(1) h(1) by (simp add: h5_dispatch_def h5_pkt_type_defs)
  have calm: "h5_calm now b s'"
    using HCI_H5_DecodeLinkPdu_calm [OF cb(2) s'(1)] cb(1) by (simp add: h5_calm_def slip_frame_eq_def)
  have "h5_wf s'"
    using HCI_H5_DecodeLinkPdu_ok [OF cb(2) dec(1), of now] s'(1) by simp
  then have "h5_quiet (h5_tx_done s')"
    by (rule h5_quiet_calm [OF quiet calm])
  moreover have "h5_carries (snd (link_next (linkState b) m)) (h5_new_frames b s')"
    using link_replies_carries [OF s'(3) _ link_next_replies] quiet by (simp add: h5_quiet_def h5_new_frames_def)
  ultimately show ?thesis
    using r disp s'(2) HCI_H5_DecodeLinkPdu_due [OF cb(2) s'(1)]
    by (intro that [of "h5_tx_done s'"]) (simp_all add: f h5_due_def h5_on_time_def)
qed

section \<open>The poll\<close>

lemma h5_quiet_tick: "h5_quiet s \<Longrightarrow> h5_quiet (s\<lparr>tick := t\<rparr>)"
  by (simp add: h5_quiet_def)

lemma h5_poll_message:
  assumes quiet: "h5_quiet a" and due: "h5_due now a"
  obtains a' where "HCI_H5_Poll now a = Some a'" and "linkState a' = linkState a"
    and "h5_carries (link_tick (linkState a)) (h5_new_frames a a')" and "h5_quiet (h5_tx_done a')"
    and "linkState a = HCI_H5_LINK_STATE_ACTIVE \<or> tick a' = now"
proof -
  note out = that
  have wf: "h5_wf a" and idle: "isUartTxDone (uart a)"
    using quiet by (simp_all add: h5_quiet_def)
  have sends: "\<exists>s'. snd' a = Some s' \<and> linkState s' = linkState a \<and> link_replies (Some m) a s'"
    if "link_sends m snd'" for m snd'
    using that wf unfolding link_sends_def by blast
  have msg: thesis if s': "snd' a = Some s'" "linkState s' = linkState a" "link_replies (Some m) a s'"
      and calm: "h5_calm now a s'" "h5_wf s'" and m: "link_tick (linkState a) = Some m"
      and poll: "HCI_H5_Poll now a = map_option (\<lambda>s'. s'\<lparr>tick := now\<rparr>) (snd' a)" for m snd' s'
  proof (rule out [of "s'\<lparr>tick := now\<rparr>"])
    show "HCI_H5_Poll now a = Some (s'\<lparr>tick := now\<rparr>)" "linkState (s'\<lparr>tick := now\<rparr>) = linkState a"
      using s' poll by simp_all
    have "m \<noteq> LINK_OTHER"
      using m by (cases "linkState a") auto
    then show "h5_carries (link_tick (linkState a)) (h5_new_frames a (s'\<lparr>tick := now\<rparr>))"
      using link_replies_carries [OF s'(3) idle] m by (simp add: h5_new_frames_def)
    show "h5_quiet (h5_tx_done (s'\<lparr>tick := now\<rparr>))"
      using h5_quiet_tick [OF h5_quiet_calm [OF quiet calm], of now] by (cases s') (simp add: h5_tx_done_def)
  qed simp
  note calm = h5_control_calm [OF wf h5_calm_refl] and ok = h5_control_sent(2,4) [OF wf]
  show thesis
  proof (cases "linkState a")
    case HCI_H5_LINK_STATE_IDLE
    obtain s' where s': "HCI_H5_SendSync a = Some s'" "linkState s' = linkState a" "link_replies (Some SYNC) a s'"
      using sends [OF link_sends_messages(1)] by blast
    have "h5_wf s'"
      using ok(1) s'(1) h5_sent_wf [OF _ wf] by auto
    then show thesis
      using HCI_H5_LINK_STATE_IDLE due by (intro msg [where snd' = HCI_H5_SendSync, OF s' calm(1) [OF s'(1)]]) (simp_all add: HCI_H5_Poll_def h5_due_def)
  next
    case HCI_H5_LINK_STATE_INIT
    obtain s' where s': "HCI_H5_SendConfig a = Some s'" "linkState s' = linkState a" "link_replies (Some CONFIG) a s'"
      using sends [OF link_sends_messages(3)] by blast
    have "h5_wf s'"
      using ok(2) s'(1) h5_sent_wf [OF _ wf] by auto
    then show thesis
      using HCI_H5_LINK_STATE_INIT due by (intro msg [where snd' = HCI_H5_SendConfig, OF s' calm(3) [OF s'(1)]]) (simp_all add: HCI_H5_Poll_def h5_due_def)
  next
    case HCI_H5_LINK_STATE_ACTIVE
    have "txSlidWinSize a = 0"
      using wf quiet fifo_empty_count [of "txFifo a"] by (simp add: h5_wf_def h5_win_ok_def h5_quiet_def word_unat_eq_iff)
    then have "h5_poll_send now a = Some a"
      using quiet by (simp add: h5_quiet_def h5_poll_send_def HCI_H5_SendData_idle)
    then have "HCI_H5_Poll now a = Some a"
      using HCI_H5_LINK_STATE_ACTIVE quiet by (simp add: HCI_H5_Poll_def h5_quiet_def)
    moreover have "h5_quiet (h5_tx_done a)"
      by (rule h5_quiet_calm [OF quiet h5_calm_refl wf])
    ultimately show thesis
      using HCI_H5_LINK_STATE_ACTIVE by (intro that [of a]) (simp_all add: h5_carries_def h5_new_frames_def)
  qed
qed

section \<open>Refinement\<close>

text \<open>The exchange of the abstract state machines.\<close>

fun link_talk :: "nat \<Rightarrow> link_msg option \<Rightarrow> h5_link_state \<times> h5_link_state \<Rightarrow> (h5_link_state \<times> h5_link_state) option" where
  "link_talk n None ab = Some ab"
| "link_talk 0 (Some m) ab = None"
| "link_talk (Suc n) (Some m) (a, b) = map_option prod.swap (link_talk n (snd (link_next b m)) (fst (link_next b m), a))"

definition link_period :: "h5_link_state \<times> h5_link_state \<Rightarrow> (h5_link_state \<times> h5_link_state) option" where
  "link_period ab = map_option prod.swap (link_talk 12 (link_tick (fst ab)) ab)"

lemma link_periods_active:
  "do { s \<leftarrow> link_period (a, b); s \<leftarrow> link_period s; s \<leftarrow> link_period s; link_period s } =
     Some (HCI_H5_LINK_STATE_ACTIVE, HCI_H5_LINK_STATE_ACTIVE)"
  by (cases a; cases b) (simp_all add: link_period_def numeral_eq_Suc)

lemma h5_talk_refines:
  assumes "link_talk n r (linkState a, linkState b) = Some (la, lb)"
    and "h5_quiet a" and "h5_quiet b" and "h5_carries r fs"
  obtains a' b' where "h5_talk n now fs (a, b) = Some (a', b')" and "linkState a' = la" and "linkState b' = lb"
    and "h5_quiet a'" and "h5_quiet b'"
    and "h5_on_time now a a'" and "h5_on_time now b b'"
  using assms
proof (induction n arbitrary: r a b la lb fs thesis)
  case 0
  then have "r = None"
    by (cases r) simp_all
  then show ?case
    using 0 by (simp add: h5_carries_def h5_on_time_def)
next
  case (Suc n)
  show ?case
  proof (cases r)
    case None
    then show ?thesis
      using Suc.prems by (simp add: h5_carries_def h5_on_time_def)
  next
    case (Some m)
    then obtain f where fs: "fs = [f]"
      using Suc.prems(5) by (auto simp: h5_carries_def)
    have carries: "h5_carries (Some m) fs"
      using Suc.prems(5) Some by simp
    obtain b1 where b1: "h5_hear now fs b = Some b1" "linkState b1 = fst (link_next (linkState b) m)"
      "h5_carries (snd (link_next (linkState b) m)) (h5_new_frames b b1)" "h5_quiet b1" "h5_on_time now b b1"
      by (rule h5_hear_message [OF Suc.prems(4) carries, where now = now])
    have talk: "link_talk n (snd (link_next (linkState b) m)) (linkState b1, linkState a) = Some (lb, la)"
      using Suc.prems(2) b1(2) by (auto simp: Some)
    obtain b2 a2 where "h5_talk n now (h5_new_frames b b1) (b1, a) = Some (b2, a2)" "linkState b2 = lb" "linkState a2 = la"
      "h5_quiet b2" "h5_quiet a2" "h5_on_time now b1 b2" "h5_on_time now a a2"
      by (rule Suc.IH [OF _ talk b1(4) Suc.prems(3) b1(3)])
    then show ?thesis
      using b1(1) h5_on_time_trans [OF b1(5)] by (intro Suc.prems(1) [of a2 b2]) (simp_all add: fs)
  qed
qed

section \<open>Periods\<close>

lemma period_elapsed:
  assumes "4000002 \<le> P" and "P < 2 ^ 30"
  shows "clock_time_exceed (now + P) now (250 * 1000)" "clock_time_exceed (now + P) (now OR 1) (250 * 1000)"
    "clock_time_exceed (now + P + P) now (250 * 1000)" "clock_time_exceed (now + P + P) (now OR 1) (250 * 1000)"
proof -
  have P: "4000002 \<le> unat P" "unat P < 2 ^ 30"
    using assms by (simp_all add: word_le_nat_alt word_less_nat_alt)
  have double: "unat (P + P) = unat P + unat P"
    using P(2) by (simp add: unat_word_ariths)
  have less: "4000000 < X - d" if "4000002 \<le> unat X" and "d = 0 \<or> d = 1" for X d :: u32
    using that by (auto simp: word_less_nat_alt unat_sub word_le_nat_alt)
  have odd: "now OR 1 = now \<or> now OR 1 = now + 1"
    by (simp add: or_one_eq)
  have "now + P - now = P - 0" "now + P + P - now = (P + P) - 0" "now + P - (now + 1) = P - 1" "now + P + P - (now + 1) = (P + P) - 1"
    by simp_all
  moreover have "250 * 1000 * 16 = (4000000 :: u32)"
    by simp
  moreover have "4000000 < P - 0" "4000000 < P - 1" "4000000 < P + P - 0" "4000000 < P + P - 1"
    by (rule less, use P double in linarith, simp)+
  ultimately show
    "clock_time_exceed (now + P) now (250 * 1000)" "clock_time_exceed (now + P) (now OR 1) (250 * 1000)"
    "clock_time_exceed (now + P + P) now (250 * 1000)" "clock_time_exceed (now + P + P) (now OR 1) (250 * 1000)"
    using odd by (auto simp only: clock_time_exceed_def)
qed

text \<open>Two stations at the beginning of a period.\<close>

definition h5_stations :: "u32 \<Rightarrow> u32 \<Rightarrow> h5 \<times> h5 \<Rightarrow> bool" where
  "h5_stations now P ab \<longleftrightarrow> h5_quiet (fst ab) \<and> h5_quiet (snd ab) \<and> h5_due now (fst ab) \<and> h5_due (now + P) (snd ab)"

definition h5_states :: "h5 \<times> h5 \<Rightarrow> h5_link_state \<times> h5_link_state" where
  "h5_states ab = map_prod linkState linkState ab"

lemma h5_period_refines:
  assumes ab: "h5_stations now P ab" and P: "4000002 \<le> P" "P < 2 ^ 30" and link: "link_period (h5_states ab) = Some st"
  obtains ab' where "h5_period now ab = Some ab'" and "h5_states ab' = st" and "h5_stations (now + P) P ab'"
proof -
  obtain a b where pair: "ab = (a, b)"
    by (cases ab)
  have quiet: "h5_quiet a" "h5_quiet b" and due: "h5_due now a" "h5_due (now + P) b"
    using ab by (simp_all add: h5_stations_def pair)
  note elapsed = period_elapsed [OF P]
  obtain a1 where a1: "HCI_H5_Poll now a = Some a1" "linkState a1 = linkState a"
      "h5_carries (link_tick (linkState a)) (h5_new_frames a a1)" "h5_quiet (h5_tx_done a1)"
    and tick1: "linkState a = HCI_H5_LINK_STATE_ACTIVE \<or> tick a1 = now"
    by (rule h5_poll_message [OF quiet(1) due(1)])
  obtain la lb where talk: "link_talk 12 (link_tick (linkState a)) (linkState a, linkState b) = Some (la, lb)" "st = (lb, la)"
    using link by (auto simp: link_period_def h5_states_def pair)
  have talk1: "link_talk 12 (link_tick (linkState a)) (linkState (h5_tx_done a1), linkState b) = Some (la, lb)"
    using talk(1) a1(2) by simp
  obtain a2 b2 where r: "h5_talk 12 now (h5_new_frames a a1) (h5_tx_done a1, b) = Some (a2, b2)" "linkState a2 = la"
      "linkState b2 = lb" "h5_quiet a2" "h5_quiet b2" "h5_on_time now (h5_tx_done a1) a2" "h5_on_time now b b2"
    by (rule h5_talk_refines [OF talk1 a1(4) quiet(2) a1(3)])
  have "h5_due (now + P) b2"
    using r(7) due(2) elapsed by (simp add: h5_on_time_def)
  moreover have "h5_due (now + P + P) a2"
  proof -
    have "h5_due (now + P + P) a1"
      using tick1 a1(2) elapsed by (auto simp: h5_due_def)
    then show ?thesis
      using r(6) elapsed by (simp add: h5_on_time_def)
  qed
  ultimately show ?thesis
    using r(1-5) a1(1) talk(2)
    by (intro that [of "(b2, a2)"]) (simp_all add: h5_period_def pair h5_states_def h5_stations_def)
qed

text \<open>Active stations without data stay active: their polls send nothing.\<close>

lemma h5_periods_active:
  assumes "h5_stations now P ab" and "4000002 \<le> P" and "P < 2 ^ 30"
    and "h5_states ab = (HCI_H5_LINK_STATE_ACTIVE, HCI_H5_LINK_STATE_ACTIVE)"
  shows "\<exists>ab'. h5_periods n now P ab = Some ab' \<and>
     h5_states ab' = (HCI_H5_LINK_STATE_ACTIVE, HCI_H5_LINK_STATE_ACTIVE) \<and> h5_quiet (fst ab') \<and> h5_quiet (snd ab')"
  using assms(1,4)
proof (induction n arbitrary: now ab)
  case 0
  then show ?case
    by (simp add: h5_stations_def)
next
  case (Suc n)
  have "link_period (h5_states ab) = Some (HCI_H5_LINK_STATE_ACTIVE, HCI_H5_LINK_STATE_ACTIVE)"
    by (simp add: Suc.prems(2) link_period_def)
  then obtain ab1 where "h5_period now ab = Some ab1" "h5_stations (now + P) P ab1"
    "h5_states ab1 = (HCI_H5_LINK_STATE_ACTIVE, HCI_H5_LINK_STATE_ACTIVE)"
    by (rule h5_period_refines [OF Suc.prems(1) assms(2,3)])
  then show ?case
    using Suc.IH [of "now + P" ab1] by simp
qed

section \<open>Convergence\<close>

text \<open>
  C8: two stations that run this code at the ends of a line without loss establish the link from any of
  the nine combinations of their link states: when they poll in turn with a period of more than 250 ms
  and have no data waiting, then after four polls both are in the active state, and after any number
  of further polls they still are.  Every period ends within twelve changes of direction.
\<close>

theorem h5_link_converges:
  assumes "h5_quiet a" and "h5_quiet b" and "h5_due now a" and "h5_due (now + P) b" and "4000002 \<le> P" and "P < 2 ^ 30"
  shows "\<exists>a' b'. h5_periods (4 + n) now P (a, b) = Some (a', b') \<and>
     linkState a' = HCI_H5_LINK_STATE_ACTIVE \<and> linkState b' = HCI_H5_LINK_STATE_ACTIVE \<and> h5_quiet a' \<and> h5_quiet b'"
proof -
  note P = assms(5,6)
  have "h5_stations now P (a, b)"
    using assms by (simp add: h5_stations_def)
  moreover obtain s1 s2 s3 where s: "link_period (h5_states (a, b)) = Some s1" "link_period s1 = Some s2" "link_period s2 = Some s3"
    "link_period s3 = Some (HCI_H5_LINK_STATE_ACTIVE, HCI_H5_LINK_STATE_ACTIVE)"
    using link_periods_active [of "linkState a" "linkState b"] by (auto simp: h5_states_def Option.bind_eq_Some_conv)
  ultimately obtain p1 where p1: "h5_period now (a, b) = Some p1" "h5_states p1 = s1" "h5_stations (now + P) P p1"
    using h5_period_refines [OF _ P] by metis
  then obtain p2 where p2: "h5_period (now + P) p1 = Some p2" "h5_states p2 = s2" "h5_stations (now + P + P) P p2"
    using h5_period_refines [OF _ P] s(2) by metis
  then obtain p3 where p3: "h5_period (now + P + P) p2 = Some p3" "h5_states p3 = s3" "h5_stations (now + P + P + P) P p3"
    using h5_period_refines [OF _ P] s(3) by metis
  then obtain p4 where p4: "h5_period (now + P + P + P) p3 = Some p4" "h5_stations (now + P + P + P + P) P p4"
    "h5_states p4 = (HCI_H5_LINK_STATE_ACTIVE, HCI_H5_LINK_STATE_ACTIVE)"
    using h5_period_refines [OF _ P] s(4) by metis
  obtain ab where ab: "h5_periods n (now + P + P + P + P) P p4 = Some ab" "h5_quiet (fst ab)" "h5_quiet (snd ab)"
    "h5_states ab = (HCI_H5_LINK_STATE_ACTIVE, HCI_H5_LINK_STATE_ACTIVE)"
    using h5_periods_active [OF p4(2) P p4(3)] by blast
  have "h5_periods (4 + n) now P (a, b) = Some ab"
    using p1(1) p2(1) p3(1) p4(1) ab(1) by (simp add: numeral_eq_Suc)
  then show ?thesis
    using ab(2-4) by (intro exI [of _ "fst ab"] exI [of _ "snd ab"]) (simp add: h5_states_def map_prod_def split: prod.splits)
qed

text \<open>A station after its reset and one that is still active from before.\<close>

theorem h5_link_converges_witness:
  "\<exists>a' b'. h5_periods (4 + 3) 5000000 5000000 (h5_start 0 48 3 36 4, h5_peer) = Some (a', b') \<and>
     linkState a' = HCI_H5_LINK_STATE_ACTIVE \<and> linkState b' = HCI_H5_LINK_STATE_ACTIVE \<and> h5_quiet a' \<and> h5_quiet b'"
proof (rule h5_link_converges)
  have "h5_wf (h5_start 0 48 3 36 4)"
    by (rule h5_start_wf) simp_all
  then show "h5_quiet (h5_start 0 48 3 36 4)"
    by (simp add: h5_quiet_def) (simp add: h5_start_def HCI_H5_Init_def h5_boot_def HCI_Slip_Init_def
        HCI_SLip_SetFlowCtrlEnable_def HCI_Slip_RegisterPktHandler_def fifo_empty_def hci_fifo_new_def)
  have "txTick h5_peer = 0" "rxTick h5_peer = 0"
    by (simp_all add: h5_peer_def h5_start_def HCI_H5_Init_def h5_boot_def)
  then show "h5_quiet h5_peer"
    by (simp add: h5_quiet_def h5_peer_wf h5_peer_fields) (simp add: fifo_empty_def hci_fifo_new_def)
  show "h5_due 5000000 (h5_start 0 48 3 36 4)"
    by (simp add: h5_due_def clock_time_exceed_def h5_start_def HCI_H5_Init_def)
qed (simp_all add: h5_due_def h5_peer_fields)

end
