(* ===== verification/H5_Tr.thy ===== *)
theory H5_Tr
  imports H5_Events
begin

text \<open>
  The byte transport below the H5 protocol, \<^verbatim>\<open>vendor/common/hci_transport/hci_tr_h5.c\<close>: the UART's
  DMA fills the slots of a ring, the main loop looks for SLIP frames in them and hands each frame to
  the SLIP handler; a frame that is not complete at the end of a slot is kept in a backup buffer.
\<close>

section \<open>State\<close>

datatype slip_handler = Tr_DefaultSlipHandler | Slip_DecodePacket

text \<open>\<open>hciH5TrCb\<close> with the ring and the buffer behind its pointers, and the layers above.\<close>

record h5_tr =
  trRxFifo :: hci_fifo
  slipHandler :: slip_handler
  trBackupBuf :: "u8 list"
  trFlushTimer :: u32
  trBackupCnt :: u8
  trDmaOff :: nat
  link :: h5

definition HCI_H5_FLUSH_TO :: u32 where "HCI_H5_FLUSH_TO = 1000"

definition HCI_H5_TR_RX_BUF_SIZE :: "nat \<Rightarrow> nat" where
  "HCI_H5_TR_RX_BUF_SIZE rx =
     MEM_SIZE_ALIGN16 (4 + 2 + (HCI_H5_HEAD_LEN + rx + HCI_H5_CRC_LEN) * 2) * 2"

definition HCI_Tr_H5Init :: "h5_tr \<Rightarrow> h5_tr" where
  "HCI_Tr_H5Init s =
     s\<lparr>trBackupCnt := 0, trFlushTimer := 0, slipHandler := Tr_DefaultSlipHandler, trDmaOff := 0\<rparr>"

definition HCI_Tr_H5RegisterSlipHandler :: "slip_handler \<Rightarrow> h5_tr \<Rightarrow> h5_tr" where
  "HCI_Tr_H5RegisterSlipHandler func s = s\<lparr>slipHandler := func\<rparr>"

definition HCI_Tr_H5TimerEnable :: "u32 \<Rightarrow> h5_tr \<Rightarrow> h5_tr" where
  "HCI_Tr_H5TimerEnable now s = s\<lparr>trFlushTimer := now OR 1\<rparr>"

definition HCI_Tr_H5TimerDisable :: "h5_tr \<Rightarrow> h5_tr" where
  "HCI_Tr_H5TimerDisable s = s\<lparr>trFlushTimer := 0\<rparr>"

definition HCI_Tr_H5FlushHandler :: "u32 \<Rightarrow> h5_tr \<Rightarrow> h5_tr" where
  "HCI_Tr_H5FlushHandler now s =
     (if trFlushTimer s \<noteq> 0 \<and> clock_time_exceed now (trFlushTimer s) (HCI_H5_FLUSH_TO * 1000)
      then s\<lparr>trFlushTimer := 0, trBackupCnt := 0\<rparr> else s)"

text \<open>A call through \<open>HCI_Tr_SlipHandler\<close> with the memory from its pointer argument on.\<close>

definition tr_slip_handler :: "u32 \<Rightarrow> u8 list \<Rightarrow> u32 \<Rightarrow> h5_tr \<Rightarrow> h5_tr option" where
  "tr_slip_handler now pPacket len s =
     (case slipHandler s of
        Tr_DefaultSlipHandler \<Rightarrow> Some s
      | Slip_DecodePacket \<Rightarrow>
          map_option (\<lambda>l. s\<lparr>link := l\<rparr>) (h5_slip_input now (Some pPacket) len (link s)))"

section \<open>Searching\<close>

text \<open>The two searches; the inner option is the returned pointer, as an offset, or the null
  pointer.\<close>

fun HCI_Tr_H5FindSlipHeadFlag :: "u8 list \<Rightarrow> nat \<Rightarrow> nat option option" where
  "HCI_Tr_H5FindSlipHeadFlag mem 0 = Some None"
| "HCI_Tr_H5FindSlipHeadFlag [] (Suc n) = None"
| "HCI_Tr_H5FindSlipHeadFlag (b # bs) (Suc n) =
     (if b = 0xC0 \<and> n = 0 then Some (Some 0)
      else if b = 0xC0 then
        (case bs of
           [] \<Rightarrow> None
         | c # _ \<Rightarrow> if c \<noteq> 0xC0 then Some (Some 0)
                    else map_option (map_option Suc) (HCI_Tr_H5FindSlipHeadFlag bs n))
      else map_option (map_option Suc) (HCI_Tr_H5FindSlipHeadFlag bs n))"

fun HCI_Tr_H5FindSlipFlag :: "u8 list \<Rightarrow> nat \<Rightarrow> nat option option" where
  "HCI_Tr_H5FindSlipFlag mem 0 = Some None"
| "HCI_Tr_H5FindSlipFlag [] (Suc n) = None"
| "HCI_Tr_H5FindSlipFlag (b # bs) (Suc n) =
     (if b \<noteq> 0xC0 then map_option (map_option Suc) (HCI_Tr_H5FindSlipFlag bs n)
      else Some (Some 0))"

section \<open>The backup buffer\<close>

text \<open>One byte at the end of the backup buffer.\<close>

definition tr_append :: "u8 \<Rightarrow> h5_tr \<Rightarrow> h5_tr option" where
  "tr_append b s =
     do { buf \<leftarrow> put_byte (trBackupBuf s) (unat (trBackupCnt s)) b;
          Some (s\<lparr>trBackupBuf := buf, trBackupCnt := trBackupCnt s + 1\<rparr>) }"

text \<open>The \<open>while (len)\<close> loop of the backup handler; \<open>cnt\<close> is its counter.  The length of
  the buffer is \<open>HCI_H5_TR_RX_BUF_SIZE\<close>.\<close>

fun h5_backup_loop :: "u32 \<Rightarrow> u8 list \<Rightarrow> nat \<Rightarrow> u16 \<Rightarrow> h5_tr \<Rightarrow> (u16 \<times> h5_tr) option" where
  "h5_backup_loop now mem 0 cnt s = Some (cnt, s)"
| "h5_backup_loop now [] (Suc n) cnt s = None"
| "h5_backup_loop now (b # bs) (Suc n) cnt s =
     (if length (trBackupBuf s) < unat (trBackupCnt s) + 1 then
        Some (cnt, HCI_Tr_H5TimerDisable (s\<lparr>trBackupCnt := 0\<rparr>))
      else if b = 0xC0 then
        (if trBackupCnt s = 1 then h5_backup_loop now bs n (cnt + 1) s
         else do { s1 \<leftarrow> tr_append b s;
                   s2 \<leftarrow> tr_slip_handler now (trBackupBuf s1) (ucast (trBackupCnt s1)) s1;
                   Some (cnt + 1, HCI_Tr_H5TimerDisable (s2\<lparr>trBackupCnt := 0\<rparr>)) })
      else do { s1 \<leftarrow> tr_append b s;
                h5_backup_loop now bs n (cnt + 1) (HCI_Tr_H5TimerEnable now s1) })"

definition HCI_Tr_H5BackupHandler :: "u32 \<Rightarrow> u8 list \<Rightarrow> u32 \<Rightarrow> h5_tr \<Rightarrow> (u32 \<times> h5_tr) option" where
  "HCI_Tr_H5BackupHandler now pPacket len s =
     (if trBackupCnt s = 0 then
        (if length (trBackupBuf s) < unat len then Some (len, s)
         else do { xs \<leftarrow> get_bytes pPacket 0 (unat len);
                   buf \<leftarrow> put_bytes (trBackupBuf s) 0 xs;
                   Some (len, HCI_Tr_H5TimerEnable now
                     (s\<lparr>trBackupBuf := buf, trBackupCnt := trBackupCnt s + ucast len\<rparr>)) })
      else map_option (map_prod ucast id) (h5_backup_loop now pPacket (unat len) 0 s))"

section \<open>The receive handler\<close>

text \<open>The inner loop over one slot.  Where no head flag is found the code subtracts from the null
  pointer before it tests it, but does not use the result.\<close>

partial_function (option) h5_rx_loop :: "u32 \<Rightarrow> u8 list \<Rightarrow> u32 \<Rightarrow> h5_tr \<Rightarrow> h5_tr option" where
  "h5_rx_loop now pPacket len s =
     (if len = 0 then Some s
      else
        Option.bind
          (if trBackupCnt s \<noteq> 0 then
             map_option (\<lambda>(res, s'). (drop (unat (ucast res :: u8)) pPacket, len - ucast (ucast res :: u8), s'))
               (HCI_Tr_H5BackupHandler now pPacket len s)
           else Some (pPacket, len, s))
        (\<lambda>(pPacket, len, s).
          Option.bind (HCI_Tr_H5FindSlipHeadFlag pPacket (unat len)) (\<lambda>pBuf.
            case pBuf of
              None \<Rightarrow> Some s
            | Some off \<Rightarrow>
                (let pPacket = drop off pPacket; len = len - of_nat off in
                 Option.bind (HCI_Tr_H5FindSlipFlag (drop 1 pPacket) (unat (len - 1))) (\<lambda>pBuf2.
                   case pBuf2 of
                     None \<Rightarrow> map_option snd (HCI_Tr_H5BackupHandler now pPacket len s)
                   | Some k \<Rightarrow>
                       if len = 1 then map_option snd (HCI_Tr_H5BackupHandler now pPacket len s)
                       else
                         (let slipLen = (of_nat (k + 2) :: u16) in
                          if slipLen < 6 then
                            h5_rx_loop now (drop (unat slipLen) pPacket) (len - ucast slipLen) s
                          else
                            Option.bind (tr_slip_handler now pPacket (ucast slipLen) s) (\<lambda>s1.
                              h5_rx_loop now (drop (unat slipLen) pPacket) (len - ucast slipLen) s1)))))))"

declare h5_rx_loop.simps [code]

text \<open>The outer loop, over the slots that are filled; at most \<open>n\<close> of them.  The interrupt may
  fill more while it runs; they belong to the next call here.\<close>

fun h5_rx_slots :: "nat \<Rightarrow> u32 \<Rightarrow> h5_tr \<Rightarrow> h5_tr option" where
  "h5_rx_slots 0 now s = Some s"
| "h5_rx_slots (Suc n) now s =
     (let f = trRxFifo s in
      if wptr f = rptr f then Some s
      else do {
        let p = drop (fifo_slot f (rptr f)) (fp f);
        h \<leftarrow> get_bytes p 0 4;
        let len = BYTES_TO_UINT32 (h ! 0) (h ! 1) (h ! 2) (h ! 3);
        s1 \<leftarrow> h5_rx_loop now (drop 4 p) len s;
        h5_rx_slots n now (s1\<lparr>trRxFifo := (trRxFifo s1)\<lparr>rptr := rptr (trRxFifo s1) + 1\<rparr>\<rparr>) })"

definition HCI_Tr_H5RxHandler :: "u32 \<Rightarrow> h5_tr \<Rightarrow> h5_tr option" where
  "HCI_Tr_H5RxHandler now s =
     (let s1 = HCI_Tr_H5FlushHandler now s in h5_rx_slots (fifo_count (trRxFifo s1)) now s1)"

section \<open>The interrupt handler\<close>

definition tr_dma :: "u8 list \<Rightarrow> h5_tr \<Rightarrow> h5_tr option" where
  "tr_dma xs s =
     do { b \<leftarrow> put_bytes (fp (trRxFifo s)) (trDmaOff s) (UINT32_TO_BSTREAM (of_nat (length xs)) @ xs);
          Some (s\<lparr>trRxFifo := (trRxFifo s)\<lparr>fp := b\<rparr>\<rparr>) }"

definition h5_irq_full :: "hci_fifo \<Rightarrow> bool" where
  "h5_irq_full f \<longleftrightarrow> unat (fmask f) + 1 \<le> unat (wptr f - rptr f)"

definition HCI_Tr_H5IRQHandler :: "bool \<Rightarrow> bool \<Rightarrow> h5_tr \<Rightarrow> h5_tr option" where
  "HCI_Tr_H5IRQHandler dmaRx txDone s =
     (let f = trRxFifo s in
      if dmaRx \<and> h5_irq_full f then Some s
      else do {
        s1 \<leftarrow> (if dmaRx then do {
                  h \<leftarrow> get_bytes (fp f) (fifo_slot f (wptr f)) 4;
                  (if BYTES_TO_UINT32 (h ! 0) (h ! 1) (h ! 2) (h ! 3) \<noteq> 0 then
                     (let f' = f\<lparr>wptr := wptr f + 1\<rparr> in
                      Some (s\<lparr>trRxFifo := f', trDmaOff := fifo_slot f' (wptr f')\<rparr>))
                   else Some s) }
              else Some s);
        Some (if txDone
              then s1\<lparr>link := (link s1)\<lparr>uart := (uart (link s1))\<lparr>isUartTxDone := True\<rparr>\<rparr>\<rparr> else s1) })"

end
