(* ===== verification/H5_Frames.thy ===== *)
theory H5_Frames
  imports H5_Tr
begin

text \<open>
  Framing in the H5 byte transport: the specification \<open>slip_split\<close> cuts a byte stream at the
  delimiters, independently of how it arrives; the receive loop of \<^verbatim>\<open>hci_tr_h5.c\<close> with its backup
  buffer hands exactly these frames to the SLIP layer and keeps the incomplete rest.
\<close>

section \<open>Specification\<close>

text \<open>The state is \<open>None\<close> outside a frame and \<open>Some ys\<close> after a delimiter and the bytes \<open>ys\<close>.\<close>

fun slip_split :: "u8 list option \<Rightarrow> u8 list \<Rightarrow> u8 list list \<times> u8 list option" where
  "slip_split st [] = ([], st)"
| "slip_split None (b # bs) =
     (if b = SLIP_DELIMITER then slip_split (Some []) bs else slip_split None bs)"
| "slip_split (Some ys) (b # bs) =
     (if b \<noteq> SLIP_DELIMITER then slip_split (Some (ys @ [b])) bs
      else if ys = [] then slip_split (Some []) bs
      else (case slip_split None bs of (fs, r) \<Rightarrow> (ys # fs, r)))"

text \<open>All frames and the rest fit a buffer of \<open>lim\<close> bytes.\<close>

definition slip_fits :: "nat \<Rightarrow> u8 list list \<times> u8 list option \<Rightarrow> bool" where
  "slip_fits lim r \<longleftrightarrow>
     (\<forall>f\<in>set (fst r). length f + 2 \<le> lim) \<and> (case snd r of None \<Rightarrow> True | Some ys \<Rightarrow> length ys + 2 \<le> lim)"

lemma slip_split_append:
  "slip_split st (xs @ ys) =
     (fst (slip_split st xs) @ fst (slip_split (snd (slip_split st xs)) ys),
      snd (slip_split (snd (slip_split st xs)) ys))"
  by (induction st xs rule: slip_split.induct) (auto split: prod.splits)

lemma slip_fits_some: "slip_fits lim (slip_split (Some ys) bs) \<Longrightarrow> length ys + 2 \<le> lim"
proof (induction bs arbitrary: ys)
  case (Cons b bs)
  show ?case
  proof (cases "b \<noteq> SLIP_DELIMITER")
    case True
    then show ?thesis
      using Cons.IH [of "ys @ [b]"] Cons.prems by simp
  next
    case False
    then show ?thesis
      using Cons.IH [of "[]"] Cons.prems by (auto simp: slip_fits_def split: if_splits prod.splits)
  qed
qed (simp add: slip_fits_def)

lemma slip_fits_tail: "slip_fits lim (f # fs, r) \<longleftrightarrow> length f + 2 \<le> lim \<and> slip_fits lim (fs, r)"
  by (auto simp: slip_fits_def)

lemma slip_split_no_delimiter:
  "SLIP_DELIMITER \<notin> set xs \<Longrightarrow> slip_split (Some ys) xs = ([], Some (ys @ xs))"
  by (induction xs arbitrary: ys) auto

lemma slip_split_frame:
  assumes "SLIP_DELIMITER \<notin> set xs" and "ys @ xs \<noteq> []"
  shows "slip_split (Some ys) (xs @ SLIP_DELIMITER # bs) =
     ((ys @ xs) # fst (slip_split None bs), snd (slip_split None bs))"
  using assms by (induction xs arbitrary: ys) (auto split: prod.splits)

text \<open>The rest never holds a delimiter.\<close>

definition slip_state_ok :: "u8 list option \<Rightarrow> bool" where
  "slip_state_ok st \<longleftrightarrow> (\<forall>ys. st = Some ys \<longrightarrow> SLIP_DELIMITER \<notin> set ys)"

lemma slip_split_state_ok: "slip_state_ok st \<Longrightarrow> slip_state_ok (snd (slip_split st bs))"
  by (induction st bs rule: slip_split.induct) (auto simp: slip_state_ok_def split: prod.splits)

section \<open>Searching\<close>

lemma HCI_Tr_H5FindSlipFlag_spec:
  assumes "n \<le> length mem"
  shows "(\<exists>k. HCI_Tr_H5FindSlipFlag mem n = Some (Some k) \<and> k < n \<and> mem ! k = SLIP_DELIMITER \<and>
            SLIP_DELIMITER \<notin> set (take k mem)) \<or>
         HCI_Tr_H5FindSlipFlag mem n = Some None \<and> SLIP_DELIMITER \<notin> set (take n mem)"
  using assms
proof (induction mem n rule: HCI_Tr_H5FindSlipFlag.induct)
  case (3 b bs n)
  show ?case
  proof (cases "b = 0xC0")
    case False
    with 3 consider (found) k where "HCI_Tr_H5FindSlipFlag bs n = Some (Some k)" "k < n"
        "bs ! k = SLIP_DELIMITER" "SLIP_DELIMITER \<notin> set (take k bs)"
      | (none) "HCI_Tr_H5FindSlipFlag bs n = Some None" "SLIP_DELIMITER \<notin> set (take n bs)"
      by auto
    then show ?thesis
    proof cases
      case (found k)
      then show ?thesis
        using False by (intro disjI1 exI [of _ "Suc k"]) (simp add: SLIP_DELIMITER_def)
    qed (use False in \<open>simp add: SLIP_DELIMITER_def\<close>)
  qed (simp add: SLIP_DELIMITER_def)
qed simp_all

lemma HCI_Tr_H5FindSlipHeadFlag_spec:
  assumes "n \<le> length mem"
  shows "(\<exists>k. HCI_Tr_H5FindSlipHeadFlag mem n = Some (Some k) \<and> k < n \<and> mem ! k = SLIP_DELIMITER \<and>
            (Suc k = n \<or> mem ! Suc k \<noteq> SLIP_DELIMITER) \<and>
            slip_split None (take n mem) = slip_split (Some []) (drop (Suc k) (take n mem))) \<or>
         HCI_Tr_H5FindSlipHeadFlag mem n = Some None \<and> slip_split None (take n mem) = ([], None)"
  using assms
proof (induction mem n rule: HCI_Tr_H5FindSlipHeadFlag.induct)
  case (3 b bs n)
  have D: "SLIP_DELIMITER = 0xC0"
    by (rule SLIP_DELIMITER_def)
  have bound: "n \<le> length bs"
    using 3(3) by simp
  have shift: "\<exists>k. HCI_Tr_H5FindSlipHeadFlag (b # bs) (Suc n) = Some (Some k) \<and> k < Suc n \<and>
        (b # bs) ! k = SLIP_DELIMITER \<and> (Suc k = Suc n \<or> (b # bs) ! Suc k \<noteq> SLIP_DELIMITER) \<and>
        slip_split None (take n bs) = slip_split (Some []) (drop (Suc k) (take (Suc n) (b # bs)))"
    if "HCI_Tr_H5FindSlipHeadFlag (b # bs) (Suc n) =
          map_option (map_option Suc) (HCI_Tr_H5FindSlipHeadFlag bs n)"
      and "\<exists>k. HCI_Tr_H5FindSlipHeadFlag bs n = Some (Some k) \<and> k < n \<and> bs ! k = SLIP_DELIMITER \<and>
            (Suc k = n \<or> bs ! Suc k \<noteq> SLIP_DELIMITER) \<and>
            slip_split None (take n bs) = slip_split (Some []) (drop (Suc k) (take n bs))"
  proof -
    from that(2) obtain k where "HCI_Tr_H5FindSlipHeadFlag bs n = Some (Some k)" "k < n"
      "bs ! k = SLIP_DELIMITER" "Suc k = n \<or> bs ! Suc k \<noteq> SLIP_DELIMITER"
      "slip_split None (take n bs) = slip_split (Some []) (drop (Suc k) (take n bs))"
      by blast
    then show ?thesis
      using that(1)
      by (intro exI [of _ "Suc k"]) (simp del: HCI_Tr_H5FindSlipHeadFlag.simps)
  qed
  consider (last) "b = 0xC0" "n = 0" | (head) c bs' where "b = 0xC0" "n \<noteq> 0" "bs = c # bs'" "c \<noteq> 0xC0"
    | (twice) bs' where "b = 0xC0" "n \<noteq> 0" "bs = 0xC0 # bs'" | (other) "b \<noteq> 0xC0"
    using bound by (cases bs) auto
  then show ?case
  proof cases
    case twice
    then obtain m where n: "n = Suc m"
      by (cases n) auto
    have find: "HCI_Tr_H5FindSlipHeadFlag (b # bs) (Suc n) =
        map_option (map_option Suc) (HCI_Tr_H5FindSlipHeadFlag bs n)"
      using twice by simp
    have split: "slip_split None (take (Suc n) (b # bs)) = slip_split None (take n bs)"
      using twice by (simp add: D n)
    show ?thesis
      using 3(1) twice bound shift [OF find] unfolding split by (auto simp: find)
  next
    case other
    then have find: "HCI_Tr_H5FindSlipHeadFlag (b # bs) (Suc n) =
        map_option (map_option Suc) (HCI_Tr_H5FindSlipHeadFlag bs n)"
      by simp
    have split: "slip_split None (take (Suc n) (b # bs)) = slip_split None (take n bs)"
      using other by (simp add: D)
    show ?thesis
      using 3 other bound shift [OF find] unfolding split by (auto simp: find)
  qed (auto simp: D)
qed simp_all

section \<open>One frame\<close>

text \<open>The decoder does not look behind the closing delimiter.\<close>

lemma slip_decode_loop_rest:
  assumes "unat len = length inner"
  shows "slip_decode_loop (inner @ SLIP_DELIMITER # rest) len cb =
     slip_decode_loop (inner @ [SLIP_DELIMITER]) len cb"
  using assms
proof (induction inner arbitrary: len cb rule: induct_list012)
  case 1
  then have "len = 0"
    by (simp add: word_unat_eq_iff)
  then show ?case
    by simp
next
  case (2 x)
  then have "len = 1"
    by (simp add: word_unat_eq_iff)
  moreover have "HCI_Slip_GetUnencoded (BYTES_TO_UINT16 0xDB SLIP_DELIMITER) = SLIP_INVALID_UNENCODED"
    by (simp add: GetUnencoded_code slip_unescape_code_def SLIP_DELIMITER_def)
  ultimately show ?case
    by (cases "slip_decode_put cb x") (auto simp: Let_def)
next
  case (3 x y zs)
  have l2: "unat (len - 2) = length zs"
    using 3(3) by (simp add: unat_sub word_le_nat_alt)
  have l1: "unat (len - 1) = length (y # zs)"
    using 3(3) by (simp add: unat_sub word_le_nat_alt)
  have nz: "len \<noteq> 0"
    using 3(3) by auto
  show ?case
  proof (cases "x = 0xDB")
    case True
    then show ?thesis
      using 3(1) [OF l2] nz by (auto simp: Let_def intro!: Option.bind_cong)
  next
    case False
    then show ?thesis
      using 3(2) [OF l1] nz by (auto intro!: Option.bind_cong)
  qed
qed

lemma h5_slip_input_rest:
  assumes "length ys + 2 < 2 ^ 32"
  shows "h5_slip_input now (Some (SLIP_DELIMITER # ys @ SLIP_DELIMITER # rest)) (of_nat (length ys + 2)) l =
     h5_step (now, Ev_Frame ys) l"
proof -
  let ?len = "of_nat (length ys + 2) :: u32"
  have len: "unat ?len = length ys + 2"
    using assms unat_of_nat [of "length ys + 2", where ?'a = 32] by (simp del: of_nat_add)
  have "HCI_Slip_DecodePacket (Some (SLIP_DELIMITER # ys @ SLIP_DELIMITER # rest)) ?len cb =
      HCI_Slip_DecodePacket (Some (SLIP_DELIMITER # ys @ SLIP_DELIMITER # [])) ?len cb" for cb
  proof (cases "?len < 6")
    case False
    have "(2 :: u32) \<le> ?len"
      unfolding word_le_nat_alt len by simp
    then have "unat (?len - 2) = length ys"
      unfolding unat_sub [OF \<open>2 \<le> ?len\<close>] len by simp
    then show ?thesis
      unfolding HCI_Slip_DecodePacket_def option.case
      using False slip_decode_loop_rest [OF \<open>unat (?len - 2) = length ys\<close>, of rest]
      by (simp del: of_nat_add)
  qed (simp add: HCI_Slip_DecodePacket_def del: of_nat_add)
  then show ?thesis
    unfolding h5_slip_input_def h5_step_def by simp
qed

text \<open>Handing a sequence of frames to the layers above.\<close>

definition h5_frames :: "u32 \<Rightarrow> u8 list list \<Rightarrow> h5 \<Rightarrow> h5 option" where
  "h5_frames now fs l = run h5_step (map (\<lambda>f. (now, Ev_Frame f)) fs) l"

lemma h5_frames_simps [simp]:
  "h5_frames now [] l = Some l"
  "h5_frames now (f # fs) l = do { l' \<leftarrow> h5_step (now, Ev_Frame f) l; h5_frames now fs l' }"
  by (simp_all add: h5_frames_def)

section \<open>The backup buffer\<close>

definition tr_pend :: "h5_tr \<Rightarrow> u8 list" where
  "tr_pend s = take (unat (trBackupCnt s)) (trBackupBuf s)"

definition tr_holds :: "h5_tr \<Rightarrow> u8 list option \<Rightarrow> bool" where
  "tr_holds s st \<longleftrightarrow> tr_pend s = (case st of None \<Rightarrow> [] | Some ys \<Rightarrow> SLIP_DELIMITER # ys)"

definition tr_cap :: "nat \<Rightarrow> h5_tr \<Rightarrow> bool" where
  "tr_cap lim s \<longleftrightarrow> 2 \<le> lim \<and> lim \<le> 255 \<and> lim \<le> length (trBackupBuf s) \<and>
     unat (trBackupCnt s) \<le> lim \<and> slipHandler s = Slip_DecodePacket"

definition tr_frame :: "h5_tr \<Rightarrow> h5_tr \<Rightarrow> bool" where
  "tr_frame s s' \<longleftrightarrow> trRxFifo s' = trRxFifo s \<and> trDmaOff s' = trDmaOff s"

lemma tr_frame_trans: "tr_frame a b \<Longrightarrow> tr_frame b c \<Longrightarrow> tr_frame a c"
  by (simp add: tr_frame_def)

lemma tr_timer_simps [simp]:
  "tr_pend (HCI_Tr_H5TimerEnable now s) = tr_pend s" "tr_cap lim (HCI_Tr_H5TimerEnable now s) = tr_cap lim s"
  "tr_frame r (HCI_Tr_H5TimerEnable now s) = tr_frame r s" "link (HCI_Tr_H5TimerEnable now s) = link s"
  "trBackupCnt (HCI_Tr_H5TimerEnable now s) = trBackupCnt s"
  by (simp_all add: HCI_Tr_H5TimerEnable_def tr_pend_def tr_cap_def tr_frame_def)

lemma tr_append_spec:
  assumes cap: "tr_cap lim s" and len: "length (tr_pend s) + 1 \<le> lim"
  obtains s' where "tr_append b s = Some s'" and "tr_pend s' = tr_pend s @ [b]" and "tr_cap lim s'"
    and "tr_frame s s'" and "link s' = link s" and "unat (trBackupCnt s') = unat (trBackupCnt s) + 1"
    and "slipHandler s' = slipHandler s"
proof -
  let ?c = "unat (trBackupCnt s)"
  have c: "length (tr_pend s) = ?c" "?c < length (trBackupBuf s)" "?c < 255"
    using cap len by (auto simp: tr_cap_def tr_pend_def)
  let ?s = "s\<lparr>trBackupBuf := (trBackupBuf s)[?c := b], trBackupCnt := trBackupCnt s + 1\<rparr>"
  have cnt: "unat (trBackupCnt s + 1) = ?c + 1"
    using c(3) by (simp add: unat_word_ariths)
  have "tr_append b s = Some ?s"
    using c(2) by (simp add: tr_append_def put_byte_def)
  moreover have "tr_pend ?s = tr_pend s @ [b]"
    using c(2) take_Suc_update [of ?c "trBackupBuf s" b] by (simp add: tr_pend_def cnt)
  moreover have "tr_cap lim ?s" "tr_frame s ?s"
    using cap len c by (auto simp: tr_cap_def tr_frame_def cnt)
  ultimately show ?thesis
    using that [of ?s] cnt by simp
qed

lemma tr_slip_handler_frame:
  assumes "slipHandler s = Slip_DecodePacket" and "unat len = length ys + 2"
  shows "tr_slip_handler now (SLIP_DELIMITER # ys @ SLIP_DELIMITER # rest) len s =
     map_option (\<lambda>l. s\<lparr>link := l\<rparr>) (h5_step (now, Ev_Frame ys) (link s))"
proof -
  have small: "length ys + 2 < 2 ^ 32"
    using assms(2) unat_bound(3) [of len] by simp
  have "len = of_nat (unat len)"
    by (rule word_nat_cases [of len]) (simp add: unat_of_nat)
  then have "len = of_nat (length ys + 2)"
    unfolding assms(2) .
  then show ?thesis
    using assms(1) h5_slip_input_rest [OF small, of now rest "link s"]
    by (simp only: tr_slip_handler_def slip_handler.case)
qed

text \<open>The outcome of the backup loop on \<open>data\<close> when the buffer holds a delimiter and \<open>ys\<close>: all bytes
  are kept, or a frame is completed with the first \<open>k\<close> of them.\<close>

definition h5_backup_spec ::
    "nat \<Rightarrow> u32 \<Rightarrow> u8 list \<Rightarrow> u8 list \<Rightarrow> u16 \<Rightarrow> h5_tr \<Rightarrow> (u16 \<times> h5_tr) option \<Rightarrow> bool" where
  "h5_backup_spec lim now ys data cnt s r \<longleftrightarrow>
     (\<exists>k s'. r = Some (cnt + of_nat k, s') \<and> k \<le> length data \<and> tr_cap lim s' \<and> tr_frame s s' \<and>
        (k = length data \<and> (\<exists>zs. slip_split (Some ys) data = ([], Some zs) \<and> tr_holds s' (Some zs)) \<and>
           link s' = link s \<or>
         (\<exists>f. slip_split (Some ys) data =
              (f # fst (slip_split None (drop k data)), snd (slip_split None (drop k data))) \<and>
            tr_holds s' None \<and> 0 < k \<and> h5_step (now, Ev_Frame f) (link s) = Some (link s'))))"

lemma h5_backup_spec_step:
  assumes "h5_backup_spec lim now zs data (cnt + 1) s1 r" and "tr_frame s s1" and "link s1 = link s"
    and "slip_split (Some ys) (b # data) = slip_split (Some zs) data"
  shows "h5_backup_spec lim now ys (b # data) cnt s r"
proof -
  obtain k s' where k: "r = Some (cnt + 1 + of_nat k, s')" "k \<le> length data" "tr_cap lim s'" "tr_frame s1 s'"
    and res: "k = length data \<and> (\<exists>us. slip_split (Some zs) data = ([], Some us) \<and> tr_holds s' (Some us)) \<and>
           link s' = link s1 \<or>
         (\<exists>f. slip_split (Some zs) data =
              (f # fst (slip_split None (drop k data)), snd (slip_split None (drop k data))) \<and>
            tr_holds s' None \<and> 0 < k \<and> h5_step (now, Ev_Frame f) (link s1) = Some (link s'))"
    using assms(1) unfolding h5_backup_spec_def by blast
  have "r = Some (cnt + of_nat (Suc k), s')"
    using k(1) by (simp add: algebra_simps)
  then show ?thesis
    using k res tr_frame_trans [OF assms(2) k(4)] assms(3,4) unfolding h5_backup_spec_def
    by (intro exI [of _ "Suc k"] exI [of _ s']) auto
qed

lemma h5_backup_loop_spec:
  assumes "tr_cap lim s" and "tr_holds s (Some ys)" and "n \<le> length mem"
    and "slip_fits lim (slip_split (Some ys) (take n mem))"
    and "h5_frames now (fst (slip_split (Some ys) (take n mem))) (link s) \<noteq> None"
  shows "h5_backup_spec lim now ys (take n mem) cnt s (h5_backup_loop now mem n cnt s)"
  using assms
proof (induction mem arbitrary: n cnt s ys)
  case Nil
  then show ?case
    by (auto simp: h5_backup_spec_def tr_frame_def)
next
  case (Cons b bs)
  show ?case
  proof (cases n)
    case 0
    then show ?thesis
      using Cons.prems by (auto simp: h5_backup_spec_def tr_frame_def)
  next
    case (Suc m)
    have m: "m \<le> length bs"
      using Cons.prems(3) Suc by simp
    have pend: "tr_pend s = SLIP_DELIMITER # ys"
      using Cons.prems(2) by (simp add: tr_holds_def)
    have cnt: "unat (trBackupCnt s) = length ys + 1"
      using arg_cong [OF pend, of length] Cons.prems(1) by (simp add: tr_pend_def tr_cap_def)
    have fits: "length (tr_pend s) + 1 \<le> lim"
      using slip_fits_some [OF Cons.prems(4)] pend by simp
    have room: "\<not> length (trBackupBuf s) < unat (trBackupCnt s) + 1"
      using fits pend cnt Cons.prems(1) by (simp add: tr_cap_def)
    obtain s1 where s1: "tr_append b s = Some s1" "tr_pend s1 = tr_pend s @ [b]" "tr_cap lim s1" "tr_frame s s1"
      "link s1 = link s" "unat (trBackupCnt s1) = unat (trBackupCnt s) + 1" "slipHandler s1 = slipHandler s"
      by (rule tr_append_spec [OF Cons.prems(1) fits])
    show ?thesis
    proof (cases "b = SLIP_DELIMITER")
      case False
      then have split: "slip_split (Some ys) (b # take m bs) = slip_split (Some (ys @ [b])) (take m bs)"
        by simp
      let ?s1 = "HCI_Tr_H5TimerEnable now s1"
      have "h5_backup_spec lim now (ys @ [b]) (take m bs) (cnt + 1) ?s1 (h5_backup_loop now bs m (cnt + 1) ?s1)"
        using Cons.prems(4,5) s1(2,3,5) pend split m
        by (intro Cons.IH) (simp_all add: tr_holds_def Suc)
      then have "h5_backup_spec lim now ys (b # take m bs) cnt s (h5_backup_loop now bs m (cnt + 1) ?s1)"
        by (rule h5_backup_spec_step [OF _ _ _ split]) (simp_all add: s1(4,5))
      moreover have "h5_backup_loop now (b # bs) n cnt s = h5_backup_loop now bs m (cnt + 1) ?s1"
        using False room s1(1) by (simp add: Suc SLIP_DELIMITER_def)
      ultimately show ?thesis
        by (simp add: Suc)
    next
      case True
      show ?thesis
      proof (cases "ys = []")
        case nil: True
        then have split: "slip_split (Some ys) (b # take m bs) = slip_split (Some []) (take m bs)"
          by (simp add: True)
        have one: "trBackupCnt s = 1"
          using cnt nil by (simp add: word_unat_eq_iff)
        have "h5_backup_spec lim now [] (take m bs) (cnt + 1) s (h5_backup_loop now bs m (cnt + 1) s)"
          using Cons.prems split nil m by (intro Cons.IH) (simp_all add: Suc)
        then have "h5_backup_spec lim now ys (b # take m bs) cnt s (h5_backup_loop now bs m (cnt + 1) s)"
          by (rule h5_backup_spec_step [OF _ _ _ split]) (simp_all add: tr_frame_def)
        moreover have "h5_backup_loop now (b # bs) n cnt s = h5_backup_loop now bs m (cnt + 1) s"
          using True room one by (simp add: Suc SLIP_DELIMITER_def)
        ultimately show ?thesis
          by (simp add: Suc)
      next
        case ne: False
        then have split: "slip_split (Some ys) (b # take m bs) =
            (ys # fst (slip_split None (take m bs)), snd (slip_split None (take m bs)))"
          by (simp add: True split: prod.split)
        have not_one: "trBackupCnt s \<noteq> 1"
          using cnt ne by auto
        have "h5_frames now (ys # fst (slip_split None (take m bs))) (link s) \<noteq> None"
          using Cons.prems(5) unfolding Suc take_Suc_Cons split by simp
        then obtain l where l: "h5_step (now, Ev_Frame ys) (link s) = Some l"
          by (cases "h5_step (now, Ev_Frame ys) (link s)") auto
        have "take (length ys + 2) (trBackupBuf s1) = SLIP_DELIMITER # ys @ [SLIP_DELIMITER]"
          using s1(2,6) pend cnt True by (simp add: tr_pend_def)
        then have buf: "trBackupBuf s1 = SLIP_DELIMITER # ys @ SLIP_DELIMITER # drop (length ys + 2) (trBackupBuf s1)"
          by (metis append_Cons append.assoc append_Nil append_take_drop_id)
        have handler: "slipHandler s1 = Slip_DecodePacket"
          using Cons.prems(1) s1(7) by (simp add: tr_cap_def)
        have "unat (ucast (trBackupCnt s1) :: u32) = length ys + 2"
          using s1(6) cnt unat_bound(1) [of "trBackupCnt s1"]
          by (simp add: unsigned_ucast_eq take_bit_nat_eq_self)
        then have "tr_slip_handler now (trBackupBuf s1) (ucast (trBackupCnt s1)) s1 = Some (s1\<lparr>link := l\<rparr>)"
          using tr_slip_handler_frame [OF handler, of "ucast (trBackupCnt s1)" ys now
              "drop (length ys + 2) (trBackupBuf s1)"] buf l s1(5) by simp
        then have "h5_backup_loop now (b # bs) n cnt s =
            Some (cnt + 1, HCI_Tr_H5TimerDisable (s1\<lparr>link := l, trBackupCnt := 0\<rparr>))"
          using True room s1(1) not_one by (simp add: Suc SLIP_DELIMITER_def)
        moreover have "tr_cap lim (HCI_Tr_H5TimerDisable (s1\<lparr>link := l, trBackupCnt := 0\<rparr>))"
          "tr_frame s (HCI_Tr_H5TimerDisable (s1\<lparr>link := l, trBackupCnt := 0\<rparr>))"
          "tr_holds (HCI_Tr_H5TimerDisable (s1\<lparr>link := l, trBackupCnt := 0\<rparr>)) None"
          using s1(3,4) by (simp_all add: HCI_Tr_H5TimerDisable_def tr_cap_def tr_frame_def tr_holds_def tr_pend_def)
        ultimately show ?thesis
          using split l m unfolding h5_backup_spec_def
          by (intro exI [of _ 1] exI [of _ "HCI_Tr_H5TimerDisable (s1\<lparr>link := l, trBackupCnt := 0\<rparr>)"])
            (simp add: Suc HCI_Tr_H5TimerDisable_def)
      qed
    qed
  qed
qed

lemma HCI_Tr_H5BackupHandler_continue:
  assumes cap: "tr_cap lim s" and holds: "tr_holds s (Some ys)" and data: "get_bytes pPacket 0 (unat len) = Some data"
    and fits: "slip_fits lim (slip_split (Some ys) data)"
    and ok: "h5_frames now (fst (slip_split (Some ys) data)) (link s) \<noteq> None" and small: "unat len < 256"
  obtains k s' where "HCI_Tr_H5BackupHandler now pPacket len s = Some (of_nat k, s')" and "k \<le> length data"
    and "tr_cap lim s'" and "tr_frame s s'"
    and "k = length data \<and> (\<exists>zs. slip_split (Some ys) data = ([], Some zs) \<and> tr_holds s' (Some zs)) \<and>
           link s' = link s \<or>
         (\<exists>f. slip_split (Some ys) data =
              (f # fst (slip_split None (drop k data)), snd (slip_split None (drop k data))) \<and>
            tr_holds s' None \<and> 0 < k \<and> h5_step (now, Ev_Frame f) (link s) = Some (link s'))"
proof -
  have data': "data = take (unat len) pPacket" "unat len \<le> length pPacket"
    using data by (auto simp: get_bytes_def split: if_splits)
  have cnt: "trBackupCnt s \<noteq> 0"
    using holds by (auto simp: tr_holds_def tr_pend_def)
  have "h5_backup_spec lim now ys data 0 s (h5_backup_loop now pPacket (unat len) 0 s)"
    using h5_backup_loop_spec [OF cap holds data'(2)] fits ok by (simp flip: data'(1))
  then obtain k s' where loop: "h5_backup_loop now pPacket (unat len) 0 s = Some (of_nat k, s')"
      "k \<le> length data" "tr_cap lim s'" "tr_frame s s'"
    and res: "k = length data \<and> (\<exists>zs. slip_split (Some ys) data = ([], Some zs) \<and> tr_holds s' (Some zs)) \<and>
           link s' = link s \<or>
         (\<exists>f. slip_split (Some ys) data =
              (f # fst (slip_split None (drop k data)), snd (slip_split None (drop k data))) \<and>
            tr_holds s' None \<and> 0 < k \<and> h5_step (now, Ev_Frame f) (link s) = Some (link s'))"
    unfolding h5_backup_spec_def by auto
  have "k < 256"
    using loop(2) get_bytes_length [OF data] small by simp
  then have "(ucast (of_nat k :: u16) :: u32) = of_nat k"
    by (simp add: word_unat_eq_iff unsigned_ucast_eq unat_of_nat take_bit_nat_eq_self)
  then have "HCI_Tr_H5BackupHandler now pPacket len s = Some (of_nat k, s')"
    using cnt loop(1) by (simp add: HCI_Tr_H5BackupHandler_def)
  from that [OF this loop(2-4) res] show ?thesis .
qed

text \<open>Outside a frame the handler starts a new backup.\<close>

lemma HCI_Tr_H5BackupHandler_start:
  assumes cap: "tr_cap lim s" and holds: "tr_holds s None"
    and data: "get_bytes pPacket 0 (unat len) = Some (SLIP_DELIMITER # ys)" and len: "length ys + 2 \<le> lim"
  obtains s' where "HCI_Tr_H5BackupHandler now pPacket len s = Some (len, s')" and "tr_cap lim s'"
    and "tr_frame s s'" and "tr_holds s' (Some ys)" and "link s' = link s"
proof -
  have cnt: "trBackupCnt s = 0"
    using cap holds by (auto simp: tr_holds_def tr_pend_def tr_cap_def word_unat_eq_iff)
  have n: "unat len = length ys + 1"
    using get_bytes_length [OF data] by simp
  have lim: "lim \<le> 255" "lim \<le> length (trBackupBuf s)"
    using cap by (simp_all add: tr_cap_def)
  let ?buf = "(SLIP_DELIMITER # ys) @ drop (length ys + 1) (trBackupBuf s)"
  let ?s = "s\<lparr>trBackupBuf := ?buf, trBackupCnt := ucast len\<rparr>"
  have c: "unat (ucast len :: u8) = length ys + 1"
    using n len lim by (simp add: unsigned_ucast_eq take_bit_nat_eq_self)
  have "put_bytes (trBackupBuf s) 0 (SLIP_DELIMITER # ys) = Some ?buf"
    using len lim by (simp add: put_bytes_def)
  moreover have "\<not> length (trBackupBuf s) < unat len"
    using n len lim by simp
  ultimately have "HCI_Tr_H5BackupHandler now pPacket len s = Some (len, HCI_Tr_H5TimerEnable now ?s)"
    using cnt data by (simp add: HCI_Tr_H5BackupHandler_def)
  moreover have "tr_cap lim ?s" "tr_frame s ?s" "tr_pend ?s = SLIP_DELIMITER # ys"
    using cap len lim by (simp_all add: tr_cap_def tr_frame_def tr_pend_def c)
  ultimately show ?thesis
    by (intro that [of "HCI_Tr_H5TimerEnable now ?s"]) (simp_all add: tr_holds_def)
qed

section \<open>The receive loop\<close>

definition h5_rx_switch :: "u32 \<Rightarrow> u8 list \<Rightarrow> u32 \<Rightarrow> h5_tr \<Rightarrow> h5_tr option" where
  "h5_rx_switch now pPacket len s =
     Option.bind (HCI_Tr_H5FindSlipHeadFlag pPacket (unat len)) (\<lambda>pBuf.
       case pBuf of
         None \<Rightarrow> Some s
       | Some off \<Rightarrow>
           (let pPacket = drop off pPacket; len = len - of_nat off in
            Option.bind (HCI_Tr_H5FindSlipFlag (drop 1 pPacket) (unat (len - 1))) (\<lambda>pBuf2.
              case pBuf2 of
                None \<Rightarrow> map_option snd (HCI_Tr_H5BackupHandler now pPacket len s)
              | Some k \<Rightarrow>
                  if len = 1 then map_option snd (HCI_Tr_H5BackupHandler now pPacket len s)
                  else
                    (let slipLen = (of_nat (k + 2) :: u16) in
                     if slipLen < 6 then
                       h5_rx_loop now (drop (unat slipLen) pPacket) (len - ucast slipLen) s
                     else
                       Option.bind (tr_slip_handler now pPacket (ucast slipLen) s) (\<lambda>s1.
                         h5_rx_loop now (drop (unat slipLen) pPacket) (len - ucast slipLen) s1)))))"

lemma h5_rx_loop_0 [simp]: "h5_rx_loop now pPacket 0 s = Some s"
  by (subst h5_rx_loop.simps) simp

lemma h5_rx_loop_direct:
  "len \<noteq> 0 \<Longrightarrow> trBackupCnt s = 0 \<Longrightarrow> h5_rx_loop now pPacket len s = h5_rx_switch now pPacket len s"
  by (subst h5_rx_loop.simps)
    (auto simp: h5_rx_switch_def Let_def split: option.split intro!: Option.bind_cong)

lemma h5_rx_loop_backup:
  assumes "len \<noteq> 0" and "trBackupCnt s \<noteq> 0"
    and "HCI_Tr_H5BackupHandler now pPacket len s = Some (res, s')"
  shows "h5_rx_loop now pPacket len s =
     h5_rx_switch now (drop (unat (ucast res :: u8)) pPacket) (len - ucast (ucast res :: u8)) s'"
  using assms
  by (subst h5_rx_loop.simps)
    (auto simp: h5_rx_switch_def Let_def split: option.split intro!: Option.bind_cong)

definition h5_loop_spec :: "nat \<Rightarrow> u32 \<Rightarrow> u8 list option \<Rightarrow> u8 list \<Rightarrow> h5_tr \<Rightarrow> h5_tr option \<Rightarrow> bool" where
  "h5_loop_spec lim now st data s r \<longleftrightarrow>
     (\<exists>s'. r = Some s' \<and> tr_holds s' (snd (slip_split st data)) \<and> tr_cap lim s' \<and> tr_frame s s' \<and>
        h5_frames now (fst (slip_split st data)) (link s) = Some (link s'))"

lemma tr_cnt_0: "tr_cap lim s \<Longrightarrow> tr_holds s None \<Longrightarrow> trBackupCnt s = 0"
  by (auto simp: tr_holds_def tr_pend_def tr_cap_def word_unat_eq_iff)

text \<open>A frame in the slot itself.\<close>

lemma h5_rx_switch_frame:
  assumes cap: "tr_cap lim s" and holds: "tr_holds s None"
    and mem: "pPacket = SLIP_DELIMITER # ys @ SLIP_DELIMITER # rest" and k: "length ys < 65000"
    and step: "h5_step (now, Ev_Frame ys) (link s) = Some l"
    and IH: "\<And>s1. tr_cap lim s1 \<Longrightarrow> tr_holds s1 None \<Longrightarrow> link s1 = l \<Longrightarrow> tr_frame s s1 \<Longrightarrow> Q (h5_rx_loop now rest len' s1)"
    and len': "len' = len - ucast (of_nat (length ys + 2) :: u16)"
  shows "Q (let slipLen = (of_nat (length ys + 2) :: u16) in
     if slipLen < 6 then h5_rx_loop now (drop (unat slipLen) pPacket) (len - ucast slipLen) s
     else Option.bind (tr_slip_handler now pPacket (ucast slipLen) s) (\<lambda>s1.
            h5_rx_loop now (drop (unat slipLen) pPacket) (len - ucast slipLen) s1))"
proof -
  let ?n = "of_nat (length ys + 2) :: u16"
  have n: "unat ?n = length ys + 2"
    using k unat_of_nat [of "length ys + 2", where ?'a = 16] by (simp del: of_nat_add)
  have n32: "unat (ucast ?n :: u32) = length ys + 2"
    unfolding unsigned_ucast_eq n using k by (simp add: take_bit_nat_eq_self)
  have drop: "drop (unat ?n) pPacket = rest"
    unfolding n mem by simp
  show ?thesis
  proof (cases "length ys < 4")
    case True
    then have "?n < 6"
      unfolding word_less_nat_alt n by simp
    moreover have "link s = l"
      using step h5_step_short [OF True] by simp
    ultimately show ?thesis
      using IH [of s] cap holds len' drop by (simp add: Let_def tr_frame_def del: of_nat_add)
  next
    case False
    then have "\<not> ?n < 6"
      unfolding word_less_nat_alt n by simp
    moreover have "slipHandler s = Slip_DecodePacket"
      using cap by (simp add: tr_cap_def)
    then have "tr_slip_handler now pPacket (ucast ?n) s = Some (s\<lparr>link := l\<rparr>)"
      unfolding mem using tr_slip_handler_frame [OF _ n32] step by simp
    moreover have "Q (h5_rx_loop now rest len' (s\<lparr>link := l\<rparr>))"
      using cap holds by (intro IH) (simp_all add: tr_cap_def tr_holds_def tr_pend_def tr_frame_def)
    ultimately show ?thesis
      using len' drop by (simp add: Let_def del: of_nat_add)
  qed
qed

lemma h5_rx_switch_spec:
  assumes cap: "tr_cap lim s" and holds: "tr_holds s None"
    and data: "get_bytes pPacket 0 (unat len) = Some data"
    and fits: "slip_fits lim (slip_split None data)"
    and ok: "h5_frames now (fst (slip_split None data)) (link s) \<noteq> None"
    and IH: "\<And>pPacket' len' s' data'. length data' < length data \<Longrightarrow> tr_cap lim s' \<Longrightarrow> tr_holds s' None \<Longrightarrow>
      get_bytes pPacket' 0 (unat len') = Some data' \<Longrightarrow> slip_fits lim (slip_split None data') \<Longrightarrow>
      h5_frames now (fst (slip_split None data')) (link s') \<noteq> None \<Longrightarrow>
      h5_loop_spec lim now None data' s' (h5_rx_loop now pPacket' len' s')"
  shows "h5_loop_spec lim now None data s (h5_rx_switch now pPacket len s)"
proof -
  have data': "data = take (unat len) pPacket" "unat len \<le> length pPacket"
    using data by (auto simp: get_bytes_def split: if_splits)
  have dlen: "length data = unat len"
    by (rule get_bytes_length [OF data])
  consider (none) "HCI_Tr_H5FindSlipHeadFlag pPacket (unat len) = Some None" "slip_split None data = ([], None)"
    | (head) off where "HCI_Tr_H5FindSlipHeadFlag pPacket (unat len) = Some (Some off)" "off < unat len"
        "pPacket ! off = SLIP_DELIMITER" "Suc off = unat len \<or> pPacket ! Suc off \<noteq> SLIP_DELIMITER"
        "slip_split None data = slip_split (Some []) (drop (Suc off) data)"
    using HCI_Tr_H5FindSlipHeadFlag_spec [OF data'(2)] unfolding data'(1) by blast
  then show ?thesis
  proof cases
    case none
    then have "h5_rx_switch now pPacket len s = Some s"
      by (simp add: h5_rx_switch_def)
    then show ?thesis
      using none(2) cap holds by (simp add: h5_loop_spec_def tr_frame_def)
  next
    case head
    let ?p = "drop off pPacket" and ?len = "len - of_nat off" and ?rest = "drop (Suc off) data"
    have off32: "unat (of_nat off :: u32) = off"
      using head(2) unat_bound(3) [of len] by (simp add: unat_of_nat)
    have len': "unat ?len = unat len - off"
      using head(2) by (simp add: unat_sub word_le_nat_alt off32)
    have len1: "unat (?len - 1) = unat len - Suc off"
      using head(2) by (simp add: unat_sub word_le_nat_alt len')
    have p: "?p = SLIP_DELIMITER # drop (Suc off) pPacket"
      using head(2,3) data'(2) Cons_nth_drop_Suc [of off pPacket] by simp
    have rest: "?rest = take (unat len - Suc off) (drop (Suc off) pPacket)" "length ?rest = unat len - Suc off"
      using dlen by (simp_all add: data'(1) drop_take)
    have bound: "unat len - Suc off \<le> length (drop (Suc off) pPacket)"
      using data'(2) head(2) by simp
    have sw: "h5_rx_switch now pPacket len s =
        Option.bind (HCI_Tr_H5FindSlipFlag (drop (Suc off) pPacket) (unat len - Suc off)) (\<lambda>pBuf2.
          case pBuf2 of
            None \<Rightarrow> map_option snd (HCI_Tr_H5BackupHandler now ?p ?len s)
          | Some k \<Rightarrow>
              if ?len = 1 then map_option snd (HCI_Tr_H5BackupHandler now ?p ?len s)
              else
                (let slipLen = (of_nat (k + 2) :: u16) in
                 if slipLen < 6 then h5_rx_loop now (drop (unat slipLen) ?p) (?len - ucast slipLen) s
                 else Option.bind (tr_slip_handler now ?p (ucast slipLen) s) (\<lambda>s1.
                        h5_rx_loop now (drop (unat slipLen) ?p) (?len - ucast slipLen) s1)))"
      unfolding h5_rx_switch_def head(1) bind.bind_lunit option.case Let_def len1 by simp
    consider (none) "HCI_Tr_H5FindSlipFlag (drop (Suc off) pPacket) (unat len - Suc off) = Some None"
        "SLIP_DELIMITER \<notin> set ?rest"
      | (flag) k where "HCI_Tr_H5FindSlipFlag (drop (Suc off) pPacket) (unat len - Suc off) = Some (Some k)"
        "k < unat len - Suc off" "drop (Suc off) pPacket ! k = SLIP_DELIMITER"
        "SLIP_DELIMITER \<notin> set (take k (drop (Suc off) pPacket))"
      using HCI_Tr_H5FindSlipFlag_spec [OF bound] unfolding rest(1) by blast
    then show ?thesis
    proof cases
      case none
      have split: "slip_split None data = ([], Some ?rest)"
        unfolding head(5) using slip_split_no_delimiter [OF none(2), of "[]"] by simp
      have bytes: "get_bytes ?p 0 (unat ?len) = Some (SLIP_DELIMITER # ?rest)"
      proof -
        have "unat len - off = Suc (unat len - Suc off)"
          using head(2) by simp
        then show ?thesis
          using bound unfolding p len' rest(1) by (simp add: get_bytes_def)
      qed
      have "length ?rest + 2 \<le> lim"
        using fits split by (simp add: slip_fits_def)
      then obtain s' where "HCI_Tr_H5BackupHandler now ?p ?len s = Some (?len, s')" "tr_cap lim s'"
        "tr_frame s s'" "tr_holds s' (Some ?rest)" "link s' = link s"
        by (rule HCI_Tr_H5BackupHandler_start [OF cap holds bytes])
      then show ?thesis
        unfolding sw none(1) by (simp add: h5_loop_spec_def split)
    next
      case (flag k)
      let ?ys = "take k (drop (Suc off) pPacket)" and ?r = "drop (Suc k) (drop (Suc off) pPacket)"
      let ?data = "drop (Suc k) ?rest"
      have ys: "length ?ys = k" "?ys = take k ?rest"
        using flag(2) bound by (simp_all add: rest(1))
      have mem: "?p = SLIP_DELIMITER # ?ys @ SLIP_DELIMITER # ?r"
        unfolding p using flag(2,3) bound id_take_nth_drop [of k "drop (Suc off) pPacket"] by simp
      have ne: "?ys \<noteq> []"
      proof
        assume "?ys = []"
        then have "k = 0"
          using ys(1) by (metis list.size(3))
        then have "drop (Suc off) pPacket ! 0 = SLIP_DELIMITER" "Suc off \<noteq> unat len"
          using flag(2,3) by simp_all
        then show False
          using head(4) bound flag(2) by simp
      qed
      have rest_eq: "?rest = ?ys @ SLIP_DELIMITER # ?data"
      proof -
        have "?rest ! k = SLIP_DELIMITER" "k < length ?rest"
          using flag(2,3) rest(2) by (simp_all add: rest(1))
        then show ?thesis
          using id_take_nth_drop [of k ?rest] by (simp add: ys(2))
      qed
      have "slip_split (Some []) (?ys @ SLIP_DELIMITER # ?data) =
          (([] @ ?ys) # fst (slip_split None ?data), snd (slip_split None ?data))"
        by (rule slip_split_frame [OF flag(4)]) (use ne in simp)
      then have split: "slip_split None data = (?ys # fst (slip_split None ?data), snd (slip_split None ?data))"
        by (simp only: head(5) rest_eq [symmetric] append_Nil)
      have small: "length ?ys < 65000"
        using fits split cap by (auto simp: slip_fits_def tr_cap_def)
      obtain l where l: "h5_step (now, Ev_Frame ?ys) (link s) = Some l"
          "h5_frames now (fst (slip_split None ?data)) l \<noteq> None"
        using ok unfolding split by (cases "h5_step (now, Ev_Frame ?ys) (link s)") auto
      have n: "unat (of_nat (k + 2) :: u16) = k + 2"
        using small ys(1) unat_of_nat [of "k + 2", where ?'a = 16] by (simp del: of_nat_add)
      have n32: "unat (ucast (of_nat (k + 2) :: u16) :: u32) = k + 2"
        unfolding unsigned_ucast_eq n using small ys(1) by (simp add: take_bit_nat_eq_self)
      let ?len2 = "?len - ucast (of_nat (length ?ys + 2) :: u16)"
      have len2: "unat ?len2 = unat len - off - (k + 2)"
      proof -
        have le: "ucast (of_nat (k + 2) :: u16) \<le> ?len"
          unfolding word_le_nat_alt n32 len' using flag(2) by simp
        show ?thesis
          unfolding ys(1) unat_sub [OF le] n32 len' ..
      qed
      have bytes: "get_bytes ?r 0 (unat ?len2) = Some ?data"
        using flag(2) bound unfolding len2 rest(1) by (simp add: get_bytes_def drop_take)
      have not1: "?len \<noteq> 1"
        using flag(2) len' by (auto simp: word_unat_eq_iff)
      have "h5_loop_spec lim now None data s
        (let slipLen = (of_nat (length ?ys + 2) :: u16) in
         if slipLen < 6 then h5_rx_loop now (drop (unat slipLen) ?p) (?len - ucast slipLen) s
         else Option.bind (tr_slip_handler now ?p (ucast slipLen) s) (\<lambda>s1.
                h5_rx_loop now (drop (unat slipLen) ?p) (?len - ucast slipLen) s1))"
      proof (rule h5_rx_switch_frame [OF cap holds mem small l(1) _ refl])
        fix s1 assume s1: "tr_cap lim s1" "tr_holds s1 None" "link s1 = l" "tr_frame s s1"
        have "h5_loop_spec lim now None ?data s1 (h5_rx_loop now ?r ?len2 s1)"
        proof (rule IH [OF _ s1(1,2) bytes])
          show "length ?data < length data"
            using head(2) dlen by simp
          show "slip_fits lim (slip_split None ?data)"
            using fits split slip_fits_tail [of lim ?ys "fst (slip_split None ?data)"] by simp
        qed (use l(2) s1(3) in simp)
        then show "h5_loop_spec lim now None data s (h5_rx_loop now ?r ?len2 s1)"
          using l(1) s1(3,4) tr_frame_trans by (fastforce simp: h5_loop_spec_def split)
      qed
      then show ?thesis
        unfolding sw flag(1) bind.bind_lunit option.case using not1 by (simp only: ys(1) if_False)
    qed
  qed
qed

lemma h5_rx_loop_outside:
  assumes "tr_cap lim s" and "tr_holds s None" and "get_bytes pPacket 0 (unat len) = Some data"
    and "slip_fits lim (slip_split None data)"
    and "h5_frames now (fst (slip_split None data)) (link s) \<noteq> None"
  shows "h5_loop_spec lim now None data s (h5_rx_loop now pPacket len s)"
  using assms
proof (induction "length data" arbitrary: pPacket len s data rule: less_induct)
  case less
  show ?case
  proof (cases "len = 0")
    case True
    then have "data = []"
      using get_bytes_length [OF less.prems(3)] by simp
    then show ?thesis
      using True less.prems(1,2) by (simp add: h5_loop_spec_def tr_frame_def)
  next
    case False
    have "h5_loop_spec lim now None data s (h5_rx_switch now pPacket len s)"
      by (rule h5_rx_switch_spec [OF less.prems]) (rule less.hyps)
    then show ?thesis
      using h5_rx_loop_direct [OF False] tr_cnt_0 [OF less.prems(1,2)] by simp
  qed
qed

lemma h5_rx_loop_correct:
  assumes cap: "tr_cap lim s" and holds: "tr_holds s st" and data: "get_bytes pPacket 0 (unat len) = Some data"
    and fits: "slip_fits lim (slip_split st data)"
    and ok: "h5_frames now (fst (slip_split st data)) (link s) \<noteq> None" and small: "unat len < 256"
  shows "h5_loop_spec lim now st data s (h5_rx_loop now pPacket len s)"
proof (cases st)
  case None
  then show ?thesis
    using h5_rx_loop_outside [OF cap _ data] holds fits ok by simp
next
  case (Some ys)
  show ?thesis
  proof (cases "len = 0")
    case True
    then have "data = []"
      using get_bytes_length [OF data] by simp
    then show ?thesis
      using True cap holds by (simp add: h5_loop_spec_def tr_frame_def)
  next
    case False
    have dlen: "length data = unat len"
      by (rule get_bytes_length [OF data])
    obtain k s1 where s1: "HCI_Tr_H5BackupHandler now pPacket len s = Some (of_nat k, s1)" "k \<le> length data"
        "tr_cap lim s1" "tr_frame s s1"
      and res: "k = length data \<and> (\<exists>zs. slip_split (Some ys) data = ([], Some zs) \<and> tr_holds s1 (Some zs)) \<and>
           link s1 = link s \<or>
         (\<exists>f. slip_split (Some ys) data =
              (f # fst (slip_split None (drop k data)), snd (slip_split None (drop k data))) \<and>
            tr_holds s1 None \<and> 0 < k \<and> h5_step (now, Ev_Frame f) (link s) = Some (link s1))"
      by (rule HCI_Tr_H5BackupHandler_continue [OF cap holds [unfolded Some] data
            fits [unfolded Some] ok [unfolded Some] small])
    have cnt: "trBackupCnt s \<noteq> 0"
      using holds by (auto simp: Some tr_holds_def tr_pend_def)
    have k8: "unat (ucast (of_nat k :: u32) :: u8) = k"
    proof -
      have u: "unat (of_nat k :: u32) = k"
        using s1(2) small dlen by (simp add: unat_of_nat)
      show ?thesis
        unfolding unsigned_ucast_eq u using s1(2) small dlen by (simp add: take_bit_nat_eq_self)
    qed
    have k32: "unat (ucast (ucast (of_nat k :: u32) :: u8) :: u32) = k"
      unfolding unsigned_ucast_eq [of "ucast (of_nat k :: u32) :: u8"] k8
      using s1(2) small dlen by (simp add: take_bit_nat_eq_self)
    let ?len = "len - ucast (ucast (of_nat k :: u32) :: u8)"
    have le: "ucast (ucast (of_nat k :: u32) :: u8) \<le> len"
      unfolding word_le_nat_alt k32 using s1(2) dlen by simp
    have len': "unat ?len = unat len - k"
      unfolding unat_sub [OF le] k32 ..
    have loop: "h5_rx_loop now pPacket len s = h5_rx_switch now (drop k pPacket) ?len s1"
      using h5_rx_loop_backup [OF False cnt s1(1)] by (simp only: k8)
    have data1: "get_bytes (drop k pPacket) 0 (unat ?len) = Some (drop k data)"
      using data s1(2) dlen unfolding len' by (auto simp: get_bytes_def drop_take split: if_splits)
    from res show ?thesis
    proof
      assume kept: "k = length data \<and> (\<exists>zs. slip_split (Some ys) data = ([], Some zs) \<and> tr_holds s1 (Some zs)) \<and>
           link s1 = link s"
      then have "unat ?len = 0"
        using len' dlen by simp
      then have "h5_rx_switch now (drop k pPacket) ?len s1 = Some s1"
        by (simp add: h5_rx_switch_def)
      then show ?thesis
        using kept s1(3,4) unfolding loop by (auto simp: h5_loop_spec_def Some)
    next
      assume "\<exists>f. slip_split (Some ys) data =
              (f # fst (slip_split None (drop k data)), snd (slip_split None (drop k data))) \<and>
            tr_holds s1 None \<and> 0 < k \<and> h5_step (now, Ev_Frame f) (link s) = Some (link s1)"
      then obtain f where f: "slip_split (Some ys) data =
              (f # fst (slip_split None (drop k data)), snd (slip_split None (drop k data)))"
          "tr_holds s1 None" "h5_step (now, Ev_Frame f) (link s) = Some (link s1)"
        by blast
      have "h5_loop_spec lim now None (drop k data) s1 (h5_rx_switch now (drop k pPacket) ?len s1)"
      proof (rule h5_rx_switch_spec [OF s1(3) f(2) data1])
        show "slip_fits lim (slip_split None (drop k data))"
          using fits slip_fits_tail [of lim f "fst (slip_split None (drop k data))"] by (simp add: Some f(1))
        show "h5_frames now (fst (slip_split None (drop k data))) (link s1) \<noteq> None"
          using ok f(3) by (simp add: Some f(1))
      qed (rule h5_rx_loop_outside)
      then show ?thesis
        unfolding loop using f s1(4) tr_frame_trans by (fastforce simp: h5_loop_spec_def Some)
    qed
  qed
qed

end
