(* ===== verification/H5_Stream.thy ===== *)
theory H5_Stream
  imports H5_Frames H5_Theorems
begin

text \<open>
  The H5 transport from the UART up: bursts of bytes arrive in the DMA ring, the receive handler
  hands the frames in them to the link layer.  The theorem lifts the receive loop to any division
  of the byte stream into bursts.
\<close>

section \<open>Bursts\<close>

definition tr_burst :: "u32 \<times> u8 list \<Rightarrow> h5_tr \<Rightarrow> h5_tr option" where
  "tr_burst b s =
     do { s1 \<leftarrow> tr_dma (snd b) s; s2 \<leftarrow> HCI_Tr_H5IRQHandler True False s1; HCI_Tr_H5RxHandler (fst b) s2 }"

definition tr_ring :: "h5_tr \<Rightarrow> bool" where
  "tr_ring s \<longleftrightarrow> fifo_wf (trRxFifo s) \<and> wptr (trRxFifo s) = rptr (trRxFifo s) \<and>
     trDmaOff s = fifo_slot (trRxFifo s) (wptr (trRxFifo s))"

text \<open>A burst is not empty, fits its slot with its length in front, and comes before the flush
  timer expires.\<close>

definition tr_env :: "u32 \<times> u8 list \<Rightarrow> h5_tr \<Rightarrow> bool" where
  "tr_env b s \<longleftrightarrow> snd b \<noteq> [] \<and> length (snd b) + 4 \<le> unat (fsize (trRxFifo s)) \<and> length (snd b) < 256 \<and>
     HCI_Tr_H5FlushHandler (fst b) s = s"

text \<open>The frames of a sequence of bursts, as events of the link layer.\<close>

fun stream_frames :: "u8 list option \<Rightarrow> (u32 \<times> u8 list) list \<Rightarrow> (u32 \<times> h5_event) list" where
  "stream_frames st [] = []"
| "stream_frames st ((now, xs) # bs) =
     map (\<lambda>f. (now, Ev_Frame f)) (fst (slip_split st xs)) @ stream_frames (snd (slip_split st xs)) bs"

text \<open>They are the frames of the whole byte stream.\<close>

lemma stream_frames_split:
  "map snd (stream_frames st bs) = map Ev_Frame (fst (slip_split st (concat (map snd bs))))"
proof (induction st bs rule: stream_frames.induct)
  case (2 st now xs bs)
  then show ?case
    by (simp add: slip_split_append [of st xs] o_def)
qed simp

lemma slip_fits_prefix:
  assumes "slip_fits lim (slip_split st (xs @ ys))"
  shows "slip_fits lim (slip_split st xs)" and "slip_fits lim (slip_split (snd (slip_split st xs)) ys)"
proof -
  have all: "slip_fits lim (fst (slip_split st xs) @ fst (slip_split (snd (slip_split st xs)) ys),
      snd (slip_split (snd (slip_split st xs)) ys))"
    using assms by (simp add: slip_split_append [of st])
  then show rest: "slip_fits lim (slip_split (snd (slip_split st xs)) ys)"
    by (simp add: slip_fits_def)
  show "slip_fits lim (slip_split st xs)"
  proof (cases "snd (slip_split st xs)")
    case (Some zs)
    then show ?thesis
      using all rest slip_fits_some [of lim zs ys] by (simp add: slip_fits_def)
  qed (use all in \<open>simp add: slip_fits_def\<close>)
qed

lemma tr_burst_spec:
  assumes cap: "tr_cap lim s" and holds: "tr_holds s st" and ring: "tr_ring s" and env: "tr_env (now, xs) s"
    and fits: "slip_fits lim (slip_split st xs)"
    and frames: "h5_frames now (fst (slip_split st xs)) (link s) = Some l"
  shows "\<exists>s'. tr_burst (now, xs) s = Some s' \<and> tr_cap lim s' \<and> tr_holds s' (snd (slip_split st xs)) \<and>
     tr_ring s' \<and> link s' = l"
proof -
  let ?f = "trRxFifo s" and ?n = "length xs" and ?o = "fifo_slot (trRxFifo s) (wptr (trRxFifo s))"
  have wf: "fifo_wf ?f" and eq: "wptr ?f = rptr ?f" "trDmaOff s = ?o"
    using ring by (simp_all add: tr_ring_def)
  have ne: "xs \<noteq> []" and fit: "?n + 4 \<le> unat (fsize ?f)" and flush: "HCI_Tr_H5FlushHandler now s = s"
    and small: "?n < 256"
    using env by (simp_all add: tr_env_def)
  have n32: "unat (of_nat ?n :: u32) = ?n"
    using small by (simp add: unat_of_nat)
  let ?hd = "UINT32_TO_BSTREAM (of_nat ?n) :: u8 list"
  have slot: "?o + unat (fsize ?f) \<le> length (fp ?f)"
    by (rule fifo_slot_fits [OF wf])
  let ?b = "take ?o (fp ?f) @ (?hd @ xs) @ drop (?o + 4 + ?n) (fp ?f)"
  let ?s1 = "s\<lparr>trRxFifo := ?f\<lparr>fp := ?b\<rparr>\<rparr>"
  have dma: "tr_dma xs s = Some ?s1"
    using slot fit by (simp add: tr_dma_def put_bytes_def eq(2) add.assoc)
  have off: "fifo_slot (?f\<lparr>fp := b\<rparr>) p = fifo_slot ?f p" "fifo_slot (?f\<lparr>fp := b, wptr := w\<rparr>) p = fifo_slot ?f p"
    "fifo_slot (?f\<lparr>fp := b, wptr := w, rptr := r\<rparr>) p = fifo_slot ?f p" for b w r p
    by (simp_all add: fifo_slot_def)
  have blen: "length ?b = length (fp ?f)"
    using slot fit by simp
  have hd: "get_bytes ?b ?o 4 = Some ?hd" "get_bytes (drop ?o ?b) 0 4 = Some ?hd"
    using slot fit by (simp_all add: get_bytes_def)
  have len: "BYTES_TO_UINT32 (?hd ! 0) (?hd ! 1) (?hd ! 2) (?hd ! 3) = of_nat ?n"
    by (rule uint32_stream_id)
  have nz: "(of_nat ?n :: u32) \<noteq> 0"
    using n32 ne by (metis length_0_conv unat_0)
  let ?f2 = "?f\<lparr>fp := ?b, wptr := wptr ?f + 1\<rparr>"
  let ?s2 = "s\<lparr>trRxFifo := ?f2, trDmaOff := fifo_slot ?f (wptr ?f + 1)\<rparr>"
  have irq: "HCI_Tr_H5IRQHandler True False ?s1 = Some ?s2"
    unfolding HCI_Tr_H5IRQHandler_def h5_irq_full_def Let_def
    using eq(1) hd(1) len nz by (simp add: off)
  have same: "tr_cap lim ?s2" "tr_holds ?s2 st" "link ?s2 = link s"
    using cap holds by (simp_all add: tr_cap_def tr_holds_def tr_pend_def)
  have flush2: "HCI_Tr_H5FlushHandler now ?s2 = ?s2"
    using flush by (cases s) (auto simp: HCI_Tr_H5FlushHandler_def split: if_splits)
  have mem: "drop 4 (drop ?o ?b) = xs @ drop (?o + 4 + ?n) (fp ?f)"
    using slot fit by simp
  have data: "get_bytes (drop 4 (drop ?o ?b)) 0 (unat (of_nat ?n :: u32)) = Some xs"
    unfolding mem n32 by (simp add: get_bytes_def)
  have "h5_loop_spec lim now st xs ?s2 (h5_rx_loop now (drop 4 (drop ?o ?b)) (of_nat ?n) ?s2)"
    using same frames small n32 by (intro h5_rx_loop_correct [OF _ _ data fits]) simp_all
  then obtain s3 where s3: "h5_rx_loop now (drop 4 (drop ?o ?b)) (of_nat ?n) ?s2 = Some s3"
    "tr_holds s3 (snd (slip_split st xs))" "tr_cap lim s3" "tr_frame ?s2 s3" "link s3 = l"
    using frames unfolding h5_loop_spec_def by auto
  let ?s4 = "s3\<lparr>trRxFifo := (trRxFifo s3)\<lparr>rptr := rptr (trRxFifo s3) + 1\<rparr>\<rparr>"
  have f3: "trRxFifo s3 = ?f2" "trDmaOff s3 = fifo_slot ?f (wptr ?f + 1)"
    using s3(4) by (simp_all add: tr_frame_def)
  have cnt: "fifo_count (trRxFifo ?s2) = Suc 0"
    by (simp add: fifo_count_def eq(1))
  have rx: "HCI_Tr_H5RxHandler now ?s2 = Some ?s4"
    unfolding HCI_Tr_H5RxHandler_def flush2 Let_def cnt
    using eq(1) hd(2) len s3(1) by (simp add: off)
  have "tr_ring ?s4"
    using f3 wf eq(1) blen by (simp add: tr_ring_def off fifo_wf_def)
  moreover have "tr_cap lim ?s4" "tr_holds ?s4 (snd (slip_split st xs))"
    using s3(2,3) by (simp_all add: tr_cap_def tr_holds_def tr_pend_def)
  ultimately show ?thesis
    using dma irq rx s3(5) by (intro exI [of _ ?s4]) (simp add: tr_burst_def)
qed

lemma tr_run_framed:
  assumes "tr_cap lim s" and "tr_holds s st" and "tr_ring s" and "admissible tr_burst tr_env bs s"
    and "slip_fits lim (slip_split st (concat (map snd bs)))"
    and "run h5_step (stream_frames st bs) (link s) = Some l"
  shows "\<exists>s'. run tr_burst bs s = Some s' \<and> link s' = l \<and>
     tr_holds s' (snd (slip_split st (concat (map snd bs))))"
  using assms
proof (induction bs arbitrary: s st)
  case (Cons b bs)
  obtain now xs where b: "b = (now, xs)"
    by (cases b)
  have fits: "slip_fits lim (slip_split st xs)"
    "slip_fits lim (slip_split (snd (slip_split st xs)) (concat (map snd bs)))"
    using slip_fits_prefix [of lim st xs] Cons.prems(5) by (simp_all add: b)
  obtain l1 where l1: "h5_frames now (fst (slip_split st xs)) (link s) = Some l1"
    "run h5_step (stream_frames (snd (slip_split st xs)) bs) l1 = Some l"
    using Cons.prems(6)
    by (cases "run h5_step (map (\<lambda>f. (now, Ev_Frame f)) (fst (slip_split st xs))) (link s)")
      (auto simp: b run_append h5_frames_def)
  have env: "tr_env (now, xs) s"
    using Cons.prems(4) by (simp add: b)
  obtain s1 where s1: "tr_burst (now, xs) s = Some s1" "tr_cap lim s1"
    "tr_holds s1 (snd (slip_split st xs))" "tr_ring s1" "link s1 = l1"
    using tr_burst_spec [OF Cons.prems(1-3) env fits(1) l1(1)] by blast
  have "admissible tr_burst tr_env bs s1"
    using Cons.prems(4) s1(1) by (simp add: b)
  with Cons.IH [OF s1(2-4) _ fits(2)] l1(2) s1(5) obtain s' where
    "run tr_burst bs s1 = Some s'" "link s' = l"
    "tr_holds s' (snd (slip_split (snd (slip_split st xs)) (concat (map snd bs))))"
    by auto
  then show ?case
    using s1(1) by (simp add: b slip_split_append [of st])
qed simp

section \<open>The theorems\<close>


text \<open>A transport with the idle peer above it; a frame that is cut in two by a burst boundary.\<close>

definition h5_tr_sample :: h5_tr where
  "h5_tr_sample =
     \<lparr>trRxFifo = hci_fifo_new 256 2, slipHandler = Slip_DecodePacket, trBackupBuf = replicate 256 0,
      trFlushTimer = 0, trBackupCnt = 0, trDmaOff = 0, link = h5_peer\<rparr>"


text \<open>
  The interrupt handler of the H5 transport, which computes the fill level in eight bits, never
  accepts a burst into a full ring and keeps the ring consistent.
\<close>

theorem h5_irq_keeps_ring:
  assumes "fifo_inv (trRxFifo s)" and "HCI_Tr_H5IRQHandler dmaRx txDone s = Some s'"
  shows "fifo_inv (trRxFifo s')"
proof -
  let ?f = "trRxFifo s"
  obtain k where k: "k \<le> 7" "fnum ?f = 2 ^ k" "fmask ?f = mask k"
    using assms(1) by (auto simp: fifo_inv_def fifo_wf_def)
  have "unat (fmask ?f) + 1 = unat (fnum ?f)"
  proof -
    have "fnum ?f - 1 = fmask ?f" "fnum ?f \<noteq> 0"
      using k fifo_wf_index(2) [of ?f] assms(1) by (auto simp: mask_eq_exp_minus_1 fifo_inv_def)
    then show ?thesis
      using unat_minus_one [of "fnum ?f"] fifo_wf_index(2) [of ?f] assms(1) by (auto simp: fifo_inv_def)
  qed
  then have full: "h5_irq_full ?f \<longleftrightarrow> unat (fnum ?f) \<le> fifo_count ?f"
    by (simp add: h5_irq_full_def fifo_count_def)
  have diff: "wptr ?f + 1 - rptr ?f = (wptr ?f - rptr ?f) + 1"
    by simp
  have accept: "fifo_inv (?f\<lparr>wptr := wptr ?f + 1\<rparr>)" if "\<not> h5_irq_full ?f"
    using that assms(1) fifo_wf_index(4) [of ?f] full
    by (auto simp: fifo_inv_def fifo_wf_def fifo_count_def diff unat_word_ariths)
  show ?thesis
    using assms accept
    by (cases "get_bytes (fp ?f) (fifo_slot ?f (wptr ?f)) 4")
      (auto simp: HCI_Tr_H5IRQHandler_def Let_def split: if_splits)
qed

theorem h5_irq_keeps_ring_witness:
  "fifo_inv (trRxFifo (h5_tr_sample\<lparr>link := link h5_tr_sample\<lparr>uart :=
      (uart (link h5_tr_sample))\<lparr>isUartTxDone := True\<rparr>\<rparr>\<rparr>))"
proof (rule h5_irq_keeps_ring)
  show "fifo_inv (trRxFifo h5_tr_sample)"
    by (simp add: h5_tr_sample_def hci_fifo_new_inv)
  show "HCI_Tr_H5IRQHandler False True h5_tr_sample = Some (h5_tr_sample\<lparr>link := link h5_tr_sample\<lparr>uart :=
      (uart (link h5_tr_sample))\<lparr>isUartTxDone := True\<rparr>\<rparr>\<rparr>)"
    by (simp add: HCI_Tr_H5IRQHandler_def Let_def)
qed

end
