(* ===== verification/Hci_Tr.thy ===== *)
theory Hci_Tr
  imports H4_Theorems H5_Stream
begin

text \<open>
  \<^verbatim>\<open>vendor/common/hci_transport/hci_tr.c\<close>: the glue between the controller and the two
  transports.  It initialises the layers, polls the transport selected by \<open>HCI_TR_MODE\<close>, hands one
  received packet per poll to the controller (\<open>blc_hci_handler\<close>, a function of the controller
  library and therefore a parameter here) and, for H4, sends the packets of the transmit ring.
\<close>

section \<open>The controller's side of the rings\<close>

text \<open>\<open>blc_hci_handler(p, n)\<close> reads the packet at \<open>p\<close> (the memory from there on is its first
  argument), may put events and data into \<open>bltHci_txfifo\<close> and changes the controller's state.\<close>

type_synonym 'c hci_handler = "u8 list \<Rightarrow> hci_fifo \<times> 'c \<Rightarrow> hci_fifo \<times> 'c"

record 'c hci_host =
  bltHci_txfifo :: hci_fifo
  controller :: 'c

text \<open>\<open>HCI_RxHandler\<close>; the ring \<open>bltHci_rxfifo\<close> belongs to the transport.  The result is the return
  value.\<close>

definition HCI_RxHandler ::
    "'c hci_handler \<Rightarrow> hci_fifo \<times> 'c hci_host \<Rightarrow> int \<times> hci_fifo \<times> 'c hci_host" where
  "HCI_RxHandler blc_hci_handler s =
     (case s of (rx, c) \<Rightarrow>
        if wptr rx = rptr rx then (0, rx, c)
        else (let (tx, k) = blc_hci_handler (drop (fifo_slot rx (rptr rx)) (fp rx))
                              (bltHci_txfifo c, controller c)
              in (1, rx\<lparr>rptr := rptr rx + 1\<rparr>, c\<lparr>bltHci_txfifo := tx, controller := k\<rparr>)))"

section \<open>Sending over H4\<close>

text \<open>\<open>HCI_TxHandler\<close> for H4, on \<open>bltHci_txfifo\<close>, the static \<open>uartTxBuf\<close> and the UART.  A slot of
  the ring holds the 16-bit length of the packet and the packet.  The comparison of the length with
  \<open>HCI_TX_FIFO_SIZE\<close> only asserts.\<close>

definition HCI_TxHandler ::
    "hci_fifo \<times> u8 list \<times> uart \<Rightarrow> (int \<times> hci_fifo \<times> u8 list \<times> uart) option" where
  "HCI_TxHandler s =
     (case s of (tx, uartTxBuf, u) \<Rightarrow>
        if wptr tx = rptr tx then Some (0, s)
        else if \<not> isUartTxDone u then Some (0, s)
        else do {
          let p = drop (fifo_slot tx (rptr tx)) (fp tx);
          h \<leftarrow> get_bytes p 0 2;
          let len = (ucast (BYTES_TO_UINT16 (h ! 0) (h ! 1)) :: u32);
          buf \<leftarrow> put_bytes uartTxBuf 0 (UINT32_TO_BSTREAM len);
          xs \<leftarrow> get_bytes p 2 (unat len);
          buf \<leftarrow> put_bytes buf 4 xs;
          u' \<leftarrow> uart_send_dma buf u;
          Some (0, tx\<lparr>rptr := rptr tx + 1\<rparr>, buf, u'\<lparr>isUartTxDone := False\<rparr>) })"

section \<open>The two configurations\<close>

record 'c hci_h4 =
  tr4 :: h4_tr
  host4 :: "'c hci_host"
  uartTxBuf :: "u8 list"

definition HCI_TransportInit_H4 :: "hci_fifo \<Rightarrow> 'c hci_h4 \<Rightarrow> 'c hci_h4" where
  "HCI_TransportInit_H4 bltHci_rxfifo s =
     (let t = HCI_Tr_H4Init bltHci_rxfifo (tr4 s)
      in s\<lparr>tr4 := t\<lparr>h4Uart := (h4Uart t)\<lparr>isUartTxDone := True\<rparr>\<rparr>\<rparr>)"

text \<open>\<open>HCI_Handler\<close> for H4: receive, then send.\<close>

definition HCI_Handler_H4 :: "'c hci_handler \<Rightarrow> 'c hci_h4 \<Rightarrow> 'c hci_h4 option" where
  "HCI_Handler_H4 blc_hci_handler s =
     (let (_, rx, c) = HCI_RxHandler blc_hci_handler (pHciRxFifo (tr4 s), host4 s) in
      do { (_, tx, buf, u) \<leftarrow> HCI_TxHandler (bltHci_txfifo c, uartTxBuf s, h4Uart (tr4 s));
           Some (s\<lparr>tr4 := (tr4 s)\<lparr>pHciRxFifo := rx, h4Uart := u\<rparr>,
                   host4 := c\<lparr>bltHci_txfifo := tx\<rparr>, uartTxBuf := buf\<rparr>) })"

definition HCI_TransportPoll_H4 :: "'c hci_handler \<Rightarrow> u32 \<Rightarrow> 'c hci_h4 \<Rightarrow> 'c hci_h4 option" where
  "HCI_TransportPoll_H4 blc_hci_handler now s =
     do { t \<leftarrow> HCI_Tr_H4RxHandler now (tr4 s); HCI_Handler_H4 blc_hci_handler (s\<lparr>tr4 := t\<rparr>) }"

text \<open>H5: the transport is initialised first, then SLIP, which registers itself with the transport,
  then the link layer, which registers itself with SLIP.\<close>

definition HCI_TransportInit_H5 :: "nat \<Rightarrow> nat \<Rightarrow> u32 \<Rightarrow> h5_tr \<Rightarrow> h5_tr" where
  "HCI_TransportInit_H5 rx tx now s =
     (let s1 = HCI_Tr_H5Init s;
          s2 = HCI_Tr_H5RegisterSlipHandler Slip_DecodePacket
                 (s1\<lparr>link := (link s1)\<lparr>slip := HCI_Slip_Init rx tx\<rparr>\<rparr>)
      in s2\<lparr>link := HCI_H5_Init now (link s2)\<rparr>)"

text \<open>\<open>HCI_Handler\<close> for H5 only receives: the link layer empties the transmit ring itself, so that
  the ring of the controller is the one of the link layer.\<close>

definition HCI_Handler_H5 :: "'c hci_handler \<Rightarrow> h5 \<times> 'c \<Rightarrow> h5 \<times> 'c" where
  "HCI_Handler_H5 blc_hci_handler s =
     (case s of (l, k) \<Rightarrow>
        let (_, rx, c) = HCI_RxHandler blc_hci_handler (rxFifo l, \<lparr>bltHci_txfifo = txFifo l, controller = k\<rparr>)
        in (l\<lparr>rxFifo := rx, txFifo := bltHci_txfifo c\<rparr>, controller c))"

definition HCI_TransportPoll_H5 :: "'c hci_handler \<Rightarrow> u32 \<Rightarrow> h5_tr \<times> 'c \<Rightarrow> (h5_tr \<times> 'c) option" where
  "HCI_TransportPoll_H5 blc_hci_handler now s =
     (case s of (t, k) \<Rightarrow>
        do { t1 \<leftarrow> HCI_Tr_H5RxHandler now t;
             l \<leftarrow> HCI_H5_Poll now (link t1);
             let (l', k') = HCI_Handler_H5 blc_hci_handler (l, k);
             Some (t1\<lparr>link := l'\<rparr>, k') })"

definition HCI_TransportIRQHandler_H4 :: "bool \<Rightarrow> bool \<Rightarrow> 'c hci_h4 \<Rightarrow> 'c hci_h4 option" where
  "HCI_TransportIRQHandler_H4 dmaRx txDone s =
     map_option (\<lambda>t. s\<lparr>tr4 := t\<rparr>) (HCI_Tr_H4IRQHandler dmaRx txDone (tr4 s))"

definition HCI_TransportIRQHandler_H5 :: "bool \<Rightarrow> bool \<Rightarrow> h5_tr \<Rightarrow> h5_tr option" where
  "HCI_TransportIRQHandler_H5 dmaRx txDone t = HCI_Tr_H5IRQHandler dmaRx txDone t"

section \<open>Sending: correctness\<close>

definition tx_len :: "u8 list \<Rightarrow> nat" where
  "tx_len slot = unat (BYTES_TO_UINT16 (slot ! 0) (slot ! 1))"

definition tx_payload :: "u8 list \<Rightarrow> u8 list" where
  "tx_payload slot = take (tx_len slot) (drop 2 slot)"

definition tx_slot_ok :: "nat \<Rightarrow> u8 list \<Rightarrow> bool" where
  "tx_slot_ok bufsz slot \<longleftrightarrow> 2 + tx_len slot \<le> length slot \<and> 4 + tx_len slot \<le> bufsz"

lemma tx_handler_sends:
  assumes inv: "fifo_inv tx" and ne: "\<not> fifo_empty tx" and idle: "isUartTxDone u"
    and ok: "tx_slot_ok (length buf) (fifo_read tx (rptr tx))"
  obtains buf' where "HCI_TxHandler (tx, buf, u) = Some (0, fifo_pop tx, buf',
      u\<lparr>isUartTxDone := False, uartSent := uartSent u @ [tx_payload (fifo_read tx (rptr tx))]\<rparr>)"
    and "length buf' = length buf"
proof -
  let ?slot = "fifo_read tx (rptr tx)" and ?p = "drop (fifo_slot tx (rptr tx)) (fp tx)"
  let ?n = "tx_len ?slot"
  have wf: "fifo_wf tx"
    using inv by (simp add: fifo_inv_def)
  have slot: "?slot = take (unat (fsize tx)) ?p"
    by (simp add: fifo_read_def)
  have fit: "unat (fsize tx) \<le> length ?p"
    using fifo_slot_fits [OF wf, of "rptr tx"] by simp
  have sz: "2 + ?n \<le> unat (fsize tx)" "4 + ?n \<le> length buf"
    using ok fit unfolding tx_slot_ok_def slot by simp_all
  define h where "h = take 2 ?p"
  have h: "get_bytes ?p 0 2 = Some h"
    using sz fit by (simp add: get_bytes_def h_def)
  have b: "?slot ! 0 = h ! 0" "?slot ! 1 = h ! 1"
    using sz(1) by (simp_all add: slot h_def)
  let ?len = "ucast (BYTES_TO_UINT16 (h ! 0) (h ! 1)) :: u32"
  have len: "unat ?len = ?n"
    using less_le_trans [OF unat_bound(2)]
    by (simp add: tx_len_def b [unfolded One_nat_def] unsigned_ucast_eq take_bit_nat_eq_self)
  have xs: "get_bytes ?p 2 ?n = Some (tx_payload ?slot)"
    using sz fit by (simp add: get_bytes_def tx_payload_def slot drop_take min_def)
  have lxs: "length (tx_payload ?slot) = ?n"
    using get_bytes_length [OF xs] .
  define b1 where "b1 = UINT32_TO_BSTREAM ?len @ drop 4 buf"
  have b1: "put_bytes buf 0 (UINT32_TO_BSTREAM ?len) = Some b1" "length b1 = length buf"
    using sz(2) by (simp_all add: put_bytes_def b1_def)
  define b2 where "b2 = UINT32_TO_BSTREAM ?len @ tx_payload ?slot @ drop (4 + ?n) buf"
  have b2: "put_bytes b1 4 (tx_payload ?slot) = Some b2" "length b2 = length buf"
    using sz(2) b1(2) lxs by (simp_all add: put_bytes_def b1_def b2_def add.commute)
  have dma: "uart_send_dma b2 u = Some (u\<lparr>uartSent := uartSent u @ [tx_payload ?slot]\<rparr>)"
  proof -
    have 1: "get_bytes b2 0 4 = Some (UINT32_TO_BSTREAM ?len)"
      using sz(2) b2(2) by (simp add: get_bytes_def b2_def)
    have 2: "get_bytes b2 4 ?n = Some (tx_payload ?slot)"
      using sz(2) b2(2) lxs by (simp add: get_bytes_def b2_def)
    show ?thesis
      by (simp add: uart_send_dma_def 1 uint32_stream_id len 2 del: One_nat_def)
  qed
  have "HCI_TxHandler (tx, buf, u) = Some (0, fifo_pop tx, b2,
      u\<lparr>isUartTxDone := False, uartSent := uartSent u @ [tx_payload ?slot]\<rparr>)"
    using ne idle
    by (simp add: HCI_TxHandler_def fifo_empty_def h b1 len xs b2 dma fifo_pop_def Let_def del: One_nat_def)
  then show ?thesis
    using that b2(2) by blast
qed

text \<open>The controller writing a packet, the poll of the main loop, the interrupt that a transmission
  is complete.\<close>

datatype tx_event = Tx_Put "u8 list" | Tx_Poll | Tx_Done

fun tx_step :: "tx_event \<Rightarrow> hci_fifo \<times> u8 list \<times> uart \<Rightarrow> (hci_fifo \<times> u8 list \<times> uart) option" where
  "tx_step (Tx_Put xs) (tx, buf, u) =
     do { f \<leftarrow> fifo_push tx (UINT16_TO_BSTREAM (of_nat (length xs)) @ xs); Some (f, buf, u) }"
| "tx_step Tx_Poll s = map_option snd (HCI_TxHandler s)"
| "tx_step Tx_Done (tx, buf, u) = Some (tx, buf, u\<lparr>isUartTxDone := True\<rparr>)"

fun tx_env :: "tx_event \<Rightarrow> hci_fifo \<times> u8 list \<times> uart \<Rightarrow> bool" where
  "tx_env (Tx_Put xs) (tx, buf, u) \<longleftrightarrow>
     fifo_count tx < unat (fnum tx) \<and> length xs + 2 \<le> unat (fsize tx) \<and> length xs + 4 \<le> length buf"
| "tx_env _ _ \<longleftrightarrow> True"

fun tx_inv :: "hci_fifo \<times> u8 list \<times> uart \<Rightarrow> bool" where
  "tx_inv (tx, buf, u) \<longleftrightarrow> fifo_inv tx \<and> (\<forall>slot\<in>set (fifo_items tx). tx_slot_ok (length buf) slot)"

text \<open>What was sent and what is still to be sent.\<close>

fun tx_sent :: "hci_fifo \<times> u8 list \<times> uart \<Rightarrow> u8 list list" where
  "tx_sent (tx, buf, u) = uartSent u @ map tx_payload (fifo_items tx)"

fun tx_puts :: "tx_event list \<Rightarrow> u8 list list" where
  "tx_puts [] = []"
| "tx_puts (ev # evs) = (case ev of Tx_Put xs \<Rightarrow> xs # tx_puts evs | _ \<Rightarrow> tx_puts evs)"

lemma tx_slot_put:
  assumes "length xs < 65536"
  shows "tx_len (UINT16_TO_BSTREAM (of_nat (length xs)) @ xs @ rest) = length xs"
    and "tx_payload (UINT16_TO_BSTREAM (of_nat (length xs)) @ xs @ rest) = xs"
proof -
  show "tx_len (UINT16_TO_BSTREAM (of_nat (length xs)) @ xs @ rest) = length xs"
    using assms by (simp add: tx_len_def UINT16_TO_BSTREAM_def uint16_bytes_id unat_of_nat)
  then show "tx_payload (UINT16_TO_BSTREAM (of_nat (length xs)) @ xs @ rest) = xs"
    by (simp add: tx_payload_def)
qed

lemma tx_put_ok:
  assumes inv: "tx_inv (tx, buf, u)" and env: "tx_env (Tx_Put xs) (tx, buf, u)"
  shows "\<exists>s'. tx_step (Tx_Put xs) (tx, buf, u) = Some s' \<and> tx_inv s' \<and>
    tx_sent s' = tx_sent (tx, buf, u) @ [xs]"
proof -
  let ?e = "UINT16_TO_BSTREAM (of_nat (length xs)) @ xs"
  have f: "fifo_inv tx" and wf: "fifo_wf tx" and room: "fifo_count tx < unat (fnum tx)"
      and len: "length ?e \<le> unat (fsize tx)"
    using inv env by (auto simp: fifo_inv_def)
  have small: "length xs < 65536"
    using len wf by (simp add: fifo_wf_def word_less_nat_alt)
  obtain f' where f': "fifo_push tx ?e = Some f'"
    using fifo_push_total [OF wf len] by blast
  let ?slot = "?e @ drop (length ?e) (fifo_read tx (wptr tx))"
  note items = fifo_push_items [OF f room len f']
  have "tx_payload ?slot = xs" "tx_slot_ok (length buf) ?slot"
    using tx_slot_put [OF small] env by (simp_all add: tx_slot_ok_def)
  with inv items show ?thesis
    by (intro exI [of _ "(f', buf, u)"]) (simp add: f')
qed

lemma tx_poll_ok:
  assumes inv: "tx_inv (tx, buf, u)"
  shows "\<exists>s'. tx_step Tx_Poll (tx, buf, u) = Some s' \<and> tx_inv s' \<and>
    tx_sent s' = tx_sent (tx, buf, u) \<and>
    (isUartTxDone u \<longrightarrow> fifo_count (fst s') = fifo_count tx - 1)"
proof (cases "fifo_empty tx \<or> \<not> isUartTxDone u")
  case True
  then show ?thesis
    using inv by (auto simp: HCI_TxHandler_def fifo_empty_def fifo_count_def)
next
  case False
  have f: "fifo_inv tx" and ne: "\<not> fifo_empty tx"
    using inv False by auto
  note pop = fifo_pop_items [OF f ne]
  obtain slot rest where items: "fifo_items tx = slot # rest"
    using ne by (cases "fifo_items tx") (auto simp: fifo_empty_count fifo_items_length [symmetric] simp del: fifo_items_length)
  have "slot = fifo_read tx (rptr tx)"
    using pop(3) items by simp
  with items inv have ok: "tx_slot_ok (length buf) (fifo_read tx (rptr tx))"
    by simp
  obtain buf' where "HCI_TxHandler (tx, buf, u) = Some (0, fifo_pop tx, buf',
      u\<lparr>isUartTxDone := False, uartSent := uartSent u @ [tx_payload (fifo_read tx (rptr tx))]\<rparr>)"
    and "length buf' = length buf"
    using tx_handler_sends [OF f ne _ ok] False by blast
  with pop items inv show ?thesis
    by (intro exI [of _ "(fifo_pop tx, buf', u\<lparr>isUartTxDone := False,
        uartSent := uartSent u @ [tx_payload (fifo_read tx (rptr tx))]\<rparr>)"])
      (simp add: \<open>slot = _\<close> fifo_items_length [symmetric] del: fifo_items_length)
qed

lemma tx_step_ok:
  assumes "tx_inv s" and "tx_env ev s"
  shows "\<exists>s'. tx_step ev s = Some s' \<and> tx_inv s' \<and> tx_sent s' = tx_sent s @ tx_puts [ev]"
proof (cases s)
  case (fields tx buf u)
  with assms tx_put_ok [of tx buf u] tx_poll_ok [of tx buf u] show ?thesis
    by (cases ev) fastforce+
qed

interpretation h4tx: safe_system tx_step tx_env tx_inv
  by unfold_locales (use tx_step_ok in blast)

lemma tx_puts_append: "tx_puts (xs @ ys) = tx_puts xs @ tx_puts ys"
  by (induction xs) (auto split: tx_event.split)

text \<open>
  The H4 transmitter: for every interleaving of packets written by the controller, polls of the
  main loop and transmit interrupts, the packets on the wire followed by those in the ring are
  the packets written, in that order: none is lost, repeated, reordered or cut.
\<close>

theorem h4_tx_in_order:
  assumes "tx_inv s" and "admissible tx_step tx_env evs s"
  shows "\<exists>s'. run tx_step evs s = Some s' \<and> tx_inv s' \<and> tx_sent s' = tx_sent s @ tx_puts evs"
  using assms
proof (induction evs arbitrary: s)
  case (Cons ev evs)
  have env: "tx_env ev s"
    using Cons.prems by simp
  from tx_step_ok [OF Cons.prems(1) this]
  obtain s1 where s1: "tx_step ev s = Some s1" "tx_inv s1" "tx_sent s1 = tx_sent s @ tx_puts [ev]"
    by blast
  have "admissible tx_step tx_env evs s1"
    using Cons.prems s1 by simp
  from Cons.IH [OF s1(2) this]
  obtain s' where "run tx_step evs s1 = Some s'" "tx_inv s'" "tx_sent s' = tx_sent s1 @ tx_puts evs"
    by blast
  with s1 tx_puts_append [of "[ev]" evs] show ?case
    by simp
qed simp

theorem h4_tx_in_order_witness:
  "\<exists>s'. run tx_step [Tx_Put [4, 1], Tx_Poll, Tx_Put [4, 2, 0], Tx_Poll, Tx_Done, Tx_Poll]
       (hci_fifo_new 8 1, replicate 12 0, \<lparr>isUartTxDone = True, uartSent = []\<rparr>) = Some s' \<and> tx_inv s' \<and>
     tx_sent s' = tx_sent (hci_fifo_new 8 1, replicate 12 0, \<lparr>isUartTxDone = True, uartSent = []\<rparr>) @
       tx_puts [Tx_Put [4, 1], Tx_Poll, Tx_Put [4, 2, 0], Tx_Poll, Tx_Done, Tx_Poll]"
proof (rule h4_tx_in_order)
  show "tx_inv (hci_fifo_new 8 1, replicate 12 0, \<lparr>isUartTxDone = True, uartSent = []\<rparr>)"
    by (simp add: hci_fifo_new_inv)
  show "admissible tx_step tx_env [Tx_Put [4, 1], Tx_Poll, Tx_Put [4, 2, 0], Tx_Poll, Tx_Done, Tx_Poll]
      (hci_fifo_new 8 1, replicate 12 0, \<lparr>isUartTxDone = True, uartSent = []\<rparr>)"
    by code_simp
qed

text \<open>
  The H4 transmitter makes progress: with the transmission complete, each poll followed by the
  transmit interrupt sends one packet, so that as many of them as the ring has packets empty it and
  the wire has carried everything.
\<close>

theorem h4_tx_drains:
  assumes "tx_inv s" and "isUartTxDone (snd (snd s))"
  shows "\<exists>tx buf u. run tx_step (concat (replicate (fifo_count (fst s)) [Tx_Poll, Tx_Done])) s = Some (tx, buf, u) \<and>
     fifo_empty tx \<and> uartSent u = tx_sent s"
  using assms
proof (induction "fifo_count (fst s)" arbitrary: s)
  case 0
  then show ?case
    by (cases s) (auto simp: fifo_empty_count fifo_items_def)
next
  case (Suc n)
  obtain tx buf u where s: "s = (tx, buf, u)"
    by (cases s)
  obtain s1 where s1: "tx_step Tx_Poll s = Some s1" "tx_inv s1" "tx_sent s1 = tx_sent s" "fifo_count (fst s1) = n"
    using tx_poll_ok [of tx buf u] Suc by (auto simp: s)
  obtain tx1 buf1 u1 where s1': "s1 = (tx1, buf1, u1)"
    by (cases s1)
  let ?s2 = "(tx1, buf1, u1\<lparr>isUartTxDone := True\<rparr>)"
  have s2: "tx_inv ?s2" "tx_sent ?s2 = tx_sent s" "fifo_count (fst ?s2) = n"
    using s1 by (simp_all add: s1')
  from Suc.hyps(1) [OF s2(3) [symmetric] s2(1)]
  obtain tx' buf' u' where r: "run tx_step (concat (replicate n [Tx_Poll, Tx_Done])) ?s2 = Some (tx', buf', u')"
      "fifo_empty tx'" "uartSent u' = tx_sent ?s2"
    unfolding s2(3) by auto
  have "run tx_step (concat (replicate (Suc n) [Tx_Poll, Tx_Done])) s =
      run tx_step (concat (replicate n [Tx_Poll, Tx_Done])) ?s2"
    using s1(1) by (auto simp: s1')
  with r s2(2) show ?case
    unfolding Suc.hyps(2) [symmetric] by auto
qed

theorem h4_tx_drains_witness:
  "\<exists>tx buf u. run tx_step (concat (replicate (fifo_count (fst (hci_fifo_new 8 1, replicate 12 0 :: u8 list, \<lparr>isUartTxDone = True, uartSent = []\<rparr>)))
      [Tx_Poll, Tx_Done])) (hci_fifo_new 8 1, replicate 12 0, \<lparr>isUartTxDone = True, uartSent = []\<rparr>) = Some (tx, buf, u) \<and>
     fifo_empty tx \<and> uartSent u = tx_sent (hci_fifo_new 8 1, replicate 12 0, \<lparr>isUartTxDone = True, uartSent = []\<rparr>)"
  by (rule h4_tx_drains) (simp_all add: hci_fifo_new_inv)

section \<open>The H5 stack after initialisation\<close>

text \<open>The static variables before \<open>HCI_TransportInit\<close>, for slots of \<open>rx\<close> and \<open>tx\<close> bytes in the
  rings of the controller.\<close>

definition h5_tr_boot :: "nat \<Rightarrow> nat \<Rightarrow> nat \<Rightarrow> nat \<Rightarrow> h5_tr" where
  "h5_tr_boot rx kr tx kt =
     \<lparr>trRxFifo = hci_fifo_new (HCI_H5_TR_RX_BUF_SIZE rx) 2, slipHandler = Tr_DefaultSlipHandler,
      trBackupBuf = replicate (HCI_H5_TR_RX_BUF_SIZE rx) 0, trFlushTimer = 0, trBackupCnt = 0,
      trDmaOff = 0, link = h5_boot rx kr tx kt\<rparr>"

lemma h5_tr_buf_size: "rx < 10000 \<Longrightarrow> HCI_H5_TR_RX_BUF_SIZE rx < 65536"
  by (simp add: HCI_H5_TR_RX_BUF_SIZE_def MEM_SIZE_ALIGN16_def)

lemma transport_init_h5:
  assumes "rx < 10000" and "2 \<le> lim" and "lim \<le> 255" and "lim \<le> HCI_H5_TR_RX_BUF_SIZE rx"
  shows "tr_cap lim (HCI_TransportInit_H5 rx tx now (h5_tr_boot rx kr tx kt))"
    and "tr_holds (HCI_TransportInit_H5 rx tx now (h5_tr_boot rx kr tx kt)) None"
    and "tr_ring (HCI_TransportInit_H5 rx tx now (h5_tr_boot rx kr tx kt))"
    and "link (HCI_TransportInit_H5 rx tx now (h5_tr_boot rx kr tx kt)) = h5_start now rx kr tx kt"
proof -
  note defs = HCI_TransportInit_H5_def HCI_Tr_H5Init_def HCI_Tr_H5RegisterSlipHandler_def h5_tr_boot_def Let_def
  have "fifo_inv (hci_fifo_new (HCI_H5_TR_RX_BUF_SIZE rx) 2)"
    using h5_tr_buf_size [OF assms(1)] by (simp add: hci_fifo_new_inv)
  then show "tr_ring (HCI_TransportInit_H5 rx tx now (h5_tr_boot rx kr tx kt))"
    by (simp add: tr_ring_def defs fifo_inv_def) (simp add: hci_fifo_new_def fifo_slot_def)
  show "tr_cap lim (HCI_TransportInit_H5 rx tx now (h5_tr_boot rx kr tx kt))"
    "tr_holds (HCI_TransportInit_H5 rx tx now (h5_tr_boot rx kr tx kt)) None"
    "link (HCI_TransportInit_H5 rx tx now (h5_tr_boot rx kr tx kt)) = h5_start now rx kr tx kt"
    using assms by (simp_all add: defs tr_cap_def tr_holds_def tr_pend_def h5_start_def h5_boot_def)
qed

text \<open>
  C5: the H5 receive path after \<open>HCI_TransportInit\<close>, which connects the layers in the right order
  (transport, SLIP, link): however a byte stream is divided into bursts, the link layer ends in the state
  that its frames, handed over one by one, lead to, the backup buffer holds the incomplete rest, no
  buffer is left and the invariant of the link holds.  The conditions: each burst is not empty, is
  shorter than 256 bytes, fits its slot of the DMA ring with its length and comes before the flush timer
  drops an incomplete frame; each frame with its delimiters is at most \<open>lim\<close> bytes long and fits the
  backup buffer; and no data packet announces a payload longer than a slot of the controller's ring
  less the type byte, as \<open>h5_rx_slot_overrun\<close> shows to be needed.  The frames may be damaged, short,
  out of order or unexpected, and the ring may be full.
\<close>

theorem hci_h5_stack_safe:
  assumes "rx < 10000" and "kr \<le> 7" and "3 \<le> tx" and "tx < 30000" and "kt \<le> 7"
    and "2 \<le> lim" and "lim \<le> 255" and "lim \<le> HCI_H5_TR_RX_BUF_SIZE rx"
    and "admissible tr_burst tr_env bs (HCI_TransportInit_H5 rx tx now (h5_tr_boot rx kr tx kt))"
    and "slip_fits lim (slip_split None (concat (map snd bs)))"
    and "\<forall>f\<in>set (fst (slip_split None (concat (map snd bs)))). h5_frame_fits rx f"
  shows "\<exists>s'. run tr_burst bs (HCI_TransportInit_H5 rx tx now (h5_tr_boot rx kr tx kt)) = Some s' \<and>
     h5_wf (link s') \<and> run h5_step (stream_frames None bs) (h5_start now rx kr tx kt) = Some (link s') \<and>
     tr_holds s' (snd (slip_split None (concat (map snd bs))))"
proof -
  note init = transport_init_h5 [OF assms(1) assms(6-8), of tx now kr kt]
  have wf: "h5_wf (h5_start now rx kr tx kt)"
    using assms(1-5) by (intro h5_start_wf) simp_all
  have "list_all (h5_event_fits rx) (map snd (stream_frames None bs))"
    using assms(11) by (simp add: stream_frames_split list_all_iff h5_event_fits_def)
  then have "admissible h5_step h5_env (stream_frames None bs) (h5_start now rx kr tx kt)"
    using assms(1) by (intro h5_admissible_frames [of rx]) (simp_all add: h5_start_rx list_all_iff)
  from h5sys.run_safe [OF wf this] obtain l where
      l: "run h5_step (stream_frames None bs) (h5_start now rx kr tx kt) = Some l" "h5_wf l"
    by blast
  from tr_run_framed [OF init(1,2,3) assms(9,10)] l show ?thesis
    unfolding init(4) by auto
qed

text \<open>The answers of a peer to the handshake, a data packet, and the beginning of the next frame.\<close>

definition h5_sample_stream :: "u8 list" where
  "h5_sample_stream =
     [0xC0, 0, 0x2F, 0, 0xD0, 2, 0x7D, 0xC0, 0xC0, 0, 0x3F, 0, 0xDB, 0xDC, 4, 0x7B, 1, 0xC0,
      0xC0, 0x80, 0x14, 0, 0x6B, 5, 0xC0, 0xC0, 5]"

lemma h5_sample_split: "slip_split None h5_sample_stream =
    ([[0, 0x2F, 0, 0xD0, 2, 0x7D], [0, 0x3F, 0, 0xDB, 0xDC, 4, 0x7B, 1], [0x80, 0x14, 0, 0x6B, 5]], Some [5])"
  by (simp add: h5_sample_stream_def SLIP_DELIMITER_def)

theorem hci_h5_stack_safe_witness:
  "\<exists>s'. run tr_burst [(1, h5_sample_stream)] (HCI_TransportInit_H5 48 36 0 (h5_tr_boot 48 3 36 4)) = Some s' \<and>
     h5_wf (link s') \<and>
     run h5_step [(1, Ev_Frame [0, 0x2F, 0, 0xD0, 2, 0x7D]), (1, Ev_Frame [0, 0x3F, 0, 0xDB, 0xDC, 4, 0x7B, 1]),
       (1, Ev_Frame [0x80, 0x14, 0, 0x6B, 5])] (h5_start 0 48 3 36 4) = Some (link s') \<and>
     tr_holds s' (Some [5])"
proof -
  let ?bs = "[(1 :: u32, h5_sample_stream)]"
  have stream: "concat (map snd ?bs) = h5_sample_stream" "length h5_sample_stream = 27" "h5_sample_stream \<noteq> []"
    by (simp_all add: h5_sample_stream_def)
  have size: "HCI_H5_TR_RX_BUF_SIZE 48 = 256"
    by (simp add: HCI_H5_TR_RX_BUF_SIZE_def MEM_SIZE_ALIGN16_def)
  have "tr_env (hd ?bs) (HCI_TransportInit_H5 48 36 0 (h5_tr_boot 48 3 36 4))"
    by (simp add: tr_env_def HCI_TransportInit_H5_def HCI_Tr_H5Init_def HCI_Tr_H5RegisterSlipHandler_def
        h5_tr_boot_def HCI_Tr_H5FlushHandler_def hci_fifo_new_def size stream)
  then have env: "admissible tr_burst tr_env ?bs (HCI_TransportInit_H5 48 36 0 (h5_tr_boot 48 3 36 4))"
    by (simp split: option.split)
  have fits: "slip_fits 255 (slip_split None (concat (map snd ?bs)))"
    unfolding stream h5_sample_split by (simp add: slip_fits_def)
  have frames: "\<forall>f\<in>set (fst (slip_split None (concat (map snd ?bs)))). h5_frame_fits 48 f"
    unfolding stream h5_sample_split by (simp add: h5_sample_frames)
  show ?thesis
    using hci_h5_stack_safe [OF _ _ _ _ _ _ _ _ env fits frames]
    by (simp add: size h5_sample_split)
qed

end
