(* ===== verification/Flash.thy ===== *)
theory Flash
  imports C_Prelude
begin

text \<open>
  The SPI flash driver of \<^verbatim>\<open>drivers/B85/flash.c\<close>.  The chip is hardware: \<open>'f\<close> is its state, and the
  record \<open>chip\<close> gives its reaction to one transaction on the bus, from \<open>mspi_low\<close> to \<open>mspi_high\<close>: a
  transaction that sends bytes, and one that sends bytes and then clocks a number of bytes in.  What
  the data sheets of serial NOR flash promise of the three commands the SDK stores data with is the
  predicate \<open>nor_flash\<close>: programming can only clear bits, stays in its page of 256 bytes and needs
  the write enable command before it; erasing sets a sector of 4096 bytes to \<open>0xff\<close>.
\<close>

section \<open>The driver\<close>

record 'f chip =
  bus_write :: "u8 list \<Rightarrow> 'f \<Rightarrow> 'f"
  bus_read :: "u8 list \<Rightarrow> nat \<Rightarrow> 'f \<Rightarrow> u8 list"

definition FLASH_WRITE_CMD :: u8 where "FLASH_WRITE_CMD = 0x02"
definition FLASH_READ_CMD :: u8 where "FLASH_READ_CMD = 0x03"
definition FLASH_WRITE_SECURITY_REGISTERS_CMD :: u8 where "FLASH_WRITE_SECURITY_REGISTERS_CMD = 0x42"
definition FLASH_READ_SECURITY_REGISTERS_CMD :: u8 where "FLASH_READ_SECURITY_REGISTERS_CMD = 0x48"
definition FLASH_SECT_ERASE_CMD :: u8 where "FLASH_SECT_ERASE_CMD = 0x20"
definition FLASH_ERASE_SECURITY_REGISTERS_CMD :: u8 where "FLASH_ERASE_SECURITY_REGISTERS_CMD = 0x44"
definition FLASH_READ_UID_CMD_GD_PUYA_ZB_TH :: u8 where "FLASH_READ_UID_CMD_GD_PUYA_ZB_TH = 0x4B"
definition FLASH_GET_JEDEC_STATUS_CMD :: u8 where "FLASH_GET_JEDEC_STATUS_CMD = 0x5A"
definition FLASH_GET_JEDEC_ID :: u8 where "FLASH_GET_JEDEC_ID = 0x9F"
definition FLASH_WRITE_STATUS_CMD_LOWBYTE :: u8 where "FLASH_WRITE_STATUS_CMD_LOWBYTE = 0x01"
definition FLASH_WRITE_ENABLE_CMD :: u8 where "FLASH_WRITE_ENABLE_CMD = 0x06"
definition STACK_SIZE_FOR_FLASH_DATA :: nat where "STACK_SIZE_FOR_FLASH_DATA = 32"
definition PAGE_SIZE :: nat where "PAGE_SIZE = 256"

definition flash_send_addr :: "u32 \<Rightarrow> u8 list" where
  "flash_send_addr addr = [ucast (drop_bit 16 addr), ucast (drop_bit 8 addr), ucast addr]"

definition flash_mspi_read_ram :: "'f chip \<Rightarrow> u8 \<Rightarrow> u32 \<Rightarrow> bool \<Rightarrow> u8 \<Rightarrow> u32 \<Rightarrow> 'f \<Rightarrow> u8 list" where
  "flash_mspi_read_ram c cmd addr addr_en dummy_cnt data_len f =
     bus_read c (cmd # (if addr_en then flash_send_addr addr else []) @ replicate (unat dummy_cnt) 0) (unat data_len) f"

text \<open>The busy bit that \<open>flash_wait_done\<close> polls is part of the chip's timing and left out.\<close>

definition flash_mspi_write_ram :: "'f chip \<Rightarrow> u8 \<Rightarrow> u32 \<Rightarrow> bool \<Rightarrow> u8 list \<Rightarrow> 'f \<Rightarrow> 'f" where
  "flash_mspi_write_ram c cmd addr addr_en data f =
     bus_write c (cmd # (if addr_en then flash_send_addr addr else []) @ data)
       (bus_write c [FLASH_WRITE_ENABLE_CMD] f)"

definition flash_erase_sector :: "'f chip \<Rightarrow> u32 \<Rightarrow> 'f \<Rightarrow> 'f" where
  "flash_erase_sector c addr f = flash_mspi_write_ram c FLASH_SECT_ERASE_CMD addr True [] f"

definition flash_read_data :: "'f chip \<Rightarrow> u32 \<Rightarrow> u32 \<Rightarrow> 'f \<Rightarrow> u8 list" where
  "flash_read_data c addr len f = flash_mspi_read_ram c FLASH_READ_CMD addr True 0 len f"

text \<open>
  The loop of \<open>flash_page_program\<close> over the pages: \<open>ns\<close> bytes are left in the current page.  Where the
  data lie in flash (\<open>is_flash_addr\<close>), more than \<open>STACK_SIZE_FOR_FLASH_DATA\<close> bytes at a time make the
  code stop in \<open>while(1)\<close>, which is \<open>None\<close>.
\<close>

function program_pages :: "'f chip \<Rightarrow> bool \<Rightarrow> nat \<Rightarrow> u32 \<Rightarrow> u8 list \<Rightarrow> 'f \<Rightarrow> 'f option" where
  "program_pages c is_flash_addr ns addr buf f =
     (let nw = (if ns < length buf then ns else length buf) in
      if is_flash_addr \<and> STACK_SIZE_FOR_FLASH_DATA < nw then None
      else
        (let f = flash_mspi_write_ram c FLASH_WRITE_CMD addr True (take nw buf) f;
             buf = drop nw buf
         in if buf \<noteq> [] then program_pages c is_flash_addr PAGE_SIZE (addr + of_nat nw) buf f else Some f))"
  by pat_completeness auto
termination
  by (relation "measures [\<lambda>(c, fl, ns, addr, buf, f). length buf, \<lambda>(c, fl, ns, addr, buf, f). if ns = 0 then 1 else 0]")
    (auto simp: PAGE_SIZE_def)

declare program_pages.simps [simp del]

definition flash_page_program :: "'f chip \<Rightarrow> bool \<Rightarrow> u32 \<Rightarrow> u8 list \<Rightarrow> 'f \<Rightarrow> 'f option" where
  "flash_page_program c is_flash_addr addr buf f =
     program_pages c is_flash_addr (PAGE_SIZE - unat (addr AND of_nat (PAGE_SIZE - 1))) addr buf f"

definition flash_read_status :: "'f chip \<Rightarrow> u8 \<Rightarrow> 'f \<Rightarrow> u8 option" where
  "flash_read_status c cmd f = get_byte (flash_mspi_read_ram c cmd 0 False 0 1 f) 0"

datatype flash_status_type = FLASH_TYPE_8BIT_STATUS | FLASH_TYPE_16BIT_STATUS_ONE_CMD | FLASH_TYPE_16BIT_STATUS_TWO_CMD

definition flash_write_status :: "'f chip \<Rightarrow> flash_status_type \<Rightarrow> u16 \<Rightarrow> 'f \<Rightarrow> 'f" where
  "flash_write_status c type data f =
     (let buf = [ucast data, ucast (drop_bit 8 data)] in
      case type of
        FLASH_TYPE_8BIT_STATUS \<Rightarrow> flash_mspi_write_ram c FLASH_WRITE_STATUS_CMD_LOWBYTE 0 False (take 1 buf) f
      | FLASH_TYPE_16BIT_STATUS_ONE_CMD \<Rightarrow> flash_mspi_write_ram c FLASH_WRITE_STATUS_CMD_LOWBYTE 0 False buf f
      | FLASH_TYPE_16BIT_STATUS_TWO_CMD \<Rightarrow> f)"

definition flash_read_otp :: "'f chip \<Rightarrow> u32 \<Rightarrow> u32 \<Rightarrow> 'f \<Rightarrow> u8 list" where
  "flash_read_otp c addr len f = flash_mspi_read_ram c FLASH_READ_SECURITY_REGISTERS_CMD addr True 1 len f"

function write_otp_pages :: "'f chip \<Rightarrow> nat \<Rightarrow> u32 \<Rightarrow> u8 list \<Rightarrow> 'f \<Rightarrow> 'f" where
  "write_otp_pages c ns addr buf f =
     (let nw = (if ns < length buf then ns else length buf);
          f = flash_mspi_write_ram c FLASH_WRITE_SECURITY_REGISTERS_CMD addr True (take nw buf) f;
          buf = drop nw buf
      in if buf \<noteq> [] then write_otp_pages c PAGE_SIZE (addr + of_nat nw) buf f else f)"
  by pat_completeness auto
termination
  by (relation "measures [\<lambda>(c, ns, addr, buf, f). length buf, \<lambda>(c, ns, addr, buf, f). if ns = 0 then 1 else 0]")
    (auto simp: PAGE_SIZE_def)

declare write_otp_pages.simps [simp del]

definition flash_write_otp :: "'f chip \<Rightarrow> u32 \<Rightarrow> u8 list \<Rightarrow> 'f \<Rightarrow> 'f" where
  "flash_write_otp c addr buf f = write_otp_pages c (PAGE_SIZE - unat (addr AND of_nat (PAGE_SIZE - 1))) addr buf f"

definition flash_erase_otp :: "'f chip \<Rightarrow> u32 \<Rightarrow> 'f \<Rightarrow> 'f" where
  "flash_erase_otp c addr f = flash_mspi_write_ram c FLASH_ERASE_SECURITY_REGISTERS_CMD addr True [] f"

text \<open>Three bytes are read over an \<open>unsigned int\<close> that is 0 (little-endian).\<close>

definition flash_read_raw_mid :: "'f chip \<Rightarrow> 'f \<Rightarrow> u32 option" where
  "flash_read_raw_mid c f =
     (let m = flash_mspi_read_ram c FLASH_GET_JEDEC_ID 0 False 0 3 f in
      do { b0 \<leftarrow> get_byte m 0; b1 \<leftarrow> get_byte m 1; b2 \<leftarrow> get_byte m 2; Some (BYTES_TO_UINT32 b0 b1 b2 0) })"

definition flash_read_mid :: "'f chip \<Rightarrow> 'f \<Rightarrow> u32 option" where
  "flash_read_mid c f =
     (let m = flash_mspi_read_ram c FLASH_GET_JEDEC_ID 0 False 0 3 f in
      do { b0 \<leftarrow> get_byte m 0; b1 \<leftarrow> get_byte m 1; b2 \<leftarrow> get_byte m 2;
           let flash_mid = BYTES_TO_UINT32 b0 b1 b2 0;
           if flash_mid = 0x1460c8 then
             (let buf = flash_mspi_read_ram c 0x5a 0 True 1 4 f in
              Some (if buf = [0x53, 0x46, 0x44, 0x50] then 0x011460c8 else flash_mid))
           else if flash_mid = 0x13325e then
             (let sfdp_data = flash_mspi_read_ram c FLASH_GET_JEDEC_STATUS_CMD 0 True 1 1 f in
              Some (if sfdp_data \<noteq> [0x53] then flash_mid else 0x0113325e))
           else if flash_mid = 0x14325e then
             (let sfdp_data = flash_mspi_read_ram c FLASH_GET_JEDEC_STATUS_CMD 0 True 1 1 f in
              Some (if sfdp_data \<noteq> [0x53] then flash_mid else 0x0114325e))
           else Some flash_mid })"

text \<open>The buffer stays as it is for another command.\<close>

definition flash_read_uid :: "'f chip \<Rightarrow> u8 \<Rightarrow> 'f \<Rightarrow> u8 list option" where
  "flash_read_uid c idcmd f =
     (if idcmd = FLASH_READ_UID_CMD_GD_PUYA_ZB_TH then Some (flash_mspi_read_ram c idcmd 0 True 1 16 f) else None)"

definition FLASH_ETOX_ZB :: u32 where "FLASH_ETOX_ZB = 0x0100325E"
definition FLASH_ETOX_GD :: u32 where "FLASH_ETOX_GD = 0x010060C8"
definition FLASH_SONOS_PUYA :: u32 where "FLASH_SONOS_PUYA = 0x02006085"
definition FLASH_SONOS_TH :: u32 where "FLASH_SONOS_TH = 0x020060EB"
definition FLASH_SST_TH :: u32 where "FLASH_SST_TH = 0x040060CD"

definition flash_get_vendor :: "u32 \<Rightarrow> u32" where
  "flash_get_vendor flash_mid =
     (let m = flash_mid AND 0x0000ffff in
      if m = 0x0000325E then FLASH_ETOX_ZB
      else if m = 0x000060C8 then FLASH_ETOX_GD
      else if m = 0x00004051 then FLASH_ETOX_GD
      else if m = 0x00006085 then FLASH_SONOS_PUYA
      else if m = 0x000060EB then FLASH_SONOS_TH
      else if m = 0x000060CD then FLASH_SST_TH
      else 0)"

section \<open>What the chip promises\<close>

text \<open>The contents of the flash as a function: programming and erasing.\<close>

type_synonym mem = "nat \<Rightarrow> u8"

definition burn :: "nat \<Rightarrow> u8 list \<Rightarrow> mem \<Rightarrow> mem" where
  "burn a xs m = (\<lambda>b. if a \<le> b \<and> b < a + length xs then m b AND xs ! (b - a) else m b)"

definition wipe :: "nat \<Rightarrow> mem \<Rightarrow> mem" where
  "wipe a m = (\<lambda>b. if b div 4096 = a div 4096 then 0xFF else m b)"

definition nor_flash :: "nat \<Rightarrow> ('f \<Rightarrow> mem) \<Rightarrow> 'f chip \<Rightarrow> bool" where
  "nor_flash cap cell c \<longleftrightarrow>
     cap \<le> 2 ^ 24 \<and>
     (\<forall>a n f. a + n \<le> cap \<longrightarrow> bus_read c (0x03 # flash_send_addr (of_nat a)) n f = map (cell f) [a..<a + n]) \<and>
     (\<forall>a xs f. a + length xs \<le> cap \<longrightarrow> a mod 256 + length xs \<le> 256 \<longrightarrow>
        cell (bus_write c (0x02 # flash_send_addr (of_nat a) @ xs) (bus_write c [0x06] f)) = burn a xs (cell f)) \<and>
     (\<forall>a f. a < cap \<longrightarrow>
        cell (bus_write c (0x20 # flash_send_addr (of_nat a)) (bus_write c [0x06] f)) = wipe a (cell f))"

lemma burn_nil [simp]: "burn a [] m = m"
  by (auto simp: burn_def fun_eq_iff)

lemma burn_append: "burn (a + length xs) ys (burn a xs m) = burn a (xs @ ys) m"
  by (auto simp: burn_def nth_append fun_eq_iff)

lemma burn_take_drop: "n \<le> length xs \<Longrightarrow> burn (a + n) (drop n xs) (burn a (take n xs) m) = burn a xs m"
  using burn_append [of a "take n xs" "drop n xs" m] by simp

lemma burn_erased:
  assumes "\<forall>b. a \<le> b \<and> b < a + length xs \<longrightarrow> m b = 0xFF"
  shows "burn a xs m = (\<lambda>b. if a \<le> b \<and> b < a + length xs then xs ! (b - a) else m b)"
proof
  have ones: "0xFF AND x = x" for x :: u8
    unfolding and.commute [of "0xFF"] and_low_mask by (rule take_bit_word_eq_self) simp
  show "burn a xs m b = (if a \<le> b \<and> b < a + length xs then xs ! (b - a) else m b)" for b
    using assms by (simp add: burn_def ones)
qed

lemma map_cells:
  assumes "\<And>b. a \<le> b \<Longrightarrow> b < a + length xs \<Longrightarrow> m b = xs ! (b - a)"
  shows "map m [a..<a + length xs] = xs"
  by (rule nth_equalityI) (simp_all add: assms)

section \<open>The driver on such a chip\<close>

lemma unat_page_offset: "unat (addr AND of_nat (PAGE_SIZE - 1)) = unat addr mod 256" for addr :: u32
proof -
  have "addr AND of_nat (PAGE_SIZE - 1) = take_bit 8 addr"
    by (simp add: PAGE_SIZE_def and_low_mask)
  then show ?thesis
    by (simp only: unsigned_take_bit_eq) (simp add: take_bit_eq_mod)
qed

lemma program_pages_cells:
  assumes "nor_flash cap cell c" and "a + length xs \<le> cap" and "a mod 256 + ns = 256"
  shows "\<exists>f'. program_pages c False ns (of_nat a) xs f = Some f' \<and> cell f' = burn a xs (cell f)"
  using assms(2,3)
proof (induction xs arbitrary: a ns f rule: length_induct)
  case (1 xs)
  let ?nw = "if ns < length xs then ns else length xs"
  let ?f = "flash_mspi_write_ram c FLASH_WRITE_CMD (of_nat a) True (take ?nw xs) f"
  have ns: "0 < ns"
    using 1(3) mod_less_divisor [of 256 a] by linarith
  have f: "cell ?f = burn a (take ?nw xs) (cell f)"
    using assms(1) 1(2,3)
    by (auto simp: nor_flash_def flash_mspi_write_ram_def FLASH_WRITE_CMD_def FLASH_WRITE_ENABLE_CMD_def)
  show ?case
  proof (cases "ns < length xs")
    case False
    then show ?thesis
      using f by (subst program_pages.simps) simp
  next
    case True
    have next_page: "(a + ns) mod 256 + PAGE_SIZE = 256"
      using 1(3) by (simp add: PAGE_SIZE_def) (metis mod_add_left_eq mod_self)
    have rest: "length (drop ns xs) < length xs" "a + ns + length (drop ns xs) \<le> cap"
      using ns True 1(2) by simp_all
    obtain f' where f': "program_pages c False PAGE_SIZE (of_nat (a + ns)) (drop ns xs) ?f = Some f'"
        "cell f' = burn (a + ns) (drop ns xs) (cell ?f)"
      using 1(1) [rule_format, OF rest next_page, of ?f] by blast
    then show ?thesis
      using True f by (subst program_pages.simps) (simp add: Let_def burn_take_drop)
  qed
qed

lemma flash_page_program_cells:
  assumes "nor_flash cap cell c" and "a + length xs \<le> cap"
  shows "\<exists>f'. flash_page_program c False (of_nat a) xs f = Some f' \<and> cell f' = burn a xs (cell f)"
proof (cases "a < 2 ^ 32")
  case True
  then have page: "a mod 256 + (PAGE_SIZE - unat ((of_nat a :: u32) AND of_nat (PAGE_SIZE - 1))) = 256"
    unfolding unat_page_offset using mod_less_divisor [of 256 a]
    by (simp add: unat_of_nat PAGE_SIZE_def)
  show ?thesis
    unfolding flash_page_program_def by (rule program_pages_cells [OF assms page])
next
  case False
  then show ?thesis
    using assms by (simp add: nor_flash_def)
qed

lemma flash_read_data_cells:
  assumes "nor_flash cap cell c" and "a + unat n \<le> cap"
  shows "flash_read_data c (of_nat a) n f = map (cell f) [a..<a + unat n]"
  using assms by (simp add: flash_read_data_def flash_mspi_read_ram_def nor_flash_def FLASH_READ_CMD_def)

lemma flash_erase_sector_cells:
  assumes "nor_flash cap cell c" and "a < cap"
  shows "cell (flash_erase_sector c (of_nat a) f) = wipe a (cell f)"
  using assms
  by (simp add: flash_erase_sector_def flash_mspi_write_ram_def nor_flash_def FLASH_SECT_ERASE_CMD_def FLASH_WRITE_ENABLE_CMD_def)

section \<open>A chip with these properties\<close>

text \<open>A small simulator: the write enable latch and the contents.\<close>

definition bus_addr :: "u8 list \<Rightarrow> nat" where
  "bus_addr xs = unat (xs ! 0) * 65536 + unat (xs ! 1) * 256 + unat (xs ! 2)"

definition nor_chip :: "(bool \<times> mem) chip" where
  "nor_chip =
     \<lparr>bus_write = (\<lambda>xs (we, m).
        if xs = [0x06] then (True, m)
        else if \<not> we \<or> length xs < 4 then (we, m)
        else if hd xs = 0x02 then (False, burn (bus_addr (tl xs)) (drop 4 xs) m)
        else if hd xs = 0x20 then (False, wipe (bus_addr (tl xs)) m)
        else (we, m)),
      bus_read = (\<lambda>xs n (we, m). if hd xs = 0x03 then map m [bus_addr (tl xs)..<bus_addr (tl xs) + n] else replicate n 0)\<rparr>"

lemma bus_addr_send:
  assumes "a < 2 ^ 24"
  shows "bus_addr (flash_send_addr (of_nat a) @ xs) = a"
proof -
  have u: "unat (of_nat a :: u32) = a"
    using assms by (simp add: unat_of_nat)
  have q: "a div 65536 < 256" "a div 65536 = a div 256 div 256"
    using assms by (simp_all add: less_mult_imp_div_less div_mult2_eq [symmetric])
  have a: "a div 65536 * 65536 + a div 256 mod 256 * 256 + a mod 256 = a"
    using div_mult_mod_eq [of "a div 256" 256] div_mult_mod_eq [of a 256] unfolding q(2) by linarith
  show ?thesis
    unfolding bus_addr_def flash_send_addr_def append_Cons nth_Cons_0 nth_Cons_numeral One_nat_def nth_Cons_Suc
      unsigned_ucast_eq unsigned_drop_bit_eq u
    using q(1) a u by (simp add: unsigned_ucast_eq take_bit_eq_mod drop_bit_eq_div)
qed

lemma nor_chip_nor: "nor_flash (2 ^ 24 - 4096) snd nor_chip"
proof -
  have l: "length (flash_send_addr a) = 3" for a
    by (simp add: flash_send_addr_def)
  have ne: "0x02 # flash_send_addr a @ xs \<noteq> [0x06]" "0x20 # flash_send_addr a \<noteq> [0x06]" for a xs
    by (simp_all add: flash_send_addr_def)
  have n4: "\<not> length (0x02 # flash_send_addr a @ xs) < 4" "\<not> length (0x20 # flash_send_addr a) < 4" for a xs
    by (simp_all add: l)
  have d4: "drop 4 (0x02 # flash_send_addr a @ xs) = xs" for a xs
    by (simp add: l)
  show ?thesis
    unfolding nor_flash_def
    using bus_addr_send [where xs = "[]"]
    by (auto simp: nor_chip_def split_beta bus_addr_send ne n4 d4 l)
qed

section \<open>The theorem\<close>

text \<open>
  C17: \<open>flash_page_program\<close> stores: whatever pages the data cross, the bytes programmed into an erased
  range are those that \<open>flash_read_data\<close> reads there afterwards, and the rest of the flash is as it was.
\<close>

theorem flash_program_read_back:
  assumes "nor_flash cap cell c" and "a + length xs \<le> cap" and "\<forall>b. a \<le> b \<and> b < a + length xs \<longrightarrow> cell f b = 0xFF"
  shows "\<exists>f'. flash_page_program c False (of_nat a) xs f = Some f' \<and>
     flash_read_data c (of_nat a) (of_nat (length xs)) f' = xs \<and>
     (\<forall>b. b < a \<or> a + length xs \<le> b \<longrightarrow> cell f' b = cell f b)"
proof -
  obtain f' where f': "flash_page_program c False (of_nat a) xs f = Some f'" "cell f' = burn a xs (cell f)"
    using flash_page_program_cells [OF assms(1,2)] by blast
  have cells: "cell f' = (\<lambda>b. if a \<le> b \<and> b < a + length xs then xs ! (b - a) else cell f b)"
    unfolding f'(2) by (rule burn_erased [OF assms(3)])
  have n: "unat (of_nat (length xs) :: u32) = length xs"
    using assms(1,2) by (simp add: nor_flash_def unat_of_nat)
  have "flash_read_data c (of_nat a) (of_nat (length xs)) f' = map (cell f') [a..<a + length xs]"
    using flash_read_data_cells [OF assms(1), of a "of_nat (length xs)" f'] assms(2) by (simp only: n)
  also have "\<dots> = xs"
    by (rule map_cells) (simp add: cells)
  finally show ?thesis
    using f'(1) cells by auto
qed

theorem flash_program_read_back_witness:
  "\<exists>f'. flash_page_program nor_chip False (of_nat 254) [1, 2, 3, 4, 5] (False, \<lambda>_. 0xFF) = Some f' \<and>
     flash_read_data nor_chip (of_nat 254) (of_nat (length [1 :: u8, 2, 3, 4, 5])) f' = [1, 2, 3, 4, 5] \<and>
     (\<forall>b. b < 254 \<or> 254 + length [1 :: u8, 2, 3, 4, 5] \<le> b \<longrightarrow> snd f' b = snd (False, \<lambda>_. 0xFF :: u8) b)"
  by (rule flash_program_read_back [OF nor_chip_nor]) simp_all

end
