(* ===== verification/Dfu.thy ===== *)
theory Dfu
  imports Flash Hci_Fifo
begin

text \<open>
  The firmware update over HCI: \<^verbatim>\<open>vendor/common/hci_transport/hci_dfu.c\<close> and its port
  \<^verbatim>\<open>hci_dfu_port.c\<close>.  The state is the control block \<^verbatim>\<open>dfuCb\<close>, the flash, the ring of the HCI
  events that go to the host, the revision that is reported, and how often the chip was restarted.
  The clock and the state of the UART are arguments.
\<close>

section \<open>Constants\<close>

definition DFU_FW_VERSION :: u16 where "DFU_FW_VERSION = 0x0003"
definition DFU_NEW_FW_ADDR_BASE :: u32 where "DFU_NEW_FW_ADDR_BASE = 0x20000"
definition DFU_NEW_FW_MAX_SIZE :: u32 where "DFU_NEW_FW_MAX_SIZE = 0x20000 - 0x1000"
definition DFU_MAX_PAYLOAD :: nat where "DFU_MAX_PAYLOAD = 64"
definition DFU_TIMEOUT :: u32 where "DFU_TIMEOUT = 30"
definition DFU_RESEND_CNT :: u8 where "DFU_RESEND_CNT = 3"
definition DFU_CRC_INIT_VALUE :: u32 where "DFU_CRC_INIT_VALUE = 0xFFFFFFFF"
definition DFU_CHECKSUM_LEN :: u32 where "DFU_CHECKSUM_LEN = 4"

definition DFU_HCI_SUCCESS :: u8 where "DFU_HCI_SUCCESS = 0x00"
definition HCI_ERR_FW_VER :: u8 where "HCI_ERR_FW_VER = 0xA0"
definition HCI_ERR_DFU_DISABLED :: u8 where "HCI_ERR_DFU_DISABLED = 0xA2"
definition HCI_ERR_DFU_ENABLEED :: u8 where "HCI_ERR_DFU_ENABLEED = 0xA3"
definition HCI_ERR_FW_CHECKSUM :: u8 where "HCI_ERR_FW_CHECKSUM = 0xA4"
definition HCI_ERR_FW_CRC :: u8 where "HCI_ERR_FW_CRC = 0xA5"
definition HCI_ERR_FW_INCOMPLETE :: u8 where "HCI_ERR_FW_INCOMPLETE = 0xA6"
definition HCI_ERR_DATA_LENGTH :: u8 where "HCI_ERR_DATA_LENGTH = 0xA7"
definition HCI_ERR_INVALID_PARAM :: u8 where "HCI_ERR_INVALID_PARAM = 0xA8"
text \<open>The status of a command that is not allowed is the standard one of HCI (\<^verbatim>\<open>ble_common.h\<close>).\<close>
definition HCI_ERR_CMD_DISALLOWED :: u8 where "HCI_ERR_CMD_DISALLOWED = 0x0C"

definition DFU_STA_NONE :: u8 where "DFU_STA_NONE = 0"
definition DFU_STA_START :: u8 where "DFU_STA_START = 1"
definition DFU_STA_END :: u8 where "DFU_STA_END = 2"
definition DFU_STA_TERM :: u8 where "DFU_STA_TERM = 3"

definition HCI_OGF :: "u16 \<Rightarrow> u16" where "HCI_OGF opcode = drop_bit 10 opcode"
definition HCI_OCF :: "u16 \<Rightarrow> u16" where "HCI_OCF opcode = opcode AND 0x03ff"
definition HCI_OGF_VS :: u16 where "HCI_OGF_VS = 0x3F"
definition HCI_OCF_VS_START_DFU :: u16 where "HCI_OCF_VS_START_DFU = 0x0300"
definition HCI_OCF_VS_END_DFU :: u16 where "HCI_OCF_VS_END_DFU = 0x0301"
definition HCI_OCF_VS_FW_DATA :: u16 where "HCI_OCF_VS_FW_DATA = 0x0302"
definition HCI_OPCODE :: "u16 \<Rightarrow> u16 \<Rightarrow> u16" where "HCI_OPCODE ogf ocf = push_bit 10 ogf + ocf"
definition HCI_OPCODE_VS_START_DFU :: u16 where "HCI_OPCODE_VS_START_DFU = HCI_OPCODE HCI_OGF_VS HCI_OCF_VS_START_DFU"
definition HCI_OPCODE_VS_END_DFU :: u16 where "HCI_OPCODE_VS_END_DFU = HCI_OPCODE HCI_OGF_VS HCI_OCF_VS_END_DFU"
definition HCI_OPCODE_VS_FW_DATA :: u16 where "HCI_OPCODE_VS_FW_DATA = HCI_OPCODE HCI_OGF_VS HCI_OCF_VS_FW_DATA"

section \<open>State\<close>

record 'f dfu =
  newFwAddrStart :: u32
  maxFwSize :: u32
  nextFwAddrStart :: u32
  newFwSize :: u32
  fwOffset :: u32
  curCrc :: u32
  dfu_timer :: u32
  status :: u8
  resendCnt :: u8
  bltHci_txfifo :: hci_fifo
  flash :: 'f
  revision :: u16
  reboots :: nat

section \<open>The port (hci_dfu_port.c)\<close>

function FLASH_WritePage :: "'f chip \<Rightarrow> u32 \<Rightarrow> u8 list \<Rightarrow> 'f \<Rightarrow> 'f option" where
  "FLASH_WritePage c addr pData f =
     (if pData = [] then Some f
      else
        (let dataLen = (if 16 \<le> length pData then 16 else length pData) in
         do { f \<leftarrow> flash_page_program c False addr (take dataLen pData) f;
              FLASH_WritePage c (addr + of_nat dataLen) (drop dataLen pData) f }))"
  by pat_completeness auto
termination
  by (relation "measure (\<lambda>(c, addr, pData, f). length pData)") auto

declare FLASH_WritePage.simps [simp del]

definition FLASH_ReadPage :: "'f chip \<Rightarrow> u32 \<Rightarrow> u32 \<Rightarrow> 'f \<Rightarrow> u8 list" where
  "FLASH_ReadPage c addr len f = flash_read_data c addr len f"

definition FLASH_EraseSector :: "'f chip \<Rightarrow> u32 \<Rightarrow> 'f \<Rightarrow> 'f" where
  "FLASH_EraseSector c addr f = flash_erase_sector c addr f"

definition UART_IsBusy :: "bool \<Rightarrow> bool" where
  "UART_IsBusy isUartTxDone = (if isUartTxDone then False else True)"

definition MCU_Reset :: "'f dfu \<Rightarrow> 'f dfu" where
  "MCU_Reset s = s\<lparr>reboots := Suc (reboots s)\<rparr>"

definition Hci_Revision :: "'f dfu \<Rightarrow> u16" where "Hci_Revision s = revision s"
definition Hci_SetRevision :: "u16 \<Rightarrow> 'f dfu \<Rightarrow> 'f dfu" where "Hci_SetRevision r s = s\<lparr>revision := r\<rparr>"

text \<open>The difference of the two 8-bit pointers is computed in \<open>int\<close>.\<close>

definition tx_full :: "hci_fifo \<Rightarrow> bool" where
  "tx_full f \<longleftrightarrow> int (unat (fnum f)) \<le> int (unat (wptr f)) - int (unat (rptr f))"

definition Hci_SendCmdCmplEvt :: "u16 \<Rightarrow> u8 list \<Rightarrow> 'f dfu \<Rightarrow> 'f dfu option" where
  "Hci_SendCmdCmplEvt opcode pParam s =
     (if tx_full (bltHci_txfifo s) then Some s
      else
        do { f \<leftarrow> fifo_push (bltHci_txfifo s)
               (UINT16_TO_BSTREAM (of_nat (1 + 2 + 3 + length pParam)) @
                [0x04, 0x0E, of_nat (3 + length pParam), 1] @ UINT16_TO_BSTREAM opcode @ pParam);
             Some (s\<lparr>bltHci_txfifo := f\<rparr>) })"

definition Hci_SendCmdCmplStatusEvt :: "u16 \<Rightarrow> u8 \<Rightarrow> 'f dfu \<Rightarrow> 'f dfu option" where
  "Hci_SendCmdCmplStatusEvt opcode st s = Hci_SendCmdCmplEvt opcode [st] s"

definition Hci_SendCmdStatusEvt :: "u16 \<Rightarrow> u8 \<Rightarrow> 'f dfu \<Rightarrow> 'f dfu option" where
  "Hci_SendCmdStatusEvt opcode st s =
     (if tx_full (bltHci_txfifo s) then Some s
      else
        do { f \<leftarrow> fifo_push (bltHci_txfifo s)
               (UINT16_TO_BSTREAM (of_nat (1 + 2 + 4)) @ [0x04, 0x0F, 4, st, 1] @ UINT16_TO_BSTREAM opcode);
             Some (s\<lparr>bltHci_txfifo := f\<rparr>) })"

section \<open>The check sum\<close>

definition crc32_bit :: "u32 \<Rightarrow> u32" where
  "crc32_bit crc = (if crc AND 1 \<noteq> 0 then drop_bit 1 crc XOR 0xEDB88320 else drop_bit 1 crc)"

fun DFU_Crc32Calc :: "u32 \<Rightarrow> u8 list \<Rightarrow> u32" where
  "DFU_Crc32Calc crc [] = crc"
| "DFU_Crc32Calc crc (x # xs) = DFU_Crc32Calc ((crc32_bit ^^ 8) (crc XOR ucast x)) xs"

section \<open>The update (hci_dfu.c)\<close>

definition DFU_isEnable :: "'f dfu \<Rightarrow> bool" where
  "DFU_isEnable s \<longleftrightarrow> status s = DFU_STA_START"

definition DFU_Reset :: "'f dfu \<Rightarrow> 'f dfu" where
  "DFU_Reset s =
     s\<lparr>newFwSize := 0, fwOffset := 0, curCrc := DFU_CRC_INIT_VALUE, dfu_timer := 0, status := 0, resendCnt := 0\<rparr>"

text \<open>The code from the label \<open>DFU_START\<close> on.\<close>

definition dfu_start :: "u32 \<Rightarrow> u16 \<Rightarrow> u32 \<Rightarrow> 'f dfu \<Rightarrow> 'f dfu option" where
  "dfu_start now opcode fwSize s =
     (let s = (DFU_Reset s)\<lparr>status := DFU_STA_START, newFwSize := fwSize, dfu_timer := now OR 1\<rparr>
      in Hci_SendCmdCmplEvt opcode [DFU_HCI_SUCCESS, of_nat DFU_MAX_PAYLOAD, 0] s)"

text \<open>\<open>pPkt\<close> is the whole packet; the parameters begin at offset 4.\<close>

definition DFU_StartDfuCmdHandler :: "u32 \<Rightarrow> u8 list \<Rightarrow> 'f dfu \<Rightarrow> 'f dfu option" where
  "DFU_StartDfuCmdHandler now pPkt s =
     do { p \<leftarrow> get_bytes pPkt 4 7;
          let opcode = HCI_OPCODE_VS_START_DFU;
          let dfuMode = p ! 0;
          let fwVer = BYTES_TO_UINT16 (p ! 1) (p ! 2);
          let fwSize = BYTES_TO_UINT32 (p ! 3) (p ! 4) (p ! 5) (p ! 6);
          if status s = DFU_STA_START then Hci_SendCmdCmplStatusEvt opcode HCI_ERR_DFU_ENABLEED s
          else if maxFwSize s < fwSize then Hci_SendCmdCmplStatusEvt opcode HCI_ERR_INVALID_PARAM (DFU_Reset s)
          else if dfuMode = 1 then dfu_start now opcode fwSize s
          else if dfuMode = 2 then
            (if fwVer \<le> Hci_Revision s then Hci_SendCmdCmplStatusEvt opcode HCI_ERR_FW_VER s
             else dfu_start now opcode fwSize s)
          else if dfuMode = 3 then
            (if Hci_Revision s \<le> fwVer then Hci_SendCmdCmplStatusEvt opcode HCI_ERR_FW_VER s
             else dfu_start now opcode fwSize s)
          else Hci_SendCmdCmplStatusEvt opcode HCI_ERR_INVALID_PARAM s }"

definition DFU_EndDfuCmdHandler :: "'f chip \<Rightarrow> u32 \<Rightarrow> u8 list \<Rightarrow> 'f dfu \<Rightarrow> 'f dfu option" where
  "DFU_EndDfuCmdHandler c now pPkt s =
     do { endMode \<leftarrow> get_byte pPkt 4;
          let opcode = HCI_OPCODE_VS_END_DFU;
          let s = s\<lparr>dfu_timer := now OR 1\<rparr>;
          if endMode = 0 then
            (if fwOffset s \<noteq> newFwSize s then
               do { s \<leftarrow> Hci_SendCmdCmplStatusEvt opcode HCI_ERR_FW_INCOMPLETE s; Some (s\<lparr>status := DFU_STA_TERM\<rparr>) }
             else if curCrc s \<noteq> 0 then
               do { s \<leftarrow> Hci_SendCmdCmplStatusEvt opcode HCI_ERR_FW_CRC s; Some (s\<lparr>status := DFU_STA_TERM\<rparr>) }
             else
               do { f \<leftarrow> FLASH_WritePage c (nextFwAddrStart s + 0x8) [0x4b] (flash s);
                    let baswAddr = (if nextFwAddrStart s = 0 then newFwAddrStart s else 0);
                    f \<leftarrow> FLASH_WritePage c (baswAddr + 0x8) [0x00] f;
                    s \<leftarrow> Hci_SendCmdCmplStatusEvt opcode DFU_HCI_SUCCESS (s\<lparr>flash := f\<rparr>);
                    Some (s\<lparr>status := DFU_STA_END\<rparr>) })
          else if endMode = 1 then
            Hci_SendCmdCmplStatusEvt opcode DFU_HCI_SUCCESS (s\<lparr>status := DFU_STA_TERM\<rparr>)
          else Hci_SendCmdCmplStatusEvt opcode HCI_ERR_INVALID_PARAM s }"

text \<open>The branch of \<open>DFU_FwDataCmdHandler\<close> that stores a packet.\<close>

definition dfu_store :: "'f chip \<Rightarrow> u8 list \<Rightarrow> nat \<Rightarrow> 'f dfu \<Rightarrow> 'f dfu option" where
  "dfu_store c pPkt dataLen s =
     do { (bootFlag, pPkt) \<leftarrow>
            (if fwOffset s = 0 \<and> 0x8 \<le> dataLen then
               do { b \<leftarrow> get_byte pPkt (4 + 8); p \<leftarrow> put_byte pPkt (4 + 8) 0xff; Some (b, p) }
             else Some (0, pPkt));
          payload \<leftarrow> get_bytes pPkt 4 dataLen;
          f \<leftarrow> FLASH_WritePage c (nextFwAddrStart s + fwOffset s) payload (flash s);
          buf \<leftarrow> put_bytes (replicate (DFU_MAX_PAYLOAD + 4) 0) 0
                  (FLASH_ReadPage c (nextFwAddrStart s + fwOffset s) (of_nat dataLen) f);
          buf \<leftarrow> (if fwOffset s = 0 then put_byte buf 8 bootFlag else Some buf);
          Some (s\<lparr>flash := f, curCrc := DFU_Crc32Calc (curCrc s) (take dataLen buf),
                 fwOffset := fwOffset s + of_nat dataLen\<rparr>) }"

text \<open>
  The check sum behind the data is read into a local variable that is not used; where \<open>len\<close> is less
  than 4 the 32-bit difference wraps, and so does the pointer.
\<close>

definition DFU_FwDataCmdHandler :: "'f chip \<Rightarrow> u32 \<Rightarrow> u8 list \<Rightarrow> u32 \<Rightarrow> 'f dfu \<Rightarrow> 'f dfu option" where
  "DFU_FwDataCmdHandler c now pPkt len s =
     (let opcode = HCI_OPCODE_VS_FW_DATA; dataLen = len - DFU_CHECKSUM_LEN in
      do { checkSum \<leftarrow> get_bytes pPkt (unat (4 + dataLen)) 4;
           if DFU_RESEND_CNT \<le> resendCnt s then Some s
           else
             (let s = s\<lparr>dfu_timer := now OR 1\<rparr> in
              if status s \<noteq> DFU_STA_START then Hci_SendCmdStatusEvt opcode HCI_ERR_DFU_DISABLED s
              else if of_nat DFU_MAX_PAYLOAD < dataLen then Hci_SendCmdStatusEvt opcode HCI_ERR_DATA_LENGTH s
              else
                do { params \<leftarrow> get_bytes pPkt 4 (unat len);
                     if DFU_Crc32Calc DFU_CRC_INIT_VALUE params \<noteq> 0 then
                       Hci_SendCmdStatusEvt opcode HCI_ERR_FW_CHECKSUM (s\<lparr>resendCnt := resendCnt s + 1\<rparr>)
                     else
                       (let s = s\<lparr>resendCnt := 0\<rparr> in
                        if fwOffset s < newFwSize s then
                          do { s \<leftarrow> dfu_store c pPkt (unat dataLen) s;
                               Hci_SendCmdStatusEvt opcode DFU_HCI_SUCCESS s }
                        else Hci_SendCmdStatusEvt opcode HCI_ERR_FW_INCOMPLETE s) }) })"

definition DFU_CmdHandler :: "'f chip \<Rightarrow> u32 \<Rightarrow> u8 list \<Rightarrow> 'f dfu \<Rightarrow> 'f dfu option" where
  "DFU_CmdHandler c now pPkt s =
     do { h \<leftarrow> get_bytes pPkt 1 3;
          let opcode = BYTES_TO_UINT16 (h ! 0) (h ! 1);
          let paramLen = ucast (h ! 2);
          if opcode = HCI_OPCODE_VS_START_DFU then DFU_StartDfuCmdHandler now pPkt s
          else if opcode = HCI_OPCODE_VS_FW_DATA then DFU_FwDataCmdHandler c now pPkt paramLen s
          else if opcode = HCI_OPCODE_VS_END_DFU then DFU_EndDfuCmdHandler c now pPkt s
          else Hci_SendCmdStatusEvt opcode HCI_ERR_CMD_DISALLOWED s }"

definition DFU_Handler :: "'f chip \<Rightarrow> u32 \<Rightarrow> u8 list \<Rightarrow> 'f dfu \<Rightarrow> (int \<times> 'f dfu) option" where
  "DFU_Handler c now p s =
     do { h \<leftarrow> get_bytes p 1 2;
          let opcode = BYTES_TO_UINT16 (h ! 0) (h ! 1);
          if HCI_OGF_VS = HCI_OGF opcode \<or> DFU_isEnable s then
            (if HCI_OCF_VS_START_DFU \<le> HCI_OCF opcode \<and> HCI_OCF opcode \<le> HCI_OCF_VS_FW_DATA \<or> DFU_isEnable s then
               do { s \<leftarrow> DFU_CmdHandler c now p s; Some (1, s) }
             else Some (0, s))
          else Some (0, s) }"

text \<open>The loop over the sectors of the area.\<close>

function erase_sectors :: "'f chip \<Rightarrow> u32 \<Rightarrow> nat \<Rightarrow> nat \<Rightarrow> 'f \<Rightarrow> 'f" where
  "erase_sectors c start i area f =
     (if i < area then erase_sectors c start (i + 0x1000) area (FLASH_EraseSector c (start + of_nat i) f) else f)"
  by pat_completeness auto
termination
  by (relation "measure (\<lambda>(c, start, i, area, f). area - i)") auto

declare erase_sectors.simps [simp del]

definition dfu_word :: "'f chip \<Rightarrow> u32 \<Rightarrow> 'f \<Rightarrow> u32 option" where
  "dfu_word c addr f =
     (let m = FLASH_ReadPage c addr 4 f in
      do { b0 \<leftarrow> get_byte m 0; b1 \<leftarrow> get_byte m 1; b2 \<leftarrow> get_byte m 2; b3 \<leftarrow> get_byte m 3; Some (BYTES_TO_UINT32 b0 b1 b2 b3) })"

definition DFU_EraseNewFwArea :: "'f chip \<Rightarrow> 'f dfu \<Rightarrow> 'f dfu option" where
  "DFU_EraseNewFwArea c s =
     do { tmp1 \<leftarrow> dfu_word c (nextFwAddrStart s) (flash s);
          tmp2 \<leftarrow> dfu_word c (nextFwAddrStart s + (maxFwSize s div 0x1000 div 2) * 0x1000) (flash s);
          tmp3 \<leftarrow> dfu_word c (nextFwAddrStart s + maxFwSize s - 4) (flash s);
          if tmp1 \<noteq> 0xFFFFFFFF \<or> tmp2 \<noteq> 0xFFFFFFFF \<or> tmp3 \<noteq> 0xFFFFFFFF then
            Some (s\<lparr>flash := erase_sectors c (nextFwAddrStart s) 0 (unat (maxFwSize s)) (flash s)\<rparr>)
          else Some s }"

text \<open>\<open>ota_program_offset\<close> is a variable of the controller library.\<close>

definition DFU_Init :: "'f chip \<Rightarrow> u32 \<Rightarrow> 'f dfu \<Rightarrow> 'f dfu option" where
  "DFU_Init c ota_program_offset s =
     (let s = s\<lparr>newFwAddrStart := DFU_NEW_FW_ADDR_BASE, maxFwSize := DFU_NEW_FW_MAX_SIZE,
                nextFwAddrStart := ota_program_offset, newFwSize := 0, fwOffset := 0, curCrc := 0,
                dfu_timer := 0, status := 0, resendCnt := 0\<rparr>
      in do { s \<leftarrow> DFU_EraseNewFwArea c s; Some (Hci_SetRevision DFU_FW_VERSION s) })"

definition DFU_TaskStart :: "'f chip \<Rightarrow> u32 \<Rightarrow> bool \<Rightarrow> 'f dfu \<Rightarrow> 'f dfu option" where
  "DFU_TaskStart c now isUartTxDone s =
     (let idle = (wptr (bltHci_txfifo s) = rptr (bltHci_txfifo s) \<and> \<not> UART_IsBusy isUartTxDone) in
      if status s = DFU_STA_END \<and> idle then Some (MCU_Reset (s\<lparr>status := DFU_STA_NONE\<rparr>))
      else
        do { s \<leftarrow> (if status s = DFU_STA_TERM \<and> idle then DFU_EraseNewFwArea c (DFU_Reset (s\<lparr>status := DFU_STA_NONE\<rparr>))
                  else Some s);
             if dfu_timer s \<noteq> 0 \<and> clock_time_exceed now (dfu_timer s) (DFU_TIMEOUT * 1000 * 1000) then
               do { s \<leftarrow> DFU_EraseNewFwArea c s; Some (DFU_Reset s) }
             else Some s })"

end
