(* ===== verification/Dfu_Steps.thy ===== *)
theory Dfu_Steps
  imports Dfu Safe_System
begin

text \<open>
  What each operation of the firmware update does: the flash it leaves, written with \<open>burn\<close> and
  \<open>wipe\<close>, and the control block.  The events to the host only touch the ring (\<open>tx_ok\<close>).
\<close>

section \<open>The port\<close>

lemma FLASH_WritePage_cells:
  assumes "nor_flash cap cell c" and "a + length xs \<le> cap"
  shows "\<exists>f'. FLASH_WritePage c (of_nat a) xs f = Some f' \<and> cell f' = burn a xs (cell f)"
  using assms(2)
proof (induction xs arbitrary: a f rule: length_induct)
  case (1 xs)
  show ?case
  proof (cases "xs = []")
    case False
    let ?n = "if 16 \<le> length xs then 16 else length xs"
    have n: "length (take ?n xs) = ?n" "?n \<le> length xs"
      by auto
    obtain f1 where f1: "flash_page_program c False (of_nat a) (take ?n xs) f = Some f1"
        "cell f1 = burn a (take ?n xs) (cell f)"
      using flash_page_program_cells [OF assms(1), of a "take ?n xs" f] 1(2) n by auto
    have rest: "length (drop ?n xs) < length xs" "a + ?n + length (drop ?n xs) \<le> cap"
      using 1(2) False by auto
    obtain f2 where f2: "FLASH_WritePage c (of_nat (a + ?n)) (drop ?n xs) f1 = Some f2"
        "cell f2 = burn (a + ?n) (drop ?n xs) (cell f1)"
      using 1(1) [rule_format, OF rest, of f1] by blast
    have "FLASH_WritePage c (of_nat a) xs f = Some f2"
      using False f1(1) f2(1) by (subst FLASH_WritePage.simps) (simp add: Let_def)
    moreover have "cell f2 = burn a xs (cell f)"
      unfolding f2(2) f1(2) by (rule burn_take_drop [OF n(2)])
    ultimately show ?thesis
      by blast
  qed (simp add: FLASH_WritePage.simps)
qed

definition tx_ok :: "hci_fifo \<Rightarrow> bool" where
  "tx_ok f \<longleftrightarrow> fifo_wf f \<and> 11 \<le> unat (fsize f)"

lemma tx_push:
  assumes "tx_ok f" and "length xs \<le> 11"
  shows "\<exists>f'. fifo_push f xs = Some f' \<and> tx_ok f'"
proof -
  have "fifo_slot f (wptr f) + length xs \<le> length (fp f)"
    using fifo_slot_fits [of f "wptr f"] assms by (simp add: tx_ok_def)
  then show ?thesis
    using assms(1) by (auto simp: fifo_push_def put_bytes_def tx_ok_def fifo_wf_def)
qed

lemma evt_cmpl:
  assumes "tx_ok (bltHci_txfifo s)" and "length p \<le> 3"
  shows "\<exists>f. Hci_SendCmdCmplEvt op p s = Some (s\<lparr>bltHci_txfifo := f\<rparr>) \<and> tx_ok f"
proof (cases "tx_full (bltHci_txfifo s)")
  case True
  then show ?thesis
    using assms(1) by (intro exI [of _ "bltHci_txfifo s"]) (simp add: Hci_SendCmdCmplEvt_def)
next
  case False
  let ?e = "UINT16_TO_BSTREAM (of_nat (1 + 2 + 3 + length p)) @ [0x04, 0x0E, of_nat (3 + length p), 1] @
      UINT16_TO_BSTREAM op @ p"
  have "length ?e \<le> 11"
    using assms(2) by simp
  then obtain f where "fifo_push (bltHci_txfifo s) ?e = Some f" "tx_ok f"
    using tx_push [OF assms(1)] by blast
  then show ?thesis
    using False by (intro exI [of _ f]) (simp add: Hci_SendCmdCmplEvt_def)
qed

lemma evt_cmpl_status:
  "tx_ok (bltHci_txfifo s) \<Longrightarrow> \<exists>f. Hci_SendCmdCmplStatusEvt op st s = Some (s\<lparr>bltHci_txfifo := f\<rparr>) \<and> tx_ok f"
  unfolding Hci_SendCmdCmplStatusEvt_def by (rule evt_cmpl) simp_all

lemma evt_status:
  assumes "tx_ok (bltHci_txfifo s)"
  shows "\<exists>f. Hci_SendCmdStatusEvt op st s = Some (s\<lparr>bltHci_txfifo := f\<rparr>) \<and> tx_ok f"
proof (cases "tx_full (bltHci_txfifo s)")
  case True
  then show ?thesis
    using assms by (intro exI [of _ "bltHci_txfifo s"]) (simp add: Hci_SendCmdStatusEvt_def)
next
  case False
  let ?e = "UINT16_TO_BSTREAM (of_nat (1 + 2 + 4)) @ [0x04, 0x0F, 4, st, 1] @ UINT16_TO_BSTREAM op"
  have "length ?e \<le> 11"
    by simp
  then obtain f where "fifo_push (bltHci_txfifo s) ?e = Some f" "tx_ok f"
    using tx_push [OF assms] by blast
  then show ?thesis
    using False by (intro exI [of _ f]) (simp add: Hci_SendCmdStatusEvt_def)
qed

section \<open>The check sum\<close>

lemma crc32_shift: "(\<And>i. i < k \<Longrightarrow> \<not> bit x i) \<Longrightarrow> (crc32_bit ^^ k) x = drop_bit k x"
proof (induction k arbitrary: x)
  case (Suc k)
  have "x AND 1 = 0"
    using Suc.prems [of 0] by (intro bit_word_eqI) (auto simp: bit_and_iff bit_1_iff intro: gr0I)
  then have "crc32_bit x = drop_bit 1 x"
    by (simp add: crc32_bit_def)
  moreover have "(crc32_bit ^^ k) (drop_bit 1 x) = drop_bit k (drop_bit 1 x)"
    using Suc.prems by (intro Suc.IH) (simp add: bit_drop_bit_eq)
  ultimately show ?case
    by (simp add: funpow_swap1)
qed simp

lemma crc32_low_byte: "DFU_Crc32Calc crc (ucast crc # xs) = DFU_Crc32Calc (drop_bit 8 crc) xs"
proof -
  have "(crc32_bit ^^ 8) (crc XOR ucast (ucast crc :: u8)) = drop_bit 8 (crc XOR ucast (ucast crc :: u8))"
    by (rule crc32_shift) (simp add: word_bit_simps)
  also have "\<dots> = drop_bit 8 crc"
    by (rule bit_word_eqI) (auto simp: word_bit_simps)
  finally show ?thesis
    by simp
qed

lemma crc32_append: "DFU_Crc32Calc crc (xs @ ys) = DFU_Crc32Calc (DFU_Crc32Calc crc xs) ys"
  by (induction xs arbitrary: crc) simp_all

text \<open>The check sum of data followed by its check sum is 0.\<close>

lemma crc32_residue: "DFU_Crc32Calc crc (xs @ UINT32_TO_BSTREAM (DFU_Crc32Calc crc xs)) = 0"
proof -
  have "DFU_Crc32Calc y (UINT32_TO_BSTREAM y) = 0" for y
  proof -
    have d: "drop_bit 8 (drop_bit 8 y) = drop_bit 16 y" "drop_bit 8 (drop_bit 16 y) = drop_bit 24 y"
      by simp_all
    have z: "drop_bit 8 (drop_bit 24 y) = 0"
      by (rule bit_word_eqI) (auto simp: bit_drop_bit_eq dest: bit_imp_le_length)
    show ?thesis
      unfolding UINT32_TO_BSTREAM_def crc32_low_byte d z by simp
  qed
  then show ?thesis
    by (simp add: crc32_append)
qed

section \<open>A packet of firmware\<close>

text \<open>What a packet with \<open>n\<close> bytes of firmware brings to the flash, and the byte it hides at the start.\<close>

definition dfu_first :: "nat \<Rightarrow> 'f dfu \<Rightarrow> bool" where
  "dfu_first n s \<longleftrightarrow> fwOffset s = 0 \<and> 8 \<le> n"

definition dfu_payload :: "u8 list \<Rightarrow> nat \<Rightarrow> 'f dfu \<Rightarrow> u8 list" where
  "dfu_payload p n s = take n (drop 4 (if dfu_first n s then p[12 := 0xff] else p))"

definition dfu_flag :: "u8 list \<Rightarrow> nat \<Rightarrow> 'f dfu \<Rightarrow> u8" where
  "dfu_flag p n s = (if dfu_first n s then p ! 12 else 0)"

abbreviation dfu_area :: "'f dfu \<Rightarrow> nat" where
  "dfu_area s \<equiv> unat (nextFwAddrStart s)"

definition dfu_written :: "('f \<Rightarrow> mem) \<Rightarrow> 'f dfu \<Rightarrow> nat \<Rightarrow> 'f \<Rightarrow> u8 \<Rightarrow> u8 list" where
  "dfu_written cell s n f flag =
     (let m = map (cell f) [dfu_area s + unat (fwOffset s)..<dfu_area s + unat (fwOffset s) + n]
      in if fwOffset s = 0 then m[8 := flag] else m)"

lemma dfu_store_spec:
  assumes nor: "nor_flash cap cell c" and n: "n \<le> 64" "4 + n \<le> length p" "fwOffset s = 0 \<and> 8 \<le> n \<longrightarrow> 12 < length p"
    and room: "dfu_area s + unat (fwOffset s) + n \<le> cap"
  shows "\<exists>f'. dfu_store c p n s =
      Some (s\<lparr>flash := f', curCrc := DFU_Crc32Calc (curCrc s) (dfu_written cell s n f' (dfu_flag p n s)),
              fwOffset := fwOffset s + of_nat n\<rparr>) \<and>
    cell f' = burn (dfu_area s + unat (fwOffset s)) (dfu_payload p n s) (cell (flash s))"
proof -
  let ?a = "dfu_area s + unat (fwOffset s)"
  let ?p = "if dfu_first n s then p[12 := 0xff] else p"
  have a: "nextFwAddrStart s + fwOffset s = of_nat ?a"
    by simp
  have len: "length (dfu_payload p n s) = n"
    using n by (simp add: dfu_payload_def)
  have pay: "get_bytes ?p 4 n = Some (dfu_payload p n s)"
    using n by (simp add: get_bytes_def dfu_payload_def)
  obtain f' where f': "FLASH_WritePage c (of_nat ?a) (dfu_payload p n s) (flash s) = Some f'"
      "cell f' = burn ?a (dfu_payload p n s) (cell (flash s))"
    using FLASH_WritePage_cells [OF nor, of ?a "dfu_payload p n s" "flash s"] room len by auto
  let ?m = "map (cell f') [?a..<?a + n]"
  have n32: "unat (of_nat n :: u32) = n"
    using n(1) by (simp add: unat_of_nat)
  have read: "FLASH_ReadPage c (of_nat ?a) (of_nat n) f' = ?m"
    unfolding FLASH_ReadPage_def
    using flash_read_data_cells [OF nor, of ?a "of_nat n" f'] room by (simp only: n32)
  have buf: "put_bytes (replicate (DFU_MAX_PAYLOAD + 4) 0) 0 ?m = Some (?m @ replicate (68 - n) 0)"
    using n(1) by (simp add: put_bytes_def DFU_MAX_PAYLOAD_def)
  have flag: "(if fwOffset s = 0 then put_byte (?m @ replicate (68 - n) 0) 8 (dfu_flag p n s) else Some (?m @ replicate (68 - n) 0)) =
      Some (if fwOffset s = 0 then (?m @ replicate (68 - n) 0)[8 := dfu_flag p n s] else ?m @ replicate (68 - n) 0)"
    using n(1) by (simp add: put_byte_def)
  have take: "take n (if fwOffset s = 0 then (?m @ replicate (68 - n) 0)[8 := dfu_flag p n s] else ?m @ replicate (68 - n) 0) =
      dfu_written cell s n f' (dfu_flag p n s)"
    by (simp add: dfu_written_def Let_def take_update_swap)
  have first: "(if fwOffset s = 0 \<and> 0x8 \<le> n then
      do { b \<leftarrow> get_byte p (4 + 8); p \<leftarrow> put_byte p (4 + 8) 0xff; Some (b, p) } else Some (0, p)) =
      Some (dfu_flag p n s, ?p)"
    using n(3) by (simp add: dfu_flag_def dfu_first_def get_byte_def put_byte_def)
  have "dfu_store c p n s =
      Some (s\<lparr>flash := f', curCrc := DFU_Crc32Calc (curCrc s) (dfu_written cell s n f' (dfu_flag p n s)),
              fwOffset := fwOffset s + of_nat n\<rparr>)"
    unfolding dfu_store_def first a by (simp only: Option.bind.simps prod.case pay f'(1) read buf flag take)
  with f'(2) show ?thesis
    by blast
qed

section \<open>Erasing\<close>

lemma erase_sectors_cells:
  assumes "nor_flash cap cell c" and "4096 dvd a" and "a + n \<le> cap" and "4096 dvd i"
  shows "(\<forall>b. a + i \<le> b \<and> b < a + n \<longrightarrow> cell (erase_sectors c (of_nat a) i n f) b = 0xFF) \<and>
    (\<forall>b. cell (erase_sectors c (of_nat a) i n f) b \<in> {0xFF, cell f b})"
  using assms(4)
proof (induction "n - i" arbitrary: i f rule: less_induct)
  case less
  show ?case
  proof (cases "i < n")
    case True
    let ?f = "flash_erase_sector c (of_nat (a + i)) f"
    have f: "cell ?f = wipe (a + i) (cell f)"
      using flash_erase_sector_cells [OF assms(1), of "a + i" f] assms(3) True by simp
    have e: "erase_sectors c (of_nat a) i n f = erase_sectors c (of_nat a) (i + 0x1000) n ?f"
      using True by (subst erase_sectors.simps) (simp add: FLASH_EraseSector_def)
    have IH: "\<forall>b. a + (i + 0x1000) \<le> b \<and> b < a + n \<longrightarrow> cell (erase_sectors c (of_nat a) (i + 0x1000) n ?f) b = 0xFF"
      "\<forall>b. cell (erase_sectors c (of_nat a) (i + 0x1000) n ?f) b \<in> {0xFF, cell ?f b}"
      using less(1) [of "i + 0x1000" ?f] less(2) True by auto
    obtain k where k: "a + i = 4096 * k"
      using assms(2) less(2) dvd_add [of 4096 a i] by (auto simp: dvd_def)
    have sector: "b div 4096 = (a + i) div 4096" if "a + i \<le> b" "b < a + (i + 0x1000)" for b
    proof -
      have "b div 4096 = k"
        using that k by (intro div_nat_eqI) simp_all
      then show ?thesis
        by (simp add: k)
    qed
    have now: "cell (erase_sectors c (of_nat a) (i + 0x1000) n ?f) b = 0xFF" if "a + i \<le> b" "b < a + (i + 0x1000)" for b
      using IH(2) [rule_format, of b] sector [OF that] unfolding f wipe_def by auto
    have other: "cell (erase_sectors c (of_nat a) (i + 0x1000) n ?f) b \<in> {0xFF, cell f b}" for b
      using IH(2) [rule_format, of b] unfolding f wipe_def by (auto split: if_splits)
    show ?thesis
      unfolding e
    proof (intro conjI allI impI)
      fix b
      assume "a + i \<le> b \<and> b < a + n"
      then show "cell (erase_sectors c (of_nat a) (i + 0x1000) n ?f) b = 0xFF"
        using IH(1) now [of b] by (cases "b < a + (i + 0x1000)") auto
    qed (rule other)
  next
    case False
    then show ?thesis
      by (subst (1 2) erase_sectors.simps) auto
  qed
qed

lemma dfu_word_some:
  assumes "nor_flash cap cell c" and "unat addr + 4 \<le> cap"
  shows "\<exists>w. dfu_word c addr f = Some w"
proof -
  have "flash_read_data c (of_nat (unat addr)) 4 f = map (cell f) [unat addr..<unat addr + unat (4 :: u32)]"
    using assms by (intro flash_read_data_cells) simp_all
  then show ?thesis
    by (simp add: dfu_word_def FLASH_ReadPage_def get_byte_def Let_def)
qed

lemma DFU_EraseNewFwArea_spec:
  assumes nor: "nor_flash cap cell c" and a: "4096 dvd dfu_area s"
    and m: "4 \<le> unat (maxFwSize s)" "dfu_area s + unat (maxFwSize s) + 4 \<le> cap"
  shows "\<exists>f'. DFU_EraseNewFwArea c s = Some (s\<lparr>flash := f'\<rparr>) \<and> (\<forall>b. cell f' b \<in> {0xFF, cell (flash s) b})"
proof -
  have c24: "cap \<le> 2 ^ 24"
    using nor by (simp add: nor_flash_def)
  let ?x = "maxFwSize s div 0x1000 div 2 * 0x1000"
  have "unat ?x \<le> unat (maxFwSize s) div 4096 div 2 * 4096"
    by (simp add: unat_word_ariths(2) unat_div)
  also have "\<dots> \<le> unat (maxFwSize s) div 4096 * 4096"
    by simp
  also have "\<dots> \<le> unat (maxFwSize s)"
    by simp
  finally have x: "unat ?x \<le> unat (maxFwSize s)" .
  have a1: "unat (nextFwAddrStart s + ?x) = dfu_area s + unat ?x"
    using x m c24 by (intro unat_add_lem [THEN iffD1]) simp
  have a2: "unat (nextFwAddrStart s + maxFwSize s) = dfu_area s + unat (maxFwSize s)"
    using m c24 by (intro unat_add_lem [THEN iffD1]) simp
  have a3: "unat (nextFwAddrStart s + maxFwSize s - 4) = dfu_area s + unat (maxFwSize s) - 4"
    using a2 m by (subst unat_sub) (simp_all add: word_le_nat_alt)
  obtain w1 w2 w3 where w: "dfu_word c (nextFwAddrStart s) (flash s) = Some w1"
      "dfu_word c (nextFwAddrStart s + ?x) (flash s) = Some w2"
      "dfu_word c (nextFwAddrStart s + maxFwSize s - 4) (flash s) = Some w3"
    using dfu_word_some [OF nor, of "nextFwAddrStart s" "flash s"] dfu_word_some [OF nor, of "nextFwAddrStart s + ?x" "flash s"]
      dfu_word_some [OF nor, of "nextFwAddrStart s + maxFwSize s - 4" "flash s"] m x a1 a3 by auto
  have "\<forall>b. cell (erase_sectors c (of_nat (dfu_area s)) 0 (unat (maxFwSize s)) (flash s)) b \<in> {0xFF, cell (flash s) b}"
    using erase_sectors_cells [OF nor a, of "unat (maxFwSize s)" 0] m by simp
  then show ?thesis
    by (cases "w1 \<noteq> 0xFFFFFFFF \<or> w2 \<noteq> 0xFFFFFFFF \<or> w3 \<noteq> 0xFFFFFFFF")
      (auto simp: DFU_EraseNewFwArea_def w intro: exI [of _ "flash s"])
qed

end
