(* ===== verification/Dfu_Theorems.thy ===== *)
theory Dfu_Theorems
  imports Dfu_Steps
begin

text \<open>
  The firmware update as a system of events (commands from the host and passes of the main loop): its
  invariant, that only an intact image is ever marked bootable, and the whole update of an image.
\<close>

section \<open>The invariant\<close>

datatype dfu_event = Cmd u32 "u8 list" | Poll u32 bool

fun dfu_step :: "'f chip \<Rightarrow> dfu_event \<Rightarrow> 'f dfu \<Rightarrow> 'f dfu option" where
  "dfu_step c (Cmd now p) s = map_option snd (DFU_Handler c now p s)"
| "dfu_step c (Poll now isUartTxDone) s = DFU_TaskStart c now isUartTxDone s"

text \<open>The image is in place (or the chip already restarts with it).\<close>

definition dfu_installed :: "'f dfu \<Rightarrow> bool" where
  "dfu_installed s \<longleftrightarrow> status s = DFU_STA_END \<or> 0 < reboots s"

definition dfu_image :: "('f \<Rightarrow> mem) \<Rightarrow> 'f dfu \<Rightarrow> u8 list" where
  "dfu_image cell s = map (cell (flash s)) [dfu_area s..<dfu_area s + unat (fwOffset s)]"

text \<open>The area for the new image lies in the flash, apart from the boot flag of the running one.\<close>

definition dfu_place :: "nat \<Rightarrow> ('f \<Rightarrow> mem) \<Rightarrow> 'f chip \<Rightarrow> 'f dfu \<Rightarrow> bool" where
  "dfu_place cap cell c s \<longleftrightarrow>
     nor_flash cap cell c \<and> tx_ok (bltHci_txfifo s) \<and> 4096 dvd dfu_area s \<and> 4 \<le> unat (maxFwSize s) \<and>
     dfu_area s + unat (maxFwSize s) + 64 \<le> cap \<and> unat (newFwAddrStart s) + 9 \<le> cap \<and>
     (dfu_area s = 0 \<longrightarrow> unat (maxFwSize s) + 64 \<le> unat (newFwAddrStart s))"

text \<open>The check sum of what was received so far: nothing, or the image in the area with the value \<open>b\<close> in place
  of its boot flag, which was sent in the first packet and is only stored at the end.  Between \<open>DFU_Init\<close> and
  the first start the sum and the announced size are 0.\<close>

definition dfu_unstarted :: "'f dfu \<Rightarrow> bool" where
  "dfu_unstarted s \<longleftrightarrow> newFwSize s = 0 \<and> curCrc s = 0"

definition dfu_received :: "u8 set \<Rightarrow> ('f \<Rightarrow> mem) \<Rightarrow> 'f dfu \<Rightarrow> bool" where
  "dfu_received B cell s \<longleftrightarrow>
     fwOffset s = 0 \<and> (dfu_unstarted s \<or> curCrc s = DFU_CRC_INIT_VALUE) \<or>
     (\<exists>b\<in>B. curCrc s = DFU_Crc32Calc DFU_CRC_INIT_VALUE ((dfu_image cell s)[8 := b]))"

text \<open>The area begins at \<open>a\<close>; the flags that were sent are in \<open>B\<close>.\<close>

definition dfu_inv :: "nat \<Rightarrow> u8 set \<Rightarrow> nat \<Rightarrow> ('f \<Rightarrow> mem) \<Rightarrow> 'f chip \<Rightarrow> 'f dfu \<Rightarrow> bool" where
  "dfu_inv a B cap cell c s \<longleftrightarrow>
     dfu_place cap cell c s \<and> a = dfu_area s \<and> newFwSize s \<le> maxFwSize s \<and> unat (fwOffset s) \<le> unat (newFwSize s) + 63 \<and>
     (fwOffset s = 0 \<or> 8 < unat (fwOffset s)) \<and> dfu_received B cell s \<and>
     (if dfu_installed s
      then fwOffset s = newFwSize s \<and> fwOffset s \<noteq> 0 \<and> curCrc s = 0 \<and> cell (flash s) (dfu_area s + 8) = 0x4b
      else cell (flash s) (dfu_area s + 8) = 0xFF)"

text \<open>The conditions: the packets are complete in their buffer; the first data packet of an image carries its
  first nine bytes; no end command comes between \<open>DFU_Init\<close> and the first start; no command comes
  between the success of an update and the restart, which follows within the 30 s of the timer.\<close>

fun dfu_env :: "dfu_event \<Rightarrow> 'f dfu \<Rightarrow> bool" where
  "dfu_env (Cmd now p) s \<longleftrightarrow>
     \<not> dfu_installed s \<and> 13 \<le> length p \<and> 8 + unat (p ! 3) \<le> length p \<and>
     (BYTES_TO_UINT16 (p ! 1) (p ! 2) = HCI_OPCODE_VS_FW_DATA \<and> fwOffset s = 0 \<longrightarrow> 13 \<le> unat (p ! 3)) \<and>
     (BYTES_TO_UINT16 (p ! 1) (p ! 2) = HCI_OPCODE_VS_END_DFU \<longrightarrow> \<not> dfu_unstarted s)"
| "dfu_env (Poll now isUartTxDone) s \<longleftrightarrow>
     reboots s = 0 \<and>
     (status s = DFU_STA_END \<longrightarrow> \<not> (dfu_timer s \<noteq> 0 \<and> clock_time_exceed now (dfu_timer s) (DFU_TIMEOUT * 1000 * 1000)))"

text \<open>The byte in the place of the boot flag, if the packet is the first one of an image.\<close>

fun dfu_flag_in :: "u8 set \<Rightarrow> dfu_event \<Rightarrow> bool" where
  "dfu_flag_in B (Cmd now p) \<longleftrightarrow> p ! 12 \<in> B"
| "dfu_flag_in B (Poll now d) \<longleftrightarrow> True"

lemma dfu_inv_simple:
  assumes "dfu_inv a B cap cell c s" and "\<not> dfu_installed s"
    and "dfu_place cap cell c s'" and "dfu_area s' = dfu_area s" and "maxFwSize s' = maxFwSize s"
    and "flash s' = flash s" and "newFwSize s' = newFwSize s" and "fwOffset s' = fwOffset s" and "curCrc s' = curCrc s"
    and "\<not> dfu_installed s'"
  shows "dfu_inv a B cap cell c s'"
  using assms by (auto simp: dfu_inv_def dfu_image_def dfu_received_def dfu_unstarted_def)

lemma dfu_inv_reset:
  assumes "dfu_place cap cell c s" and "a = dfu_area s" and "cell (flash s) (dfu_area s + 8) = 0xFF" and "fwOffset s = 0"
    and "newFwSize s \<le> maxFwSize s" and "curCrc s = DFU_CRC_INIT_VALUE" and "\<not> dfu_installed s"
  shows "dfu_inv a B cap cell c s"
  using assms by (simp add: dfu_inv_def dfu_received_def)

lemmas dfu_consts =
  DFU_STA_NONE_def DFU_STA_START_def DFU_STA_END_def DFU_STA_TERM_def HCI_OPCODE_VS_START_DFU_def
  HCI_OPCODE_VS_END_DFU_def HCI_OPCODE_VS_FW_DATA_def HCI_OPCODE_def HCI_OGF_VS_def HCI_OCF_VS_START_DFU_def
  HCI_OCF_VS_END_DFU_def HCI_OCF_VS_FW_DATA_def

text \<open>What an event handler leaves, in one form for all the events.\<close>

lemma evt_cases:
  assumes "tx_ok (bltHci_txfifo s)" and "\<And>f. tx_ok f \<Longrightarrow> P (s\<lparr>bltHci_txfifo := f\<rparr>)"
  shows "\<exists>s'. Hci_SendCmdCmplStatusEvt op st s = Some s' \<and> P s'"
    and "\<exists>s'. Hci_SendCmdStatusEvt op st s = Some s' \<and> P s'"
    and "length p \<le> 3 \<Longrightarrow> \<exists>s'. Hci_SendCmdCmplEvt op p s = Some s' \<and> P s'"
  using evt_cmpl_status [OF assms(1)] evt_status [OF assms(1)] evt_cmpl [OF assms(1)] assms(2) by metis+

lemma dfu_place_upd [simp]:
  "dfu_place cap cell c (s\<lparr>dfu_timer := t\<rparr>) = dfu_place cap cell c s"
  "dfu_place cap cell c (s\<lparr>status := st\<rparr>) = dfu_place cap cell c s"
  "dfu_place cap cell c (s\<lparr>resendCnt := r\<rparr>) = dfu_place cap cell c s"
  "dfu_place cap cell c (s\<lparr>flash := fl\<rparr>) = dfu_place cap cell c s"
  "dfu_place cap cell c (s\<lparr>curCrc := cr\<rparr>) = dfu_place cap cell c s"
  "dfu_place cap cell c (s\<lparr>fwOffset := off\<rparr>) = dfu_place cap cell c s"
  "dfu_place cap cell c (s\<lparr>newFwSize := n\<rparr>) = dfu_place cap cell c s"
  "dfu_place cap cell c (s\<lparr>reboots := n'\<rparr>) = dfu_place cap cell c s"
  "tx_ok f \<Longrightarrow> dfu_place cap cell c s \<Longrightarrow> dfu_place cap cell c (s\<lparr>bltHci_txfifo := f\<rparr>)"
  by (simp_all add: dfu_place_def)

lemma start_inv:
  assumes inv: "dfu_inv a B cap cell c s" and idle: "\<not> dfu_installed s" and len: "11 \<le> length p"
  shows "\<exists>s'. DFU_StartDfuCmdHandler now p s = Some s' \<and> dfu_inv a B cap cell c s'"
proof -
  have place: "dfu_place cap cell c s" and clean: "cell (flash s) (dfu_area s + 8) = 0xFF" and tx: "tx_ok (bltHci_txfifo s)"
    and reb: "reboots s = 0" and st: "status s \<noteq> DFU_STA_END" and area: "a = dfu_area s"
    using inv idle by (simp_all add: dfu_inv_def dfu_place_def dfu_installed_def)
  let ?P = "dfu_inv a B cap cell c"
  have same: "?P (s\<lparr>bltHci_txfifo := f\<rparr>)" if "tx_ok f" for f
    by (rule dfu_inv_simple [OF inv idle]) (use that place idle in \<open>simp_all add: dfu_installed_def\<close>)
  have reset: "?P ((DFU_Reset s)\<lparr>bltHci_txfifo := f\<rparr>)" if "tx_ok f" for f
    by (rule dfu_inv_reset) (use that place area clean reb in \<open>simp_all add: DFU_Reset_def dfu_installed_def dfu_consts\<close>)
  have go: "\<exists>s'. dfu_start now op n s = Some s' \<and> ?P s'" if "n \<le> maxFwSize s" for op n
    unfolding dfu_start_def Let_def
  proof (rule evt_cases(3))
    show "tx_ok (bltHci_txfifo ((DFU_Reset s)\<lparr>status := DFU_STA_START, newFwSize := n, dfu_timer := now OR 1\<rparr>))"
      using tx by (simp add: DFU_Reset_def)
    show "?P ((DFU_Reset s)\<lparr>status := DFU_STA_START, newFwSize := n, dfu_timer := now OR 1, bltHci_txfifo := f\<rparr>)"
      if "tx_ok f" for f
      by (rule dfu_inv_reset) (use that place area clean reb \<open>n \<le> maxFwSize s\<close> in \<open>simp_all add: DFU_Reset_def dfu_installed_def dfu_consts\<close>)
  qed simp
  have tx': "tx_ok (bltHci_txfifo (DFU_Reset s))"
    using tx by (simp add: DFU_Reset_def)
  show ?thesis
    using len unfolding DFU_StartDfuCmdHandler_def
    by (simp add: get_bytes_def Let_def evt_cases(1) [where P = ?P, OF tx same] evt_cases(1) [where P = ?P, OF tx' reset] go)
qed

lemma dfu_written_image:
  assumes n: "unat (fwOffset s) + n < 2 ^ 32" and first: "fwOffset s = 0 \<longrightarrow> 8 < n"
    and f': "cell f' = burn (dfu_area s + unat (fwOffset s)) xs (cell (flash s))" and xs: "length xs = n"
    and crc: "curCrc s = DFU_Crc32Calc DFU_CRC_INIT_VALUE ((dfu_image cell s)[8 := b])"
    and long: "fwOffset s = 0 \<or> 8 < unat (fwOffset s)"
  shows "DFU_Crc32Calc (curCrc s) (dfu_written cell s n f' flag) =
    DFU_Crc32Calc DFU_CRC_INIT_VALUE ((dfu_image cell (s\<lparr>flash := f', fwOffset := fwOffset s + of_nat n\<rparr>))
      [8 := if fwOffset s = 0 then flag else b])"
proof -
  let ?A = "dfu_area s" and ?O = "unat (fwOffset s)"
  have O': "unat (fwOffset s + of_nat n) = ?O + n"
    using n by (simp add: unat_word_ariths unat_of_nat)
  have image: "dfu_image cell (s\<lparr>flash := f', fwOffset := fwOffset s + of_nat n\<rparr>) =
      dfu_image cell s @ map (cell f') [?A + ?O..<?A + ?O + n]"
  proof -
    have "map (cell f') [?A..<?A + ?O] = dfu_image cell s"
      by (simp add: dfu_image_def f' burn_def)
    moreover have "[?A..<?A + (?O + n)] = [?A..<?A + ?O] @ [?A + ?O..<?A + ?O + n]"
      using upt_add_eq_append [of ?A "?A + ?O" n] by (simp add: add.assoc)
    ultimately show ?thesis
      by (simp add: dfu_image_def O')
  qed
  show ?thesis
  proof (cases "fwOffset s = 0")
    case True
    then have "dfu_image cell s = []"
      by (simp add: dfu_image_def)
    then show ?thesis
      using True crc unfolding image by (simp add: dfu_written_def Let_def)
  next
    case False
    then have "8 < length (dfu_image cell s)"
      using long by (simp add: dfu_image_def)
    then show ?thesis
      using False crc unfolding image
      by (simp add: dfu_written_def Let_def list_update_append crc32_append)
  qed
qed

lemma dfu_flag_kept:
  assumes "cell (flash s) (dfu_area s + 8) = 0xFF" and "fwOffset s = 0 \<longrightarrow> 9 \<le> n" and "4 + n \<le> length p" and "12 < length p"
    and "fwOffset s = 0 \<or> 8 < unat (fwOffset s)"
    and "cell f' = burn (dfu_area s + unat (fwOffset s)) (dfu_payload p n s) (cell (flash s))"
  shows "cell f' (dfu_area s + 8) = 0xFF"
  using assms by (auto simp: burn_def dfu_payload_def dfu_first_def)

lemma dfu_payload_length: "4 + n \<le> length p \<Longrightarrow> length (dfu_payload p n s) = n"
  by (simp add: dfu_payload_def)

lemma data_inv:
  assumes inv: "dfu_inv a B cap cell c s" and idle: "\<not> dfu_installed s"
    and len: "13 \<le> length p" "8 + unat (p ! 3) \<le> length p" and first: "fwOffset s = 0 \<longrightarrow> 13 \<le> unat (p ! 3)"
    and flagB: "p ! 12 \<in> B"
  shows "\<exists>s'. DFU_FwDataCmdHandler c now p (ucast (p ! 3)) s = Some s' \<and> dfu_inv a B cap cell c s'"
proof -
  let ?P = "dfu_inv a B cap cell c" and ?len = "ucast (p ! 3) :: u32"
  let ?d = "?len - DFU_CHECKSUM_LEN"
  have place: "dfu_place cap cell c s" and clean: "cell (flash s) (dfu_area s + 8) = 0xFF" and tx: "tx_ok (bltHci_txfifo s)"
    and reb: "reboots s = 0" and st: "status s \<noteq> DFU_STA_END" and nor: "nor_flash cap cell c"
    using inv idle by (simp_all add: dfu_inv_def dfu_place_def dfu_installed_def)
  have l: "unat ?len = unat (p ! 3)"
    by (simp add: unsigned_ucast_eq take_bit_nat_eq_self unat_bound(1) order.strict_trans [OF unat_bound(1)])
  have "4 + ?d = ?len"
    by (simp add: DFU_CHECKSUM_LEN_def)
  then have sum: "\<exists>w. get_bytes p (unat (4 + ?d)) 4 = Some w"
    using len(2) l by (simp add: get_bytes_def)
  have params: "\<exists>w. get_bytes p 4 (unat ?len) = Some w"
    using len(2) l by (simp add: get_bytes_def)
  have same: "?P (s\<lparr>dfu_timer := t, bltHci_txfifo := f\<rparr>)" "?P (s\<lparr>dfu_timer := t, resendCnt := r, bltHci_txfifo := f\<rparr>)"
    if "tx_ok f" for f t r
    by (rule dfu_inv_simple [OF inv idle]; use that place idle in \<open>simp add: dfu_installed_def\<close>)+
  have store: "\<exists>s'. do { s \<leftarrow> dfu_store c p (unat ?d) (s\<lparr>dfu_timer := t, resendCnt := 0\<rparr>); Hci_SendCmdStatusEvt op st s } = Some s' \<and> ?P s'"
    if small: "\<not> of_nat DFU_MAX_PAYLOAD < ?d" and more: "fwOffset s < newFwSize s" for t op st
  proof -
    let ?s = "s\<lparr>dfu_timer := t, resendCnt := 0\<rparr>"
    have d: "unat ?d \<le> 64"
      using small by (simp add: word_less_nat_alt DFU_MAX_PAYLOAD_def not_less)
    have d4: "unat ?d + 4 = unat (p ! 3)"
    proof -
      have "unat (?d + 4) = unat ?d + 4"
        using d by (intro unat_add_lem [THEN iffD1, of ?d 4, simplified]) simp
      then show ?thesis
        using l by (simp add: DFU_CHECKSUM_LEN_def)
    qed
    have O: "unat (fwOffset s) < unat (newFwSize s)" "unat (newFwSize s) \<le> unat (maxFwSize s)"
      using more inv by (simp_all add: word_less_nat_alt word_le_nat_alt dfu_inv_def)
    have room: "dfu_area s + unat (maxFwSize s) + 64 \<le> cap" "cap \<le> 2 ^ 24"
      using place by (simp_all add: dfu_place_def nor_flash_def)
    obtain f' where f': "dfu_store c p (unat ?d) ?s =
        Some (?s\<lparr>flash := f', curCrc := DFU_Crc32Calc (curCrc ?s) (dfu_written cell ?s (unat ?d) f' (dfu_flag p (unat ?d) ?s)),
              fwOffset := fwOffset ?s + of_nat (unat ?d)\<rparr>)"
        "cell f' = burn (dfu_area ?s + unat (fwOffset ?s)) (dfu_payload p (unat ?d) ?s) (cell (flash ?s))"
      using dfu_store_spec [OF nor d, of p ?s] len d4 O d room by auto
    have "\<exists>b. (fwOffset s \<noteq> 0 \<longrightarrow> b \<in> B) \<and> curCrc s = DFU_Crc32Calc DFU_CRC_INIT_VALUE ((dfu_image cell s)[8 := b])"
    proof (cases "fwOffset s = 0")
      case True
      then show ?thesis
        using inv O(1) by (auto simp: dfu_inv_def dfu_received_def dfu_unstarted_def dfu_image_def)
    next
      case False
      then show ?thesis
        using inv by (auto simp: dfu_inv_def dfu_received_def)
    qed
    then obtain b where b: "fwOffset s \<noteq> 0 \<longrightarrow> b \<in> B"
        "curCrc s = DFU_Crc32Calc DFU_CRC_INIT_VALUE ((dfu_image cell s)[8 := b])"
      by blast
    have long: "fwOffset s = 0 \<or> 8 < unat (fwOffset s)"
      using inv by (simp add: dfu_inv_def)
    have img: "dfu_image cell ?s = dfu_image cell s"
      by (simp add: dfu_image_def)
    have first': "fwOffset s = 0 \<longrightarrow> 8 < unat ?d" and first9: "fwOffset s = 0 \<longrightarrow> 9 \<le> unat ?d"
      using first d4 by auto
    have crc: "DFU_Crc32Calc (curCrc ?s) (dfu_written cell ?s (unat ?d) f' (dfu_flag p (unat ?d) ?s)) =
        DFU_Crc32Calc DFU_CRC_INIT_VALUE ((dfu_image cell (?s\<lparr>flash := f', fwOffset := fwOffset ?s + of_nat (unat ?d)\<rparr>))
          [8 := if fwOffset ?s = 0 then dfu_flag p (unat ?d) ?s else b])"
      by (rule dfu_written_image [where b = b and xs = "dfu_payload p (unat ?d) ?s"])
        (use O d room f'(2) b(2) long first' d4 len in \<open>simp_all add: img dfu_payload_length\<close>)
    have flag: "cell f' (dfu_area s + 8) = 0xFF"
      using dfu_flag_kept [where s = ?s and n = "unat ?d" and p = p and cell = cell and f' = f'] clean first9 d4 len long f'(2)
      by simp
    have off: "unat (fwOffset s + ?d) = unat (fwOffset s) + unat ?d"
      using O d room by (intro unat_add_lem [THEN iffD1]) simp
    let ?s' = "?s\<lparr>flash := f', curCrc := DFU_Crc32Calc (curCrc ?s) (dfu_written cell ?s (unat ?d) f' (dfu_flag p (unat ?d) ?s)),
              fwOffset := fwOffset ?s + of_nat (unat ?d)\<rparr>"
    have inv': "?P (?s'\<lparr>bltHci_txfifo := f\<rparr>)" if "tx_ok f" for f
      unfolding dfu_inv_def
    proof (intro conjI)
      have "(if fwOffset ?s = 0 then dfu_flag p (unat ?d) ?s else b) \<in> B"
        using b(1) flagB first' by (auto simp: dfu_flag_def dfu_first_def)
      moreover have "curCrc (?s'\<lparr>bltHci_txfifo := f\<rparr>) = DFU_Crc32Calc DFU_CRC_INIT_VALUE
          ((dfu_image cell (?s'\<lparr>bltHci_txfifo := f\<rparr>))[8 := if fwOffset ?s = 0 then dfu_flag p (unat ?d) ?s else b])"
        using crc by (simp add: dfu_image_def)
      ultimately show "dfu_received B cell (?s'\<lparr>bltHci_txfifo := f\<rparr>)"
        unfolding dfu_received_def by blast
      show "fwOffset (?s'\<lparr>bltHci_txfifo := f\<rparr>) = 0 \<or> 8 < unat (fwOffset (?s'\<lparr>bltHci_txfifo := f\<rparr>))"
        using off long first d4 by (auto simp: unat_eq_zero)
    qed (use that place inv off O d flag idle in \<open>simp_all add: dfu_inv_def dfu_installed_def\<close>)
    have tx': "tx_ok (bltHci_txfifo ?s')"
      using tx by simp
    show ?thesis
      unfolding f'(1) using evt_cases(2) [where P = ?P, OF tx' inv'] by simp
  qed
  obtain w where w: "get_bytes p (unat (4 + ?d)) 4 = Some w"
    using sum by blast
  obtain w' where w': "get_bytes p 4 (unat ?len) = Some w'"
    using params by blast
  have tx2: "tx_ok (bltHci_txfifo (s\<lparr>dfu_timer := t\<rparr>))" "tx_ok (bltHci_txfifo (s\<lparr>dfu_timer := t, resendCnt := r\<rparr>))" for t r
    using tx by simp_all
  show ?thesis
    unfolding DFU_FwDataCmdHandler_def
    using inv store
    by (simp add: Let_def w w' evt_cases(2) [where P = ?P, OF tx2(1) same(1)] evt_cases(2) [where P = ?P, OF tx2(2) same(2)])
qed

lemma end_inv:
  assumes inv: "dfu_inv a B cap cell c s" and idle: "\<not> dfu_installed s" and len: "13 \<le> length p"
    and started: "\<not> dfu_unstarted s"
  shows "\<exists>s'. DFU_EndDfuCmdHandler c now p s = Some s' \<and> dfu_inv a B cap cell c s'"
proof -
  let ?P = "dfu_inv a B cap cell c" and ?s = "s\<lparr>dfu_timer := now OR 1\<rparr>"
  have place: "dfu_place cap cell c s" and clean: "cell (flash s) (dfu_area s + 8) = 0xFF" and tx: "tx_ok (bltHci_txfifo s)"
    and nor: "nor_flash cap cell c"
    using inv idle by (simp_all add: dfu_inv_def dfu_place_def)
  have same: "?P (s\<lparr>dfu_timer := t, bltHci_txfifo := f\<rparr>)" "?P (s\<lparr>dfu_timer := t, bltHci_txfifo := f, status := DFU_STA_TERM\<rparr>)"
      "?P (s\<lparr>dfu_timer := t, status := DFU_STA_TERM, bltHci_txfifo := f\<rparr>)"
    if "tx_ok f" for f t
    by (rule dfu_inv_simple [OF inv idle]; use that place idle in \<open>simp add: dfu_installed_def dfu_consts\<close>)+
  have fail: "\<exists>s'. do { s \<leftarrow> Hci_SendCmdCmplStatusEvt op st ?s; Some (s\<lparr>status := DFU_STA_TERM\<rparr>) } = Some s' \<and> ?P s'" for op st
    using evt_cmpl_status [of ?s op st] tx same(2) [where t = "now OR 1"] by auto
  have install: "\<exists>s'. do { f \<leftarrow> FLASH_WritePage c (nextFwAddrStart s + 8) [0x4b] (flash s);
        f \<leftarrow> FLASH_WritePage c ((if nextFwAddrStart s = 0 then newFwAddrStart s else 0) + 8) [0] f;
        s \<leftarrow> Hci_SendCmdCmplStatusEvt op st (s\<lparr>dfu_timer := t, flash := f\<rparr>); Some (s\<lparr>status := DFU_STA_END\<rparr>) } = Some s' \<and> ?P s'"
    if ok: "fwOffset s = newFwSize s" "curCrc s = 0" for op st t
  proof -
    let ?base = "if nextFwAddrStart s = 0 then unat (newFwAddrStart s) else 0"
    have room: "dfu_area s + unat (maxFwSize s) + 64 \<le> cap" "unat (newFwAddrStart s) + 9 \<le> cap" "4096 dvd dfu_area s"
        "dfu_area s = 0 \<longrightarrow> unat (maxFwSize s) + 64 \<le> unat (newFwAddrStart s)"
      using place by (simp_all add: dfu_place_def)
    have size: "unat (newFwSize s) \<le> unat (maxFwSize s)"
      using inv by (simp add: dfu_inv_def word_le_nat_alt)
    obtain f1 where f1: "FLASH_WritePage c (of_nat (dfu_area s + 8)) [0x4b] (flash s) = Some f1"
        "cell f1 = burn (dfu_area s + 8) [0x4b] (cell (flash s))"
      using FLASH_WritePage_cells [OF nor, of "dfu_area s + 8" "[0x4b]" "flash s"] room by auto
    have room_base: "?base + 8 + length [0 :: u8] \<le> cap"
      using room by auto
    obtain f2 where f2: "FLASH_WritePage c (of_nat (?base + 8)) [0] f1 = Some f2"
        "cell f2 = burn (?base + 8) [0] (cell f1)"
      using FLASH_WritePage_cells [OF nor room_base, of f1] by blast
    have a: "nextFwAddrStart s + 8 = of_nat (dfu_area s + 8)"
        "(if nextFwAddrStart s = 0 then newFwAddrStart s else 0) + 8 = of_nat (?base + 8)"
      by simp_all
    have outside: "?base + 8 < dfu_area s \<or> dfu_area s + unat (fwOffset s) \<le> ?base + 8"
    proof (cases "nextFwAddrStart s = 0")
      case True
      then show ?thesis
        using room(4) size ok(1) by simp
    next
      case False
      then have "4096 \<le> dfu_area s"
        using room(3) by (auto simp: unat_eq_zero intro!: dvd_imp_le gr0I)
      then show ?thesis
        using False by simp
    qed
    have same_image: "(dfu_image cell (s\<lparr>flash := f2\<rparr>))[8 := b] = (dfu_image cell s)[8 := b]" for b
    proof (rule nth_equalityI)
      fix i
      assume "i < length ((dfu_image cell (s\<lparr>flash := f2\<rparr>))[8 := b])"
      then have i: "i < unat (fwOffset s)"
        by (simp add: dfu_image_def)
      show "(dfu_image cell (s\<lparr>flash := f2\<rparr>))[8 := b] ! i = (dfu_image cell s)[8 := b] ! i"
        using i outside by (cases "i = 8") (auto simp: dfu_image_def f1(2) f2(2) burn_def)
    qed (simp add: dfu_image_def)
    obtain b where b: "b \<in> B" "curCrc s = DFU_Crc32Calc DFU_CRC_INIT_VALUE ((dfu_image cell s)[8 := b])"
      using inv started ok(2) by (auto simp: dfu_inv_def dfu_received_def DFU_CRC_INIT_VALUE_def)
    have "fwOffset s \<noteq> 0"
      using started ok by (simp add: dfu_unstarted_def)
    moreover have "0xFF AND x = x" for x :: u8
      unfolding and.commute [of "0xFF"] and_low_mask by (rule take_bit_word_eq_self) simp
    then have "cell f2 (dfu_area s + 8) = 0x4b"
      using clean outside inv \<open>fwOffset s \<noteq> 0\<close> by (auto simp: f1(2) f2(2) burn_def dfu_inv_def)
    ultimately have flagged: "fwOffset s \<noteq> 0" "cell f2 (dfu_area s + 8) = 0x4b"
      by simp_all
    have P: "?P (s\<lparr>dfu_timer := t, flash := f2, bltHci_txfifo := f, status := DFU_STA_END\<rparr>)" if "tx_ok f" for f
      unfolding dfu_inv_def
    proof (intro conjI)
      show "dfu_received B cell (s\<lparr>dfu_timer := t, flash := f2, bltHci_txfifo := f, status := DFU_STA_END\<rparr>)"
        unfolding dfu_received_def using b same_image by (auto simp: dfu_image_def)
    qed (use that place inv ok flagged in \<open>simp_all add: dfu_inv_def dfu_installed_def\<close>)
    have tx2: "tx_ok (bltHci_txfifo (s\<lparr>dfu_timer := t, flash := f2\<rparr>))"
      using tx by simp
    show ?thesis
      unfolding a using f1(1) f2(1) evt_cmpl_status [OF tx2, of op st] P by auto
  qed
  have tx': "tx_ok (bltHci_txfifo ?s)" "tx_ok (bltHci_txfifo (?s\<lparr>status := DFU_STA_TERM\<rparr>))"
    using tx by simp_all
  have h: "get_byte p 4 = Some (p ! 4)"
    using len by (simp add: get_byte_def)
  consider (incomplete) "p ! 4 = 0" "fwOffset s \<noteq> newFwSize s" | (crc) "p ! 4 = 0" "fwOffset s = newFwSize s" "curCrc s \<noteq> 0"
    | (done_) "p ! 4 = 0" "fwOffset s = newFwSize s" "curCrc s = 0" | (other) "p ! 4 \<noteq> 0"
    by blast
  then show ?thesis
  proof cases
    case done_
    then show ?thesis
      using install [OF done_(2,3), where t = "now OR 1" and op = HCI_OPCODE_VS_END_DFU and st = DFU_HCI_SUCCESS]
      by (simp add: DFU_EndDfuCmdHandler_def h Let_def split del: if_split cong: if_cong)
  next
    case other
    then show ?thesis
      by (simp add: DFU_EndDfuCmdHandler_def h Let_def evt_cases(1) [where P = ?P, OF tx'(1) same(1)]
          evt_cases(1) [where P = ?P, OF tx'(2) same(3)])
  qed (use fail in \<open>simp_all add: DFU_EndDfuCmdHandler_def h Let_def\<close>)
qed

lemma poll_inv:
  assumes inv: "dfu_inv a B cap cell c s" and env: "dfu_env (Poll now d) s"
  shows "\<exists>s'. DFU_TaskStart c now d s = Some s' \<and> dfu_inv a B cap cell c s'"
proof -
  let ?P = "dfu_inv a B cap cell c"
  let ?idle = "wptr (bltHci_txfifo s) = rptr (bltHci_txfifo s) \<and> \<not> UART_IsBusy d"
  let ?late = "\<lambda>s. dfu_timer s \<noteq> 0 \<and> clock_time_exceed now (dfu_timer s) (DFU_TIMEOUT * 1000 * 1000)"
  have place: "dfu_place cap cell c s" and nor: "nor_flash cap cell c" and reb: "reboots s = 0" and area: "a = dfu_area s"
    using inv env by (simp_all add: dfu_inv_def dfu_place_def)
  have erase: "\<exists>f'. DFU_EraseNewFwArea c s' = Some (s'\<lparr>flash := f'\<rparr>) \<and> cell f' (dfu_area s + 8) = 0xFF"
    if "dfu_place cap cell c s'" "dfu_area s' = dfu_area s" "cell (flash s') (dfu_area s + 8) = 0xFF" for s'
  proof -
    have "4096 dvd dfu_area s'" "4 \<le> unat (maxFwSize s')" "dfu_area s' + unat (maxFwSize s') + 4 \<le> cap"
      using that(1) by (simp_all add: dfu_place_def)
    from DFU_EraseNewFwArea_spec [OF nor this] obtain f' where
      "DFU_EraseNewFwArea c s' = Some (s'\<lparr>flash := f'\<rparr>)" "\<forall>b. cell f' b \<in> {0xFF, cell (flash s') b}"
      by blast
    then show ?thesis
      using that(3) by (metis insert_iff singletonD)
  qed
  show ?thesis
  proof (cases "status s = DFU_STA_END")
    case True
    then have "\<not> ?late s"
      using env by simp
    moreover have "dfu_installed s"
      using True by (simp add: dfu_installed_def)
    moreover have "?P (MCU_Reset (s\<lparr>status := DFU_STA_NONE\<rparr>))"
      using inv \<open>dfu_installed s\<close>
      by (auto simp: dfu_inv_def MCU_Reset_def dfu_installed_def dfu_image_def dfu_place_def dfu_received_def dfu_unstarted_def)
    ultimately show ?thesis
      using inv True by (cases ?idle) (auto simp: DFU_TaskStart_def dfu_consts Let_def)
  next
    case False
    then have idle: "\<not> dfu_installed s" and clean: "cell (flash s) (dfu_area s + 8) = 0xFF"
      using reb inv by (simp_all add: dfu_installed_def dfu_inv_def)
    have reset: "?P (DFU_Reset (s'\<lparr>flash := f'\<rparr>))"
      if "dfu_place cap cell c s'" "dfu_area s' = dfu_area s" "reboots s' = 0" "cell f' (dfu_area s + 8) = 0xFF" for s' f'
      by (rule dfu_inv_reset) (use that area in \<open>simp_all add: DFU_Reset_def dfu_installed_def dfu_consts\<close>)
    let ?t = "DFU_Reset (s\<lparr>status := DFU_STA_NONE\<rparr>)"
    have t: "dfu_place cap cell c ?t" "dfu_area ?t = dfu_area s" "cell (flash ?t) (dfu_area s + 8) = 0xFF" "reboots ?t = 0"
        "dfu_timer (?t\<lparr>flash := f\<rparr>) = 0" for f
      using place clean reb by (simp_all add: DFU_Reset_def)
    obtain f1 where f1: "DFU_EraseNewFwArea c ?t = Some (?t\<lparr>flash := f1\<rparr>)" "cell f1 (dfu_area s + 8) = 0xFF"
      using erase [OF t(1-3)] by blast
    have "?P (?t\<lparr>flash := f1\<rparr>)"
      by (rule dfu_inv_reset) (use place area reb f1(2) in \<open>simp_all add: DFU_Reset_def dfu_installed_def dfu_consts\<close>)
    moreover obtain f2 where f2: "DFU_EraseNewFwArea c s = Some (s\<lparr>flash := f2\<rparr>)" "cell f2 (dfu_area s + 8) = 0xFF"
      using erase [OF place refl clean] by blast
    moreover have "?P (DFU_Reset (s\<lparr>flash := f2\<rparr>))"
      by (rule reset [OF place refl reb f2(2)])
    ultimately show ?thesis
      using False inv f1(1) t(5) by (cases "status s = DFU_STA_TERM \<and> ?idle"; cases "?late s") (auto simp: DFU_TaskStart_def Let_def)
  qed
qed

lemma dfu_step_inv:
  assumes inv: "dfu_inv a B cap cell c s" and env: "dfu_env e s" and flag: "dfu_flag_in B e"
  shows "\<exists>s'. dfu_step c e s = Some s' \<and> dfu_inv a B cap cell c s'"
proof (cases e)
  case (Poll now d)
  then show ?thesis
    using poll_inv [OF inv] env by simp
next
  case (Cmd now p)
  then have len: "13 \<le> length p" "8 + unat (p ! 3) \<le> length p" and idle: "\<not> dfu_installed s"
    and first: "BYTES_TO_UINT16 (p ! 1) (p ! 2) = HCI_OPCODE_VS_FW_DATA \<Longrightarrow> fwOffset s = 0 \<longrightarrow> 13 \<le> unat (p ! 3)"
    and started: "BYTES_TO_UINT16 (p ! 1) (p ! 2) = HCI_OPCODE_VS_END_DFU \<Longrightarrow> \<not> dfu_unstarted s" and B: "p ! 12 \<in> B"
    using env flag by simp_all
  have h: "get_bytes p 1 2 = Some [p ! 1, p ! 2]" "get_bytes p 1 3 = Some [p ! 1, p ! 2, p ! 3]"
    using len(1) by (auto simp: get_bytes_def numeral_eq_Suc take_Suc_conv_app_nth)
  note h = h [unfolded One_nat_def]
  have tx: "tx_ok (bltHci_txfifo s)" and place: "dfu_place cap cell c s"
    using inv by (simp_all add: dfu_inv_def dfu_place_def)
  have same: "dfu_inv a B cap cell c (s\<lparr>bltHci_txfifo := f\<rparr>)" if "tx_ok f" for f
    by (rule dfu_inv_simple [OF inv idle]) (use that place idle in \<open>simp_all add: dfu_installed_def\<close>)
  have "\<exists>s'. DFU_CmdHandler c now p s = Some s' \<and> dfu_inv a B cap cell c s'"
    using start_inv [OF inv idle, of p now] data_inv [OF inv idle len first B, of now] end_inv [OF inv idle len(1) started, of now] len
    by (simp add: DFU_CmdHandler_def h Let_def evt_cases(2) [where P = "dfu_inv a B cap cell c", OF tx same])
  then obtain s' where "DFU_CmdHandler c now p s = Some s'" "dfu_inv a B cap cell c s'"
    by blast
  then show ?thesis
    using inv by (simp add: Cmd DFU_Handler_def h Let_def)
qed

interpretation dfu: safe_system "dfu_step c" "\<lambda>e s. dfu_env e s \<and> dfu_flag_in B e" "dfu_inv a B cap cell c" for a B c cap cell
  by unfold_locales (blast intro: dfu_step_inv)

lemma admissible_both:
  "admissible step env es s \<Longrightarrow> \<forall>e\<in>set es. P e \<Longrightarrow> admissible step (\<lambda>e s. env e s \<and> P e) es s"
  by (induction es arbitrary: s) (auto split: option.splits)

end
