(* ===== verification/Dfu_Update.thy ===== *)
theory Dfu_Update
  imports Dfu_Theorems
begin

text \<open>
  A whole update: the commands a host sends for an image, and what they leave in the flash.
\<close>

section \<open>The packets of the host\<close>

definition dfu_start_packet :: "u32 \<Rightarrow> u8 list" where
  "dfu_start_packet n = [1, 0x00, 0xFF, 7, 1, 0, 0] @ UINT32_TO_BSTREAM n"

definition dfu_data_packet :: "u8 list \<Rightarrow> u8 list" where
  "dfu_data_packet xs =
     [1, 0x02, 0xFF, of_nat (length xs + 4)] @ xs @ UINT32_TO_BSTREAM (DFU_Crc32Calc DFU_CRC_INIT_VALUE xs)"

definition dfu_end_packet :: "u8 list" where
  "dfu_end_packet = [1, 0x01, 0xFF, 1, 0]"

lemma dfu_opcodes:
  "BYTES_TO_UINT16 0x00 0xFF = HCI_OPCODE_VS_START_DFU" "BYTES_TO_UINT16 0x01 0xFF = HCI_OPCODE_VS_END_DFU"
  "BYTES_TO_UINT16 0x02 0xFF = HCI_OPCODE_VS_FW_DATA"
  "HCI_OGF HCI_OPCODE_VS_START_DFU = HCI_OGF_VS" "HCI_OGF HCI_OPCODE_VS_END_DFU = HCI_OGF_VS" "HCI_OGF HCI_OPCODE_VS_FW_DATA = HCI_OGF_VS"
  "HCI_OCF HCI_OPCODE_VS_START_DFU = HCI_OCF_VS_START_DFU" "HCI_OCF HCI_OPCODE_VS_END_DFU = HCI_OCF_VS_END_DFU"
  "HCI_OCF HCI_OPCODE_VS_FW_DATA = HCI_OCF_VS_FW_DATA"
  "HCI_OCF_VS_START_DFU \<le> HCI_OCF_VS_END_DFU" "HCI_OCF_VS_END_DFU \<le> HCI_OCF_VS_FW_DATA" "HCI_OCF_VS_START_DFU \<le> HCI_OCF_VS_FW_DATA"
  "HCI_OPCODE_VS_START_DFU \<noteq> HCI_OPCODE_VS_FW_DATA" "HCI_OPCODE_VS_START_DFU \<noteq> HCI_OPCODE_VS_END_DFU"
  "HCI_OPCODE_VS_FW_DATA \<noteq> HCI_OPCODE_VS_END_DFU" "HCI_OPCODE_VS_FW_DATA \<noteq> HCI_OPCODE_VS_START_DFU"
  "HCI_OPCODE_VS_END_DFU \<noteq> HCI_OPCODE_VS_START_DFU" "HCI_OPCODE_VS_END_DFU \<noteq> HCI_OPCODE_VS_FW_DATA"
  by code_simp+

lemma bind_pair: "Option.bind x (\<lambda>y. Some (a, y)) = map_option (Pair a) x"
  by (cases x) simp_all

lemma dfu_handle_start:
  "DFU_Handler c now (dfu_start_packet n @ rest) s = map_option (Pair 1) (DFU_StartDfuCmdHandler now (dfu_start_packet n @ rest) s)"
  by (simp add: DFU_Handler_def DFU_CmdHandler_def dfu_start_packet_def get_bytes_def Let_def dfu_opcodes bind_pair)

lemma dfu_handle_end:
  "DFU_Handler c now (dfu_end_packet @ rest) s = map_option (Pair 1) (DFU_EndDfuCmdHandler c now (dfu_end_packet @ rest) s)"
  by (simp add: DFU_Handler_def DFU_CmdHandler_def dfu_end_packet_def get_bytes_def Let_def dfu_opcodes bind_pair)

lemma dfu_handle_data:
  "DFU_Handler c now (dfu_data_packet xs @ rest) s =
     map_option (Pair 1) (DFU_FwDataCmdHandler c now (dfu_data_packet xs @ rest) (ucast (of_nat (length xs + 4) :: u8)) s)"
  by (simp add: DFU_Handler_def DFU_CmdHandler_def dfu_data_packet_def get_bytes_def Let_def dfu_opcodes bind_pair
      del: of_nat_add)

section \<open>Storing an image packet by packet\<close>

text \<open>\<open>img\<close> has been received since the start in the state \<open>s0\<close>: it lies in the area, but for its boot
  flag, and the check sum has been computed over all of it.\<close>

definition dfu_progress :: "nat \<Rightarrow> ('f \<Rightarrow> mem) \<Rightarrow> 'f chip \<Rightarrow> 'f dfu \<Rightarrow> u32 \<Rightarrow> u8 list \<Rightarrow> 'f dfu \<Rightarrow> bool" where
  "dfu_progress cap cell c s0 n img s \<longleftrightarrow>
     dfu_place cap cell c s \<and> nextFwAddrStart s = nextFwAddrStart s0 \<and> newFwAddrStart s = newFwAddrStart s0 \<and>
     maxFwSize s = maxFwSize s0 \<and> status s = DFU_STA_START \<and> reboots s = reboots s0 \<and> resendCnt s = 0 \<and> newFwSize s = n \<and>
     unat (fwOffset s) = length img \<and> (img = [] \<or> 8 < length img) \<and>
     curCrc s = DFU_Crc32Calc DFU_CRC_INIT_VALUE img \<and>
     cell (flash s) = (\<lambda>b. if dfu_area s0 \<le> b \<and> b < dfu_area s0 + length img \<and> b \<noteq> dfu_area s0 + 8
                        then img ! (b - dfu_area s0) else cell (flash s0) b)"

lemma dfu_start_progress:
  assumes place: "dfu_place cap cell c s" and idle: "status s \<noteq> DFU_STA_START" and n: "n \<le> maxFwSize s"
  shows "\<exists>s'. dfu_step c (Cmd t (dfu_start_packet n @ rest)) s = Some s' \<and> dfu_progress cap cell c s n [] s'"
proof -
  have fields: "get_bytes (dfu_start_packet n @ rest) 4 7 = Some (1 # 0 # 0 # UINT32_TO_BSTREAM n)"
    by (simp add: dfu_start_packet_def get_bytes_def)
  have size: "BYTES_TO_UINT32 (UINT32_TO_BSTREAM n ! 0) (UINT32_TO_BSTREAM n ! Suc 0) (UINT32_TO_BSTREAM n ! 2) (UINT32_TO_BSTREAM n ! 3) = n"
    using uint32_stream_id [of n] by simp
  let ?s = "(DFU_Reset s)\<lparr>status := DFU_STA_START, newFwSize := n, dfu_timer := t OR 1\<rparr>"
  have tx: "tx_ok (bltHci_txfifo ?s)"
    using place by (simp add: dfu_place_def DFU_Reset_def)
  obtain f where f: "Hci_SendCmdCmplEvt HCI_OPCODE_VS_START_DFU [DFU_HCI_SUCCESS, of_nat DFU_MAX_PAYLOAD, 0] ?s = Some (?s\<lparr>bltHci_txfifo := f\<rparr>)"
      "tx_ok f"
    using evt_cmpl [OF tx, of "[DFU_HCI_SUCCESS, of_nat DFU_MAX_PAYLOAD, 0]" HCI_OPCODE_VS_START_DFU] by auto
  have "\<not> maxFwSize s < n"
    using n by simp
  then have "dfu_step c (Cmd t (dfu_start_packet n @ rest)) s = Some (?s\<lparr>bltHci_txfifo := f\<rparr>)"
    using idle f(1)
    by (simp add: dfu_handle_start DFU_StartDfuCmdHandler_def fields size Let_def dfu_start_def)
  moreover have "dfu_progress cap cell c s n [] (?s\<lparr>bltHci_txfifo := f\<rparr>)"
    using place f(2) by (auto simp: dfu_progress_def DFU_Reset_def dfu_place_def intro!: ext)
  ultimately show ?thesis
    by blast
qed

lemma dfu_data_progress:
  assumes prog: "dfu_progress cap cell c s0 n img s" and len: "1 \<le> length xs" "length xs \<le> 64" "img = [] \<Longrightarrow> 9 \<le> length xs"
    and fits: "length (img @ xs) \<le> unat n" and n: "n \<le> maxFwSize s0"
    and erased: "\<forall>b. dfu_area s0 \<le> b \<and> b < dfu_area s0 + unat n \<longrightarrow> cell (flash s0) b = 0xFF"
  shows "\<exists>s'. dfu_step c (Cmd t (dfu_data_packet xs @ rest)) s = Some s' \<and> dfu_progress cap cell c s0 n (img @ xs) s'"
proof -
  let ?p = "dfu_data_packet xs @ rest" and ?A = "dfu_area s0" and ?l = "ucast (of_nat (length xs + 4) :: u8) :: u32"
  let ?s = "s\<lparr>dfu_timer := t OR 1, resendCnt := 0\<rparr>"
  have place: "dfu_place cap cell c s" and nor: "nor_flash cap cell c" and tx: "tx_ok (bltHci_txfifo s)"
    and room: "?A + unat (maxFwSize s0) + 64 \<le> cap" "cap \<le> 2 ^ 24"
    and A: "dfu_area s = ?A" and O: "unat (fwOffset s) = length img" and st: "status s = DFU_STA_START" "resendCnt s = 0"
    and cells: "cell (flash s) = (\<lambda>b. if ?A \<le> b \<and> b < ?A + length img \<and> b \<noteq> ?A + 8 then img ! (b - ?A) else cell (flash s0) b)"
    and long: "img = [] \<or> 8 < length img"
    using prog by (auto simp: dfu_progress_def dfu_place_def nor_flash_def)
  have O0: "fwOffset s = 0 \<longleftrightarrow> img = []"
    using O by (metis length_0_conv unat_eq_zero)
  have size: "unat n \<le> unat (maxFwSize s0)"
    using n by (simp add: word_le_nat_alt)
  have l8: "unat (of_nat (length xs + 4) :: u8) = length xs + 4"
    using len(2) by (simp only: unat_of_nat) simp
  then have l: "?l = of_nat (length xs + 4)"
    by (metis of_nat_unat)
  have d: "?l - DFU_CHECKSUM_LEN = of_nat (length xs)"
    unfolding l by (simp add: DFU_CHECKSUM_LEN_def)
  have u: "unat (of_nat (length xs) :: u32) = length xs" "unat (of_nat (length xs + 4) :: u32) = length xs + 4"
    "unat (4 + of_nat (length xs) :: u32) = length xs + 4"
    using len(2) by (simp_all add: unat_of_nat unat_word_ariths)
  have sum: "\<exists>w. get_bytes ?p (length xs + 4) 4 = Some w"
    by (simp add: get_bytes_def dfu_data_packet_def)
  have params: "get_bytes ?p 4 (length xs + 4) = Some (xs @ UINT32_TO_BSTREAM (DFU_Crc32Calc DFU_CRC_INIT_VALUE xs))"
    by (simp add: get_bytes_def dfu_data_packet_def)
  have more: "fwOffset s < n"
    using fits len(1) O by (simp add: word_less_nat_alt)
  let ?first = "img = [] \<and> 8 \<le> length xs"
  have pl: "4 + length xs \<le> length ?p" "fwOffset ?s = 0 \<and> 8 \<le> length xs \<longrightarrow> 12 < length ?p"
    by (auto simp: dfu_data_packet_def)
  have "dfu_area ?s + unat (fwOffset ?s) + length xs \<le> cap"
    using A O fits size room by simp
  then obtain f' where f': "dfu_store c ?p (length xs) ?s =
      Some (?s\<lparr>flash := f', curCrc := DFU_Crc32Calc (curCrc ?s) (dfu_written cell ?s (length xs) f' (dfu_flag ?p (length xs) ?s)),
              fwOffset := fwOffset ?s + of_nat (length xs)\<rparr>)"
      "cell f' = burn (dfu_area ?s + unat (fwOffset ?s)) (dfu_payload ?p (length xs) ?s) (cell (flash ?s))"
    using dfu_store_spec [OF nor len(2) pl] by blast
  have pay: "dfu_payload ?p (length xs) ?s = (if ?first then xs[8 := 0xff] else xs)"
    using O0 by (auto simp: dfu_payload_def dfu_first_def dfu_data_packet_def drop_update_swap take_update_swap numeral_eq_Suc)
  have flag: "dfu_flag ?p (length xs) ?s = (if ?first then xs ! 8 else 0)" if "length xs \<noteq> 8"
    using that O0 by (auto simp: dfu_flag_def dfu_first_def dfu_data_packet_def nth_append)
  have free: "cell (flash s) b = 0xFF" if "?A + length img \<le> b" "b < ?A + length img + length xs" for b
    using that erased fits by (auto simp: cells)
  have new: "cell f' = (\<lambda>b. if ?A + length img \<le> b \<and> b < ?A + length img + length xs
      then (if ?first then xs[8 := 0xff] else xs) ! (b - (?A + length img)) else cell (flash s) b)"
    unfolding f'(2) pay using burn_erased [of "?A + length img" "if ?first then xs[8 := 0xff] else xs" "cell (flash s)"] free A O
    by (auto split: if_splits)
  have written: "dfu_written cell ?s (length xs) f' (dfu_flag ?p (length xs) ?s) = xs"
  proof (rule nth_equalityI)
    fix i
    assume "i < length (dfu_written cell ?s (length xs) f' (dfu_flag ?p (length xs) ?s))"
    then have i: "i < length xs"
      by (simp add: dfu_written_def Let_def split: if_splits)
    show "dfu_written cell ?s (length xs) f' (dfu_flag ?p (length xs) ?s) ! i = xs ! i"
      using i O0 A O len(3) flag by (cases "i = 8") (auto simp: dfu_written_def Let_def new nth_list_update)
  qed (simp add: dfu_written_def Let_def)
  let ?s' = "?s\<lparr>flash := f', curCrc := DFU_Crc32Calc (curCrc ?s) xs, fwOffset := fwOffset ?s + of_nat (length xs)\<rparr>"
  have tx': "tx_ok (bltHci_txfifo ?s')"
    using tx by simp
  obtain f where f: "Hci_SendCmdStatusEvt HCI_OPCODE_VS_FW_DATA DFU_HCI_SUCCESS ?s' = Some (?s'\<lparr>bltHci_txfifo := f\<rparr>)" "tx_ok f"
    using evt_status [OF tx'] by blast
  have store: "dfu_store c ?p (length xs) ?s = Some ?s'"
    unfolding f'(1) written ..
  have small: "\<not> of_nat DFU_MAX_PAYLOAD < (of_nat (length xs) :: u32)" "\<not> DFU_RESEND_CNT \<le> 0"
    using len(2) by (simp_all add: word_less_nat_alt u DFU_MAX_PAYLOAD_def DFU_RESEND_CNT_def)
  have n_s: "newFwSize s = n"
    using prog by (simp add: dfu_progress_def)
  obtain w where w: "get_bytes ?p (length xs + 4) 4 = Some w"
    using sum by blast
  have "DFU_FwDataCmdHandler c t ?p ?l s = Some (?s'\<lparr>bltHci_txfifo := f\<rparr>)"
    unfolding DFU_FwDataCmdHandler_def Let_def d
    using small st more n_s store f(1)
    by (simp add: l u w params crc32_residue del: of_nat_add)
  then have step: "dfu_step c (Cmd t ?p) s = Some (?s'\<lparr>bltHci_txfifo := f\<rparr>)"
    by (simp add: dfu_handle_data)
  have off: "unat (fwOffset s + of_nat (length xs)) = length (img @ xs)"
    using O u(1) fits unat_bound(3) [of n] by (simp add: unat_word_ariths)
  have cells': "cell f' = (\<lambda>b. if ?A \<le> b \<and> b < ?A + length (img @ xs) \<and> b \<noteq> ?A + 8 then (img @ xs) ! (b - ?A) else cell (flash s0) b)"
  proof
    show "cell f' b = (if ?A \<le> b \<and> b < ?A + length (img @ xs) \<and> b \<noteq> ?A + 8 then (img @ xs) ! (b - ?A) else cell (flash s0) b)" for b
      using erased [rule_format, of "?A + 8"] fits len(3) long
      by (cases "b = ?A + 8") (auto simp: new cells nth_append nth_list_update add.commute)
  qed
  have "dfu_progress cap cell c s0 n (img @ xs) (?s'\<lparr>bltHci_txfifo := f\<rparr>)"
    unfolding dfu_progress_def
  proof (intro conjI)
    show "img @ xs = [] \<or> 8 < length (img @ xs)"
      using long len(3) by auto
    show "unat (fwOffset (?s'\<lparr>bltHci_txfifo := f\<rparr>)) = length (img @ xs)"
      using off by simp
    show "cell (flash (?s'\<lparr>bltHci_txfifo := f\<rparr>)) =
        (\<lambda>b. if ?A \<le> b \<and> b < ?A + length (img @ xs) \<and> b \<noteq> ?A + 8 then (img @ xs) ! (b - ?A) else cell (flash s0) b)"
      using cells' by simp
  qed (use prog place f(2) in \<open>simp_all add: dfu_progress_def crc32_append\<close>)
  then show ?thesis
    using step by blast
qed

abbreviation dfu_data_cmds :: "(u32 \<times> u8 list) list \<Rightarrow> dfu_event list" where
  "dfu_data_cmds cs \<equiv> map (\<lambda>(t, xs). Cmd t (dfu_data_packet xs)) cs"

lemma dfu_chunks_progress:
  assumes "dfu_progress cap cell c s0 n img s" and "\<forall>x\<in>set (map snd cs). 1 \<le> length x \<and> length x \<le> 64"
    and "img = [] \<Longrightarrow> cs \<noteq> [] \<Longrightarrow> 9 \<le> length (snd (hd cs))"
    and "length (img @ concat (map snd cs)) \<le> unat n" and "n \<le> maxFwSize s0"
    and "\<forall>b. dfu_area s0 \<le> b \<and> b < dfu_area s0 + unat n \<longrightarrow> cell (flash s0) b = 0xFF"
  shows "\<exists>s'. run (dfu_step c) (dfu_data_cmds cs) s = Some s' \<and> dfu_progress cap cell c s0 n (img @ concat (map snd cs)) s'"
  using assms(1-4)
proof (induction cs arbitrary: img s)
  case (Cons tx cs)
  obtain t xs where tx: "tx = (t, xs)"
    by (cases tx)
  have len: "1 \<le> length xs" "length xs \<le> 64" "img = [] \<Longrightarrow> 9 \<le> length xs" "length (img @ xs) \<le> unat n"
    using Cons.prems(2-4) by (auto simp: tx)
  obtain s1 where s1: "dfu_step c (Cmd t (dfu_data_packet xs)) s = Some s1" "dfu_progress cap cell c s0 n (img @ xs) s1"
    using dfu_data_progress [OF Cons.prems(1) len assms(5,6), where rest = "[]" and t = t] by (auto simp del: dfu_step.simps)
  have "\<exists>s'. run (dfu_step c) (dfu_data_cmds cs) s1 = Some s' \<and> dfu_progress cap cell c s0 n ((img @ xs) @ concat (map snd cs)) s'"
    using Cons.prems(2-4) len(1) by (intro Cons.IH [OF s1(2)]) (auto simp: tx)
  with s1(1) show ?case
    by (simp add: tx del: dfu_step.simps)
qed simp

lemma dfu_end_installs:
  assumes prog: "dfu_progress cap cell c s0 n img s" and all: "length img = unat n" "DFU_Crc32Calc DFU_CRC_INIT_VALUE img = 0"
    and n: "n \<le> maxFwSize s0" and long: "8 < length img" "img ! 8 = 0x4b" and clean: "cell (flash s0) (dfu_area s0 + 8) = 0xFF"
  shows "\<exists>s'. dfu_step c (Cmd t (dfu_end_packet @ rest)) s = Some s' \<and> status s' = DFU_STA_END \<and>
    cell (flash s') = (\<lambda>b. if dfu_area s0 \<le> b \<and> b < dfu_area s0 + length img then img ! (b - dfu_area s0)
      else if b = (if dfu_area s0 = 0 then unat (newFwAddrStart s0) else 0) + 8 then 0 else cell (flash s0) b)"
proof -
  let ?A = "dfu_area s0" and ?base = "if dfu_area s0 = 0 then unat (newFwAddrStart s0) else 0"
  have place: "dfu_place cap cell c s" and same: "nextFwAddrStart s = nextFwAddrStart s0" "newFwAddrStart s = newFwAddrStart s0" "maxFwSize s = maxFwSize s0"
    and O: "unat (fwOffset s) = length img" and ns: "newFwSize s = n" and crc: "curCrc s = 0" and
    cells: "cell (flash s) = (\<lambda>b. if ?A \<le> b \<and> b < ?A + length img \<and> b \<noteq> ?A + 8 then img ! (b - ?A) else cell (flash s0) b)"
    using prog all(2) by (auto simp: dfu_progress_def)
  have nor: "nor_flash cap cell c" and room: "?A + unat (maxFwSize s0) + 64 \<le> cap" "unat (newFwAddrStart s0) + 9 \<le> cap" "4096 dvd ?A"
      "?A = 0 \<longrightarrow> unat (maxFwSize s0) + 64 \<le> unat (newFwAddrStart s0)" and tx: "tx_ok (bltHci_txfifo s)"
    using place by (simp_all add: dfu_place_def same)
  have size: "unat n \<le> unat (maxFwSize s0)"
    using n by (simp add: word_le_nat_alt)
  obtain f1 where f1: "FLASH_WritePage c (of_nat (?A + 8)) [0x4b] (flash s) = Some f1"
      "cell f1 = burn (?A + 8) [0x4b] (cell (flash s))"
    using FLASH_WritePage_cells [OF nor, of "?A + 8" "[0x4b]" "flash s"] room by auto
  have room_base: "?base + 8 + length [0 :: u8] \<le> cap"
    using room by auto
  obtain f2 where f2: "FLASH_WritePage c (of_nat (?base + 8)) [0] f1 = Some f2"
      "cell f2 = burn (?base + 8) [0] (cell f1)"
    using FLASH_WritePage_cells [OF nor room_base, of f1] by blast
  have a: "nextFwAddrStart s + 8 = of_nat (?A + 8)"
      "(if nextFwAddrStart s = 0 then newFwAddrStart s else 0) + 8 = of_nat (?base + 8)"
    by (simp_all add: same unat_eq_zero)
  let ?s = "s\<lparr>dfu_timer := t OR 1, flash := f2\<rparr>"
  have tx': "tx_ok (bltHci_txfifo ?s)"
    using tx by simp
  obtain f where f: "Hci_SendCmdCmplStatusEvt HCI_OPCODE_VS_END_DFU DFU_HCI_SUCCESS ?s = Some (?s\<lparr>bltHci_txfifo := f\<rparr>)"
    using evt_cmpl_status [OF tx'] by blast
  have done_: "fwOffset s = n"
    using O all(1) by (simp add: word_unat_eq_iff)
  have "DFU_EndDfuCmdHandler c t (dfu_end_packet @ rest) s = Some (?s\<lparr>bltHci_txfifo := f, status := DFU_STA_END\<rparr>)"
    using done_ ns crc f1(1) f2(1) f
    by (simp add: DFU_EndDfuCmdHandler_def dfu_end_packet_def get_byte_def Let_def a [unfolded of_nat_add] split del: if_split cong: if_cong)
  then have step: "dfu_step c (Cmd t (dfu_end_packet @ rest)) s = Some (?s\<lparr>bltHci_txfifo := f, status := DFU_STA_END\<rparr>)"
    using dfu_handle_end [of c t rest s] by simp
  have outside: "?base + 8 < ?A \<or> ?A + length img \<le> ?base + 8"
  proof (cases "?A = 0")
    case False
    then have "4096 \<le> ?A"
      using room(3) by (auto intro!: dvd_imp_le gr0I)
    then show ?thesis
      by simp
  qed (use room(4) size all(1) in simp)
  have "0xFF AND x = x" for x :: u8
    unfolding and.commute [of "0xFF"] and_low_mask by (rule take_bit_word_eq_self) simp
  then have "cell f2 = (\<lambda>b. if ?A \<le> b \<and> b < ?A + length img then img ! (b - ?A)
      else if b = ?base + 8 then 0 else cell (flash s0) b)"
    using outside long clean by (auto simp: f1(2) f2(2) burn_def cells intro!: ext)
  with step show ?thesis
    by (intro exI [of _ "?s\<lparr>bltHci_txfifo := f, status := DFU_STA_END\<rparr>"]) simp
qed

section \<open>The theorems\<close>

text \<open>
  C15: the whole update.  Into an erased area that lies in the flash, the commands a host sends for an
  image (start, the image in packets of at most 64 bytes with their check sums, end) put exactly this
  image, boot flag included, and clear the boot flag of the running image; the rest of the flash is as
  it was.  The image ends with its own check sum, and its first packet brings at least nine bytes.
\<close>

theorem dfu_update_installs:
  assumes "dfu_place cap cell c s" and "status s \<noteq> DFU_STA_START" and "n \<le> maxFwSize s"
    and "img = concat (map snd cs)" and "length img = unat n" and "DFU_Crc32Calc DFU_CRC_INIT_VALUE img = 0"
    and "\<forall>x\<in>set (map snd cs). 1 \<le> length x \<and> length x \<le> 64" and "9 \<le> length (snd (hd cs))" and "cs \<noteq> []" and "img ! 8 = 0x4b"
    and "\<forall>b. dfu_area s \<le> b \<and> b < dfu_area s + unat n \<longrightarrow> cell (flash s) b = 0xFF"
  shows "\<exists>s'. run (dfu_step c) (Cmd t0 (dfu_start_packet n) # dfu_data_cmds cs @ [Cmd t1 dfu_end_packet]) s = Some s' \<and>
    status s' = DFU_STA_END \<and>
    cell (flash s') = (\<lambda>b. if dfu_area s \<le> b \<and> b < dfu_area s + length img then img ! (b - dfu_area s)
      else if b = (if dfu_area s = 0 then unat (newFwAddrStart s) else 0) + 8 then 0 else cell (flash s) b)"
proof -
  obtain s1 where s1: "dfu_step c (Cmd t0 (dfu_start_packet n)) s = Some s1" "dfu_progress cap cell c s n [] s1"
    using dfu_start_progress [OF assms(1-3), where rest = "[]" and t = t0] by (auto simp del: dfu_step.simps)
  obtain s2 where s2: "run (dfu_step c) (dfu_data_cmds cs) s1 = Some s2" "dfu_progress cap cell c s n img s2"
    using dfu_chunks_progress [OF s1(2) assms(7)] assms(3-5,8,11) by auto
  have long: "8 < length img"
    using assms(4,8,9) by (cases cs) auto
  have clean: "cell (flash s) (dfu_area s + 8) = 0xFF"
    using assms(5,11) long by simp
  obtain s3 where s3: "dfu_step c (Cmd t1 dfu_end_packet) s2 = Some s3" "status s3 = DFU_STA_END"
      "cell (flash s3) = (\<lambda>b. if dfu_area s \<le> b \<and> b < dfu_area s + length img then img ! (b - dfu_area s)
        else if b = (if dfu_area s = 0 then unat (newFwAddrStart s) else 0) + 8 then 0 else cell (flash s) b)"
    using dfu_end_installs [OF s2(2) assms(5,6,3) long assms(10) clean, of t1 "[]"] by auto
  have "run (dfu_step c) (Cmd t0 (dfu_start_packet n) # dfu_data_cmds cs @ [Cmd t1 dfu_end_packet]) s = Some s3"
    using s1(1) s2(1) s3(1) by (simp add: run_append del: dfu_step.simps)
  with s3(2,3) show ?thesis
    by blast
qed

text \<open>An erased flash of the simulator, and an image of 13 bytes.\<close>

definition dfu_new :: "(bool \<times> mem) dfu" where
  "dfu_new =
     \<lparr>newFwAddrStart = 0x20000, maxFwSize = 0x1F000, nextFwAddrStart = 0x40000, newFwSize = 0, fwOffset = 0,
      curCrc = 0xFFFFFFFF, dfu_timer = 0, status = 0, resendCnt = 0,
      bltHci_txfifo = \<lparr>fsize = 12, fnum = 2, fmask = 1, wptr = 0, rptr = 0, fp = replicate 24 0\<rparr>,
      flash = (False, \<lambda>_. 0xFF), revision = 0, reboots = 0\<rparr>"

definition dfu_part :: "u8 list" where
  "dfu_part = [1, 2, 3, 4, 5, 6, 7, 8, 0x4b]"

definition dfu_sum :: "u8 list" where
  "dfu_sum = UINT32_TO_BSTREAM (DFU_Crc32Calc DFU_CRC_INIT_VALUE dfu_part)"

lemma dfu_new_place: "dfu_place (2 ^ 24 - 4096) snd nor_chip dfu_new"
proof -
  have "fifo_wf (bltHci_txfifo dfu_new)"
    by (auto simp: fifo_wf_def dfu_new_def mask_eq_exp_minus_1 intro: bexI [of _ 1])
  then show ?thesis
    unfolding dfu_place_def tx_ok_def using nor_chip_nor by (intro conjI) (simp_all add: dfu_new_def)
qed

theorem dfu_update_installs_witness:
  "\<exists>s'. run (dfu_step nor_chip) (Cmd 10 (dfu_start_packet 13) # dfu_data_cmds [(20, dfu_part), (30, dfu_sum)] @ [Cmd 40 dfu_end_packet]) dfu_new = Some s' \<and>
    status s' = DFU_STA_END \<and>
    snd (flash s') = (\<lambda>b. if dfu_area dfu_new \<le> b \<and> b < dfu_area dfu_new + length (dfu_part @ dfu_sum)
      then (dfu_part @ dfu_sum) ! (b - dfu_area dfu_new)
      else if b = (if dfu_area dfu_new = 0 then unat (newFwAddrStart dfu_new) else 0) + 8 then 0 else snd (flash dfu_new) b)"
proof (rule dfu_update_installs [OF dfu_new_place])
  show "DFU_Crc32Calc DFU_CRC_INIT_VALUE (dfu_part @ dfu_sum) = 0"
    unfolding dfu_sum_def by (rule crc32_residue)
qed (simp_all add: dfu_new_def dfu_part_def dfu_sum_def dfu_consts)

lemma dfu_init_inv:
  assumes "nor_flash cap cell c" and "tx_ok (bltHci_txfifo s)" and "4096 dvd a" and "a + 0x1F000 + 64 \<le> cap" and "0x20009 \<le> cap"
    and "cell (flash s) (a + 8) = 0xFF" and "reboots s = 0"
  obtains s0 where "DFU_Init c (of_nat a) s = Some s0" and "dfu_inv a B cap cell c s0" and "status s0 = 0" and "reboots s0 = 0" and "dfu_timer s0 = 0"
    and "maxFwSize s0 = DFU_NEW_FW_MAX_SIZE" and "\<forall>b. cell (flash s0) b \<in> {0xFF, cell (flash s) b}"
proof -
  let ?i = "s\<lparr>newFwAddrStart := DFU_NEW_FW_ADDR_BASE, maxFwSize := DFU_NEW_FW_MAX_SIZE, nextFwAddrStart := of_nat a,
    newFwSize := 0, fwOffset := 0, curCrc := 0, dfu_timer := 0, status := 0, resendCnt := 0\<rparr>"
  have a: "unat (of_nat a :: u32) = a"
    using assms(1,4) by (simp add: unat_of_nat nor_flash_def)
  have place: "dfu_place cap cell c ?i"
    using assms(1-5) by (simp add: dfu_place_def a DFU_NEW_FW_MAX_SIZE_def DFU_NEW_FW_ADDR_BASE_def)
  have "4096 dvd dfu_area ?i" "4 \<le> unat (maxFwSize ?i)" "dfu_area ?i + unat (maxFwSize ?i) + 4 \<le> cap"
    using assms(3,4) by (simp_all add: a DFU_NEW_FW_MAX_SIZE_def)
  from DFU_EraseNewFwArea_spec [OF assms(1) this] obtain f where
    f: "DFU_EraseNewFwArea c ?i = Some (?i\<lparr>flash := f\<rparr>)" "\<forall>b. cell f b \<in> {0xFF, cell (flash ?i) b}"
    by blast
  let ?s0 = "?i\<lparr>flash := f, revision := DFU_FW_VERSION\<rparr>"
  have "DFU_Init c (of_nat a) s = Some ?s0"
    using f(1) by (simp add: DFU_Init_def Hci_SetRevision_def)
  moreover have "cell f (a + 8) = 0xFF"
    using f(2) [rule_format, of "a + 8"] assms(6) by simp
  then have "dfu_inv a B cap cell c ?s0"
    using place assms(7) by (simp add: dfu_inv_def a dfu_installed_def dfu_received_def dfu_unstarted_def dfu_consts dfu_place_def)
  ultimately show ?thesis
    using f(2) assms(7) by (intro that [of ?s0]) simp_all
qed

text \<open>
  C16: only an intact image is marked bootable.  After \<open>DFU_Init\<close> on an area whose boot flag is erased,
  every sequence of commands, whatever they contain, and passes of the main loop is handled
  without leaving a buffer.  As long as no update has succeeded, the flag stays erased; once one has, the flag is
  set, as many bytes as were announced lie in the area, and their check sum, with the byte that one of the
  commands sent in the place of the flag, is right.  The conditions (\<open>dfu_env\<close>): commands are complete in
  their buffer; the first data packet of an image brings at least nine bytes (a shorter one is stored
  with its flag byte); no end command comes before the first start (\<open>dfu_end_without_start\<close> shows that it
  would mark an empty area); and between the success of an update and the restart no command comes
  and the timer of 30 s does not expire.
\<close>

theorem dfu_installs_only_intact:
  assumes "nor_flash cap cell c" and "tx_ok (bltHci_txfifo s)" and "4096 dvd a" and "a + 0x1F000 + 64 \<le> cap" and "0x20009 \<le> cap"
    and "cell (flash s) (a + 8) = 0xFF" and "reboots s = 0"
    and "DFU_Init c (of_nat a) s = Some s0" and "admissible (dfu_step c) dfu_env es s0"
  shows "\<exists>s'. run (dfu_step c) es s0 = Some s' \<and> dfu_area s' = a \<and>
    (if dfu_installed s'
     then cell (flash s') (a + 8) = 0x4b \<and> 8 < unat (newFwSize s') \<and> length (dfu_image cell s') = unat (newFwSize s') \<and>
       (\<exists>t p. Cmd t p \<in> set es \<and> DFU_Crc32Calc DFU_CRC_INIT_VALUE ((dfu_image cell s')[8 := p ! 12]) = 0)
     else cell (flash s') (a + 8) = 0xFF)"
proof -
  let ?B = "{p ! 12 |t p. Cmd t p \<in> set es}"
  have "dfu_inv a ?B cap cell c s0"
    by (rule dfu_init_inv [OF assms(1-7)]) (use assms(8) in simp)
  moreover have "dfu_flag_in ?B e" if "e \<in> set es" for e
    using that by (cases e rule: dfu_event.exhaust) auto
  then have "admissible (dfu_step c) (\<lambda>e s. dfu_env e s \<and> dfu_flag_in ?B e) es s0"
    by (intro admissible_both [OF assms(9)]) blast
  ultimately obtain s' where s': "run (dfu_step c) es s0 = Some s'" "dfu_inv a ?B cap cell c s'"
    using dfu.run_safe by blast
  show ?thesis
  proof (cases "dfu_installed s'")
    case True
    then have all: "fwOffset s' = newFwSize s'" "fwOffset s' \<noteq> 0" "curCrc s' = 0" "8 < unat (fwOffset s')"
      using s'(2) by (auto simp: dfu_inv_def)
    then obtain b where "b \<in> ?B" "DFU_Crc32Calc DFU_CRC_INIT_VALUE ((dfu_image cell s')[8 := b]) = 0"
      using s'(2) by (auto simp: dfu_inv_def dfu_received_def)
    then show ?thesis
      using True all s' by (auto simp: dfu_inv_def dfu_image_def)
  next
    case False
    then show ?thesis
      using s' by (auto simp: dfu_inv_def)
  qed
qed

text \<open>A whole update, with packets in buffers that are longer than they need to be and a pass of the main loop before.\<close>

definition dfu_sample_cmds :: "dfu_event list" where
  "dfu_sample_cmds =
     [Poll 5 True, Cmd 10 (dfu_start_packet 13 @ replicate 9 0), Cmd 20 (dfu_data_packet dfu_part @ replicate 9 0),
      Cmd 30 (dfu_data_packet dfu_sum @ replicate 9 0), Cmd 40 (dfu_end_packet @ replicate 9 0)]"

lemma dfu_sample_run:
  assumes place: "dfu_place cap cell c s0" and st: "status s0 = 0" "reboots s0 = 0" "dfu_timer s0 = 0" and max: "maxFwSize s0 = DFU_NEW_FW_MAX_SIZE"
    and erased: "\<forall>b. dfu_area s0 \<le> b \<and> b < dfu_area s0 + 13 \<longrightarrow> cell (flash s0) b = 0xFF"
  shows "admissible (dfu_step c) dfu_env dfu_sample_cmds s0 \<and> (\<exists>s'. run (dfu_step c) dfu_sample_cmds s0 = Some s' \<and> dfu_installed s')"
proof -
  have n: "(13 :: u32) \<le> maxFwSize s0" and idle: "status s0 \<noteq> DFU_STA_START"
    using st by (simp_all add: max DFU_NEW_FW_MAX_SIZE_def dfu_consts)
  have u13: "unat (13 :: u32) = 13"
    by simp
  have lens: "length dfu_part = 9" "length dfu_sum = 4" "dfu_part ! 8 = 0x4b" "dfu_part \<noteq> []"
    by (simp_all add: dfu_part_def dfu_sum_def)
  have crc: "DFU_Crc32Calc DFU_CRC_INIT_VALUE (dfu_part @ dfu_sum) = 0"
    unfolding dfu_sum_def by (rule crc32_residue)
  obtain s1 where s1: "dfu_step c (Cmd 10 (dfu_start_packet 13 @ replicate 9 0)) s0 = Some s1" "dfu_progress cap cell c s0 13 [] s1"
    using dfu_start_progress [OF place idle n] by blast
  obtain s2 where s2: "dfu_step c (Cmd 20 (dfu_data_packet dfu_part @ replicate 9 0)) s1 = Some s2" "dfu_progress cap cell c s0 13 dfu_part s2"
    using dfu_data_progress [OF s1(2) _ _ _ _ n, of dfu_part 20 "replicate 9 0"] erased lens by auto
  obtain s3 where s3: "dfu_step c (Cmd 30 (dfu_data_packet dfu_sum @ replicate 9 0)) s2 = Some s3"
      "dfu_progress cap cell c s0 13 (dfu_part @ dfu_sum) s3"
    using dfu_data_progress [OF s2(2) _ _ _ _ n, of dfu_sum 30 "replicate 9 0"] erased lens by auto
  have clean: "cell (flash s0) (dfu_area s0 + 8) = 0xFF"
    using erased by simp
  obtain s4 where s4: "dfu_step c (Cmd 40 (dfu_end_packet @ replicate 9 0)) s3 = Some s4" "status s4 = DFU_STA_END"
    using dfu_end_installs [OF s3(2) _ crc n _ _ clean, of 40 "replicate 9 0"] lens by (auto simp: nth_append)
  have reb: "reboots s1 = 0" "reboots s2 = 0" "reboots s3 = 0"
    using s1(2) s2(2) s3(2) st(2) by (simp_all add: dfu_progress_def)
  have sta: "status s1 = DFU_STA_START" "status s2 = DFU_STA_START" "status s3 = DFU_STA_START"
    using s1(2) s2(2) s3(2) by (simp_all add: dfu_progress_def)
  have sizes: "fwOffset s2 \<noteq> 0" "fwOffset s3 \<noteq> 0" "newFwSize s1 = 13" "newFwSize s2 = 13" "newFwSize s3 = 13"
    using s1(2) s2(2) s3(2) lens by (auto simp: dfu_progress_def unat_eq_zero)
  have poll: "dfu_step c (Poll 5 True) s0 = Some s0"
    using st by (simp add: DFU_TaskStart_def Let_def dfu_consts)
  note packets = dfu_start_packet_def dfu_data_packet_def dfu_end_packet_def
  have env: "dfu_env (Poll 5 True) s0" "dfu_env (Cmd 10 (dfu_start_packet 13 @ replicate 9 0)) s0"
    "dfu_env (Cmd 20 (dfu_data_packet dfu_part @ replicate 9 0)) s1" "dfu_env (Cmd 30 (dfu_data_packet dfu_sum @ replicate 9 0)) s2"
    "dfu_env (Cmd 40 (dfu_end_packet @ replicate 9 0)) s3"
    using st reb sta sizes lens dfu_opcodes by (simp_all add: dfu_installed_def dfu_unstarted_def packets) (simp_all add: dfu_consts)
  have "run (dfu_step c) dfu_sample_cmds s0 = Some s4"
    using poll s1(1) s2(1) s3(1) s4(1) by (simp add: dfu_sample_cmds_def del: dfu_step.simps)
  moreover have "admissible (dfu_step c) dfu_env dfu_sample_cmds s0"
    using poll s1(1) s2(1) s3(1) s4(1) env by (simp add: dfu_sample_cmds_def del: dfu_step.simps dfu_env.simps)
  ultimately show ?thesis
    using s4(2) by (auto simp: dfu_installed_def)
qed

theorem dfu_installs_only_intact_witness:
  "\<exists>s0 s'. DFU_Init nor_chip (of_nat 0x40000) dfu_new = Some s0 \<and> run (dfu_step nor_chip) dfu_sample_cmds s0 = Some s' \<and>
    dfu_area s' = 0x40000 \<and> dfu_installed s' \<and> snd (flash s') (0x40000 + 8) = 0x4b \<and> 8 < unat (newFwSize s') \<and>
    length (dfu_image snd s') = unat (newFwSize s') \<and>
    (\<exists>t p. Cmd t p \<in> set dfu_sample_cmds \<and> DFU_Crc32Calc DFU_CRC_INIT_VALUE ((dfu_image snd s')[8 := p ! 12]) = 0)"
proof -
  have tx: "tx_ok (bltHci_txfifo dfu_new)"
    using dfu_new_place by (simp add: dfu_place_def)
  have fields: "4096 dvd (0x40000 :: nat)" "0x40000 + 0x1F000 + 64 \<le> (2 ^ 24 - 4096 :: nat)" "0x20009 \<le> (2 ^ 24 - 4096 :: nat)"
    "snd (flash dfu_new) (0x40000 + 8) = 0xFF" "reboots dfu_new = 0"
    by (simp_all add: dfu_new_def)
  obtain s0 where s0: "DFU_Init nor_chip (of_nat 0x40000) dfu_new = Some s0" "dfu_inv 0x40000 {} (2 ^ 24 - 4096) snd nor_chip s0"
      "status s0 = 0" "reboots s0 = 0" "dfu_timer s0 = 0" "maxFwSize s0 = DFU_NEW_FW_MAX_SIZE"
      "\<forall>b. snd (flash s0) b \<in> {0xFF, snd (flash dfu_new) b}"
    by (rule dfu_init_inv [OF nor_chip_nor tx fields])
  have "dfu_place (2 ^ 24 - 4096) snd nor_chip s0"
    using s0(2) by (simp add: dfu_inv_def)
  moreover have "snd (flash s0) b = 0xFF" for b
    using s0(7) by (simp add: dfu_new_def)
  ultimately obtain s' where s': "admissible (dfu_step nor_chip) dfu_env dfu_sample_cmds s0"
      "run (dfu_step nor_chip) dfu_sample_cmds s0 = Some s'" "dfu_installed s'"
    using dfu_sample_run [OF _ s0(3-6)] by blast
  then show ?thesis
    using dfu_installs_only_intact [OF nor_chip_nor tx fields s0(1) s'(1)] s0(1) by auto
qed

text \<open>
  The end command does not ask whether an update was started.  After \<open>DFU_Init\<close> the check sum is 0
  and both sizes are 0, so that an end command that arrives first succeeds: it marks the empty area
  bootable and clears the boot flag of the running image, and the chip restarts.
\<close>

theorem dfu_end_without_start:
  assumes "nor_flash cap cell c" and "tx_ok (bltHci_txfifo s)" and "a = 0x40000" and "0x60000 \<le> cap"
    and "\<forall>b. a \<le> b \<and> b < a + 0x20000 \<longrightarrow> cell (flash s) b = 0xFF"
  shows "\<exists>s0 s1. DFU_Init c (of_nat a) s = Some s0 \<and> dfu_step c (Cmd t dfu_end_packet) s0 = Some s1 \<and>
    status s1 = DFU_STA_END \<and> cell (flash s1) 8 = 0 \<and> cell (flash s1) (a + 8) = 0x4b \<and>
    (\<forall>b. a \<le> b \<and> b < a + 0x1F000 \<and> b \<noteq> a + 8 \<longrightarrow> cell (flash s1) b = 0xFF)"
proof -
  let ?i = "s\<lparr>newFwAddrStart := DFU_NEW_FW_ADDR_BASE, maxFwSize := DFU_NEW_FW_MAX_SIZE, nextFwAddrStart := of_nat a,
    newFwSize := 0, fwOffset := 0, curCrc := 0, dfu_timer := 0, status := 0, resendCnt := 0\<rparr>"
  have i: "4096 dvd dfu_area ?i" "4 \<le> unat (maxFwSize ?i)" "dfu_area ?i + unat (maxFwSize ?i) + 4 \<le> cap"
    using assms(3,4) by (simp_all add: DFU_NEW_FW_MAX_SIZE_def)
  obtain f where f: "DFU_EraseNewFwArea c ?i = Some (?i\<lparr>flash := f\<rparr>)" "\<forall>b. cell f b \<in> {0xFF, cell (flash ?i) b}"
    using DFU_EraseNewFwArea_spec [OF assms(1) i] by blast
  have area: "cell f b = 0xFF" if "a \<le> b" "b < a + 0x20000" for b
    using f(2) [rule_format, of b] assms(5) that by simp
  let ?s0 = "?i\<lparr>flash := f, revision := DFU_FW_VERSION\<rparr>"
  obtain f1 where f1: "FLASH_WritePage c (of_nat (a + 8)) [0x4b] f = Some f1" "cell f1 = burn (a + 8) [0x4b] (cell f)"
    using FLASH_WritePage_cells [OF assms(1), of "a + 8" "[0x4b]" f] assms(3,4) by auto
  obtain f2 where f2: "FLASH_WritePage c (of_nat 8) [0] f1 = Some f2" "cell f2 = burn 8 [0] (cell f1)"
    using FLASH_WritePage_cells [OF assms(1), of 8 "[0]" f1] assms(4) by auto
  let ?s1 = "?s0\<lparr>dfu_timer := t OR 1, flash := f2\<rparr>"
  have tx: "tx_ok (bltHci_txfifo ?s1)"
    using assms(2) by simp
  obtain q where q: "Hci_SendCmdCmplStatusEvt HCI_OPCODE_VS_END_DFU DFU_HCI_SUCCESS ?s1 = Some (?s1\<lparr>bltHci_txfifo := q\<rparr>)"
    using evt_cmpl_status [OF tx] by blast
  have "DFU_EndDfuCmdHandler c t (dfu_end_packet @ []) ?s0 = Some (?s1\<lparr>bltHci_txfifo := q, status := DFU_STA_END\<rparr>)"
    using f1(1) f2(1) q assms(3) by (simp add: DFU_EndDfuCmdHandler_def dfu_end_packet_def get_byte_def Let_def)
  then have "dfu_step c (Cmd t dfu_end_packet) ?s0 = Some (?s1\<lparr>bltHci_txfifo := q, status := DFU_STA_END\<rparr>)"
    using dfu_handle_end [of c t "[]" ?s0] by simp
  moreover have "DFU_Init c (of_nat a) s = Some ?s0"
    using f(1) by (simp add: DFU_Init_def Hci_SetRevision_def)
  moreover have "0xFF AND x = x" for x :: u8
    unfolding and.commute [of "0xFF"] and_low_mask by (rule take_bit_word_eq_self) simp
  then have "cell f2 8 = 0" "cell f2 (a + 8) = 0x4b" "\<forall>b. a \<le> b \<and> b < a + 0x1F000 \<and> b \<noteq> a + 8 \<longrightarrow> cell f2 b = 0xFF"
    using area assms(3) by (simp_all add: f1(2) f2(2) burn_def)
  ultimately show ?thesis
    by (intro exI [of _ ?s0] exI [of _ "?s1\<lparr>bltHci_txfifo := q, status := DFU_STA_END\<rparr>"]) simp
qed

theorem dfu_end_without_start_witness:
  "\<exists>s0 s1. DFU_Init nor_chip (of_nat 0x40000) dfu_new = Some s0 \<and> dfu_step nor_chip (Cmd 5 dfu_end_packet) s0 = Some s1 \<and>
    status s1 = DFU_STA_END \<and> snd (flash s1) 8 = 0 \<and> snd (flash s1) (0x40000 + 8) = 0x4b \<and>
    (\<forall>b. 0x40000 \<le> b \<and> b < 0x40000 + 0x1F000 \<and> b \<noteq> 0x40000 + 8 \<longrightarrow> snd (flash s1) b = 0xFF)"
proof (rule dfu_end_without_start [OF nor_chip_nor])
  show "tx_ok (bltHci_txfifo dfu_new)"
    using dfu_new_place by (simp add: dfu_place_def)
qed (simp_all add: dfu_new_def)

end
