(* ===== verification/Custom_Pair.thy ===== *)
theory Custom_Pair
  imports Flash Simulation
begin

text \<open>
  The bonding table of a central without SMP, \<^verbatim>\<open>vendor/common/custom_pair.c\<close>: at most four peers in
  RAM, and a log of 8-byte records in one flash sector from which the table is loaded after power on.
  A record is written once; deleting a peer clears its mark.  The sector is erased and the table
  rewritten at initialisation, when more than half of it is used.
\<close>

section \<open>Data and state\<close>

definition USER_PAIR_ACL_PERIPHR_MAX_NUM :: nat where "USER_PAIR_ACL_PERIPHR_MAX_NUM = 4"
definition ADR_BOND_MARK :: u8 where "ADR_BOND_MARK = 0x5A"
definition ADR_ERASE_MARK :: u8 where "ADR_ERASE_MARK = 0x00"
definition FLASH_CUSTOM_PAIRING_MAX_SIZE :: int where "FLASH_CUSTOM_PAIRING_MAX_SIZE = 4096"
definition FLASH_ADR_SMP_PAIRING_512K_FLASH :: u32 where "FLASH_ADR_SMP_PAIRING_512K_FLASH = 0x78000"
definition FLASH_ADR_SMP_PAIRING_1M_FLASH :: u32 where "FLASH_ADR_SMP_PAIRING_1M_FLASH = 0xFA000"
definition FLASH_ADR_SMP_PAIRING_2M_FLASH :: u32 where "FLASH_ADR_SMP_PAIRING_2M_FLASH = 0x1FA000"
definition FLASH_SIZE_512K :: u8 where "FLASH_SIZE_512K = 0x13"
definition FLASH_SIZE_1M :: u8 where "FLASH_SIZE_1M = 0x14"
definition FLASH_SIZE_2M :: u8 where "FLASH_SIZE_2M = 0x15"

record mac_addr =
  bond_mark :: u8
  mac_type :: u8
  mac_address :: "u8 list"

text \<open>The eight bytes of the structure, as they are written to and read from the flash.\<close>

definition mac_bytes :: "mac_addr \<Rightarrow> u8 list" where
  "mac_bytes d = bond_mark d # mac_type d # mac_address d"

definition bytes_mac :: "u8 list \<Rightarrow> mac_addr option" where
  "bytes_mac xs =
     do { m \<leftarrow> get_byte xs 0; t \<leftarrow> get_byte xs 1; a \<leftarrow> get_bytes xs 2 6;
          Some \<lparr>bond_mark = m, mac_type = t, mac_address = a\<rparr> }"

record 'f pair =
  bond_flash_idx :: "u32 list"
  bond_device :: "mac_addr list"
  curNum :: u8
  bond_slave_flash_cfg_idx :: int
  flash_sector_custom_pairing :: u32
  pair_flash :: 'f

section \<open>The functions\<close>

text \<open>The loop that moves the entries behind \<open>i\<close> down by one place; \<open>n\<close> is \<open>curNum - 1\<close>.\<close>

function move_data :: "nat \<Rightarrow> nat \<Rightarrow> 'a list \<Rightarrow> 'a list option" where
  "move_data i n t =
     (if i < n then do { x \<leftarrow> get_byte t (i + 1); t \<leftarrow> put_byte t i x; move_data (i + 1) n t } else Some t)"
  by pat_completeness auto
termination
  by (relation "measure (\<lambda>(i, n, t). n - i)") auto

declare move_data.simps [simp del]

definition user_tbl_slave_mac_delete_by_index :: "'f chip \<Rightarrow> nat \<Rightarrow> 'f pair \<Rightarrow> 'f pair option" where
  "user_tbl_slave_mac_delete_by_index c index s =
     do { k \<leftarrow> get_byte (bond_flash_idx s) index;
          f \<leftarrow> flash_page_program c False (flash_sector_custom_pairing s + k) [ADR_ERASE_MARK] (pair_flash s);
          idx \<leftarrow> move_data index (unat (curNum s) - 1) (bond_flash_idx s);
          dev \<leftarrow> move_data index (unat (curNum s) - 1) (bond_device s);
          Some (s\<lparr>pair_flash := f, bond_flash_idx := idx, bond_device := dev, curNum := curNum s - 1\<rparr>) }"

definition user_tbl_slave_mac_add :: "'f chip \<Rightarrow> u8 \<Rightarrow> u8 list \<Rightarrow> 'f pair \<Rightarrow> (int \<times> 'f pair) option" where
  "user_tbl_slave_mac_add c adr_type adr s =
     do { s \<leftarrow> (if USER_PAIR_ACL_PERIPHR_MAX_NUM \<le> unat (curNum s) then user_tbl_slave_mac_delete_by_index c 0 s else Some s);
          let s = s\<lparr>bond_slave_flash_cfg_idx := bond_slave_flash_cfg_idx s + 8\<rparr>;
          if FLASH_CUSTOM_PAIRING_MAX_SIZE \<le> bond_slave_flash_cfg_idx s then Some (0, s)
          else
            do { a \<leftarrow> get_bytes adr 0 6;
                 let d = \<lparr>bond_mark = ADR_BOND_MARK, mac_type = adr_type, mac_address = a\<rparr>;
                 dev \<leftarrow> put_byte (bond_device s) (unat (curNum s)) d;
                 f \<leftarrow> flash_page_program c False
                       (flash_sector_custom_pairing s + of_int (bond_slave_flash_cfg_idx s)) (mac_bytes d) (pair_flash s);
                 idx \<leftarrow> put_byte (bond_flash_idx s) (unat (curNum s)) (of_int (bond_slave_flash_cfg_idx s));
                 Some (1, s\<lparr>bond_device := dev, pair_flash := f, bond_flash_idx := idx, curNum := curNum s + 1\<rparr>) } }"

text \<open>The first entry of the table with this type and address.\<close>

function pair_find :: "nat \<Rightarrow> nat \<Rightarrow> mac_addr list \<Rightarrow> u8 \<Rightarrow> u8 list \<Rightarrow> nat option option" where
  "pair_find i n dev adr_type adr =
     (if i < n then
        do { d \<leftarrow> get_byte dev i;
             if mac_type d = adr_type \<and> mac_address d = adr then Some (Some i)
             else pair_find (i + 1) n dev adr_type adr }
      else Some None)"
  by pat_completeness auto
termination
  by (relation "measure (\<lambda>(i, n, dev, t, a). n - i)") auto

declare pair_find.simps [simp del]

definition user_tbl_slave_mac_search :: "u8 \<Rightarrow> u8 list \<Rightarrow> 'f pair \<Rightarrow> int option" where
  "user_tbl_slave_mac_search adr_type adr s =
     do { a \<leftarrow> get_bytes adr 0 6;
          r \<leftarrow> pair_find 0 (unat (curNum s)) (bond_device s) adr_type a;
          Some (case r of Some i \<Rightarrow> int i + 1 | None \<Rightarrow> 0) }"

definition user_tbl_slave_mac_delete_by_adr :: "'f chip \<Rightarrow> u8 \<Rightarrow> u8 list \<Rightarrow> 'f pair \<Rightarrow> (int \<times> 'f pair) option" where
  "user_tbl_slave_mac_delete_by_adr c adr_type adr s =
     do { a \<leftarrow> get_bytes adr 0 6;
          r \<leftarrow> pair_find 0 (unat (curNum s)) (bond_device s) adr_type a;
          case r of None \<Rightarrow> Some (0, s)
          | Some i \<Rightarrow>
              do { k \<leftarrow> get_byte (bond_flash_idx s) i;
                   f \<leftarrow> flash_page_program c False (flash_sector_custom_pairing s + k) [ADR_ERASE_MARK] (pair_flash s);
                   idx \<leftarrow> move_data i (unat (curNum s) - 1) (bond_flash_idx s);
                   dev \<leftarrow> move_data i (unat (curNum s) - 1) (bond_device s);
                   Some (1, s\<lparr>pair_flash := f, bond_flash_idx := idx, bond_device := dev, curNum := curNum s - 1\<rparr>) } }"

function delete_all_loop :: "'f chip \<Rightarrow> nat \<Rightarrow> nat \<Rightarrow> 'f pair \<Rightarrow> 'f pair option" where
  "delete_all_loop c i n s =
     (if i < n then
        do { k \<leftarrow> get_byte (bond_flash_idx s) i;
             f \<leftarrow> flash_page_program c False (flash_sector_custom_pairing s + k) [ADR_ERASE_MARK] (pair_flash s);
             dev \<leftarrow> put_byte (bond_device s) i \<lparr>bond_mark = 0, mac_type = 0, mac_address = replicate 6 0\<rparr>;
             delete_all_loop c (i + 1) n (s\<lparr>pair_flash := f, bond_device := dev\<rparr>) }
      else Some s)"
  by pat_completeness auto
termination
  by (relation "measure (\<lambda>(c, i, n, s). n - i)") auto

declare delete_all_loop.simps [simp del]

definition user_tbl_slave_mac_delete_all :: "'f chip \<Rightarrow> 'f pair \<Rightarrow> 'f pair option" where
  "user_tbl_slave_mac_delete_all c s =
     do { s \<leftarrow> delete_all_loop c 0 (unat (curNum s)) s; Some (s\<lparr>curNum := 0\<rparr>) }"

function rewrite_loop :: "'f chip \<Rightarrow> nat \<Rightarrow> nat \<Rightarrow> 'f pair \<Rightarrow> 'f pair option" where
  "rewrite_loop c i n s =
     (if i < n then
        do { let s = s\<lparr>bond_slave_flash_cfg_idx := bond_slave_flash_cfg_idx s + 8\<rparr>;
             d \<leftarrow> get_byte (bond_device s) i;
             f \<leftarrow> flash_page_program c False
                   (flash_sector_custom_pairing s + of_int (bond_slave_flash_cfg_idx s)) (mac_bytes d) (pair_flash s);
             idx \<leftarrow> put_byte (bond_flash_idx s) i (of_int (bond_slave_flash_cfg_idx s));
             rewrite_loop c (i + 1) n (s\<lparr>pair_flash := f, bond_flash_idx := idx\<rparr>) }
      else Some s)"
  by pat_completeness auto
termination
  by (relation "measure (\<lambda>(c, i, n, s). n - i)") auto

declare rewrite_loop.simps [simp del]

definition user_bond_slave_flash_clean :: "'f chip \<Rightarrow> 'f pair \<Rightarrow> 'f pair option" where
  "user_bond_slave_flash_clean c s =
     (if bond_slave_flash_cfg_idx s < FLASH_CUSTOM_PAIRING_MAX_SIZE div 2 then Some s
      else
        (let s = s\<lparr>pair_flash := flash_erase_sector c (flash_sector_custom_pairing s) (pair_flash s),
                   bond_slave_flash_cfg_idx := -8\<rparr>
         in rewrite_loop c 0 (unat (curNum s)) s))"

text \<open>The search through the sector.  A fifth valid record stops the code in \<open>while(1)\<close>: \<open>None\<close>.\<close>

function load_loop :: "'f chip \<Rightarrow> nat \<Rightarrow> 'f pair \<Rightarrow> 'f pair option" where
  "load_loop c k s =
     (if k < 4096 then
        do { let adr = flash_sector_custom_pairing s + of_nat k;
             flag \<leftarrow> get_byte (flash_read_data c adr 1 (pair_flash s)) 0;
             if flag = ADR_BOND_MARK then
               (if unat (curNum s) < USER_PAIR_ACL_PERIPHR_MAX_NUM then
                  do { idx \<leftarrow> put_byte (bond_flash_idx s) (unat (curNum s)) (of_nat k);
                       d \<leftarrow> bytes_mac (flash_read_data c adr 8 (pair_flash s));
                       dev \<leftarrow> put_byte (bond_device s) (unat (curNum s)) d;
                       load_loop c (k + 8) (s\<lparr>bond_flash_idx := idx, bond_device := dev, curNum := curNum s + 1\<rparr>) }
                else None)
             else if flag = 0xff then Some (s\<lparr>bond_slave_flash_cfg_idx := int k\<rparr>)
             else load_loop c (k + 8) s }
      else Some (s\<lparr>bond_slave_flash_cfg_idx := int k\<rparr>))"
  by pat_completeness auto
termination
  by (relation "measure (\<lambda>(c, k, s). 4096 - k)") auto

declare load_loop.simps [simp del]

definition user_master_host_pairing_flash_init :: "'f chip \<Rightarrow> 'f pair \<Rightarrow> 'f pair option" where
  "user_master_host_pairing_flash_init c s =
     do { s \<leftarrow> load_loop c 0 s;
          user_bond_slave_flash_clean c (s\<lparr>bond_slave_flash_cfg_idx := bond_slave_flash_cfg_idx s - 8\<rparr>) }"

definition user_master_host_pairing_management_init :: "'f chip \<Rightarrow> u8 \<Rightarrow> 'f pair \<Rightarrow> 'f pair option" where
  "user_master_host_pairing_management_init c blc_flash_capacity s =
     user_master_host_pairing_flash_init c
       (if blc_flash_capacity = FLASH_SIZE_512K then s\<lparr>flash_sector_custom_pairing := FLASH_ADR_SMP_PAIRING_512K_FLASH\<rparr>
        else if blc_flash_capacity = FLASH_SIZE_1M then s\<lparr>flash_sector_custom_pairing := FLASH_ADR_SMP_PAIRING_1M_FLASH\<rparr>
        else if blc_flash_capacity = FLASH_SIZE_2M then s\<lparr>flash_sector_custom_pairing := FLASH_ADR_SMP_PAIRING_2M_FLASH\<rparr>
        else s)"

section \<open>The loops\<close>

definition del :: "nat \<Rightarrow> 'a list \<Rightarrow> 'a list" where
  "del i xs = take i xs @ drop (Suc i) xs"

lemma length_del: "i < length xs \<Longrightarrow> length (del i xs) = length xs - 1"
  by (simp add: del_def)

lemma del_nth: "j < length xs - 1 \<Longrightarrow> i < length xs \<Longrightarrow> del i xs ! j = xs ! (if j < i then j else Suc j)"
  by (auto simp: del_def nth_append)

lemma move_data_spec:
  assumes "i \<le> n" and "n < length t"
  shows "\<exists>t'. move_data i n t = Some t' \<and> length t' = length t \<and> take n t' = del i (take (Suc n) t)"
  using assms
proof (induction "n - i" arbitrary: i t)
  case 0
  then show ?case
    by (subst move_data.simps) (simp add: del_def)
next
  case (Suc d)
  then have i: "i < n" and d: "d = n - Suc i"
    by simp_all
  let ?t = "t[i := t ! Suc i]"
  obtain t' where t': "move_data (Suc i) n ?t = Some t'" "length t' = length t" "take n t' = del (Suc i) (take (Suc n) ?t)"
    using Suc.hyps(1) [of "Suc i" ?t] d Suc.prems i by auto
  have "del (Suc i) (take (Suc n) ?t) = del i (take (Suc n) t)"
  proof (rule nth_equalityI)
    show "length (del (Suc i) (take (Suc n) ?t)) = length (del i (take (Suc n) t))"
      using i Suc.prems by (simp add: del_def)
    fix j
    assume "j < length (del (Suc i) (take (Suc n) ?t))"
    then have "j < n"
      using i Suc.prems by (simp add: del_def)
    then show "del (Suc i) (take (Suc n) ?t) ! j = del i (take (Suc n) t) ! j"
      using i Suc.prems by (cases "j = i") (simp_all add: del_nth nth_list_update)
  qed
  with t' i Suc.prems show ?case
    by (subst move_data.simps) (simp add: get_byte_def put_byte_def)
qed

fun index_of :: "'a \<Rightarrow> 'a list \<Rightarrow> nat option" where
  "index_of x [] = None"
| "index_of x (y # ys) = (if x = y then Some 0 else map_option Suc (index_of x ys))"

lemma index_of_None: "index_of x xs = None \<longleftrightarrow> x \<notin> set xs"
  by (induction xs) auto

lemma index_of_Some: "index_of x xs = Some i \<Longrightarrow> i < length xs \<and> xs ! i = x \<and> del i xs = remove1 x xs"
  by (induction xs arbitrary: i) (auto simp: del_def split: if_splits)

abbreviation mac_key :: "mac_addr \<Rightarrow> u8 \<times> u8 list" where
  "mac_key d \<equiv> (mac_type d, mac_address d)"

lemma pair_find_spec:
  assumes "n \<le> length dev" and "i \<le> n"
  shows "pair_find i n dev t a = Some (map_option ((+) i) (index_of (t, a) (map mac_key (drop i (take n dev)))))"
  using assms(2)
proof (induction "n - i" arbitrary: i)
  case 0
  then show ?case
    by (subst pair_find.simps) auto
next
  case (Suc d)
  then have i: "i < n"
    by simp
  have IH: "pair_find (Suc i) n dev t a = Some (map_option ((+) (Suc i)) (index_of (t, a) (map mac_key (drop (Suc i) (take n dev)))))"
    using Suc.hyps(1) [of "Suc i"] Suc.hyps(2) i by simp
  have "drop i (take n dev) = dev ! i # drop (Suc i) (take n dev)"
    using i assms(1) Cons_nth_drop_Suc [of i "take n dev"] by simp
  moreover have "(\<lambda>x. i + Suc x) = (+) (Suc i)"
    by auto
  ultimately show ?case
    using i assms(1) IH by (subst pair_find.simps) (auto simp: get_byte_def option.map_comp comp_def)
qed

end
