(* ===== verification/Custom_Pair_Theorems.thy ===== *)
theory Custom_Pair_Theorems
  imports Custom_Pair
begin

text \<open>
  The bonding table against a list of peers.  The relation says that the table in RAM and the valid
  records of the flash sector are both this list, in order: so that the list also survives a loss of
  power, which the reference model does not even notice.
\<close>

section \<open>The sector\<close>

definition pair_rec :: "u8 \<times> u8 list \<Rightarrow> mac_addr" where
  "pair_rec e = \<lparr>bond_mark = ADR_BOND_MARK, mac_type = fst e, mac_address = snd e\<rparr>"

text \<open>\<open>w\<close> records have been written to the sector at \<open>S\<close>; those with the numbers \<open>ks\<close> are valid.\<close>

definition pair_layout :: "mem \<Rightarrow> nat \<Rightarrow> nat list \<Rightarrow> (u8 \<times> u8 list) list \<Rightarrow> nat \<Rightarrow> bool" where
  "pair_layout m S ks es w \<longleftrightarrow>
     w \<le> 512 \<and> length ks = length es \<and> sorted_wrt (<) ks \<and> (\<forall>k\<in>set ks. k < w) \<and> (\<forall>e\<in>set es. length (snd e) = 6) \<and>
     (\<forall>i<length es. \<forall>j<8. m (S + 8 * (ks ! i) + j) = mac_bytes (pair_rec (es ! i)) ! j) \<and>
     (\<forall>k<w. k \<notin> set ks \<longrightarrow> m (S + 8 * k) = 0) \<and>
     (\<forall>b. S + 8 * w \<le> b \<and> b < S + 4096 \<longrightarrow> m b = 0xFF)"

lemma mac_bytes_length: "length (snd e) = 6 \<Longrightarrow> length (mac_bytes (pair_rec e)) = 8"
  by (simp add: mac_bytes_def pair_rec_def)

lemma set_del: "set (del i xs) \<subseteq> set xs"
  by (auto simp: del_def dest: in_set_takeD in_set_dropD)

lemma set_del_distinct:
  assumes "i < length xs" and "distinct xs"
  shows "set (del i xs) = set xs - {xs ! i}"
proof -
  have e: "xs = take i xs @ xs ! i # drop (Suc i) xs"
    using assms(1) by (rule id_take_nth_drop)
  have "distinct (take i xs @ xs ! i # drop (Suc i) xs)"
    using assms(2) e by metis
  moreover have "set xs = set (take i xs) \<union> insert (xs ! i) (set (drop (Suc i) xs))"
    using arg_cong [OF e, of set] by simp
  ultimately show ?thesis
    by (auto simp: del_def)
qed

lemma sorted_del:
  assumes "sorted_wrt (<) ks"
  shows "sorted_wrt (<) (del i (ks :: nat list))"
proof (cases "i < length ks")
  case True
  have e: "ks = take i ks @ ks ! i # drop (Suc i) ks"
    using True by (rule id_take_nth_drop)
  have "sorted_wrt (<) (take i ks @ ks ! i # drop (Suc i) ks)"
    using assms e by metis
  then show ?thesis
    by (auto simp: del_def sorted_wrt_append)
qed (use assms in \<open>simp add: del_def\<close>)

lemma layout_delete:
  assumes "pair_layout m S ks es w" and i: "i < length es"
  shows "pair_layout (burn (S + 8 * (ks ! i)) [0] m) S (del i ks) (del i es) w"
proof -
  note l = assms(1) [unfolded pair_layout_def]
  have ik: "i < length ks" and dist: "distinct ks" and sorted: "sorted_wrt (<) ks"
    using l i by (auto simp: strict_sorted_iff)
  have k: "ks ! i < w"
    using l ik by simp
  have neq: "ks ! j \<noteq> ks ! i" if "j < length ks" "j \<noteq> i" for j
    using that ik dist by (simp add: nth_eq_iff_index_eq)
  let ?m = "burn (S + 8 * (ks ! i)) [0] m"
  have far: "?m (S + 8 * k' + j) = m (S + 8 * k' + j)" if "j < 8" "k' \<noteq> ks ! i" for k' j
    using that by (auto simp: burn_def)
  have "\<forall>i'<length (del i es). \<forall>j<8. ?m (S + 8 * (del i ks ! i') + j) = mac_bytes (pair_rec (del i es ! i')) ! j"
  proof (intro allI impI)
    fix i' j :: nat
    assume "i' < length (del i es)" and j: "j < 8"
    then have i': "i' < length es - 1"
      using i by (simp add: length_del)
    let ?n = "if i' < i then i' else Suc i'"
    have "del i ks ! i' = ks ! ?n" "del i es ! i' = es ! ?n" "?n < length es" "?n \<noteq> i"
      using i' i l by (auto simp: del_nth)
    with j neq [of ?n] far [of j "ks ! ?n"] l show "?m (S + 8 * (del i ks ! i') + j) = mac_bytes (pair_rec (del i es ! i')) ! j"
      by simp
  qed
  moreover have "\<forall>k<w. k \<notin> set (del i ks) \<longrightarrow> ?m (S + 8 * k) = 0"
    using l set_del_distinct [OF ik dist] far [of 0] by (auto simp: burn_def)
  moreover have "\<forall>b. S + 8 * w \<le> b \<and> b < S + 4096 \<longrightarrow> ?m b = 0xFF"
    using l k by (auto simp: burn_def)
  ultimately show ?thesis
    using l i ik sorted_del [OF sorted, of i] set_del [of i ks] set_del [of i es]
    unfolding pair_layout_def by (auto simp: length_del)
qed

lemma layout_add:
  assumes "pair_layout m S ks es w" and w: "w < 512" and a: "length (snd e) = 6"
  shows "pair_layout (burn (S + 8 * w) (mac_bytes (pair_rec e)) m) S (ks @ [w]) (es @ [e]) (w + 1)"
proof -
  note l = assms(1) [unfolded pair_layout_def]
  have len: "length (mac_bytes (pair_rec e)) = 8"
    using a by (rule mac_bytes_length)
  let ?m = "burn (S + 8 * w) (mac_bytes (pair_rec e)) m"
  have m: "?m = (\<lambda>b. if S + 8 * w \<le> b \<and> b < S + 8 * w + 8 then mac_bytes (pair_rec e) ! (b - (S + 8 * w)) else m b)"
    using burn_erased [of "S + 8 * w" "mac_bytes (pair_rec e)" m] l w unfolding len by auto
  have "\<forall>i<length (es @ [e]). \<forall>j<8. ?m (S + 8 * ((ks @ [w]) ! i) + j) = mac_bytes (pair_rec ((es @ [e]) ! i)) ! j"
  proof (intro allI impI)
    fix i j :: nat
    assume i: "i < length (es @ [e])" and j: "j < 8"
    show "?m (S + 8 * ((ks @ [w]) ! i) + j) = mac_bytes (pair_rec ((es @ [e]) ! i)) ! j"
    proof (cases "i = length es")
      case True
      then show ?thesis
        using l j unfolding m by (auto simp: nth_append)
    next
      case False
      then have i': "i < length es" "ks ! i < w"
        using i l by auto
      have far: "\<not> (S + 8 * w \<le> S + 8 * (ks ! i) + j \<and> S + 8 * (ks ! i) + j < S + 8 * w + 8)"
        using i'(2) j by linarith
      have "?m (S + 8 * (ks ! i) + j) = m (S + 8 * (ks ! i) + j)"
        unfolding m by (rule if_not_P [OF far])
      then show ?thesis
        using l i' j by (simp add: nth_append)
    qed
  qed
  moreover have "sorted_wrt (<) (ks @ [w])"
    using l by (auto simp: sorted_wrt_append)
  moreover have "\<forall>k<w + 1. k \<notin> set (ks @ [w]) \<longrightarrow> ?m (S + 8 * k) = 0"
    using l unfolding m by (auto simp: less_Suc_eq)
  moreover have "\<forall>b. S + 8 * (w + 1) \<le> b \<and> b < S + 4096 \<longrightarrow> ?m b = 0xFF"
    using l unfolding m by auto
  moreover have "length (ks @ [w]) = length (es @ [e])" "\<forall>k\<in>set (ks @ [w]). k < w + 1" "\<forall>e\<in>set (es @ [e]). length (snd e) = 6" "w + 1 \<le> 512"
    using l w a by auto
  ultimately show ?thesis
    unfolding pair_layout_def by blast
qed

lemma layout_wipe:
  assumes "4096 dvd S"
  shows "pair_layout (wipe S m) S [] [] 0"
proof -
  obtain q where S: "S = 4096 * q"
    using assms by (auto simp: dvd_def)
  have sector: "b div 4096 = S div 4096" if "S \<le> b" "b < S + 4096" for b
  proof -
    have "b div 4096 = q"
      using that unfolding S by (intro div_nat_eqI) simp_all
    then show ?thesis
      unfolding S by simp
  qed
  have "wipe S m b = 0xFF" if "S \<le> b" "b < S + 4096" for b
    unfolding wipe_def by (rule if_P [OF sector [OF that]])
  then have "\<forall>b. S + 8 * 0 \<le> b \<and> b < S + 4096 \<longrightarrow> wipe S m b = 0xFF"
    by simp
  then show ?thesis
    unfolding pair_layout_def by auto
qed

section \<open>The operations\<close>

abbreviation pair_base :: "'f pair \<Rightarrow> nat" where
  "pair_base s \<equiv> unat (flash_sector_custom_pairing s)"

definition pair_table :: "'f pair \<Rightarrow> nat list \<Rightarrow> (u8 \<times> u8 list) list \<Rightarrow> bool" where
  "pair_table s ks es \<longleftrightarrow>
     length es \<le> 4 \<and> unat (curNum s) = length es \<and> length (bond_flash_idx s) = 4 \<and> length (bond_device s) = 4 \<and>
     take (length es) (bond_flash_idx s) = map (\<lambda>k. of_nat (8 * k)) ks \<and> take (length es) (bond_device s) = map pair_rec es"

definition pair_place :: "nat \<Rightarrow> ('f \<Rightarrow> mem) \<Rightarrow> 'f chip \<Rightarrow> 'f pair \<Rightarrow> bool" where
  "pair_place cap cell c s \<longleftrightarrow> nor_flash cap cell c \<and> 4096 dvd pair_base s \<and> pair_base s + 4096 \<le> cap"

lemma pair_table_nth:
  assumes "pair_table s ks es" and "length ks = length es" and "i < length es"
  shows "get_byte (bond_flash_idx s) i = Some (of_nat (8 * (ks ! i)))" and "get_byte (bond_device s) i = Some (pair_rec (es ! i))"
proof -
  have i: "i < length (take (length es) (bond_flash_idx s))" "i < length (take (length es) (bond_device s))"
      "i < length (bond_flash_idx s)" "i < length (bond_device s)"
    using assms by (auto simp: pair_table_def)
  have "take (length es) (bond_flash_idx s) ! i = of_nat (8 * (ks ! i))" "take (length es) (bond_device s) ! i = pair_rec (es ! i)"
    using assms by (simp_all only: pair_table_def nth_map)
  then show "get_byte (bond_flash_idx s) i = Some (of_nat (8 * (ks ! i)))" "get_byte (bond_device s) i = Some (pair_rec (es ! i))"
    using i by (simp_all add: get_byte_def)
qed

lemma map_del: "map f (del i xs) = del i (map f xs)"
  by (simp add: del_def take_map drop_map)

lemma mac_program:
  assumes "pair_place cap cell c s" and "k < 512" and "length xs \<le> 8"
  shows "\<exists>f. flash_page_program c False (flash_sector_custom_pairing s + of_nat (8 * k)) xs fl = Some f \<and>
    cell f = burn (pair_base s + 8 * k) xs (cell fl)"
proof -
  have "flash_sector_custom_pairing s + of_nat (8 * k) = of_nat (pair_base s + 8 * k)"
    by simp
  then show ?thesis
    using flash_page_program_cells [of cap cell c "pair_base s + 8 * k" xs fl] assms by (simp add: pair_place_def)
qed

lemma delete_by_index_spec:
  assumes place: "pair_place cap cell c s" and lay: "pair_layout (cell (pair_flash s)) (pair_base s) ks es w"
    and tab: "pair_table s ks es" and i: "i < length es"
  shows "\<exists>s'. user_tbl_slave_mac_delete_by_index c i s = Some s' \<and>
    flash_sector_custom_pairing s' = flash_sector_custom_pairing s \<and> bond_slave_flash_cfg_idx s' = bond_slave_flash_cfg_idx s \<and>
    pair_layout (cell (pair_flash s')) (pair_base s) (del i ks) (del i es) w \<and> pair_table s' (del i ks) (del i es)"
proof -
  have "ks ! i \<in> set ks" "w \<le> 512" "length ks = length es" "\<forall>k\<in>set ks. k < w"
    using lay i by (simp_all add: pair_layout_def)
  then have l: "length ks = length es" "ks ! i < 512"
    by auto
  have n: "unat (curNum s) = length es" "length es \<le> 4" "length (bond_flash_idx s) = 4" "length (bond_device s) = 4"
    using tab by (simp_all add: pair_table_def)
  obtain f where f: "flash_page_program c False (flash_sector_custom_pairing s + of_nat (8 * (ks ! i))) [0] (pair_flash s) = Some f"
      "cell f = burn (pair_base s + 8 * (ks ! i)) [0] (cell (pair_flash s))"
    using mac_program [OF place l(2), of "[0]" "pair_flash s"] by auto
  have sn: "Suc (length es - 1) = length es" "i \<le> length es - 1" "length es - 1 < 4"
    using i n by auto
  obtain idx where idx: "move_data i (length es - 1) (bond_flash_idx s) = Some idx" "length idx = 4"
      "take (length es - 1) idx = del i (take (length es) (bond_flash_idx s))"
    using move_data_spec [OF sn(2), of "bond_flash_idx s"] n sn by auto
  obtain dev where dev: "move_data i (length es - 1) (bond_device s) = Some dev" "length dev = 4"
      "take (length es - 1) dev = del i (take (length es) (bond_device s))"
    using move_data_spec [OF sn(2), of "bond_device s"] n sn by auto
  let ?s = "s\<lparr>pair_flash := f, bond_flash_idx := idx, bond_device := dev, curNum := curNum s - 1\<rparr>"
  have "user_tbl_slave_mac_delete_by_index c i s = Some ?s"
    using pair_table_nth(1) [OF tab l(1) i] f(1) idx(1) dev(1) n(1)
    by (simp add: user_tbl_slave_mac_delete_by_index_def ADR_ERASE_MARK_def)
  moreover have "pair_layout (cell (pair_flash ?s)) (pair_base s) (del i ks) (del i es) w"
    using layout_delete [OF lay i] f(2) by simp
  moreover have "unat (curNum s - 1) = length es - 1"
    using n(1) i by (subst unat_sub) (simp_all add: word_le_nat_alt)
  then have "pair_table ?s (del i ks) (del i es)"
    using tab idx(2,3) dev(2,3) i n(2) by (simp add: pair_table_def length_del map_del)
  ultimately show ?thesis
    by (intro exI [of _ ?s]) simp
qed

lemma append_spec:
  assumes place: "pair_place cap cell c s" and lay: "pair_layout (cell (pair_flash s)) (pair_base s) ks es w"
    and tab: "pair_table s ks es" and w: "w < 512" and n: "length es < 4" and a: "length (snd e) = 6"
  shows "\<exists>dev f idx. put_byte (bond_device s) (unat (curNum s)) (pair_rec e) = Some dev \<and>
    flash_page_program c False (flash_sector_custom_pairing s + of_int (8 * int w)) (mac_bytes (pair_rec e)) (pair_flash s) = Some f \<and>
    put_byte (bond_flash_idx s) (unat (curNum s)) (of_int (8 * int w)) = Some idx \<and>
    pair_layout (cell f) (pair_base s) (ks @ [w]) (es @ [e]) (w + 1) \<and>
    pair_table (s\<lparr>bond_device := dev, pair_flash := f, bond_flash_idx := idx, curNum := curNum s + 1, bond_slave_flash_cfg_idx := i\<rparr>) (ks @ [w]) (es @ [e])"
proof -
  have l: "length ks = length es"
    using lay by (simp add: pair_layout_def)
  have n': "unat (curNum s) = length es" "length (bond_flash_idx s) = 4" "length (bond_device s) = 4"
      "take (length es) (bond_flash_idx s) = map (\<lambda>k. of_nat (8 * k)) ks" "take (length es) (bond_device s) = map pair_rec es"
    using tab by (simp_all add: pair_table_def)
  have w': "of_int (8 * int w) = (of_nat (8 * w) :: u32)"
    by simp
  obtain f where f: "flash_page_program c False (flash_sector_custom_pairing s + of_nat (8 * w)) (mac_bytes (pair_rec e)) (pair_flash s) = Some f"
      "cell f = burn (pair_base s + 8 * w) (mac_bytes (pair_rec e)) (cell (pair_flash s))"
    using mac_program [OF place w, of "mac_bytes (pair_rec e)" "pair_flash s"] mac_bytes_length [OF a] by auto
  have "unat (curNum s + 1) = length es + 1"
    using n n'(1) by (simp add: unat_word_ariths)
  then have "pair_table (s\<lparr>bond_device := (bond_device s)[length es := pair_rec e], pair_flash := f,
      bond_flash_idx := (bond_flash_idx s)[length es := of_nat (8 * w)], curNum := curNum s + 1, bond_slave_flash_cfg_idx := i\<rparr>) (ks @ [w]) (es @ [e])"
    using n n' by (simp add: pair_table_def take_Suc_update)
  then show ?thesis
    using f layout_add [OF lay w a] n n' unfolding w' by (simp add: put_byte_def)
qed

lemma delete_all_spec:
  assumes place: "pair_place cap cell c s" and lay: "pair_layout (cell (pair_flash s)) (pair_base s) (drop i ks) (drop i es) w"
    and l: "length ks = length es" "i \<le> length es" "length es \<le> 4" and idx: "take (length es) (bond_flash_idx s) = map (\<lambda>k. of_nat (8 * k)) ks"
    and len: "length (bond_flash_idx s) = 4" "length (bond_device s) = 4"
  shows "\<exists>s'. delete_all_loop c i (length es) s = Some s' \<and>
    flash_sector_custom_pairing s' = flash_sector_custom_pairing s \<and> bond_slave_flash_cfg_idx s' = bond_slave_flash_cfg_idx s \<and>
    pair_layout (cell (pair_flash s')) (pair_base s) [] [] w \<and> length (bond_flash_idx s') = 4 \<and> length (bond_device s') = 4"
  using place lay l(2) idx len
proof (induction "length es - i" arbitrary: i s)
  case 0
  then have "i = length es"
    by simp
  then show ?case
    using 0 l(1) by (subst delete_all_loop.simps) simp
next
  case (Suc d)
  then have i: "i < length es" "i < length ks"
    using l(1) by simp_all
  have ks: "drop i ks ! 0 = ks ! i" "del 0 (drop i ks) = drop (Suc i) ks" "del 0 (drop i es) = drop (Suc i) es"
    using i by (simp_all add: del_def)
  have "ks ! i \<in> set (drop i ks)" "w \<le> 512" "\<forall>k\<in>set (drop i ks). k < w"
    using Suc.prems(2) i by (auto simp: pair_layout_def in_set_conv_nth intro!: exI [of _ 0])
  then have k: "ks ! i < 512"
    by auto
  obtain f where f: "flash_page_program c False (flash_sector_custom_pairing s + of_nat (8 * (ks ! i))) [0] (pair_flash s) = Some f"
      "cell f = burn (pair_base s + 8 * (ks ! i)) [0] (cell (pair_flash s))"
    using mac_program [OF Suc.prems(1) k, of "[0]" "pair_flash s"] by auto
  have "take (length es) (bond_flash_idx s) ! i = of_nat (8 * (ks ! i))"
    using i by (simp only: Suc.prems(4) nth_map)
  then have g: "get_byte (bond_flash_idx s) i = Some (of_nat (8 * (ks ! i)))"
    using i Suc.prems(5) l(3) by (simp add: get_byte_def)
  let ?s = "s\<lparr>pair_flash := f, bond_device := (bond_device s)[i := \<lparr>bond_mark = 0, mac_type = 0, mac_address = replicate 6 0\<rparr>]\<rparr>"
  have lay': "pair_layout (cell (pair_flash ?s)) (pair_base ?s) (drop (Suc i) ks) (drop (Suc i) es) w"
    using layout_delete [OF Suc.prems(2), of 0] i f(2) by (simp add: ks)
  have place': "pair_place cap cell c ?s"
    using Suc.prems(1) by (simp add: pair_place_def)
  have d: "d = length es - Suc i"
    using Suc.hyps(2) by simp
  from Suc.hyps(1) [OF d place' lay'] obtain s' where s': "delete_all_loop c (Suc i) (length es) ?s = Some s'"
      "flash_sector_custom_pairing s' = flash_sector_custom_pairing s" "bond_slave_flash_cfg_idx s' = bond_slave_flash_cfg_idx s"
      "pair_layout (cell (pair_flash s')) (pair_base s) [] [] w" "length (bond_flash_idx s') = 4" "length (bond_device s') = 4"
    using Suc.prems(4-6) i by auto
  have "delete_all_loop c i (length es) s = Some s'"
    using i g f(1) s'(1) Suc.prems(6) l(3) by (subst delete_all_loop.simps) (simp add: put_byte_def ADR_ERASE_MARK_def)
  then show ?case
    using s' by blast
qed

lemma rewrite_spec:
  assumes "pair_place cap cell c s" and "pair_layout (cell (pair_flash s)) (pair_base s) [0..<i] (take i es) i"
    and es: "length es \<le> 4" "\<forall>e\<in>set es. length (snd e) = 6" and "i \<le> length es" and "take (length es) (bond_device s) = map pair_rec es"
    and "length (bond_flash_idx s) = 4" and "length (bond_device s) = 4" and "take i (bond_flash_idx s) = map (\<lambda>k. of_nat (8 * k)) [0..<i]"
    and "bond_slave_flash_cfg_idx s = 8 * int i - 8" and "unat (curNum s) = length es"
  shows "\<exists>s'. rewrite_loop c i (length es) s = Some s' \<and> flash_sector_custom_pairing s' = flash_sector_custom_pairing s \<and>
    bond_slave_flash_cfg_idx s' = 8 * int (length es) - 8 \<and>
    pair_layout (cell (pair_flash s')) (pair_base s) [0..<length es] es (length es) \<and> pair_table s' [0..<length es] es"
  using assms(1,2,5-11)
proof (induction "length es - i" arbitrary: i s)
  case 0
  then have "i = length es"
    by simp
  then show ?case
    using 0 es by (subst rewrite_loop.simps) (simp add: pair_table_def)
next
  case (Suc d)
  then have i: "i < length es" "i < 512" "d = length es - Suc i"
    using es(1) by simp_all
  let ?e = "es ! i"
  have e6: "length (snd ?e) = 6"
    using es(2) i by simp
  have cfg: "bond_slave_flash_cfg_idx s + 8 = 8 * int i" "of_int (8 * int i) = (of_nat (8 * i) :: u32)"
    using Suc.prems(8) by simp_all
  obtain f where f: "flash_page_program c False (flash_sector_custom_pairing s + of_nat (8 * i)) (mac_bytes (pair_rec ?e)) (pair_flash s) = Some f"
      "cell f = burn (pair_base s + 8 * i) (mac_bytes (pair_rec ?e)) (cell (pair_flash s))"
    using mac_program [OF Suc.prems(1) i(2), of "mac_bytes (pair_rec ?e)" "pair_flash s"] mac_bytes_length [OF e6] by auto
  have "take (length es) (bond_device s) ! i = pair_rec ?e"
    using i by (simp only: Suc.prems(4) nth_map)
  then have g: "get_byte (bond_device s) i = Some (pair_rec ?e)"
    using i es(1) Suc.prems(6) by (simp add: get_byte_def)
  let ?s = "s\<lparr>bond_slave_flash_cfg_idx := 8 * int i, pair_flash := f, bond_flash_idx := (bond_flash_idx s)[i := of_nat (8 * i)]\<rparr>"
  have "pair_layout (cell (pair_flash ?s)) (pair_base ?s) [0..<Suc i] (take (Suc i) es) (Suc i)"
    using layout_add [OF Suc.prems(2) i(2) e6] f(2) i(1) by (simp add: take_Suc_conv_app_nth)
  moreover have "take (Suc i) (bond_flash_idx ?s) = map (\<lambda>k. of_nat (8 * k)) [0..<Suc i]"
    using Suc.prems(5,7) i(1) es(1) by (simp add: take_Suc_update)
  moreover have "pair_place cap cell c ?s"
    using Suc.prems(1) by (simp add: pair_place_def)
  ultimately obtain s' where s': "rewrite_loop c (Suc i) (length es) ?s = Some s'"
      "flash_sector_custom_pairing s' = flash_sector_custom_pairing ?s" "bond_slave_flash_cfg_idx s' = 8 * int (length es) - 8"
      "pair_layout (cell (pair_flash s')) (pair_base ?s) [0..<length es] es (length es)" "pair_table s' [0..<length es] es"
    using Suc.hyps(1) [OF i(3), of ?s] Suc.prems(3-9) i(1) by auto
  have "rewrite_loop c i (length es) s = Some s'"
    using i g f(1) s'(1) Suc.prems(5) es(1) by (subst rewrite_loop.simps) (simp add: put_byte_def cfg)
  then show ?case
    using s' by auto
qed

end
