(* ===== verification/Custom_Pair_Spec.thy ===== *)
theory Custom_Pair_Spec
  imports Custom_Pair_Theorems
begin

text \<open>
  Loading the bonding table from the flash, and the table as a whole against its reference model.
\<close>

section \<open>Power on\<close>

lemma bytes_mac_id: "length (mac_address d) = 6 \<Longrightarrow> bytes_mac (mac_bytes d) = Some d"
  by (simp add: bytes_mac_def mac_bytes_def get_byte_def get_bytes_def)

lemma load_step:
  assumes place: "pair_place cap cell c s" and lay: "pair_layout (cell (pair_flash s)) (pair_base s) ks es w" and k: "k < w"
  shows "get_byte (flash_read_data c (flash_sector_custom_pairing s + of_nat (8 * k)) 1 (pair_flash s)) 0 =
      Some (if k \<in> set ks then ADR_BOND_MARK else 0)"
    and "\<And>i. i < length es \<Longrightarrow> ks ! i = k \<Longrightarrow>
      flash_read_data c (flash_sector_custom_pairing s + of_nat (8 * k)) 8 (pair_flash s) = mac_bytes (pair_rec (es ! i))"
proof -
  let ?a = "pair_base s + 8 * k" and ?m = "cell (pair_flash s)"
  note l = lay [unfolded pair_layout_def]
  have a: "flash_sector_custom_pairing s + of_nat (8 * k) = of_nat ?a" and nor: "nor_flash cap cell c" and room: "pair_base s + 4096 \<le> cap"
    using place by (simp_all add: pair_place_def)
  have in_cap: "?a + 8 \<le> cap"
    using room k l by auto
  have one: "flash_read_data c (of_nat ?a) 1 (pair_flash s) = [?m ?a]"
    using flash_read_data_cells [OF nor, of ?a 1 "pair_flash s"] in_cap by simp
  have eight: "flash_read_data c (of_nat ?a) 8 (pair_flash s) = map ?m [?a..<?a + 8]"
    using flash_read_data_cells [OF nor, of ?a 8 "pair_flash s"] in_cap by simp
  have mark: "?m ?a = (if k \<in> set ks then ADR_BOND_MARK else 0)"
  proof (cases "k \<in> set ks")
    case True
    then obtain i where i: "i < length ks" "ks ! i = k"
      by (auto simp: in_set_conv_nth)
    have "\<forall>j<8. ?m (pair_base s + 8 * (ks ! i) + j) = mac_bytes (pair_rec (es ! i)) ! j"
      using l i(1) by simp
    from this [rule_format, of 0] show ?thesis
      using True i(2) by (simp add: mac_bytes_def pair_rec_def)
  qed (use l k in simp)
  show "get_byte (flash_read_data c (flash_sector_custom_pairing s + of_nat (8 * k)) 1 (pair_flash s)) 0 =
      Some (if k \<in> set ks then ADR_BOND_MARK else 0)"
    unfolding a one mark by (simp add: get_byte_def)
  fix i
  assume i: "i < length es" "ks ! i = k"
  then have e: "length (snd (es ! i)) = 6"
    using l by simp
  have "map ?m [?a..<?a + 8] = mac_bytes (pair_rec (es ! i))"
  proof (rule nth_equalityI)
    fix j
    assume "j < length (map ?m [?a..<?a + 8])"
    then have "j < 8"
      by simp
    then have "?m (pair_base s + 8 * (ks ! i) + j) = mac_bytes (pair_rec (es ! i)) ! j"
      using l i(1) by simp
    then show "map ?m [?a..<?a + 8] ! j = mac_bytes (pair_rec (es ! i)) ! j"
      using \<open>j < 8\<close> i(2) by simp
  qed (simp add: mac_bytes_length [OF e])
  then show "flash_read_data c (flash_sector_custom_pairing s + of_nat (8 * k)) 8 (pair_flash s) = mac_bytes (pair_rec (es ! i))"
    unfolding a eight .
qed

text \<open>\<open>n\<close> records have been found before the place \<open>8 * k\<close>.\<close>

lemma load_spec:
  assumes "pair_place cap cell c s" and "pair_layout (cell (pair_flash s)) (pair_base s) ks es w" and es: "length es \<le> 4"
    and "k \<le> w" and "n \<le> length es" and "\<forall>i<n. ks ! i < k" and "\<forall>i<length es. n \<le> i \<longrightarrow> k \<le> ks ! i"
    and "unat (curNum s) = n" and "length (bond_flash_idx s) = 4" and "length (bond_device s) = 4"
    and "take n (bond_flash_idx s) = map (\<lambda>k. of_nat (8 * k)) (take n ks)" and "take n (bond_device s) = map pair_rec (take n es)"
  shows "\<exists>s'. load_loop c (8 * k) s = Some s' \<and> flash_sector_custom_pairing s' = flash_sector_custom_pairing s \<and>
    pair_flash s' = pair_flash s \<and> bond_slave_flash_cfg_idx s' = 8 * int w \<and> pair_table s' ks es"
  using assms(1,2,4-12)
proof (induction "w - k" arbitrary: k n s)
  case 0
  note l = 0(3) [unfolded pair_layout_def]
  have k: "k = w"
    using 0 by simp
  have n: "n = length es"
  proof (rule ccontr)
    assume "n \<noteq> length es"
    then have "ks ! n \<in> set ks" "k \<le> ks ! n"
      using 0(5,7) l by auto
    then show False
      using l k by auto
  qed
  have tab: "pair_table (s\<lparr>bond_slave_flash_cfg_idx := x\<rparr>) ks es" for x
    using 0 l n es by (simp add: pair_table_def)
  show ?case
  proof (cases "w < 512")
    case True
    have a: "flash_sector_custom_pairing s + of_nat (8 * w) = of_nat (pair_base s + 8 * w)" and nor: "nor_flash cap cell c" and room: "pair_base s + 8 * w + 1 \<le> cap"
      using 0(2) True by (simp_all add: pair_place_def)
    have "flash_read_data c (of_nat (pair_base s + 8 * w)) 1 (pair_flash s) = [0xFF]"
      using flash_read_data_cells [OF nor, of "pair_base s + 8 * w" 1 "pair_flash s"] room l True by simp
    then have "load_loop c (8 * k) s = Some (s\<lparr>bond_slave_flash_cfg_idx := int (8 * w)\<rparr>)"
      using True a unfolding k by (subst load_loop.simps) (simp add: get_byte_def ADR_BOND_MARK_def)
    then show ?thesis
      using tab by (intro exI [of _ "s\<lparr>bond_slave_flash_cfg_idx := int (8 * w)\<rparr>"]) simp
  next
    case False
    then have "load_loop c (8 * k) s = Some (s\<lparr>bond_slave_flash_cfg_idx := int (8 * w)\<rparr>)"
      using l unfolding k by (subst load_loop.simps) simp
    then show ?thesis
      using tab by (intro exI [of _ "s\<lparr>bond_slave_flash_cfg_idx := int (8 * w)\<rparr>"]) simp
  qed
next
  case (Suc d)
  note l = Suc.prems(2) [unfolded pair_layout_def]
  have k: "k < w" "k < 512" "d = w - Suc k" "Suc k \<le> w"
    using Suc.hyps(2) l by auto
  have next_k: "8 * k + 8 = 8 * Suc k"
    by simp
  note read = load_step [OF Suc.prems(1,2) k(1)]
  show ?case
  proof (cases "k \<in> set ks")
    case False
    have "load_loop c (8 * k) s = load_loop c (8 * Suc k) s"
      using k(2) read(1) False by (subst load_loop.simps) (simp add: ADR_BOND_MARK_def add.commute [of "8 * k" 8])
    moreover have "\<forall>i<length es. n \<le> i \<longrightarrow> Suc k \<le> ks ! i"
    proof (intro allI impI)
      fix i
      assume "i < length es" "n \<le> i"
      then have "k \<le> ks ! i" "ks ! i \<in> set ks"
        using Suc.prems(6) l by auto
      then show "Suc k \<le> ks ! i"
        using False by (cases "ks ! i = k") auto
    qed
    moreover have "\<forall>i<n. ks ! i < Suc k"
      using Suc.prems(5) by auto
    ultimately show ?thesis
      using Suc.hyps(1) [OF k(3) Suc.prems(1,2) k(4) Suc.prems(4)] Suc.prems(7-11) by simp
  next
    case True
    have n: "n < length es" "ks ! n = k"
    proof -
      from True obtain i where i: "i < length ks" "ks ! i = k"
        by (auto simp: in_set_conv_nth)
      then have "n \<le> i"
        using Suc.prems(5) by (metis leI less_irrefl)
      then show "n < length es"
        using i l by simp
      then have "k \<le> ks ! n"
        using Suc.prems(6) by simp
      moreover have "ks ! n \<le> ks ! i"
        using l \<open>n \<le> i\<close> i(1) by (cases "n = i") (auto simp: sorted_wrt_iff_nth_less intro!: less_imp_le)
      ultimately show "ks ! n = k"
        using i(2) by simp
    qed
    let ?s = "s\<lparr>bond_flash_idx := (bond_flash_idx s)[n := of_nat (8 * k)], bond_device := (bond_device s)[n := pair_rec (es ! n)], curNum := curNum s + 1\<rparr>"
    have e6: "length (mac_address (pair_rec (es ! n))) = 6"
      using l n(1) by (simp add: pair_rec_def)
    have n4: "n < 4"
      using n(1) es by simp
    have "load_loop c (8 * k) s = load_loop c (8 * Suc k) ?s"
      using k(2) read(1) read(2) [OF n] True n4 Suc.prems(7-9) bytes_mac_id [OF e6]
      by (subst load_loop.simps) (simp add: put_byte_def USER_PAIR_ACL_PERIPHR_MAX_NUM_def Let_def add.commute [of "8 * k" 8])
    moreover have "unat (curNum ?s) = Suc n"
      using Suc.prems(7) n4 by (simp add: unat_word_ariths)
    moreover have "pair_place cap cell c ?s" "pair_layout (cell (pair_flash ?s)) (pair_base ?s) ks es w"
      using Suc.prems(1,2) by (simp_all add: pair_place_def)
    moreover have "take (Suc n) (bond_flash_idx ?s) = map (\<lambda>k. of_nat (8 * k)) (take (Suc n) ks)"
        "take (Suc n) (bond_device ?s) = map pair_rec (take (Suc n) es)"
      using Suc.prems(8-11) n4 n l by (simp_all add: take_Suc_update take_Suc_conv_app_nth)
    moreover have "\<forall>i<Suc n. ks ! i < Suc k" "\<forall>i<length es. Suc n \<le> i \<longrightarrow> Suc k \<le> ks ! i"
      using Suc.prems(5,6) n l by (auto simp: less_Suc_eq sorted_wrt_iff_nth_less Suc_le_eq)
    ultimately show ?thesis
      using Suc.hyps(1) [OF k(3), of ?s "Suc n"] k(4) n(1) Suc.prems(8,9) by simp
  qed
qed

lemma init_spec:
  assumes place: "pair_place cap cell c s" and lay: "pair_layout (cell (pair_flash s)) (pair_base s) ks es w" and es: "length es \<le> 4"
    and off: "curNum s = 0" "length (bond_flash_idx s) = 4" "length (bond_device s) = 4"
  shows "\<exists>s' ks' w'. user_master_host_pairing_flash_init c s = Some s' \<and> flash_sector_custom_pairing s' = flash_sector_custom_pairing s \<and>
    w' = (if 257 \<le> w then length es else w) \<and> bond_slave_flash_cfg_idx s' = 8 * int w' - 8 \<and>
    pair_layout (cell (pair_flash s')) (pair_base s) ks' es w' \<and> pair_table s' ks' es"
proof -
  obtain s1 where s1: "load_loop c 0 s = Some s1" "flash_sector_custom_pairing s1 = flash_sector_custom_pairing s"
      "pair_flash s1 = pair_flash s" "bond_slave_flash_cfg_idx s1 = 8 * int w" "pair_table s1 ks es"
    using load_spec [OF place lay es, of 0 0] off by auto
  let ?s = "s1\<lparr>bond_slave_flash_cfg_idx := 8 * int w - 8\<rparr>"
  have tab: "pair_table ?s ks es"
    using s1(5) by (simp add: pair_table_def)
  have init: "user_master_host_pairing_flash_init c s = user_bond_slave_flash_clean c ?s"
    using s1(1,4) by (simp add: user_master_host_pairing_flash_init_def)
  show ?thesis
  proof (cases "257 \<le> w")
    case False
    then have "user_bond_slave_flash_clean c ?s = Some ?s"
      by (simp add: user_bond_slave_flash_clean_def FLASH_CUSTOM_PAIRING_MAX_SIZE_def)
    then show ?thesis
      using init s1(2,3) tab lay False by (intro exI [of _ ?s] exI [of _ ks] exI [of _ w]) simp
  next
    case True
    let ?t = "?s\<lparr>pair_flash := flash_erase_sector c (flash_sector_custom_pairing ?s) (pair_flash ?s), bond_slave_flash_cfg_idx := -8\<rparr>"
    have clean: "user_bond_slave_flash_clean c ?s = rewrite_loop c 0 (length es) ?t"
      using True tab by (simp add: user_bond_slave_flash_clean_def FLASH_CUSTOM_PAIRING_MAX_SIZE_def pair_table_def)
    have nor: "nor_flash cap cell c" and S: "4096 dvd pair_base s" "pair_base s < cap"
      using place by (simp_all add: pair_place_def)
    have "cell (flash_erase_sector c (of_nat (pair_base s)) (pair_flash s)) = wipe (pair_base s) (cell (pair_flash s))"
      by (rule flash_erase_sector_cells [OF nor S(2)])
    then have "pair_layout (cell (pair_flash ?t)) (pair_base ?t) [0..<0] (take 0 es) 0"
      using layout_wipe [OF S(1), of "cell (pair_flash s)"] s1(2,3) by simp
    moreover have "pair_place cap cell c ?t"
      using place s1(2) by (simp add: pair_place_def)
    moreover have "\<forall>e\<in>set es. length (snd e) = 6"
      using lay by (simp add: pair_layout_def)
    ultimately obtain s' where "rewrite_loop c 0 (length es) ?t = Some s'" "flash_sector_custom_pairing s' = flash_sector_custom_pairing s"
        "bond_slave_flash_cfg_idx s' = 8 * int (length es) - 8"
        "pair_layout (cell (pair_flash s')) (pair_base s) [0..<length es] es (length es)" "pair_table s' [0..<length es] es"
      using rewrite_spec [of cap cell c ?t 0 es] es tab s1(2) by (auto simp: pair_table_def)
    then show ?thesis
      using init clean True by (intro exI [of _ s'] exI [of _ "[0..<length es]"] exI [of _ "length es"]) simp
  qed
qed

section \<open>The reference model\<close>

datatype pair_op = Pair_Add u8 "u8 list" | Pair_Del u8 "u8 list" | Pair_Del_All | Pair_Search u8 "u8 list" | Pair_Power_On

text \<open>The static variables at power on.\<close>

definition pair_power_on :: "'f pair \<Rightarrow> 'f pair" where
  "pair_power_on s =
     s\<lparr>bond_flash_idx := replicate 4 0,
       bond_device := replicate 4 \<lparr>bond_mark = 0, mac_type = 0, mac_address = replicate 6 0\<rparr>, curNum := 0,
       bond_slave_flash_cfg_idx := 0, flash_sector_custom_pairing := FLASH_ADR_SMP_PAIRING_512K_FLASH\<rparr>"

fun pair_step :: "'f chip \<Rightarrow> u8 \<Rightarrow> pair_op \<Rightarrow> 'f pair \<Rightarrow> (int \<times> 'f pair) option" where
  "pair_step c fcap (Pair_Add t a) s = user_tbl_slave_mac_add c t a s"
| "pair_step c fcap (Pair_Del t a) s = user_tbl_slave_mac_delete_by_adr c t a s"
| "pair_step c fcap Pair_Del_All s = map_option (Pair 0) (user_tbl_slave_mac_delete_all c s)"
| "pair_step c fcap (Pair_Search t a) s = map_option (\<lambda>i. (i, s)) (user_tbl_slave_mac_search t a s)"
| "pair_step c fcap Pair_Power_On s = map_option (Pair 0) (user_master_host_pairing_management_init c fcap (pair_power_on s))"

text \<open>
  The list of peers, oldest first, and the number of records written or refused since the sector was
  erased.  A fifth peer takes the place of the oldest; when the sector has no room, an addition is refused, but with four
  peers the oldest has been deleted before.  A restart does not change the list; only the records are
  put together when there are many.
\<close>

fun pair_spec :: "pair_op \<Rightarrow> (u8 \<times> u8 list) list \<times> nat \<Rightarrow> int \<times> (u8 \<times> u8 list) list \<times> nat" where
  "pair_spec (Pair_Add t a) (es, w) =
     (let rest = (if length es < 4 then es else tl es)
      in if w < 512 then (1, rest @ [(t, a)], w + 1) else (0, rest, w + 1))"
| "pair_spec (Pair_Del t a) (es, w) = (if (t, a) \<in> set es then (1, remove1 (t, a) es, w) else (0, es, w))"
| "pair_spec Pair_Del_All (es, w) = (0, [], w)"
| "pair_spec (Pair_Search t a) (es, w) = (case index_of (t, a) es of None \<Rightarrow> 0 | Some i \<Rightarrow> int i + 1, es, w)"
| "pair_spec Pair_Power_On (es, w) = (0, es, if 257 \<le> w then length es else w)"

text \<open>
  Addresses have six bytes; fewer than \<open>2 ^ 28\<close> additions follow each other without a restart,
  so that the \<open>int\<close> \<^verbatim>\<open>user_bond_slave_flash_cfg_idx\<close>, which counts in eights, does not overflow.
\<close>

fun pair_env :: "pair_op \<Rightarrow> (u8 \<times> u8 list) list \<times> nat \<Rightarrow> bool" where
  "pair_env (Pair_Add t a) (es, w) \<longleftrightarrow> length a = 6 \<and> w < 2 ^ 28"
| "pair_env (Pair_Del t a) (es, w) \<longleftrightarrow> length a = 6"
| "pair_env Pair_Del_All (es, w) \<longleftrightarrow> True"
| "pair_env (Pair_Search t a) (es, w) \<longleftrightarrow> length a = 6"
| "pair_env Pair_Power_On (es, w) \<longleftrightarrow> True"

definition pair_sector :: "u8 \<Rightarrow> u32" where
  "pair_sector fcap =
     (if fcap = FLASH_SIZE_1M then FLASH_ADR_SMP_PAIRING_1M_FLASH
      else if fcap = FLASH_SIZE_2M then FLASH_ADR_SMP_PAIRING_2M_FLASH else FLASH_ADR_SMP_PAIRING_512K_FLASH)"

definition pair_rel :: "nat \<Rightarrow> ('f \<Rightarrow> mem) \<Rightarrow> 'f chip \<Rightarrow> u8 \<Rightarrow> 'f pair \<Rightarrow> (u8 \<times> u8 list) list \<times> nat \<Rightarrow> bool" where
  "pair_rel cap cell c fcap s a \<longleftrightarrow>
     pair_place cap cell c s \<and> flash_sector_custom_pairing s = pair_sector fcap \<and> bond_slave_flash_cfg_idx s = 8 * int (snd a) - 8 \<and>
     (\<exists>ks. pair_layout (cell (pair_flash s)) (pair_base s) ks (fst a) (min 512 (snd a)) \<and> pair_table s ks (fst a))"

lemma pair_find_table:
  assumes "pair_table s ks es"
  shows "pair_find 0 (unat (curNum s)) (bond_device s) t a = Some (index_of (t, a) es)"
proof -
  have n: "unat (curNum s) \<le> length (bond_device s)" and dev: "take (unat (curNum s)) (bond_device s) = map pair_rec es"
    using assms by (simp_all add: pair_table_def)
  have "map mac_key (map pair_rec es) = es"
    by (simp add: comp_def pair_rec_def)
  then show ?thesis
    using pair_find_spec [OF n, of 0 t a] dev by (cases "index_of (t, a) es") simp_all
qed

lemma delete_by_adr_eq:
  "user_tbl_slave_mac_delete_by_adr c t adr s =
     do { a \<leftarrow> get_bytes adr 0 6; r \<leftarrow> pair_find 0 (unat (curNum s)) (bond_device s) t a;
          case r of None \<Rightarrow> Some (0, s) | Some i \<Rightarrow> map_option (Pair 1) (user_tbl_slave_mac_delete_by_index c i s) }"
  unfolding user_tbl_slave_mac_delete_by_adr_def user_tbl_slave_mac_delete_by_index_def
  by (intro Option.bind_cong refl) (auto split: option.splits Option.bind_splits)

lemma pair_step_sim:
  assumes rel: "pair_rel cap cell c fcap s a" and env: "pair_env e a"
  shows "\<exists>s'. pair_step c fcap e s = Some (fst (pair_spec e a), s') \<and> pair_rel cap cell c fcap s' (snd (pair_spec e a))"
proof -
  obtain es w where a: "a = (es, w)"
    by (cases a)
  obtain ks where place: "pair_place cap cell c s" and sec: "flash_sector_custom_pairing s = pair_sector fcap" and
      cfg: "bond_slave_flash_cfg_idx s = 8 * int w - 8" and
      lay: "pair_layout (cell (pair_flash s)) (pair_base s) ks es (min 512 w)" and tab: "pair_table s ks es"
    using rel by (auto simp: pair_rel_def a)
  have place': "pair_place cap cell c s'" if "flash_sector_custom_pairing s' = flash_sector_custom_pairing s" for s' :: "'a pair"
    using place that by (simp add: pair_place_def)
  have l: "length ks = length es"
    using lay by (simp add: pair_layout_def)
  show ?thesis
  proof (cases e)
    case (Pair_Add t x)
    then have x: "length x = 6"
      using env a by simp
    have add: "\<exists>s'. user_tbl_slave_mac_add c t x s =
        Some (if w < 512 then 1 else 0, s') \<and> pair_rel cap cell c fcap s' (if w < 512 then es0 @ [(t, x)] else es0, w + 1)"
      if s0: "(if USER_PAIR_ACL_PERIPHR_MAX_NUM \<le> unat (curNum s) then user_tbl_slave_mac_delete_by_index c 0 s else Some s) = Some s0"
        "flash_sector_custom_pairing s0 = flash_sector_custom_pairing s" "bond_slave_flash_cfg_idx s0 = 8 * int w - 8"
        "pair_layout (cell (pair_flash s0)) (pair_base s0) ks0 es0 (min 512 w)" "pair_table s0 ks0 es0" "length es0 < 4" for s0 ks0 es0
    proof (cases "w < 512")
      case True
      then have m: "min 512 w = w" "min 512 (w + 1) = w + 1"
        by simp_all
      obtain dev f idx where put: "put_byte (bond_device s0) (unat (curNum s0)) (pair_rec (t, x)) = Some dev"
          "flash_page_program c False (flash_sector_custom_pairing s0 + of_int (8 * int w)) (mac_bytes (pair_rec (t, x))) (pair_flash s0) = Some f"
          "put_byte (bond_flash_idx s0) (unat (curNum s0)) (of_int (8 * int w)) = Some idx"
          "pair_layout (cell f) (pair_base s0) (ks0 @ [w]) (es0 @ [(t, x)]) (w + 1)"
          "pair_table (s0\<lparr>bond_device := dev, pair_flash := f, bond_flash_idx := idx, curNum := curNum s0 + 1, bond_slave_flash_cfg_idx := 8 * int w\<rparr>)
             (ks0 @ [w]) (es0 @ [(t, x)])"
        using append_spec [OF place' [OF s0(2)] s0(4) [unfolded m(1)] s0(5) True s0(6), of "(t, x)" "8 * int w"] x by auto
      let ?s = "s0\<lparr>bond_slave_flash_cfg_idx := 8 * int w, bond_device := dev, pair_flash := f, bond_flash_idx := idx, curNum := curNum s0 + 1\<rparr>"
      have "user_tbl_slave_mac_add c t x s = Some (1, ?s)"
        unfolding user_tbl_slave_mac_add_def s0(1)
        using s0(3) True x put(1-3) by (simp add: Let_def get_bytes_def FLASH_CUSTOM_PAIRING_MAX_SIZE_def pair_rec_def)
      moreover have "pair_rel cap cell c fcap ?s (es0 @ [(t, x)], w + 1)"
        using place' [of ?s] s0(2) sec put(4,5) m(2) by (auto simp: pair_rel_def pair_table_def)
      ultimately show ?thesis
        using True by auto
    next
      case False
      let ?s = "s0\<lparr>bond_slave_flash_cfg_idx := 8 * int w\<rparr>"
      have "user_tbl_slave_mac_add c t x s = Some (0, ?s)"
        unfolding user_tbl_slave_mac_add_def s0(1)
        using s0(3) False by (simp add: Let_def FLASH_CUSTOM_PAIRING_MAX_SIZE_def)
      moreover have "pair_rel cap cell c fcap ?s (es0, w + 1)"
        using place' [of ?s] s0(2,4,5) sec False by (auto simp: pair_rel_def pair_table_def)
      ultimately show ?thesis
        using False by auto
    qed
    show ?thesis
    proof (cases "length es < 4")
      case True
      then show ?thesis
        using add [OF _ refl cfg lay tab True] tab
        by (cases "w < 512") (simp_all add: Pair_Add a USER_PAIR_ACL_PERIPHR_MAX_NUM_def pair_table_def)
    next
      case False
      then have full: "0 < length es" "length es = 4" "unat (curNum s) = 4"
        using tab by (auto simp: pair_table_def)
      obtain s0 where s0: "user_tbl_slave_mac_delete_by_index c 0 s = Some s0" "flash_sector_custom_pairing s0 = flash_sector_custom_pairing s"
          "bond_slave_flash_cfg_idx s0 = bond_slave_flash_cfg_idx s" "pair_layout (cell (pair_flash s0)) (pair_base s) (del 0 ks) (del 0 es) (min 512 w)"
          "pair_table s0 (del 0 ks) (del 0 es)"
        using delete_by_index_spec [OF place lay tab full(1)] by blast
      have "del 0 es = tl es"
        by (simp add: del_def drop_Suc)
      then show ?thesis
        using add [of s0 "del 0 ks" "del 0 es"] s0 cfg full
        by (cases "w < 512") (simp_all add: Pair_Add a USER_PAIR_ACL_PERIPHR_MAX_NUM_def)
    qed
  next
    case (Pair_Del t x)
    then have x: "get_bytes x 0 6 = Some x"
      using env a by (simp add: get_bytes_def)
    show ?thesis
    proof (cases "index_of (t, x) es")
      case None
      then show ?thesis
        using rel by (simp add: Pair_Del a delete_by_adr_eq x pair_find_table [OF tab] index_of_None [THEN iffD1, OF None])
    next
      case (Some i)
      then have i: "i < length es" "(t, x) \<in> set es" "del i es = remove1 (t, x) es"
        using index_of_Some [OF Some] by (auto simp: in_set_conv_nth)
      then show ?thesis
        using delete_by_index_spec [OF place lay tab i(1)] Some cfg sec place'
        by (fastforce simp: Pair_Del a delete_by_adr_eq x pair_find_table [OF tab] pair_rel_def)
    qed
  next
    case Pair_Del_All
    have n: "unat (curNum s) = length es" "length es \<le> 4" "length (bond_flash_idx s) = 4" "length (bond_device s) = 4"
        "take (length es) (bond_flash_idx s) = map (\<lambda>k. of_nat (8 * k)) ks"
      using tab by (simp_all add: pair_table_def)
    have lay0: "pair_layout (cell (pair_flash s)) (pair_base s) (drop 0 ks) (drop 0 es) (min 512 w)"
      using lay by simp
    obtain s' where s': "delete_all_loop c 0 (length es) s = Some s'" "flash_sector_custom_pairing s' = flash_sector_custom_pairing s"
        "bond_slave_flash_cfg_idx s' = bond_slave_flash_cfg_idx s" "pair_layout (cell (pair_flash s')) (pair_base s) [] [] (min 512 w)"
        "length (bond_flash_idx s') = 4" "length (bond_device s') = 4"
      using delete_all_spec [OF place lay0 l _ n(2,5,3,4)] by auto
    then show ?thesis
      using cfg sec n(1) place' [of "s'\<lparr>curNum := 0\<rparr>"]
      by (auto simp: Pair_Del_All a user_tbl_slave_mac_delete_all_def pair_rel_def pair_table_def intro!: exI [of _ "[]"])
  next
    case (Pair_Search t x)
    then have x: "get_bytes x 0 6 = Some x"
      using env a by (simp add: get_bytes_def)
    then show ?thesis
      using rel by (simp add: Pair_Search a user_tbl_slave_mac_search_def pair_find_table [OF tab])
  next
    case Pair_Power_On
    let ?s = "(pair_power_on s)\<lparr>flash_sector_custom_pairing := pair_sector fcap\<rparr>"
    have init: "user_master_host_pairing_management_init c fcap (pair_power_on s) = user_master_host_pairing_flash_init c ?s"
      by (auto simp: user_master_host_pairing_management_init_def pair_sector_def pair_power_on_def FLASH_SIZE_512K_def FLASH_SIZE_1M_def FLASH_SIZE_2M_def)
    have s: "pair_place cap cell c ?s" "pair_layout (cell (pair_flash ?s)) (pair_base ?s) ks es (min 512 w)" "length es \<le> 4"
        "curNum ?s = 0" "length (bond_flash_idx ?s) = 4" "length (bond_device ?s) = 4"
      using place' [of ?s] sec lay tab by (simp_all add: pair_power_on_def pair_table_def)
    define w' where "w' = (if 257 \<le> w then length es else w)"
    have w': "(if 257 \<le> min 512 w then length es else min 512 w) = w'" "min 512 w' = w'"
      using s(3) by (auto simp: w'_def)
    obtain s' ks' where s': "user_master_host_pairing_flash_init c ?s = Some s'" "flash_sector_custom_pairing s' = pair_sector fcap"
        "bond_slave_flash_cfg_idx s' = 8 * int w' - 8" "pair_layout (cell (pair_flash s')) (pair_base ?s) ks' es w'" "pair_table s' ks' es"
      using init_spec [OF s] unfolding w'(1) by auto
    then have "pair_rel cap cell c fcap s' (es, w')"
      using place' [of s'] sec w'(2) by (auto simp: pair_rel_def)
    then show ?thesis
      using s'(1) by (simp add: Pair_Power_On a init w'_def)
  qed
qed

interpretation bonds: simulates "pair_step c fcap" pair_spec pair_env "pair_rel cap cell c fcap" for c fcap cap cell
  by unfold_locales (rule pair_step_sim)

section \<open>The theorems\<close>

text \<open>
  A restart is an operation of its own: the power goes between two operations.  Losing it inside
  \<^verbatim>\<open>user_bond_slave_flash_clean\<close> is different.  That function erases the sector before it writes the
  records again from the RAM, so that a loss right after the erase leaves an empty table, whatever
  was in it.
\<close>

lemma bonds_lost_in_clean:
  assumes "pair_rel cap cell c fcap s (es, w)" and f: "f = flash_erase_sector c (flash_sector_custom_pairing s) (pair_flash s)"
  shows "\<exists>s'. user_master_host_pairing_management_init c fcap (pair_power_on (s\<lparr>pair_flash := f\<rparr>)) = Some s' \<and>
    pair_rel cap cell c fcap s' ([], 0)"
proof -
  let ?s = "s\<lparr>pair_flash := f, bond_slave_flash_cfg_idx := -8, curNum := 0\<rparr>"
  have place: "pair_place cap cell c s"
    using assms(1) by (simp add: pair_rel_def)
  then have nor: "nor_flash cap cell c" and S: "4096 dvd pair_base s" "pair_base s < cap"
    by (simp_all add: pair_place_def)
  have "cell f = wipe (pair_base s) (cell (pair_flash s))"
    using flash_erase_sector_cells [OF nor S(2)] by (simp add: f)
  then have "pair_layout (cell (pair_flash ?s)) (pair_base ?s) [] [] 0"
    using layout_wipe [OF S(1)] by simp
  moreover have "pair_table ?s [] []"
    using assms(1) by (auto simp: pair_rel_def pair_table_def)
  ultimately have "pair_rel cap cell c fcap ?s ([], 0)"
    using assms(1) place by (auto simp: pair_rel_def pair_place_def)
  from pair_step_sim [OF this, of Pair_Power_On] show ?thesis
    by (auto simp: pair_power_on_def)
qed

text \<open>
  C18: The bonding table does what a list of at most four peers does, oldest out first, for every
  sequence of additions, deletions, searches and restarts between them: the answers are those of the
  list, and after a restart the table is loaded from the flash as it was, in the same order, also when
  the sector is erased and rewritten on the way.  In a sector without room, which a restart puts in
  order, an addition is refused with the answer 0 and has still deleted the oldest of four peers.  The
  power is not lost inside an operation (\<open>bonds_lost_in_clean\<close>), addresses have six bytes, and fewer
  than \<open>2 ^ 28\<close> additions come between two restarts.
\<close>

theorem bonds_refine_list:
  assumes "pair_rel cap cell c fcap s (es, w)" and "spec_env pair_spec pair_env ops (es, w)"
  shows "\<exists>s'. run_out (pair_step c fcap) ops s = Some (fst (spec_out pair_spec ops (es, w)), s') \<and>
    pair_rel cap cell c fcap s' (snd (spec_out pair_spec ops (es, w)))"
  using assms by (rule bonds.run_sim)

text \<open>A new chip with one megabyte of erased flash, and more peers than fit.\<close>

definition pair_new :: "(bool \<times> mem) pair" where
  "pair_new =
     \<lparr>bond_flash_idx = replicate 4 0,
      bond_device = replicate 4 \<lparr>bond_mark = 0, mac_type = 0, mac_address = replicate 6 0\<rparr>, curNum = 0,
      bond_slave_flash_cfg_idx = -8, flash_sector_custom_pairing = 0xFA000, pair_flash = (False, \<lambda>_. 0xFF)\<rparr>"

definition pair_demo :: "pair_op list" where
  "pair_demo =
     [Pair_Add 0 [1, 0, 0, 0, 0, 0], Pair_Add 0 [2, 0, 0, 0, 0, 0], Pair_Add 1 [3, 0, 0, 0, 0, 0], Pair_Add 0 [4, 0, 0, 0, 0, 0],
      Pair_Add 0 [5, 0, 0, 0, 0, 0], Pair_Del 1 [3, 0, 0, 0, 0, 0], Pair_Power_On,
      Pair_Search 0 [1, 0, 0, 0, 0, 0], Pair_Search 0 [5, 0, 0, 0, 0, 0]]"

theorem bonds_refine_list_witness:
  "\<exists>s'. run_out (pair_step nor_chip FLASH_SIZE_1M) pair_demo pair_new = Some ([1, 1, 1, 1, 1, 1, 0, 0, 3], s') \<and>
    pair_rel (2 ^ 24 - 4096) snd nor_chip FLASH_SIZE_1M s'
      ([(0, [2, 0, 0, 0, 0, 0]), (0, [4, 0, 0, 0, 0, 0]), (0, [5, 0, 0, 0, 0, 0])], 5)"
proof -
  have "pair_layout (snd (pair_flash pair_new)) (pair_base pair_new) [] [] 0" "pair_table pair_new [] []"
    by (simp_all add: pair_layout_def pair_table_def pair_new_def)
  moreover have "pair_place (2 ^ 24 - 4096) snd nor_chip pair_new"
    unfolding pair_place_def using nor_chip_nor by (simp add: pair_new_def)
  ultimately have rel: "pair_rel (2 ^ 24 - 4096) snd nor_chip FLASH_SIZE_1M pair_new ([], 0)"
    by (auto simp: pair_rel_def pair_sector_def pair_new_def FLASH_ADR_SMP_PAIRING_1M_FLASH_def)
  have env: "spec_env pair_spec pair_env pair_demo ([], 0)"
    by (simp add: pair_demo_def)
  have "spec_out pair_spec pair_demo ([], 0) = ([1, 1, 1, 1, 1, 1, 0, 0, 3],
      [(0, [2, 0, 0, 0, 0, 0]), (0, [4, 0, 0, 0, 0, 0]), (0, [5, 0, 0, 0, 0, 0])], 5)"
    by (simp add: pair_demo_def)
  then show ?thesis
    using bonds_refine_list [OF rel env] by simp
qed

end
