(* ===== verification/Adpcm.thy ===== *)
theory Adpcm
  imports C_Prelude
begin

text \<open>
  The ADPCM codec of the voice services, \<^verbatim>\<open>application/audio/adpcm.c\<close>: the encoder of the remote
  control and the decoder of the dongle, each in the three variants that the build selects (Telink
  GATT, Google GATT, HID).  The variants share their quantiser word for word; they differ in the
  header of a packet, in the order of the nibbles, and in whether the predictor is sent or kept.
  Samples are 16-bit words; the predictor and its index are C \<open>int\<close>s, whose values and differences
  stay far inside 32 bits, so that they are integers here.  The HID variant masks the code before it
  looks up the index; a code never exceeds 15, so that the mask changes nothing.
\<close>

section \<open>Tables\<close>

type_synonym s16 = "16 word"

definition idxtbl :: "int list" where
  "idxtbl = [-1, -1, -1, -1, 2, 4, 6, 8, -1, -1, -1, -1, 2, 4, 6, 8]"

definition steptbl :: "int list" where
  "steptbl =
    [7, 8, 9, 10, 11, 12, 13, 14, 16, 17,
     19, 21, 23, 25, 28, 31, 34, 37, 41, 45,
     50, 55, 60, 66, 73, 80, 88, 97, 107, 118,
     130, 143, 157, 173, 190, 209, 230, 253, 279, 307,
     337, 371, 408, 449, 494, 544, 598, 658, 724, 796,
     876, 963, 1060, 1166, 1282, 1411, 1552, 1707, 1878, 2066,
     2272, 2499, 2749, 3024, 3327, 3660, 4026, 4428, 4871, 5358,
     5894, 6484, 7132, 7845, 8630, 9493, 10442, 11487, 12635, 13899,
     15289, 16818, 18500, 20350, 22385, 24623, 27086, 29794, 32767]"

definition table :: "int list \<Rightarrow> int \<Rightarrow> int option" where
  "table t i = (if 0 \<le> i then get_byte t (nat i) else None)"

section \<open>The quantiser\<close>

definition clip_predict :: "int \<Rightarrow> int" where
  "clip_predict p = (if 32767 < p then 32767 else if p < -32768 then -32768 else p)"

definition clip_idx :: "int \<Rightarrow> int" where
  "clip_idx k = (if k < 0 then 0 else if 88 < k then 88 else k)"

text \<open>The loop over \<open>j = 4, 2, 1\<close>; \<open>step >> 1\<close> of a step, which is not negative.\<close>

function quant_loop :: "nat \<Rightarrow> int \<Rightarrow> int \<Rightarrow> int \<Rightarrow> u16 \<Rightarrow> int \<times> u16" where
  "quant_loop j diff diffq step code =
     (if 0 < j then
        (if step \<le> diff then quant_loop (j div 2) (diff - step) (diffq + step) (step div 2) (code + of_nat j)
         else quant_loop (j div 2) diff diffq (step div 2) code)
      else (diffq, code))"
  by pat_completeness auto
termination
  by (relation "measure (\<lambda>(j, diff, diffq, step, code). j)") auto

declare quant_loop.simps [simp del]

text \<open>One sample of the encoder: its code, and the new predictor and index.\<close>

definition adpcm_encode1 :: "s16 \<Rightarrow> int \<times> int \<Rightarrow> (u16 \<times> int \<times> int) option" where
  "adpcm_encode1 di st =
     (case st of (predict, predict_idx) \<Rightarrow>
      do { step \<leftarrow> table steptbl predict_idx;
           let diff = sint di - predict;
           let (diff, code) = (if 0 \<le> diff then (diff, 0) else (- diff, 8));
           let (diffq, code) = quant_loop 4 diff (step div 8) step code;
           let predict = clip_predict (if 8 \<le> code then predict - diffq else predict + diffq);
           t \<leftarrow> table idxtbl (int (unat code));
           Some (code, predict, clip_idx (predict_idx + t)) })"

text \<open>One sample of the decoder, for the low nibble of \<open>code\<close>.\<close>

definition adpcm_decode1 :: "u8 \<Rightarrow> int \<times> int \<Rightarrow> (int \<times> int) option" where
  "adpcm_decode1 code st =
     (case st of (predict, predict_idx) \<Rightarrow>
      do { step \<leftarrow> table steptbl predict_idx;
           let diffq = step div 8;
           let diffq = (if code AND 4 \<noteq> 0 then diffq + step else diffq);
           let step = step div 2;
           let diffq = (if code AND 2 \<noteq> 0 then diffq + step else diffq);
           let step = step div 2;
           let diffq = (if code AND 1 \<noteq> 0 then diffq + step else diffq);
           let predict = clip_predict (if code AND 8 \<noteq> 0 then predict - diffq else predict + diffq);
           t \<leftarrow> table idxtbl (int (unat (code AND 15)));
           Some (predict, clip_idx (predict_idx + t)) })"

section \<open>The encoder\<close>

record adpcm =
  predict :: int
  predict_idx :: int
  adpcm_serial_num :: u16
  out_buf :: "u16 list"
  out_pd :: nat

text \<open>The exchange of the nibbles of each byte in \<open>code16\<close> and \<open>code\<close>.\<close>

definition swap_nibbles16 :: "u16 \<Rightarrow> u16" where
  "swap_nibbles16 w =
     push_bit 4 (w AND 0x0f) OR drop_bit 4 (w AND 0xf0) OR push_bit 4 (w AND 0x0f00) OR drop_bit 4 (w AND 0xf000)"

definition swap_nibbles8 :: "u8 \<Rightarrow> u8" where
  "swap_nibbles8 c = (drop_bit 4 c AND 0x0f) OR (push_bit 4 c AND 0xf0)"

definition put_word :: "u16 \<Rightarrow> adpcm \<Rightarrow> adpcm option" where
  "put_word w s = do { b \<leftarrow> put_byte (out_buf s) (out_pd s) w; Some (s\<lparr>out_buf := b, out_pd := out_pd s + 1\<rparr>) }"

text \<open>The loop over the samples; \<open>swap\<close> in the Google and HID variants.\<close>

fun encode_loop :: "bool \<Rightarrow> nat \<Rightarrow> s16 list \<Rightarrow> u16 \<Rightarrow> adpcm \<Rightarrow> adpcm option" where
  "encode_loop swap i [] code16 s = Some s"
| "encode_loop swap i (di # ps) code16 s =
     do { (code, p, k) \<leftarrow> adpcm_encode1 di (predict s, predict_idx s);
          let code16 = drop_bit 4 code16 OR push_bit 12 code;
          (code16, s) \<leftarrow> (if i mod 4 = 3 then
              (let code16 = (if swap then swap_nibbles16 code16 else code16)
               in do { s \<leftarrow> put_word code16 s; Some (code16, s) })
            else Some (code16, s));
          encode_loop swap (i + 1) ps code16 (s\<lparr>predict := p, predict_idx := k\<rparr>) }"

definition ADPCM_PACKET_LEN_TELINK :: nat where "ADPCM_PACKET_LEN_TELINK = 128"

text \<open>Telink GATT.  With \<open>start\<close>, \<open>pds\<close> becomes the buffer and the header is written to it.\<close>

definition mic_to_adpcm_split_telink :: "s16 list \<Rightarrow> u16 list \<Rightarrow> bool \<Rightarrow> adpcm \<Rightarrow> adpcm option" where
  "mic_to_adpcm_split_telink ps pds start s =
     do { s \<leftarrow> (if start then
            do { s \<leftarrow> put_word (of_int (predict s)) (s\<lparr>out_buf := pds, out_pd := 0\<rparr>);
                 put_word (ucast (of_int (predict_idx s) :: u8) OR push_bit 8 (of_nat (ADPCM_PACKET_LEN_TELINK - 4))) s }
            else Some s);
          encode_loop False 0 ps 0 s }"

definition GOOGLE_AUDIO_V0P4 :: int where "GOOGLE_AUDIO_V0P4 = 1"
definition GOOGLE_AUDIO_V1P0 :: int where "GOOGLE_AUDIO_V1P0 = 2"
definition ADPCM_ANDROID_ID :: u16 where "ADPCM_ANDROID_ID = 0"

definition mic_to_adpcm_split_google :: "s16 list \<Rightarrow> u16 list \<Rightarrow> int \<Rightarrow> adpcm \<Rightarrow> adpcm option" where
  "mic_to_adpcm_split_google ps pds start s =
     do { s \<leftarrow> (if start = GOOGLE_AUDIO_V0P4 then
            do { s \<leftarrow> put_word ((drop_bit 8 (adpcm_serial_num s) AND 0x00ff) OR (push_bit 8 (adpcm_serial_num s) AND 0xff00))
                     (s\<lparr>out_buf := pds, out_pd := 0\<rparr>);
                 s \<leftarrow> put_word (ADPCM_ANDROID_ID OR (of_int (predict s) AND 0xff00)) s;
                 put_word ((of_int (predict s) AND 0x00ff) OR (push_bit 8 (of_int (predict_idx s)) AND 0xff00)) s }
            else if start = GOOGLE_AUDIO_V1P0 then Some (s\<lparr>out_buf := pds, out_pd := 0\<rparr>)
            else Some s);
          encode_loop True 0 ps 0 (s\<lparr>adpcm_serial_num := adpcm_serial_num s + 1\<rparr>) }"

definition mic_to_adpcm_split_hid :: "s16 list \<Rightarrow> u16 list \<Rightarrow> adpcm \<Rightarrow> adpcm option" where
  "mic_to_adpcm_split_hid ps pds s = encode_loop True 0 ps 0 (s\<lparr>out_buf := pds, out_pd := 0\<rparr>)"

section \<open>The decoder\<close>

text \<open>Byte \<open>k\<close> of an array of 16-bit words.\<close>

definition word_byte :: "u16 list \<Rightarrow> nat \<Rightarrow> u8 option" where
  "word_byte ps k = do { w \<leftarrow> get_byte ps (k div 2); Some (ucast (if even k then w else drop_bit 8 w)) }"

text \<open>The next byte of codes.\<close>

definition next_code :: "bool \<Rightarrow> u16 list \<Rightarrow> nat \<Rightarrow> u8 option" where
  "next_code swap ps k = do { c \<leftarrow> word_byte ps k; Some (if swap then swap_nibbles8 c else c) }"

text \<open>\<open>n\<close> samples from sample \<open>i\<close> on; \<open>k\<close> is the position of \<open>pcode\<close>.\<close>

fun decode_loop :: "bool \<Rightarrow> u16 list \<Rightarrow> nat \<Rightarrow> nat \<Rightarrow> nat \<Rightarrow> u8 \<Rightarrow> int \<times> int \<Rightarrow> (s16 list \<times> int \<times> int) option" where
  "decode_loop swap ps 0 i k code st = Some ([], st)"
| "decode_loop swap ps (Suc n) i k code st =
     do { st \<leftarrow> adpcm_decode1 code st;
          (code, k) \<leftarrow> (if odd i then do { c \<leftarrow> next_code swap ps k; Some (c, k + 1) }
                       else Some (drop_bit 4 code, k));
          (pd, st') \<leftarrow> decode_loop swap ps n (i + 1) k code st;
          Some (of_int (fst st) # pd, st') }"

definition adpcm_to_pcm_telink :: "u16 list \<Rightarrow> nat \<Rightarrow> s16 list option" where
  "adpcm_to_pcm_telink ps len =
     do { w0 \<leftarrow> get_byte ps 0; w1 \<leftarrow> get_byte ps 1;
          code \<leftarrow> next_code False ps 4;
          (pd, st) \<leftarrow> decode_loop False ps len 0 5 code (sint w0, int (unat (w1 AND 0xff)));
          Some pd }"

text \<open>Google, before version 1.0 of the specification: the predictor is in the header.\<close>

definition adpcm_to_pcm_google_v0 :: "u16 list \<Rightarrow> nat \<Rightarrow> s16 list option" where
  "adpcm_to_pcm_google_v0 ps len =
     do { w1 \<leftarrow> get_byte ps 1; w2 \<leftarrow> get_byte ps 2;
          code \<leftarrow> next_code True ps 6;
          (pd, st) \<leftarrow> decode_loop True ps len 0 7 code
             (sint ((w1 AND 0xff00) OR (w2 AND 0x00ff)), sint (ucast (drop_bit 8 (w2 AND 0xff00)) :: u8));
          Some pd }"

text \<open>Google 1.0 and HID: the predictor is kept from call to call.\<close>

definition adpcm_to_pcm_google_v1 :: "u16 list \<Rightarrow> nat \<Rightarrow> int \<times> int \<Rightarrow> (s16 list \<times> int \<times> int) option" where
  "adpcm_to_pcm_google_v1 ps len st = do { code \<leftarrow> next_code True ps 0; decode_loop True ps len 0 1 code st }"

definition adpcm_to_pcm_hid :: "u16 list \<Rightarrow> nat \<Rightarrow> int \<times> int \<Rightarrow> (s16 list \<times> int \<times> int) option" where
  "adpcm_to_pcm_hid ps len st = do { code \<leftarrow> next_code True ps 0; decode_loop True ps len 0 1 code st }"

section \<open>The predictor\<close>

definition adpcm_ok :: "int \<times> int \<Rightarrow> bool" where
  "adpcm_ok st \<longleftrightarrow> -32768 \<le> fst st \<and> fst st \<le> 32767 \<and> 0 \<le> snd st \<and> snd st \<le> 88"

lemma steptbl_range: "x \<in> set steptbl \<Longrightarrow> 7 \<le> x \<and> x \<le> 32767"
  by (auto simp: steptbl_def)

lemma table_steptbl:
  assumes "0 \<le> k" and "k \<le> 88"
  shows "\<exists>s. table steptbl k = Some s \<and> 7 \<le> s \<and> s \<le> 32767"
proof -
  have "length steptbl = 89"
    by (simp add: steptbl_def)
  then have "nat k < length steptbl"
    using assms by simp
  then show ?thesis
    using assms(1) steptbl_range [OF nth_mem [of "nat k" steptbl]] by (simp add: table_def get_byte_def)
qed

lemma table_idxtbl: "x < 16 \<Longrightarrow> \<exists>t. table idxtbl (int x) = Some t"
  by (simp add: table_def get_byte_def idxtbl_def)

lemma clip_ok: "adpcm_ok (clip_predict p, clip_idx k)"
  by (simp add: adpcm_ok_def clip_predict_def clip_idx_def)

lemma quant_step:
  "quant_loop 4 d q s k = (if s \<le> d then quant_loop 2 (d - s) (q + s) (s div 2) (k + 4) else quant_loop 2 d q (s div 2) k)"
  "quant_loop 2 d q s k = (if s \<le> d then quant_loop 1 (d - s) (q + s) (s div 2) (k + 2) else quant_loop 1 d q (s div 2) k)"
  "quant_loop 1 d q s k = (if s \<le> d then (q + s, k + 1) else (q, k))"
proof -
  have 0: "quant_loop 0 d q s k = (q, k)" for d q s k
    by (subst quant_loop.simps) simp
  show "quant_loop 4 d q s k = (if s \<le> d then quant_loop 2 (d - s) (q + s) (s div 2) (k + 4) else quant_loop 2 d q (s div 2) k)"
    by (subst quant_loop.simps) simp
  show "quant_loop 2 d q s k = (if s \<le> d then quant_loop 1 (d - s) (q + s) (s div 2) (k + 2) else quant_loop 1 d q (s div 2) k)"
    by (subst quant_loop.simps) simp
  show "quant_loop 1 d q s k = (if s \<le> d then (q + s, k + 1) else (q, k))"
    by (subst quant_loop.simps) (simp add: 0)
qed

lemma quant_loop_bit1: "\<exists>c. quant_loop 1 d q s k = (q + (if c then s else 0), k + (if c then 1 else 0))"
  unfolding quant_step by (rule exI [of _ "s \<le> d"]) simp

lemma quant_loop_bit2:
  "\<exists>b c. quant_loop 2 d q s k = (q + (if b then s else 0) + (if c then s div 2 else 0), k + (if b then 2 else 0) + (if c then 1 else 0))"
proof (cases "s \<le> d")
  case True
  obtain c where "quant_loop 1 (d - s) (q + s) (s div 2) (k + 2) = (q + s + (if c then s div 2 else 0), k + 2 + (if c then 1 else 0))"
    using quant_loop_bit1 by blast
  then show ?thesis
    unfolding quant_step(2) if_P [OF True] by (intro exI [where x = True] exI [where x = c]) simp
next
  case False
  obtain c where "quant_loop 1 d q (s div 2) k = (q + (if c then s div 2 else 0), k + (if c then 1 else 0))"
    using quant_loop_bit1 by blast
  then show ?thesis
    unfolding quant_step(2) if_not_P [OF False] by (intro exI [where x = False] exI [where x = c]) simp
qed

lemma quant_loop_bits:
  "\<exists>a b c. quant_loop 4 d q s k =
     (q + (if a then s else 0) + (if b then s div 2 else 0) + (if c then s div 2 div 2 else 0),
      k + (if a then 4 else 0) + (if b then 2 else 0) + (if c then 1 else 0))"
proof (cases "s \<le> d")
  case True
  obtain b c where "quant_loop 2 (d - s) (q + s) (s div 2) (k + 4) =
      (q + s + (if b then s div 2 else 0) + (if c then s div 2 div 2 else 0), k + 4 + (if b then 2 else 0) + (if c then 1 else 0))"
    using quant_loop_bit2 by blast
  then show ?thesis
    unfolding quant_step(1) if_P [OF True]
    by (intro exI [where x = True] exI [where x = b] exI [where x = c]) simp
next
  case False
  obtain b c where "quant_loop 2 d q (s div 2) k =
      (q + (if b then s div 2 else 0) + (if c then s div 2 div 2 else 0), k + (if b then 2 else 0) + (if c then 1 else 0))"
    using quant_loop_bit2 by blast
  then show ?thesis
    unfolding quant_step(1) if_not_P [OF False]
    by (intro exI [where x = False] exI [where x = b] exI [where x = c]) simp
qed

definition nibble :: "bool \<Rightarrow> bool \<Rightarrow> bool \<Rightarrow> bool \<Rightarrow> u16" where
  "nibble n a b c = (if n then 8 else 0) + (if a then 4 else 0) + (if b then 2 else 0) + (if c then 1 else 0)"

lemma nibble_lt: "unat (nibble n a b c) < 16"
  by (cases n; cases a; cases b; cases c) (simp_all add: nibble_def)

lemma nibble_sign: "8 \<le> nibble n a b c \<longleftrightarrow> n"
  by (cases n; cases a; cases b; cases c) (simp_all add: nibble_def word_le_nat_alt)

lemma nibble_and4: "(ucast (nibble n a b c) :: u8) AND 4 \<noteq> 0 \<longleftrightarrow> a"
  by (cases n; cases a; cases b; cases c) (simp_all add: nibble_def)

lemma nibble_and2: "(ucast (nibble n a b c) :: u8) AND 2 \<noteq> 0 \<longleftrightarrow> b"
  by (cases n; cases a; cases b; cases c) (simp_all add: nibble_def)

lemma nibble_and1: "(ucast (nibble n a b c) :: u8) AND 1 \<noteq> 0 \<longleftrightarrow> c"
  by (cases n; cases a; cases b; cases c) (simp_all add: nibble_def)

lemma nibble_and8: "(ucast (nibble n a b c) :: u8) AND 8 \<noteq> 0 \<longleftrightarrow> n"
  by (cases n; cases a; cases b; cases c) (simp_all add: nibble_def)

lemma nibble_byte: "unat (ucast (nibble n a b c) :: u8) = unat (nibble n a b c)"
  by (cases n; cases a; cases b; cases c) (simp_all add: nibble_def)

lemmas nibble_bits = nibble_lt nibble_sign nibble_and4 nibble_and2 nibble_and1 nibble_and8 nibble_byte

text \<open>The code of a sample tells the decoder the same new predictor.\<close>

lemma encode_decode1:
  assumes "adpcm_ok st"
  shows "\<exists>code st'. adpcm_encode1 di st = Some (code, st') \<and> unat code < 16 \<and> adpcm_ok st' \<and>
    (\<forall>x. x AND 15 = ucast code \<longrightarrow> adpcm_decode1 x st = Some st')"
proof -
  obtain p k where st: "st = (p, k)"
    by (cases st)
  have "0 \<le> k" "k \<le> 88"
    using assms by (simp_all add: adpcm_ok_def st)
  then obtain s where s: "table steptbl k = Some s" "7 \<le> s"
    using table_steptbl by blast
  let ?d = "sint di - p"
  let ?n = "?d < 0"
  obtain a b c where q: "quant_loop 4 (if ?n then - ?d else ?d) (s div 8) s (if ?n then 8 else 0) =
     (s div 8 + (if a then s else 0) + (if b then s div 2 else 0) + (if c then s div 2 div 2 else 0),
      (if ?n then 8 else 0) + (if a then 4 else 0) + (if b then 2 else 0) + (if c then 1 else 0))"
    using quant_loop_bits [of "if ?n then - ?d else ?d" "s div 8" s "if ?n then 8 else 0"] by blast
  let ?dq = "s div 8 + (if a then s else 0) + (if b then s div 2 else 0) + (if c then s div 2 div 2 else 0)"
  let ?code = "nibble ?n a b c"
  note q = q [folded nibble_def]
  obtain t where t: "table idxtbl (int (unat ?code)) = Some t"
    using table_idxtbl [OF nibble_bits(1)] by blast
  let ?st = "(clip_predict (if ?n then p - ?dq else p + ?dq), clip_idx (k + t))"
  have neg: "(if 0 \<le> ?d then (?d, 0) else (- ?d, 8)) = (if ?n then - ?d else ?d, if ?n then 8 else 0 :: u16)"
    by simp
  have "adpcm_encode1 di st = Some (?code, ?st)"
    unfolding adpcm_encode1_def st prod.case s(1) Option.bind.simps Let_def neg q nibble_bits(2) t ..
  moreover have "adpcm_decode1 x st = Some ?st" if x: "x AND 15 = ucast ?code" for x
  proof -
    have m: "x AND m = (x AND 15) AND m" if "15 AND m = m" for m :: u8
      using that by (metis and.assoc)
    have "x AND 4 = ucast ?code AND 4" "x AND 2 = ucast ?code AND 2" "x AND 1 = ucast ?code AND 1" "x AND 8 = ucast ?code AND 8"
      unfolding x [symmetric] by (rule m, simp)+
    then have bits: "x AND 4 \<noteq> 0 \<longleftrightarrow> a" "x AND 2 \<noteq> 0 \<longleftrightarrow> b" "x AND 1 \<noteq> 0 \<longleftrightarrow> c" "x AND 8 \<noteq> 0 \<longleftrightarrow> ?n"
      by (simp_all only: nibble_bits)
    have dq: "(if c then (if b then (if a then s div 8 + s else s div 8) + s div 2 else if a then s div 8 + s else s div 8) + s div 2 div 2
        else if b then (if a then s div 8 + s else s div 8) + s div 2 else if a then s div 8 + s else s div 8) = ?dq"
      by (cases a; cases b; cases c) simp_all
    show ?thesis
      unfolding adpcm_decode1_def st prod.case s(1) Option.bind.simps Let_def x bits dq nibble_bits(7) t ..
  qed
  ultimately show ?thesis
    using nibble_bits(1) clip_ok by blast
qed

end
