(* ===== verification/Adpcm_Theorems.thy ===== *)
theory Adpcm_Theorems
  imports Adpcm
begin

text \<open>
  Correctness of the ADPCM codec: the encoder packs the codes of the samples and the decoder, from the
  same state, finds the same reconstruction in them.  \<open>adpcm_trace\<close> is what the quantiser makes of a
  list of samples; \<open>packet\<close> its codes as the encoder packs them; \<open>adpcm_samples\<close> the reconstructed
  samples and \<open>adpcm_final\<close> the state after the last of them.
\<close>

section \<open>Nibbles\<close>

definition word4 :: "u16 \<Rightarrow> u16 \<Rightarrow> u16 \<Rightarrow> u16 \<Rightarrow> u16" where
  "word4 a b c d = a OR push_bit 4 b OR push_bit 8 c OR push_bit 12 d"

lemma nibble_bound: "unat (a :: u16) < 16 \<Longrightarrow> bit a n \<Longrightarrow> n < 4"
proof -
  assume "unat a < 16" and b: "bit a n"
  then have "take_bit 4 a = a"
    unfolding word_unat_eq_iff unsigned_take_bit_eq by (simp add: take_bit_eq_mod)
  with b show "n < 4"
    by (metis bit_take_bit_iff)
qed

lemma shift_in4:
  assumes "unat a < 16" "unat b < 16" "unat c < 16" "unat d < 16"
  shows "drop_bit 4 (drop_bit 4 (drop_bit 4 (drop_bit 4 w OR push_bit 12 a) OR push_bit 12 b) OR push_bit 12 c) OR push_bit 12 d
    = word4 a b c d"
  unfolding word4_def
  by (rule bit_word_eqI) (auto simp: bit_simps dest: assms [THEN nibble_bound])

lemma nth_lt8: "n < 8 \<longleftrightarrow> n = 0 \<or> n = 1 \<or> n = 2 \<or> n = 3 \<or> n = 4 \<or> n = 5 \<or> n = 6 \<or> n = (7::nat)"
  by auto

lemma swap_swap_low: "swap_nibbles8 (ucast (swap_nibbles16 w)) = ucast w"
proof (rule bit_word_eqI)
  fix n
  assume "n < LENGTH(8)"
  then have "n = 0 \<or> n = 1 \<or> n = 2 \<or> n = 3 \<or> n = 4 \<or> n = 5 \<or> n = 6 \<or> n = 7"
    by (simp add: nth_lt8)
  then show "bit (swap_nibbles8 (ucast (swap_nibbles16 w))) n = bit (ucast w :: u8) n"
    unfolding swap_nibbles8_def swap_nibbles16_def by (elim disjE) (simp_all add: bit_simps)
qed

lemma swap_swap_high: "swap_nibbles8 (ucast (drop_bit 8 (swap_nibbles16 w))) = ucast (drop_bit 8 w)"
proof (rule bit_word_eqI)
  fix n
  assume "n < LENGTH(8)"
  then have "n = 0 \<or> n = 1 \<or> n = 2 \<or> n = 3 \<or> n = 4 \<or> n = 5 \<or> n = 6 \<or> n = 7"
    by (simp add: nth_lt8)
  then show "bit (swap_nibbles8 (ucast (drop_bit 8 (swap_nibbles16 w)))) n = bit (ucast (drop_bit 8 w) :: u8) n"
    unfolding swap_nibbles8_def swap_nibbles16_def by (elim disjE) (simp_all add: bit_simps)
qed

lemma word4_nibbles:
  assumes "unat a < 16" "unat b < 16" "unat c < 16" "unat d < 16"
  shows "(ucast (word4 a b c d) :: u8) AND 15 = ucast a"
    "drop_bit 4 (ucast (word4 a b c d) :: u8) AND 15 = ucast b"
    "(ucast (drop_bit 8 (word4 a b c d)) :: u8) AND 15 = ucast c"
    "drop_bit 4 (ucast (drop_bit 8 (word4 a b c d)) :: u8) AND 15 = ucast d"
proof -
  have 15: "(15 :: u8) = mask 4"
    by (simp add: mask_eq_exp_minus_1)
  show "(ucast (word4 a b c d) :: u8) AND 15 = ucast a"
    unfolding word4_def 15 by (rule bit_word_eqI) (auto simp: bit_simps dest: assms [THEN nibble_bound])
  show "drop_bit 4 (ucast (word4 a b c d) :: u8) AND 15 = ucast b"
    unfolding word4_def 15 by (rule bit_word_eqI) (auto simp: bit_simps dest: assms [THEN nibble_bound])
  show "(ucast (drop_bit 8 (word4 a b c d)) :: u8) AND 15 = ucast c"
    unfolding word4_def 15 by (rule bit_word_eqI) (auto simp: bit_simps dest: assms [THEN nibble_bound])
  show "drop_bit 4 (ucast (drop_bit 8 (word4 a b c d)) :: u8) AND 15 = ucast d"
    unfolding word4_def 15 by (rule bit_word_eqI) (auto simp: bit_simps dest: assms [THEN nibble_bound])
qed

section \<open>The codes of a sequence of samples\<close>

text \<open>What the quantiser makes of the samples: for each its code and the state after it.\<close>

fun adpcm_trace :: "s16 list \<Rightarrow> int \<times> int \<Rightarrow> (u16 \<times> int \<times> int) list" where
  "adpcm_trace [] st = []"
| "adpcm_trace (di # ps) st =
     (case adpcm_encode1 di st of None \<Rightarrow> [] | Some (code, st') \<Rightarrow> (code, st') # adpcm_trace ps st')"

fun pack_codes :: "bool \<Rightarrow> u16 list \<Rightarrow> u16 list" where
  "pack_codes swap (a # b # c # d # cs) =
     (if swap then swap_nibbles16 (word4 a b c d) else word4 a b c d) # pack_codes swap cs"
| "pack_codes swap cs = []"

definition adpcm_final :: "s16 list \<Rightarrow> int \<times> int \<Rightarrow> int \<times> int" where
  "adpcm_final ps st = last (st # map snd (adpcm_trace ps st))"

lemma list_four_induct [consumes 1, case_names Nil Four]:
  assumes "length ps mod 4 = 0" and "P []"
    and "\<And>a b c d ps. length ps mod 4 = 0 \<Longrightarrow> P ps \<Longrightarrow> P (a # b # c # d # ps)"
  shows "P ps"
  using assms(1)
proof (induction ps rule: length_induct)
  case (1 ps)
  consider "ps = []" | a b c d qs where "ps = a # b # c # d # qs"
    using 1(2) by (cases ps; cases "tl ps"; cases "tl (tl ps)"; cases "tl (tl (tl ps))") auto
  then show ?case
    by cases (use 1 assms(2,3) in auto)
qed

section \<open>The encoder writes the packed codes\<close>

lemma encode_loop4:
  assumes i: "i mod 4 = 0"
    and a: "adpcm_encode1 xa (predict s, predict_idx s) = Some (ca, sa)" "unat ca < 16"
    and b: "adpcm_encode1 xb sa = Some (cb, sb)" "unat cb < 16"
    and c: "adpcm_encode1 xc sb = Some (cc, sc)" "unat cc < 16"
    and d: "adpcm_encode1 xd sc = Some (cd, sd)" "unat cd < 16"
    and room: "out_pd s < length (out_buf s)"
  shows "\<exists>c16'. encode_loop swap i (xa # xb # xc # xd # ps) c16 s =
    encode_loop swap (i + 4) ps c16' (s\<lparr>out_buf := (out_buf s)[out_pd s := (if swap then swap_nibbles16 (word4 ca cb cc cd) else word4 ca cb cc cd)],
      out_pd := out_pd s + 1, predict := fst sd, predict_idx := snd sd\<rparr>)"
proof -
  have m: "i mod 4 = 3 \<longleftrightarrow> False" "(i + 1) mod 4 = 3 \<longleftrightarrow> False" "(i + 1 + 1) mod 4 = 3 \<longleftrightarrow> False"
      "(i + 1 + 1 + 1) mod 4 = 3 \<longleftrightarrow> True" "i + 1 + 1 + 1 + 1 = i + 4"
    using i by presburger+
  obtain pa ka pb kb pc kc pd kd where st: "sa = (pa, ka)" "sb = (pb, kb)" "sc = (pc, kc)" "sd = (pd, kd)"
    by (cases sa; cases sb; cases sc; cases sd)
  let ?w = "if swap then swap_nibbles16 (word4 ca cb cc cd) else word4 ca cb cc cd"
  have "encode_loop swap i (xa # xb # xc # xd # ps) c16 s =
    encode_loop swap (i + 4) ps ?w (s\<lparr>out_buf := (out_buf s)[out_pd s := ?w],
      out_pd := out_pd s + 1, predict := fst sd, predict_idx := snd sd\<rparr>)"
    using a(1) b(1) c(1) d(1) room
    by (simp only: encode_loop.simps m st) (simp add: Let_def shift_in4 [OF a(2) b(2) c(2) d(2), simplified] put_word_def put_byte_Some)
  then show ?thesis
    by blast
qed

text \<open>Sample \<open>di\<close> is coded as \<open>c\<close>, and both sides then have the state \<open>st'\<close>.\<close>

definition coded :: "s16 \<Rightarrow> int \<times> int \<Rightarrow> u16 \<Rightarrow> int \<times> int \<Rightarrow> bool" where
  "coded di st c st' \<longleftrightarrow> adpcm_encode1 di st = Some (c, st') \<and> unat c < 16 \<and> adpcm_ok st' \<and>
    (\<forall>x. x AND 15 = ucast c \<longrightarrow> adpcm_decode1 x st = Some st')"

lemma adpcm_coded:
  assumes "adpcm_ok st"
  obtains c st' where "coded di st c st'"
  using encode_decode1 [OF assms, of di] unfolding coded_def by blast

lemma coded_simps:
  assumes "coded di st c st'"
  shows "adpcm_encode1 di st = Some (c, st')" "unat c < 16" "adpcm_ok st'"
    "x AND 15 = ucast c \<Longrightarrow> adpcm_decode1 x st = Some st'"
    "adpcm_trace (di # ps) st = (c, st') # adpcm_trace ps st'"
    "adpcm_final (di # ps) st = adpcm_final ps st'"
  using assms by (simp_all add: coded_def adpcm_final_def)

lemma adpcm_trace_length: "adpcm_ok st \<Longrightarrow> length (adpcm_trace ps st) = length ps"
proof (induction ps arbitrary: st)
  case (Cons di ps)
  from Cons.prems obtain c st' where "coded di st c st'"
    by (rule adpcm_coded)
  then show ?case
    using Cons.IH by (simp only: coded_simps) (simp add: coded_simps)
qed simp

lemma adpcm_final_ok: "adpcm_ok st \<Longrightarrow> adpcm_ok (adpcm_final ps st)"
proof (induction ps arbitrary: st)
  case (Cons di ps)
  from Cons.prems obtain c st' where "coded di st c st'"
    by (rule adpcm_coded)
  then show ?case
    using Cons.IH by (simp only: coded_simps)
qed (simp add: adpcm_final_def)

lemma pack_codes_length: "length cs mod 4 = 0 \<Longrightarrow> length (pack_codes swap cs) = length cs div 4"
  by (induction rule: list_four_induct) simp_all

lemma div_4_Suc: "(4 + n) div 4 = Suc (n div 4)"
  by simp

lemma encode_loop_spec:
  assumes "length ps mod 4 = 0" and "i mod 4 = 0" and "adpcm_ok (predict s, predict_idx s)"
    and "out_pd s + length ps div 4 \<le> length (out_buf s)"
  shows "encode_loop swap i ps c16 s = Some (s
    \<lparr>out_buf := take (out_pd s) (out_buf s) @ pack_codes swap (map fst (adpcm_trace ps (predict s, predict_idx s)))
       @ drop (out_pd s + length ps div 4) (out_buf s),
     out_pd := out_pd s + length ps div 4,
     predict := fst (adpcm_final ps (predict s, predict_idx s)), predict_idx := snd (adpcm_final ps (predict s, predict_idx s))\<rparr>)"
  using assms
proof (induction ps arbitrary: i c16 s rule: list_four_induct)
  case Nil
  then show ?case
    by (simp add: adpcm_final_def)
next
  case (Four xa xb xc xd ps)
  let ?st = "(predict s, predict_idx s)"
  obtain ca sa where a: "coded xa ?st ca sa"
    using Four.prems(2) by (rule adpcm_coded)
  obtain cb sb where b: "coded xb sa cb sb"
    using coded_simps(3) [OF a] by (rule adpcm_coded)
  obtain cc sc where c: "coded xc sb cc sc"
    using coded_simps(3) [OF b] by (rule adpcm_coded)
  obtain cd sd where d: "coded xd sc cd sd"
    using coded_simps(3) [OF c] by (rule adpcm_coded)
  note steps = coded_simps(5,6) [OF a] coded_simps(5,6) [OF b] coded_simps(5,6) [OF c] coded_simps(5,6) [OF d]
  let ?n = "out_pd s"
  let ?w = "if swap then swap_nibbles16 (word4 ca cb cc cd) else word4 ca cb cc cd"
  have room: "?n < length (out_buf s)" "?n + 1 + length ps div 4 \<le> length (out_buf s)"
    using Four.prems(3) by simp_all
  from encode_loop4 [OF Four.prems(1) coded_simps(1,2) [OF a] coded_simps(1,2) [OF b]
      coded_simps(1,2) [OF c] coded_simps(1,2) [OF d] room(1)] obtain c16' where
    eq: "encode_loop swap i (xa # xb # xc # xd # ps) c16 s = encode_loop swap (i + 4) ps c16' (s\<lparr>out_buf := (out_buf s)[?n := ?w],
      out_pd := ?n + 1, predict := fst sd, predict_idx := snd sd\<rparr>)"
    by blast
  have "take (?n + 1) ((out_buf s)[?n := ?w]) = take ?n (out_buf s) @ [?w]"
    using take_Suc_update [OF room(1)] by simp
  then show ?case
    unfolding eq using Four.prems(1) room coded_simps(3) [OF d]
    by (subst Four.IH) (simp_all add: steps div_4_Suc mod_Suc del: adpcm_trace.simps(2))
qed


section \<open>The decoder reads them\<close>

text \<open>A packed word in front of position \<open>j + 1\<close>, as the decoder takes it apart.\<close>

lemma next_code_word:
  assumes "get_byte ps j = Some (if swap then swap_nibbles16 w else w)"
  shows "next_code swap ps (2 * j) = Some (ucast w)" "next_code swap ps (2 * j + 1) = Some (ucast (drop_bit 8 w))"
proof -
  have "next_code swap ps (2 * j) = Some (if swap then swap_nibbles8 (ucast (swap_nibbles16 w)) else ucast w)"
    using assms by (simp add: next_code_def word_byte_def)
  then show "next_code swap ps (2 * j) = Some (ucast w)"
    by (simp add: swap_swap_low)
  have "next_code swap ps (2 * j + 1) =
      Some (if swap then swap_nibbles8 (ucast (drop_bit 8 (swap_nibbles16 w))) else ucast (drop_bit 8 w))"
    using assms by (simp add: next_code_def word_byte_def)
  then show "next_code swap ps (2 * j + 1) = Some (ucast (drop_bit 8 w))"
    by (simp add: swap_swap_high)
qed

lemma decode_loop4:
  assumes i: "even i"
    and a: "coded xa st ca sa" and b: "coded xb sa cb sb" and c: "coded xc sb cc sc" and d: "coded xd sc cd sd"
    and x0: "x0 = ucast (word4 ca cb cc cd)"
    and x1: "next_code swap ps k = Some (ucast (drop_bit 8 (word4 ca cb cc cd)))"
    and y: "next_code swap ps (k + 1) = Some y"
  shows "decode_loop swap ps (n + 4) i k x0 st =
    do { (pd, st') \<leftarrow> decode_loop swap ps n (i + 4) (k + 2) y sd;
         Some (of_int (fst sa) # of_int (fst sb) # of_int (fst sc) # of_int (fst sd) # pd, st') }"
proof -
  let ?w = "word4 ca cb cc cd"
  have n: "n + 4 = Suc (Suc (Suc (Suc n)))"
    by simp
  have odd: "odd i = False" "odd (i + 1) = True" "odd (i + 1 + 1) = False" "odd (i + 1 + 1 + 1) = True"
      "i + 1 + 1 + 1 + 1 = i + 4" "k + 1 + 1 = k + 2"
    using i by simp_all
  note nib = word4_nibbles [OF coded_simps(2) [OF a] coded_simps(2) [OF b] coded_simps(2) [OF c] coded_simps(2) [OF d]]
  have dec: "adpcm_decode1 (ucast ?w) st = Some sa" "adpcm_decode1 (drop_bit 4 (ucast ?w)) sa = Some sb"
      "adpcm_decode1 (ucast (drop_bit 8 ?w)) sb = Some sc" "adpcm_decode1 (drop_bit 4 (ucast (drop_bit 8 ?w))) sc = Some sd"
    by (rule coded_simps(4) [OF a nib(1)] coded_simps(4) [OF b nib(2)] coded_simps(4) [OF c nib(3)] coded_simps(4) [OF d nib(4)])+
  show ?thesis
    unfolding n x0 decode_loop.simps odd dec bind.bind_lunit if_True if_False x1 y prod.case
    by (cases "decode_loop swap ps n (i + 4) (k + 2) y sd") (simp_all add: case_prod_beta)
qed

lemma drop_Cons_parts:
  assumes "drop j ps = x # xs"
  shows "j < length ps" "ps ! j = x" "drop (j + 1) ps = xs"
proof -
  show j: "j < length ps"
    using assms by (metis drop_all list.distinct(1) not_le)
  then show "ps ! j = x" "drop (j + 1) ps = xs"
    using assms Cons_nth_drop_Suc [OF j] by simp_all
qed

definition adpcm_samples :: "s16 list \<Rightarrow> int \<times> int \<Rightarrow> s16 list" where
  "adpcm_samples ps st = map (\<lambda>(c, p, k). of_int p) (adpcm_trace ps st)"

lemma decode_loop_spec:
  assumes "length xs mod 4 = 0" and "even i" and "adpcm_ok st"
    and "drop j ps = pack_codes swap (map fst (adpcm_trace xs st)) @ z # zs"
    and "next_code swap ps (2 * j) = Some c"
  shows "decode_loop swap ps (length xs) i (2 * j + 1) c st = Some (adpcm_samples xs st, adpcm_final xs st)"
  using assms
proof (induction xs arbitrary: i j c st rule: list_four_induct)
  case Nil
  then show ?case
    by (simp add: adpcm_samples_def adpcm_final_def)
next
  case (Four xa xb xc xd xs)
  obtain ca sa where a: "coded xa st ca sa"
    using Four.prems(2) by (rule adpcm_coded)
  obtain cb sb where b: "coded xb sa cb sb"
    using coded_simps(3) [OF a] by (rule adpcm_coded)
  obtain cc sc where cc: "coded xc sb cc sc"
    using coded_simps(3) [OF b] by (rule adpcm_coded)
  obtain cd sd where d: "coded xd sc cd sd"
    using coded_simps(3) [OF cc] by (rule adpcm_coded)
  note steps = coded_simps(5,6) [OF a] coded_simps(5,6) [OF b] coded_simps(5,6) [OF cc] coded_simps(5,6) [OF d]
  let ?w = "word4 ca cb cc cd"
  have dj: "drop j ps = (if swap then swap_nibbles16 ?w else ?w) # pack_codes swap (map fst (adpcm_trace xs sd)) @ z # zs"
    using Four.prems(3) by (simp add: steps del: adpcm_trace.simps(2))
  then have w: "get_byte ps j = Some (if swap then swap_nibbles16 ?w else ?w)"
      and rest: "drop (j + 1) ps = pack_codes swap (map fst (adpcm_trace xs sd)) @ z # zs"
    using drop_Cons_parts [OF dj] by (simp_all add: get_byte_def)
  have "j + 1 < length ps"
    using arg_cong [OF rest, of length] by simp
  then obtain y where y: "next_code swap ps (2 * (j + 1)) = Some y"
    by (simp add: next_code_def word_byte_def get_byte_def)
  have c: "c = ucast ?w"
    using Four.prems(4) next_code_word(1) [OF w] by simp
  have n: "length (xa # xb # xc # xd # xs) = length xs + 4"
    by simp
  have k: "2 * j + 1 + 1 = 2 * (j + 1)" "2 * j + 1 + 2 = 2 * (j + 1) + 1"
    by simp_all
  show ?case
    unfolding n decode_loop4 [OF Four.prems(1) a b cc d c next_code_word(2) [OF w] y [folded k(1)]] k(2)
    using Four.IH [OF _ coded_simps(3) [OF d] rest y, of "i + 4"] Four.prems(1)
    by (simp add: steps adpcm_samples_def case_prod_beta del: adpcm_trace.simps(2))
qed


section \<open>Theorems\<close>

definition adpcm_state :: "adpcm \<Rightarrow> int \<times> int" where
  "adpcm_state s = (predict s, predict_idx s)"

text \<open>One sample of the quantiser: how far the reconstruction is from the sample.\<close>

lemma abs_clip: "-32768 \<le> x \<Longrightarrow> x \<le> 32767 \<Longrightarrow> \<bar>x - clip_predict p\<bar> \<le> \<bar>x - p\<bar>"
  by (auto simp: clip_predict_def)

text \<open>What the loop leaves of the difference: at each bit \<open>d \<le> 2 * s + e\<close> becomes \<open>r \<le> s + e\<close>.\<close>

lemma quant_loop_rest1:
  assumes "0 \<le> d" and "d \<le> 2 * s + e" and "-1 \<le> e" and "0 \<le> s"
  shows "\<exists>r. fst (quant_loop 1 d q s k) = q + d - r \<and> 0 \<le> r \<and> r \<le> s + e"
  using assms unfolding quant_step by (cases "s \<le> d") (auto intro: exI [of _ "d - s"] exI [of _ d])

lemma quant_loop_rest2:
  assumes "0 \<le> d" and "d \<le> 2 * s + e" and "-1 \<le> e" and "0 \<le> s"
  shows "\<exists>r. fst (quant_loop 2 d q s k) = q + d - r \<and> 0 \<le> r \<and> r \<le> s div 2 + e + 1"
proof (cases "s \<le> d")
  case True
  then have "0 \<le> d - s" "d - s \<le> 2 * (s div 2) + (e + 1)" "-1 \<le> e + 1" "0 \<le> s div 2"
    using assms by presburger+
  from quant_loop_rest1 [OF this, of "q + s" "k + 2"] True show ?thesis
    unfolding quant_step(2) by (simp add: add.assoc)
next
  case False
  then have "0 \<le> d" "d \<le> 2 * (s div 2) + (e + 1)" "-1 \<le> e + 1" "0 \<le> s div 2"
    using assms by presburger+
  from quant_loop_rest1 [OF this, of q k] False show ?thesis
    unfolding quant_step(2) by (simp add: add.assoc)
qed

lemma quant_loop_rest:
  assumes "0 \<le> d" and "d < 2 * s" and "0 \<le> s"
  shows "\<exists>r. fst (quant_loop 4 d q s k) = q + d - r \<and> 0 \<le> r \<and> r \<le> s div 2 div 2 + 1"
proof (cases "s \<le> d")
  case True
  then have "0 \<le> d - s" "d - s \<le> 2 * (s div 2) + 0" "-1 \<le> (0 :: int)" "0 \<le> s div 2"
    using assms by presburger+
  from quant_loop_rest2 [OF this, of "q + s" "k + 4"] True show ?thesis
    unfolding quant_step(1) by (simp add: add.assoc)
next
  case False
  then have "0 \<le> d" "d \<le> 2 * (s div 2) + 0" "-1 \<le> (0 :: int)" "0 \<le> s div 2"
    using assms by presburger+
  from quant_loop_rest2 [OF this, of q k] False show ?thesis
    unfolding quant_step(1) by simp
qed

lemma quant_loop_error:
  assumes "0 \<le> d" and "d < 2 * s" and "0 \<le> s"
  shows "\<bar>d - fst (quant_loop 4 d (s div 8) s k)\<bar> \<le> s div 8 + 2"
proof -
  obtain r where r: "fst (quant_loop 4 d (s div 8) s k) = s div 8 + d - r" "0 \<le> r" "r \<le> s div 2 div 2 + 1"
    using quant_loop_rest [OF assms] by blast
  moreover have "s div 2 div 2 + 1 \<le> 2 * (s div 8) + 2" "0 \<le> s div 8"
    using assms(3) by presburger+
  ultimately show ?thesis
    by (simp add: abs_le_iff)
qed

lemma sint16: "-32768 \<le> sint (x :: s16)" "sint x \<le> 32767"
  using sint_ge [of x] sint_lt [of x] by simp_all

lemma header_words:
  assumes "adpcm_ok (p, k)"
  shows "sint (of_int p :: u16) = p"
    "int (unat (((ucast (of_int k :: u8) :: u16) OR push_bit 8 m) AND 0xff)) = k"
    "sint (((ADPCM_ANDROID_ID OR (of_int p AND 0xff00)) AND 0xff00) OR (((of_int p AND 0x00ff) OR (push_bit 8 (of_int k) AND 0xff00)) AND 0x00ff) :: u16) = p"
    "sint (ucast (drop_bit 8 (((of_int p AND 0x00ff) OR (push_bit 8 (of_int k) AND 0xff00)) AND 0xff00) :: u16) :: u8) = k"
proof -
  have p: "- 32768 \<le> p" "p \<le> 32767" and k: "0 \<le> k" "k \<le> 88"
    using assms by (simp_all add: adpcm_ok_def)
  have sp: "sint (of_int p :: u16) = p"
    using p by (simp add: signed_of_int signed_take_bit_int_eq_self)
  have uk: "uint (of_int k :: u8) = k"
    using k by (simp add: unsigned_of_int take_bit_int_eq_self)
  have sk: "sint (of_int k :: u8) = k"
    using k by (simp add: signed_of_int signed_take_bit_int_eq_self)
  have ff: "(0xff :: u16) = mask 8"
    by (simp add: mask_eq_exp_minus_1)
  have ff00: "(0xff00 :: u16) = push_bit 8 (mask 8)"
    by (simp add: mask_eq_exp_minus_1)
  show "sint (of_int p :: u16) = p"
    by (rule sp)
  have "((ucast (of_int k :: u8) :: u16) OR push_bit 8 m) AND 0xff = ucast (of_int k :: u8)"
    unfolding ff by (rule bit_word_eqI) (auto simp: bit_simps)
  then show "int (unat (((ucast (of_int k :: u8) :: u16) OR push_bit 8 m) AND 0xff)) = k"
    using uk unat_bound(1) [of "of_int k"] by (simp add: unsigned_ucast_eq take_bit_nat_eq_self)
  have "((ADPCM_ANDROID_ID OR (of_int p AND 0xff00)) AND 0xff00) OR (((of_int p AND 0x00ff) OR (push_bit 8 (of_int k) AND 0xff00)) AND 0x00ff)
     = (of_int p :: u16)"
    unfolding ff ff00 ADPCM_ANDROID_ID_def by (rule bit_word_eqI) (auto simp: bit_simps)
  then show "sint (((ADPCM_ANDROID_ID OR (of_int p AND 0xff00)) AND 0xff00) OR (((of_int p AND 0x00ff) OR (push_bit 8 (of_int k) AND 0xff00)) AND 0x00ff) :: u16) = p"
    using sp by simp
  have "ucast (drop_bit 8 (((of_int p AND 0x00ff) OR (push_bit 8 (of_int k) AND 0xff00)) AND 0xff00) :: u16) = (of_int k :: u8)"
    unfolding ff ff00 by (rule bit_word_eqI) (auto simp: bit_simps)
  then show "sint (ucast (drop_bit 8 (((of_int p AND 0x00ff) OR (push_bit 8 (of_int k) AND 0xff00)) AND 0xff00) :: u16) :: u8) = k"
    using sk by simp
qed

text \<open>A call of the encoder with a fresh buffer and a header of \<open>hs\<close>, and what the decoder finds in it.\<close>

definition packet :: "bool \<Rightarrow> s16 list \<Rightarrow> int \<times> int \<Rightarrow> u16 list" where
  "packet swap ps st = pack_codes swap (map fst (adpcm_trace ps st))"

lemma packet_length: "length ps mod 4 = 0 \<Longrightarrow> adpcm_ok st \<Longrightarrow> length (packet swap ps st) = length ps div 4"
  by (simp add: packet_def pack_codes_length adpcm_trace_length)

lemma encode_packet:
  assumes "length ps mod 4 = 0" and "adpcm_ok (adpcm_state s)" and "out_pd s + length ps div 4 < length (out_buf s)"
  obtains s' z zs where "encode_loop swap 0 ps 0 s = Some s'" "adpcm_state s' = adpcm_final ps (adpcm_state s)"
    "out_pd s' = out_pd s + length ps div 4" "length (out_buf s') = length (out_buf s)"
    "out_buf s' = take (out_pd s) (out_buf s) @ packet swap ps (adpcm_state s) @ z # zs" "adpcm_serial_num s' = adpcm_serial_num s"
proof -
  let ?n = "out_pd s + length ps div 4"
  have d: "drop ?n (out_buf s) = out_buf s ! ?n # drop (Suc ?n) (out_buf s)"
    using Cons_nth_drop_Suc [OF assms(3)] by simp
  let ?st = "adpcm_final ps (adpcm_state s)"
  let ?s = "s\<lparr>out_buf := take (out_pd s) (out_buf s) @ packet swap ps (adpcm_state s) @ drop ?n (out_buf s),
     out_pd := ?n, predict := fst ?st, predict_idx := snd ?st\<rparr>"
  show ?thesis
  proof (rule that [of ?s])
    show "encode_loop swap 0 ps 0 s = Some ?s"
      using assms by (subst encode_loop_spec) (simp_all add: adpcm_state_def packet_def)
    show "length (out_buf ?s) = length (out_buf s)"
      using assms by (simp add: packet_length)
    show "out_buf ?s = take (out_pd s) (out_buf s) @ packet swap ps (adpcm_state s) @ out_buf s ! ?n # drop (Suc ?n) (out_buf s)"
      by (simp add: d)
  qed (simp_all add: adpcm_state_def)
qed

lemma decode_packet:
  assumes "length xs mod 4 = 0" and "adpcm_ok st" and "ps = hs @ packet swap xs st @ z # zs"
  obtains c where "next_code swap ps (2 * length hs) = Some c"
    "decode_loop swap ps (length xs) 0 (2 * length hs + 1) c st = Some (adpcm_samples xs st, adpcm_final xs st)"
proof -
  obtain c where c: "next_code swap ps (2 * length hs) = Some c"
    unfolding next_code_def word_byte_def by (simp add: assms(3) get_byte_def)
  have "drop (length hs) ps = pack_codes swap (map fst (adpcm_trace xs st)) @ z # zs"
    unfolding assms(3) packet_def by simp
  from decode_loop_spec [OF assms(1) _ assms(2) this c, of 0] that [OF c] show ?thesis
    by simp
qed

lemma adpcm_trace_append:
  "adpcm_ok st \<Longrightarrow> adpcm_trace (xs @ ys) st = adpcm_trace xs st @ adpcm_trace ys (adpcm_final xs st) \<and>
    adpcm_final (xs @ ys) st = adpcm_final ys (adpcm_final xs st)"
proof (induction xs arbitrary: st)
  case (Cons di xs)
  from Cons.prems obtain c st' where c: "coded di st c st'"
    by (rule adpcm_coded)
  from Cons.IH [OF coded_simps(3) [OF c]] show ?case
    by (simp only: append_Cons coded_simps(5,6) [OF c] simp_thms)
qed (simp add: adpcm_final_def)

lemma pack_codes_append: "length cs mod 4 = 0 \<Longrightarrow> pack_codes swap (cs @ ds) = pack_codes swap cs @ pack_codes swap ds"
  by (induction rule: list_four_induct) simp_all

lemma packet_append:
  "length xs mod 4 = 0 \<Longrightarrow> adpcm_ok st \<Longrightarrow> packet swap (xs @ ys) st = packet swap xs st @ packet swap ys (adpcm_final xs st)"
  by (simp add: packet_def adpcm_trace_append pack_codes_append adpcm_trace_length)

lemma adpcm_samples_append:
  "adpcm_ok st \<Longrightarrow> adpcm_samples (xs @ ys) st = adpcm_samples xs st @ adpcm_samples ys (adpcm_final xs st)"
  by (simp add: adpcm_samples_def adpcm_trace_append)

lemma telink_first_call:
  assumes "length ps mod 4 = 0" and "adpcm_ok (adpcm_state s)" and "2 + length ps div 4 < length pds"
  obtains s' h z zs where "mic_to_adpcm_split_telink ps pds True s = Some s'"
    "adpcm_state s' = adpcm_final ps (adpcm_state s)" "out_pd s' = 2 + length ps div 4" "length (out_buf s') = length pds"
    "out_buf s' = [of_int (predict s), ucast (of_int (predict_idx s) :: u8) OR push_bit 8 h] @ packet False ps (adpcm_state s) @ z # zs"
proof -
  let ?h = "of_nat (ADPCM_PACKET_LEN_TELINK - 4) :: u16"
  let ?w = "ucast (of_int (predict_idx s) :: u8) OR push_bit 8 ?h"
  let ?s = "s\<lparr>out_buf := pds[0 := of_int (predict s), 1 := ?w], out_pd := 2\<rparr>"
  obtain x y qs where pds: "pds = x # y # qs"
    using assms(3) by (cases pds; cases "tl pds") auto
  have "mic_to_adpcm_split_telink ps pds True s = encode_loop False 0 ps 0 ?s"
    by (simp add: mic_to_adpcm_split_telink_def put_word_def put_byte_def numeral_2_eq_2 pds)
  moreover have "adpcm_state ?s = adpcm_state s"
    by (simp add: adpcm_state_def)
  ultimately show ?thesis
    using assms encode_packet [of ps ?s False] that by (simp add: pds numeral_2_eq_2) metis
qed

lemma telink_next_call:
  assumes "length ps mod 4 = 0" and "adpcm_ok (adpcm_state s)" and "out_pd s + length ps div 4 < length (out_buf s)"
  obtains s' z zs where "mic_to_adpcm_split_telink ps pds False s = Some s'" "adpcm_state s' = adpcm_final ps (adpcm_state s)"
    "length (out_buf s') = length (out_buf s)"
    "out_buf s' = take (out_pd s) (out_buf s) @ packet False ps (adpcm_state s) @ z # zs"
  using encode_packet [OF assms, of False] unfolding mic_to_adpcm_split_telink_def by (simp add: Option.bind_lunit) metis

lemma adpcm_step_exists:
  assumes "adpcm_ok (p, k)"
  shows "\<exists>s c p' k'. table steptbl k = Some s \<and> adpcm_encode1 di (p, k) = Some (c, p', k') \<and> unat c < 16 \<and> adpcm_ok (p', k') \<and>
    (\<bar>sint di - p\<bar> < 2 * s \<longrightarrow> \<bar>sint di - p'\<bar> \<le> s div 8 + 2)"
proof -
  obtain s where s: "table steptbl k = Some s" "7 \<le> s"
    using assms table_steptbl by (force simp: adpcm_ok_def)
  obtain c p' k' where c: "coded di (p, k) c (p', k')"
    using adpcm_coded [OF assms, of di] by (metis prod.exhaust)
  let ?n = "sint di - p < 0"
  let ?q = "fst (quant_loop 4 \<bar>sint di - p\<bar> (s div 8) s (if ?n then 8 else 0))"
  have "\<bar>sint di - p'\<bar> \<le> s div 8 + 2" if d: "\<bar>sint di - p\<bar> < 2 * s"
  proof -
    have q: "\<bar>\<bar>sint di - p\<bar> - ?q\<bar> \<le> s div 8 + 2"
      using quant_loop_error d s(2) by simp
    obtain q code where qc: "quant_loop 4 \<bar>sint di - p\<bar> (s div 8) s (if ?n then 8 else 0) = (q, code)"
      by fastforce
    have neg: "(if 0 \<le> sint di - p then (sint di - p, 0) else (- (sint di - p), 8)) = (\<bar>sint di - p\<bar>, if ?n then 8 else 0 :: u16)"
      by simp
    obtain a b e where "code = nibble ?n a b e"
      using quant_loop_bits [of "\<bar>sint di - p\<bar>" "s div 8" s "if ?n then 8 else 0"] unfolding qc nibble_def by blast
    then have sign: "8 \<le> code \<longleftrightarrow> ?n"
      by (simp add: nibble_sign)
    have "p' = clip_predict (if ?n then p - q else p + q)"
      using coded_simps(1) [OF c] unfolding adpcm_encode1_def prod.case s(1) Option.bind.simps Let_def neg qc sign
      by (auto split: bind_splits)
    then have "\<bar>sint di - p'\<bar> \<le> \<bar>sint di - (if ?n then p - q else p + q)\<bar>"
      using abs_clip [OF sint16] by simp
    also have "\<dots> = \<bar>\<bar>sint di - p\<bar> - q\<bar>"
      by (cases ?n) (auto simp: abs_if)
    finally show ?thesis
      using q unfolding qc fst_conv by (rule order_trans)
  qed
  then show ?thesis
    using s(1) coded_simps(1-3) [OF c] by blast
qed

lemma decode_overread:
  "even i \<Longrightarrow> 2 * length ps < k + m \<Longrightarrow> 0 < m \<Longrightarrow> decode_loop swap ps (2 * m) i k c st = None"
proof (induction m arbitrary: i k c st)
  case (Suc m)
  have two: "2 * Suc m = Suc (Suc (2 * m))"
    by simp
  show ?case
  proof (cases "m = 0")
    case True
    then have "next_code swap ps k = None"
      using Suc.prems(2) by (simp add: next_code_def word_byte_def get_byte_def)
    then show ?thesis
      unfolding two using True Suc.prems(1) by (auto split: bind_splits)
  next
    case False
    then have "decode_loop swap ps (2 * m) (Suc (Suc i)) (Suc k) c st = None" for c st
      using Suc.IH Suc.prems(1,2) by simp
    then show ?thesis
      unfolding two using Suc.prems(1) by (auto split: bind_splits)
  qed
qed simp

text \<open>One sample of the encoder, in every state in which the predictor is a 16-bit value and the index
  inside the step table: the code has four bits, the new state is again such a state (so no access to
  a table leaves it), and the reconstruction is within an eighth of a step, and 2, of the sample,
  whenever the sample was less than two steps away from the predictor.\<close>

theorem adpcm_quantise_error:
  assumes "adpcm_ok (p, k)"
  shows "\<exists>s c p' k'. table steptbl k = Some s \<and> adpcm_encode1 di (p, k) = Some (c, p', k') \<and> unat c < 16 \<and> adpcm_ok (p', k') \<and>
    (\<bar>sint di - p\<bar> < 2 * s \<longrightarrow> \<bar>sint di - p'\<bar> \<le> s div 8 + 2)"
  using assms by (rule adpcm_step_exists)

theorem adpcm_quantise_error_witness:
  "\<exists>s c p' k'. table steptbl 20 = Some s \<and> adpcm_encode1 (-100) (-30, 20) = Some (c, p', k') \<and> unat c < 16 \<and> adpcm_ok (p', k') \<and>
    (\<bar>sint (-100 :: s16) - (-30)\<bar> < 2 * s \<longrightarrow> \<bar>sint (-100 :: s16) - p'\<bar> \<le> s div 8 + 2)"
  by (rule adpcm_quantise_error) (simp add: adpcm_ok_def)

text \<open>C19: The remote control fills a packet of the Telink profile in two calls, the first of which writes the
  header; the dongle decodes the packet to exactly the values the encoder's predictor took after each
  sample, and the encoder's state is ready for the next packet.  The packet has to be followed by at
  least one more word, which the decoder reads.\<close>

theorem adpcm_telink_roundtrip:
  assumes ok: "adpcm_ok (adpcm_state s)" and len: "length ps mod 4 = 0" "length qs mod 4 = 0"
    and room: "2 + length ps div 4 + length qs div 4 < length pds"
  shows "\<exists>s1 s2. mic_to_adpcm_split_telink ps pds True s = Some s1 \<and> mic_to_adpcm_split_telink qs pds False s1 = Some s2 \<and>
    adpcm_state s2 = adpcm_final (ps @ qs) (adpcm_state s) \<and> adpcm_ok (adpcm_state s2) \<and>
    adpcm_to_pcm_telink (out_buf s2) (length ps + length qs) = Some (adpcm_samples (ps @ qs) (adpcm_state s))"
proof -
  let ?st = "adpcm_state s"
  obtain s1 h z zs where s1: "mic_to_adpcm_split_telink ps pds True s = Some s1"
      "adpcm_state s1 = adpcm_final ps ?st" "out_pd s1 = 2 + length ps div 4" "length (out_buf s1) = length pds"
      "out_buf s1 = [of_int (predict s), ucast (of_int (predict_idx s) :: u8) OR push_bit 8 h] @ packet False ps ?st @ z # zs"
    by (rule telink_first_call [OF len(1) ok, of pds]) (use room in simp)
  let ?h = "[of_int (predict s), ucast (of_int (predict_idx s) :: u8) OR push_bit 8 h] :: u16 list"
  have ok1: "adpcm_ok (adpcm_state s1)"
    using adpcm_final_ok [OF ok] s1(2) by simp
  obtain s2 y ys where s2: "mic_to_adpcm_split_telink qs pds False s1 = Some s2"
      "adpcm_state s2 = adpcm_final qs (adpcm_state s1)"
      "out_buf s2 = take (out_pd s1) (out_buf s1) @ packet False qs (adpcm_state s1) @ y # ys"
    by (rule telink_next_call [OF len(2) ok1, of pds]) (use room s1(3,4) in simp)
  have "take (out_pd s1) (out_buf s1) = ?h @ packet False ps ?st"
    using packet_length [OF len(1) ok] unfolding s1(3,5) by simp
  then have buf: "out_buf s2 = ?h @ packet False (ps @ qs) ?st @ y # ys"
    unfolding s2(3) packet_append [OF len(1) ok] s1(2) by simp
  have len': "length (ps @ qs) mod 4 = 0"
    using len by (simp add: mod_eq_0_iff_dvd)
  obtain c where c: "next_code False (out_buf s2) (2 * length ?h) = Some c"
      "decode_loop False (out_buf s2) (length (ps @ qs)) 0 (2 * length ?h + 1) c ?st = Some (adpcm_samples (ps @ qs) ?st, adpcm_final (ps @ qs) ?st)"
    using len' ok buf by (rule decode_packet)
  have w: "get_byte (out_buf s2) 0 = Some (?h ! 0)" "get_byte (out_buf s2) 1 = Some (?h ! 1)"
    unfolding buf get_byte_def by simp_all
  have st: "(sint (?h ! 0), int (unat (?h ! 1 AND 0xff))) = ?st"
    using header_words(1,2) [OF ok [unfolded adpcm_state_def]] by (simp add: adpcm_state_def)
  have "adpcm_to_pcm_telink (out_buf s2) (length ps + length qs) = Some (adpcm_samples (ps @ qs) ?st)"
    unfolding adpcm_to_pcm_telink_def w Option.bind.simps st using c by simp
  moreover have "adpcm_state s2 = adpcm_final (ps @ qs) ?st"
    using s2(2) s1(2) adpcm_trace_append [OF ok] by simp
  moreover have "adpcm_ok (adpcm_state s2)"
    unfolding s2(2) by (rule adpcm_final_ok [OF ok1])
  ultimately show ?thesis
    using s1(1) s2(1) by blast
qed

theorem adpcm_telink_roundtrip_witness:
  "\<exists>s1 s2. mic_to_adpcm_split_telink [5, 300, -20, 7] (replicate 6 0) True
        \<lparr>predict = -9, predict_idx = 3, adpcm_serial_num = 0, out_buf = [], out_pd = 0\<rparr> = Some s1 \<and>
    mic_to_adpcm_split_telink [1000, 2000, 3000, 4000] (replicate 6 0) False s1 = Some s2 \<and>
    adpcm_state s2 = adpcm_final ([5, 300, -20, 7] @ [1000, 2000, 3000, 4000]) (-9, 3) \<and> adpcm_ok (adpcm_state s2) \<and>
    adpcm_to_pcm_telink (out_buf s2) (length [5, 300, -20, 7 :: s16] + length [1000, 2000, 3000, 4000 :: s16]) = Some (adpcm_samples ([5, 300, -20, 7] @ [1000, 2000, 3000, 4000]) (-9, 3))"
  using adpcm_telink_roundtrip [of "\<lparr>predict = -9, predict_idx = 3, adpcm_serial_num = 0, out_buf = [], out_pd = 0\<rparr>"
    "[5, 300, -20, 7]" "[1000, 2000, 3000, 4000]" "replicate 6 0"]
  by (simp add: adpcm_state_def adpcm_ok_def)

text \<open>The Google profile before version 1.0 sends the predictor big-endian with the serial number and the
  profile's number in front of it; the decoder recovers predictor and index from the header and the
  samples from the codes, whose nibbles travel in the other order.\<close>

theorem adpcm_google_roundtrip:
  assumes ok: "adpcm_ok (adpcm_state s)" and len: "length ps mod 4 = 0" and room: "3 + length ps div 4 < length pds"
  shows "\<exists>s'. mic_to_adpcm_split_google ps pds GOOGLE_AUDIO_V0P4 s = Some s' \<and>
    adpcm_state s' = adpcm_final ps (adpcm_state s) \<and> adpcm_serial_num s' = adpcm_serial_num s + 1 \<and>
    adpcm_to_pcm_google_v0 (out_buf s') (length ps) = Some (adpcm_samples ps (adpcm_state s))"
proof -
  let ?st = "adpcm_state s"
  obtain x y z zs where pds: "pds = x # y # z # zs"
    using room by (cases pds; cases "tl pds"; cases "tl (tl pds)") auto
  define h0 h1 h2 :: u16 where "h0 = (drop_bit 8 (adpcm_serial_num s) AND 0x00ff) OR (push_bit 8 (adpcm_serial_num s) AND 0xff00)"
    and "h1 = ADPCM_ANDROID_ID OR (of_int (predict s) AND 0xff00)"
    and "h2 = (of_int (predict s) AND 0x00ff) OR (push_bit 8 (of_int (predict_idx s)) AND 0xff00)"
  let ?s = "s\<lparr>out_buf := h0 # h1 # h2 # zs, out_pd := 3, adpcm_serial_num := adpcm_serial_num s + 1\<rparr>"
  have call: "mic_to_adpcm_split_google ps pds GOOGLE_AUDIO_V0P4 s = encode_loop True 0 ps 0 ?s"
    by (simp add: mic_to_adpcm_split_google_def put_word_def put_byte_def numeral_2_eq_2 numeral_3_eq_3 pds
      h0_def [symmetric] h1_def [symmetric] h2_def [symmetric])
  have st: "adpcm_state ?s = ?st"
    by (simp add: adpcm_state_def)
  obtain s' w ws where s': "encode_loop True 0 ps 0 ?s = Some s'" "adpcm_state s' = adpcm_final ps (adpcm_state ?s)"
      "out_buf s' = take (out_pd ?s) (out_buf ?s) @ packet True ps (adpcm_state ?s) @ w # ws" "adpcm_serial_num s' = adpcm_serial_num ?s"
    by (rule encode_packet [OF len, of ?s True]) (use ok room in \<open>simp_all add: st pds\<close>)
  have buf: "out_buf s' = [h0, h1, h2] @ packet True ps ?st @ w # ws"
    using s'(3) unfolding st by (simp add: numeral_3_eq_3)
  obtain c where c: "next_code True (out_buf s') (2 * length [h0, h1, h2]) = Some c"
      "decode_loop True (out_buf s') (length ps) 0 (2 * length [h0, h1, h2] + 1) c ?st = Some (adpcm_samples ps ?st, adpcm_final ps ?st)"
    using len ok buf by (rule decode_packet)
  have w: "get_byte (out_buf s') 1 = Some h1" "get_byte (out_buf s') 2 = Some h2"
    unfolding buf get_byte_def by simp_all
  have hd: "(sint ((h1 AND 0xff00) OR (h2 AND 0x00ff)), sint (ucast (drop_bit 8 (h2 AND 0xff00)) :: u8)) = ?st"
    using header_words(3,4) [OF ok [unfolded adpcm_state_def]] unfolding h1_def h2_def adpcm_state_def by simp
  have "adpcm_to_pcm_google_v0 (out_buf s') (length ps) = Some (adpcm_samples ps ?st)"
    unfolding adpcm_to_pcm_google_v0_def w Option.bind.simps hd using c by simp
  then show ?thesis
    using call s'(1,2,4) by (simp add: st)
qed

theorem adpcm_google_roundtrip_witness:
  "\<exists>s'. mic_to_adpcm_split_google [5, 300, -20, 7] (replicate 6 0) GOOGLE_AUDIO_V0P4
        \<lparr>predict = -9, predict_idx = 3, adpcm_serial_num = 0x1ff, out_buf = [], out_pd = 0\<rparr> = Some s' \<and>
    adpcm_state s' = adpcm_final [5, 300, -20, 7] (-9, 3) \<and> adpcm_serial_num s' = 0x200 \<and>
    adpcm_to_pcm_google_v0 (out_buf s') (length [5, 300, -20, 7 :: s16]) = Some (adpcm_samples [5, 300, -20, 7] (-9, 3))"
  using adpcm_google_roundtrip [of "\<lparr>predict = -9, predict_idx = 3, adpcm_serial_num = 0x1ff, out_buf = [], out_pd = 0\<rparr>"
    "[5, 300, -20, 7]" "replicate 6 0"]
  by (simp add: adpcm_state_def adpcm_ok_def)

text \<open>The profiles without a header keep the state on both sides: a session of frames, each a list of
  samples and the buffer it is encoded to and decoded from.\<close>

definition encode_frame :: "bool \<Rightarrow> s16 list \<Rightarrow> u16 list \<Rightarrow> adpcm \<Rightarrow> adpcm option" where
  "encode_frame google ps pds s =
     (if google then mic_to_adpcm_split_google ps pds GOOGLE_AUDIO_V1P0 s else mic_to_adpcm_split_hid ps pds s)"

definition decode_frame :: "bool \<Rightarrow> u16 list \<Rightarrow> nat \<Rightarrow> int \<times> int \<Rightarrow> (s16 list \<times> int \<times> int) option" where
  "decode_frame google ps len st = (if google then adpcm_to_pcm_google_v1 ps len st else adpcm_to_pcm_hid ps len st)"

fun voice_session :: "bool \<Rightarrow> (s16 list \<times> u16 list) list \<Rightarrow> adpcm \<Rightarrow> int \<times> int \<Rightarrow> (s16 list \<times> adpcm \<times> int \<times> int) option" where
  "voice_session google [] s st = Some ([], s, st)"
| "voice_session google ((ps, pds) # fs) s st =
     do { s \<leftarrow> encode_frame google ps pds s;
          (pd, st) \<leftarrow> decode_frame google (out_buf s) (length ps) st;
          (pds', s, st) \<leftarrow> voice_session google fs s st;
          Some (pd @ pds', s, st) }"

definition frames_ok :: "(s16 list \<times> u16 list) list \<Rightarrow> bool" where
  "frames_ok fs \<longleftrightarrow> list_all (\<lambda>(ps, pds). length ps mod 4 = 0 \<and> length ps div 4 < length pds) fs"

lemma frame_transfer:
  assumes len: "length ps mod 4 = 0" "length ps div 4 < length pds" and ok: "adpcm_ok (adpcm_state s)"
  obtains s' where "encode_frame google ps pds s = Some s'" "adpcm_state s' = adpcm_final ps (adpcm_state s)"
    "decode_frame google (out_buf s') (length ps) (adpcm_state s) = Some (adpcm_samples ps (adpcm_state s), adpcm_state s')"
proof -
  let ?st = "adpcm_state s"
  define s0 where "s0 = (if google then s\<lparr>out_buf := pds, out_pd := 0, adpcm_serial_num := adpcm_serial_num s + 1\<rparr>
    else s\<lparr>out_buf := pds, out_pd := 0\<rparr>)"
  have s0: "encode_frame google ps pds s = encode_loop True 0 ps 0 s0" "adpcm_state s0 = ?st" "out_pd s0 = 0" "out_buf s0 = pds"
    by (simp_all add: s0_def encode_frame_def mic_to_adpcm_split_google_def mic_to_adpcm_split_hid_def adpcm_state_def
      GOOGLE_AUDIO_V1P0_def GOOGLE_AUDIO_V0P4_def)
  obtain s' w ws where s': "encode_loop True 0 ps 0 s0 = Some s'" "adpcm_state s' = adpcm_final ps (adpcm_state s0)"
      "out_buf s' = take (out_pd s0) (out_buf s0) @ packet True ps (adpcm_state s0) @ w # ws"
    by (rule encode_packet [OF len(1), of s0 True]) (use ok len(2) in \<open>simp_all add: s0\<close>)
  have buf: "out_buf s' = [] @ packet True ps ?st @ w # ws"
    using s'(3) by (simp add: s0)
  obtain c where c: "next_code True (out_buf s') (2 * length ([] :: u16 list)) = Some c"
      "decode_loop True (out_buf s') (length ps) 0 (2 * length ([] :: u16 list) + 1) c ?st = Some (adpcm_samples ps ?st, adpcm_final ps ?st)"
    using len(1) ok buf by (rule decode_packet)
  have "decode_frame google (out_buf s') (length ps) ?st = Some (adpcm_samples ps ?st, adpcm_state s')"
    using c s'(2) by (simp add: decode_frame_def adpcm_to_pcm_google_v1_def adpcm_to_pcm_hid_def s0)
  then show ?thesis
    using that [of s'] s' by (simp add: s0)
qed

lemma voice_session_spec:
  "frames_ok fs \<Longrightarrow> adpcm_ok (adpcm_state s) \<Longrightarrow> \<exists>s'. voice_session google fs s (adpcm_state s) =
    Some (adpcm_samples (concat (map fst fs)) (adpcm_state s), s', adpcm_state s') \<and> adpcm_ok (adpcm_state s')"
proof (induction fs arbitrary: s)
  case Nil
  then show ?case
    by (simp add: adpcm_samples_def)
next
  case (Cons f fs)
  obtain ps pds where f: "f = (ps, pds)"
    by (cases f)
  have ps: "length ps mod 4 = 0" "length ps div 4 < length pds" and fs: "frames_ok fs"
    using Cons.prems(1) by (simp_all add: f frames_ok_def)
  obtain s1 where s1: "encode_frame google ps pds s = Some s1" "adpcm_state s1 = adpcm_final ps (adpcm_state s)"
      "decode_frame google (out_buf s1) (length ps) (adpcm_state s) = Some (adpcm_samples ps (adpcm_state s), adpcm_state s1)"
    using ps Cons.prems(2) by (rule frame_transfer)
  have ok1: "adpcm_ok (adpcm_state s1)"
    using adpcm_final_ok [OF Cons.prems(2)] s1(2) by simp
  from Cons.IH [OF fs ok1] obtain s' where
    "voice_session google fs s1 (adpcm_state s1) = Some (adpcm_samples (concat (map fst fs)) (adpcm_state s1), s', adpcm_state s')"
    "adpcm_ok (adpcm_state s')"
    by blast
  then show ?case
    using s1 by (simp add: f adpcm_samples_append [OF Cons.prems(2)])
qed

text \<open>C20: In the profiles without a header (HID, and Google from version 1.0 on) encoder and decoder stay in step
  for as long as no frame is lost: started in the same state, a session of any number of frames, of
  any lengths that fill whole words, gives the samples the encoder's predictor took, and leaves both
  sides in one state again.\<close>

theorem adpcm_stream_in_step:
  assumes "frames_ok fs" and "adpcm_ok (adpcm_state s)"
  shows "\<exists>s'. voice_session google fs s (adpcm_state s) =
    Some (adpcm_samples (concat (map fst fs)) (adpcm_state s), s', adpcm_state s') \<and> adpcm_ok (adpcm_state s')"
  using assms by (rule voice_session_spec)

theorem adpcm_stream_in_step_witness:
  "\<exists>s'. voice_session True [([5, 300, -20, 7], [0, 0, 0]), ([1000, 2000, 3000, 4000], [0, 0])]
      \<lparr>predict = 0, predict_idx = 0, adpcm_serial_num = 0, out_buf = [], out_pd = 0\<rparr> (0, 0) =
    Some (adpcm_samples [5, 300, -20, 7, 1000, 2000, 3000, 4000] (0, 0), s', adpcm_state s') \<and> adpcm_ok (adpcm_state s')"
  using adpcm_stream_in_step [of "[([5, 300, -20, 7], [0, 0, 0]), ([1000, 2000, 3000, 4000], [0, 0])]"
    "\<lparr>predict = 0, predict_idx = 0, adpcm_serial_num = 0, out_buf = [], out_pd = 0\<rparr>" True]
  by (simp add: frames_ok_def adpcm_state_def adpcm_ok_def)

text \<open>The decoder reads one byte more than the packet holds: after the last sample it fetches the next byte
  of codes, so on a buffer that ends with the packet the read is outside of it, whatever the packet
  contains.\<close>

theorem adpcm_decoder_overread:
  assumes "0 < n" and "length ps = 2 + n"
  shows "adpcm_to_pcm_telink ps (4 * n) = None"
proof -
  have "decode_loop False ps (2 * (2 * n)) 0 5 c st = None" for c st
    by (rule decode_overread) (use assms in simp_all)
  then show ?thesis
    unfolding adpcm_to_pcm_telink_def by (auto split: bind_splits)
qed

theorem adpcm_decoder_overread_witness:
  "adpcm_to_pcm_telink (replicate 64 0) (4 * 62) = None"
  using adpcm_decoder_overread [of 62 "replicate 64 0"] by simp

end
