(* ===== verification/Soft_Timer.thy ===== *)
theory Soft_Timer
  imports C_Prelude
begin

text \<open>
  The software timers of the applications, \<^verbatim>\<open>vendor/common/blt_soft_timer.c\<close>: a table of
  at most four timers, kept in the order in which they expire, whose first entry also decides when the
  chip wakes up.  A callback is a number (\<open>None\<close> for the null pointer); what a callback does is a
  parameter of \<open>blt_soft_timer_process\<close>, a function of the table and of the rest of the program, since
  callbacks add and delete timers.  \<open>wakeup\<close> holds the arguments of the last call of
  \<open>blc_pm_setAppWakeupLowPower\<close>, a function of the controller library.  The clock runs with 16 ticks
  in a microsecond and wraps at 32 bits.
\<close>

section \<open>Data\<close>

definition SYSTEM_TIMER_TICK_1US :: u32 where "SYSTEM_TIMER_TICK_1US = 16"
definition SYSTEM_TIMER_TICK_1MS :: u32 where "SYSTEM_TIMER_TICK_1MS = 16000"
definition SYSTEM_TIMER_TICK_1S :: u32 where "SYSTEM_TIMER_TICK_1S = 16000000"
definition MAX_TIMER_NUM :: u8 where "MAX_TIMER_NUM = 4"

definition TIME_COMPARE_BIG :: "u32 \<Rightarrow> u32 \<Rightarrow> bool" where
  "TIME_COMPARE_BIG t1 t2 \<longleftrightarrow> t1 - t2 < push_bit 30 1"

definition BLT_TIMER_SAFE_MARGIN_PRE :: u32 where "BLT_TIMER_SAFE_MARGIN_PRE = push_bit 7 SYSTEM_TIMER_TICK_1US"
definition BLT_TIMER_SAFE_MARGIN_POST :: u32 where "BLT_TIMER_SAFE_MARGIN_POST = push_bit 2 SYSTEM_TIMER_TICK_1S"

definition blt_is_timer_expired :: "u32 \<Rightarrow> u32 \<Rightarrow> bool" where
  "blt_is_timer_expired t now \<longleftrightarrow> now + BLT_TIMER_SAFE_MARGIN_PRE - t < BLT_TIMER_SAFE_MARGIN_POST"

record blt_time_event =
  cb :: "nat option"
  evt_t :: u32
  interval :: u32

record blt_soft_timer =
  timer :: "blt_time_event list"
  currentNum :: u8
  wakeup :: "u32 \<times> bool"

definition setAppWakeup :: "u32 \<Rightarrow> bool \<Rightarrow> blt_soft_timer \<Rightarrow> blt_soft_timer" where
  "setAppWakeup t en s = s\<lparr>wakeup := (t, en)\<rparr>"

section \<open>Operations\<close>

text \<open>The bubble sort; the inner loop makes \<open>m\<close> comparisons from \<open>j\<close> on.\<close>

fun sort_inner :: "nat \<Rightarrow> nat \<Rightarrow> blt_time_event list \<Rightarrow> blt_time_event list option" where
  "sort_inner 0 j ts = Some ts"
| "sort_inner (Suc m) j ts =
     do { a \<leftarrow> get_byte ts j;
          b \<leftarrow> get_byte ts (j + 1);
          ts \<leftarrow> (if TIME_COMPARE_BIG (evt_t a) (evt_t b)
                then do { ts \<leftarrow> put_byte ts j b; put_byte ts (j + 1) a } else Some ts);
          sort_inner m (j + 1) ts }"

fun sort_outer :: "nat \<Rightarrow> nat \<Rightarrow> nat \<Rightarrow> blt_time_event list \<Rightarrow> blt_time_event list option" where
  "sort_outer 0 i n ts = Some ts"
| "sort_outer (Suc m) i n ts = do { ts \<leftarrow> sort_inner (n - i - 1) 0 ts; sort_outer m (i + 1) n ts }"

definition blt_soft_timer_sort :: "blt_soft_timer \<Rightarrow> (bool \<times> blt_soft_timer) option" where
  "blt_soft_timer_sort s =
     (if currentNum s < 1 \<or> MAX_TIMER_NUM < currentNum s then Some (False, s)
      else let n = unat (currentNum s)
           in do { ts \<leftarrow> sort_outer (n - 1) 0 n (timer s); Some (True, s\<lparr>timer := ts\<rparr>) })"

definition blt_soft_timer_add :: "nat option \<Rightarrow> u32 \<Rightarrow> u32 \<Rightarrow> blt_soft_timer \<Rightarrow> (bool \<times> blt_soft_timer) option" where
  "blt_soft_timer_add func interval_us now s =
     (if MAX_TIMER_NUM \<le> currentNum s then Some (False, s)
      else let iv = interval_us * SYSTEM_TIMER_TICK_1US
           in do { ts \<leftarrow> put_byte (timer s) (unat (currentNum s)) \<lparr>cb = func, evt_t = now + iv, interval = iv\<rparr>;
                   (r, s) \<leftarrow> blt_soft_timer_sort (s\<lparr>timer := ts, currentNum := currentNum s + 1\<rparr>);
                   e \<leftarrow> get_byte (timer s) 0;
                   Some (True, setAppWakeup (evt_t e) True s) })"

fun delete_move :: "nat \<Rightarrow> nat \<Rightarrow> blt_time_event list \<Rightarrow> blt_time_event list option" where
  "delete_move 0 i ts = Some ts"
| "delete_move (Suc m) i ts = do { e \<leftarrow> get_byte ts (i + 1); ts \<leftarrow> put_byte ts i e; delete_move m (i + 1) ts }"

definition blt_soft_timer_delete_by_index :: "nat \<Rightarrow> blt_soft_timer \<Rightarrow> (bool \<times> blt_soft_timer) option" where
  "blt_soft_timer_delete_by_index index s =
     (if unat (currentNum s) \<le> index then Some (False, s)
      else do { ts \<leftarrow> delete_move (unat (currentNum s) - 1 - index) index (timer s);
                Some (True, s\<lparr>timer := ts, currentNum := currentNum s - 1\<rparr>) })"

definition blt_soft_timer_delete :: "nat option \<Rightarrow> u32 \<Rightarrow> blt_soft_timer \<Rightarrow> (bool \<times> blt_soft_timer) option" where
  "blt_soft_timer_delete func now s =
     do { f \<leftarrow> first_index (\<lambda>e. cb e = func) (unat (currentNum s)) 0 (timer s);
          case f of None \<Rightarrow> Some (False, s)
          | Some i \<Rightarrow>
              do { (r, s) \<leftarrow> blt_soft_timer_delete_by_index i s;
                   if currentNum s \<noteq> 0 then
                     (if i = 0 then
                        do { e \<leftarrow> get_byte (timer s) 0;
                             Some (True, if evt_t e - now < 5000 * SYSTEM_TIMER_TICK_1MS then setAppWakeup (evt_t e) True s
                                         else setAppWakeup 0 False s) }
                      else Some (True, s))
                   else Some (True, setAppWakeup 0 False s) } }"

lemma index_measure: "i < unat (n :: u8) \<Longrightarrow> 256 - Suc i < 256 - i"
  using unat_bound(1) [of n] by simp

text \<open>The loop over the table.  \<open>call\<close> runs a callback, which returns its result and may change the table
  and the rest \<open>w\<close> of the program; \<open>currentNum\<close> is read anew in every round.\<close>

function process_loop ::
  "(nat \<Rightarrow> blt_soft_timer \<Rightarrow> 'w \<Rightarrow> (int \<times> blt_soft_timer \<times> 'w) option) \<Rightarrow> u32 \<Rightarrow> nat \<Rightarrow> bool \<Rightarrow> blt_soft_timer \<Rightarrow> 'w
    \<Rightarrow> (bool \<times> blt_soft_timer \<times> 'w) option" where
  "process_loop call now i change_flg s w =
     (if i < unat (currentNum s) then
        do { e \<leftarrow> get_byte (timer s) i;
             (change_flg, s, w) \<leftarrow>
               (if blt_is_timer_expired (evt_t e) now then
                  (case cb e of None \<Rightarrow> Some (change_flg, s, w)
                   | Some f \<Rightarrow>
                       do { (result, s, w) \<leftarrow> call f s w;
                            if result < 0 then
                              do { (r, s) \<leftarrow> blt_soft_timer_delete_by_index i s; Some (change_flg, s, w) }
                            else
                              do { e \<leftarrow> get_byte (timer s) i;
                                   let iv = (if result = 0 then interval e else of_int result * SYSTEM_TIMER_TICK_1US);
                                   ts \<leftarrow> put_byte (timer s) i (e\<lparr>interval := iv, evt_t := now + iv\<rparr>);
                                   Some (True, s\<lparr>timer := ts\<rparr>, w) } })
                else Some (change_flg, s, w));
             process_loop call now (i + 1) change_flg s w }
      else Some (change_flg, s, w))"
  by pat_completeness auto
termination
  by (relation "measure (\<lambda>(call, now, i, change_flg, s, w). 256 - i)") (auto dest: index_measure)

declare process_loop.simps [simp del]

definition blt_soft_timer_process ::
  "(nat \<Rightarrow> blt_soft_timer \<Rightarrow> 'w \<Rightarrow> (int \<times> blt_soft_timer \<times> 'w) option) \<Rightarrow> u32 \<Rightarrow> blt_soft_timer \<Rightarrow> 'w \<Rightarrow> (blt_soft_timer \<times> 'w) option" where
  "blt_soft_timer_process call now s w =
     (if currentNum s = 0 then Some (setAppWakeup 0 False s, w)
      else do { e \<leftarrow> get_byte (timer s) 0;
                if \<not> blt_is_timer_expired (evt_t e) now then Some (s, w)
                else do { (change_flg, s, w) \<leftarrow> process_loop call now 0 False s w;
                          if currentNum s \<noteq> 0 then
                            do { (r, s) \<leftarrow> (if change_flg then blt_soft_timer_sort s else Some (False, s));
                                 e \<leftarrow> get_byte (timer s) 0;
                                 Some (if evt_t e - now < 3000 * SYSTEM_TIMER_TICK_1MS then setAppWakeup (evt_t e) True s
                                       else setAppWakeup 0 False s, w) }
                          else Some (setAppWakeup 0 False s, w) } })"

end
