(* ===== verification/Soft_Timer_Sort.thy ===== *)
theory Soft_Timer_Sort
  imports Soft_Timer "HOL-Library.Multiset"
begin

text \<open>
  The table of the software timers: the bubble sort orders it by the time that is left until each timer
  expires, as long as all times lie within a quarter of the range of the clock; additions and
  deletions keep it inside its four entries.  \<open>live\<close> is the used part of the
  table, \<open>key base\<close> the time of a timer counted from a moment \<open>base\<close>.
\<close>

definition live :: "blt_soft_timer \<Rightarrow> blt_time_event list" where
  "live s = take (unat (currentNum s)) (timer s)"

definition timer_wf :: "blt_soft_timer \<Rightarrow> bool" where
  "timer_wf s \<longleftrightarrow> length (timer s) = unat MAX_TIMER_NUM \<and> currentNum s \<le> MAX_TIMER_NUM"

definition key :: "u32 \<Rightarrow> blt_time_event \<Rightarrow> nat" where
  "key base e = unat (evt_t e - base)"

definition near :: "u32 \<Rightarrow> blt_time_event \<Rightarrow> bool" where
  "near base e \<longleftrightarrow> key base e < 2 ^ 30"

section \<open>The sort\<close>

lemma word_diff_less_iff:
  fixes x y :: u32
  assumes "unat x < 2 ^ 30" and "unat y < 2 ^ 30"
  shows "x - y < push_bit 30 1 \<longleftrightarrow> unat y \<le> unat x"
  using assms unfolding word_less_nat_alt unat_sub_if_size by (simp add: push_bit_eq_mult word_size) linarith

lemma TIME_COMPARE_BIG_near:
  assumes "near base a" and "near base b"
  shows "TIME_COMPARE_BIG (evt_t a) (evt_t b) \<longleftrightarrow> key base b \<le> key base a"
proof -
  have "evt_t a - evt_t b = (evt_t a - base) - (evt_t b - base)"
    by simp
  then show ?thesis
    unfolding TIME_COMPARE_BIG_def key_def using word_diff_less_iff assms by (simp only: near_def key_def)
qed

fun pass :: "blt_time_event list \<Rightarrow> blt_time_event list" where
  "pass (a # b # xs) = (if TIME_COMPARE_BIG (evt_t a) (evt_t b) then b # pass (a # xs) else a # pass (b # xs))"
| "pass xs = xs"

lemma mset_pass: "mset (pass xs) = mset xs"
  by (induction xs rule: pass.induct) auto

lemma length_pass: "length (pass xs) = length xs"
  by (metis mset_pass size_mset)

lemma sort_inner_pass:
  "length xs = m + 1 \<Longrightarrow> sort_inner m (length pre) (pre @ xs @ post) = Some (pre @ pass xs @ post)"
proof (induction xs arbitrary: m pre rule: pass.induct)
  case (1 a b xs)
  then obtain k where m: "m = Suc k" "length xs = k"
    by (cases m) simp_all
  let ?big = "TIME_COMPARE_BIG (evt_t a) (evt_t b)"
  have "sort_inner m (length pre) (pre @ (a # b # xs) @ post) =
      sort_inner k (length pre + 1) (if ?big then pre @ b # a # xs @ post else pre @ a # b # xs @ post)"
    by (simp add: m(1) get_byte_def put_byte_def nth_append list_update_append)
  then show ?case
    using 1(1) [of k "pre @ [b]"] 1(2) [of k "pre @ [a]"] m(2) by (cases ?big) simp_all
qed simp_all

lemma pass_last:
  assumes "xs \<noteq> []" and "\<forall>e\<in>set xs. near base e"
  shows "\<exists>ys z. pass xs = ys @ [z] \<and> (\<forall>y\<in>set xs. key base y \<le> key base z)"
  using assms
proof (induction xs rule: pass.induct)
  case (1 a b xs)
  have big: "TIME_COMPARE_BIG (evt_t a) (evt_t b) \<longleftrightarrow> key base b \<le> key base a"
    using 1(4) by (simp add: TIME_COMPARE_BIG_near)
  show ?case
  proof (cases "TIME_COMPARE_BIG (evt_t a) (evt_t b)")
    case True
    with 1(1,4) obtain ys z where "pass (a # xs) = ys @ [z]" "\<forall>y\<in>set (a # xs). key base y \<le> key base z"
      by auto
    then show ?thesis
      using True big by (intro exI [of _ "b # ys"] exI [of _ z]) auto
  next
    case False
    with 1(2,4) obtain ys z where "pass (b # xs) = ys @ [z]" "\<forall>y\<in>set (b # xs). key base y \<le> key base z"
      by auto
    then show ?thesis
      using False big by (intro exI [of _ "a # ys"] exI [of _ z]) auto
  qed
qed auto

text \<open>After \<open>length zs\<close> rounds the largest entries \<open>zs\<close> are in place.\<close>

definition placed :: "blt_time_event list \<Rightarrow> blt_time_event list \<Rightarrow> bool" where
  "placed ys zs \<longleftrightarrow> (\<forall>base. (\<forall>e\<in>set ys \<union> set zs. near base e) \<longrightarrow>
     sorted (map (key base) zs) \<and> (\<forall>y\<in>set ys. \<forall>z\<in>set zs. key base y \<le> key base z))"

lemma placed_pass:
  assumes "placed ys zs" and "pass ys = us @ [u]"
  shows "placed us (u # zs)"
  unfolding placed_def
proof (intro allI impI conjI ballI)
  fix base
  assume n: "\<forall>e\<in>set us \<union> set (u # zs). near base e"
  have ys: "set ys = insert u (set us)"
    using arg_cong [OF assms(2), of mset] by (metis mset_pass set_mset_mset set_append list.simps(15) list.set(1) Un_insert_right sup_bot_right)
  then have "ys \<noteq> []" "\<forall>e\<in>set ys. near base e"
    using n by auto
  from pass_last [OF this] have max: "\<forall>y\<in>set ys. key base y \<le> key base u"
    by (auto simp: assms(2))
  have "\<forall>e\<in>set ys \<union> set zs. near base e"
    using n ys by auto
  then have p: "sorted (map (key base) zs)" "\<forall>y\<in>set ys. \<forall>z\<in>set zs. key base y \<le> key base z"
    using assms(1) by (simp_all add: placed_def)
  show "sorted (map (key base) (u # zs))"
    using p ys by simp
  fix y z
  assume "y \<in> set us" "z \<in> set (u # zs)"
  then show "key base y \<le> key base z"
    using p(2) max ys by auto
qed

lemma sort_outer_spec:
  assumes "length ys = m + 1" and "placed ys zs"
  shows "\<exists>rs. sort_outer m (length zs) (length ys + length zs) (ys @ zs @ post) = Some (rs @ post) \<and>
    mset rs = mset (ys @ zs) \<and> placed [] rs"
  using assms
proof (induction m arbitrary: ys zs)
  case 0
  then obtain y where "ys = [y]"
    by (cases ys) auto
  then show ?case
    using 0 by (intro exI [of _ "ys @ zs"]) (auto simp: placed_def)
next
  case (Suc m)
  have "pass ys \<noteq> []"
    using Suc.prems(1) length_pass [of ys] by auto
  then obtain us u where u: "pass ys = us @ [u]"
    by (metis rev_exhaust)
  then have len: "length us = m + 1" "length ys = length us + 1"
    using Suc.prems(1) length_pass [of ys] by simp_all
  have "sort_inner (length ys + length zs - length zs - 1) 0 (ys @ zs @ post) = Some (us @ (u # zs) @ post)"
    using sort_inner_pass [of ys "length us" "[]" "zs @ post"] len(2) u by simp
  moreover obtain rs where "sort_outer m (length (u # zs)) (length us + length (u # zs)) (us @ (u # zs) @ post) = Some (rs @ post)"
      "mset rs = mset (us @ (u # zs))" "placed [] rs"
    using Suc.IH [OF len(1) placed_pass [OF Suc.prems(2) u]] by blast
  moreover have "mset (us @ (u # zs)) = mset (ys @ zs)"
    using arg_cong [OF u, of mset] by (simp add: mset_pass)
  ultimately show ?case
    using len(2) by (intro exI [of _ rs]) simp
qed

section \<open>The operations\<close>

lemma timer_wf_len: "timer_wf s \<Longrightarrow> length (timer s) = 4 \<and> unat (currentNum s) \<le> 4 \<and> length (live s) = unat (currentNum s)"
  by (auto simp: timer_wf_def live_def MAX_TIMER_NUM_def word_le_nat_alt)

lemma timer_split: "timer s = live s @ drop (unat (currentNum s)) (timer s)"
  by (simp add: live_def)

lemma timer_sort_spec:
  assumes "timer_wf s" and "currentNum s \<noteq> 0"
  shows "\<exists>rs. blt_soft_timer_sort s = Some (True, s\<lparr>timer := rs @ drop (unat (currentNum s)) (timer s)\<rparr>) \<and>
    mset rs = mset (live s) \<and> placed [] rs"
proof -
  let ?n = "unat (currentNum s)"
  have n: "0 < ?n" "length (live s) = ?n"
    using assms timer_wf_len by (auto simp: unat_gt_0)
  then have guard: "\<not> (currentNum s < 1 \<or> MAX_TIMER_NUM < currentNum s)"
    using assms by (simp add: timer_wf_def word_less_nat_alt not_less word_le_nat_alt)
  have "placed (live s) []"
    by (simp add: placed_def)
  then obtain rs where "sort_outer (?n - 1) 0 ?n (live s @ drop ?n (timer s)) = Some (rs @ drop ?n (timer s))"
      "mset rs = mset (live s)" "placed [] rs"
    using sort_outer_spec [of "live s" "?n - 1" "[]" "drop ?n (timer s)"] n by auto
  then show ?thesis
    unfolding blt_soft_timer_sort_def if_not_P [OF guard] Let_def by (intro exI [of _ rs]) (simp flip: timer_split)
qed

lemma live_append: "length rs = unat (currentNum s) \<Longrightarrow> live (s\<lparr>timer := rs @ ts\<rparr>) = rs"
  by (simp add: live_def)

lemma timer_sort_live:
  assumes "timer_wf s" and "currentNum s \<noteq> 0"
  obtains s' where "blt_soft_timer_sort s = Some (True, s')" "timer_wf s'" "mset (live s') = mset (live s)" "placed [] (live s')"
    "currentNum s' = currentNum s" "wakeup s' = wakeup s"
proof -
  let ?n = "unat (currentNum s)"
  obtain rs where rs: "blt_soft_timer_sort s = Some (True, s\<lparr>timer := rs @ drop ?n (timer s)\<rparr>)"
      "mset rs = mset (live s)" "placed [] rs"
    using timer_sort_spec [OF assms] by blast
  have "length rs = ?n"
    using rs(2) timer_wf_len [OF assms(1)] by (metis size_mset)
  then show ?thesis
    using that [OF rs(1)] rs(2,3) assms(1) by (simp add: live_append) (simp add: timer_wf_def word_le_nat_alt MAX_TIMER_NUM_def)
qed

lemma timer_add_full: "MAX_TIMER_NUM \<le> currentNum s \<Longrightarrow> blt_soft_timer_add func us now s = Some (False, s)"
  by (simp add: blt_soft_timer_add_def)

lemma timer_add_live:
  assumes "timer_wf s" and "currentNum s < MAX_TIMER_NUM"
  obtains s' where "blt_soft_timer_add func us now s = Some (True, s')" "timer_wf s'" "placed [] (live s')"
    "mset (live s') = add_mset \<lparr>cb = func, evt_t = now + us * SYSTEM_TIMER_TICK_1US, interval = us * SYSTEM_TIMER_TICK_1US\<rparr> (mset (live s))"
    "wakeup s' = (evt_t (hd (live s')), True)"
proof -
  let ?iv = "us * SYSTEM_TIMER_TICK_1US"
  let ?e = "\<lparr>cb = func, evt_t = now + ?iv, interval = ?iv\<rparr>"
  let ?n = "unat (currentNum s)"
  let ?s = "s\<lparr>timer := (timer s)[?n := ?e], currentNum := currentNum s + 1\<rparr>"
  have n: "?n < 4" "length (timer s) = 4"
    using assms timer_wf_len by (auto simp: word_less_nat_alt MAX_TIMER_NUM_def)
  then have n1: "unat (currentNum s + 1) = ?n + 1"
    by (simp add: unat_word_ariths)
  then have wf: "timer_wf ?s" "currentNum ?s \<noteq> 0" and l: "live ?s = live s @ [?e]"
    using n take_Suc_update [of ?n "timer s" ?e] unat_eq_zero [of "currentNum s + 1"]
    by (auto simp: timer_wf_def word_le_nat_alt MAX_TIMER_NUM_def live_def)
  obtain s' where s': "blt_soft_timer_sort ?s = Some (True, s')" "timer_wf s'" "mset (live s') = mset (live ?s)" "placed [] (live s')"
      "currentNum s' = currentNum ?s"
    using wf by (rule timer_sort_live)
  have "live s' \<noteq> []"
    using s'(3) l by auto
  then have hd: "get_byte (timer s') 0 = Some (hd (live s'))"
    using timer_wf_len [OF s'(2)] by (simp add: get_byte_def live_def hd_conv_nth)
  have "blt_soft_timer_add func us now s = Some (True, setAppWakeup (evt_t (hd (live s'))) True s')"
    using assms(2) n s'(1) hd by (simp add: blt_soft_timer_add_def Let_def put_byte_Some)
  then show ?thesis
    using that s' l by (simp add: setAppWakeup_def timer_wf_def live_def)
qed

lemma delete_move_spec:
  "i + m < length ts \<Longrightarrow> delete_move m i ts = Some (take i ts @ take m (drop (i + 1) ts) @ drop (i + m) ts)"
proof (induction m arbitrary: i ts)
  case (Suc m)
  let ?ts = "ts[i := ts ! (i + 1)]"
  have i: "i < length ts" "i + 1 < length ts"
    using Suc.prems by simp_all
  have "delete_move (Suc m) i ts = delete_move m (i + 1) ?ts"
    using i by (simp add: get_byte_def put_byte_def)
  also have "\<dots> = Some (take (i + 1) ?ts @ take m (drop (i + 2) ?ts) @ drop (i + 1 + m) ?ts)"
    using Suc.IH [of "i + 1" ?ts] Suc.prems by (simp add: numeral_2_eq_2)
  also have "take (i + 1) ?ts = take i ts @ [ts ! (i + 1)]"
    using take_Suc_update [OF i(1)] by simp
  also have "drop (i + 2) ?ts = drop (i + 2) ts"
    by simp
  also have "drop (i + 1 + m) ?ts = drop (i + Suc m) ts"
    by simp
  also have "(take i ts @ [ts ! (i + 1)]) @ take m (drop (i + 2) ts) @ drop (i + Suc m) ts =
      take i ts @ take (Suc m) (drop (i + 1) ts) @ drop (i + Suc m) ts"
    using Cons_nth_drop_Suc [OF i(2), symmetric] by (simp add: numeral_2_eq_2)
  finally show ?case .
qed simp

lemma timer_delete_live:
  assumes "timer_wf s" and "i < length (live s)"
  obtains s' where "blt_soft_timer_delete_by_index i s = Some (True, s')" "timer_wf s'"
    "live s' = take i (live s) @ drop (i + 1) (live s)" "wakeup s' = wakeup s" "unat (currentNum s') = unat (currentNum s) - 1"
proof -
  let ?n = "unat (currentNum s)"
  have n: "i < ?n" "?n \<le> 4" "length (timer s) = 4"
    using assms timer_wf_len by auto
  have n1: "unat (currentNum s - 1) = ?n - 1"
    using n(1) by (simp add: unat_minus_one unat_gt_0 [symmetric])
  let ?ts = "take i (timer s) @ take (?n - 1 - i) (drop (i + 1) (timer s)) @ drop (?n - 1) (timer s)"
  let ?s = "s\<lparr>timer := ?ts, currentNum := currentNum s - 1\<rparr>"
  have "delete_move (?n - 1 - i) i (timer s) = Some ?ts"
    using delete_move_spec [of i "?n - 1 - i" "timer s"] n by simp
  then have "blt_soft_timer_delete_by_index i s = Some (True, ?s)"
    using n(1) by (simp add: blt_soft_timer_delete_by_index_def)
  moreover have "timer_wf ?s"
    using n n1 by (simp add: timer_wf_def word_le_nat_alt MAX_TIMER_NUM_def)
  moreover have "live ?s = take i (live s) @ drop (i + 1) (live s)"
    using n by (cases "i = ?n - 1") (auto simp: live_def n1 drop_take min_def)
  ultimately show ?thesis
    using that n1 by simp
qed

lemma timer_delete_spec:
  assumes "timer_wf s"
  obtains s' where "timer_wf s'" "blt_soft_timer_delete func now s = Some (\<exists>e\<in>set (live s). cb e = func, s')"
    "\<exists>i \<le> length (live s). (\<forall>k < i. cb (live s ! k) \<noteq> func) \<and> (i < length (live s) \<longrightarrow> cb (live s ! i) = func) \<and>
      live s' = take i (live s) @ drop (i + 1) (live s)"
proof -
  let ?n = "unat (currentNum s)"
  have n: "?n \<le> length (timer s)" "length (live s) = ?n"
    using timer_wf_len [OF assms] by simp_all
  have nth: "live s ! k = timer s ! k" if "k < ?n" for k
    using that by (simp add: live_def)
  obtain r where r: "first_index (\<lambda>e. cb e = func) ?n 0 (timer s) = Some r"
      "case r of None \<Rightarrow> \<forall>k. 0 \<le> k \<and> k < 0 + ?n \<longrightarrow> cb (timer s ! k) \<noteq> func
       | Some j \<Rightarrow> 0 \<le> j \<and> j < 0 + ?n \<and> cb (timer s ! j) = func \<and> (\<forall>k. 0 \<le> k \<and> k < j \<longrightarrow> cb (timer s ! k) \<noteq> func)"
    using first_index_spec [of 0 ?n "timer s" "\<lambda>e. cb e = func"] n by auto
  show ?thesis
  proof (cases r)
    case None
    then have no: "\<forall>k < length (live s). cb (live s ! k) \<noteq> func"
      using r(2) n nth by simp
    then have "\<not> (\<exists>e\<in>set (live s). cb e = func)"
      by (auto simp: in_set_conv_nth)
    then show ?thesis
      using r(1) None assms no
      by (intro that [of s]) (simp_all add: blt_soft_timer_delete_def exI [of _ "length (live s)"])
  next
    case (Some i)
    then have i: "i < length (live s)" "cb (live s ! i) = func" "\<forall>k < i. cb (live s ! k) \<noteq> func"
      using r(2) n nth by auto
    then have ex: "\<exists>e\<in>set (live s). cb e = func"
      by auto
    obtain s1 where s1: "blt_soft_timer_delete_by_index i s = Some (True, s1)" "timer_wf s1"
        "live s1 = take i (live s) @ drop (i + 1) (live s)"
      using assms i(1) by (rule timer_delete_live)
    have "0 < length (timer s1)"
      using timer_wf_len [OF s1(2)] by simp
    then have "\<exists>s2. blt_soft_timer_delete func now s = Some (True, s2) \<and> timer s2 = timer s1 \<and> currentNum s2 = currentNum s1"
      unfolding blt_soft_timer_delete_def using r(1) Some s1(1) by (auto simp: get_byte_def setAppWakeup_def)
    then obtain s2 where s2: "blt_soft_timer_delete func now s = Some (True, s2)" "timer_wf s2" "live s2 = live s1"
      using s1(2) by (auto simp: timer_wf_def live_def)
    show ?thesis
      using ex i s1(3) s2 by (intro that [of s2] exI [of _ i]) simp_all
  qed
qed

end
