(* ===== verification/Soft_Timer_Theorems.thy ===== *)
theory Soft_Timer_Theorems
  imports Soft_Timer_Sort Safe_System "HOL-Library.Sublist"
begin

text \<open>
  Correctness of the software timers: a round over the table compared with a reference round on the
  list of used entries, the order of the table, and safety for callbacks that use the interface of
  the timers themselves (\<open>interpretation timers: safe_system\<close>).
\<close>

section \<open>A round over the table\<close>

text \<open>What a call of \<open>blt_soft_timer_process\<close> does to the table when the callbacks leave it alone: a callback
  that returns a negative number is removed, and the entry behind it is passed over.\<close>

definition calls :: "(nat \<Rightarrow> 'w \<Rightarrow> int \<times> 'w) \<Rightarrow> nat \<Rightarrow> blt_soft_timer \<Rightarrow> 'w \<Rightarrow> (int \<times> blt_soft_timer \<times> 'w) option" where
  "calls act f s w = (case act f w of (r, w') \<Rightarrow> Some (r, s, w'))"

definition resched :: "u32 \<Rightarrow> int \<Rightarrow> blt_time_event \<Rightarrow> blt_time_event" where
  "resched now r e =
     (let iv = (if r = 0 then interval e else of_int r * SYSTEM_TIMER_TICK_1US) in e\<lparr>interval := iv, evt_t := now + iv\<rparr>)"

fun timer_round :: "(nat \<Rightarrow> 'w \<Rightarrow> int \<times> 'w) \<Rightarrow> u32 \<Rightarrow> blt_time_event list \<Rightarrow> 'w \<Rightarrow> bool \<Rightarrow> blt_time_event list \<times> 'w \<times> bool" where
  "timer_round act now [] w flg = ([], w, flg)"
| "timer_round act now (e # es) w flg =
     (case (if blt_is_timer_expired (evt_t e) now then cb e else None) of
        None \<Rightarrow> (case timer_round act now es w flg of (es', r) \<Rightarrow> (e # es', r))
      | Some f \<Rightarrow>
          (case act f w of (res, w') \<Rightarrow>
             if res < 0 then
               (case es of [] \<Rightarrow> ([], w', flg)
                | d # ds \<Rightarrow> (case timer_round act now ds w' flg of (es', r) \<Rightarrow> (d # es', r)))
             else (case timer_round act now es w' True of (es', r) \<Rightarrow> (resched now res e # es', r))))"

lemma process_loop_end: "\<not> i < unat (currentNum s) \<Longrightarrow> process_loop call now i flg s w = Some (flg, s, w)"
  by (subst process_loop.simps) (simp only: if_False)

lemma process_loop_skip:
  assumes "timer_wf s" and "i < length (live s)" and "(if blt_is_timer_expired (evt_t (live s ! i)) now then cb (live s ! i) else None) = None"
  shows "process_loop call now i flg s w = process_loop call now (i + 1) flg s w"
proof -
  have "i < unat (currentNum s)" "get_byte (timer s) i = Some (live s ! i)"
    using assms(1,2) timer_wf_len [OF assms(1)] by (simp_all add: get_byte_def live_def)
  then show ?thesis
    using assms(3) by (subst process_loop.simps) (auto split: if_splits)
qed

lemma process_loop_call:
  assumes "timer_wf s" and "i < length (live s)" and "(if blt_is_timer_expired (evt_t (live s ! i)) now then cb (live s ! i) else None) = Some f"
    and "act f w = (r, w')"
  shows "r < 0 \<Longrightarrow> process_loop (calls act) now i flg s w =
      do { (b, s) \<leftarrow> blt_soft_timer_delete_by_index i s; process_loop (calls act) now (i + 1) flg s w' }"
    and "\<not> r < 0 \<Longrightarrow> process_loop (calls act) now i flg s w =
      process_loop (calls act) now (i + 1) True (s\<lparr>timer := (timer s)[i := resched now r (live s ! i)]\<rparr>) w'"
proof -
  have e: "i < unat (currentNum s)" "get_byte (timer s) i = Some (live s ! i)" "i < length (timer s)"
    using assms(1,2) timer_wf_len [OF assms(1)] by (simp_all add: get_byte_def live_def)
  have f: "blt_is_timer_expired (evt_t (live s ! i)) now" "cb (live s ! i) = Some f"
    using assms(3) by (simp_all split: if_splits)
  show "process_loop (calls act) now i flg s w =
      do { (b, s) \<leftarrow> blt_soft_timer_delete_by_index i s; process_loop (calls act) now (i + 1) flg s w' }" if "r < 0"
    using e f assms(4) that
    by (subst process_loop.simps) (cases "blt_soft_timer_delete_by_index i s"; simp add: calls_def case_prod_beta)
  show "process_loop (calls act) now i flg s w =
      process_loop (calls act) now (i + 1) True (s\<lparr>timer := (timer s)[i := resched now r (live s ! i)]\<rparr>) w'" if "\<not> r < 0"
    using e f assms(4) that
    by (subst process_loop.simps) (simp add: calls_def resched_def Let_def put_byte_Some)
qed

text \<open>The state after the loop, as the reference round describes it.\<close>

definition round_done :: "blt_time_event list \<Rightarrow> blt_time_event list \<times> 'w \<times> bool \<Rightarrow> (bool \<times> blt_soft_timer \<times> 'w) option \<Rightarrow> bool" where
  "round_done pre r res \<longleftrightarrow> (case r of (es, w', flg) \<Rightarrow> \<exists>s'. res = Some (flg, s', w') \<and> timer_wf s' \<and> live s' = pre @ es)"

lemma round_done_Cons: "round_done (pre @ [e]) (es, r) res \<Longrightarrow> round_done pre (e # es, r) res"
  by (simp add: round_done_def case_prod_beta)

lemma round_done_delete:
  assumes wf: "timer_wf s" and i: "i < length (live s)"
    and del: "(if blt_is_timer_expired (evt_t (live s ! i)) now then cb (live s ! i) else None) = Some f" "act f w = (r, w')" "r < 0"
    and IH: "\<And>s1. timer_wf s1 \<Longrightarrow> i + 1 \<le> length (live s1) \<Longrightarrow> length (live s1) - (i + 1) < length (live s) - i \<Longrightarrow>
      round_done (take (i + 1) (live s1)) (timer_round act now (drop (i + 1) (live s1)) w' flg)
        (process_loop (calls act) now (i + 1) flg s1 w')"
  shows "round_done (take i (live s)) (timer_round act now (drop i (live s)) w flg) (process_loop (calls act) now i flg s w)"
proof -
  have d: "drop i (live s) = live s ! i # drop (i + 1) (live s)"
    using i by (simp add: Cons_nth_drop_Suc)
  obtain s1 where s1: "blt_soft_timer_delete_by_index i s = Some (True, s1)" "timer_wf s1"
      "live s1 = take i (live s) @ drop (i + 1) (live s)"
    using wf i by (rule timer_delete_live)
  have loop: "process_loop (calls act) now i flg s w = process_loop (calls act) now (i + 1) flg s1 w'"
    using process_loop_call(1) [where act = act and w = w, OF wf i del] s1(1) by simp
  show ?thesis
  proof (cases "i + 1 < length (live s)")
    case False
    then have l: "live s1 = take i (live s)" "length (live s1) \<le> i" "drop (i + 1) (live s) = []"
      using s1(3) i by simp_all
    have "process_loop (calls act) now (i + 1) flg s1 w' = Some (flg, s1, w')"
      using timer_wf_len [OF s1(2)] l(2) by (intro process_loop_end) simp
    then show ?thesis
      using del s1(2) l unfolding d loop timer_round.simps by (simp add: round_done_def)
  next
    case i1: True
    let ?d = "live s ! (i + 1)"
    have dd: "drop (i + 1) (live s) = ?d # drop (i + 2) (live s)"
      using Cons_nth_drop_Suc [OF i1] by simp
    have l1: "take (i + 1) (live s1) = take i (live s) @ [?d]" "drop (i + 1) (live s1) = drop (i + 2) (live s)"
      "length (live s1) = length (live s) - 1"
      using i i1 unfolding s1(3) dd by simp_all
    have "round_done (take (i + 1) (live s1)) (timer_round act now (drop (i + 1) (live s1)) w' flg)
        (process_loop (calls act) now (i + 1) flg s1 w')"
      using IH [OF s1(2)] i i1 l1(3) by simp
    then show ?thesis
      using del unfolding l1(1,2) d loop timer_round.simps dd
      by (cases "timer_round act now (drop (i + 2) (live s)) w' flg") (simp add: round_done_Cons)
  qed
qed

lemma process_loop_round:
  assumes "timer_wf s" and "i \<le> length (live s)"
  shows "round_done (take i (live s)) (timer_round act now (drop i (live s)) w flg) (process_loop (calls act) now i flg s w)"
  using assms
proof (induction "length (live s) - i" arbitrary: s i w flg rule: less_induct)
  case less
  note wf = less.prems(1)
  show ?case
  proof (cases "i < length (live s)")
    case False
    then have "process_loop (calls act) now i flg s w = Some (flg, s, w)"
      using timer_wf_len [OF wf] by (intro process_loop_end) simp
    then show ?thesis
      using False less.prems by (simp add: round_done_def)
  next
    case i: True
    let ?e = "live s ! i"
    have d: "drop i (live s) = ?e # drop (i + 1) (live s)" and t: "take (i + 1) (live s) = take i (live s) @ [?e]"
      using i by (simp_all add: Cons_nth_drop_Suc take_Suc_conv_app_nth)
    let ?f = "if blt_is_timer_expired (evt_t ?e) now then cb ?e else None"
    consider (none) "?f = None" | (del) f r w' where "?f = Some f" "act f w = (r, w')" "r < 0"
      | (resched) f r w' where "?f = Some f" "act f w = (r, w')" "\<not> r < 0"
      by (cases ?f; cases "act (the ?f) w"; cases "fst (act (the ?f) w) < 0") auto
    then show ?thesis
    proof cases
      case none
      have "round_done (take (i + 1) (live s)) (timer_round act now (drop (i + 1) (live s)) w flg) (process_loop (calls act) now (i + 1) flg s w)"
        using less.hyps [of s "i + 1" w flg] i wf by simp
      then show ?thesis
        using none unfolding d t process_loop_skip [OF wf i none] timer_round.simps
        by (cases "timer_round act now (drop (i + 1) (live s)) w flg") (simp add: round_done_Cons)
    next
      case resched
      let ?s = "s\<lparr>timer := (timer s)[i := resched now r ?e]\<rparr>"
      have s: "timer_wf ?s" "live ?s = (live s)[i := resched now r ?e]"
        using wf i by (simp_all add: timer_wf_def live_def take_update_swap)
      have "take (i + 1) (live ?s) = take i (live s) @ [resched now r ?e]" "drop (i + 1) (live ?s) = drop (i + 1) (live s)"
        using i take_Suc_update [OF i] by (simp_all add: s(2))
      moreover have "round_done (take (i + 1) (live ?s)) (timer_round act now (drop (i + 1) (live ?s)) w' True)
          (process_loop (calls act) now (i + 1) True ?s w')"
        using less.hyps [of ?s "i + 1" w' True] i s by simp
      ultimately show ?thesis
        using resched unfolding d process_loop_call(2) [where act = act and w = w, OF wf i resched] timer_round.simps
        by (cases "timer_round act now (drop (i + 1) (live s)) w' True") (simp add: round_done_Cons)
    next
      case del
      show ?thesis
        using round_done_delete [where act = act and w = w, OF wf i del] less.hyps i by simp
    qed
  qed
qed

section \<open>Order of the table\<close>

definition ordered :: "u32 \<Rightarrow> blt_time_event list \<Rightarrow> bool" where
  "ordered base es \<longleftrightarrow> list_all (near base) es \<and> sorted (map (key base) es)"

lemma placed_ordered: "placed [] es \<Longrightarrow> list_all (near base) es \<Longrightarrow> ordered base es"
  by (simp add: placed_def ordered_def list_all_iff)

lemma subseq_ordered: "subseq es' es \<Longrightarrow> ordered base es \<Longrightarrow> ordered base es'"
proof (induction rule: list_emb.induct)
  case (list_emb_Cons2 x y xs ys)
  then show ?case
    by (auto simp: ordered_def elim!: list_emb_set)
qed (simp_all add: ordered_def)

lemma subseq_remove: "subseq (take i es @ drop (i + 1) es) es"
proof (cases "i < length es")
  case True
  then have "subseq (drop (i + 1) es) (drop i es)"
    using list_emb_Cons [OF subseq_order.refl, of "drop (i + 1) es" "es ! i"] by (simp add: Cons_nth_drop_Suc)
  from list_emb_append_mono [OF subseq_order.refl this, of "take i es"] show ?thesis
    by simp
qed simp

text \<open>A round that reschedules nothing only removes entries.\<close>

lemma timer_round_keeps:
  "timer_round act now es w flg = (es', w', False) \<Longrightarrow> \<not> flg \<and> subseq es' es"
proof (induction act now es w flg arbitrary: es' rule: timer_round.induct)
  case (2 act now e es w flg)
  let ?f = "if blt_is_timer_expired (evt_t e) now then cb e else None"
  consider (none) "?f = None" | (del) f r w1 where "?f = Some f" "act f w = (r, w1)" "r < 0"
    | (resched) f r w1 where "?f = Some f" "act f w = (r, w1)" "\<not> r < 0"
    by (cases ?f; cases "act (the ?f) w"; cases "fst (act (the ?f) w) < 0") auto
  then show ?case
  proof cases
    case none
    with 2(4) obtain ds where "timer_round act now es w flg = (ds, w', False)" "es' = e # ds"
      by (auto split: prod.splits)
    with 2(1) [OF none] show ?thesis
      by simp
  next
    case del
    show ?thesis
    proof (cases es)
      case Nil
      then show ?thesis
        using 2(4) del by auto
    next
      case (Cons d ds)
      with 2(4) del obtain cs where "timer_round act now ds w1 flg = (cs, w', False)" "es' = d # cs"
        by (auto split: prod.splits)
      with 2(2) [OF del(1) del(2) [symmetric]] del(3) Cons show ?thesis
        by auto
    qed
  next
    case resched
    with 2(4) obtain ds where "timer_round act now es w1 True = (ds, w', False)"
      by (auto split: prod.splits)
    with 2(3) [OF resched(1) resched(2) [symmetric]] resched(3) show ?thesis
      by simp
  qed
qed simp

section \<open>Any callbacks\<close>

text \<open>Callbacks that use the interface of the timers: at each call callback \<open>f\<close> performs some operations and
  returns a number, both depending on the rest of the program.\<close>

datatype timer_op = Add "nat option" u32 u32 | Delete "nat option" u32 | DeleteIndex nat

fun timer_op_step :: "timer_op \<Rightarrow> blt_soft_timer \<Rightarrow> blt_soft_timer option" where
  "timer_op_step (Add func us now) s = map_option snd (blt_soft_timer_add func us now s)"
| "timer_op_step (Delete func now) s = map_option snd (blt_soft_timer_delete func now s)"
| "timer_op_step (DeleteIndex i) s = map_option snd (blt_soft_timer_delete_by_index i s)"

definition script :: "(nat \<Rightarrow> 'w \<Rightarrow> int \<times> timer_op list \<times> 'w) \<Rightarrow> nat \<Rightarrow> blt_soft_timer \<Rightarrow> 'w \<Rightarrow> (int \<times> blt_soft_timer \<times> 'w) option" where
  "script prog f s w = (case prog f w of (r, ops, w') \<Rightarrow> do { s' \<leftarrow> run timer_op_step ops s; Some (r, s', w') })"

datatype timer_event = Op timer_op | Process u32

fun timer_step :: "(nat \<Rightarrow> 'w \<Rightarrow> int \<times> timer_op list \<times> 'w) \<Rightarrow> timer_event \<Rightarrow> blt_soft_timer \<times> 'w \<Rightarrow> (blt_soft_timer \<times> 'w) option" where
  "timer_step prog (Op op) (s, w) = map_option (\<lambda>s'. (s', w)) (timer_op_step op s)"
| "timer_step prog (Process now) (s, w) = blt_soft_timer_process (script prog) now s w"

lemma timer_op_safe: "timer_wf s \<Longrightarrow> \<exists>s'. timer_op_step op s = Some s' \<and> timer_wf s'"
proof (cases op)
  case (Add func us now)
  assume wf: "timer_wf s"
  show ?thesis
  proof (cases "currentNum s < MAX_TIMER_NUM")
    case True
    then obtain s' where "blt_soft_timer_add func us now s = Some (True, s')" "timer_wf s'"
      by (rule timer_add_live [OF wf])
    then show ?thesis
      by (simp add: Add)
  next
    case False
    then show ?thesis
      using wf by (simp add: Add timer_add_full)
  qed
next
  case (Delete func now)
  assume "timer_wf s"
  then obtain s' where "timer_wf s'" "blt_soft_timer_delete func now s = Some (\<exists>e\<in>set (live s). cb e = func, s')"
    by (rule timer_delete_spec)
  then show ?thesis
    by (simp add: Delete)
next
  case (DeleteIndex i)
  assume wf: "timer_wf s"
  show ?thesis
  proof (cases "i < length (live s)")
    case True
    then obtain s' where "blt_soft_timer_delete_by_index i s = Some (True, s')" "timer_wf s'"
      by (rule timer_delete_live [OF wf])
    then show ?thesis
      by (simp add: DeleteIndex)
  next
    case False
    then show ?thesis
      using wf timer_wf_len [OF wf] by (simp add: DeleteIndex blt_soft_timer_delete_by_index_def)
  qed
qed

interpretation timer_ops: safe_system timer_op_step "\<lambda>op s. True" timer_wf
  by unfold_locales (rule timer_op_safe)

lemma admissible_True: "admissible step (\<lambda>e s. True) es s"
  by (induction es arbitrary: s) (auto split: option.splits)

lemma script_safe: "timer_wf s \<Longrightarrow> \<exists>r s' w'. script prog f s w = Some (r, s', w') \<and> timer_wf s'"
proof -
  assume "timer_wf s"
  moreover obtain r ops w' where p: "prog f w = (r, ops, w')"
    by (cases "prog f w")
  ultimately obtain s' where "run timer_op_step ops s = Some s'" "timer_wf s'"
    using timer_ops.run_safe [OF _ admissible_True] by blast
  then show ?thesis
    by (simp add: script_def p)
qed

lemma timer_update_wf: "timer_wf s \<Longrightarrow> timer_wf (s\<lparr>timer := (timer s)[i := e]\<rparr>)"
  by (simp add: timer_wf_def)

lemma process_loop_safe:
  "timer_wf s \<Longrightarrow> \<exists>flg' s' w'. process_loop (script prog) now i flg s w = Some (flg', s', w') \<and> timer_wf s'"
proof (induction "256 - i" arbitrary: s i w flg rule: less_induct)
  case less
  note len = timer_wf_len [OF less.prems]
  show ?case
  proof (cases "i < unat (currentNum s)")
    case False
    then show ?thesis
      using less.prems by (simp add: process_loop_end)
  next
    case i: True
    then have IH: "timer_wf s' \<Longrightarrow> \<exists>flg'' s'' w''. process_loop (script prog) now (Suc i) flg' s' w' = Some (flg'', s'', w'') \<and> timer_wf s''"
      for s' w' flg'
      using less.hyps [of "Suc i" s' flg' w'] index_measure [OF i] by simp
    have e: "get_byte (timer s) i = Some (timer s ! i)"
      using i len by (simp add: get_byte_def)
    show ?thesis
    proof (cases "if blt_is_timer_expired (evt_t (timer s ! i)) now then cb (timer s ! i) else None")
      case None
      then show ?thesis
        using IH [OF less.prems] i e by (subst process_loop.simps) (auto split: if_splits)
    next
      case (Some f)
      obtain r s1 w1 where s1: "script prog f s w = Some (r, s1, w1)" "timer_wf s1"
        using script_safe [OF less.prems, of prog f w] by blast
      have i1: "i < length (timer s1)"
        using i len timer_wf_len [OF s1(2)] by simp
      obtain s2 where s2: "map_option snd (blt_soft_timer_delete_by_index i s1) = Some s2" "timer_wf s2"
        using timer_op_safe [OF s1(2), of "DeleteIndex i"] by auto
      show ?thesis
        using IH [OF timer_update_wf [OF s1(2)]] IH [OF s2(2)] s1(1) s2(1) i e i1 Some
        by (subst process_loop.simps) (auto simp: get_byte_def put_byte_def Let_def split: if_splits)
    qed
  qed
qed

lemma timer_head: "timer_wf s \<Longrightarrow> currentNum s \<noteq> 0 \<Longrightarrow> live s \<noteq> [] \<and> get_byte (timer s) 0 = Some (hd (live s))"
proof -
  assume "timer_wf s" and "currentNum s \<noteq> 0"
  then have "0 < unat (currentNum s)" "timer s \<noteq> []"
    using timer_wf_len [of s] by (auto simp: unat_gt_0)
  then show ?thesis
    by (simp add: get_byte_def live_def hd_take hd_conv_nth [of "timer s"])
qed

lemma wakeup_irrelevant: "timer_wf (setAppWakeup t en s) = timer_wf s" "live (setAppWakeup t en s) = live s" "wakeup (setAppWakeup t en s) = (t, en)"
  by (simp_all add: setAppWakeup_def timer_wf_def live_def)

text \<open>What follows the loop: the sort, if a timer was rescheduled, and the wake-up time.\<close>

lemma process_tail:
  assumes wf: "timer_wf s" and num: "currentNum s \<noteq> 0"
  obtains s1 where "(if flg then blt_soft_timer_sort s else Some (False, s)) = Some (flg, s1)" "timer_wf s1"
    "mset (live s1) = mset (live s)" "flg \<longrightarrow> placed [] (live s1)" "\<not> flg \<longrightarrow> s1 = s" "get_byte (timer s1) 0 = Some (hd (live s1))"
proof (cases flg)
  case True
  obtain s' where "blt_soft_timer_sort s = Some (True, s')" "timer_wf s'" "mset (live s') = mset (live s)" "placed [] (live s')"
      "currentNum s' = currentNum s"
    using wf num by (rule timer_sort_live)
  then show ?thesis
    using True that [of s'] timer_head [of s'] num by simp
next
  case False
  then show ?thesis
    using that [of s] wf timer_head [OF wf num] by simp
qed

lemma process_safe:
  assumes wf: "timer_wf s"
  shows "\<exists>s' w'. blt_soft_timer_process (script prog) now s w = Some (s', w') \<and> timer_wf s'"
proof (cases "currentNum s \<noteq> 0 \<and> blt_is_timer_expired (evt_t (hd (live s))) now")
  case True
  obtain flg s1 w1 where s1: "process_loop (script prog) now 0 False s w = Some (flg, s1, w1)" "timer_wf s1"
    using process_loop_safe [OF wf, of prog now 0 False w] by blast
  show ?thesis
  proof (cases "currentNum s1 = 0")
    case zero: True
    then show ?thesis
      using True s1 timer_head [OF wf] by (simp add: blt_soft_timer_process_def wakeup_irrelevant)
  next
    case False
    obtain s2 where "(if flg then blt_soft_timer_sort s1 else Some (False, s1)) = Some (flg, s2)" "timer_wf s2"
        "get_byte (timer s2) 0 = Some (hd (live s2))"
      using s1(2) False by (rule process_tail [where flg = flg])
    then show ?thesis
      using True False s1 timer_head [OF wf] by (simp add: blt_soft_timer_process_def wakeup_irrelevant)
  qed
next
  case False
  then show ?thesis
    using wf timer_head [OF wf] by (auto simp: blt_soft_timer_process_def wakeup_irrelevant)
qed

lemma timer_step_safe: "timer_wf (fst sw) \<Longrightarrow> \<exists>sw'. timer_step prog e sw = Some sw' \<and> timer_wf (fst sw')"
proof (cases e)
  case (Op op)
  assume "timer_wf (fst sw)"
  from timer_op_safe [OF this, of op] show ?thesis
    by (cases sw) (auto simp: Op)
next
  case (Process now)
  assume "timer_wf (fst sw)"
  from process_safe [OF this, of prog now "snd sw"] show ?thesis
    by (cases sw) (auto simp: Process)
qed

interpretation timers: safe_system "timer_step prog" "\<lambda>e sw. True" "\<lambda>sw. timer_wf (fst sw)" for prog
  by unfold_locales (rule timer_step_safe)

lemma process_round:
  assumes wf: "timer_wf s" and num: "currentNum s \<noteq> 0" and ex: "blt_is_timer_expired (evt_t (hd (live s))) now"
    and round: "timer_round act now (live s) w False = (es, w', flg)"
  obtains s' where "blt_soft_timer_process (calls act) now s w = Some (s', w')" "timer_wf s'" "mset (live s') = mset es"
    "\<And>base. ordered base (live s) \<Longrightarrow> list_all (near base) es \<Longrightarrow> ordered base (live s')"
    "wakeup s' = (if es \<noteq> [] \<and> evt_t (hd (live s')) - now < 3000 * SYSTEM_TIMER_TICK_1MS then (evt_t (hd (live s')), True) else (0, False))"
proof -
  obtain s1 where s1: "process_loop (calls act) now 0 False s w = Some (flg, s1, w')" "timer_wf s1" "live s1 = es"
    using process_loop_round [OF wf, of 0 act now w False] round by (auto simp: round_done_def)
  note proc = blt_soft_timer_process_def
  show ?thesis
  proof (cases "currentNum s1 = 0")
    case True
    then have "es = []"
      using s1(3) by (simp add: live_def)
    moreover have "blt_soft_timer_process (calls act) now s w = Some (setAppWakeup 0 False s1, w')"
      using True s1 num ex timer_head [OF wf num] by (simp add: proc)
    ultimately show ?thesis
      using that [of "setAppWakeup 0 False s1"] s1 by (simp add: wakeup_irrelevant ordered_def)
  next
    case False
    then have ne: "es \<noteq> []"
      using s1(3) timer_head [OF s1(2)] by auto
    obtain s2 where s2: "(if flg then blt_soft_timer_sort s1 else Some (False, s1)) = Some (flg, s2)" "timer_wf s2"
        "mset (live s2) = mset (live s1)" "flg \<longrightarrow> placed [] (live s2)" "\<not> flg \<longrightarrow> s2 = s1" "get_byte (timer s2) 0 = Some (hd (live s2))"
      using s1(2) False by (rule process_tail [where flg = flg])
    have ord: "ordered base (live s2)" if o: "ordered base (live s)" and near: "list_all (near base) es" for base
    proof (cases flg)
      case True
      have "set (live s2) = set es"
        using arg_cong [OF s2(3), of set_mset] s1(3) by simp
      then show ?thesis
        using placed_ordered [OF mp [OF s2(4) True]] near by (simp add: list_all_iff)
    next
      case flg: False
      then show ?thesis
        using timer_round_keeps [of act now "live s" w False es w'] round o s2(5) s1(3) subseq_ordered by simp
    qed
    let ?en = "evt_t (hd (live s2)) - now < 3000 * SYSTEM_TIMER_TICK_1MS"
    have "blt_soft_timer_process (calls act) now s w =
        Some (if ?en then setAppWakeup (evt_t (hd (live s2))) True s2 else setAppWakeup 0 False s2, w')"
      using False s1 num ex timer_head [OF wf num] s2(1,6) by (simp add: proc)
    then show ?thesis
      using that s1(3) s2(2,3) ne ord by (cases ?en) (simp_all add: wakeup_irrelevant)
  qed
qed

section \<open>Theorems\<close>

definition timer_new :: blt_soft_timer where
  "timer_new = \<lparr>timer = replicate 4 \<lparr>cb = None, evt_t = 0, interval = 0\<rparr>, currentNum = 0, wakeup = (0, False)\<rparr>"

text \<open>C21: From the empty table on, every sequence of additions, deletions and rounds over the table is carried
  out without an access outside the four entries, whatever the callbacks do with the interface of the
  timers while the loop over the table runs.\<close>

theorem timer_run_safe:
  "\<exists>s w'. run (timer_step prog) es (timer_new, w) = Some (s, w') \<and> length (timer s) = 4 \<and> currentNum s \<le> MAX_TIMER_NUM"
proof -
  have "timer_wf (fst (timer_new, w))"
    by (simp add: timer_new_def timer_wf_def MAX_TIMER_NUM_def)
  from timers.run_safe [OF this admissible_True, of prog es] show ?thesis
    by (auto simp: timer_wf_def MAX_TIMER_NUM_def)
qed

text \<open>A timer added to an ordered table is in it at its place: the table holds the old timers and the new one
  in the order of the times that are left, as long as all of them expire within a quarter of the
  range of the clock after a moment \<open>base\<close>; the chip is to wake up for the first of them.\<close>

theorem timer_add_ordered:
  assumes "timer_wf s" and "currentNum s < MAX_TIMER_NUM" and "ordered base (live s)"
    and "unat (now + us * SYSTEM_TIMER_TICK_1US - base) < 2 ^ 30"
  shows "\<exists>s'. blt_soft_timer_add func us now s = Some (True, s') \<and> timer_wf s' \<and> ordered base (live s') \<and>
    mset (live s') = add_mset \<lparr>cb = func, evt_t = now + us * SYSTEM_TIMER_TICK_1US, interval = us * SYSTEM_TIMER_TICK_1US\<rparr> (mset (live s)) \<and>
    wakeup s' = (evt_t (hd (live s')), True)"
proof -
  let ?e = "\<lparr>cb = func, evt_t = now + us * SYSTEM_TIMER_TICK_1US, interval = us * SYSTEM_TIMER_TICK_1US\<rparr>"
  obtain s' where s': "blt_soft_timer_add func us now s = Some (True, s')" "timer_wf s'" "placed [] (live s')"
      "mset (live s') = add_mset ?e (mset (live s))" "wakeup s' = (evt_t (hd (live s')), True)"
    using assms(1,2) by (rule timer_add_live)
  have "set (live s') = insert ?e (set (live s))"
    using arg_cong [OF s'(4), of set_mset] by simp
  then have "list_all (near base) (live s')"
    using assms(3,4) by (auto simp: list_all_iff ordered_def near_def key_def)
  then show ?thesis
    using s' placed_ordered by blast
qed

definition timer_sample :: blt_soft_timer where
  "timer_sample = \<lparr>timer = [\<lparr>cb = Some 1, evt_t = 0xFFFFFFFF, interval = 1600\<rparr>, \<lparr>cb = Some 2, evt_t = 100, interval = 160\<rparr>,
     \<lparr>cb = None, evt_t = 0, interval = 0\<rparr>, \<lparr>cb = None, evt_t = 0, interval = 0\<rparr>], currentNum = 2, wakeup = (0, False)\<rparr>"

lemma timer_sample_wf: "timer_wf timer_sample" "currentNum timer_sample \<noteq> 0" "currentNum timer_sample < MAX_TIMER_NUM"
  "live timer_sample = [\<lparr>cb = Some 1, evt_t = 0xFFFFFFFF, interval = 1600\<rparr>, \<lparr>cb = Some 2, evt_t = 100, interval = 160\<rparr>]"
  "ordered 0xFFFFFF00 (live timer_sample)"
  by (simp_all add: timer_sample_def timer_wf_def MAX_TIMER_NUM_def live_def ordered_def near_def key_def)

lemmas expired_eval = blt_is_timer_expired_def BLT_TIMER_SAFE_MARGIN_PRE_def BLT_TIMER_SAFE_MARGIN_POST_def
  SYSTEM_TIMER_TICK_1US_def SYSTEM_TIMER_TICK_1S_def

theorem timer_add_ordered_witness:
  "\<exists>s'. blt_soft_timer_add (Some 3) 2 0xFFFFFFF0 timer_sample = Some (True, s') \<and> timer_wf s' \<and> ordered 0xFFFFFF00 (live s') \<and>
    mset (live s') = add_mset \<lparr>cb = Some 3, evt_t = 0xFFFFFFF0 + 2 * SYSTEM_TIMER_TICK_1US, interval = 2 * SYSTEM_TIMER_TICK_1US\<rparr>
      (mset (live timer_sample)) \<and>
    wakeup s' = (evt_t (hd (live s')), True)"
  by (rule timer_add_ordered [OF timer_sample_wf(1,3,5)]) (simp add: SYSTEM_TIMER_TICK_1US_def)

text \<open>A round over the table with callbacks that leave it alone does to the used entries what the reference
  round describes, keeps the table ordered, and sets the wake-up time to the first entry when that is
  at most three seconds ahead.\<close>

theorem timer_process_round:
  assumes "timer_wf s" and "currentNum s \<noteq> 0" and "blt_is_timer_expired (evt_t (hd (live s))) now"
    and "timer_round act now (live s) w False = (es, w', flg)"
    and "ordered base (live s)" and "list_all (near base) es"
  shows "\<exists>s'. blt_soft_timer_process (calls act) now s w = Some (s', w') \<and> timer_wf s' \<and> mset (live s') = mset es \<and>
    ordered base (live s') \<and>
    wakeup s' = (if es \<noteq> [] \<and> evt_t (hd (live s')) - now < 3000 * SYSTEM_TIMER_TICK_1MS then (evt_t (hd (live s')), True) else (0, False))"
proof -
  obtain s' where "blt_soft_timer_process (calls act) now s w = Some (s', w')" "timer_wf s'" "mset (live s') = mset es"
    "ordered base (live s) \<Longrightarrow> list_all (near base) es \<Longrightarrow> ordered base (live s')"
    "wakeup s' = (if es \<noteq> [] \<and> evt_t (hd (live s')) - now < 3000 * SYSTEM_TIMER_TICK_1MS then (evt_t (hd (live s')), True) else (0, False))"
    using process_round [OF assms(1-4)] by metis
  then show ?thesis
    using assms(5,6) by blast
qed

theorem timer_process_round_witness:
  "\<exists>s'. blt_soft_timer_process (calls (\<lambda>f w. (0, f # w))) 50 timer_sample [] = Some (s', [2, 1]) \<and> timer_wf s' \<and>
    mset (live s') = {#\<lparr>cb = Some 1, evt_t = 1650, interval = 1600\<rparr>, \<lparr>cb = Some 2, evt_t = 210, interval = 160\<rparr>#} \<and>
    ordered 0xFFFFFF00 (live s') \<and>
    wakeup s' = (if [\<lparr>cb = Some 1, evt_t = 1650, interval = 1600\<rparr>, \<lparr>cb = Some (2 :: nat), evt_t = 210, interval = 160\<rparr>] \<noteq> [] \<and>
      evt_t (hd (live s')) - 50 < 3000 * SYSTEM_TIMER_TICK_1MS then (evt_t (hd (live s')), True) else (0, False))"
proof -
  have "timer_round (\<lambda>f w. (0, f # w)) 50 (live timer_sample) [] False =
      ([\<lparr>cb = Some 1, evt_t = 1650, interval = 1600\<rparr>, \<lparr>cb = Some 2, evt_t = 210, interval = 160\<rparr>], [2, 1], True)"
    by (simp add: timer_sample_wf(4) expired_eval resched_def)
  from timer_process_round [OF timer_sample_wf(1,2) _ this timer_sample_wf(5)] show ?thesis
    by (simp add: timer_sample_wf(4) expired_eval near_def key_def)
qed

definition due :: "u32 \<Rightarrow> blt_time_event \<Rightarrow> bool" where
  "due now e \<longleftrightarrow> blt_is_timer_expired (evt_t e) now \<and> cb e \<noteq> None"

lemma timer_round_log:
  assumes "\<forall>f. 0 \<le> res f"
  shows "\<exists>flg'. timer_round (\<lambda>f w. (res f, w @ [f])) now es w flg =
    (map (\<lambda>e. if due now e then resched now (res (the (cb e))) e else e) es, w @ map (\<lambda>e. the (cb e)) (filter (due now) es), flg')"
proof (induction es arbitrary: w flg)
  case (Cons e es)
  have "\<not> res f < 0" for f
    using assms by (simp add: not_less)
  then show ?case
    using Cons.IH [of w flg] Cons.IH [of "w @ [the (cb e)]" True]
    by (cases "blt_is_timer_expired (evt_t e) now"; cases "cb e") (auto simp: due_def)
qed simp

definition fires :: "u32 \<Rightarrow> blt_time_event list \<Rightarrow> bool" where
  "fires now es \<longleftrightarrow> es \<noteq> [] \<and> blt_is_timer_expired (evt_t (hd es)) now"

text \<open>The oldest moment at which a timer may have been due for \<open>blt_is_timer_expired\<close> to see that it has expired.\<close>

definition oldest_due :: "u32 \<Rightarrow> u32" where
  "oldest_due now = now + BLT_TIMER_SAFE_MARGIN_PRE - (BLT_TIMER_SAFE_MARGIN_POST - 1)"

lemma expired_key: "blt_is_timer_expired t now \<longleftrightarrow> unat (t - oldest_due now) < unat BLT_TIMER_SAFE_MARGIN_POST"
proof -
  have k: "now + BLT_TIMER_SAFE_MARGIN_PRE - t = (BLT_TIMER_SAFE_MARGIN_POST - 1) - (t - oldest_due now)"
    by (simp add: oldest_due_def)
  have "c - 1 - d < c \<longleftrightarrow> d < c" if "c = 64000000" for c d :: u32
  proof (cases "d \<le> c - 1")
    case True
    then have "unat (c - 1 - d) = unat (c - 1) - unat d"
      by (rule unat_sub)
    then show ?thesis
      using True \<open>c = 64000000\<close> by (simp add: word_less_nat_alt word_le_nat_alt)
  next
    case False
    have d: "uint d < 2 ^ 32"
      using uint_lt2p [of d] by simp
    have "uint (c - 1 - d) = (63999999 - uint d) mod 2 ^ 32"
      using \<open>c = 64000000\<close> by (simp add: uint_word_ariths)
    also have "\<dots> = (63999999 - uint d + 2 ^ 32) mod 2 ^ 32"
      by (simp only: mod_add_self2)
    also have "\<dots> = 63999999 - uint d + 2 ^ 32"
      using False d \<open>c = 64000000\<close> by (intro mod_pos_pos_trivial) (simp_all add: word_le_def)
    finally show ?thesis
      using False d \<open>c = 64000000\<close> by (simp add: word_less_def word_le_def)
  qed
  from this [of BLT_TIMER_SAFE_MARGIN_POST "t - oldest_due now"] show ?thesis
    unfolding blt_is_timer_expired_def k
    by (simp add: word_less_nat_alt BLT_TIMER_SAFE_MARGIN_POST_def SYSTEM_TIMER_TICK_1S_def)
qed

lemma ordered_none_due:
  assumes "ordered (oldest_due now) es" and "\<not> fires now es"
  shows "filter (due now) es = []"
proof (cases es)
  case (Cons a as)
  have "\<not> due now e" if "e \<in> set es" for e
  proof -
    have "unat (evt_t a - oldest_due now) \<le> unat (evt_t e - oldest_due now)"
      using assms(1) \<open>e \<in> set es\<close> Cons by (auto simp: ordered_def key_def)
    then show ?thesis
      using assms(2) Cons by (simp add: fires_def due_def expired_key)
  qed
  then show ?thesis
    by (simp add: filter_empty_conv)
qed simp

text \<open>C22: With callbacks that do not touch the table of timers themselves and do not ask to be removed, a round runs,
  when the first timer of the table has expired, the callback of every timer that has expired exactly
  once, in the order of the table, and no other; each of these timers is rescheduled from now on by
  its interval or by the number its callback returned, and the other timers are left alone.  When the first
  timer has not expired (also when it is late by more than the four seconds that
  \<open>blt_is_timer_expired\<close> looks back), or there is none, the round runs nothing and the timers stay as
  they are.  In a table that is in order from that oldest moment on, no expired timer is passed over: the
  callbacks run are those of all of them.\<close>

theorem timer_fires_expired:
  assumes "timer_wf s" and "\<forall>f. 0 \<le> res f"
  shows "\<exists>s' ran. blt_soft_timer_process (calls (\<lambda>f w. (res f, w @ [f]))) now s [] = Some (s', ran) \<and> timer_wf s' \<and>
    ran = (if fires now (live s) then map (\<lambda>e. the (cb e)) (filter (due now) (live s)) else []) \<and>
    mset (live s') = (if fires now (live s)
      then image_mset (\<lambda>e. if due now e then resched now (res (the (cb e))) e else e) (mset (live s)) else mset (live s)) \<and>
    (ordered (oldest_due now) (live s) \<longrightarrow> ran = map (\<lambda>e. the (cb e)) (filter (due now) (live s)))"
proof (cases "fires now (live s)")
  case True
  then have num: "currentNum s \<noteq> 0" and ex: "blt_is_timer_expired (evt_t (hd (live s))) now"
    by (auto simp: fires_def live_def)
  let ?es = "map (\<lambda>e. if due now e then resched now (res (the (cb e))) e else e) (live s)"
  obtain flg where "timer_round (\<lambda>f w. (res f, w @ [f])) now (live s) [] False = (?es, map (\<lambda>e. the (cb e)) (filter (due now) (live s)), flg)"
    using timer_round_log [OF assms(2), of now "live s" "[]" False] by auto
  then obtain s' where s': "blt_soft_timer_process (calls (\<lambda>f w. (res f, w @ [f]))) now s [] =
      Some (s', map (\<lambda>e. the (cb e)) (filter (due now) (live s)))" "timer_wf s'" "mset (live s') = mset ?es"
    by (rule process_round [OF assms(1) num ex])
  then show ?thesis
    using True by (intro exI [of _ s'] exI [of _ "map (\<lambda>e. the (cb e)) (filter (due now) (live s))"]) simp
next
  case False
  have "\<exists>s'. blt_soft_timer_process (calls (\<lambda>f w. (res f, w @ [f]))) now s [] = Some (s', []) \<and> timer_wf s' \<and> live s' = live s"
  proof (cases "currentNum s = 0")
    case True
    then show ?thesis
      using assms(1) by (simp add: blt_soft_timer_process_def wakeup_irrelevant)
  next
    case num: False
    have "\<not> blt_is_timer_expired (evt_t (hd (live s))) now"
      using False timer_head [OF assms(1) num] by (simp add: fires_def)
    then show ?thesis
      using assms(1) num timer_head [OF assms(1) num] by (simp add: blt_soft_timer_process_def)
  qed
  then obtain s' where s': "blt_soft_timer_process (calls (\<lambda>f w. (res f, w @ [f]))) now s [] = Some (s', [])" "timer_wf s'" "live s' = live s"
    by blast
  have "filter (due now) (live s) = []" if "ordered (oldest_due now) (live s)"
    using that False by (rule ordered_none_due)
  then show ?thesis
    using s' False by (intro exI [of _ s'] exI [of _ "[]"]) simp
qed

theorem timer_fires_expired_witness:
  "\<exists>s'. blt_soft_timer_process (calls (\<lambda>f w. (100 * int f, w @ [f]))) 50 timer_sample [] = Some (s', [1, 2]) \<and> timer_wf s' \<and>
    mset (live s') = {#\<lparr>cb = Some 1, evt_t = 1650, interval = 1600\<rparr>, \<lparr>cb = Some 2, evt_t = 3250, interval = 3200\<rparr>#}"
  using timer_fires_expired [OF timer_sample_wf(1), of "\<lambda>f. 100 * int f" 50]
  by (simp add: timer_sample_wf(4) expired_eval due_def resched_def fires_def)

text \<open>A first timer that is late by more than four seconds (no round ran in the meantime) holds up the table: with the
  second timer due, the round returns at once.\<close>

lemma timer_stale_blocks:
  assumes "timer_wf s" and "live s = [a, b]" and "evt_t a = 0" and "evt_t b = 64000000" and "cb b = Some f"
  shows "blt_soft_timer_process call 64000000 s w = Some (s, w)" "due 64000000 b"
proof -
  have num: "currentNum s \<noteq> 0"
    using assms(2) by (auto simp: live_def)
  show "blt_soft_timer_process call 64000000 s w = Some (s, w)"
    using num timer_head [OF assms(1) num] assms(2,3) by (simp add: blt_soft_timer_process_def expired_eval)
  show "due 64000000 b"
    using assms(4,5) by (simp add: due_def expired_eval)
qed

text \<open>A callback that asks to be removed costs the timer behind it its turn: with two expired timers, only
  the first callback runs, the second timer stays in the table with its old time, and when that time
  has passed the wake-up of the chip is switched off.\<close>

theorem timer_delete_skips:
  assumes "timer_wf s" and "live s = [a, b]" and "blt_is_timer_expired (evt_t a) now" and "cb a = Some f"
    and "res f < 0" and "\<not> evt_t b - now < 3000 * SYSTEM_TIMER_TICK_1MS"
  shows "\<exists>s'. blt_soft_timer_process (calls (\<lambda>f w. (res f, w @ [f]))) now s [] = Some (s', [f]) \<and> live s' = [b] \<and> wakeup s' = (0, False)"
proof -
  have "currentNum s \<noteq> 0"
    using assms(2) by (auto simp: live_def)
  moreover have "timer_round (\<lambda>f w. (res f, w @ [f])) now (live s) [] False = ([b], [f], False)"
    using assms(2-5) by simp
  moreover have "blt_is_timer_expired (evt_t (hd (live s))) now"
    using assms(2,3) by simp
  ultimately obtain s' where s': "blt_soft_timer_process (calls (\<lambda>f w. (res f, w @ [f]))) now s [] = Some (s', [f])" "mset (live s') = mset [b]"
    "wakeup s' = (if [b] \<noteq> [] \<and> evt_t (hd (live s')) - now < 3000 * SYSTEM_TIMER_TICK_1MS then (evt_t (hd (live s')), True) else (0, False))"
    using process_round [OF assms(1), of now "\<lambda>f w. (res f, w @ [f])" "[]" "[b]" "[f]" False] by blast
  then have "live s' = [b]"
    by simp
  then show ?thesis
    using s' assms(6) by simp
qed

theorem timer_delete_skips_witness:
  "\<exists>s'. blt_soft_timer_process (calls (\<lambda>f w. (- int f, w @ [f]))) 150 timer_sample [] = Some (s', [1]) \<and>
    live s' = [\<lparr>cb = Some 2, evt_t = 100, interval = 160\<rparr>] \<and> wakeup s' = (0, False)"
  by (rule timer_delete_skips [OF timer_sample_wf(1,4)])
    (simp_all add: expired_eval SYSTEM_TIMER_TICK_1MS_def)

end
