(* ===== verification/Device_Manage.thy ===== *)
theory Device_Manage
  imports Simulation "HOL-Library.Multiset"
begin

text \<open>
  The table of connections of the applications, \<^verbatim>\<open>vendor/common/device_manage.c\<close>: one slot
  for each connection that the build allows, the central ones in front of the peripheral ones, and two
  counters.  The numbers of slots, \<open>ACL_CENTRAL_MAX_NUM\<close> and \<open>ACL_PERIPHR_MAX_NUM\<close>, are set by each
  application; they are the arguments \<open>cm\<close> and \<open>pm\<close> here.  A pointer to a slot is its index.
\<close>

section \<open>Data\<close>

definition INVALID_CONN_IDX :: int where "INVALID_CONN_IDX = 0xFF"
definition ACL_ROLE_CENTRAL :: u8 where "ACL_ROLE_CENTRAL = 0"
definition ACL_ROLE_PERIPHERAL :: u8 where "ACL_ROLE_PERIPHERAL = 1"
definition CHAR_HANDLE_MAX :: nat where "CHAR_HANDLE_MAX = 8"

record dev_char_info =
  conn_handle :: u16
  conn_role :: u8
  conn_state :: u8
  char_handle_valid :: u8
  rsvd :: "u8 list"
  peer_adrType :: u8
  peer_addr :: "u8 list"
  peer_RPA :: u8
  char_handle :: "u16 list"

definition dev_zero :: dev_char_info where
  "dev_zero = \<lparr>conn_handle = 0, conn_role = 0, conn_state = 0, char_handle_valid = 0, rsvd = replicate 3 0, peer_adrType = 0,
     peer_addr = replicate 6 0, peer_RPA = 0, char_handle = replicate CHAR_HANDLE_MAX 0\<rparr>"

record devices =
  conn_dev_list :: "dev_char_info list"
  acl_conn_central_num :: int
  acl_conn_periphr_num :: int

text \<open>What the operations use of the two connection complete events.\<close>

record connectionCompleteEvt =
  connHandle :: u16
  role :: u8
  peerAddrType :: u8
  peerAddr :: "u8 list"

definition IS_RESOLVABLE_PRIVATE_ADDR :: "u8 \<Rightarrow> u8 list \<Rightarrow> bool option" where
  "IS_RESOLVABLE_PRIVATE_ADDR t a = (if t = 1 then do { b \<leftarrow> get_byte a 5; Some (b AND 0xC0 = 0x40) } else Some False)"

section \<open>Operations\<close>

text \<open>The search for a free slot that the three insertions share, with the counter.\<close>

definition take_slot :: "nat \<Rightarrow> nat \<Rightarrow> u8 \<Rightarrow> devices \<Rightarrow> (int \<times> devices) option" where
  "take_slot cm pm rl s =
     (if rl = ACL_ROLE_CENTRAL then
        do { f \<leftarrow> first_index (\<lambda>d. conn_state d = 0) cm 0 (conn_dev_list s);
             case f of None \<Rightarrow> Some (INVALID_CONN_IDX, s)
             | Some i \<Rightarrow> Some (int i, s\<lparr>acl_conn_central_num := acl_conn_central_num s + 1\<rparr>) }
      else if rl = ACL_ROLE_PERIPHERAL then
        do { f \<leftarrow> first_index (\<lambda>d. conn_state d = 0) pm cm (conn_dev_list s);
             case f of None \<Rightarrow> Some (INVALID_CONN_IDX, s)
             | Some i \<Rightarrow> Some (int i, s\<lparr>acl_conn_periphr_num := acl_conn_periphr_num s + 1\<rparr>) }
      else Some (INVALID_CONN_IDX, s))"

definition put_slot :: "int \<Rightarrow> dev_char_info \<Rightarrow> devices \<Rightarrow> devices option" where
  "put_slot index d s = do { ds \<leftarrow> put_byte (conn_dev_list s) (nat index) d; Some (s\<lparr>conn_dev_list := ds\<rparr>) }"

definition dev_char_info_insert :: "nat \<Rightarrow> nat \<Rightarrow> dev_char_info \<Rightarrow> devices \<Rightarrow> (int \<times> devices) option" where
  "dev_char_info_insert cm pm d s =
     do { (index, s) \<leftarrow> take_slot cm pm (conn_role d) s;
          if index \<noteq> INVALID_CONN_IDX then do { s \<leftarrow> put_slot index (d\<lparr>conn_state := 1\<rparr>) s; Some (index, s) }
          else Some (index, s) }"

definition dev_of_event :: "connectionCompleteEvt \<Rightarrow> dev_char_info" where
  "dev_of_event e = dev_zero\<lparr>conn_handle := connHandle e, conn_role := role e, conn_state := 1,
     peer_adrType := peerAddrType e, peer_addr := peerAddr e\<rparr>"

definition dev_char_info_insert_by_conn_event :: "nat \<Rightarrow> nat \<Rightarrow> connectionCompleteEvt \<Rightarrow> devices \<Rightarrow> (int \<times> devices) option" where
  "dev_char_info_insert_by_conn_event cm pm e s =
     do { (index, s) \<leftarrow> take_slot cm pm (role e) s;
          if index \<noteq> INVALID_CONN_IDX then do { s \<leftarrow> put_slot index (dev_of_event e) s; Some (index, s) }
          else Some (index, s) }"

text \<open>The function for the enhanced event has the same text, over the fields of the other event.\<close>

definition dev_char_info_insert_by_enhanced_conn_event :: "nat \<Rightarrow> nat \<Rightarrow> connectionCompleteEvt \<Rightarrow> devices \<Rightarrow> (int \<times> devices) option" where
  "dev_char_info_insert_by_enhanced_conn_event cm pm e s =
     do { (index, s) \<leftarrow> take_slot cm pm (role e) s;
          if index \<noteq> INVALID_CONN_IDX then do { s \<leftarrow> put_slot index (dev_of_event e) s; Some (index, s) }
          else Some (index, s) }"

definition connected_as :: "u16 \<Rightarrow> dev_char_info \<Rightarrow> bool" where
  "connected_as h d \<longleftrightarrow> conn_handle d = h \<and> conn_state d \<noteq> 0"

text \<open>The counter and the slot of a connection that ends; 0 for success.\<close>

definition release_slot :: "nat \<Rightarrow> devices \<Rightarrow> (int \<times> devices) option" where
  "release_slot i s =
     do { d \<leftarrow> get_byte (conn_dev_list s) i;
          let s = (if conn_role d = ACL_ROLE_CENTRAL then s\<lparr>acl_conn_central_num := acl_conn_central_num s - 1\<rparr>
                   else s\<lparr>acl_conn_periphr_num := acl_conn_periphr_num s - 1\<rparr>);
          s \<leftarrow> put_slot (int i) dev_zero s;
          Some (0, s) }"

definition dev_char_info_delete_by_connhandle :: "nat \<Rightarrow> nat \<Rightarrow> u16 \<Rightarrow> devices \<Rightarrow> (int \<times> devices) option" where
  "dev_char_info_delete_by_connhandle cm pm h s =
     do { f \<leftarrow> first_index (connected_as h) (cm + pm) 0 (conn_dev_list s);
          case f of None \<Rightarrow> Some (1, s) | Some i \<Rightarrow> release_slot i s }"

definition dev_char_info_delete_by_peer_mac_address :: "nat \<Rightarrow> nat \<Rightarrow> u8 \<Rightarrow> u8 list \<Rightarrow> devices \<Rightarrow> (int \<times> devices) option" where
  "dev_char_info_delete_by_peer_mac_address cm pm adr_type addr s =
     do { rpa \<leftarrow> IS_RESOLVABLE_PRIVATE_ADDR adr_type addr;
          f \<leftarrow> first_index (\<lambda>d. conn_state d \<noteq> 0 \<and> \<not> rpa \<and> adr_type = peer_adrType d \<and> addr = peer_addr d) (cm + pm) 0 (conn_dev_list s);
          case f of None \<Rightarrow> Some (1, s) | Some i \<Rightarrow> release_slot i s }"

definition dev_char_info_search_by_connhandle :: "nat \<Rightarrow> nat \<Rightarrow> u16 \<Rightarrow> devices \<Rightarrow> nat option option" where
  "dev_char_info_search_by_connhandle cm pm h s = first_index (connected_as h) (cm + pm) 0 (conn_dev_list s)"

definition dev_char_info_search_by_peer_mac_address :: "nat \<Rightarrow> nat \<Rightarrow> u8 \<Rightarrow> u8 list \<Rightarrow> devices \<Rightarrow> nat option option" where
  "dev_char_info_search_by_peer_mac_address cm pm adr_type addr s =
     do { rpa \<leftarrow> IS_RESOLVABLE_PRIVATE_ADDR adr_type addr;
          first_index (\<lambda>d. \<not> rpa \<and> adr_type = peer_adrType d \<and> addr = peer_addr d) (cm + pm) 0 (conn_dev_list s) }"

definition dev_char_info_is_connection_state_by_conn_handle :: "nat \<Rightarrow> nat \<Rightarrow> u16 \<Rightarrow> devices \<Rightarrow> bool option" where
  "dev_char_info_is_connection_state_by_conn_handle cm pm h s =
     do { f \<leftarrow> first_index (connected_as h) (cm + pm) 0 (conn_dev_list s); Some (f \<noteq> None) }"

definition dev_char_get_conn_role_by_connhandle :: "nat \<Rightarrow> nat \<Rightarrow> u16 \<Rightarrow> devices \<Rightarrow> int option" where
  "dev_char_get_conn_role_by_connhandle cm pm h s =
     do { f \<leftarrow> first_index (connected_as h) (cm + pm) 0 (conn_dev_list s);
          case f of None \<Rightarrow> Some 2 | Some i \<Rightarrow> do { d \<leftarrow> get_byte (conn_dev_list s) i; Some (uint (conn_role d)) } }"

definition dev_char_get_conn_index_by_connhandle :: "nat \<Rightarrow> nat \<Rightarrow> u16 \<Rightarrow> devices \<Rightarrow> int option" where
  "dev_char_get_conn_index_by_connhandle cm pm h s =
     do { f \<leftarrow> first_index (connected_as h) (cm + pm) 0 (conn_dev_list s);
          case f of None \<Rightarrow> Some INVALID_CONN_IDX | Some i \<Rightarrow> Some (int i) }"

section \<open>Contents of the table\<close>

definition busy :: "dev_char_info list \<Rightarrow> dev_char_info multiset" where
  "busy ds = filter_mset (\<lambda>d. conn_state d \<noteq> 0) (mset ds)"

text \<open>The central connections are in the first \<open>cm\<close> slots, the peripheral ones in the others, and the counters
  count them.\<close>

definition dev_inv :: "nat \<Rightarrow> nat \<Rightarrow> devices \<Rightarrow> bool" where
  "dev_inv cm pm s \<longleftrightarrow> cm + pm \<le> 255 \<and> length (conn_dev_list s) = cm + pm \<and>
     (\<forall>d \<in># busy (take cm (conn_dev_list s)). conn_role d = ACL_ROLE_CENTRAL) \<and>
     (\<forall>d \<in># busy (drop cm (conn_dev_list s)). conn_role d = ACL_ROLE_PERIPHERAL) \<and>
     acl_conn_central_num s = int (size (busy (take cm (conn_dev_list s)))) \<and>
     acl_conn_periphr_num s = int (size (busy (drop cm (conn_dev_list s))))"

lemma dev_invD:
  assumes "dev_inv cm pm s"
  shows "cm + pm \<le> 255" "length (conn_dev_list s) = cm + pm"
    "\<And>d. d \<in># busy (take cm (conn_dev_list s)) \<Longrightarrow> conn_role d = ACL_ROLE_CENTRAL"
    "\<And>d. d \<in># busy (drop cm (conn_dev_list s)) \<Longrightarrow> conn_role d = ACL_ROLE_PERIPHERAL"
    "acl_conn_central_num s = int (size (busy (take cm (conn_dev_list s))))"
    "acl_conn_periphr_num s = int (size (busy (drop cm (conn_dev_list s))))"
  using assms by (auto simp: dev_inv_def)

lemma busy_split: "busy ds = busy (take cm ds) + busy (drop cm ds)"
  unfolding busy_def by (metis append_take_drop_id filter_union_mset mset_append)

lemma busy_put: "i < length ds \<Longrightarrow> conn_state (ds ! i) = 0 \<Longrightarrow> conn_state d \<noteq> 0 \<Longrightarrow> busy (ds[i := d]) = add_mset d (busy ds)"
  by (simp add: busy_def mset_update filter_diff_mset)

lemma busy_remove:
  assumes "i < length ds" and "conn_state (ds ! i) \<noteq> 0"
  shows "busy (ds[i := dev_zero]) = busy ds - {#ds ! i#}" "ds ! i \<in># busy ds"
  using assms by (simp_all add: busy_def mset_update filter_diff_mset dev_zero_def)

lemma busy_full: "(\<And>k. k < length ds \<Longrightarrow> conn_state (ds ! k) \<noteq> 0) \<Longrightarrow> size (busy ds) = length ds"
proof -
  assume "\<And>k. k < length ds \<Longrightarrow> conn_state (ds ! k) \<noteq> 0"
  then have "\<forall>d \<in> set ds. conn_state d \<noteq> 0"
    by (auto simp: in_set_conv_nth)
  then have "busy ds = mset ds"
    by (auto simp: busy_def filter_mset_eq_conv)
  then show ?thesis
    by simp
qed

lemma busy_room: "k < length ds \<Longrightarrow> conn_state (ds ! k) = 0 \<Longrightarrow> size (busy ds) < length ds"
  using length_filter_less [of "ds ! k" ds "\<lambda>d. conn_state d \<noteq> 0"] by (simp add: busy_def flip: mset_filter)

text \<open>A search for a free slot among \<open>m\<close> slots from \<open>lo\<close> on.\<close>

abbreviation part :: "nat \<Rightarrow> nat \<Rightarrow> dev_char_info list \<Rightarrow> dev_char_info list" where
  "part lo m ds \<equiv> take m (drop lo ds)"

lemma part_update: "lo \<le> i \<Longrightarrow> part lo m (ds[i := d]) = (part lo m ds)[i - lo := d]"
  by (simp add: drop_update_swap take_update_swap)

lemma free_slot:
  assumes "lo + m \<le> length ds" and "conn_state d \<noteq> 0"
  obtains (full) "first_index (\<lambda>d. conn_state d = 0) m lo ds = Some None" "size (busy (part lo m ds)) = m"
  | (free) i where "first_index (\<lambda>d. conn_state d = 0) m lo ds = Some (Some i)" "lo \<le> i" "i < lo + m"
      "size (busy (part lo m ds)) < m" "busy (part lo m (ds[i := d])) = add_mset d (busy (part lo m ds))"
      "busy (ds[i := d]) = add_mset d (busy ds)"
proof -
  have len: "length (part lo m ds) = m"
    using assms(1) by simp
  from assms(1) show ?thesis
  proof (cases rule: first_indexE [where p = "\<lambda>d. conn_state d = 0"])
    case none
    have "conn_state (part lo m ds ! k) \<noteq> 0" if "k < length (part lo m ds)" for k
      using none(2) [of "lo + k"] that assms(1) by simp
    then have "size (busy (part lo m ds)) = m"
      using busy_full [of "part lo m ds"] len by simp
    then show ?thesis
      using full none(1) by simp
  next
    case (some i)
    have i: "i - lo < length (part lo m ds)" "i < length ds" "conn_state (part lo m ds ! (i - lo)) = 0"
      using some(2-4) len assms(1) by simp_all
    show ?thesis
    proof (rule free [OF some(1-3)])
      show "size (busy (part lo m ds)) < m"
        using busy_room [OF i(1,3)] len by simp
      show "busy (part lo m (ds[i := d])) = add_mset d (busy (part lo m ds))"
        unfolding part_update [OF some(2)] by (rule busy_put [OF i(1,3) assms(2)])
      show "busy (ds[i := d]) = add_mset d (busy ds)"
        by (rule busy_put [OF i(2) some(4) assms(2)])
    qed
  qed
qed

text \<open>An insertion: it succeeds if the role has a free slot, and the new entry is then in the table.\<close>

definition role_room :: "nat \<Rightarrow> nat \<Rightarrow> u8 \<Rightarrow> devices \<Rightarrow> bool" where
  "role_room cm pm rl s \<longleftrightarrow>
     (rl = ACL_ROLE_CENTRAL \<and> size (busy (take cm (conn_dev_list s))) < cm) \<or>
     (rl = ACL_ROLE_PERIPHERAL \<and> size (busy (drop cm (conn_dev_list s))) < pm)"

definition insert_done :: "nat \<Rightarrow> nat \<Rightarrow> dev_char_info \<Rightarrow> devices \<Rightarrow> (int \<times> devices) option \<Rightarrow> bool" where
  "insert_done cm pm d s res \<longleftrightarrow>
     (if role_room cm pm (conn_role d) s
      then \<exists>i s'. res = Some (i, s') \<and> i \<noteq> INVALID_CONN_IDX \<and> dev_inv cm pm s' \<and>
        busy (conn_dev_list s') = add_mset d (busy (conn_dev_list s))
      else res = Some (INVALID_CONN_IDX, s))"

lemma insert_spec:
  assumes inv: "dev_inv cm pm s" and d: "conn_state d \<noteq> 0"
  shows "insert_done cm pm d s
    (do { (index, s) \<leftarrow> take_slot cm pm (conn_role d) s;
          if index \<noteq> INVALID_CONN_IDX then do { s \<leftarrow> put_slot index d s; Some (index, s) } else Some (index, s) })"
proof -
  let ?ds = "conn_dev_list s"
  note inv' = dev_invD [OF inv]
  have halves: "part 0 cm ?ds = take cm ?ds" "part cm pm ?ds = drop cm ?ds" "part cm pm (?ds[i := d]) = drop cm (?ds[i := d])" for i
    using inv'(2) by simp_all
  have idx: "int i \<noteq> INVALID_CONN_IDX" if "i < cm + pm" for i
    using that inv'(1) by (simp add: INVALID_CONN_IDX_def)
  have roles: "ACL_ROLE_CENTRAL \<noteq> ACL_ROLE_PERIPHERAL"
    by (simp add: ACL_ROLE_CENTRAL_def ACL_ROLE_PERIPHERAL_def)
  consider (c) "conn_role d = ACL_ROLE_CENTRAL" | (p) "conn_role d = ACL_ROLE_PERIPHERAL"
    | (other) "conn_role d \<noteq> ACL_ROLE_CENTRAL" "conn_role d \<noteq> ACL_ROLE_PERIPHERAL"
    by blast
  then show ?thesis
  proof cases
    case c
    have "0 + cm \<le> length ?ds"
      using inv'(2) by simp
    from this d show ?thesis
    proof (cases rule: free_slot)
      case full
      then show ?thesis
        using c roles by (simp add: insert_done_def role_room_def take_slot_def halves)
    next
      case (free i)
      then have "dev_inv cm pm (s\<lparr>acl_conn_central_num := acl_conn_central_num s + 1, conn_dev_list := ?ds[i := d]\<rparr>)"
        using inv c by (auto simp: dev_inv_def)
      then show ?thesis
        using free c idx [of i] inv'(2) by (simp add: insert_done_def role_room_def take_slot_def halves put_slot_def put_byte_Some)
    qed
  next
    case p
    have "cm + pm \<le> length ?ds"
      using inv'(2) by simp
    from this d show ?thesis
    proof (cases rule: free_slot)
      case full
      then show ?thesis
        using p roles by (simp add: insert_done_def role_room_def take_slot_def halves)
    next
      case (free i)
      then have "dev_inv cm pm (s\<lparr>acl_conn_periphr_num := acl_conn_periphr_num s + 1, conn_dev_list := ?ds[i := d]\<rparr>)"
        using inv p by (auto simp: dev_inv_def halves)
      then show ?thesis
        using free p roles idx [of i] inv'(2)
        by (simp add: insert_done_def role_room_def take_slot_def halves put_slot_def put_byte_Some)
    qed
  next
    case other
    then show ?thesis
      by (simp add: insert_done_def role_room_def take_slot_def)
  qed
qed

lemma int_size_remove: "x \<in># M \<Longrightarrow> int (size (M - {#x#})) = int (size M) - 1"
  by (auto dest: multi_member_split)

lemma release_spec:
  assumes inv: "dev_inv cm pm s" and i: "i < cm + pm" "conn_state (conn_dev_list s ! i) \<noteq> 0"
  shows "\<exists>s'. release_slot i s = Some (0, s') \<and> dev_inv cm pm s' \<and> busy (conn_dev_list s') = busy (conn_dev_list s) - {#conn_dev_list s ! i#}"
proof -
  let ?ds = "conn_dev_list s"
  note inv' = dev_invD [OF inv]
  have roles: "ACL_ROLE_CENTRAL \<noteq> ACL_ROLE_PERIPHERAL"
    by (simp add: ACL_ROLE_CENTRAL_def ACL_ROLE_PERIPHERAL_def)
  have len: "i < length ?ds"
    using i inv'(2) by simp
  have all: "busy (?ds[i := dev_zero]) = busy ?ds - {#?ds ! i#}"
    by (rule busy_remove(1) [OF len i(2)])
  show ?thesis
  proof (cases "i < cm")
    case True
    have b: "busy (take cm (?ds[i := dev_zero])) = busy (take cm ?ds) - {#?ds ! i#}" "?ds ! i \<in># busy (take cm ?ds)"
      using busy_remove [of i "take cm ?ds"] True len i(2) part_update [of 0 i cm ?ds dev_zero] by simp_all
    have r: "conn_role (?ds ! i) = ACL_ROLE_CENTRAL"
      by (rule inv'(3) [OF b(2)])
    have "dev_inv cm pm (s\<lparr>acl_conn_central_num := acl_conn_central_num s - 1, conn_dev_list := ?ds[i := dev_zero]\<rparr>)"
      using inv True b by (auto simp: dev_inv_def int_size_remove dest: in_diffD)
    then show ?thesis
      using len r all by (simp add: release_slot_def get_byte_Some put_slot_def put_byte_Some)
  next
    case False
    have b: "busy (drop cm (?ds[i := dev_zero])) = busy (drop cm ?ds) - {#?ds ! i#}" "?ds ! i \<in># busy (drop cm ?ds)"
      using busy_remove [of "i - cm" "drop cm ?ds"] False len i(2) by (simp_all add: drop_update_swap)
    have r: "conn_role (?ds ! i) = ACL_ROLE_PERIPHERAL"
      by (rule inv'(4) [OF b(2)])
    have "dev_inv cm pm (s\<lparr>acl_conn_periphr_num := acl_conn_periphr_num s - 1, conn_dev_list := ?ds[i := dev_zero]\<rparr>)"
      using inv False b by (auto simp: dev_inv_def int_size_remove list_update_beyond take_update_swap dest: in_diffD)
    then show ?thesis
      using len r roles all by (simp add: release_slot_def get_byte_Some put_slot_def put_byte_Some)
  qed
qed

end
