(* ===== verification/Device_Theorems.thy ===== *)
theory Device_Theorems
  imports Device_Manage
begin

text \<open>
  The connection table against a list of connections in the order in which they were made:
  \<open>interpretation connections: simulates\<close> says that every operation by handle gives what the list
  gives, as long as the controller does not reuse the handle of a live connection; and the counters
  count the connections of each role.
\<close>

section \<open>Operations and their reference\<close>

datatype dev_op = Insert dev_char_info | Connect connectionCompleteEvt | ConnectEnhanced connectionCompleteEvt
  | Disconnect u16 | Search u16 | IsConnected u16 | RoleOf u16

datatype dev_out = Done bool | Device "dev_char_info option" | Role int

fun dev_step :: "nat \<Rightarrow> nat \<Rightarrow> dev_op \<Rightarrow> devices \<Rightarrow> (dev_out \<times> devices) option" where
  "dev_step cm pm (Insert d) s = do { (i, s) \<leftarrow> dev_char_info_insert cm pm d s; Some (Done (i \<noteq> INVALID_CONN_IDX), s) }"
| "dev_step cm pm (Connect e) s = do { (i, s) \<leftarrow> dev_char_info_insert_by_conn_event cm pm e s; Some (Done (i \<noteq> INVALID_CONN_IDX), s) }"
| "dev_step cm pm (ConnectEnhanced e) s =
     do { (i, s) \<leftarrow> dev_char_info_insert_by_enhanced_conn_event cm pm e s; Some (Done (i \<noteq> INVALID_CONN_IDX), s) }"
| "dev_step cm pm (Disconnect h) s = do { (r, s) \<leftarrow> dev_char_info_delete_by_connhandle cm pm h s; Some (Done (r = 0), s) }"
| "dev_step cm pm (Search h) s =
     do { f \<leftarrow> dev_char_info_search_by_connhandle cm pm h s;
          d \<leftarrow> (case f of None \<Rightarrow> Some None | Some i \<Rightarrow> do { d \<leftarrow> get_byte (conn_dev_list s) i; Some (Some d) });
          Some (Device d, s) }"
| "dev_step cm pm (IsConnected h) s =
     do { b \<leftarrow> dev_char_info_is_connection_state_by_conn_handle cm pm h s; Some (Done b, s) }"
| "dev_step cm pm (RoleOf h) s = do { r \<leftarrow> dev_char_get_conn_role_by_connhandle cm pm h s; Some (Role r, s) }"

text \<open>The reference: the connections in the order in which they were made.\<close>

definition centrals :: "dev_char_info list \<Rightarrow> nat" where
  "centrals l = length (filter (\<lambda>d. conn_role d = ACL_ROLE_CENTRAL) l)"

definition peripherals :: "dev_char_info list \<Rightarrow> nat" where
  "peripherals l = length (filter (\<lambda>d. conn_role d = ACL_ROLE_PERIPHERAL) l)"

definition spec_connect :: "nat \<Rightarrow> nat \<Rightarrow> dev_char_info \<Rightarrow> dev_char_info list \<Rightarrow> dev_out \<times> dev_char_info list" where
  "spec_connect cm pm d l =
     (if conn_role d = ACL_ROLE_CENTRAL \<and> centrals l < cm \<or> conn_role d = ACL_ROLE_PERIPHERAL \<and> peripherals l < pm
      then (Done True, l @ [d]) else (Done False, l))"

definition spec_find :: "u16 \<Rightarrow> dev_char_info list \<Rightarrow> dev_char_info option" where
  "spec_find h l = List.find (\<lambda>d. conn_handle d = h) l"

fun dev_spec :: "nat \<Rightarrow> nat \<Rightarrow> dev_op \<Rightarrow> dev_char_info list \<Rightarrow> dev_out \<times> dev_char_info list" where
  "dev_spec cm pm (Insert d) l = spec_connect cm pm (d\<lparr>conn_state := 1\<rparr>) l"
| "dev_spec cm pm (Connect e) l = spec_connect cm pm (dev_of_event e) l"
| "dev_spec cm pm (ConnectEnhanced e) l = spec_connect cm pm (dev_of_event e) l"
| "dev_spec cm pm (Disconnect h) l = (Done (spec_find h l \<noteq> None), filter (\<lambda>d. conn_handle d \<noteq> h) l)"
| "dev_spec cm pm (Search h) l = (Device (spec_find h l), l)"
| "dev_spec cm pm (IsConnected h) l = (Done (spec_find h l \<noteq> None), l)"
| "dev_spec cm pm (RoleOf h) l = (Role (case spec_find h l of None \<Rightarrow> 2 | Some d \<Rightarrow> uint (conn_role d)), l)"

text \<open>The controller gives a new connection a handle that no live connection has.\<close>

fun dev_env :: "dev_op \<Rightarrow> dev_char_info list \<Rightarrow> bool" where
  "dev_env (Insert d) l \<longleftrightarrow> conn_handle d \<notin> conn_handle ` set l"
| "dev_env (Connect e) l \<longleftrightarrow> connHandle e \<notin> conn_handle ` set l"
| "dev_env (ConnectEnhanced e) l \<longleftrightarrow> connHandle e \<notin> conn_handle ` set l"
| "dev_env op l \<longleftrightarrow> True"

definition dev_rel :: "nat \<Rightarrow> nat \<Rightarrow> devices \<Rightarrow> dev_char_info list \<Rightarrow> bool" where
  "dev_rel cm pm s l \<longleftrightarrow> dev_inv cm pm s \<and> mset l = busy (conn_dev_list s) \<and> distinct (map conn_handle l)"

section \<open>The simulation\<close>

lemma size_mset_filter: "length (filter P l) = size (filter_mset P (mset l))"
  by (metis mset_filter size_mset)

lemma filter_mset_all: "(\<And>x. x \<in># M \<Longrightarrow> P x) \<Longrightarrow> filter_mset P M = M"
  by (simp add: filter_mset_eq_conv)

lemma filter_mset_none: "(\<And>x. x \<in># M \<Longrightarrow> \<not> P x) \<Longrightarrow> filter_mset P M = {#}"
  by (induction M) auto

lemma role_counts:
  assumes "dev_rel cm pm s l"
  shows "size (busy (take cm (conn_dev_list s))) = centrals l" "size (busy (drop cm (conn_dev_list s))) = peripherals l"
proof -
  let ?c = "busy (take cm (conn_dev_list s))" and ?p = "busy (drop cm (conn_dev_list s))"
  have inv: "dev_inv cm pm s" and l: "mset l = ?c + ?p"
    using assms busy_split [of "conn_dev_list s" cm] by (simp_all add: dev_rel_def)
  have roles: "ACL_ROLE_CENTRAL \<noteq> ACL_ROLE_PERIPHERAL"
    by (simp add: ACL_ROLE_CENTRAL_def ACL_ROLE_PERIPHERAL_def)
  have "filter_mset (\<lambda>d. conn_role d = ACL_ROLE_CENTRAL) ?c = ?c" "filter_mset (\<lambda>d. conn_role d = ACL_ROLE_CENTRAL) ?p = {#}"
      "filter_mset (\<lambda>d. conn_role d = ACL_ROLE_PERIPHERAL) ?c = {#}" "filter_mset (\<lambda>d. conn_role d = ACL_ROLE_PERIPHERAL) ?p = ?p"
    using dev_invD(3,4) [OF inv] roles by (auto intro!: filter_mset_all filter_mset_none)
  then show "size ?c = centrals l" "size ?p = peripherals l"
    by (simp_all add: centrals_def peripherals_def size_mset_filter l)
qed

lemma connect_sim:
  assumes rel: "dev_rel cm pm s l" and d: "conn_state d \<noteq> 0" "conn_handle d \<notin> conn_handle ` set l"
    and ins: "insert_done cm pm d s res"
  shows "\<exists>s'. do { (i, s) \<leftarrow> res; Some (Done (i \<noteq> INVALID_CONN_IDX), s) } = Some (fst (spec_connect cm pm d l), s') \<and>
    dev_rel cm pm s' (snd (spec_connect cm pm d l))"
proof (cases "role_room cm pm (conn_role d) s")
  case True
  then obtain i s' where s': "res = Some (i, s')" "i \<noteq> INVALID_CONN_IDX" "dev_inv cm pm s'"
      "busy (conn_dev_list s') = add_mset d (busy (conn_dev_list s))"
    using ins by (auto simp: insert_done_def)
  have "spec_connect cm pm d l = (Done True, l @ [d])"
    using True role_counts [OF rel] by (simp add: spec_connect_def role_room_def)
  moreover have "dev_rel cm pm s' (l @ [d])"
    using rel s'(3,4) d(2) by (auto simp: dev_rel_def)
  ultimately show ?thesis
    using s'(1,2) by simp
next
  case False
  then have "res = Some (INVALID_CONN_IDX, s)"
    using ins by (simp add: insert_done_def)
  moreover have "spec_connect cm pm d l = (Done False, l)"
    using False role_counts [OF rel] by (simp add: spec_connect_def role_room_def)
  ultimately show ?thesis
    using rel by simp
qed

lemma find_unique: "distinct (map conn_handle l) \<Longrightarrow> d \<in> set l \<Longrightarrow> spec_find (conn_handle d) l = Some d"
  by (induction l) (auto simp: spec_find_def)

lemma find_None: "spec_find h l = None \<longleftrightarrow> (\<forall>d\<in>set l. conn_handle d \<noteq> h)"
  by (auto simp: spec_find_def find_None_iff)

text \<open>The search by handle in the table and in the list.\<close>

lemma search_sim:
  assumes rel: "dev_rel cm pm s l"
  obtains (none) "first_index (connected_as h) (cm + pm) 0 (conn_dev_list s) = Some None" "spec_find h l = None"
  | (some) i where "first_index (connected_as h) (cm + pm) 0 (conn_dev_list s) = Some (Some i)" "i < cm + pm"
      "conn_state (conn_dev_list s ! i) \<noteq> 0" "conn_handle (conn_dev_list s ! i) = h"
      "get_byte (conn_dev_list s) i = Some (conn_dev_list s ! i)" "conn_dev_list s ! i \<in> set l"
      "spec_find h l = Some (conn_dev_list s ! i)"
proof -
  let ?ds = "conn_dev_list s"
  have len: "length ?ds = cm + pm" and dist: "distinct (map conn_handle l)"
    using rel by (auto simp: dev_rel_def dest: dev_invD)
  have l: "set l = {d \<in> set ?ds. conn_state d \<noteq> 0}"
    using rel by (simp add: dev_rel_def busy_def flip: set_mset_mset)
  from len have "0 + (cm + pm) \<le> length ?ds"
    by simp
  then show ?thesis
  proof (cases rule: first_indexE [where p = "connected_as h"])
    case none
    have "\<not> connected_as h d" if "d \<in> set ?ds" for d
      using that none(2) len by (auto simp: in_set_conv_nth)
    then show ?thesis
      using that(1) none(1) l by (auto simp: find_None connected_as_def)
  next
    case (some i)
    then have i: "i < length ?ds" "conn_state (?ds ! i) \<noteq> 0" "conn_handle (?ds ! i) = h" "?ds ! i \<in> set l"
      using len l by (auto simp: connected_as_def)
    then show ?thesis
      using that(2) some(1) len find_unique [OF dist i(4)] by (simp add: get_byte_def)
  qed
qed

lemma disconnect_rel:
  assumes rel: "dev_rel cm pm s l" and d: "d \<in> set l" and s': "dev_inv cm pm s'" "busy (conn_dev_list s') = busy (conn_dev_list s) - {#d#}"
  shows "dev_rel cm pm s' (filter (\<lambda>x. conn_handle x \<noteq> conn_handle d) l)"
proof -
  have dist: "distinct (map conn_handle l)" and l: "mset l = busy (conn_dev_list s)"
    using rel by (simp_all add: dev_rel_def)
  have "filter (\<lambda>x. conn_handle x \<noteq> conn_handle d) l = remove1 d l"
    using dist d
  proof (induction l)
    case (Cons a l)
    show ?case
    proof (cases "d = a")
      case True
      then show ?thesis
        using Cons.prems(1) by (auto simp: filter_id_conv) (metis imageI)
    next
      case False
      then show ?thesis
        using Cons by auto
    qed
  qed simp
  then have "mset (filter (\<lambda>x. conn_handle x \<noteq> conn_handle d) l) = mset l - {#d#}"
    by simp
  then show ?thesis
    using s' l distinct_map_filter [OF dist] by (simp add: dev_rel_def)
qed

lemma dev_step_sim:
  assumes rel: "dev_rel cm pm s l" and env: "dev_env op l"
  shows "\<exists>s'. dev_step cm pm op s = Some (fst (dev_spec cm pm op l), s') \<and> dev_rel cm pm s' (snd (dev_spec cm pm op l))"
proof -
  have inv: "dev_inv cm pm s"
    using rel by (simp add: dev_rel_def)
  have evt: "conn_state (dev_of_event e) \<noteq> 0" "conn_handle (dev_of_event e) = connHandle e" "conn_role (dev_of_event e) = role e" for e
    by (simp_all add: dev_of_event_def)
  show ?thesis
  proof (cases op)
    case (Insert d)
    have "insert_done cm pm (d\<lparr>conn_state := 1\<rparr>) s (dev_char_info_insert cm pm d s)"
      using insert_spec [OF inv, of "d\<lparr>conn_state := 1\<rparr>"] by (simp add: dev_char_info_insert_def)
    from connect_sim [OF rel _ _ this] show ?thesis
      using env by (simp add: Insert)
  next
    case (Connect e)
    have "insert_done cm pm (dev_of_event e) s (dev_char_info_insert_by_conn_event cm pm e s)"
      using insert_spec [OF inv evt(1) [of e]] by (simp add: dev_char_info_insert_by_conn_event_def evt(3))
    from connect_sim [OF rel evt(1) _ this] show ?thesis
      using env by (simp add: Connect evt(2))
  next
    case (ConnectEnhanced e)
    have "insert_done cm pm (dev_of_event e) s (dev_char_info_insert_by_enhanced_conn_event cm pm e s)"
      using insert_spec [OF inv evt(1) [of e]] by (simp add: dev_char_info_insert_by_enhanced_conn_event_def evt(3))
    from connect_sim [OF rel evt(1) _ this] show ?thesis
      using env by (simp add: ConnectEnhanced evt(2))
  next
    case (Disconnect h)
    from rel show ?thesis
    proof (cases rule: search_sim [where h = h])
      case none
      then have "filter (\<lambda>d. conn_handle d \<noteq> h) l = l"
        by (simp add: find_None filter_id_conv)
      then show ?thesis
        using none rel by (simp add: Disconnect dev_char_info_delete_by_connhandle_def)
    next
      case (some i)
      from release_spec [OF inv some(2,3)] obtain s' where s': "release_slot i s = Some (0, s')" "dev_inv cm pm s'"
          "busy (conn_dev_list s') = busy (conn_dev_list s) - {#conn_dev_list s ! i#}"
        by blast
      show ?thesis
        using disconnect_rel [OF rel some(6) s'(2,3)] some s'(1) by (simp add: Disconnect dev_char_info_delete_by_connhandle_def)
    qed
  next
    case (Search h)
    from rel show ?thesis
      by (cases rule: search_sim [where h = h]) (use rel in \<open>simp_all add: Search dev_char_info_search_by_connhandle_def\<close>)
  next
    case (IsConnected h)
    from rel show ?thesis
      by (cases rule: search_sim [where h = h]) (use rel in \<open>simp_all add: IsConnected dev_char_info_is_connection_state_by_conn_handle_def\<close>)
  next
    case (RoleOf h)
    from rel show ?thesis
      by (cases rule: search_sim [where h = h]) (use rel in \<open>simp_all add: RoleOf dev_char_get_conn_role_by_connhandle_def\<close>)
  qed
qed

interpretation connections: simulates "dev_step cm pm" "dev_spec cm pm" dev_env "dev_rel cm pm" for cm pm
  by unfold_locales (rule dev_step_sim)

section \<open>Theorems\<close>

definition dev_new :: "nat \<Rightarrow> nat \<Rightarrow> devices" where
  "dev_new cm pm = \<lparr>conn_dev_list = replicate (cm + pm) dev_zero, acl_conn_central_num = 0, acl_conn_periphr_num = 0\<rparr>"

lemma dev_new_rel: "cm + pm \<le> 255 \<Longrightarrow> dev_rel cm pm (dev_new cm pm) []"
  by (simp add: dev_rel_def dev_inv_def dev_new_def busy_def dev_zero_def)

text \<open>C23: From the empty table on, any sequence of connections, disconnections and queries by handle gives the
  results that the list of live connections gives: a connection is refused exactly when all slots of
  its role are taken, a disconnection removes that connection and no other, a query finds it; and the
  two counters are the numbers of live connections of each role.\<close>

theorem connections_refine_list:
  assumes "cm + pm \<le> 255" and "spec_env (dev_spec cm pm) dev_env ops []"
  shows "\<exists>s. run_out (dev_step cm pm) ops (dev_new cm pm) = Some (fst (spec_out (dev_spec cm pm) ops []), s) \<and>
    acl_conn_central_num s = int (centrals (snd (spec_out (dev_spec cm pm) ops []))) \<and>
    acl_conn_periphr_num s = int (peripherals (snd (spec_out (dev_spec cm pm) ops [])))"
proof -
  obtain s where s: "run_out (dev_step cm pm) ops (dev_new cm pm) = Some (fst (spec_out (dev_spec cm pm) ops []), s)"
      "dev_rel cm pm s (snd (spec_out (dev_spec cm pm) ops []))"
    using connections.run_sim [OF dev_new_rel [OF assms(1)] assms(2)] by blast
  then have "dev_inv cm pm s"
    by (simp add: dev_rel_def)
  then show ?thesis
    using s role_counts [OF s(2)] dev_invD(5,6) by (intro exI [of _ s]) simp
qed

definition dev_trace :: "dev_op list" where
  "dev_trace = [Connect \<lparr>connHandle = 0x80, role = 0, peerAddrType = 0, peerAddr = [1, 2, 3, 4, 5, 6]\<rparr>,
     ConnectEnhanced \<lparr>connHandle = 0x40, role = 1, peerAddrType = 1, peerAddr = [9, 2, 3, 4, 5, 6]\<rparr>,
     Connect \<lparr>connHandle = 0x81, role = 0, peerAddrType = 0, peerAddr = [7, 2, 3, 4, 5, 6]\<rparr>,
     RoleOf 0x40, Disconnect 0x80, IsConnected 0x80, Disconnect 0x80,
     Connect \<lparr>connHandle = 0x80, role = 0, peerAddrType = 0, peerAddr = [1, 2, 3, 4, 5, 6]\<rparr>]"

theorem connections_refine_list_witness:
  "\<exists>s. run_out (dev_step 1 1) dev_trace (dev_new 1 1) =
      Some ([Done True, Done True, Done False, Role 1, Done True, Done False, Done False, Done True], s) \<and>
    acl_conn_central_num s = 1 \<and> acl_conn_periphr_num s = 1"
  using connections_refine_list [of 1 1 dev_trace]
  by (simp add: dev_trace_def spec_connect_def spec_find_def centrals_def peripherals_def dev_of_event_def
    ACL_ROLE_CENTRAL_def ACL_ROLE_PERIPHERAL_def Let_def)

text \<open>The search by address does not look at the connection state: in a table without any connection the
  address of zeros is found, in the first slot.\<close>

theorem search_mac_finds_free_slot:
  assumes "0 < cm + pm"
  shows "dev_char_info_search_by_peer_mac_address cm pm 0 (replicate 6 0) (dev_new cm pm) = Some (Some 0)"
proof -
  obtain n where "cm + pm = Suc n"
    using assms by (cases "cm + pm") auto
  then show ?thesis
    by (simp add: dev_char_info_search_by_peer_mac_address_def IS_RESOLVABLE_PRIVATE_ADDR_def dev_new_def get_byte_def dev_zero_def)
qed

theorem search_mac_finds_free_slot_witness:
  "dev_char_info_search_by_peer_mac_address 4 4 0 (replicate 6 0) (dev_new 4 4) = Some (Some 0)"
  by (rule search_mac_finds_free_slot) simp

end
