(* ===== verification/Printf.thy ===== *)
theory Printf
  imports C_Prelude
begin

text \<open>
  The two formatted printers of the SDK: \<^verbatim>\<open>application/print/u_printf.c\<close> and
  \<^verbatim>\<open>drivers/TC123X/printf.c\<close>, and the software UART below them (\<^verbatim>\<open>putchar.c\<close>).  A C string is the
  list of the bytes from its address to the end of the memory it lies in; its text ends at the first
  zero byte, and reading on behind the memory is \<open>None\<close>, as is writing behind an output buffer.
  An integer argument is a word of 32 bits, a string argument the memory it points to; the null
  pointer is the integer 0, and the numeric value of another pointer is not modelled (\<open>None\<close>).
  Signed overflow of a field width is \<open>None\<close>; the negation of the smallest \<open>int\<close> wraps around.
\<close>

section \<open>Output\<close>

abbreviation (input) ch_space :: u8 where "ch_space \<equiv> 32"
abbreviation (input) ch_percent :: u8 where "ch_percent \<equiv> 37"
abbreviation (input) ch_star :: u8 where "ch_star \<equiv> 42"
abbreviation (input) ch_minus :: u8 where "ch_minus \<equiv> 45"
abbreviation (input) ch_0 :: u8 where "ch_0 \<equiv> 48"
abbreviation (input) ch_9 :: u8 where "ch_9 \<equiv> 57"
abbreviation (input) ch_colon :: u8 where "ch_colon \<equiv> 58"
abbreviation (input) ch_A :: u8 where "ch_A \<equiv> 65"
abbreviation (input) ch_X :: u8 where "ch_X \<equiv> 88"
abbreviation (input) ch_a :: u8 where "ch_a \<equiv> 97"
abbreviation (input) ch_c :: u8 where "ch_c \<equiv> 99"
abbreviation (input) ch_d :: u8 where "ch_d \<equiv> 100"
abbreviation (input) ch_s :: u8 where "ch_s \<equiv> 115"
abbreviation (input) ch_u :: u8 where "ch_u \<equiv> 117"
abbreviation (input) ch_x :: u8 where "ch_x \<equiv> 120"
abbreviation (input) ch_lbrace :: u8 where "ch_lbrace \<equiv> 123"
abbreviation (input) ch_rbrace :: u8 where "ch_rbrace \<equiv> 125"
abbreviation (input) ch_newline :: u8 where "ch_newline \<equiv> 10"

text \<open>The console, with what has been written to it, or a buffer with the place of the next byte.\<close>

datatype sink = Console "u8 list" | Buffer "u8 list" nat

datatype va = VInt u32 | VStr "u8 list"

fun printchar :: "sink \<Rightarrow> u8 \<Rightarrow> sink option" where
  "printchar (Buffer b p) c = do { b \<leftarrow> put_byte b p c; Some (Buffer b (p + 1)) }"
| "printchar (Console xs) c = Some (Console (xs @ [c]))"

section \<open>u_printf.c\<close>

definition PAD_RIGHT :: u32 where "PAD_RIGHT = 1"
definition PAD_ZERO :: u32 where "PAD_ZERO = 2"
definition PRINT_BUF_LEN :: nat where "PRINT_BUF_LEN = 12"

text \<open>The three loops of \<open>prints\<close>: the length, the padding and the text.\<close>

fun str_len :: "u8 list \<Rightarrow> int option" where
  "str_len [] = None"
| "str_len (c # s) = (if c = 0 then Some 0 else do { n \<leftarrow> str_len s; Some (n + 1) })"

function pad_loop :: "sink \<Rightarrow> u8 \<Rightarrow> int \<Rightarrow> int \<Rightarrow> (sink \<times> int \<times> int) option" where
  "pad_loop out padchar width pc =
     (if 0 < width
      then (case printchar out padchar of None \<Rightarrow> None | Some out \<Rightarrow> pad_loop out padchar (width - 1) (pc + 1))
      else Some (out, width, pc))"
  by pat_completeness auto
termination
  by (relation "measure (\<lambda>(out, padchar, width, pc). nat width)") auto

declare pad_loop.simps [simp del]

fun str_loop :: "sink \<Rightarrow> u8 list \<Rightarrow> int \<Rightarrow> (sink \<times> int) option" where
  "str_loop out [] pc = None"
| "str_loop out (c # s) pc =
     (if c = 0 then Some (out, pc) else do { out \<leftarrow> printchar out c; str_loop out s (pc + 1) })"

definition prints :: "sink \<Rightarrow> u8 list \<Rightarrow> int \<Rightarrow> u32 \<Rightarrow> (sink \<times> int) option" where
  "prints out string width pad = do {
     (width, padchar) \<leftarrow>
       (if 0 < width then do {
          len \<leftarrow> str_len string;
          Some (if width \<le> len then 0 else width - len, if pad AND PAD_ZERO \<noteq> 0 then ch_0 else ch_space) }
        else Some (width, ch_space));
     (out, width, pc) \<leftarrow>
       (if pad AND PAD_RIGHT = 0 then pad_loop out padchar width 0 else Some (out, width, 0));
     (out, pc) \<leftarrow> str_loop out string pc;
     (out, width, pc) \<leftarrow> pad_loop out padchar width pc;
     Some (out, pc) }"

text \<open>The digits go down from \<open>s\<close> in \<open>print_buf\<close>; no room below its start is \<open>None\<close>.\<close>

fun digit_loop :: "u8 list \<Rightarrow> nat \<Rightarrow> u32 \<Rightarrow> u32 \<Rightarrow> u32 \<Rightarrow> (u8 list \<times> nat) option" where
  "digit_loop buf 0 u b letbase = (if u = 0 then Some (buf, 0) else None)"
| "digit_loop buf (Suc s) u b letbase =
     (if u = 0 then Some (buf, Suc s)
      else
        (let t = u mod b;
             t = (if 10 \<le> t then t + (letbase - 48 - 10) else t)
         in do { buf \<leftarrow> put_byte buf s (ucast (t + 48)); digit_loop buf s (u div b) b letbase }))"

definition printi :: "sink \<Rightarrow> u32 \<Rightarrow> u32 \<Rightarrow> bool \<Rightarrow> int \<Rightarrow> u32 \<Rightarrow> u32 \<Rightarrow> (sink \<times> int) option" where
  "printi out i b sg width pad letbase =
     (let print_buf = replicate PRINT_BUF_LEN 0 in
      if i = 0 then prints out (ch_0 # 0 # drop 2 print_buf) width pad
      else
        (let neg = (sg \<and> b = 10 \<and> sint i < 0);
             u = (if neg then - i else i)
         in do {
           print_buf \<leftarrow> put_byte print_buf (PRINT_BUF_LEN - 1) 0;
           (print_buf, s) \<leftarrow> digit_loop print_buf (PRINT_BUF_LEN - 1) u b letbase;
           if neg then
             if width \<noteq> 0 \<and> pad AND PAD_ZERO \<noteq> 0 then do {
               out \<leftarrow> printchar out ch_minus;
               (out, n) \<leftarrow> prints out (drop s print_buf) (width - 1) pad;
               Some (out, 1 + n) }
             else if s = 0 then None
             else do {
               print_buf \<leftarrow> put_byte print_buf (s - 1) ch_minus;
               prints out (drop (s - 1) print_buf) width pad }
           else prints out (drop s print_buf) width pad }))"

text \<open>The scanning loops of \<open>print\<close>.  An \<open>int\<close> is below \<open>2 ^ 31\<close>.\<close>

fun zero_flags :: "u8 list \<Rightarrow> u32 \<Rightarrow> (u8 list \<times> u32) option" where
  "zero_flags [] pad = None"
| "zero_flags (c # fmt) pad = (if c = ch_0 then zero_flags fmt (pad OR PAD_ZERO) else Some (c # fmt, pad))"

fun width_digits :: "u8 list \<Rightarrow> int \<Rightarrow> (u8 list \<times> int) option" where
  "width_digits [] width = None"
| "width_digits (c # fmt) width =
     (if ch_0 \<le> c \<and> c \<le> ch_9
      then
        (let width = width * 10 + (int (unat c) - 48) in
         if width < 2 ^ 31 then width_digits fmt width else None)
      else Some (c # fmt, width))"

definition null_text :: "u8 list" where
  "null_text = [40, 110, 117, 108, 108, 41, 0]"

text \<open>\<open>conversion\<close>: from the character behind the flags and the width; the arguments that remain.\<close>

definition conversion :: "sink \<Rightarrow> u8 \<Rightarrow> int \<Rightarrow> u32 \<Rightarrow> va list \<Rightarrow> (sink \<times> int \<times> va list) option" where
  "conversion out c width pad args =
     (if c \<in> {ch_s, ch_d, ch_x, ch_X, ch_u, ch_c} then
        (case args of
           [] \<Rightarrow> None
         | VStr s # args \<Rightarrow>
             if c = ch_s then do { (out, n) \<leftarrow> prints out s width pad; Some (out, n, args) } else None
         | VInt i # args \<Rightarrow> do {
             (out, n) \<leftarrow>
               (if c = ch_s then if i = 0 then prints out null_text width pad else None
                else if c = ch_d then printi out i 10 True width pad 97
                else if c = ch_x then printi out i 16 False width pad 97
                else if c = ch_X then printi out i 16 False width pad 65
                else if c = ch_u then printi out i 10 False width pad 97
                else prints out [ucast i, 0] width pad);
             Some (out, n, args) })
      else Some (out, 0, args))"

text \<open>
  One round of the loop of \<open>print\<close> at a character other than the terminator: the sink, the characters
  printed, the rest of the format, the arguments left, and whether \<open>break\<close> was taken.
\<close>

definition print_step :: "sink \<Rightarrow> u8 \<Rightarrow> u8 list \<Rightarrow> va list \<Rightarrow> (sink \<times> int \<times> u8 list \<times> va list \<times> bool) option" where
  "print_step out c fmt args =
     (if c = ch_percent then
        (case fmt of
           [] \<Rightarrow> None
         | d # fmt' \<Rightarrow>
             if d = 0 then Some (out, 0, fmt, args, True)
             else if d = ch_percent then do { out \<leftarrow> printchar out d; Some (out, 1, fmt', args, False) }
             else do {
               let (fmt, pad) = (if d = ch_minus then (fmt', PAD_RIGHT) else (fmt, 0));
               (fmt, pad) \<leftarrow> zero_flags fmt pad;
               (fmt, width) \<leftarrow> width_digits fmt 0;
               (out, n, args) \<leftarrow> conversion out (hd fmt) width pad args;
               Some (out, n, tl fmt, args, False) })
      else do { out \<leftarrow> printchar out c; Some (out, 1, fmt, args, False) })"

lemma zero_flags_shrinks: "zero_flags fmt pad = Some (fmt', pad') \<Longrightarrow> length fmt' \<le> length fmt \<and> fmt' \<noteq> []"
  by (induction fmt pad rule: zero_flags.induct) (auto split: if_splits)

lemma width_digits_shrinks: "width_digits fmt w = Some (fmt', w') \<Longrightarrow> length fmt' \<le> length fmt \<and> fmt' \<noteq> []"
  by (induction fmt w rule: width_digits.induct) (auto simp: Let_def split: if_splits)

lemma print_step_shrinks:
  "print_step out c fmt args = Some (out', n, fmt', args', brk) \<Longrightarrow> length fmt' \<le> length fmt"
  by (auto simp: print_step_def Let_def bind_eq_Some_conv split: if_splits list.splits
      dest!: zero_flags_shrinks width_digits_shrinks)

function print_loop :: "sink \<Rightarrow> u8 list \<Rightarrow> va list \<Rightarrow> int \<Rightarrow> (sink \<times> int) option" where
  "print_loop out [] args pc = None"
| "print_loop out (c # fmt) args pc =
     (if c = 0 then Some (out, pc)
      else case print_step out c fmt args of
        None \<Rightarrow> None
      | Some (out, n, fmt, args, brk) \<Rightarrow> if brk then Some (out, pc + n) else print_loop out fmt args (pc + n))"
  by pat_completeness auto
termination
  by (relation "measure (\<lambda>(out, fmt, args, pc). length fmt)") (auto dest!: print_step_shrinks)

declare print_loop.simps(2) [simp del]

fun terminate_sink :: "sink \<Rightarrow> sink option" where
  "terminate_sink (Buffer b p) = do { b \<leftarrow> put_byte b p 0; Some (Buffer b p) }"
| "terminate_sink (Console xs) = Some (Console xs)"

definition print :: "sink \<Rightarrow> u8 list \<Rightarrow> va list \<Rightarrow> (sink \<times> int) option" where
  "print out format args = do {
     (out, pc) \<leftarrow> print_loop out format args 0;
     out \<leftarrow> terminate_sink out;
     Some (out, pc) }"

definition u_printf :: "u8 list \<Rightarrow> u8 list \<Rightarrow> va list \<Rightarrow> (u8 list \<times> int) option" where
  "u_printf cons format args = do {
     (out, pc) \<leftarrow> print (Console cons) format args;
     (case out of Console cons \<Rightarrow> Some (cons, pc) | Buffer b p \<Rightarrow> None) }"

definition v_printf :: "u8 list \<Rightarrow> u8 list \<Rightarrow> va list \<Rightarrow> (u8 list \<times> int) option" where
  "v_printf cons format args = do {
     (out, pc) \<leftarrow> print (Console cons) format args;
     (case out of Console cons \<Rightarrow> Some (cons, 0) | Buffer b p \<Rightarrow> None) }"

definition u_sprintf :: "u8 list \<Rightarrow> u8 list \<Rightarrow> va list \<Rightarrow> (u8 list \<times> int) option" where
  "u_sprintf out format args = do {
     (out, pc) \<leftarrow> print (Buffer out 0) format args;
     (case out of Buffer b p \<Rightarrow> Some (b, pc) | Console cons \<Rightarrow> None) }"

text \<open>\<open>len - 1\<close> is unsigned; \<open>i\<close> counts up from 0 to \<open>len\<close>.\<close>

fun array_loop :: "u8 list \<Rightarrow> u8 list \<Rightarrow> nat \<Rightarrow> u32 \<Rightarrow> nat \<Rightarrow> u8 list option" where
  "array_loop cons data i len 0 = Some cons"
| "array_loop cons data i len (Suc m) = do {
     d \<leftarrow> get_byte data i;
     (cons, n) \<leftarrow> u_printf cons [ch_percent, ch_X, ch_percent, ch_s, 0]
       [VInt (ucast d), VStr (if of_nat i < len - 1 then [ch_colon, 0] else [ch_space, 0])];
     array_loop cons data (i + 1) len m }"

definition u_array_printf :: "u8 list \<Rightarrow> u8 list \<Rightarrow> u32 \<Rightarrow> u8 list option" where
  "u_array_printf cons data len = do {
     (cons, n) \<leftarrow> u_printf cons [ch_lbrace, 0] [];
     cons \<leftarrow> array_loop cons data 0 len (unat len);
     (cons, n) \<leftarrow> u_printf cons [ch_rbrace, ch_newline, 0] [];
     Some cons }"

section \<open>What the loops print\<close>

fun emit :: "sink \<Rightarrow> u8 list \<Rightarrow> sink option" where
  "emit out [] = Some out"
| "emit out (c # cs) = do { out \<leftarrow> printchar out c; emit out cs }"

lemma emit_append: "emit out (xs @ ys) = do { out \<leftarrow> emit out xs; emit out ys }"
  by (induction xs arbitrary: out) (auto simp: bind_eq_None_conv intro!: Option.bind_cong)

lemma emit_console: "emit (Console xs) ys = Some (Console (xs @ ys))"
  by (induction ys arbitrary: xs) auto

lemma emit_buffer:
  "p \<le> length b \<Longrightarrow> emit (Buffer b p) xs =
    (if p + length xs \<le> length b
     then Some (Buffer (take p b @ xs @ drop (p + length xs) b) (p + length xs)) else None)"
proof (induction xs arbitrary: b p)
  case (Cons x xs)
  show ?case
  proof (cases "p < length b")
    case True
    then show ?thesis
      using Cons.IH [of "p + 1" "b[p := x]"] by (simp add: put_byte_Some take_Suc_update drop_update_cancel)
  qed (use Cons.prems in \<open>simp add: put_byte_def\<close>)
qed simp

lemma pad_loop_emit:
  "pad_loop out c w pc = do { out \<leftarrow> emit out (replicate (nat w) c); Some (out, min w 0, pc + int (nat w)) }"
proof (induction out c w pc rule: pad_loop.induct)
  case (1 out c w pc)
  show ?case
  proof (cases "0 < w")
    case True
    then have "replicate (nat w) c = c # replicate (nat (w - 1)) c" "int (nat w) = 1 + int (nat (w - 1))"
      "min w 0 = min (w - 1) 0"
      by (simp_all add: nat_diff_distrib' flip: replicate_Suc)
    then show ?thesis
      using 1 [OF True] True by (subst pad_loop.simps) (auto split: option.split simp: add.assoc)
  qed (simp add: pad_loop.simps)
qed

lemma str_len_text: "0 \<notin> set s \<Longrightarrow> str_len (s @ 0 # r) = Some (int (length s))"
  by (induction s) auto

lemma str_loop_emit:
  "0 \<notin> set s \<Longrightarrow> str_loop out (s @ 0 # r) pc = do { out \<leftarrow> emit out s; Some (out, pc + int (length s)) }"
  by (induction s arbitrary: out pc) (auto simp: add.assoc intro!: Option.bind_cong)

definition padded :: "u8 list \<Rightarrow> int \<Rightarrow> u32 \<Rightarrow> u8 list" where
  "padded s w pad =
     (let p = replicate (nat (w - int (length s))) (if pad AND PAD_ZERO \<noteq> 0 then ch_0 else ch_space)
      in if pad AND PAD_RIGHT = 0 then p @ s else s @ p)"

lemma length_padded: "int (length (padded s w pad)) = max (int (length s)) w"
  by (simp add: padded_def Let_def max_def)

lemma prints_padded:
  assumes "0 \<notin> set s"
  shows "prints out (s @ 0 # r) w pad =
    do { out \<leftarrow> emit out (padded s w pad); Some (out, int (length (padded s w pad))) }"
proof (cases "0 < w \<and> int (length s) < w")
  case True
  then show ?thesis
    using assms by (cases "pad AND PAD_RIGHT = 0")
      (auto simp: prints_def str_len_text pad_loop_emit str_loop_emit padded_def Let_def emit_append
        intro!: Option.bind_cong)
next
  case False
  then show ?thesis
    using assms by (cases "pad AND PAD_RIGHT = 0")
      (auto simp: prints_def str_len_text pad_loop_emit str_loop_emit padded_def Let_def emit_append
        intro!: Option.bind_cong)
qed

section \<open>Numbers\<close>

text \<open>The digits of a number in base \<open>b\<close>, the most significant one first, and their value.\<close>

fun nat_digits :: "nat \<Rightarrow> nat \<Rightarrow> nat list" where
  "nat_digits b n = (if n < b \<or> b < 2 then [n] else nat_digits b (n div b) @ [n mod b])"

declare nat_digits.simps [simp del]

definition digits_value :: "nat \<Rightarrow> nat list \<Rightarrow> nat" where
  "digits_value b ds = foldl (\<lambda>v d. v * b + d) 0 ds"

lemma digits_value_nat_digits: "digits_value b (nat_digits b n) = n"
proof (induction b n rule: nat_digits.induct)
  case (1 b n)
  then show ?case
    by (subst nat_digits.simps) (auto simp: digits_value_def)
qed

lemma nat_digits_less: "2 \<le> b \<Longrightarrow> d \<in> set (nat_digits b n) \<Longrightarrow> d < b"
proof (induction b n rule: nat_digits.induct)
  case (1 b n)
  from 1(3) have "d \<in> set (if n < b \<or> b < 2 then [n] else nat_digits b (n div b) @ [n mod b])"
    by (subst (asm) nat_digits.simps)
  then show ?case
    using 1 by (auto split: if_splits)
qed

lemma nat_digits_Nil [simp]: "nat_digits b n \<noteq> []"
  by (subst nat_digits.simps) simp

lemma length_nat_digits: "2 \<le> b \<Longrightarrow> n < b ^ k \<Longrightarrow> 0 < k \<Longrightarrow> length (nat_digits b n) \<le> k"
proof (induction k arbitrary: n)
  case (Suc k)
  show ?case
  proof (cases "n < b")
    case False
    then have "0 < k"
      using Suc.prems by (cases k) auto
    moreover have "n div b < b ^ k"
      using Suc.prems by (simp add: less_mult_imp_div_less mult.commute)
    ultimately show ?thesis
      using Suc.IH [of "n div b"] Suc.prems False by (subst nat_digits.simps) simp
  qed (simp add: nat_digits.simps)
qed simp

definition digit_char :: "u32 \<Rightarrow> nat \<Rightarrow> u8" where
  "digit_char letbase d =
     ucast ((if 10 \<le> d then of_nat d + (letbase - 48 - 10) else of_nat d :: u32) + 48)"

definition base_text :: "u32 \<Rightarrow> nat \<Rightarrow> nat \<Rightarrow> u8 list" where
  "base_text letbase b n = map (digit_char letbase) (nat_digits b n)"

lemma digit_char_word:
  "ucast ((if 10 \<le> t then t + (lb - 48 - 10) else t) + 48 :: u32) = digit_char lb (unat t)"
  by (simp add: digit_char_def word_le_nat_alt)

lemma digit_loop_base_text:
  assumes "2 \<le> b" and "u \<noteq> 0" and "length (nat_digits (unat b) (unat u)) \<le> s" and "s \<le> length buf"
  shows "digit_loop buf s u b lb =
    (let tx = base_text lb (unat b) (unat u)
     in Some (take (s - length tx) buf @ tx @ drop s buf, s - length tx))"
  using assms
proof (induction s arbitrary: u buf)
  case (Suc s)
  have b: "2 \<le> unat b"
    using Suc.prems(1) by (simp add: word_le_nat_alt)
  let ?c = "digit_char lb (unat u mod unat b)"
  have len: "s < length buf"
    using Suc.prems(4) by simp
  have step: "digit_loop buf (Suc s) u b lb = digit_loop (buf[s := ?c]) s (u div b) b lb"
    using Suc.prems(2) len by (simp add: Let_def put_byte_Some digit_char_word unat_mod)
  show ?case
  proof (cases "unat u < unat b")
    case True
    then have 0: "u div b = 0" "unat u mod unat b = unat u"
      by (simp_all add: word_unat_eq_iff unat_div)
    have end0: "digit_loop buf' s 0 b lb = Some (buf', s)" for buf'
      by (cases s) auto
    from True have "nat_digits (unat b) (unat u) = [unat u]"
      by (subst nat_digits.simps) simp
    then show ?thesis
      using len 0 unfolding step 0(1) end0 by (simp add: 0(2) base_text_def Let_def upd_conv_take_nth_drop)
  next
    case False
    then have d: "u div b \<noteq> 0"
      using b by (simp add: word_unat_eq_iff unat_div div_eq_0_iff)
    have ds: "nat_digits (unat b) (unat u) = nat_digits (unat b) (unat (u div b)) @ [unat u mod unat b]"
      using False b by (subst nat_digits.simps) (simp add: unat_div)
    have k: "length (nat_digits (unat b) (unat (u div b))) \<le> s"
      using Suc.prems(3) ds by simp
    show ?thesis
      using Suc.IH [OF Suc.prems(1) d k, of "buf[s := ?c]"] len k
      unfolding step by (simp add: ds base_text_def Let_def drop_update_cancel upd_conv_take_nth_drop)
  qed
qed (simp add: Let_def)

lemma digit_char_not_0: "d < 16 \<Longrightarrow> letbase \<in> {97, 65} \<Longrightarrow> digit_char letbase d \<noteq> 0"
proof -
  have "\<forall>d \<in> set [0..<16]. digit_char 97 d \<noteq> 0 \<and> digit_char 65 d \<noteq> 0"
    by code_simp
  then show "d < 16 \<Longrightarrow> letbase \<in> {97, 65} \<Longrightarrow> digit_char letbase d \<noteq> 0"
    by auto
qed

lemma base_text_not_0: "2 \<le> b \<Longrightarrow> b \<le> 16 \<Longrightarrow> letbase \<in> {97, 65} \<Longrightarrow> 0 \<notin> set (base_text letbase b n)"
  using nat_digits_less [of b _ n] digit_char_not_0 [of _ letbase]
  by (auto simp: base_text_def) (metis less_le_trans)+

text \<open>What a conversion of an integer prints.\<close>

definition number_text :: "nat \<Rightarrow> bool \<Rightarrow> u32 \<Rightarrow> int \<Rightarrow> u32 \<Rightarrow> u32 \<Rightarrow> u8 list" where
  "number_text b sg letbase width pad i =
     (if sg \<and> b = 10 \<and> sint i < 0 then
        (let digits = base_text letbase b (nat (- sint i)) in
         if width \<noteq> 0 \<and> pad AND PAD_ZERO \<noteq> 0 then ch_minus # padded digits (width - 1) pad
         else padded (ch_minus # digits) width pad)
      else padded (base_text letbase b (unat i)) width pad)"

lemma unat_minus_sint: "sint (i :: u32) < 0 \<Longrightarrow> unat (- i) = nat (- sint i)"
proof -
  assume neg: "sint i < 0"
  have "- (2 ^ 31) \<le> sint i"
    using sint_ge [of i] by simp
  then have "take_bit 32 (- sint i) = - sint i"
    using neg by (simp add: take_bit_eq_mod)
  with neg have "uint (of_int (- sint i) :: u32) = - sint i"
    by (simp only: unsigned_of_int) simp
  then have "nat (uint (of_int (- sint i) :: u32)) = nat (- sint i)"
    by (rule arg_cong)
  then show "unat (- i) = nat (- sint i)"
    by simp
qed

lemma unat_sint: "0 \<le> sint (i :: u32) \<Longrightarrow> int (unat i) = sint i"
proof -
  assume pos: "0 \<le> sint i"
  have "sint i < 2 ^ 31"
    using sint_lt [of i] by simp
  then have "take_bit 32 (sint i) = sint i"
    using pos by (simp add: take_bit_eq_mod)
  moreover have "uint (of_int (sint i) :: u32) = take_bit 32 (sint i)"
    by (simp only: unsigned_of_int) simp
  ultimately show "int (unat i) = sint i"
    by simp
qed

lemma base_text_0: "2 \<le> b \<Longrightarrow> base_text letbase b 0 = [ch_0]"
  by (subst base_text_def, subst nat_digits.simps) (simp add: digit_char_def)

text \<open>\<open>print_buf\<close> of twelve bytes is enough for every number in base 10 or 16.\<close>

lemma print_buf_digits:
  assumes "u \<noteq> 0" and "b = 10 \<or> b = 16"
  obtains tx where "tx = base_text lb (unat b) (unat (u :: u32))" "length tx \<le> 10" "0 < length tx"
    "digit_loop (replicate PRINT_BUF_LEN 0) 11 u b lb = Some (replicate (11 - length tx) 0 @ tx @ [0], 11 - length tx)"
proof -
  have ub: "unat b = 10 \<or> unat b = 16"
    using assms(2) by auto
  have "unat u < 4294967296"
    by (rule unat_bound(3))
  moreover have "(4294967296::nat) \<le> 10 ^ 10" "(4294967296::nat) \<le> 16 ^ 10"
    by simp_all
  ultimately have "unat u < unat b ^ 10"
    using ub by (metis order_less_le_trans)
  then have k: "length (nat_digits (unat b) (unat u)) \<le> 10"
    using ub by (intro length_nat_digits) auto
  let ?t = "base_text lb (unat b) (unat u)"
  have lt: "length ?t \<le> 10" "0 < length ?t"
    using k by (simp_all add: base_text_def)
  have b2: "2 \<le> b"
    using ub by (auto simp: word_le_nat_alt)
  have "digit_loop (replicate PRINT_BUF_LEN 0) 11 u b lb = Some (replicate (11 - length ?t) 0 @ ?t @ [0], 11 - length ?t)"
    using digit_loop_base_text [OF b2 assms(1), of 11 "replicate PRINT_BUF_LEN 0" lb] k lt
    by (simp add: PRINT_BUF_LEN_def Let_def take_replicate)
  then show thesis
    using that lt by blast
qed

lemma printi_text:
  assumes b: "b = 10 \<or> b = 16" and lb: "lb \<in> {97, 65}"
  shows "printi out i b sg width pad lb =
    (let tx = number_text (unat b) sg lb width pad i
     in do { out \<leftarrow> emit out tx; Some (out, int (length tx)) })"
proof (cases "i = 0")
  case True
  have "printi out i b sg width pad lb = prints out ([ch_0] @ 0 # replicate 10 0) width pad"
    using True by (simp add: printi_def PRINT_BUF_LEN_def)
  also have "\<dots> = do { out \<leftarrow> emit out (padded [ch_0] width pad); Some (out, int (length (padded [ch_0] width pad))) }"
    by (rule prints_padded) simp
  finally show ?thesis
    using True b by (auto simp: number_text_def base_text_0 Let_def)
next
  case False
  define neg where "neg = (sg \<and> b = 10 \<and> sint i < 0)"
  define u where "u = (if neg then - i else i)"
  have u: "u \<noteq> 0"
    using False by (simp add: u_def)
  obtain tx where tx: "tx = base_text lb (unat b) (unat u)" "length tx \<le> 10" "0 < length tx"
    and dl: "digit_loop (replicate PRINT_BUF_LEN 0) 11 u b lb = Some (replicate (11 - length tx) 0 @ tx @ [0], 11 - length tx)"
    using print_buf_digits [OF u b] .
  have dl': "digit_loop (replicate PRINT_BUF_LEN 0) (PRINT_BUF_LEN - 1) u b lb =
      Some (replicate (11 - length tx) 0 @ tx @ [0], 11 - length tx)"
    using dl by (simp add: PRINT_BUF_LEN_def)
  have put: "put_byte (replicate PRINT_BUF_LEN 0) (PRINT_BUF_LEN - 1) (0 :: u8) = Some (replicate PRINT_BUF_LEN 0)"
    by (simp add: put_byte_def PRINT_BUF_LEN_def list_update_same_conv)
  have nz: "0 \<notin> set tx"
    using b lb base_text_not_0 [of "unat b" lb "unat u"] by (auto simp: tx)
  let ?rest = "if neg then
             if width \<noteq> 0 \<and> pad AND PAD_ZERO \<noteq> 0 then do {
               out \<leftarrow> printchar out ch_minus;
               (out, n) \<leftarrow> prints out (tx @ [0]) (width - 1) pad;
               Some (out, 1 + n) }
             else prints out ((ch_minus # tx) @ [0]) width pad
           else prints out (tx @ [0]) width pad"
  have "put_byte (replicate (11 - length tx) 0 @ tx @ [0]) (11 - length tx - 1) ch_minus =
      Some (replicate (11 - length tx - 1) 0 @ ch_minus # tx @ [0])"
  proof -
    have "11 - length tx = Suc (11 - length tx - 1)"
      using tx(2) by simp
    then have "replicate (11 - length tx) (0 :: u8) = replicate (11 - length tx - 1) 0 @ [0]"
      by (metis replicate_Suc replicate_append_same)
    then show ?thesis
      using tx(2) by (simp add: put_byte_def list_update_append)
  qed
  then have "printi out i b sg width pad lb = ?rest"
    unfolding printi_def Let_def neg_def [symmetric] u_def [symmetric] put dl' Option.bind_lunit
    using False tx(2) by simp
  also have "\<dots> = (let tx = number_text (unat b) sg lb width pad i
     in do { out \<leftarrow> emit out tx; Some (out, int (length tx)) })"
  proof (cases neg)
    case True
    then have num: "unat u = nat (- sint i)" "unat b = 10" "sg" "sint i < 0"
      using unat_minus_sint by (auto simp: u_def neg_def)
    have nz': "0 \<notin> set (ch_minus # tx)"
      using nz by simp
    show ?thesis
      using True num unfolding prints_padded [OF nz] prints_padded [OF nz']
      by (auto simp: number_text_def tx(1) Let_def intro!: Option.bind_cong)
  next
    case False
    then have "number_text (unat b) sg lb width pad i = padded tx width pad"
      using b by (auto simp: number_text_def tx(1) u_def neg_def)
    then show ?thesis
      using False by (simp add: prints_padded [OF nz] Let_def)
  qed
  finally show ?thesis .
qed

section \<open>Formats\<close>

text \<open>
  A format as the list of what it says: plain characters, \<open>%%\<close>, and conversions with the two flags, a
  field width (0 for none) and the conversion character.
\<close>

datatype directive = Lit u8 | Percent | Conv (left: bool) (zeros: bool) (width: nat) (letter: u8)

fun format_of :: "directive list \<Rightarrow> u8 list" where
  "format_of [] = []"
| "format_of (Lit c # ds) = c # format_of ds"
| "format_of (Percent # ds) = ch_percent # ch_percent # format_of ds"
| "format_of (Conv l z w c # ds) =
     ch_percent # (if l then [ch_minus] else []) @ (if z then [ch_0] else [])
       @ (if w = 0 then [] else base_text 97 10 w) @ c # format_of ds"

fun wf_format :: "directive list \<Rightarrow> bool" where
  "wf_format [] \<longleftrightarrow> True"
| "wf_format (Lit c # ds) \<longleftrightarrow> c \<noteq> 0 \<and> c \<noteq> ch_percent \<and> wf_format ds"
| "wf_format (Percent # ds) \<longleftrightarrow> wf_format ds"
| "wf_format (Conv l z w c # ds) \<longleftrightarrow>
     w < 2 ^ 31 \<and> c \<in> {ch_s, ch_d, ch_x, ch_X, ch_u, ch_c} \<and> wf_format ds"

fun conv_text :: "u8 \<Rightarrow> int \<Rightarrow> u32 \<Rightarrow> va \<Rightarrow> u8 list option" where
  "conv_text c w pad (VStr s) =
     (if c = ch_s \<and> 0 \<in> set s then Some (padded (takeWhile (\<lambda>x. x \<noteq> 0) s) w pad) else None)"
| "conv_text c w pad (VInt i) =
     (if c = ch_s then if i = 0 then Some (padded (butlast null_text) w pad) else None
      else Some (if c = ch_d then number_text 10 True 97 w pad i
        else if c = ch_x then number_text 16 False 97 w pad i
        else if c = ch_X then number_text 16 False 65 w pad i
        else if c = ch_u then number_text 10 False 97 w pad i
        else padded (takeWhile (\<lambda>x. x \<noteq> 0) [ucast i]) w pad))"

definition pad_of :: "bool \<Rightarrow> bool \<Rightarrow> u32" where
  "pad_of l z = (if l then PAD_RIGHT else 0) OR (if z then PAD_ZERO else 0)"

fun render :: "directive list \<Rightarrow> va list \<Rightarrow> u8 list option" where
  "render [] args = Some []"
| "render (Lit c # ds) args = do { r \<leftarrow> render ds args; Some (c # r) }"
| "render (Percent # ds) args = do { r \<leftarrow> render ds args; Some (ch_percent # r) }"
| "render (Conv l z w c # ds) [] = None"
| "render (Conv l z w c # ds) (a # args) =
     do { x \<leftarrow> conv_text c (int w) (pad_of l z) a; r \<leftarrow> render ds args; Some (x @ r) }"

lemma decimal_digit:
  "d < 10 \<Longrightarrow> ch_0 \<le> digit_char 97 d \<and> digit_char 97 d \<le> ch_9 \<and> int (unat (digit_char 97 d)) - 48 = int d
    \<and> (0 < d \<longrightarrow> digit_char 97 d \<noteq> ch_0)"
proof -
  have "\<forall>d \<in> set [0..<10]. ch_0 \<le> digit_char 97 d \<and> digit_char 97 d \<le> ch_9
      \<and> int (unat (digit_char 97 d)) - 48 = int d \<and> (0 < d \<longrightarrow> digit_char 97 d \<noteq> ch_0)"
    by code_simp
  then show "d < 10 \<Longrightarrow> ?thesis"
    by simp
qed

lemma width_digits_append:
  assumes "\<forall>d \<in> set ds. d < 10" and "foldl (\<lambda>v d. v * 10 + d) n ds < 2 ^ 31"
  shows "width_digits (map (digit_char 97) ds @ r) (int n) = width_digits r (int (foldl (\<lambda>v d. v * 10 + d) n ds))"
  using assms
proof (induction ds arbitrary: n)
  case (Cons d ds)
  have mono: "m \<le> foldl (\<lambda>v d. v * 10 + d) m ds" for m
  proof (induction ds arbitrary: m)
    case (Cons a ds)
    show ?case
      using Cons [of "m * 10 + a"] by simp
  qed simp
  have "n * 10 + d < 2 ^ 31"
    using mono [of "n * 10 + d"] Cons.prems(2) by simp
  then have "int (n * 10 + d) < int (2 ^ 31)"
    by (simp only: of_nat_less_iff)
  then have "int n * 10 + int d < 2 ^ 31"
    by simp
  then show ?case
    using Cons.IH [of "n * 10 + d"] Cons.prems decimal_digit [of d] by (simp add: Let_def)
qed simp

lemma width_digits_width:
  assumes "w < 2 ^ 31" and "\<not> (ch_0 \<le> c \<and> c \<le> ch_9)"
  shows "width_digits ((if w = 0 then [] else base_text 97 10 w) @ c # r) 0 = Some (c # r, int w)"
proof (cases "w = 0")
  case False
  have "foldl (\<lambda>v d. v * 10 + d) 0 (nat_digits 10 w) = w"
    using digits_value_nat_digits [of 10 w] by (simp add: digits_value_def)
  then show ?thesis
    using width_digits_append [of "nat_digits 10 w" 0 "c # r"] assms False nat_digits_less [of 10 _ w]
    by (simp add: base_text_def)
qed (use assms in auto)

lemma hd_nat_digits: "0 < n \<Longrightarrow> 2 \<le> b \<Longrightarrow> 0 < hd (nat_digits b n)"
proof (induction b n rule: nat_digits.induct)
  case (1 b n)
  then show ?case
    by (subst nat_digits.simps) (auto simp: div_greater_zero_iff)
qed

lemma zero_flags_zeros:
  "fmt \<noteq> [] \<Longrightarrow> hd fmt \<noteq> ch_0 \<Longrightarrow>
    zero_flags ((if z then [ch_0] else []) @ fmt) pad = Some (fmt, pad OR (if z then PAD_ZERO else 0))"
  by (cases fmt) auto

lemma hd_width:
  "c \<noteq> ch_0 \<Longrightarrow> hd ((if w = 0 then [] else base_text 97 10 w) @ c # r) \<noteq> ch_0"
  using hd_nat_digits [of w 10] nat_digits_less [of 10 "hd (nat_digits 10 w)" w] decimal_digit [of "hd (nat_digits 10 w)"]
  by (auto simp: base_text_def hd_append hd_map)

lemma split_text: "0 \<in> set s \<Longrightarrow> \<exists>r. s = takeWhile (\<lambda>x. x \<noteq> 0) s @ 0 # r" for s :: "u8 list"
  by (induction s) auto

lemma conversion_text:
  assumes c: "c \<in> {ch_s, ch_d, ch_x, ch_X, ch_u, ch_c}" and x: "conv_text c w pad a = Some x"
  shows "conversion out c w pad (a # args) = do { out \<leftarrow> emit out x; Some (out, int (length x), args) }"
proof (cases a)
  case (VStr s)
  then obtain r where "s = takeWhile (\<lambda>x. x \<noteq> 0) s @ 0 # r"
    using x split_text [of s] by (auto split: if_splits)
  moreover have "0 \<notin> set (takeWhile (\<lambda>x. x \<noteq> 0) s)"
    using set_takeWhileD by fastforce
  ultimately have "prints out s w pad = do { out \<leftarrow> emit out (padded (takeWhile (\<lambda>x. x \<noteq> 0) s) w pad);
      Some (out, int (length (padded (takeWhile (\<lambda>x. x \<noteq> 0) s) w pad))) }"
    by (metis prints_padded)
  then show ?thesis
    using VStr x by (auto simp: conversion_def split: if_splits)
next
  case (VInt i)
  have null: "prints out null_text w pad = do { out \<leftarrow> emit out (padded (butlast null_text) w pad);
      Some (out, int (length (padded (butlast null_text) w pad))) }"
    using prints_padded [of "butlast null_text" out "[]" w pad] by (simp add: null_text_def)
  have char: "prints out [ucast i, 0] w pad = do { out \<leftarrow> emit out (padded (takeWhile (\<lambda>x. x \<noteq> 0) [ucast i]) w pad);
      Some (out, int (length (padded (takeWhile (\<lambda>x. x \<noteq> 0) [ucast i]) w pad))) }"
    using prints_padded [of "[ucast i]" out "[]" w pad] prints_padded [of "[]" out "[0]" w pad]
    by (cases "(ucast i :: u8) = 0") auto
  show ?thesis
    using VInt x c by (auto simp: conversion_def null char printi_text Let_def split: if_splits)
qed

lemma print_step_conv:
  assumes wf: "w < 2 ^ 31" "c \<in> {ch_s, ch_d, ch_x, ch_X, ch_u, ch_c}" and x: "conv_text c (int w) (pad_of l z) a = Some x"
  shows "print_step out ch_percent ((if l then [ch_minus] else []) @ (if z then [ch_0] else [])
       @ (if w = 0 then [] else base_text 97 10 w) @ c # r) (a # args) =
     do { out \<leftarrow> emit out x; Some (out, int (length x), r, args, False) }"
proof -
  let ?w = "(if w = 0 then [] else base_text 97 10 w) @ c # r"
  let ?z = "(if z then [ch_0] else []) @ ?w"
  have c: "c \<noteq> ch_0" "\<not> (ch_0 \<le> c \<and> c \<le> ch_9)" "c \<noteq> 0" "c \<noteq> ch_percent" "c \<noteq> ch_minus"
    using wf(2) by auto
  have zf: "zero_flags ?z pad = Some (?w, pad OR (if z then PAD_ZERO else 0))" for pad
    by (rule zero_flags_zeros) (simp_all only: append_is_Nil_conv list.distinct simp_thms hd_width [OF c(1)] not_False_eq_True)
  have wd: "width_digits ?w 0 = Some (c # r, int w)"
    by (rule width_digits_width [OF wf(1) c(2)])
  have dig: "d \<in> set (nat_digits 10 w) \<Longrightarrow> digit_char 97 d \<notin> {0, ch_percent, ch_minus}" for d
    using decimal_digit [of d] nat_digits_less [of 10 d w] by auto
  have hd: "hd ?z \<noteq> 0" "hd ?z \<noteq> ch_percent" "hd ?z \<noteq> ch_minus"
    using c dig [of "hd (nat_digits 10 w)"] by (auto simp: base_text_def hd_append hd_map)
  obtain d fmt' where z: "?z = d # fmt'"
    by (cases ?z) auto
  show ?thesis
  proof (cases l)
    case True
    then show ?thesis
      using zf [of PAD_RIGHT] wd conversion_text [OF wf(2) x, of out args]
      by (simp add: print_step_def pad_of_def bind_assoc del: append_assoc)
  next
    case False
    then show ?thesis
      using hd zf [of 0] wd conversion_text [OF wf(2) x, of out args] unfolding z
      by (simp add: print_step_def pad_of_def)
  qed
qed

lemma print_loop_render:
  assumes "wf_format ds" and "render ds args = Some tx"
  shows "print_loop out (format_of ds @ 0 # r) args pc = do { out \<leftarrow> emit out tx; Some (out, pc + int (length tx)) }"
  using assms
proof (induction ds args arbitrary: out pc tx rule: render.induct)
  case (1 args)
  then show ?case
    by (simp add: print_loop.simps(2))
next
  case (2 c ds args)
  then obtain t where t: "render ds args = Some t" "tx = c # t"
    by (auto simp: bind_eq_Some_conv)
  show ?case
    using 2 t by (cases "printchar out c") (auto simp: print_loop.simps(2) print_step_def add.assoc)
next
  case (3 ds args)
  then obtain t where t: "render ds args = Some t" "tx = ch_percent # t"
    by (auto simp: bind_eq_Some_conv)
  show ?case
    using 3 t by (cases "printchar out ch_percent") (auto simp: print_loop.simps(2) print_step_def add.assoc)
next
  case (5 l z w c ds a args)
  then obtain x t where t: "conv_text c (int w) (pad_of l z) a = Some x" "render ds args = Some t" "tx = x @ t"
    by (auto simp: bind_eq_Some_conv)
  have wf: "w < 2 ^ 31" "c \<in> {ch_s, ch_d, ch_x, ch_X, ch_u, ch_c}" "wf_format ds"
    using 5(2) by auto
  have step: "print_step out ch_percent (tl (format_of (Conv l z w c # ds)) @ 0 # r) (a # args) =
      do { out \<leftarrow> emit out x; Some (out, int (length x), format_of ds @ 0 # r, args, False) }"
    using print_step_conv [OF wf(1,2) t(1), of out "format_of ds @ 0 # r" args] by simp
  have "format_of (Conv l z w c # ds) @ 0 # r = ch_percent # (tl (format_of (Conv l z w c # ds)) @ 0 # r)"
    by simp
  then have "print_loop out (format_of (Conv l z w c # ds) @ 0 # r) (a # args) pc =
      (case do { out \<leftarrow> emit out x; Some (out, int (length x), format_of ds @ 0 # r, args, False) } of
        None \<Rightarrow> None
      | Some (out, n, fmt, args, brk) \<Rightarrow> if brk then Some (out, pc + n) else print_loop out fmt args (pc + n))"
    by (simp only: print_loop.simps(2) step) simp
  then show ?case
    using 5(1) wf(3) t
    by (cases "emit out x") (simp_all add: emit_append add.assoc del: format_of.simps)
qed auto

section \<open>Properties\<close>

lemma print_buffer:
  assumes "wf_format ds" and "render ds args = Some tx"
  shows "print (Buffer out 0) (format_of ds @ 0 # r) args =
    (if length tx < length out then Some (Buffer (tx @ 0 # drop (Suc (length tx)) out) (length tx), int (length tx)) else None)"
proof (cases "length tx < length out")
  case True
  have "drop (length tx) out = out ! length tx # drop (Suc (length tx)) out"
    using True by (rule Cons_nth_drop_Suc [symmetric])
  then show ?thesis
    using print_loop_render [OF assms, of "Buffer out 0" r 0] emit_buffer [of 0 out tx] True
    by (simp add: print_def put_byte_def list_update_append)
next
  case False
  then show ?thesis
    using print_loop_render [OF assms, of "Buffer out 0" r 0] emit_buffer [of 0 out tx]
    by (simp add: print_def put_byte_def)
qed

lemma print_console:
  assumes "wf_format ds" and "render ds args = Some tx"
  shows "print (Console cons) (format_of ds @ 0 # r) args = Some (Console (cons @ tx), int (length tx))"
  using print_loop_render [OF assms, of "Console cons" r 0] by (simp add: print_def emit_console)

text \<open>
  C28: For a format of plain characters and the conversions of the printer, with an argument for each
  of them, \<open>u_sprintf\<close> writes exactly the text that the format denotes and a terminator and returns
  the length of the text if the buffer has room for both, and writes outside the buffer otherwise;
  \<open>u_printf\<close> and \<open>v_printf\<close> append the same text to the console, returning its length and 0.
\<close>

theorem u_sprintf_text:
  assumes "wf_format ds" and "render ds args = Some tx"
  shows "u_sprintf out (format_of ds @ 0 # r) args =
      (if length tx < length out then Some (tx @ 0 # drop (Suc (length tx)) out, int (length tx)) else None)
    \<and> u_printf cons (format_of ds @ 0 # r) args = Some (cons @ tx, int (length tx))
    \<and> v_printf cons (format_of ds @ 0 # r) args = Some (cons @ tx, 0)"
  using print_buffer [OF assms, of out r] print_console [OF assms, of cons r]
  by (simp_all add: u_sprintf_def u_printf_def v_printf_def)

theorem u_sprintf_text_witness:
  "u_sprintf (replicate 8 7) [ch_x, 61, ch_percent, ch_minus, 52, ch_d, 33, 0] [VInt (- 5)] =
    Some ([ch_x, 61, ch_minus, 53, ch_space, ch_space, 33, 0], 7)"
proof -
  have "render [Lit ch_x, Lit 61, Conv True False 4 ch_d, Lit 33] [VInt (- 5)] =
      Some [ch_x, 61, ch_minus, 53, ch_space, ch_space, 33]"
    by code_simp
  moreover have "format_of [Lit ch_x, Lit 61, Conv True False 4 ch_d, Lit 33] = [ch_x, 61, ch_percent, ch_minus, 52, ch_d, 33]"
    by code_simp
  ultimately show ?thesis
    using u_sprintf_text [of "[Lit ch_x, Lit 61, Conv True False 4 ch_d, Lit 33]" "[VInt (- 5)]" _ "replicate 8 7" "[]"]
    by (simp del: format_of.simps render.simps)
qed

text \<open>The reader: what a digit stands for, in either case, and a number with a sign.\<close>

definition digit_of :: "u8 \<Rightarrow> nat" where
  "digit_of c = (if c \<le> ch_9 then unat c - 48 else if c < ch_a then unat c - 55 else unat c - 87)"

definition read_base :: "nat \<Rightarrow> u8 list \<Rightarrow> nat" where
  "read_base b s = digits_value b (map digit_of s)"

definition read_int :: "u8 list \<Rightarrow> int" where
  "read_int s = (case s of c # s' \<Rightarrow> if c = ch_minus then - int (read_base 10 s') else int (read_base 10 s) | [] \<Rightarrow> 0)"

lemma digit_of_char: "d < 16 \<Longrightarrow> letbase \<in> {97, 65} \<Longrightarrow> digit_of (digit_char letbase d) = d"
proof -
  have "\<forall>d \<in> set [0..<16]. digit_of (digit_char 97 d) = d \<and> digit_of (digit_char 65 d) = d"
    by code_simp
  then show "d < 16 \<Longrightarrow> letbase \<in> {97, 65} \<Longrightarrow> digit_of (digit_char letbase d) = d"
    by auto
qed

lemma read_base_text:
  assumes "2 \<le> b" and "b \<le> 16" and "letbase \<in> {97, 65}"
  shows "read_base b (base_text letbase b n) = n"
proof -
  have "map (digit_of \<circ> digit_char letbase) (nat_digits b n) = nat_digits b n"
    using assms nat_digits_less [of b _ n] digit_of_char [of _ letbase]
    by (intro map_idI) (auto dest: order_less_le_trans)
  then show ?thesis
    by (simp add: read_base_def base_text_def digits_value_nat_digits)
qed

lemma read_int_text: "read_int (number_text 10 True 97 0 0 i) = sint i"
proof (cases "sint i < 0")
  case True
  then show ?thesis
    using read_base_text [of 10 97 "nat (- sint i)"] by (simp add: number_text_def padded_def Let_def read_int_def)
next
  case False
  then have u: "sint i = int (unat i)"
    by (simp only: unat_sint not_less)
  obtain d ds where d: "nat_digits 10 (unat i) = d # ds"
    by (cases "nat_digits 10 (unat i)") auto
  then have "digit_char 97 d \<noteq> ch_minus"
    using decimal_digit [of d] nat_digits_less [of 10 d "unat i"] by auto
  then show ?thesis
    using False d read_base_text [of 10 97 "unat i"] u
    by (simp add: number_text_def padded_def Let_def read_int_def base_text_def)
qed

lemma read_unsigned_text: "b = 10 \<or> b = 16 \<Longrightarrow> lb \<in> {97, 65} \<Longrightarrow> read_base b (number_text b False lb 0 0 i) = unat i"
  using read_base_text [of b lb "unat i"] by (auto simp: number_text_def padded_def Let_def)

lemma length_number_text: "b = 10 \<or> b = 16 \<Longrightarrow> length (number_text b sg lb 0 0 i) \<le> 11" for i :: u32
proof -
  assume b: "b = 10 \<or> b = 16"
  have digs: "length (nat_digits b (unat u)) \<le> 10" for u :: u32
  proof -
    have "(4294967296::nat) \<le> b ^ 10"
      using b by auto
    then have "unat u < b ^ 10"
      using unat_bound(3) [of u] by linarith
    then show ?thesis
      using b by (intro length_nat_digits) auto
  qed
  show ?thesis
    using digs [of i] digs [of "- i"] unat_minus_sint [of i]
    by (auto simp: number_text_def padded_def Let_def base_text_def)
qed

text \<open>
  What \<open>u_sprintf\<close> prints for an integer reads back as that integer: \<open>%d\<close> as a signed number, the
  smallest \<open>int\<close> included, and \<open>%u\<close>, \<open>%x\<close> and \<open>%X\<close> as unsigned ones; twelve bytes are enough.
\<close>

theorem u_sprintf_reads_back:
  assumes "12 \<le> length out"
  shows "(\<exists>tx. u_sprintf out [ch_percent, ch_d, 0] [VInt i] =
        Some (tx @ 0 # drop (Suc (length tx)) out, int (length tx)) \<and> read_int tx = sint i)
    \<and> (\<exists>tx. u_sprintf out [ch_percent, ch_u, 0] [VInt i] =
        Some (tx @ 0 # drop (Suc (length tx)) out, int (length tx)) \<and> read_base 10 tx = unat i)
    \<and> (\<exists>tx. u_sprintf out [ch_percent, ch_x, 0] [VInt i] =
        Some (tx @ 0 # drop (Suc (length tx)) out, int (length tx)) \<and> read_base 16 tx = unat i)
    \<and> (\<exists>tx. u_sprintf out [ch_percent, ch_X, 0] [VInt i] =
        Some (tx @ 0 # drop (Suc (length tx)) out, int (length tx)) \<and> read_base 16 tx = unat i)"
proof -
  have conv: "u_sprintf out [ch_percent, c, 0] [VInt i] =
      Some (tx @ 0 # drop (Suc (length tx)) out, int (length tx))"
    if "c \<in> {ch_d, ch_u, ch_x, ch_X}" and "conv_text c 0 0 (VInt i) = Some tx" and "length tx \<le> 11" for c tx
    using that assms print_buffer [of "[Conv False False 0 c]" "[VInt i]" tx out "[]"]
    by (auto simp: u_sprintf_def pad_of_def)
  note len = length_number_text [of 10 True 97 i] length_number_text [of 10 False 97 i]
    length_number_text [of 16 False 97 i] length_number_text [of 16 False 65 i]
  show ?thesis
    using conv [of ch_d "number_text 10 True 97 0 0 i"] conv [of ch_u "number_text 10 False 97 0 0 i"]
      conv [of ch_x "number_text 16 False 97 0 0 i"] conv [of ch_X "number_text 16 False 65 0 0 i"]
      len read_int_text [of i] read_unsigned_text [of 10 97 i] read_unsigned_text [of 16 97 i]
      read_unsigned_text [of 16 65 i]
    by (intro conjI) (simp, blast)+
qed

theorem u_sprintf_reads_back_witness:
  "\<exists>tx. u_sprintf (replicate 12 0) [ch_percent, ch_d, 0] [VInt 0x80000000] =
        Some (tx @ 0 # drop (Suc (length tx)) (replicate 12 0), int (length tx)) \<and> read_int tx = - 2147483648"
  using u_sprintf_reads_back [of "replicate 12 0" "0x80000000"] by simp

lemma print_loop_incomplete:
  "print_loop out [ch_percent, ch_minus, 0] args pc = None"
  "w < 2 ^ 31 \<Longrightarrow> 0 < w \<Longrightarrow> print_loop out (ch_percent # base_text 97 10 w @ [0]) args pc = None"
proof -
  show "print_loop out [ch_percent, ch_minus, 0] args pc = None"
    by (simp add: print_loop.simps(2) print_step_def conversion_def)
next
  assume w: "w < 2 ^ 31" "0 < w"
  obtain d ds where d: "base_text 97 10 w = d # ds"
    by (cases "base_text 97 10 w") (auto simp: base_text_def)
  have "hd (nat_digits 10 w) < 10"
    using nat_digits_less [of 10 "hd (nat_digits 10 w)" w] by simp
  moreover have "d = digit_char 97 (hd (nat_digits 10 w))"
    using d by (auto simp: base_text_def)
  ultimately have "d \<noteq> 0" "d \<noteq> ch_percent" "d \<noteq> ch_minus" "d \<noteq> ch_0"
    using decimal_digit [of "hd (nat_digits 10 w)"] hd_nat_digits [of w 10] w by auto
  moreover have "width_digits (d # ds @ [0]) 0 = Some ([0], int w)"
    using width_digits_width [of w 0 "[]"] w d by simp
  ultimately show "print_loop out (ch_percent # base_text 97 10 w @ [0]) args pc = None"
    by (simp add: d print_loop.simps(2) print_step_def conversion_def)
qed

text \<open>
  A format that ends within a conversion (the percent sign, a flag or a width, and then the
  terminator) makes \<open>print\<close> step over the terminator and read on behind the string.
\<close>

theorem u_sprintf_incomplete_conversion:
  "u_sprintf out [ch_percent, ch_minus, 0] args = None
    \<and> (\<forall>w \<in> {0<..<2 ^ 31}. u_sprintf out (ch_percent # base_text 97 10 w @ [0]) args = None)"
  using print_loop_incomplete by (auto simp: u_sprintf_def print_def)

text \<open>With both flags the field is filled with zeros on the right: \<open>%-05d\<close> of 5 is 50000.\<close>

lemma u_sprintf_left_zero:
  "u_sprintf (replicate 6 7) [ch_percent, ch_minus, ch_0, 53, ch_d, 0] [VInt 5] = Some ([53, ch_0, ch_0, ch_0, ch_0, 0], 5)"
proof -
  have "render [Conv True True 5 ch_d] [VInt 5] = Some [53, ch_0, ch_0, ch_0, ch_0]"
    "format_of [Conv True True 5 ch_d] = [ch_percent, ch_minus, ch_0, 53, ch_d]"
    by code_simp+
  then show ?thesis
    using print_buffer [of "[Conv True True 5 ch_d]" "[VInt 5]" _ "replicate 6 7" "[]"]
    by (simp add: u_sprintf_def del: format_of.simps render.simps)
qed

text \<open>The array printer: the bytes in hexadecimal without leading zeros, a colon between two of them.\<close>

fun joined :: "u8 list list \<Rightarrow> u8 list" where
  "joined [] = []"
| "joined [t] = t @ [ch_space]"
| "joined (t # ts) = t @ ch_colon # joined ts"

definition hex_text :: "u8 \<Rightarrow> u8 list" where
  "hex_text d = base_text 65 16 (unat d)"

lemma array_item:
  "u_printf cons [ch_percent, ch_X, ch_percent, ch_s, 0] [VInt (ucast d), VStr [c, 0]] =
    Some (cons @ hex_text d @ [c], int (length (hex_text d)) + 1)" if "c \<noteq> 0" for d :: u8
proof -
  have "unat (ucast d :: u32) = unat d"
    using unat_bound(1) [of d] by (simp add: unsigned_ucast_eq take_bit_eq_mod)
  then have "render [Conv False False 0 ch_X, Conv False False 0 ch_s] [VInt (ucast d), VStr [c, 0]] = Some (hex_text d @ [c])"
    using that by (simp add: pad_of_def number_text_def padded_def Let_def hex_text_def)
  then show ?thesis
    using print_console [of "[Conv False False 0 ch_X, Conv False False 0 ch_s]" "[VInt (ucast d), VStr [c, 0]]" _ cons "[]"]
    by (simp add: u_printf_def)
qed

lemma array_loop_joined:
  "i + m = unat len \<Longrightarrow> unat len \<le> length data \<Longrightarrow>
    array_loop cons data i len m = Some (cons @ joined (map hex_text (take m (drop i data))))"
proof (induction m arbitrary: i cons)
  case (Suc m)
  have i: "i < length data" "i < unat len"
    using Suc.prems by auto
  have pos: "len \<noteq> 0"
    using i by auto
  have last: "of_nat i < len - 1 \<longleftrightarrow> m \<noteq> 0"
  proof -
    have "unat (len - 1) = unat len - 1"
      using pos by (simp add: unat_minus_one)
    moreover have "unat (of_nat i :: u32) = i"
      using i unat_bound(3) [of len] by (simp add: unat_of_nat take_bit_eq_mod)
    ultimately show ?thesis
      using Suc.prems by (simp add: word_less_nat_alt) linarith
  qed
  have d: "take (Suc m) (drop i data) = data ! i # take m (drop (Suc i) data)"
    using i by (simp flip: Cons_nth_drop_Suc)
  have ne: "m \<noteq> 0 \<Longrightarrow> \<exists>t ts. map hex_text (take m (drop (Suc i) data)) = t # ts"
    using Suc.prems by (cases "take m (drop (Suc i) data)") auto
  show ?case
  proof (cases "m = 0")
    case True
    then show ?thesis
      using i last d by (simp add: get_byte_def array_item)
  next
    case False
    obtain t ts where "map hex_text (take m (drop (Suc i) data)) = t # ts"
      using ne [OF False] by (elim exE) (rule that)
    then show ?thesis
      using i last False Suc.IH [of "Suc i" "cons @ hex_text (data ! i) @ [ch_colon]"] Suc.prems
      by (simp add: get_byte_def array_item d)
  qed
qed simp

text \<open>
  \<open>u_array_printf\<close> prints the first \<open>len\<close> bytes of its array between braces, in hexadecimal and
  with a colon between any two of them.
\<close>

theorem u_array_printf_text:
  assumes "unat len \<le> length data"
  shows "u_array_printf cons data len =
    Some (cons @ [ch_lbrace] @ joined (map hex_text (take (unat len) data)) @ [ch_rbrace, ch_newline])"
proof -
  have lit: "u_printf cons (cs @ [0]) [] = Some (cons @ cs, int (length cs))" if "\<forall>c \<in> set cs. c \<noteq> 0 \<and> c \<noteq> ch_percent" for cons cs
  proof -
    have "wf_format (map Lit cs) \<and> render (map Lit cs) [] = Some cs \<and> format_of (map Lit cs) = cs"
      using that by (induction cs) auto
    then show ?thesis
      using print_console [of "map Lit cs" "[]" cs cons "[]"] by (simp add: u_printf_def)
  qed
  show ?thesis
    using lit [of "[ch_lbrace]" cons] lit [of "[ch_rbrace, ch_newline]"] array_loop_joined [of 0 "unat len" len data] assms
    by (simp add: u_array_printf_def)
qed

theorem u_array_printf_text_witness:
  "u_array_printf [] [0x3e, 5] 2 = Some [ch_lbrace, 51, 69, ch_colon, 53, ch_space, ch_rbrace, ch_newline]"
proof -
  have "joined (map hex_text [0x3e, 5]) = [51, 69, ch_colon, 53, ch_space]"
    by code_simp
  then show ?thesis
    using u_array_printf_text [of 2 "[0x3e, 5]" "[]"] by (simp del: joined.simps)
qed

end
