(* ===== verification/Tl_Printf.thy ===== *)
theory Tl_Printf
  imports Printf "HOL-Library.Signed_Division"
begin

text \<open>
  The printer of \<^verbatim>\<open>drivers/TC123X/printf.c\<close>, with the conventions of theory Printf; the console is the
  debug pin of \<open>DEBUG_MODE\<close>.  A shift of an \<open>unsigned int\<close> by 32 or more is \<open>None\<close>.
\<close>

section \<open>The code\<close>

fun tl_putchar :: "sink \<Rightarrow> u8 \<Rightarrow> sink option" where
  "tl_putchar (Buffer b p) c = do { b \<leftarrow> put_byte b p c; Some (Buffer b (p + 1)) }"
| "tl_putchar (Console xs) c = Some (Console (xs @ [c]))"

definition tl_putnum :: "sink \<Rightarrow> u8 \<Rightarrow> sink option" where
  "tl_putnum out c = do {
     let nib = drop_bit 4 c;
     let nib = (if 9 < nib then nib + 87 else nib + 48);
     out \<leftarrow> tl_putchar out nib;
     let nib = c AND 15;
     let nib = (if 9 < nib then nib + 87 else nib + 48);
     tl_putchar out nib }"

text \<open>\<open>i\<close> runs from \<open>len - 1\<close> down to 0.\<close>

fun tl_putnumber :: "sink \<Rightarrow> u32 \<Rightarrow> nat \<Rightarrow> sink option" where
  "tl_putnumber out w 0 = Some out"
| "tl_putnumber out w (Suc i) =
     (if 32 \<le> i * 8 then None
      else do { out \<leftarrow> tl_putnum out (ucast (drop_bit (i * 8) w)); tl_putnumber out w i })"

text \<open>The digits of \<open>u\<close>, from \<open>p\<close> downwards; \<open>/\<close> and \<open>%\<close> round towards 0.\<close>

fun int_loop :: "u8 list \<Rightarrow> nat \<Rightarrow> int \<Rightarrow> (u8 list \<times> nat) option" where
  "int_loop buf 0 u = None"
| "int_loop buf (Suc p) u = do {
     let tmp = (of_int (u smod 10) :: u8);
     buf \<leftarrow> put_byte buf p (tmp + 48);
     let u = u sdiv 10;
     if u \<noteq> 0 then int_loop buf p u else Some (buf, p) }"

fun tl_put_loop :: "sink \<Rightarrow> u8 list \<Rightarrow> sink option" where
  "tl_put_loop out [] = None"
| "tl_put_loop out (c # s) = (if c = 0 then Some out else do { out \<leftarrow> tl_putchar out c; tl_put_loop out s })"

definition tl_putint :: "sink \<Rightarrow> u32 \<Rightarrow> sink option" where
  "tl_putint out w = do {
     let u = (if sint w < 0 then sint (- w) else sint w);
     (buf, p) \<leftarrow> int_loop (replicate 12 0) 11 u;
     (buf, p) \<leftarrow>
       (if sint w < 0 then if p = 0 then None else do { buf \<leftarrow> put_byte buf (p - 1) ch_minus; Some (buf, p - 1) }
        else Some (buf, p));
     tl_put_loop out (drop p buf) }"

text \<open>The loop of \<open>get_field_width\<close> with the number of rounds that are left.\<close>

fun field_loop :: "nat \<Rightarrow> u8 \<Rightarrow> u32 \<Rightarrow> u8" where
  "field_loop 0 ret num = ret"
| "field_loop (Suc n) ret num =
     (let num = drop_bit 1 num in if num = 0 then ret else field_loop n (ret + 1) num)"

definition get_field_width :: "u32 \<Rightarrow> u8" where
  "get_field_width num = drop_bit 3 (field_loop 32 1 num + 7)"

text \<open>The loop of \<open>tl_format_msg\<close>: the sink, the rest of the format, \<open>fieldwidth\<close> and \<open>flag\<close>.\<close>

fun format_scan :: "sink \<Rightarrow> u8 list \<Rightarrow> int \<Rightarrow> (sink \<times> u8 list \<times> int \<times> int) option" where
  "format_scan out [] fieldwidth = None"
| "format_scan out (c # f) fieldwidth =
     (if c = 0 then Some (out, f, fieldwidth, 0)
      else if ch_0 \<le> c \<and> c \<le> ch_9 then
        (let fieldwidth = fieldwidth * 10 + (int (unat c) - 48) in
         if fieldwidth < 2 ^ 31 then format_scan out f fieldwidth else None)
      else if c = ch_x then Some (out, f, fieldwidth, 16)
      else if c = ch_d then Some (out, f, fieldwidth, 10)
      else if c = ch_s then Some (out, f, fieldwidth, 99)
      else do { out \<leftarrow> tl_putchar out ch_star; Some (out, f, fieldwidth, - 1) })"

text \<open>The width that is found from the argument matters for \<open>%x\<close> only.\<close>

definition tl_format_msg :: "sink \<Rightarrow> u8 list \<Rightarrow> va \<Rightarrow> (sink \<times> u8 list) option" where
  "tl_format_msg out f a = do {
     (out, f, fieldwidth, flag) \<leftarrow> format_scan out f 0;
     out \<leftarrow>
       (case a of
          VInt w \<Rightarrow>
            (let fieldwidth = (if flag \<noteq> 0 \<and> fieldwidth = 0 then int (unat (get_field_width w)) else fieldwidth) in
             if flag = 16 then tl_putnumber out w (nat fieldwidth)
             else if flag = 10 then tl_putint out w
             else if flag = 99 then if w = 0 then tl_put_loop out null_text else None
             else Some out)
        | VStr s \<Rightarrow>
            if flag = 16 \<or> flag = 10 then None
            else if flag = 99 then tl_put_loop out s
            else Some out);
     Some (out, f) }"

lemma format_scan_shrinks: "format_scan out f w = Some (out', f', w', flag) \<Longrightarrow> length f' < length f"
  by (induction f arbitrary: w) (auto simp: Let_def bind_eq_Some_conv split: if_splits intro: less_SucI)

lemma tl_format_msg_shrinks: "tl_format_msg out f a = Some (out', f') \<Longrightarrow> length f' < length f"
  by (auto simp: tl_format_msg_def bind_eq_Some_conv dest!: format_scan_shrinks)

function tl_print_loop :: "sink \<Rightarrow> u8 list \<Rightarrow> va list \<Rightarrow> sink option" where
  "tl_print_loop out [] list = None"
| "tl_print_loop out (c # f) list =
     (if c = 0 then Some out
      else if c = ch_percent then
        (case list of
           [] \<Rightarrow> None
         | a # list \<Rightarrow> (case tl_format_msg out f a of None \<Rightarrow> None | Some (out, f) \<Rightarrow> tl_print_loop out f list))
      else (case tl_putchar out c of None \<Rightarrow> None | Some out \<Rightarrow> tl_print_loop out f list))"
  by pat_completeness auto
termination
  by (relation "measure (\<lambda>(out, f, list). length f)") (auto dest!: tl_format_msg_shrinks)

declare tl_print_loop.simps(2) [simp del]

definition tl_print :: "sink \<Rightarrow> u8 list \<Rightarrow> va list \<Rightarrow> sink option" where
  "tl_print out format list = do {
     out \<leftarrow> tl_print_loop out format list;
     (case out of
        Buffer b p \<Rightarrow> do { b \<leftarrow> put_byte b p 0; Some (Buffer b p) }
      | Console xs \<Rightarrow> Some (Console xs)) }"

text \<open>With \<open>DEBUG_IO\<close> a flag keeps an interrupt that prints out of a print that is running.\<close>

definition tl_printf :: "bool \<Rightarrow> u8 list \<Rightarrow> u8 list \<Rightarrow> va list \<Rightarrow> (bool \<times> u8 list) option" where
  "tl_printf re_enter_flag cons format list =
     (if re_enter_flag then Some (re_enter_flag, cons)
      else do {
        out \<leftarrow> tl_print (Console cons) format list;
        (case out of Console cons \<Rightarrow> Some (False, cons) | Buffer b p \<Rightarrow> None) })"

definition tl_sprintf :: "u8 list \<Rightarrow> u8 list \<Rightarrow> va list \<Rightarrow> u8 list option" where
  "tl_sprintf buff format list = do {
     out \<leftarrow> tl_print (Buffer buff 0) format list;
     (case out of Buffer b p \<Rightarrow> Some b | Console cons \<Rightarrow> None) }"

section \<open>What the loops print\<close>

lemma tl_putchar_printchar [simp]: "tl_putchar out c = printchar out c"
  by (cases out) auto

lemma tl_put_loop_emit: "0 \<notin> set s \<Longrightarrow> tl_put_loop out (s @ 0 # r) = emit out s"
  by (induction s arbitrary: out) (auto intro!: Option.bind_cong)

definition nibble_text :: "u8 \<Rightarrow> u8 list" where
  "nibble_text c = [digit_char 97 (unat c div 16), digit_char 97 (unat c mod 16)]"

lemma nibble_char: "nib < 16 \<Longrightarrow> (if 9 < nib then nib + 87 else nib + 48) = digit_char 97 (unat nib)" for nib :: u8
proof -
  have "\<forall>d \<in> set [0..<16]. (if 9 < (of_nat d :: u8) then of_nat d + 87 else of_nat d + 48) = digit_char 97 d"
    by code_simp
  moreover assume "nib < 16"
  then have "unat nib \<in> set [0..<16]"
    by (simp add: word_less_nat_alt)
  ultimately have "(if 9 < (of_nat (unat nib) :: u8) then of_nat (unat nib) + 87 else of_nat (unat nib) + 48) = digit_char 97 (unat nib)"
    by (rule bspec)
  moreover have "of_nat (unat nib) = nib"
    by simp
  ultimately show "(if 9 < nib then nib + 87 else nib + 48) = digit_char 97 (unat nib)"
    by (simp only:)
qed

lemma tl_putnum_emit: "tl_putnum out c = emit out (nibble_text c)"
proof -
  have u: "unat (drop_bit 4 c) = unat c div 16" "unat (c AND 15) = unat c mod 16"
    by (simp_all add: drop_bit_eq_div and_low_mask take_bit_eq_mod unat_div unat_mod)
  have "drop_bit 4 c < 16" "c AND 15 < 16"
    using unat_bound(1) [of c] by (simp_all add: word_less_nat_alt u)
  then show ?thesis
    using u by (simp add: tl_putnum_def nibble_char nibble_text_def Let_def)
qed

fun hex_bytes :: "u32 \<Rightarrow> nat \<Rightarrow> u8 list" where
  "hex_bytes w 0 = []"
| "hex_bytes w (Suc i) = nibble_text (ucast (drop_bit (i * 8) w)) @ hex_bytes w i"

lemma tl_putnumber_emit: "len \<le> 4 \<Longrightarrow> tl_putnumber out w len = emit out (hex_bytes w len)"
  by (induction len arbitrary: out) (auto simp: tl_putnum_emit emit_append simp del: emit.simps(2) intro!: Option.bind_cong)

lemma tl_putnumber_too_wide: "4 < len \<Longrightarrow> tl_putnumber out w len = None"
  by (cases len) auto

section \<open>Numbers\<close>

text \<open>A number that is printed with \<open>%x\<close> has two digits for each byte of the field.\<close>

lemma digits_value_append: "digits_value b (xs @ ys) = digits_value b xs * b ^ length ys + digits_value b ys"
proof -
  have *: "foldl (\<lambda>v d. v * b + d) n ys = n * b ^ length ys + foldl (\<lambda>v d. v * b + d) 0 ys" for n
  proof (induction ys arbitrary: n)
    case (Cons y ys)
    show ?case
      using Cons [of "n * b + y"] Cons [of y] by (simp add: algebra_simps)
  qed simp
  show ?thesis
    unfolding digits_value_def foldl_append by (rule *)
qed

lemma length_hex_bytes: "length (hex_bytes w i) = 2 * i"
  by (induction i) (auto simp: nibble_text_def)

lemma read_nibbles: "read_base 16 (nibble_text c) = unat c"
  using unat_bound(1) [of c] digit_of_char [of "unat c div 16" 97] digit_of_char [of "unat c mod 16" 97]
  by (simp add: read_base_def nibble_text_def digits_value_def)

lemma read_base_append: "read_base b (xs @ ys) = read_base b xs * b ^ length ys + read_base b ys"
  by (simp add: read_base_def digits_value_append)

lemma read_hex_bytes: "i \<le> 4 \<Longrightarrow> read_base 16 (hex_bytes w i) = unat w mod 256 ^ i"
proof (induction i)
  case (Suc i)
  have "unat (ucast (drop_bit (i * 8) w) :: u8) = unat w div 256 ^ i mod 256"
  proof -
    have "(2::nat) ^ (i * 8) = 256 ^ i"
      by (simp add: mult.commute [of i] power_mult)
    then have "unat (drop_bit (i * 8) w) = unat w div 256 ^ i"
      by (subst unat_drop_bit_eq) (simp only: drop_bit_eq_div)
    then show ?thesis
      by (simp add: unsigned_ucast_eq take_bit_eq_mod del: drop_bit_eq_div)
  qed
  moreover have "(16::nat) ^ (2 * i) = 256 ^ i"
    by (simp add: power_mult)
  moreover have "unat w mod 256 ^ Suc i = unat w mod 256 ^ i + unat w div 256 ^ i mod 256 * 256 ^ i"
    by (simp add: mod_mult2_eq mult.commute [of 256])
  ultimately show ?case
    using Suc by (simp add: read_base_append read_nibbles length_hex_bytes)
qed (simp add: read_base_def digits_value_def)

lemma field_loop_width:
  assumes "unat num < 2 ^ (n + 1)" and "n \<le> 32"
  shows "\<exists>k \<le> n. field_loop n ret num = ret + of_nat k \<and> unat num < 2 ^ (k + 1) \<and> (k = 0 \<or> 2 ^ k \<le> unat num)"
  using assms
proof (induction n arbitrary: ret num)
  case (Suc n)
  let ?m = "drop_bit 1 num"
  have m: "unat ?m = unat num div 2"
    by (simp add: drop_bit_eq_div unat_div)
  show ?case
  proof (cases "?m = 0")
    case True
    then have "unat num < 2"
      using m by (simp add: div_eq_0_iff)
    then show ?thesis
      using True by (intro exI [where x = 0]) simp
  next
    case False
    then have "unat num div 2 \<noteq> 0"
      using m by (metis unat_eq_zero)
    then have pos: "2 \<le> unat num"
      by simp
    have "unat ?m < 2 ^ (n + 1)"
      using Suc.prems m by simp
    then obtain k where k: "k \<le> n" "field_loop n (ret + 1) ?m = ret + 1 + of_nat k" "unat ?m < 2 ^ (k + 1)"
      "k = 0 \<or> 2 ^ k \<le> unat ?m"
      using Suc.IH [of ?m "ret + 1"] Suc.prems by auto
    have "unat num < 2 ^ (Suc k + 1)"
      using k(3) m by simp
    moreover have "2 ^ Suc k \<le> unat num"
      using k(4) m pos by auto
    ultimately show ?thesis
      using k(1,2) False by (intro exI [where x = "Suc k"]) (simp add: add.assoc)
  qed
qed simp

lemma get_field_width_bytes:
  "1 \<le> unat (get_field_width num) \<and> unat (get_field_width num) \<le> 4
    \<and> unat num < 256 ^ unat (get_field_width num)
    \<and> (unat (get_field_width num) = 1 \<or> 256 ^ (unat (get_field_width num) - 1) \<le> unat num)"
proof -
  obtain k where k: "k \<le> 32" "field_loop 32 1 num = 1 + of_nat k" "unat num < 2 ^ (k + 1)" "k = 0 \<or> 2 ^ k \<le> unat num"
    using field_loop_width [of num 32 1] unat_bound(3) [of num] by auto
  have "k \<noteq> 32"
    using k(4) unat_bound(3) [of num] by auto
  then have k31: "k < 32"
    using k(1) by simp
  have "get_field_width num = drop_bit 3 (of_nat (k + 8))"
    by (simp add: get_field_width_def k(2) add.commute)
  then have "unat (get_field_width num) = (k + 8) div 8"
    using k31 by (subst (asm) drop_bit_eq_div, simp add: unat_div unat_of_nat take_bit_eq_mod del: of_nat_add)
  then have r: "unat (get_field_width num) = k div 8 + 1"
    by simp
  have p: "(256::nat) ^ m = 2 ^ (8 * m)" for m
    by (simp add: power_mult)
  have "(2::nat) ^ (k + 1) \<le> 2 ^ (8 * (k div 8 + 1))"
    by (rule power_increasing) presburger+
  then have "unat num < 256 ^ (k div 8 + 1)"
    using k(3) unfolding p by linarith
  moreover have "256 ^ (k div 8) \<le> unat num" if "k div 8 \<noteq> 0"
  proof -
    have "(2::nat) ^ (8 * (k div 8)) \<le> 2 ^ k"
      by (rule power_increasing) presburger+
    then show ?thesis
      using k(4) that unfolding p by (cases "k = 0") (simp, linarith)
  qed
  ultimately show ?thesis
    using k31 unfolding r by (cases "k div 8 = 0") auto
qed

text \<open>Division that rounds towards 0, of numbers from 0 on.\<close>

lemma signed_div_nat: "0 \<le> u \<Longrightarrow> u sdiv 10 = u div 10 \<and> u smod 10 = u mod 10" for u :: int
  by (simp add: signed_divide_int_def signed_modulo_int_def sgn_if)

lemma int_loop_text:
  assumes "length (nat_digits 10 n) \<le> p" and "p \<le> length buf"
  shows "int_loop buf p (int n) =
    (let tx = base_text 97 10 n in Some (take (p - length tx) buf @ tx @ drop p buf, p - length tx))"
  using assms
proof (induction p arbitrary: n buf)
  case (Suc p)
  let ?c = "digit_char 97 (n mod 10)"
  have len: "p < length buf"
    using Suc.prems(2) by simp
  have sd: "int n sdiv 10 = int (n div 10)" "int n smod 10 = int (n mod 10)"
    using signed_div_nat [of "int n"] zdiv_int [of n 10] zmod_int [of n 10] by simp_all
  have "\<forall>d \<in> set [0..<10]. (of_nat d :: u8) + 48 = digit_char 97 d"
    by code_simp
  then have c: "(of_nat (n mod 10) :: u8) + 48 = ?c"
    by simp
  have step: "int_loop buf (Suc p) (int n) =
      (if n div 10 \<noteq> 0 then int_loop (buf[p := ?c]) p (int (n div 10)) else Some (buf[p := ?c], p))"
    unfolding int_loop.simps sd of_int_of_nat_eq Let_def c put_byte_Some [OF len] Option.bind_lunit
    by (simp only: of_nat_eq_0_iff)
  show ?case
  proof (cases "n < 10")
    case True
    then show ?thesis
      using len unfolding step by (simp add: base_text_def nat_digits.simps Let_def upd_conv_take_nth_drop)
  next
    case False
    have ds: "nat_digits 10 n = nat_digits 10 (n div 10) @ [n mod 10]"
      using False by (subst nat_digits.simps) simp
    have q: "n div 10 \<noteq> 0"
      using False by (simp add: div_eq_0_iff)
    have k: "length (nat_digits 10 (n div 10)) \<le> p"
      using Suc.prems(1) ds by simp
    show ?thesis
      using Suc.IH [OF k, of "buf[p := ?c]"] len k q unfolding step
      by (simp add: ds base_text_def Let_def drop_update_cancel upd_conv_take_nth_drop)
  qed
qed (simp add: Let_def)

lemma length_digits_u32: "length (nat_digits 10 (unat (u :: u32))) \<le> 10"
  using unat_bound(3) [of u] by (intro length_nat_digits) auto

definition int_text :: "u32 \<Rightarrow> u8 list" where
  "int_text w =
     (if sint w < 0 then ch_minus # base_text 97 10 (nat (- sint w)) else base_text 97 10 (unat w))"

lemma int_text_number: "int_text w = number_text 10 True 97 0 0 w"
  by (simp add: int_text_def number_text_def padded_def Let_def)

lemma tl_putint_emit:
  assumes "w \<noteq> 0x80000000"
  shows "tl_putint out w = emit out (int_text w)"
proof -
  have lt: "- (2 ^ 31) < sint w"
  proof -
    have "sint w \<noteq> sint (0x80000000 :: u32)"
    proof
      assume "sint w = sint (0x80000000 :: u32)"
      then have "(of_int (sint w) :: u32) = of_int (sint (0x80000000 :: u32))"
        by (rule arg_cong)
      then show False
        using assms by (simp only: of_int_sint) simp
    qed
    then show ?thesis
      using sint_ge [of w] by simp
  qed
  define n where "n = (if sint w < 0 then nat (- sint w) else unat w)"
  have neg: "sint (- w) = - sint w" if "sint w < 0"
  proof -
    have "sint (of_int (- sint w) :: u32) = signed_take_bit 31 (- sint w)"
      by (simp only: signed_of_int) simp
    also have "\<dots> = - sint w"
      using that lt by (intro signed_take_bit_int_eq_self) auto
    finally show ?thesis
      by simp
  qed
  have u: "(if sint w < 0 then sint (- w) else sint w) = int n"
    using neg unat_sint [of w] by (auto simp: n_def)
  have k: "length (nat_digits 10 n) \<le> 10"
    using length_digits_u32 [of w] length_digits_u32 [of "- w"] unat_minus_sint [of w] by (auto simp: n_def)
  let ?t = "base_text 97 10 n"
  have lt10: "length ?t \<le> 10"
    using k by (simp add: base_text_def)
  have loop: "int_loop (replicate 12 0) 11 (int n) = Some (replicate (11 - length ?t) 0 @ ?t @ [0], 11 - length ?t)"
    using int_loop_text [of n 11 "replicate 12 0"] k lt10 by (simp add: Let_def take_replicate)
  have nz: "0 \<notin> set ?t"
    by (rule base_text_not_0) auto
  show ?thesis
  proof (cases "sint w < 0")
    case True
    have "11 - length ?t = Suc (11 - length ?t - 1)"
      using lt10 by simp
    then have "replicate (11 - length ?t) (0 :: u8) = replicate (11 - length ?t - 1) 0 @ [0]"
      by (metis replicate_Suc replicate_append_same)
    then have put: "put_byte (replicate (11 - length ?t) 0 @ ?t @ [0]) (11 - length ?t - 1) ch_minus =
        Some (replicate (11 - length ?t - 1) 0 @ ch_minus # ?t @ [0])"
      using lt10 by (simp add: put_byte_def list_update_append)
    have "tl_putint out w = tl_put_loop out ((ch_minus # ?t) @ 0 # [])"
      unfolding tl_putint_def u Let_def loop using True put lt10 by simp
    also have "\<dots> = emit out (ch_minus # ?t)"
      using nz by (intro tl_put_loop_emit) simp
    finally show ?thesis
      using True by (simp add: int_text_def n_def)
  next
    case False
    have "tl_putint out w = tl_put_loop out (?t @ 0 # [])"
      unfolding tl_putint_def u Let_def loop using False by simp
    also have "\<dots> = emit out ?t"
      by (rule tl_put_loop_emit [OF nz])
    finally show ?thesis
      using False by (simp add: int_text_def n_def)
  qed
qed

text \<open>The smallest \<open>int\<close>: its negation is itself, and every remainder is negative.\<close>

lemma tl_putint_smallest:
  "tl_putint (Console []) 0x80000000 = Some (Console [45, 46, 47, 44, 41, 44, 40, 45, 42, 44, 40])"
  by code_simp

section \<open>Formats\<close>

text \<open>Plain characters, \<open>%x\<close> with a width of up to four bytes (0 for none), \<open>%d\<close> and \<open>%s\<close>.\<close>

datatype tl_directive = TLit u8 | THex nat | TDec | TStr

fun tl_format_of :: "tl_directive list \<Rightarrow> u8 list" where
  "tl_format_of [] = []"
| "tl_format_of (TLit c # ds) = c # tl_format_of ds"
| "tl_format_of (THex n # ds) = ch_percent # (if n = 0 then [] else [of_nat n + 48]) @ ch_x # tl_format_of ds"
| "tl_format_of (TDec # ds) = ch_percent # ch_d # tl_format_of ds"
| "tl_format_of (TStr # ds) = ch_percent # ch_s # tl_format_of ds"

fun tl_wf :: "tl_directive list \<Rightarrow> bool" where
  "tl_wf [] \<longleftrightarrow> True"
| "tl_wf (TLit c # ds) \<longleftrightarrow> c \<noteq> 0 \<and> c \<noteq> ch_percent \<and> tl_wf ds"
| "tl_wf (THex n # ds) \<longleftrightarrow> n \<le> 4 \<and> tl_wf ds"
| "tl_wf (_ # ds) \<longleftrightarrow> tl_wf ds"

fun tl_conv :: "tl_directive \<Rightarrow> va \<Rightarrow> u8 list option" where
  "tl_conv (THex n) (VInt w) = Some (hex_bytes w (if n = 0 then unat (get_field_width w) else n))"
| "tl_conv TDec (VInt w) = (if w = 0x80000000 then None else Some (int_text w))"
| "tl_conv TStr (VInt w) = (if w = 0 then Some (butlast null_text) else None)"
| "tl_conv TStr (VStr s) = (if 0 \<in> set s then Some (takeWhile (\<lambda>x. x \<noteq> 0) s) else None)"
| "tl_conv _ _ = None"

fun tl_render :: "tl_directive list \<Rightarrow> va list \<Rightarrow> u8 list option" where
  "tl_render [] args = Some []"
| "tl_render (TLit c # ds) args = do { r \<leftarrow> tl_render ds args; Some (c # r) }"
| "tl_render (d # ds) [] = None"
| "tl_render (d # ds) (a # args) = do { x \<leftarrow> tl_conv d a; r \<leftarrow> tl_render ds args; Some (x @ r) }"

lemma tl_put_loop_text: "0 \<in> set s \<Longrightarrow> tl_put_loop out s = emit out (takeWhile (\<lambda>x. x \<noteq> 0) s)"
proof -
  assume "0 \<in> set s"
  then obtain r where "s = takeWhile (\<lambda>x. x \<noteq> 0) s @ 0 # r"
    using split_text by blast
  moreover have "0 \<notin> set (takeWhile (\<lambda>x. x \<noteq> 0) s)"
    using set_takeWhileD by fastforce
  ultimately show ?thesis
    by (metis tl_put_loop_emit)
qed

lemma tl_put_loop_null: "tl_put_loop out null_text = emit out (butlast null_text)"
  using tl_put_loop_emit [of "butlast null_text" out "[]"] by (simp add: null_text_def)

lemma format_scan_width:
  "n \<le> 4 \<Longrightarrow> format_scan out ((if n = 0 then [] else [of_nat n + 48]) @ ch_x # r) 0 = Some (out, r, int n, 16)"
proof -
  assume "n \<le> 4"
  then consider "n = 0" | "n = 1" | "n = 2" | "n = 3" | "n = 4"
    by linarith
  then show ?thesis
    by cases simp_all
qed

lemma tl_format_msg_hex:
  assumes "n \<le> 4"
  shows "tl_format_msg out ((if n = 0 then [] else [of_nat n + 48]) @ ch_x # r) (VInt w) =
    do { out \<leftarrow> emit out (hex_bytes w (if n = 0 then unat (get_field_width w) else n)); Some (out, r) }"
  using assms get_field_width_bytes [of w]
  unfolding tl_format_msg_def format_scan_width [OF assms] Option.bind_lunit case_prod_conv
  by (cases "n = 0") (simp_all add: tl_putnumber_emit)

lemma tl_format_msg_other:
  "w \<noteq> 0x80000000 \<Longrightarrow> tl_format_msg out (ch_d # r) (VInt w) = do { out \<leftarrow> emit out (int_text w); Some (out, r) }"
  "tl_format_msg out (ch_s # r) (VInt 0) = do { out \<leftarrow> emit out (butlast null_text); Some (out, r) }"
  "0 \<in> set s \<Longrightarrow> tl_format_msg out (ch_s # r) (VStr s) = do { out \<leftarrow> emit out (takeWhile (\<lambda>x. x \<noteq> 0) s); Some (out, r) }"
  by (simp_all add: tl_format_msg_def tl_putint_emit tl_put_loop_null tl_put_loop_text)

lemma tl_print_loop_directive:
  assumes "tl_wf [d]" and "tl_conv d a = Some x"
  shows "tl_print_loop out (tl_format_of [d] @ r) (a # list) = (case emit out x of None \<Rightarrow> None | Some out \<Rightarrow> tl_print_loop out r list)"
proof (cases d)
  case (THex n)
  then obtain w where "a = VInt w"
    using assms by (cases a) auto
  then show ?thesis
    using THex assms tl_format_msg_hex [of n out r w] by (cases "emit out x") (auto simp: tl_print_loop.simps(2))
next
  case TDec
  then obtain w where "a = VInt w" "w \<noteq> 0x80000000"
    using assms by (cases a) (auto split: if_splits)
  then show ?thesis
    using TDec assms tl_format_msg_other(1) [of w out r] by (cases "emit out x") (auto simp: tl_print_loop.simps(2))
next
  case TStr
  then show ?thesis
    using assms tl_format_msg_other(2) [of out r] tl_format_msg_other(3) [of _ out r]
    by (cases "emit out x"; cases a) (auto simp: tl_print_loop.simps(2) split: if_splits)
qed (use assms in simp)

lemma tl_print_loop_render:
  assumes "tl_wf ds" and "tl_render ds args = Some tx"
  shows "tl_print_loop out (tl_format_of ds @ 0 # r) args = emit out tx"
  using assms
proof (induction ds arbitrary: args out tx)
  case Nil
  then show ?case
    by (simp add: tl_print_loop.simps(2))
next
  case (Cons d ds)
  show ?case
  proof (cases "\<exists>c. d = TLit c")
    case True
    then obtain c where c: "d = TLit c"
      by blast
    then obtain t where "tl_render ds args = Some t" "tx = c # t"
      using Cons.prems by (auto simp: bind_eq_Some_conv)
    then show ?thesis
      using Cons c by (cases "printchar out c") (auto simp: tl_print_loop.simps(2))
  next
    case False
    have *: "tl_render (d # ds) args = (case args of [] \<Rightarrow> None | a # args \<Rightarrow> do { x \<leftarrow> tl_conv d a; r \<leftarrow> tl_render ds args; Some (x @ r) })"
      using False by (cases d; cases args) auto
    obtain a args' x t where a: "args = a # args'" "tl_conv d a = Some x" "tl_render ds args' = Some t" "tx = x @ t"
      using Cons.prems(2) unfolding * by (auto simp: bind_eq_Some_conv split: list.splits)
    have wf: "tl_wf [d]" "tl_wf ds"
      using Cons.prems(1) by (cases d; simp)+
    have "tl_format_of (d # ds) = tl_format_of [d] @ tl_format_of ds"
      by (cases d) auto
    then show ?thesis
      using a Cons.IH [OF wf(2) a(3)] tl_print_loop_directive [OF wf(1) a(2), of out "tl_format_of ds @ 0 # r" args']
      by (cases "emit out x") (simp_all add: emit_append)
  qed
qed

lemma tl_print_buffer:
  assumes "tl_wf ds" and "tl_render ds args = Some tx"
  shows "tl_sprintf buff (tl_format_of ds @ 0 # r) args =
    (if length tx < length buff then Some (tx @ 0 # drop (Suc (length tx)) buff) else None)"
proof (cases "length tx < length buff")
  case True
  have "drop (length tx) buff = buff ! length tx # drop (Suc (length tx)) buff"
    using True by (rule Cons_nth_drop_Suc [symmetric])
  then show ?thesis
    using tl_print_loop_render [OF assms, of "Buffer buff 0" r] emit_buffer [of 0 buff tx] True
    by (simp add: tl_sprintf_def tl_print_def put_byte_def list_update_append)
next
  case False
  then show ?thesis
    using tl_print_loop_render [OF assms, of "Buffer buff 0" r] emit_buffer [of 0 buff tx]
    by (simp add: tl_sprintf_def tl_print_def put_byte_def)
qed

text \<open>
  For a format of plain characters, \<open>%d\<close>, \<open>%s\<close> and \<open>%x\<close> with at most four bytes, \<open>tl_sprintf\<close>
  writes exactly the text that the format denotes and a terminator, if the buffer has room for both,
  and writes outside it otherwise; \<open>tl_printf\<close> appends the text to the console and clears its flag.
  The smallest \<open>int\<close> is excepted from \<open>%d\<close>.
\<close>

theorem tl_sprintf_text:
  assumes "tl_wf ds" and "tl_render ds args = Some tx"
  shows "tl_sprintf buff (tl_format_of ds @ 0 # r) args =
      (if length tx < length buff then Some (tx @ 0 # drop (Suc (length tx)) buff) else None)
    \<and> tl_printf False cons (tl_format_of ds @ 0 # r) args = Some (False, cons @ tx)"
  using tl_print_buffer [OF assms, of buff r] tl_print_loop_render [OF assms, of "Console cons" r]
  by (simp add: tl_printf_def tl_print_def emit_console)

theorem tl_sprintf_text_witness:
  "tl_sprintf (replicate 6 1) [ch_percent, 50, ch_x, ch_colon, ch_percent, ch_d, 0] [VInt 0xabcde, VInt 7] =
     None
   \<and> tl_printf False [] [ch_percent, 50, ch_x, ch_colon, ch_percent, ch_d, 0] [VInt 0xabcde, VInt 7] =
     Some (False, [98, 99, 100, 101, ch_colon, 55])"
proof -
  have "tl_render [THex 2, TLit ch_colon, TDec] [VInt 0xabcde, VInt 7] = Some [98, 99, 100, 101, ch_colon, 55]"
    "tl_format_of [THex 2, TLit ch_colon, TDec] = [ch_percent, 50, ch_x, ch_colon, ch_percent, ch_d]"
    by code_simp+
  then show ?thesis
    using tl_sprintf_text [of "[THex 2, TLit ch_colon, TDec]" "[VInt 0xabcde, VInt 7]" _ "replicate 6 1" "[]" "[]"]
    by (simp del: tl_format_of.simps tl_render.simps)
qed

text \<open>
  The printed numbers read back: \<open>%d\<close> for every \<open>int\<close> but the smallest, and \<open>%x\<close>, which without a
  width takes the smallest number of bytes that hold the number (\<open>get_field_width\<close>) and with a width
  of \<open>n\<close> bytes prints \<open>2 n\<close> digits of the number modulo \<open>256 ^ n\<close>.
\<close>

theorem tl_numbers_read_back:
  assumes "w \<noteq> 0x80000000" and "n \<le> 4"
  shows "(\<exists>tx. tl_putint (Console []) w = Some (Console tx) \<and> read_int tx = sint w)
    \<and> (\<exists>tx. tl_putnumber (Console []) w (unat (get_field_width w)) = Some (Console tx) \<and> read_base 16 tx = unat w)
    \<and> (\<exists>tx. tl_putnumber (Console []) w n = Some (Console tx) \<and> length tx = 2 * n \<and> read_base 16 tx = unat w mod 256 ^ n)"
  using assms get_field_width_bytes [of w] read_int_text [of w]
  by (simp add: tl_putint_emit tl_putnumber_emit emit_console int_text_number read_hex_bytes length_hex_bytes)

theorem tl_numbers_read_back_witness:
  "(\<exists>tx. tl_putint (Console []) (- 80) = Some (Console tx) \<and> read_int tx = - 80)
    \<and> (\<exists>tx. tl_putnumber (Console []) (- 80) 2 = Some (Console tx) \<and> length tx = 4 \<and> read_base 16 tx = 0xffb0)"
  using tl_numbers_read_back [of "- 80" 2] by auto

text \<open>
  A width of more than four bytes, as in \<open>%8x\<close>, shifts an \<open>unsigned int\<close> by more than 31; a percent
  sign before the terminator consumes an argument and goes on behind the end of the format; and the
  smallest \<open>int\<close> is printed with characters that are not digits.
\<close>

theorem tl_print_breaks:
  "tl_sprintf buff [ch_percent, 56, ch_x, 0] [VInt w] = None
    \<and> tl_sprintf buff [ch_percent, 0] [a] = None
    \<and> tl_putint (Console []) 0x80000000 = Some (Console [45, 46, 47, 44, 41, 44, 40, 45, 42, 44, 40])"
proof (intro conjI)
  show "tl_sprintf buff [ch_percent, 56, ch_x, 0] [VInt w] = None"
    using tl_putnumber_too_wide [of 8] by (simp add: tl_sprintf_def tl_print_def tl_print_loop.simps(2) tl_format_msg_def)
  show "tl_sprintf buff [ch_percent, 0] [a] = None"
    by (cases a) (simp_all add: tl_sprintf_def tl_print_def tl_print_loop.simps(2) tl_format_msg_def)
qed (rule tl_putint_smallest)

end
