(* ===== verification/Uart_Print.thy ===== *)
theory Uart_Print
  imports C_Prelude
begin

text \<open>
  The characters of the debug output: the software UART of \<^verbatim>\<open>application/print/putchar.c\<close> and
  \<^verbatim>\<open>drivers/TC123X/printf.c\<close>, and the USB endpoint of the printer class.  What the code reads from the
  hardware while it waits (the clock register \<open>0x740\<close>, the flag of a full fifo, the endpoint pointers)
  is a list of readings; a loop that outlives its readings is \<open>None\<close>.  A write to the register of the
  transmit pin is an event with the time at which it is made.
\<close>

section \<open>The software UART\<close>

text \<open>\<open>while (t1 - t2 < BIT_INTERVAL) t1 = read_reg32(0x740);\<close>\<close>

fun wait_interval :: "u32 \<Rightarrow> u32 \<Rightarrow> u32 \<Rightarrow> u32 list \<Rightarrow> (u32 \<times> u32 list) option" where
  "wait_interval BIT_INTERVAL t2 t1 [] = (if t1 - t2 < BIT_INTERVAL then None else Some (t1, []))"
| "wait_interval BIT_INTERVAL t2 t1 (t # clock) =
     (if t1 - t2 < BIT_INTERVAL then wait_interval BIT_INTERVAL t2 t clock else Some (t1, t # clock))"

text \<open>The loop of \<open>uart_putb\<close> for 32 and 48 MHz, and of \<open>io_putchar\<close>, over the ten values.\<close>

fun bit_loop :: "u32 \<Rightarrow> u32 \<Rightarrow> u32 list \<Rightarrow> u16 list \<Rightarrow> (u32 \<times> u16) list option" where
  "bit_loop BIT_INTERVAL t1 clock [] = Some []"
| "bit_loop BIT_INTERVAL t1 clock (b # bs) = do {
     (t1, clock) \<leftarrow> wait_interval BIT_INTERVAL t1 t1 clock;
     ws \<leftarrow> bit_loop BIT_INTERVAL t1 clock bs;
     Some ((t1, b) # ws) }"

definition uart_putb :: "u32 \<Rightarrow> u32 list \<Rightarrow> u16 list \<Rightarrow> (u32 \<times> u16) list option" where
  "uart_putb BIT_INTERVAL clock p = (case clock of [] \<Rightarrow> None | t1 # clock \<Rightarrow> bit_loop BIT_INTERVAL t1 clock p)"

definition frame_bits :: "u16 \<Rightarrow> u16 \<Rightarrow> u8 \<Rightarrow> u16 list" where
  "frame_bits tmp_bit0 tmp_bit1 byte =
     [tmp_bit0,
      if byte AND 0x01 \<noteq> 0 then tmp_bit1 else tmp_bit0,
      if drop_bit 1 byte AND 0x01 \<noteq> 0 then tmp_bit1 else tmp_bit0,
      if drop_bit 2 byte AND 0x01 \<noteq> 0 then tmp_bit1 else tmp_bit0,
      if drop_bit 3 byte AND 0x01 \<noteq> 0 then tmp_bit1 else tmp_bit0,
      if drop_bit 4 byte AND 0x01 \<noteq> 0 then tmp_bit1 else tmp_bit0,
      if drop_bit 5 byte AND 0x01 \<noteq> 0 then tmp_bit1 else tmp_bit0,
      if drop_bit 6 byte AND 0x01 \<noteq> 0 then tmp_bit1 else tmp_bit0,
      if drop_bit 7 byte AND 0x01 \<noteq> 0 then tmp_bit1 else tmp_bit0,
      tmp_bit1]"

text \<open>TC321X and TC123X have a register to set and clear pins; the others write the whole port.\<close>

definition uart_putc :: "bool \<Rightarrow> u32 \<Rightarrow> u32 \<Rightarrow> u8 \<Rightarrow> u32 list \<Rightarrow> u8 \<Rightarrow> (u32 \<times> u16) list option" where
  "uart_putc set_clear pin BIT_INTERVAL reg clock byte =
     (let tmp_bit0 = (if set_clear then ucast (push_bit 8 (pin AND 0xff)) else ucast (ucast reg AND NOT (pin AND 0xff)) :: u16);
          tmp_bit1 = (if set_clear then ucast (pin AND 0xff) else ucast (ucast reg OR (pin AND 0xff)))
      in uart_putb BIT_INTERVAL clock (frame_bits tmp_bit0 tmp_bit1 byte))"

text \<open>The static flag of \<open>io_putchar\<close>, and what its first call does before the ten values.\<close>

datatype pin_event = Gpio_enable | Output_enable | Gpio_write bool | Pin_write u32 u16

definition io_putchar :: "bool \<Rightarrow> u32 \<Rightarrow> u32 \<Rightarrow> u32 list \<Rightarrow> u8 \<Rightarrow> (bool \<times> pin_event list) option" where
  "io_putchar init_flag pin BIT_INTERVAL clock byte = do {
     let start = (if init_flag then [Gpio_enable, Output_enable, Gpio_write True] else []);
     let tmp_bit0 = (ucast (push_bit 8 (pin AND 0xff)) :: u16);
     let tmp_bit1 = (ucast (pin AND 0xff) :: u16);
     ws \<leftarrow> (case clock of [] \<Rightarrow> None | t1 # clock \<Rightarrow> bit_loop BIT_INTERVAL t1 clock (frame_bits tmp_bit0 tmp_bit1 byte));
     Some (False, start @ map (\<lambda>(t, v). Pin_write t v) ws) }"

section \<open>The printer endpoint\<close>

definition USB_PRINT_TIMEOUT :: nat where "USB_PRINT_TIMEOUT = 10"
definition USB_SWIRE_BUFF_SIZE :: int where "USB_SWIRE_BUFF_SIZE = 248"

text \<open>The readings of the full flag of endpoint 8, and the bytes written to the endpoint.\<close>

fun usb_poll :: "nat \<Rightarrow> bool list \<Rightarrow> u8 list \<Rightarrow> u8 \<Rightarrow> (u8 list \<times> int) option" where
  "usb_poll 0 full dat c = Some (dat, - 1)"
| "usb_poll (Suc n) [] dat c = None"
| "usb_poll (Suc n) (f # full) dat c = (if \<not> f then Some (dat @ [c], sint c) else usb_poll n full dat c)"

text \<open>A \<open>char\<close> is signed in what is returned.\<close>

definition usb_putc :: "bool list \<Rightarrow> u8 list \<Rightarrow> u8 \<Rightarrow> (u8 list \<times> int) option" where
  "usb_putc full dat c = usb_poll USB_PRINT_TIMEOUT full dat c"

record swire =
  swire_is_init :: bool
  ep_ptr_in :: u8
  ep_ptr_out :: u8
  ep8_send_max :: u8
  ep_dat :: "u8 list"

definition swire_init :: "swire \<Rightarrow> swire" where
  "swire_init s = s\<lparr>ep_ptr_in := 0, ep_ptr_out := 0, ep8_send_max := 64\<rparr>"

text \<open>The pointers move with the transfers: the pairs of readings that the loop makes.\<close>

fun swire_poll :: "nat \<Rightarrow> (u8 \<times> u8) list \<Rightarrow> swire \<Rightarrow> u8 \<Rightarrow> (swire \<times> int) option" where
  "swire_poll 0 ptrs s c = Some (s, - 1)"
| "swire_poll (Suc n) [] s c = None"
| "swire_poll (Suc n) ((i, j) # ptrs) s c =
     (if int (unat i) - int (unat j) \<le> USB_SWIRE_BUFF_SIZE then Some (s\<lparr>ep_dat := ep_dat s @ [c]\<rparr>, sint c)
      else swire_poll n ptrs s c)"

definition swire_putc :: "(u8 \<times> u8) list \<Rightarrow> swire \<Rightarrow> u8 \<Rightarrow> (swire \<times> int) option" where
  "swire_putc ptrs s c =
     (let s = (if \<not> swire_is_init s then (swire_init s)\<lparr>swire_is_init := True\<rparr> else s)
      in swire_poll USB_PRINT_TIMEOUT ptrs s c)"

text \<open>\<open>putchar\<close> with \<open>USB_PRINT_DEBUG_ENABLE\<close>.\<close>

definition usb_putchar :: "bool \<Rightarrow> bool list \<Rightarrow> (u8 \<times> u8) list \<Rightarrow> swire \<Rightarrow> u8 \<Rightarrow> (swire \<times> int) option" where
  "usb_putchar reg_usb_host_conn full ptrs s c =
     (if reg_usb_host_conn then do {
        let s = s\<lparr>swire_is_init := False\<rparr>;
        (dat, r) \<leftarrow> usb_putc full (ep_dat s) c;
        Some (s\<lparr>ep_dat := dat\<rparr>, r) }
      else swire_putc ptrs s c)"

section \<open>The receiver\<close>

text \<open>
  Eight data bits behind a start bit and before a stop bit, the least significant one first; the
  level is that of the transmit pin.
\<close>

fun bits_value :: "bool list \<Rightarrow> nat" where
  "bits_value [] = 0"
| "bits_value (b # bs) = (if b then 1 else 0) + 2 * bits_value bs"

definition receive :: "bool list \<Rightarrow> u8 option" where
  "receive ls = (if length ls = 10 \<and> \<not> ls ! 0 \<and> ls ! 9 then Some (of_nat (bits_value (take 8 (drop 1 ls)))) else None)"

lemma bits_value_horner: "bits_value bs = horner_sum of_bool 2 bs"
  by (induction bs) auto

lemma bit_test: "drop_bit n byte AND 1 \<noteq> 0 \<longleftrightarrow> bit byte n" "byte AND 1 \<noteq> 0 \<longleftrightarrow> bit byte 0" for byte :: u8
  by (simp_all add: and_one_eq bit_iff_odd_drop_bit odd_iff_mod_2_eq_one)

lemma frame_bits_bit:
  "frame_bits l0 l1 byte = l0 # map (\<lambda>n. if bit byte n then l1 else l0) [0..<8] @ [l1]"
proof -
  have u: "[0..<8] = [0, 1, 2, 3, 4, 5, 6, 7]"
    by (simp add: upt_rec)
  show ?thesis
    by (simp only: frame_bits_def bit_test(1) bit_test(2) [of byte] u list.map append.simps bit_drop_bit_eq o_apply add_0_right)
qed

lemma frame_received:
  assumes "\<not> level l0" and "level l1"
  shows "receive (map level (frame_bits l0 l1 byte)) = Some byte"
proof -
  have ls: "map level (frame_bits l0 l1 byte) = False # map (bit byte) [0..<8] @ [True]"
    using assms by (simp only: frame_bits_bit list.map map_append map_map o_def if_distrib [of level]) auto
  have "horner_sum of_bool 2 (map (bit byte) [0..<8]) = byte"
    using horner_sum_bit_eq_take_bit [of byte 8] take_bit_length_eq [of byte] by simp
  moreover have "of_nat (horner_sum of_bool 2 bs) = (horner_sum of_bool 2 bs :: u8)" for bs
    by (induction bs) auto
  ultimately show ?thesis
    unfolding ls receive_def by (simp add: bits_value_horner nth_append)
qed

text \<open>The times of the writes: each is at least an interval behind the one before it.\<close>

fun paced :: "u32 \<Rightarrow> u32 \<Rightarrow> u32 list \<Rightarrow> bool" where
  "paced d t [] \<longleftrightarrow> True"
| "paced d t (t' # ts) \<longleftrightarrow> d \<le> t' - t \<and> paced d t' ts"

lemma wait_interval_waits: "wait_interval d t2 t1 clock = Some (t, clock') \<Longrightarrow> d \<le> t - t2"
  by (induction d t2 t1 clock rule: wait_interval.induct) (auto simp: not_less split: if_splits)

lemma bit_loop_writes:
  "bit_loop d t1 clock bs = Some ws \<Longrightarrow> map snd ws = bs \<and> paced d t1 (map fst ws)"
  by (induction d t1 clock bs arbitrary: ws rule: bit_loop.induct)
    (auto simp: bind_eq_Some_conv dest: wait_interval_waits)

text \<open>
  The wait loops end: when the clock advances by an interval within \<open>M\<close> readings from any reading on, the loop over \<open>n\<close> values
  makes at most \<open>n * M\<close> readings, so that a list of that many is enough.
\<close>

lemma wait_interval_ends:
  assumes "i' \<le> j" and "j < N" and "d \<le> clock j - t2"
  shows "\<exists>k. i' \<le> k \<and> k \<le> j \<and> wait_interval d t2 (clock i') (map clock [Suc i'..<N]) = Some (clock k, map clock [Suc k..<N])"
  using assms(1)
proof (induction "j - i'" arbitrary: i')
  case 0
  then have [simp]: "i' = j"
    by simp
  show ?case
    using assms(3) by (cases "[Suc j..<N]") (auto simp: not_less [symmetric])
next
  case (Suc n)
  then have "Suc i' \<le> j" "n = j - Suc i'"
    by simp_all
  then obtain k where k: "Suc i' \<le> k" "k \<le> j" "wait_interval d t2 (clock (Suc i')) (map clock [Suc (Suc i')..<N]) = Some (clock k, map clock [Suc k..<N])"
    using Suc.hyps(1) by blast
  have upt: "[Suc i'..<N] = Suc i' # [Suc (Suc i')..<N]"
    using \<open>Suc i' \<le> j\<close> assms(2) by (simp add: upt_conv_Cons)
  show ?case
  proof (cases "clock i' - t2 < d")
    case True
    then show ?thesis
      using k by (intro exI [where x = k]) (simp add: upt)
  next
    case False
    then show ?thesis
      using Suc.prems by (intro exI [where x = i']) (simp add: upt)
  qed
qed

lemma bit_loop_ends:
  assumes ticks: "\<And>i. \<exists>j. i \<le> j \<and> j \<le> i + M \<and> d \<le> clock j - clock i" and "i + length bs * M < N"
  shows "\<exists>ws. bit_loop d (clock i) (map clock [Suc i..<N]) bs = Some ws"
  using assms(2)
proof (induction bs arbitrary: i)
  case (Cons b bs)
  obtain j where j: "i \<le> j" "j \<le> i + M" "d \<le> clock j - clock i"
    using ticks by blast
  have "j < N"
    using j(2) Cons.prems by simp
  then obtain k where k: "k \<le> j" "wait_interval d (clock i) (clock i) (map clock [Suc i..<N]) = Some (clock k, map clock [Suc k..<N])"
    using wait_interval_ends [of i j N d clock "clock i"] j by blast
  have "k + length bs * M < N"
    using k(1) j(2) Cons.prems by simp
  then show ?case
    using Cons.IH [of k] k(2) by auto
qed simp

text \<open>
  C29: A byte that the software UART sends is received as that byte, and the call returns: on a clock that advances by
  a bit interval within \<open>M\<close> readings, \<open>10 * M + 1\<close> readings are enough, and the ten values are written in the
  order of the frame (start bit, data from the least significant bit on, stop bit), each at least a
  bit interval behind the one before, with the transmit pin at the level of the bit.  No other pin of the port changes: a write
  to the whole port keeps their bits, and a write to the set and clear register has the bit of this pin only.
\<close>

theorem uart_frame_received:
  assumes pin: "pin AND 0xff \<noteq> 0" and ticks: "\<And>i. \<exists>j. i \<le> j \<and> j \<le> i + M \<and> BIT_INTERVAL \<le> clock j - clock i" and N: "10 * M < N"
  shows "\<exists>ws. uart_putc set_clear pin BIT_INTERVAL reg (map clock [0..<N]) byte = Some ws
    \<and> receive (map (\<lambda>(_, v). ucast v AND pin AND 0xff \<noteq> 0) ws) = Some byte
    \<and> paced BIT_INTERVAL (clock 0) (map fst ws)
    \<and> (\<forall>(_, v) \<in> set ws.
         if set_clear then v = (if ucast v AND pin AND 0xff \<noteq> 0 then ucast (pin AND 0xff) else push_bit 8 (ucast (pin AND 0xff)))
         else v AND NOT (ucast (pin AND 0xff)) = ucast reg AND NOT (ucast (pin AND 0xff)))"
proof -
  let ?p = "ucast (pin AND 0xff) :: u16"
  define l0 where "l0 = (if set_clear then ucast (push_bit 8 (pin AND 0xff)) else ucast (ucast reg AND NOT (pin AND 0xff)) :: u16)"
  define l1 where "l1 = (if set_clear then ucast (pin AND 0xff) else ucast (ucast reg OR (pin AND 0xff)) :: u16)"
  let ?level = "\<lambda>v :: u16. ucast v AND pin AND 0xff \<noteq> 0"
  have bits: "length (frame_bits l0 l1 byte) = 10"
    by (simp add: frame_bits_def)
  then obtain ws where ws: "bit_loop BIT_INTERVAL (clock 0) (map clock [Suc 0..<N]) (frame_bits l0 l1 byte) = Some ws"
    using bit_loop_ends [of M BIT_INTERVAL clock 0 "frame_bits l0 l1 byte" N] ticks N by auto
  have first: "map clock [0..<N] = clock 0 # map clock [Suc 0..<N]"
    using N by (simp add: upt_conv_Cons)
  have call: "uart_putc set_clear pin BIT_INTERVAL reg (map clock [0..<N]) byte = Some ws"
    unfolding uart_putc_def l0_def [symmetric] l1_def [symmetric] Let_def uart_putb_def first using ws by simp
  have writes: "map snd ws = frame_bits l0 l1 byte" "paced BIT_INTERVAL (clock 0) (map fst ws)"
    using bit_loop_writes [OF ws] by simp_all
  have low: "ucast l0 AND pin AND 0xff = 0"
    unfolding l0_def by (rule bit_word_eqI) (auto simp: bit_simps and_low_mask)
  have high: "ucast l1 AND pin AND 0xff = pin AND 0xff"
    unfolding l1_def by (rule bit_word_eqI) (auto simp: bit_simps and_low_mask)
  have "receive (map ?level (frame_bits l0 l1 byte)) = Some byte"
    using low high pin by (intro frame_received) auto
  moreover have "map ?level (frame_bits l0 l1 byte) = map (\<lambda>(_, v). ?level v) ws"
    by (simp only: writes(1) [symmetric] list.map_comp o_def case_prod_unfold)
  ultimately have received: "receive (map (\<lambda>(_, v). ?level v) ws) = Some byte"
    by simp
  have pins: "if set_clear then v = (if ?level v then ?p else push_bit 8 ?p) else v AND NOT ?p = ucast reg AND NOT ?p"
    if v: "v \<in> {l0, l1}" for v
  proof (cases set_clear)
    case True
    then have "l0 = push_bit 8 ?p" "l1 = ?p"
      unfolding l0_def l1_def by (auto intro!: bit_word_eqI simp: bit_simps and_low_mask)
    then show ?thesis
      using True v low high pin by auto
  next
    case False
    then show ?thesis
      using v by (auto simp: l0_def l1_def intro!: bit_word_eqI simp: bit_simps)
  qed
  have written: "snd ` set ws \<subseteq> {l0, l1}"
    using arg_cong [OF writes(1), of set] by (auto simp: frame_bits_def)
  have "\<forall>(_, v) \<in> set ws. if set_clear then v = (if ?level v then ?p else push_bit 8 ?p) else v AND NOT ?p = ucast reg AND NOT ?p"
  proof (intro ballI, unfold split_beta)
    fix w
    assume "w \<in> set ws"
    then have "snd w \<in> {l0, l1}"
      using written by blast
    then show "if set_clear then snd w = (if ?level (snd w) then ?p else push_bit 8 ?p) else snd w AND NOT ?p = ucast reg AND NOT ?p"
      by (rule pins)
  qed
  then show ?thesis
    using writes(2) call received by (intro exI [where x = ws]) simp
qed

theorem uart_frame_received_witness:
  "\<exists>ws. uart_putc False 2 2 0x10 (map of_nat [0..<21]) 0xa5 = Some ws
    \<and> receive (map (\<lambda>(_, v). ucast v AND (2 :: u32) AND 0xff \<noteq> 0) ws) = Some 0xa5 \<and> paced 2 0 (map fst ws)"
proof -
  have "\<exists>j. i \<le> j \<and> j \<le> i + 2 \<and> (2 :: u32) \<le> of_nat j - of_nat i" for i :: nat
    by (intro exI [where x = "i + 2"]) simp
  from uart_frame_received [OF _ this, of 2 21 False "0x10" "0xa5"] show ?thesis
    by auto
qed

text \<open>The printer endpoint: a byte is written at most once, and only if the fifo was seen not to be full.\<close>

lemma usb_poll_spec:
  "n \<le> length full \<Longrightarrow> usb_poll n full dat c =
    Some (if False \<in> set (take n full) then (dat @ [c], sint c) else (dat, - 1))"
proof (induction n arbitrary: full)
  case (Suc n)
  then show ?case
    by (cases full) auto
qed simp

end
