(* ===== verification/Keycodes.thy ===== *)
theory Keycodes
  imports C_Prelude
begin

text \<open>
  The key codes of \<^verbatim>\<open>application/usbstd/usbkeycode.h\<close> that the keyboard component uses, with the default
  setting \<open>CTRL_SHIFT_E0E7\<close>, and the default key maps of \<^verbatim>\<open>application/keyboard/keyboard.c\<close>: a row for
  each scan line, with the code of the key on each drive line.
\<close>

section \<open>Codes\<close>

definition VK_NONE :: u8 where "VK_NONE = 0x00"
definition VK_MSK_LCTRL :: u8 where "VK_MSK_LCTRL = 0x01"
definition VK_MSK_LSHIFT :: u8 where "VK_MSK_LSHIFT = 0x02"
definition VK_MSK_LALT :: u8 where "VK_MSK_LALT = 0x04"
definition VK_MSK_LWIN :: u8 where "VK_MSK_LWIN = 0x08"
definition VK_MSK_RCTRL :: u8 where "VK_MSK_RCTRL = 0x10"
definition VK_MSK_RSHIFT :: u8 where "VK_MSK_RSHIFT = 0x20"
definition VK_MSK_RALT :: u8 where "VK_MSK_RALT = 0x40"
definition VK_MSK_RWIN :: u8 where "VK_MSK_RWIN = 0x80"
definition VK_A :: u8 where "VK_A = 0x04"
definition VK_B :: u8 where "VK_B = 0x05"
definition VK_C :: u8 where "VK_C = 0x06"
definition VK_D :: u8 where "VK_D = 0x07"
definition VK_E :: u8 where "VK_E = 0x08"
definition VK_F :: u8 where "VK_F = 0x09"
definition VK_G :: u8 where "VK_G = 0x0a"
definition VK_H :: u8 where "VK_H = 0x0b"
definition VK_I :: u8 where "VK_I = 0x0c"
definition VK_J :: u8 where "VK_J = 0x0d"
definition VK_K :: u8 where "VK_K = 0x0e"
definition VK_L :: u8 where "VK_L = 0x0f"
definition VK_M :: u8 where "VK_M = 0x10"
definition VK_N :: u8 where "VK_N = 0x11"
definition VK_O :: u8 where "VK_O = 0x12"
definition VK_P :: u8 where "VK_P = 0x13"
definition VK_Q :: u8 where "VK_Q = 0x14"
definition VK_R :: u8 where "VK_R = 0x15"
definition VK_S :: u8 where "VK_S = 0x16"
definition VK_T :: u8 where "VK_T = 0x17"
definition VK_U :: u8 where "VK_U = 0x18"
definition VK_V :: u8 where "VK_V = 0x19"
definition VK_W :: u8 where "VK_W = 0x1a"
definition VK_X :: u8 where "VK_X = 0x1b"
definition VK_Y :: u8 where "VK_Y = 0x1c"
definition VK_Z :: u8 where "VK_Z = 0x1d"
definition VK_1 :: u8 where "VK_1 = 0x1e"
definition VK_2 :: u8 where "VK_2 = 0x1f"
definition VK_3 :: u8 where "VK_3 = 0x20"
definition VK_4 :: u8 where "VK_4 = 0x21"
definition VK_5 :: u8 where "VK_5 = 0x22"
definition VK_6 :: u8 where "VK_6 = 0x23"
definition VK_7 :: u8 where "VK_7 = 0x24"
definition VK_8 :: u8 where "VK_8 = 0x25"
definition VK_9 :: u8 where "VK_9 = 0x26"
definition VK_0 :: u8 where "VK_0 = 0x27"
definition VK_ENTER :: u8 where "VK_ENTER = 0x28"
definition VK_ESC :: u8 where "VK_ESC = 0x29"
definition VK_BACKSPACE :: u8 where "VK_BACKSPACE = 0x2a"
definition VK_TAB :: u8 where "VK_TAB = 0x2b"
definition VK_SPACE :: u8 where "VK_SPACE = 0x2c"
definition VK_MINUS :: u8 where "VK_MINUS = 0x2d"
definition VK_EQUAL :: u8 where "VK_EQUAL = 0x2e"
definition VK_LBRACE :: u8 where "VK_LBRACE = 0x2f"
definition VK_RBRACE :: u8 where "VK_RBRACE = 0x30"
definition VK_BACKSLASH :: u8 where "VK_BACKSLASH = 0x31"
definition VK_SEMICOLON :: u8 where "VK_SEMICOLON = 0x33"
definition VK_QUOTE :: u8 where "VK_QUOTE = 0x34"
definition VK_TILDE :: u8 where "VK_TILDE = 0x35"
definition VK_COMMA :: u8 where "VK_COMMA = 0x36"
definition VK_PERIOD :: u8 where "VK_PERIOD = 0x37"
definition VK_SLASH :: u8 where "VK_SLASH = 0x38"
definition VK_CAPITAL :: u8 where "VK_CAPITAL = 0x39"
definition VK_F1 :: u8 where "VK_F1 = 0x3a"
definition VK_F2 :: u8 where "VK_F2 = 0x3b"
definition VK_F3 :: u8 where "VK_F3 = 0x3c"
definition VK_F4 :: u8 where "VK_F4 = 0x3d"
definition VK_F5 :: u8 where "VK_F5 = 0x3e"
definition VK_F6 :: u8 where "VK_F6 = 0x3f"
definition VK_F7 :: u8 where "VK_F7 = 0x40"
definition VK_F8 :: u8 where "VK_F8 = 0x41"
definition VK_F9 :: u8 where "VK_F9 = 0x42"
definition VK_F10 :: u8 where "VK_F10 = 0x43"
definition VK_F11 :: u8 where "VK_F11 = 0x44"
definition VK_F12 :: u8 where "VK_F12 = 0x45"
definition VK_PRINTSCREEN :: u8 where "VK_PRINTSCREEN = 0x46"
definition VK_SCR_LOCK :: u8 where "VK_SCR_LOCK = 0x47"
definition VK_PAUSE :: u8 where "VK_PAUSE = 0x48"
definition VK_INSERT :: u8 where "VK_INSERT = 0x49"
definition VK_HOME :: u8 where "VK_HOME = 0x4a"
definition VK_PAGE_UP :: u8 where "VK_PAGE_UP = 0x4b"
definition VK_DELETE :: u8 where "VK_DELETE = 0x4c"
definition VK_END :: u8 where "VK_END = 0x4d"
definition VK_PAGE_DOWN :: u8 where "VK_PAGE_DOWN = 0x4e"
definition VK_RIGHT :: u8 where "VK_RIGHT = 0x4f"
definition VK_LEFT :: u8 where "VK_LEFT = 0x50"
definition VK_DOWN :: u8 where "VK_DOWN = 0x51"
definition VK_UP :: u8 where "VK_UP = 0x52"
definition VK_NUM_LOCK :: u8 where "VK_NUM_LOCK = 0x53"
definition VKPAD_SLASH :: u8 where "VKPAD_SLASH = 0x54"
definition VKPAD_ASTERIX :: u8 where "VKPAD_ASTERIX = 0x55"
definition VKPAD_MINUS :: u8 where "VKPAD_MINUS = 0x56"
definition VKPAD_PLUS :: u8 where "VKPAD_PLUS = 0x57"
definition VKPAD_ENTER :: u8 where "VKPAD_ENTER = 0x58"
definition VKPAD_1 :: u8 where "VKPAD_1 = 0x59"
definition VKPAD_2 :: u8 where "VKPAD_2 = 0x5a"
definition VKPAD_3 :: u8 where "VKPAD_3 = 0x5b"
definition VKPAD_4 :: u8 where "VKPAD_4 = 0x5c"
definition VKPAD_5 :: u8 where "VKPAD_5 = 0x5d"
definition VKPAD_6 :: u8 where "VKPAD_6 = 0x5e"
definition VKPAD_7 :: u8 where "VKPAD_7 = 0x5f"
definition VKPAD_8 :: u8 where "VKPAD_8 = 0x60"
definition VKPAD_9 :: u8 where "VKPAD_9 = 0x61"
definition VKPAD_0 :: u8 where "VKPAD_0 = 0x62"
definition VKPAD_PERIOD :: u8 where "VKPAD_PERIOD = 0x63"
definition VK_K45 :: u8 where "VK_K45 = 0x64"
definition VK_APP :: u8 where "VK_APP = 0x65"
definition VK_C9R1 :: u8 where "VK_C9R1 = 0xf0"
definition VK_C9R6 :: u8 where "VK_C9R6 = 0xf1"
definition VK_RMB :: u8 where "VK_RMB = 0xf2"
definition VK_EURO :: u8 where "VK_EURO = 0xf3"
definition VK_MMODE :: u8 where "VK_MMODE = 0xf4"
definition VK_K107 :: u8 where "VK_K107 = 0x85"
definition VK_K56 :: u8 where "VK_K56 = 0x87"
definition VK_ROMA :: u8 where "VK_ROMA = 0x88"
definition VK_K14 :: u8 where "VK_K14 = 0x89"
definition VK_CHG :: u8 where "VK_CHG = 0x8a"
definition VK_NCHG :: u8 where "VK_NCHG = 0x8b"
definition VK_KCR :: u8 where "VK_KCR = 0x90"
definition VK_KCL :: u8 where "VK_KCL = 0x91"
definition VK_CTRL :: u8 where "VK_CTRL = 0xe0"
definition VK_SHIFT :: u8 where "VK_SHIFT = 0xe1"
definition VK_ALT :: u8 where "VK_ALT = 0xe2"
definition VK_WIN :: u8 where "VK_WIN = 0xe3"
definition VK_RCTRL :: u8 where "VK_RCTRL = 0xe4"
definition VK_RSHIFT :: u8 where "VK_RSHIFT = 0xe5"
definition VK_RALT :: u8 where "VK_RALT = 0xe6"
definition VK_RWIN :: u8 where "VK_RWIN = 0xe7"
definition VK_EXT_START :: u8 where "VK_EXT_START = 0xa0"
definition VK_SYS_START :: u8 where "VK_SYS_START = 0xa0"
definition VK_SLEEP :: u8 where "VK_SLEEP = 0xa0"
definition VK_POWER :: u8 where "VK_POWER = 0xa1"
definition VK_WAKEUP :: u8 where "VK_WAKEUP = 0xa2"
definition VK_SYS_END :: u8 where "VK_SYS_END = 0xa3"
definition VK_MEDIA_START :: u8 where "VK_MEDIA_START = 0xa3"
definition VK_W_SRCH :: u8 where "VK_W_SRCH = 0xa3"
definition VK_WEB :: u8 where "VK_WEB = 0xa4"
definition VK_W_BACK :: u8 where "VK_W_BACK = 0xa5"
definition VK_W_FORWARD :: u8 where "VK_W_FORWARD = 0xa6"
definition VK_W_STOP :: u8 where "VK_W_STOP = 0xa7"
definition VK_W_REFRESH :: u8 where "VK_W_REFRESH = 0xa8"
definition VK_W_FAV :: u8 where "VK_W_FAV = 0xa9"
definition VK_MEDIA :: u8 where "VK_MEDIA = 0xaa"
definition VK_MAIL :: u8 where "VK_MAIL = 0xab"
definition VK_CAL :: u8 where "VK_CAL = 0xac"
definition VK_MY_COMP :: u8 where "VK_MY_COMP = 0xad"
definition VK_NEXT_TRK :: u8 where "VK_NEXT_TRK = 0xae"
definition VK_PREV_TRK :: u8 where "VK_PREV_TRK = 0xaf"
definition VK_STOP :: u8 where "VK_STOP = 0xb0"
definition VK_PLAY_PAUSE :: u8 where "VK_PLAY_PAUSE = 0xb1"
definition VK_W_MUTE :: u8 where "VK_W_MUTE = 0xb2"
definition VK_VOL_UP :: u8 where "VK_VOL_UP = 0xb3"
definition VK_VOL_DN :: u8 where "VK_VOL_DN = 0xb4"
definition VK_MEDIA_END :: u8 where "VK_MEDIA_END = 0xb5"
definition VK_EXT_END :: u8 where "VK_EXT_END = 0xb5"
definition VK_ZOOM_IN :: u8 where "VK_ZOOM_IN = 0xb6"
definition VK_ZOOM_OUT :: u8 where "VK_ZOOM_OUT = 0xb7"
definition VK_FN :: u8 where "VK_FN = 0xff"

section \<open>Maps\<close>

type_synonym key_map = "u8 list list"

definition kb_map_normal_default :: key_map where
  "kb_map_normal_default =
    [[VK_PAUSE, VK_POWER, VK_EURO, VK_SLEEP, VK_RCTRL, VK_WAKEUP, VK_CTRL, VK_F5],
     [VK_Q, VK_TAB, VK_A, VK_ESC, VK_Z, VK_NCHG, VK_TILDE, VK_1],
     [VK_W, VK_CAPITAL, VK_S, VK_K45, VK_X, VK_CHG, VK_F1, VK_2],
     [VK_E, VK_F3, VK_D, VK_F4, VK_C, VK_ROMA, VK_F2, VK_3],
     [VK_R, VK_T, VK_F, VK_G, VK_V, VK_B, VK_5, VK_4],
     [VK_U, VK_Y, VK_J, VK_H, VK_M, VK_N, VK_6, VK_7],
     [VK_I, VK_RBRACE, VK_K, VK_F6, VK_COMMA, VK_K56, VK_EQUAL, VK_8],
     [VK_O, VK_F7, VK_L, VK_RMB, VK_PERIOD, VK_APP, VK_F8, VK_9],
     [VK_P, VK_LBRACE, VK_SEMICOLON, VK_QUOTE, VK_BACKSLASH, VK_SLASH, VK_MINUS, VK_0],
     [VK_SCR_LOCK, VK_C9R1, VK_FN, VK_ALT, VK_MMODE, VK_RALT, VK_C9R6, VK_PRINTSCREEN],
     [VK_K14, VK_BACKSPACE, VK_BACKSLASH, VK_F11, VK_ENTER, VK_F12, VK_F9, VK_F10],
     [VK_HOME, VK_LEFT, VK_END, VK_SPACE, VK_NUM_LOCK, VK_DOWN, VK_DELETE, VK_POWER],
     [VK_UP, VK_NONE, VK_DOWN, VK_INSERT, VKPAD_SLASH, VK_RIGHT, VK_INSERT, VK_SLEEP],
     [VK_PAGE_UP, VK_RIGHT, VK_PAGE_DOWN, VKPAD_PERIOD, VKPAD_ASTERIX, VKPAD_MINUS, VK_PAGE_UP, VK_PAGE_DOWN],
     [VKPAD_PLUS, VK_K107, VKPAD_ENTER, VK_UP, VK_PLAY_PAUSE, VK_LEFT, VK_HOME, VK_END],
     [VK_WAKEUP, VK_SHIFT, VK_RSHIFT, VK_VOL_DN, VK_VOL_UP, VK_NEXT_TRK, VK_PREV_TRK, VK_MEDIA],
     [VK_MAIL, VK_WIN, VK_W_FORWARD, VK_W_STOP, VK_W_BACK, VK_W_REFRESH, VK_W_MUTE, VK_W_SRCH],
     [VK_KCL, VK_W_FAV, VK_RWIN, VK_MY_COMP, VK_STOP, VK_CAL, VK_WEB, VK_KCR]]"

definition kb_map_num_default :: key_map where
  "kb_map_num_default =
    [[VK_PAUSE, VK_POWER, VK_EURO, VK_SLEEP, VK_RCTRL, VK_WAKEUP, VK_CTRL, VK_F5],
     [VK_Q, VK_TAB, VK_A, VK_ESC, VK_Z, VK_NCHG, VK_TILDE, VK_1],
     [VK_W, VK_CAPITAL, VK_S, VK_K45, VK_X, VK_CHG, VK_F1, VK_2],
     [VK_E, VK_F3, VK_D, VK_F4, VK_C, VK_ROMA, VK_F2, VK_3],
     [VK_R, VK_T, VK_F, VK_G, VK_V, VK_B, VK_5, VK_4],
     [VK_U, VK_Y, VK_J, VK_H, VK_M, VK_N, VK_6, VK_7],
     [VK_I, VK_RBRACE, VK_K, VK_F6, VK_COMMA, VK_K56, VK_EQUAL, VK_8],
     [VK_O, VK_F7, VK_L, VK_RMB, VK_PERIOD, VK_APP, VK_F8, VK_9],
     [VK_P, VK_LBRACE, VK_SEMICOLON, VK_QUOTE, VK_BACKSLASH, VK_SLASH, VK_MINUS, VK_0],
     [VK_SCR_LOCK, VK_C9R1, VK_FN, VK_ALT, VK_MMODE, VK_RALT, VK_C9R6, VK_PRINTSCREEN],
     [VK_K14, VK_BACKSPACE, VK_BACKSLASH, VK_F11, VK_ENTER, VK_F12, VK_F9, VK_F10],
     [VKPAD_7, VKPAD_4, VKPAD_1, VK_SPACE, VK_NUM_LOCK, VK_DOWN, VK_DELETE, VK_POWER],
     [VKPAD_8, VKPAD_5, VKPAD_2, VKPAD_0, VKPAD_SLASH, VK_RIGHT, VK_INSERT, VK_SLEEP],
     [VKPAD_9, VKPAD_6, VKPAD_3, VKPAD_PERIOD, VKPAD_ASTERIX, VKPAD_MINUS, VK_PAGE_UP, VK_PAGE_DOWN],
     [VKPAD_PLUS, VK_K107, VKPAD_ENTER, VK_UP, VK_PLAY_PAUSE, VK_LEFT, VK_HOME, VK_END],
     [VK_WAKEUP, VK_SHIFT, VK_RSHIFT, VK_VOL_DN, VK_VOL_UP, VK_NEXT_TRK, VK_PREV_TRK, VK_MEDIA],
     [VK_MAIL, VK_WIN, VK_W_FORWARD, VK_W_STOP, VK_W_BACK, VK_W_REFRESH, VK_W_MUTE, VK_W_SRCH],
     [VK_KCL, VK_W_FAV, VK_RWIN, VK_MY_COMP, VK_STOP, VK_CAL, VK_WEB, VK_KCR]]"

definition kb_map_fn_default :: key_map where
  "kb_map_fn_default =
    [[VK_PAUSE, VK_POWER, VK_EURO, VK_SLEEP, VK_RCTRL, VK_WAKEUP, VK_CTRL, VK_F5],
     [VK_Q, VK_TAB, VK_A, VK_ESC, VK_Z, VK_NCHG, VK_TILDE, VK_1],
     [VK_W, VK_CAPITAL, VK_S, VK_K45, VK_X, VK_CHG, VK_F1, VK_2],
     [VK_E, VK_F3, VK_D, VK_F4, VK_C, VK_ROMA, VK_F2, VK_3],
     [VK_R, VK_T, VK_F, VK_G, VK_V, VK_B, VK_5, VK_4],
     [VK_U, VK_Y, VK_J, VK_H, VK_M, VK_N, VK_6, VK_7],
     [VK_I, VK_RBRACE, VK_K, VK_F6, VK_COMMA, VK_K56, VK_EQUAL, VK_8],
     [VK_O, VK_F7, VK_L, VK_RMB, VK_PERIOD, VK_APP, VK_F8, VK_9],
     [VK_P, VK_LBRACE, VK_SEMICOLON, VK_QUOTE, VK_BACKSLASH, VK_SLASH, VK_MINUS, VK_0],
     [VK_SCR_LOCK, VK_C9R1, VK_FN, VK_ALT, VK_MMODE, VK_RALT, VK_C9R6, VK_PRINTSCREEN],
     [VK_K14, VK_BACKSPACE, VK_BACKSLASH, VK_F11, VK_ENTER, VK_F12, VK_F9, VK_F10],
     [VKPAD_7, VKPAD_4, VKPAD_1, VK_SPACE, VK_NUM_LOCK, VK_DOWN, VK_DELETE, VK_POWER],
     [VKPAD_8, VKPAD_5, VKPAD_2, VKPAD_0, VKPAD_SLASH, VK_RIGHT, VK_INSERT, VK_SLEEP],
     [VKPAD_9, VKPAD_6, VKPAD_3, VKPAD_PERIOD, VKPAD_ASTERIX, VKPAD_MINUS, VK_PAGE_UP, VK_PAGE_DOWN],
     [VKPAD_PLUS, VK_K107, VKPAD_ENTER, VK_UP, VK_PLAY_PAUSE, VK_LEFT, VK_HOME, VK_END],
     [VK_WAKEUP, VK_SHIFT, VK_RSHIFT, VK_VOL_DN, VK_VOL_UP, VK_NEXT_TRK, VK_PREV_TRK, VK_MEDIA],
     [VK_MAIL, VK_WIN, VK_W_FORWARD, VK_W_STOP, VK_W_BACK, VK_W_REFRESH, VK_W_MUTE, VK_W_SRCH],
     [VK_KCL, VK_W_FAV, VK_RWIN, VK_MY_COMP, VK_STOP, VK_CAL, VK_WEB, VK_KCR]]"

end
