(* ===== verification/Keyboard.thy ===== *)
theory Keyboard
  imports Keycodes
begin

text \<open>
  The matrix keyboard of \<^verbatim>\<open>application/keyboard/keyboard.c\<close>.  The settings of the board are the record
  \<open>kb_config\<close>; \<open>read_all k d\<close> is what \<open>gpio_read_all\<close> reads in the \<open>k\<close>-th \<open>kb_scan_row\<close> of a scan, with
  drive line \<open>d\<close> driven.  \<open>KB_LINE_MODE\<close> is 0, its default, and the pins are not shared with the flash.
  The static and global variables are the record \<open>kb_state\<close>.
\<close>

section \<open>State\<close>

record kb_config =
  drive_pins :: "u32 list"
  scan_pins :: "u32 list"
  KB_LINE_HIGH_VALID :: bool
  KB_STANDARD_KEYBOARD :: bool
  KB_RM_GHOST_KEY_EN :: bool
  KB_HAS_CTRL_KEYS :: bool
  KB_HAS_FN_KEY :: bool
  KB_REPEAT_KEY_ENABLE :: bool
  KB_REPEAT_KEY_INTERVAL_MS :: u32
  kb_map_repeat :: "u8 list"
  kb_map_normal :: key_map
  kb_map_num :: key_map
  kb_map_fn :: key_map

record kb_data =
  cnt :: u8
  ctrl_key :: u8
  keycode :: "u8 list"

record repeat_key =
  key_change_flg :: u8
  key_repeat_flg :: bool
  key_change_tick :: u32

record kb_state =
  kb_event :: kb_data
  kb_is_fn_pressed :: bool
  scan_pin_need :: u32
  release_cnt :: u8
  ret_last :: u32
  mtrx_pre :: "u32 list"
  mtrx_last :: "u32 list"
  matrix_buff :: "u32 list list"
  matrix_wptr :: u32
  matrix_rptr :: u32
  repeat_st :: repeat_key

definition KB_RETURN_KEY_MAX :: u8 where "KB_RETURN_KEY_MAX = 6"
definition KB_NUMLOCK_STATUS_INVALID :: u32 where "KB_NUMLOCK_STATUS_INVALID = 0x80"
definition KB_NUMLOCK_STATUS_POWERON :: u32 where "KB_NUMLOCK_STATUS_POWERON = 0x8000"
definition KEY_NONE :: u8 where "KEY_NONE = 0"
definition KEY_CHANGE :: u8 where "KEY_CHANGE = 1"
definition KEY_SAME :: u8 where "KEY_SAME = 2"

definition kb_is_key_valid :: "kb_data \<Rightarrow> bool" where
  "kb_is_key_valid p \<longleftrightarrow> cnt p \<noteq> 0 \<or> ctrl_key p \<noteq> 0"

definition kb_set_key_invalid :: "kb_data \<Rightarrow> kb_data" where
  "kb_set_key_invalid p = p\<lparr>cnt := 0, ctrl_key := 0\<rparr>"

section \<open>Ghost keys\<close>

definition BIT_IS_POW2 :: "u32 \<Rightarrow> bool" where
  "BIT_IS_POW2 x \<longleftrightarrow> x AND (x - 1) = 0"

text \<open>The keys that the rows \<open>a\<close> and \<open>b\<close> have in common, when they cannot be told from ghosts.\<close>

definition ghost_mix :: "u32 \<Rightarrow> u32 \<Rightarrow> u32" where
  "ghost_mix a b =
     (let mix = a AND b in
      if mix \<noteq> 0 \<and> (\<not> BIT_IS_POW2 mix \<or> a XOR b \<noteq> 0) then mix else 0)"

text \<open>The inner loop over \<open>j\<close> collects in \<open>mix_final\<close>; row \<open>i\<close> loses what was found so far.\<close>

fun ghost_rows :: "u32 \<Rightarrow> u32 list \<Rightarrow> u32 list" where
  "ghost_rows mix_final [] = []"
| "ghost_rows mix_final (r # rows) =
     (let mix_final = foldl (\<lambda>m b. m OR ghost_mix r b) mix_final rows
      in (r AND NOT mix_final) # ghost_rows mix_final rows)"

definition kb_rmv_ghost_key :: "u32 list \<Rightarrow> u32 list" where
  "kb_rmv_ghost_key pressed_matrix = ghost_rows 0 pressed_matrix"

section \<open>Debouncing\<close>

definition debounce :: "u32 \<Rightarrow> u32 \<Rightarrow> u32 \<Rightarrow> u32" where
  "debounce l p t = (NOT l AND (p AND t)) OR (l AND (p OR t))"

text \<open>The result, the changed matrix, and the two static arrays.\<close>

fun debounce_rows :: "bool \<Rightarrow> u32 list \<Rightarrow> u32 list \<Rightarrow> u32 list \<Rightarrow> (u32 \<times> u32 list) option" where
  "debounce_rows filt_en [] pre las = Some (0, [])"
| "debounce_rows filt_en (t # cur) (p # pre) (l # las) = do {
     let c = (if filt_en then debounce l p t else t);
     (kc, cs) \<leftarrow> debounce_rows filt_en cur pre las;
     Some (if c \<noteq> l then 1 else kc, c # cs) }"
| "debounce_rows filt_en (t # cur) _ _ = None"

definition key_debounce_filter :: "u32 list \<Rightarrow> u32 \<Rightarrow> kb_state \<Rightarrow> (u32 \<times> u32 list \<times> kb_state) option" where
  "key_debounce_filter mtrx_cur filt_en s = do {
     (kc, cur) \<leftarrow> debounce_rows (filt_en \<noteq> 0) mtrx_cur (mtrx_pre s) (mtrx_last s);
     Some (kc, cur, s\<lparr>mtrx_pre := mtrx_cur, mtrx_last := cur\<rparr>) }"

section \<open>Key codes\<close>

definition map_at :: "key_map \<Rightarrow> nat \<Rightarrow> nat \<Rightarrow> u8 option" where
  "map_at mp i d = do { row \<leftarrow> get_byte mp i; get_byte row d }"

definition push_code :: "u8 \<Rightarrow> kb_data \<Rightarrow> kb_data option" where
  "push_code kc d = do { ks \<leftarrow> put_byte (keycode d) (unat (cnt d)) kc; Some (d\<lparr>cnt := cnt d + 1, keycode := ks\<rparr>) }"

text \<open>The loop over the scan lines from \<open>i\<close> on; \<open>n\<close> lines are left.\<close>

fun remap_row_loop :: "kb_config \<Rightarrow> key_map \<Rightarrow> nat \<Rightarrow> u8 \<Rightarrow> nat \<Rightarrow> nat \<Rightarrow> u32 \<Rightarrow> kb_data \<Rightarrow> kb_data option" where
  "remap_row_loop c mp drv_ind key_max i 0 m d = Some d"
| "remap_row_loop c mp drv_ind key_max i (Suc n) m d = do {
     (d, brk) \<leftarrow>
       (if m AND 1 \<noteq> 0 then do {
          kc \<leftarrow> map_at mp i drv_ind;
          d \<leftarrow>
            (if KB_HAS_CTRL_KEYS c then
               if VK_CTRL \<le> kc \<and> kc \<le> VK_RWIN
               then Some (d\<lparr>ctrl_key := ctrl_key d OR push_bit (unat (kc - VK_CTRL)) 1\<rparr>)
               else if VK_ZOOM_IN = kc \<or> VK_ZOOM_OUT = kc
               then push_code (if VK_ZOOM_IN = kc then VK_EQUAL else VK_MINUS) (d\<lparr>ctrl_key := ctrl_key d OR VK_MSK_LCTRL\<rparr>)
               else if kc \<noteq> VK_FN then push_code kc d
               else Some d
             else push_code kc d);
          Some (d, key_max \<le> cnt d) }
        else Some (d, False));
     let m = drop_bit 1 m;
     if brk \<or> m = 0 then Some d else remap_row_loop c mp drv_ind key_max (i + 1) n m d }"

definition kb_remap_key_row :: "kb_config \<Rightarrow> key_map \<Rightarrow> nat \<Rightarrow> u32 \<Rightarrow> u8 \<Rightarrow> kb_data \<Rightarrow> kb_data option" where
  "kb_remap_key_row c mp drv_ind m key_max d =
     remap_row_loop c mp drv_ind key_max 0 (length (scan_pins c)) m d"

fun remap_rows :: "kb_config \<Rightarrow> key_map \<Rightarrow> nat \<Rightarrow> u32 list \<Rightarrow> u8 \<Rightarrow> kb_data \<Rightarrow> kb_data option" where
  "remap_rows c mp i [] key_max d = Some d"
| "remap_rows c mp i (m # ms) key_max d =
     (if m = 0 then remap_rows c mp (i + 1) ms key_max d
      else do {
        d \<leftarrow> kb_remap_key_row c mp i m key_max d;
        if key_max \<le> cnt d then Some d else remap_rows c mp (i + 1) ms key_max d })"

definition kb_p_map :: "kb_config \<Rightarrow> u32 \<Rightarrow> key_map" where
  "kb_p_map c k = (if k = 0 then kb_map_normal c else if k = 1 then kb_map_num c else kb_map_fn c)"

definition kb_remap_key_code :: "kb_config \<Rightarrow> u32 list \<Rightarrow> u8 \<Rightarrow> bool \<Rightarrow> u32 \<Rightarrow> kb_data \<Rightarrow> kb_data option" where
  "kb_remap_key_code c pressed_matrix key_max fn numlock_status d =
     (let kb_k_mp =
        (if KB_STANDARD_KEYBOARD c
         then kb_p_map c ((numlock_status AND 1) OR push_bit 1 (if fn then 1 else 0))
         else kb_map_normal c)
      in remap_rows c kb_k_mp 0 (take (length (drive_pins c)) pressed_matrix) key_max d)"

section \<open>Scanning\<close>

text \<open>The pin is a port in the high and a mask in the low byte.\<close>

definition gpio_read_cache :: "u32 \<Rightarrow> u8 list \<Rightarrow> u8 option" where
  "gpio_read_cache pin p = do { b \<leftarrow> get_byte p (unat (drop_bit 8 pin)); Some (b AND ucast (pin AND 0xff)) }"

text \<open>Whether the level of a scan line says that a key is pressed: \<open>KB_LINE_HIGH_VALID != !level\<close>.\<close>

definition line_pressed :: "kb_config \<Rightarrow> u32 \<Rightarrow> u8 list \<Rightarrow> bool option" where
  "line_pressed c pin gpio = do { v \<leftarrow> gpio_read_cache pin gpio; Some (KB_LINE_HIGH_VALID c \<noteq> (v = 0)) }"

text \<open>The loop over the scan lines from \<open>j\<close> on: the matrix and the fn flag.\<close>

fun scan_loop :: "kb_config \<Rightarrow> key_map \<Rightarrow> nat \<Rightarrow> u8 list \<Rightarrow> u32 \<Rightarrow> nat \<Rightarrow> u32 list \<Rightarrow> u32 \<Rightarrow> bool \<Rightarrow> (u32 \<times> bool) option" where
  "scan_loop c mp drv_ind gpio need j [] matrix fn = Some (matrix, fn)"
| "scan_loop c mp drv_ind gpio need j (pin # pins) matrix fn =
     (if need AND push_bit j 1 \<noteq> 0 then do {
        pressed \<leftarrow> line_pressed c pin gpio;
        if pressed then do {
          kc \<leftarrow> (if KB_HAS_FN_KEY c then map_at mp j drv_ind else Some 0);
          scan_loop c mp drv_ind gpio need (j + 1) pins (matrix OR push_bit j 1) (fn \<or> (KB_HAS_FN_KEY c \<and> kc = VK_FN)) }
        else scan_loop c mp drv_ind gpio need (j + 1) pins matrix fn }
      else scan_loop c mp drv_ind gpio need (j + 1) pins matrix fn)"

text \<open>
  \<open>kb_scan_row\<close> drives its line, evaluates what was read before (\<open>gpio\<close>), and then reads all pins
  (\<open>snap\<close>): the cache that the next row is evaluated from.
\<close>

definition kb_scan_row :: "kb_config \<Rightarrow> key_map \<Rightarrow> nat \<Rightarrow> u8 list \<Rightarrow> u8 list \<Rightarrow> kb_state \<Rightarrow> (u32 \<times> u8 list \<times> kb_state) option" where
  "kb_scan_row c mp drv_ind snap gpio s = do {
     (matrix, fn) \<leftarrow> scan_loop c mp drv_ind gpio (scan_pin_need s) 0 (scan_pins c) 0 (kb_is_fn_pressed s);
     Some (matrix, snap, s\<lparr>kb_is_fn_pressed := fn\<rparr>) }"

text \<open>\<open>kb_key_pressed\<close>: the pins are read with all drive lines driven.\<close>

fun pressed_loop :: "kb_config \<Rightarrow> u8 list \<Rightarrow> nat \<Rightarrow> u32 list \<Rightarrow> u32 \<Rightarrow> kb_state \<Rightarrow> (u32 \<times> kb_state) option" where
  "pressed_loop c gpio i [] ret s = Some (ret, s)"
| "pressed_loop c gpio i (pin # pins) ret s = do {
     pressed \<leftarrow> line_pressed c pin gpio;
     if pressed then
       (let ret = ret OR push_bit i 1
        in pressed_loop c gpio (i + 1) pins ret (s\<lparr>release_cnt := 6, ret_last := ret\<rparr>))
     else pressed_loop c gpio (i + 1) pins ret s }"

definition kb_key_pressed :: "kb_config \<Rightarrow> u8 list \<Rightarrow> kb_state \<Rightarrow> (u32 \<times> kb_state) option" where
  "kb_key_pressed c gpio s = do {
     (ret, s) \<leftarrow> pressed_loop c gpio 0 (scan_pins c) 0 s;
     if release_cnt s \<noteq> 0 then Some (ret_last s, s\<lparr>release_cnt := release_cnt s - 1\<rparr>)
     else Some (ret, s) }"

text \<open>The loop of \<open>kb_scan_key_value\<close> over \<open>i\<close>; \<open>n\<close> rounds are left.\<close>

fun matrix_loop :: "kb_config \<Rightarrow> key_map \<Rightarrow> (nat \<Rightarrow> nat \<Rightarrow> u8 list) \<Rightarrow> nat \<Rightarrow> nat \<Rightarrow> u32 list \<Rightarrow> u8 list \<Rightarrow> kb_state
    \<Rightarrow> (u32 list \<times> u8 list \<times> kb_state) option" where
  "matrix_loop c mp read_all i 0 pm gpio s = Some (pm, gpio, s)"
| "matrix_loop c mp read_all i (Suc n) pm gpio s = do {
     let d = (if i < length (drive_pins c) then i else 0);
     (r, gpio, s) \<leftarrow> kb_scan_row c mp d (read_all (i + 1) d) gpio s;
     pm \<leftarrow> (if i \<noteq> 0 then put_byte pm (i - 1) r else Some pm);
     matrix_loop c mp read_all (i + 1) n pm gpio s }"

text \<open>The ring of four matrices: a push that finds it full drops the oldest one.\<close>

definition push_matrix :: "u32 list \<Rightarrow> kb_state \<Rightarrow> kb_state option" where
  "push_matrix pm s = do {
     buf \<leftarrow> put_byte (matrix_buff s) (unat (matrix_wptr s AND 3)) pm;
     let w = (matrix_wptr s + 1) AND 7;
     let r = (if 4 < (w - matrix_rptr s) AND 7 then (w - 4) AND 7 else matrix_rptr s);
     Some (s\<lparr>matrix_buff := buf, matrix_wptr := w, matrix_rptr := r\<rparr>) }"

definition pop_matrix :: "kb_state \<Rightarrow> (u32 list \<times> kb_state) option" where
  "pop_matrix s = do {
     pd \<leftarrow> get_byte (matrix_buff s) (unat (matrix_rptr s AND 3));
     Some (pd, s\<lparr>matrix_rptr := (matrix_rptr s + 1) AND 7\<rparr>) }"

text \<open>The two parts of the code for repeated keys; \<open>now\<close> is the clock.\<close>

definition repeat_before :: "kb_config \<Rightarrow> u32 \<Rightarrow> u32 \<Rightarrow> repeat_key \<Rightarrow> u32 \<times> repeat_key" where
  "repeat_before c now key_changed r =
     (if key_changed \<noteq> 0 then (key_changed, r\<lparr>key_change_flg := KEY_CHANGE, key_change_tick := now\<rparr>)
      else
        (let r = (if key_change_flg r = KEY_CHANGE then r\<lparr>key_change_flg := KEY_SAME\<rparr> else r) in
         if key_change_flg r = KEY_SAME \<and> key_repeat_flg r \<and>
            clock_time_exceed now (key_change_tick r) ((KB_REPEAT_KEY_INTERVAL_MS c - 5) * 1000)
         then (1, r\<lparr>key_change_tick := now\<rparr>) else (key_changed, r)))"

definition repeat_after :: "kb_config \<Rightarrow> kb_data \<Rightarrow> repeat_key \<Rightarrow> repeat_key option" where
  "repeat_after c ev r =
     (if key_change_flg r = KEY_CHANGE then
        if cnt ev = 1 then do {
          k \<leftarrow> get_byte (keycode ev) 0;
          Some (r\<lparr>key_repeat_flg := k \<in> set (kb_map_repeat c)\<rparr>) }
        else Some (r\<lparr>key_repeat_flg := False\<rparr>)
      else Some r)"

definition kb_scan_key_value :: "kb_config \<Rightarrow> u32 \<Rightarrow> bool \<Rightarrow> u32 \<Rightarrow> (nat \<Rightarrow> nat \<Rightarrow> u8 list) \<Rightarrow> u8 list \<Rightarrow> kb_state \<Rightarrow> (u32 \<times> kb_state) option" where
  "kb_scan_key_value c numlock_status read_key now read_all gpio s = do {
     let n = length (drive_pins c);
     let s = s\<lparr>kb_event := (kb_event s)\<lparr>cnt := 0, ctrl_key := 0\<rparr>, kb_is_fn_pressed := False\<rparr>;
     let kb_k_mp = kb_map_normal c;
     (r0, gpio, s) \<leftarrow> kb_scan_row c kb_k_mp 0 (read_all 0 0) gpio s;
     (pm, gpio, s) \<leftarrow> matrix_loop c kb_k_mp read_all 0 (n + 1) (replicate n 0) gpio s;
     let pm = (if KB_RM_GHOST_KEY_EN c then kb_rmv_ghost_key pm else pm);
     (key_changed, pm, s) \<leftarrow>
       key_debounce_filter pm (if numlock_status AND KB_NUMLOCK_STATUS_POWERON \<noteq> 0 then 0 else 1) s;
     let (key_changed, rep) =
       (if KB_REPEAT_KEY_ENABLE c then repeat_before c now key_changed (repeat_st s) else (key_changed, repeat_st s));
     let s = s\<lparr>repeat_st := rep\<rparr>;
     s \<leftarrow> (if key_changed \<noteq> 0 then push_matrix pm s else Some s);
     if numlock_status AND KB_NUMLOCK_STATUS_INVALID \<noteq> 0 then Some (1, s)
     else if matrix_wptr s = matrix_rptr s \<or> \<not> read_key then Some (0, s)
     else do {
       (pd, s) \<leftarrow> pop_matrix s;
       ev \<leftarrow> kb_remap_key_code c pd KB_RETURN_KEY_MAX (kb_is_fn_pressed s) numlock_status (kb_event s);
       rep \<leftarrow> (if KB_REPEAT_KEY_ENABLE c then repeat_after c ev (repeat_st s) else Some (repeat_st s));
       Some (1, s\<lparr>kb_event := ev, repeat_st := rep\<rparr>) } }"

text \<open>\<open>kb_scan_key\<close>: \<open>all\<close> is the reading with all lines driven, which is also the first cache.\<close>

definition kb_scan_key :: "kb_config \<Rightarrow> u32 \<Rightarrow> bool \<Rightarrow> u32 \<Rightarrow> u8 list \<Rightarrow> (nat \<Rightarrow> nat \<Rightarrow> u8 list) \<Rightarrow> kb_state \<Rightarrow> (u32 \<times> kb_state) option" where
  "kb_scan_key c numlock_status read_key now all read_all s = do {
     (need, s) \<leftarrow> kb_key_pressed c all s;
     let s = s\<lparr>scan_pin_need := need\<rparr>;
     if need \<noteq> 0 then kb_scan_key_value c numlock_status read_key now read_all all s
     else if KB_REPEAT_KEY_ENABLE c
     then Some (0, s\<lparr>repeat_st := (repeat_st s)\<lparr>key_change_flg := KEY_NONE\<rparr>\<rparr>)
     else Some (0, s) }"

section \<open>Ghost keys\<close>

definition other_mixes :: "u32 list \<Rightarrow> nat \<Rightarrow> u32" where
  "other_mixes rows k = foldl (\<lambda>m l. if l = k then m else m OR ghost_mix (rows ! k) (rows ! l)) 0 [0..<length rows]"

lemma bit_foldl_or:
  "bit (foldl (\<lambda>m b. m OR f b) m0 xs :: u32) n \<longleftrightarrow> bit m0 n \<or> (\<exists>b \<in> set xs. bit (f b) n)"
  by (induction xs arbitrary: m0) (auto simp: bit_or_iff)

lemma bit_other_mixes:
  "bit (other_mixes rows k) n \<longleftrightarrow> (\<exists>l < length rows. l \<noteq> k \<and> bit (ghost_mix (rows ! k) (rows ! l)) n)"
proof -
  have "other_mixes rows k = foldl (\<lambda>m l. m OR (if l = k then 0 else ghost_mix (rows ! k) (rows ! l))) 0 [0..<length rows]"
    unfolding other_mixes_def by (rule foldl_cong) auto
  then show ?thesis
    by (auto simp: bit_foldl_or split: if_splits)
qed

lemma ghost_mix_commute: "ghost_mix a b = ghost_mix b a"
  by (simp add: ghost_mix_def Let_def and.commute xor.commute)

lemma bit_ghost_mix:
  "bit (ghost_mix a b) n \<longleftrightarrow> bit a n \<and> bit b n \<and> (\<not> BIT_IS_POW2 (a AND b) \<or> a \<noteq> b)"
proof -
  have "bit (a AND b) n \<Longrightarrow> a AND b \<noteq> 0"
    by (rule notI) simp
  then show ?thesis
    using word_xor_cancel [of a b b] by (auto simp: ghost_mix_def Let_def bit_and_iff)
qed

text \<open>A number with \<open>x AND (x - 1) = 0\<close> has at most one bit.\<close>

lemma nat_top_bit: "2 ^ n \<le> a \<Longrightarrow> a < 2 ^ (n + 1) \<Longrightarrow> bit a n" for a :: nat
proof -
  assume "2 ^ n \<le> a" "a < 2 ^ (n + 1)"
  then have "a div 2 ^ n = 1"
    by (intro div_nat_eqI) simp_all
  then show "bit a n"
    by (simp add: bit_iff_odd)
qed

lemma pow2_bit: "BIT_IS_POW2 x \<Longrightarrow> bit x m \<Longrightarrow> bit x n \<Longrightarrow> m = n"
proof -
  assume pow2: "BIT_IS_POW2 x" and bits: "bit x m" "bit x n"
  then have x: "x \<noteq> 0"
    by auto
  then have "1 \<le> unat x"
    by (simp add: Suc_le_eq unat_gt_0)
  then obtain k where k: "2 ^ k \<le> unat x" "unat x < 2 ^ (k + 1)"
    using ex_power_ivl1 [of 2 "unat x"] by auto
  have "unat x = 2 ^ k"
  proof (rule ccontr)
    assume "unat x \<noteq> 2 ^ k"
    then have "2 ^ k \<le> unat (x - 1)" "unat (x - 1) < 2 ^ (k + 1)"
      using k x by (simp_all add: unat_minus_one)
    then have "bit (unat (x - 1)) k" "bit (unat x) k"
      using k by (auto intro: nat_top_bit)
    then have "bit (x AND (x - 1)) k"
      by (simp add: bit_and_iff bit_unsigned_iff)
    then show False
      using pow2 by (simp add: BIT_IS_POW2_def)
  qed
  then have "bit (unat x) i \<Longrightarrow> i = k" for i
    by (simp add: bit_exp_iff)
  then have "bit x i \<Longrightarrow> i = k" for i
    by (simp add: bit_unsigned_iff)
  then show "m = n"
    using bits by blast
qed

text \<open>What the rows lose is independent of the order in which \<open>mix_final\<close> grows.\<close>

lemma shared_ghost:
  assumes "bit (ghost_mix a b) n" and "bit r n"
  shows "bit (ghost_mix r a) n \<or> bit (ghost_mix r b) n"
proof (rule ccontr)
  assume "\<not> ?thesis"
  then have "BIT_IS_POW2 (r AND a)" "r = a" "BIT_IS_POW2 (r AND b)" "r = b"
    using assms by (auto simp: bit_ghost_mix)
  then show False
    using assms(1) by (auto simp: bit_ghost_mix)
qed

lemma ghost_rows_spec:
  assumes "k < length rows"
  shows "bit (ghost_rows m0 rows ! k) n \<longleftrightarrow> bit (rows ! k) n \<and> \<not> bit m0 n \<and>
    \<not> (\<exists>i j. i \<le> k \<and> i < j \<and> j < length rows \<and> bit (ghost_mix (rows ! i) (rows ! j)) n)"
  using assms
proof (induction rows arbitrary: m0 k)
  case (Cons r rows)
  let ?m = "foldl (\<lambda>m b. m OR ghost_mix r b) m0 rows"
  have m: "bit ?m n \<longleftrightarrow> bit m0 n \<or> (\<exists>j < length rows. bit (ghost_mix r (rows ! j)) n)"
    by (simp add: bit_foldl_or) (metis in_set_conv_nth)
  show ?case
  proof (cases k)
    case 0
    have "(\<exists>i j. i \<le> 0 \<and> i < j \<and> j < length (r # rows) \<and> bit (ghost_mix ((r # rows) ! i) ((r # rows) ! j)) n)
        \<longleftrightarrow> (\<exists>j < length rows. bit (ghost_mix r (rows ! j)) n)"
      by (auto simp: gr0_conv_Suc)
    then show ?thesis
      using 0 m by (auto simp: Let_def bit_and_iff bit_not_iff dest: bit_imp_le_length)
  next
    case (Suc k')
    have "(\<exists>i j. i \<le> k \<and> i < j \<and> j < length (r # rows) \<and> bit (ghost_mix ((r # rows) ! i) ((r # rows) ! j)) n)
        \<longleftrightarrow> (\<exists>j < length rows. bit (ghost_mix r (rows ! j)) n)
          \<or> (\<exists>i j. i \<le> k' \<and> i < j \<and> j < length rows \<and> bit (ghost_mix (rows ! i) (rows ! j)) n)"
      (is "?l \<longleftrightarrow> ?r")
    proof
      assume ?l
      then obtain i j where ij: "i \<le> k" "i < j" "j < length (r # rows)" "bit (ghost_mix ((r # rows) ! i) ((r # rows) ! j)) n"
        by blast
      then obtain j' where j': "j = Suc j'"
        by (cases j) auto
      show ?r
      proof (cases i)
        case 0
        then show ?thesis
          using ij j' by auto
      next
        case (Suc i')
        then have "i' \<le> k'" "i' < j'" "j' < length rows" "bit (ghost_mix (rows ! i') (rows ! j')) n"
          using ij j' \<open>k = Suc k'\<close> by auto
        then show ?thesis
          by blast
      qed
    next
      assume ?r
      then show ?l
      proof
        assume "\<exists>j < length rows. bit (ghost_mix r (rows ! j)) n"
        then obtain j where "j < length rows" "bit (ghost_mix r (rows ! j)) n"
          by blast
        then show ?thesis
          by (intro exI [where x = 0] exI [where x = "Suc j"]) simp
      next
        assume "\<exists>i j. i \<le> k' \<and> i < j \<and> j < length rows \<and> bit (ghost_mix (rows ! i) (rows ! j)) n"
        then obtain i j where "i \<le> k'" "i < j" "j < length rows" "bit (ghost_mix (rows ! i) (rows ! j)) n"
          by blast
        then show ?thesis
          using Suc by (intro exI [where x = "Suc i"] exI [where x = "Suc j"]) simp
      qed
    qed
    moreover have "bit (ghost_rows m0 (r # rows) ! k) n \<longleftrightarrow> bit (rows ! k') n \<and> \<not> bit ?m n \<and>
        \<not> (\<exists>i j. i \<le> k' \<and> i < j \<and> j < length rows \<and> bit (ghost_mix (rows ! i) (rows ! j)) n)"
      using Cons.IH [of k' ?m] Cons.prems Suc by (simp add: Let_def)
    ultimately show ?thesis
      using m Suc by auto
  qed
qed simp

lemma length_ghost_rows [simp]: "length (ghost_rows m rows) = length rows"
  by (induction rows arbitrary: m) (auto simp: Let_def)

lemma kb_rmv_ghost_key_bit:
  assumes k: "k < length rows"
  shows "bit (kb_rmv_ghost_key rows ! k) n \<longleftrightarrow> bit (rows ! k) n \<and> \<not> bit (other_mixes rows k) n"
proof -
  have "(\<exists>i j. i \<le> k \<and> i < j \<and> j < length rows \<and> bit (ghost_mix (rows ! i) (rows ! j)) n)
      \<longleftrightarrow> bit (other_mixes rows k) n" if bk: "bit (rows ! k) n"
  proof
    assume "\<exists>i j. i \<le> k \<and> i < j \<and> j < length rows \<and> bit (ghost_mix (rows ! i) (rows ! j)) n"
    then obtain i j where ij: "i \<le> k" "i < j" "j < length rows" "bit (ghost_mix (rows ! i) (rows ! j)) n"
      by blast
    consider "i = k" | "j = k" | "i \<noteq> k" "j \<noteq> k"
      by blast
    then show "bit (other_mixes rows k) n"
    proof cases
      case 1
      then show ?thesis
        using ij unfolding bit_other_mixes by (intro exI [where x = j]) simp
    next
      case 2
      then show ?thesis
        using ij k unfolding bit_other_mixes by (intro exI [where x = i]) (simp add: ghost_mix_commute)
    next
      case 3
      then show ?thesis
        using shared_ghost [OF ij(4) bk] ij k unfolding bit_other_mixes by (metis less_trans)
    qed
  next
    assume "bit (other_mixes rows k) n"
    then obtain l where l: "l < length rows" "l \<noteq> k" "bit (ghost_mix (rows ! k) (rows ! l)) n"
      unfolding bit_other_mixes by blast
    show "\<exists>i j. i \<le> k \<and> i < j \<and> j < length rows \<and> bit (ghost_mix (rows ! i) (rows ! j)) n"
    proof (cases "l < k")
      case True
      then show ?thesis
        using l k by (intro exI [where x = l] exI [where x = k]) (simp add: ghost_mix_commute)
    next
      case False
      then show ?thesis
        using l by (intro exI [where x = k] exI [where x = l]) simp
    qed
  qed
  then show ?thesis
    using ghost_rows_spec [OF k, of 0 n] by (auto simp: kb_rmv_ghost_key_def)
qed

text \<open>
  C25: \<open>kb_rmv_ghost_key\<close> removes exactly the keys that may be ghosts: a key stays if and only if no
  other row has it in a mix of more than one column or together with different keys.  It does not
  matter that \<open>mix_final\<close> is kept from row to row.  Afterwards no two rows have such keys in common.
\<close>

theorem kb_rmv_ghost_key_exact:
  assumes "i < length rows" and "j < length rows" and "i \<noteq> j"
  shows "kb_rmv_ghost_key rows ! i = rows ! i AND NOT (other_mixes rows i)
    \<and> ghost_mix (kb_rmv_ghost_key rows ! i) (kb_rmv_ghost_key rows ! j) = 0"
proof
  show "kb_rmv_ghost_key rows ! i = rows ! i AND NOT (other_mixes rows i)"
    by (rule bit_word_eqI) (auto simp: kb_rmv_ghost_key_bit [OF assms(1)] bit_and_iff bit_not_iff)
  let ?p = "kb_rmv_ghost_key rows"
  show "ghost_mix (?p ! i) (?p ! j) = 0"
  proof (rule ccontr)
    assume "ghost_mix (?p ! i) (?p ! j) \<noteq> 0"
    then obtain n where n: "bit (ghost_mix (?p ! i) (?p ! j)) n"
      by (auto simp: bit_eq_iff)
    then have pn: "bit (?p ! i) n" "bit (?p ! j) n"
      by (simp_all add: bit_ghost_mix)
    then have rn: "bit (rows ! i) n" "bit (rows ! j) n"
      using assms by (simp_all add: kb_rmv_ghost_key_bit)
    have "\<not> bit (ghost_mix (rows ! i) (rows ! j)) n"
      using pn(1) assms by (auto simp: kb_rmv_ghost_key_bit bit_other_mixes)
    then have r: "BIT_IS_POW2 (rows ! i)" "rows ! i = rows ! j"
      using rn by (auto simp: bit_ghost_mix)
    have single: "bit (rows ! i) m \<longleftrightarrow> m = n" for m
      using pow2_bit [OF r(1) _ rn(1), of m] rn(1) by blast
    have sub: "bit (?p ! i) m \<Longrightarrow> bit (rows ! i) m" "bit (?p ! j) m \<Longrightarrow> bit (rows ! i) m" for m
      using assms r(2) by (simp_all add: kb_rmv_ghost_key_bit)
    have "bit (?p ! i) m \<longleftrightarrow> bit (rows ! i) m" "bit (?p ! j) m \<longleftrightarrow> bit (rows ! i) m" for m
      using sub [of m] pn single [of m] by blast+
    then have "?p ! i = rows ! i" "?p ! j = rows ! i"
      by (auto intro: bit_word_eqI)
    then show False
      using n r(1) by (simp add: bit_ghost_mix)
  qed
qed

theorem kb_rmv_ghost_key_exact_witness:
  "kb_rmv_ghost_key [0x3, 0x3, 0x4] ! 0 = [0x3, 0x3, 0x4] ! 0 AND NOT (other_mixes [0x3, 0x3, 0x4] 0)
    \<and> ghost_mix (kb_rmv_ghost_key [0x3, 0x3, 0x4] ! 0) (kb_rmv_ghost_key [0x3, 0x3, 0x4] ! 2) = 0"
  by (rule kb_rmv_ghost_key_exact) simp_all

section \<open>Debouncing\<close>

text \<open>A key is pressed if it is in two of the three: the last result, the scan before and this scan.\<close>

lemma bit_debounce:
  "n < 32 \<Longrightarrow> bit (debounce l p t) n \<longleftrightarrow>
    (bit l n \<and> bit p n) \<or> (bit l n \<and> bit t n) \<or> (bit p n \<and> bit t n)"
  by (auto simp: debounce_def bit_or_iff bit_and_iff bit_not_iff)

lemma debounce_same: "debounce l v v = v" "debounce v v t = v" "debounce v p v = v"
  by (rule bit_word_eqI, auto simp: bit_debounce)+

lemma debounce_rows_map:
  "length pre = length cur \<Longrightarrow> length las = length cur \<Longrightarrow>
    debounce_rows filt cur pre las =
      (let out = (if filt then map (\<lambda>i. debounce (las ! i) (pre ! i) (cur ! i)) [0..<length cur] else cur)
       in Some (if out = las then 0 else 1, out))"
proof (induction filt cur pre las rule: debounce_rows.induct)
  case (2 filt t cur p pre l las)
  have m: "map f [0..<Suc k] = f 0 # map (f \<circ> Suc) [0..<k]" for f :: "nat \<Rightarrow> u32" and k
    by (simp only: upt_conv_Cons zero_less_Suc list.map map_Suc_upt [symmetric] list.map_comp)
  show ?case
    using 2 by (cases filt) (auto simp: Let_def m o_def simp del: upt_Suc)
qed (auto simp: Let_def)

definition debounce_matrix :: "u32 list \<Rightarrow> u32 list \<Rightarrow> u32 list \<Rightarrow> u32 list" where
  "debounce_matrix las pre cur = map (\<lambda>i. debounce (las ! i) (pre ! i) (cur ! i)) [0..<length cur]"

lemma debounce_matrix_same:
  "length las = length v \<Longrightarrow> debounce_matrix las v v = v"
  "length t = length v \<Longrightarrow> debounce_matrix v v t = v"
  "length p = length v \<Longrightarrow> debounce_matrix v p v = v"
  by (auto simp: debounce_matrix_def debounce_same intro!: nth_equalityI)

definition wf_debounce :: "nat \<Rightarrow> kb_state \<Rightarrow> bool" where
  "wf_debounce n s \<longleftrightarrow> length (mtrx_pre s) = n \<and> length (mtrx_last s) = n"

lemma key_debounce_filter_run:
  "wf_debounce (length cur) s \<Longrightarrow> filt \<noteq> 0 \<Longrightarrow>
    key_debounce_filter cur filt s =
      (let out = debounce_matrix (mtrx_last s) (mtrx_pre s) cur
       in Some (if out = mtrx_last s then 0 else 1, out, s\<lparr>mtrx_pre := cur, mtrx_last := out\<rparr>))"
  by (simp add: key_debounce_filter_def debounce_rows_map wf_debounce_def debounce_matrix_def Let_def)

text \<open>
  C26: The filter adopts a scan that is seen twice in a row, whatever its state was; a single scan that
  deviates from a matrix that was stable is suppressed, as is the scan after it when it is back; and
  a change is reported if and only if the result differs from the last one.
\<close>

theorem key_debounce_filters:
  assumes "wf_debounce (length v) s" and "length t = length v" and "filt \<noteq> 0"
  shows "(\<exists>kc1 o1 s1 kc2 s2. key_debounce_filter v filt s = Some (kc1, o1, s1)
        \<and> key_debounce_filter v filt s1 = Some (kc2, v, s2)
        \<and> (kc1 \<noteq> 0 \<longleftrightarrow> o1 \<noteq> mtrx_last s) \<and> (kc2 \<noteq> 0 \<longleftrightarrow> v \<noteq> o1))
    \<and> (\<exists>s1 s2. key_debounce_filter t filt (s\<lparr>mtrx_pre := v, mtrx_last := v\<rparr>) = Some (0, v, s1)
        \<and> key_debounce_filter v filt s1 = Some (0, v, s2))"
proof
  have wf1: "wf_debounce (length v) (s\<lparr>mtrx_pre := v, mtrx_last := debounce_matrix l p v\<rparr>)" for l p
    by (simp add: wf_debounce_def debounce_matrix_def)
  have l: "length (debounce_matrix l p v) = length v" for l p
    by (simp add: debounce_matrix_def)
  show "\<exists>kc1 o1 s1 kc2 s2. key_debounce_filter v filt s = Some (kc1, o1, s1)
        \<and> key_debounce_filter v filt s1 = Some (kc2, v, s2)
        \<and> (kc1 \<noteq> 0 \<longleftrightarrow> o1 \<noteq> mtrx_last s) \<and> (kc2 \<noteq> 0 \<longleftrightarrow> v \<noteq> o1)"
    using assms wf1 by (simp add: key_debounce_filter_run Let_def debounce_matrix_same l)
next
  have "wf_debounce (length t) (s\<lparr>mtrx_pre := v, mtrx_last := v\<rparr>)" "wf_debounce (length v) (s\<lparr>mtrx_pre := t, mtrx_last := v\<rparr>)"
    using assms(2) by (simp_all add: wf_debounce_def)
  then show "\<exists>s1 s2. key_debounce_filter t filt (s\<lparr>mtrx_pre := v, mtrx_last := v\<rparr>) = Some (0, v, s1)
        \<and> key_debounce_filter v filt s1 = Some (0, v, s2)"
    using assms by (simp add: key_debounce_filter_run Let_def debounce_matrix_same)
qed

theorem key_debounce_filters_witness:
  "\<exists>s1 s2. key_debounce_filter [5, 1] 1 (undefined\<lparr>mtrx_pre := [4, 0], mtrx_last := [4, 0]\<rparr>) = Some (0, [4, 0], s1)
    \<and> key_debounce_filter [4, 0] 1 s1 = Some (0, [4, 0], s2)"
  using key_debounce_filters [of "[4, 0]" "undefined\<lparr>mtrx_pre := [0, 0], mtrx_last := [0, 0]\<rparr>" "[5, 1]" 1]
  by (simp add: wf_debounce_def)

end
