(* ===== verification/Ring4.thy ===== *)
theory Ring4
  imports C_Prelude
begin

text \<open>
  Rings of four slots, as the keyboard and the USB reports use them: the \<open>n\<close> entries from position \<open>r\<close>
  on, the oldest one first, and what a write, an advance and an overrun do to this list.
\<close>

definition ring_of :: "'a list \<Rightarrow> nat \<Rightarrow> nat \<Rightarrow> 'a list" where
  "ring_of buf r n = map (\<lambda>k. buf ! ((r + k) mod 4)) [0..<n]"

lemma ring_of_push:
  assumes "length buf = 4" and "n \<le> 4" and "p mod 4 = (r + n) mod 4" and "n < 4"
  shows "ring_of (buf[p mod 4 := x]) r (n + 1) = ring_of buf r n @ [x]"
proof -
  have "(r + k) mod 4 \<noteq> (r + n) mod 4" if "k < n" for k
    using that assms(4) by presburger
  then have "buf[p mod 4 := x] ! ((r + k) mod 4) = buf ! ((r + k) mod 4)" if "k < n" for k
    using that assms(3) by (metis nth_list_update_neq)
  then show ?thesis
    using assms by (simp add: ring_of_def)
qed

lemma mod4_shift: "x mod 4 = (y + 1) mod 4 \<Longrightarrow> (x + k) mod 4 = (y + Suc k) mod 4" for x y k :: nat
  using mod_add_cong [of x 4 "y + 1" k k] by simp

lemma ring_of_pop:
  assumes "r' mod 4 = (r + 1) mod 4" and "n \<noteq> 0"
  shows "ring_of buf r n = buf ! (r mod 4) # ring_of buf r' (n - 1)"
proof -
  obtain m where m: "n = Suc m"
    using assms(2) by (cases n) auto
  have u: "[0..<Suc m] = 0 # map Suc [0..<m]"
    by (simp only: upt_conv_Cons zero_less_Suc map_Suc_upt)
  show ?thesis
    unfolding ring_of_def m u
    by (simp only: list.map list.map_comp o_def mod4_shift [OF assms(1)] add_0_right diff_Suc_1)
qed

lemma ring_of_full:
  assumes "length buf = 4" and "p mod 4 = (r + 4) mod 4" and "r' mod 4 = (r + 1) mod 4"
  shows "ring_of (buf[p mod 4 := x]) r' 4 = tl (ring_of buf r 4) @ [x]"
proof -
  have "p mod 4 = (r' + 3) mod 4"
    using mod4_shift [OF assms(3), of 3] assms(2) by simp
  then have "ring_of (buf[p mod 4 := x]) r' (3 + 1) = ring_of buf r' 3 @ [x]"
    by (intro ring_of_push) (simp_all add: assms(1))
  moreover have "ring_of buf r' 3 = tl (ring_of buf r 4)"
  proof -
    have "(r' + 1) mod 4 = (r + 2) mod 4" "(r' + 2) mod 4 = (r + 3) mod 4"
      using mod4_shift [OF assms(3), of 1] mod4_shift [OF assms(3), of 2] by simp_all
    moreover have "[0..<4] = [0, 1, 2, 3 :: nat]" "[0..<3] = [0, 1, 2 :: nat]"
      by (simp_all add: upt_rec)
    ultimately show ?thesis
      using assms(3) by (simp only: ring_of_def list.map list.sel add_0_right)
  qed
  ultimately show ?thesis
    by simp
qed

end
