(* ===== verification/Keyboard_Scan.thy ===== *)
theory Keyboard_Scan
  imports Keyboard Ring4
begin

text \<open>
  The scan of the keyboard as a whole (definitions in theory Keyboard): the ring of four matrices is a
  queue, the rows that are read one call late make up the matrix, and \<open>kb_scan_key_value\<close> refines the
  scanner that is defined over that queue.
\<close>

section \<open>The ring of matrices\<close>

definition ring_inv :: "kb_state \<Rightarrow> bool" where
  "ring_inv s \<longleftrightarrow> length (matrix_buff s) = 4 \<and> matrix_wptr s < 8 \<and> matrix_rptr s < 8
     \<and> (matrix_wptr s - matrix_rptr s) AND 7 \<le> 4"

text \<open>The matrices that wait, the oldest one first.\<close>

definition waiting :: "kb_state \<Rightarrow> u32 list list" where
  "waiting s = map (\<lambda>k. matrix_buff s ! unat ((matrix_rptr s + of_nat k) AND 3)) [0..<unat ((matrix_wptr s - matrix_rptr s) AND 7)]"

lemma ptr_cases:
  assumes "w < (8 :: u32)"
  shows "w \<in> {0, 1, 2, 3, 4, 5, 6, 7}"
proof -
  have "unat w < 8"
    using assms by (simp add: word_less_nat_alt)
  then have "unat w \<in> {0, 1, 2, 3, 4, 5, 6, 7}"
    by auto
  then show ?thesis
    by (auto simp: word_unat_eq_iff)
qed

lemma unat_ptr:
  "unat (x AND 7) = unat x mod 8" "unat (x AND 3) = unat x mod 4" for x :: u32
  by (simp_all add: and_low_mask take_bit_eq_mod unat_mod)

text \<open>The number of waiting matrices, as a natural number.\<close>

lemma unat_fill:
  assumes "w < (8 :: u32)" and "r < 8"
  shows "unat ((w - r) AND 7) = (unat w + 8 - unat r) mod 8"
  using ptr_cases [OF assms(1)] ptr_cases [OF assms(2)] by auto

text \<open>Positions in the ring, by cases.\<close>

lemma below8: "a < 8 \<Longrightarrow> a \<in> {0, 1, 2, 3, 4, 5, 6, 7 :: nat}"
  by auto

lemma ring_positions:
  assumes "w < (8 :: nat)" and "r < 8"
  shows "w = (r + (w + 8 - r) mod 8) mod 8"
    and "w \<noteq> r \<Longrightarrow> (w + 8 - r) mod 8 \<noteq> 0 \<and> (w + 8 - (r + 1) mod 8) mod 8 = (w + 8 - r) mod 8 - 1"
    and "(w + 8 - r) mod 8 \<le> 4 \<Longrightarrow> ((w + 1) mod 8 + 8 - r) mod 8 = (w + 8 - r) mod 8 + 1"
    and "(w + 8 - r) mod 8 = 4 \<Longrightarrow> ((w + 1) mod 8 + 8 - 4) mod 8 = (r + 1) mod 8"
    and "(w + 8 - r) mod 8 = 4 \<Longrightarrow> ((w + 1) mod 8 + 8 - (r + 1) mod 8) mod 8 = 4"
  using below8 [OF assms(1)] below8 [OF assms(2)] by auto

lemma mod_8_4: "a mod 8 mod 4 = a mod (4 :: nat)"
  by (rule mod_mod_cancel) simp

lemma waiting_ring_of:
  assumes "matrix_wptr s < 8" and "matrix_rptr s < 8"
  shows "waiting s = ring_of (matrix_buff s) (unat (matrix_rptr s)) ((unat (matrix_wptr s) + 8 - unat (matrix_rptr s)) mod 8)"
proof -
  have "unat ((matrix_rptr s + of_nat k) AND 3) = (unat (matrix_rptr s) + k) mod 4" if "k < 8" for k
  proof -
    have "unat (matrix_rptr s) < 8"
      using assms(2) by (simp add: word_less_nat_alt)
    then have "unat (matrix_rptr s + of_nat k) = unat (matrix_rptr s) + k"
      using that by (simp add: unat_word_ariths unat_of_nat take_bit_eq_mod)
    then show ?thesis
      by (simp only: unat_ptr)
  qed
  moreover have "(unat (matrix_wptr s) + 8 - unat (matrix_rptr s)) mod 8 < 8"
    by simp
  ultimately show ?thesis
    unfolding waiting_def ring_of_def unat_fill [OF assms] by (intro map_cong) auto
qed

lemma push_matrix_ring:
  assumes inv: "ring_inv s"
  shows "\<exists>s'. push_matrix pm s = Some s' \<and> ring_inv s'
    \<and> waiting s' = (if length (waiting s) = 4 then tl (waiting s) else waiting s) @ [pm]
    \<and> s' = s\<lparr>matrix_buff := matrix_buff s', matrix_wptr := matrix_wptr s', matrix_rptr := matrix_rptr s'\<rparr>"
proof -
  define w r where wr: "w = matrix_wptr s" "r = matrix_rptr s"
  have lt: "w < 8" "r < 8" and len: "length (matrix_buff s) = 4" and fill: "(w - r) AND 7 \<le> 4"
    using inv by (simp_all add: ring_inv_def wr)
  let ?w = "(w + 1) AND 7"
  let ?r = "if 4 < (?w - r) AND 7 then (?w - 4) AND 7 else r"
  let ?buf = "(matrix_buff s)[unat (w AND 3) := pm]"
  define n where "n = (unat w + 8 - unat r) mod 8"
  have un: "unat ((w - r) AND 7) = n"
    using unat_fill [OF lt] by (simp add: n_def)
  have n4: "n \<le> 4"
    using fill un by (simp add: word_le_nat_alt)
  have small: "unat w < 8" "unat r < 8"
    using lt by (simp_all add: word_less_nat_alt)
  have uw: "unat ?w = (unat w + 1) mod 8"
    using small by (simp add: unat_ptr unat_word_ariths)
  have w8: "?w < 8" "(?w - 4) AND 7 < 8"
    by (simp_all add: word_less_nat_alt unat_ptr)
  have u1: "unat ((?w - r) AND 7) = (unat ?w + 8 - unat r) mod 8" "unat ((?w - 4) AND 7) = (unat ?w + 8 - 4) mod 8"
    using unat_fill [OF w8(1) lt(2)] unat_fill [OF w8(1), of 4] by simp_all
  have wn: "unat w = (unat r + n) mod 8"
    using ring_positions(1) [OF small] by (simp add: n_def)
  have fill': "unat ((?w - r) AND 7) = n + 1"
    using n4 ring_positions(3) [OF small] unfolding u1 uw n_def by simp
  have state: "push_matrix pm s = Some (s\<lparr>matrix_buff := ?buf, matrix_wptr := ?w, matrix_rptr := ?r\<rparr>)"
    using len by (simp add: push_matrix_def put_byte_def wr unat_ptr Let_def)
  have q: "waiting s = ring_of (matrix_buff s) (unat r) n"
    using waiting_ring_of [of s] lt by (simp add: wr n_def)
  have lq: "length (waiting s) = n"
    by (simp add: q ring_of_def)
  have wm: "unat w mod 4 = (unat r + n) mod 4"
    unfolding wn by (rule mod_8_4)
  show ?thesis
  proof (cases "n = 4")
    case True
    then have r': "?r = (?w - 4) AND 7"
      using fill' by (simp add: word_less_nat_alt)
    have ur: "unat ?r = (unat r + 1) mod 8"
      using ring_positions(4) [OF small] True unfolding r' u1 uw n_def by simp
    have f: "(unat ?w + 8 - unat ?r) mod 8 = 4"
      using ring_positions(5) [OF small] True unfolding ur uw n_def by simp
    have r8: "?r < 8"
      using r' w8 by simp
    let ?s = "s\<lparr>matrix_buff := ?buf, matrix_wptr := ?w, matrix_rptr := ?r\<rparr>"
    have "waiting ?s = ring_of ?buf (unat ?r) 4"
      using waiting_ring_of [of ?s] w8(1) r8 f by (simp del: if_split)
    also have "\<dots> = tl (ring_of (matrix_buff s) (unat r) 4) @ [pm]"
    proof -
      have "unat ?r mod 4 = (unat r + 1) mod 4"
        unfolding ur by (rule mod_8_4)
      moreover have "unat w mod 4 = (unat r + 4) mod 4"
        using wm True by simp
      ultimately show ?thesis
        unfolding unat_ptr by (intro ring_of_full [OF len])
    qed
    finally have "waiting ?s = tl (waiting s) @ [pm]"
      using q True by simp
    moreover have "ring_inv ?s"
      using len w8(1) r8 f unat_fill [OF w8(1) r8] by (simp add: ring_inv_def word_le_nat_alt del: if_split)
    ultimately show ?thesis
      using state lq True by (intro exI [where x = ?s]) (simp del: if_split)
  next
    case False
    then have r': "?r = r"
      using fill' n4 by (simp add: word_less_nat_alt)
    let ?s = "s\<lparr>matrix_buff := ?buf, matrix_wptr := ?w, matrix_rptr := r\<rparr>"
    have f: "(unat ?w + 8 - unat r) mod 8 = n + 1"
      using fill' u1 by simp
    have "waiting ?s = ring_of ?buf (unat r) (n + 1)"
      using waiting_ring_of [of ?s] w8(1) lt f by simp
    also have "\<dots> = ring_of (matrix_buff s) (unat r) n @ [pm]"
      unfolding unat_ptr by (rule ring_of_push [OF len n4 wm]) (use n4 False in simp)
    finally have "waiting ?s = waiting s @ [pm]"
      using q by simp
    moreover have "ring_inv ?s"
      using len w8(1) lt fill' n4 False by (simp add: ring_inv_def word_le_nat_alt)
    ultimately show ?thesis
      using state lq False r' by (intro exI [where x = ?s]) simp
  qed
qed

lemma pop_matrix_ring:
  assumes inv: "ring_inv s" and ne: "matrix_wptr s \<noteq> matrix_rptr s"
  shows "\<exists>pd s'. pop_matrix s = Some (pd, s') \<and> ring_inv s' \<and> waiting s = pd # waiting s'
    \<and> s' = s\<lparr>matrix_rptr := matrix_rptr s'\<rparr>"
proof -
  define w r where wr: "w = matrix_wptr s" "r = matrix_rptr s"
  have lt: "w < 8" "r < 8" and len: "length (matrix_buff s) = 4" and fill: "(w - r) AND 7 \<le> 4"
    using inv by (simp_all add: ring_inv_def wr)
  let ?r = "(r + 1) AND 7"
  define n where "n = (unat w + 8 - unat r) mod 8"
  have n4: "n \<le> 4"
    using fill unat_fill [OF lt] by (simp add: word_le_nat_alt n_def)
  have small: "unat w < 8" "unat r < 8"
    using lt by (simp_all add: word_less_nat_alt)
  have "unat w \<noteq> unat r"
    using ne by (simp add: wr word_unat_eq_iff)
  note pos = ring_positions(2) [OF small this]
  then have n0: "n \<noteq> 0"
    by (simp add: n_def)
  have ur: "unat ?r = (unat r + 1) mod 8"
    using small by (simp add: unat_ptr unat_word_ariths)
  have r8: "?r < 8"
    by (simp add: word_less_nat_alt unat_ptr)
  have f: "(unat w + 8 - unat ?r) mod 8 = n - 1"
    using pos unfolding ur n_def by simp
  let ?s = "s\<lparr>matrix_rptr := ?r\<rparr>"
  have q: "waiting s = ring_of (matrix_buff s) (unat r) n" "waiting ?s = ring_of (matrix_buff s) (unat ?r) (n - 1)"
    using waiting_ring_of [of s] waiting_ring_of [of ?s] lt r8 f by (simp_all add: wr n_def)
  have "unat ?r mod 4 = (unat r + 1) mod 4"
    unfolding ur by (rule mod_8_4)
  then have "waiting s = matrix_buff s ! (unat r mod 4) # waiting ?s"
    using n0 unfolding q by (intro ring_of_pop) simp_all
  moreover have "ring_inv ?s"
    using len lt r8 n4 f unat_fill [OF lt(1) r8] by (simp add: ring_inv_def word_le_nat_alt wr)
  moreover have "pop_matrix s = Some (matrix_buff s ! (unat r mod 4), ?s)"
    using len by (simp add: pop_matrix_def get_byte_def wr unat_ptr)
  ultimately show ?thesis
    by (intro exI [where x = "matrix_buff s ! (unat r mod 4)"] exI [where x = ?s]) simp
qed

lemma waiting_empty: "ring_inv s \<Longrightarrow> waiting s = [] \<longleftrightarrow> matrix_wptr s = matrix_rptr s"
proof -
  assume "ring_inv s"
  then have w: "matrix_wptr s \<in> {0, 1, 2, 3, 4, 5, 6, 7}" and r: "matrix_rptr s \<in> {0, 1, 2, 3, 4, 5, 6, 7}"
    using ptr_cases by (simp_all only: ring_inv_def)
  have "unat ((matrix_wptr s - matrix_rptr s) AND 7) = 0 \<longleftrightarrow> matrix_wptr s = matrix_rptr s"
    using w r by auto
  then show ?thesis
    by (simp add: waiting_def)
qed

lemma length_waiting: "ring_inv s \<Longrightarrow> length (waiting s) \<le> 4"
  by (simp add: waiting_def ring_inv_def word_le_nat_alt)

section \<open>Rows\<close>

text \<open>The keys that are pressed in a reading, and whether one of them is mapped to fn by column \<open>d\<close>.\<close>

definition level_of :: "kb_config \<Rightarrow> u8 list \<Rightarrow> nat \<Rightarrow> bool" where
  "level_of c gpio j = the (line_pressed c (scan_pins c ! j) gpio)"

definition row_matrix :: "kb_config \<Rightarrow> u32 \<Rightarrow> u8 list \<Rightarrow> u32" where
  "row_matrix c need gpio =
     foldl (\<lambda>m j. if need AND push_bit j 1 \<noteq> 0 \<and> level_of c gpio j then m OR push_bit j 1 else m) 0 [0..<length (scan_pins c)]"

definition row_fn :: "kb_config \<Rightarrow> key_map \<Rightarrow> u32 \<Rightarrow> nat \<Rightarrow> u8 list \<Rightarrow> bool" where
  "row_fn c mp need d gpio \<longleftrightarrow>
     KB_HAS_FN_KEY c \<and> (\<exists>j < length (scan_pins c). need AND push_bit j 1 \<noteq> 0 \<and> level_of c gpio j \<and> mp ! j ! d = VK_FN)"

text \<open>The board: four ports, at most 32 scan lines, and maps with a code for every key.\<close>

definition wf_map :: "kb_config \<Rightarrow> key_map \<Rightarrow> bool" where
  "wf_map c mp \<longleftrightarrow> length mp = length (scan_pins c) \<and> (\<forall>row \<in> set mp. length row = length (drive_pins c))"

definition wf_config :: "kb_config \<Rightarrow> bool" where
  "wf_config c \<longleftrightarrow> drive_pins c \<noteq> [] \<and> length (scan_pins c) \<le> 32 \<and> (\<forall>p \<in> set (scan_pins c). unat (drop_bit 8 p) < 4)
     \<and> wf_map c (kb_map_normal c) \<and> wf_map c (kb_map_num c) \<and> wf_map c (kb_map_fn c)"

lemma line_pressed_Some:
  "wf_config c \<Longrightarrow> j < length (scan_pins c) \<Longrightarrow> length gpio = 4 \<Longrightarrow>
    line_pressed c (scan_pins c ! j) gpio = Some (level_of c gpio j)"
  by (auto simp: line_pressed_def level_of_def gpio_read_cache_def get_byte_def wf_config_def)

lemma map_at_Some: "wf_map c mp \<Longrightarrow> i < length (scan_pins c) \<Longrightarrow> d < length (drive_pins c) \<Longrightarrow> map_at mp i d = Some (mp ! i ! d)"
  by (auto simp: map_at_def get_byte_def wf_map_def)

lemma scan_loop_row:
  assumes wf: "wf_config c" "wf_map c mp" "length gpio = 4" "d < length (drive_pins c)"
  shows "j + k = length (scan_pins c) \<Longrightarrow>
    scan_loop c mp d gpio need j (drop j (scan_pins c)) m fn =
      Some (foldl (\<lambda>m j. if need AND push_bit j 1 \<noteq> 0 \<and> level_of c gpio j then m OR push_bit j 1 else m) m [j..<length (scan_pins c)],
        fn \<or> (KB_HAS_FN_KEY c \<and> (\<exists>i. j \<le> i \<and> i < length (scan_pins c) \<and> need AND push_bit i 1 \<noteq> 0 \<and> level_of c gpio i \<and> mp ! i ! d = VK_FN)))"
proof (induction k arbitrary: j m fn)
  case (Suc k)
  then have j: "j < length (scan_pins c)" "Suc j + k = length (scan_pins c)"
    by simp_all
  have d: "drop j (scan_pins c) = scan_pins c ! j # drop (Suc j) (scan_pins c)"
    using j(1) by (rule Cons_nth_drop_Suc [symmetric])
  have u: "[j..<length (scan_pins c)] = j # [Suc j..<length (scan_pins c)]"
    using j(1) by (rule upt_conv_Cons)
  have ex: "(\<exists>i. j \<le> i \<and> P i) \<longleftrightarrow> P j \<or> (\<exists>i. Suc j \<le> i \<and> P i)" for P
    by (metis Suc_le_eq le_less)
  show ?case
    using line_pressed_Some [OF wf(1) j(1) wf(3)] map_at_Some [OF wf(2) j(1) wf(4)]
    unfolding d u by (simp add: Suc.IH [OF j(2)] ex j(1) del: push_bit_of_1)
qed auto

lemma kb_scan_row_run:
  assumes "wf_config c" and "wf_map c mp" and "length gpio = 4" and "d < length (drive_pins c)"
  shows "kb_scan_row c mp d snap gpio s =
    Some (row_matrix c (scan_pin_need s) gpio, snap,
      s\<lparr>kb_is_fn_pressed := kb_is_fn_pressed s \<or> row_fn c mp (scan_pin_need s) d gpio\<rparr>)"
  using scan_loop_row [OF assms, of 0 "length (scan_pins c)" "scan_pin_need s" 0 "kb_is_fn_pressed s"]
  by (simp add: kb_scan_row_def row_matrix_def row_fn_def)

definition scanned :: "kb_config \<Rightarrow> u32 \<Rightarrow> (nat \<Rightarrow> nat \<Rightarrow> u8 list) \<Rightarrow> u32 list" where
  "scanned c need read_all = map (\<lambda>k. row_matrix c need (read_all (k + 1) k)) [0..<length (drive_pins c)]"

lemma matrix_loop_run:
  assumes wf: "wf_config c" "wf_map c mp" and reads: "\<And>k d. length (read_all k d) = 4"
  shows "i + m = Suc (length (drive_pins c)) \<Longrightarrow> length pm = length (drive_pins c) \<Longrightarrow> length gpio = 4 \<Longrightarrow>
    \<exists>fn gpio'. matrix_loop c mp read_all i m pm gpio s =
      Some (map (\<lambda>k. if i \<le> k then row_matrix c (scan_pin_need s) (read_all (k + 1) k)
          else if Suc k = i then row_matrix c (scan_pin_need s) gpio else pm ! k) [0..<length (drive_pins c)],
        gpio', s\<lparr>kb_is_fn_pressed := fn\<rparr>)"
proof (induction m arbitrary: i pm gpio s)
  case 0
  then have "map (\<lambda>k. if i \<le> k then row_matrix c (scan_pin_need s) (read_all (k + 1) k)
          else if Suc k = i then row_matrix c (scan_pin_need s) gpio else pm ! k) [0..<length (drive_pins c)] = pm"
    by (intro nth_equalityI) auto
  then show ?case
    by (intro exI [where x = "kb_is_fn_pressed s"] exI [where x = gpio]) simp
next
  case (Suc m)
  let ?n = "length (drive_pins c)"
  define d where "d = (if i < ?n then i else 0)"
  have d: "d < ?n"
    using wf(1) by (auto simp: d_def wf_config_def)
  define fn where "fn = (kb_is_fn_pressed s \<or> row_fn c mp (scan_pin_need s) d gpio)"
  define pm' where "pm' = (if i \<noteq> 0 then pm[i - 1 := row_matrix c (scan_pin_need s) gpio] else pm)"
  have put: "(if i \<noteq> 0 then put_byte pm (i - 1) (row_matrix c (scan_pin_need s) gpio) else Some pm) = Some pm'"
    using Suc.prems by (cases i) (auto simp: pm'_def put_byte_def)
  let ?s = "s\<lparr>kb_is_fn_pressed := fn\<rparr>"
  have step: "matrix_loop c mp read_all i (Suc m) pm gpio s = matrix_loop c mp read_all (i + 1) m pm' (read_all (i + 1) d) ?s"
    unfolding matrix_loop.simps Let_def kb_scan_row_run [OF wf Suc.prems(3) d] d_def [symmetric] fn_def [symmetric]
      Option.bind_lunit case_prod_conv put by (rule refl)
  have "(i + 1) + m = Suc ?n" "length pm' = ?n"
    using Suc.prems by (simp_all add: pm'_def)
  from Suc.IH [where i = "i + 1" and pm = pm' and gpio = "read_all (i + 1) d" and s = ?s, OF this reads] obtain fn' gpio' where
    r: "matrix_loop c mp read_all (i + 1) m pm' (read_all (i + 1) d) ?s =
      Some (map (\<lambda>k. if i + 1 \<le> k then row_matrix c (scan_pin_need ?s) (read_all (k + 1) k)
          else if Suc k = i + 1 then row_matrix c (scan_pin_need ?s) (read_all (i + 1) d) else pm' ! k) [0..<?n],
        gpio', ?s\<lparr>kb_is_fn_pressed := fn'\<rparr>)"
    by (auto)
  have "map (\<lambda>k. if i + 1 \<le> k then row_matrix c (scan_pin_need ?s) (read_all (k + 1) k)
          else if Suc k = i + 1 then row_matrix c (scan_pin_need ?s) (read_all (i + 1) d) else pm' ! k) [0..<?n] =
      map (\<lambda>k. if i \<le> k then row_matrix c (scan_pin_need s) (read_all (k + 1) k)
          else if Suc k = i then row_matrix c (scan_pin_need s) gpio else pm ! k) [0..<?n]"
  proof (rule map_cong [OF refl])
    fix k assume "k \<in> set [0..<?n]"
    then have k: "k < ?n"
      by simp
    consider "i + 1 \<le> k" | "k = i" | "k + 1 = i" | "k + 1 < i"
      by linarith
    then show "(if i + 1 \<le> k then row_matrix c (scan_pin_need ?s) (read_all (k + 1) k)
          else if Suc k = i + 1 then row_matrix c (scan_pin_need ?s) (read_all (i + 1) d) else pm' ! k) =
        (if i \<le> k then row_matrix c (scan_pin_need s) (read_all (k + 1) k)
          else if Suc k = i then row_matrix c (scan_pin_need s) gpio else pm ! k)"
      using k Suc.prems(2) by cases (auto simp: pm'_def d_def)
  qed
  then show ?case
    using r unfolding step by (intro exI [where x = fn'] exI [where x = gpio']) simp
qed

section \<open>Key codes\<close>

definition wf_event :: "kb_data \<Rightarrow> bool" where
  "wf_event d \<longleftrightarrow> length (keycode d) = 6 \<and> cnt d \<le> 6"

lemma push_code_event:
  "wf_event d \<Longrightarrow> cnt d < 6 \<Longrightarrow> \<exists>d'. push_code kc d = Some d' \<and> wf_event d'"
proof -
  assume "wf_event d" "cnt d < 6"
  moreover from this have "unat (cnt d) < 6"
    by (simp add: word_less_nat_alt)
  moreover from this have "unat (cnt d + 1) = unat (cnt d) + 1"
    by (simp add: unat_word_ariths)
  ultimately show ?thesis
    by (auto simp: push_code_def put_byte_def wf_event_def word_le_nat_alt)
qed

lemma remap_row_loop_total:
  assumes wf: "wf_map c mp" "d < length (drive_pins c)"
  shows "i + n = length (scan_pins c) \<Longrightarrow> wf_event ev \<Longrightarrow> cnt ev < 6 \<Longrightarrow>
    \<exists>ev'. remap_row_loop c mp d 6 i n m ev = Some ev' \<and> wf_event ev'"
proof (induction n arbitrary: i m ev)
  case (Suc n)
  have at: "map_at mp i d = Some (mp ! i ! d)"
    using map_at_Some [OF wf(1) _ wf(2)] Suc.prems by simp
  have push: "\<exists>d'. push_code kc (ev\<lparr>ctrl_key := k\<rparr>) = Some d' \<and> wf_event d'" "\<exists>d'. push_code kc ev = Some d' \<and> wf_event d'"
    for kc k
    using Suc.prems push_code_event [of "ev\<lparr>ctrl_key := k\<rparr>"] push_code_event [of ev] by (auto simp: wf_event_def)
  let ?item = "(if KB_HAS_CTRL_KEYS c then
               if VK_CTRL \<le> mp ! i ! d \<and> mp ! i ! d \<le> VK_RWIN
               then Some (ev\<lparr>ctrl_key := ctrl_key ev OR push_bit (unat (mp ! i ! d - VK_CTRL)) 1\<rparr>)
               else if VK_ZOOM_IN = mp ! i ! d \<or> VK_ZOOM_OUT = mp ! i ! d
               then push_code (if VK_ZOOM_IN = mp ! i ! d then VK_EQUAL else VK_MINUS) (ev\<lparr>ctrl_key := ctrl_key ev OR VK_MSK_LCTRL\<rparr>)
               else if mp ! i ! d \<noteq> VK_FN then push_code (mp ! i ! d) ev
               else Some ev
             else push_code (mp ! i ! d) ev)"
  have "\<exists>d'. ?item = Some d' \<and> wf_event d'"
    using push Suc.prems(2) by (auto simp: wf_event_def split: if_split)
  then obtain ev1 where ev1: "?item = Some ev1" "wf_event ev1"
    by blast
  show ?case
  proof (cases "m AND 1 \<noteq> 0")
    case True
    have "\<exists>ev'. (if 6 \<le> cnt ev1 \<or> drop_bit 1 m = 0 then Some ev1 else remap_row_loop c mp d 6 (i + 1) n (drop_bit 1 m) ev1) = Some ev' \<and> wf_event ev'"
      using Suc.IH [of "i + 1" ev1 "drop_bit 1 m"] Suc.prems ev1(2) by (auto simp: not_le)
    then show ?thesis
      unfolding remap_row_loop.simps at Option.bind_lunit ev1(1) if_P [OF True] case_prod_conv Let_def .
  next
    case False
    have "\<exists>ev'. (if False \<or> drop_bit 1 m = 0 then Some ev else remap_row_loop c mp d 6 (i + 1) n (drop_bit 1 m) ev) = Some ev' \<and> wf_event ev'"
      using Suc.IH [of "i + 1" ev "drop_bit 1 m"] Suc.prems by auto
    then show ?thesis
      unfolding remap_row_loop.simps if_not_P [OF False] Option.bind_lunit case_prod_conv Let_def .
  qed
qed simp

lemma remap_rows_total:
  assumes wf: "wf_map c mp"
  shows "i + length ms \<le> length (drive_pins c) \<Longrightarrow> wf_event ev \<Longrightarrow> cnt ev < 6 \<Longrightarrow>
    \<exists>ev'. remap_rows c mp i ms 6 ev = Some ev' \<and> wf_event ev'"
proof (induction ms arbitrary: i ev)
  case (Cons m ms)
  show ?case
  proof (cases "m = 0")
    case True
    then show ?thesis
      using Cons by simp
  next
    case False
    have "i < length (drive_pins c)"
      using Cons.prems(1) by simp
    from remap_row_loop_total [OF wf this, of 0 "length (scan_pins c)" ev m] Cons.prems
    obtain ev1 where ev1: "kb_remap_key_row c mp i m 6 ev = Some ev1" "wf_event ev1"
      by (auto simp: kb_remap_key_row_def)
    then show ?thesis
      using Cons.IH [of "i + 1" ev1] Cons.prems(1) False by (auto simp: not_le)
  qed
qed simp

lemma kb_remap_key_code_total:
  assumes "wf_config c" and "length pd = length (drive_pins c)" and "wf_event ev" and "cnt ev = 0"
  shows "\<exists>ev'. kb_remap_key_code c pd KB_RETURN_KEY_MAX fn numlock ev = Some ev' \<and> wf_event ev'"
proof -
  have "wf_map c (if KB_STANDARD_KEYBOARD c then kb_p_map c k else kb_map_normal c)" for k
    using assms(1) by (simp add: wf_config_def kb_p_map_def)
  from remap_rows_total [OF this, of 0 pd ev] show ?thesis
    using assms by (simp add: kb_remap_key_code_def KB_RETURN_KEY_MAX_def Let_def)
qed

section \<open>The whole scan\<close>

definition wf_kb :: "kb_config \<Rightarrow> kb_state \<Rightarrow> bool" where
  "wf_kb c s \<longleftrightarrow> ring_inv s \<and> wf_debounce (length (drive_pins c)) s \<and> wf_event (kb_event s)
     \<and> (\<forall>pd \<in> set (waiting s). length pd = length (drive_pins c))"

text \<open>
  The scan by what it does to the queue of matrices: the matrix that the row readings give, without
  ghosts if they are removed and filtered, is put behind the others if it is a change (or a repetition),
  the oldest of four giving way; then the oldest one is taken out, if keys are wanted, and remapped.
\<close>

definition scan_result :: "kb_config \<Rightarrow> u32 \<Rightarrow> (nat \<Rightarrow> nat \<Rightarrow> u8 list) \<Rightarrow> kb_state \<Rightarrow> u32 list" where
  "scan_result c numlock read_all s =
     (let pm = scanned c (scan_pin_need s) read_all;
          pm = (if KB_RM_GHOST_KEY_EN c then kb_rmv_ghost_key pm else pm)
      in if numlock AND KB_NUMLOCK_STATUS_POWERON \<noteq> 0 then pm else debounce_matrix (mtrx_last s) (mtrx_pre s) pm)"

definition scan_changed :: "kb_config \<Rightarrow> u32 \<Rightarrow> u32 \<Rightarrow> (nat \<Rightarrow> nat \<Rightarrow> u8 list) \<Rightarrow> kb_state \<Rightarrow> bool" where
  "scan_changed c numlock now read_all s \<longleftrightarrow>
     (let kc = (if scan_result c numlock read_all s = mtrx_last s then 0 else 1)
      in (if KB_REPEAT_KEY_ENABLE c then fst (repeat_before c now kc (repeat_st s)) else kc) \<noteq> 0)"

definition queue_after :: "u32 list list \<Rightarrow> bool \<Rightarrow> u32 list \<Rightarrow> u32 list list" where
  "queue_after q changed pm = (if changed then (if length q = 4 then tl q else q) @ [pm] else q)"

lemma filter_run:
  assumes "wf_debounce (length cur) s"
  shows "\<exists>kc out s'. key_debounce_filter cur filt s = Some (kc, out, s')
    \<and> out = (if filt \<noteq> 0 then debounce_matrix (mtrx_last s) (mtrx_pre s) cur else cur)
    \<and> kc = (if out = mtrx_last s then 0 else 1) \<and> s' = s\<lparr>mtrx_pre := cur, mtrx_last := out\<rparr>"
  using assms
  by (cases "filt = 0")
    (auto simp: key_debounce_filter_run Let_def key_debounce_filter_def debounce_rows_map wf_debounce_def
      debounce_matrix_def)

lemma repeat_after_total: "wf_event ev \<Longrightarrow> \<exists>r'. repeat_after c ev r = Some r'"
  by (auto simp: repeat_after_def get_byte_def wf_event_def)

lemma length_scanned: "length (scanned c need read_all) = length (drive_pins c)"
  by (simp add: scanned_def)

lemma waiting_more:
  "waiting (s\<lparr>kb_event := e, kb_is_fn_pressed := f\<rparr>) = waiting s"
  "waiting (s\<lparr>mtrx_pre := p, mtrx_last := l\<rparr>) = waiting s"
  "waiting (s\<lparr>repeat_st := r\<rparr>) = waiting s" "waiting (s\<lparr>kb_event := e\<rparr>) = waiting s"
  "waiting (s\<lparr>kb_is_fn_pressed := f\<rparr>) = waiting s" "waiting (s\<lparr>scan_pin_need := n\<rparr>) = waiting s"
  by (simp_all add: waiting_def)

lemma ring_inv_more:
  "ring_inv (s\<lparr>kb_event := e, kb_is_fn_pressed := f\<rparr>) = ring_inv s"
  "ring_inv (s\<lparr>mtrx_pre := p, mtrx_last := l\<rparr>) = ring_inv s"
  "ring_inv (s\<lparr>repeat_st := r\<rparr>) = ring_inv s" "ring_inv (s\<lparr>kb_event := e\<rparr>) = ring_inv s"
  "ring_inv (s\<lparr>kb_is_fn_pressed := f\<rparr>) = ring_inv s" "ring_inv (s\<lparr>scan_pin_need := n\<rparr>) = ring_inv s"
  by (simp_all add: ring_inv_def)

lemma kb_scan_key_value_queue:
  assumes c: "wf_config c" and wf: "wf_kb c s" and reads: "\<And>k d. length (read_all k d) = 4" and gpio: "length gpio = 4"
  shows "\<exists>r s'. kb_scan_key_value c numlock read_key now read_all gpio s = Some (r, s') \<and> wf_kb c s'
    \<and> (let q = queue_after (waiting s) (scan_changed c numlock now read_all s) (scan_result c numlock read_all s) in
       if numlock AND KB_NUMLOCK_STATUS_INVALID \<noteq> 0 then r = 1 \<and> waiting s' = q \<and> cnt (kb_event s') = 0
       else if q = [] \<or> \<not> read_key then r = 0 \<and> waiting s' = q \<and> cnt (kb_event s') = 0
       else r = 1 \<and> waiting s' = tl q \<and>
         (\<exists>ev. cnt ev = 0 \<and> ctrl_key ev = 0 \<and>
           kb_remap_key_code c (hd q) KB_RETURN_KEY_MAX (kb_is_fn_pressed s') numlock ev = Some (kb_event s')))"
proof -
  let ?n = "length (drive_pins c)" and ?mp = "kb_map_normal c"
  have mp: "wf_map c ?mp" and n0: "0 < ?n"
    using c by (simp_all add: wf_config_def)
  define ev where "ev = (kb_event s)\<lparr>cnt := 0, ctrl_key := 0\<rparr>"
  have ev: "wf_event ev" "cnt ev = 0" "ctrl_key ev = 0"
    using wf by (simp_all add: wf_kb_def wf_event_def ev_def)
  define s0 where "s0 = s\<lparr>kb_event := ev, kb_is_fn_pressed := False\<rparr>"
  define fn0 where "fn0 = (kb_is_fn_pressed s0 \<or> row_fn c ?mp (scan_pin_need s0) 0 gpio)"
  obtain fn gpio' where loop: "matrix_loop c ?mp read_all 0 (?n + 1) (replicate ?n 0) (read_all 0 0) (s0\<lparr>kb_is_fn_pressed := fn0\<rparr>) =
      Some (scanned c (scan_pin_need s) read_all, gpio', s0\<lparr>kb_is_fn_pressed := fn\<rparr>)"
    using matrix_loop_run [where read_all = read_all and i = 0 and m = "?n + 1" and pm = "replicate ?n 0" and gpio = "read_all 0 0"
        and s = "s0\<lparr>kb_is_fn_pressed := fn0\<rparr>", OF c mp reads] reads
    by (auto simp: scanned_def s0_def)
  let ?pm = "if KB_RM_GHOST_KEY_EN c then kb_rmv_ghost_key (scanned c (scan_pin_need s) read_all) else scanned c (scan_pin_need s) read_all"
  let ?filt = "if numlock AND KB_NUMLOCK_STATUS_POWERON \<noteq> 0 then 0 else 1 :: u32"
  let ?s1 = "s0\<lparr>kb_is_fn_pressed := fn\<rparr>"
  have lpm: "length ?pm = ?n"
    by (simp add: kb_rmv_ghost_key_def length_scanned)
  have "wf_debounce (length ?pm) ?s1"
    unfolding lpm using wf by (simp add: wf_kb_def wf_debounce_def s0_def)
  from filter_run [OF this, of ?filt] obtain kc out s2 where
    filt: "key_debounce_filter ?pm ?filt ?s1 = Some (kc, out, s2)" "out = scan_result c numlock read_all s"
      "kc = (if out = mtrx_last s then 0 else 1)" "s2 = ?s1\<lparr>mtrx_pre := ?pm, mtrx_last := out\<rparr>"
    by (auto simp: scan_result_def s0_def Let_def)
  have lout: "length out = ?n"
    using lpm by (simp add: filt(2) scan_result_def debounce_matrix_def Let_def)
  define kr where "kr = (if KB_REPEAT_KEY_ENABLE c then repeat_before c now kc (repeat_st s2) else (kc, repeat_st s2))"
  have changed: "fst kr \<noteq> 0 \<longleftrightarrow> scan_changed c numlock now read_all s"
    by (simp add: kr_def scan_changed_def filt s0_def)
  define s3 where "s3 = s2\<lparr>repeat_st := snd kr\<rparr>"
  have s3: "ring_inv s3" "waiting s3 = waiting s" "wf_debounce ?n s3" "kb_event s3 = ev" "kb_is_fn_pressed s3 = fn"
    using wf lout lpm by (simp_all add: s3_def filt(4) s0_def wf_kb_def ring_inv_def waiting_def wf_debounce_def)
  let ?q = "queue_after (waiting s) (scan_changed c numlock now read_all s) (scan_result c numlock read_all s)"
  have "\<exists>s4. (if fst kr \<noteq> 0 then push_matrix out s3 else Some s3) = Some s4 \<and> ring_inv s4 \<and> waiting s4 = ?q
      \<and> wf_debounce ?n s4 \<and> kb_event s4 = ev \<and> kb_is_fn_pressed s4 = fn"
  proof (cases "fst kr \<noteq> 0")
    case True
    obtain s4 where s4: "push_matrix out s3 = Some s4" "ring_inv s4"
      "waiting s4 = (if length (waiting s3) = 4 then tl (waiting s3) else waiting s3) @ [out]"
      "s4 = s3\<lparr>matrix_buff := matrix_buff s4, matrix_wptr := matrix_wptr s4, matrix_rptr := matrix_rptr s4\<rparr>"
      using push_matrix_ring [OF s3(1), of out] by blast
    have "wf_debounce ?n s4 \<and> kb_event s4 = ev \<and> kb_is_fn_pressed s4 = fn"
      using s3 by (subst (1 2 3) s4(4)) (simp add: wf_debounce_def)
    then show ?thesis
      using True s4(1-3) s3 changed filt(2) by (simp add: queue_after_def)
  next
    case False
    then show ?thesis
      using s3 changed by (simp add: queue_after_def)
  qed
  then obtain s4 where s4: "(if fst kr \<noteq> 0 then push_matrix out s3 else Some s3) = Some s4" "ring_inv s4" "waiting s4 = ?q"
    "wf_debounce ?n s4" "kb_event s4 = ev" "kb_is_fn_pressed s4 = fn"
    by blast
  have lq: "\<forall>pd \<in> set ?q. length pd = ?n"
    using wf lout by (auto simp: queue_after_def wf_kb_def filt(2) dest: list.set_sel(2) [rotated])
  have wf4: "wf_kb c s4"
    using s4 ev lq by (simp add: wf_kb_def)
  have kr2: "(if KB_REPEAT_KEY_ENABLE c then repeat_before c now kc (repeat_st s2) else (kc, repeat_st s2)) = (fst kr, snd kr)"
    by (simp add: kr_def)
  have run: "kb_scan_key_value c numlock read_key now read_all gpio s =
      (if numlock AND KB_NUMLOCK_STATUS_INVALID \<noteq> 0 then Some (1, s4)
       else if matrix_wptr s4 = matrix_rptr s4 \<or> \<not> read_key then Some (0, s4)
       else do {
         (pd, s) \<leftarrow> pop_matrix s4;
         ev \<leftarrow> kb_remap_key_code c pd KB_RETURN_KEY_MAX (kb_is_fn_pressed s) numlock (kb_event s);
         rep \<leftarrow> (if KB_REPEAT_KEY_ENABLE c then repeat_after c ev (repeat_st s) else Some (repeat_st s));
         Some (1, s\<lparr>kb_event := ev, repeat_st := rep\<rparr>) })"
    unfolding kb_scan_key_value_def Let_def ev_def [symmetric] s0_def [symmetric] kb_scan_row_run [OF c mp gpio n0]
      fn0_def [symmetric] Option.bind_lunit case_prod_conv loop filt(1) kr2 s3_def [symmetric] s4(1)
    by (rule refl)
  show ?thesis
  proof (cases "numlock AND KB_NUMLOCK_STATUS_INVALID \<noteq> 0 \<or> ?q = [] \<or> \<not> read_key")
    case True
    then show ?thesis
      using wf4 s4 ev waiting_empty [OF s4(2)] unfolding run by (auto simp: Let_def)
  next
    case False
    then have ne: "matrix_wptr s4 \<noteq> matrix_rptr s4"
      using waiting_empty [OF s4(2)] s4(3) by auto
    obtain pd s5 where s5: "pop_matrix s4 = Some (pd, s5)" "ring_inv s5" "waiting s4 = pd # waiting s5"
      "s5 = s4\<lparr>matrix_rptr := matrix_rptr s5\<rparr>"
      using pop_matrix_ring [OF s4(2) ne] by blast
    have more: "wf_debounce ?n s5" "kb_event s5 = ev" "kb_is_fn_pressed s5 = fn"
      using s4 by (subst s5(4), simp add: wf_debounce_def)+
    have lpd: "length pd = ?n"
    proof -
      have "pd \<in> set (waiting s4)"
        by (simp add: s5(3))
      then show ?thesis
        using lq unfolding s4(3) by (rule bspec [rotated])
    qed
    obtain ev' where ev': "kb_remap_key_code c pd KB_RETURN_KEY_MAX fn numlock ev = Some ev'" "wf_event ev'"
      using kb_remap_key_code_total [OF c lpd ev(1,2)] by blast
    obtain rep where rep: "(if KB_REPEAT_KEY_ENABLE c then repeat_after c ev' (repeat_st s5) else Some (repeat_st s5)) = Some rep"
      using repeat_after_total [OF ev'(2), of c "repeat_st s5"] by (cases "KB_REPEAT_KEY_ENABLE c") auto
    let ?s = "s5\<lparr>kb_event := ev', repeat_st := rep\<rparr>"
    have res: "kb_scan_key_value c numlock read_key now read_all gpio s = Some (1, ?s)"
      using False ne s5(1) ev'(1) rep unfolding run by (simp add: more)
    have q: "?q = pd # waiting s5"
      using s4(3) s5(3) by simp
    have ws: "waiting ?s = waiting s5"
      by (simp add: waiting_def)
    have w: "waiting ?s = tl ?q" "hd ?q = pd" "kb_is_fn_pressed ?s = fn" "kb_event ?s = ev'"
      by (simp_all add: q ws more)
    have "\<forall>pd \<in> set (waiting s5). length pd = ?n"
      using lq unfolding q by simp
    then have wf5: "wf_kb c ?s"
      using s5(2) more(1) ev'(2) unfolding wf_kb_def ws by (simp add: ring_inv_def wf_debounce_def)
    have nf: "\<not> (numlock AND KB_NUMLOCK_STATUS_INVALID \<noteq> 0)" "\<not> (?q = [] \<or> \<not> read_key)"
      using False by blast+
    have remap: "kb_remap_key_code c (hd ?q) KB_RETURN_KEY_MAX (kb_is_fn_pressed ?s) numlock ev = Some (kb_event ?s)"
      using ev'(1) by (simp only: w)
    show ?thesis
      unfolding Let_def if_not_P [OF nf(1)] if_not_P [OF nf(2)]
      by (intro exI [where x = 1] exI [where x = ?s] conjI exI [where x = ev] res wf5 refl w(1) ev(2,3) remap)
  qed
qed

text \<open>
  C24: A scan refines the queue of matrices and never leaves its arrays: on a well-formed board and
  state, with four bytes in every reading, it keeps the state well-formed (at most six key codes, at
  most four matrices), puts the filtered matrix of this scan behind the waiting ones if it is a change,
  dropping the oldest of four, and reports the keys of the oldest one, which it removes.
\<close>

theorem kb_scan_refines_queue:
  assumes "wf_config c" and "wf_kb c s" and "\<forall>k d. length (read_all k d) = 4" and "length gpio = 4"
  shows "\<exists>r s'. kb_scan_key_value c numlock read_key now read_all gpio s = Some (r, s') \<and> wf_kb c s'
    \<and> (let q = queue_after (waiting s) (scan_changed c numlock now read_all s) (scan_result c numlock read_all s) in
       if numlock AND KB_NUMLOCK_STATUS_INVALID \<noteq> 0 then r = 1 \<and> waiting s' = q \<and> cnt (kb_event s') = 0
       else if q = [] \<or> \<not> read_key then r = 0 \<and> waiting s' = q \<and> cnt (kb_event s') = 0
       else r = 1 \<and> waiting s' = tl q \<and>
         (\<exists>ev. cnt ev = 0 \<and> ctrl_key ev = 0 \<and>
           kb_remap_key_code c (hd q) KB_RETURN_KEY_MAX (kb_is_fn_pressed s') numlock ev = Some (kb_event s')))"
  using assms by (intro kb_scan_key_value_queue) auto

text \<open>A board with the default maps: eight drive lines and eighteen scan lines on the four ports.\<close>

definition board :: "bool \<Rightarrow> kb_config" where
  "board std = \<lparr>drive_pins = [0x301, 0x302, 0x304, 0x308, 0x310, 0x320, 0x340, 0x380],
     scan_pins = [0x001, 0x002, 0x004, 0x008, 0x010, 0x020, 0x040, 0x080, 0x101, 0x102, 0x104, 0x108, 0x110, 0x120, 0x140, 0x180, 0x201, 0x202],
     KB_LINE_HIGH_VALID = True, KB_STANDARD_KEYBOARD = std, KB_RM_GHOST_KEY_EN = True, KB_HAS_CTRL_KEYS = True,
     KB_HAS_FN_KEY = True, KB_REPEAT_KEY_ENABLE = False, KB_REPEAT_KEY_INTERVAL_MS = 200, kb_map_repeat = [VK_VOL_UP],
     kb_map_normal = kb_map_normal_default, kb_map_num = kb_map_num_default, kb_map_fn = kb_map_fn_default\<rparr>"

definition kb_start :: "u32 \<Rightarrow> kb_state" where
  "kb_start need = \<lparr>kb_event = \<lparr>cnt = 0, ctrl_key = 0, keycode = replicate 6 0\<rparr>, kb_is_fn_pressed = False,
     scan_pin_need = need, release_cnt = 0, ret_last = 0, mtrx_pre = replicate 8 0, mtrx_last = replicate 8 0,
     matrix_buff = replicate 4 (replicate 8 0), matrix_wptr = 0, matrix_rptr = 0,
     repeat_st = \<lparr>key_change_flg = 0, key_repeat_flg = False, key_change_tick = 0\<rparr>\<rparr>"

text \<open>The reading with the key of scan line 9 and drive line \<open>col\<close> pressed (\<open>VK_FN\<close> for column 2).\<close>

definition key9 :: "nat \<Rightarrow> nat \<Rightarrow> nat \<Rightarrow> u8 list" where
  "key9 col k d = (if d = col then [0, 2, 0, 0] else [0, 0, 0, 0])"

lemma board_wf: "wf_config (board std)" "wf_kb (board std) (kb_start need)"
proof -
  have "wf_map (board std) kb_map_normal_default" "wf_map (board std) kb_map_num_default" "wf_map (board std) kb_map_fn_default"
    by (simp_all add: wf_map_def board_def kb_map_normal_default_def kb_map_num_default_def kb_map_fn_default_def)
  then show "wf_config (board std)"
    by (simp add: wf_config_def board_def)
  show "wf_kb (board std) (kb_start need)"
    by (simp add: wf_kb_def kb_start_def ring_inv_def wf_debounce_def wf_event_def waiting_def board_def)
qed

theorem kb_scan_refines_queue_witness:
  "\<exists>r s'. kb_scan_key_value (board False) 0 True 0 (key9 2) [0, 2, 0, 0] (kb_start 0x200) = Some (r, s') \<and> wf_kb (board False) s'"
proof -
  have "\<forall>k d. length (key9 2 k d) = 4"
    by (simp add: key9_def)
  from kb_scan_refines_queue [where numlock = 0 and read_key = True and now = 0 and gpio = "[0, 2, 0, 0]",
      OF board_wf(1) board_wf(2) this, of False "0x200"] show ?thesis
    by (elim meta_impE exE conjE) (simp, blast)
qed

text \<open>
  \<open>kb_scan_row\<close> evaluates the reading of the row before with the column of its own row: on the
  board with the default maps, pressing fn (scan line 9, drive line 2) does not set the fn flag,
  and the key of the same scan line on the drive line before it sets the flag.
\<close>

theorem kb_fn_wrong_column:
  "kb_map_normal_default ! 9 ! 2 = VK_FN
    \<and> map_option (kb_is_fn_pressed \<circ> snd) (kb_scan_key_value (board True) 0 True 0 (key9 2) [0, 2, 0, 0] (kb_start 0x200)) = Some False
    \<and> map_option (kb_is_fn_pressed \<circ> snd) (kb_scan_key_value (board True) 0 True 0 (key9 1) [0, 2, 0, 0] (kb_start 0x200)) = Some True"
  by code_simp

lemma pressed_loop_run:
  assumes wf: "wf_config c" "length gpio = 4"
  shows "i + k = length (scan_pins c) \<Longrightarrow>
    \<exists>s'. pressed_loop c gpio i (drop i (scan_pins c)) ret s =
      Some (foldl (\<lambda>m j. if level_of c gpio j then m OR push_bit j 1 else m) ret [i..<length (scan_pins c)], s')
    \<and> (if \<exists>j. i \<le> j \<and> j < length (scan_pins c) \<and> level_of c gpio j
       then release_cnt s' = 6 \<and> ret_last s' = foldl (\<lambda>m j. if level_of c gpio j then m OR push_bit j 1 else m) ret [i..<length (scan_pins c)]
       else s' = s)"
proof (induction k arbitrary: i ret s)
  case (Suc k)
  then have i: "i < length (scan_pins c)" "Suc i + k = length (scan_pins c)"
    by simp_all
  have d: "drop i (scan_pins c) = scan_pins c ! i # drop (Suc i) (scan_pins c)"
    using i(1) by (rule Cons_nth_drop_Suc [symmetric])
  have u: "[i..<length (scan_pins c)] = i # [Suc i..<length (scan_pins c)]"
    using i(1) by (rule upt_conv_Cons)
  have ex: "(\<exists>j. i \<le> j \<and> P j) \<longleftrightarrow> P i \<or> (\<exists>j. Suc i \<le> j \<and> P j)" for P
    by (metis Suc_le_eq le_less)
  let ?P = "\<lambda>j. j < length (scan_pins c) \<and> level_of c gpio j"
  show ?case
  proof (cases "level_of c gpio i")
    case True
    let ?s = "s\<lparr>release_cnt := 6, ret_last := ret OR push_bit i 1\<rparr>"
    have none: "foldl (\<lambda>m j. if level_of c gpio j then m OR push_bit j 1 else m) m [Suc i..<length (scan_pins c)] = m"
      if "\<not> (\<exists>j. Suc i \<le> j \<and> ?P j)" for m
    proof -
      have "foldl (\<lambda>m j. if level_of c gpio j then m OR push_bit j 1 else m) m js = m" if "\<forall>j \<in> set js. \<not> level_of c gpio j" for js
        using that by (induction js arbitrary: m) auto
      then show ?thesis
        using that by simp
    qed
    obtain s' where s': "pressed_loop c gpio (Suc i) (drop (Suc i) (scan_pins c)) (ret OR push_bit i 1) ?s =
        Some (foldl (\<lambda>m j. if level_of c gpio j then m OR push_bit j 1 else m) (ret OR push_bit i 1) [Suc i..<length (scan_pins c)], s')"
      "if \<exists>j. Suc i \<le> j \<and> ?P j
       then release_cnt s' = 6 \<and> ret_last s' = foldl (\<lambda>m j. if level_of c gpio j then m OR push_bit j 1 else m) (ret OR push_bit i 1) [Suc i..<length (scan_pins c)]
       else s' = ?s"
      using Suc.IH [OF i(2), of "ret OR push_bit i 1" ?s] by blast
    have "release_cnt s' = 6 \<and> ret_last s' = foldl (\<lambda>m j. if level_of c gpio j then m OR push_bit j 1 else m) (ret OR push_bit i 1) [Suc i..<length (scan_pins c)]"
    proof (cases "\<exists>j. Suc i \<le> j \<and> ?P j")
      case True
      then show ?thesis
        using s'(2) by (simp only: if_P [OF True])
    next
      case False
      then show ?thesis
        using s'(2) none [OF False, of "ret OR push_bit i 1"] by (simp only: if_not_P [OF False]) simp
    qed
    moreover have "\<exists>j. i \<le> j \<and> ?P j"
      using True i(1) by blast
    ultimately show ?thesis
      using s'(1) line_pressed_Some [OF wf(1) i(1) wf(2)] True unfolding d u by (intro exI [where x = s']) simp
  next
    case False
    then have eq: "(\<exists>j. i \<le> j \<and> ?P j) \<longleftrightarrow> (\<exists>j. Suc i \<le> j \<and> ?P j)"
      by (simp only: ex [of ?P]) blast
    have "pressed_loop c gpio i (scan_pins c ! i # drop (Suc i) (scan_pins c)) ret s =
        pressed_loop c gpio (Suc i) (drop (Suc i) (scan_pins c)) ret s"
      using line_pressed_Some [OF wf(1) i(1) wf(2)] False by simp
    then show ?thesis
      using Suc.IH [OF i(2), of ret s] unfolding d u eq foldl_Cons if_not_P [OF False] by (simp only:)
  qed
qed auto

definition pressed_lines :: "kb_config \<Rightarrow> u8 list \<Rightarrow> u32" where
  "pressed_lines c gpio = foldl (\<lambda>m j. if level_of c gpio j then m OR push_bit j 1 else m) 0 [0..<length (scan_pins c)]"

text \<open>
  A key that has been pressed is reported by \<open>kb_key_pressed\<close> for five more calls after its
  release, with the scan lines of the last press, and no longer.
\<close>

theorem kb_key_pressed_release:
  assumes "wf_config c" and "length gpio = 4"
  shows "\<exists>r s'. kb_key_pressed c gpio s = Some (r, s')
    \<and> (if \<exists>j < length (scan_pins c). level_of c gpio j
       then r = pressed_lines c gpio \<and> release_cnt s' = 5 \<and> ret_last s' = r
       else if release_cnt s \<noteq> 0 then r = ret_last s \<and> release_cnt s' = release_cnt s - 1 \<and> ret_last s' = ret_last s
       else r = 0 \<and> s' = s)"
proof -
  obtain s' where s': "pressed_loop c gpio 0 (scan_pins c) 0 s = Some (pressed_lines c gpio, s')"
    "if \<exists>j. 0 \<le> j \<and> j < length (scan_pins c) \<and> level_of c gpio j
     then release_cnt s' = 6 \<and> ret_last s' = pressed_lines c gpio else s' = s"
    using pressed_loop_run [OF assms, of 0 "length (scan_pins c)" 0 s] by (auto simp: pressed_lines_def)
  show ?thesis
  proof (cases "\<exists>j < length (scan_pins c). level_of c gpio j")
    case True
    then have "release_cnt s' = 6" "ret_last s' = pressed_lines c gpio"
      using s'(2) by auto
    then show ?thesis
      using True s'(1) by (simp add: kb_key_pressed_def)
  next
    case False
    then have "s' = s"
      using s'(2) by auto
    moreover have "pressed_lines c gpio = 0"
    proof -
      have "foldl (\<lambda>m j. if level_of c gpio j then m OR push_bit j 1 else m) m js = (m :: u32)" if "\<forall>j \<in> set js. \<not> level_of c gpio j" for js m
        using that by (induction js arbitrary: m) auto
      then show ?thesis
        using False by (simp add: pressed_lines_def)
    qed
    ultimately show ?thesis
      using s'(1) unfolding if_not_P [OF False] by (simp add: kb_key_pressed_def)
  qed
qed

theorem kb_key_pressed_release_witness:
  "\<exists>r s'. kb_key_pressed (board False) [0, 2, 0, 0] (kb_start 0) = Some (r, s')
    \<and> (if \<exists>j < length (scan_pins (board False)). level_of (board False) [0, 2, 0, 0] j
       then r = pressed_lines (board False) [0, 2, 0, 0] \<and> release_cnt s' = 5 \<and> ret_last s' = r
       else if release_cnt (kb_start 0) \<noteq> 0 then r = ret_last (kb_start 0) \<and> release_cnt s' = release_cnt (kb_start 0) - 1 \<and> ret_last s' = ret_last (kb_start 0)
       else r = 0 \<and> s' = kb_start 0)"
  by (rule kb_key_pressed_release [OF board_wf(1)]) simp

end
