(* ===== verification/Flash_Chips.thy ===== *)
theory Flash_Chips
  imports Flash
begin

text \<open>
  The flash chips of \<^verbatim>\<open>drivers/B85/flash\<close> on the driver of theory Flash: for each of the eleven chips
  the status register, the block protection with the codes of its header, and the security registers;
  and the table of \<^verbatim>\<open>flash_common.c\<close> through which the SDK finds the chip that is mounted.
\<close>

definition FLASH_READ_STATUS_CMD_LOWBYTE :: u8 where "FLASH_READ_STATUS_CMD_LOWBYTE = 0x05"
definition FLASH_READ_STATUS_CMD_HIGHBYTE :: u8 where "FLASH_READ_STATUS_CMD_HIGHBYTE = 0x35"

section \<open>Chip 0x1060C8\<close>

definition FLASH_LOCK_NONE_MID1060C8 :: u8 where "FLASH_LOCK_NONE_MID1060C8 = 0x00"

text \<open>The blocks of \<open>mid1060c8_lock_block_e\<close>: the code, the first and the last protected address.\<close>

definition mid1060c8_lock_block_e :: "(u8 \<times> u32 \<times> u32) list" where
  "mid1060c8_lock_block_e =
    [(0x04, 0x000000, 0x00DFFF),
     (0x08, 0x000000, 0x00BFFF),
     (0x0c, 0x000000, 0x007FFF),
     (0x10, 0x000000, 0x00FFFF)]"

definition FLASH_LOCK_LOW_32K_MID1060C8 :: u8 where "FLASH_LOCK_LOW_32K_MID1060C8 = 0x0c"

definition FLASH_WRITE_STATUS_BP_MID1060C8 :: u8 where "FLASH_WRITE_STATUS_BP_MID1060C8 = 0x1c"

definition flash_read_status_mid1060c8 :: "'f chip \<Rightarrow> 'f \<Rightarrow> u8 option" where
  "flash_read_status_mid1060c8 c f = flash_read_status c FLASH_READ_STATUS_CMD_LOWBYTE f"

definition flash_write_status_mid1060c8 :: "'f chip \<Rightarrow> u8 \<Rightarrow> u8 \<Rightarrow> 'f \<Rightarrow> (u8 \<times> 'f) option" where
  "flash_write_status_mid1060c8 c data msk f =
     (if data AND NOT msk \<noteq> 0 then Some (2, f)
      else do {
        status \<leftarrow> flash_read_status_mid1060c8 c f;
        (status, f) \<leftarrow>
          (if data \<noteq> status AND msk then do {
             let status = data OR (status AND NOT msk);
             let f = flash_write_status c FLASH_TYPE_8BIT_STATUS (ucast status) f;
             status \<leftarrow> flash_read_status_mid1060c8 c f;
             Some (status, f) }
           else Some (status, f));
        Some (if data = status AND msk then 1 else 0, f) })"

definition flash_lock_mid1060c8 :: "'f chip \<Rightarrow> u32 \<Rightarrow> 'f \<Rightarrow> (u8 \<times> 'f) option" where
  "flash_lock_mid1060c8 c data f = flash_write_status_mid1060c8 c (ucast data) FLASH_WRITE_STATUS_BP_MID1060C8 f"

definition flash_unlock_mid1060c8 :: "'f chip \<Rightarrow> 'f \<Rightarrow> (u8 \<times> 'f) option" where
  "flash_unlock_mid1060c8 c f = flash_write_status_mid1060c8 c FLASH_LOCK_NONE_MID1060C8 FLASH_WRITE_STATUS_BP_MID1060C8 f"

definition flash_get_lock_block_mid1060c8 :: "'f chip \<Rightarrow> 'f \<Rightarrow> u32 option" where
  "flash_get_lock_block_mid1060c8 c f = do { status \<leftarrow> flash_read_status_mid1060c8 c f; Some (ucast (status AND FLASH_WRITE_STATUS_BP_MID1060C8)) }"

section \<open>Chip 0x1360C8\<close>

definition FLASH_LOCK_NONE_MID1360C8 :: u8 where "FLASH_LOCK_NONE_MID1360C8 = 0x00"

text \<open>The blocks of \<open>mid1360c8_lock_block_e\<close>: the code, the first and the last protected address.\<close>

definition mid1360c8_lock_block_e :: "(u8 \<times> u32 \<times> u32) list" where
  "mid1360c8_lock_block_e =
    [(0x04, 0x000000, 0x07DFFF),
     (0x08, 0x000000, 0x07BFFF),
     (0x0c, 0x000000, 0x077FFF),
     (0x10, 0x000000, 0x06FFFF),
     (0x14, 0x000000, 0x05FFFF),
     (0x18, 0x000000, 0x03FFFF),
     (0x1c, 0x000000, 0x07FFFF)]"

definition FLASH_LOCK_LOW_256K_MID1360C8 :: u8 where "FLASH_LOCK_LOW_256K_MID1360C8 = 0x18"

definition FLASH_WRITE_STATUS_BP_MID1360C8 :: u8 where "FLASH_WRITE_STATUS_BP_MID1360C8 = 0x1c"

definition flash_read_status_mid1360c8 :: "'f chip \<Rightarrow> 'f \<Rightarrow> u8 option" where
  "flash_read_status_mid1360c8 c f = flash_read_status c FLASH_READ_STATUS_CMD_LOWBYTE f"

definition flash_write_status_mid1360c8 :: "'f chip \<Rightarrow> u8 \<Rightarrow> u8 \<Rightarrow> 'f \<Rightarrow> (u8 \<times> 'f) option" where
  "flash_write_status_mid1360c8 c data msk f =
     (if data AND NOT msk \<noteq> 0 then Some (2, f)
      else do {
        status \<leftarrow> flash_read_status_mid1360c8 c f;
        (status, f) \<leftarrow>
          (if data \<noteq> status AND msk then do {
             let status = data OR (status AND NOT msk);
             let f = flash_write_status c FLASH_TYPE_8BIT_STATUS (ucast status) f;
             status \<leftarrow> flash_read_status_mid1360c8 c f;
             Some (status, f) }
           else Some (status, f));
        Some (if data = status AND msk then 1 else 0, f) })"

definition flash_lock_mid1360c8 :: "'f chip \<Rightarrow> u32 \<Rightarrow> 'f \<Rightarrow> (u8 \<times> 'f) option" where
  "flash_lock_mid1360c8 c data f = flash_write_status_mid1360c8 c (ucast data) FLASH_WRITE_STATUS_BP_MID1360C8 f"

definition flash_unlock_mid1360c8 :: "'f chip \<Rightarrow> 'f \<Rightarrow> (u8 \<times> 'f) option" where
  "flash_unlock_mid1360c8 c f = flash_write_status_mid1360c8 c FLASH_LOCK_NONE_MID1360C8 FLASH_WRITE_STATUS_BP_MID1360C8 f"

definition flash_get_lock_block_mid1360c8 :: "'f chip \<Rightarrow> 'f \<Rightarrow> u32 option" where
  "flash_get_lock_block_mid1360c8 c f = do { status \<leftarrow> flash_read_status_mid1360c8 c f; Some (ucast (status AND FLASH_WRITE_STATUS_BP_MID1360C8)) }"

section \<open>Chip 0x13325E\<close>

definition FLASH_LOCK_NONE_MID13325E :: u8 where "FLASH_LOCK_NONE_MID13325E = 0x00"

text \<open>The blocks of \<open>mid13325e_lock_block_e\<close>: the code, the first and the last protected address.\<close>

definition mid13325e_lock_block_e :: "(u8 \<times> u32 \<times> u32) list" where
  "mid13325e_lock_block_e =
    [(0x04, 0x000000, 0x07DFFF),
     (0x08, 0x000000, 0x07BFFF),
     (0x0c, 0x000000, 0x077FFF),
     (0x10, 0x000000, 0x06FFFF),
     (0x14, 0x000000, 0x05FFFF),
     (0x18, 0x000000, 0x03FFFF),
     (0x1c, 0x000000, 0x07FFFF)]"

definition FLASH_LOCK_LOW_256K_MID13325E :: u8 where "FLASH_LOCK_LOW_256K_MID13325E = 0x18"

definition FLASH_WRITE_STATUS_BP_MID13325E :: u8 where "FLASH_WRITE_STATUS_BP_MID13325E = 0x1c"

definition flash_read_status_mid13325e :: "'f chip \<Rightarrow> 'f \<Rightarrow> u8 option" where
  "flash_read_status_mid13325e c f = flash_read_status c FLASH_READ_STATUS_CMD_LOWBYTE f"

definition flash_write_status_mid13325e :: "'f chip \<Rightarrow> u8 \<Rightarrow> u8 \<Rightarrow> 'f \<Rightarrow> (u8 \<times> 'f) option" where
  "flash_write_status_mid13325e c data msk f =
     (if data AND NOT msk \<noteq> 0 then Some (2, f)
      else do {
        status \<leftarrow> flash_read_status_mid13325e c f;
        (status, f) \<leftarrow>
          (if data \<noteq> status AND msk then do {
             let status = data OR (status AND NOT msk);
             let f = flash_write_status c FLASH_TYPE_8BIT_STATUS (ucast status) f;
             status \<leftarrow> flash_read_status_mid13325e c f;
             Some (status, f) }
           else Some (status, f));
        Some (if data = status AND msk then 1 else 0, f) })"

definition flash_lock_mid13325e :: "'f chip \<Rightarrow> u32 \<Rightarrow> 'f \<Rightarrow> (u8 \<times> 'f) option" where
  "flash_lock_mid13325e c data f = flash_write_status_mid13325e c (ucast data) FLASH_WRITE_STATUS_BP_MID13325E f"

definition flash_unlock_mid13325e :: "'f chip \<Rightarrow> 'f \<Rightarrow> (u8 \<times> 'f) option" where
  "flash_unlock_mid13325e c f = flash_write_status_mid13325e c FLASH_LOCK_NONE_MID13325E FLASH_WRITE_STATUS_BP_MID13325E f"

definition flash_get_lock_block_mid13325e :: "'f chip \<Rightarrow> 'f \<Rightarrow> u32 option" where
  "flash_get_lock_block_mid13325e c f = do { status \<leftarrow> flash_read_status_mid13325e c f; Some (ucast (status AND FLASH_WRITE_STATUS_BP_MID13325E)) }"

section \<open>Chip 0x0113325E\<close>

definition FLASH_LOCK_NONE_MID0113325E :: u16 where "FLASH_LOCK_NONE_MID0113325E = 0x0000"

text \<open>The blocks of \<open>mid0113325e_lock_block_e\<close>: the code, the first and the last protected address.\<close>

definition mid0113325e_lock_block_e :: "(u16 \<times> u32 \<times> u32) list" where
  "mid0113325e_lock_block_e =
    [(0x0004, 0x070000, 0x07FFFF),
     (0x0008, 0x060000, 0x07FFFF),
     (0x000c, 0x040000, 0x07FFFF),
     (0x0010, 0x000000, 0x07FFFF),
     (0x0024, 0x000000, 0x00FFFF),
     (0x0028, 0x000000, 0x01FFFF),
     (0x002c, 0x000000, 0x03FFFF),
     (0x0044, 0x07F000, 0x07FFFF),
     (0x0048, 0x07E000, 0x07FFFF),
     (0x004c, 0x07C000, 0x07FFFF),
     (0x0050, 0x078000, 0x07FFFF),
     (0x0064, 0x000000, 0x000FFF),
     (0x0068, 0x000000, 0x001FFF),
     (0x006c, 0x000000, 0x003FFF),
     (0x0070, 0x000000, 0x007FFF),
     (0x4004, 0x000000, 0x06FFFF),
     (0x4008, 0x000000, 0x05FFFF),
     (0x4024, 0x010000, 0x07FFFF),
     (0x4028, 0x020000, 0x07FFFF),
     (0x4044, 0x000000, 0x07EFFF),
     (0x4048, 0x000000, 0x07DFFF),
     (0x404c, 0x000000, 0x07BFFF),
     (0x4050, 0x000000, 0x077FFF),
     (0x4064, 0x001000, 0x07FFFF),
     (0x4068, 0x002000, 0x07FFFF),
     (0x406c, 0x004000, 0x07FFFF),
     (0x4078, 0x008000, 0x07FFFF)]"

definition FLASH_LOCK_LOW_256K_MID0113325E :: u16 where "FLASH_LOCK_LOW_256K_MID0113325E = 0x002c"

definition FLASH_WRITE_STATUS_BP_MID0113325E :: u32 where "FLASH_WRITE_STATUS_BP_MID0113325E = 0x407c"

definition flash_read_status_mid0113325e :: "'f chip \<Rightarrow> 'f \<Rightarrow> u16 option" where
  "flash_read_status_mid0113325e c f = do {
     status_low \<leftarrow> flash_read_status c FLASH_READ_STATUS_CMD_LOWBYTE f;
     status_high \<leftarrow> flash_read_status c FLASH_READ_STATUS_CMD_HIGHBYTE f;
     Some (ucast status_low OR push_bit 8 (ucast status_high)) }"

definition flash_write_status_mid0113325e :: "'f chip \<Rightarrow> u16 \<Rightarrow> u32 \<Rightarrow> 'f \<Rightarrow> (u8 \<times> 'f) option" where
  "flash_write_status_mid0113325e c data msk f =
     (if ucast data AND NOT msk \<noteq> (0 :: u32) then Some (2, f)
      else do {
        status \<leftarrow> flash_read_status_mid0113325e c f;
        (status, f) \<leftarrow>
          (if ucast data \<noteq> (ucast status AND msk :: u32) then do {
             let status = (ucast (ucast data OR (ucast status AND NOT msk)) :: u16);
             let f = flash_write_status c FLASH_TYPE_16BIT_STATUS_ONE_CMD status f;
             status \<leftarrow> flash_read_status_mid0113325e c f;
             Some (status, f) }
           else Some (status, f));
        Some (if ucast data = (ucast status AND msk :: u32) then 1 else 0, f) })"

definition flash_lock_mid0113325e :: "'f chip \<Rightarrow> u32 \<Rightarrow> 'f \<Rightarrow> (u8 \<times> 'f) option" where
  "flash_lock_mid0113325e c data f = flash_write_status_mid0113325e c (ucast data) FLASH_WRITE_STATUS_BP_MID0113325E f"

definition flash_unlock_mid0113325e :: "'f chip \<Rightarrow> 'f \<Rightarrow> (u8 \<times> 'f) option" where
  "flash_unlock_mid0113325e c f = flash_write_status_mid0113325e c FLASH_LOCK_NONE_MID0113325E FLASH_WRITE_STATUS_BP_MID0113325E f"

definition flash_get_lock_block_mid0113325e :: "'f chip \<Rightarrow> 'f \<Rightarrow> u32 option" where
  "flash_get_lock_block_mid0113325e c f = do { status \<leftarrow> flash_read_status_mid0113325e c f; Some (ucast status AND FLASH_WRITE_STATUS_BP_MID0113325E) }"

section \<open>Chip 0x134051\<close>

definition FLASH_LOCK_NONE_MID134051 :: u8 where "FLASH_LOCK_NONE_MID134051 = 0x00"

text \<open>The blocks of \<open>mid134051_lock_block_e\<close>: the code, the first and the last protected address.\<close>

definition mid134051_lock_block_e :: "(u8 \<times> u32 \<times> u32) list" where
  "mid134051_lock_block_e =
    [(0x04, 0x000000, 0x07DFFF),
     (0x08, 0x000000, 0x07BFFF),
     (0x0c, 0x000000, 0x077FFF),
     (0x10, 0x000000, 0x06FFFF),
     (0x14, 0x000000, 0x05FFFF),
     (0x18, 0x000000, 0x03FFFF),
     (0x1c, 0x000000, 0x07FFFF)]"

definition FLASH_LOCK_LOW_256K_MID134051 :: u8 where "FLASH_LOCK_LOW_256K_MID134051 = 0x18"

definition FLASH_WRITE_STATUS_BP_MID134051 :: u8 where "FLASH_WRITE_STATUS_BP_MID134051 = 0x1c"

definition flash_read_status_mid134051 :: "'f chip \<Rightarrow> 'f \<Rightarrow> u8 option" where
  "flash_read_status_mid134051 c f = flash_read_status c FLASH_READ_STATUS_CMD_LOWBYTE f"

definition flash_write_status_mid134051 :: "'f chip \<Rightarrow> u8 \<Rightarrow> u8 \<Rightarrow> 'f \<Rightarrow> (u8 \<times> 'f) option" where
  "flash_write_status_mid134051 c data msk f =
     (if data AND NOT msk \<noteq> 0 then Some (2, f)
      else do {
        status \<leftarrow> flash_read_status_mid134051 c f;
        (status, f) \<leftarrow>
          (if data \<noteq> status AND msk then do {
             let status = data OR (status AND NOT msk);
             let f = flash_write_status c FLASH_TYPE_8BIT_STATUS (ucast status) f;
             status \<leftarrow> flash_read_status_mid134051 c f;
             Some (status, f) }
           else Some (status, f));
        Some (if data = status AND msk then 1 else 0, f) })"

definition flash_lock_mid134051 :: "'f chip \<Rightarrow> u32 \<Rightarrow> 'f \<Rightarrow> (u8 \<times> 'f) option" where
  "flash_lock_mid134051 c data f = flash_write_status_mid134051 c (ucast data) FLASH_WRITE_STATUS_BP_MID134051 f"

definition flash_unlock_mid134051 :: "'f chip \<Rightarrow> 'f \<Rightarrow> (u8 \<times> 'f) option" where
  "flash_unlock_mid134051 c f = flash_write_status_mid134051 c FLASH_LOCK_NONE_MID134051 FLASH_WRITE_STATUS_BP_MID134051 f"

definition flash_get_lock_block_mid134051 :: "'f chip \<Rightarrow> 'f \<Rightarrow> u32 option" where
  "flash_get_lock_block_mid134051 c f = do { status \<leftarrow> flash_read_status_mid134051 c f; Some (ucast (status AND FLASH_WRITE_STATUS_BP_MID134051)) }"

section \<open>Chip 0x136085\<close>

definition FLASH_LOCK_NONE_MID136085 :: u16 where "FLASH_LOCK_NONE_MID136085 = 0x0000"

text \<open>The blocks of \<open>mid136085_lock_block_e\<close>: the code, the first and the last protected address.\<close>

definition mid136085_lock_block_e :: "(u16 \<times> u32 \<times> u32) list" where
  "mid136085_lock_block_e =
    [(0x0004, 0x070000, 0x07FFFF),
     (0x0008, 0x060000, 0x07FFFF),
     (0x000c, 0x040000, 0x07FFFF),
     (0x0024, 0x000000, 0x00FFFF),
     (0x0028, 0x000000, 0x01FFFF),
     (0x002c, 0x000000, 0x03FFFF),
     (0x0044, 0x07F000, 0x07FFFF),
     (0x0048, 0x07E000, 0x07FFFF),
     (0x004c, 0x07C000, 0x07FFFF),
     (0x0050, 0x078000, 0x07FFFF),
     (0x0064, 0x000000, 0x000FFF),
     (0x0068, 0x000000, 0x001FFF),
     (0x006c, 0x000000, 0x003FFF),
     (0x0070, 0x000000, 0x007FFF),
     (0x4004, 0x000000, 0x06FFFF),
     (0x4008, 0x000000, 0x05FFFF),
     (0x4024, 0x010000, 0x07FFFF),
     (0x4028, 0x020000, 0x07FFFF),
     (0x4044, 0x000000, 0x07EFFF),
     (0x4048, 0x000000, 0x07DFFF),
     (0x404c, 0x000000, 0x07BFFF),
     (0x4050, 0x000000, 0x077FFF),
     (0x4064, 0x001000, 0x07FFFF),
     (0x4068, 0x002000, 0x07FFFF),
     (0x406c, 0x004000, 0x07FFFF),
     (0x4070, 0x008000, 0x07FFFF),
     (0x007c, 0x000000, 0x07FFFF)]"

definition FLASH_LOCK_LOW_256K_MID136085 :: u16 where "FLASH_LOCK_LOW_256K_MID136085 = 0x002c"

definition mid136085_otp_block_e :: "u32 list" where
  "mid136085_otp_block_e = [0x001000, 0x002000, 0x003000]"

definition mid136085_lock_otp_e :: "u16 list" where
  "mid136085_lock_otp_e = [0x0800, 0x1000, 0x2000]"

definition FLASH_WRITE_STATUS_BP_MID136085 :: u32 where "FLASH_WRITE_STATUS_BP_MID136085 = 0x407c"
definition FLASH_WRITE_STATUS_OTP_MID136085 :: u32 where "FLASH_WRITE_STATUS_OTP_MID136085 = 0x3800"

definition flash_read_status_mid136085 :: "'f chip \<Rightarrow> 'f \<Rightarrow> u16 option" where
  "flash_read_status_mid136085 c f = do {
     status_low \<leftarrow> flash_read_status c FLASH_READ_STATUS_CMD_LOWBYTE f;
     status_high \<leftarrow> flash_read_status c FLASH_READ_STATUS_CMD_HIGHBYTE f;
     Some (ucast status_low OR push_bit 8 (ucast status_high)) }"

definition flash_write_status_mid136085 :: "'f chip \<Rightarrow> u16 \<Rightarrow> u32 \<Rightarrow> 'f \<Rightarrow> (u8 \<times> 'f) option" where
  "flash_write_status_mid136085 c data msk f =
     (if ucast data AND NOT msk \<noteq> (0 :: u32) then Some (2, f)
      else do {
        status \<leftarrow> flash_read_status_mid136085 c f;
        (status, f) \<leftarrow>
          (if ucast data \<noteq> (ucast status AND msk :: u32) then do {
             let status = (ucast (ucast data OR (ucast status AND NOT msk)) :: u16);
             let f = flash_write_status c FLASH_TYPE_16BIT_STATUS_ONE_CMD status f;
             status \<leftarrow> flash_read_status_mid136085 c f;
             Some (status, f) }
           else Some (status, f));
        Some (if ucast data = (ucast status AND msk :: u32) then 1 else 0, f) })"

definition flash_lock_mid136085 :: "'f chip \<Rightarrow> u32 \<Rightarrow> 'f \<Rightarrow> (u8 \<times> 'f) option" where
  "flash_lock_mid136085 c data f = flash_write_status_mid136085 c (ucast data) FLASH_WRITE_STATUS_BP_MID136085 f"

definition flash_unlock_mid136085 :: "'f chip \<Rightarrow> 'f \<Rightarrow> (u8 \<times> 'f) option" where
  "flash_unlock_mid136085 c f = flash_write_status_mid136085 c FLASH_LOCK_NONE_MID136085 FLASH_WRITE_STATUS_BP_MID136085 f"

definition flash_get_lock_block_mid136085 :: "'f chip \<Rightarrow> 'f \<Rightarrow> u32 option" where
  "flash_get_lock_block_mid136085 c f = do { status \<leftarrow> flash_read_status_mid136085 c f; Some (ucast status AND FLASH_WRITE_STATUS_BP_MID136085) }"

definition flash_read_otp_mid136085 :: "'f chip \<Rightarrow> u32 \<Rightarrow> u32 \<Rightarrow> 'f \<Rightarrow> u8 list" where
  "flash_read_otp_mid136085 c addr len f = flash_read_otp c addr len f"

definition flash_write_otp_mid136085 :: "'f chip \<Rightarrow> u32 \<Rightarrow> u8 list \<Rightarrow> 'f \<Rightarrow> 'f" where
  "flash_write_otp_mid136085 c addr buf f = flash_write_otp c addr buf f"

definition flash_erase_otp_mid136085 :: "'f chip \<Rightarrow> u32 \<Rightarrow> 'f \<Rightarrow> 'f" where
  "flash_erase_otp_mid136085 c addr f = flash_erase_otp c addr f"

definition flash_lock_otp_mid136085 :: "'f chip \<Rightarrow> u16 \<Rightarrow> 'f \<Rightarrow> 'f option" where
  "flash_lock_otp_mid136085 c data f = do { (r, f) \<leftarrow> flash_write_status_mid136085 c data FLASH_WRITE_STATUS_OTP_MID136085 f; Some f }"

section \<open>Chip 0x1360EB\<close>

definition FLASH_LOCK_NONE_MID1360EB :: u16 where "FLASH_LOCK_NONE_MID1360EB = 0x0000"

text \<open>The blocks of \<open>mid1360eb_lock_block_e\<close>: the code, the first and the last protected address.\<close>

definition mid1360eb_lock_block_e :: "(u16 \<times> u32 \<times> u32) list" where
  "mid1360eb_lock_block_e =
    [(0x0004, 0x070000, 0x07FFFF),
     (0x0008, 0x060000, 0x07FFFF),
     (0x000c, 0x040000, 0x07FFFF),
     (0x0024, 0x000000, 0x00FFFF),
     (0x0028, 0x000000, 0x01FFFF),
     (0x002c, 0x000000, 0x03FFFF),
     (0x0044, 0x07F000, 0x07FFFF),
     (0x0048, 0x07E000, 0x07FFFF),
     (0x004c, 0x07C000, 0x07FFFF),
     (0x0050, 0x078000, 0x07FFFF),
     (0x0064, 0x000000, 0x000FFF),
     (0x0068, 0x000000, 0x001FFF),
     (0x006c, 0x000000, 0x003FFF),
     (0x0070, 0x000000, 0x007FFF),
     (0x4004, 0x000000, 0x06FFFF),
     (0x4008, 0x000000, 0x05FFFF),
     (0x4024, 0x010000, 0x07FFFF),
     (0x4028, 0x020000, 0x07FFFF),
     (0x4044, 0x000000, 0x07EFFF),
     (0x4048, 0x000000, 0x07DFFF),
     (0x404c, 0x000000, 0x07BFFF),
     (0x4050, 0x000000, 0x077FFF),
     (0x4064, 0x001000, 0x07FFFF),
     (0x4068, 0x002000, 0x07FFFF),
     (0x406c, 0x004000, 0x07FFFF),
     (0x4070, 0x008000, 0x07FFFF),
     (0x007c, 0x000000, 0x07FFFF)]"

definition FLASH_LOCK_LOW_256K_MID1360EB :: u16 where "FLASH_LOCK_LOW_256K_MID1360EB = 0x002c"

definition mid1360eb_otp_block_e :: "u32 list" where
  "mid1360eb_otp_block_e = [0x001000, 0x002000, 0x003000]"

definition mid1360eb_lock_otp_e :: "u16 list" where
  "mid1360eb_lock_otp_e = [0x0800, 0x1000, 0x2000]"

definition FLASH_WRITE_STATUS_BP_MID1360EB :: u32 where "FLASH_WRITE_STATUS_BP_MID1360EB = 0x407c"
definition FLASH_WRITE_STATUS_OTP_MID1360EB :: u32 where "FLASH_WRITE_STATUS_OTP_MID1360EB = 0x3800"

definition flash_read_status_mid1360eb :: "'f chip \<Rightarrow> 'f \<Rightarrow> u16 option" where
  "flash_read_status_mid1360eb c f = do {
     status_low \<leftarrow> flash_read_status c FLASH_READ_STATUS_CMD_LOWBYTE f;
     status_high \<leftarrow> flash_read_status c FLASH_READ_STATUS_CMD_HIGHBYTE f;
     Some (ucast status_low OR push_bit 8 (ucast status_high)) }"

definition flash_write_status_mid1360eb :: "'f chip \<Rightarrow> u16 \<Rightarrow> u32 \<Rightarrow> 'f \<Rightarrow> (u8 \<times> 'f) option" where
  "flash_write_status_mid1360eb c data msk f =
     (if ucast data AND NOT msk \<noteq> (0 :: u32) then Some (2, f)
      else do {
        status \<leftarrow> flash_read_status_mid1360eb c f;
        (status, f) \<leftarrow>
          (if ucast data \<noteq> (ucast status AND msk :: u32) then do {
             let status = (ucast (ucast data OR (ucast status AND NOT msk)) :: u16);
             let f = flash_write_status c FLASH_TYPE_16BIT_STATUS_ONE_CMD status f;
             status \<leftarrow> flash_read_status_mid1360eb c f;
             Some (status, f) }
           else Some (status, f));
        Some (if ucast data = (ucast status AND msk :: u32) then 1 else 0, f) })"

definition flash_lock_mid1360eb :: "'f chip \<Rightarrow> u32 \<Rightarrow> 'f \<Rightarrow> (u8 \<times> 'f) option" where
  "flash_lock_mid1360eb c data f = flash_write_status_mid1360eb c (ucast data) FLASH_WRITE_STATUS_BP_MID1360EB f"

definition flash_unlock_mid1360eb :: "'f chip \<Rightarrow> 'f \<Rightarrow> (u8 \<times> 'f) option" where
  "flash_unlock_mid1360eb c f = flash_write_status_mid1360eb c FLASH_LOCK_NONE_MID1360EB FLASH_WRITE_STATUS_BP_MID1360EB f"

definition flash_get_lock_block_mid1360eb :: "'f chip \<Rightarrow> 'f \<Rightarrow> u32 option" where
  "flash_get_lock_block_mid1360eb c f = do { status \<leftarrow> flash_read_status_mid1360eb c f; Some (ucast status AND FLASH_WRITE_STATUS_BP_MID1360EB) }"

definition flash_read_otp_mid1360eb :: "'f chip \<Rightarrow> u32 \<Rightarrow> u32 \<Rightarrow> 'f \<Rightarrow> u8 list" where
  "flash_read_otp_mid1360eb c addr len f = flash_read_otp c addr len f"

definition flash_write_otp_mid1360eb :: "'f chip \<Rightarrow> u32 \<Rightarrow> u8 list \<Rightarrow> 'f \<Rightarrow> 'f" where
  "flash_write_otp_mid1360eb c addr buf f = flash_write_otp c addr buf f"

definition flash_erase_otp_mid1360eb :: "'f chip \<Rightarrow> u32 \<Rightarrow> 'f \<Rightarrow> 'f" where
  "flash_erase_otp_mid1360eb c addr f = flash_erase_otp c addr f"

definition flash_lock_otp_mid1360eb :: "'f chip \<Rightarrow> u16 \<Rightarrow> 'f \<Rightarrow> 'f option" where
  "flash_lock_otp_mid1360eb c data f = do { (r, f) \<leftarrow> flash_write_status_mid1360eb c data FLASH_WRITE_STATUS_OTP_MID1360EB f; Some f }"

section \<open>Chip 0x14325E\<close>

definition FLASH_LOCK_NONE_MID14325E :: u8 where "FLASH_LOCK_NONE_MID14325E = 0x00"

text \<open>The blocks of \<open>mid14325e_lock_block_e\<close>: the code, the first and the last protected address.\<close>

definition mid14325e_lock_block_e :: "(u8 \<times> u32 \<times> u32) list" where
  "mid14325e_lock_block_e =
    [(0x04, 0x000000, 0x0FDFFF),
     (0x08, 0x000000, 0x0FBFFF),
     (0x0c, 0x000000, 0x0F7FFF),
     (0x10, 0x000000, 0x0EFFFF),
     (0x14, 0x000000, 0x0DFFFF),
     (0x18, 0x000000, 0x0BFFFF),
     (0x1c, 0x000000, 0x0FFFFF)]"

definition FLASH_LOCK_LOW_768K_MID14325E :: u8 where "FLASH_LOCK_LOW_768K_MID14325E = 0x18"

definition FLASH_WRITE_STATUS_BP_MID14325E :: u8 where "FLASH_WRITE_STATUS_BP_MID14325E = 0x1c"

definition flash_read_status_mid14325e :: "'f chip \<Rightarrow> 'f \<Rightarrow> u8 option" where
  "flash_read_status_mid14325e c f = flash_read_status c FLASH_READ_STATUS_CMD_LOWBYTE f"

definition flash_write_status_mid14325e :: "'f chip \<Rightarrow> u8 \<Rightarrow> u8 \<Rightarrow> 'f \<Rightarrow> (u8 \<times> 'f) option" where
  "flash_write_status_mid14325e c data msk f =
     (if data AND NOT msk \<noteq> 0 then Some (2, f)
      else do {
        status \<leftarrow> flash_read_status_mid14325e c f;
        (status, f) \<leftarrow>
          (if data \<noteq> status AND msk then do {
             let status = data OR (status AND NOT msk);
             let f = flash_write_status c FLASH_TYPE_8BIT_STATUS (ucast status) f;
             status \<leftarrow> flash_read_status_mid14325e c f;
             Some (status, f) }
           else Some (status, f));
        Some (if data = status AND msk then 1 else 0, f) })"

definition flash_lock_mid14325e :: "'f chip \<Rightarrow> u32 \<Rightarrow> 'f \<Rightarrow> (u8 \<times> 'f) option" where
  "flash_lock_mid14325e c data f = flash_write_status_mid14325e c (ucast data) FLASH_WRITE_STATUS_BP_MID14325E f"

definition flash_unlock_mid14325e :: "'f chip \<Rightarrow> 'f \<Rightarrow> (u8 \<times> 'f) option" where
  "flash_unlock_mid14325e c f = flash_write_status_mid14325e c FLASH_LOCK_NONE_MID14325E FLASH_WRITE_STATUS_BP_MID14325E f"

definition flash_get_lock_block_mid14325e :: "'f chip \<Rightarrow> 'f \<Rightarrow> u32 option" where
  "flash_get_lock_block_mid14325e c f = do { status \<leftarrow> flash_read_status_mid14325e c f; Some (ucast (status AND FLASH_WRITE_STATUS_BP_MID14325E)) }"

section \<open>Chip 0x0114325E\<close>

definition FLASH_LOCK_NONE_MID0114325E :: u16 where "FLASH_LOCK_NONE_MID0114325E = 0x0000"

text \<open>The blocks of \<open>mid0114325e_lock_block_e\<close>: the code, the first and the last protected address.\<close>

definition mid0114325e_lock_block_e :: "(u16 \<times> u32 \<times> u32) list" where
  "mid0114325e_lock_block_e =
    [(0x0004, 0x0F0000, 0x0FFFFF),
     (0x0008, 0x0E0000, 0x0FFFFF),
     (0x000c, 0x0C0000, 0x0FFFFF),
     (0x0010, 0x080000, 0x0FFFFF),
     (0x001c, 0x000000, 0x0FFFFF),
     (0x0024, 0x000000, 0x00FFFF),
     (0x0028, 0x000000, 0x01FFFF),
     (0x002c, 0x000000, 0x03FFFF),
     (0x0030, 0x000000, 0x07FFFF),
     (0x0044, 0x0FF000, 0x0FFFFF),
     (0x0048, 0x0FE000, 0x0FFFFF),
     (0x004c, 0x0FC000, 0x0FFFFF),
     (0x0050, 0x0F8000, 0x0FFFFF),
     (0x0064, 0x000000, 0x000FFF),
     (0x0068, 0x000000, 0x001FFF),
     (0x006c, 0x000000, 0x003FFF),
     (0x0070, 0x000000, 0x007FFF),
     (0x4004, 0x000000, 0x0EFFFF),
     (0x4008, 0x000000, 0x0DFFFF),
     (0x400c, 0x000000, 0x0BFFFF),
     (0x4024, 0x010000, 0x0FFFFF),
     (0x4028, 0x020000, 0x0FFFFF),
     (0x402c, 0x040000, 0x0FFFFF),
     (0x4044, 0x000000, 0x0FEFFF),
     (0x4048, 0x000000, 0x0FDFFF),
     (0x404c, 0x000000, 0x0FBFFF),
     (0x4050, 0x000000, 0x0F7FFF),
     (0x4064, 0x001000, 0x0FFFFF),
     (0x4068, 0x002000, 0x0FFFFF),
     (0x406c, 0x004000, 0x0FFFFF),
     (0x4070, 0x008000, 0x0FFFFF)]"

definition FLASH_LOCK_LOW_768K_CMP1_MID0114325E :: u16 where "FLASH_LOCK_LOW_768K_CMP1_MID0114325E = 0x400c"

definition FLASH_WRITE_STATUS_BP_MID0114325E :: u32 where "FLASH_WRITE_STATUS_BP_MID0114325E = 0x407c"

definition flash_read_status_mid0114325e :: "'f chip \<Rightarrow> 'f \<Rightarrow> u16 option" where
  "flash_read_status_mid0114325e c f = do {
     status_low \<leftarrow> flash_read_status c FLASH_READ_STATUS_CMD_LOWBYTE f;
     status_high \<leftarrow> flash_read_status c FLASH_READ_STATUS_CMD_HIGHBYTE f;
     Some (ucast status_low OR push_bit 8 (ucast status_high)) }"

definition flash_write_status_mid0114325e :: "'f chip \<Rightarrow> u32 \<Rightarrow> u32 \<Rightarrow> 'f \<Rightarrow> (u8 \<times> 'f) option" where
  "flash_write_status_mid0114325e c data msk f =
     (if data AND NOT msk \<noteq> (0 :: u32) then Some (2, f)
      else do {
        status \<leftarrow> flash_read_status_mid0114325e c f;
        (status, f) \<leftarrow>
          (if data \<noteq> (ucast status AND msk :: u32) then do {
             let status = (ucast (data OR (ucast status AND NOT msk)) :: u16);
             let f = flash_write_status c FLASH_TYPE_16BIT_STATUS_ONE_CMD status f;
             status \<leftarrow> flash_read_status_mid0114325e c f;
             Some (status, f) }
           else Some (status, f));
        Some (if data = (ucast status AND msk :: u32) then 1 else 0, f) })"

definition flash_lock_mid0114325e :: "'f chip \<Rightarrow> u32 \<Rightarrow> 'f \<Rightarrow> (u8 \<times> 'f) option" where
  "flash_lock_mid0114325e c data f = flash_write_status_mid0114325e c (data) FLASH_WRITE_STATUS_BP_MID0114325E f"

definition flash_unlock_mid0114325e :: "'f chip \<Rightarrow> 'f \<Rightarrow> (u8 \<times> 'f) option" where
  "flash_unlock_mid0114325e c f = flash_write_status_mid0114325e c (ucast FLASH_LOCK_NONE_MID0114325E) FLASH_WRITE_STATUS_BP_MID0114325E f"

definition flash_get_lock_block_mid0114325e :: "'f chip \<Rightarrow> 'f \<Rightarrow> u32 option" where
  "flash_get_lock_block_mid0114325e c f = do { status \<leftarrow> flash_read_status_mid0114325e c f; Some (ucast status AND FLASH_WRITE_STATUS_BP_MID0114325E) }"

section \<open>Chip 0x1460C8\<close>

definition FLASH_LOCK_NONE_MID1460C8 :: u8 where "FLASH_LOCK_NONE_MID1460C8 = 0x00"

text \<open>The blocks of \<open>mid1460c8_lock_block_e\<close>: the code, the first and the last protected address.\<close>

definition mid1460c8_lock_block_e :: "(u8 \<times> u32 \<times> u32) list" where
  "mid1460c8_lock_block_e =
    [(0x04, 0x000000, 0x0FDFFF),
     (0x08, 0x000000, 0x0FBFFF),
     (0x0c, 0x000000, 0x0F7FFF),
     (0x10, 0x000000, 0x0EFFFF),
     (0x14, 0x000000, 0x0DFFFF),
     (0x18, 0x000000, 0x0BFFFF),
     (0x1c, 0x000000, 0x0FFFFF)]"

definition FLASH_LOCK_LOW_768K_MID1460C8 :: u8 where "FLASH_LOCK_LOW_768K_MID1460C8 = 0x18"

definition FLASH_WRITE_STATUS_BP_MID1460C8 :: u8 where "FLASH_WRITE_STATUS_BP_MID1460C8 = 0x1c"

definition flash_read_status_mid1460c8 :: "'f chip \<Rightarrow> 'f \<Rightarrow> u8 option" where
  "flash_read_status_mid1460c8 c f = flash_read_status c FLASH_READ_STATUS_CMD_LOWBYTE f"

definition flash_write_status_mid1460c8 :: "'f chip \<Rightarrow> u8 \<Rightarrow> u8 \<Rightarrow> 'f \<Rightarrow> (u8 \<times> 'f) option" where
  "flash_write_status_mid1460c8 c data msk f =
     (if data AND NOT msk \<noteq> 0 then Some (2, f)
      else do {
        status \<leftarrow> flash_read_status_mid1460c8 c f;
        (status, f) \<leftarrow>
          (if data \<noteq> status AND msk then do {
             let status = data OR (status AND NOT msk);
             let f = flash_write_status c FLASH_TYPE_8BIT_STATUS (ucast status) f;
             status \<leftarrow> flash_read_status_mid1460c8 c f;
             Some (status, f) }
           else Some (status, f));
        Some (if data = status AND msk then 1 else 0, f) })"

definition flash_lock_mid1460c8 :: "'f chip \<Rightarrow> u32 \<Rightarrow> 'f \<Rightarrow> (u8 \<times> 'f) option" where
  "flash_lock_mid1460c8 c data f = flash_write_status_mid1460c8 c (ucast data) FLASH_WRITE_STATUS_BP_MID1460C8 f"

definition flash_unlock_mid1460c8 :: "'f chip \<Rightarrow> 'f \<Rightarrow> (u8 \<times> 'f) option" where
  "flash_unlock_mid1460c8 c f = flash_write_status_mid1460c8 c FLASH_LOCK_NONE_MID1460C8 FLASH_WRITE_STATUS_BP_MID1460C8 f"

definition flash_get_lock_block_mid1460c8 :: "'f chip \<Rightarrow> 'f \<Rightarrow> u32 option" where
  "flash_get_lock_block_mid1460c8 c f = do { status \<leftarrow> flash_read_status_mid1460c8 c f; Some (ucast (status AND FLASH_WRITE_STATUS_BP_MID1460C8)) }"

section \<open>Chip 0x011460C8\<close>

definition FLASH_LOCK_NONE_MID011460C8 :: u16 where "FLASH_LOCK_NONE_MID011460C8 = 0x0000"

text \<open>The blocks of \<open>mid011460c8_lock_block_e\<close>: the code, the first and the last protected address.\<close>

definition mid011460c8_lock_block_e :: "(u16 \<times> u32 \<times> u32) list" where
  "mid011460c8_lock_block_e =
    [(0x0004, 0x0F0000, 0x0FFFFF),
     (0x0008, 0x0E0000, 0x0FFFFF),
     (0x000c, 0x0C0000, 0x0FFFFF),
     (0x0010, 0x080000, 0x0FFFFF),
     (0x0024, 0x000000, 0x00FFFF),
     (0x0028, 0x000000, 0x01FFFF),
     (0x002c, 0x000000, 0x03FFFF),
     (0x0030, 0x000000, 0x07FFFF),
     (0x0044, 0x0FF000, 0x0FFFFF),
     (0x0048, 0x0FE000, 0x0FFFFF),
     (0x004c, 0x0FC000, 0x0FFFFF),
     (0x0050, 0x0F8000, 0x0FFFFF),
     (0x0064, 0x000000, 0x000FFF),
     (0x0068, 0x000000, 0x001FFF),
     (0x006c, 0x000000, 0x003FFF),
     (0x0070, 0x000000, 0x007FFF),
     (0x4004, 0x000000, 0x0EFFFF),
     (0x4008, 0x000000, 0x0DFFFF),
     (0x400c, 0x000000, 0x0BFFFF),
     (0x4024, 0x010000, 0x0FFFFF),
     (0x4028, 0x020000, 0x0FFFFF),
     (0x402c, 0x040000, 0x0FFFFF),
     (0x4044, 0x000000, 0x0FEFFF),
     (0x4048, 0x000000, 0x0FDFFF),
     (0x404c, 0x000000, 0x0FBFFF),
     (0x4050, 0x000000, 0x0F7FFF),
     (0x4064, 0x001000, 0x0FFFFF),
     (0x4068, 0x002000, 0x0FFFFF),
     (0x406c, 0x004000, 0x0FFFFF),
     (0x4070, 0x008000, 0x0FFFFF),
     (0x007c, 0x000000, 0x0FFFFF)]"

definition FLASH_LOCK_LOW_512K_MID011460C8 :: u16 where "FLASH_LOCK_LOW_512K_MID011460C8 = 0x0030"

definition mid011460c8_otp_block_e :: "u32 list" where
  "mid011460c8_otp_block_e = [0x001000, 0x002000, 0x003000]"

definition mid011460c8_lock_otp_e :: "u16 list" where
  "mid011460c8_lock_otp_e = [0x0800, 0x1000, 0x2000]"

definition FLASH_WRITE_STATUS_BP_MID011460C8 :: u32 where "FLASH_WRITE_STATUS_BP_MID011460C8 = 0x407c"
definition FLASH_WRITE_STATUS_OTP_MID011460C8 :: u32 where "FLASH_WRITE_STATUS_OTP_MID011460C8 = 0x3800"

definition flash_read_status_mid011460c8 :: "'f chip \<Rightarrow> 'f \<Rightarrow> u16 option" where
  "flash_read_status_mid011460c8 c f = do {
     status_low \<leftarrow> flash_read_status c FLASH_READ_STATUS_CMD_LOWBYTE f;
     status_high \<leftarrow> flash_read_status c FLASH_READ_STATUS_CMD_HIGHBYTE f;
     Some (ucast status_low OR push_bit 8 (ucast status_high)) }"

definition flash_write_status_mid011460c8 :: "'f chip \<Rightarrow> u16 \<Rightarrow> u32 \<Rightarrow> 'f \<Rightarrow> (u8 \<times> 'f) option" where
  "flash_write_status_mid011460c8 c data msk f =
     (if ucast data AND NOT msk \<noteq> (0 :: u32) then Some (2, f)
      else do {
        status \<leftarrow> flash_read_status_mid011460c8 c f;
        (status, f) \<leftarrow>
          (if ucast data \<noteq> (ucast status AND msk :: u32) then do {
             let status = (ucast (ucast data OR (ucast status AND NOT msk)) :: u16);
             let f = flash_write_status c FLASH_TYPE_16BIT_STATUS_ONE_CMD status f;
             status \<leftarrow> flash_read_status_mid011460c8 c f;
             Some (status, f) }
           else Some (status, f));
        Some (if ucast data = (ucast status AND msk :: u32) then 1 else 0, f) })"

definition flash_lock_mid011460c8 :: "'f chip \<Rightarrow> u32 \<Rightarrow> 'f \<Rightarrow> (u8 \<times> 'f) option" where
  "flash_lock_mid011460c8 c data f = flash_write_status_mid011460c8 c (ucast data) FLASH_WRITE_STATUS_BP_MID011460C8 f"

definition flash_unlock_mid011460c8 :: "'f chip \<Rightarrow> 'f \<Rightarrow> (u8 \<times> 'f) option" where
  "flash_unlock_mid011460c8 c f = flash_write_status_mid011460c8 c FLASH_LOCK_NONE_MID011460C8 FLASH_WRITE_STATUS_BP_MID011460C8 f"

definition flash_get_lock_block_mid011460c8 :: "'f chip \<Rightarrow> 'f \<Rightarrow> u32 option" where
  "flash_get_lock_block_mid011460c8 c f = do { status \<leftarrow> flash_read_status_mid011460c8 c f; Some (ucast status AND FLASH_WRITE_STATUS_BP_MID011460C8) }"

definition flash_read_otp_mid011460c8 :: "'f chip \<Rightarrow> u32 \<Rightarrow> u32 \<Rightarrow> 'f \<Rightarrow> u8 list" where
  "flash_read_otp_mid011460c8 c addr len f = flash_read_otp c addr len f"

definition flash_write_otp_mid011460c8 :: "'f chip \<Rightarrow> u32 \<Rightarrow> u8 list \<Rightarrow> 'f \<Rightarrow> 'f" where
  "flash_write_otp_mid011460c8 c addr buf f = flash_write_otp c addr buf f"

definition flash_erase_otp_mid011460c8 :: "'f chip \<Rightarrow> u32 \<Rightarrow> 'f \<Rightarrow> 'f" where
  "flash_erase_otp_mid011460c8 c addr f = flash_erase_otp c addr f"

definition flash_lock_otp_mid011460c8 :: "'f chip \<Rightarrow> u16 \<Rightarrow> 'f \<Rightarrow> 'f option" where
  "flash_lock_otp_mid011460c8 c data f = do { (r, f) \<leftarrow> flash_write_status_mid011460c8 c data FLASH_WRITE_STATUS_OTP_MID011460C8 f; Some f }"

section \<open>The table of the chips\<close>

record 'f flash_hal_handler =
  mid :: u32
  get_lock :: "'f chip \<Rightarrow> 'f \<Rightarrow> u32 option"
  unlock :: "'f chip \<Rightarrow> 'f \<Rightarrow> (u8 \<times> 'f) option"
  lock_func :: "'f chip \<Rightarrow> u32 \<Rightarrow> 'f \<Rightarrow> (u8 \<times> 'f) option"
  lock_size :: u32

definition flash_list :: "'f flash_hal_handler list" where
  "flash_list =
    [\<lparr>mid = 0x1060C8, get_lock = flash_get_lock_block_mid1060c8, unlock = flash_unlock_mid1060c8, lock_func = flash_lock_mid1060c8, lock_size = ucast FLASH_LOCK_LOW_32K_MID1060C8\<rparr>,
     \<lparr>mid = 0x1360C8, get_lock = flash_get_lock_block_mid1360c8, unlock = flash_unlock_mid1360c8, lock_func = flash_lock_mid1360c8, lock_size = ucast FLASH_LOCK_LOW_256K_MID1360C8\<rparr>,
     \<lparr>mid = 0x13325E, get_lock = flash_get_lock_block_mid13325e, unlock = flash_unlock_mid13325e, lock_func = flash_lock_mid13325e, lock_size = ucast FLASH_LOCK_LOW_256K_MID13325E\<rparr>,
     \<lparr>mid = 0x0113325E, get_lock = flash_get_lock_block_mid0113325e, unlock = flash_unlock_mid0113325e, lock_func = flash_lock_mid0113325e, lock_size = ucast FLASH_LOCK_LOW_256K_MID0113325E\<rparr>,
     \<lparr>mid = 0x134051, get_lock = flash_get_lock_block_mid134051, unlock = flash_unlock_mid134051, lock_func = flash_lock_mid134051, lock_size = ucast FLASH_LOCK_LOW_256K_MID134051\<rparr>,
     \<lparr>mid = 0x136085, get_lock = flash_get_lock_block_mid136085, unlock = flash_unlock_mid136085, lock_func = flash_lock_mid136085, lock_size = ucast FLASH_LOCK_LOW_256K_MID136085\<rparr>,
     \<lparr>mid = 0x1360EB, get_lock = flash_get_lock_block_mid1360eb, unlock = flash_unlock_mid1360eb, lock_func = flash_lock_mid1360eb, lock_size = ucast FLASH_LOCK_LOW_256K_MID1360EB\<rparr>,
     \<lparr>mid = 0x14325E, get_lock = flash_get_lock_block_mid14325e, unlock = flash_unlock_mid14325e, lock_func = flash_lock_mid14325e, lock_size = ucast FLASH_LOCK_LOW_768K_MID14325E\<rparr>,
     \<lparr>mid = 0x0114325E, get_lock = flash_get_lock_block_mid0114325e, unlock = flash_unlock_mid0114325e, lock_func = flash_lock_mid0114325e, lock_size = ucast FLASH_LOCK_LOW_768K_CMP1_MID0114325E\<rparr>,
     \<lparr>mid = 0x1460C8, get_lock = flash_get_lock_block_mid1460c8, unlock = flash_unlock_mid1460c8, lock_func = flash_lock_mid1460c8, lock_size = ucast FLASH_LOCK_LOW_768K_MID1460C8\<rparr>,
     \<lparr>mid = 0x011460C8, get_lock = flash_get_lock_block_mid011460c8, unlock = flash_unlock_mid011460c8, lock_func = flash_lock_mid011460c8, lock_size = ucast FLASH_LOCK_LOW_512K_MID011460C8\<rparr>]"

definition no_uid :: "u8 list" where
  "no_uid = [0x51, 0x01, 0x51, 0x01, 0x51, 0x01, 0x51, 0x01, 0x51, 0x01, 0x51, 0x01, 0x51, 0x01, 0x51, 0x01]"

text \<open>The result, \<open>flash_mid\<close> and \<open>flash_uid\<close>; an unknown chip leaves \<open>flash_uid\<close> as it was.\<close>

fun count_equal :: "u8 list \<Rightarrow> u8 list \<Rightarrow> nat" where
  "count_equal (x # xs) (y # ys) = (if x = y then 1 else 0) + count_equal xs ys"
| "count_equal _ _ = 0"

definition flash_read_mid_uid_with_check :: "'f chip \<Rightarrow> u8 list \<Rightarrow> 'f \<Rightarrow> (int \<times> u32 \<times> u8 list) option" where
  "flash_read_mid_uid_with_check c flash_uid f = do {
     flash_mid \<leftarrow> flash_read_mid c f;
     if flash_mid \<in> mid ` set (flash_list :: 'f flash_hal_handler list) then do {
       uid \<leftarrow> flash_read_uid c FLASH_READ_UID_CMD_GD_PUYA_ZB_TH f;
       flash_uid \<leftarrow> put_bytes flash_uid 0 uid;
       u \<leftarrow> get_bytes flash_uid 0 16;
       Some (if count_equal u no_uid = 16 then 0 else 1, flash_mid, flash_uid) }
     else Some (0, flash_mid, flash_uid) }"

end
