(* ===== verification/Flash_Protection.thy ===== *)
theory Flash_Protection
  imports Flash_Chips
begin

text \<open>
  What the chips of theory Flash_Chips do: a write of the status register changes the bits of its mask
  and no others, a block that is locked is the one that is read back, and the codes of the blocks are
  unambiguous.  The chip is hardware; that its status register can be read and written is the
  predicate \<open>status_chip\<close>, with the register as a function of the state and the mask of its writable bits.
\<close>

section \<open>The status register\<close>

definition status_chip :: "'f chip \<Rightarrow> ('f \<Rightarrow> u16) \<Rightarrow> u16 \<Rightarrow> bool" where
  "status_chip c reg W \<longleftrightarrow>
     (\<forall>f. flash_read_status c FLASH_READ_STATUS_CMD_LOWBYTE f = Some (ucast (reg f))
       \<and> flash_read_status c FLASH_READ_STATUS_CMD_HIGHBYTE f = Some (ucast (drop_bit 8 (reg f))))
     \<and> (\<forall>f d. reg (flash_write_status c FLASH_TYPE_16BIT_STATUS_ONE_CMD d f) = (reg f AND NOT W) OR (d AND W))
     \<and> (\<forall>f d. reg (flash_write_status c FLASH_TYPE_8BIT_STATUS d f) = (reg f AND NOT (W AND 0xff)) OR (d AND (W AND 0xff)))"

text \<open>The two forms that the code of the chips has.\<close>

definition masked_write8 :: "('f \<Rightarrow> u8 option) \<Rightarrow> (u8 \<Rightarrow> 'f \<Rightarrow> 'f) \<Rightarrow> u8 \<Rightarrow> u8 \<Rightarrow> 'f \<Rightarrow> (u8 \<times> 'f) option" where
  "masked_write8 rd wr data msk f =
     (if data AND NOT msk \<noteq> 0 then Some (2, f)
      else do {
        status \<leftarrow> rd f;
        (status, f) \<leftarrow>
          (if data \<noteq> status AND msk then do {
             let f = wr (data OR (status AND NOT msk)) f;
             status \<leftarrow> rd f;
             Some (status, f) }
           else Some (status, f));
        Some (if data = status AND msk then 1 else 0, f) })"

definition masked_write16 :: "('f \<Rightarrow> u16 option) \<Rightarrow> (u16 \<Rightarrow> 'f \<Rightarrow> 'f) \<Rightarrow> u32 \<Rightarrow> u32 \<Rightarrow> 'f \<Rightarrow> (u8 \<times> 'f) option" where
  "masked_write16 rd wr data msk f =
     (if data AND NOT msk \<noteq> 0 then Some (2, f)
      else do {
        status \<leftarrow> rd f;
        (status, f) \<leftarrow>
          (if data \<noteq> ucast status AND msk then do {
             let f = wr (ucast (data OR (ucast status AND NOT msk))) f;
             status \<leftarrow> rd f;
             Some (status, f) }
           else Some (status, f));
        Some (if data = ucast status AND msk then 1 else 0, f) })"

lemma masked_write8_run:
  assumes rd: "\<And>f. rd f = Some (reg f)" and wr: "\<And>d f. reg (wr d f) = (reg f AND NOT W) OR (d AND W)"
    and data: "data AND NOT msk = 0" and msk: "msk AND NOT W = 0"
  shows "\<exists>f'. masked_write8 rd wr data msk f = Some (1, f') \<and> reg f' = (reg f AND NOT msk) OR data
    \<and> (f' = f \<or> (\<exists>s. f' = wr s f))"
proof (cases "data = reg f AND msk")
  case True
  then have "reg f = (reg f AND NOT msk) OR data"
    by (auto intro!: bit_word_eqI simp: bit_simps)
  then show ?thesis
    using True data by (intro exI [where x = f]) (simp add: masked_write8_def rd)
next
  case False
  have dm: "bit data n \<Longrightarrow> bit msk n" and mw: "bit msk n \<Longrightarrow> bit W n" if "n < 8" for n
    using arg_cong [OF data, of "\<lambda>x. bit x n"] arg_cong [OF msk, of "\<lambda>x. bit x n"] that by (auto simp: bit_simps)
  let ?f = "wr (data OR (reg f AND NOT msk)) f"
  have r: "reg ?f = (reg f AND NOT msk) OR data"
    unfolding wr using dm mw by (auto intro!: bit_word_eqI simp: bit_simps)
  then have "data = reg ?f AND msk"
    using dm by (auto intro!: bit_word_eqI simp: bit_simps)
  then show ?thesis
    using False data r by (intro exI [where x = ?f]) (auto simp: masked_write8_def rd Let_def)
qed

lemma masked_write16_run:
  assumes rd: "\<And>f. rd f = Some (reg f)" and wr: "\<And>d f. reg (wr d f) = (reg f AND NOT W) OR (d AND W)"
    and data: "data AND NOT msk = 0" and msk: "msk AND NOT (ucast W) = 0"
  shows "\<exists>f'. masked_write16 rd wr data msk f = Some (1, f') \<and> reg f' = (reg f AND NOT (ucast msk)) OR ucast data
    \<and> (f' = f \<or> (\<exists>s. f' = wr s f))"
proof (cases "data = ucast (reg f) AND msk")
  case True
  then have "reg f = (reg f AND NOT (ucast msk)) OR ucast data"
    by (auto intro!: bit_word_eqI simp: bit_simps)
  then show ?thesis
    using True data by (intro exI [where x = f]) (simp add: masked_write16_def rd)
next
  case False
  have dm: "bit data n \<Longrightarrow> bit msk n" and mw: "bit msk n \<Longrightarrow> n < 16 \<and> bit W n" if "n < 32" for n
    using arg_cong [OF data, of "\<lambda>x. bit x n"] arg_cong [OF msk, of "\<lambda>x. bit x n"] that by (auto simp: bit_simps dest: bit_imp_le_length)
  let ?f = "wr (ucast (data OR (ucast (reg f) AND NOT msk))) f"
  have r: "reg ?f = (reg f AND NOT (ucast msk)) OR ucast data"
    unfolding wr using dm mw by (auto intro!: bit_word_eqI simp: bit_simps)
  then have "data = ucast (reg ?f) AND msk"
    using dm mw by (auto intro!: bit_word_eqI simp: bit_simps)
  then show ?thesis
    using False data r by (intro exI [where x = ?f]) (auto simp: masked_write16_def rd Let_def)
qed

section \<open>The chips in these forms\<close>

named_theorems chip_simps

lemma write_status_1060c8 [chip_simps]:
  "flash_write_status_mid1060c8 c d m f =
    masked_write8 (flash_read_status_mid1060c8 c) (\<lambda>s. flash_write_status c FLASH_TYPE_8BIT_STATUS (ucast s)) d m f"
  unfolding flash_write_status_mid1060c8_def masked_write8_def Let_def by (rule refl)

lemma write_status_1360c8 [chip_simps]:
  "flash_write_status_mid1360c8 c d m f =
    masked_write8 (flash_read_status_mid1360c8 c) (\<lambda>s. flash_write_status c FLASH_TYPE_8BIT_STATUS (ucast s)) d m f"
  unfolding flash_write_status_mid1360c8_def masked_write8_def Let_def by (rule refl)

lemma write_status_13325e [chip_simps]:
  "flash_write_status_mid13325e c d m f =
    masked_write8 (flash_read_status_mid13325e c) (\<lambda>s. flash_write_status c FLASH_TYPE_8BIT_STATUS (ucast s)) d m f"
  unfolding flash_write_status_mid13325e_def masked_write8_def Let_def by (rule refl)

lemma write_status_0113325e [chip_simps]:
  "flash_write_status_mid0113325e c d m f =
    masked_write16 (flash_read_status_mid0113325e c) (flash_write_status c FLASH_TYPE_16BIT_STATUS_ONE_CMD) (ucast d) m f"
  unfolding flash_write_status_mid0113325e_def masked_write16_def Let_def by (rule refl)

lemma write_status_134051 [chip_simps]:
  "flash_write_status_mid134051 c d m f =
    masked_write8 (flash_read_status_mid134051 c) (\<lambda>s. flash_write_status c FLASH_TYPE_8BIT_STATUS (ucast s)) d m f"
  unfolding flash_write_status_mid134051_def masked_write8_def Let_def by (rule refl)

lemma write_status_136085 [chip_simps]:
  "flash_write_status_mid136085 c d m f =
    masked_write16 (flash_read_status_mid136085 c) (flash_write_status c FLASH_TYPE_16BIT_STATUS_ONE_CMD) (ucast d) m f"
  unfolding flash_write_status_mid136085_def masked_write16_def Let_def by (rule refl)

lemma write_status_1360eb [chip_simps]:
  "flash_write_status_mid1360eb c d m f =
    masked_write16 (flash_read_status_mid1360eb c) (flash_write_status c FLASH_TYPE_16BIT_STATUS_ONE_CMD) (ucast d) m f"
  unfolding flash_write_status_mid1360eb_def masked_write16_def Let_def by (rule refl)

lemma write_status_14325e [chip_simps]:
  "flash_write_status_mid14325e c d m f =
    masked_write8 (flash_read_status_mid14325e c) (\<lambda>s. flash_write_status c FLASH_TYPE_8BIT_STATUS (ucast s)) d m f"
  unfolding flash_write_status_mid14325e_def masked_write8_def Let_def by (rule refl)

lemma write_status_0114325e [chip_simps]:
  "flash_write_status_mid0114325e c d m f =
    masked_write16 (flash_read_status_mid0114325e c) (flash_write_status c FLASH_TYPE_16BIT_STATUS_ONE_CMD) (d) m f"
  unfolding flash_write_status_mid0114325e_def masked_write16_def Let_def by (rule refl)

lemma write_status_1460c8 [chip_simps]:
  "flash_write_status_mid1460c8 c d m f =
    masked_write8 (flash_read_status_mid1460c8 c) (\<lambda>s. flash_write_status c FLASH_TYPE_8BIT_STATUS (ucast s)) d m f"
  unfolding flash_write_status_mid1460c8_def masked_write8_def Let_def by (rule refl)

lemma write_status_011460c8 [chip_simps]:
  "flash_write_status_mid011460c8 c d m f =
    masked_write16 (flash_read_status_mid011460c8 c) (flash_write_status c FLASH_TYPE_16BIT_STATUS_ONE_CMD) (ucast d) m f"
  unfolding flash_write_status_mid011460c8_def masked_write16_def Let_def by (rule refl)

text \<open>The protection bits of a chip and its blocks, by its identification.\<close>

definition bp_mask :: "u32 \<Rightarrow> u32" where
  "bp_mask ident =
    (if ident = 0x1060c8 then ucast FLASH_WRITE_STATUS_BP_MID1060C8
     else if ident = 0x1360c8 then ucast FLASH_WRITE_STATUS_BP_MID1360C8
     else if ident = 0x13325e then ucast FLASH_WRITE_STATUS_BP_MID13325E
     else if ident = 0x0113325e then FLASH_WRITE_STATUS_BP_MID0113325E
     else if ident = 0x134051 then ucast FLASH_WRITE_STATUS_BP_MID134051
     else if ident = 0x136085 then FLASH_WRITE_STATUS_BP_MID136085
     else if ident = 0x1360eb then FLASH_WRITE_STATUS_BP_MID1360EB
     else if ident = 0x14325e then ucast FLASH_WRITE_STATUS_BP_MID14325E
     else if ident = 0x0114325e then FLASH_WRITE_STATUS_BP_MID0114325E
     else if ident = 0x1460c8 then ucast FLASH_WRITE_STATUS_BP_MID1460C8
     else if ident = 0x011460c8 then FLASH_WRITE_STATUS_BP_MID011460C8
     else 0)"

definition blocks_of :: "u32 \<Rightarrow> (u32 \<times> u32 \<times> u32) list" where
  "blocks_of ident =
    (if ident = 0x1060c8 then map (\<lambda>(b, x, y). (ucast b, x, y)) mid1060c8_lock_block_e
     else if ident = 0x1360c8 then map (\<lambda>(b, x, y). (ucast b, x, y)) mid1360c8_lock_block_e
     else if ident = 0x13325e then map (\<lambda>(b, x, y). (ucast b, x, y)) mid13325e_lock_block_e
     else if ident = 0x0113325e then map (\<lambda>(b, x, y). (ucast b, x, y)) mid0113325e_lock_block_e
     else if ident = 0x134051 then map (\<lambda>(b, x, y). (ucast b, x, y)) mid134051_lock_block_e
     else if ident = 0x136085 then map (\<lambda>(b, x, y). (ucast b, x, y)) mid136085_lock_block_e
     else if ident = 0x1360eb then map (\<lambda>(b, x, y). (ucast b, x, y)) mid1360eb_lock_block_e
     else if ident = 0x14325e then map (\<lambda>(b, x, y). (ucast b, x, y)) mid14325e_lock_block_e
     else if ident = 0x0114325e then map (\<lambda>(b, x, y). (ucast b, x, y)) mid0114325e_lock_block_e
     else if ident = 0x1460c8 then map (\<lambda>(b, x, y). (ucast b, x, y)) mid1460c8_lock_block_e
     else if ident = 0x011460c8 then map (\<lambda>(b, x, y). (ucast b, x, y)) mid011460c8_lock_block_e
     else [])"

lemma wide_status:
  assumes "status_chip c reg W"
  shows "do { lo \<leftarrow> flash_read_status c FLASH_READ_STATUS_CMD_LOWBYTE f; hi \<leftarrow> flash_read_status c FLASH_READ_STATUS_CMD_HIGHBYTE f;
      Some (ucast lo OR push_bit 8 (ucast hi)) } = Some (reg f)"
  using assms by (auto simp: status_chip_def intro!: bit_word_eqI simp: bit_simps)

lemma status_low: "status_chip c reg W \<Longrightarrow> flash_read_status c FLASH_READ_STATUS_CMD_LOWBYTE f = Some (ucast (reg f))"
  by (simp add: status_chip_def)

text \<open>What a handler of the table promises.\<close>

definition protects :: "'f flash_hal_handler \<Rightarrow> 'f chip \<Rightarrow> ('f \<Rightarrow> u16) \<Rightarrow> u32 \<Rightarrow> bool" where
  "protects h c reg BP \<longleftrightarrow>
     (\<forall>f. get_lock h c f = Some (ucast (reg f) AND BP))
     \<and> (\<forall>f b. b AND NOT BP = 0 \<longrightarrow> (\<exists>f'. lock_func h c b f = Some (1, f') \<and> reg f' = (reg f AND NOT (ucast BP)) OR ucast b))
     \<and> (\<forall>f. \<exists>f'. unlock h c f = Some (1, f') \<and> reg f' = reg f AND NOT (ucast BP))"

lemma protects_wide:
  assumes c: "status_chip c reg W" and BP: "BP AND NOT (ucast W) = 0"
    and rd: "\<And>f. rd f = Some (reg f)"
    and l: "\<And>b f. b AND NOT BP = 0 \<Longrightarrow> lock_func h c b f = masked_write16 rd (flash_write_status c FLASH_TYPE_16BIT_STATUS_ONE_CMD) b BP f"
    and u: "\<And>f. unlock h c f = masked_write16 rd (flash_write_status c FLASH_TYPE_16BIT_STATUS_ONE_CMD) 0 BP f"
    and g: "\<And>f. get_lock h c f = Some (ucast (reg f) AND BP)"
  shows "protects h c reg BP"
proof -
  have wr: "reg (flash_write_status c FLASH_TYPE_16BIT_STATUS_ONE_CMD d f) = (reg f AND NOT W) OR (d AND W)" for d f
    using c by (simp add: status_chip_def)
  note run = masked_write16_run [of rd reg "flash_write_status c FLASH_TYPE_16BIT_STATUS_ONE_CMD", OF rd wr _ BP]
  have "\<exists>f'. lock_func h c b f = Some (1, f') \<and> reg f' = (reg f AND NOT (ucast BP)) OR ucast b"
    if "b AND NOT BP = 0" for b f
    using run [OF that, of f] unfolding l [OF that] by blast
  moreover have "\<exists>f'. unlock h c f = Some (1, f') \<and> reg f' = reg f AND NOT (ucast BP)" for f
    using run [of 0 f] unfolding u by auto
  ultimately show ?thesis
    unfolding protects_def using g by blast
qed

lemma protects_narrow:
  assumes c: "status_chip c reg W" and BP: "BP AND NOT (ucast W) = (0 :: u8)"
    and l: "\<And>b f. lock_func h c b f = masked_write8 (flash_read_status c FLASH_READ_STATUS_CMD_LOWBYTE)
      (\<lambda>s. flash_write_status c FLASH_TYPE_8BIT_STATUS (ucast s)) (ucast b) BP f"
    and u: "\<And>f. unlock h c f = masked_write8 (flash_read_status c FLASH_READ_STATUS_CMD_LOWBYTE)
      (\<lambda>s. flash_write_status c FLASH_TYPE_8BIT_STATUS (ucast s)) 0 BP f"
    and g: "\<And>f. get_lock h c f = Some (ucast (ucast (reg f) AND BP :: u8))"
  shows "protects h c reg (ucast BP)"
proof -
  let ?rd = "flash_read_status c FLASH_READ_STATUS_CMD_LOWBYTE"
  let ?wr = "\<lambda>s :: u8. flash_write_status c FLASH_TYPE_8BIT_STATUS (ucast s)"
  have rd: "?rd f = Some (ucast (reg f))" for f
    using c by (simp add: status_chip_def)
  have r8: "reg (flash_write_status c FLASH_TYPE_8BIT_STATUS d f) = (reg f AND NOT (W AND 0xff)) OR (d AND (W AND 0xff))" for d f
    using c unfolding status_chip_def by blast
  have wr: "(ucast (reg (?wr d f)) :: u8) = (ucast (reg f) AND NOT (ucast W)) OR (d AND ucast W)" for d f
    unfolding r8 by (auto intro!: bit_word_eqI simp: bit_simps and_low_mask)
  have hi: "bit (reg (?wr d f)) n = bit (reg f) n" if "8 \<le> n" for d f n
    unfolding r8 using that by (auto simp: bit_simps and_low_mask dest: bit_imp_le_length)
  have bw: "bit BP n \<Longrightarrow> bit W n" for n
    using arg_cong [OF BP, of "\<lambda>x. bit x n"] by (auto simp: bit_simps dest: bit_imp_le_length)
  have run: "\<exists>f'. masked_write8 ?rd ?wr d BP f = Some (1, f') \<and> reg f' = (reg f AND NOT (ucast BP)) OR ucast d"
    if d: "d AND NOT BP = 0" for d f
  proof -
    have db: "bit d n \<Longrightarrow> bit BP n" for n
      using arg_cong [OF d, of "\<lambda>x. bit x n"] by (auto simp: bit_simps dest: bit_imp_le_length)
    obtain f' where f': "masked_write8 ?rd ?wr d BP f = Some (1, f')"
      "(ucast (reg f') :: u8) = (ucast (reg f) AND NOT BP) OR d" "f' = f \<or> (\<exists>s. f' = ?wr s f)"
      using masked_write8_run [of ?rd "\<lambda>f. ucast (reg f)" ?wr "ucast W" d BP f, OF rd wr d BP] by blast
    have "bit (reg f') n = bit ((reg f AND NOT (ucast BP)) OR ucast d) n" if "n < 16" for n
    proof (cases "n < 8")
      case True
      then show ?thesis
        using arg_cong [OF f'(2), of "\<lambda>x. bit x n"] that by (auto simp: bit_simps)
    next
      case False
      then show ?thesis
        using f'(3) hi [of n] that by (auto simp: bit_simps dest: bit_imp_le_length)
    qed
    then have "reg f' = (reg f AND NOT (ucast BP)) OR ucast d"
      by (intro bit_word_eqI) simp
    then show ?thesis
      using f'(1) by blast
  qed
  have b8: "bit BP n \<Longrightarrow> n < 8" for n
    using bit_imp_le_length [of BP n] by simp
  have g': "get_lock h c f = Some (ucast (reg f) AND ucast BP)" for f
    unfolding g by (auto intro!: bit_word_eqI simp: bit_simps dest: b8)
  have lock: "\<exists>f'. lock_func h c b f = Some (1, f') \<and> reg f' = (reg f AND NOT (ucast (ucast BP :: u32))) OR ucast b"
    if b: "b AND NOT (ucast BP) = 0" for b f
  proof -
    have bb: "bit b n \<Longrightarrow> n < 8 \<and> bit BP n" for n
      using arg_cong [OF b, of "\<lambda>x. bit x n"] by (auto simp: bit_simps dest: bit_imp_le_length)
    then have "ucast b AND NOT BP = 0"
      by (auto intro!: bit_word_eqI simp: bit_simps)
    moreover have "(ucast (ucast b :: u8) :: u16) = ucast b" "(ucast (ucast BP :: u32) :: u16) = ucast BP"
      using bb by (auto intro!: bit_word_eqI simp: bit_simps)
    ultimately show ?thesis
      using run [of "ucast b" f] unfolding l by simp
  qed
  have unl: "\<exists>f'. unlock h c f = Some (1, f') \<and> reg f' = reg f AND NOT (ucast (ucast BP :: u32))" for f
  proof -
    have "(ucast (ucast BP :: u32) :: u16) = ucast BP"
      by (auto intro!: bit_word_eqI simp: bit_simps)
    then show ?thesis
      using run [of 0 f] unfolding u by simp
  qed
  show ?thesis
    unfolding protects_def using g' lock unl by blast
qed

text \<open>Each handler, with the mask of its chip.\<close>

lemma low16: "b AND NOT BP = 0 \<Longrightarrow> BP AND NOT 0xffff = 0 \<Longrightarrow> ucast (ucast b :: u16) = b" for b BP :: u32
proof -
  assume a: "b AND NOT BP = 0" "BP AND NOT 0xffff = 0"
  have m: "(0xffff :: u32) = mask 16"
    by (simp add: mask_eq_exp_minus_1)
  have "bit b n \<Longrightarrow> n < 16" for n
    using arg_cong [OF a(1), of "\<lambda>x. bit x n"] arg_cong [OF a(2), of "\<lambda>x. bit x n"] unfolding m
    by (auto simp: bit_simps dest: bit_imp_le_length)
  then show ?thesis
    by (auto intro!: bit_word_eqI simp: bit_simps)
qed

lemma narrow_mask: "(ucast BP :: u32) AND NOT (ucast W) = 0 \<Longrightarrow> BP AND NOT (ucast W) = 0" for BP :: u8 and W :: u16
proof -
  assume a: "(ucast BP :: u32) AND NOT (ucast W) = 0"
  have "bit BP n \<Longrightarrow> bit W n" for n
    using arg_cong [OF a, of "\<lambda>x. bit x n"] by (auto simp: bit_simps dest: bit_imp_le_length)
  then show ?thesis
    by (auto intro!: bit_word_eqI simp: bit_simps)
qed

lemma protects_1060c8:
  assumes c: "status_chip c reg W" and h: "get_lock h = flash_get_lock_block_mid1060c8" "unlock h = flash_unlock_mid1060c8" "lock_func h = flash_lock_mid1060c8"
    and W: "(ucast FLASH_WRITE_STATUS_BP_MID1060C8 :: u32) AND NOT (ucast W) = 0"
  shows "protects h c reg (ucast FLASH_WRITE_STATUS_BP_MID1060C8)"
proof (rule protects_narrow [OF c narrow_mask [OF W]])
  have rd: "flash_read_status_mid1060c8 c = flash_read_status c FLASH_READ_STATUS_CMD_LOWBYTE"
    by (rule ext) (simp add: flash_read_status_mid1060c8_def)
  show "get_lock h c f = Some (ucast (ucast (reg f) AND FLASH_WRITE_STATUS_BP_MID1060C8 :: u8))" for f
    by (simp add: h flash_get_lock_block_mid1060c8_def rd status_low [OF c])
qed (simp_all add: h flash_lock_mid1060c8_def flash_unlock_mid1060c8_def FLASH_LOCK_NONE_MID1060C8_def chip_simps
    flash_read_status_mid1060c8_def [abs_def])

lemma protects_1360c8:
  assumes c: "status_chip c reg W" and h: "get_lock h = flash_get_lock_block_mid1360c8" "unlock h = flash_unlock_mid1360c8" "lock_func h = flash_lock_mid1360c8"
    and W: "(ucast FLASH_WRITE_STATUS_BP_MID1360C8 :: u32) AND NOT (ucast W) = 0"
  shows "protects h c reg (ucast FLASH_WRITE_STATUS_BP_MID1360C8)"
proof (rule protects_narrow [OF c narrow_mask [OF W]])
  have rd: "flash_read_status_mid1360c8 c = flash_read_status c FLASH_READ_STATUS_CMD_LOWBYTE"
    by (rule ext) (simp add: flash_read_status_mid1360c8_def)
  show "get_lock h c f = Some (ucast (ucast (reg f) AND FLASH_WRITE_STATUS_BP_MID1360C8 :: u8))" for f
    by (simp add: h flash_get_lock_block_mid1360c8_def rd status_low [OF c])
qed (simp_all add: h flash_lock_mid1360c8_def flash_unlock_mid1360c8_def FLASH_LOCK_NONE_MID1360C8_def chip_simps
    flash_read_status_mid1360c8_def [abs_def])

lemma protects_13325e:
  assumes c: "status_chip c reg W" and h: "get_lock h = flash_get_lock_block_mid13325e" "unlock h = flash_unlock_mid13325e" "lock_func h = flash_lock_mid13325e"
    and W: "(ucast FLASH_WRITE_STATUS_BP_MID13325E :: u32) AND NOT (ucast W) = 0"
  shows "protects h c reg (ucast FLASH_WRITE_STATUS_BP_MID13325E)"
proof (rule protects_narrow [OF c narrow_mask [OF W]])
  have rd: "flash_read_status_mid13325e c = flash_read_status c FLASH_READ_STATUS_CMD_LOWBYTE"
    by (rule ext) (simp add: flash_read_status_mid13325e_def)
  show "get_lock h c f = Some (ucast (ucast (reg f) AND FLASH_WRITE_STATUS_BP_MID13325E :: u8))" for f
    by (simp add: h flash_get_lock_block_mid13325e_def rd status_low [OF c])
qed (simp_all add: h flash_lock_mid13325e_def flash_unlock_mid13325e_def FLASH_LOCK_NONE_MID13325E_def chip_simps
    flash_read_status_mid13325e_def [abs_def])

lemma protects_0113325e:
  assumes c: "status_chip c reg W" and h: "get_lock h = flash_get_lock_block_mid0113325e" "unlock h = flash_unlock_mid0113325e" "lock_func h = flash_lock_mid0113325e"
    and W: "FLASH_WRITE_STATUS_BP_MID0113325E AND NOT (ucast W) = 0"
  shows "protects h c reg FLASH_WRITE_STATUS_BP_MID0113325E"
proof (rule protects_wide [OF c W])
  show rd: "flash_read_status_mid0113325e c f = Some (reg f)" for f
    using wide_status [OF c] by (simp add: flash_read_status_mid0113325e_def)
  have m: "FLASH_WRITE_STATUS_BP_MID0113325E AND NOT 0xffff = 0"
    by (simp add: FLASH_WRITE_STATUS_BP_MID0113325E_def)
  show "lock_func h c b f = masked_write16 (flash_read_status_mid0113325e c) (flash_write_status c FLASH_TYPE_16BIT_STATUS_ONE_CMD) b FLASH_WRITE_STATUS_BP_MID0113325E f"
    if "b AND NOT FLASH_WRITE_STATUS_BP_MID0113325E = 0" for b f
    using low16 [OF that m] by (simp add: h flash_lock_mid0113325e_def chip_simps)
  show "unlock h c f = masked_write16 (flash_read_status_mid0113325e c) (flash_write_status c FLASH_TYPE_16BIT_STATUS_ONE_CMD) 0 FLASH_WRITE_STATUS_BP_MID0113325E f" for f
    by (simp add: h flash_unlock_mid0113325e_def FLASH_LOCK_NONE_MID0113325E_def chip_simps)
qed (simp add: h flash_get_lock_block_mid0113325e_def flash_read_status_mid0113325e_def wide_status [OF c])

lemma protects_134051:
  assumes c: "status_chip c reg W" and h: "get_lock h = flash_get_lock_block_mid134051" "unlock h = flash_unlock_mid134051" "lock_func h = flash_lock_mid134051"
    and W: "(ucast FLASH_WRITE_STATUS_BP_MID134051 :: u32) AND NOT (ucast W) = 0"
  shows "protects h c reg (ucast FLASH_WRITE_STATUS_BP_MID134051)"
proof (rule protects_narrow [OF c narrow_mask [OF W]])
  have rd: "flash_read_status_mid134051 c = flash_read_status c FLASH_READ_STATUS_CMD_LOWBYTE"
    by (rule ext) (simp add: flash_read_status_mid134051_def)
  show "get_lock h c f = Some (ucast (ucast (reg f) AND FLASH_WRITE_STATUS_BP_MID134051 :: u8))" for f
    by (simp add: h flash_get_lock_block_mid134051_def rd status_low [OF c])
qed (simp_all add: h flash_lock_mid134051_def flash_unlock_mid134051_def FLASH_LOCK_NONE_MID134051_def chip_simps
    flash_read_status_mid134051_def [abs_def])

lemma protects_136085:
  assumes c: "status_chip c reg W" and h: "get_lock h = flash_get_lock_block_mid136085" "unlock h = flash_unlock_mid136085" "lock_func h = flash_lock_mid136085"
    and W: "FLASH_WRITE_STATUS_BP_MID136085 AND NOT (ucast W) = 0"
  shows "protects h c reg FLASH_WRITE_STATUS_BP_MID136085"
proof (rule protects_wide [OF c W])
  show rd: "flash_read_status_mid136085 c f = Some (reg f)" for f
    using wide_status [OF c] by (simp add: flash_read_status_mid136085_def)
  have m: "FLASH_WRITE_STATUS_BP_MID136085 AND NOT 0xffff = 0"
    by (simp add: FLASH_WRITE_STATUS_BP_MID136085_def)
  show "lock_func h c b f = masked_write16 (flash_read_status_mid136085 c) (flash_write_status c FLASH_TYPE_16BIT_STATUS_ONE_CMD) b FLASH_WRITE_STATUS_BP_MID136085 f"
    if "b AND NOT FLASH_WRITE_STATUS_BP_MID136085 = 0" for b f
    using low16 [OF that m] by (simp add: h flash_lock_mid136085_def chip_simps)
  show "unlock h c f = masked_write16 (flash_read_status_mid136085 c) (flash_write_status c FLASH_TYPE_16BIT_STATUS_ONE_CMD) 0 FLASH_WRITE_STATUS_BP_MID136085 f" for f
    by (simp add: h flash_unlock_mid136085_def FLASH_LOCK_NONE_MID136085_def chip_simps)
qed (simp add: h flash_get_lock_block_mid136085_def flash_read_status_mid136085_def wide_status [OF c])

lemma protects_1360eb:
  assumes c: "status_chip c reg W" and h: "get_lock h = flash_get_lock_block_mid1360eb" "unlock h = flash_unlock_mid1360eb" "lock_func h = flash_lock_mid1360eb"
    and W: "FLASH_WRITE_STATUS_BP_MID1360EB AND NOT (ucast W) = 0"
  shows "protects h c reg FLASH_WRITE_STATUS_BP_MID1360EB"
proof (rule protects_wide [OF c W])
  show rd: "flash_read_status_mid1360eb c f = Some (reg f)" for f
    using wide_status [OF c] by (simp add: flash_read_status_mid1360eb_def)
  have m: "FLASH_WRITE_STATUS_BP_MID1360EB AND NOT 0xffff = 0"
    by (simp add: FLASH_WRITE_STATUS_BP_MID1360EB_def)
  show "lock_func h c b f = masked_write16 (flash_read_status_mid1360eb c) (flash_write_status c FLASH_TYPE_16BIT_STATUS_ONE_CMD) b FLASH_WRITE_STATUS_BP_MID1360EB f"
    if "b AND NOT FLASH_WRITE_STATUS_BP_MID1360EB = 0" for b f
    using low16 [OF that m] by (simp add: h flash_lock_mid1360eb_def chip_simps)
  show "unlock h c f = masked_write16 (flash_read_status_mid1360eb c) (flash_write_status c FLASH_TYPE_16BIT_STATUS_ONE_CMD) 0 FLASH_WRITE_STATUS_BP_MID1360EB f" for f
    by (simp add: h flash_unlock_mid1360eb_def FLASH_LOCK_NONE_MID1360EB_def chip_simps)
qed (simp add: h flash_get_lock_block_mid1360eb_def flash_read_status_mid1360eb_def wide_status [OF c])

lemma protects_14325e:
  assumes c: "status_chip c reg W" and h: "get_lock h = flash_get_lock_block_mid14325e" "unlock h = flash_unlock_mid14325e" "lock_func h = flash_lock_mid14325e"
    and W: "(ucast FLASH_WRITE_STATUS_BP_MID14325E :: u32) AND NOT (ucast W) = 0"
  shows "protects h c reg (ucast FLASH_WRITE_STATUS_BP_MID14325E)"
proof (rule protects_narrow [OF c narrow_mask [OF W]])
  have rd: "flash_read_status_mid14325e c = flash_read_status c FLASH_READ_STATUS_CMD_LOWBYTE"
    by (rule ext) (simp add: flash_read_status_mid14325e_def)
  show "get_lock h c f = Some (ucast (ucast (reg f) AND FLASH_WRITE_STATUS_BP_MID14325E :: u8))" for f
    by (simp add: h flash_get_lock_block_mid14325e_def rd status_low [OF c])
qed (simp_all add: h flash_lock_mid14325e_def flash_unlock_mid14325e_def FLASH_LOCK_NONE_MID14325E_def chip_simps
    flash_read_status_mid14325e_def [abs_def])

lemma protects_0114325e:
  assumes c: "status_chip c reg W" and h: "get_lock h = flash_get_lock_block_mid0114325e" "unlock h = flash_unlock_mid0114325e" "lock_func h = flash_lock_mid0114325e"
    and W: "FLASH_WRITE_STATUS_BP_MID0114325E AND NOT (ucast W) = 0"
  shows "protects h c reg FLASH_WRITE_STATUS_BP_MID0114325E"
proof (rule protects_wide [OF c W])
  show rd: "flash_read_status_mid0114325e c f = Some (reg f)" for f
    using wide_status [OF c] by (simp add: flash_read_status_mid0114325e_def)
  have m: "FLASH_WRITE_STATUS_BP_MID0114325E AND NOT 0xffff = 0"
    by (simp add: FLASH_WRITE_STATUS_BP_MID0114325E_def)
  show "lock_func h c b f = masked_write16 (flash_read_status_mid0114325e c) (flash_write_status c FLASH_TYPE_16BIT_STATUS_ONE_CMD) b FLASH_WRITE_STATUS_BP_MID0114325E f"
    if "b AND NOT FLASH_WRITE_STATUS_BP_MID0114325E = 0" for b f
    using low16 [OF that m] by (simp add: h flash_lock_mid0114325e_def chip_simps)
  show "unlock h c f = masked_write16 (flash_read_status_mid0114325e c) (flash_write_status c FLASH_TYPE_16BIT_STATUS_ONE_CMD) 0 FLASH_WRITE_STATUS_BP_MID0114325E f" for f
    by (simp add: h flash_unlock_mid0114325e_def FLASH_LOCK_NONE_MID0114325E_def chip_simps)
qed (simp add: h flash_get_lock_block_mid0114325e_def flash_read_status_mid0114325e_def wide_status [OF c])

lemma protects_1460c8:
  assumes c: "status_chip c reg W" and h: "get_lock h = flash_get_lock_block_mid1460c8" "unlock h = flash_unlock_mid1460c8" "lock_func h = flash_lock_mid1460c8"
    and W: "(ucast FLASH_WRITE_STATUS_BP_MID1460C8 :: u32) AND NOT (ucast W) = 0"
  shows "protects h c reg (ucast FLASH_WRITE_STATUS_BP_MID1460C8)"
proof (rule protects_narrow [OF c narrow_mask [OF W]])
  have rd: "flash_read_status_mid1460c8 c = flash_read_status c FLASH_READ_STATUS_CMD_LOWBYTE"
    by (rule ext) (simp add: flash_read_status_mid1460c8_def)
  show "get_lock h c f = Some (ucast (ucast (reg f) AND FLASH_WRITE_STATUS_BP_MID1460C8 :: u8))" for f
    by (simp add: h flash_get_lock_block_mid1460c8_def rd status_low [OF c])
qed (simp_all add: h flash_lock_mid1460c8_def flash_unlock_mid1460c8_def FLASH_LOCK_NONE_MID1460C8_def chip_simps
    flash_read_status_mid1460c8_def [abs_def])

lemma protects_011460c8:
  assumes c: "status_chip c reg W" and h: "get_lock h = flash_get_lock_block_mid011460c8" "unlock h = flash_unlock_mid011460c8" "lock_func h = flash_lock_mid011460c8"
    and W: "FLASH_WRITE_STATUS_BP_MID011460C8 AND NOT (ucast W) = 0"
  shows "protects h c reg FLASH_WRITE_STATUS_BP_MID011460C8"
proof (rule protects_wide [OF c W])
  show rd: "flash_read_status_mid011460c8 c f = Some (reg f)" for f
    using wide_status [OF c] by (simp add: flash_read_status_mid011460c8_def)
  have m: "FLASH_WRITE_STATUS_BP_MID011460C8 AND NOT 0xffff = 0"
    by (simp add: FLASH_WRITE_STATUS_BP_MID011460C8_def)
  show "lock_func h c b f = masked_write16 (flash_read_status_mid011460c8 c) (flash_write_status c FLASH_TYPE_16BIT_STATUS_ONE_CMD) b FLASH_WRITE_STATUS_BP_MID011460C8 f"
    if "b AND NOT FLASH_WRITE_STATUS_BP_MID011460C8 = 0" for b f
    using low16 [OF that m] by (simp add: h flash_lock_mid011460c8_def chip_simps)
  show "unlock h c f = masked_write16 (flash_read_status_mid011460c8 c) (flash_write_status c FLASH_TYPE_16BIT_STATUS_ONE_CMD) 0 FLASH_WRITE_STATUS_BP_MID011460C8 f" for f
    by (simp add: h flash_unlock_mid011460c8_def FLASH_LOCK_NONE_MID011460C8_def chip_simps)
qed (simp add: h flash_get_lock_block_mid011460c8_def flash_read_status_mid011460c8_def wide_status [OF c])

lemmas protects_chips =
  protects_1060c8 protects_1360c8 protects_13325e protects_0113325e protects_134051 protects_136085 protects_1360eb protects_14325e protects_0114325e protects_1460c8 protects_011460c8

lemma flash_list_protects:
  assumes c: "status_chip c reg W" and h: "h \<in> set flash_list" and W: "bp_mask (mid h) AND NOT (ucast W) = 0"
  shows "protects h c reg (bp_mask (mid h))"
  using h W protects_chips [OF c, of h] by (auto simp: flash_list_def bp_mask_def)

section \<open>The blocks\<close>

text \<open>The capacity of a chip, which its identification has in the third byte.\<close>

definition capacity :: "u32 \<Rightarrow> u32" where
  "capacity ident = push_bit (unat (drop_bit 16 (ident AND 0xff0000))) 1"

definition block_ok :: "u32 \<Rightarrow> u32 \<times> u32 \<times> u32 \<Rightarrow> bool" where
  "block_ok ident = (\<lambda>(b, x, y). b AND NOT (bp_mask ident) = 0 \<and> b \<noteq> 0 \<and> x \<le> y \<and> y < capacity ident
     \<and> (x = 0 \<or> y = capacity ident - 1))"

definition chip_ids :: "u32 list" where
  "chip_ids = [0x1060C8, 0x1360C8, 0x13325E, 0x0113325E, 0x134051, 0x136085, 0x1360EB, 0x14325E, 0x0114325E, 0x1460C8, 0x011460C8]"

lemma chip_ids: "map mid flash_list = chip_ids"
  by (simp add: flash_list_def chip_ids_def)

lemma lock_tables:
  "\<forall>ident \<in> set chip_ids. list_all (block_ok ident) (blocks_of ident) \<and> distinct (map fst (blocks_of ident)) \<and> blocks_of ident \<noteq> []"
  by code_simp

lemma mid_in_ids: "h \<in> set flash_list \<Longrightarrow> mid h \<in> set chip_ids"
  using chip_ids by (metis image_eqI list.set_map)

lemma bp_mask_16: "h \<in> set flash_list \<Longrightarrow> bp_mask (mid h) AND NOT 0xffff = 0"
proof -
  have "\<forall>ident \<in> set chip_ids. bp_mask ident AND NOT 0xffff = 0"
    by code_simp
  then show "h \<in> set flash_list \<Longrightarrow> ?thesis"
    using mid_in_ids by blast
qed

text \<open>
  The codes of the protected blocks are right for every chip of the table: each lies within the
  protection bits, no two blocks of a chip have the same code, none has the code of no protection,
  every block lies in the chip and reaches to one of its ends, and the block that the SDK protects by
  default is one of them.
\<close>

theorem flash_lock_tables:
  assumes "h \<in> set (flash_list :: 'f flash_hal_handler list)"
  shows "list_all (block_ok (mid h)) (blocks_of (mid h)) \<and> distinct (map fst (blocks_of (mid h)))
    \<and> lock_size h \<in> fst ` set (blocks_of (mid h))"
proof -
  have "list_all (\<lambda>(m, b). b \<in> set (map fst (blocks_of m))) (map (\<lambda>h. (mid h, lock_size h)) (flash_list :: unit flash_hal_handler list))"
    by code_simp
  moreover have "map (\<lambda>h. (mid h, lock_size h)) (flash_list :: 'f flash_hal_handler list) =
      map (\<lambda>h. (mid h, lock_size h)) (flash_list :: unit flash_hal_handler list)"
    by (simp add: flash_list_def)
  ultimately have "list_all (\<lambda>(m, b). b \<in> set (map fst (blocks_of m))) (map (\<lambda>h. (mid h, lock_size h)) (flash_list :: 'f flash_hal_handler list))"
    by (simp only:)
  then have "lock_size h \<in> set (map fst (blocks_of (mid h)))"
    using assms by (auto simp: list_all_iff)
  then show ?thesis
    using lock_tables mid_in_ids [OF assms] by simp
qed

text \<open>
  C27: On a chip with a readable and writable status register, locking a block of the chip's table
  succeeds and the block is the one that is read back, unlocking succeeds and leaves no block locked,
  and neither changes a bit of the register outside the protection bits.
\<close>

theorem flash_lock_read_back:
  assumes c: "status_chip c reg W" and h: "h \<in> set flash_list" and W: "bp_mask (mid h) AND NOT (ucast W) = 0"
    and b: "(b, x, y) \<in> set (blocks_of (mid h))"
  shows "\<exists>f1 f2. lock_func h c b f = Some (1, f1) \<and> get_lock h c f1 = Some b
    \<and> reg f1 AND NOT (ucast (bp_mask (mid h))) = reg f AND NOT (ucast (bp_mask (mid h)))
    \<and> unlock h c f1 = Some (1, f2) \<and> get_lock h c f2 = Some 0
    \<and> reg f2 = reg f AND NOT (ucast (bp_mask (mid h)))"
proof -
  let ?BP = "bp_mask (mid h)"
  have p: "protects h c reg ?BP"
    by (rule flash_list_protects [OF c h W])
  have bb: "b AND NOT ?BP = 0"
    using lock_tables mid_in_ids [OF h] b by (auto simp: list_all_iff block_ok_def)
  obtain f1 where f1: "lock_func h c b f = Some (1, f1)" "reg f1 = (reg f AND NOT (ucast ?BP)) OR ucast b"
    using p bb unfolding protects_def by blast
  obtain f2 where f2: "unlock h c f1 = Some (1, f2)" "reg f2 = reg f1 AND NOT (ucast ?BP)"
    using p unfolding protects_def by blast
  have g: "get_lock h c f = Some (ucast (reg f) AND ?BP)" for f
    using p unfolding protects_def by blast
  have bits: "bit b n \<Longrightarrow> bit ?BP n" "bit ?BP n \<Longrightarrow> n < 16" for n
  proof -
    show "bit b n \<Longrightarrow> bit ?BP n"
      using arg_cong [OF bb, of "\<lambda>x. bit x n"] by (auto simp: bit_simps dest: bit_imp_le_length)
    have m: "(0xffff :: u32) = mask 16"
      by (simp add: mask_eq_exp_minus_1)
    show "bit ?BP n \<Longrightarrow> n < 16"
      using arg_cong [OF bp_mask_16 [OF h], of "\<lambda>x. bit x n"] unfolding m by (auto simp: bit_simps dest: bit_imp_le_length)
  qed
  have "ucast (reg f1) AND ?BP = b"
    unfolding f1(2) using bits by (auto intro!: bit_word_eqI simp: bit_simps)
  moreover have "reg f1 AND NOT (ucast ?BP) = reg f AND NOT (ucast ?BP)"
    unfolding f1(2) using bits(1) by (auto intro!: bit_word_eqI simp: bit_simps)
  moreover have "ucast (reg f2) AND ?BP = 0"
    unfolding f2(2) using bits(2) by (auto intro!: bit_word_eqI simp: bit_simps)
  ultimately show ?thesis
    using f1(1) f2 by (intro exI [where x = f1] exI [where x = f2]) (simp add: g)
qed

text \<open>A chip with a status register: the commands 05 and 35 read its bytes, 01 writes one or both of them.\<close>

definition register_chip :: "u16 chip" where
  "register_chip =
     \<lparr>bus_write = (\<lambda>bs r. case bs of
          [c, lo] \<Rightarrow> if c = 0x01 then (r AND NOT 0xff) OR ucast lo else r
        | [c, lo, hi] \<Rightarrow> if c = 0x01 then ucast lo OR push_bit 8 (ucast hi) else r
        | _ \<Rightarrow> r),
      bus_read = (\<lambda>bs n r. if bs = [0x05] then [ucast r] else if bs = [0x35] then [ucast (drop_bit 8 r)] else [])\<rparr>"

lemma register_chip: "status_chip register_chip (\<lambda>r. r) (- 1)"
proof -
  have m: "(0xff :: u16) = mask 8"
    by (simp add: mask_eq_exp_minus_1)
  have "(reg AND NOT 0xff) OR ucast (ucast d :: u8) = (reg AND NOT (- 1 AND 0xff)) OR (d AND (- 1 AND 0xff))" for reg d :: u16
    unfolding m by (rule bit_word_eqI) (auto simp: bit_simps)
  moreover have "ucast (ucast d :: u8) OR push_bit 8 (ucast (ucast (drop_bit 8 d) :: u8)) = d" for d :: u16
    by (rule bit_word_eqI) (auto simp: bit_simps)
  ultimately show ?thesis
    by (simp add: status_chip_def register_chip_def flash_read_status_def flash_write_status_def flash_mspi_read_ram_def
        flash_mspi_write_ram_def get_byte_def FLASH_READ_STATUS_CMD_LOWBYTE_def FLASH_READ_STATUS_CMD_HIGHBYTE_def
        FLASH_WRITE_STATUS_CMD_LOWBYTE_def FLASH_WRITE_ENABLE_CMD_def)
qed

theorem flash_lock_read_back_witness:
  "\<exists>f1 f2. lock_func (flash_list ! 6) register_chip 0x2c 0x0803 = Some (1, f1) \<and> get_lock (flash_list ! 6) register_chip f1 = Some 0x2c
    \<and> unlock (flash_list ! 6) register_chip f1 = Some (1, f2) \<and> get_lock (flash_list ! 6) register_chip f2 = Some 0"
proof -
  have h: "flash_list ! 6 \<in> set (flash_list :: u16 flash_hal_handler list)" "mid (flash_list ! 6 :: u16 flash_hal_handler) = 0x1360EB"
    by (simp_all add: flash_list_def)
  have "(0x2c, 0, 0x3ffff) \<in> set (blocks_of 0x1360EB)" "bp_mask 0x1360EB AND NOT (ucast (- 1 :: u16)) = 0"
    by code_simp+
  then show ?thesis
    using flash_lock_read_back [OF register_chip h(1), of "0x2c" 0 "0x3ffff" "0x0803"] h(2) by auto
qed

theorem flash_lock_tables_witness:
  "list_all (block_ok 0x1360EB) (blocks_of 0x1360EB) \<and> distinct (map fst (blocks_of 0x1360EB))"
proof -
  have h: "flash_list ! 6 \<in> set (flash_list :: u16 flash_hal_handler list)" "mid (flash_list ! 6 :: u16 flash_hal_handler) = 0x1360EB"
    by (simp_all add: flash_list_def)
  show ?thesis
    using flash_lock_tables [OF h(1)] h(2) by simp
qed

text \<open>The chips with one status byte take the code as an \<open>unsigned char\<close>: 0x100 unlocks them.\<close>

lemma flash_lock_truncates: "flash_lock_mid1060c8 c 0x100 f = flash_unlock_mid1060c8 c f"
proof -
  have "ucast (0x100 :: u32) = (0 :: u8)"
    by code_simp
  then show ?thesis
    by (simp only: flash_lock_mid1060c8_def flash_unlock_mid1060c8_def FLASH_LOCK_NONE_MID1060C8_def)
qed

end
