(* ===== verification/Flash_Prot.thy ===== *)
theory Flash_Prot
  imports Flash_Protection Custom_Pair
begin

text \<open>
  Flash protection and flash layout of the applications on B85: \<^verbatim>\<open>vendor/common/flash_prot.c\<close>, the handler
  of the flash events of the demo applications (\<^verbatim>\<open>vendor/acl_peripheral_demo/app.c\<close>; it is the same in the
  other demos), \<^verbatim>\<open>vendor/common/ble_flash.c\<close> and the check of the firmware at start
  (\<^verbatim>\<open>vendor/common/flash_fw_check.c\<close>, \<^verbatim>\<open>vendor/common/blt_fw_sign.c\<close>), on the models of the flash driver and
  of its chips.  The \<open>*_SUPPORT_EN\<close> macros are those of B85.  The function pointers of the protection are
  options: a call through a null pointer is \<open>None\<close>.
\<close>

section \<open>State\<close>

record 'f prot =
  blc_flash_mid :: u32
  blc_flash_vendor :: u32
  blc_flash_capacity :: u8
  init_err :: u8
  flash_lock_mid :: "('f chip \<Rightarrow> u32 \<Rightarrow> 'f \<Rightarrow> (u8 \<times> 'f) option) option"
  flash_unlock_mid :: "('f chip \<Rightarrow> 'f \<Rightarrow> (u8 \<times> 'f) option) option"
  flash_get_lock_status_mid :: "('f chip \<Rightarrow> 'f \<Rightarrow> u32 option) option"
  flash_unlock_status :: u16
  flash_lockBlock_cmd :: u16
  flash_sector_mac_address :: u32
  flash_sector_calibration :: u32
  flash_sector_smp_storage :: u32
  flash_sector_simple_sdp_att :: u32

definition MID13325E :: u32 where "MID13325E = 0x13325e"
definition MID0113325E :: u32 where "MID0113325E = 0x0113325e"
definition MID14325E :: u32 where "MID14325E = 0x14325e"
definition MID0114325E :: u32 where "MID0114325E = 0x0114325e"
definition MID1360C8 :: u32 where "MID1360C8 = 0x1360c8"
definition MID1460C8 :: u32 where "MID1460C8 = 0x1460c8"

definition FLASH_LOCK_FW_LOW_256K :: u32 where "FLASH_LOCK_FW_LOW_256K = 1"
definition FLASH_LOCK_FW_LOW_512K :: u32 where "FLASH_LOCK_FW_LOW_512K = 2"
definition FLASH_LOCK_FW_LOW_1M :: u32 where "FLASH_LOCK_FW_LOW_1M = 3"
definition FLASH_LOCK_ALL_AREA :: u32 where "FLASH_LOCK_ALL_AREA = 0xff"

definition FLASH_LOCK_LOW_448K_MID13325E :: u8 where "FLASH_LOCK_LOW_448K_MID13325E = 0x10"
definition FLASH_LOCK_ALL_512K_MID13325E :: u8 where "FLASH_LOCK_ALL_512K_MID13325E = 0x1c"
definition FLASH_LOCK_LOW_448K_CMP1_MID0113325E :: u16 where "FLASH_LOCK_LOW_448K_CMP1_MID0113325E = 0x4004"
definition FLASH_LOCK_ALL_512K_MID0113325E :: u16 where "FLASH_LOCK_ALL_512K_MID0113325E = 0x0010"
definition FLASH_LOCK_LOW_960K_MID14325E :: u8 where "FLASH_LOCK_LOW_960K_MID14325E = 0x10"
definition FLASH_LOCK_ALL_1M_MID14325E :: u8 where "FLASH_LOCK_ALL_1M_MID14325E = 0x1c"
definition FLASH_LOCK_LOW_256K_MID0114325E :: u16 where "FLASH_LOCK_LOW_256K_MID0114325E = 0x002c"
definition FLASH_LOCK_LOW_512K_MID0114325E :: u16 where "FLASH_LOCK_LOW_512K_MID0114325E = 0x0030"
definition FLASH_LOCK_LOW_960K_CMP1_MID0114325E :: u16 where "FLASH_LOCK_LOW_960K_CMP1_MID0114325E = 0x4004"
definition FLASH_LOCK_ALL_1M_MID0114325E :: u16 where "FLASH_LOCK_ALL_1M_MID0114325E = 0x001c"
definition FLASH_LOCK_LOW_448K_MID1360C8 :: u8 where "FLASH_LOCK_LOW_448K_MID1360C8 = 0x10"
definition FLASH_LOCK_ALL_512K_MID1360C8 :: u8 where "FLASH_LOCK_ALL_512K_MID1360C8 = 0x1c"
definition FLASH_LOCK_LOW_960K_MID1460C8 :: u8 where "FLASH_LOCK_LOW_960K_MID1460C8 = 0x10"
definition FLASH_LOCK_ALL_1M_MID1460C8 :: u8 where "FLASH_LOCK_ALL_1M_MID1460C8 = 0x1c"

section \<open>Protection (flash_prot.c)\<close>

definition set_flash ::
    "('f chip \<Rightarrow> u32 \<Rightarrow> 'f \<Rightarrow> (u8 \<times> 'f) option) \<Rightarrow> ('f chip \<Rightarrow> 'f \<Rightarrow> (u8 \<times> 'f) option) \<Rightarrow> ('f chip \<Rightarrow> 'f \<Rightarrow> u32 option) \<Rightarrow> u16 \<Rightarrow> 'f prot \<Rightarrow> 'f prot" where
  "set_flash l u g none s =
     s\<lparr>flash_lock_mid := Some l, flash_unlock_mid := Some u, flash_get_lock_status_mid := Some g, flash_unlock_status := none\<rparr>"

definition flash_protection_init :: "'f chip \<Rightarrow> 'f \<Rightarrow> 'f prot \<Rightarrow> 'f prot option" where
  "flash_protection_init c f s = do {
     s \<leftarrow> (if blc_flash_mid s = 0 then do { m \<leftarrow> flash_read_mid c f; Some (s\<lparr>blc_flash_mid := m\<rparr>) } else Some s);
     Some
       (if blc_flash_mid s = MID13325E then
          set_flash flash_lock_mid13325e flash_unlock_mid13325e flash_get_lock_block_mid13325e (ucast FLASH_LOCK_NONE_MID13325E) s
        else if blc_flash_mid s = MID0113325E then
          set_flash flash_lock_mid0113325e flash_unlock_mid0113325e flash_get_lock_block_mid0113325e FLASH_LOCK_NONE_MID0113325E s
        else if blc_flash_mid s = MID14325E then
          set_flash flash_lock_mid14325e flash_unlock_mid14325e flash_get_lock_block_mid14325e (ucast FLASH_LOCK_NONE_MID14325E) s
        else if blc_flash_mid s = MID0114325E then
          set_flash flash_lock_mid0114325e flash_unlock_mid0114325e flash_get_lock_block_mid0114325e FLASH_LOCK_NONE_MID0114325E s
        else if blc_flash_mid s = MID1360C8 then
          set_flash flash_lock_mid1360c8 flash_unlock_mid1360c8 flash_get_lock_block_mid1360c8 (ucast FLASH_LOCK_NONE_MID1360C8) s
        else if blc_flash_mid s = MID1460C8 then
          set_flash flash_lock_mid1460c8 flash_unlock_mid1460c8 flash_get_lock_block_mid1460c8 (ucast FLASH_LOCK_NONE_MID1460C8) s
        else s\<lparr>init_err := 1\<rparr>) }"

text \<open>The block of a chip for a block of the application; \<open>None\<close> sets the error flag and leaves the block 0.\<close>

definition lock_512K :: "u32 \<Rightarrow> u16 \<Rightarrow> u16 \<Rightarrow> u16 \<Rightarrow> u16 option" where
  "lock_512K app low256 low448 all =
     (if app = FLASH_LOCK_FW_LOW_256K then Some low256
      else if app = FLASH_LOCK_FW_LOW_512K then Some low448
      else if app = FLASH_LOCK_ALL_AREA then Some all
      else None)"

definition lock_1M :: "u32 \<Rightarrow> u16 \<Rightarrow> u16 \<Rightarrow> u16 \<Rightarrow> u16 \<Rightarrow> u16 option" where
  "lock_1M app low256 low512 low960 all =
     (if app = FLASH_LOCK_FW_LOW_256K then Some low256
      else if app = FLASH_LOCK_FW_LOW_512K then Some low512
      else if app = FLASH_LOCK_FW_LOW_1M then Some low960
      else if app = FLASH_LOCK_ALL_AREA then Some all
      else None)"

definition app_block :: "u32 \<Rightarrow> u32 \<Rightarrow> u16 option" where
  "app_block m app =
     (if m = MID13325E then
        lock_512K app (ucast FLASH_LOCK_LOW_256K_MID13325E) (ucast FLASH_LOCK_LOW_448K_MID13325E) (ucast FLASH_LOCK_ALL_512K_MID13325E)
      else if m = MID0113325E then
        lock_512K app FLASH_LOCK_LOW_256K_MID0113325E FLASH_LOCK_LOW_448K_CMP1_MID0113325E FLASH_LOCK_ALL_512K_MID0113325E
      else if m = MID14325E then
        lock_1M app (ucast FLASH_LOCK_LOW_768K_MID14325E) (ucast FLASH_LOCK_LOW_768K_MID14325E) (ucast FLASH_LOCK_LOW_960K_MID14325E)
          (ucast FLASH_LOCK_ALL_1M_MID14325E)
      else if m = MID0114325E then
        lock_1M app FLASH_LOCK_LOW_256K_MID0114325E FLASH_LOCK_LOW_512K_MID0114325E FLASH_LOCK_LOW_960K_CMP1_MID0114325E FLASH_LOCK_ALL_1M_MID0114325E
      else if m = MID1360C8 then
        lock_512K app (ucast FLASH_LOCK_LOW_256K_MID1360C8) (ucast FLASH_LOCK_LOW_448K_MID1360C8) (ucast FLASH_LOCK_ALL_512K_MID1360C8)
      else if m = MID1460C8 then
        lock_1M app (ucast FLASH_LOCK_LOW_768K_MID1460C8) (ucast FLASH_LOCK_LOW_768K_MID1460C8) (ucast FLASH_LOCK_LOW_960K_MID1460C8)
          (ucast FLASH_LOCK_ALL_1M_MID1460C8)
      else Some 0)"

definition flash_change_app_lock_block_to_flash_lock_block :: "u32 \<Rightarrow> 'f prot \<Rightarrow> u16 \<times> 'f prot" where
  "flash_change_app_lock_block_to_flash_lock_block app s =
     (case app_block (blc_flash_mid s) app of
        Some b \<Rightarrow> (b, s)
      | None \<Rightarrow> (0, s\<lparr>init_err := 1\<rparr>))"

definition get_status :: "'f chip \<Rightarrow> 'f prot \<Rightarrow> 'f \<Rightarrow> u16 option" where
  "get_status c s f = do { g \<leftarrow> flash_get_lock_status_mid s; v \<leftarrow> g c f; Some (ucast v) }"

text \<open>The loops that try up to \<open>n\<close> times: the status read last, and the success.\<close>

fun unlock_loop :: "nat \<Rightarrow> 'f chip \<Rightarrow> 'f prot \<Rightarrow> u16 \<Rightarrow> 'f \<Rightarrow> (u16 \<times> 'f) option" where
  "unlock_loop 0 c s cur f = Some (cur, f)"
| "unlock_loop (Suc n) c s cur f = do {
     u \<leftarrow> flash_unlock_mid s;
     (_, f) \<leftarrow> u c f;
     cur \<leftarrow> get_status c s f;
     if cur = flash_unlock_status s then Some (cur, f) else unlock_loop n c s cur f }"

fun lock_loop :: "nat \<Rightarrow> 'f chip \<Rightarrow> 'f prot \<Rightarrow> u32 \<Rightarrow> 'f \<Rightarrow> (bool \<times> 'f) option" where
  "lock_loop 0 c s cmd f = Some (False, f)"
| "lock_loop (Suc n) c s cmd f = do {
     l \<leftarrow> flash_lock_mid s;
     (_, f) \<leftarrow> l c cmd f;
     cur \<leftarrow> get_status c s f;
     if ucast cur = cmd then Some (True, f) else lock_loop n c s cmd f }"

definition flash_lock :: "'f chip \<Rightarrow> 'f prot \<Rightarrow> u32 \<Rightarrow> 'f \<Rightarrow> (bool \<times> 'f) option" where
  "flash_lock c s cmd f =
     (if init_err s \<noteq> 0 then Some (False, f)
      else do {
        cur \<leftarrow> get_status c s f;
        if ucast cur = cmd then Some (True, f)
        else do {
          (cur, f) \<leftarrow> (if cur \<noteq> flash_unlock_status s then unlock_loop 3 c s cur f else Some (cur, f));
          lock_loop 3 c s cmd f } })"

definition flash_unlock :: "'f chip \<Rightarrow> 'f prot \<Rightarrow> 'f \<Rightarrow> (bool \<times> 'f) option" where
  "flash_unlock c s f =
     (if init_err s \<noteq> 0 then Some (False, f)
      else do {
        cur \<leftarrow> get_status c s f;
        if cur = flash_unlock_status s then Some (True, f)
        else do {
          (cur, f) \<leftarrow> unlock_loop 3 c s cur f;
          Some (cur = flash_unlock_status s, f) } })"

section \<open>Events of the stack (app.c)\<close>

definition FLASH_OP_EVT_APP_INITIALIZATION :: u8 where "FLASH_OP_EVT_APP_INITIALIZATION = 1"
definition FLASH_OP_EVT_STACK_OTA_CLEAR_OLD_FW_BEGIN :: u8 where "FLASH_OP_EVT_STACK_OTA_CLEAR_OLD_FW_BEGIN = 10"
definition FLASH_OP_EVT_STACK_OTA_CLEAR_OLD_FW_END :: u8 where "FLASH_OP_EVT_STACK_OTA_CLEAR_OLD_FW_END = 11"
definition FLASH_OP_EVT_STACK_OTA_WRITE_NEW_FW_BEGIN :: u8 where "FLASH_OP_EVT_STACK_OTA_WRITE_NEW_FW_BEGIN = 12"
definition FLASH_OP_EVT_STACK_OTA_WRITE_NEW_FW_END :: u8 where "FLASH_OP_EVT_STACK_OTA_WRITE_NEW_FW_END = 13"
definition FLASH_OP_EVT_APP_WRITE_MAC_ADDR_BEGIN :: u8 where "FLASH_OP_EVT_APP_WRITE_MAC_ADDR_BEGIN = 30"
definition FLASH_OP_EVT_APP_WRITE_MAC_ADDR_END :: u8 where "FLASH_OP_EVT_APP_WRITE_MAC_ADDR_END = 31"
definition MULTI_BOOT_ADDR_0x20000 :: u32 where "MULTI_BOOT_ADDR_0x20000 = 0x20000"
definition MULTI_BOOT_ADDR_0x40000 :: u32 where "MULTI_BOOT_ADDR_0x40000 = 0x40000"

text \<open>The boot address that the OTA module of the library uses is an argument, \<open>None\<close> for an application without OTA.\<close>

definition app_flash_protection_operation :: "u32 option \<Rightarrow> 'f chip \<Rightarrow> u8 \<Rightarrow> 'f prot \<times> 'f \<Rightarrow> ('f prot \<times> 'f) option" where
  "app_flash_protection_operation ota c evt = (\<lambda>(s, f).
     if evt = FLASH_OP_EVT_APP_INITIALIZATION then do {
       s \<leftarrow> flash_protection_init c f s;
       let app_lockBlock =
         (case ota of
            Some boot \<Rightarrow>
              if boot = MULTI_BOOT_ADDR_0x20000 then FLASH_LOCK_FW_LOW_256K
              else if boot = MULTI_BOOT_ADDR_0x40000 then FLASH_LOCK_FW_LOW_512K
              else 0
          | None \<Rightarrow> FLASH_LOCK_FW_LOW_512K);
       let (cmd, s) = flash_change_app_lock_block_to_flash_lock_block app_lockBlock s;
       let s = s\<lparr>flash_lockBlock_cmd := cmd\<rparr>;
       (_, f) \<leftarrow> flash_lock c s (ucast (flash_lockBlock_cmd s)) f;
       Some (s, f) }
     else if ota \<noteq> None \<and> (evt = FLASH_OP_EVT_STACK_OTA_CLEAR_OLD_FW_BEGIN \<or> evt = FLASH_OP_EVT_STACK_OTA_WRITE_NEW_FW_BEGIN) then do {
       (_, f) \<leftarrow> flash_unlock c s f;
       Some (s, f) }
     else if ota \<noteq> None \<and> (evt = FLASH_OP_EVT_STACK_OTA_CLEAR_OLD_FW_END \<or> evt = FLASH_OP_EVT_STACK_OTA_WRITE_NEW_FW_END) then do {
       (_, f) \<leftarrow> flash_lock c s (ucast (flash_lockBlock_cmd s)) f;
       Some (s, f) }
     else Some (s, f))"

section \<open>Layout and address (ble_flash.c)\<close>

definition CFG_ADR_MAC_512K_FLASH :: u32 where "CFG_ADR_MAC_512K_FLASH = 0x76000"
definition CFG_ADR_CALIBRATION_512K_FLASH :: u32 where "CFG_ADR_CALIBRATION_512K_FLASH = 0x77000"
definition FLASH_SDP_ATT_ADDRESS_512K_FLASH :: u32 where "FLASH_SDP_ATT_ADDRESS_512K_FLASH = 0x7D000"
definition CFG_ADR_MAC_1M_FLASH :: u32 where "CFG_ADR_MAC_1M_FLASH = 0xFF000"
definition CFG_ADR_CALIBRATION_1M_FLASH :: u32 where "CFG_ADR_CALIBRATION_1M_FLASH = 0xFE000"
definition FLASH_SDP_ATT_ADDRESS_1M_FLASH :: u32 where "FLASH_SDP_ATT_ADDRESS_1M_FLASH = 0xF6000"
definition FLASH_SMP_PAIRING_MAX_SIZE :: u32 where "FLASH_SMP_PAIRING_MAX_SIZE = 2 * 4096"
definition FLASH_SDP_ATT_MAX_SIZE :: u32 where "FLASH_SDP_ATT_MAX_SIZE = 2 * 4096"
definition CALIB_OFFSET_FIRMWARE_SIGNKEY :: u32 where "CALIB_OFFSET_FIRMWARE_SIGNKEY = 0x180"

definition blc_flash_read_mid_get_vendor_set_capacity :: "'f chip \<Rightarrow> 'f \<Rightarrow> 'f prot \<Rightarrow> 'f prot option" where
  "blc_flash_read_mid_get_vendor_set_capacity c f s = do {
     m \<leftarrow> flash_read_mid c f;
     Some (s\<lparr>blc_flash_mid := m, blc_flash_vendor := flash_get_vendor m, blc_flash_capacity := ucast (drop_bit 16 (m AND 0x00ff0000))\<rparr>) }"

text \<open>With the simple service discovery (\<open>sdp\<close>).  The code waits for ever on a flash of another size: \<open>None\<close>.\<close>

definition blc_readFlashSize_autoConfigCustomFlashSector :: "bool \<Rightarrow> 'f chip \<Rightarrow> 'f \<Rightarrow> 'f prot \<Rightarrow> 'f prot option" where
  "blc_readFlashSize_autoConfigCustomFlashSector sdp c f s = do {
     s \<leftarrow> blc_flash_read_mid_get_vendor_set_capacity c f s;
     if blc_flash_capacity s = FLASH_SIZE_512K then
       Some (s\<lparr>flash_sector_mac_address := CFG_ADR_MAC_512K_FLASH, flash_sector_calibration := CFG_ADR_CALIBRATION_512K_FLASH,
         flash_sector_smp_storage := FLASH_ADR_SMP_PAIRING_512K_FLASH,
         flash_sector_simple_sdp_att := (if sdp then FLASH_SDP_ATT_ADDRESS_512K_FLASH else flash_sector_simple_sdp_att s)\<rparr>)
     else if blc_flash_capacity s = FLASH_SIZE_1M then
       Some (s\<lparr>flash_sector_mac_address := CFG_ADR_MAC_1M_FLASH, flash_sector_calibration := CFG_ADR_CALIBRATION_1M_FLASH,
         flash_sector_smp_storage := FLASH_ADR_SMP_PAIRING_1M_FLASH,
         flash_sector_simple_sdp_att := (if sdp then FLASH_SDP_ATT_ADDRESS_1M_FLASH else flash_sector_simple_sdp_att s)\<rparr>)
     else None }"

type_synonym 'f flash_cb = "u8 \<Rightarrow> u32 \<Rightarrow> u32 \<Rightarrow> 'f \<Rightarrow> 'f option"

definition call_cb :: "'f flash_cb option \<Rightarrow> u8 \<Rightarrow> u32 \<Rightarrow> u32 \<Rightarrow> 'f \<Rightarrow> 'f option" where
  "call_cb cb evt a b f = (case cb of None \<Rightarrow> Some f | Some g \<Rightarrow> g evt a b f)"

text \<open>The random numbers are an argument, as is the content of the two arrays of the caller.\<close>

definition blc_initMacAddress ::
    "'f chip \<Rightarrow> 'f flash_cb option \<Rightarrow> u32 \<Rightarrow> u8 list \<Rightarrow> u32 \<Rightarrow> u8 list \<Rightarrow> u8 list \<Rightarrow> 'f \<Rightarrow> (u8 list \<times> u8 list \<times> 'f) option" where
  "blc_initMacAddress c cb sector value_rand flash_addr mac_public mac_random_static f =
     (if sector = 0 then Some (mac_public, mac_random_static, f)
      else do {
        mac_read \<leftarrow> get_bytes (flash_read_data c flash_addr 8 f) 0 8;
        (mac_public, f) \<leftarrow>
          (if take 6 mac_read \<noteq> replicate 6 0xff then do { mac_public \<leftarrow> put_bytes mac_public 0 (take 6 mac_read); Some (mac_public, f) }
           else do {
             r \<leftarrow> get_bytes value_rand 0 3;
             mac_public \<leftarrow> put_bytes mac_public 0 (r @ [0x38, 0xC1, 0xA4]);
             f \<leftarrow> call_cb cb FLASH_OP_EVT_APP_WRITE_MAC_ADDR_BEGIN flash_addr (flash_addr + 6) f;
             pub \<leftarrow> get_bytes mac_public 0 6;
             f \<leftarrow> flash_page_program c False flash_addr pub f;
             f \<leftarrow> call_cb cb FLASH_OP_EVT_APP_WRITE_MAC_ADDR_END flash_addr (flash_addr + 6) f;
             Some (mac_public, f) });
        p \<leftarrow> get_bytes mac_public 0 3;
        mac_random_static \<leftarrow> put_bytes mac_random_static 0 p;
        mac_random_static \<leftarrow> put_byte mac_random_static 5 0xC0;
        let high_2_byte = (ucast (mac_read ! 6) OR push_bit 8 (ucast (mac_read ! 7)) :: u16);
        if high_2_byte \<noteq> 0xFFFF then do {
          mac_random_static \<leftarrow> put_bytes mac_random_static 3 (drop 6 mac_read);
          Some (mac_public, mac_random_static, f) }
        else do {
          r \<leftarrow> get_bytes value_rand 3 2;
          mac_random_static \<leftarrow> put_bytes mac_random_static 3 r;
          f \<leftarrow> call_cb cb FLASH_OP_EVT_APP_WRITE_MAC_ADDR_BEGIN (flash_addr + 6) (flash_addr + 8) f;
          f \<leftarrow> flash_page_program c False (flash_addr + 6) r f;
          f \<leftarrow> call_cb cb FLASH_OP_EVT_APP_WRITE_MAC_ADDR_END (flash_addr + 6) (flash_addr + 8) f;
          Some (mac_public, mac_random_static, f) } })"

section \<open>The firmware at start\<close>

definition FW_READ_SIZE :: nat where "FW_READ_SIZE = 256"

text \<open>A read into the buffer of \<open>FW_READ_SIZE\<close> bytes.\<close>

definition fw_read :: "'f chip \<Rightarrow> u32 \<Rightarrow> u32 \<Rightarrow> 'f \<Rightarrow> u8 list option" where
  "fw_read c a n f = (if FW_READ_SIZE < unat n then None else get_bytes (flash_read_data c a n f) 0 (unat n))"

definition nibbles :: "u8 list \<Rightarrow> u8 list" where
  "nibbles bs = concat (map (\<lambda>b. [b AND 0x0f, drop_bit 4 b]) bs)"

text \<open>The loop over \<open>n\<close> blocks from \<open>i\<close> on; \<open>crc32_half_cal\<close> is the function of the library.\<close>

fun fw_block_loop :: "(u32 \<Rightarrow> u8 list \<Rightarrow> u32) \<Rightarrow> 'f chip \<Rightarrow> u32 \<Rightarrow> nat \<Rightarrow> nat \<Rightarrow> u32 \<Rightarrow> 'f \<Rightarrow> u32 option" where
  "fw_block_loop crc32_half_cal c addr i 0 crc f = Some crc"
| "fw_block_loop crc32_half_cal c addr i (Suc n) crc f = do {
     d \<leftarrow> fw_read c (addr + of_nat (i * FW_READ_SIZE)) (of_nat FW_READ_SIZE) f;
     fw_block_loop crc32_half_cal c addr (i + 1) n (crc32_half_cal crc (nibbles d)) f }"

definition read_u32 :: "'f chip \<Rightarrow> u32 \<Rightarrow> 'f \<Rightarrow> u32 option" where
  "read_u32 c a f = do {
     d \<leftarrow> get_bytes (flash_read_data c a 4 f) 0 4;
     Some (BYTES_TO_UINT32 (d ! 0) (d ! 1) (d ! 2) (d ! 3)) }"

text \<open>The result is 1 when the check fails.\<close>

definition flash_fw_check :: "(u32 \<Rightarrow> u8 list \<Rightarrow> u32) \<Rightarrow> 'f chip \<Rightarrow> u32 \<Rightarrow> u32 \<Rightarrow> u32 \<Rightarrow> 'f \<Rightarrow> bool option" where
  "flash_fw_check crc32_half_cal c ota_program_offset ota_program_bootAddr crc_init_value f = do {
     let fw_crc_init = (if crc_init_value = 0 then 0xFFFFFFFF else crc_init_value);
     let fw_flashAddr = (if ota_program_offset = 0 then ota_program_bootAddr else 0);
     fw_size \<leftarrow> read_u32 c (fw_flashAddr + 0x18) f;
     let fw_Block = (ucast (fw_size div 256) :: u16);
     let fw_remainSizeByte = (ucast (fw_size mod 256) :: u16);
     crc \<leftarrow> fw_block_loop crc32_half_cal c fw_flashAddr 0 (unat fw_Block) fw_crc_init f;
     crc \<leftarrow>
       (if fw_remainSizeByte \<noteq> 4 then do {
          d \<leftarrow> fw_read c (fw_flashAddr + fw_size - ucast fw_remainSizeByte) (ucast fw_remainSizeByte - 4) f;
          Some (crc32_half_cal crc (nibbles d)) }
        else Some crc);
     fw_check_value \<leftarrow> read_u32 c (fw_flashAddr + fw_size - 4) f;
     Some (fw_check_value \<noteq> crc) }"

text \<open>The key of the firmware for the identification of the chip, which the library computes, must be in the flash; otherwise
  the code waits for ever.\<close>

definition blt_firmware_signature_check :: "(u8 list \<Rightarrow> u8 list) \<Rightarrow> 'f chip \<Rightarrow> u32 \<Rightarrow> u8 list \<Rightarrow> 'f \<Rightarrow> unit option" where
  "blt_firmware_signature_check firmware_encrypt_based_on_uid c sector_calibration uid f = do {
     (flag, m, flash_uid) \<leftarrow> flash_read_mid_uid_with_check c uid f;
     if flag = 0 then None
     else if firmware_encrypt_based_on_uid flash_uid \<noteq> flash_read_data c (sector_calibration + CALIB_OFFSET_FIRMWARE_SIGNKEY) 16 f then None
     else Some () }"

end
