(* ===== verification/Flash_Prot_Theorems.thy ===== *)
theory Flash_Prot_Theorems
  imports Flash_Prot Simulation
begin

text \<open>
  The protection of the flash of theory Flash_Prot: what \<open>flash_lock\<close> and \<open>flash_unlock\<close> report for any chip, and on a
  chip whose status register works, that the firmware is locked after every event of the stack but during an update,
  and that the data of the system are never in the locked block.
\<close>

section \<open>The loops\<close>

lemma lock_loop_status:
  "lock_loop n c s cmd f = Some (r, f') \<Longrightarrow> 0 < n \<Longrightarrow> \<exists>v. get_status c s f' = Some v \<and> (r \<longleftrightarrow> ucast v = cmd)"
proof (induction n arbitrary: f)
  case (Suc n)
  from Suc.prems show ?case
    using Suc.IH by (cases n) (auto split: if_splits bind_splits)
qed simp

lemma unlock_loop_status:
  "unlock_loop n c s v f = Some (v', f') \<Longrightarrow> get_status c s f = Some v \<Longrightarrow> get_status c s f' = Some v'"
  by (induction n arbitrary: f v) (auto split: if_splits bind_splits)

text \<open>
  What \<open>flash_lock\<close> and \<open>flash_unlock\<close> report is what the chip says at the end, whatever the functions of the chip do:
  success exactly when the initialization found the chip and the status that is read then is the one that was asked for.
\<close>

theorem flash_lock_reports_status:
  "(\<forall>r f'. flash_lock c s cmd f = Some (r, f') \<longrightarrow>
      (r \<longleftrightarrow> init_err s = 0 \<and> (\<exists>v. get_status c s f' = Some v \<and> ucast v = cmd)))
    \<and> (\<forall>r f'. flash_unlock c s f = Some (r, f') \<longrightarrow>
      (r \<longleftrightarrow> init_err s = 0 \<and> get_status c s f' = Some (flash_unlock_status s)))"
proof -
  have "r \<longleftrightarrow> init_err s = 0 \<and> (\<exists>v. get_status c s f' = Some v \<and> ucast v = cmd)"
    if "flash_lock c s cmd f = Some (r, f')" for r f'
    using that by (auto simp: flash_lock_def simp del: lock_loop.simps split: if_splits bind_splits dest!: lock_loop_status)
  moreover have "r \<longleftrightarrow> init_err s = 0 \<and> get_status c s f' = Some (flash_unlock_status s)"
    if "flash_unlock c s f = Some (r, f')" for r f'
    using that by (auto simp: flash_unlock_def simp del: unlock_loop.simps split: if_splits bind_splits dest!: unlock_loop_status)
  ultimately show ?thesis
    by blast
qed

section \<open>The chips of the SDK\<close>

definition prot_ids :: "u32 list" where
  "prot_ids = [MID13325E, MID0113325E, MID14325E, MID0114325E, MID1360C8, MID1460C8]"

text \<open>The initialization has found the chip of \<open>h\<close>.\<close>

definition prot_ready :: "'f flash_hal_handler \<Rightarrow> 'f prot \<Rightarrow> bool" where
  "prot_ready h s \<longleftrightarrow> init_err s = 0 \<and> blc_flash_mid s = mid h \<and> flash_lock_mid s = Some (lock_func h)
     \<and> flash_unlock_mid s = Some (unlock h) \<and> flash_get_lock_status_mid s = Some (get_lock h) \<and> flash_unlock_status s = 0"

lemmas mid_defs = MID13325E_def MID0113325E_def MID14325E_def MID0114325E_def MID1360C8_def MID1460C8_def

lemma unlocked_codes:
  "ucast FLASH_LOCK_NONE_MID13325E = (0 :: u16)" "FLASH_LOCK_NONE_MID0113325E = 0" "ucast FLASH_LOCK_NONE_MID14325E = (0 :: u16)"
  "FLASH_LOCK_NONE_MID0114325E = 0" "ucast FLASH_LOCK_NONE_MID1360C8 = (0 :: u16)" "ucast FLASH_LOCK_NONE_MID1460C8 = (0 :: u16)"
  by code_simp+

lemma protection_init_again:
  assumes "h \<in> set flash_list" and "mid h \<in> set prot_ids" and "prot_ready h s"
  shows "flash_protection_init c f s = Some s"
proof -
  have "mid h \<noteq> 0"
    using assms(2) by (auto simp: prot_ids_def mid_defs)
  moreover have "set_flash (lock_func h) (unlock h) (get_lock h) 0 s = s"
    using assms(3) by (auto simp: set_flash_def prot_ready_def intro: prot.equality)
  ultimately show ?thesis
    using assms by (auto simp: flash_protection_init_def prot_ready_def prot_ids_def mid_defs flash_list_def unlocked_codes)
qed

lemma protection_init_chip:
  assumes "flash_read_mid c f = Some m" and "m \<in> set prot_ids" and "blc_flash_mid s \<in> {0, m}" and "init_err s = 0"
  shows "\<exists>h \<in> set flash_list. mid h = m \<and> (\<exists>s'. flash_protection_init c f s = Some s' \<and> prot_ready h s'
    \<and> flash_sector_mac_address s' = flash_sector_mac_address s \<and> flash_sector_calibration s' = flash_sector_calibration s
    \<and> flash_sector_smp_storage s' = flash_sector_smp_storage s \<and> flash_sector_simple_sdp_att s' = flash_sector_simple_sdp_att s)"
proof -
  show ?thesis
    using assms by (auto simp: flash_protection_init_def prot_ids_def mid_defs set_flash_def prot_ready_def flash_list_def unlocked_codes)
qed

text \<open>The sectors of the system on a chip; the block that the application asks for ends before them.\<close>

definition layout_of :: "u32 \<Rightarrow> u32 list" where
  "layout_of m =
     (if ucast (drop_bit 16 (m AND 0x00ff0000)) = FLASH_SIZE_512K
      then [CFG_ADR_MAC_512K_FLASH, CFG_ADR_CALIBRATION_512K_FLASH, FLASH_ADR_SMP_PAIRING_512K_FLASH, FLASH_SDP_ATT_ADDRESS_512K_FLASH]
      else [CFG_ADR_MAC_1M_FLASH, CFG_ADR_CALIBRATION_1M_FLASH, FLASH_ADR_SMP_PAIRING_1M_FLASH, FLASH_SDP_ATT_ADDRESS_1M_FLASH])"

definition firmware_end :: "u32 \<Rightarrow> u32" where
  "firmware_end app = (if app = FLASH_LOCK_FW_LOW_256K then 0x3ffff else 0x6ffff)"

lemma app_block_table:
  "\<forall>m \<in> set prot_ids. \<forall>app \<in> {FLASH_LOCK_FW_LOW_256K, FLASH_LOCK_FW_LOW_512K}.
     case app_block m app of None \<Rightarrow> False
     | Some b \<Rightarrow> list_ex (\<lambda>(b', x, y). b' = ucast b \<and> x = 0 \<and> firmware_end app \<le> y \<and> list_all (\<lambda>a. y < a) (layout_of m)) (blocks_of m)"
  by code_simp

lemma lock_on_chip:
  assumes p: "protects h c reg BP" and r: "prot_ready h s" and B: "BP AND NOT 0xffff = 0" and cmd: "ucast cmd AND NOT BP = 0"
  shows "\<exists>f'. flash_lock c s (ucast cmd) f = Some (True, f') \<and> reg f' = (reg f AND NOT (ucast BP)) OR cmd"
    and "\<exists>f'. flash_unlock c s f = Some (True, f') \<and> reg f' = reg f AND NOT (ucast BP)"
proof -
  have m: "(0xffff :: u32) = mask 16"
    by (simp add: mask_eq_exp_minus_1)
  have b16: "bit BP n \<Longrightarrow> n < 16" for n
    using arg_cong [OF B, of "\<lambda>x. bit x n"] unfolding m by (auto simp: bit_simps dest: bit_imp_le_length)
  have cb: "bit cmd n \<Longrightarrow> bit BP n" for n
    using arg_cong [OF cmd, of "\<lambda>x. bit x n"] by (auto simp: bit_simps dest: bit_imp_le_length)
  have g: "get_status c s f = Some (reg f AND ucast BP)" for f
    using p r by (auto simp: get_status_def protects_def prot_ready_def intro!: bit_word_eqI simp: bit_simps)
  have l: "\<exists>f'. lock_func h c (ucast cmd) f = Some (1, f') \<and> reg f' = (reg f AND NOT (ucast BP)) OR cmd" for f
  proof -
    have "ucast (ucast cmd :: u32) = cmd"
      by (auto intro!: bit_word_eqI simp: bit_simps)
    then show ?thesis
      using p cmd unfolding protects_def by metis
  qed
  have u: "\<exists>f'. unlock h c f = Some (1, f') \<and> reg f' = reg f AND NOT (ucast BP)" for f
    using p unfolding protects_def by blast
  have uu: "ucast (ucast v :: u32) = v" for v :: u16
    by (auto intro!: bit_word_eqI simp: bit_simps)
  have same: "ucast v = (ucast cmd :: u32) \<longleftrightarrow> v = cmd" for v :: u16
    using uu [of v] uu [of cmd] by metis
  have free: "(x AND NOT (ucast BP)) AND ucast BP = (0 :: u16)" for x
    by (auto intro!: bit_word_eqI simp: bit_simps)
  have none: "x AND ucast BP = 0 \<Longrightarrow> x AND NOT (ucast BP) = x" for x :: u16
    by (auto simp: bit_eq_iff bit_simps)
  have full: "x AND ucast BP = cmd \<Longrightarrow> (x AND NOT (ucast BP)) OR cmd = x" for x :: u16
    by (auto simp: bit_eq_iff bit_simps)
  have again: "((x AND NOT (ucast BP)) OR cmd) AND ucast BP = cmd" for x :: u16
    using cb by (auto intro!: bit_word_eqI simp: bit_simps)
  have idem: "(x AND NOT (ucast BP)) AND NOT (ucast BP) = x AND NOT (ucast BP :: u16)" for x
    by (auto intro!: bit_word_eqI simp: bit_simps)
  note fields = r [unfolded prot_ready_def]
  have unl: "\<exists>f'. unlock_loop 3 c s v f = Some (0, f') \<and> reg f' = reg f AND NOT (ucast BP)" for v f
    using u [of f] fields by (auto simp: numeral_3_eq_3 g free)
  have loc: "\<exists>f'. lock_loop 3 c s (ucast cmd) f = Some (True, f') \<and> reg f' = (reg f AND NOT (ucast BP)) OR cmd" for f
    using l [of f] fields by (auto simp: numeral_3_eq_3 g again)
  show "\<exists>f'. flash_unlock c s f = Some (True, f') \<and> reg f' = reg f AND NOT (ucast BP)"
    using unl [of "reg f AND ucast BP" f] fields none [of "reg f"] by (auto simp: flash_unlock_def g)
  show "\<exists>f'. flash_lock c s (ucast cmd) f = Some (True, f') \<and> reg f' = (reg f AND NOT (ucast BP)) OR cmd"
  proof (cases "reg f AND ucast BP = cmd")
    case True
    then show ?thesis
      using fields full [OF True] by (simp add: flash_lock_def g)
  next
    case False
    show ?thesis
    proof (cases "reg f AND ucast BP = 0")
      case True
      then show ?thesis
        using False fields loc [of f] by (simp add: flash_lock_def g same)
    next
      case locked: False
      obtain f1 where f1: "unlock_loop 3 c s (reg f AND ucast BP) f = Some (0, f1)" "reg f1 = reg f AND NOT (ucast BP)"
        using unl by blast
      then show ?thesis
        using False locked fields loc [of f1] by (simp add: flash_lock_def g same idem)
    qed
  qed
qed

section \<open>The events of the stack\<close>

text \<open>The model of the protection is whether the firmware is locked.\<close>

definition prot_spec :: "u8 \<Rightarrow> bool \<Rightarrow> unit \<times> bool" where
  "prot_spec evt locked =
     ((), if evt \<in> {FLASH_OP_EVT_STACK_OTA_CLEAR_OLD_FW_BEGIN, FLASH_OP_EVT_STACK_OTA_WRITE_NEW_FW_BEGIN} then False
          else if evt \<in> {FLASH_OP_EVT_APP_INITIALIZATION, FLASH_OP_EVT_STACK_OTA_CLEAR_OLD_FW_END, FLASH_OP_EVT_STACK_OTA_WRITE_NEW_FW_END} then True
          else locked)"

definition prot_step :: "u32 option \<Rightarrow> 'f chip \<Rightarrow> u8 \<Rightarrow> 'f prot \<times> 'f \<Rightarrow> (unit \<times> 'f prot \<times> 'f) option" where
  "prot_step ota c evt st = map_option (\<lambda>st. ((), st)) (app_flash_protection_operation ota c evt st)"

text \<open>The block of the application for a boot address.\<close>

definition boot_area :: "u32 \<Rightarrow> u32" where
  "boot_area boot = (if boot = MULTI_BOOT_ADDR_0x20000 then FLASH_LOCK_FW_LOW_256K else FLASH_LOCK_FW_LOW_512K)"

definition boot_addrs :: "u32 set" where
  "boot_addrs = {MULTI_BOOT_ADDR_0x20000, MULTI_BOOT_ADDR_0x40000}"

definition sectors :: "'f prot \<Rightarrow> u32 list" where
  "sectors s = [flash_sector_mac_address s, flash_sector_calibration s, flash_sector_smp_storage s, flash_sector_simple_sdp_att s]"

definition prot_rel :: "'f chip \<Rightarrow> ('f \<Rightarrow> u16) \<Rightarrow> u32 \<Rightarrow> u16 \<Rightarrow> u32 \<Rightarrow> u32 list \<Rightarrow> 'f prot \<times> 'f \<Rightarrow> bool \<Rightarrow> bool" where
  "prot_rel c reg boot r0 m lay = (\<lambda>(s, f) locked.
     boot \<in> boot_addrs \<and> m \<in> set prot_ids \<and> sectors s = lay
     \<and> (\<exists>h \<in> set flash_list. mid h = m \<and> prot_ready h s \<and> protects h c reg (bp_mask m))
     \<and> app_block m (boot_area boot) = Some (flash_lockBlock_cmd s)
     \<and> reg f = (r0 AND NOT (ucast (bp_mask m))) OR (if locked then flash_lockBlock_cmd s else 0))"

lemma boot_area_cases: "boot \<in> boot_addrs \<Longrightarrow> boot_area boot \<in> {FLASH_LOCK_FW_LOW_256K, FLASH_LOCK_FW_LOW_512K}"
  by (simp add: boot_area_def)

lemma app_block_boot:
  assumes "m \<in> set prot_ids" and "boot \<in> boot_addrs"
  shows "\<exists>cmd. app_block m (boot_area boot) = Some cmd \<and> ucast cmd AND NOT (bp_mask m) = 0"
proof -
  have "\<forall>m \<in> set prot_ids. \<forall>app \<in> {FLASH_LOCK_FW_LOW_256K, FLASH_LOCK_FW_LOW_512K}.
      case app_block m app of None \<Rightarrow> False | Some b \<Rightarrow> ucast b AND NOT (bp_mask m) = 0"
    by code_simp
  from this [rule_format, OF assms(1) boot_area_cases [OF assms(2)]] show ?thesis
    by (auto split: option.splits)
qed

lemma app_block_covers:
  assumes "m \<in> set prot_ids" and "boot \<in> boot_addrs" and "app_block m (boot_area boot) = Some cmd"
  shows "\<exists>y. (ucast cmd, 0, y) \<in> set (blocks_of m) \<and> firmware_end (boot_area boot) \<le> y \<and> (\<forall>a \<in> set (layout_of m). y < a)"
  using app_block_table [rule_format, OF assms(1) boot_area_cases [OF assms(2)]] assms(3)
  by (auto simp: list_ex_iff list_all_iff)

lemma lock_app_block:
  assumes "boot \<in> boot_addrs"
  shows "(if boot = MULTI_BOOT_ADDR_0x20000 then FLASH_LOCK_FW_LOW_256K
      else if boot = MULTI_BOOT_ADDR_0x40000 then FLASH_LOCK_FW_LOW_512K else 0) = boot_area boot"
  using assms by (auto simp: boot_area_def boot_addrs_def)

lemmas evt_defs = FLASH_OP_EVT_APP_INITIALIZATION_def FLASH_OP_EVT_STACK_OTA_CLEAR_OLD_FW_BEGIN_def
  FLASH_OP_EVT_STACK_OTA_CLEAR_OLD_FW_END_def FLASH_OP_EVT_STACK_OTA_WRITE_NEW_FW_BEGIN_def FLASH_OP_EVT_STACK_OTA_WRITE_NEW_FW_END_def

text \<open>The initialization locks, from any content of the register.\<close>

lemma prot_init:
  assumes c: "status_chip c reg W" and W: "bp_mask m AND NOT (ucast W) = 0" and m: "m \<in> set prot_ids" and boot: "boot \<in> boot_addrs"
    and rd: "flash_read_mid c f = Some m" and s: "blc_flash_mid s \<in> {0, m}" "init_err s = 0"
  shows "\<exists>st. app_flash_protection_operation (Some boot) c FLASH_OP_EVT_APP_INITIALIZATION (s, f) = Some st
    \<and> prot_rel c reg boot (reg f) m (sectors s) st True"
proof -
  obtain h s' where h: "h \<in> set flash_list" "mid h = m" "flash_protection_init c f s = Some s'" "prot_ready h s'" "sectors s' = sectors s"
    using protection_init_chip [OF rd m s] by (auto simp: sectors_def)
  obtain cmd where cmd: "app_block m (boot_area boot) = Some cmd" "ucast cmd AND NOT (bp_mask m) = 0"
    using app_block_boot [OF m boot] by blast
  have p: "protects h c reg (bp_mask m)"
    using flash_list_protects [OF c h(1)] W h(2) by simp
  let ?s = "s'\<lparr>flash_lockBlock_cmd := cmd\<rparr>"
  have r: "prot_ready h ?s"
    using h(4) by (simp add: prot_ready_def)
  have B: "bp_mask m AND NOT 0xffff = 0"
    using bp_mask_16 [OF h(1)] h(2) by simp
  obtain f' where f': "flash_lock c ?s (ucast cmd) f = Some (True, f')" "reg f' = (reg f AND NOT (ucast (bp_mask m))) OR cmd"
    using lock_on_chip(1) [OF p r B cmd(2)] by blast
  have "flash_change_app_lock_block_to_flash_lock_block (boot_area boot) s' = (cmd, s')"
    using h(2,4) cmd(1) by (simp add: flash_change_app_lock_block_to_flash_lock_block_def prot_ready_def)
  then have "app_flash_protection_operation (Some boot) c FLASH_OP_EVT_APP_INITIALIZATION (s, f) = Some (?s, f')"
    using h(3) f'(1) by (simp add: app_flash_protection_operation_def lock_app_block [OF boot])
  moreover have "prot_rel c reg boot (reg f) m (sectors s) (?s, f') True"
    using boot m h r p cmd(1) f'(2) by (auto simp: prot_rel_def sectors_def)
  ultimately show ?thesis
    by blast
qed

lemma prot_step_sim:
  assumes "prot_rel c reg boot r0 m lay st locked"
  shows "\<exists>st'. prot_step (Some boot) c evt st = Some (fst (prot_spec evt locked), st')
    \<and> prot_rel c reg boot r0 m lay st' (snd (prot_spec evt locked))"
proof -
  obtain s f where st: "st = (s, f)"
    by (cases st)
  obtain h where boot: "boot \<in> boot_addrs" and m: "m \<in> set prot_ids" and lay: "sectors s = lay"
      and h: "h \<in> set flash_list" "mid h = m" "prot_ready h s" "protects h c reg (bp_mask m)"
      and cmd: "app_block m (boot_area boot) = Some (flash_lockBlock_cmd s)"
      and f: "reg f = (r0 AND NOT (ucast (bp_mask m))) OR (if locked then flash_lockBlock_cmd s else 0)"
    using assms unfolding prot_rel_def st by auto
  let ?cmd = "flash_lockBlock_cmd s" and ?B = "ucast (bp_mask m) :: u16"
  have fits: "ucast ?cmd AND NOT (bp_mask m) = 0"
    using app_block_boot [OF m boot] cmd by auto
  have B: "bp_mask m AND NOT 0xffff = 0"
    using bp_mask_16 [OF h(1)] h(2) by simp
  have other: "reg f AND NOT ?B = r0 AND NOT ?B"
  proof -
    have "bit ?cmd n \<Longrightarrow> bit (bp_mask m) n" for n
      using arg_cong [OF fits, of "\<lambda>x. bit x n"] by (auto simp: bit_simps dest: bit_imp_le_length)
    then show ?thesis
      unfolding f by (auto intro!: bit_word_eqI simp: bit_simps)
  qed
  obtain fl where fl: "flash_lock c s (ucast ?cmd) f = Some (True, fl)" "reg fl = (r0 AND NOT ?B) OR ?cmd"
    using lock_on_chip(1) [OF h(4,3) B fits, of f] unfolding other by blast
  obtain fu where fu: "flash_unlock c s f = Some (True, fu)" "reg fu = r0 AND NOT ?B"
    using lock_on_chip(2) [OF h(4,3) B fits, of f] unfolding other by blast
  have rel: "prot_rel c reg boot r0 m lay (s, fl) True" "prot_rel c reg boot r0 m lay (s, fu) False"
    using assms fl(2) fu(2) unfolding prot_rel_def st by auto
  consider (start) "evt = FLASH_OP_EVT_APP_INITIALIZATION"
    | (begins) "evt \<in> {FLASH_OP_EVT_STACK_OTA_CLEAR_OLD_FW_BEGIN, FLASH_OP_EVT_STACK_OTA_WRITE_NEW_FW_BEGIN}"
    | (ends) "evt \<in> {FLASH_OP_EVT_STACK_OTA_CLEAR_OLD_FW_END, FLASH_OP_EVT_STACK_OTA_WRITE_NEW_FW_END}"
    | (other) "evt \<notin> {FLASH_OP_EVT_APP_INITIALIZATION, FLASH_OP_EVT_STACK_OTA_CLEAR_OLD_FW_BEGIN, FLASH_OP_EVT_STACK_OTA_WRITE_NEW_FW_BEGIN,
        FLASH_OP_EVT_STACK_OTA_CLEAR_OLD_FW_END, FLASH_OP_EVT_STACK_OTA_WRITE_NEW_FW_END}"
    by blast
  then show ?thesis
  proof cases
    case start
    have ready: "flash_protection_init c f s = Some s"
      using protection_init_again [OF h(1) _ h(3)] h(2) m by simp
    have same: "s\<lparr>flash_lockBlock_cmd := ?cmd\<rparr> = s"
      by simp
    have "flash_change_app_lock_block_to_flash_lock_block (boot_area boot) s = (?cmd, s)"
      using h(2,3) cmd by (simp add: flash_change_app_lock_block_to_flash_lock_block_def prot_ready_def)
    then show ?thesis
      using ready fl(1) rel(1) lock_app_block [OF boot] start same
      by (simp add: prot_step_def st prot_spec_def app_flash_protection_operation_def evt_defs)
  next
    case begins
    then show ?thesis
      using fu(1) rel(2) by (auto simp: prot_step_def st prot_spec_def app_flash_protection_operation_def evt_defs)
  next
    case ends
    then show ?thesis
      using fl(1) rel(1) by (auto simp: prot_step_def st prot_spec_def app_flash_protection_operation_def evt_defs)
  next
    case other
    then show ?thesis
      using assms by (simp add: prot_step_def st prot_spec_def app_flash_protection_operation_def)
  qed
qed

interpretation prot: simulates "prot_step (Some boot) c" prot_spec "\<lambda>e locked. True" "prot_rel c reg boot r0 m lay"
  for boot c reg r0 m lay
  by unfold_locales (rule prot_step_sim)

lemma prot_any_events: "spec_env prot_spec (\<lambda>e locked. True) evts locked"
  by (induction evts arbitrary: locked) simp_all

text \<open>The locked block covers the firmware and leaves the data of the system out.\<close>

lemma read_size_layout:
  assumes "flash_read_mid c f = Some m" and "m \<in> set prot_ids"
  shows "\<exists>s'. blc_readFlashSize_autoConfigCustomFlashSector True c f s = Some s' \<and> blc_flash_mid s' = m \<and> init_err s' = init_err s
    \<and> sectors s' = layout_of m"
proof -
  have "\<forall>m \<in> set prot_ids. ucast (drop_bit 16 (m AND 0x00ff0000)) \<in> {FLASH_SIZE_512K, FLASH_SIZE_1M}"
    by code_simp
  then have "ucast (drop_bit 16 (m AND 0x00ff0000)) \<in> {FLASH_SIZE_512K, FLASH_SIZE_1M}"
    using assms(2) by blast
  moreover have "FLASH_SIZE_512K \<noteq> FLASH_SIZE_1M"
    by (simp add: FLASH_SIZE_512K_def FLASH_SIZE_1M_def)
  ultimately show ?thesis
    using assms(1)
    by (auto simp: blc_readFlashSize_autoConfigCustomFlashSector_def blc_flash_read_mid_get_vendor_set_capacity_def
        sectors_def layout_of_def)
qed

section \<open>The theorem\<close>

text \<open>
  C37: On a chip of the SDK whose status register works, the firmware is protected at every time but during an update.
  After the layout has been chosen and the protection initialized, whatever the status register was, every sequence of
  events of the stack leaves the block bits at the block of the application, or at no block exactly when the last of
  the update events is the begin of one; the other bits of the register stay as they were.  The block starts at 0, covers
  the two firmware areas of the boot address (of the second one up to 448 K on a chip with 512 K) and
  ends before each of the sectors with the address, the calibration, the bonds and the discovered services.
\<close>

theorem firmware_locked_but_during_update:
  assumes c: "status_chip c reg W" and W: "bp_mask m AND NOT (ucast W) = 0" and m: "m \<in> set prot_ids" and boot: "boot \<in> boot_addrs"
    and rd: "flash_read_mid c f = Some m" and s: "init_err s = 0"
  shows "\<exists>s1 st2 outs s3 f3 y.
     blc_readFlashSize_autoConfigCustomFlashSector True c f s = Some s1
     \<and> app_flash_protection_operation (Some boot) c FLASH_OP_EVT_APP_INITIALIZATION (s1, f) = Some st2
     \<and> run_out (prot_step (Some boot) c) evts st2 = Some (outs, s3, f3)
     \<and> (ucast (flash_lockBlock_cmd s3), 0, y) \<in> set (blocks_of m)
     \<and> firmware_end (boot_area boot) \<le> y \<and> (\<forall>a \<in> set (sectors s3). y < a)
     \<and> reg f3 = (reg f AND NOT (ucast (bp_mask m)))
          OR (if snd (spec_out prot_spec evts True) then flash_lockBlock_cmd s3 else 0)"
proof -
  obtain s1 where s1: "blc_readFlashSize_autoConfigCustomFlashSector True c f s = Some s1" "blc_flash_mid s1 = m" "init_err s1 = 0"
      "sectors s1 = layout_of m"
    using read_size_layout [OF rd m] s by metis
  then obtain st2 where st2: "app_flash_protection_operation (Some boot) c FLASH_OP_EVT_APP_INITIALIZATION (s1, f) = Some st2"
      "prot_rel c reg boot (reg f) m (layout_of m) st2 True"
    using prot_init [OF c W m boot rd, of s1] by auto
  obtain s3 f3 where st3: "run_out (prot_step (Some boot) c) evts st2 = Some (fst (spec_out prot_spec evts True), s3, f3)"
      "prot_rel c reg boot (reg f) m (layout_of m) (s3, f3) (snd (spec_out prot_spec evts True))"
    using prot.run_sim [OF st2(2) prot_any_events] by (metis surj_pair)
  have cmd: "app_block m (boot_area boot) = Some (flash_lockBlock_cmd s3)" and lay: "sectors s3 = layout_of m"
      and bits: "reg f3 = (reg f AND NOT (ucast (bp_mask m))) OR (if snd (spec_out prot_spec evts True) then flash_lockBlock_cmd s3 else 0)"
    using st3(2) by (simp_all add: prot_rel_def)
  obtain y where "(ucast (flash_lockBlock_cmd s3), 0, y) \<in> set (blocks_of m)" "firmware_end (boot_area boot) \<le> y"
      "\<forall>a \<in> set (layout_of m). y < a"
    using app_block_covers [OF m boot cmd] by blast
  then show ?thesis
    using s1(1) st2(1) st3(1) bits unfolding lay [symmetric] by blast
qed

text \<open>A chip with an identification.\<close>

definition ident_chip :: "u16 chip" where
  "ident_chip = register_chip\<lparr>bus_read := (\<lambda>bs n r. if bs = [0x9f] then [0xC8, 0x60, 0x13] else bus_read register_chip bs n r)\<rparr>"

lemma ident_chip: "status_chip ident_chip (\<lambda>r. r) (- 1)"
  using register_chip
  by (simp add: status_chip_def ident_chip_def flash_read_status_def flash_write_status_def flash_mspi_read_ram_def
      flash_mspi_write_ram_def FLASH_READ_STATUS_CMD_LOWBYTE_def FLASH_READ_STATUS_CMD_HIGHBYTE_def split: flash_status_type.splits)

definition prot_start :: "u16 prot" where
  "prot_start = \<lparr>blc_flash_mid = 0, blc_flash_vendor = 0, blc_flash_capacity = 0, init_err = 0, flash_lock_mid = None,
     flash_unlock_mid = None, flash_get_lock_status_mid = None, flash_unlock_status = 0, flash_lockBlock_cmd = 0,
     flash_sector_mac_address = 0x76000, flash_sector_calibration = 0x77000, flash_sector_smp_storage = 0x78000,
     flash_sector_simple_sdp_att = 0x7D000\<rparr>"

theorem firmware_locked_but_during_update_witness:
  "\<exists>s1 st2 outs s3 f3 y.
     blc_readFlashSize_autoConfigCustomFlashSector True ident_chip 0x0804 prot_start = Some s1
     \<and> app_flash_protection_operation (Some 0x40000) ident_chip FLASH_OP_EVT_APP_INITIALIZATION (s1, 0x0804) = Some st2
     \<and> run_out (prot_step (Some 0x40000) ident_chip) [12, 13, 10, 11, 30] st2 = Some (outs, s3, f3)
     \<and> (ucast (flash_lockBlock_cmd s3), 0, y) \<in> set (blocks_of 0x1360c8)
     \<and> 0x6ffff \<le> y \<and> list_all (\<lambda>a. y < a) (sectors s3) \<and> f3 = 0x0800 OR flash_lockBlock_cmd s3"
proof -
  have t: "bp_mask 0x1360c8 AND NOT (ucast (- 1 :: u16)) = 0" "0x1360c8 \<in> set prot_ids" "0x0804 AND NOT (ucast (bp_mask 0x1360c8)) = (0x0800 :: u16)"
    "firmware_end (boot_area 0x40000) = 0x6ffff" "snd (spec_out prot_spec [12, 13, 10, 11, 30] True) = True"
    by code_simp+
  have b: "0x40000 \<in> boot_addrs"
    by (simp add: boot_addrs_def MULTI_BOOT_ADDR_0x40000_def)
  have rd: "flash_read_mid ident_chip 0x0804 = Some 0x1360c8"
    by code_simp
  have s: "init_err prot_start = 0"
    by (simp add: prot_start_def)
  show ?thesis
    using firmware_locked_but_during_update [OF ident_chip t(1,2) b rd s, of "[12, 13, 10, 11, 30]"]
    unfolding t(3,4,5) if_True list_all_iff by blast
qed

text \<open>A chip that ignores every write of its status register.\<close>

definition stuck_chip :: "u16 chip" where
  "stuck_chip = register_chip\<lparr>bus_write := (\<lambda>bs r. r)\<rparr>"

definition prot_1360c8 :: "u16 prot" where
  "prot_1360c8 = set_flash flash_lock_mid1360c8 flash_unlock_mid1360c8 flash_get_lock_block_mid1360c8 0 (prot_start\<lparr>blc_flash_mid := MID1360C8\<rparr>)"

theorem flash_lock_reports_status_witness:
  "flash_lock stuck_chip prot_1360c8 0x10 0 = Some (False, 0) \<and> flash_unlock register_chip prot_1360c8 0x0810 = Some (True, 0x0800)
   \<and> \<not> (\<exists>v. get_status stuck_chip prot_1360c8 0 = Some v \<and> ucast v = (0x10 :: u32))
   \<and> get_status register_chip prot_1360c8 0x0800 = Some (flash_unlock_status prot_1360c8)"
proof -
  have 1: "flash_lock stuck_chip prot_1360c8 0x10 0 = Some (False, 0)"
    by code_simp
  have 2: "flash_unlock register_chip prot_1360c8 0x0810 = Some (True, 0x0800)"
    by code_simp
  have 3: "init_err prot_1360c8 = 0"
    by (simp add: prot_1360c8_def prot_start_def set_flash_def)
  have "\<not> (\<exists>v. get_status stuck_chip prot_1360c8 0 = Some v \<and> ucast v = (0x10 :: u32))"
    using conjunct1 [OF flash_lock_reports_status [of stuck_chip prot_1360c8 "0x10" 0]] 1 3 by blast
  moreover have "get_status register_chip prot_1360c8 0x0800 = Some (flash_unlock_status prot_1360c8)"
    using conjunct2 [OF flash_lock_reports_status [of register_chip prot_1360c8 0 "0x0810"]] 2 by blast
  ultimately show ?thesis
    using 1 2 by blast
qed

section \<open>Without protection\<close>

lemma set_flash_keeps [simp]:
  "init_err (set_flash l u g v s) = init_err s" "blc_flash_mid (set_flash l u g v s) = blc_flash_mid s"
  by (simp_all add: set_flash_def)

lemma protection_init_mid:
  assumes "flash_read_mid c f = Some m \<or> blc_flash_mid s \<noteq> 0" and "blc_flash_mid s \<in> {0, m}"
  shows "\<exists>s1. flash_protection_init c f s = Some s1 \<and> blc_flash_mid s1 = m \<and> init_err s1 = (if m \<in> set prot_ids then init_err s else 1)"
proof -
  have "(if blc_flash_mid s = 0 then do { m \<leftarrow> flash_read_mid c f; Some (s\<lparr>blc_flash_mid := m\<rparr>) } else Some s) = Some (s\<lparr>blc_flash_mid := m\<rparr>)"
    using assms by auto
  then show ?thesis
    by (simp add: flash_protection_init_def prot_ids_def)
qed

lemma app_block_error:
  "\<exists>b s'. flash_change_app_lock_block_to_flash_lock_block app s = (b, s') \<and> blc_flash_mid s' = blc_flash_mid s
     \<and> (init_err s \<noteq> 0 \<or> app_block (blc_flash_mid s) app = None \<longrightarrow> init_err s' \<noteq> 0)"
  by (cases "app_block (blc_flash_mid s) app") (simp_all add: flash_change_app_lock_block_to_flash_lock_block_def)

lemma protection_off_init:
  assumes "flash_protection_init c f s = Some s1" and "init_err s1 \<noteq> 0 \<or> app_block (blc_flash_mid s1) (case ota of
      Some boot \<Rightarrow> if boot = MULTI_BOOT_ADDR_0x20000 then FLASH_LOCK_FW_LOW_256K else if boot = MULTI_BOOT_ADDR_0x40000 then FLASH_LOCK_FW_LOW_512K else 0
    | None \<Rightarrow> FLASH_LOCK_FW_LOW_512K) = None"
  shows "\<exists>s'. app_flash_protection_operation ota c FLASH_OP_EVT_APP_INITIALIZATION (s, f) = Some (s', f)
     \<and> init_err s' \<noteq> 0 \<and> blc_flash_mid s' = blc_flash_mid s1"
proof -
  define app where "app = (case ota of Some boot \<Rightarrow> if boot = MULTI_BOOT_ADDR_0x20000 then FLASH_LOCK_FW_LOW_256K
      else if boot = MULTI_BOOT_ADDR_0x40000 then FLASH_LOCK_FW_LOW_512K else 0 | None \<Rightarrow> FLASH_LOCK_FW_LOW_512K)"
  obtain b s2 where "flash_change_app_lock_block_to_flash_lock_block app s1 = (b, s2)" "blc_flash_mid s2 = blc_flash_mid s1" "init_err s2 \<noteq> 0"
    using app_block_error [of app s1] assms(2) unfolding app_def by blast
  then show ?thesis
    using assms(1) by (simp add: app_flash_protection_operation_def app_def [symmetric] flash_lock_def)
qed

lemma protection_off_step:
  assumes "init_err s \<noteq> 0" and "blc_flash_mid s \<noteq> 0"
  shows "\<exists>s'. init_err s' \<noteq> 0 \<and> blc_flash_mid s' \<noteq> 0 \<and> prot_step ota c evt (s, f) = Some ((), s', f)"
proof (cases "evt = FLASH_OP_EVT_APP_INITIALIZATION")
  case True
  obtain s1 where "flash_protection_init c f s = Some s1" "blc_flash_mid s1 = blc_flash_mid s" "init_err s1 \<noteq> 0"
    using protection_init_mid [of c f "blc_flash_mid s" s] assms by (auto split: if_splits)
  then show ?thesis
    using protection_off_init [of c f s s1 ota] assms(2) True by (auto simp: prot_step_def)
next
  case False
  then show ?thesis
    using assms by (simp add: prot_step_def app_flash_protection_operation_def flash_lock_def flash_unlock_def)
qed

lemma protection_off:
  assumes "init_err s \<noteq> 0" and "blc_flash_mid s \<noteq> 0"
  shows "\<exists>outs s'. run_out (prot_step ota c) evts (s, f) = Some (outs, s', f)"
  using assms
proof (induction evts arbitrary: s)
  case (Cons e evts)
  obtain s1 where s1: "init_err s1 \<noteq> 0" "blc_flash_mid s1 \<noteq> 0" "prot_step ota c e (s, f) = Some ((), s1, f)"
    using protection_off_step [OF Cons.prems] by blast
  then show ?case
    using Cons.IH [OF s1(1,2)] by auto
qed simp

lemma app_block_other: "m \<in> set prot_ids \<Longrightarrow> app_block m 0 = None"
  by (auto simp: prot_ids_def app_block_def lock_512K_def lock_1M_def FLASH_LOCK_FW_LOW_256K_def FLASH_LOCK_FW_LOW_512K_def
     FLASH_LOCK_FW_LOW_1M_def FLASH_LOCK_ALL_AREA_def mid_defs)

text \<open>
  C38: An unknown chip, or a boot address that is neither 0x20000 nor 0x40000, switches the protection off without a sign to the
  caller: the initialization and every event after it return, and none of them changes the flash.  A chip that was locked before
  stays locked, also while an update writes the new firmware.
\<close>

theorem protection_error_is_silent:
  assumes rd: "flash_read_mid c f = Some m" and m: "m \<noteq> 0" and s: "blc_flash_mid s \<in> {0, m}" and e: "m \<notin> set prot_ids \<or> boot \<notin> boot_addrs"
  shows "\<exists>s' outs s3. app_flash_protection_operation (Some boot) c FLASH_OP_EVT_APP_INITIALIZATION (s, f) = Some (s', f)
    \<and> init_err s' \<noteq> 0 \<and> run_out (prot_step (Some boot) c) evts (s', f) = Some (outs, s3, f)"
proof -
  obtain s1 where s1: "flash_protection_init c f s = Some s1" "blc_flash_mid s1 = m" "init_err s1 = (if m \<in> set prot_ids then init_err s else 1)"
    using protection_init_mid [of c f m s] rd s by blast
  have "init_err s1 \<noteq> 0 \<or> app_block (blc_flash_mid s1) (if boot = MULTI_BOOT_ADDR_0x20000 then FLASH_LOCK_FW_LOW_256K
      else if boot = MULTI_BOOT_ADDR_0x40000 then FLASH_LOCK_FW_LOW_512K else 0) = None"
    using e s1 app_block_other [of m] by (auto simp: boot_addrs_def)
  then have "\<exists>s'. app_flash_protection_operation (Some boot) c FLASH_OP_EVT_APP_INITIALIZATION (s, f) = Some (s', f)
     \<and> init_err s' \<noteq> 0 \<and> blc_flash_mid s' = blc_flash_mid s1"
    using protection_off_init [OF s1(1), of "Some boot"] by simp
  then obtain s' where s': "app_flash_protection_operation (Some boot) c FLASH_OP_EVT_APP_INITIALIZATION (s, f) = Some (s', f)"
      "init_err s' \<noteq> 0" "blc_flash_mid s' \<noteq> 0"
    using s1(2) m by auto
  show ?thesis
    using s'(1,2) protection_off [OF s'(2,3), of "Some boot" c evts f] by blast
qed

theorem protection_error_is_silent_witness:
  "\<exists>s' outs s3. app_flash_protection_operation (Some 0x80000) ident_chip FLASH_OP_EVT_APP_INITIALIZATION (prot_start, 0x0810) = Some (s', 0x0810)
    \<and> init_err s' \<noteq> 0 \<and> run_out (prot_step (Some 0x80000) ident_chip) [12, 13] (s', 0x0810) = Some (outs, s3, 0x0810)"
proof (rule protection_error_is_silent)
  show "flash_read_mid ident_chip 0x0810 = Some 0x1360c8"
    by code_simp
  show "0x1360c8 \<notin> set prot_ids \<or> 0x80000 \<notin> boot_addrs"
    by (simp add: boot_addrs_def MULTI_BOOT_ADDR_0x20000_def MULTI_BOOT_ADDR_0x40000_def)
qed (simp_all add: prot_start_def)

end
