(* ===== verification/Flash_Layout_Theorems.thy ===== *)
theory Flash_Layout_Theorems
  imports Flash_Prot
begin

text \<open>
  The address of the device and the check of the firmware of theory Flash_Prot, on a NOR flash: the address that the first
  start chooses is the one of every later start, and the check of the firmware is the checksum of the image, with
  the sizes for which its last read leaves the buffer.
\<close>

section \<open>The address of the device\<close>

text \<open>The callback of the protection may change the lock of the flash, not its contents.\<close>

definition cb_keeps :: "('f \<Rightarrow> mem) \<Rightarrow> 'f flash_cb option \<Rightarrow> bool" where
  "cb_keeps cell cb \<longleftrightarrow> (\<forall>g. cb = Some g \<longrightarrow> (\<forall>evt a b f. \<exists>f'. g evt a b f = Some f' \<and> cell f' = cell f))"

lemma call_cb_cells: "cb_keeps cell cb \<Longrightarrow> \<exists>f'. call_cb cb evt a b f = Some f' \<and> cell f' = cell f"
  by (cases cb) (auto simp: call_cb_def cb_keeps_def)

text \<open>A write with the callbacks around it.\<close>

lemma guarded_program:
  assumes nf: "nor_flash cap cell c" and cb: "cb_keeps cell cb" and fits: "a + length xs \<le> cap"
    and erased: "\<forall>b. a \<le> b \<and> b < a + length xs \<longrightarrow> cell f b = 0xFF"
  shows "\<exists>f1 f2 f3. call_cb cb e1 x1 y1 f = Some f1 \<and> flash_page_program c False (of_nat a) xs f1 = Some f2
    \<and> call_cb cb e2 x2 y2 f2 = Some f3 \<and> cell f3 = (\<lambda>b. if a \<le> b \<and> b < a + length xs then xs ! (b - a) else cell f b)"
proof -
  obtain f1 where f1: "call_cb cb e1 x1 y1 f = Some f1" "cell f1 = cell f"
    using call_cb_cells [OF cb] by blast
  obtain f2 where f2: "flash_page_program c False (of_nat a) xs f1 = Some f2" "cell f2 = burn a xs (cell f1)"
    using flash_page_program_cells [OF nf fits] by blast
  obtain f3 where f3: "call_cb cb e2 x2 y2 f2 = Some f3" "cell f3 = cell f2"
    using call_cb_cells [OF cb] by blast
  show ?thesis
    using f1 f2 f3 burn_erased [of a xs "cell f"] erased by auto
qed

text \<open>The address as it is in the flash, and the one that the code derives of it.\<close>

definition mac_cells :: "('f \<Rightarrow> mem) \<Rightarrow> nat \<Rightarrow> 'f \<Rightarrow> u8 list" where
  "mac_cells cell a f = map (cell f) [a..<a + 8]"

definition addrs_of :: "u8 list \<Rightarrow> u8 list \<times> u8 list" where
  "addrs_of m = (take 6 m, take 3 m @ drop 6 m @ [0xC0])"

lemma high_bytes: "(ucast x OR push_bit 8 (ucast y) :: u16) \<noteq> 0xFFFF \<longleftrightarrow> \<not> (x = 0xFF \<and> y = 0xFF)" for x y :: u8
proof -
  have x: "x = ucast (ucast x OR push_bit 8 (ucast y) :: u16)"
    by (auto intro!: bit_word_eqI simp: bit_simps)
  have "\<not> bit x (8 + n)" for n
    using bit_imp_le_length [of x "8 + n"] by auto
  then have y: "y = ucast (drop_bit 8 (ucast x OR push_bit 8 (ucast y) :: u16))"
    by (auto intro!: bit_word_eqI simp: bit_simps)
  have "ucast (0xFFFF :: u16) = (0xFF :: u8)" "ucast (drop_bit 8 (0xFFFF :: u16)) = (0xFF :: u8)"
    "(ucast (0xFF :: u8) OR push_bit 8 (ucast (0xFF :: u8)) :: u16) = 0xFFFF"
    by code_simp+
  then show ?thesis
    using x y by metis
qed

text \<open>One start, for each of the four contents of the sector.\<close>

lemma mac_read:
  assumes "nor_flash cap cell c" and "a + 8 \<le> cap"
  shows "get_bytes (flash_read_data c (of_nat a) 8 f) 0 8 = Some (mac_cells cell a f)"
proof -
  have "flash_read_data c (of_nat a) 8 f = mac_cells cell a f"
    using flash_read_data_cells [OF assms(1), of a 8 f] assms(2) by (simp add: mac_cells_def)
  then show ?thesis
    by (simp add: get_bytes_def mac_cells_def)
qed

lemma mac_cells_nth [simp]: "i < 8 \<Longrightarrow> mac_cells cell a f ! i = cell f (a + i)" "length (mac_cells cell a f) = 8"
  by (simp_all add: mac_cells_def)

text \<open>The bytes that the sector has after a start with the random numbers \<open>vr\<close>.\<close>

definition chosen :: "u8 list \<Rightarrow> u8 list \<Rightarrow> u8 list" where
  "chosen vr m =
     (if take 6 m \<noteq> replicate 6 0xff then take 6 m else take 3 vr @ [0x38, 0xC1, 0xA4])
     @ (if drop 6 m \<noteq> [0xff, 0xff] then drop 6 m else drop 3 vr)"

lemma length_chosen: "length vr = 5 \<Longrightarrow> length m = 8 \<Longrightarrow> length (chosen vr m) = 8"
  by (simp add: chosen_def)

lemma put_all: "length xs = length buf \<Longrightarrow> put_bytes buf 0 xs = Some xs"
  by (simp add: put_bytes_def)

text \<open>The bytes of the other array, in the order of the code.\<close>

lemma put_random_static:
  assumes "length rs = 6" and "length p = 3"
  shows "\<exists>rs1 rs2. put_bytes rs 0 p = Some rs1 \<and> put_byte rs1 5 y = Some rs2
    \<and> (\<forall>x. length x = 2 \<longrightarrow> put_bytes rs2 3 x = Some (p @ x @ [y]))"
proof -
  obtain r0 r1 r2 r3 r4 r5 p0 p1 p2 where "rs = [r0, r1, r2, r3, r4, r5]" "p = [p0, p1, p2]"
    using assms by (auto simp: numeral_eq_Suc length_Suc_conv)
  then show ?thesis
    by (simp add: put_bytes_def put_byte_def numeral_eq_Suc)
qed

lemma cells_over:
  assumes "\<And>i. i < n \<Longrightarrow> xs ! i = m (a + i)"
  shows "m = (\<lambda>b. if a \<le> b \<and> b < a + n then xs ! (b - a) else m b)"
proof
  fix b
  show "m b = (if a \<le> b \<and> b < a + n then xs ! (b - a) else m b)"
    using assms [of "b - a"] by auto
qed

text \<open>The two parts of the address: what is in the flash stays, what is erased is written.\<close>

lemma keep_or_write:
  assumes nf: "nor_flash cap cell c" and cb: "cb_keeps cell cb" and fits: "a + length xs \<le> cap" and l: "length old = length xs"
    and old: "\<And>i. i < length xs \<Longrightarrow> old ! i = cell f (a + i)"
  shows "\<exists>f3. (if old \<noteq> replicate (length xs) 0xff then Some (old, f)
      else do {
        f \<leftarrow> call_cb cb ea xa ya f;
        f \<leftarrow> flash_page_program c False (of_nat a) xs f;
        f \<leftarrow> call_cb cb eb xb yb f;
        Some (xs, f) }) = Some (if old \<noteq> replicate (length xs) 0xff then old else xs, f3)
    \<and> cell f3 = (\<lambda>b. if a \<le> b \<and> b < a + length xs then (if old \<noteq> replicate (length xs) 0xff then old else xs) ! (b - a) else cell f b)"
proof (cases "old = replicate (length xs) 0xff")
  case True
  have "\<forall>b. a \<le> b \<and> b < a + length xs \<longrightarrow> cell f b = 0xFF"
  proof (intro allI impI)
    fix b
    assume "a \<le> b \<and> b < a + length xs"
    then show "cell f b = 0xFF"
      using old [of "b - a"] True by auto
  qed
  from guarded_program [OF nf cb fits this, of ea xa ya eb xb yb] show ?thesis
    using True by auto
next
  case False
  then show ?thesis
    using cells_over [of "length xs" old "cell f" a] old by auto
qed

text \<open>One start.\<close>

lemma mac_start:
  assumes nf: "nor_flash cap cell c" and cb: "cb_keeps cell cb" and fits: "a + 8 \<le> cap" and sector: "sector \<noteq> 0"
    and len: "length vr = 5" "length pub = 6" "length rs = 6"
  shows "\<exists>f'. blc_initMacAddress c cb sector vr (of_nat a) pub rs f =
      Some (fst (addrs_of (chosen vr (mac_cells cell a f))), snd (addrs_of (chosen vr (mac_cells cell a f))), f')
    \<and> mac_cells cell a f' = chosen vr (mac_cells cell a f) \<and> (\<forall>b. b < a \<or> a + 8 \<le> b \<longrightarrow> cell f' b = cell f b)"
proof -
  define M where "M = mac_cells cell a f"
  have M: "length M = 8" "\<And>i. i < 8 \<Longrightarrow> M ! i = cell f (a + i)"
    by (simp_all add: M_def)
  define new where "new = take 3 vr @ [0x38, 0xC1, 0xA4]"
  have new: "length new = 6"
    using len(1) by (simp add: new_def)
  define P where "P = (if take 6 M \<noteq> replicate 6 0xff then take 6 M else new)"
  have P: "length P = 6"
    using M(1) new by (simp add: P_def)
  define X where "X = (if drop 6 M \<noteq> [0xff, 0xff] then drop 6 M else drop 3 vr)"
  have X: "length X = 2"
    using M(1) len(1) by (simp add: X_def)
  obtain f1 where f1: "(if take 6 M \<noteq> replicate 6 0xff then Some (take 6 M, f)
      else do {
        f \<leftarrow> call_cb cb FLASH_OP_EVT_APP_WRITE_MAC_ADDR_BEGIN (of_nat a) (of_nat a + 6) f;
        f \<leftarrow> flash_page_program c False (of_nat a) new f;
        f \<leftarrow> call_cb cb FLASH_OP_EVT_APP_WRITE_MAC_ADDR_END (of_nat a) (of_nat a + 6) f;
        Some (new, f) }) = Some (P, f1)" "cell f1 = (\<lambda>b. if a \<le> b \<and> b < a + 6 then P ! (b - a) else cell f b)"
    using keep_or_write [OF nf cb, of a new "take 6 M" f FLASH_OP_EVT_APP_WRITE_MAC_ADDR_BEGIN "of_nat a" "of_nat a + 6"
        FLASH_OP_EVT_APP_WRITE_MAC_ADDR_END "of_nat a" "of_nat a + 6"] fits M new unfolding P_def by auto
  have d3: "length (drop 3 vr) = 2"
    using len(1) by simp
  have old2: "drop 6 M ! i = cell f1 (a + 6 + i)" if "i < length (drop 3 vr)" for i
    using that d3 M unfolding f1(2) by (simp add: add.assoc)
  have r2: "replicate (length (drop 3 vr)) (0xff :: u8) = [0xff, 0xff]"
    unfolding d3 by (simp add: numeral_2_eq_2)
  obtain f2 where f2: "(if drop 6 M \<noteq> [0xff, 0xff] then Some (drop 6 M, f1)
      else do {
        f \<leftarrow> call_cb cb FLASH_OP_EVT_APP_WRITE_MAC_ADDR_BEGIN (of_nat a + 6) (of_nat a + 8) f1;
        f \<leftarrow> flash_page_program c False (of_nat (a + 6)) (drop 3 vr) f;
        f \<leftarrow> call_cb cb FLASH_OP_EVT_APP_WRITE_MAC_ADDR_END (of_nat a + 6) (of_nat a + 8) f;
        Some (drop 3 vr, f) }) = Some (X, f2)" "cell f2 = (\<lambda>b. if a + 6 \<le> b \<and> b < a + 6 + 2 then X ! (b - (a + 6)) else cell f1 b)"
    using keep_or_write [where xs = "drop 3 vr" and old = "drop 6 M" and f = f1 and a = "a + 6", OF nf cb _ _ old2,
        where ea = FLASH_OP_EVT_APP_WRITE_MAC_ADDR_BEGIN and xa = "of_nat a + 6" and ya = "of_nat a + 8"
        and eb = FLASH_OP_EVT_APP_WRITE_MAC_ADDR_END and xb = "of_nat a + 6" and yb = "of_nat a + 8"] fits d3 M(1)
    unfolding r2 X_def by auto
  obtain rs1 rs2 where rs: "put_bytes rs 0 (take 3 P) = Some rs1" "put_byte rs1 5 0xC0 = Some rs2"
      "\<And>x. length x = 2 \<Longrightarrow> put_bytes rs2 3 x = Some (take 3 P @ x @ [0xC0])"
    using put_random_static [of rs "take 3 P" "0xC0"] len(3) P by auto
  have hi: "(ucast (M ! 6) OR push_bit 8 (ucast (M ! 7)) :: u16) \<noteq> 0xFFFF \<longleftrightarrow> drop 6 M \<noteq> [0xff, 0xff]"
  proof -
    have "drop 6 M = [M ! 6, M ! 7]"
      using M(1) by (auto intro!: nth_equalityI simp: less_2_cases_iff)
    then show ?thesis
      unfolding high_bytes by simp
  qed
  have cells: "mac_cells cell a f2 = P @ X"
    by (rule nth_equalityI) (auto simp: P X f2(2) f1(2) nth_append)
  have "blc_initMacAddress c cb sector vr (of_nat a) pub rs f = Some (P, take 3 P @ X @ [0xC0], f2)"
  proof -
    have g: "get_bytes vr 0 3 = Some (take 3 vr)" "get_bytes vr 3 2 = Some (drop 3 vr)" "get_bytes P 0 3 = Some (take 3 P)"
      "get_bytes new 0 6 = Some new" "put_bytes pub 0 (take 6 M) = Some (take 6 M)" "put_bytes pub 0 new = Some new"
      using len P new M(1) by (simp_all add: get_bytes_def put_all)
    have s1: "(if take 6 M \<noteq> replicate 6 0xff then do { mac_public \<leftarrow> put_bytes pub 0 (take 6 M); Some (mac_public, f) }
        else do {
          r \<leftarrow> get_bytes vr 0 3;
          mac_public \<leftarrow> put_bytes pub 0 (r @ [0x38, 0xC1, 0xA4]);
          f \<leftarrow> call_cb cb FLASH_OP_EVT_APP_WRITE_MAC_ADDR_BEGIN (of_nat a) (of_nat a + 6) f;
          pub \<leftarrow> get_bytes mac_public 0 6;
          f \<leftarrow> flash_page_program c False (of_nat a) pub f;
          f \<leftarrow> call_cb cb FLASH_OP_EVT_APP_WRITE_MAC_ADDR_END (of_nat a) (of_nat a + 6) f;
          Some (mac_public, f) }) = Some (P, f1)"
      unfolding f1(1) [symmetric] by (simp only: g Option.bind.bind_lunit new_def [symmetric])
    have s2: "(if drop 6 M \<noteq> [0xff, 0xff] then do { r \<leftarrow> put_bytes rs2 3 (drop 6 M); Some (P, r, f1) }
        else do {
          r \<leftarrow> get_bytes vr 3 2;
          rs \<leftarrow> put_bytes rs2 3 r;
          f \<leftarrow> call_cb cb FLASH_OP_EVT_APP_WRITE_MAC_ADDR_BEGIN (of_nat a + 6) (of_nat a + 8) f1;
          f \<leftarrow> flash_page_program c False (of_nat a + 6) r f;
          f \<leftarrow> call_cb cb FLASH_OP_EVT_APP_WRITE_MAC_ADDR_END (of_nat a + 6) (of_nat a + 8) f;
          Some (P, rs, f) }) = Some (P, take 3 P @ X @ [0xC0], f2)"
      using f2(1) rs(3) [of "drop 6 M"] rs(3) [OF d3] M(1)
      by (cases "drop 6 M = [0xff, 0xff]") (auto simp: g X_def add.commute split: bind_splits)
    show ?thesis
      unfolding blc_initMacAddress_def mac_read [OF nf fits] M_def [symmetric] Let_def hi Option.bind.bind_lunit s1 g(3) rs(1,2) s2 prod.case
        if_not_P [OF sector] by (rule refl)
  qed
  moreover have "chosen vr M = P @ X" "addrs_of (P @ X) = (P, take 3 P @ X @ [0xC0])"
    using P by (simp_all add: chosen_def P_def X_def new_def addrs_of_def)
  ultimately show ?thesis
    using cells f2(2) f1(2) unfolding M_def [symmetric] by auto
qed

text \<open>The starts of the device: the random numbers of each, and the work on the flash after it.\<close>

fun mac_starts ::
    "'f chip \<Rightarrow> 'f flash_cb option \<Rightarrow> u32 \<Rightarrow> u32 \<Rightarrow> u8 list \<Rightarrow> u8 list \<Rightarrow> (u8 list \<times> ('f \<Rightarrow> 'f)) list \<Rightarrow> 'f \<Rightarrow> (u8 list \<times> u8 list) list option" where
  "mac_starts c cb sector addr pub rs [] f = Some []"
| "mac_starts c cb sector addr pub rs ((vr, work) # starts) f = do {
     (p, r, f) \<leftarrow> blc_initMacAddress c cb sector vr addr pub rs f;
     rest \<leftarrow> mac_starts c cb sector addr pub rs starts (work f);
     Some ((p, r) # rest) }"

text \<open>The random numbers are five bytes of which the last two are not both \<open>0xff\<close>; the work leaves the address alone.\<close>

definition start_ok :: "('f \<Rightarrow> mem) \<Rightarrow> nat \<Rightarrow> u8 list \<times> ('f \<Rightarrow> 'f) \<Rightarrow> bool" where
  "start_ok cell a = (\<lambda>(vr, work). length vr = 5 \<and> drop 3 vr \<noteq> [0xff, 0xff] \<and> (\<forall>f. mac_cells cell a (work f) = mac_cells cell a f))"

lemma chosen_written: "take 6 m \<noteq> replicate 6 0xff \<Longrightarrow> drop 6 m \<noteq> [0xff, 0xff] \<Longrightarrow> chosen vr m = m"
  by (simp add: chosen_def)

lemma chosen_parts:
  assumes "length vr = 5" and "length m = 8" and "drop 3 vr \<noteq> [0xff, 0xff]"
  shows "take 6 (chosen vr m) \<noteq> replicate 6 0xff \<and> drop 6 (chosen vr m) \<noteq> [0xff, 0xff]"
proof -
  have "take 3 vr @ [0x38, 0xC1, 0xA4] \<noteq> replicate 6 0xff"
  proof
    assume "take 3 vr @ [0x38, 0xC1, 0xA4] = (replicate 6 0xff :: u8 list)"
    then have "last (take 3 vr @ [0x38, 0xC1, 0xA4]) = last (replicate 6 (0xff :: u8))"
      by (rule arg_cong)
    then show False
      by simp
  qed
  then show ?thesis
    using assms by (simp add: chosen_def)
qed

text \<open>
  C39: The addresses of the device are permanent: on a NOR flash, whatever its sector for them holds, the addresses of the first
  start are those of every later start, for all random numbers of the later ones and all work on other
  cells in between.  The random static address shares its first three bytes with the public one and ends with \<open>0xC0\<close>, and a
  public address that was not in the flash carries the identifier of the company.
\<close>

theorem mac_address_permanent:
  assumes nf: "nor_flash cap cell c" and cb: "cb_keeps cell cb" and fits: "a + 8 \<le> cap" and sector: "sector \<noteq> 0"
    and len: "length pub = 6" "length rs = 6" and starts: "\<forall>st \<in> set starts. start_ok cell a st" and first: "start_ok cell a (vr, work)"
  shows "\<exists>p r. mac_starts c cb sector (of_nat a) pub rs ((vr, work) # starts) f = Some (replicate (Suc (length starts)) (p, r))
    \<and> take 3 r = take 3 p \<and> length r = 6 \<and> r ! 5 = 0xC0
    \<and> (p = take 6 (mac_cells cell a f) \<or> drop 3 p = [0x38, 0xC1, 0xA4] \<and> take 6 (mac_cells cell a f) = replicate 6 0xff)"
proof -
  have later: "mac_starts c cb sector (of_nat a) pub rs starts f = Some (replicate (length starts) (addrs_of m))"
    if now: "mac_cells cell a f = m" and w: "take 6 m \<noteq> replicate 6 0xff" "drop 6 m \<noteq> [0xff, 0xff]" for f m
    using starts now
  proof (induction starts arbitrary: f)
    case (Cons st starts)
    obtain vr work where st: "st = (vr, work)"
      by (cases st)
    then have ok: "length vr = 5" "\<And>f. mac_cells cell a (work f) = mac_cells cell a f"
      using Cons.prems(1) by (auto simp: start_ok_def)
    obtain f' where f': "blc_initMacAddress c cb sector vr (of_nat a) pub rs f = Some (fst (addrs_of m), snd (addrs_of m), f')"
        "mac_cells cell a f' = m"
      using mac_start [OF nf cb fits sector ok(1) len, of f] Cons.prems(2) chosen_written [OF w] by auto
    then show ?case
      using Cons.IH [of "work f'"] Cons.prems(1) ok(2) st by simp
  qed simp
  have ok: "length vr = 5" "drop 3 vr \<noteq> [0xff, 0xff]" "\<And>f. mac_cells cell a (work f) = mac_cells cell a f"
    using first by (auto simp: start_ok_def)
  define m where "m = chosen vr (mac_cells cell a f)"
  obtain f' where f': "blc_initMacAddress c cb sector vr (of_nat a) pub rs f = Some (fst (addrs_of m), snd (addrs_of m), f')"
      "mac_cells cell a f' = m"
    using mac_start [OF nf cb fits sector ok(1) len, of f] unfolding m_def by blast
  have m: "length m = 8" "take 6 m \<noteq> replicate 6 0xff" "drop 6 m \<noteq> [0xff, 0xff]"
    using chosen_parts [OF ok(1) _ ok(2), of "mac_cells cell a f"] length_chosen [OF ok(1)] by (simp_all add: m_def)
  have "mac_starts c cb sector (of_nat a) pub rs ((vr, work) # starts) f = Some (replicate (Suc (length starts)) (addrs_of m))"
    using f' later [of "work f'" m] ok(3) m(2,3) by simp
  moreover have "take 3 (snd (addrs_of m)) = take 3 (fst (addrs_of m))" "length (snd (addrs_of m)) = 6" "snd (addrs_of m) ! 5 = 0xC0"
    using m(1) by (simp_all add: addrs_of_def nth_append min_def)
  moreover have "fst (addrs_of m) = take 6 (mac_cells cell a f)
      \<or> drop 3 (fst (addrs_of m)) = [0x38, 0xC1, 0xA4] \<and> take 6 (mac_cells cell a f) = replicate 6 0xff"
    using ok(1) by (auto simp: addrs_of_def m_def chosen_def)
  ultimately show ?thesis
    by (metis surjective_pairing)
qed

theorem mac_address_permanent_witness:
  "\<exists>p r. mac_starts nor_chip None 0x76000 (of_nat 0x76000) (replicate 6 0) (replicate 6 0)
      [([1, 2, 3, 4, 5], \<lambda>f. f), ([6, 7, 8, 9, 10], \<lambda>f. f)] (False, \<lambda>_. 0xFF) = Some [(p, r), (p, r)] \<and> take 3 r = take 3 p \<and> r ! 5 = 0xC0"
proof -
  have "cb_keeps snd (None :: (bool \<times> mem) flash_cb option)"
    by (simp add: cb_keeps_def)
  from mac_address_permanent [OF nor_chip_nor this, of "0x76000" "0x76000" "replicate 6 0" "replicate 6 0"
      "[([6, 7, 8, 9, 10], \<lambda>f. f)]" "[1, 2, 3, 4, 5]" "\<lambda>f. f" "(False, \<lambda>_. 0xFF)"]
  show ?thesis
    by (simp add: start_ok_def) blast
qed

section \<open>The check of the firmware\<close>

text \<open>The checksum of the library goes through the half bytes: \<open>step\<close> is its table look-up.\<close>

definition fw_image :: "('f \<Rightarrow> mem) \<Rightarrow> nat \<Rightarrow> nat \<Rightarrow> 'f \<Rightarrow> u8 list" where
  "fw_image cell a n f = map (cell f) [a..<a + n]"

lemma fw_image_append: "fw_image cell a m f @ fw_image cell (a + m) n f = fw_image cell a (m + n) f"
  using upt_add_eq_append [of a "a + m" n] by (simp add: fw_image_def add.assoc flip: map_append)

lemma nibbles_append [simp]: "nibbles (xs @ ys) = nibbles xs @ nibbles ys"
  by (simp add: nibbles_def)

lemma nibbles_nil: "nibbles [] = []"
  by (simp add: nibbles_def)

lemma fw_read_image:
  assumes "nor_flash cap cell c" and "a + n \<le> cap" and "n \<le> 256"
  shows "fw_read c (of_nat a) (of_nat n) f = Some (fw_image cell a n f)"
proof -
  have n: "unat (of_nat n :: u32) = n"
    using assms(3) by (simp add: unat_of_nat)
  show ?thesis
    using flash_read_data_cells [OF assms(1), of a "of_nat n" f] assms(2,3)
    by (simp add: fw_read_def n FW_READ_SIZE_def get_bytes_def fw_image_def)
qed

lemma read_u32_cells:
  assumes "nor_flash cap cell c" and "a + 4 \<le> cap"
  shows "read_u32 c (of_nat a) f = Some (BYTES_TO_UINT32 (cell f a) (cell f (a + 1)) (cell f (a + 2)) (cell f (a + 3)))"
proof -
  have "flash_read_data c (of_nat a) 4 f = map (cell f) [a..<a + 4]"
    using flash_read_data_cells [OF assms(1), of a 4 f] assms(2) by simp
  then show ?thesis
    by (simp add: read_u32_def get_bytes_def upt_rec numeral_3_eq_3)
qed

lemma fw_block_loop_image:
  assumes nf: "nor_flash cap cell c" and "a + (i + k) * 256 \<le> cap"
  shows "fw_block_loop (\<lambda>k xs. fold step xs k) c (of_nat a) i k crc f = Some (fold step (nibbles (fw_image cell (a + i * 256) (k * 256) f)) crc)"
  using assms(2)
proof (induction k arbitrary: i crc)
  case 0
  show ?case
    by (simp add: fw_image_def nibbles_def)
next
  case (Suc k)
  have "a + i * 256 + 256 \<le> cap"
    using Suc.prems by simp
  then have r: "fw_read c (of_nat a + of_nat (i * FW_READ_SIZE)) (of_nat FW_READ_SIZE) f = Some (fw_image cell (a + i * 256) 256 f)"
    using fw_read_image [OF nf, of "a + i * 256" 256 f] by (simp add: FW_READ_SIZE_def)
  have next_block: "a + (i + 1 + k) * 256 \<le> cap"
    using Suc.prems by simp
  have "nibbles (fw_image cell (a + i * 256) (Suc k * 256) f) =
      nibbles (fw_image cell (a + i * 256) 256 f) @ nibbles (fw_image cell (a + (i + 1) * 256) (k * 256) f)"
    using fw_image_append [of cell "a + i * 256" 256 f "k * 256"] by (simp add: algebra_simps flip: nibbles_append)
  then show ?case
    using Suc.IH [OF next_block] by (simp only: fw_block_loop.simps r Option.bind.bind_lunit fold_append o_apply)
qed

text \<open>
  C40: The check of the firmware compares the last four bytes of the image with the checksum of all bytes before them, over the
  whole image and each byte once, in blocks of 256 bytes, for every image in the flash whose size modulo 256 is at least four; of the
  two images it checks the one that runs.  For the sizes that leave a rest of less than four bytes the length of the
  last read is negative, and the read leaves the buffer.
\<close>

theorem fw_check_is_checksum:
  assumes nf: "nor_flash cap cell c" and base: "base = (if offset = 0 then boot else 0)" and fits: "unat base + n \<le> cap" and n: "4 \<le> n" "n < 2 ^ 24"
    and len: "read_u32 c (base + 0x18) f = Some (of_nat n)" and sum: "read_u32 c (base + of_nat n - 4) f = Some v"
  shows "flash_fw_check (\<lambda>k xs. fold step xs k) c offset boot init f =
    (if n mod 256 < 4 then None
     else Some (v \<noteq> fold step (nibbles (fw_image cell (unat base) (n - 4) f)) (if init = 0 then 0xFFFFFFFF else init)))"
proof -
  define crc0 where "crc0 = (if init = 0 then 0xFFFFFFFF else init)"
  let ?q = "n div 256" and ?r = "n mod 256" and ?a = "unat base"
  note cap = n(2)
  have nq: "n = ?q * 256 + ?r"
    by simp
  have size: "unat (of_nat n :: u32) = n"
    using cap by (simp add: unat_of_nat)
  have block: "unat (ucast ((of_nat n :: u32) div 256) :: u16) = ?q"
  proof -
    have "?q < 65536"
      using cap by simp
    then show ?thesis
      by (simp add: unsigned_ucast_eq unat_div_distrib size take_bit_eq_mod)
  qed
  have uc: "(ucast w :: u16) = of_nat (unat w)" for w :: u32
    by simp
  have ud: "(ucast w :: u32) = of_nat (unat w)" for w :: u16
    by simp
  have rest: "(ucast ((of_nat n :: u32) mod 256) :: u16) = of_nat ?r"
    by (simp only: uc unat_mod_distrib size) simp
  have small: "unat (of_nat ?r :: u16) = ?r" "unat (of_nat ?r :: u32) = ?r"
    by (simp_all add: unat_of_nat)
  have rest32: "(ucast (of_nat ?r :: u16) :: u32) = of_nat ?r"
    by (simp only: ud small)
  have four: "((of_nat ?r :: u16) \<noteq> 4) = (?r \<noteq> 4)"
    by (simp add: word_unat_eq_iff small)
  have loop: "fw_block_loop (\<lambda>k xs. fold step xs k) c base 0 ?q crc0 f = Some (fold step (nibbles (fw_image cell ?a (?q * 256) f)) crc0)"
    using fw_block_loop_image [OF nf, of ?a 0 ?q step crc0 f] fits nq by simp
  show ?thesis
  proof (cases "?r < 4")
    case True
    then have "?r \<in> {0, 1, 2, 3}"
      by auto
    then have "256 < unat (of_nat ?r - 4 :: u32)"
      by (elim insertE emptyE) (simp_all only: of_nat_0 of_nat_1 of_nat_numeral, simp_all add: unsigned_minus_1_eq_mask mask_eq_exp_minus_1)
    then have "fw_read c (base + of_nat n - of_nat ?r) (of_nat ?r - 4) f = None"
      by (simp add: fw_read_def FW_READ_SIZE_def)
    then show ?thesis
      using True four by (simp add: flash_fw_check_def len block rest rest32 loop Let_def flip: base crc0_def)
  next
    case False
    have tail: "fw_read c (base + of_nat n - of_nat ?r) (of_nat ?r - 4) f = Some (fw_image cell (?a + ?q * 256) (?r - 4) f)"
    proof -
      have "of_nat (?a + ?q * 256) + of_nat ?r = (base + of_nat n :: u32)"
      proof -
        have "?a + ?q * 256 + ?r = ?a + n"
          by simp
        then have "of_nat (?a + ?q * 256) + of_nat ?r = (of_nat (?a + n) :: u32)"
          by (simp only: flip: of_nat_add)
        also have "\<dots> = base + of_nat n"
          by simp
        finally show ?thesis .
      qed
      then have at: "base + of_nat n - of_nat ?r = (of_nat (?a + ?q * 256) :: u32)"
        by (simp add: algebra_simps)
      have "(of_nat ?r - 4 :: u32) = of_nat (?r - 4)"
        using False by (simp add: of_nat_diff)
      moreover have "?a + ?q * 256 + (?r - 4) \<le> cap"
        using fits nq by linarith
      moreover have "?r - 4 \<le> 256"
        using mod_less_divisor [of 256 n] by linarith
      ultimately show ?thesis
        unfolding at using fw_read_image [OF nf, of "?a + ?q * 256" "?r - 4" f] by simp
    qed
    have all: "fw_image cell ?a (?q * 256) f @ fw_image cell (?a + ?q * 256) (?r - 4) f = fw_image cell ?a (n - 4) f"
      using fw_image_append [of cell ?a "?q * 256" f "?r - 4"] False nq by simp
    have nil: "fw_image cell (?a + ?q * 256) (?r - 4) f = []" if "?r = 4"
      using that by (simp add: fw_image_def)
    have "(do { crc \<leftarrow> (if ?r \<noteq> 4 then do { d \<leftarrow> fw_read c (base + of_nat n - of_nat ?r) (of_nat ?r - 4) f;
            Some (fold step (nibbles d) (fold step (nibbles (fw_image cell ?a (?q * 256) f)) crc0)) }
          else Some (fold step (nibbles (fw_image cell ?a (?q * 256) f)) crc0)); Some (v \<noteq> crc) }) =
        Some (v \<noteq> fold step (nibbles (fw_image cell ?a (n - 4) f)) crc0)"
      using nil by (auto simp: tail nibbles_nil simp flip: all)
    then show ?thesis
      using False
      by (cases "?r = 4") (simp_all add: flash_fw_check_def len sum block rest rest32 four loop Let_def flip: base crc0_def)
  qed
qed

text \<open>Two images of 20 and of 258 bytes in an erased flash, with a checksum that adds the half bytes.\<close>

definition fw_mem :: "u8 \<Rightarrow> u8 \<Rightarrow> mem" where
  "fw_mem lo hi = (\<lambda>b. if b < 0x18 then 0 else if b = 0x18 then lo else if b = 0x19 then hi else 0)"

theorem fw_check_is_checksum_witness:
  "flash_fw_check (\<lambda>k xs. fold (\<lambda>x s. s + ucast x) xs k) nor_chip 1 0x20000 0 (False, fw_mem 0x1c 0) = Some True
   \<and> flash_fw_check (\<lambda>k xs. fold (\<lambda>x s. s + ucast x) xs k) nor_chip 1 0x20000 0 (False, fw_mem 2 1) = None"
proof -
  have b4: "BYTES_TO_UINT32 0x1c 0 0 0 = 28" "BYTES_TO_UINT32 2 1 0 0 = 258" "BYTES_TO_UINT32 0 0 0 0 = 0"
    by code_simp+
  note rd = read_u32_cells [OF nor_chip_nor]
  have 1: "read_u32 nor_chip (0 + 0x18) (False, fw_mem 0x1c 0) = Some (of_nat 28)" "read_u32 nor_chip (0 + of_nat 28 - 4) (False, fw_mem 0x1c 0) = Some 28"
    using rd [of 24 "(False, fw_mem 0x1c 0)"] b4 by (simp_all add: fw_mem_def)
  have 2: "read_u32 nor_chip (0 + 0x18) (False, fw_mem 2 1) = Some (of_nat 258)" "read_u32 nor_chip (0 + of_nat 258 - 4) (False, fw_mem 2 1) = Some 0"
    using rd [of 24 "(False, fw_mem 2 1)"] rd [of 254 "(False, fw_mem 2 1)"] b4 by (simp_all add: fw_mem_def)
  have 3: "fold (\<lambda>x s. s + ucast x) (nibbles (fw_image snd (unat (0 :: u32)) (28 - 4) (False, fw_mem 0x1c 0))) (0xFFFFFFFF :: u32) \<noteq> 28"
    by (simp add: fw_image_def fw_mem_def nibbles_def upt_rec)
  have a: "flash_fw_check (\<lambda>k xs. fold (\<lambda>x s. s + ucast x) xs k) nor_chip 1 0x20000 0 (False, fw_mem 0x1c 0) = Some True"
    using fw_check_is_checksum [OF nor_chip_nor _ _ _ _ 1, of 1 "0x20000" "\<lambda>x s. s + ucast x" 0] 3 by simp
  have b: "flash_fw_check (\<lambda>k xs. fold (\<lambda>x s. s + ucast x) xs k) nor_chip 1 0x20000 0 (False, fw_mem 2 1) = None"
    using fw_check_is_checksum [OF nor_chip_nor _ _ _ _ 2, of 1 "0x20000" "\<lambda>x s. s + ucast x" 0] by simp
  show ?thesis
    using a b by blast
qed

end
