(* ===== verification/Usb_Hid.thy ===== *)
theory Usb_Hid
  imports Keyboard
begin

text \<open>
  The HID reports of a USB device: \<^verbatim>\<open>application/app/usbkb.c\<close>, \<^verbatim>\<open>application/app/usbmouse.c\<close> and the
  endpoint functions of \<^verbatim>\<open>drivers/B85/usbhw.h\<close>.  An endpoint is its control register; the bytes written
  since its pointer was reset and the control value that hands them to the host are one entry of
  \<open>ep_out\<close>.  The host takes a packet by clearing the busy bit (\<open>host_take\<close>).  The reports that find their
  endpoint busy wait in the ring \<open>usb_fifo\<close>.  The software CRC check and smooth mouse reports are off,
  as by default.
\<close>

section \<open>State\<close>

record usb_hid =
  ep_ctrl :: "nat \<Rightarrow> u8"
  ep_out :: "(nat \<times> u8 list \<times> u8) list"
  edp_toggle :: "nat \<Rightarrow> u8"
  usb_fifo :: "u8 list list"
  usb_ff_rptr :: u8
  usb_ff_wptr :: u8
  usb_mouse_report_proto :: u8
  kb_dat_buff :: "kb_data list"
  usbkb_wptr :: u8
  usbkb_rptr :: u8
  usbkb_not_released :: u32
  usbkb_data_report_time :: u32
  last_data :: kb_data
  mouse_dat_buff :: "u8 list list"
  usbmouse_wptr :: u8
  usbmouse_rptr :: u8
  usbmouse_not_released :: u32
  usbmouse_data_report_time :: u32

definition DAT_TYPE_KB :: u8 where "DAT_TYPE_KB = 1"
definition DAT_TYPE_MOUSE :: u8 where "DAT_TYPE_MOUSE = 2"
definition USB_FIFO_NUM :: u8 where "USB_FIFO_NUM = 4"
definition KEYBOARD_REPORT_KEY_MAX :: nat where "KEYBOARD_REPORT_KEY_MAX = 6"
definition MOUSE_REPORT_DATA_LEN :: nat where "MOUSE_REPORT_DATA_LEN = 4"
definition MEDIA_REPORT_DATA_LEN :: nat where "MEDIA_REPORT_DATA_LEN = 4"
definition USB_EDP_KEYBOARD_IN :: nat where "USB_EDP_KEYBOARD_IN = 1"
definition USB_EDP_MOUSE :: nat where "USB_EDP_MOUSE = 2"
definition USB_HID_MOUSE :: u8 where "USB_HID_MOUSE = 1"
definition USB_HID_KB_MEDIA :: u8 where "USB_HID_KB_MEDIA = 3"
definition USB_HID_KB_SYS :: u8 where "USB_HID_KB_SYS = 4"
definition KB_NORMAL_RELEASE_MASK :: u32 where "KB_NORMAL_RELEASE_MASK = 1"
definition KB_SYS_RELEASE_MASK :: u32 where "KB_SYS_RELEASE_MASK = 2"
definition KB_MEDIA_RELEASE_MASK :: u32 where "KB_MEDIA_RELEASE_MASK = 4"
definition USB_KEYBOARD_RELEASE_TIMEOUT :: u32 where "USB_KEYBOARD_RELEASE_TIMEOUT = 450000"
definition USB_MOUSE_RELEASE_TIMEOUT :: u32 where "USB_MOUSE_RELEASE_TIMEOUT = 200000"

definition vk_sys_map :: "u8 list" where
  "vk_sys_map = [0x01, 0x02, 0x04]"

definition vk_media_map :: "u8 list list" where
  "vk_media_map =
     [[0x21, 0x02], [0x23, 0x02], [0x24, 0x02], [0x25, 0x02], [0x26, 0x02], [0x27, 0x02], [0x2a, 0x02],
      [0x83, 0x01], [0x8a, 0x01], [0x92, 0x01], [0x94, 0x01], [0xb5, 0x00], [0xb6, 0x00], [0xb7, 0x00],
      [0xcd, 0x00], [0xe2, 0x00], [0xe9, 0x00], [0xea, 0x00]]"

section \<open>Endpoints\<close>

definition usbhw_is_ep_busy :: "nat \<Rightarrow> usb_hid \<Rightarrow> bool" where
  "usbhw_is_ep_busy ep s \<longleftrightarrow> ep_ctrl s ep AND 1 \<noteq> 0"

text \<open>The pointer of the endpoint is reset, the bytes are written, and the packet is acknowledged with the
  data toggle of the endpoint, which then changes.\<close>

definition ep_send :: "nat \<Rightarrow> u8 list \<Rightarrow> usb_hid \<Rightarrow> usb_hid" where
  "ep_send ep bs s =
     (let c = 1 OR (if edp_toggle s ep \<noteq> 0 then 8 else 4)
      in s\<lparr>ep_ctrl := (ep_ctrl s)(ep := c), ep_out := ep_out s @ [(ep, bs, c)],
           edp_toggle := (edp_toggle s)(ep := edp_toggle s ep XOR 1)\<rparr>)"

definition host_take :: "nat \<Rightarrow> usb_hid \<Rightarrow> usb_hid" where
  "host_take ep s = s\<lparr>ep_ctrl := (ep_ctrl s)(ep := ep_ctrl s ep AND NOT 1)\<rparr>"

text \<open>A reset of the bus, as \<open>usb_handle_irq\<close> handles it.\<close>

definition usb_reset :: "usb_hid \<Rightarrow> usb_hid" where
  "usb_reset s =
     s\<lparr>usb_mouse_report_proto := 1, ep_ctrl := (\<lambda>i. if i < 8 then 0 else ep_ctrl s i),
       edp_toggle := (\<lambda>i. if i < 8 then 0 else edp_toggle s i)\<rparr>"

section \<open>The ring of reports\<close>

text \<open>A report is put into the next row, by \<open>fill\<close>; a full ring loses the oldest one.\<close>

definition usb_ff_push :: "(u8 list \<Rightarrow> u8 list option) \<Rightarrow> usb_hid \<Rightarrow> usb_hid option" where
  "usb_ff_push fill s = do {
     let i = unat (usb_ff_wptr s AND (USB_FIFO_NUM - 1));
     row \<leftarrow> get_byte (usb_fifo s) i;
     row \<leftarrow> fill row;
     rows \<leftarrow> put_byte (usb_fifo s) i row;
     let w = usb_ff_wptr s + 1;
     let fifo_use = (w - usb_ff_rptr s) AND (USB_FIFO_NUM * 2 - 1);
     Some (s\<lparr>usb_fifo := rows, usb_ff_wptr := w,
             usb_ff_rptr := (if USB_FIFO_NUM < fifo_use then usb_ff_rptr s + 1 else usb_ff_rptr s)\<rparr>) }"

definition usbkb_hid_report_normal :: "u8 \<Rightarrow> u8 list \<Rightarrow> usb_hid \<Rightarrow> (bool \<times> usb_hid) option" where
  "usbkb_hid_report_normal ctrl keys s = do {
     ks \<leftarrow> get_bytes keys 0 KEYBOARD_REPORT_KEY_MAX;
     if usbhw_is_ep_busy USB_EDP_KEYBOARD_IN s then do {
       s \<leftarrow> usb_ff_push (\<lambda>row. put_bytes row 0 (DAT_TYPE_KB # ctrl # ks)) s;
       Some (False, s) }
     else Some (True, ep_send USB_EDP_KEYBOARD_IN (ctrl # 0 # ks) s) }"

definition usbmouse_hid_report :: "u8 \<Rightarrow> u8 list \<Rightarrow> nat \<Rightarrow> usb_hid \<Rightarrow> (bool \<times> usb_hid) option" where
  "usbmouse_hid_report report_id dat n s =
     (if usbhw_is_ep_busy USB_EDP_MOUSE s then do {
        ds \<leftarrow> get_bytes dat 0 n;
        s \<leftarrow> usb_ff_push (\<lambda>row. do { row \<leftarrow> put_bytes row 0 [DAT_TYPE_MOUSE, report_id, of_nat n]; put_bytes row 4 ds }) s;
        Some (False, s) }
      else if usb_mouse_report_proto s = 0 then do {
        ds \<leftarrow> get_bytes dat 0 3;
        Some (True, ep_send USB_EDP_MOUSE ds s) }
      else do {
        ds \<leftarrow> get_bytes dat 0 n;
        Some (True, ep_send USB_EDP_MOUSE (report_id # ds) s) })"

definition usb_hid_report_fifo_proc :: "usb_hid \<Rightarrow> (bool \<times> usb_hid) option" where
  "usb_hid_report_fifo_proc s =
     (if usb_ff_rptr s = usb_ff_wptr s then Some (False, s)
      else do {
        row \<leftarrow> get_byte (usb_fifo s) (unat (usb_ff_rptr s AND (USB_FIFO_NUM - 1)));
        t \<leftarrow> get_byte row 0; p1 \<leftarrow> get_byte row 1; p2 \<leftarrow> get_byte row 2;
        if t = DAT_TYPE_KB then
          if usbhw_is_ep_busy USB_EDP_KEYBOARD_IN s then Some (False, s)
          else do {
            (_, s) \<leftarrow> usbkb_hid_report_normal p1 (drop 2 row) s;
            Some (True, s\<lparr>usb_ff_rptr := usb_ff_rptr s + 1\<rparr>) }
        else if t = DAT_TYPE_MOUSE then
          if usbhw_is_ep_busy USB_EDP_MOUSE s then Some (False, s)
          else do {
            (_, s) \<leftarrow> usbmouse_hid_report p1 (drop 4 row) (unat p2) s;
            Some (True, s\<lparr>usb_ff_rptr := usb_ff_rptr s + 1\<rparr>) }
        else Some (False, s) })"

section \<open>Keyboard reports (usbkb.c)\<close>

definition usbkb_release_normal_key :: "usb_hid \<Rightarrow> usb_hid option" where
  "usbkb_release_normal_key s =
     (if usbkb_not_released s AND KB_NORMAL_RELEASE_MASK \<noteq> 0 then do {
        (ok, s) \<leftarrow> usbkb_hid_report_normal 0 (replicate KEYBOARD_REPORT_KEY_MAX 0) s;
        Some (if ok then s\<lparr>usbkb_not_released := usbkb_not_released s AND NOT KB_NORMAL_RELEASE_MASK\<rparr> else s) }
      else Some s)"

definition usbkb_release_sys_key :: "usb_hid \<Rightarrow> usb_hid option" where
  "usbkb_release_sys_key s =
     (if usbkb_not_released s AND KB_SYS_RELEASE_MASK \<noteq> 0 then do {
        (ok, s) \<leftarrow> usbmouse_hid_report USB_HID_KB_SYS (replicate 4 0) 1 s;
        Some (if ok then s\<lparr>usbkb_not_released := usbkb_not_released s AND NOT KB_SYS_RELEASE_MASK\<rparr> else s) }
      else Some s)"

definition usbkb_release_media_key :: "usb_hid \<Rightarrow> usb_hid option" where
  "usbkb_release_media_key s =
     (if usbkb_not_released s AND KB_MEDIA_RELEASE_MASK \<noteq> 0 then do {
        (ok, s) \<leftarrow> usbmouse_hid_report USB_HID_KB_MEDIA (replicate MOUSE_REPORT_DATA_LEN 0) MEDIA_REPORT_DATA_LEN s;
        Some (if ok then s\<lparr>usbkb_not_released := usbkb_not_released s AND NOT KB_MEDIA_RELEASE_MASK\<rparr> else s) }
      else Some s)"

definition usbkb_release_keys :: "usb_hid \<Rightarrow> usb_hid option" where
  "usbkb_release_keys s = do {
     s \<leftarrow> usbkb_release_sys_key s;
     s \<leftarrow> usbkb_release_normal_key s;
     usbkb_release_media_key s }"

definition usbkb_release_check :: "u32 \<Rightarrow> usb_hid \<Rightarrow> usb_hid option" where
  "usbkb_release_check now s =
     (if usbkb_not_released s \<noteq> 0 \<and> clock_time_exceed now (usbkb_data_report_time s) USB_KEYBOARD_RELEASE_TIMEOUT
      then usbkb_release_keys s else Some s)"

text \<open>The loop from \<open>i\<close> on over \<open>n\<close> keys, with the normal keys, their number, and the last extended key.\<close>

fun separate_loop :: "u8 list \<Rightarrow> nat \<Rightarrow> nat \<Rightarrow> nat \<Rightarrow> u8 list \<Rightarrow> u8 \<Rightarrow> (nat \<times> u8 list \<times> u8) option" where
  "separate_loop ks i 0 normal_cnt normal_key ext_key = Some (normal_cnt, normal_key, ext_key)"
| "separate_loop ks i (Suc n) normal_cnt normal_key ext_key = do {
     k \<leftarrow> get_byte ks i;
     if VK_EXT_START \<le> k \<and> k < VK_EXT_END then separate_loop ks (i + 1) n normal_cnt normal_key k
     else do {
       nk \<leftarrow> put_byte normal_key normal_cnt k;
       separate_loop ks (i + 1) n (normal_cnt + 1) nk ext_key } }"

definition usbkb_separate_key_types :: "u8 list \<Rightarrow> u8 \<Rightarrow> u8 list \<Rightarrow> u8 \<Rightarrow> (nat \<times> u8 list \<times> u8) option" where
  "usbkb_separate_key_types ks n normal_key ext_key = separate_loop ks 0 (unat n) 0 normal_key ext_key"

definition usbkb_report_normal_key :: "u8 \<Rightarrow> u8 list \<Rightarrow> nat \<Rightarrow> usb_hid \<Rightarrow> usb_hid option" where
  "usbkb_report_normal_key ctrl ks n s =
     (if 0 < n \<or> ctrl \<noteq> 0 then do {
        (ok, s) \<leftarrow> usbkb_hid_report_normal ctrl ks s;
        Some (if ok then s\<lparr>usbkb_not_released := usbkb_not_released s OR KB_NORMAL_RELEASE_MASK\<rparr> else s) }
      else usbkb_release_normal_key s)"

definition usbkb_report_sys_key :: "u8 \<Rightarrow> usb_hid \<Rightarrow> usb_hid option" where
  "usbkb_report_sys_key ext_key s =
     (if VK_SYS_START \<le> ext_key \<and> ext_key < VK_SYS_END then do {
        (ok, s) \<leftarrow> usbmouse_hid_report USB_HID_KB_SYS (drop (unat (ext_key - VK_SYS_START)) vk_sys_map) 1 s;
        Some (if ok then s\<lparr>usbkb_not_released := usbkb_not_released s OR KB_SYS_RELEASE_MASK\<rparr> else s) }
      else usbkb_release_sys_key s)"

definition report_media :: "u8 list \<Rightarrow> usb_hid \<Rightarrow> usb_hid option" where
  "report_media ext_keycode s = do {
     (ok, s) \<leftarrow> usbmouse_hid_report USB_HID_KB_MEDIA ext_keycode MEDIA_REPORT_DATA_LEN s;
     Some (if ok then s\<lparr>usbkb_not_released := usbkb_not_released s OR KB_MEDIA_RELEASE_MASK\<rparr> else s) }"

definition usbkb_report_media_key :: "u8 \<Rightarrow> usb_hid \<Rightarrow> usb_hid option" where
  "usbkb_report_media_key ext_key s =
     (if VK_MEDIA_START \<le> ext_key \<and> ext_key < VK_MEDIA_END then do {
        v \<leftarrow> get_byte vk_media_map (unat (ext_key - VK_MEDIA_START));
        ext_keycode \<leftarrow> put_bytes (replicate MOUSE_REPORT_DATA_LEN 0) 0 v;
        report_media ext_keycode s }
      else usbkb_release_media_key s)"

definition usbkb_report_consumer_key :: "u32 \<Rightarrow> u16 \<Rightarrow> usb_hid \<Rightarrow> usb_hid option" where
  "usbkb_report_consumer_key now consumer_key s = do {
     s \<leftarrow>
       (if consumer_key \<noteq> 0 then do {
          ext_keycode \<leftarrow> put_bytes (replicate MOUSE_REPORT_DATA_LEN 0) 0 [ucast consumer_key, ucast (drop_bit 8 consumer_key)];
          report_media ext_keycode s }
        else usbkb_release_media_key s);
     Some (s\<lparr>usbkb_data_report_time := now\<rparr>) }"

fun same_loop :: "u8 list \<Rightarrow> u8 list \<Rightarrow> nat \<Rightarrow> nat \<Rightarrow> bool option" where
  "same_loop a b i 0 = Some True"
| "same_loop a b i (Suc n) = do {
     x \<leftarrow> get_byte a i; y \<leftarrow> get_byte b i;
     if x \<noteq> y then Some False else same_loop a b (i + 1) n }"

definition kb_is_data_same :: "kb_data \<Rightarrow> kb_data \<Rightarrow> bool option" where
  "kb_is_data_same a b =
     (if cnt a \<noteq> cnt b \<or> ctrl_key a \<noteq> ctrl_key b then Some False
      else same_loop (keycode a) (keycode b) 0 (unat (cnt a)))"

definition usbkb_check_repeat_and_save :: "kb_data \<Rightarrow> usb_hid \<Rightarrow> (bool \<times> usb_hid) option" where
  "usbkb_check_repeat_and_save d s = do {
     same \<leftarrow> kb_is_data_same (last_data s) d;
     Some (same, if same then s else s\<lparr>last_data := d\<rparr>) }"

definition usbkb_hid_report :: "u32 \<Rightarrow> kb_data \<Rightarrow> usb_hid \<Rightarrow> usb_hid option" where
  "usbkb_hid_report now d s =
     (if KB_RETURN_KEY_MAX < cnt d then Some s
      else do {
        (same, s) \<leftarrow> (if 0 < cnt d \<or> ctrl_key d \<noteq> 0 then usbkb_check_repeat_and_save d s else Some (False, s));
        if same \<and> usbkb_not_released s \<noteq> 0 then Some (s\<lparr>usbkb_data_report_time := now\<rparr>)
        else do {
          (n, ks, ext_key) \<leftarrow>
            (if 0 < cnt d
             then usbkb_separate_key_types (keycode d) (cnt d) (replicate KEYBOARD_REPORT_KEY_MAX 0) VK_EXT_END
             else Some (0, replicate KEYBOARD_REPORT_KEY_MAX 0, VK_EXT_END));
          s \<leftarrow> usbkb_report_normal_key (ctrl_key d) ks n s;
          s \<leftarrow> usbkb_report_sys_key ext_key s;
          s \<leftarrow> usbkb_report_media_key ext_key s;
          Some (s\<lparr>usbkb_data_report_time := now\<rparr>) } })"

definition usbkb_report_frame :: "u32 \<Rightarrow> usb_hid \<Rightarrow> usb_hid option" where
  "usbkb_report_frame now s =
     (if usbkb_wptr s \<noteq> usbkb_rptr s then do {
        d \<leftarrow> get_byte (kb_dat_buff s) (unat (usbkb_rptr s));
        s \<leftarrow> usbkb_hid_report now d s;
        Some (s\<lparr>usbkb_rptr := (usbkb_rptr s + 1) AND 7\<rparr>) }
      else Some s)"

section \<open>Mouse reports (usbmouse.c)\<close>

fun add_frame_loop :: "u8 list \<Rightarrow> nat \<Rightarrow> nat \<Rightarrow> usb_hid \<Rightarrow> usb_hid option" where
  "add_frame_loop dat i 0 s = Some s"
| "add_frame_loop dat i (Suc n) s = do {
     d \<leftarrow> get_bytes dat (i * MOUSE_REPORT_DATA_LEN) MOUSE_REPORT_DATA_LEN;
     rows \<leftarrow> put_byte (mouse_dat_buff s) (unat (usbmouse_wptr s)) d;
     let s = s\<lparr>mouse_dat_buff := rows, usbmouse_wptr := (usbmouse_wptr s + 1) AND 7\<rparr>;
     if usbmouse_wptr s = usbmouse_rptr s then Some s else add_frame_loop dat (i + 1) n s }"

definition usbmouse_add_frame :: "u8 \<Rightarrow> u8 list \<Rightarrow> usb_hid \<Rightarrow> usb_hid option" where
  "usbmouse_add_frame pno dat s = add_frame_loop dat 0 (unat pno) s"

definition usbmouse_release_check :: "u32 \<Rightarrow> usb_hid \<Rightarrow> usb_hid option" where
  "usbmouse_release_check now s =
     (if usbmouse_not_released s \<noteq> 0 \<and> clock_time_exceed now (usbmouse_data_report_time s) USB_MOUSE_RELEASE_TIMEOUT
      then do {
        (ok, s) \<leftarrow> usbmouse_hid_report USB_HID_MOUSE (replicate 4 0) MOUSE_REPORT_DATA_LEN s;
        Some (if ok then s\<lparr>usbmouse_not_released := 0\<rparr> else s) }
      else Some s)"

definition usbmouse_report_frame :: "u32 \<Rightarrow> usb_hid \<Rightarrow> usb_hid option" where
  "usbmouse_report_frame now s =
     (if usbmouse_wptr s \<noteq> usbmouse_rptr s then do {
        d \<leftarrow> get_byte (mouse_dat_buff s) (unat (usbmouse_rptr s));
        (ret, s) \<leftarrow> usbmouse_hid_report USB_HID_MOUSE d MOUSE_REPORT_DATA_LEN s;
        let s = (if ret then s\<lparr>usbmouse_rptr := (usbmouse_rptr s + 1) AND 7\<rparr> else s);
        Some (if list_all (\<lambda>b. b = 0) d \<and> ret then s\<lparr>usbmouse_not_released := 0\<rparr>
              else s\<lparr>usbmouse_not_released := 1, usbmouse_data_report_time := now\<rparr>) }
      else Some s)"

end
