(* ===== verification/Usb_Hid_Theorems.thy ===== *)
theory Usb_Hid_Theorems
  imports Usb_Hid Ring4 Simulation
begin

text \<open>
  The HID reports of a USB device (definitions in theory Usb_Hid): the ring of rows is a queue of reports, and
  the report functions, \<open>usb_hid_report_fifo_proc\<close> and the host refine a device that sends a report at once
  when its endpoint is free and queues it otherwise, with alternating data toggles; what a press and
  a release send; and what goes wrong when the endpoint is busy.
\<close>

section \<open>Rows as reports\<close>

datatype hid_report = Kb_Report u8 "u8 list" | Mouse_Report u8 "u8 list"

definition row_report :: "u8 list \<Rightarrow> hid_report" where
  "row_report row =
     (if row ! 0 = DAT_TYPE_KB then Kb_Report (row ! 1) (take 6 (drop 2 row))
      else Mouse_Report (row ! 1) (take (unat (row ! 2)) (drop 4 row)))"

definition row_ok :: "u8 list \<Rightarrow> bool" where
  "row_ok row \<longleftrightarrow> row ! 0 = DAT_TYPE_KB \<or> row ! 0 = DAT_TYPE_MOUSE \<and> row ! 2 \<le> 4"

definition rows :: "usb_hid \<Rightarrow> u8 list list" where
  "rows s = ring_of (usb_fifo s) (unat (usb_ff_rptr s)) (unat (usb_ff_wptr s - usb_ff_rptr s))"

definition reports :: "usb_hid \<Rightarrow> hid_report list" where
  "reports s = map row_report (rows s)"

definition fifo_ok :: "usb_hid \<Rightarrow> bool" where
  "fifo_ok s \<longleftrightarrow> length (usb_fifo s) = 4 \<and> list_all (\<lambda>row. length row = 8) (usb_fifo s)
     \<and> unat (usb_ff_wptr s - usb_ff_rptr s) \<le> 4 \<and> list_all row_ok (rows s)"

lemma length_rows: "length (rows s) = unat (usb_ff_wptr s - usb_ff_rptr s)"
  by (simp add: rows_def ring_of_def)

lemma length_reports [simp]: "length (reports s) = length (rows s)"
  by (simp add: reports_def)

lemma unat_and3: "unat (x AND 3) = unat x mod 4" "unat (x AND 7) = unat x mod 8" for x :: u8
  by (simp_all add: and_low_mask take_bit_eq_mod unat_mod)

lemma mod_256_4: "a mod 256 mod 4 = a mod (4 :: nat)"
  by (rule mod_mod_cancel) simp

text \<open>The free-running pointers, as numbers.\<close>

lemma pointers:
  fixes w r :: u8
  assumes "unat (w - r) \<le> 4"
  shows "unat w mod 4 = (unat r + unat (w - r)) mod 4" and "unat (w + 1 - r) = unat (w - r) + 1"
    and "unat (r + 1) mod 4 = (unat r + 1) mod 4" and "w \<noteq> r \<Longrightarrow> unat (w - (r + 1)) = unat (w - r) - 1"
    and "unat (w + 1 - (r + 1)) = unat (w - r)"
proof -
  define n where "n = w - r"
  have w: "w = r + n" and n: "unat n \<le> 4"
    using assms by (simp_all add: n_def)
  have n1: "unat (n + 1) = unat n + 1"
    using n by (simp add: unat_word_ariths)
  show "unat w mod 4 = (unat r + unat (w - r)) mod 4"
    unfolding n_def [symmetric] w by (simp add: unat_word_ariths mod_256_4)
  show "unat (w + 1 - r) = unat (w - r) + 1"
    using n1 by (simp add: w)
  show "unat (r + 1) mod 4 = (unat r + 1) mod 4"
    by (simp add: unat_word_ariths mod_256_4)
  show "unat (w + 1 - (r + 1)) = unat (w - r)"
    by simp
  assume "w \<noteq> r"
  then have "n \<noteq> 0"
    by (auto simp: w)
  then show "unat (w - (r + 1)) = unat (w - r) - 1"
    using unat_minus_one [of n] by (simp add: w)
qed

lemma list_all_update: "list_all P xs \<Longrightarrow> P x \<Longrightarrow> list_all P (xs[i := x])"
  by (auto simp: list_all_iff dest: set_update_subset_insert [THEN subsetD])

lemma usb_ff_push_reports:
  assumes inv: "fifo_ok s" and fill: "\<And>row. length row = 8 \<Longrightarrow>
    \<exists>row'. fill row = Some row' \<and> length row' = 8 \<and> row_ok row' \<and> row_report row' = rep"
  shows "\<exists>s'. usb_ff_push fill s = Some s' \<and> fifo_ok s'
    \<and> reports s' = (if length (reports s) = 4 then tl (reports s) else reports s) @ [rep]
    \<and> s' = s\<lparr>usb_fifo := usb_fifo s', usb_ff_wptr := usb_ff_wptr s', usb_ff_rptr := usb_ff_rptr s'\<rparr>"
proof -
  define w r n where wrn: "w = usb_ff_wptr s" "r = usb_ff_rptr s" "n = unat (w - r)"
  have len: "length (usb_fifo s) = 4" "list_all (\<lambda>row. length row = 8) (usb_fifo s)" and n4: "n \<le> 4" and ok: "list_all row_ok (rows s)"
    using inv by (simp_all add: fifo_ok_def wrn)
  note p = pointers [OF n4 [unfolded wrn(3)], folded wrn(3)]
  let ?i = "unat w mod 4"
  have i: "?i < length (usb_fifo s)"
    using len by simp
  then have "length (usb_fifo s ! ?i) = 8"
    using len(2) by (simp add: list_all_length)
  then obtain row' where row': "fill (usb_fifo s ! ?i) = Some row'" "length row' = 8" "row_ok row'" "row_report row' = rep"
    using fill by blast
  let ?buf = "(usb_fifo s)[?i := row']"
  have use: "4 < (w + 1 - r) AND 7 \<longleftrightarrow> n = 4"
  proof -
    have "unat ((w + 1 - r) AND 7) = n + 1"
      using p(2) n4 by (simp add: unat_and3)
    then show ?thesis
      using n4 by (auto simp: word_less_nat_alt)
  qed
  let ?r = "if n = 4 then r + 1 else r"
  let ?s = "s\<lparr>usb_fifo := ?buf, usb_ff_wptr := w + 1, usb_ff_rptr := ?r\<rparr>"
  have step: "usb_ff_push fill s = Some ?s"
    using i row'(1) use by (simp add: usb_ff_push_def USB_FIFO_NUM_def Let_def unat_and3 get_byte_def put_byte_def wrn(1,2) [symmetric] del: if_split)
  have q: "rows s = ring_of (usb_fifo s) (unat r) n"
    by (simp add: rows_def wrn)
  have q': "rows ?s = (if n = 4 then tl (rows s) else rows s) @ [row']"
  proof (cases "n = 4")
    case True
    have "ring_of ?buf (unat (r + 1)) 4 = tl (ring_of (usb_fifo s) (unat r) 4) @ [row']"
      using ring_of_full [OF len(1) _ p(3), of "unat w" row'] p(1) True by simp
    then show ?thesis
      using True p(5) by (simp add: rows_def q wrn)
  next
    case False
    have "ring_of ?buf (unat r) (n + 1) = ring_of (usb_fifo s) (unat r) n @ [row']"
      by (rule ring_of_push [OF len(1) n4 p(1)]) (use n4 False in simp)
    moreover have "rows ?s = ring_of ?buf (unat r) (n + 1)"
      using False p(2) by (simp add: rows_def)
    ultimately show ?thesis
      using False q by simp
  qed
  have "list_all row_ok (tl (rows s))"
    using ok by (cases "rows s") auto
  then have ok': "list_all row_ok (rows ?s)"
    using ok row'(3) by (simp add: q')
  have "unat (w + 1 - ?r) \<le> 4"
    using p(2,5) n4 by simp
  then have "fifo_ok ?s"
    using len list_all_update [OF len(2) row'(2)] ok' by (simp add: fifo_ok_def del: if_split)
  moreover have "reports ?s = (if length (reports s) = 4 then tl (reports s) else reports s) @ [rep]"
    using q' row'(4) length_rows [of s] by (simp add: reports_def map_tl wrn [symmetric])
  ultimately show ?thesis
    using step by (intro exI [where x = ?s]) simp
qed

lemma kb_row:
  assumes "length row = 8" and "length ks = 6"
  shows "\<exists>row'. put_bytes row 0 (DAT_TYPE_KB # c # ks) = Some row' \<and> length row' = 8 \<and> row_ok row' \<and> row_report row' = Kb_Report c ks"
  using assms by (simp add: put_bytes_def row_ok_def row_report_def)

lemma list_4_split: "length xs = 8 \<Longrightarrow> \<exists>a b c d ys. xs = a # b # c # d # ys \<and> length ys = 4"
  by (auto simp: length_Suc_conv eval_nat_numeral)

lemma drop_cons4: "drop (4 + n) (a # b # c # d # xs) = drop n xs"
  by (simp add: drop_drop [symmetric] eval_nat_numeral del: drop_drop)

lemma mouse_row:
  assumes "length row = 8" and "length d \<le> 4"
  shows "\<exists>row'. (do { row \<leftarrow> put_bytes row 0 [DAT_TYPE_MOUSE, i, of_nat (length d)]; put_bytes row 4 d }) = Some row'
    \<and> length row' = 8 \<and> row_ok row' \<and> row_report row' = Mouse_Report i d"
proof -
  obtain w x y z ys where row: "row = w # x # y # z # ys" "length ys = 4"
    using list_4_split [OF assms(1)] by blast
  have n: "unat (of_nat (length d) :: u8) = length d" "(of_nat (length d) :: u8) \<le> 4"
    using assms(2) by (simp_all add: unat_of_nat take_bit_eq_mod word_le_nat_alt)
  have "do { row \<leftarrow> put_bytes row 0 [DAT_TYPE_MOUSE, i, of_nat (length d)]; put_bytes row 4 d }
      = Some (DAT_TYPE_MOUSE # i # of_nat (length d) # z # d @ drop (length d) ys)"
    using assms row by (simp add: put_bytes_def drop_cons4)
  then show ?thesis
    using row assms n by (simp add: row_ok_def row_report_def DAT_TYPE_KB_def DAT_TYPE_MOUSE_def)
qed

section \<open>The device that is refined\<close>

text \<open>A packet carries the data toggle: the acknowledgement with DATA0 and DATA1 in turn on every endpoint.\<close>

fun report_ep :: "hid_report \<Rightarrow> nat" where
  "report_ep (Kb_Report c ks) = 1"
| "report_ep (Mouse_Report i d) = 2"

fun report_bytes :: "hid_report \<Rightarrow> u8 list" where
  "report_bytes (Kb_Report c ks) = c # 0 # ks"
| "report_bytes (Mouse_Report i d) = i # d"

definition sent_on :: "nat \<Rightarrow> (nat \<times> u8 list \<times> u8) list \<Rightarrow> nat" where
  "sent_on ep out = length (filter (\<lambda>p. fst p = ep) out)"

definition packet :: "hid_report \<Rightarrow> (nat \<times> u8 list \<times> u8) list \<Rightarrow> nat \<times> u8 list \<times> u8" where
  "packet r out = (report_ep r, report_bytes r, if even (sent_on (report_ep r) out) then 5 else 9)"

datatype hid_op = Report hid_report | Fifo_Proc | Host_Take nat

type_synonym hid_model = "hid_report list \<times> (nat \<Rightarrow> bool) \<times> (nat \<times> u8 list \<times> u8) list"

fun hid_spec :: "hid_op \<Rightarrow> hid_model \<Rightarrow> bool \<times> hid_model" where
  "hid_spec (Report r) (q, busy, out) =
     (if busy (report_ep r) then (False, (if length q = 4 then tl q else q) @ [r], busy, out)
      else (True, q, busy(report_ep r := True), out @ [packet r out]))"
| "hid_spec Fifo_Proc ([], busy, out) = (False, [], busy, out)"
| "hid_spec Fifo_Proc (r # q, busy, out) =
     (if busy (report_ep r) then (False, r # q, busy, out)
      else (True, q, busy(report_ep r := True), out @ [packet r out]))"
| "hid_spec (Host_Take ep) (q, busy, out) = (True, q, busy(ep := False), out)"

fun hid_step :: "hid_op \<Rightarrow> usb_hid \<Rightarrow> (bool \<times> usb_hid) option" where
  "hid_step (Report (Kb_Report c ks)) s = usbkb_hid_report_normal c ks s"
| "hid_step (Report (Mouse_Report i d)) s = usbmouse_hid_report i d (length d) s"
| "hid_step Fifo_Proc s = usb_hid_report_fifo_proc s"
| "hid_step (Host_Take ep) s = Some (True, host_take ep s)"

fun report_fits :: "hid_report \<Rightarrow> bool" where
  "report_fits (Kb_Report c ks) \<longleftrightarrow> length ks = 6"
| "report_fits (Mouse_Report i d) \<longleftrightarrow> length d \<le> 4"

fun hid_env :: "hid_op \<Rightarrow> hid_model \<Rightarrow> bool" where
  "hid_env (Report r) a \<longleftrightarrow> report_fits r"
| "hid_env Fifo_Proc a \<longleftrightarrow> True"
| "hid_env (Host_Take ep) a \<longleftrightarrow> True"

definition toggles_ok :: "usb_hid \<Rightarrow> bool" where
  "toggles_ok s \<longleftrightarrow> (\<forall>ep. edp_toggle s ep = (if even (sent_on ep (ep_out s)) then 0 else 1))"

fun hid_rel :: "usb_hid \<Rightarrow> hid_model \<Rightarrow> bool" where
  "hid_rel s (q, busy, out) \<longleftrightarrow> fifo_ok s \<and> toggles_ok s \<and> usb_mouse_report_proto s \<noteq> 0
     \<and> q = reports s \<and> busy = (\<lambda>ep. usbhw_is_ep_busy ep s) \<and> out = ep_out s"

section \<open>Steps\<close>

lemma sent_on_snoc: "sent_on ep (out @ [(e, bs, c)]) = (if e = ep then Suc (sent_on ep out) else sent_on ep out)"
  by (simp add: sent_on_def)

text \<open>Fields of the ring do not matter to the endpoints, and the other way round.\<close>

lemma ring_frame:
  assumes "s' = s\<lparr>usb_fifo := f, usb_ff_wptr := w, usb_ff_rptr := r\<rparr>"
  shows "toggles_ok s' = toggles_ok s" "usb_mouse_report_proto s' = usb_mouse_report_proto s"
    "usbhw_is_ep_busy ep s' = usbhw_is_ep_busy ep s" "ep_out s' = ep_out s"
  using assms by (simp_all add: toggles_ok_def usbhw_is_ep_busy_def)

lemma ep_send_frame:
  "fifo_ok (ep_send ep bs s) = fifo_ok s" "reports (ep_send ep bs s) = reports s" "rows (ep_send ep bs s) = rows s"
  "usb_mouse_report_proto (ep_send ep bs s) = usb_mouse_report_proto s"
  "usb_ff_rptr (ep_send ep bs s) = usb_ff_rptr s" "usb_ff_wptr (ep_send ep bs s) = usb_ff_wptr s"
  by (simp_all add: ep_send_def fifo_ok_def reports_def rows_def Let_def)

lemma ep_send_packet:
  assumes "toggles_ok s"
  shows "toggles_ok (ep_send (report_ep r) (report_bytes r) s)"
    "ep_out (ep_send (report_ep r) (report_bytes r) s) = ep_out s @ [packet r (ep_out s)]"
    "(\<lambda>ep. usbhw_is_ep_busy ep (ep_send (report_ep r) (report_bytes r) s))
      = (\<lambda>ep. usbhw_is_ep_busy ep s)(report_ep r := True)"
  using assms
  by (auto simp: toggles_ok_def ep_send_def Let_def packet_def sent_on_snoc usbhw_is_ep_busy_def fun_eq_iff)

text \<open>Sending a report, as the two report functions do when the endpoint is free.\<close>

lemma send_step:
  assumes "report_fits r" and "\<not> usbhw_is_ep_busy (report_ep r) s" and "usb_mouse_report_proto s \<noteq> 0"
  shows "hid_step (Report r) s = Some (True, ep_send (report_ep r) (report_bytes r) s)"
  using assms
  by (cases r) (simp_all add: usbkb_hid_report_normal_def usbmouse_hid_report_def KEYBOARD_REPORT_KEY_MAX_def
    USB_EDP_KEYBOARD_IN_def USB_EDP_MOUSE_def get_bytes_def)

lemma queue_step:
  assumes "report_fits r" and "usbhw_is_ep_busy (report_ep r) s" and "fifo_ok s"
  shows "\<exists>s'. hid_step (Report r) s = Some (False, s') \<and> fifo_ok s'
    \<and> reports s' = (if length (reports s) = 4 then tl (reports s) else reports s) @ [r]
    \<and> s' = s\<lparr>usb_fifo := usb_fifo s', usb_ff_wptr := usb_ff_wptr s', usb_ff_rptr := usb_ff_rptr s'\<rparr>"
proof (cases r)
  case (Kb_Report c ks)
  then have "length ks = 6"
    using assms(1) by simp
  then have fill: "\<exists>s'. usb_ff_push (\<lambda>row. put_bytes row 0 (DAT_TYPE_KB # c # ks)) s = Some s' \<and> fifo_ok s'
      \<and> reports s' = (if length (reports s) = 4 then tl (reports s) else reports s) @ [r]
      \<and> s' = s\<lparr>usb_fifo := usb_fifo s', usb_ff_wptr := usb_ff_wptr s', usb_ff_rptr := usb_ff_rptr s'\<rparr>"
    unfolding Kb_Report by (intro usb_ff_push_reports assms kb_row)
  show ?thesis
    using fill assms Kb_Report
    by (auto simp: usbkb_hid_report_normal_def KEYBOARD_REPORT_KEY_MAX_def USB_EDP_KEYBOARD_IN_def get_bytes_def)
next
  case (Mouse_Report i d)
  then have "length d \<le> 4"
    using assms(1) by simp
  then have fill: "\<exists>s'. usb_ff_push (\<lambda>row. do { row \<leftarrow> put_bytes row 0 [DAT_TYPE_MOUSE, i, of_nat (length d)]; put_bytes row 4 d }) s = Some s' \<and> fifo_ok s'
      \<and> reports s' = (if length (reports s) = 4 then tl (reports s) else reports s) @ [r]
      \<and> s' = s\<lparr>usb_fifo := usb_fifo s', usb_ff_wptr := usb_ff_wptr s', usb_ff_rptr := usb_ff_rptr s'\<rparr>"
    unfolding Mouse_Report by (intro usb_ff_push_reports assms mouse_row)
  show ?thesis
    using fill assms Mouse_Report
    by (auto simp: usbmouse_hid_report_def USB_EDP_MOUSE_def get_bytes_def)
qed

lemma report_sim:
  assumes rel: "hid_rel s a" and fits: "report_fits r"
  shows "\<exists>s'. hid_step (Report r) s = Some (fst (hid_spec (Report r) a), s') \<and> hid_rel s' (snd (hid_spec (Report r) a))"
proof -
  have a: "a = (reports s, \<lambda>ep. usbhw_is_ep_busy ep s, ep_out s)" and inv: "fifo_ok s" "toggles_ok s" "usb_mouse_report_proto s \<noteq> 0"
    using rel by (cases a, auto)+
  show ?thesis
  proof (cases "usbhw_is_ep_busy (report_ep r) s")
    case True
    obtain s' where s': "hid_step (Report r) s = Some (False, s')" "fifo_ok s'"
        "reports s' = (if length (reports s) = 4 then tl (reports s) else reports s) @ [r]"
        "s' = s\<lparr>usb_fifo := usb_fifo s', usb_ff_wptr := usb_ff_wptr s', usb_ff_rptr := usb_ff_rptr s'\<rparr>"
      using queue_step [OF fits True inv(1)] by blast
    then show ?thesis
      using True inv ring_frame [OF s'(4)] by (simp add: a)
  next
    case False
    then show ?thesis
      using send_step [OF fits False inv(3)] inv ep_send_packet [OF inv(2), of r] by (simp add: a ep_send_frame del: report_bytes.simps)
  qed
qed

lemma fifo_front:
  assumes inv: "fifo_ok s" and ne: "usb_ff_rptr s \<noteq> usb_ff_wptr s"
  obtains row where "get_byte (usb_fifo s) (unat (usb_ff_rptr s AND 3)) = Some row" "length row = 8" "row_ok row"
    "rows s = row # rows (s\<lparr>usb_ff_rptr := usb_ff_rptr s + 1\<rparr>)" "fifo_ok (s\<lparr>usb_ff_rptr := usb_ff_rptr s + 1\<rparr>)"
proof -
  define w r n where wrn: "w = usb_ff_wptr s" "r = usb_ff_rptr s" "n = unat (w - r)"
  have len: "length (usb_fifo s) = 4" "list_all (\<lambda>row. length row = 8) (usb_fifo s)" and n4: "n \<le> 4" and ok: "list_all row_ok (rows s)"
    using inv by (simp_all add: fifo_ok_def wrn)
  note p = pointers [OF n4 [unfolded wrn(3)], folded wrn(3)]
  have wr: "w \<noteq> r"
    using ne by (simp add: wrn)
  then have n0: "n \<noteq> 0"
    by (auto simp: wrn(3) unat_eq_0)
  let ?row = "usb_fifo s ! (unat r mod 4)"
  have i: "unat r mod 4 < length (usb_fifo s)"
    using len by simp
  have q: "rows s = ?row # rows (s\<lparr>usb_ff_rptr := r + 1\<rparr>)"
    using ring_of_pop [OF p(3) n0, of "usb_fifo s"] p(4) [OF wr] by (simp add: rows_def wrn)
  show thesis
  proof (rule that)
    show "get_byte (usb_fifo s) (unat (usb_ff_rptr s AND 3)) = Some ?row"
      using i by (simp add: get_byte_def unat_and3 wrn)
    show "length ?row = 8"
      using i len(2) by (simp add: list_all_length)
    show "row_ok ?row"
      using ok q by simp
    show "rows s = ?row # rows (s\<lparr>usb_ff_rptr := usb_ff_rptr s + 1\<rparr>)"
      using q by (simp add: wrn)
    show "fifo_ok (s\<lparr>usb_ff_rptr := usb_ff_rptr s + 1\<rparr>)"
      using len ok q p(4) [OF wr] n4 by (simp add: fifo_ok_def wrn [symmetric])
  qed
qed

lemma proc_empty: "usb_ff_rptr s = usb_ff_wptr s \<Longrightarrow> reports s = [] \<and> usb_hid_report_fifo_proc s = Some (False, s)"
  by (simp add: reports_def rows_def ring_of_def usb_hid_report_fifo_proc_def)

text \<open>The row at the front is reported with the arguments of its report.\<close>

lemma proc_front:
  assumes row: "get_byte (usb_fifo s) (unat (usb_ff_rptr s AND 3)) = Some row" "length row = 8" "row_ok row"
    and ne: "usb_ff_rptr s \<noteq> usb_ff_wptr s" and proto: "usb_mouse_report_proto s \<noteq> 0"
  shows "usb_hid_report_fifo_proc s =
    (if usbhw_is_ep_busy (report_ep (row_report row)) s then Some (False, s)
     else Some (True, (ep_send (report_ep (row_report row)) (report_bytes (row_report row)) s)\<lparr>usb_ff_rptr := usb_ff_rptr s + 1\<rparr>))"
proof -
  have at: "get_byte row 0 = Some (row ! 0)" "get_byte row 1 = Some (row ! 1)" "get_byte row (Suc 0) = Some (row ! Suc 0)" "get_byte row 2 = Some (row ! 2)"
    using row(2) by (simp_all add: get_byte_def)
  note front = usb_hid_report_fifo_proc_def row(1) at ne USB_FIFO_NUM_def
  show ?thesis
  proof (cases "row ! 0 = DAT_TYPE_KB")
    case True
    then have r: "row_report row = Kb_Report (row ! 1) (take 6 (drop 2 row))"
      by (simp add: row_report_def)
    show ?thesis
      using row(2) True
      by (simp add: front r usbkb_hid_report_normal_def KEYBOARD_REPORT_KEY_MAX_def USB_EDP_KEYBOARD_IN_def get_bytes_def ep_send_frame)
  next
    case False
    then have t: "row ! 0 = DAT_TYPE_MOUSE" "row ! 2 \<le> 4"
      using row(3) by (auto simp: row_ok_def)
    then have r: "row_report row = Mouse_Report (row ! 1) (take (unat (row ! 2)) (drop 4 row))" and n: "unat (row ! 2) \<le> 4"
      using False by (simp_all add: row_report_def word_le_nat_alt)
    show ?thesis
      using row(2) t(1) n proto
      by (simp add: front r usbmouse_hid_report_def DAT_TYPE_MOUSE_def DAT_TYPE_KB_def USB_EDP_MOUSE_def get_bytes_def ep_send_frame)
  qed
qed

lemma rptr_after_send:
  "(ep_send ep bs s)\<lparr>usb_ff_rptr := r\<rparr> = ep_send ep bs (s\<lparr>usb_ff_rptr := r\<rparr>)"
  by (simp add: ep_send_def Let_def)

lemma proc_sim:
  assumes rel: "hid_rel s a"
  shows "\<exists>s'. hid_step Fifo_Proc s = Some (fst (hid_spec Fifo_Proc a), s') \<and> hid_rel s' (snd (hid_spec Fifo_Proc a))"
proof -
  have a: "a = (reports s, \<lambda>ep. usbhw_is_ep_busy ep s, ep_out s)" and inv: "fifo_ok s" "toggles_ok s" "usb_mouse_report_proto s \<noteq> 0"
    using rel by (cases a, auto)+
  show ?thesis
  proof (cases "usb_ff_rptr s = usb_ff_wptr s")
    case True
    then show ?thesis
      using proc_empty [OF True] rel inv by (simp add: a)
  next
    case False
    let ?s = "s\<lparr>usb_ff_rptr := usb_ff_rptr s + 1\<rparr>"
    obtain row where row: "get_byte (usb_fifo s) (unat (usb_ff_rptr s AND 3)) = Some row" "length row = 8" "row_ok row"
        "rows s = row # rows ?s" "fifo_ok ?s"
      using fifo_front [OF inv(1) False] by blast
    note proc = proc_front [OF row(1-3) False inv(3)]
    have reps: "reports s = row_report row # reports ?s"
      by (simp add: reports_def row(4))
    let ?r = "row_report row"
    have same: "toggles_ok ?s" "usb_mouse_report_proto ?s \<noteq> 0" "ep_out ?s = ep_out s" "(\<lambda>ep. usbhw_is_ep_busy ep ?s) = (\<lambda>ep. usbhw_is_ep_busy ep s)"
      using inv by (simp_all add: toggles_ok_def usbhw_is_ep_busy_def)
    have "hid_rel (ep_send (report_ep ?r) (report_bytes ?r) ?s) (reports ?s, (\<lambda>ep. usbhw_is_ep_busy ep s)(report_ep ?r := True), ep_out s @ [packet ?r (ep_out s)])"
      using row(5) same ep_send_packet [OF same(1), of ?r] by (simp add: ep_send_frame)
    then show ?thesis
      using proc reps inv rel by (simp add: a rptr_after_send)
  qed
qed

lemma take_sim:
  assumes rel: "hid_rel s a"
  shows "hid_rel (host_take ep s) (snd (hid_spec (Host_Take ep) a))"
proof -
  have "(x AND - 2) AND 1 = 0" for x :: u8
    by (simp add: and.assoc)
  then show ?thesis
    using rel by (cases a) (auto simp: host_take_def fifo_ok_def reports_def rows_def toggles_ok_def usbhw_is_ep_busy_def fun_eq_iff)
qed

lemma hid_step_sim:
  assumes "hid_rel s a" and "hid_env e a"
  shows "\<exists>s'. hid_step e s = Some (fst (hid_spec e a), s') \<and> hid_rel s' (snd (hid_spec e a))"
proof (cases e)
  case (Report r)
  then show ?thesis
    using report_sim [OF assms(1)] assms(2) by simp
next
  case Fifo_Proc
  then show ?thesis
    using proc_sim [OF assms(1)] by simp
next
  case (Host_Take ep)
  then show ?thesis
    using take_sim [OF assms(1)] by (cases a) simp
qed

interpretation hid: simulates hid_step hid_spec hid_env hid_rel
  by unfold_locales (rule hid_step_sim)


section \<open>The theorems\<close>

text \<open>
  C33: Every sequence of keyboard and mouse reports, of calls of \<open>usb_hid_report_fifo_proc\<close> and of packets
  taken by the host does what a device with a queue of four reports does: a report whose endpoint is
  free is sent at once, other reports wait in order (the oldest one makes room for a fifth), and the
  packets of each endpoint alternate between DATA0 and DATA1; no array is left.
\<close>

theorem hid_reports_refine_queue:
  assumes "hid_rel s a" and "spec_env hid_spec hid_env ops a"
  shows "\<exists>s'. run_out hid_step ops s = Some (fst (spec_out hid_spec ops a), s') \<and> hid_rel s' (snd (spec_out hid_spec ops a))"
  using assms by (rule hid.run_sim)

definition no_keys :: kb_data where
  "no_keys = \<lparr>cnt = 0, ctrl_key = 0, keycode = replicate 6 0\<rparr>"

definition usb_hid_new :: usb_hid where
  "usb_hid_new =
     usb_reset \<lparr>ep_ctrl = \<lambda>_. 0, ep_out = [], edp_toggle = \<lambda>_. 0, usb_fifo = replicate 4 (replicate 8 0),
       usb_ff_rptr = 254, usb_ff_wptr = 254, usb_mouse_report_proto = 0, kb_dat_buff = replicate 8 no_keys,
       usbkb_wptr = 0, usbkb_rptr = 0, usbkb_not_released = 0, usbkb_data_report_time = 0, last_data = no_keys,
       mouse_dat_buff = replicate 8 (replicate 4 0), usbmouse_wptr = 0, usbmouse_rptr = 0,
       usbmouse_not_released = 0, usbmouse_data_report_time = 0\<rparr>"

lemma usb_hid_new_rel: "hid_rel usb_hid_new ([], \<lambda>_. False, [])"
  by (simp add: usb_hid_new_def usb_reset_def fifo_ok_def rows_def reports_def ring_of_def toggles_ok_def
    sent_on_def usbhw_is_ep_busy_def list_all_iff)

definition hid_demo :: "hid_op list" where
  "hid_demo =
     Report (Kb_Report 0 [4, 0, 0, 0, 0, 0]) #
     map (\<lambda>k. Report (Kb_Report 0 [k, 0, 0, 0, 0, 0])) [5, 6, 7, 8] @
     [Report (Mouse_Report 1 [1, 2, 3, 4]), Report (Mouse_Report 1 [0, 0, 0, 0]), Fifo_Proc, Host_Take 1, Fifo_Proc, Fifo_Proc]"

theorem hid_reports_refine_queue_witness:
  "\<exists>s'. run_out hid_step hid_demo usb_hid_new = Some (fst (spec_out hid_spec hid_demo ([], \<lambda>_. False, [])), s') \<and>
    hid_rel s' (snd (spec_out hid_spec hid_demo ([], \<lambda>_. False, [])))"
  by (rule hid_reports_refine_queue [OF usb_hid_new_rel]) (simp add: hid_demo_def)

text \<open>The packets that a queue becomes, when the endpoints are free each time.\<close>

fun packets :: "hid_report list \<Rightarrow> (nat \<times> u8 list \<times> u8) list \<Rightarrow> (nat \<times> u8 list \<times> u8) list" where
  "packets [] out = out"
| "packets (r # rs) out = packets rs (out @ [packet r out])"

definition poll :: "hid_op list" where
  "poll = [Host_Take 1, Host_Take 2, Fifo_Proc]"

lemma report_ep_cases: "report_ep r = 1 \<or> report_ep r = 2"
  by (cases r) simp_all

lemma spec_poll:
  "snd (spec_out hid_spec poll (r # q, busy, out)) = (q, busy(1 := False, 2 := False, report_ep r := True), out @ [packet r out])"
  using report_ep_cases [of r] by (auto simp: poll_def)

lemma spec_out_append:
  "snd (spec_out spec (es @ fs) a) = snd (spec_out spec fs (snd (spec_out spec es a)))"
  by (induction es arbitrary: a) (simp_all add: case_prod_beta Let_def)

lemma spec_env_append:
  "spec_env spec env (es @ fs) a \<longleftrightarrow> spec_env spec env es a \<and> spec_env spec env fs (snd (spec_out spec es a))"
  by (induction es arbitrary: a) (simp_all add: case_prod_beta Let_def)

lemma spec_drain:
  "\<exists>busy'. snd (spec_out hid_spec (concat (replicate (length q) poll)) (q, busy, out)) = ([], busy', packets q out)"
proof (induction q arbitrary: busy out)
  case (Cons r q)
  then show ?case
    using spec_poll [of r q busy out] by (simp add: spec_out_append)
qed simp

lemma poll_env: "spec_env hid_spec hid_env poll a"
  by (simp add: poll_def)

lemma polls_env: "spec_env hid_spec hid_env (concat (replicate n poll)) a"
  by (induction n arbitrary: a) (simp_all add: spec_env_append poll_env)

text \<open>
  Reports that wait are all sent, in order: after as many rounds as there are reports, in each of
  which the host takes the packets of both endpoints and the device polls once, the queue is empty and
  exactly its reports have been sent after the earlier packets.
\<close>

theorem hid_queue_drains:
  assumes "hid_rel s (q, busy, out)"
  shows "\<exists>outs s'. run_out hid_step (concat (replicate (length q) poll)) s = Some (outs, s')
    \<and> reports s' = [] \<and> ep_out s' = packets q out"
proof -
  let ?ops = "concat (replicate (length q) poll)"
  obtain s' where s': "run_out hid_step ?ops s = Some (fst (spec_out hid_spec ?ops (q, busy, out)), s')"
      "hid_rel s' (snd (spec_out hid_spec ?ops (q, busy, out)))"
    using hid.run_sim [OF assms polls_env] by blast
  obtain busy' where "snd (spec_out hid_spec ?ops (q, busy, out)) = ([], busy', packets q out)"
    using spec_drain by blast
  then show ?thesis
    using s' by auto
qed

text \<open>A device with a mouse report and a keyboard report in the queue, and both endpoints busy.\<close>

definition hid_waiting :: usb_hid where
  "hid_waiting = usb_hid_new\<lparr>ep_ctrl := \<lambda>_. 5, edp_toggle := (\<lambda>_. 0)(1 := 1, 2 := 1), ep_out := [(1, [0, 0], 5), (2, [1], 5)],
     usb_ff_wptr := 0, usb_fifo := [[0, 0, 0, 0, 0, 0, 0, 0], [0, 0, 0, 0, 0, 0, 0, 0], [2, 1, 4, 0, 1, 2, 3, 4], [1, 0, 4, 5, 6, 0, 0, 0]]\<rparr>"

theorem hid_queue_drains_witness:
  "\<exists>outs s'. run_out hid_step (concat (replicate (length [Mouse_Report 1 [1, 2, 3, 4], Kb_Report 0 [4, 5, 6, 0, 0, 0]]) poll)) hid_waiting = Some (outs, s')
    \<and> reports s' = [] \<and> ep_out s' = packets [Mouse_Report 1 [1, 2, 3, 4], Kb_Report 0 [4, 5, 6, 0, 0, 0]] [(1, [0, 0], 5), (2, [1], 5)]"
proof (rule hid_queue_drains)
  have u: "[0..<2] = [0, 1 :: nat]"
    by (simp add: upt_rec)
  show "hid_rel hid_waiting ([Mouse_Report 1 [1, 2, 3, 4], Kb_Report 0 [4, 5, 6, 0, 0, 0]], \<lambda>_. True, [(1, [0, 0], 5), (2, [1], 5)])"
    by (simp add: hid_waiting_def usb_hid_new_def usb_reset_def fifo_ok_def rows_def reports_def ring_of_def toggles_ok_def
      sent_on_def usbhw_is_ep_busy_def row_ok_def row_report_def DAT_TYPE_KB_def DAT_TYPE_MOUSE_def u)
qed

end
