(* ===== verification/Usb_Kb_Press.thy ===== *)
theory Usb_Kb_Press
  imports Usb_Hid_Theorems Safe_System
begin

text \<open>
  What the keyboard and mouse functions of Usb_Hid report: a press, its repetition and the release of
  any keys when the endpoints are free; the key that stays pressed when its press had to wait; and the
  mouse movements that are repeated or lost.
\<close>

section \<open>Sorting the keys\<close>

definition is_ext :: "u8 \<Rightarrow> bool" where
  "is_ext k \<longleftrightarrow> VK_EXT_START \<le> k \<and> k < VK_EXT_END"

definition last_ext :: "u8 list \<Rightarrow> u8 \<Rightarrow> u8" where
  "last_ext ks e = foldl (\<lambda>e k. if is_ext k then k else e) e ks"

lemma separate_loop_spec:
  assumes "i + n \<le> length ks" and "m + n \<le> length nk"
  shows "separate_loop ks i n m nk e =
    (let xs = take n (drop i ks); norm = filter (\<lambda>k. \<not> is_ext k) xs
     in Some (m + length norm, take m nk @ norm @ drop (m + length norm) nk, last_ext xs e))"
  using assms
proof (induction n arbitrary: i m nk e)
  case (Suc n)
  have i: "i < length ks" "m < length nk"
    using Suc.prems by simp_all
  then have xs: "take (Suc n) (drop i ks) = ks ! i # take n (drop (i + 1) ks)"
    by (simp add: take_Suc hd_drop_conv_nth tl_drop drop_Suc)
  show ?case
  proof (cases "is_ext (ks ! i)")
    case True
    then show ?thesis
      using i Suc.IH [of "i + 1" m nk "ks ! i"] Suc.prems
      by (simp add: xs get_byte_def is_ext_def [symmetric] last_ext_def Let_def)
  next
    case False
    let ?nk = "nk[m := ks ! i]"
    have t: "take (m + 1) ?nk = take m nk @ [ks ! i]" "drop (m + 1 + d) ?nk = drop (m + 1 + d) nk" for d
      using i by (simp_all add: take_Suc_update)
    have "separate_loop ks i (Suc n) m nk e = separate_loop ks (i + 1) n (m + 1) ?nk e"
      using i False by (auto simp: get_byte_def put_byte_def is_ext_def)
    also have "\<dots> = (let xs = take n (drop (i + 1) ks); norm = filter (\<lambda>k. \<not> is_ext k) xs
        in Some (m + 1 + length norm, take (m + 1) ?nk @ norm @ drop (m + 1 + length norm) ?nk, last_ext xs e))"
      by (rule Suc.IH) (use Suc.prems in simp_all)
    finally show ?thesis
      using False unfolding t xs by (simp add: last_ext_def Let_def)
  qed
qed (simp add: last_ext_def)

lemma last_ext_cases: "last_ext ks e = e \<or> is_ext (last_ext ks e) \<and> last_ext ks e \<in> set ks"
proof (induction ks rule: rev_induct)
  case (snoc k ks)
  then show ?case
    by (auto simp: last_ext_def)
qed (simp add: last_ext_def)

section \<open>The reports of a press and of a release\<close>

definition keys_of :: "kb_data \<Rightarrow> u8 list" where
  "keys_of d = take (unat (cnt d)) (keycode d)"

definition normals :: "kb_data \<Rightarrow> u8 list" where
  "normals d = filter (\<lambda>k. \<not> is_ext k) (keys_of d)"

definition ext_of :: "kb_data \<Rightarrow> u8" where
  "ext_of d = last_ext (keys_of d) VK_EXT_END"

definition sys_value :: "u8 \<Rightarrow> u8" where
  "sys_value k = vk_sys_map ! unat (k - VK_SYS_START)"

definition media_value :: "u8 \<Rightarrow> u8 list" where
  "media_value k = vk_media_map ! unat (k - VK_MEDIA_START) @ [0, 0]"

definition press_reports :: "kb_data \<Rightarrow> hid_report list" where
  "press_reports d =
     (if normals d \<noteq> [] \<or> ctrl_key d \<noteq> 0 then [Kb_Report (ctrl_key d) (normals d @ replicate (6 - length (normals d)) 0)] else []) @
     (if ext_of d < VK_SYS_END then [Mouse_Report USB_HID_KB_SYS [sys_value (ext_of d)]]
      else if ext_of d < VK_MEDIA_END then [Mouse_Report USB_HID_KB_MEDIA (media_value (ext_of d))]
      else [])"

definition release_reports :: "kb_data \<Rightarrow> hid_report list" where
  "release_reports d =
     (if normals d \<noteq> [] \<or> ctrl_key d \<noteq> 0 then [Kb_Report 0 [0, 0, 0, 0, 0, 0]] else []) @
     (if ext_of d < VK_SYS_END then [Mouse_Report USB_HID_KB_SYS [0]]
      else if ext_of d < VK_MEDIA_END then [Mouse_Report USB_HID_KB_MEDIA [0, 0, 0, 0]]
      else [])"

definition kb_event_ok :: "kb_data \<Rightarrow> bool" where
  "kb_event_ok d \<longleftrightarrow> length (keycode d) = 6 \<and> cnt d \<le> 6"

lemma event_bounds:
  assumes "kb_event_ok d"
  shows "unat (cnt d) \<le> 6" and "length (keys_of d) = unat (cnt d)" and "length (normals d) \<le> 6"
    and "ext_of d = VK_EXT_END \<or> VK_SYS_START \<le> ext_of d \<and> ext_of d < VK_EXT_END"
proof -
  show n: "unat (cnt d) \<le> 6"
    using assms by (simp add: kb_event_ok_def word_le_nat_alt)
  then show l: "length (keys_of d) = unat (cnt d)"
    using assms by (simp add: kb_event_ok_def keys_of_def)
  show "length (normals d) \<le> 6"
    unfolding normals_def using n l length_filter_le le_trans by metis
  show "ext_of d = VK_EXT_END \<or> VK_SYS_START \<le> ext_of d \<and> ext_of d < VK_EXT_END"
    using last_ext_cases [of "keys_of d" VK_EXT_END]
    by (auto simp: ext_of_def is_ext_def VK_EXT_START_def VK_SYS_START_def)
qed

lemma separate_event:
  assumes "kb_event_ok d"
  shows "(if 0 < cnt d then usbkb_separate_key_types (keycode d) (cnt d) (replicate KEYBOARD_REPORT_KEY_MAX 0) VK_EXT_END
      else Some (0, replicate KEYBOARD_REPORT_KEY_MAX 0, VK_EXT_END))
    = Some (length (normals d), normals d @ replicate (6 - length (normals d)) 0, ext_of d)"
proof (cases "0 < cnt d")
  case True
  have "unat (cnt d) \<le> length (keycode d)" "unat (cnt d) \<le> 6"
    using event_bounds(1) [OF assms] assms by (simp_all add: kb_event_ok_def)
  then show ?thesis
    using True separate_loop_spec [of 0 "unat (cnt d)" "keycode d" 0 "replicate 6 0" VK_EXT_END]
    by (simp add: usbkb_separate_key_types_def KEYBOARD_REPORT_KEY_MAX_def normals_def ext_of_def keys_of_def Let_def)
next
  case False
  then have "keys_of d = []"
    by (simp add: keys_of_def word_neq_0_conv [symmetric])
  then show ?thesis
    using False by (simp add: normals_def ext_of_def last_ext_def KEYBOARD_REPORT_KEY_MAX_def)
qed

section \<open>Sending with free endpoints\<close>

definition send :: "hid_report \<Rightarrow> usb_hid \<Rightarrow> usb_hid" where
  "send r s = ep_send (report_ep r) (report_bytes r) s"

definition kb_ready :: "usb_hid \<Rightarrow> bool" where
  "kb_ready s \<longleftrightarrow> \<not> usbhw_is_ep_busy 1 s \<and> \<not> usbhw_is_ep_busy 2 s \<and> usb_mouse_report_proto s \<noteq> 0"

lemma send_kb:
  assumes "\<not> usbhw_is_ep_busy 1 s" and "length ks = 6"
  shows "usbkb_hid_report_normal c ks s = Some (True, send (Kb_Report c ks) s)"
  using assms by (simp add: usbkb_hid_report_normal_def KEYBOARD_REPORT_KEY_MAX_def USB_EDP_KEYBOARD_IN_def get_bytes_def send_def)

lemma send_mouse:
  assumes "\<not> usbhw_is_ep_busy 2 s" and "usb_mouse_report_proto s \<noteq> 0" and "n \<le> length d"
  shows "usbmouse_hid_report i d n s = Some (True, send (Mouse_Report i (take n d)) s)"
  using assms by (simp add: usbmouse_hid_report_def USB_EDP_MOUSE_def get_bytes_def send_def)


text \<open>The state after sending reports: the packets, and what did not change.\<close>

definition kb_after :: "hid_report list \<Rightarrow> usb_hid \<Rightarrow> usb_hid \<Rightarrow> bool" where
  "kb_after rs s s' \<longleftrightarrow> ep_out s' = packets rs (ep_out s) \<and> toggles_ok s' \<and> usb_mouse_report_proto s' = usb_mouse_report_proto s
     \<and> last_data s' = last_data s \<and> usb_fifo s' = usb_fifo s \<and> usb_ff_rptr s' = usb_ff_rptr s \<and> usb_ff_wptr s' = usb_ff_wptr s"

lemma kb_after_refl: "toggles_ok s \<Longrightarrow> kb_after [] s s"
  by (simp add: kb_after_def)

lemma packets_append: "packets (rs @ rs') out = packets rs' (packets rs out)"
  by (induction rs arbitrary: out) simp_all

lemma kb_after_trans: "kb_after rs s s' \<Longrightarrow> kb_after rs' s' s'' \<Longrightarrow> kb_after (rs @ rs') s s''"
  by (simp add: kb_after_def packets_append)

lemma kb_after_toggles: "kb_after rs s s' \<Longrightarrow> toggles_ok s'"
  by (simp add: kb_after_def)

lemma send_after:
  assumes "toggles_ok s"
  shows "kb_after [r] s ((send r s)\<lparr>usbkb_not_released := v\<rparr>)" and "kb_after [r] s (send r s)"
  using ep_send_packet [OF assms, of r]
  by (simp_all add: kb_after_def send_def toggles_ok_def ep_send_def Let_def del: report_bytes.simps)

lemma send_other:
  "report_ep r \<noteq> ep \<Longrightarrow> usbhw_is_ep_busy ep (send r s) = usbhw_is_ep_busy ep s"
  "usbkb_not_released (send r s) = usbkb_not_released s"
  "usbhw_is_ep_busy ep (s\<lparr>usbkb_not_released := v\<rparr>) = usbhw_is_ep_busy ep s"
  by (simp_all add: send_def ep_send_def usbhw_is_ep_busy_def Let_def)

definition normal_part :: "u8 \<Rightarrow> nat \<Rightarrow> u8 list \<Rightarrow> hid_report list" where
  "normal_part c n ks = (if 0 < n \<or> c \<noteq> 0 then [Kb_Report c ks] else [])"

text \<open>A press: nothing was unreleased before.\<close>

lemma press_normal:
  assumes "\<not> usbhw_is_ep_busy 1 s" and "toggles_ok s" and "length ks = 6" and "usbkb_not_released s = 0"
  shows "\<exists>s'. usbkb_report_normal_key c ks n s = Some s' \<and> kb_after (normal_part c n ks) s s'
    \<and> usbkb_not_released s' = (if 0 < n \<or> c \<noteq> 0 then 1 else 0) \<and> usbhw_is_ep_busy 2 s' = usbhw_is_ep_busy 2 s"
  using assms
  by (auto simp: usbkb_report_normal_key_def send_kb normal_part_def send_after kb_after_refl send_other
    KB_NORMAL_RELEASE_MASK_def usbkb_release_normal_key_def)

definition ext_part :: "u8 \<Rightarrow> hid_report list" where
  "ext_part e =
     (if e < VK_SYS_END then [Mouse_Report USB_HID_KB_SYS [sys_value e]]
      else if e < VK_MEDIA_END then [Mouse_Report USB_HID_KB_MEDIA (media_value e)]
      else [])"

lemma sys_range: "VK_SYS_START \<le> e \<Longrightarrow> e < VK_SYS_END \<Longrightarrow> unat (e - VK_SYS_START) < length vk_sys_map"
  and media_range: "VK_MEDIA_START \<le> e \<Longrightarrow> e < VK_MEDIA_END \<Longrightarrow> unat (e - VK_MEDIA_START) < length vk_media_map"
  by (simp_all add: VK_SYS_START_def VK_SYS_END_def VK_MEDIA_START_def VK_MEDIA_END_def vk_sys_map_def vk_media_map_def
    word_le_nat_alt word_less_nat_alt unat_sub)

lemma take_1_drop: "k < length xs \<Longrightarrow> take (Suc 0) (drop k xs) = [xs ! k]"
  by (simp add: take_Suc hd_drop_conv_nth)

lemma media_rows: "k < length vk_media_map \<Longrightarrow> length (vk_media_map ! k) = 2"
proof -
  have "list_all (\<lambda>v. length v = 2) vk_media_map"
    by (simp add: vk_media_map_def)
  then show "k < length vk_media_map \<Longrightarrow> length (vk_media_map ! k) = 2"
    by (simp add: list_all_length)
qed

lemma press_ext:
  assumes "\<not> usbhw_is_ep_busy 2 s" and "usb_mouse_report_proto s \<noteq> 0" and "toggles_ok s"
    and nr: "usbkb_not_released s = 0 \<or> usbkb_not_released s = 1"
    and e: "e = VK_EXT_END \<or> VK_SYS_START \<le> e \<and> e < VK_EXT_END"
  shows "\<exists>s' s''. usbkb_report_sys_key e s = Some s' \<and> usbkb_report_media_key e s' = Some s'' \<and> kb_after (ext_part e) s s''
    \<and> usbkb_not_released s'' = usbkb_not_released s OR (if e < VK_SYS_END then 2 else if e < VK_MEDIA_END then 4 else 0)"
proof -
  have masks: "usbkb_not_released s AND 2 = 0" "usbkb_not_released s AND 4 = 0" "(usbkb_not_released s OR 2) AND 4 = 0"
    using nr by auto
  note defs = usbkb_report_sys_key_def usbkb_report_media_key_def usbkb_release_sys_key_def usbkb_release_media_key_def
    KB_SYS_RELEASE_MASK_def KB_MEDIA_RELEASE_MASK_def ext_part_def
  consider (sys) "VK_SYS_START \<le> e" "e < VK_SYS_END" | (media) "VK_MEDIA_START \<le> e" "e < VK_MEDIA_END" "\<not> e < VK_SYS_END"
    | (none) "e = VK_EXT_END"
    using e by (force simp: VK_MEDIA_START_def VK_SYS_END_def VK_EXT_END_def VK_MEDIA_END_def)
  then show ?thesis
  proof cases
    case sys
    then have "\<not> VK_MEDIA_START \<le> e"
      by (simp add: VK_MEDIA_START_def VK_SYS_END_def not_le)
    moreover have "usbmouse_hid_report USB_HID_KB_SYS (drop (unat (e - VK_SYS_START)) vk_sys_map) 1 s
        = Some (True, send (Mouse_Report USB_HID_KB_SYS [sys_value e]) s)"
      using send_mouse [OF assms(1,2), of 1 "drop (unat (e - VK_SYS_START)) vk_sys_map" USB_HID_KB_SYS] sys_range [OF sys]
      by (simp add: take_1_drop sys_value_def)
    ultimately show ?thesis
      using sys send_after(1) [OF assms(3)] masks by (simp add: defs send_other)
  next
    case media
    then have "\<not> VK_SYS_START \<le> e \<or> \<not> e < VK_SYS_END"
      by simp
    have i: "unat (e - VK_MEDIA_START) < length vk_media_map"
      by (rule media_range [OF media(1,2)])
    have len: "length (media_value e) = 4"
      using media_rows [OF i] by (simp add: media_value_def)
    have "put_bytes (replicate 4 0) 0 (vk_media_map ! unat (e - VK_MEDIA_START)) = Some (media_value e)"
      using media_rows [OF i] by (simp add: put_bytes_def media_value_def eval_nat_numeral)
    moreover have "usbmouse_hid_report USB_HID_KB_MEDIA (media_value e) 4 s = Some (True, send (Mouse_Report USB_HID_KB_MEDIA (media_value e)) s)"
      using send_mouse [OF assms(1,2), of 4 "media_value e"] len by simp
    ultimately show ?thesis
      using media i send_after(1) [OF assms(3)] masks
      by (simp add: defs send_other get_byte_def report_media_def MOUSE_REPORT_DATA_LEN_def MEDIA_REPORT_DATA_LEN_def)
  next
    case none
    then show ?thesis
      using masks kb_after_refl [OF assms(3)]
      by (simp add: defs VK_EXT_END_def VK_SYS_END_def VK_MEDIA_END_def VK_MEDIA_START_def VK_SYS_START_def)
  qed
qed


section \<open>Press and release\<close>

lemma kb_after_time: "kb_after rs s (s'\<lparr>usbkb_data_report_time := now\<rparr>) = kb_after rs s s'"
  by (simp add: kb_after_def toggles_ok_def)

lemma kb_after_last: "kb_after rs (s\<lparr>last_data := d\<rparr>) s' \<Longrightarrow> ep_out s' = packets rs (ep_out s) \<and> toggles_ok s'
    \<and> usb_mouse_report_proto s' = usb_mouse_report_proto s \<and> last_data s' = d \<and> usb_fifo s' = usb_fifo s
    \<and> usb_ff_rptr s' = usb_ff_rptr s \<and> usb_ff_wptr s' = usb_ff_wptr s"
  by (simp add: kb_after_def)

definition press_flags :: "kb_data \<Rightarrow> u32" where
  "press_flags d = (if normals d \<noteq> [] \<or> ctrl_key d \<noteq> 0 then 1 else 0)
     OR (if ext_of d < VK_SYS_END then 2 else if ext_of d < VK_MEDIA_END then 4 else 0)"

lemma press_reports_parts:
  "press_reports d = normal_part (ctrl_key d) (length (normals d)) (normals d @ replicate (6 - length (normals d)) 0) @ ext_part (ext_of d)"
  by (simp add: press_reports_def normal_part_def ext_part_def)

lemma same_loop_total: "i + n \<le> length a \<Longrightarrow> i + n \<le> length b \<Longrightarrow> \<exists>r. same_loop a b i n = Some r \<and> (r \<longleftrightarrow> take n (drop i a) = take n (drop i b))"
proof (induction n arbitrary: i)
  case (Suc n)
  then have "i < length a" "i < length b"
    by simp_all
  then have "take (Suc n) (drop i a) = a ! i # take n (drop (i + 1) a)" "take (Suc n) (drop i b) = b ! i # take n (drop (i + 1) b)"
    by (simp_all add: take_Suc hd_drop_conv_nth tl_drop drop_Suc)
  then show ?case
    using Suc.IH [of "i + 1"] Suc.prems by (auto simp: get_byte_def)
qed (auto intro: exI [of _ True])

definition same_event :: "kb_data \<Rightarrow> kb_data \<Rightarrow> bool" where
  "same_event a b \<longleftrightarrow> cnt a = cnt b \<and> ctrl_key a = ctrl_key b \<and> keys_of a = keys_of b"

lemma kb_is_data_same_spec:
  assumes "length (keycode a) = 6" and "kb_event_ok b"
  shows "kb_is_data_same a b = Some (same_event a b)"
proof -
  have "unat (cnt b) \<le> 6" "length (keycode b) = 6"
    using event_bounds(1) [OF assms(2)] assms(2) by (simp_all add: kb_event_ok_def)
  then obtain r where "same_loop (keycode a) (keycode b) 0 (unat (cnt b)) = Some r"
      "r \<longleftrightarrow> take (unat (cnt b)) (keycode a) = take (unat (cnt b)) (keycode b)"
    using same_loop_total [of 0 "unat (cnt b)" "keycode a" "keycode b"] assms(1) by auto
  then show ?thesis
    by (auto simp: kb_is_data_same_def same_event_def keys_of_def)
qed

lemma check_and_save:
  assumes "length (keycode (last_data s)) = 6" and "kb_event_ok d"
  shows "usbkb_check_repeat_and_save d s = Some (same_event (last_data s) d, if same_event (last_data s) d then s else s\<lparr>last_data := d\<rparr>)"
  using kb_is_data_same_spec [OF assms] by (simp add: usbkb_check_repeat_and_save_def)

lemma press_body:
  assumes d: "kb_event_ok d" and ready: "kb_ready s" "toggles_ok s" "usbkb_not_released s = 0"
  shows "\<exists>s1 s2 s3. usbkb_report_normal_key (ctrl_key d) (normals d @ replicate (6 - length (normals d)) 0) (length (normals d)) s = Some s1
    \<and> usbkb_report_sys_key (ext_of d) s1 = Some s2 \<and> usbkb_report_media_key (ext_of d) s2 = Some s3
    \<and> kb_after (press_reports d) s s3 \<and> usbkb_not_released s3 = press_flags d"
proof -
  let ?ks = "normals d @ replicate (6 - length (normals d)) 0"
  have len: "length ?ks = 6"
    using event_bounds(3) [OF d] by simp
  have free: "\<not> usbhw_is_ep_busy 1 s" "\<not> usbhw_is_ep_busy 2 s" "usb_mouse_report_proto s \<noteq> 0"
    using ready(1) by (simp_all add: kb_ready_def)
  obtain s1 where s1: "usbkb_report_normal_key (ctrl_key d) ?ks (length (normals d)) s = Some s1"
      "kb_after (normal_part (ctrl_key d) (length (normals d)) ?ks) s s1"
      "usbkb_not_released s1 = (if 0 < length (normals d) \<or> ctrl_key d \<noteq> 0 then 1 else 0)" "usbhw_is_ep_busy 2 s1 = usbhw_is_ep_busy 2 s"
    using press_normal [OF free(1) ready(2) len ready(3)] by blast
  have "\<not> usbhw_is_ep_busy 2 s1" "usb_mouse_report_proto s1 \<noteq> 0" "toggles_ok s1" "usbkb_not_released s1 = 0 \<or> usbkb_not_released s1 = 1"
    using s1 free by (auto simp: kb_after_def)
  from press_ext [OF this event_bounds(4) [OF d]] obtain s2 s3 where s3: "usbkb_report_sys_key (ext_of d) s1 = Some s2"
      "usbkb_report_media_key (ext_of d) s2 = Some s3" "kb_after (ext_part (ext_of d)) s1 s3"
      "usbkb_not_released s3 = usbkb_not_released s1 OR (if ext_of d < VK_SYS_END then 2 else if ext_of d < VK_MEDIA_END then 4 else 0)"
    by blast
  then show ?thesis
    using s1(1,3) kb_after_trans [OF s1(2) s3(3)] unfolding press_reports_parts press_flags_def by auto
qed

definition event_valid :: "kb_data \<Rightarrow> bool" where
  "event_valid d \<longleftrightarrow> 0 < cnt d \<or> ctrl_key d \<noteq> 0"

lemma kb_ready_last: "kb_ready (s\<lparr>last_data := d\<rparr>) = kb_ready s" "toggles_ok (s\<lparr>last_data := d\<rparr>) = toggles_ok s"
  by (simp_all add: kb_ready_def usbhw_is_ep_busy_def toggles_ok_def)

lemma press_spec:
  assumes d: "kb_event_ok d" "event_valid d" and ready: "kb_ready s" "toggles_ok s" "usbkb_not_released s = 0"
    and last: "length (keycode (last_data s)) = 6"
  obtains s' where "usbkb_hid_report now d s = Some s'" "ep_out s' = packets (press_reports d) (ep_out s)" "toggles_ok s'"
    "usb_mouse_report_proto s' \<noteq> 0" "same_event (last_data s') d" "length (keycode (last_data s')) = 6" "usbkb_not_released s' = press_flags d"
proof -
  have small: "\<not> KB_RETURN_KEY_MAX < cnt d"
    using d(1) by (simp add: kb_event_ok_def KB_RETURN_KEY_MAX_def not_less)
  let ?s = "if same_event (last_data s) d then s else s\<lparr>last_data := d\<rparr>"
  have "kb_ready ?s" "toggles_ok ?s" "usbkb_not_released ?s = 0"
    using ready by (simp_all add: kb_ready_last)
  note nr = this(3)
  from press_body [OF d(1) \<open>kb_ready ?s\<close> \<open>toggles_ok ?s\<close> nr] obtain s1 s2 s3 where
      s: "usbkb_report_normal_key (ctrl_key d) (normals d @ replicate (6 - length (normals d)) 0) (length (normals d)) ?s = Some s1"
      "usbkb_report_sys_key (ext_of d) s1 = Some s2" "usbkb_report_media_key (ext_of d) s2 = Some s3"
      "kb_after (press_reports d) ?s s3" "usbkb_not_released s3 = press_flags d"
    by blast
  have l: "same_event (last_data ?s) d" "length (keycode (last_data ?s)) = 6"
    using last d(1) by (simp_all add: same_event_def kb_event_ok_def)
  have run: "usbkb_hid_report now d s = Some (s3\<lparr>usbkb_data_report_time := now\<rparr>)"
    unfolding usbkb_hid_report_def
    using small d(2) nr s(1-3)
    by (simp add: event_valid_def check_and_save [OF last d(1)] separate_event [OF d(1)] split del: if_split)
  have a: "ep_out ?s = ep_out s" "usb_mouse_report_proto ?s = usb_mouse_report_proto s"
    by simp_all
  show thesis
    by (rule that [OF run]) (use s(4,5) l a ready(1) in \<open>simp_all add: kb_after_def toggles_ok_def kb_ready_def\<close>)
qed

lemma press_flags_cases: "press_flags d \<in> {0, 1, 2, 3, 4, 5}"
  by (auto simp: press_flags_def)

lemma flags_reports: "press_flags d \<noteq> 0 \<longleftrightarrow> press_reports d \<noteq> []"
  by (auto simp: press_flags_def press_reports_def)

lemma event_has_reports:
  assumes "kb_event_ok d" and "event_valid d"
  shows "press_flags d \<noteq> 0"
proof (cases "normals d = [] \<and> ctrl_key d = 0")
  case True
  then have "0 < unat (cnt d)"
    using assms(2) by (simp add: event_valid_def word_less_nat_alt)
  then have "keys_of d \<noteq> []"
    using event_bounds(2) [OF assms(1)] by auto
  moreover have "\<forall>k\<in>set (keys_of d). is_ext k"
    using True by (auto simp: normals_def filter_empty_conv)
  ultimately have "is_ext (ext_of d)"
    by (cases "keys_of d" rule: rev_cases) (auto simp: ext_of_def last_ext_def)
  then show ?thesis
    by (auto simp: press_flags_def is_ext_def VK_EXT_END_def VK_MEDIA_END_def)
next
  case False
  then show ?thesis
    by (auto simp: press_flags_def)
qed

text \<open>The same keys again, while they are not released.\<close>

lemma repeat_spec:
  assumes "kb_event_ok d" and "event_valid d" and "same_event (last_data s) d" and "length (keycode (last_data s)) = 6"
    and "usbkb_not_released s \<noteq> 0"
  shows "usbkb_hid_report now d s = Some (s\<lparr>usbkb_data_report_time := now\<rparr>)"
proof -
  have "\<not> KB_RETURN_KEY_MAX < cnt d"
    using assms(1) by (simp add: kb_event_ok_def KB_RETURN_KEY_MAX_def not_less)
  then show ?thesis
    using assms(2,3,5) by (simp add: usbkb_hid_report_def event_valid_def check_and_save [OF assms(4,1)])
qed

definition flag_reports :: "u32 \<Rightarrow> hid_report list" where
  "flag_reports f =
     (if f AND 1 \<noteq> 0 then [Kb_Report 0 [0, 0, 0, 0, 0, 0]] else []) @
     (if f AND 2 \<noteq> 0 then [Mouse_Report USB_HID_KB_SYS [0]] else []) @
     (if f AND 4 \<noteq> 0 then [Mouse_Report USB_HID_KB_MEDIA [0, 0, 0, 0]] else [])"

lemma release_reports_flags: "release_reports d = flag_reports (press_flags d)"
  by (auto simp: release_reports_def flag_reports_def press_flags_def)


lemma zeros: "replicate 6 0 = [0, 0, 0, 0, 0, 0 :: u8]" "replicate 4 0 = [0, 0, 0, 0 :: u8]"
  by (simp_all add: eval_nat_numeral)

lemma release_normal:
  assumes "\<not> usbhw_is_ep_busy 1 s"
  shows "usbkb_release_normal_key s = Some (if usbkb_not_released s AND 1 \<noteq> 0
      then (send (Kb_Report 0 [0, 0, 0, 0, 0, 0]) s)\<lparr>usbkb_not_released := usbkb_not_released s AND NOT 1\<rparr> else s)"
  using send_kb [OF assms, of "[0, 0, 0, 0, 0, 0]" 0]
  by (simp add: usbkb_release_normal_key_def KB_NORMAL_RELEASE_MASK_def KEYBOARD_REPORT_KEY_MAX_def zeros send_other)

lemma release_sys:
  assumes "\<not> usbhw_is_ep_busy 2 s" and "usb_mouse_report_proto s \<noteq> 0"
  shows "usbkb_release_sys_key s = Some (if usbkb_not_released s AND 2 \<noteq> 0
      then (send (Mouse_Report USB_HID_KB_SYS [0]) s)\<lparr>usbkb_not_released := usbkb_not_released s AND NOT 2\<rparr> else s)"
  using send_mouse [OF assms, of 1 "[0, 0, 0, 0]" USB_HID_KB_SYS]
  by (simp add: usbkb_release_sys_key_def KB_SYS_RELEASE_MASK_def zeros send_other)

lemma release_media:
  assumes "\<not> usbhw_is_ep_busy 2 s" and "usb_mouse_report_proto s \<noteq> 0"
  shows "usbkb_release_media_key s = Some (if usbkb_not_released s AND 4 \<noteq> 0
      then (send (Mouse_Report USB_HID_KB_MEDIA [0, 0, 0, 0]) s)\<lparr>usbkb_not_released := usbkb_not_released s AND NOT 4\<rparr> else s)"
  using send_mouse [OF assms, of 4 "[0, 0, 0, 0]" USB_HID_KB_MEDIA]
  by (simp add: usbkb_release_media_key_def KB_MEDIA_RELEASE_MASK_def MOUSE_REPORT_DATA_LEN_def MEDIA_REPORT_DATA_LEN_def zeros send_other)

text \<open>An event without keys calls the three release functions.\<close>

lemma no_keys_report:
  "usbkb_hid_report now no_keys s = do {
     s \<leftarrow> usbkb_release_normal_key s; s \<leftarrow> usbkb_release_sys_key s; s \<leftarrow> usbkb_release_media_key s;
     Some (s\<lparr>usbkb_data_report_time := now\<rparr>) }"
  by (simp add: usbkb_hid_report_def no_keys_def KB_RETURN_KEY_MAX_def usbkb_report_normal_key_def usbkb_report_sys_key_def
    usbkb_report_media_key_def VK_EXT_END_def VK_SYS_END_def VK_MEDIA_END_def VK_MEDIA_START_def VK_SYS_START_def)

lemma kb_release_spec:
  assumes ready: "kb_ready s" "toggles_ok s" and f: "usbkb_not_released s \<in> {0, 1, 2, 3, 4, 5}"
  obtains s' where "usbkb_hid_report now no_keys s = Some s'" "kb_after (flag_reports (usbkb_not_released s)) s s'" "usbkb_not_released s' = 0"
proof -
  let ?f = "usbkb_not_released s"
  have free: "\<not> usbhw_is_ep_busy 1 s" "\<not> usbhw_is_ep_busy 2 s" "usb_mouse_report_proto s \<noteq> 0"
    using ready(1) by (simp_all add: kb_ready_def)
  define s1 where "s1 = (if ?f AND 1 \<noteq> 0
      then (send (Kb_Report 0 [0, 0, 0, 0, 0, 0]) s)\<lparr>usbkb_not_released := ?f AND NOT 1\<rparr> else s)"
  have f1: "usbkb_not_released s1 = ?f AND NOT 1"
    using f by (auto simp: s1_def)
  have s1: "usbkb_release_normal_key s = Some s1" "kb_after (if ?f AND 1 \<noteq> 0 then [Kb_Report 0 [0, 0, 0, 0, 0, 0]] else []) s s1"
      "usbhw_is_ep_busy 2 s1 = usbhw_is_ep_busy 2 s"
    using release_normal [OF free(1)] send_after(1) [OF ready(2)] kb_after_refl [OF ready(2)] by (simp_all add: s1_def send_other)
  then have b1: "\<not> usbhw_is_ep_busy 2 s1" "usb_mouse_report_proto s1 \<noteq> 0" "toggles_ok s1"
    using free by (simp_all add: kb_after_def)
  consider "?f AND 2 = 0" | "?f AND 2 \<noteq> 0" "?f AND 4 = 0"
    using f by auto
  then show thesis
  proof cases
    case 1
    then have z: "usbkb_not_released s1 AND 2 = 0"
      using f f1 by auto
    define s3 where "s3 = (if ?f AND 4 \<noteq> 0
      then (send (Mouse_Report USB_HID_KB_MEDIA [0, 0, 0, 0]) s1)\<lparr>usbkb_not_released := 0\<rparr> else s1)"
    have "usbkb_release_sys_key s1 = Some s1" "usbkb_release_media_key s1 = Some s3"
      using release_sys [OF b1(1,2)] release_media [OF b1(1,2)] z f f1 by (auto simp: s3_def)
    moreover have "kb_after (if ?f AND 4 \<noteq> 0 then [Mouse_Report USB_HID_KB_MEDIA [0, 0, 0, 0]] else []) s1 s3"
      using send_after(1) [OF b1(3)] kb_after_refl [OF b1(3)] by (simp add: s3_def)
    then have "kb_after (flag_reports ?f) s s3"
      using kb_after_trans [OF s1(2)] 1 by (simp only: flag_reports_def if_False append_Nil simp_thms)
    moreover have "usbkb_not_released s3 = 0"
      using f f1 1 by (auto simp: s3_def)
    ultimately show thesis
      using that [of "s3\<lparr>usbkb_data_report_time := now\<rparr>"] s1(1) by (simp add: no_keys_report kb_after_time)
  next
    case 2
    then have z: "usbkb_not_released s1 AND 2 \<noteq> 0" "?f AND NOT 1 AND NOT 2 = 0"
      using f f1 by auto
    define s2 where "s2 = (send (Mouse_Report USB_HID_KB_SYS [0]) s1)\<lparr>usbkb_not_released := 0\<rparr>"
    have "usbkb_release_sys_key s1 = Some s2"
      using release_sys [OF b1(1,2)] z f1 by (simp add: s2_def and.assoc)
    moreover have "usbkb_release_media_key s2 = Some s2"
      by (simp add: usbkb_release_media_key_def s2_def)
    moreover have "kb_after [Mouse_Report USB_HID_KB_SYS [0]] s1 s2"
      using send_after(1) [OF b1(3)] by (simp add: s2_def)
    then have "kb_after (flag_reports ?f) s s2"
      using kb_after_trans [OF s1(2)] 2 by (simp only: flag_reports_def if_True if_False append_Nil2 simp_thms)
    moreover have "usbkb_not_released s2 = 0"
      by (simp add: s2_def)
    ultimately show thesis
      using that [of "s2\<lparr>usbkb_data_report_time := now\<rparr>"] s1(1) by (simp add: no_keys_report kb_after_time)
  qed
qed

lemma host_frame:
  "ep_out (host_take ep s) = ep_out s" "toggles_ok (host_take ep s) = toggles_ok s" "last_data (host_take ep s) = last_data s"
  "usb_mouse_report_proto (host_take ep s) = usb_mouse_report_proto s" "usbkb_not_released (host_take ep s) = usbkb_not_released s"
  "reports (host_take ep s) = reports s" "fifo_ok (host_take ep s) = fifo_ok s"
  by (simp_all add: host_take_def toggles_ok_def reports_def rows_def fifo_ok_def)

lemma host_free: "\<not> usbhw_is_ep_busy ep (host_take ep s)" "\<not> usbhw_is_ep_busy e s \<Longrightarrow> \<not> usbhw_is_ep_busy e (host_take ep s)"
proof -
  have "(x AND - 2) AND 1 = 0" for x :: u8
    by (simp add: and.assoc)
  then show "\<not> usbhw_is_ep_busy ep (host_take ep s)" "\<not> usbhw_is_ep_busy e s \<Longrightarrow> \<not> usbhw_is_ep_busy e (host_take ep s)"
    by (simp_all add: usbhw_is_ep_busy_def host_take_def)
qed


text \<open>Left shift with the keys A, volume up and B.\<close>

definition demo_keys :: kb_data where
  "demo_keys = \<lparr>cnt = 3, ctrl_key = 2, keycode = [4, 0xb3, 5, 0, 0, 0]\<rparr>"


text \<open>Its reports in full.\<close>

lemma demo_reports:
  "press_reports demo_keys = [Kb_Report 2 [4, 5, 0, 0, 0, 0], Mouse_Report 3 [0xe9, 0, 0, 0]]"
  "release_reports demo_keys = [Kb_Report 0 [0, 0, 0, 0, 0, 0], Mouse_Report 3 [0, 0, 0, 0]]"
  by code_simp+


section \<open>When the endpoint is busy\<close>

text \<open>With nothing to release, an event without keys and the time-out do nothing.\<close>

lemma nothing_to_release:
  assumes "usbkb_not_released s = 0"
  shows "usbkb_hid_report now no_keys s = Some (s\<lparr>usbkb_data_report_time := now\<rparr>)" "usbkb_release_check now s = Some s"
  using assms
  by (simp_all add: no_keys_report usbkb_release_normal_key_def usbkb_release_sys_key_def usbkb_release_media_key_def usbkb_release_check_def)

lemma ext_none_flags: "ext_of d = VK_EXT_END \<Longrightarrow>
    press_reports d = normal_part (ctrl_key d) (length (normals d)) (normals d @ replicate (6 - length (normals d)) 0)"
  by (simp add: press_reports_parts ext_part_def VK_EXT_END_def VK_SYS_END_def VK_MEDIA_END_def)

text \<open>A press of normal keys whose endpoint is busy: it is queued, and is not noted as unreleased.\<close>

lemma press_queued:
  assumes d: "kb_event_ok d" "normals d \<noteq> [] \<or> ctrl_key d \<noteq> 0" "ext_of d = VK_EXT_END"
    and s: "usbhw_is_ep_busy 1 s" "hid_rel s ([], busy, out)" "usbkb_not_released s = 0" "length (keycode (last_data s)) = 6"
  obtains s' r where "usbkb_hid_report now d s = Some s'" "press_reports d = [r]" "report_ep r = 1"
    "hid_rel s' ([r], busy, out)" "usbkb_not_released s' = 0"
proof -
  let ?ks = "normals d @ replicate (6 - length (normals d)) 0"
  let ?r = "Kb_Report (ctrl_key d) ?ks"
  have small: "\<not> KB_RETURN_KEY_MAX < cnt d"
    using d(1) by (simp add: kb_event_ok_def KB_RETURN_KEY_MAX_def not_less)
  have len: "length ?ks = 6"
    using event_bounds(3) [OF d(1)] by simp
  have v: "0 < cnt d \<or> ctrl_key d \<noteq> 0"
  proof (rule ccontr)
    assume "\<not> ?thesis"
    then have "cnt d = 0" "ctrl_key d = 0"
      by (simp_all add: word_neq_0_conv [symmetric])
    then show False
      using d(2) by (simp add: normals_def keys_of_def)
  qed
  define s0 where "s0 = (if same_event (last_data s) d then s else s\<lparr>last_data := d\<rparr>)"
  have s0: "fifo_ok s0" "usbhw_is_ep_busy 1 s0" "usbkb_not_released s0 = 0" "hid_rel s0 ([], busy, out)"
    using s by (simp_all add: s0_def fifo_ok_def rows_def usbhw_is_ep_busy_def reports_def toggles_ok_def)
  have fits: "report_fits ?r" "usbhw_is_ep_busy (report_ep ?r) s0"
    using len s0(2) by simp_all
  obtain s1 where s1: "hid_step (Report ?r) s0 = Some (False, s1)" "fifo_ok s1" "reports s1 = [?r]"
      "s1 = s0\<lparr>usb_fifo := usb_fifo s1, usb_ff_wptr := usb_ff_wptr s1, usb_ff_rptr := usb_ff_rptr s1\<rparr>"
    using queue_step [OF fits s0(1)] s0(4) by auto
  have f1: "usbkb_not_released s1 = 0"
    using arg_cong [OF s1(4), of usbkb_not_released] s0(3) by simp
  have "hid_rel s1 ([?r], busy, out)"
    using s0(4) s1(2,3) ring_frame [OF s1(4)] by simp
  moreover have "usbkb_hid_report now d s = Some (s1\<lparr>usbkb_data_report_time := now\<rparr>)"
  proof -
    have "usbkb_report_normal_key (ctrl_key d) ?ks (length (normals d)) s0 = Some s1"
      using s1(1) d(2) by (simp add: usbkb_report_normal_key_def)
    moreover have "usbkb_report_sys_key VK_EXT_END s1 = Some s1" "usbkb_report_media_key VK_EXT_END s1 = Some s1"
      using f1 by (simp_all add: usbkb_report_sys_key_def usbkb_report_media_key_def usbkb_release_sys_key_def usbkb_release_media_key_def
        VK_EXT_END_def VK_SYS_END_def VK_MEDIA_END_def VK_MEDIA_START_def VK_SYS_START_def)
    ultimately show ?thesis
      unfolding usbkb_hid_report_def
      using small v s0(3) d(3)
      by (simp add: check_and_save [OF s(4) d(1)] separate_event [OF d(1)] s0_def [symmetric] split del: if_split)
  qed
  ultimately show thesis
    using that [of "s1\<lparr>usbkb_data_report_time := now\<rparr>" ?r] f1 d(2,3)
    by (simp add: ext_none_flags normal_part_def fifo_ok_def rows_def usbhw_is_ep_busy_def reports_def toggles_ok_def)
qed

lemma proc_keeps_flags:
  assumes "hid_rel s a" and "usb_hid_report_fifo_proc s = Some (b, s')"
  shows "usbkb_not_released s' = usbkb_not_released s"
proof (cases "usb_ff_rptr s = usb_ff_wptr s")
  case True
  then show ?thesis
    using proc_empty [OF True] assms(2) by simp
next
  case False
  have inv: "fifo_ok s" "usb_mouse_report_proto s \<noteq> 0"
    using assms(1) by (cases a, simp)+
  obtain row where "get_byte (usb_fifo s) (unat (usb_ff_rptr s AND 3)) = Some row" "length row = 8" "row_ok row"
    using fifo_front [OF inv(1) False] by blast
  from proc_front [OF this False inv(2)] show ?thesis
    using assms(2) by (auto simp: ep_send_def Let_def split: if_splits)
qed

text \<open>
  C35: A key can stay pressed.  When a press finds the endpoint busy it is queued, and sent later by
  \<open>usb_hid_report_fifo_proc\<close>; but the device does not note that it has to be released: the event without
  keys that follows sends nothing, and neither does the time-out, ever after.
\<close>

theorem usbkb_stuck_key:
  assumes d: "kb_event_ok d" "normals d \<noteq> [] \<or> ctrl_key d \<noteq> 0" "ext_of d = VK_EXT_END"
    and s: "usbhw_is_ep_busy 1 s" "hid_rel s ([], busy, out)" "usbkb_not_released s = 0" "length (keycode (last_data s)) = 6"
  shows "\<exists>s1 s2 s3. usbkb_hid_report t1 d s = Some s1 \<and> usb_hid_report_fifo_proc (host_take 1 s1) = Some (True, s2)
    \<and> ep_out s2 = packets (press_reports d) out
    \<and> usbkb_hid_report t2 no_keys (host_take 1 s2) = Some s3 \<and> ep_out s3 = ep_out s2 \<and> reports s3 = []
    \<and> (\<forall>t3. usbkb_release_check t3 s3 = Some s3)"
proof -
  obtain s1 r where s1: "usbkb_hid_report t1 d s = Some s1" "press_reports d = [r]" "report_ep r = 1"
      "hid_rel s1 ([r], busy, out)" "usbkb_not_released s1 = 0"
    using press_queued [OF d s] by blast
  have rel: "hid_rel (host_take 1 s1) ([r], busy(1 := False), out)"
    using take_sim [OF s1(4)] by simp
  obtain s2 where s2: "usb_hid_report_fifo_proc (host_take 1 s1) = Some (True, s2)"
      "hid_rel s2 ([], busy(1 := False, 1 := True), out @ [packet r out])"
    using proc_sim [OF rel] s1(3) by auto
  let ?s = "host_take 1 s2"
  have f: "usbkb_not_released ?s = 0"
    using proc_keeps_flags [OF rel s2(1)] s1(5) by (simp add: host_frame)
  let ?s3 = "?s\<lparr>usbkb_data_report_time := t2\<rparr>"
  have "usbkb_release_check t ?s3 = Some ?s3" for t
    using f by (intro nothing_to_release) simp
  moreover have "ep_out ?s3 = ep_out s2" "reports ?s3 = []"
    using s2(2) by (simp_all add: host_take_def reports_def rows_def)
  ultimately show ?thesis
    using s1(1,2) s2 nothing_to_release(1) [OF f, of t2] by auto
qed

definition kb_busy :: usb_hid where
  "kb_busy = usb_hid_new\<lparr>ep_ctrl := (\<lambda>_. 0)(1 := 5), edp_toggle := (\<lambda>_. 0)(1 := 1), ep_out := [(1, [0, 0, 0, 0, 0, 0, 0, 0], 5)]\<rparr>"

definition demo_key :: kb_data where
  "demo_key = \<lparr>cnt = 1, ctrl_key = 0, keycode = [4, 0, 0, 0, 0, 0]\<rparr>"

theorem usbkb_stuck_key_witness:
  "\<exists>s1 s2 s3. usbkb_hid_report 1 demo_key kb_busy = Some s1 \<and> usb_hid_report_fifo_proc (host_take 1 s1) = Some (True, s2)
    \<and> ep_out s2 = packets (press_reports demo_key) [(1, [0, 0, 0, 0, 0, 0, 0, 0], 5)]
    \<and> usbkb_hid_report 2 no_keys (host_take 1 s2) = Some s3 \<and> ep_out s3 = ep_out s2 \<and> reports s3 = []
    \<and> (\<forall>t3. usbkb_release_check t3 s3 = Some s3)"
proof (rule usbkb_stuck_key)
  show "hid_rel kb_busy ([], \<lambda>ep. usbhw_is_ep_busy ep kb_busy, [(1, [0, 0, 0, 0, 0, 0, 0, 0], 5)])"
    by (simp add: kb_busy_def usb_hid_new_def usb_reset_def fifo_ok_def rows_def reports_def ring_of_def toggles_ok_def sent_on_def list_all_iff)
  show "normals demo_key \<noteq> [] \<or> ctrl_key demo_key \<noteq> 0" "ext_of demo_key = VK_EXT_END"
    by (simp_all add: demo_key_def normals_def ext_of_def last_ext_def keys_of_def is_ext_def VK_EXT_START_def VK_EXT_END_def)
qed (simp_all add: kb_busy_def usb_hid_new_def usb_reset_def usbhw_is_ep_busy_def demo_key_def kb_event_ok_def no_keys_def)

section \<open>Mouse frames\<close>

lemma busy_frame_report:
  assumes busy: "usbhw_is_ep_busy 2 s" and ok: "fifo_ok s" and len: "length (reports s) < 4"
    and ring: "usbmouse_wptr s \<noteq> usbmouse_rptr s" "get_byte (mouse_dat_buff s) (unat (usbmouse_rptr s)) = Some d" "length d = 4"
  shows "\<exists>s'. usbmouse_report_frame t s = Some s' \<and> fifo_ok s' \<and> reports s' = reports s @ [Mouse_Report USB_HID_MOUSE d]
    \<and> usbhw_is_ep_busy 2 s' \<and> usbmouse_wptr s' = usbmouse_wptr s \<and> usbmouse_rptr s' = usbmouse_rptr s
    \<and> mouse_dat_buff s' = mouse_dat_buff s \<and> ep_out s' = ep_out s \<and> usb_mouse_report_proto s' = usb_mouse_report_proto s
    \<and> toggles_ok s' = toggles_ok s"
proof -
  let ?r = "Mouse_Report USB_HID_MOUSE d"
  have "report_fits ?r" "usbhw_is_ep_busy (report_ep ?r) s"
    using ring(3) busy by simp_all
  from queue_step [OF this ok] obtain s1 where s1: "usbmouse_hid_report USB_HID_MOUSE d 4 s = Some (False, s1)" "fifo_ok s1"
      "reports s1 = reports s @ [?r]"
      "s1 = s\<lparr>usb_fifo := usb_fifo s1, usb_ff_wptr := usb_ff_wptr s1, usb_ff_rptr := usb_ff_rptr s1\<rparr>"
    using len ring(3) by auto
  let ?s = "s1\<lparr>usbmouse_not_released := 1, usbmouse_data_report_time := t\<rparr>"
  have "usbmouse_report_frame t s = Some ?s"
    using ring s1(1) by (simp add: usbmouse_report_frame_def MOUSE_REPORT_DATA_LEN_def)
  moreover have "usbmouse_wptr s1 = usbmouse_wptr s" "usbmouse_rptr s1 = usbmouse_rptr s" "mouse_dat_buff s1 = mouse_dat_buff s"
    using arg_cong [OF s1(4), of usbmouse_wptr] arg_cong [OF s1(4), of usbmouse_rptr] arg_cong [OF s1(4), of mouse_dat_buff] by simp_all
  moreover note ring_frame [OF s1(4)]
  ultimately show ?thesis
    using s1(2,3) busy by (intro exI [where x = ?s])
      (simp add: fifo_ok_def rows_def usbhw_is_ep_busy_def reports_def toggles_ok_def)
qed

lemma busy_frame_reports:
  assumes "usbhw_is_ep_busy 2 s" and "fifo_ok s" and "length (reports s) + length ts \<le> 4"
    and "usbmouse_wptr s \<noteq> usbmouse_rptr s" and "get_byte (mouse_dat_buff s) (unat (usbmouse_rptr s)) = Some d" and "length d = 4"
  shows "\<exists>s'. run usbmouse_report_frame ts s = Some s' \<and> fifo_ok s'
    \<and> reports s' = reports s @ replicate (length ts) (Mouse_Report USB_HID_MOUSE d)
    \<and> usbmouse_wptr s' = usbmouse_wptr s \<and> usbmouse_rptr s' = usbmouse_rptr s
    \<and> mouse_dat_buff s' = mouse_dat_buff s \<and> ep_out s' = ep_out s \<and> usb_mouse_report_proto s' = usb_mouse_report_proto s
    \<and> toggles_ok s' = toggles_ok s"
  using assms
proof (induction ts arbitrary: s)
  case (Cons t ts)
  have "length (reports s) < 4"
    using Cons.prems(3) by simp
  from busy_frame_report [OF Cons.prems(1,2) this Cons.prems(4-6)] obtain s1 where s1: "usbmouse_report_frame t s = Some s1"
      "fifo_ok s1" "reports s1 = reports s @ [Mouse_Report USB_HID_MOUSE d]" "usbhw_is_ep_busy 2 s1"
      "usbmouse_wptr s1 = usbmouse_wptr s" "usbmouse_rptr s1 = usbmouse_rptr s" "mouse_dat_buff s1 = mouse_dat_buff s"
      "ep_out s1 = ep_out s" "usb_mouse_report_proto s1 = usb_mouse_report_proto s" "toggles_ok s1 = toggles_ok s"
    by blast
  have l: "length (reports s1) + length ts \<le> 4"
    using Cons.prems(3) s1(3) arg_cong [OF s1(3), of length] by simp
  have "usbmouse_wptr s1 \<noteq> usbmouse_rptr s1" "get_byte (mouse_dat_buff s1) (unat (usbmouse_rptr s1)) = Some d"
    using Cons.prems(4,5) s1(5-7) by simp_all
  from Cons.IH [OF s1(4) s1(2) l this Cons.prems(6)] s1 show ?case
    by auto
qed auto

text \<open>
  Mouse movements are repeated.  While the mouse endpoint is busy, every call of
  \<open>usbmouse_report_frame\<close> queues the same frame once more, and the frame is still the next to be reported
  when the endpoint is free: \<open>k\<close> calls while busy make \<open>k + 1\<close> movements of one.
\<close>

theorem usbmouse_frames_repeated:
  assumes "usbhw_is_ep_busy 2 s" and "hid_rel s ([], busy, out)" and "length ts \<le> 4" and "usbmouse_wptr s \<noteq> usbmouse_rptr s"
    and "get_byte (mouse_dat_buff s) (unat (usbmouse_rptr s)) = Some d" and "length d = 4"
  shows "\<exists>s' s''. run usbmouse_report_frame ts s = Some s' \<and> reports s' = replicate (length ts) (Mouse_Report USB_HID_MOUSE d)
    \<and> usbmouse_report_frame t (host_take 2 s') = Some s'' \<and> reports s'' = reports s'
    \<and> ep_out s'' = out @ [packet (Mouse_Report USB_HID_MOUSE d) out]"
proof -
  let ?r = "Mouse_Report USB_HID_MOUSE d"
  have rel: "fifo_ok s" "reports s = []" "toggles_ok s" "usb_mouse_report_proto s \<noteq> 0" "ep_out s = out"
    using assms(2) by simp_all
  obtain s' where s': "run usbmouse_report_frame ts s = Some s'" "reports s' = replicate (length ts) ?r"
      "usbmouse_wptr s' = usbmouse_wptr s" "usbmouse_rptr s' = usbmouse_rptr s" "mouse_dat_buff s' = mouse_dat_buff s"
      "ep_out s' = out" "usb_mouse_report_proto s' \<noteq> 0" "toggles_ok s'"
    using busy_frame_reports [OF assms(1) rel(1) _ assms(4-6), of ts] assms(3) rel by auto
  let ?s = "host_take 2 s'"
  have send: "usbmouse_hid_report USB_HID_MOUSE d 4 ?s = Some (True, send ?r ?s)"
    using send_mouse [of ?s 4 d USB_HID_MOUSE] host_free(1) [of 2 s'] s'(7) assms(6) by (simp add: host_frame)
  have same: "usbmouse_wptr ?s = usbmouse_wptr s" "usbmouse_rptr ?s = usbmouse_rptr s" "mouse_dat_buff ?s = mouse_dat_buff s"
    using s'(3-5) by (simp_all add: host_take_def)
  have after: "kb_after [?r] ?s (send ?r ?s)" "reports (send ?r ?s) = reports s'"
    using send_after(2) [of ?s ?r] s'(8) by (simp_all add: host_frame send_def ep_send_frame)
  have "\<exists>s''. usbmouse_report_frame t ?s = Some s'' \<and> reports s'' = reports (send ?r ?s) \<and> ep_out s'' = ep_out (send ?r ?s)"
    using assms(4,5) send same
    by (auto simp: usbmouse_report_frame_def MOUSE_REPORT_DATA_LEN_def reports_def rows_def Let_def)
  then show ?thesis
    using s'(1,2,6) after by (auto simp: kb_after_def host_frame)
qed

definition mouse_busy :: usb_hid where
  "mouse_busy = usb_hid_new\<lparr>ep_ctrl := (\<lambda>_. 0)(2 := 5), edp_toggle := (\<lambda>_. 0)(2 := 1), ep_out := [(2, [1, 0, 0, 0, 0], 5)],
     mouse_dat_buff := [0, 10, 0, 0] # replicate 7 [0, 0, 0, 0], usbmouse_wptr := 1\<rparr>"

theorem usbmouse_frames_repeated_witness:
  "\<exists>s' s''. run usbmouse_report_frame [1, 2, 3] mouse_busy = Some s'
    \<and> reports s' = replicate (length [1, 2, 3 :: u32]) (Mouse_Report USB_HID_MOUSE [0, 10, 0, 0])
    \<and> usbmouse_report_frame 4 (host_take 2 s') = Some s'' \<and> reports s'' = reports s'
    \<and> ep_out s'' = [(2, [1, 0, 0, 0, 0], 5)] @ [packet (Mouse_Report USB_HID_MOUSE [0, 10, 0, 0]) [(2, [1, 0, 0, 0, 0], 5)]]"
proof (rule usbmouse_frames_repeated)
  show "hid_rel mouse_busy ([], \<lambda>ep. usbhw_is_ep_busy ep mouse_busy, [(2, [1, 0, 0, 0, 0], 5)])"
    by (simp add: mouse_busy_def usb_hid_new_def usb_reset_def fifo_ok_def rows_def reports_def ring_of_def toggles_ok_def sent_on_def list_all_iff)
qed (simp_all add: mouse_busy_def usb_hid_new_def usb_reset_def usbhw_is_ep_busy_def get_byte_def)

text \<open>Two packets of four frames fill the ring until it looks empty: no frame is reported.\<close>

lemma add_one:
  assumes "i * 4 + 4 \<le> length f" and "unat (usbmouse_wptr s) < length (mouse_dat_buff s)"
  shows "add_frame_loop f i (Suc n) s =
    (let s1 = s\<lparr>mouse_dat_buff := (mouse_dat_buff s)[unat (usbmouse_wptr s) := take 4 (drop (i * 4) f)],
       usbmouse_wptr := (usbmouse_wptr s + 1) AND 7\<rparr>
     in if usbmouse_wptr s1 = usbmouse_rptr s1 then Some s1 else add_frame_loop f (i + 1) n s1)"
  using assms by (simp add: get_bytes_def put_byte_def MOUSE_REPORT_DATA_LEN_def)

lemma ring8: "(w :: u8) < 8 \<Longrightarrow> w \<in> {0, 1, 2, 3, 4, 5, 6, 7}"
proof -
  assume "w < 8"
  then have "unat w < 8"
    by (simp add: word_less_nat_alt)
  then have "unat w \<in> {0, 1, 2, 3, 4, 5, 6, 7}"
    by auto
  then show ?thesis
    by (auto simp: word_unat_eq_iff)
qed

lemma some_buff:
  "length b = 8 \<Longrightarrow> \<exists>b'. length b' = 8 \<and> s\<lparr>mouse_dat_buff := b, usbmouse_wptr := w\<rparr> = s\<lparr>mouse_dat_buff := b', usbmouse_wptr := w\<rparr>"
  by blast

lemma add_four:
  assumes "length (mouse_dat_buff s) = 8" and "length f = 16" and w: "usbmouse_wptr s \<in> {0, 1, 2, 3, 4, 5, 6, 7}"
    and r: "usbmouse_rptr s = usbmouse_wptr s \<or> usbmouse_rptr s = (usbmouse_wptr s + 4) AND 7"
  shows "\<exists>b. length b = 8 \<and> usbmouse_add_frame 4 f s = Some (s\<lparr>mouse_dat_buff := b, usbmouse_wptr := (usbmouse_wptr s + 4) AND 7\<rparr>)"
proof -
  have four: "unat (4 :: u8) = Suc (Suc (Suc (Suc 0)))"
    by simp
  show ?thesis
    unfolding usbmouse_add_frame_def four
    using w r assms(1,2) by (auto simp: add_one Let_def simp del: add_frame_loop.simps(2) intro!: some_buff)
qed

lemma usbmouse_frames_lost:
  assumes "length (mouse_dat_buff s) = 8" and "usbmouse_rptr s < 8" and "usbmouse_wptr s = usbmouse_rptr s"
    and "length f1 = 16" and "length f2 = 16"
  shows "\<exists>s1 s2. usbmouse_add_frame 4 f1 s = Some s1 \<and> usbmouse_add_frame 4 f2 s1 = Some s2 \<and> usbmouse_report_frame t s2 = Some s2"
proof -
  have w: "usbmouse_wptr s \<in> {0, 1, 2, 3, 4, 5, 6, 7}"
    using ring8 [OF assms(2)] assms(3) by simp
  obtain b1 where b1: "length b1 = 8" "usbmouse_add_frame 4 f1 s = Some (s\<lparr>mouse_dat_buff := b1, usbmouse_wptr := (usbmouse_wptr s + 4) AND 7\<rparr>)"
    using add_four [OF assms(1,4) w] assms(3) by auto
  let ?s1 = "s\<lparr>mouse_dat_buff := b1, usbmouse_wptr := (usbmouse_wptr s + 4) AND 7\<rparr>"
  have w1: "usbmouse_wptr ?s1 \<in> {0, 1, 2, 3, 4, 5, 6, 7}" "(usbmouse_wptr ?s1 + 4) AND 7 = usbmouse_rptr s"
    using w assms(3) by auto
  obtain b2 where "usbmouse_add_frame 4 f2 ?s1 = Some (?s1\<lparr>mouse_dat_buff := b2, usbmouse_wptr := (usbmouse_wptr ?s1 + 4) AND 7\<rparr>)"
    using add_four [OF _ assms(5) w1(1)] b1(1) w1(2) by auto
  then show ?thesis
    using b1(2) w1(2) by (simp add: usbmouse_report_frame_def)
qed

section \<open>System keys\<close>

text \<open>The wake-up key is reported as 4 in the two-bit field that the report descriptor gives it, and with the
  boot protocol system keys are read as mouse movements, beyond the table of their codes.\<close>

lemma wakeup_does_not_fit: "sys_value VK_SLEEP AND 3 = 1" "sys_value VK_POWER AND 3 = 2" "sys_value VK_WAKEUP AND 3 = 0"
  by code_simp+

lemma system_key_boot_protocol:
  "(do { s \<leftarrow> usbkb_report_sys_key VK_SLEEP (usb_hid_new\<lparr>usb_mouse_report_proto := 0\<rparr>); Some (ep_out s) }) = Some [(2, [1, 2, 4], 5)]"
  "(do { s \<leftarrow> usbkb_report_sys_key VK_POWER (usb_hid_new\<lparr>usb_mouse_report_proto := 0\<rparr>); Some (ep_out s) }) = None"
  by code_simp+

end
