(* ===== verification/Usb_Desc.thy ===== *)
theory Usb_Desc
  imports C_Prelude "HOL-Library.Char_ord"
begin

text \<open>
  The descriptors of \<^verbatim>\<open>application/usbstd/usbdesc.c\<close>, \<^verbatim>\<open>application/app/usbkb_i.h\<close> and
  \<^verbatim>\<open>application/app/usbmouse_i.h\<close> as the bytes that the host reads (the structures are packed), for every
  choice of printer, speaker, microphone, keyboard and mouse; and a parser for configurations, as a
  host runs it.  The CDC and somatic interfaces name constants and files that the repository does not have,
  so they cannot be enabled.
\<close>

section \<open>Configuration of the device\<close>

record usb_cfg =
  USB_PRINTER_ENABLE :: bool
  USB_SPEAKER_ENABLE :: bool
  USB_MIC_ENABLE :: bool
  USB_KEYBOARD_ENABLE :: bool
  USB_MOUSE_ENABLE :: bool
  USB_CUSTOM_HID_REPORT :: bool
  IRQ_USB_PWDN_ENABLE :: bool
  MIC_CHANNEL_COUNT :: u8
  MIC_RESOLUTION_BIT :: u8
  MIC_SAMPLE_RATE :: u32

text \<open>The enumeration of the interfaces.\<close>

definition USB_INTF_PRINTER :: "usb_cfg \<Rightarrow> u8" where "USB_INTF_PRINTER c = 0"
definition USB_INTF_AUDIO_CONTROL :: "usb_cfg \<Rightarrow> u8" where
  "USB_INTF_AUDIO_CONTROL c = USB_INTF_PRINTER c + of_bool (USB_PRINTER_ENABLE c)"
definition USB_INTF_SPEAKER :: "usb_cfg \<Rightarrow> u8" where
  "USB_INTF_SPEAKER c = USB_INTF_AUDIO_CONTROL c + of_bool (USB_SPEAKER_ENABLE c \<or> USB_MIC_ENABLE c)"
definition USB_INTF_MIC :: "usb_cfg \<Rightarrow> u8" where
  "USB_INTF_MIC c = USB_INTF_SPEAKER c + of_bool (USB_SPEAKER_ENABLE c)"
definition USB_INTF_KEYBOARD :: "usb_cfg \<Rightarrow> u8" where
  "USB_INTF_KEYBOARD c = USB_INTF_MIC c + of_bool (USB_MIC_ENABLE c)"
definition USB_INTF_MOUSE :: "usb_cfg \<Rightarrow> u8" where
  "USB_INTF_MOUSE c = USB_INTF_KEYBOARD c + of_bool (USB_KEYBOARD_ENABLE c)"
definition USB_INTF_MAX :: "usb_cfg \<Rightarrow> u8" where
  "USB_INTF_MAX c = USB_INTF_MOUSE c + of_bool (USB_MOUSE_ENABLE c)"

definition DTYPE_Device :: u8 where "DTYPE_Device = 1"
definition DTYPE_Configuration :: u8 where "DTYPE_Configuration = 2"
definition DTYPE_String :: u8 where "DTYPE_String = 3"
definition DTYPE_Interface :: u8 where "DTYPE_Interface = 4"
definition DTYPE_Endpoint :: u8 where "DTYPE_Endpoint = 5"
definition DTYPE_CSInterface :: u8 where "DTYPE_CSInterface = 0x24"
definition DTYPE_CSEndpoint :: u8 where "DTYPE_CSEndpoint = 0x25"
definition HID_DTYPE_HID :: u8 where "HID_DTYPE_HID = 0x21"
definition HID_DTYPE_Report :: u8 where "HID_DTYPE_Report = 0x22"

definition USB_MIC_CHANNELS_LEN :: "usb_cfg \<Rightarrow> u16" where
  "USB_MIC_CHANNELS_LEN c = ucast (ucast (MIC_CHANNEL_COUNT c) * (MIC_SAMPLE_RATE c * ucast (MIC_RESOLUTION_BIT c) div 1000 div 8))"

section \<open>Report descriptors\<close>

definition keyboard_report_desc :: "u8 list" where
  "keyboard_report_desc =
     [0x05, 0x01, 0x09, 0x06, 0xA1, 0x01, 0x05, 0x07, 0x19, 0xE0, 0x29, 0xE7, 0x15, 0x00, 0x25, 0x01,
      0x95, 0x08, 0x75, 0x01, 0x81, 0x02, 0x81, 0x03, 0x95, 0x05, 0x05, 0x08, 0x19, 0x01, 0x29, 0x05,
      0x91, 0x02, 0x95, 0x01, 0x75, 0x03, 0x91, 0x01, 0x95, 0x06, 0x75, 0x08, 0x15, 0x00, 0x26, 0xA4, 0x00,
      0x05, 0x07, 0x19, 0x00, 0x2A, 0xA4, 0x00, 0x81, 0x00, 0xC0]"

definition mouse_report_desc :: "u8 list" where
  "mouse_report_desc =
     [0x05, 0x01, 0x09, 0x02, 0xA1, 0x01, 0x85, 0x01, 0x09, 0x01, 0xA1, 0x00, 0x05, 0x09, 0x19, 0x01, 0x29, 0x05,
      0x15, 0x00, 0x25, 0x01, 0x95, 0x05, 0x75, 0x01, 0x81, 0x02, 0x95, 0x01, 0x75, 0x03, 0x81, 0x01,
      0x05, 0x01, 0x09, 0x30, 0x09, 0x31, 0x15, 0x81, 0x25, 0x7F, 0x75, 0x08, 0x95, 0x02, 0x81, 0x06,
      0x09, 0x38, 0x15, 0x81, 0x25, 0x7F, 0x75, 0x08, 0x95, 0x01, 0x81, 0x06, 0xC0, 0xC0,
      0x05, 0x0C, 0x09, 0x01, 0xA1, 0x01, 0x85, 0x03, 0x75, 0x10, 0x95, 0x02, 0x15, 0x01, 0x26, 0x9C, 0x02,
      0x19, 0x01, 0x2A, 0x8C, 0x02, 0x81, 0x00, 0xC0,
      0x05, 0x01, 0x09, 0x80, 0xA1, 0x01, 0x85, 0x04, 0x75, 0x02, 0x95, 0x01, 0x15, 0x01, 0x25, 0x03,
      0x09, 0x82, 0x09, 0x81, 0x09, 0x83, 0x81, 0x60, 0x75, 0x06, 0x81, 0x03, 0xC0,
      0x05, 0x01, 0x09, 0x00, 0xA1, 0x01, 0x85, 0x05, 0x06, 0x00, 0xFF, 0x09, 0x01, 0x15, 0x81, 0x25, 0x7F,
      0x75, 0x08, 0x95, 0x07, 0xB1, 0x02, 0xC0]"

section \<open>Device and string descriptors\<close>

definition ID_PRODUCT :: "usb_cfg \<Rightarrow> u16" where
  "ID_PRODUCT c = 0x8800 OR (if USB_PRINTER_ENABLE c then 1 else 0) OR (if USB_SPEAKER_ENABLE c then 2 else 0)
     OR (if USB_MIC_ENABLE c then 4 else 0) OR (if USB_MOUSE_ENABLE c then 8 else 0) OR (if USB_KEYBOARD_ENABLE c then 16 else 0)"

definition device_desc :: "usb_cfg \<Rightarrow> u8 list" where
  "device_desc c =
     [18, DTYPE_Device, 0x10, 0x01, 0, 0, 0, 8, 0x8a, 0x24] @ UINT16_TO_BSTREAM (ID_PRODUCT c) @ [0x00, 0x01, 1, 2, 3, 1]"

definition language_desc :: "u8 list" where
  "language_desc = [4, DTYPE_String, 0x09, 0x04]"

definition string_desc :: "string \<Rightarrow> u8 list" where
  "string_desc s = [of_nat (2 + 2 * length s), DTYPE_String] @ concat (map (\<lambda>ch. [of_char ch, 0]) s)"

definition vendor_desc :: "u8 list" where "vendor_desc = string_desc ''Telink''"
definition product_desc :: "u8 list" where "product_desc = string_desc ''BLE 5.0''"
definition serial_desc :: "u8 list" where "serial_desc = string_desc ''TLSR82x8''"

section \<open>The configuration descriptor\<close>

definition USB_Descriptor_Interface :: "u8 \<Rightarrow> u8 \<Rightarrow> u8 \<Rightarrow> u8 \<Rightarrow> u8 \<Rightarrow> u8 \<Rightarrow> u8 list" where
  "USB_Descriptor_Interface n alt eps cls sub proto = [9, DTYPE_Interface, n, alt, eps, cls, sub, proto, 0]"

definition USB_Descriptor_Endpoint :: "u8 \<Rightarrow> u8 \<Rightarrow> u16 \<Rightarrow> u8 \<Rightarrow> u8 list" where
  "USB_Descriptor_Endpoint addr attr sz poll = [7, DTYPE_Endpoint, addr, attr] @ UINT16_TO_BSTREAM sz @ [poll]"

definition USB_HID_Descriptor_HID :: "u8 \<Rightarrow> u8 \<Rightarrow> u8 list" where
  "USB_HID_Descriptor_HID country len = [9, HID_DTYPE_HID, 0x11, 0x01, country, 1, HID_DTYPE_Report, len, 0]"

definition printer_interface :: "usb_cfg \<Rightarrow> u8 list list" where
  "printer_interface c =
     [USB_Descriptor_Interface (USB_INTF_PRINTER c) 0 2 7 1 2,
      USB_Descriptor_Endpoint 0x88 2 0x0040 0,
      USB_Descriptor_Endpoint 5 2 0x0040 0]"

definition audio_control_interface_ac :: "usb_cfg \<Rightarrow> u8 list" where
  "audio_control_interface_ac c =
     (if USB_MIC_ENABLE c \<and> USB_SPEAKER_ENABLE c
      then [10, DTYPE_CSInterface, 1, 0x00, 0x01, 10 + 12 + 9 + 9 + 12 + 9 + 10, 0, 2, USB_INTF_SPEAKER c, USB_INTF_MIC c]
      else [9, DTYPE_CSInterface, 1, 0x00, 0x01] @
        (if USB_MIC_ENABLE c then [9 + 12 + 9 + 9, 0, 1, USB_INTF_MIC c] else [9 + 12 + 9 + 10, 0, 1, USB_INTF_SPEAKER c]))"

definition speaker_units :: "u8 list list" where
  "speaker_units =
     [[12, DTYPE_CSInterface, 2, 1, 0x01, 0x01, 0, 2, 0x03, 0x00, 0, 0],
      [10, DTYPE_CSInterface, 6, 2, 1, 1, 0x03, 0x00, 0x00, 0],
      [9, DTYPE_CSInterface, 3, 3, 0x01, 0x03, 0, 2, 0]]"

definition mic_units :: "u8 list list" where
  "mic_units =
     [[12, DTYPE_CSInterface, 2, 4, 0x01, 0x02, 0, 1, 0x01, 0x00, 0, 0],
      [9, DTYPE_CSInterface, 6, 5, 4, 1, 0x03, 0x00, 0],
      [9, DTYPE_CSInterface, 3, 6, 0x01, 0x01, 0, 5, 0]]"

definition audio_control_interface :: "usb_cfg \<Rightarrow> u8 list list" where
  "audio_control_interface c =
     [USB_Descriptor_Interface (USB_INTF_AUDIO_CONTROL c) 0 0 1 1 0, audio_control_interface_ac c] @
     (if USB_SPEAKER_ENABLE c then speaker_units else []) @
     (if USB_MIC_ENABLE c then mic_units else [])"

definition speaker_setting0 :: "usb_cfg \<Rightarrow> u8 list list" where
  "speaker_setting0 c = [USB_Descriptor_Interface (USB_INTF_SPEAKER c) 0 0 1 2 0]"

definition speaker_setting1 :: "usb_cfg \<Rightarrow> u8 list list" where
  "speaker_setting1 c =
     [USB_Descriptor_Interface (USB_INTF_SPEAKER c) 1 1 1 2 0,
      [7, DTYPE_CSInterface, 1, 1, 1, 1, 0],
      [8 + 3, DTYPE_CSInterface, 2, 1, 2, 2, 0x10, 1, 0x80, 0xbb, 0x00],
      [9, DTYPE_Endpoint, 6, 1 OR push_bit 2 2, 0xc0, 0x00, 1, 0, 0],
      [7, DTYPE_CSEndpoint, 1, 0x80 OR 1, 0, 0, 0]]"

definition mic_setting0 :: "usb_cfg \<Rightarrow> u8 list list" where
  "mic_setting0 c = [USB_Descriptor_Interface (USB_INTF_MIC c) 0 0 1 2 0]"

definition mic_setting1 :: "usb_cfg \<Rightarrow> u8 list list" where
  "mic_setting1 c =
     [USB_Descriptor_Interface (USB_INTF_MIC c) 1 1 1 2 0,
      [7, DTYPE_CSInterface, 1, 6, 1, 1, 0],
      [8 + 3, DTYPE_CSInterface, 2, 1, MIC_CHANNEL_COUNT c, 2, MIC_RESOLUTION_BIT c, 1,
       ucast (MIC_SAMPLE_RATE c), ucast (drop_bit 8 (MIC_SAMPLE_RATE c)), 0x00],
      [9, DTYPE_Endpoint, 0x80 OR 7, 1 OR push_bit 2 3] @ UINT16_TO_BSTREAM (USB_MIC_CHANNELS_LEN c) @ [1, 0, 0],
      [7, DTYPE_CSEndpoint, 1, 1, 0, 0, 0]]"

definition keyboard_descriptor :: "u8 list list" where
  "keyboard_descriptor =
     [USB_HID_Descriptor_HID 33 (of_nat (length keyboard_report_desc)), USB_Descriptor_Endpoint (0x80 OR 1) 3 0x0008 10]"

definition mouse_descriptor :: "u8 list list" where
  "mouse_descriptor =
     [USB_HID_Descriptor_HID 33 (of_nat (length mouse_report_desc)), USB_Descriptor_Endpoint (0x80 OR 2) 3 0x0008 4]"

definition keyboard_interface :: "usb_cfg \<Rightarrow> u8 list list" where
  "keyboard_interface c = USB_Descriptor_Interface (USB_INTF_KEYBOARD c) 0 1 3 1 1 # keyboard_descriptor"

definition mouse_interface :: "usb_cfg \<Rightarrow> u8 list list" where
  "mouse_interface c = USB_Descriptor_Interface (USB_INTF_MOUSE c) 0 1 3 1 2 # mouse_descriptor"

text \<open>The interfaces in the order of the structure, each with the descriptors that follow it.\<close>

definition usb_interfaces :: "usb_cfg \<Rightarrow> u8 list list list" where
  "usb_interfaces c =
     (if USB_PRINTER_ENABLE c then [printer_interface c] else []) @
     (if USB_MIC_ENABLE c \<or> USB_SPEAKER_ENABLE c then [audio_control_interface c] else []) @
     (if USB_SPEAKER_ENABLE c then [speaker_setting0 c, speaker_setting1 c] else []) @
     (if USB_MIC_ENABLE c then [mic_setting0 c, mic_setting1 c] else []) @
     (if USB_KEYBOARD_ENABLE c then [keyboard_interface c] else []) @
     (if USB_MOUSE_ENABLE c then [mouse_interface c] else [])"

definition config_header :: "usb_cfg \<Rightarrow> u8 list" where
  "config_header c =
     [9, DTYPE_Configuration] @ UINT16_TO_BSTREAM (of_nat (9 + length (concat (concat (usb_interfaces c))))) @
     [USB_INTF_MAX c, 1, 0, 0x80 OR 0x20, 50 div 2]"

definition configuration_desc :: "usb_cfg \<Rightarrow> u8 list" where
  "configuration_desc c = config_header c @ concat (concat (usb_interfaces c))"

definition usbdesc_get_keyboard :: "u8 list" where "usbdesc_get_keyboard = concat keyboard_descriptor"
definition usbdesc_get_mouse :: "u8 list" where "usbdesc_get_mouse = concat mouse_descriptor"

section \<open>Parsing a configuration\<close>

text \<open>The host follows the length bytes, and groups the descriptors by interface.\<close>

function split_descs :: "u8 list \<Rightarrow> u8 list list option" where
  "split_descs [] = Some []"
| "split_descs (l # bs) =
     (if unat l < 2 \<or> length (l # bs) < unat l then None
      else do { ds \<leftarrow> split_descs (drop (unat l) (l # bs)); Some (take (unat l) (l # bs) # ds) })"
  by pat_completeness auto
termination
  by (relation "measure length") auto

function group_descs :: "u8 list list \<Rightarrow> u8 list list list option" where
  "group_descs [] = Some []"
| "group_descs (d # ds) =
     (if d ! 1 = DTYPE_Interface then do {
        gs \<leftarrow> group_descs (dropWhile (\<lambda>e. e ! 1 \<noteq> DTYPE_Interface) ds);
        Some ((d # takeWhile (\<lambda>e. e ! 1 \<noteq> DTYPE_Interface) ds) # gs) }
      else None)"
  by pat_completeness auto
termination
  by (relation "measure length") (auto simp: less_Suc_eq_le length_dropWhile_le)

definition parse_configuration :: "u8 list \<Rightarrow> (u8 list \<times> u8 list list list) option" where
  "parse_configuration bs = do {
     ds \<leftarrow> split_descs bs;
     case ds of [] \<Rightarrow> None | h # ds \<Rightarrow> do { gs \<leftarrow> group_descs ds; Some (h, gs) } }"

definition desc_ok :: "u8 list \<Rightarrow> bool" where
  "desc_ok d \<longleftrightarrow> 2 \<le> length d \<and> length d < 256 \<and> d ! 0 = of_nat (length d)"

definition group_ok :: "u8 list list \<Rightarrow> bool" where
  "group_ok g \<longleftrightarrow> g \<noteq> [] \<and> list_all desc_ok g \<and> hd g ! 1 = DTYPE_Interface \<and> list_all (\<lambda>d. d ! 1 \<noteq> DTYPE_Interface) (tl g)"

lemma split_descs_concat: "list_all desc_ok ds \<Longrightarrow> split_descs (concat ds) = Some ds"
proof (induction ds)
  case (Cons d ds)
  then obtain l bs where d: "d = l # bs"
    by (cases d) (auto simp: desc_ok_def)
  have "l = d ! 0"
    by (simp add: d)
  then have l: "l = of_nat (length d)" "length d < 256" "2 \<le> length d"
    using Cons.prems by (auto simp: desc_ok_def)
  then have "unat l = length d" "2 \<le> length d"
    by (simp_all add: unat_of_nat take_bit_eq_mod)
  then have "bs \<noteq> []" "unat l = Suc (length bs)"
    by (auto simp: d)
  then show ?case
    using Cons by (simp add: d)
qed simp

lemma group_descs_concat: "list_all group_ok gs \<Longrightarrow> group_descs (concat gs) = Some gs"
proof (induction gs)
  case (Cons g gs)
  then obtain i ds where g: "g = i # ds"
    by (cases g) (auto simp: group_ok_def)
  have i: "i ! 1 = DTYPE_Interface" and ds: "list_all (\<lambda>d. d ! 1 \<noteq> DTYPE_Interface) ds"
    using Cons.prems by (simp_all add: group_ok_def g)
  have "takeWhile (\<lambda>e. e ! 1 \<noteq> DTYPE_Interface) (concat gs) = [] \<and> dropWhile (\<lambda>e. e ! 1 \<noteq> DTYPE_Interface) (concat gs) = concat gs"
  proof (cases gs)
    case (Cons h hs)
    with \<open>list_all group_ok (g # gs)\<close> show ?thesis
      by (cases h) (auto simp: group_ok_def)
  qed simp
  then show ?case
    using Cons i ds by (simp add: g list_all_iff takeWhile_append2 dropWhile_append2)
qed simp


section \<open>The configuration is well-formed\<close>

lemmas interface_parts =
  printer_interface_def audio_control_interface_def audio_control_interface_ac_def speaker_units_def mic_units_def
  speaker_setting0_def speaker_setting1_def mic_setting0_def mic_setting1_def keyboard_interface_def mouse_interface_def
  keyboard_descriptor_def mouse_descriptor_def USB_Descriptor_Interface_def USB_Descriptor_Endpoint_def
  USB_HID_Descriptor_HID_def UINT16_TO_BSTREAM_def

lemmas dtypes = DTYPE_Interface_def DTYPE_Endpoint_def DTYPE_CSInterface_def DTYPE_CSEndpoint_def HID_DTYPE_HID_def

lemma parts_ok:
  "group_ok (printer_interface c)" "group_ok (audio_control_interface c)" "group_ok (speaker_setting0 c)" "group_ok (speaker_setting1 c)"
  "group_ok (mic_setting0 c)" "group_ok (mic_setting1 c)" "group_ok (keyboard_interface c)" "group_ok (mouse_interface c)"
  by (simp_all add: group_ok_def desc_ok_def interface_parts dtypes)

lemma interfaces_ok: "list_all group_ok (usb_interfaces c)"
  by (simp add: usb_interfaces_def parts_ok)

lemma header_ok: "desc_ok (config_header c)"
  by (simp add: desc_ok_def config_header_def)

lemma groups_descs_ok: "list_all group_ok gs \<Longrightarrow> list_all desc_ok (concat gs)"
  by (induction gs) (auto simp: group_ok_def)

lemma configuration_parses: "parse_configuration (configuration_desc c) = Some (config_header c, usb_interfaces c)"
proof -
  have "list_all desc_ok (config_header c # concat (usb_interfaces c))"
    using header_ok groups_descs_ok [OF interfaces_ok] by simp
  from split_descs_concat [OF this] have "split_descs (configuration_desc c) = Some (config_header c # concat (usb_interfaces c))"
    by (simp add: configuration_desc_def)
  then show ?thesis
    using group_descs_concat [OF interfaces_ok] by (simp add: parse_configuration_def)
qed

text \<open>What an interface announces: its number, and as many endpoints as follow.\<close>

definition endpoints :: "u8 list list \<Rightarrow> u8 list" where
  "endpoints g = map (\<lambda>d. d ! 2) (filter (\<lambda>d. d ! 1 = DTYPE_Endpoint) (tl g))"

lemma part_endpoints:
  "endpoints (printer_interface c) = [0x88, 5]" "endpoints (audio_control_interface c) = []"
  "endpoints (speaker_setting0 c) = []" "endpoints (speaker_setting1 c) = [6]" "endpoints (mic_setting0 c) = []"
  "endpoints (mic_setting1 c) = [0x87]" "endpoints (keyboard_interface c) = [0x81]" "endpoints (mouse_interface c) = [0x82]"
  by (simp_all add: endpoints_def interface_parts dtypes)

lemma part_heads:
  "hd (printer_interface c) ! 2 = USB_INTF_PRINTER c" "hd (audio_control_interface c) ! 2 = USB_INTF_AUDIO_CONTROL c"
  "hd (speaker_setting0 c) ! 2 = USB_INTF_SPEAKER c" "hd (speaker_setting1 c) ! 2 = USB_INTF_SPEAKER c"
  "hd (mic_setting0 c) ! 2 = USB_INTF_MIC c" "hd (mic_setting1 c) ! 2 = USB_INTF_MIC c"
  "hd (keyboard_interface c) ! 2 = USB_INTF_KEYBOARD c" "hd (mouse_interface c) ! 2 = USB_INTF_MOUSE c"
  "hd (printer_interface c) ! 4 = 2" "hd (audio_control_interface c) ! 4 = 0" "hd (speaker_setting0 c) ! 4 = 0"
  "hd (speaker_setting1 c) ! 4 = 1" "hd (mic_setting0 c) ! 4 = 0" "hd (mic_setting1 c) ! 4 = 1"
  "hd (keyboard_interface c) ! 4 = 1" "hd (mouse_interface c) ! 4 = 1"
  by (simp_all add: interface_parts)

lemmas intf_numbers =
  USB_INTF_PRINTER_def USB_INTF_AUDIO_CONTROL_def USB_INTF_SPEAKER_def USB_INTF_MIC_def USB_INTF_KEYBOARD_def
  USB_INTF_MOUSE_def USB_INTF_MAX_def

lemma small_upts:
  "[0..<Suc 0] = [0]" "[0..<2] = [0, 1]" "[0..<3] = [0, 1, 2]" "[0..<4] = [0, 1, 2, 3]" "[0..<5] = [0, 1, 2, 3, 4]" "[0..<6] = [0, 1, 2, 3, 4, 5]"
  by (simp_all add: upt_rec)

lemma part_lengths:
  "length (concat (printer_interface c)) = 23" "length (concat (speaker_setting0 c)) = 9" "length (concat (speaker_setting1 c)) = 43"
  "length (concat (mic_setting0 c)) = 9" "length (concat (mic_setting1 c)) = 43" "length (concat (keyboard_interface c)) = 25"
  "length (concat (mouse_interface c)) = 25"
  "length (concat (audio_control_interface c)) \<le> 81"
  by (simp_all add: interface_parts)

lemma total_length: "9 + length (concat (concat (usb_interfaces c))) \<le> 267"
  using part_lengths(8) [of c] by (simp add: usb_interfaces_def part_lengths(1-7))

text \<open>
  C32: For every choice of printer, speaker, microphone, keyboard and mouse the configuration descriptor
  parses, by its length bytes, into the header and the interfaces of the structure: the header gives
  the length of the whole, every interface announces the endpoints that follow it, the interface
  numbers run from 0 to below the number announced, and no endpoint address is used twice.
\<close>

theorem configuration_desc_parses:
  "\<exists>h gs. parse_configuration (configuration_desc c) = Some (h, gs)
    \<and> unat (BYTES_TO_UINT16 (h ! 2) (h ! 3)) = length (configuration_desc c)
    \<and> (list_all (\<lambda>g. unat (hd g ! 4) = length (endpoints g)) gs)
    \<and> remdups_adj (map (\<lambda>g. unat (hd g ! 2)) gs) = [0..<unat (h ! 4)]
    \<and> distinct (concat (map endpoints gs))"
proof -
  have len: "length (configuration_desc c) = 9 + length (concat (concat (usb_interfaces c)))"
    by (simp add: configuration_desc_def config_header_def)
  have "unat (BYTES_TO_UINT16 (config_header c ! 2) (config_header c ! 3)) = length (configuration_desc c)"
  proof -
    let ?n = "of_nat (9 + length (concat (concat (usb_interfaces c)))) :: u16"
    have "config_header c ! 2 = ucast ?n" "config_header c ! 3 = ucast (drop_bit 8 ?n)"
      by (simp_all add: config_header_def UINT16_TO_BSTREAM_def)
    then have "unat (BYTES_TO_UINT16 (config_header c ! 2) (config_header c ! 3)) = unat ?n"
      by (simp only: uint16_bytes_id)
    also have "unat ?n = 9 + length (concat (concat (usb_interfaces c)))"
      using total_length [of c] unfolding unat_of_nat by (intro mod_less) simp
    finally show ?thesis
      using len by simp
  qed
  moreover have "list_all (\<lambda>g. unat (hd g ! 4) = length (endpoints g)) (usb_interfaces c)"
    by (simp add: usb_interfaces_def part_endpoints part_heads)
  moreover have "remdups_adj (map (\<lambda>g. unat (hd g ! 2)) (usb_interfaces c)) = [0..<unat (config_header c ! 4)]"
    by (cases "USB_PRINTER_ENABLE c"; cases "USB_SPEAKER_ENABLE c"; cases "USB_MIC_ENABLE c"; cases "USB_KEYBOARD_ENABLE c"; cases "USB_MOUSE_ENABLE c")
      (simp_all add: usb_interfaces_def part_heads config_header_def intf_numbers small_upts UINT16_TO_BSTREAM_def)
  moreover have "distinct (concat (map endpoints (usb_interfaces c)))"
    by (cases "USB_PRINTER_ENABLE c"; cases "USB_SPEAKER_ENABLE c"; cases "USB_MIC_ENABLE c"; cases "USB_KEYBOARD_ENABLE c"; cases "USB_MOUSE_ENABLE c")
      (simp_all add: usb_interfaces_def part_endpoints)
  ultimately show ?thesis
    using configuration_parses by blast
qed

text \<open>The HID descriptors give the length of the report descriptors.\<close>

lemma hid_report_lengths:
  "unat (usbdesc_get_keyboard ! 7) = length keyboard_report_desc" "unat (usbdesc_get_mouse ! 7) = length mouse_report_desc"
  "length usbdesc_get_keyboard = 16" "length usbdesc_get_mouse = 16"
  by (simp_all add: usbdesc_get_keyboard_def usbdesc_get_mouse_def keyboard_descriptor_def mouse_descriptor_def
    USB_HID_Descriptor_HID_def USB_Descriptor_Endpoint_def keyboard_report_desc_def mouse_report_desc_def)

end
