(* ===== verification/Usb_Ctrl.thy ===== *)
theory Usb_Ctrl
  imports Usb_Hid Usb_Desc
begin

text \<open>
  The control endpoint of the USB device: \<^verbatim>\<open>application/usbstd/usb.c\<close> with the volume controls of
  \<^verbatim>\<open>application/app/usbaud.c\<close>.  The endpoint buffer has eight bytes: the hardware puts setup packets and
  data of the host there, and sends the bytes that were written when the packet is acknowledged.
  \<open>g_response\<close> is the list of bytes from the pointer of that name on; \<open>core_reg\<close> and \<open>ana_reg\<close> are the
  other registers of the chip, which the custom report accesses.
\<close>

section \<open>State\<close>

record USB_Request_Hdr =
  RequestType :: u8
  Request :: u8
  Value :: u16
  Index :: u16
  Length :: u16

record audio_setting =
  vol_cur :: u16
  vol_step :: u16
  mute :: u8

record usb_ctrl =
  ctl_buf :: "u8 list"
  ctl_ptr :: nat
  reg_ctrl_ep_ctrl :: u8
  reg_ctrl_ep_irq_mode :: u8
  control_request :: USB_Request_Hdr
  g_response :: "u8 list"
  g_response_len :: u16
  g_stall :: bool
  host_keyboard_status :: u8
  host_cmd :: "u8 list"
  host_cmd_pairing_ok :: bool
  g_rate :: u8
  usb_alt_intf :: "u8 list"
  custom_read_dat :: u32
  custom_reg_cmd :: bool
  core_reg :: "u32 \<Rightarrow> u8"
  ana_reg :: "u8 \<Rightarrow> u8"
  speaker_setting :: audio_setting
  mic_setting :: audio_setting
  usb_has_suspend_irq :: bool
  hid_part :: usb_hid

definition USB_EDP_SPEAKER :: nat where "USB_EDP_SPEAKER = 6"
definition USB_EDP_MIC :: nat where "USB_EDP_MIC = 7"
definition REQ_GetDescriptor :: u8 where "REQ_GetDescriptor = 6"
definition REQ_GetInterface :: u8 where "REQ_GetInterface = 10"
definition REQ_SetInterface :: u8 where "REQ_SetInterface = 11"
definition HID_REQ_GetReport :: u8 where "HID_REQ_GetReport = 1"
definition HID_REQ_GetIdle :: u8 where "HID_REQ_GetIdle = 2"
definition HID_REQ_GetProtocol :: u8 where "HID_REQ_GetProtocol = 3"
definition HID_REQ_SetReport :: u8 where "HID_REQ_SetReport = 9"
definition HID_REQ_SetIdle :: u8 where "HID_REQ_SetIdle = 10"
definition HID_REQ_SetProtocol :: u8 where "HID_REQ_SetProtocol = 11"
definition AUDIO_FEATURE_MUTE :: u8 where "AUDIO_FEATURE_MUTE = 1"
definition AUDIO_FEATURE_VOLUME :: u8 where "AUDIO_FEATURE_VOLUME = 2"
definition AUDIO_REQ_GetCurrent :: u8 where "AUDIO_REQ_GetCurrent = 0x81"
definition AUDIO_REQ_GetMinimum :: u8 where "AUDIO_REQ_GetMinimum = 0x82"
definition AUDIO_REQ_GetMaximum :: u8 where "AUDIO_REQ_GetMaximum = 0x83"
definition AUDIO_REQ_GetResolution :: u8 where "AUDIO_REQ_GetResolution = 0x84"
definition USB_SPEAKER_FEATURE_UNIT_ID :: u8 where "USB_SPEAKER_FEATURE_UNIT_ID = 2"
definition USB_MIC_FEATURE_UNIT_ID :: u8 where "USB_MIC_FEATURE_UNIT_ID = 5"
definition FLD_EP_DAT_ACK :: u8 where "FLD_EP_DAT_ACK = 1"
definition FLD_EP_DAT_STALL :: u8 where "FLD_EP_DAT_STALL = 2"
definition FLD_EP_STA_ACK :: u8 where "FLD_EP_STA_ACK = 4"
definition FLD_EP_STA_STALL :: u8 where "FLD_EP_STA_STALL = 8"
definition MIC_VOL_MIN :: u16 where "MIC_VOL_MIN = 0x0000"
definition MIC_VOL_MAX :: u16 where "MIC_VOL_MAX = 0x1e00"
definition MIC_VOL_RES :: u16 where "MIC_VOL_RES = 0x0180"
definition MIC_VOL_DEF :: u16 where "MIC_VOL_DEF = 0x1800"
definition SPEAKER_VOL_MIN :: u16 where "SPEAKER_VOL_MIN = 0xa000"
definition SPEAKER_VOL_MAX :: u16 where "SPEAKER_VOL_MAX = 0x0300"
definition SPEAKER_VOL_RES :: u16 where "SPEAKER_VOL_RES = 0x0180"

section \<open>The buffer of the endpoint (usbhw.h, usbhw.c)\<close>

definition usbhw_reset_ctrl_ep_ptr :: "usb_ctrl \<Rightarrow> usb_ctrl" where
  "usbhw_reset_ctrl_ep_ptr s = s\<lparr>ctl_ptr := 0\<rparr>"

definition usbhw_read_ctrl_ep_data :: "usb_ctrl \<Rightarrow> (u8 \<times> usb_ctrl) option" where
  "usbhw_read_ctrl_ep_data s = do { b \<leftarrow> get_byte (ctl_buf s) (ctl_ptr s); Some (b, s\<lparr>ctl_ptr := ctl_ptr s + 1\<rparr>) }"

definition usbhw_write_ctrl_ep_data :: "u8 \<Rightarrow> usb_ctrl \<Rightarrow> usb_ctrl option" where
  "usbhw_write_ctrl_ep_data b s = do {
     buf \<leftarrow> put_byte (ctl_buf s) (ctl_ptr s) b;
     Some (s\<lparr>ctl_buf := buf, ctl_ptr := ctl_ptr s + 1\<rparr>) }"

fun write_ctrl_ep :: "u8 list \<Rightarrow> usb_ctrl \<Rightarrow> usb_ctrl option" where
  "write_ctrl_ep [] s = Some s"
| "write_ctrl_ep (b # bs) s = do { s \<leftarrow> usbhw_write_ctrl_ep_data b s; write_ctrl_ep bs s }"

definition usbhw_read_ctrl_ep_u16 :: "usb_ctrl \<Rightarrow> (u16 \<times> usb_ctrl) option" where
  "usbhw_read_ctrl_ep_u16 s = do {
     (v, s) \<leftarrow> usbhw_read_ctrl_ep_data s;
     (h, s) \<leftarrow> usbhw_read_ctrl_ep_data s;
     Some (push_bit 8 (ucast h) OR ucast v, s) }"

definition usbhw_write_ctrl_ep_u16 :: "u16 \<Rightarrow> usb_ctrl \<Rightarrow> usb_ctrl option" where
  "usbhw_write_ctrl_ep_u16 v s = write_ctrl_ep [ucast v, ucast (drop_bit 8 v)] s"

definition value_l :: "usb_ctrl \<Rightarrow> u8" where "value_l s = ucast (Value (control_request s))"
definition value_h :: "usb_ctrl \<Rightarrow> u8" where "value_h s = ucast (drop_bit 8 (Value (control_request s)))"
definition index_l :: "usb_ctrl \<Rightarrow> u8" where "index_l s = ucast (Index (control_request s))"
definition entity :: "usb_ctrl \<Rightarrow> u8" where "entity s = ucast (drop_bit 8 (Index (control_request s)))"

section \<open>Responses\<close>

text \<open>The loop that writes \<open>n\<close> bytes from the response pointer.\<close>

fun response_loop :: "nat \<Rightarrow> usb_ctrl \<Rightarrow> usb_ctrl option" where
  "response_loop 0 s = Some s"
| "response_loop (Suc n) s = do {
     b \<leftarrow> get_byte (g_response s) 0;
     s \<leftarrow> usbhw_write_ctrl_ep_data b s;
     response_loop n (s\<lparr>g_response := tl (g_response s)\<rparr>) }"

definition usb_send_response :: "usb_ctrl \<Rightarrow> usb_ctrl option" where
  "usb_send_response s =
     (let n = (if g_response_len s < 8 then g_response_len s else 8);
          s = s\<lparr>g_response_len := g_response_len s - n\<rparr>
      in response_loop (unat n) (usbhw_reset_ctrl_ep_ptr s))"

definition set_response :: "u8 list \<Rightarrow> usb_ctrl \<Rightarrow> usb_ctrl" where
  "set_response d s = s\<lparr>g_response := d, g_response_len := of_nat (length d)\<rparr>"

definition cut_response :: "usb_ctrl \<Rightarrow> usb_ctrl" where
  "cut_response s =
     (if Length (control_request s) < g_response_len s then s\<lparr>g_response_len := Length (control_request s)\<rparr> else s)"

definition usb_prepare_desc_data :: "usb_cfg \<Rightarrow> usb_ctrl \<Rightarrow> usb_ctrl" where
  "usb_prepare_desc_data c s =
     (let s = s\<lparr>g_response := [], g_response_len := 0\<rparr>;
          s = (if value_h s = DTYPE_Device then set_response (device_desc c) s
               else if value_h s = DTYPE_Configuration then set_response (configuration_desc c) s
               else if value_h s = DTYPE_String then
                 if value_l s = 0 then set_response language_desc s
                 else if value_l s = 1 then set_response vendor_desc s
                 else if value_l s = 2 then set_response product_desc s
                 else if value_l s = 3 then set_response serial_desc s
                 else s\<lparr>g_stall := True\<rparr>
               else s\<lparr>g_stall := True\<rparr>)
      in cut_response s)"

text \<open>The response is not reset here, so without a descriptor the old one goes on.\<close>

definition usb_handle_std_intf_req :: "usb_cfg \<Rightarrow> usb_ctrl \<Rightarrow> usb_ctrl" where
  "usb_handle_std_intf_req c s =
     (let s =
        (if value_h s = HID_DTYPE_HID then
           (let s = (if USB_MOUSE_ENABLE c \<and> index_l s = USB_INTF_MOUSE c then set_response usbdesc_get_mouse s else s)
            in if USB_KEYBOARD_ENABLE c \<and> index_l s = USB_INTF_KEYBOARD c then set_response usbdesc_get_keyboard s else s)
         else if value_h s = HID_DTYPE_Report then
           if USB_KEYBOARD_ENABLE c \<and> index_l s = USB_INTF_KEYBOARD c then set_response keyboard_report_desc s
           else if USB_MOUSE_ENABLE c \<and> index_l s = USB_INTF_MOUSE c then set_response mouse_report_desc s
           else s\<lparr>g_stall := True\<rparr>
         else s)
      in cut_response s)"

section \<open>Volume and mute (usbaud.c)\<close>

definition usbaud_cal_speaker_step :: "u16 \<Rightarrow> u16" where
  "usbaud_cal_speaker_step vol =
     (if sint vol < sint SPEAKER_VOL_MIN then 0 else of_int ((sint vol - sint SPEAKER_VOL_MIN) div 0x180))"

definition usbaud_cal_mic_step :: "u16 \<Rightarrow> u16" where
  "usbaud_cal_mic_step vol =
     (if sint vol < sint MIC_VOL_MIN then 0 else of_int ((sint vol - sint MIC_VOL_MIN) div 0x180))"

definition usbaud_set_speaker_vol :: "u16 \<Rightarrow> usb_ctrl \<Rightarrow> usb_ctrl" where
  "usbaud_set_speaker_vol vol s =
     s\<lparr>speaker_setting := (speaker_setting s)\<lparr>vol_cur := vol, vol_step := usbaud_cal_speaker_step vol\<rparr>\<rparr>"

definition usbaud_set_mic_vol :: "u16 \<Rightarrow> usb_ctrl \<Rightarrow> usb_ctrl" where
  "usbaud_set_mic_vol vol s =
     s\<lparr>mic_setting := (mic_setting s)\<lparr>vol_cur := vol, vol_step := usbaud_cal_mic_step vol\<rparr>\<rparr>"

definition usbaud_speaker_vol_get :: "usb_ctrl \<Rightarrow> u8" where
  "usbaud_speaker_vol_get s = push_bit 7 (mute (speaker_setting s)) OR (ucast (vol_step (speaker_setting s)) AND 0x7f)"

definition usbaud_mic_vol_get :: "usb_ctrl \<Rightarrow> u8" where
  "usbaud_mic_vol_get s = push_bit 7 (mute (mic_setting s)) OR (ucast (vol_step (mic_setting s)) AND 0x7f)"

definition usbaud_mic_en :: "u8 \<Rightarrow> usb_ctrl \<Rightarrow> usb_ctrl" where
  "usbaud_mic_en en s = s\<lparr>mic_setting := (mic_setting s)\<lparr>mute := en\<rparr>\<rparr>"

text \<open>The result tells success.\<close>

definition usbaud_handle_set_speaker_cmd :: "u8 \<Rightarrow> usb_ctrl \<Rightarrow> (bool \<times> usb_ctrl) option" where
  "usbaud_handle_set_speaker_cmd t s =
     (if t = AUDIO_FEATURE_MUTE then do {
        (b, s) \<leftarrow> usbhw_read_ctrl_ep_data s;
        Some (True, s\<lparr>speaker_setting := (speaker_setting s)\<lparr>mute := b\<rparr>\<rparr>) }
      else if t = AUDIO_FEATURE_VOLUME then do {
        (v, s) \<leftarrow> usbhw_read_ctrl_ep_u16 s;
        Some (True, usbaud_set_speaker_vol v s) }
      else Some (False, s))"

definition usbaud_handle_set_mic_cmd :: "u8 \<Rightarrow> usb_ctrl \<Rightarrow> (bool \<times> usb_ctrl) option" where
  "usbaud_handle_set_mic_cmd t s =
     (if t = AUDIO_FEATURE_MUTE then do {
        (b, s) \<leftarrow> usbhw_read_ctrl_ep_data s;
        Some (True, s\<lparr>mic_setting := (mic_setting s)\<lparr>mute := b\<rparr>\<rparr>) }
      else if t = AUDIO_FEATURE_VOLUME then do {
        (v, s) \<leftarrow> usbhw_read_ctrl_ep_u16 s;
        Some (True, usbaud_set_mic_vol v s) }
      else Some (True, s))"

definition get_volume :: "u8 \<Rightarrow> audio_setting \<Rightarrow> u16 \<Rightarrow> u16 \<Rightarrow> u16 \<Rightarrow> u16 option" where
  "get_volume req a vmin vmax vres =
     (if req = AUDIO_REQ_GetCurrent then Some (vol_cur a)
      else if req = AUDIO_REQ_GetMinimum then Some vmin
      else if req = AUDIO_REQ_GetMaximum then Some vmax
      else if req = AUDIO_REQ_GetResolution then Some vres
      else None)"

definition get_cmd :: "u8 \<Rightarrow> u8 \<Rightarrow> audio_setting \<Rightarrow> u16 \<Rightarrow> u16 \<Rightarrow> u16 \<Rightarrow> usb_ctrl \<Rightarrow> (bool \<times> usb_ctrl) option" where
  "get_cmd req t a vmin vmax vres s =
     (if t = AUDIO_FEATURE_MUTE then do { s \<leftarrow> usbhw_write_ctrl_ep_data (mute a) s; Some (True, s) }
      else if t = AUDIO_FEATURE_VOLUME then
        case get_volume req a vmin vmax vres of
          Some v \<Rightarrow> do { s \<leftarrow> usbhw_write_ctrl_ep_u16 v s; Some (True, s) }
        | None \<Rightarrow> Some (False, s)
      else Some (False, s))"

definition usbaud_handle_get_speaker_cmd :: "u8 \<Rightarrow> u8 \<Rightarrow> usb_ctrl \<Rightarrow> (bool \<times> usb_ctrl) option" where
  "usbaud_handle_get_speaker_cmd req t s = get_cmd req t (speaker_setting s) SPEAKER_VOL_MIN SPEAKER_VOL_MAX SPEAKER_VOL_RES s"

definition usbaud_handle_get_mic_cmd :: "u8 \<Rightarrow> u8 \<Rightarrow> usb_ctrl \<Rightarrow> (bool \<times> usb_ctrl) option" where
  "usbaud_handle_get_mic_cmd req t s = get_cmd req t (mic_setting s) MIC_VOL_MIN MIC_VOL_MAX MIC_VOL_RES s"

definition set_ep_ctrl :: "nat \<Rightarrow> u8 \<Rightarrow> usb_ctrl \<Rightarrow> usb_ctrl" where
  "set_ep_ctrl ep v s = s\<lparr>hid_part := (hid_part s)\<lparr>ep_ctrl := (ep_ctrl (hid_part s))(ep := v)\<rparr>\<rparr>"

definition usbaud_set_audio_mode :: "usb_ctrl \<Rightarrow> usb_ctrl" where
  "usbaud_set_audio_mode s = set_ep_ctrl USB_EDP_MIC (ep_ctrl (hid_part s) USB_EDP_MIC OR (0x80 OR 0x40)) s"

text \<open>Volume keys go to the host as a report of their own.\<close>

definition usbaud_hid_report :: "u8 \<Rightarrow> u8 \<Rightarrow> usb_hid \<Rightarrow> bool \<times> usb_hid" where
  "usbaud_hid_report cmd vol h =
     (if usbhw_is_ep_busy 4 h then (False, h)
      else (True, h\<lparr>ep_ctrl := (ep_ctrl h)(4 := FLD_EP_DAT_ACK), ep_out := ep_out h @ [(4, [2, cmd, vol], FLD_EP_DAT_ACK)]\<rparr>))"

definition usbaud_init :: "usb_cfg \<Rightarrow> usb_ctrl \<Rightarrow> usb_ctrl" where
  "usbaud_init c s =
     (let s = (if USB_MIC_ENABLE c \<and> MIC_CHANNEL_COUNT c = 1 then usbaud_set_audio_mode s else s);
          s = (if USB_SPEAKER_ENABLE c then usbaud_set_speaker_vol SPEAKER_VOL_MAX s else s)
      in if USB_MIC_ENABLE c then s\<lparr>mic_setting := (mic_setting s)\<lparr>vol_cur := MIC_VOL_DEF\<rparr>\<rparr> else s)"


section \<open>The custom report\<close>

definition reg_addr :: "u32 \<Rightarrow> u32" where
  "reg_addr a = 0x800000 OR a"

definition write_core :: "u32 \<Rightarrow> u8 list \<Rightarrow> usb_ctrl \<Rightarrow> usb_ctrl" where
  "write_core a bs s = s\<lparr>core_reg := fold (\<lambda>(i, b) m. m(reg_addr a + of_nat i := b)) (enumerate 0 bs) (core_reg s)\<rparr>"

text \<open>The loop that shifts \<open>n\<close> registers into \<open>custom_read_dat\<close>.\<close>

fun read_core_loop :: "nat \<Rightarrow> u32 \<Rightarrow> usb_ctrl \<Rightarrow> usb_ctrl" where
  "read_core_loop 0 a s = s"
| "read_core_loop (Suc n) a s =
     read_core_loop n (a + 1) (s\<lparr>custom_read_dat := drop_bit 8 (custom_read_dat s) OR push_bit 24 (ucast (core_reg s (reg_addr a)))\<rparr>)"

definition usb_dp_pullup_en :: "bool \<Rightarrow> usb_ctrl \<Rightarrow> usb_ctrl" where
  "usb_dp_pullup_en en s =
     (let dat = ana_reg s 0x0b
      in s\<lparr>ana_reg := (ana_reg s)(0x0b := (if en then dat OR 0x80 else dat AND 0x7f))\<rparr>)"

definition re_enumerate :: "usb_ctrl \<Rightarrow> usb_ctrl" where
  "re_enumerate s = usb_dp_pullup_en True ((usb_dp_pullup_en False s)\<lparr>reg_ctrl_ep_irq_mode := 0xff\<rparr>)"

definition register_access :: "u8 list \<Rightarrow> u32 \<Rightarrow> usb_ctrl \<Rightarrow> usb_ctrl" where
  "register_access cmd adr s =
     (let len = cmd ! 1 AND 3
      in if cmd ! 1 AND 0x0c = 0 then
           if len = 0 then read_core_loop 4 adr s
           else if len = 1 then write_core adr [cmd ! 4] s
           else if len = 2 then write_core adr [cmd ! 4, cmd ! 5] s
           else write_core adr [cmd ! 4, cmd ! 5, cmd ! 6, cmd ! 7] s
         else if len = 0 then s\<lparr>custom_read_dat := ucast (ana_reg s (cmd ! 2))\<rparr>
         else s\<lparr>ana_reg := (ana_reg s)(cmd ! 2 := cmd ! 4)\<rparr>)"

definition custom_command :: "u8 list \<Rightarrow> usb_ctrl \<Rightarrow> usb_ctrl" where
  "custom_command cmd s =
     (let s = s\<lparr>host_cmd := cmd, custom_reg_cmd := (cmd ! 1 AND 0xf0 = 0xc0)\<rparr>
      in if \<not> custom_reg_cmd s then s
         else
           let s = s\<lparr>host_cmd := cmd[0 := 0]\<rparr>;
               adr = ucast (BYTES_TO_UINT16 (cmd ! 2) (cmd ! 3)) :: u32
           in if cmd ! 1 = 0xcc \<and> adr = 0x5af0 then register_access cmd adr (re_enumerate s)
              else register_access cmd (adr + 0x800000) s)"

section \<open>Class requests\<close>

definition class_out_hid :: "usb_cfg \<Rightarrow> bool \<Rightarrow> usb_ctrl \<Rightarrow> usb_ctrl option" where
  "class_out_hid c data_request s =
     (let property = Request (control_request s)
      in if property = HID_REQ_SetReport then
           if value_h s = 0 \<or> value_h s = 1 then Some s
           else if value_h s = 2 then
             if data_request then do {
               (b, s) \<leftarrow> usbhw_read_ctrl_ep_data s;
               Some (s\<lparr>host_keyboard_status := b\<rparr>) }
             else Some s
           else if value_h s = 3 \<and> USB_CUSTOM_HID_REPORT c then
             if data_request then do {
               cmd \<leftarrow> get_bytes (ctl_buf s) 0 8;
               Some (custom_command cmd (s\<lparr>ctl_ptr := 8\<rparr>)) }
             else Some s
           else Some (s\<lparr>g_stall := True\<rparr>)
         else if property = HID_REQ_SetIdle then do {
           s \<leftarrow> (if data_request then do { (b, s) \<leftarrow> usbhw_read_ctrl_ep_data s; Some (s\<lparr>g_rate := b\<rparr>) } else Some s);
           Some (s\<lparr>g_rate := value_h s\<rparr>) }
         else if property = HID_REQ_SetProtocol then do {
           s \<leftarrow> (if data_request then do {
                   (b, s) \<leftarrow> usbhw_read_ctrl_ep_data s;
                   Some (s\<lparr>hid_part := (hid_part s)\<lparr>usb_mouse_report_proto := b\<rparr>\<rparr>) }
                 else Some s);
           Some (set_ep_ctrl USB_EDP_MOUSE 0 (s\<lparr>hid_part := (hid_part s)\<lparr>usb_mouse_report_proto := value_l s\<rparr>\<rparr>)) }
         else Some (s\<lparr>g_stall := True\<rparr>))"

definition class_out_audio :: "usb_ctrl \<Rightarrow> usb_ctrl option" where
  "class_out_audio s =
     (if \<not> g_stall s then Some s
      else
        let s = s\<lparr>g_stall := False\<rparr>
        in if entity s = USB_SPEAKER_FEATURE_UNIT_ID then do { (_, s) \<leftarrow> usbaud_handle_set_speaker_cmd (value_h s) s; Some s }
           else if entity s = USB_MIC_FEATURE_UNIT_ID then do { (_, s) \<leftarrow> usbaud_handle_set_mic_cmd (value_h s) s; Some s }
           else Some (s\<lparr>g_stall := True\<rparr>))"

definition usb_handle_out_class_intf_req :: "usb_cfg \<Rightarrow> bool \<Rightarrow> usb_ctrl \<Rightarrow> usb_ctrl option" where
  "usb_handle_out_class_intf_req c data_request s = do {
     s \<leftarrow> class_out_hid c data_request s;
     if USB_MIC_ENABLE c \<or> USB_SPEAKER_ENABLE c then class_out_audio s else Some s }"

definition custom_answer :: "usb_ctrl \<Rightarrow> u8 list" where
  "custom_answer s =
     (if custom_reg_cmd s then UINT32_TO_BSTREAM (custom_read_dat s) @ [0x10, 0x20, 0x40, 0x80]
      else [0x04, 0x58, 0x00, if host_cmd_pairing_ok s then 0xa1 else 0x00, 0x00, 0x00, 0x08, 0x00])"

definition class_in_hid :: "usb_cfg \<Rightarrow> usb_ctrl \<Rightarrow> usb_ctrl option" where
  "class_in_hid c s =
     (let property = Request (control_request s)
      in if property = 0x00 then usbhw_write_ctrl_ep_data 0x00 s
         else if property = HID_REQ_GetReport then
           if USB_CUSTOM_HID_REPORT c \<and> Value (control_request s) = 0x0305 then write_ctrl_ep (custom_answer s) s else Some s
         else if property = HID_REQ_GetIdle then usbhw_write_ctrl_ep_data (g_rate s) s
         else if property = HID_REQ_GetProtocol then usbhw_write_ctrl_ep_data (usb_mouse_report_proto (hid_part s)) s
         else Some (s\<lparr>g_stall := True\<rparr>))"

definition class_in_audio :: "usb_ctrl \<Rightarrow> usb_ctrl option" where
  "class_in_audio s =
     (if \<not> g_stall s then Some s
      else
        let s = s\<lparr>g_stall := False\<rparr>; property = Request (control_request s)
        in if entity s = USB_SPEAKER_FEATURE_UNIT_ID then do {
             (ok, s) \<leftarrow> usbaud_handle_get_speaker_cmd property (value_h s) s;
             Some (if ok then s else s\<lparr>g_stall := True\<rparr>) }
           else if entity s = USB_MIC_FEATURE_UNIT_ID then do {
             (ok, s) \<leftarrow> usbaud_handle_get_mic_cmd property (value_h s) s;
             Some (if ok then s else s\<lparr>g_stall := True\<rparr>) }
           else Some (s\<lparr>g_stall := True\<rparr>))"

definition usb_handle_in_class_intf_req :: "usb_cfg \<Rightarrow> usb_ctrl \<Rightarrow> usb_ctrl option" where
  "usb_handle_in_class_intf_req c s = do {
     s \<leftarrow> class_in_hid c s;
     if USB_MIC_ENABLE c \<or> USB_SPEAKER_ENABLE c then class_in_audio s else Some s }"

definition usb_handle_in_class_endp_req :: "usb_cfg \<Rightarrow> usb_ctrl \<Rightarrow> usb_ctrl option" where
  "usb_handle_in_class_endp_req c s =
     (if (USB_MIC_ENABLE c \<or> USB_SPEAKER_ENABLE c) \<and> value_h s = 1 \<and> Request (control_request s) = AUDIO_REQ_GetCurrent
      then write_ctrl_ep [ucast (MIC_SAMPLE_RATE c), ucast (drop_bit 8 (MIC_SAMPLE_RATE c)), ucast (drop_bit 16 (MIC_SAMPLE_RATE c))] s
      else Some s)"

definition usb_handle_set_intf :: "usb_cfg \<Rightarrow> usb_ctrl \<Rightarrow> usb_ctrl option" where
  "usb_handle_set_intf c s =
     (if USB_MIC_ENABLE c \<or> USB_SPEAKER_ENABLE c then do {
        let i = index_l s AND 7;
        alts \<leftarrow> put_byte (usb_alt_intf s) (unat i) (value_l s);
        let s = s\<lparr>usb_alt_intf := alts\<rparr>;
        let s = (if USB_MIC_ENABLE c \<and> USB_INTF_MIC c = i \<and> value_l s \<noteq> 0 then set_ep_ctrl USB_EDP_MIC 1 s else s);
        Some (if USB_SPEAKER_ENABLE c \<and> USB_INTF_SPEAKER c = i \<and> value_l s \<noteq> 0 then set_ep_ctrl USB_EDP_SPEAKER 1 s else s) }
      else Some s)"

definition usb_handle_get_intf :: "usb_ctrl \<Rightarrow> usb_ctrl option" where
  "usb_handle_get_intf s = do {
     a \<leftarrow> get_byte (usb_alt_intf s) (unat (index_l s AND 7));
     usbhw_write_ctrl_ep_data a s }"

section \<open>Requests\<close>

definition usb_handle_request :: "usb_cfg \<Rightarrow> bool \<Rightarrow> usb_ctrl \<Rightarrow> usb_ctrl option" where
  "usb_handle_request c data_request s =
     (let t = RequestType (control_request s); r = Request (control_request s);
          s = usbhw_reset_ctrl_ep_ptr s
      in if t = 0x80 then
           if r = REQ_GetDescriptor then usb_send_response (if data_request then s else usb_prepare_desc_data c s) else Some s
         else if t = 0x81 then
           if r = REQ_GetDescriptor then usb_send_response (if data_request then s else usb_handle_std_intf_req c s)
           else if (USB_SPEAKER_ENABLE c \<or> USB_MIC_ENABLE c) \<and> r = REQ_GetInterface then usb_handle_get_intf s
           else Some s
         else if t = 0x21 then usb_handle_out_class_intf_req c data_request s
         else if t = 0x22 then Some s
         else if t = 0xa1 then usb_handle_in_class_intf_req c s
         else if t = 0xa2 then usb_handle_in_class_endp_req c s
         else if t = 0x01 then if r = REQ_SetInterface then usb_handle_set_intf c s else Some s
         else Some (s\<lparr>g_stall := True\<rparr>))"

definition data_reply :: "usb_ctrl \<Rightarrow> usb_ctrl" where
  "data_reply s = s\<lparr>reg_ctrl_ep_ctrl := (if g_stall s then FLD_EP_DAT_STALL else FLD_EP_DAT_ACK)\<rparr>"

definition usb_handle_ctl_ep_setup :: "usb_cfg \<Rightarrow> usb_ctrl \<Rightarrow> usb_ctrl option" where
  "usb_handle_ctl_ep_setup c s = do {
     let s = usbhw_reset_ctrl_ep_ptr s;
     (t, s) \<leftarrow> usbhw_read_ctrl_ep_data s;
     (r, s) \<leftarrow> usbhw_read_ctrl_ep_data s;
     (v, s) \<leftarrow> usbhw_read_ctrl_ep_u16 s;
     (i, s) \<leftarrow> usbhw_read_ctrl_ep_u16 s;
     (l, s) \<leftarrow> usbhw_read_ctrl_ep_u16 s;
     let s = s\<lparr>control_request := \<lparr>RequestType = t, Request = r, Value = v, Index = i, Length = l\<rparr>, g_stall := False\<rparr>;
     s \<leftarrow> usb_handle_request c False s;
     Some (data_reply s) }"

definition usb_handle_ctl_ep_data :: "usb_cfg \<Rightarrow> usb_ctrl \<Rightarrow> usb_ctrl option" where
  "usb_handle_ctl_ep_data c s = do {
     s \<leftarrow> usb_handle_request c True ((usbhw_reset_ctrl_ep_ptr s)\<lparr>g_stall := False\<rparr>);
     Some (data_reply s) }"

definition usb_handle_ctl_ep_status :: "usb_ctrl \<Rightarrow> usb_ctrl" where
  "usb_handle_ctl_ep_status s = s\<lparr>reg_ctrl_ep_ctrl := (if g_stall s then FLD_EP_STA_STALL else FLD_EP_STA_ACK)\<rparr>"

text \<open>\<open>irq\<close> is the status of the endpoint; the two flags are the reset and suspend interrupts.\<close>

definition usb_handle_irq :: "usb_cfg \<Rightarrow> u32 \<Rightarrow> u8 \<Rightarrow> bool \<Rightarrow> bool \<Rightarrow> usb_ctrl \<Rightarrow> usb_ctrl option" where
  "usb_handle_irq c now irq reset pwdn s = do {
     s \<leftarrow> (if irq AND 0x10 \<noteq> 0 then usb_handle_ctl_ep_setup c s else Some s);
     s \<leftarrow> (if irq AND 0x20 \<noteq> 0 then usb_handle_ctl_ep_data c s else Some s);
     let s = (if irq AND 0x40 \<noteq> 0 then usb_handle_ctl_ep_status s else s);
     let s = (if reset then s\<lparr>hid_part := usb_reset (hid_part s)\<rparr> else s);
     let s = s\<lparr>usb_has_suspend_irq := (IRQ_USB_PWDN_ENABLE c \<and> pwdn)\<rparr>;
     if pwdn then Some s
     else do {
       h \<leftarrow> (if USB_MOUSE_ENABLE c then usbmouse_report_frame now (hid_part s) else Some (hid_part s));
       (_, h) \<leftarrow> usb_hid_report_fifo_proc h;
       Some (s\<lparr>hid_part := h\<rparr>) } }"

definition usb_init :: "usb_ctrl \<Rightarrow> usb_ctrl" where
  "usb_init s = s\<lparr>reg_ctrl_ep_irq_mode := reg_ctrl_ep_irq_mode s AND NOT (0x80 OR 0x20)\<rparr>"

end
