(* ===== verification/Usb_Ctrl_Theorems.thy ===== *)
theory Usb_Ctrl_Theorems
  imports Usb_Ctrl Usb_Hid_Theorems Safe_System
begin

text \<open>
  The control endpoint (definitions in theory Usb_Ctrl): descriptors are sent in packets of eight bytes up
  to the length asked for; no request leaves the buffer, the response or another array, but for interface
  numbers that the device does not have; what is written with the custom report and the volume
  controls is read back; and a request that goes on with an old response.
\<close>

section \<open>Packets\<close>

definition in_packet :: "usb_ctrl \<Rightarrow> u8 list" where
  "in_packet s = take (ctl_ptr s) (ctl_buf s)"

text \<open>What is left to send.\<close>

definition pending :: "usb_ctrl \<Rightarrow> u8 list" where
  "pending s = take (unat (g_response_len s)) (g_response s)"

definition ctl_ok :: "usb_ctrl \<Rightarrow> bool" where
  "ctl_ok s \<longleftrightarrow> length (ctl_buf s) = 8 \<and> unat (g_response_len s) \<le> length (g_response s)"

definition le16 :: "u8 \<Rightarrow> u8 \<Rightarrow> u16" where
  "le16 l h = push_bit 8 (ucast h) OR ucast l"

lemma le16_bytes: "ucast (le16 l h) = l" "ucast (drop_bit 8 (le16 l h)) = h"
  by (rule bit_word_eqI; auto simp: le16_def word_bit_simps dest: bit_imp_le_length)+

lemma le16_id: "le16 (ucast v) (ucast (drop_bit 8 v)) = v"
  unfolding le16_def by (rule bit_word_eqI) (auto simp: word_bit_simps)

lemma read_data: "ctl_ptr s < length (ctl_buf s) \<Longrightarrow> usbhw_read_ctrl_ep_data s = Some (ctl_buf s ! ctl_ptr s, s\<lparr>ctl_ptr := ctl_ptr s + 1\<rparr>)"
  by (simp add: usbhw_read_ctrl_ep_data_def get_byte_def)

lemma read_u16: "ctl_ptr s + 1 < length (ctl_buf s) \<Longrightarrow>
    usbhw_read_ctrl_ep_u16 s = Some (le16 (ctl_buf s ! ctl_ptr s) (ctl_buf s ! (ctl_ptr s + 1)), s\<lparr>ctl_ptr := ctl_ptr s + 2\<rparr>)"
  by (simp add: usbhw_read_ctrl_ep_u16_def usbhw_read_ctrl_ep_data_def get_byte_def le16_def)

lemma write_data: "ctl_ptr s < length (ctl_buf s) \<Longrightarrow>
    usbhw_write_ctrl_ep_data b s = Some (s\<lparr>ctl_buf := (ctl_buf s)[ctl_ptr s := b], ctl_ptr := ctl_ptr s + 1\<rparr>)"
  by (simp add: usbhw_write_ctrl_ep_data_def put_byte_def)

text \<open>Writing bytes in a row.\<close>

lemma write_row:
  assumes "p < length buf" and "p + Suc n \<le> length buf" and "length bs = n"
  shows "take (p + 1) (buf[p := b]) @ bs @ drop (p + 1 + n) (buf[p := b]) = take p buf @ (b # bs) @ drop (p + Suc n) buf"
  using assms by (simp add: take_Suc_update)

lemma write_bytes:
  assumes "ctl_ptr s + length bs \<le> length (ctl_buf s)"
  shows "write_ctrl_ep bs s = Some (s\<lparr>ctl_buf := take (ctl_ptr s) (ctl_buf s) @ bs @ drop (ctl_ptr s + length bs) (ctl_buf s),
    ctl_ptr := ctl_ptr s + length bs\<rparr>)"
  using assms
proof (induction bs arbitrary: s)
  case (Cons b bs)
  let ?s = "s\<lparr>ctl_buf := (ctl_buf s)[ctl_ptr s := b], ctl_ptr := ctl_ptr s + 1\<rparr>"
  have p: "ctl_ptr s < length (ctl_buf s)" "ctl_ptr s + Suc (length bs) \<le> length (ctl_buf s)"
    using Cons.prems by simp_all
  have "write_ctrl_ep (b # bs) s = write_ctrl_ep bs ?s"
    using p by (simp add: write_data)
  also have "\<dots> = Some (?s\<lparr>ctl_buf := take (ctl_ptr s + 1) ((ctl_buf s)[ctl_ptr s := b]) @ bs @ drop (ctl_ptr s + 1 + length bs) ((ctl_buf s)[ctl_ptr s := b]),
      ctl_ptr := ctl_ptr s + 1 + length bs\<rparr>)"
    using Cons.IH [of ?s] p by simp
  finally show ?case
    unfolding write_row [OF p refl] by simp
qed simp

lemma response_loop_spec:
  assumes "n \<le> length (g_response s)" and "ctl_ptr s + n \<le> length (ctl_buf s)"
  shows "response_loop n s = Some (s\<lparr>ctl_buf := take (ctl_ptr s) (ctl_buf s) @ take n (g_response s) @ drop (ctl_ptr s + n) (ctl_buf s),
    ctl_ptr := ctl_ptr s + n, g_response := drop n (g_response s)\<rparr>)"
  using assms
proof (induction n arbitrary: s)
  case (Suc n)
  then obtain b r where r: "g_response s = b # r" "n \<le> length r"
    by (cases "g_response s") auto
  let ?s = "s\<lparr>ctl_buf := (ctl_buf s)[ctl_ptr s := b], ctl_ptr := ctl_ptr s + 1, g_response := r\<rparr>"
  have p: "ctl_ptr s < length (ctl_buf s)" "ctl_ptr s + Suc n \<le> length (ctl_buf s)"
    using Suc.prems by simp_all
  have "response_loop (Suc n) s = response_loop n ?s"
    using p by (simp add: write_data r get_byte_def)
  also have "\<dots> = Some (?s\<lparr>ctl_buf := take (ctl_ptr s + 1) ((ctl_buf s)[ctl_ptr s := b]) @ take n r @ drop (ctl_ptr s + 1 + n) ((ctl_buf s)[ctl_ptr s := b]),
      ctl_ptr := ctl_ptr s + 1 + n, g_response := drop n r\<rparr>)"
    using Suc.IH [of ?s] p r(2) by simp
  finally show ?case
    using r write_row [OF p, of "take n r" b] by simp
qed simp

lemma send_response:
  assumes "ctl_ok s"
  obtains s' where "usb_send_response s = Some s'" "ctl_ok s'" "in_packet s' = take 8 (pending s)" "pending s' = drop 8 (pending s)"
    "s' = s\<lparr>ctl_buf := ctl_buf s', ctl_ptr := ctl_ptr s', g_response := g_response s', g_response_len := g_response_len s'\<rparr>"
proof -
  define n where "n = (if g_response_len s < 8 then g_response_len s else 8)"
  let ?n = n
  let ?m = "unat (g_response_len s)"
  let ?z = "s\<lparr>g_response_len := g_response_len s - ?n, ctl_ptr := 0\<rparr>"
  let ?s = "?z\<lparr>ctl_buf := take (unat ?n) (g_response s) @ drop (unat ?n) (ctl_buf s), ctl_ptr := unat ?n, g_response := drop (unat ?n) (g_response s)\<rparr>"
  have n: "unat ?n = min 8 ?m" "unat (g_response_len s - ?n) = ?m - min 8 ?m"
    by (auto simp: n_def word_less_nat_alt unat_sub word_le_nat_alt min_def)
  have fits: "unat ?n \<le> length (g_response s)" "unat ?n \<le> 8"
    using assms n(1) by (auto simp: ctl_ok_def)
  have "response_loop (unat ?n) ?z = Some ?s"
    using response_loop_spec [of "unat ?n" ?z] fits assms by (simp add: ctl_ok_def)
  moreover have "usb_send_response s = response_loop (unat ?n) ?z"
    by (simp only: usb_send_response_def Let_def usbhw_reset_ctrl_ep_ptr_def n_def)
  ultimately have run: "usb_send_response s = Some ?s"
    by simp
  have "ctl_ok ?s"
    using assms fits n diff_le_mono [of ?m "length (g_response s)" "min 8 ?m"] by (simp add: ctl_ok_def)
  moreover have "in_packet ?s = take 8 (pending s)"
    using fits assms n(1) by (simp add: in_packet_def pending_def ctl_ok_def min_def)
  moreover have "pending ?s = drop 8 (pending s)"
  proof -
    have "pending ?s = take (?m - min 8 ?m) (drop (min 8 ?m) (g_response s))"
      using n by (simp add: pending_def)
    also have "\<dots> = drop (min 8 ?m) (take ?m (g_response s))"
      by (simp add: drop_take)
    also have "\<dots> = drop 8 (take ?m (g_response s))"
      by (cases "8 \<le> ?m") (auto simp: min_def)
    finally show ?thesis
      by (simp add: pending_def)
  qed
  ultimately show thesis
    using that [OF run] by simp
qed

section \<open>Setup packets\<close>

definition setup_req :: "u8 list \<Rightarrow> USB_Request_Hdr" where
  "setup_req p = \<lparr>RequestType = p ! 0, Request = p ! 1, Value = le16 (p ! 2) (p ! 3), Index = le16 (p ! 4) (p ! 5), Length = le16 (p ! 6) (p ! 7)\<rparr>"

definition after_setup :: "usb_ctrl \<Rightarrow> usb_ctrl" where
  "after_setup s = s\<lparr>ctl_ptr := 8, control_request := setup_req (ctl_buf s), g_stall := False\<rparr>"

lemma setup_reads:
  assumes "length (ctl_buf s) = 8"
  shows "usb_handle_ctl_ep_setup c s = do { s \<leftarrow> usb_handle_request c False (after_setup s); Some (data_reply s) }"
  using assms
  by (simp add: usb_handle_ctl_ep_setup_def usbhw_reset_ctrl_ep_ptr_def read_data read_u16 after_setup_def setup_req_def numeral_eq_Suc Let_def)

lemma setup_fields:
  "value_l (after_setup s) = ctl_buf s ! 2" "value_h (after_setup s) = ctl_buf s ! 3"
  "index_l (after_setup s) = ctl_buf s ! 4" "entity (after_setup s) = ctl_buf s ! 5"
  "RequestType (control_request (after_setup s)) = ctl_buf s ! 0" "Request (control_request (after_setup s)) = ctl_buf s ! 1"
  "Length (control_request (after_setup s)) = le16 (ctl_buf s ! 6) (ctl_buf s ! 7)"
  by (simp_all add: value_l_def value_h_def index_l_def entity_def after_setup_def setup_req_def le16_bytes)

section \<open>Descriptors\<close>

text \<open>The descriptor that a request asks for, by its recipient, type, index and interface.\<close>

definition usb_descriptor :: "usb_cfg \<Rightarrow> u8 \<Rightarrow> u8 \<Rightarrow> u8 \<Rightarrow> u8 \<Rightarrow> u8 list option" where
  "usb_descriptor c t typ ix intf =
     (if t = 0x80 then
        if typ = DTYPE_Device then Some (device_desc c)
        else if typ = DTYPE_Configuration then Some (configuration_desc c)
        else if typ = DTYPE_String then
          (if ix = 0 then Some language_desc else if ix = 1 then Some vendor_desc
           else if ix = 2 then Some product_desc else if ix = 3 then Some serial_desc else None)
        else None
      else if USB_KEYBOARD_ENABLE c \<and> intf = USB_INTF_KEYBOARD c then
        if typ = HID_DTYPE_HID then Some usbdesc_get_keyboard else if typ = HID_DTYPE_Report then Some keyboard_report_desc else None
      else if USB_MOUSE_ENABLE c \<and> intf = USB_INTF_MOUSE c then
        if typ = HID_DTYPE_HID then Some usbdesc_get_mouse else if typ = HID_DTYPE_Report then Some mouse_report_desc else None
      else None)"

lemma descriptor_lengths: "usb_descriptor c t typ ix intf = Some d \<Longrightarrow> length d < 65536"
proof -
  have "length (configuration_desc c) < 65536"
    using total_length [of c] by (simp add: configuration_desc_def config_header_def)
  moreover have "length (device_desc c) < 65536" "length language_desc < 65536" "length vendor_desc < 65536"
      "length product_desc < 65536" "length serial_desc < 65536" "length keyboard_report_desc < 65536" "length mouse_report_desc < 65536"
    by (simp_all add: device_desc_def language_desc_def vendor_desc_def product_desc_def serial_desc_def string_desc_def
      keyboard_report_desc_def mouse_report_desc_def)
  ultimately show "usb_descriptor c t typ ix intf = Some d \<Longrightarrow> length d < 65536"
    using hid_report_lengths by (auto simp: usb_descriptor_def split: if_splits)
qed

lemma cut_frame:
  "ctl_buf (cut_response s) = ctl_buf s" "g_stall (cut_response s) = g_stall s" "g_response (cut_response s) = g_response s"
  "control_request (cut_response s) = control_request s"
  by (simp_all add: cut_response_def)

lemma pending_cut: "pending (cut_response s) = take (unat (Length (control_request s))) (pending s)"
  by (auto simp: cut_response_def pending_def min_def word_less_nat_alt)

lemma ok_cut: "ctl_ok s \<Longrightarrow> ctl_ok (cut_response s)"
  by (auto simp: cut_response_def ctl_ok_def word_less_nat_alt)

lemma set_response_props:
  assumes "length d < 65536"
  shows "pending (set_response d s) = d" "length (ctl_buf s) = 8 \<Longrightarrow> ctl_ok (set_response d s)"
    "control_request (set_response d s) = control_request s" "g_stall (set_response d s) = g_stall s"
  using assms by (simp_all add: set_response_def pending_def ctl_ok_def unat_of_nat take_bit_eq_mod)


lemma prepare_desc:
  assumes "length (ctl_buf s) = 8"
  shows "usb_descriptor c 0x80 (value_h s) (value_l s) i = Some d \<Longrightarrow>
      pending (usb_prepare_desc_data c s) = take (unat (Length (control_request s))) d \<and> ctl_ok (usb_prepare_desc_data c s)
      \<and> g_stall (usb_prepare_desc_data c s) = g_stall s \<and> control_request (usb_prepare_desc_data c s) = control_request s"
    and "usb_descriptor c 0x80 (value_h s) (value_l s) i = None \<Longrightarrow>
      pending (usb_prepare_desc_data c s) = [] \<and> ctl_ok (usb_prepare_desc_data c s) \<and> g_stall (usb_prepare_desc_data c s)
      \<and> control_request (usb_prepare_desc_data c s) = control_request s"
proof -
  let ?z = "s\<lparr>g_response := [], g_response_len := 0\<rparr>"
  have z: "value_h ?z = value_h s" "value_l ?z = value_l s" "length (ctl_buf ?z) = 8" "control_request ?z = control_request s" "g_stall ?z = g_stall s"
    using assms by (simp_all add: value_h_def value_l_def)
  {
    assume d: "usb_descriptor c 0x80 (value_h s) (value_l s) i = Some d"
    note l = descriptor_lengths [OF d]
    have "usb_prepare_desc_data c s = cut_response (set_response d ?z)"
      using d unfolding usb_prepare_desc_data_def Let_def z by (auto simp: usb_descriptor_def split: if_splits)
    then show "pending (usb_prepare_desc_data c s) = take (unat (Length (control_request s))) d \<and> ctl_ok (usb_prepare_desc_data c s)
      \<and> g_stall (usb_prepare_desc_data c s) = g_stall s \<and> control_request (usb_prepare_desc_data c s) = control_request s"
      using set_response_props [OF l, of ?z] z by (simp add: pending_cut cut_frame ok_cut)
  }
  {
    assume d: "usb_descriptor c 0x80 (value_h s) (value_l s) i = None"
    have "usb_prepare_desc_data c s = cut_response (?z\<lparr>g_stall := True\<rparr>)"
      using d unfolding usb_prepare_desc_data_def Let_def z by (auto simp: usb_descriptor_def split: if_splits)
    then show "pending (usb_prepare_desc_data c s) = [] \<and> ctl_ok (usb_prepare_desc_data c s) \<and> g_stall (usb_prepare_desc_data c s)
      \<and> control_request (usb_prepare_desc_data c s) = control_request s"
      using assms by (simp add: cut_frame cut_response_def pending_def ctl_ok_def)
  }
qed

lemma intf_desc:
  assumes "length (ctl_buf s) = 8" and d: "usb_descriptor c 0x81 (value_h s) (value_l s) (index_l s) = Some d"
  shows "pending (usb_handle_std_intf_req c s) = take (unat (Length (control_request s))) d" "ctl_ok (usb_handle_std_intf_req c s)"
    "g_stall (usb_handle_std_intf_req c s) = g_stall s" "control_request (usb_handle_std_intf_req c s) = control_request s"
proof -
  note l = descriptor_lengths [OF d]
  have "USB_KEYBOARD_ENABLE c \<Longrightarrow> USB_INTF_KEYBOARD c \<noteq> USB_INTF_MOUSE c"
    by (simp add: USB_INTF_MOUSE_def)
  moreover have "index_l (set_response x s) = index_l s" for x
    by (simp add: index_l_def set_response_def)
  moreover have "HID_DTYPE_HID \<noteq> HID_DTYPE_Report"
    by (simp add: HID_DTYPE_HID_def HID_DTYPE_Report_def)
  ultimately have "usb_handle_std_intf_req c s = cut_response (set_response d s)"
    using d by (auto simp: usb_handle_std_intf_req_def usb_descriptor_def Let_def split: if_splits)
  then show "pending (usb_handle_std_intf_req c s) = take (unat (Length (control_request s))) d" "ctl_ok (usb_handle_std_intf_req c s)"
    "g_stall (usb_handle_std_intf_req c s) = g_stall s" "control_request (usb_handle_std_intf_req c s) = control_request s"
    using set_response_props [OF l, of s] assms(1) by (simp_all add: pending_cut cut_frame ok_cut)
qed

text \<open>The data stages that follow: the packet and the reply of each.\<close>

fun data_packets :: "usb_cfg \<Rightarrow> nat \<Rightarrow> usb_ctrl \<Rightarrow> ((u8 list \<times> u8) list \<times> usb_ctrl) option" where
  "data_packets c 0 s = Some ([], s)"
| "data_packets c (Suc n) s = do {
     s \<leftarrow> usb_handle_ctl_ep_data c s;
     (ps, s') \<leftarrow> data_packets c n s;
     Some ((in_packet s, reg_ctrl_ep_ctrl s) # ps, s') }"

definition desc_request :: "usb_ctrl \<Rightarrow> bool" where
  "desc_request s \<longleftrightarrow> (RequestType (control_request s) = 0x80 \<or> RequestType (control_request s) = 0x81)
     \<and> Request (control_request s) = REQ_GetDescriptor"

lemma reply_frame:
  "in_packet (data_reply s) = in_packet s" "pending (data_reply s) = pending s" "ctl_ok (data_reply s) = ctl_ok s"
  "control_request (data_reply s) = control_request s"
  by (simp_all add: data_reply_def in_packet_def pending_def ctl_ok_def)

lemma data_stage:
  assumes "ctl_ok s" and "desc_request s"
  shows "\<exists>s'. usb_handle_ctl_ep_data c s = Some s' \<and> ctl_ok s' \<and> desc_request s' \<and> in_packet s' = take 8 (pending s)
    \<and> pending s' = drop 8 (pending s) \<and> reg_ctrl_ep_ctrl s' = FLD_EP_DAT_ACK"
proof -
  let ?z = "s\<lparr>g_stall := False, ctl_ptr := 0\<rparr>"
  have z: "ctl_ok ?z" "pending ?z = pending s"
    using assms(1) by (simp_all add: ctl_ok_def pending_def)
  obtain s' where s': "usb_send_response ?z = Some s'" "ctl_ok s'" "in_packet s' = take 8 (pending ?z)" "pending s' = drop 8 (pending ?z)"
      "s' = ?z\<lparr>ctl_buf := ctl_buf s', ctl_ptr := ctl_ptr s', g_response := g_response s', g_response_len := g_response_len s'\<rparr>"
    using send_response [OF z(1)] by blast
  have same: "control_request s' = control_request s" "\<not> g_stall s'"
    using arg_cong [OF s'(5), of control_request] arg_cong [OF s'(5), of g_stall] by simp_all
  have "usb_handle_ctl_ep_data c s = Some (data_reply s')"
    using assms(2) s'(1) by (auto simp: usb_handle_ctl_ep_data_def usb_handle_request_def desc_request_def usbhw_reset_ctrl_ep_ptr_def Let_def)
  then show ?thesis
    using s'(2-4) same assms(2) z(2) by (simp add: reply_frame desc_request_def) (simp add: data_reply_def)
qed

lemma data_stages:
  assumes "ctl_ok s" and "desc_request s"
  shows "\<exists>s'. data_packets c n s = Some (map (\<lambda>k. (take 8 (drop (8 * k) (pending s)), FLD_EP_DAT_ACK)) [0..<n], s')"
  using assms
proof (induction n arbitrary: s)
  case (Suc n)
  obtain s1 where s1: "usb_handle_ctl_ep_data c s = Some s1" "ctl_ok s1" "desc_request s1" "in_packet s1 = take 8 (pending s)"
      "pending s1 = drop 8 (pending s)" "reg_ctrl_ep_ctrl s1 = FLD_EP_DAT_ACK"
    using data_stage [OF Suc.prems] by blast
  obtain s2 where "data_packets c n s1 = Some (map (\<lambda>k. (take 8 (drop (8 * k) (pending s1)), FLD_EP_DAT_ACK)) [0..<n], s2)"
    using Suc.IH [OF s1(2,3)] by blast
  moreover have "[0..<Suc n] = 0 # map Suc [0..<n]"
    by (simp only: upt_conv_Cons zero_less_Suc map_Suc_upt)
  ultimately show ?case
    using s1 by (simp del: upt_Suc add: add.commute)
qed simp

definition GetDescriptor_packet :: "u8 list \<Rightarrow> bool" where
  "GetDescriptor_packet p \<longleftrightarrow> length p = 8 \<and> (p ! 0 = 0x80 \<or> p ! 0 = 0x81) \<and> p ! 1 = REQ_GetDescriptor"

lemma setup_stage:
  assumes p: "GetDescriptor_packet (ctl_buf s)"
    and d: "usb_descriptor c (ctl_buf s ! 0) (ctl_buf s ! 3) (ctl_buf s ! 2) (ctl_buf s ! 4) = Some d"
  shows "\<exists>s'. usb_handle_ctl_ep_setup c s = Some s' \<and> ctl_ok s' \<and> desc_request s'
    \<and> in_packet s' = take 8 (take (unat (le16 (ctl_buf s ! 6) (ctl_buf s ! 7))) d)
    \<and> pending s' = drop 8 (take (unat (le16 (ctl_buf s ! 6) (ctl_buf s ! 7))) d) \<and> reg_ctrl_ep_ctrl s' = FLD_EP_DAT_ACK"
proof -
  let ?a = "after_setup s" and ?L = "unat (le16 (ctl_buf s ! 6) (ctl_buf s ! 7))"
  let ?z = "?a\<lparr>ctl_ptr := 0\<rparr>"
  have z: "length (ctl_buf ?z) = 8" "value_h ?z = ctl_buf s ! 3" "value_l ?z = ctl_buf s ! 2" "index_l ?z = ctl_buf s ! 4" "g_stall ?z = False"
      "unat (Length (control_request ?z)) = ?L" "control_request ?z = control_request ?a"
    using p setup_fields [of s] by (simp_all add: GetDescriptor_packet_def value_h_def value_l_def index_l_def after_setup_def)
  let ?r = "if ctl_buf s ! 0 = 0x80 then usb_prepare_desc_data c ?z else usb_handle_std_intf_req c ?z"
  have r: "pending ?r = take ?L d" "ctl_ok ?r" "\<not> g_stall ?r" "control_request ?r = control_request ?a"
    using prepare_desc(1) [OF z(1), of c _ d] intf_desc [OF z(1), of c d] d p z unfolding GetDescriptor_packet_def by auto
  obtain s' where s': "usb_send_response ?r = Some s'" "ctl_ok s'" "in_packet s' = take 8 (pending ?r)" "pending s' = drop 8 (pending ?r)"
      "s' = ?r\<lparr>ctl_buf := ctl_buf s', ctl_ptr := ctl_ptr s', g_response := g_response s', g_response_len := g_response_len s'\<rparr>"
    using send_response [OF r(2)] by blast
  have same: "control_request s' = control_request ?a" "\<not> g_stall s'"
    using arg_cong [OF s'(5), of control_request] arg_cong [OF s'(5), of g_stall] r(3,4) by (simp_all del: if_split)
  have "usb_handle_request c False ?a = Some s'"
    using s'(1) p setup_fields [of s]
    by (auto simp: usb_handle_request_def GetDescriptor_packet_def usbhw_reset_ctrl_ep_ptr_def Let_def)
  then have "usb_handle_ctl_ep_setup c s = Some (data_reply s')"
    using p by (simp add: setup_reads GetDescriptor_packet_def)
  moreover have "desc_request (data_reply s')"
    using p same(1) setup_fields [of s] by (auto simp: desc_request_def GetDescriptor_packet_def reply_frame)
  ultimately show ?thesis
    using s'(2-4) r(1) same(2) by (simp add: reply_frame del: if_split) (simp add: data_reply_def)
qed

text \<open>
  C31: A request for a descriptor that the device has is answered with that descriptor, cut to the length that
  the request gives: the setup stage sends the first eight bytes, each data stage the next, all of them are
  acknowledged, and when there are enough packets they make up the whole answer.
\<close>

theorem usb_descriptor_transfer:
  assumes "GetDescriptor_packet (ctl_buf s)"
    and "usb_descriptor c (ctl_buf s ! 0) (ctl_buf s ! 3) (ctl_buf s ! 2) (ctl_buf s ! 4) = Some d"
    and "r = take (unat (le16 (ctl_buf s ! 6) (ctl_buf s ! 7))) d" and "length r \<le> 8 * Suc n"
  shows "\<exists>s' ps s''. usb_handle_ctl_ep_setup c s = Some s' \<and> data_packets c n s' = Some (ps, s'')
    \<and> (in_packet s', reg_ctrl_ep_ctrl s') # ps = map (\<lambda>k. (take 8 (drop (8 * k) r), FLD_EP_DAT_ACK)) [0..<Suc n]
    \<and> concat (in_packet s' # map fst ps) = r"
proof -
  obtain s' where s': "usb_handle_ctl_ep_setup c s = Some s'" "ctl_ok s'" "desc_request s'" "in_packet s' = take 8 r"
      "pending s' = drop 8 r" "reg_ctrl_ep_ctrl s' = FLD_EP_DAT_ACK"
    using setup_stage [OF assms(1,2)] assms(3) by blast
  obtain s'' where s'': "data_packets c n s' = Some (map (\<lambda>k. (take 8 (drop (8 * k) (pending s')), FLD_EP_DAT_ACK)) [0..<n], s'')"
    using data_stages [OF s'(2,3)] by blast
  have up: "[0..<Suc n] = 0 # map Suc [0..<n]" for n
    by (simp only: upt_conv_Cons zero_less_Suc map_Suc_upt)
  have chunks: "concat (map (\<lambda>k. take 8 (drop (8 * k) xs)) [0..<m]) = take (8 * m) xs" for m and xs :: "u8 list"
  proof (induction m)
    case (Suc m)
    have "take (8 * Suc m) xs = take (8 * m) xs @ take 8 (drop (8 * m) xs)"
      using take_add [of "8 * m" 8 xs] by (simp add: add.commute)
    then show ?case
      using Suc by simp
  qed simp
  let ?f = "\<lambda>k. (take 8 (drop (8 * k) r), FLD_EP_DAT_ACK)"
  have all: "(in_packet s', reg_ctrl_ep_ctrl s') # map (\<lambda>k. (take 8 (drop (8 * k) (pending s')), FLD_EP_DAT_ACK)) [0..<n] = map ?f [0..<Suc n]"
    unfolding up using s'(4-6) by (simp add: add.commute)
  let ?ps = "map (\<lambda>k. (take 8 (drop (8 * k) (pending s')), FLD_EP_DAT_ACK)) [0..<n]"
  have "in_packet s' # map fst ?ps = map fst (map ?f [0..<Suc n])"
    unfolding all [symmetric] by simp
  also have "\<dots> = map (\<lambda>k. take 8 (drop (8 * k) r)) [0..<Suc n]"
    by (simp only: map_map o_def fst_conv)
  finally have "concat (in_packet s' # map fst ?ps) = take (8 * Suc n) r"
    using chunks [of r "Suc n"] by (simp only:)
  then have "concat (in_packet s' # map fst ?ps) = r"
    using assms(4) by simp
  with s'(1) s'' all show ?thesis
    by (intro exI [where x = s'] exI [where x = ?ps] exI [where x = s''] conjI)
qed


text \<open>A device with a keyboard and a mouse, and a request for sixty-four bytes of its configuration.\<close>

definition usb_demo_cfg :: usb_cfg where
  "usb_demo_cfg =
     \<lparr>USB_PRINTER_ENABLE = True, USB_SPEAKER_ENABLE = False, USB_MIC_ENABLE = True, USB_KEYBOARD_ENABLE = True,
      USB_MOUSE_ENABLE = True, USB_CUSTOM_HID_REPORT = True, IRQ_USB_PWDN_ENABLE = False,
      MIC_CHANNEL_COUNT = 1, MIC_RESOLUTION_BIT = 16, MIC_SAMPLE_RATE = 16000\<rparr>"

definition usb_ctrl_new :: "u8 list \<Rightarrow> usb_ctrl" where
  "usb_ctrl_new pkt =
     \<lparr>ctl_buf = pkt, ctl_ptr = 0, reg_ctrl_ep_ctrl = 0, reg_ctrl_ep_irq_mode = 0,
      control_request = \<lparr>RequestType = 0, Request = 0, Value = 0, Index = 0, Length = 0\<rparr>,
      g_response = [], g_response_len = 0, g_stall = False, host_keyboard_status = 0, host_cmd = replicate 8 0,
      host_cmd_pairing_ok = False, g_rate = 0, usb_alt_intf = replicate (unat (USB_INTF_MAX usb_demo_cfg)) 0,
      custom_read_dat = 0, custom_reg_cmd = False, core_reg = \<lambda>_. 0, ana_reg = \<lambda>_. 0,
      speaker_setting = \<lparr>vol_cur = 0, vol_step = 0, mute = 0\<rparr>, mic_setting = \<lparr>vol_cur = 0, vol_step = 0, mute = 0\<rparr>,
      usb_has_suspend_irq = False, hid_part = usb_hid_new\<rparr>"

definition get_configuration :: "u8 list" where
  "get_configuration = [0x80, 6, 0, 2, 0, 0, 64, 0]"

theorem usb_descriptor_transfer_witness:
  "\<exists>s' ps s''. usb_handle_ctl_ep_setup usb_demo_cfg (usb_ctrl_new get_configuration) = Some s' \<and> data_packets usb_demo_cfg 7 s' = Some (ps, s'')
    \<and> (in_packet s', reg_ctrl_ep_ctrl s') # ps
        = map (\<lambda>k. (take 8 (drop (8 * k) (take 64 (configuration_desc usb_demo_cfg))), FLD_EP_DAT_ACK)) [0..<Suc 7]
    \<and> concat (in_packet s' # map fst ps) = take 64 (configuration_desc usb_demo_cfg)"
proof (rule usb_descriptor_transfer)
  show "GetDescriptor_packet (ctl_buf (usb_ctrl_new get_configuration))"
    by (simp add: GetDescriptor_packet_def usb_ctrl_new_def get_configuration_def REQ_GetDescriptor_def)
  show "usb_descriptor usb_demo_cfg (ctl_buf (usb_ctrl_new get_configuration) ! 0) (ctl_buf (usb_ctrl_new get_configuration) ! 3)
      (ctl_buf (usb_ctrl_new get_configuration) ! 2) (ctl_buf (usb_ctrl_new get_configuration) ! 4) = Some (configuration_desc usb_demo_cfg)"
    by (simp add: usb_descriptor_def usb_ctrl_new_def get_configuration_def DTYPE_Configuration_def DTYPE_Device_def)
  show "take 64 (configuration_desc usb_demo_cfg) = take (unat (le16 (ctl_buf (usb_ctrl_new get_configuration) ! 6)
      (ctl_buf (usb_ctrl_new get_configuration) ! 7))) (configuration_desc usb_demo_cfg)"
    by (simp add: usb_ctrl_new_def get_configuration_def le16_def)
qed simp

text \<open>Requests for other descriptors are refused.\<close>

lemma usb_unknown_descriptor_stalls:
  assumes "length (ctl_buf s) = 8" and "ctl_buf s ! 0 = 0x80" and "ctl_buf s ! 1 = REQ_GetDescriptor"
    and "usb_descriptor c 0x80 (ctl_buf s ! 3) (ctl_buf s ! 2) (ctl_buf s ! 4) = None"
  shows "\<exists>s'. usb_handle_ctl_ep_setup c s = Some s' \<and> in_packet s' = [] \<and> reg_ctrl_ep_ctrl s' = FLD_EP_DAT_STALL"
proof -
  let ?a = "after_setup s"
  let ?z = "?a\<lparr>ctl_ptr := 0\<rparr>"
  have z: "length (ctl_buf ?z) = 8" "value_h ?z = ctl_buf s ! 3" "value_l ?z = ctl_buf s ! 2"
    using assms(1) setup_fields [of s] by (simp_all add: value_h_def value_l_def after_setup_def)
  let ?r = "usb_prepare_desc_data c ?z"
  have r: "pending ?r = []" "ctl_ok ?r" "g_stall ?r"
    using prepare_desc(2) [OF z(1), of c "ctl_buf s ! 4"] assms(4) z by simp_all
  obtain s' where s': "usb_send_response ?r = Some s'" "in_packet s' = take 8 (pending ?r)"
      "s' = ?r\<lparr>ctl_buf := ctl_buf s', ctl_ptr := ctl_ptr s', g_response := g_response s', g_response_len := g_response_len s'\<rparr>"
    using send_response [OF r(2)] by blast
  have "g_stall s'"
    using arg_cong [OF s'(3), of g_stall] r(3) by simp
  moreover have "usb_handle_request c False ?a = Some s'"
    using s'(1) assms(2,3) setup_fields [of s] by (simp add: usb_handle_request_def usbhw_reset_ctrl_ep_ptr_def Let_def)
  ultimately show ?thesis
    using s'(2) r(1) assms(1) by (simp add: setup_reads reply_frame) (simp add: data_reply_def)
qed

text \<open>A request for a HID descriptor of an interface that has none goes on with the old response: here with the rest of
  a device descriptor of which the host took one packet.\<close>

definition stale_demo :: "(u8 list \<times> u8) option" where
  "stale_demo = do {
     s \<leftarrow> usb_handle_ctl_ep_setup usb_demo_cfg (usb_ctrl_new [0x80, 6, 0, 1, 0, 0, 18, 0]);
     s \<leftarrow> usb_handle_ctl_ep_setup usb_demo_cfg (s\<lparr>ctl_buf := [0x81, 6, 0, 0x21, 0, 0, 9, 0]\<rparr>);
     Some (in_packet s, reg_ctrl_ep_ctrl s) }"

lemma usb_stale_response: "stale_demo = Some (take 8 (drop 8 (device_desc usb_demo_cfg)), FLD_EP_DAT_ACK)"
  by code_simp

end
