(* ===== verification/Usb_Ctrl_Safe.thy ===== *)
theory Usb_Ctrl_Safe
  imports Usb_Ctrl_Theorems
begin

text \<open>
  Every interrupt of the USB device is handled without leaving an array, whatever the host sends, if the
  host names only interfaces that exist; what happens otherwise; and what a host that writes volumes or
  registers reads back.
\<close>

section \<open>The HID part\<close>

definition hid_ok :: "usb_hid \<Rightarrow> bool" where
  "hid_ok h \<longleftrightarrow> fifo_ok h \<and> length (mouse_dat_buff h) = 8 \<and> list_all (\<lambda>r. length r = 4) (mouse_dat_buff h) \<and> usbmouse_rptr h < 8 \<and> usbmouse_wptr h < 8"

definition mouse_ring :: "usb_hid \<Rightarrow> u8 list list \<times> u8 \<times> u8" where
  "mouse_ring h = (mouse_dat_buff h, usbmouse_wptr h, usbmouse_rptr h)"

lemma ep_send_ring: "mouse_ring (ep_send ep bs h) = mouse_ring h" "fifo_ok (ep_send ep bs h) = fifo_ok h"
  by (simp_all add: mouse_ring_def ep_send_def fifo_ok_def rows_def Let_def)

lemma hid_ok_ring: "fifo_ok h' \<Longrightarrow> mouse_ring h' = mouse_ring h \<Longrightarrow> hid_ok h \<Longrightarrow> hid_ok h'"
  by (simp add: hid_ok_def mouse_ring_def)

lemma mouse_report_safe:
  assumes "fifo_ok h" and "length d = 4"
  shows "\<exists>b h'. usbmouse_hid_report i d 4 h = Some (b, h') \<and> fifo_ok h' \<and> mouse_ring h' = mouse_ring h"
proof (cases "usbhw_is_ep_busy 2 h")
  case True
  have "report_fits (Mouse_Report i d)" "usbhw_is_ep_busy (report_ep (Mouse_Report i d)) h"
    using assms(2) True by simp_all
  from queue_step [OF this assms(1)] obtain h' where h': "usbmouse_hid_report i d 4 h = Some (False, h')" "fifo_ok h'"
      "h' = h\<lparr>usb_fifo := usb_fifo h', usb_ff_wptr := usb_ff_wptr h', usb_ff_rptr := usb_ff_rptr h'\<rparr>"
    using assms(2) by auto
  have "mouse_ring h' = mouse_ring h"
    by (subst h'(3)) (simp add: mouse_ring_def)
  then show ?thesis
    using h' by blast
next
  case False
  then show ?thesis
    using assms by (intro exI [of _ True]) (simp add: usbmouse_hid_report_def USB_EDP_MOUSE_def get_bytes_def ep_send_ring)
qed

lemma report_frame_safe:
  assumes "hid_ok h"
  shows "\<exists>h'. usbmouse_report_frame now h = Some h' \<and> hid_ok h'"
proof (cases "usbmouse_wptr h = usbmouse_rptr h")
  case True
  then show ?thesis
    using assms by (simp add: usbmouse_report_frame_def)
next
  case False
  have r: "unat (usbmouse_rptr h) < 8"
    using assms by (simp add: hid_ok_def word_less_nat_alt)
  define d where "d = mouse_dat_buff h ! unat (usbmouse_rptr h)"
  have d: "get_byte (mouse_dat_buff h) (unat (usbmouse_rptr h)) = Some d" "length d = 4"
    using assms r by (simp_all add: hid_ok_def d_def get_byte_def list_all_length)
  obtain b h' where h': "usbmouse_hid_report USB_HID_MOUSE d 4 h = Some (b, h')" "fifo_ok h'" "mouse_ring h' = mouse_ring h"
    using mouse_report_safe [of h d USB_HID_MOUSE] assms d(2) by (auto simp: hid_ok_def)
  have ok: "hid_ok h'"
    using hid_ok_ring [OF h'(2,3) assms] .
  have "(usbmouse_rptr h' + 1) AND 7 < 8"
    by (simp add: word_less_nat_alt unat_and3)
  then show ?thesis
    using False d(1) h'(1) ok
    by (auto simp: usbmouse_report_frame_def MOUSE_REPORT_DATA_LEN_def hid_ok_def fifo_ok_def rows_def Let_def)
qed

lemma proc_safe:
  assumes "hid_ok h"
  shows "\<exists>b h'. usb_hid_report_fifo_proc h = Some (b, h') \<and> hid_ok h'"
proof (cases "usb_ff_rptr h = usb_ff_wptr h")
  case True
  then show ?thesis
    using assms proc_empty [OF True] by (intro exI [of _ False]) simp
next
  case False
  let ?h = "h\<lparr>usb_ff_rptr := usb_ff_rptr h + 1\<rparr>"
  have ok: "fifo_ok h"
    using assms by (simp add: hid_ok_def)
  obtain row where row: "get_byte (usb_fifo h) (unat (usb_ff_rptr h AND 3)) = Some row" "length row = 8" "row_ok row" "fifo_ok ?h"
    using fifo_front [OF ok False] by blast
  have hok: "hid_ok ?h"
    using row(4) assms by (simp add: hid_ok_def)
  have sent: "hid_ok (ep_send ep bs ?h)" for ep bs
    using hid_ok_ring [OF _ ep_send_ring(1) hok] row(4) by (simp add: ep_send_ring)
  have at: "get_byte row 0 = Some (row ! 0)" "get_byte row 1 = Some (row ! 1)" "get_byte row (Suc 0) = Some (row ! Suc 0)" "get_byte row 2 = Some (row ! 2)"
    using row(2) by (simp_all add: get_byte_def)
  show ?thesis
  proof (cases "usb_mouse_report_proto h = 0 \<and> row ! 0 = DAT_TYPE_MOUSE \<and> \<not> usbhw_is_ep_busy 2 h")
    case True
    then show ?thesis
      using row(1,2) at False sent
      by (intro exI [of _ True]) (simp add: usb_hid_report_fifo_proc_def usbmouse_hid_report_def DAT_TYPE_MOUSE_def DAT_TYPE_KB_def USB_FIFO_NUM_def
        USB_EDP_MOUSE_def get_bytes_def ep_send_frame rptr_after_send)
  next
    case other: False
    show ?thesis
    proof (cases "usb_mouse_report_proto h = 0")
      case False
      then show ?thesis
        using proc_front [OF row(1-3) \<open>usb_ff_rptr h \<noteq> usb_ff_wptr h\<close> False] assms sent by (auto simp: rptr_after_send)
    next
      case True
      then have "row ! 0 = DAT_TYPE_KB \<or> usbhw_is_ep_busy 2 h"
        using other row(3) by (auto simp: row_ok_def)
      then show ?thesis
        using row(1-3) at False sent assms
        by (auto simp: usb_hid_report_fifo_proc_def usbkb_hid_report_normal_def usbmouse_hid_report_def row_ok_def DAT_TYPE_MOUSE_def
          DAT_TYPE_KB_def USB_FIFO_NUM_def KEYBOARD_REPORT_KEY_MAX_def USB_EDP_KEYBOARD_IN_def USB_EDP_MOUSE_def get_bytes_def
          ep_send_frame rptr_after_send)
    qed
  qed
qed

lemma reset_safe: "hid_ok h \<Longrightarrow> hid_ok (usb_reset h)"
  by (simp add: hid_ok_def usb_reset_def fifo_ok_def rows_def)

section \<open>Requests\<close>

text \<open>What requests keep: the sizes of the arrays and the request itself.\<close>

definition usb_inv :: "usb_cfg \<Rightarrow> usb_ctrl \<Rightarrow> bool" where
  "usb_inv c s \<longleftrightarrow> ctl_ok s \<and> length (usb_alt_intf s) = unat (USB_INTF_MAX c) \<and> hid_ok (hid_part s)"

definition keeps :: "usb_cfg \<Rightarrow> usb_ctrl \<Rightarrow> usb_ctrl option \<Rightarrow> bool" where
  "keeps c s r \<longleftrightarrow> (\<exists>s'. r = Some s' \<and> usb_inv c s' \<and> control_request s' = control_request s)"

definition intf_request_ok :: "usb_cfg \<Rightarrow> USB_Request_Hdr \<Rightarrow> bool" where
  "intf_request_ok c r \<longleftrightarrow>
     (RequestType r = 0x81 \<and> Request r = REQ_GetInterface \<or> RequestType r = 0x01 \<and> Request r = REQ_SetInterface \<longrightarrow>
      unat ((ucast (Index r) :: u8) AND 7) < unat (USB_INTF_MAX c))"

lemma keepsI: "r = Some s' \<Longrightarrow> usb_inv c s' \<Longrightarrow> control_request s' = control_request s \<Longrightarrow> keeps c s r"
  by (simp add: keeps_def)

lemma inv_ptr: "usb_inv c (s\<lparr>ctl_ptr := p\<rparr>) = usb_inv c s" "usb_inv c (s\<lparr>g_stall := b\<rparr>) = usb_inv c s"
  by (simp_all add: usb_inv_def ctl_ok_def)

lemma write_keeps:
  assumes "usb_inv c s" and "ctl_ptr s + length bs \<le> 8"
  shows "\<exists>s'. write_ctrl_ep bs s = Some s' \<and> usb_inv c s' \<and> control_request s' = control_request s \<and> g_stall s' = g_stall s"
  using assms write_bytes [of s bs] by (simp add: usb_inv_def ctl_ok_def)

lemma write_one: "usbhw_write_ctrl_ep_data b s = write_ctrl_ep [b] s"
  by (cases "usbhw_write_ctrl_ep_data b s") simp_all

lemma send_keeps: "usb_inv c s \<Longrightarrow> keeps c s (usb_send_response s)"
proof -
  assume inv: "usb_inv c s"
  then have "ctl_ok s"
    by (simp add: usb_inv_def)
  then obtain s' where s': "usb_send_response s = Some s'" "ctl_ok s'"
      "s' = s\<lparr>ctl_buf := ctl_buf s', ctl_ptr := ctl_ptr s', g_response := g_response s', g_response_len := g_response_len s'\<rparr>"
    using send_response by blast
  have "usb_alt_intf s' = usb_alt_intf s" "hid_part s' = hid_part s" "control_request s' = control_request s"
    using arg_cong [OF s'(3), of usb_alt_intf] arg_cong [OF s'(3), of hid_part] arg_cong [OF s'(3), of control_request] by simp_all
  then show ?thesis
    using s' inv by (auto simp: keeps_def usb_inv_def)
qed

lemma set_response_inv: "length d < 65536 \<Longrightarrow> usb_inv c s \<Longrightarrow> usb_inv c (set_response d s)"
  using set_response_props(2) [of d s] by (simp add: usb_inv_def ctl_ok_def) (simp add: set_response_def)

lemma cut_inv: "usb_inv c s \<Longrightarrow> usb_inv c (cut_response s)"
  using ok_cut [of s] by (simp add: usb_inv_def) (simp add: cut_response_def)

lemma desc_lengths:
  "length (device_desc c) < 65536" "length (configuration_desc c) < 65536" "length language_desc < 65536"
  "length vendor_desc < 65536" "length product_desc < 65536" "length serial_desc < 65536" "length keyboard_report_desc < 65536"
  "length mouse_report_desc < 65536" "length usbdesc_get_keyboard < 65536" "length usbdesc_get_mouse < 65536"
  using total_length [of c] hid_report_lengths
  by (simp_all add: device_desc_def language_desc_def vendor_desc_def product_desc_def serial_desc_def string_desc_def
    keyboard_report_desc_def mouse_report_desc_def configuration_desc_def config_header_def)

lemma set_response_request: "control_request (set_response d s) = control_request s"
  by (simp add: set_response_def)

lemma prepare_inv: "usb_inv c s \<Longrightarrow> usb_inv c (usb_prepare_desc_data c s) \<and> control_request (usb_prepare_desc_data c s) = control_request s"
proof -
  assume "usb_inv c s"
  then have z: "usb_inv c (s\<lparr>g_response := [], g_response_len := 0\<rparr>)"
    by (simp add: usb_inv_def ctl_ok_def)
  show ?thesis
    unfolding usb_prepare_desc_data_def Let_def
    using z by (auto simp: cut_frame set_response_request inv_ptr intro!: cut_inv set_response_inv desc_lengths)
qed

lemma std_intf_inv: "usb_inv c s \<Longrightarrow> usb_inv c (usb_handle_std_intf_req c s) \<and> control_request (usb_handle_std_intf_req c s) = control_request s"
  unfolding usb_handle_std_intf_req_def Let_def
  by (auto simp: cut_frame set_response_request inv_ptr intro!: cut_inv set_response_inv desc_lengths)


text \<open>The registers of the chip are not part of the invariant.\<close>

definition same_usb :: "usb_ctrl \<Rightarrow> usb_ctrl \<Rightarrow> bool" where
  "same_usb s s' \<longleftrightarrow> ctl_buf s' = ctl_buf s \<and> ctl_ptr s' = ctl_ptr s \<and> g_response s' = g_response s \<and> g_response_len s' = g_response_len s
     \<and> g_stall s' = g_stall s \<and> usb_alt_intf s' = usb_alt_intf s \<and> hid_part s' = hid_part s \<and> control_request s' = control_request s
     \<and> mic_setting s' = mic_setting s \<and> speaker_setting s' = speaker_setting s"

lemma same_usb_inv: "same_usb s s' \<Longrightarrow> usb_inv c s' = usb_inv c s \<and> control_request s' = control_request s \<and> g_stall s' = g_stall s"
  by (simp add: same_usb_def usb_inv_def ctl_ok_def)

lemma read_core_same: "same_usb s (read_core_loop n a s)"
proof (induction n arbitrary: a s)
  case (Suc n)
  let ?s = "s\<lparr>custom_read_dat := drop_bit 8 (custom_read_dat s) OR push_bit 24 (ucast (core_reg s (reg_addr a)))\<rparr>"
  show ?case
    using Suc [of ?s "a + 1"] by (simp add: same_usb_def)
qed (simp add: same_usb_def)

lemma same_usb_trans: "same_usb s s' \<Longrightarrow> same_usb s' s'' \<Longrightarrow> same_usb s s''"
  by (simp add: same_usb_def)

lemma access_same: "same_usb s (register_access cmd adr s)"
  using read_core_same by (simp add: register_access_def Let_def write_core_def same_usb_def)

lemma custom_same: "same_usb s (custom_command cmd s)"
proof -
  define z where "z = s\<lparr>host_cmd := cmd, custom_reg_cmd := (cmd ! 1 AND 0xf0 = 0xc0)\<rparr>"
  define y where "y = z\<lparr>host_cmd := cmd[0 := 0]\<rparr>"
  have z: "same_usb s z" "same_usb s y" "same_usb s (re_enumerate y)"
    by (simp_all add: z_def y_def same_usb_def re_enumerate_def usb_dp_pullup_en_def Let_def)
  then have "same_usb s (register_access cmd a y)" "same_usb s (register_access cmd a (re_enumerate y))" for a
    using same_usb_trans [OF _ access_same] by blast+
  then show ?thesis
    unfolding custom_command_def Let_def z_def [symmetric] y_def [symmetric] using z(1) by simp
qed

lemma set_ep_inv: "usb_inv c (set_ep_ctrl ep v s) = usb_inv c s"
  by (simp add: set_ep_ctrl_def usb_inv_def ctl_ok_def hid_ok_def fifo_ok_def rows_def)

lemma field_inv:
  "usb_inv c (s\<lparr>host_keyboard_status := b\<rparr>) = usb_inv c s" "usb_inv c (s\<lparr>g_rate := b\<rparr>) = usb_inv c s"
  "usb_inv c (s\<lparr>hid_part := (hid_part s)\<lparr>usb_mouse_report_proto := b\<rparr>\<rparr>) = usb_inv c s"
  "usb_inv c (s\<lparr>mic_setting := a\<rparr>) = usb_inv c s" "usb_inv c (s\<lparr>speaker_setting := a\<rparr>) = usb_inv c s"
  by (simp_all add: usb_inv_def ctl_ok_def hid_ok_def fifo_ok_def rows_def)

lemma hid_ok_fields: "hid_ok (h\<lparr>usb_mouse_report_proto := b\<rparr>) = hid_ok h" "hid_ok (h\<lparr>ep_ctrl := f\<rparr>) = hid_ok h"
  by (simp_all add: hid_ok_def fifo_ok_def rows_def)

lemma set_ep_request: "control_request (set_ep_ctrl ep v s) = control_request s" "g_stall (set_ep_ctrl ep v s) = g_stall s"
  by (simp_all add: set_ep_ctrl_def)

text \<open>Nothing has been read from the buffer when a class request is unknown.\<close>

lemma class_out_hid_safe:
  assumes "usb_inv c s" and "ctl_ptr s = 0" and "\<not> g_stall s"
  shows "\<exists>s'. class_out_hid c dr s = Some s' \<and> usb_inv c s' \<and> control_request s' = control_request s \<and> (g_stall s' \<longrightarrow> ctl_ptr s' = 0)"
proof -
  have len: "length (ctl_buf s) = 8"
    using assms(1) by (simp add: usb_inv_def ctl_ok_def)
  then have r: "usbhw_read_ctrl_ep_data s = Some (ctl_buf s ! 0, s\<lparr>ctl_ptr := 1\<rparr>)"
    using assms(2) by (simp add: read_data)
  have g: "get_bytes (ctl_buf s) 0 8 = Some (ctl_buf s)"
    using len by (simp add: get_bytes_def)
  have cc: "usb_inv c (custom_command cmd (s\<lparr>ctl_ptr := 8\<rparr>)) \<and> control_request (custom_command cmd (s\<lparr>ctl_ptr := 8\<rparr>)) = control_request s
      \<and> \<not> g_stall (custom_command cmd (s\<lparr>ctl_ptr := 8\<rparr>))" for cmd
    using same_usb_inv [OF custom_same [of "s\<lparr>ctl_ptr := 8\<rparr>" cmd]] assms(1,3) by (simp add: inv_ptr)
  show ?thesis
    using assms cc unfolding class_out_hid_def Let_def
    by (simp add: r g set_ep_inv set_ep_request value_h_def value_l_def) (simp add: usb_inv_def ctl_ok_def hid_ok_fields)
qed

lemma set_cmd_safe:
  assumes "usb_inv c s" and "ctl_ptr s = 0"
  shows "\<exists>b s'. usbaud_handle_set_speaker_cmd t s = Some (b, s') \<and> usb_inv c s' \<and> control_request s' = control_request s"
    and "\<exists>b s'. usbaud_handle_set_mic_cmd t s = Some (b, s') \<and> usb_inv c s' \<and> control_request s' = control_request s"
proof -
  have len: "length (ctl_buf s) = 8"
    using assms(1) by (simp add: usb_inv_def ctl_ok_def)
  show "\<exists>b s'. usbaud_handle_set_speaker_cmd t s = Some (b, s') \<and> usb_inv c s' \<and> control_request s' = control_request s"
    using assms len by (auto simp: usbaud_handle_set_speaker_cmd_def read_data read_u16 usbaud_set_speaker_vol_def field_inv inv_ptr)
  show "\<exists>b s'. usbaud_handle_set_mic_cmd t s = Some (b, s') \<and> usb_inv c s' \<and> control_request s' = control_request s"
    using assms len by (auto simp: usbaud_handle_set_mic_cmd_def read_data read_u16 usbaud_set_mic_vol_def field_inv inv_ptr)
qed

lemma class_out_safe:
  assumes "usb_inv c s" and "ctl_ptr s = 0" and "\<not> g_stall s"
  shows "keeps c s (usb_handle_out_class_intf_req c dr s)"
proof -
  obtain s1 where s1: "class_out_hid c dr s = Some s1" "usb_inv c s1" "control_request s1 = control_request s" "g_stall s1 \<longrightarrow> ctl_ptr s1 = 0"
    using class_out_hid_safe [OF assms] by blast
  have "keeps c s1 (class_out_audio s1)"
  proof (cases "g_stall s1")
    case True
    let ?z = "s1\<lparr>g_stall := False\<rparr>"
    have z: "usb_inv c ?z" "ctl_ptr ?z = 0"
      using s1 True by (simp_all add: inv_ptr)
    obtain a x b y where set: "usbaud_handle_set_speaker_cmd (value_h ?z) ?z = Some (a, x)" "usb_inv c x" "control_request x = control_request ?z"
        "usbaud_handle_set_mic_cmd (value_h ?z) ?z = Some (b, y)" "usb_inv c y" "control_request y = control_request ?z"
      using set_cmd_safe [OF z] by blast
    have same: "value_h ?z = value_h s1" "entity ?z = entity s1"
      by (simp_all add: value_h_def entity_def)
    show ?thesis
      unfolding class_out_audio_def Let_def keeps_def
      using True set s1(2) by (simp add: same inv_ptr)
  next
    case False
    then show ?thesis
      using s1(2) by (simp add: class_out_audio_def keeps_def)
  qed
  then show ?thesis
    using s1 by (auto simp: usb_handle_out_class_intf_req_def keeps_def)
qed

lemma write_one_keeps:
  assumes "usb_inv c s" and "ctl_ptr s < 8"
  shows "\<exists>s'. usbhw_write_ctrl_ep_data b s = Some s' \<and> usb_inv c s' \<and> control_request s' = control_request s \<and> g_stall s' = g_stall s"
  unfolding write_one using write_keeps [OF assms(1), of "[b]"] assms(2) by (simp del: write_ctrl_ep.simps)

lemma class_in_hid_safe:
  assumes "usb_inv c s" and "ctl_ptr s = 0" and "\<not> g_stall s"
  shows "\<exists>s'. class_in_hid c s = Some s' \<and> usb_inv c s' \<and> control_request s' = control_request s \<and> (g_stall s' \<longrightarrow> ctl_ptr s' = 0)"
proof -
  have one: "\<exists>s'. usbhw_write_ctrl_ep_data b s = Some s' \<and> usb_inv c s' \<and> control_request s' = control_request s \<and> (g_stall s' \<longrightarrow> ctl_ptr s' = 0)" for b
    using write_one_keeps [OF assms(1), of b] assms(2,3) by auto
  have all: "\<exists>s'. write_ctrl_ep (custom_answer s) s = Some s' \<and> usb_inv c s' \<and> control_request s' = control_request s \<and> (g_stall s' \<longrightarrow> ctl_ptr s' = 0)"
    using write_keeps [OF assms(1), of "custom_answer s"] assms(2,3) by (auto simp: custom_answer_def UINT32_TO_BSTREAM_def)
  show ?thesis
    using one all assms by (simp add: class_in_hid_def inv_ptr Let_def)
qed

lemma get_cmd_safe:
  assumes "usb_inv c s" and "ctl_ptr s = 0"
  shows "\<exists>b s'. get_cmd req t a vmin vmax vres s = Some (b, s') \<and> usb_inv c s' \<and> control_request s' = control_request s"
proof -
  have "\<exists>b s'. do { s \<leftarrow> usbhw_write_ctrl_ep_data x s; Some (True, s) } = Some (b, s') \<and> usb_inv c s' \<and> control_request s' = control_request s" for x
    using write_one_keeps [OF assms(1), of x] assms(2) by auto
  moreover have "\<exists>b s'. do { s \<leftarrow> usbhw_write_ctrl_ep_u16 x s; Some (True, s) } = Some (b, s') \<and> usb_inv c s' \<and> control_request s' = control_request s" for x
    using write_keeps [OF assms(1), of "[ucast x, ucast (drop_bit 8 x)]"] assms(2) by (auto simp: usbhw_write_ctrl_ep_u16_def simp del: write_ctrl_ep.simps)
  ultimately show ?thesis
    using assms(1) by (cases "get_volume req a vmin vmax vres") (auto simp: get_cmd_def)
qed

lemma class_in_safe:
  assumes "usb_inv c s" and "ctl_ptr s = 0" and "\<not> g_stall s"
  shows "keeps c s (usb_handle_in_class_intf_req c s)"
proof -
  obtain s1 where s1: "class_in_hid c s = Some s1" "usb_inv c s1" "control_request s1 = control_request s" "g_stall s1 \<longrightarrow> ctl_ptr s1 = 0"
    using class_in_hid_safe [OF assms] by blast
  have "keeps c s1 (class_in_audio s1)"
  proof (cases "g_stall s1")
    case True
    let ?z = "s1\<lparr>g_stall := False\<rparr>"
    have z: "usb_inv c ?z" "ctl_ptr ?z = 0"
      using s1 True by (simp_all add: inv_ptr)
    obtain a x b y where got:
        "usbaud_handle_get_speaker_cmd (Request (control_request s1)) (value_h s1) ?z = Some (a, x)" "usb_inv c x" "control_request x = control_request ?z"
        "usbaud_handle_get_mic_cmd (Request (control_request s1)) (value_h s1) ?z = Some (b, y)" "usb_inv c y" "control_request y = control_request ?z"
      unfolding usbaud_handle_get_speaker_cmd_def usbaud_handle_get_mic_cmd_def using get_cmd_safe [OF z] by metis
    have same: "value_h ?z = value_h s1" "entity ?z = entity s1"
      by (simp_all add: value_h_def entity_def)
    show ?thesis
      unfolding class_in_audio_def Let_def keeps_def
      using True got s1(2) by (simp add: same inv_ptr)
  next
    case False
    then show ?thesis
      using s1(2) by (simp add: class_in_audio_def keeps_def)
  qed
  then show ?thesis
    using s1 by (auto simp: usb_handle_in_class_intf_req_def keeps_def)
qed

lemma in_class_endp_safe:
  assumes "usb_inv c s" and "ctl_ptr s = 0"
  shows "keeps c s (usb_handle_in_class_endp_req c s)"
proof -
  have "keeps c s (write_ctrl_ep [x, y, z] s)" for x y z
    using write_keeps [OF assms(1), of "[x, y, z]"] assms(2) by (auto simp: keeps_def)
  then show ?thesis
    using assms(1) by (simp add: usb_handle_in_class_endp_req_def keeps_def)
qed

lemma intf_safe:
  assumes "usb_inv c s" and "ctl_ptr s = 0" and "unat (index_l s AND 7) < unat (USB_INTF_MAX c)"
  shows "keeps c s (usb_handle_set_intf c s)" and "keeps c s (usb_handle_get_intf s)"
proof -
  have i: "unat (index_l s AND 7) < length (usb_alt_intf s)"
    using assms(1,3) by (simp add: usb_inv_def)
  define alts where "alts = (usb_alt_intf s)[unat (index_l s AND 7) := value_l s]"
  let ?s = "s\<lparr>usb_alt_intf := alts\<rparr>"
  have inv: "usb_inv c ?s"
    using assms(1) by (simp add: usb_inv_def ctl_ok_def alts_def)
  have put: "put_byte (usb_alt_intf s) (unat (index_l s AND 7)) (value_l s) = Some alts"
    using i by (simp add: put_byte_def alts_def)
  show "keeps c s (usb_handle_set_intf c s)"
    using inv assms(1) by (simp add: usb_handle_set_intf_def put keeps_def set_ep_inv set_ep_request Let_def)
  show "keeps c s (usb_handle_get_intf s)"
    using write_one_keeps [OF assms(1), of "usb_alt_intf s ! unat (index_l s AND 7)"] assms(2) i
    by (auto simp: usb_handle_get_intf_def keeps_def get_byte_def)
qed

lemma request_safe:
  assumes inv: "usb_inv c s" and "\<not> g_stall s" and ok: "intf_request_ok c (control_request s)"
  shows "keeps c s (usb_handle_request c d s)"
proof -
  let ?z = "s\<lparr>ctl_ptr := 0\<rparr>"
  have z: "usb_inv c ?z" "ctl_ptr ?z = 0" "\<not> g_stall ?z" "control_request ?z = control_request s"
    using assms by (simp_all add: inv_ptr)
  have chain: "keeps c ?z r \<Longrightarrow> keeps c s r" for r
    using z(4) by (simp add: keeps_def)
  have desc: "keeps c s (usb_send_response (if d then ?z else usb_prepare_desc_data c ?z))"
      "keeps c s (usb_send_response (if d then ?z else usb_handle_std_intf_req c ?z))"
    using send_keeps [OF z(1)] prepare_inv [OF z(1)] std_intf_inv [OF z(1)] send_keeps [of c "usb_prepare_desc_data c ?z"]
      send_keeps [of c "usb_handle_std_intf_req c ?z"] z(4) by (auto simp: keeps_def)
  have i: "unat (index_l ?z AND 7) < unat (USB_INTF_MAX c)" if "RequestType (control_request s) = 0x81 \<and> Request (control_request s) = REQ_GetInterface
      \<or> RequestType (control_request s) = 0x01 \<and> Request (control_request s) = REQ_SetInterface"
    using ok that by (simp add: intf_request_ok_def index_l_def)
  have same: "keeps c s (Some ?z)" "keeps c s (Some (?z\<lparr>g_stall := True\<rparr>))"
    using inv by (simp_all add: keeps_def inv_ptr)
  have get: "keeps c s (usb_handle_get_intf ?z)" if "RequestType (control_request s) = 0x81" "Request (control_request s) = REQ_GetInterface"
    using chain [OF intf_safe(2) [OF z(1,2) i]] that by simp
  have set: "keeps c s (usb_handle_set_intf c ?z)" if "RequestType (control_request s) = 0x01" "Request (control_request s) = REQ_SetInterface"
    using chain [OF intf_safe(1) [OF z(1,2) i]] that by simp
  note parts = desc same get set chain [OF class_out_safe [OF z(1-3)]] chain [OF class_in_safe [OF z(1-3)]] chain [OF in_class_endp_safe [OF z(1,2)]]
  show ?thesis
    unfolding usb_handle_request_def Let_def usbhw_reset_ctrl_ep_ptr_def
    using parts by simp
qed

section \<open>Interrupts\<close>

definition usb_wf :: "usb_cfg \<Rightarrow> usb_ctrl \<Rightarrow> bool" where
  "usb_wf c s \<longleftrightarrow> usb_inv c s \<and> intf_request_ok c (control_request s)"

lemma reply_inv: "usb_inv c (data_reply s) = usb_inv c s" "usb_inv c (usb_handle_ctl_ep_status s) = usb_inv c s"
  "control_request (data_reply s) = control_request s" "control_request (usb_handle_ctl_ep_status s) = control_request s"
  by (simp_all add: data_reply_def usb_handle_ctl_ep_status_def usb_inv_def ctl_ok_def)

lemma request_wf:
  assumes "usb_inv c s" and "\<not> g_stall s" and "intf_request_ok c (control_request s)"
  shows "\<exists>s'. do { s \<leftarrow> usb_handle_request c d s; Some (data_reply s) } = Some s' \<and> usb_wf c s'"
  using request_safe [OF assms, of d] assms(3) by (auto simp: keeps_def usb_wf_def reply_inv)

lemma setup_wf:
  assumes "usb_inv c s" and "intf_request_ok c (setup_req (ctl_buf s))"
  shows "\<exists>s'. usb_handle_ctl_ep_setup c s = Some s' \<and> usb_wf c s'"
proof -
  have "length (ctl_buf s) = 8"
    using assms(1) by (simp add: usb_inv_def ctl_ok_def)
  moreover have "usb_inv c (after_setup s)" "\<not> g_stall (after_setup s)" "intf_request_ok c (control_request (after_setup s))"
    using assms by (simp_all add: after_setup_def usb_inv_def ctl_ok_def)
  ultimately show ?thesis
    using request_wf [of c "after_setup s" False] by (simp add: setup_reads)
qed

lemma data_wf: "usb_wf c s \<Longrightarrow> \<exists>s'. usb_handle_ctl_ep_data c s = Some s' \<and> usb_wf c s'"
  unfolding usb_handle_ctl_ep_data_def usbhw_reset_ctrl_ep_ptr_def
  by (rule request_wf) (simp_all add: usb_wf_def usb_inv_def ctl_ok_def)

text \<open>What the host and the application do: a packet from the host arrives in the control endpoint, an interrupt is handled,
  the host takes a report, frames of the mouse arrive.\<close>

datatype usb_event =
    Host_Packet "u8 list"
  | Usb_Irq u32 u8 bool bool
  | Host_Takes nat
  | Mouse_Frames u8 "u8 list"

fun usb_step :: "usb_cfg \<Rightarrow> usb_event \<Rightarrow> usb_ctrl \<Rightarrow> usb_ctrl option" where
  "usb_step c (Host_Packet p) s = Some (s\<lparr>ctl_buf := p\<rparr>)"
| "usb_step c (Usb_Irq now irq reset pwdn) s = usb_handle_irq c now irq reset pwdn s"
| "usb_step c (Host_Takes ep) s = Some (s\<lparr>hid_part := host_take ep (hid_part s)\<rparr>)"
| "usb_step c (Mouse_Frames pno dat) s = do { h \<leftarrow> usbmouse_add_frame pno dat (hid_part s); Some (s\<lparr>hid_part := h\<rparr>) }"

fun usb_env :: "usb_cfg \<Rightarrow> usb_event \<Rightarrow> usb_ctrl \<Rightarrow> bool" where
  "usb_env c (Host_Packet p) s = (length p = 8)"
| "usb_env c (Usb_Irq now irq reset pwdn) s = (irq AND 0x10 \<noteq> 0 \<longrightarrow> intf_request_ok c (setup_req (ctl_buf s)))"
| "usb_env c (Host_Takes ep) s = True"
| "usb_env c (Mouse_Frames pno dat) s = (4 * unat pno \<le> length dat)"

lemma wf_hid: "hid_ok h \<Longrightarrow> usb_wf c s \<Longrightarrow> usb_wf c (s\<lparr>hid_part := h\<rparr>)"
  by (simp add: usb_wf_def usb_inv_def ctl_ok_def)

lemma wf_hid_ok: "usb_wf c s \<Longrightarrow> hid_ok (hid_part s)"
  by (simp add: usb_wf_def usb_inv_def)

lemma add_frame_safe: "hid_ok h \<Longrightarrow> 4 * (i + n) \<le> length dat \<Longrightarrow> \<exists>h'. add_frame_loop dat i n h = Some h' \<and> hid_ok h'"
proof (induction n arbitrary: i h)
  case (Suc n)
  define d where "d = take 4 (drop (i * 4) dat)"
  have d: "get_bytes dat (i * MOUSE_REPORT_DATA_LEN) MOUSE_REPORT_DATA_LEN = Some d" "length d = 4"
    using Suc.prems(2) by (simp_all add: get_bytes_def MOUSE_REPORT_DATA_LEN_def d_def)
  let ?rows = "(mouse_dat_buff h)[unat (usbmouse_wptr h) := d]"
  have rows: "put_byte (mouse_dat_buff h) (unat (usbmouse_wptr h)) d = Some ?rows"
    using Suc.prems(1) by (simp add: put_byte_def hid_ok_def word_less_nat_alt)
  let ?h = "h\<lparr>mouse_dat_buff := ?rows, usbmouse_wptr := (usbmouse_wptr h + 1) AND 7\<rparr>"
  have ok: "hid_ok ?h"
    using Suc.prems(1) d(2) unat_and3 [of "usbmouse_wptr h + 1"]
    by (auto simp: hid_ok_def fifo_ok_def rows_def word_less_nat_alt list_all_iff dest: set_update_subset_insert [THEN subsetD])
  show ?case
    using Suc.IH [OF ok, of "i + 1"] Suc.prems(2) ok by (auto simp: d(1) rows Let_def)
qed simp

lemma irq_safe:
  assumes "usb_wf c s" and "irq AND 0x10 \<noteq> 0 \<longrightarrow> intf_request_ok c (setup_req (ctl_buf s))"
  shows "\<exists>s'. usb_handle_irq c now irq reset pwdn s = Some s' \<and> usb_wf c s'"
proof -
  obtain s1 where s1: "(if irq AND 0x10 \<noteq> 0 then usb_handle_ctl_ep_setup c s else Some s) = Some s1" "usb_wf c s1"
    using assms setup_wf [of c s] by (cases "irq AND 0x10 = 0") (auto simp: usb_wf_def)
  obtain s2 where s2: "(if irq AND 0x20 \<noteq> 0 then usb_handle_ctl_ep_data c s1 else Some s1) = Some s2" "usb_wf c s2"
    using s1(2) data_wf by (cases "irq AND 0x20 = 0") auto
  define s3 where "s3 = (if irq AND 0x40 \<noteq> 0 then usb_handle_ctl_ep_status s2 else s2)"
  have s3: "usb_wf c s3"
    using s2(2) by (simp add: s3_def usb_wf_def reply_inv)
  define s4 where "s4 = (if reset then s3\<lparr>hid_part := usb_reset (hid_part s3)\<rparr> else s3)"
  have s4: "usb_wf c s4"
    using s3 wf_hid [OF reset_safe [OF wf_hid_ok [OF s3]] s3] by (simp add: s4_def)
  define s5 where "s5 = s4\<lparr>usb_has_suspend_irq := (IRQ_USB_PWDN_ENABLE c \<and> pwdn)\<rparr>"
  have s5: "usb_wf c s5"
    using s4 by (simp add: s5_def usb_wf_def usb_inv_def ctl_ok_def)
  obtain h where h: "(if USB_MOUSE_ENABLE c then usbmouse_report_frame now (hid_part s5) else Some (hid_part s5)) = Some h" "hid_ok h"
    using report_frame_safe [OF wf_hid_ok [OF s5]] wf_hid_ok [OF s5] by (cases "USB_MOUSE_ENABLE c") auto
  obtain b h' where h': "usb_hid_report_fifo_proc h = Some (b, h')" "hid_ok h'"
    using proc_safe [OF h(2)] by blast
  have "usb_handle_irq c now irq reset pwdn s = (if pwdn then Some s5 else Some (s5\<lparr>hid_part := h'\<rparr>))"
    unfolding usb_handle_irq_def s1(1) Option.bind.bind_lunit s2(1) Let_def
    unfolding s3_def [symmetric] unfolding s4_def [symmetric] unfolding s5_def [symmetric] h(1) Option.bind.bind_lunit h'(1)
    by simp
  then show ?thesis
    using s5 wf_hid [OF h'(2) s5] by simp
qed

lemma usb_step_safe: "usb_wf c s \<Longrightarrow> usb_env c e s \<Longrightarrow> \<exists>s'. usb_step c e s = Some s' \<and> usb_wf c s'"
proof (cases e)
  case (Host_Packet p)
  assume "usb_wf c s" "usb_env c e s"
  then show ?thesis
    by (simp add: Host_Packet usb_wf_def usb_inv_def ctl_ok_def)
next
  case (Usb_Irq now irq reset pwdn)
  assume "usb_wf c s" "usb_env c e s"
  then show ?thesis
    using irq_safe unfolding Usb_Irq usb_step.simps usb_env.simps by blast
next
  case (Host_Takes ep)
  assume wf: "usb_wf c s"
  have "hid_ok (host_take ep (hid_part s))"
    using wf_hid_ok [OF wf] by (simp add: host_take_def hid_ok_fields)
  then show ?thesis
    using wf_hid wf by (simp add: Host_Takes)
next
  case (Mouse_Frames pno dat)
  assume wf: "usb_wf c s" and "usb_env c e s"
  then obtain h where "usbmouse_add_frame pno dat (hid_part s) = Some h" "hid_ok h"
    using add_frame_safe [OF wf_hid_ok [OF wf], of 0 "unat pno" dat] by (auto simp: Mouse_Frames usbmouse_add_frame_def)
  then show ?thesis
    using wf_hid wf by (simp add: Mouse_Frames)
qed

interpretation usb: safe_system "usb_step c" "usb_env c" "usb_wf c" for c
  by unfold_locales (rule usb_step_safe)

text \<open>
  C30: The interrupt handler of the USB device and the functions it calls are safe for every sequence of packets of the
  host, of bytes in them, of interrupts, of reports that the host takes and of mouse frames: no access
  is outside the endpoint buffer, a descriptor, the table of alternate settings or a ring, as long as
  the requests for alternate settings name interfaces that the device has.
\<close>

theorem usb_events_safe:
  assumes "usb_wf c s" and "admissible (usb_step c) (usb_env c) es s"
  shows "\<exists>s'. run (usb_step c) es s = Some s' \<and> usb_wf c s'"
  using assms by (rule usb.run_safe)

definition usb_demo_events :: "usb_event list" where
  "usb_demo_events =
     [Host_Packet get_configuration, Usb_Irq 0 0x10 False False, Usb_Irq 1 0x20 False False, Usb_Irq 2 0x40 False False,
      Host_Packet [0x01, 11, 1, 0, 1, 0, 0, 0], Usb_Irq 3 0x50 False False,
      Mouse_Frames 2 [1, 2, 3, 4, 0, 0, 0, 0], Usb_Irq 4 0 False False, Host_Takes 2, Usb_Irq 5 0 True False]"

lemma usb_new_wf: "usb_wf usb_demo_cfg (usb_ctrl_new (replicate 8 0))"
  by (simp add: usb_wf_def usb_inv_def ctl_ok_def hid_ok_def fifo_ok_def rows_def ring_of_def usb_ctrl_new_def usb_hid_new_def usb_reset_def
    intf_request_ok_def list_all_iff)

theorem usb_events_safe_witness:
  "\<exists>s'. run (usb_step usb_demo_cfg) usb_demo_events (usb_ctrl_new (replicate 8 0)) = Some s' \<and> usb_wf usb_demo_cfg s'"
  by (rule usb_events_safe [OF usb_new_wf]) code_simp

text \<open>Without that condition the interrupt handler writes beyond the table: the index of the request is only cut to
  three bits, and the table has an entry for each interface.\<close>

lemma usb_set_interface_beyond:
  assumes "length (ctl_buf s) = 8" and "ctl_buf s ! 0 = 0x01" and "ctl_buf s ! 1 = REQ_SetInterface"
    and "USB_MIC_ENABLE c \<or> USB_SPEAKER_ENABLE c" and "length (usb_alt_intf s) \<le> unat (ctl_buf s ! 4 AND 7)"
  shows "usb_handle_ctl_ep_setup c s = None"
proof -
  let ?z = "(after_setup s)\<lparr>ctl_ptr := 0\<rparr>"
  have "index_l ?z = ctl_buf s ! 4" "usb_alt_intf ?z = usb_alt_intf s"
    using setup_fields(3) [of s] by (simp_all add: index_l_def after_setup_def)
  then have "usb_handle_set_intf c ?z = None"
    using assms(4,5) by (simp add: usb_handle_set_intf_def put_byte_def Let_def)
  then show ?thesis
    using assms setup_fields [of s] by (simp add: setup_reads usb_handle_request_def usbhw_reset_ctrl_ep_ptr_def Let_def)
qed

end
