(* ===== verification/Usb_Ctrl_Rt.thy ===== *)
theory Usb_Ctrl_Rt
  imports Usb_Ctrl_Safe
begin

text \<open>
  What the host reads back from the control endpoint (definitions in theory Usb_Ctrl): the registers it
  wrote with the custom report, and the volume it set, with the steps and the byte that the audio
  driver takes from that volume.
\<close>

section \<open>Volumes\<close>

lemma step_word: "0 \<le> n \<Longrightarrow> n \<le> 57343 \<Longrightarrow> uint (of_int (n div 0x180) :: u16) = n div 0x180"
proof -
  assume n: "0 \<le> n" "n \<le> 57343"
  then have "0 \<le> n div 0x180" "n div 0x180 \<le> 149"
    by simp_all
  then show ?thesis
    by (simp add: uint_word_of_int take_bit_eq_mod)
qed

lemma sint16_le: "sint (v :: u16) \<le> 32767"
  using sint_lt [of v] by simp

lemma volume_steps:
  "uint (usbaud_cal_mic_step v) = max 0 (sint v) div 0x180"
  "uint (usbaud_cal_speaker_step v) = max 0 (sint v + 24576) div 0x180"
  using sint16_le [of v] step_word [of "sint v"] step_word [of "sint v + 24576"]
  by (simp_all add: usbaud_cal_mic_step_def usbaud_cal_speaker_step_def MIC_VOL_MIN_def SPEAKER_VOL_MIN_def max_def)

lemma volume_byte: "uint (push_bit 7 (m :: u8) OR (ucast (s :: u16) AND 0x7f)) = 128 * (uint m mod 2) + uint s mod 128"
proof -
  have "uint (push_bit 7 m) = push_bit 7 (take_bit 1 (uint m))"
    by (simp add: unsigned_push_bit_eq take_bit_push_bit)
  moreover have "uint (ucast s AND 0x7f :: u8) = take_bit 7 (uint s)"
  proof -
    have "ucast s AND 0x7f = (take_bit 7 (ucast s) :: u8)"
      by (simp add: take_bit_eq_mask mask_eq_exp_minus_1)
    then show ?thesis
      by (simp add: unsigned_take_bit_eq unsigned_ucast_eq)
  qed
  ultimately have "uint (push_bit 7 m OR (ucast s AND 0x7f)) = concat_bit 7 (uint s) (take_bit 1 (uint m))"
    by (simp only: unsigned_or_eq concat_bit_def or.commute)
  then show ?thesis
    by (simp add: concat_bit_eq take_bit_eq_mod push_bit_eq_mult)
qed

text \<open>
  C36: For every volume that the host sends, also one outside the range that the device reports, the step is the
  number of whole steps of 1.5 dB (0x180) from the lowest volume up to it, and 0 for a volume below the lowest one: at most 85
  for the microphone, at most 66 for the speaker up to the maximum that the device reports, and at most 149 above it.
  The byte that the audio driver reads has the step of the microphone and the low bit of its mute
  state; the step of the speaker is cut to seven bits, which only a volume above the maximum exceeds.
\<close>

theorem usbaud_volume_bounds:
  assumes "ctl_ptr s + 1 < length (ctl_buf s)" and "v = le16 (ctl_buf s ! ctl_ptr s) (ctl_buf s ! (ctl_ptr s + 1))"
  shows "\<exists>sm ss. usbaud_handle_set_mic_cmd AUDIO_FEATURE_VOLUME s = Some (True, sm)
      \<and> usbaud_handle_set_speaker_cmd AUDIO_FEATURE_VOLUME s = Some (True, ss)
      \<and> 0x180 * uint (vol_step (mic_setting sm)) \<le> max 0 (sint v - sint MIC_VOL_MIN)
      \<and> max 0 (sint v - sint MIC_VOL_MIN) < 0x180 * (uint (vol_step (mic_setting sm)) + 1)
      \<and> 0x180 * uint (vol_step (speaker_setting ss)) \<le> max 0 (sint v - sint SPEAKER_VOL_MIN)
      \<and> max 0 (sint v - sint SPEAKER_VOL_MIN) < 0x180 * (uint (vol_step (speaker_setting ss)) + 1)
      \<and> uint (vol_step (mic_setting sm)) \<le> 85
      \<and> uint (vol_step (speaker_setting ss)) \<le> (if sint v \<le> sint SPEAKER_VOL_MAX then 66 else 149)
      \<and> uint (usbaud_mic_vol_get sm) = 128 * (uint (mute (mic_setting s)) mod 2) + uint (vol_step (mic_setting sm))
      \<and> uint (usbaud_speaker_vol_get ss) = 128 * (uint (mute (speaker_setting s)) mod 2) + uint (vol_step (speaker_setting ss)) mod 128"
proof -
  let ?s = "s\<lparr>ctl_ptr := ctl_ptr s + 2\<rparr>"
  have set: "usbaud_handle_set_mic_cmd AUDIO_FEATURE_VOLUME s = Some (True, usbaud_set_mic_vol v ?s)"
      "usbaud_handle_set_speaker_cmd AUDIO_FEATURE_VOLUME s = Some (True, usbaud_set_speaker_vol v ?s)"
    using assms by (simp_all add: usbaud_handle_set_mic_cmd_def usbaud_handle_set_speaker_cmd_def read_u16 AUDIO_FEATURE_VOLUME_def AUDIO_FEATURE_MUTE_def)
  have step: "vol_step (mic_setting (usbaud_set_mic_vol v ?s)) = usbaud_cal_mic_step v"
      "vol_step (speaker_setting (usbaud_set_speaker_vol v ?s)) = usbaud_cal_speaker_step v"
    by (simp_all add: usbaud_set_mic_vol_def usbaud_set_speaker_vol_def)
  have get: "uint (usbaud_mic_vol_get (usbaud_set_mic_vol v ?s)) = 128 * (uint (mute (mic_setting s)) mod 2) + uint (usbaud_cal_mic_step v) mod 128"
      "uint (usbaud_speaker_vol_get (usbaud_set_speaker_vol v ?s)) = 128 * (uint (mute (speaker_setting s)) mod 2) + uint (usbaud_cal_speaker_step v) mod 128"
    by (simp_all add: usbaud_mic_vol_get_def usbaud_set_mic_vol_def usbaud_speaker_vol_get_def usbaud_set_speaker_vol_def volume_byte)
  have limits: "sint MIC_VOL_MIN = 0" "sint SPEAKER_VOL_MIN = - 24576" "sint SPEAKER_VOL_MAX = 0x300"
    by (simp_all add: MIC_VOL_MIN_def SPEAKER_VOL_MIN_def SPEAKER_VOL_MAX_def)
  have "0x180 * (n div 0x180) \<le> n \<and> n < 0x180 * (n div 0x180 + 1)" for n :: int
    by auto
  moreover have "max 0 (sint v) div 0x180 \<le> 85" "max 0 (sint v + 24576) div 0x180 \<le> (if sint v \<le> 0x300 then 66 else 149)"
      "0 \<le> max 0 (sint v) div 0x180"
    using sint16_le [of v] by (auto simp: max_def)
  ultimately show ?thesis
    by (intro exI [where x = "usbaud_set_mic_vol v ?s"] exI [where x = "usbaud_set_speaker_vol v ?s"])
      (simp only: set step get limits volume_steps, simp)
qed

text \<open>The volume 0x9000, below the lowest of both.\<close>

theorem usbaud_volume_bounds_witness:
  "\<exists>sm ss. usbaud_handle_set_mic_cmd AUDIO_FEATURE_VOLUME (usb_ctrl_new [0, 0x90]) = Some (True, sm)
      \<and> usbaud_handle_set_speaker_cmd AUDIO_FEATURE_VOLUME (usb_ctrl_new [0, 0x90]) = Some (True, ss)
      \<and> max 0 (sint (0x9000 :: u16) - sint MIC_VOL_MIN) < 0x180 * (uint (vol_step (mic_setting sm)) + 1)
      \<and> 0x180 * uint (vol_step (mic_setting sm)) \<le> 0 \<and> 0x180 * uint (vol_step (speaker_setting ss)) \<le> 0"
proof -
  have v: "0x9000 = le16 (ctl_buf (usb_ctrl_new [0, 0x90]) ! ctl_ptr (usb_ctrl_new [0, 0x90]))
      (ctl_buf (usb_ctrl_new [0, 0x90]) ! (ctl_ptr (usb_ctrl_new [0, 0x90]) + 1))" "ctl_ptr (usb_ctrl_new [0, 0x90]) + 1 < length (ctl_buf (usb_ctrl_new [0, 0x90]))"
    by code_simp+
  have "max 0 (sint (0x9000 :: u16) - sint MIC_VOL_MIN) = 0" "max 0 (sint (0x9000 :: u16) - sint SPEAKER_VOL_MIN) = 0"
    by (simp_all add: MIC_VOL_MIN_def SPEAKER_VOL_MIN_def)
  with usbaud_volume_bounds [OF v(2,1)] show ?thesis
    by metis
qed

section \<open>Transfers\<close>

text \<open>A control transfer with data of the host, and one with data of the device.\<close>

definition host_writes :: "usb_cfg \<Rightarrow> u8 list \<Rightarrow> u8 list \<Rightarrow> usb_ctrl \<Rightarrow> usb_ctrl option" where
  "host_writes c setup dat s = do {
     s \<leftarrow> usb_handle_ctl_ep_setup c (s\<lparr>ctl_buf := setup\<rparr>);
     usb_handle_ctl_ep_data c (s\<lparr>ctl_buf := dat\<rparr>) }"

definition host_reads :: "usb_cfg \<Rightarrow> u8 list \<Rightarrow> usb_ctrl \<Rightarrow> (u8 list \<times> u8) option" where
  "host_reads c setup s = do {
     s \<leftarrow> usb_handle_ctl_ep_setup c (s\<lparr>ctl_buf := setup\<rparr>);
     Some (in_packet s, reg_ctrl_ep_ctrl s) }"

definition SetReport_setup :: "u8 list" where "SetReport_setup = [0x21, HID_REQ_SetReport, 0x05, 0x03, 0, 0, 8, 0]"
definition GetReport_setup :: "u8 list" where "GetReport_setup = [0xa1, HID_REQ_GetReport, 0x05, 0x03, 0, 0, 8, 0]"

lemma setup_request:
  "length p = 8 \<Longrightarrow> usb_handle_ctl_ep_setup c (s\<lparr>ctl_buf := p\<rparr>)
    = do { s \<leftarrow> usb_handle_request c False (s\<lparr>ctl_buf := p, ctl_ptr := 8, control_request := setup_req p, g_stall := False\<rparr>); Some (data_reply s) }"
  by (simp add: setup_reads after_setup_def)

lemma class_audio_skip: "\<not> g_stall s \<Longrightarrow> (if b then class_out_audio s else Some s) = Some s" "\<not> g_stall s \<Longrightarrow> (if b then class_in_audio s else Some s) = Some s"
  by (simp_all add: class_out_audio_def class_in_audio_def)

definition custom_base :: "u8 list \<Rightarrow> usb_ctrl \<Rightarrow> usb_ctrl" where
  "custom_base cmd s = s\<lparr>ctl_buf := cmd, ctl_ptr := 8, control_request := setup_req SetReport_setup, g_stall := False, reg_ctrl_ep_ctrl := FLD_EP_DAT_ACK\<rparr>"

lemma write_custom:
  assumes "USB_CUSTOM_HID_REPORT c" and "length cmd = 8"
  shows "host_writes c SetReport_setup cmd s = Some (data_reply (custom_command cmd (custom_base cmd s)))"
proof -
  have len: "length SetReport_setup = 8"
    by (simp add: SetReport_setup_def)
  have r: "setup_req SetReport_setup = \<lparr>RequestType = 0x21, Request = HID_REQ_SetReport, Value = 0x0305, Index = 0, Length = 8\<rparr>"
    by (simp add: setup_req_def SetReport_setup_def le16_def)
  have "usb_handle_ctl_ep_setup c (s\<lparr>ctl_buf := SetReport_setup\<rparr>)
      = Some (s\<lparr>ctl_buf := SetReport_setup, ctl_ptr := 0, control_request := setup_req SetReport_setup, g_stall := False, reg_ctrl_ep_ctrl := FLD_EP_DAT_ACK\<rparr>)"
    using assms by (simp add: setup_request [OF len] usb_handle_request_def usbhw_reset_ctrl_ep_ptr_def r Let_def
      usb_handle_out_class_intf_req_def class_out_hid_def value_h_def class_out_audio_def data_reply_def)
  moreover have "g_stall (custom_command cmd (custom_base cmd s)) = False"
    using custom_same [of "custom_base cmd s" cmd] by (simp add: same_usb_def custom_base_def)
  moreover have base: "s\<lparr>control_request := \<lparr>RequestType = 0x21, Request = HID_REQ_SetReport, Value = 0x0305, Index = 0, Length = 8\<rparr>,
      reg_ctrl_ep_ctrl := FLD_EP_DAT_ACK, ctl_buf := cmd, g_stall := False, ctl_ptr := 8\<rparr> = custom_base cmd s"
    by (simp add: custom_base_def r)
  ultimately show ?thesis
    using assms by (simp add: host_writes_def usb_handle_ctl_ep_data_def usb_handle_request_def usbhw_reset_ctrl_ep_ptr_def r Let_def
      usb_handle_out_class_intf_req_def class_out_hid_def value_h_def get_bytes_def base class_out_audio_def)
qed

lemma read_custom:
  assumes "USB_CUSTOM_HID_REPORT c" and "length (custom_answer s) = 8"
  shows "host_reads c GetReport_setup s = Some (custom_answer s, FLD_EP_DAT_ACK)"
proof -
  have len: "length GetReport_setup = 8"
    by (simp add: GetReport_setup_def)
  have r: "setup_req GetReport_setup = \<lparr>RequestType = 0xa1, Request = HID_REQ_GetReport, Value = 0x0305, Index = 0, Length = 8\<rparr>"
    by (simp add: setup_req_def GetReport_setup_def le16_def)
  let ?s = "s\<lparr>ctl_buf := GetReport_setup, control_request := setup_req GetReport_setup, g_stall := False, ctl_ptr := 0\<rparr>"
  have "custom_answer ?s = custom_answer s"
    by (simp add: custom_answer_def)
  then have w: "write_ctrl_ep (custom_answer ?s) ?s = Some (?s\<lparr>ctl_buf := custom_answer s, ctl_ptr := 8\<rparr>)"
    using write_bytes [of ?s "custom_answer s"] len assms(2) by simp
  show ?thesis
    using assms w by (simp add: host_reads_def setup_request [OF len] usb_handle_request_def usbhw_reset_ctrl_ep_ptr_def r Let_def
      usb_handle_in_class_intf_req_def class_in_hid_def HID_REQ_GetReport_def class_in_audio_def data_reply_def in_packet_def)
qed

lemma custom_answer_length: "length (custom_answer s) = 8"
  by (simp add: custom_answer_def)

section \<open>Registers\<close>

text \<open>The address of a core register, and the four registers that a read takes.\<close>

definition core_addr :: "u8 \<Rightarrow> u8 \<Rightarrow> u32" where
  "core_addr l h = 0x800000 + ucast (BYTES_TO_UINT16 l h)"

definition core_regs :: "u8 \<Rightarrow> u8 \<Rightarrow> usb_ctrl \<Rightarrow> u8 list" where
  "core_regs l h s = map (\<lambda>i. core_reg s (core_addr l h + of_nat i)) [0..<4]"

lemma core_addr_or:
  assumes "i \<le> 3"
  shows "reg_addr (core_addr l h + of_nat i) = core_addr l h + of_nat i"
proof -
  define x where "x = (ucast (BYTES_TO_UINT16 l h) :: u32)"
  have "unat (BYTES_TO_UINT16 l h) < 65536"
    by (rule order_less_le_trans [OF unsigned_less]) simp
  then have x: "unat x < 65536"
    by (simp add: x_def unsigned_ucast_eq take_bit_eq_mod)
  define k where "k = x + of_nat i"
  have "unat k = (unat x + i) mod 2 ^ 32"
    using assms by (simp add: k_def unat_word_ariths unat_of_nat take_bit_eq_mod)
  then have "k < 2 ^ 17"
    using x assms by (simp add: word_less_nat_alt)
  then have "take_bit 17 k = k"
    by (simp add: word_unat_eq_iff unsigned_take_bit_eq take_bit_nat_eq_self_iff word_less_nat_alt)
  then have "bit k n \<Longrightarrow> n < 17" for n
    by (metis bit_take_bit_iff)
  moreover have "bit (0x800000 :: u32) n \<Longrightarrow> n = 23" for n
    using bit_push_bit_iff [of 23 "1 :: u32" n] by (auto simp: bit_1_iff dest: bit_imp_le_length)
  ultimately have k: "0x800000 + k = 0x800000 OR k"
    by (intro disjunctive_add) fastforce
  have "core_addr l h + of_nat i = 0x800000 OR k"
    using k by (simp add: core_addr_def k_def x_def add.assoc)
  then show ?thesis
    by (simp add: reg_addr_def flip: or.assoc)
qed

lemma bstream_uint32: "UINT32_TO_BSTREAM (BYTES_TO_UINT32 a b c d) = [a, b, c, d]"
proof -
  have "ucast (BYTES_TO_UINT32 a b c d) = a" "ucast (drop_bit 8 (BYTES_TO_UINT32 a b c d)) = b"
      "ucast (drop_bit 16 (BYTES_TO_UINT32 a b c d)) = c" "ucast (drop_bit 24 (BYTES_TO_UINT32 a b c d)) = d"
    unfolding BYTES_TO_UINT32_or by (rule bit_word_eqI; auto simp: word_bit_simps dest: bit_imp_le_length)+
  then show ?thesis
    by (simp add: UINT32_TO_BSTREAM_def)
qed

definition shift_in :: "u8 \<Rightarrow> u32 \<Rightarrow> u32" where
  "shift_in b w = drop_bit 8 w OR push_bit 24 (ucast b)"

lemma shift_in_four: "shift_in t (shift_in z (shift_in y (shift_in x w))) = BYTES_TO_UINT32 x y z t"
  unfolding BYTES_TO_UINT32_or shift_in_def
  by (rule bit_word_eqI) (auto simp: word_bit_simps dest: bit_imp_le_length)

lemma read_core_loop_step: "read_core_loop (Suc n) a s = read_core_loop n (a + 1) (s\<lparr>custom_read_dat := shift_in (core_reg s (reg_addr a)) (custom_read_dat s)\<rparr>)"
  by (simp add: shift_in_def)

lemma core_regs_read:
  "read_core_loop 4 (core_addr l h) s = s\<lparr>custom_read_dat := BYTES_TO_UINT32 (core_reg s (core_addr l h)) (core_reg s (core_addr l h + 1))
    (core_reg s (core_addr l h + 2)) (core_reg s (core_addr l h + 3))\<rparr>"
proof -
  have a: "reg_addr (core_addr l h) = core_addr l h" "reg_addr (core_addr l h + 1) = core_addr l h + 1"
      "reg_addr (core_addr l h + 2) = core_addr l h + 2" "reg_addr (core_addr l h + 3) = core_addr l h + 3"
    using core_addr_or [of 0 l h] core_addr_or [of 1 l h] core_addr_or [of 2 l h] core_addr_or [of 3 l h] by simp_all
  have four: "(4 :: nat) = Suc (Suc (Suc (Suc 0)))"
    by simp
  have sums: "core_addr l h + 1 + 1 = core_addr l h + 2" "core_addr l h + 2 + 1 = core_addr l h + 3"
    by simp_all
  show ?thesis
    unfolding four read_core_loop_step sums by (simp add: a shift_in_four)
qed

lemma regular_command:
  assumes "cmd ! 1 = 0xc0 \<or> cmd ! 1 = 0xc3"
  shows "custom_command cmd s = register_access cmd (core_addr (cmd ! 2) (cmd ! 3)) (s\<lparr>custom_reg_cmd := True, host_cmd := cmd[0 := 0]\<rparr>)"
proof -
  have "(0xc0 :: u8) \<noteq> 0xcc" "(0xc3 :: u8) \<noteq> 0xcc"
    by code_simp+
  then have "cmd ! 1 \<noteq> 0xcc" "cmd ! 1 AND 0xf0 = 0xc0"
    using assms by auto
  then show ?thesis
    by (simp add: custom_command_def core_addr_def add.commute)
qed

lemma custom_write:
  "core_reg (custom_command [x, 0xc3, l, h, b0, b1, b2, b3] s) = (core_reg s)(core_addr l h := b0, core_addr l h + 1 := b1,
     core_addr l h + 2 := b2, core_addr l h + 3 := b3)"
  using core_addr_or [of 0 l h] by (simp add: regular_command register_access_def write_core_def)

lemma custom_read:
  "custom_read_dat (custom_command [x, 0xc0, l, h, c0, c1, c2, c3] s) = BYTES_TO_UINT32 (core_reg s (core_addr l h)) (core_reg s (core_addr l h + 1))
     (core_reg s (core_addr l h + 2)) (core_reg s (core_addr l h + 3))"
  "custom_reg_cmd (custom_command [x, 0xc0, l, h, c0, c1, c2, c3] s)"
  "core_reg (custom_command [x, 0xc0, l, h, c0, c1, c2, c3] s) = core_reg s"
  by (simp_all add: regular_command register_access_def core_regs_read)

text \<open>
  Registers written with the custom report are read back with it: after the report that writes four bytes
  to an address of the core and the report that reads that address, the next request for the report
  answers with these bytes; the other registers are as before, and every stage is acknowledged.
\<close>

theorem usb_register_roundtrip:
  assumes "USB_CUSTOM_HID_REPORT c"
  shows "\<exists>s' s''. host_writes c SetReport_setup [x, 0xc3, l, h, b0, b1, b2, b3] s = Some s'
    \<and> core_reg s' = (core_reg s)(core_addr l h := b0, core_addr l h + 1 := b1, core_addr l h + 2 := b2, core_addr l h + 3 := b3)
    \<and> host_writes c SetReport_setup [y, 0xc0, l, h, c0, c1, c2, c3] s' = Some s'' \<and> core_reg s'' = core_reg s'
    \<and> host_reads c GetReport_setup s'' = Some ([b0, b1, b2, b3, 0x10, 0x20, 0x40, 0x80], FLD_EP_DAT_ACK)"
proof -
  define m where "m = data_reply (custom_command [x, 0xc3, l, h, b0, b1, b2, b3] (custom_base [x, 0xc3, l, h, b0, b1, b2, b3] s))"
  define n where "n = data_reply (custom_command [y, 0xc0, l, h, c0, c1, c2, c3] (custom_base [y, 0xc0, l, h, c0, c1, c2, c3] m))"
  have run: "host_writes c SetReport_setup [x, 0xc3, l, h, b0, b1, b2, b3] s = Some m"
      "host_writes c SetReport_setup [y, 0xc0, l, h, c0, c1, c2, c3] m = Some n"
    using assms by (simp_all add: write_custom m_def n_def)
  have base: "core_reg (custom_base p t) = core_reg t" "core_reg (data_reply t) = core_reg t"
      "custom_read_dat (data_reply t) = custom_read_dat t" "custom_reg_cmd (data_reply t) = custom_reg_cmd t" for p t
    by (simp_all add: custom_base_def data_reply_def)
  have m: "core_reg m = (core_reg s)(core_addr l h := b0, core_addr l h + 1 := b1, core_addr l h + 2 := b2, core_addr l h + 3 := b3)"
    using custom_write [of x l h b0 b1 b2 b3 "custom_base [x, 0xc3, l, h, b0, b1, b2, b3] s"] by (simp add: m_def base)
  have "custom_read_dat n = BYTES_TO_UINT32 b0 b1 b2 b3"
    by (simp add: n_def base custom_read m)
  moreover have "custom_reg_cmd n" "core_reg n = core_reg m"
    by (simp_all add: n_def base custom_read)
  ultimately show ?thesis
    using run m read_custom [OF assms custom_answer_length, of n] by (simp add: custom_answer_def bstream_uint32)
qed

theorem usb_register_roundtrip_witness:
  "\<exists>s' s''. host_writes usb_demo_cfg SetReport_setup [0, 0xc3, 0x8c, 0x05, 1, 2, 3, 4] (usb_ctrl_new (replicate 8 0)) = Some s'
    \<and> core_reg s' = (core_reg (usb_ctrl_new (replicate 8 0)))(core_addr 0x8c 0x05 := 1, core_addr 0x8c 0x05 + 1 := 2, core_addr 0x8c 0x05 + 2 := 3, core_addr 0x8c 0x05 + 3 := 4)
    \<and> host_writes usb_demo_cfg SetReport_setup [0, 0xc0, 0x8c, 0x05, 0, 0, 0, 0] s' = Some s'' \<and> core_reg s'' = core_reg s'
    \<and> host_reads usb_demo_cfg GetReport_setup s'' = Some ([1, 2, 3, 4, 0x10, 0x20, 0x40, 0x80], FLD_EP_DAT_ACK)"
  by (rule usb_register_roundtrip) (simp add: usb_demo_cfg_def)

section \<open>Volume requests\<close>

text \<open>The host sets the volume of the microphone, or its mute state, and asks for the volume.\<close>

definition SetVolume_setup :: "u8 list" where "SetVolume_setup = [0x21, 0x01, 0, AUDIO_FEATURE_VOLUME, 0, USB_MIC_FEATURE_UNIT_ID, 2, 0]"
definition GetVolume_setup :: "u8 list" where "GetVolume_setup = [0xa1, AUDIO_REQ_GetCurrent, 0, AUDIO_FEATURE_VOLUME, 0, USB_MIC_FEATURE_UNIT_ID, 2, 0]"
definition SetMute_setup :: "u8 list" where "SetMute_setup = [0x21, 0x01, 0, AUDIO_FEATURE_MUTE, 0, USB_MIC_FEATURE_UNIT_ID, 1, 0]"

lemmas audio_request_defs = usb_handle_request_def usbhw_reset_ctrl_ep_ptr_def Let_def usb_handle_out_class_intf_req_def class_out_hid_def
  class_out_audio_def HID_REQ_SetReport_def HID_REQ_SetIdle_def HID_REQ_SetProtocol_def entity_def value_h_def USB_MIC_FEATURE_UNIT_ID_def
  USB_SPEAKER_FEATURE_UNIT_ID_def usbaud_handle_set_mic_cmd_def AUDIO_FEATURE_MUTE_def AUDIO_FEATURE_VOLUME_def read_u16 usbaud_set_mic_vol_def
  data_reply_def

text \<open>The handler does not wait for the data: already the setup stage sets a volume, from the first two bytes of the
  setup packet.\<close>

lemma SetVolume_request: "setup_req SetVolume_setup = \<lparr>RequestType = 0x21, Request = 1, Value = 0x0200, Index = 0x0500, Length = 2\<rparr>"
  by (simp add: setup_req_def SetVolume_setup_def le16_def AUDIO_FEATURE_VOLUME_def USB_MIC_FEATURE_UNIT_ID_def)

lemma usb_volume_setup_stage:
  assumes "USB_MIC_ENABLE c \<or> USB_SPEAKER_ENABLE c"
  shows "usb_handle_ctl_ep_setup c (s\<lparr>ctl_buf := SetVolume_setup\<rparr>)
      = Some (s\<lparr>ctl_buf := SetVolume_setup, control_request := setup_req SetVolume_setup, g_stall := False, ctl_ptr := 2,
          mic_setting := (mic_setting s)\<lparr>vol_cur := 0x0121, vol_step := usbaud_cal_mic_step 0x0121\<rparr>, reg_ctrl_ep_ctrl := FLD_EP_DAT_ACK\<rparr>)"
proof -
  have len: "length SetVolume_setup = 8" and v: "le16 (SetVolume_setup ! 0) (SetVolume_setup ! Suc 0) = 0x0121"
    by (simp_all add: SetVolume_setup_def le16_def)
  show ?thesis
    using assms len by (simp add: setup_request [OF len] SetVolume_request audio_request_defs v numeral_2_eq_2 [symmetric])
qed

lemma host_sets_mic:
  assumes "USB_MIC_ENABLE c \<or> USB_SPEAKER_ENABLE c" and "length dat = 8"
  shows "\<exists>s'. host_writes c SetVolume_setup dat s = Some s'
    \<and> mic_setting s' = (mic_setting s)\<lparr>vol_cur := le16 (dat ! 0) (dat ! 1), vol_step := usbaud_cal_mic_step (le16 (dat ! 0) (dat ! 1))\<rparr>"
  using assms by (simp add: host_writes_def usb_volume_setup_stage usb_handle_ctl_ep_data_def SetVolume_request audio_request_defs)

lemma host_gets_mic:
  assumes "USB_MIC_ENABLE c \<or> USB_SPEAKER_ENABLE c"
  shows "host_reads c GetVolume_setup s = Some ([ucast (vol_cur (mic_setting s)), ucast (drop_bit 8 (vol_cur (mic_setting s)))], FLD_EP_DAT_ACK)"
proof -
  have len: "length GetVolume_setup = 8"
    by (simp add: GetVolume_setup_def)
  have r: "setup_req GetVolume_setup = \<lparr>RequestType = 0xa1, Request = 0x81, Value = 0x0200, Index = 0x0500, Length = 2\<rparr>"
    by (simp add: setup_req_def GetVolume_setup_def le16_def AUDIO_FEATURE_VOLUME_def USB_MIC_FEATURE_UNIT_ID_def AUDIO_REQ_GetCurrent_def)
  show ?thesis
    using assms len by (simp add: host_reads_def setup_request [OF len] r audio_request_defs usb_handle_in_class_intf_req_def class_in_hid_def
      HID_REQ_GetReport_def HID_REQ_GetIdle_def HID_REQ_GetProtocol_def class_in_audio_def usbaud_handle_get_mic_cmd_def get_cmd_def get_volume_def
      AUDIO_REQ_GetCurrent_def usbhw_write_ctrl_ep_u16_def write_bytes in_packet_def del: write_ctrl_ep.simps)
qed

text \<open>
  A volume that the host sets for the microphone is the volume it reads: after the control transfer that sets it,
  the request for the current volume is answered with the same two bytes, and the audio driver has the
  step that belongs to that volume.
\<close>

theorem usb_mic_volume_roundtrip:
  assumes "USB_MIC_ENABLE c \<or> USB_SPEAKER_ENABLE c" and "length dat = 8"
  shows "\<exists>s'. host_writes c SetVolume_setup dat s = Some s' \<and> host_reads c GetVolume_setup s' = Some (take 2 dat, FLD_EP_DAT_ACK)
    \<and> vol_step (mic_setting s') = usbaud_cal_mic_step (le16 (dat ! 0) (dat ! 1)) \<and> mute (mic_setting s') = mute (mic_setting s)"
proof -
  obtain s' where s': "host_writes c SetVolume_setup dat s = Some s'"
      "mic_setting s' = (mic_setting s)\<lparr>vol_cur := le16 (dat ! 0) (dat ! 1), vol_step := usbaud_cal_mic_step (le16 (dat ! 0) (dat ! 1))\<rparr>"
    using host_sets_mic [OF assms] by blast
  moreover have "take 2 dat = [dat ! 0, dat ! 1]"
    using assms(2) by (cases dat; cases "tl dat") auto
  ultimately show ?thesis
    using host_gets_mic [OF assms(1), of s'] by (simp add: le16_bytes)
qed

theorem usb_mic_volume_roundtrip_witness:
  "\<exists>s'. host_writes usb_demo_cfg SetVolume_setup [0x80, 0x13, 0, 0, 0, 0, 0, 0] (usb_ctrl_new (replicate 8 0)) = Some s'
    \<and> host_reads usb_demo_cfg GetVolume_setup s' = Some (take 2 [0x80, 0x13, 0, 0, 0, 0, 0, 0], FLD_EP_DAT_ACK)
    \<and> vol_step (mic_setting s') = usbaud_cal_mic_step (le16 ([0x80, 0x13, 0, 0, 0, 0, 0, 0] ! 0) ([0x80, 0x13, 0, 0, 0, 0, 0, 0] ! 1))
    \<and> mute (mic_setting s') = mute (mic_setting (usb_ctrl_new (replicate 8 0)))"
  by (rule usb_mic_volume_roundtrip) (simp_all add: usb_demo_cfg_def)

end
