(* ===== verification/Spec2Isabelle.thy ===== *)
theory Spec2Isabelle
  imports Div64 Utility String_C My_Fifo Tl_Queue H4_Theorems H5_Theorems H5_Converge H5_Stream Hci_Tr Dfu_Update Custom_Pair_Spec Adpcm_Theorems Soft_Timer_Theorems Device_Theorems
    Tl_Printf Uart_Print Keyboard_Scan Flash_Prot_Theorems Flash_Layout_Theorems Usb_Kb_Press Usb_Ctrl_Rt
begin

text \<open>
  \<^bold>\<open>The Telink BLE SDK: a verified model of its open source core.\<close>

  The repository (\<^verbatim>\<open>src/tc_ble_sdk\<close>) is a software development kit for Bluetooth Low Energy chips.
  The controller and most of the host are binary libraries (\<^verbatim>\<open>proj_lib\<close>) with header files; what is
  written out in C is the HCI transport between an external host and the controller, the firmware
  update on top of it, the flash driver and the chips it knows, the keyboard, the USB device, the
  printers, the tables and timers of the applications, the voice codec and the common library.  This development models these parts and proves them correct, or, where
  they are not, shows what they do instead.

  \<^bold>\<open>Conventions.\<close>  Machine integers are words of their width; C arrays are lists with bounds: an
  operation returns \<open>None\<close> exactly when the code would access an array outside of it, so that a theorem
  with \<open>Some\<close> is also a theorem of memory safety (theory \<open>C_Prelude\<close>: \<open>get_byte\<close>, \<open>put_byte\<close>,
  \<open>get_bytes\<close>, \<open>put_bytes\<close>, \<open>first_index\<close>).  Error codes, refusals and early returns are ordinary
  values.  Static variables and control blocks are records, which each operation returns updated.
  Assertions that the build compiles out, trace output and register configuration are left out.
  Loops are recursive functions: most count the rounds that are left or have a termination proof
  (\<open>process_loop\<close>, \<open>div_loop\<close>, \<open>program_pages\<close>).  Loops that need not end are partial functions
  whose value is \<open>None\<close> when they do not return (\<open>h4_rx_loop\<close>, \<open>h5_rx_loop\<close>, the walks along a linked
  queue); the theorems on streams and queues show that they return, with \<open>Some\<close>.  To tell a loop that
  does not end from an access outside a buffer, \<open>h4_rx_body\<close> is one pass of the H4 loop, with which the
  loop agrees (\<open>h4_rx_loop_body\<close>): \<open>h4_acl_len_hangs\<close> shows a packet for which every pass succeeds and
  wants another one.  The software UART waits on a list of clock readings; \<open>uart_frame_received\<close> gives a number
  of readings that is enough.  The outer receive loops take as
  many slots as are filled when they start; slots that an interrupt fills meanwhile belong to the next
  call.

  \<^bold>\<open>Interfaces.\<close>  Three contracts are locales, each proved for the model's own operations:
  \<open>safe_system\<close> (theory \<open>Safe_System\<close>: handlers of events that stay inside their buffers and keep an
  invariant; interpreted for the H5 link layer, also with whole frames
  as events, for the H4 transmitter, for the firmware
  update, for the software timers and for the USB device), \<open>simulates\<close> (theory \<open>Simulation\<close>:
  operations that do what a reference model does; interpreted for the linked queue, the ring \<open>my_fifo_t\<close>
  with its refusals, the bonding table,
  the connection table, the USB reports and the flash protection)
  and \<open>packet_store\<close> (theory \<open>Packet_Store\<close>: bounded first-in first-out stores;
  interpreted for the rings \<open>hci_fifo_t\<close> and \<open>my_fifo_t\<close>).

  \<^bold>\<open>HCI transport\<close> (\<^verbatim>\<open>vendor/common/hci_transport\<close>).
  \<^item> \<open>Hci_Fifo\<close>: the rings \<open>hci_fifo_t\<close> of \<^verbatim>\<open>stack/ble/hci/hci.h\<close> and the accesses the
    transports make to them.
  \<^item> \<open>Slip\<close>: \<^verbatim>\<open>hci_slip.c\<close>, encoding, decoding and sending of SLIP frames; the decoder agrees
    with a reference on every input, and inverts the encoder.
  \<^item> \<open>H5_Codec\<close>, \<open>H5_Link\<close>, \<open>H5_Send\<close>: \<^verbatim>\<open>hci_h5.c\<close>, headers, check sums, the link control
    block and all handlers.  \<open>H5_Safety\<close>, \<open>H5_Receive\<close>, \<open>H5_Events\<close>: the invariant of the link and
    that every event keeps it.  \<open>H5_Protocol\<close>: what a packet does to the receiver, what an
    acknowledgement does to the sender.  \<open>H5_Handshake\<close>: link establishment against a state machine.
    \<open>H5_Theorems\<close>: safety of every run, delivery, acknowledgement, retransmission, duplicates,
    round trips, and the defects.  The conditions on a run are that no data packet announces more
    than a slot of the receive ring holds (\<open>h5_rx_slot_overrun\<close>) and that the controller writes
    well-formed packets into free slots.  \<open>H5_Converge\<close>: two stations that run this code at the ends of a
    line become active from any pair of states, by the poll and the receive path themselves.
  \<^item> \<open>H5_Tr\<close>, \<open>H5_Frames\<close>, \<open>H5_Stream\<close>: \<^verbatim>\<open>hci_tr_h5.c\<close>, the division of the byte stream
    into frames, for any division of the stream into DMA bursts.
  \<^item> \<open>H4_Tr\<close>, \<open>H4_Stream\<close>, \<open>H4_Theorems\<close>: \<^verbatim>\<open>hci_tr_h4.c\<close>, likewise for H4 packets.
  \<^item> \<open>Hci_Tr\<close>: \<^verbatim>\<open>hci_tr.c\<close>, the glue: the transmitter, and the H5 stack as a whole, from the
    bytes on the wire to the controller.  \<open>blc_hci_handler\<close> of the controller is a parameter.

  \<^bold>\<open>Flash, firmware update, bonding.\<close>
  \<^item> \<open>Flash\<close>: \<^verbatim>\<open>drivers/B85/flash.c\<close> down to the transactions on the SPI bus.  The chip is a
    parameter; \<open>nor_flash\<close> states what the driver relies on (programming clears bits within a page of
    256 bytes, erasing sets a sector), and \<open>nor_chip\<close> is a chip that has these properties.
  \<^item> \<open>Flash_Chips\<close>, \<open>Flash_Protection\<close>: \<^verbatim>\<open>drivers/B85/flash\<close>, the status register and the block
    protection of the eleven chips of B85.  The definitions of the chips follow their files one by
    one; two common forms (\<open>masked_write8\<close>, \<open>masked_write16\<close>) carry their proofs, and the theorems
    speak of every entry of \<open>flash_list\<close>.  \<open>status_chip\<close> states what the register of a chip does.
  \<^item> \<open>Flash_Prot\<close>, \<open>Flash_Prot_Theorems\<close>, \<open>Flash_Layout_Theorems\<close>: \<^verbatim>\<open>vendor/common/flash_prot.c\<close> with the
    handler of the flash events in \<^verbatim>\<open>app.c\<close> of the demos, \<^verbatim>\<open>ble_flash.c\<close>, \<^verbatim>\<open>flash_fw_check.c\<close> and
    \<^verbatim>\<open>blt_fw_sign.c\<close>, for the chips of B85.  The firmware is locked after every event but during an
    update, and the sectors of the system are not; the address of the device is permanent; the check at the start
    is the check sum of the image, with the sizes for which it is not.
  \<^item> \<open>Dfu\<close>, \<open>Dfu_Steps\<close>, \<open>Dfu_Theorems\<close>, \<open>Dfu_Update\<close>: \<^verbatim>\<open>hci_dfu.c\<close> and \<^verbatim>\<open>hci_dfu_port.c\<close>.  An
    update puts exactly the image into the flash and switches the boot flags; only an image with the
    right check sum is marked bootable, whatever a host sends, with the exceptions named at
    \<open>dfu_installs_only_intact\<close>: a first data packet below nine bytes, an end before the first start, and
    what comes between success and restart.
  \<^item> \<open>Custom_Pair\<close>, \<open>Custom_Pair_Theorems\<close>, \<open>Custom_Pair_Spec\<close>: \<^verbatim>\<open>vendor/common/custom_pair.c\<close>,
    the bonding table in RAM and flash against a list of peers, across restarts between its operations.
    A full sector refuses additions; a loss of power while the sector is rewritten loses the table
    (\<open>bonds_lost_in_clean\<close>).

  \<^bold>\<open>Applications.\<close>
  \<^item> \<open>Device_Manage\<close>, \<open>Device_Theorems\<close>: \<^verbatim>\<open>vendor/common/device_manage.c\<close>, the connection table
    against the list of live connections, and its counters.  The numbers of slots are arguments; at
    most 255 slots, so that an index is never the invalid one.
  \<^item> \<open>Soft_Timer\<close>, \<open>Soft_Timer_Sort\<close>, \<open>Soft_Timer_Theorems\<close>: \<^verbatim>\<open>vendor/common/blt_soft_timer.c\<close>,
    the sorted table of timers; callbacks are a parameter that may change the table.
  \<^item> \<open>Adpcm\<close>, \<open>Adpcm_Theorems\<close>: \<^verbatim>\<open>application/audio/adpcm.c\<close>, the voice codec in its variants:
    the decoder follows the encoder, and how far the reconstruction is from the samples.

  \<^item> \<open>Keycodes\<close>, \<open>Keyboard\<close>, \<open>Keyboard_Scan\<close>: \<^verbatim>\<open>application/keyboard/keyboard.c\<close> on readings of
    the pins: ghost keys, debouncing, the ring of matrices as a queue, and the scan as a whole.
  \<^item> \<open>Printf\<close>, \<open>Tl_Printf\<close>: \<^verbatim>\<open>application/print/u_printf.c\<close> and \<^verbatim>\<open>drivers/TC123X/printf.c\<close> against
    the text that a format denotes, and numbers that read back.  \<open>Uart_Print\<close>: the characters on the
    pin of the software UART (\<^verbatim>\<open>putchar.c\<close>).

  \<^bold>\<open>USB device\<close> (\<^verbatim>\<open>application/usbstd\<close>, \<^verbatim>\<open>application/app\<close>).
  \<^item> \<open>Usb_Hid\<close>, \<open>Usb_Hid_Theorems\<close>, \<open>Usb_Kb_Press\<close>: \<^verbatim>\<open>usbkb.c\<close> and \<^verbatim>\<open>usbmouse.c\<close> on the endpoints of
    \<^verbatim>\<open>usbhw.h\<close>: reports against a queue of four, presses and releases, and the keys and movements that
    are stuck, repeated or lost.  \<open>Ring4\<close> has the ring lemmas shared with the keyboard.
  \<^item> \<open>Usb_Desc\<close>: \<^verbatim>\<open>usbdesc.c\<close>, the descriptors for every choice of interfaces, and a parser that
    shows them consistent.
  \<^item> \<open>Usb_Ctrl\<close>, \<open>Usb_Ctrl_Theorems\<close>, \<open>Usb_Ctrl_Safe\<close>, \<open>Usb_Ctrl_Rt\<close>: \<^verbatim>\<open>usb.c\<close> and \<^verbatim>\<open>usbaud.c\<close>:
    descriptors in packets of eight bytes, safety of every interrupt, and what the host reads back of
    registers and volumes.  The control endpoint is a buffer of eight bytes with a pointer.

  \<^bold>\<open>Common library\<close> (\<^verbatim>\<open>common\<close>).
  \<^item> \<open>Math64\<close>, \<open>Div64\<close>: long multiplication and division of \<^verbatim>\<open>utility.c\<close> and \<^verbatim>\<open>utility.h\<close>,
    equal to multiplication and division of words.
  \<^item> \<open>Utility\<close>: byte orders, streams, hexadecimal text.  \<open>My_Fifo\<close>: the ring \<open>my_fifo_t\<close>.
  \<^item> \<open>Tl_Queue\<close>: \<^verbatim>\<open>tl_queue.c\<close>, a linked queue with priorities on a heap of next pointers, against
    lists.  \<open>String_C\<close>: \<^verbatim>\<open>string.c\<close>, with overlapping memory.

  \<^bold>\<open>Not modelled.\<close>  The controller and host libraries (no source); the peripheral drivers other than the
  B85 flash driver and boot code (register access and assembly); the demo applications
  (configuration, callbacks and glue around the libraries); the CDC and somatic USB interfaces, which
  cannot be compiled, and the Microsoft OS descriptors.  Parts with logic of their own
  that are left: the rings of voice packets (\<^verbatim>\<open>application/audio/tl_audio.c\<close>), the flash chips of
  B87, TC321X and TC123X, the simple service discovery of the central demos
  (\<^verbatim>\<open>vendor/common/simple_sdp.c\<close>), the calibration values of \<^verbatim>\<open>ble_flash.c\<close>, the LED
  (\<^verbatim>\<open>blt_led.c\<close>) and the battery check.  Timing is modelled by the values the clock returns; interrupts occur between, not within,
  handlers.
\<close>

end
